(* ===== verification/Graywolf_Prelude.thy ===== *)
theory Graywolf_Prelude
  imports Main "HOL-Library.Word" "HOL-Library.Char_ord" "HOL-Library.Monad_Syntax"
begin

text \<open>
  Shared vocabulary of the development: machine bytes, Go strings as byte strings, the
  functions of Go's \<^verbatim>\<open>strings\<close>, \<^verbatim>\<open>strconv\<close> and \<^verbatim>\<open>fmt\<close> packages that the sources
  call, 64-bit durations, and the named collections the component theories fill.

  A Go string is a sequence of bytes, so it is a HOL \<^typ>\<open>string\<close> here, one
  \<^typ>\<open>char\<close> per byte; a \<^verbatim>\<open>[]byte\<close> is a list of 8-bit words.
\<close>

unbundle bit_operations_syntax

named_theorems wire_simps \<open>evaluation of the byte-level encoders and decoders\<close>
named_theorems session_simps \<open>field updates of the LAPB session operations\<close>
named_theorems session_inv_intros \<open>preservation of the LAPB session invariant\<close>
named_theorems gov_simps \<open>field updates of the governor operations\<close>

section \<open>Bytes\<close>

type_synonym u8 = "8 word"
type_synonym u32 = "32 word"
type_synonym bytes = "u8 list"

abbreviation byte_of :: "char \<Rightarrow> u8" where
  "byte_of c \<equiv> of_char c"

definition char_of_byte :: "u8 \<Rightarrow> char" where
  "char_of_byte b = Char (bit b 0) (bit b 1) (bit b 2) (bit b 3) (bit b 4) (bit b 5) (bit b 6) (bit b 7)"

definition bytes_of :: "string \<Rightarrow> bytes" where
  "bytes_of s = map byte_of s"

definition string_of :: "bytes \<Rightarrow> string" where
  "string_of bs = map char_of_byte bs"

lemma unat_byte_of: "unat (byte_of c) = of_char c"
proof -
  have "unat (of_nat (of_char c :: nat) :: u8) = of_char c mod 2 ^ LENGTH(8)"
    unfolding unsigned_of_nat by (simp add: take_bit_eq_mod)
  then show ?thesis by (simp add: of_nat_of_char)
qed

lemma char_of_byte_alt: "char_of_byte b = char_of (unat b)"
  by (simp add: char_of_byte_def char_of_def bit_unsigned_iff flip: bit_0)

lemma char_of_byte_of [simp]: "char_of_byte (byte_of c) = c"
  by (simp add: char_of_byte_alt unat_byte_of)

lemma byte_of_char_of [simp]: "byte_of (char_of_byte b) = b"
proof -
  have "unat (byte_of (char_of_byte b)) = unat b mod 256"
    by (simp add: unat_byte_of char_of_byte_alt)
  also have "\<dots> = unat b"
    using unsigned_less[of b, where 'a = nat] by simp
  finally show ?thesis by (simp only: word_unat_eq_iff)
qed

lemma byte_of_inj [simp]: "byte_of c = byte_of d \<longleftrightarrow> c = d"
  by (metis char_of_byte_of)

lemma string_of_bytes_of [simp]: "string_of (bytes_of s) = s"
  by (simp add: string_of_def bytes_of_def comp_def)

lemma bytes_of_string_of [simp]: "bytes_of (string_of b) = b"
  by (simp add: string_of_def bytes_of_def comp_def)

lemma length_bytes_of [simp]: "length (bytes_of s) = length s"
  by (simp add: bytes_of_def)

lemma bytes_of_inj [simp]: "bytes_of s = bytes_of t \<longleftrightarrow> s = t"
  by (metis string_of_bytes_of)

lemma bytes_of_append [simp]: "bytes_of (s @ t) = bytes_of s @ bytes_of t"
  by (simp add: bytes_of_def)

text \<open>
  A statement about every byte is decided by evaluating it on all 256 of them: after
  \<open>unfolding all_bytes\<close> the goal is closed and \<open>code_simp\<close> computes it.
\<close>

lemma all_bytes: "(\<forall>w::u8. P w) \<longleftrightarrow> list_all P (map of_nat [0..<256])"
proof -
  have "w \<in> of_nat ` {0..<256}" for w :: u8
  proof
    show "w = of_nat (unat w)" by simp
    show "unat w \<in> {0..<256}"
      using unsigned_less[of w, where 'a = nat] by simp
  qed
  then have "(UNIV :: u8 set) = of_nat ` {0..<256}" by blast
  then have "(\<forall>w::u8. P w) \<longleftrightarrow> (\<forall>w \<in> of_nat ` {0..<256}. P w)" by simp
  then show ?thesis by (simp add: list_all_iff)
qed

lemma drop_push_bit_7: "w < 128 \<Longrightarrow> drop_bit 1 (push_bit 1 w) = (w::u8)"
proof -
  have "\<forall>w::u8. w < 128 \<longrightarrow> drop_bit 1 (push_bit 1 w) = w"
    unfolding all_bytes by code_simp
  then show "w < 128 \<Longrightarrow> drop_bit 1 (push_bit 1 w) = w" by blast
qed

lemma unat_u8_lt: "unat (w::u8) < 256"
  using unsigned_less[of w, where 'a = nat] by simp

section \<open>ASCII character classes and case mapping\<close>

definition is_upper :: "char \<Rightarrow> bool" where
  "is_upper c \<longleftrightarrow> byte_of CHR ''A'' \<le> byte_of c \<and> byte_of c \<le> byte_of CHR ''Z''"

definition is_lower :: "char \<Rightarrow> bool" where
  "is_lower c \<longleftrightarrow> byte_of CHR ''a'' \<le> byte_of c \<and> byte_of c \<le> byte_of CHR ''z''"

definition is_digit :: "char \<Rightarrow> bool" where
  "is_digit c \<longleftrightarrow> byte_of CHR ''0'' \<le> byte_of c \<and> byte_of c \<le> byte_of CHR ''9''"

definition is_ascii :: "char \<Rightarrow> bool" where
  "is_ascii c \<longleftrightarrow> byte_of c < 128"

definition upper_char :: "char \<Rightarrow> char" where
  "upper_char c = (if is_lower c then char_of_byte (byte_of c - 32) else c)"

text \<open>
  \<^verbatim>\<open>strings.ToUpper\<close>. Bytes below 128 are mapped as ASCII. The two code points outside
  ASCII whose upper case is an ASCII letter (U+0131 and U+017F) are mapped as Go does; every
  other non-ASCII code point is kept, which is exact for the validators here (they reject
  any non-ASCII byte) and for text read off the air (7-bit callsigns).
\<close>

fun to_upper :: "string \<Rightarrow> string" where
  "to_upper [] = []"
| "to_upper (c # cs) =
     (if c = CHR 0xC4 \<and> cs \<noteq> [] \<and> hd cs = CHR 0xB1 then CHR ''I'' # to_upper (tl cs)
      else if c = CHR 0xC5 \<and> cs \<noteq> [] \<and> hd cs = CHR 0xBF then CHR ''S'' # to_upper (tl cs)
      else upper_char c # to_upper cs)"

lemma to_upper_ascii: "list_all is_ascii s \<Longrightarrow> to_upper s = map upper_char s"
  by (induction s rule: to_upper.induct) (auto simp: is_ascii_def)

text \<open>\<^verbatim>\<open>strings.EqualFold\<close>, on ASCII letters.\<close>

definition equal_fold :: "string \<Rightarrow> string \<Rightarrow> bool" where
  "equal_fold s t \<longleftrightarrow> map upper_char s = map upper_char t"

lemma equal_fold_refl [simp]: "equal_fold s s"
  by (simp add: equal_fold_def)

lemma equal_fold_sym: "equal_fold s t \<longleftrightarrow> equal_fold t s"
  by (auto simp: equal_fold_def)

lemma equal_fold_trans: "equal_fold s t \<Longrightarrow> equal_fold t u \<Longrightarrow> equal_fold s u"
  by (simp add: equal_fold_def)

definition is_call_char :: "char \<Rightarrow> bool" where
  "is_call_char c \<longleftrightarrow> is_upper c \<or> is_digit c"

lemma call_char_byte:
  assumes "is_call_char c"
  shows "byte_of c < 128" "\<not> is_lower c"
  using assms
  by (auto simp: is_call_char_def is_upper_def is_digit_def is_lower_def
      word_less_nat_alt word_le_nat_alt)

lemma call_char_simps:
  assumes "is_call_char c"
  shows "c \<noteq> CHR '' ''" "upper_char c = c" "is_ascii c"
    "c \<noteq> CHR ''-''" "c \<noteq> CHR ''*''" "c \<noteq> CHR '',''"
  using assms call_char_byte[OF assms]
  by (auto simp: is_call_char_def is_upper_def is_digit_def upper_char_def is_ascii_def)

section \<open>Errors as values\<close>

text \<open>Sequencing of Go's \<^verbatim>\<open>if err != nil { return err }\<close>.\<close>

definition try_bind :: "'e + 'a \<Rightarrow> ('a \<Rightarrow> 'e + 'b) \<Rightarrow> 'e + 'b" where
  "try_bind m f = (case m of Inl e \<Rightarrow> Inl e | Inr x \<Rightarrow> f x)"

lemma try_bind_simps [simp]:
  "try_bind (Inl e) f = Inl e"
  "try_bind (Inr x) f = f x"
  by (simp_all add: try_bind_def)

lemma try_bind_Inr: "try_bind m f = Inr y \<longleftrightarrow> (\<exists>x. m = Inr x \<and> f x = Inr y)"
  by (cases m) auto

section \<open>Splitting at a delimiter\<close>

lemma delimiter_unique:
  "list_all P xs \<Longrightarrow> list_all P ys \<Longrightarrow> \<not> P c \<Longrightarrow> \<not> P d \<Longrightarrow>
   xs @ c # u = ys @ d # v \<longleftrightarrow> xs = ys \<and> c = d \<and> u = v"
proof (induction xs arbitrary: ys)
  case Nil
  then show ?case by (cases ys) auto
next
  case (Cons x xs)
  then show ?case by (cases ys) auto
qed

end
