(* ===== verification/Go_Strings.thy ===== *)
theory Go_Strings
  imports Graywolf_Prelude
begin

text \<open>
  The functions of Go's \<^verbatim>\<open>strings\<close>, \<^verbatim>\<open>strconv\<close> and \<^verbatim>\<open>fmt\<close> packages that the modelled
  sources call, on byte strings, and Go's 64-bit integer arithmetic. White space is
  Unicode white space in its UTF-8 encoding, as \<^verbatim>\<open>unicode.IsSpace\<close> has it.
\<close>

section \<open>Prefixes, searching, splitting\<close>

definition has_prefix :: "string \<Rightarrow> string \<Rightarrow> bool" where
  "has_prefix s p \<longleftrightarrow> take (length p) s = p"

definition has_suffix_char :: "string \<Rightarrow> char \<Rightarrow> bool" where
  "has_suffix_char s c \<longleftrightarrow> s \<noteq> [] \<and> last s = c"

text \<open>\<^verbatim>\<open>strings.IndexByte\<close> followed by the two slices around the hit; \<^verbatim>\<open>strings.Cut\<close>.\<close>

fun cut_byte :: "char \<Rightarrow> string \<Rightarrow> (string \<times> string) option" where
  "cut_byte d [] = None"
| "cut_byte d (c # cs) =
     (if c = d then Some ([], cs)
      else case cut_byte d cs of None \<Rightarrow> None | Some (a, b) \<Rightarrow> Some (c # a, b))"

fun split_byte :: "char \<Rightarrow> string \<Rightarrow> string list" where
  "split_byte d [] = [[]]"
| "split_byte d (c # cs) =
     (if c = d then [] # split_byte d cs
      else case split_byte d cs of [] \<Rightarrow> [[c]] | f # fs \<Rightarrow> (c # f) # fs)"

lemma cut_byte_None: "d \<notin> set s \<Longrightarrow> cut_byte d s = None"
  by (induction s) auto

lemma cut_byte_append: "d \<notin> set s \<Longrightarrow> cut_byte d (s @ d # t) = Some (s, t)"
  by (induction s) auto

lemma cut_byte_SomeD: "cut_byte d s = Some (a, b) \<Longrightarrow> s = a @ d # b \<and> d \<notin> set a"
  by (induction s arbitrary: a) (auto split: if_splits option.splits)

lemma cut_byte_NoneD: "cut_byte d s = None \<Longrightarrow> d \<notin> set s"
  by (induction s) (auto split: if_splits option.splits)

lemma split_byte_ne [simp]: "split_byte d s \<noteq> []"
  by (induction s) (auto split: list.splits)

section \<open>White space\<close>

text \<open>Number of bytes of the white-space rune a string starts with, 0 when there is none.\<close>

definition space_len :: "string \<Rightarrow> nat" where
  "space_len s =
     (case s of [] \<Rightarrow> 0
      | a # s1 \<Rightarrow>
        (if a \<in> {CHR 0x09, CHR 0x0A, CHR 0x0B, CHR 0x0C, CHR 0x0D, CHR 0x20} then 1
         else if take 2 s \<in> {[CHR 0xC2, CHR 0x85], [CHR 0xC2, CHR 0xA0]} then 2
         else if take 3 s \<in> {[CHR 0xE1, CHR 0x9A, CHR 0x80], [CHR 0xE2, CHR 0x81, CHR 0x9F],
              [CHR 0xE3, CHR 0x80, CHR 0x80]}
            \<union> (\<lambda>c. [CHR 0xE2, CHR 0x80, c]) ` {CHR 0x80, CHR 0x81, CHR 0x82, CHR 0x83,
              CHR 0x84, CHR 0x85, CHR 0x86, CHR 0x87, CHR 0x88, CHR 0x89, CHR 0x8A,
              CHR 0xA8, CHR 0xA9, CHR 0xAF} then 3
         else 0))"

lemma space_len_le: "space_len s \<le> length s"
  by (cases s; cases "tl s"; cases "tl (tl s)") (auto simp: space_len_def)

lemma space_len_graphic:
  assumes "33 \<le> byte_of c" "byte_of c < 128"
  shows "space_len (c # cs) = 0"
proof -
  have "c \<noteq> CHR 0x09" "c \<noteq> CHR 0x0A" "c \<noteq> CHR 0x0B" "c \<noteq> CHR 0x0C" "c \<noteq> CHR 0x0D" "c \<noteq> CHR 0x20"
    "c \<noteq> CHR 0xC2" "c \<noteq> CHR 0xE1" "c \<noteq> CHR 0xE2" "c \<noteq> CHR 0xE3"
    using assms by (auto simp: word_le_nat_alt word_less_nat_alt)
  then show ?thesis by (simp add: space_len_def image_iff)
qed

function trim_left :: "string \<Rightarrow> string" where
  "trim_left s = (let n = space_len s in if n = 0 then s else trim_left (drop n s))"
  by pat_completeness auto
termination
proof (relation "measure length")
  fix s :: string and n :: nat
  assume "n = space_len s" "n \<noteq> 0"
  then show "(drop n s, s) \<in> measure length"
    using space_len_le[of s] by simp
qed simp

declare trim_left.simps [simp del]

text \<open>The same on the right: a white-space rune is recognised as a suffix.\<close>

definition rspace_len :: "string \<Rightarrow> nat" where
  "rspace_len s =
     (if length s \<ge> 1 \<and> space_len (drop (length s - 1) s) = 1 then 1
      else if length s \<ge> 2 \<and> space_len (drop (length s - 2) s) = 2 then 2
      else if length s \<ge> 3 \<and> space_len (drop (length s - 3) s) = 3 then 3
      else 0)"

function trim_right :: "string \<Rightarrow> string" where
  "trim_right s = (let n = rspace_len s in if n = 0 then s else trim_right (take (length s - n) s))"
  by pat_completeness auto
termination
proof (relation "measure length")
  fix s :: string and n :: nat
  assume "n = rspace_len s" "n \<noteq> 0"
  then show "(take (length s - n) s, s) \<in> measure length"
    by (auto simp: rspace_len_def split: if_splits)
qed simp

declare trim_right.simps [simp del]

definition trim_space :: "string \<Rightarrow> string" where
  "trim_space s = trim_right (trim_left s)"

section \<open>64-bit integers\<close>

text \<open>Go's \<^verbatim>\<open>int64\<close> (also \<^verbatim>\<open>int\<close> and \<^verbatim>\<open>time.Duration\<close>): two's complement wrap-around.\<close>

definition i64 :: "int \<Rightarrow> int" where
  "i64 x = (x + 2 ^ 63) mod 2 ^ 64 - 2 ^ 63"

definition fits_i64 :: "int \<Rightarrow> bool" where
  "fits_i64 x \<longleftrightarrow> - (2 ^ 63) \<le> x \<and> x < 2 ^ 63"

lemma i64_id: "fits_i64 x \<Longrightarrow> i64 x = x"
  by (simp add: i64_def fits_i64_def)

lemma fits_i64_i64 [simp]: "fits_i64 (i64 x)"
  by (simp add: i64_def fits_i64_def)

section \<open>Decimal numbers\<close>

definition digit_char :: "nat \<Rightarrow> char" where
  "digit_char d = char_of_byte (48 + of_nat d)"

definition digit_val :: "char \<Rightarrow> int" where
  "digit_val c = uint (byte_of c - 48)"

fun dec_string :: "nat \<Rightarrow> string" where
  "dec_string n = (if n < 10 then [digit_char n] else dec_string (n div 10) @ [digit_char (n mod 10)])"

declare dec_string.simps [simp del]

definition digits_val :: "string \<Rightarrow> int" where
  "digits_val s = foldl (\<lambda>a c. a * 10 + digit_val c) 0 s"

text \<open>\<^verbatim>\<open>strconv.Atoi\<close>: an optional sign, decimal digits only, and a 64-bit result.\<close>

definition atoi :: "string \<Rightarrow> int option" where
  "atoi s =
     (let neg = (s \<noteq> [] \<and> hd s = CHR ''-'');
          ds = (if s \<noteq> [] \<and> (hd s = CHR ''-'' \<or> hd s = CHR ''+'') then tl s else s);
          v = (if neg then - digits_val ds else digits_val ds)
      in if ds \<noteq> [] \<and> list_all is_digit ds \<and> fits_i64 v then Some v else None)"

text \<open>
  \<^verbatim>\<open>fmt.Sscanf(s, "%d", &n)\<close>: leading white space is skipped (a newline is an error), then
  an optional sign and the longest run of digits is converted; what follows is ignored.
\<close>

function sscan_skip :: "string \<Rightarrow> string option" where
  "sscan_skip s =
     (if s = [] then Some []
      else if hd s = CHR 0x0D \<and> tl s \<noteq> [] \<and> hd (tl s) = CHR 0x0A then sscan_skip (tl s)
      else if hd s = CHR 0x0A then None
      else if space_len s = 0 then Some s
      else sscan_skip (drop (space_len s) s))"
  by pat_completeness auto
termination
proof (relation "measure length")
  fix s :: string
  assume "s \<noteq> []" "space_len s \<noteq> 0"
  then show "(drop (space_len s) s, s) \<in> measure length"
    using space_len_le[of s] by simp
qed (auto simp: length_tl)

declare sscan_skip.simps [simp del]

definition sscanf_d :: "string \<Rightarrow> int option" where
  "sscanf_d s = do {
     t \<leftarrow> sscan_skip s;
     let neg = (t \<noteq> [] \<and> hd t = CHR ''-'');
     let r = (if t \<noteq> [] \<and> (hd t = CHR ''-'' \<or> hd t = CHR ''+'') then tl t else t);
     let ds = takeWhile is_digit r;
     let v = (if neg then - digits_val ds else digits_val ds);
     if ds \<noteq> [] \<and> fits_i64 v then Some v else None }"

text \<open>Decimal round trips.\<close>

lemma digit_char_props:
  assumes "d < 10"
  shows "is_digit (digit_char d)" "digit_val (digit_char d) = int d"
proof -
  have d: "unat (of_nat d :: u8) = d"
    using assms by (simp add: unsigned_of_nat take_bit_eq_mod)
  then have u: "unat (48 + of_nat d :: u8) = 48 + d"
    using assms by (simp add: unat_word_ariths)
  show "is_digit (digit_char d)"
    using u assms by (simp add: is_digit_def digit_char_def word_le_nat_alt)
  show "digit_val (digit_char d) = int d"
  proof -
    have "uint (of_nat d :: u8) = int (unat (of_nat d :: u8))" by simp
    with d show ?thesis by (simp add: digit_val_def digit_char_def)
  qed
qed

lemma dec_string_digits: "list_all is_digit (dec_string n)"
  by (induction n rule: dec_string.induct)
    (subst dec_string.simps, auto simp: digit_char_props)

lemma dec_string_ne [simp]: "dec_string n \<noteq> []"
  by (subst dec_string.simps) simp

lemma digits_val_snoc: "digits_val (s @ [c]) = digits_val s * 10 + digit_val c"
  by (simp add: digits_val_def)

lemma digits_val_dec_string [simp]: "digits_val (dec_string n) = int n"
proof (induction n rule: dec_string.induct)
  case (1 n)
  show ?case
  proof (cases "n < 10")
    case True
    then show ?thesis
      by (subst dec_string.simps) (simp add: digits_val_def digit_char_props)
  next
    case False
    with 1 have "digits_val (dec_string (n div 10)) = int (n div 10)" by simp
    with False show ?thesis
      by (subst dec_string.simps) (simp add: digits_val_snoc digit_char_props zdiv_int zmod_int)
  qed
qed

lemma digit_not_special:
  assumes "is_digit c"
  shows "c \<noteq> CHR ''-''" "c \<noteq> CHR ''+''" "c \<noteq> CHR ''*''" "c \<noteq> CHR 0x0A" "c \<noteq> CHR 0x0D" "c \<noteq> CHR '',''"
    "is_call_char c"
  using assms by (auto simp: is_digit_def is_call_char_def)

lemma hd_dec_string: "is_digit (hd (dec_string n))"
  using dec_string_digits[of n] by (cases "dec_string n") auto

lemma atoi_dec_string: "n < 2 ^ 63 \<Longrightarrow> atoi (dec_string n) = Some (int n)"
  using hd_dec_string[of n] dec_string_digits[of n]
  by (auto simp: atoi_def Let_def fits_i64_def digit_not_special)

lemma sscanf_d_dec_string:
  assumes "n < 2 ^ 63"
  shows "sscanf_d (dec_string n) = Some (int n)"
proof -
  let ?s = "dec_string n"
  have h: "is_digit (hd ?s)" by (rule hd_dec_string)
  have "space_len ?s = 0"
    using h space_len_graphic[of "hd ?s" "tl ?s"] by (simp add: is_digit_def word_le_nat_alt word_less_nat_alt)
  then have "sscan_skip ?s = Some ?s"
    using h by (subst sscan_skip.simps) (auto simp: digit_not_special)
  moreover have tw: "takeWhile is_digit ?s = ?s"
    using dec_string_digits[of n] by (simp add: list_all_iff)
  ultimately show ?thesis
    using h assms by (simp add: sscanf_d_def Let_def fits_i64_def digit_not_special tw)
qed

lemma dec_string_no: "\<not> is_digit c \<Longrightarrow> c \<notin> set (dec_string n)"
  using dec_string_digits[of n] by (auto simp: list_all_iff)

end
