(* ===== verification/AX25_Address.thy ===== *)
theory AX25_Address
  imports Go_Strings
begin

text \<open>
  AX.25 addresses (\<^verbatim>\<open>pkg/ax25/address.go\<close>): the \<^verbatim>\<open>Address\<close> struct, the textual form
  \<^verbatim>\<open>CALL[-SSID][*]\<close> with its parser and printer, via paths, and the 7-byte wire form with
  its shifted call sign, SSID byte and end-of-address bit. The lemmas give the parser's
  output invariant and the round trips through text and through the wire.
\<close>

section \<open>Data\<close>

record address =
  Call :: string
  SSID :: u8
  Repeated :: bool

text \<open>One constructor per error return of the package; the text of a message is not modelled.\<close>

datatype ax25_err =
    EmptyAddress
  | BadSsid string
  | SsidOutOfRange int
  | CallLength nat
  | CallChar char
  | ViaRepeatedMarker string
  | ViaTooLong nat
  | ShortAddressBuffer
  | InvalidCallLength nat
  | ShortAddress
  | PathTooLong nat
  | NotEncodable
  | MissingControl
  | MissingPID
  | FrameTooShort nat
  | EndAfterDest
  | TooManyDigipeaters
  | TruncatedPath

definition addrLen :: nat where
  "addrLen = 7"

definition MaxRepeaters :: nat where
  "MaxRepeaters = 8"

section \<open>Textual form\<close>

definition is_alnum :: "char \<Rightarrow> bool" where
  "is_alnum c \<longleftrightarrow> is_upper c \<or> is_lower c \<or> is_digit c"

fun first_bad_char :: "string \<Rightarrow> char option" where
  "first_bad_char [] = None"
| "first_bad_char (c # cs) = (if is_alnum c then first_bad_char cs else Some c)"

text \<open>The tail of \<^verbatim>\<open>ParseAddress\<close>: length and alphabet of the call sign, then upper case.\<close>

definition check_call :: "string \<Rightarrow> u8 \<Rightarrow> bool \<Rightarrow> ax25_err + address" where
  "check_call call ssid rep =
     (if length call = 0 \<or> length call > 6 then Inl (CallLength (length call))
      else case first_bad_char call of
             Some c \<Rightarrow> Inl (CallChar c)
           | None \<Rightarrow> Inr \<lparr>Call = to_upper call, SSID = ssid, Repeated = rep\<rparr>)"

definition ParseAddress :: "string \<Rightarrow> ax25_err + address" where
  "ParseAddress s0 =
     (if s0 = [] then Inl EmptyAddress
      else
        let rep = has_suffix_char s0 CHR ''*'';
            s = (if rep then butlast s0 else s0)
        in case cut_byte CHR ''-'' s of
             None \<Rightarrow> check_call s 0 rep
           | Some (call, rest) \<Rightarrow>
               (case sscanf_d rest of
                  None \<Rightarrow> Inl (BadSsid rest)
                | Some ssid \<Rightarrow>
                    if ssid < 0 \<or> ssid > 15 then Inl (SsidOutOfRange ssid)
                    else check_call call (of_int ssid) rep))"

fun parse_via_fields :: "string list \<Rightarrow> address list \<Rightarrow> ax25_err + address list" where
  "parse_via_fields [] out = Inr out"
| "parse_via_fields (f0 # fs) out =
     (let f = trim_space f0
      in if f = [] then parse_via_fields fs out
         else if has_suffix_char f CHR ''*'' then Inl (ViaRepeatedMarker f)
         else case ParseAddress f of
                Inl e \<Rightarrow> Inl e
              | Inr a \<Rightarrow> parse_via_fields fs (out @ [a]))"

definition ParseVia :: "string \<Rightarrow> ax25_err + address list" where
  "ParseVia s =
     (case parse_via_fields (split_byte CHR '','' s) [] of
        Inl e \<Rightarrow> Inl e
      | Inr out \<Rightarrow>
          if length out > MaxRepeaters then Inl (ViaTooLong (length out))
          else Inr out)"

text \<open>\<^verbatim>\<open>Address.String\<close>.\<close>

definition address_string :: "address \<Rightarrow> string" where
  "address_string a =
     Call a @ (if SSID a \<noteq> 0 then CHR ''-'' # dec_string (unat (SSID a)) else [])
       @ (if Repeated a then ''*'' else [])"

section \<open>Wire form\<close>

definition encode_call_byte :: "string \<Rightarrow> nat \<Rightarrow> u8" where
  "encode_call_byte call i =
     (let c = (if i < length call then
                 (let c = byte_of (call ! i)
                  in if 0x61 \<le> c \<and> c \<le> 0x7A then c - 0x20 else c)
               else 0x20)
      in push_bit 1 c)"

definition encode_ssid_byte :: "address \<Rightarrow> bool \<Rightarrow> bool \<Rightarrow> bool \<Rightarrow> u8" where
  "encode_ssid_byte a isLast isRepeater cBit =
     (let ssid = 0x60 OR push_bit 1 (SSID a AND 0x0F);
          ssid = (if isRepeater then (if Repeated a then ssid OR 0x80 else ssid)
                  else if cBit then ssid OR 0x80 else ssid)
      in if isLast then ssid OR 0x01 else ssid)"

definition encode_address :: "address \<Rightarrow> bytes \<Rightarrow> bool \<Rightarrow> bool \<Rightarrow> bool \<Rightarrow> ax25_err + bytes" where
  "encode_address a buf isLast isRepeater cBit =
     (if length buf < addrLen then Inl ShortAddressBuffer
      else if length (Call a) = 0 \<or> length (Call a) > 6 then Inl (InvalidCallLength (length (Call a)))
      else Inr (map (encode_call_byte (Call a)) [0..<6]
                @ [encode_ssid_byte a isLast isRepeater cBit] @ drop addrLen buf))"

definition decodeAddress :: "bytes \<Rightarrow> ax25_err + (address \<times> bool)" where
  "decodeAddress buf =
     (if length buf < addrLen then Inl ShortAddress
      else
        let call = filter (\<lambda>c. c \<noteq> 0x20) (map (drop_bit 1) (take 6 buf));
            b = buf ! 6
        in Inr (\<lparr>Call = to_upper (string_of call),
                 SSID = drop_bit 1 b AND 0x0F,
                 Repeated = (b AND 0x80 \<noteq> 0)\<rparr>,
                b AND 0x01 \<noteq> 0))"

section \<open>Well-formed addresses\<close>

definition wf_address :: "address \<Rightarrow> bool" where
  "wf_address a \<longleftrightarrow> Call a \<noteq> [] \<and> length (Call a) \<le> 6 \<and> list_all is_call_char (Call a) \<and> SSID a \<le> 15"

lemma first_bad_char_None: "first_bad_char s = None \<longleftrightarrow> list_all is_alnum s"
  by (induction s) auto

lemma is_alnum_ascii: "is_alnum c \<Longrightarrow> is_ascii c"
  by (auto simp: is_alnum_def is_upper_def is_lower_def is_digit_def is_ascii_def
      word_less_nat_alt word_le_nat_alt)

lemma upper_alnum_call_char: "is_alnum c \<Longrightarrow> is_call_char (upper_char c)"
proof -
  have "\<forall>w::u8. 97 \<le> w \<and> w \<le> 122 \<longrightarrow> 65 \<le> w - 32 \<and> w - 32 \<le> 90"
    unfolding all_bytes by code_simp
  then show "is_alnum c \<Longrightarrow> is_call_char (upper_char c)"
    by (auto simp: is_alnum_def is_call_char_def upper_char_def is_upper_def is_lower_def)
qed

lemma check_call_wf:
  assumes "check_call call ssid rep = Inr a" "ssid \<le> 15"
  shows "wf_address a"
proof -
  from assms(1) have c: "call \<noteq> []" "length call \<le> 6" "list_all is_alnum call"
    "a = \<lparr>Call = to_upper call, SSID = ssid, Repeated = rep\<rparr>"
    by (auto simp: check_call_def first_bad_char_None split: if_splits option.splits)
  then have "to_upper call = map upper_char call"
    by (intro to_upper_ascii) (auto simp: list_all_iff is_alnum_ascii)
  with c assms(2) show ?thesis
    by (auto simp: wf_address_def list_all_iff upper_alnum_call_char)
qed

lemma of_int_le_15: "0 \<le> v \<Longrightarrow> v \<le> 15 \<Longrightarrow> (of_int v :: u8) \<le> 15"
  by (simp add: word_le_def uint_word_of_int)

lemma ParseAddress_wf: "ParseAddress s = Inr a \<Longrightarrow> wf_address a"
  by (auto simp: ParseAddress_def Let_def not_less intro!: of_int_le_15
      elim!: check_call_wf split: if_splits option.splits prod.splits)

lemma check_call_id:
  assumes "wf_address a"
  shows "check_call (Call a) (SSID a) (Repeated a) = Inr a"
proof -
  from assms have cc: "list_all is_call_char (Call a)" by (simp add: wf_address_def)
  then have "map upper_char (Call a) = Call a"
    by (intro map_idI) (simp add: list_all_iff call_char_simps)
  moreover have "list_all is_ascii (Call a)"
    using cc by (simp add: list_all_iff call_char_simps)
  moreover have "first_bad_char (Call a) = None"
    using cc by (auto simp: first_bad_char_None list_all_iff is_alnum_def is_call_char_def)
  ultimately show ?thesis
    using assms by (simp add: check_call_def to_upper_ascii wf_address_def)
qed

section \<open>Round trips\<close>

lemma address_string_suffix:
  assumes "wf_address a"
  shows "has_suffix_char (address_string a) CHR ''*'' \<longleftrightarrow> Repeated a"
proof -
  have "\<forall>c \<in> set (Call a). c \<noteq> CHR ''*''"
    using assms by (simp add: wf_address_def list_all_iff call_char_simps)
  moreover have "Call a \<noteq> []"
    using assms by (simp add: wf_address_def)
  ultimately have "last (Call a) \<noteq> CHR ''*''"
    using last_in_set by blast
  moreover have "last (dec_string n) \<noteq> CHR ''*''" for n
  proof -
    have "is_digit (last (dec_string n))"
      using last_in_set[of "dec_string n"] dec_string_digits[of n] by (simp add: list_all_iff)
    then show ?thesis by (rule digit_not_special)
  qed
  ultimately show ?thesis
    using assms by (auto simp: has_suffix_char_def address_string_def wf_address_def)
qed

lemma wf_call_no_dash: "wf_address a \<Longrightarrow> CHR ''-'' \<notin> set (Call a)"
  using call_char_simps(4) by (auto simp: wf_address_def list_all_iff)

lemma unat_le_15: "(w::u8) \<le> 15 \<Longrightarrow> unat w \<le> 15"
  by (simp add: word_le_nat_alt)

lemma ParseAddress_string:
  assumes "wf_address a"
  shows "ParseAddress (address_string a) = Inr a"
proof -
  define body where "body = Call a @ (if SSID a \<noteq> 0 then CHR ''-'' # dec_string (unat (SSID a)) else [])"
  have ne: "address_string a \<noteq> []"
    using assms by (simp add: address_string_def wf_address_def)
  have s: "(if has_suffix_char (address_string a) CHR ''*'' then butlast (address_string a)
            else address_string a) = body"
    using address_string_suffix[OF assms]
    by (simp add: address_string_def body_def butlast_append)
  have ssid: "unat (SSID a) \<le> 15"
    using assms by (auto simp: wf_address_def intro: unat_le_15)
  have "ParseAddress (address_string a) = check_call (Call a) (SSID a) (Repeated a)"
  proof (cases "SSID a = 0")
    case True
    then have "cut_byte CHR ''-'' body = None"
      using wf_call_no_dash[OF assms] by (simp add: body_def cut_byte_None)
    moreover have "body = Call a" using True by (simp add: body_def)
    ultimately show ?thesis
      using True ne s by (simp add: ParseAddress_def Let_def address_string_suffix[OF assms])
  next
    case False
    then have "cut_byte CHR ''-'' body = Some (Call a, dec_string (unat (SSID a)))"
      using wf_call_no_dash[OF assms] by (simp add: body_def cut_byte_append)
    moreover have "uint (SSID a) \<le> 15"
      using assms by (simp add: wf_address_def word_le_def)
    moreover have "sscanf_d (dec_string (unat (SSID a))) = Some (int (unat (SSID a)))"
      using ssid by (intro sscanf_d_dec_string) simp
    ultimately show ?thesis
      using ne s ssid by (simp add: ParseAddress_def Let_def address_string_suffix[OF assms])
  qed
  with check_call_id[OF assms] show ?thesis by simp
qed

lemma encode_call_bytes:
  assumes "list_all is_call_char call" "length call \<le> 6"
  shows "map (encode_call_byte call) [0..<6]
       = map (\<lambda>c. push_bit 1 (byte_of c)) call @ replicate (6 - length call) 0x40"
proof (rule nth_equalityI)
  fix i assume i: "i < length (map (encode_call_byte call) [0..<6])"
  show "map (encode_call_byte call) [0..<6] ! i
      = (map (\<lambda>c. push_bit 1 (byte_of c)) call @ replicate (6 - length call) 0x40) ! i"
  proof (cases "i < length call")
    case True
    then have "is_call_char (call ! i)"
      using assms(1) by (simp add: list_all_length)
    then have "\<not> is_lower (call ! i)" by (rule call_char_byte)
    with True i show ?thesis
      by (simp add: encode_call_byte_def Let_def nth_append is_lower_def)
  next
    case False
    with i show ?thesis
      by (simp add: encode_call_byte_def Let_def nth_append)
  qed
qed (use assms in simp)

lemma ssid_byte_fields:
  "drop_bit 1 (encode_ssid_byte a isLast isRep cBit) AND 0x0F = SSID a AND 0x0F"
  "(encode_ssid_byte a isLast isRep cBit AND 0x80 \<noteq> 0) = (if isRep then Repeated a else cBit)"
  "(encode_ssid_byte a isLast isRep cBit AND 0x01 \<noteq> 0) = isLast"
proof -
  have "\<forall>s::u8. list_all (\<lambda>(h, l). let b = 0x60 OR push_bit 1 (s AND 0x0F);
       b = (if h then b OR 0x80 else b); b = (if l then b OR 1 else b)
     in drop_bit 1 b AND 0x0F = s AND 0x0F \<and> (b AND 0x80 \<noteq> 0) = h \<and> (b AND 1 \<noteq> 0) = l)
     [(False, False), (False, True), (True, False), (True, True)]"
    unfolding all_bytes by code_simp
  then have "\<And>s::u8. let b = 0x60 OR push_bit 1 (s AND 0x0F);
       b = (if h then b OR 0x80 else b); b = (if l then b OR 1 else b)
     in drop_bit 1 b AND 0x0F = s AND 0x0F \<and> (b AND 0x80 \<noteq> 0) = h \<and> (b AND 1 \<noteq> 0) = l" for h l
    by (cases h; cases l) (simp_all add: Let_def)
  from this[of "SSID a" "if isRep then Repeated a else cBit" isLast]
  show "drop_bit 1 (encode_ssid_byte a isLast isRep cBit) AND 0x0F = SSID a AND 0x0F"
    "(encode_ssid_byte a isLast isRep cBit AND 0x80 \<noteq> 0) = (if isRep then Repeated a else cBit)"
    "(encode_ssid_byte a isLast isRep cBit AND 0x01 \<noteq> 0) = isLast"
    by (auto simp: encode_ssid_byte_def Let_def split: if_splits)
qed

lemma and_15_id: "(w::u8) \<le> 15 \<Longrightarrow> w AND 0x0F = w"
proof -
  have "\<forall>w::u8. w \<le> 15 \<longrightarrow> w AND 0x0F = w"
    unfolding all_bytes by code_simp
  then show "w \<le> 15 \<Longrightarrow> w AND 0x0F = w" by blast
qed

definition wire_address :: "address \<Rightarrow> bool \<Rightarrow> bool \<Rightarrow> bool \<Rightarrow> bytes" where
  "wire_address a isLast isRep cBit =
     map (encode_call_byte (Call a)) [0..<6] @ [encode_ssid_byte a isLast isRep cBit]"

lemma length_wire_address [simp]: "length (wire_address a isLast isRep cBit) = 7"
  by (simp add: wire_address_def)

lemma encode_address_wf:
  "wf_address a \<Longrightarrow> encode_address a (replicate addrLen 0) isLast isRep cBit
     = Inr (wire_address a isLast isRep cBit)"
  by (simp add: encode_address_def wf_address_def wire_address_def addrLen_def)

lemma decode_wire_address:
  assumes "wf_address a"
  shows "decodeAddress (wire_address a isLast isRep cBit @ rest)
    = Inr (a\<lparr>Repeated := (if isRep then Repeated a else cBit)\<rparr>, isLast)"
proof -
  from assms have cc: "list_all is_call_char (Call a)" and len: "length (Call a) \<le> 6"
    and ssid: "SSID a \<le> 15"
    by (auto simp: wf_address_def)
  have "filter (\<lambda>c. c \<noteq> 0x20) (map (drop_bit 1) (map (encode_call_byte (Call a)) [0..<6]))
      = map byte_of (Call a)"
  proof -
    have "drop_bit 1 (push_bit 1 (byte_of c)) = byte_of c" if "c \<in> set (Call a)" for c
      using cc that by (intro drop_push_bit_7) (simp add: list_all_iff call_char_byte)
    then have m: "map (drop_bit 1 \<circ> (\<lambda>c. push_bit 1 (byte_of c))) (Call a) = map byte_of (Call a)"
      by (intro map_cong) (simp_all only: comp_apply)
    have f: "filter (\<lambda>c. c \<noteq> 0x20) (map byte_of (Call a)) = map byte_of (Call a)"
      using cc call_char_simps(1) byte_of_inj[of _ "CHR '' ''"]
      by (fastforce simp: filter_id_conv list_all_iff)
    have r: "filter (\<lambda>c. c \<noteq> 0x20) (map (drop_bit 1) (replicate k (0x40::u8))) = []" for k
      by simp
    show ?thesis
      by (simp only: encode_call_bytes[OF cc len] map_append filter_append map_map m f r append_Nil2)
  qed
  moreover have "to_upper (map char_of_byte (map byte_of (Call a))) = Call a"
  proof -
    have "list_all is_ascii (Call a)" "map upper_char (Call a) = Call a"
      using cc by (auto simp: list_all_iff call_char_simps intro: map_idI)
    then show ?thesis by (simp add: to_upper_ascii comp_def)
  qed
  ultimately show ?thesis
    using ssid
    by (simp add: decodeAddress_def wire_address_def addrLen_def string_of_def nth_append
        ssid_byte_fields ssid_byte_fields(1)[unfolded One_nat_def] and_15_id)
qed

end
