(* ===== verification/Codec.thy ===== *)
theory Codec
  imports Graywolf_Prelude
begin

text \<open>
  The contract every encoder and decoder of the program is held to: what is well formed
  encodes, and its encoding decodes to it. The control fields, the session frames, the UI
  frames and the KISS frames are interpretations.
\<close>

locale codec =
  fixes wf :: "'a \<Rightarrow> bool"
    and enc :: "'a \<Rightarrow> 'e + 'w"
    and dec :: "'w \<Rightarrow> 'f + 'a"
  assumes dec_enc: "wf x \<Longrightarrow> \<exists>w. enc x = Inr w \<and> dec w = Inr x"
begin

lemma enc_total: "wf x \<Longrightarrow> \<exists>w. enc x = Inr w"
  using dec_enc by blast

lemma dec_of_enc: "wf x \<Longrightarrow> enc x = Inr w \<Longrightarrow> dec w = Inr x"
  using dec_enc[of x] by auto

lemma enc_inj:
  assumes "wf x" "wf y" "enc x = enc y" shows "x = y"
proof -
  obtain w where "enc x = Inr w" "dec w = Inr x" using dec_enc[OF assms(1)] by blast
  moreover have "dec w = Inr y" using dec_of_enc[OF assms(2), of w] assms(3) calculation(1) by (simp only:)
  ultimately show ?thesis by simp
qed

text \<open>The wire forms that decode to a well-formed value and are its canonical form.\<close>

definition canonical :: "'w \<Rightarrow> bool" where
  "canonical w \<longleftrightarrow> (\<exists>x. wf x \<and> dec w = Inr x \<and> enc x = Inr w)"

lemma canonical_enc: "wf x \<Longrightarrow> enc x = Inr w \<Longrightarrow> canonical w"
  using dec_of_enc unfolding canonical_def by blast

end

text \<open>
  A codec for a stream: decoding reads one value off the front and leaves the rest. A sequence
  of values written one after the other is read back as that sequence.
\<close>

locale stream_codec =
  fixes wf :: "'a \<Rightarrow> bool"
    and put :: "'a \<Rightarrow> 'b list"
    and get :: "'b list \<Rightarrow> ('a \<times> 'b list) option"
  assumes get_put: "wf x \<Longrightarrow> get (put x @ rest) = Some (x, rest)"
begin

fun get_all :: "nat \<Rightarrow> 'b list \<Rightarrow> 'a list" where
  "get_all 0 s = []"
| "get_all (Suc n) s = (case get s of None \<Rightarrow> [] | Some (x, s') \<Rightarrow> x # get_all n s')"

lemma get_all_put:
  "list_all wf xs \<Longrightarrow> get_all (length xs) (concat (map put xs) @ rest) = xs"
  by (induction xs) (simp_all add: get_put)

lemma put_prefix_free:
  assumes "wf x" "wf y" "put x @ r = put y @ s" shows "x = y \<and> r = s"
proof -
  have "get (put x @ r) = Some (x, r)" "get (put x @ r) = Some (y, s)"
    using get_put[OF assms(1), of r] get_put[OF assms(2), of s] unfolding assms(3) by blast+
  then show ?thesis by simp
qed

end

end
