(* ===== verification/AX25_Frame.thy ===== *)
theory AX25_Frame
  imports AX25_Address Codec
begin

text \<open>
  AX.25 frames (\<^verbatim>\<open>pkg/ax25/frame.go\<close>, \<^verbatim>\<open>pkg/ax25/priority.go\<close>): the frame struct that every
  transmit source and hook shares, the address block codec, the UI codec, the opaque
  connected-mode passthrough, and the two dedup keys.
\<close>

section \<open>Data\<close>

definition ControlUI :: u8 where "ControlUI = 0x03"
definition ControlUIWithPF :: u8 where "ControlUIWithPF = 0x13"
definition PIDNoLayer3 :: u8 where "PIDNoLayer3 = 0xF0"

text \<open>Transmit priorities (\<^verbatim>\<open>priority.go\<close>): higher is sent sooner.\<close>

definition PriorityBeacon :: int where "PriorityBeacon = 1"
definition PriorityDigipeated :: int where "PriorityDigipeated = 2"
definition PriorityClient :: int where "PriorityClient = 3"
definition PriorityAX25Conn :: int where "PriorityAX25Conn = 4"
definition PriorityIGateMsg :: int where "PriorityIGateMsg = 5"

record frame =
  fDest :: address
  fSource :: address
  fPath :: "address list"
  fControl :: u8
  fPID :: u8
  fInfo :: bytes
  fCommandResp :: bool
  fConnectedControl :: bytes
  fConnectedHasInfo :: bool

record address_block =
  abSource :: address
  abDest :: address
  abPath :: "address list"
  abIsCommand :: bool
  abAddrLen :: nat

definition IsConnectedMode :: "frame \<Rightarrow> bool" where
  "IsConnectedMode f \<longleftrightarrow> length (fConnectedControl f) > 0"

definition IsUI :: "frame \<Rightarrow> bool" where
  "IsUI f \<longleftrightarrow> fControl f = ControlUI \<or> fControl f = ControlUIWithPF"

definition NewUIFrame :: "address \<Rightarrow> address \<Rightarrow> address list \<Rightarrow> bytes \<Rightarrow> ax25_err + frame" where
  "NewUIFrame source dest path info =
     (if length path > MaxRepeaters then Inl (PathTooLong (length path))
      else Inr \<lparr>fDest = dest, fSource = source, fPath = path, fControl = ControlUI,
                fPID = PIDNoLayer3, fInfo = info, fCommandResp = True,
                fConnectedControl = [], fConnectedHasInfo = False\<rparr>)"

section \<open>The address block\<close>

text \<open>
  The repeater loop of \<^verbatim>\<open>EncodeAddressBlock\<close>: each address is written into its own
  7-byte slot of a zeroed buffer, the end bit on the last.
\<close>

fun encode_path :: "address list \<Rightarrow> ax25_err + bytes" where
  "encode_path [] = Inr []"
| "encode_path (a # as) =
     try_bind (encode_address a (replicate addrLen 0) (as = []) True False) (\<lambda>b.
     try_bind (encode_path as) (\<lambda>bs. Inr (b @ bs)))"

definition EncodeAddressBlock :: "address \<Rightarrow> address \<Rightarrow> address list \<Rightarrow> bool \<Rightarrow> ax25_err + bytes" where
  "EncodeAddressBlock src dst path isCommand =
     (if length path > MaxRepeaters then Inl (PathTooLong (length path))
      else
        let lastIsPath = length path > 0 in
        try_bind (encode_address dst (replicate addrLen 0) False False isCommand) (\<lambda>d.
        try_bind (encode_address src (replicate addrLen 0) (\<not> lastIsPath) False (\<not> isCommand)) (\<lambda>s.
        try_bind (encode_path path) (\<lambda>p. Inr (d @ s @ p)))))"

text \<open>The \<^verbatim>\<open>for !last\<close> loop of \<^verbatim>\<open>DecodeAddressBlock\<close>.\<close>

function decode_path :: "bytes \<Rightarrow> nat \<Rightarrow> address list \<Rightarrow> ax25_err + (address list \<times> nat)" where
  "decode_path raw off path =
     (if length path \<ge> MaxRepeaters then Inl TooManyDigipeaters
      else if off + addrLen > length raw then Inl TruncatedPath
      else try_bind (decodeAddress (take addrLen (drop off raw))) (\<lambda>(a, isLast).
             if isLast then Inr (path @ [a], off + addrLen)
             else decode_path raw (off + addrLen) (path @ [a])))"
  by pat_completeness auto
termination
  by (relation "measure (\<lambda>(raw, off, path). MaxRepeaters - length path)") auto

declare decode_path.simps [simp del]

definition DecodeAddressBlock :: "bytes \<Rightarrow> ax25_err + address_block" where
  "DecodeAddressBlock raw =
     (if length raw < 2 * addrLen then Inl (FrameTooShort (length raw))
      else
        try_bind (decodeAddress (take addrLen raw)) (\<lambda>(dest, isLast).
        let destCBit = (raw ! 6 AND 0x80 \<noteq> 0); dest = dest\<lparr>Repeated := False\<rparr> in
        if isLast then Inl EndAfterDest
        else
          try_bind (decodeAddress (take addrLen (drop addrLen raw))) (\<lambda>(src, isLast).
          let srcCBit = (raw ! (2 * addrLen - 1) AND 0x80 \<noteq> 0); src = src\<lparr>Repeated := False\<rparr> in
          try_bind (if isLast then Inr ([], 2 * addrLen) else decode_path raw (2 * addrLen) [])
            (\<lambda>(path, off).
             Inr \<lparr>abSource = src, abDest = dest, abPath = path,
                  abIsCommand = (destCBit \<and> \<not> srcCBit), abAddrLen = off\<rparr>))))"

section \<open>Frames\<close>

definition Encode :: "frame \<Rightarrow> ax25_err + bytes" where
  "Encode f =
     try_bind (EncodeAddressBlock (fSource f) (fDest f) (fPath f) (fCommandResp f)) (\<lambda>addrBytes.
     if IsConnectedMode f then
       Inr (addrBytes @ fConnectedControl f @
            (if fConnectedHasInfo f then fPID f # fInfo f else []))
     else if \<not> IsUI f then Inl NotEncodable
     else Inr (addrBytes @ [fControl f, fPID f] @ fInfo f))"

definition Decode :: "bytes \<Rightarrow> ax25_err + frame" where
  "Decode raw =
     try_bind (DecodeAddressBlock raw) (\<lambda>hdr.
     let off = abAddrLen hdr in
     if off \<ge> length raw then Inl MissingControl
     else
       let f = \<lparr>fDest = abDest hdr, fSource = abSource hdr, fPath = abPath hdr,
                fControl = raw ! off, fPID = 0, fInfo = [], fCommandResp = abIsCommand hdr,
                fConnectedControl = [], fConnectedHasInfo = False\<rparr>;
           off = off + 1
       in if IsUI f then
            if off \<ge> length raw then Inl MissingPID
            else Inr (f\<lparr>fPID := raw ! off, fInfo := drop (off + 1) raw\<rparr>)
          else Inr f)"

definition ConnectedPassthrough :: "frame \<Rightarrow> bytes \<Rightarrow> ax25_err + frame" where
  "ConnectedPassthrough parsed raw =
     try_bind (DecodeAddressBlock raw) (\<lambda>ab.
     if abAddrLen ab \<ge> length raw then Inl MissingControl
     else Inr \<lparr>fDest = fDest parsed, fSource = fSource parsed, fPath = fPath parsed,
               fControl = 0, fPID = 0, fInfo = [], fCommandResp = fCommandResp parsed,
               fConnectedControl = drop (abAddrLen ab) raw, fConnectedHasInfo = False\<rparr>)"

definition frame_string :: "frame \<Rightarrow> string" where
  "frame_string f =
     address_string (fSource f) @ ''>'' @ address_string (fDest f)
     @ concat (map (\<lambda>p. '','' @ address_string p) (fPath f))
     @ (if IsUI f \<and> length (fInfo f) > 0 then '':'' @ string_of (fInfo f) else [])"

definition DedupKey :: "frame \<Rightarrow> string" where
  "DedupKey f =
     Call (fDest f) @ [char_of_byte (SSID (fDest f))]
     @ Call (fSource f) @ [char_of_byte (SSID (fSource f))] @ string_of (fInfo f)"

definition PathDedupKey :: "frame \<Rightarrow> string" where
  "PathDedupKey f =
     address_string (fSource f) @ ''>'' @ address_string (fDest f)
     @ concat (map (\<lambda>p. '','' @ Call p @ ''-'' @ [char_of_byte (byte_of CHR ''0'' + SSID p)]) (fPath f))
     @ '':'' @ string_of (fInfo f)"

section \<open>Wire form of a well-formed address block\<close>

fun wire_path :: "address list \<Rightarrow> bytes" where
  "wire_path [] = []"
| "wire_path (a # as) = wire_address a (as = []) True False @ wire_path as"

definition wire_block :: "address \<Rightarrow> address \<Rightarrow> address list \<Rightarrow> bool \<Rightarrow> bytes" where
  "wire_block src dst path c =
     wire_address dst False False c @ wire_address src (path = []) False (\<not> c) @ wire_path path"

lemma length_wire_path [simp]: "length (wire_path ps) = 7 * length ps"
  by (induction ps) auto

lemma length_wire_block [simp]: "length (wire_block src dst path c) = 14 + 7 * length path"
  by (simp add: wire_block_def)

lemma encode_path_wf: "list_all wf_address ps \<Longrightarrow> encode_path ps = Inr (wire_path ps)"
  by (induction ps) (auto simp: encode_address_wf)

lemma EncodeAddressBlock_wf:
  "wf_address src \<Longrightarrow> wf_address dst \<Longrightarrow> list_all wf_address path \<Longrightarrow> length path \<le> MaxRepeaters \<Longrightarrow>
   EncodeAddressBlock src dst path c = Inr (wire_block src dst path c)"
  by (simp add: EncodeAddressBlock_def encode_address_wf encode_path_wf wire_block_def Let_def)

lemma decode_wire_address0:
  "wf_address a \<Longrightarrow> decodeAddress (wire_address a l r c)
     = Inr (a\<lparr>Repeated := (if r then Repeated a else c)\<rparr>, l)"
  using decode_wire_address[of a l r c "[]"] by simp

lemma decode_path_wire:
  assumes "ps \<noteq> []" "list_all wf_address ps" "length acc + length ps \<le> MaxRepeaters"
  shows "decode_path (pre @ wire_path ps @ rest) (length pre) acc
       = Inr (acc @ ps, length pre + 7 * length ps)"
  using assms
proof (induction ps arbitrary: pre acc)
  case Nil
  then show ?case by simp
next
  case (Cons a ps)
  let ?raw = "pre @ wire_path (a # ps) @ rest"
  have d: "decodeAddress (take addrLen (drop (length pre) ?raw)) = Inr (a, ps = [])"
    using Cons.prems by (simp add: addrLen_def decode_wire_address0)
  show ?case
  proof (cases "ps = []")
    case True
    with Cons.prems d show ?thesis
      by (subst decode_path.simps) (simp add: addrLen_def)
  next
    case False
    have "decode_path ((pre @ wire_address a (ps = []) True False) @ wire_path ps @ rest)
            (length (pre @ wire_address a (ps = []) True False)) (acc @ [a])
        = Inr ((acc @ [a]) @ ps, length (pre @ wire_address a (ps = []) True False) + 7 * length ps)"
      using False Cons.prems by (intro Cons.IH) auto
    with False Cons.prems d show ?thesis
      by (subst decode_path.simps) (simp add: addrLen_def)
  qed
qed

lemma wire_address_nth6:
  "(wire_address a l r c @ rest) ! 6 = encode_ssid_byte a l r c"
  by (simp add: wire_address_def nth_append)

lemma DecodeAddressBlock_wire:
  assumes "wf_address src" "wf_address dst" "list_all wf_address path" "length path \<le> MaxRepeaters"
  shows "DecodeAddressBlock (wire_block src dst path c @ rest)
    = Inr \<lparr>abSource = src\<lparr>Repeated := False\<rparr>, abDest = dst\<lparr>Repeated := False\<rparr>, abPath = path,
           abIsCommand = c, abAddrLen = 14 + 7 * length path\<rparr>"
proof -
  let ?d = "wire_address dst False False c" and ?s = "wire_address src (path = []) False (\<not> c)"
  define raw where "raw = wire_block src dst path c @ rest"
  have n6: "(raw ! 6 AND 0x80 \<noteq> 0) = c"
    using wire_address_nth6[of dst False False c] ssid_byte_fields(2)[of dst False False c]
    by (simp add: raw_def wire_block_def)
  have n13: "(raw ! (2 * addrLen - 1) AND 0x80 \<noteq> 0) = (\<not> c)"
  proof -
    have "raw ! (2 * addrLen - 1) = (?s @ wire_path path @ rest) ! 6"
      by (simp add: raw_def wire_block_def addrLen_def nth_append_right)
    then show ?thesis
      using wire_address_nth6[of src "path = []" False "\<not> c"]
        ssid_byte_fields(2)[of src "path = []" False "\<not> c"] by simp
  qed
  have d: "decodeAddress (take addrLen raw) = Inr (dst\<lparr>Repeated := c\<rparr>, False)"
    using assms(2) by (simp add: raw_def wire_block_def addrLen_def decode_wire_address0)
  have s: "decodeAddress (take addrLen (drop addrLen raw)) = Inr (src\<lparr>Repeated := \<not> c\<rparr>, path = [])"
    using assms(1) by (simp add: raw_def wire_block_def addrLen_def decode_wire_address0)
  have p: "(if path = [] then Inr ([], 2 * addrLen) else decode_path raw (2 * addrLen) [])
      = Inr (path, 14 + 7 * length path)"
    using decode_path_wire[of path "[]" "?d @ ?s" rest] assms(3,4)
    by (auto simp: raw_def wire_block_def addrLen_def)
  have len: "\<not> length raw < 2 * addrLen"
    by (simp add: raw_def addrLen_def)
  have "DecodeAddressBlock raw = Inr \<lparr>abSource = src\<lparr>Repeated := False\<rparr>, abDest = dst\<lparr>Repeated := False\<rparr>,
      abPath = path, abIsCommand = c, abAddrLen = 14 + 7 * length path\<rparr>"
    using n6 n13 by (simp add: DecodeAddressBlock_def len d s p Let_def)
  then show ?thesis by (simp add: raw_def)
qed

text \<open>What a successful decode guarantees, for any input bytes.\<close>

lemma decode_path_bounds:
  "decode_path raw off acc = Inr (path, off') \<Longrightarrow> length acc \<le> MaxRepeaters \<Longrightarrow>
   length path \<le> MaxRepeaters \<and> off' \<le> length raw \<and> off' = off + 7 * (length path - length acc)
   \<and> length acc < length path"
proof (induction raw off acc rule: decode_path.induct)
  case (1 raw off acc)
  from "1.prems" obtain a l where a: "decodeAddress (take addrLen (drop off raw)) = Inr (a, l)"
    and g: "length acc < MaxRepeaters" "off + addrLen \<le> length raw"
    by (subst (asm) decode_path.simps) (auto simp: try_bind_Inr split: if_splits)
  show ?case
  proof (cases l)
    case True
    with "1.prems"(1) a g show ?thesis
      by (subst (asm) decode_path.simps) (auto simp: addrLen_def)
  next
    case False
    with "1.prems"(1) a g have "decode_path raw (off + addrLen) (acc @ [a]) = Inr (path, off')"
      by (subst (asm) decode_path.simps) auto
    from "1.IH"[OF _ _ _ this] a g False
    have "length path \<le> MaxRepeaters \<and> off' \<le> length raw
        \<and> off' = off + addrLen + 7 * (length path - Suc (length acc)) \<and> Suc (length acc) < length path"
      by auto
    then show ?thesis by (auto simp: addrLen_def)
  qed
qed

lemma DecodeAddressBlock_bounds:
  assumes "DecodeAddressBlock raw = Inr ab"
  shows "length (abPath ab) \<le> MaxRepeaters" "abAddrLen ab = 14 + 7 * length (abPath ab)"
    "abAddrLen ab \<le> length raw" "\<not> Repeated (abSource ab)" "\<not> Repeated (abDest ab)"
  using assms
  by (auto simp: DecodeAddressBlock_def try_bind_Inr Let_def addrLen_def MaxRepeaters_def
      split: if_splits prod.splits dest: decode_path_bounds)

section \<open>Dedup keys\<close>

lemma ssid_not_call_char: "s \<le> 15 \<Longrightarrow> \<not> is_call_char (char_of_byte s)"
  by (auto simp: is_call_char_def is_upper_def is_digit_def word_le_nat_alt)

lemma char_of_byte_inj [simp]: "char_of_byte a = char_of_byte b \<longleftrightarrow> a = b"
  by (metis byte_of_char_of)

lemma string_of_inj [simp]: "string_of a = string_of b \<longleftrightarrow> a = b"
  by (metis bytes_of_string_of)

definition same_station :: "address \<Rightarrow> address \<Rightarrow> bool" where
  "same_station a b \<longleftrightarrow> Call a = Call b \<and> SSID a = SSID b"

lemma call_ssid_prefix:
  assumes "wf_address a" "wf_address b"
  shows "Call a @ char_of_byte (SSID a) # u = Call b @ char_of_byte (SSID b) # v
     \<longleftrightarrow> same_station a b \<and> u = v"
proof -
  have "list_all is_call_char (Call a)" "list_all is_call_char (Call b)"
    "\<not> is_call_char (char_of_byte (SSID a))" "\<not> is_call_char (char_of_byte (SSID b))"
    using assms by (auto simp: wf_address_def ssid_not_call_char)
  from delimiter_unique[OF this, of u v] show ?thesis
    by (auto simp: same_station_def)
qed

text \<open>
  For well-formed addresses the transmit dedup key identifies exactly the
  destination station, the source station and the information field: two frames share a
  key if and only if they agree on the three, whatever their paths. The governor therefore
  never suppresses a frame that differs in any of them.
\<close>

theorem DedupKey_identifies:
  assumes "wf_address (fDest f)" "wf_address (fSource f)"
    and "wf_address (fDest g)" "wf_address (fSource g)"
  shows "DedupKey f = DedupKey g \<longleftrightarrow>
    same_station (fDest f) (fDest g) \<and> same_station (fSource f) (fSource g) \<and> fInfo f = fInfo g"
  using assms by (simp add: DedupKey_def call_ssid_prefix)

text \<open>The textual address is self-delimiting too: no character of it is a separator.\<close>

definition is_addr_char :: "char \<Rightarrow> bool" where
  "is_addr_char c \<longleftrightarrow> is_call_char c \<or> c = CHR ''-'' \<or> c = CHR ''*''"

lemma address_string_chars: "wf_address a \<Longrightarrow> list_all is_addr_char (address_string a)"
  using dec_string_digits[of "unat (SSID a)"]
  by (auto simp: address_string_def wf_address_def is_addr_char_def is_call_char_def list_all_iff)

lemma separators_not_addr:
  "\<not> is_addr_char CHR ''>''" "\<not> is_addr_char CHR '',''" "\<not> is_addr_char CHR '':''"
  by (auto simp: is_addr_char_def is_call_char_def is_upper_def is_digit_def)

lemma address_string_inj:
  "wf_address a \<Longrightarrow> wf_address b \<Longrightarrow> address_string a = address_string b \<longleftrightarrow> a = b"
  by (metis ParseAddress_string sum.inject(2))

definition key_path :: "address list \<Rightarrow> string" where
  "key_path ps =
     concat (map (\<lambda>p. '','' @ Call p @ ''-'' @ [char_of_byte (byte_of CHR ''0'' + SSID p)]) ps)"

lemma key_path_inj:
  assumes "list_all wf_address ps" "list_all wf_address qs"
  shows "key_path ps @ CHR '':'' # u = key_path qs @ CHR '':'' # v \<longleftrightarrow>
    list_all2 same_station ps qs \<and> u = v"
  using assms
proof (induction ps arbitrary: qs)
  case Nil
  then show ?case by (cases qs) (auto simp: key_path_def)
next
  case (Cons p ps)
  show ?case
  proof (cases qs)
    case Nil
    then show ?thesis by (auto simp: key_path_def)
  next
    case (Cons q qs')
    have pq: "list_all is_call_char (Call p)" "list_all is_call_char (Call q)"
      "\<not> is_call_char CHR ''-''"
      using Cons.prems \<open>qs = q # qs'\<close> by (auto simp: wf_address_def is_call_char_def is_upper_def is_digit_def)
    note d = delimiter_unique[OF pq(1,2,3,3)]
    show ?thesis
      using Cons.prems Cons.IH[of qs'] \<open>qs = q # qs'\<close>
      by (auto simp: key_path_def same_station_def d)
  qed
qed

text \<open>
  The digipeater's key adds the path: it identifies source, destination,
  information field and the sequence of path stations, and ignores the has-been-repeated
  bits, so a packet heard over a different path is a different observation while the same
  copy with another H bit is not.
\<close>

theorem PathDedupKey_identifies:
  assumes "wf_address (fDest f)" "wf_address (fSource f)" "list_all wf_address (fPath f)"
    and "wf_address (fDest g)" "wf_address (fSource g)" "list_all wf_address (fPath g)"
  shows "PathDedupKey f = PathDedupKey g \<longleftrightarrow>
    fSource f = fSource g \<and> fDest f = fDest g \<and>
    list_all2 same_station (fPath f) (fPath g) \<and> fInfo f = fInfo g"
proof -
  have key: "PathDedupKey h = address_string (fSource h) @ CHR ''>'' #
      (address_string (fDest h) @ key_path (fPath h) @ CHR '':'' # string_of (fInfo h))" for h
    by (simp add: PathDedupKey_def key_path_def)
  define rest :: "frame \<Rightarrow> string" where "rest h = key_path (fPath h) @ CHR '':'' # string_of (fInfo h)" for h
  have rest: "\<exists>c r. rest h = c # r \<and> \<not> is_addr_char c" for h
    by (cases "fPath h") (auto simp: rest_def key_path_def separators_not_addr)
  have "address_string (fDest f) @ rest f = address_string (fDest g) @ rest g
      \<longleftrightarrow> fDest f = fDest g \<and> rest f = rest g"
    using rest[of f] rest[of g] assms
    by (auto simp: delimiter_unique[OF address_string_chars address_string_chars] address_string_inj)
  then show ?thesis
    using assms
    by (simp add: key delimiter_unique[OF address_string_chars address_string_chars]
        separators_not_addr address_string_inj key_path_inj rest_def)
qed

section \<open>Round trips\<close>

definition wf_ui_frame :: "frame \<Rightarrow> bool" where
  "wf_ui_frame f \<longleftrightarrow>
     wf_address (fSource f) \<and> wf_address (fDest f) \<and> list_all wf_address (fPath f)
     \<and> length (fPath f) \<le> MaxRepeaters \<and> \<not> Repeated (fSource f) \<and> \<not> Repeated (fDest f)
     \<and> IsUI f \<and> fConnectedControl f = [] \<and> \<not> fConnectedHasInfo f"

lemma ui_frame_codec:
  assumes "wf_ui_frame f"
  shows "\<exists>raw. Encode f = Inr raw \<and> Decode raw = Inr f"
proof -
  let ?hdr = "wire_block (fSource f) (fDest f) (fPath f) (fCommandResp f)"
  let ?raw = "?hdr @ [fControl f, fPID f] @ fInfo f"
  have wf: "wf_address (fSource f)" "wf_address (fDest f)" "list_all wf_address (fPath f)"
    "length (fPath f) \<le> MaxRepeaters"
    using assms by (auto simp: wf_ui_frame_def)
  have "Encode f = Inr ?raw"
    using assms EncodeAddressBlock_wf[OF wf] by (simp add: Encode_def wf_ui_frame_def IsConnectedMode_def)
  moreover have "Decode ?raw = Inr f"
    using assms DecodeAddressBlock_wire[OF wf, of "fCommandResp f" "[fControl f, fPID f] @ fInfo f"]
    by (simp add: Decode_def Let_def IsUI_def wf_ui_frame_def nth_append)
  ultimately show ?thesis by blast
qed

interpretation ui: codec wf_ui_frame Encode Decode
  by standard (rule ui_frame_codec)

text \<open>
  Encoding a well-formed UI frame succeeds and decoding the bytes gives the
  frame back: call signs, SSIDs, the H bits of every repeater, the command bit, control,
  PID and information field all survive.
\<close>

theorem ui_frame_roundtrip:
  assumes "wf_ui_frame f"
  shows "\<exists>raw. Encode f = Inr raw \<and> Decode raw = Inr f"
  by (rule ui.dec_enc[OF assms])

definition example_ui_frame :: frame where
  "example_ui_frame =
     \<lparr>fDest = \<lparr>Call = ''APGRWF'', SSID = 0, Repeated = False\<rparr>,
      fSource = \<lparr>Call = ''NW5W'', SSID = 9, Repeated = False\<rparr>,
      fPath = [\<lparr>Call = ''WIDE1'', SSID = 1, Repeated = True\<rparr>,
               \<lparr>Call = ''WIDE2'', SSID = 1, Repeated = False\<rparr>],
      fControl = 0x03, fPID = 0xF0, fInfo = [0x21, 0x34], fCommandResp = True,
      fConnectedControl = [], fConnectedHasInfo = False\<rparr>"

lemma example_ui_frame_wf: "wf_ui_frame example_ui_frame"
  by (simp add: wf_ui_frame_def example_ui_frame_def wf_address_def MaxRepeaters_def IsUI_def
      ControlUI_def is_call_char_def is_upper_def is_digit_def)

theorem ui_frame_roundtrip_witness:
  "\<exists>raw. Encode example_ui_frame = Inr raw \<and> Decode raw = Inr example_ui_frame"
  by (rule ui_frame_roundtrip [OF example_ui_frame_wf])

theorem DedupKey_identifies_witness:
  "DedupKey example_ui_frame = DedupKey (example_ui_frame\<lparr>fPath := []\<rparr>)"
  using DedupKey_identifies [of example_ui_frame "example_ui_frame\<lparr>fPath := []\<rparr>"] example_ui_frame_wf
  by (simp add: wf_ui_frame_def same_station_def)

theorem PathDedupKey_identifies_witness:
  "PathDedupKey example_ui_frame \<noteq> PathDedupKey (example_ui_frame\<lparr>fPath := []\<rparr>)"
  using PathDedupKey_identifies [of example_ui_frame "example_ui_frame\<lparr>fPath := []\<rparr>"] example_ui_frame_wf
  by (simp add: wf_ui_frame_def) (simp add: example_ui_frame_def)

text \<open>
  The connected-mode passthrough is verbatim: for a frame whose address block is
  in canonical form, the frame built from the parsed header and the raw bytes encodes to
  exactly the bytes received, whatever control, PID and information bytes follow, so a
  client's own LAPB traffic reaches the modem unchanged.
\<close>

theorem passthrough_verbatim:
  assumes wf: "wf_address src" "wf_address dst" "list_all wf_address path" "length path \<le> MaxRepeaters"
    and raw: "EncodeAddressBlock src dst path c = Inr hdr" "raw = hdr @ tail" "tail \<noteq> []"
    and parsed: "Decode raw = Inr p"
  shows "\<exists>f. ConnectedPassthrough p raw = Inr f \<and> Encode f = Inr raw"
proof -
  have hdr: "hdr = wire_block src dst path c"
    using EncodeAddressBlock_wf[OF wf, of c] raw(1) by simp
  note dec = DecodeAddressBlock_wire[OF wf, of c tail]
  have "fSource p = src\<lparr>Repeated := False\<rparr>" "fDest p = dst\<lparr>Repeated := False\<rparr>"
    "fPath p = path" "fCommandResp p = c"
    using parsed dec hdr raw(2)
    by (auto simp: Decode_def Let_def split: if_splits)
  moreover have "EncodeAddressBlock (src\<lparr>Repeated := False\<rparr>) (dst\<lparr>Repeated := False\<rparr>) path c
      = Inr (wire_block src dst path c)"
    using wf EncodeAddressBlock_wf[of "src\<lparr>Repeated := False\<rparr>" "dst\<lparr>Repeated := False\<rparr>" path c]
    by (simp add: wf_address_def wire_block_def wire_address_def encode_ssid_byte_def)
  ultimately show ?thesis
    using dec hdr raw(2,3)
    by (simp add: ConnectedPassthrough_def Encode_def IsConnectedMode_def)
qed

theorem passthrough_verbatim_witness:
  "\<exists>hdr p f. EncodeAddressBlock \<lparr>Call = ''NW5W'', SSID = 9, Repeated = False\<rparr>
        \<lparr>Call = ''K7ABC'', SSID = 0, Repeated = False\<rparr> [] True = Inr hdr
     \<and> Decode (hdr @ [0x3F]) = Inr p \<and> ConnectedPassthrough p (hdr @ [0x3F]) = Inr f
     \<and> Encode f = Inr (hdr @ [0x3F])"
proof -
  let ?s = "\<lparr>Call = ''NW5W'', SSID = 9, Repeated = False\<rparr>" and ?d = "\<lparr>Call = ''K7ABC'', SSID = 0, Repeated = False\<rparr>"
  have wf: "wf_address ?s" "wf_address ?d" "list_all wf_address []" "length ([] :: address list) \<le> MaxRepeaters"
    by (auto simp: wf_address_def is_call_char_def is_upper_def is_digit_def)
  let ?h = "wire_block ?s ?d [] True"
  have h: "EncodeAddressBlock ?s ?d [] True = Inr ?h"
    by (rule EncodeAddressBlock_wf [OF wf])
  obtain p where p: "Decode (?h @ [0x3F]) = Inr p"
    using DecodeAddressBlock_wire[OF wf, of True "[0x3F]"]
    by (simp add: Decode_def Let_def IsUI_def ControlUI_def ControlUIWithPF_def nth_append)
  from passthrough_verbatim [OF wf h refl _ p] obtain f
    where "ConnectedPassthrough p (?h @ [0x3F]) = Inr f" "Encode f = Inr (?h @ [0x3F])" by auto
  with h p show ?thesis by blast
qed

text \<open>
  Property C8. Every address the text parser accepts is well formed (1 to 6 upper-case
  alphanumerics, SSID at most 15), and printing it and parsing it again gives it back.
\<close>

theorem ParseAddress_roundtrip:
  assumes "ParseAddress s = Inr a"
  shows "wf_address a \<and> ParseAddress (address_string a) = Inr a"
  using ParseAddress_wf[OF assms] by (simp add: ParseAddress_string)

theorem ParseAddress_roundtrip_witness:
  "wf_address \<lparr>Call = ''NW5W'', SSID = 0, Repeated = True\<rparr>
   \<and> ParseAddress (address_string \<lparr>Call = ''NW5W'', SSID = 0, Repeated = True\<rparr>)
     = Inr \<lparr>Call = ''NW5W'', SSID = 0, Repeated = True\<rparr>"
proof -
  have "ParseAddress ''nw5w*'' = Inr \<lparr>Call = ''NW5W'', SSID = 0, Repeated = True\<rparr>"
    by (simp add: ParseAddress_def has_suffix_char_def check_call_def is_alnum_def is_upper_def
        is_lower_def is_digit_def upper_char_def char_of_byte_def)
  from ParseAddress_roundtrip [OF this] show ?thesis .
qed

end
