(* ===== verification/LAPB_Control.thy ===== *)
theory LAPB_Control
  imports AX25_Frame
begin

text \<open>
  The AX.25 control field (\<^verbatim>\<open>pkg/ax25conn/control.go\<close>): frame kinds, the parsed control
  record, and the mod-8 and mod-128 encoders and decoders. The lemmas show the two
  directions of the round trip and that decoded sequence numbers lie below the modulus,
  which the session's loops rely on.
\<close>

section \<open>Data\<close>

datatype frame_kind =
    FrameInvalid | FrameI | FrameRR | FrameRNR | FrameREJ | FrameSREJ | FrameSABM | FrameSABME
  | FrameDISC | FrameDM | FrameUA | FrameFRMR | FrameUI | FrameXID | FrameTEST

fun kind_string :: "frame_kind \<Rightarrow> string" where
  "kind_string FrameI = ''I''"
| "kind_string FrameRR = ''RR''"
| "kind_string FrameRNR = ''RNR''"
| "kind_string FrameREJ = ''REJ''"
| "kind_string FrameSREJ = ''SREJ''"
| "kind_string FrameSABM = ''SABM''"
| "kind_string FrameSABME = ''SABME''"
| "kind_string FrameDISC = ''DISC''"
| "kind_string FrameDM = ''DM''"
| "kind_string FrameUA = ''UA''"
| "kind_string FrameFRMR = ''FRMR''"
| "kind_string FrameUI = ''UI''"
| "kind_string FrameXID = ''XID''"
| "kind_string FrameTEST = ''TEST''"
| "kind_string FrameInvalid = ''INVALID''"

record control =
  cKind :: frame_kind
  cNS :: u8
  cNR :: u8
  cPF :: bool

datatype lapb_err =
    ShortControl
  | UnknownUControl u8
  | NSNROverflow
  | NROverflow
  | CannotEncode frame_kind
  | ShortMod128Control
  | ReservedBits u8
  | LapbPathTooLong nat
  | LapbAddress ax25_err
  | LapbMissingControl
  | LapbMissingPID

definition mod8MaskNR :: u8 where "mod8MaskNR = 0xE0"
definition mod8MaskPF :: u8 where "mod8MaskPF = 0x10"
definition mod8MaskNS :: u8 where "mod8MaskNS = 0x0E"

section \<open>Decoding\<close>

definition s_kind :: "u8 \<Rightarrow> frame_kind" where
  "s_kind b =
     (if b AND 0x0C = 0x00 then FrameRR
      else if b AND 0x0C = 0x04 then FrameRNR
      else if b AND 0x0C = 0x08 then FrameREJ
      else FrameSREJ)"

definition u_kind :: "u8 \<Rightarrow> frame_kind option" where
  "u_kind k =
     (if k = 0x2F then Some FrameSABM
      else if k = 0x6F then Some FrameSABME
      else if k = 0x43 then Some FrameDISC
      else if k = 0x0F then Some FrameDM
      else if k = 0x63 then Some FrameUA
      else if k = 0x87 then Some FrameFRMR
      else if k = 0x03 then Some FrameUI
      else if k = 0xAF then Some FrameXID
      else if k = 0xE3 then Some FrameTEST
      else None)"

definition parse_mod8_byte :: "u8 \<Rightarrow> lapb_err + control" where
  "parse_mod8_byte b =
     (let c = \<lparr>cKind = FrameInvalid, cNS = 0, cNR = 0, cPF = (b AND mod8MaskPF \<noteq> 0)\<rparr>
      in if b AND 0x01 = 0 then
           Inr (c\<lparr>cKind := FrameI, cNS := drop_bit 1 (b AND mod8MaskNS),
                  cNR := drop_bit 5 (b AND mod8MaskNR)\<rparr>)
         else if b AND 0x03 = 0x01 then
           Inr (c\<lparr>cNR := drop_bit 5 (b AND mod8MaskNR), cKind := s_kind b\<rparr>)
         else
           (case u_kind (b AND NOT mod8MaskPF) of
              Some k \<Rightarrow> Inr (c\<lparr>cKind := k\<rparr>)
            | None \<Rightarrow> Inl (UnknownUControl b)))"

text \<open>\<^verbatim>\<open>(b >> 1) & 0x7F\<close>, the sequence number of a mod-128 octet.\<close>

definition seq7 :: "u8 \<Rightarrow> u8" where
  "seq7 b = drop_bit 1 b AND 0x7F"

definition parseControlMod128 :: "bytes \<Rightarrow> lapb_err + control" where
  "parseControlMod128 b =
     (if length b < 1 then Inl ShortControl
      else if b ! 0 AND 0x03 = 0x03 then parse_mod8_byte (b ! 0)
      else if length b < 2 then Inl ShortMod128Control
      else
        let c = \<lparr>cKind = FrameInvalid, cNS = 0, cNR = 0, cPF = (b ! 1 AND 0x01 \<noteq> 0)\<rparr>
        in if b ! 0 AND 0x01 = 0 then
             Inr (c\<lparr>cKind := FrameI, cNS := seq7 (b ! 0),
                    cNR := seq7 (b ! 1)\<rparr>)
           else if b ! 0 AND 0xF0 \<noteq> 0 then Inl (ReservedBits (b ! 0))
           else Inr (c\<lparr>cNR := seq7 (b ! 1), cKind := s_kind (b ! 0)\<rparr>))"

definition ParseControl :: "bytes \<Rightarrow> bool \<Rightarrow> lapb_err + control" where
  "ParseControl b mod128 =
     (if mod128 then parseControlMod128 b
      else if length b < 1 then Inl ShortControl
      else parse_mod8_byte (b ! 0))"

section \<open>Encoding\<close>

definition s_bits :: "frame_kind \<Rightarrow> u8" where
  "s_bits k = (case k of FrameRR \<Rightarrow> 0x01 | FrameRNR \<Rightarrow> 0x05 | FrameREJ \<Rightarrow> 0x09 | _ \<Rightarrow> 0x0D)"

definition u_bits :: "frame_kind \<Rightarrow> u8 option" where
  "u_bits k =
     (case k of FrameSABM \<Rightarrow> Some 0x2F | FrameSABME \<Rightarrow> Some 0x6F | FrameDISC \<Rightarrow> Some 0x43
      | FrameDM \<Rightarrow> Some 0x0F | FrameUA \<Rightarrow> Some 0x63 | FrameFRMR \<Rightarrow> Some 0x87 | FrameUI \<Rightarrow> Some 0x03
      | FrameXID \<Rightarrow> Some 0xAF | FrameTEST \<Rightarrow> Some 0xE3 | _ \<Rightarrow> None)"

definition is_s_kind :: "frame_kind \<Rightarrow> bool" where
  "is_s_kind k \<longleftrightarrow> k \<in> {FrameRR, FrameRNR, FrameREJ, FrameSREJ}"

text \<open>The octets the encoders assemble: I and S octets of mod-8, the two octets of mod-128.\<close>

definition pf_bit :: "bool \<Rightarrow> u8" where
  "pf_bit pf = (if pf then mod8MaskPF else 0)"

definition i_octet :: "u8 \<Rightarrow> u8 \<Rightarrow> bool \<Rightarrow> u8" where
  "i_octet ns nr pf = pf_bit pf OR push_bit 5 (nr AND 0x07) OR push_bit 1 (ns AND 0x07)"

definition s_octet :: "frame_kind \<Rightarrow> u8 \<Rightarrow> bool \<Rightarrow> u8" where
  "s_octet k nr pf = pf_bit pf OR (push_bit 5 (nr AND 0x07) OR s_bits k)"

definition ns_octet128 :: "u8 \<Rightarrow> u8" where
  "ns_octet128 ns = push_bit 1 ns AND 0xFE"

definition nr_octet128 :: "u8 \<Rightarrow> bool \<Rightarrow> u8" where
  "nr_octet128 nr pf = (let b1 = push_bit 1 nr AND 0xFE in if pf then b1 OR 0x01 else b1)"

definition encode_mod8 :: "control \<Rightarrow> lapb_err + bytes" where
  "encode_mod8 c =
     (if cKind c = FrameI then
        if cNS c > 7 \<or> cNR c > 7 then Inl NSNROverflow
        else Inr [i_octet (cNS c) (cNR c) (cPF c)]
      else if is_s_kind (cKind c) then
        if cNR c > 7 then Inl NROverflow
        else Inr [s_octet (cKind c) (cNR c) (cPF c)]
      else
        (case u_bits (cKind c) of
           Some u \<Rightarrow> Inr [pf_bit (cPF c) OR u]
         | None \<Rightarrow> Inl (CannotEncode (cKind c))))"

definition encodeControlMod128 :: "control \<Rightarrow> lapb_err + bytes" where
  "encodeControlMod128 c =
     (if cKind c = FrameI then
        if cNS c > 127 \<or> cNR c > 127 then Inl NSNROverflow
        else Inr [ns_octet128 (cNS c), nr_octet128 (cNR c) (cPF c)]
      else if is_s_kind (cKind c) then
        if cNR c > 127 then Inl NROverflow
        else Inr [s_bits (cKind c), nr_octet128 (cNR c) (cPF c)]
      else if cKind c = FrameInvalid then Inl (CannotEncode (cKind c))
      else encode_mod8 c)"

definition EncodeControl :: "control \<Rightarrow> bool \<Rightarrow> lapb_err + bytes" where
  "EncodeControl c mod128 = (if mod128 then encodeControlMod128 c else encode_mod8 c)"

section \<open>Valid controls\<close>

definition seq_modulus :: "bool \<Rightarrow> u8" where
  "seq_modulus mod128 = (if mod128 then 128 else 8)"

text \<open>
  The controls a session can build or receive: sequence numbers below the modulus, and zero
  where the kind does not carry them.
\<close>

definition wf_control :: "bool \<Rightarrow> control \<Rightarrow> bool" where
  "wf_control mod128 c \<longleftrightarrow>
     cKind c \<noteq> FrameInvalid \<and> cNS c < seq_modulus mod128 \<and> cNR c < seq_modulus mod128
     \<and> (cKind c \<noteq> FrameI \<longrightarrow> cNS c = 0)
     \<and> (cKind c \<noteq> FrameI \<and> \<not> is_s_kind (cKind c) \<longrightarrow> cNR c = 0)"

definition control_width :: "bool \<Rightarrow> u8 \<Rightarrow> nat" where
  "control_width mod128 b = (if mod128 \<and> b AND 0x03 \<noteq> 0x03 then 2 else 1)"

lemma kind_cases: "k = FrameI \<or> is_s_kind k \<or> (\<exists>u. u_bits k = Some u) \<or> k = FrameInvalid"
  by (cases k) (auto simp: is_s_kind_def u_bits_def)

lemma list_allD: "list_all P xs \<Longrightarrow> x \<in> set xs \<Longrightarrow> P x"
  by (simp add: list_all_iff)

lemma less_8_cases: "(s::u8) < 8 \<Longrightarrow> s \<in> set [0, 1, 2, 3, 4, 5, 6, 7]"
proof -
  have "\<forall>s::u8. s < 8 \<longrightarrow> s \<in> set [0, 1, 2, 3, 4, 5, 6, 7]"
    unfolding all_bytes by code_simp
  then show "s < 8 \<Longrightarrow> s \<in> set [0, 1, 2, 3, 4, 5, 6, 7]" by blast
qed

lemma bool_cases: "p \<in> set [True, False]"
  by simp

text \<open>
  The bit-level content of the round trips: each fact is evaluated over the finitely many
  values of the fields involved.
\<close>

lemma parse_encode_I_mod8:
  assumes "n < 8" "s < 8"
  shows "parse_mod8_byte (i_octet s n p)
    = Inr \<lparr>cKind = FrameI, cNS = s, cNR = n, cPF = p\<rparr>"
proof -
  have "list_all (\<lambda>n. list_all (\<lambda>s. list_all (\<lambda>p.
      parse_mod8_byte (i_octet s n p)
    = Inr \<lparr>cKind = FrameI, cNS = s, cNR = n, cPF = p\<rparr>) [True, False])
    [0, 1, 2, 3, 4, 5, 6, 7]) [0, 1, 2, 3, 4, 5, 6, 7]"
    by code_simp
  from list_allD[OF list_allD[OF list_allD[OF this less_8_cases[OF assms(1)]] less_8_cases[OF assms(2)]] bool_cases]
  show ?thesis .
qed

lemma parse_encode_S_mod8:
  assumes "n < 8" "is_s_kind k"
  shows "parse_mod8_byte (s_octet k n p)
    = Inr \<lparr>cKind = k, cNS = 0, cNR = n, cPF = p\<rparr>"
proof -
  have tbl: "list_all (\<lambda>n. list_all (\<lambda>k. list_all (\<lambda>p.
      parse_mod8_byte (s_octet k n p)
    = Inr \<lparr>cKind = k, cNS = 0, cNR = n, cPF = p\<rparr>) [True, False])
    [FrameRR, FrameRNR, FrameREJ, FrameSREJ]) [0, 1, 2, 3, 4, 5, 6, 7]"
    by code_simp
  have k: "k \<in> set [FrameRR, FrameRNR, FrameREJ, FrameSREJ]"
    using assms(2) by (auto simp: is_s_kind_def)
  from list_allD[OF list_allD[OF list_allD[OF tbl less_8_cases[OF assms(1)]] k] bool_cases]
  show ?thesis .
qed

lemma parse_encode_U_mod8:
  assumes "u_bits k = Some u"
  shows "parse_mod8_byte (pf_bit p OR u)
    = Inr \<lparr>cKind = k, cNS = 0, cNR = 0, cPF = p\<rparr>" "u AND 0x03 = 0x03"
    "(pf_bit p OR u) AND 0x03 = 0x03"
proof -
  have tbl: "list_all (\<lambda>k. list_all (\<lambda>p. case u_bits k of None \<Rightarrow> True | Some u \<Rightarrow>
      parse_mod8_byte (pf_bit p OR u)
    = Inr \<lparr>cKind = k, cNS = 0, cNR = 0, cPF = p\<rparr> \<and> u AND 0x03 = 0x03
    \<and> (pf_bit p OR u) AND 0x03 = 0x03) [True, False])
    [FrameSABM, FrameSABME, FrameDISC, FrameDM, FrameUA, FrameFRMR, FrameUI, FrameXID, FrameTEST]"
    by code_simp
  have k: "k \<in> set [FrameSABM, FrameSABME, FrameDISC, FrameDM, FrameUA, FrameFRMR, FrameUI, FrameXID, FrameTEST]"
    using assms by (auto simp: u_bits_def split: frame_kind.splits)
  from list_allD[OF list_allD[OF tbl k] bool_cases]
  have "case u_bits k of None \<Rightarrow> True | Some u \<Rightarrow>
      parse_mod8_byte (pf_bit p OR u)
    = Inr \<lparr>cKind = k, cNS = 0, cNR = 0, cPF = p\<rparr> \<and> u AND 0x03 = 0x03
    \<and> (pf_bit p OR u) AND 0x03 = 0x03"
    .
  with assms show "parse_mod8_byte (pf_bit p OR u)
    = Inr \<lparr>cKind = k, cNS = 0, cNR = 0, cPF = p\<rparr>" "u AND 0x03 = 0x03"
    "(pf_bit p OR u) AND 0x03 = 0x03" by simp_all
qed

lemma octets128:
  assumes "n < 128"
  shows "seq7 (ns_octet128 n) = n" "seq7 (nr_octet128 n p) = n"
    "ns_octet128 n AND 0x01 = 0" "(nr_octet128 n p AND 0x01 \<noteq> 0) = p" "ns_octet128 n AND 0x03 \<noteq> 0x03"
proof -
  have "\<forall>n::u8. n < 128 \<longrightarrow> seq7 (ns_octet128 n) = n
     \<and> seq7 (nr_octet128 n True) = n \<and> seq7 (nr_octet128 n False) = n
     \<and> ns_octet128 n AND 0x01 = 0 \<and> nr_octet128 n True AND 0x01 \<noteq> 0 \<and> nr_octet128 n False AND 0x01 = 0
     \<and> ns_octet128 n AND 0x03 \<noteq> 0x03"
    unfolding all_bytes by code_simp
  then have *: "seq7 (ns_octet128 n) = n" "seq7 (nr_octet128 n True) = n" "seq7 (nr_octet128 n False) = n"
    "ns_octet128 n AND 0x01 = 0" "nr_octet128 n True AND 0x01 \<noteq> 0" "nr_octet128 n False AND 0x01 = 0"
    "ns_octet128 n AND 0x03 \<noteq> 0x03"
    using assms by blast+
  from * show "seq7 (ns_octet128 n) = n" "ns_octet128 n AND 0x01 = 0" "ns_octet128 n AND 0x03 \<noteq> 0x03"
    by blast+
  from * show "seq7 (nr_octet128 n p) = n" by (cases p) (simp_all only:)
  from * show "(nr_octet128 n p AND 0x01 \<noteq> 0) = p" by (cases p) (simp_all only: simp_thms)
qed

lemma encode_parse_mod8_byte:
  "case parse_mod8_byte b of Inl e \<Rightarrow> True | Inr c \<Rightarrow> encode_mod8 c = Inr [b]"
proof -
  have "\<forall>b. case parse_mod8_byte b of Inl e \<Rightarrow> True | Inr c \<Rightarrow> encode_mod8 c = Inr [b]"
    unfolding all_bytes by code_simp
  then show ?thesis by blast
qed

lemma octets128_inverse:
  shows "b0 AND 0x01 = 0 \<Longrightarrow> ns_octet128 (seq7 b0) = (b0::u8)"
    "nr_octet128 (seq7 b1) (b1 AND 0x01 \<noteq> 0) = (b1::u8)"
    "b0 AND 0x03 \<noteq> 0x03 \<Longrightarrow> b0 AND 0x01 \<noteq> 0 \<Longrightarrow> b0 AND 0xF0 = 0 \<Longrightarrow> s_bits (s_kind b0) = b0"
    "seq7 b1 < (128::u8)"
proof -
  have "\<forall>b0::u8. (b0 AND 0x01 = 0 \<longrightarrow> ns_octet128 (seq7 b0) = b0)
    \<and> nr_octet128 (seq7 b0) (b0 AND 0x01 \<noteq> 0) = b0
    \<and> (b0 AND 0x03 \<noteq> 0x03 \<longrightarrow> b0 AND 0x01 \<noteq> 0 \<longrightarrow> b0 AND 0xF0 = 0 \<longrightarrow> s_bits (s_kind b0) = b0)
    \<and> seq7 b0 < (128::u8)"
    unfolding all_bytes by code_simp
  then show "b0 AND 0x01 = 0 \<Longrightarrow> ns_octet128 (seq7 b0) = b0"
    "nr_octet128 (seq7 b1) (b1 AND 0x01 \<noteq> 0) = b1"
    "b0 AND 0x03 \<noteq> 0x03 \<Longrightarrow> b0 AND 0x01 \<noteq> 0 \<Longrightarrow> b0 AND 0xF0 = 0 \<Longrightarrow> s_bits (s_kind b0) = b0"
    "seq7 b1 < (128::u8)" by blast+
qed

lemma is_s_kind_s_kind: "is_s_kind (s_kind b)" "s_kind b \<noteq> FrameI" "s_kind b \<noteq> FrameInvalid"
  by (simp_all add: is_s_kind_def s_kind_def)

lemma wf_parse_mod8_byte:
  "case parse_mod8_byte b of Inl e \<Rightarrow> True
   | Inr c \<Rightarrow> wf_control False c \<and> (b AND 0x03 = 0x03 \<longrightarrow> wf_control True c \<and> u_bits (cKind c) \<noteq> None)"
proof -
  have "\<forall>b. case parse_mod8_byte b of Inl e \<Rightarrow> True
   | Inr c \<Rightarrow> wf_control False c \<and> (b AND 0x03 = 0x03 \<longrightarrow> wf_control True c \<and> u_bits (cKind c) \<noteq> None)"
    unfolding all_bytes by code_simp
  then show ?thesis by blast
qed

lemma s_kind_s_bits:
  "is_s_kind k \<Longrightarrow> s_kind (s_bits k) = k \<and> s_bits k AND 0x03 = 1 \<and> s_bits k AND 0x01 = 1 \<and> s_bits k AND 0xF0 = 0"
  by (auto simp: is_s_kind_def s_kind_def s_bits_def)

lemma u_bits_not_IS: "u_bits k = Some u \<Longrightarrow> k \<noteq> FrameI \<and> \<not> is_s_kind k \<and> k \<noteq> FrameInvalid"
  by (cases k) (auto simp: u_bits_def is_s_kind_def)

lemma u8_gt: "(n::u8) < 8 \<Longrightarrow> \<not> 7 < n" "(n::u8) < 128 \<Longrightarrow> \<not> 127 < n"
  by (simp_all add: word_less_nat_alt)

section \<open>Round trips\<close>

lemma control_roundtrip_mod8:
  assumes "wf_control False c"
  shows "\<exists>b. encode_mod8 c = Inr [b] \<and> parse_mod8_byte b = Inr c
    \<and> (u_bits (cKind c) \<noteq> None \<longrightarrow> b AND 0x03 = 0x03)"
proof -
  obtain k s n p where c: "c = \<lparr>cKind = k, cNS = s, cNR = n, cPF = p\<rparr>"
    by (cases c)
  from assms have lt: "n < 8" "s < 8" and "k \<noteq> FrameInvalid"
    by (auto simp: c wf_control_def seq_modulus_def)
  with kind_cases[of k] consider (I) "k = FrameI" | (S) "is_s_kind k" | (U) u where "u_bits k = Some u"
    by auto
  then show ?thesis
  proof cases
    case I
    with lt show ?thesis
      by (simp add: c encode_mod8_def u8_gt parse_encode_I_mod8 u_bits_def Let_def)
  next
    case S
    then have "k \<noteq> FrameI" "s = 0" "u_bits k = None"
      using assms by (auto simp: c wf_control_def is_s_kind_def u_bits_def)
    with lt S show ?thesis
      by (simp add: c encode_mod8_def u8_gt parse_encode_S_mod8 Let_def)
  next
    case U
    with u_bits_not_IS[OF U] assms have "k \<noteq> FrameI" "\<not> is_s_kind k" "s = 0" "n = 0"
      by (auto simp: c wf_control_def)
    with U show ?thesis
      using parse_encode_U_mod8[OF U] by (simp add: c encode_mod8_def Let_def)
  qed
qed

lemma control_roundtrip_mod128:
  assumes "wf_control True c"
  shows "\<exists>b. encodeControlMod128 c = Inr b \<and> parseControlMod128 (b @ rest) = Inr c
    \<and> length b = control_width True (hd b) \<and> b \<noteq> []"
proof -
  obtain k s n p where c: "c = \<lparr>cKind = k, cNS = s, cNR = n, cPF = p\<rparr>"
    by (cases c)
  from assms have lt: "n < 128" "s < 128" and "k \<noteq> FrameInvalid"
    by (auto simp: c wf_control_def seq_modulus_def)
  with kind_cases[of k] consider (I) "k = FrameI" | (S) "is_s_kind k" | (U) u where "u_bits k = Some u"
    by auto
  then show ?thesis
  proof cases
    case I
    have "encodeControlMod128 c = Inr [ns_octet128 s, nr_octet128 n p]"
      using I lt by (simp add: c encodeControlMod128_def u8_gt)
    moreover have "parseControlMod128 ([ns_octet128 s, nr_octet128 n p] @ rest) = Inr c"
      unfolding parseControlMod128_def c Let_def
      using I octets128[OF lt(1)] octets128[OF lt(2)] by (simp)
    moreover have "control_width True (ns_octet128 s) = 2"
      using octets128(5)[OF lt(2)] by (simp add: control_width_def)
    ultimately show ?thesis by simp
  next
    case S
    from S have k: "k \<noteq> FrameI" "s = 0"
      using assms by (auto simp: c wf_control_def is_s_kind_def)
    have "encodeControlMod128 c = Inr [s_bits k, nr_octet128 n p]"
      using S k lt by (simp add: c encodeControlMod128_def u8_gt)
    moreover have "parseControlMod128 ([s_bits k, nr_octet128 n p] @ rest) = Inr c"
      unfolding parseControlMod128_def c Let_def
      using k s_kind_s_bits[OF S] octets128[OF lt(1)] by (simp)
    moreover have "control_width True (s_bits k) = 2"
      using s_kind_s_bits[OF S] by (simp add: control_width_def)
    ultimately show ?thesis by simp
  next
    case U
    note nk = u_bits_not_IS[OF U]
    then have "wf_control False c"
      using assms by (auto simp: c wf_control_def seq_modulus_def)
    from control_roundtrip_mod8[OF this] U obtain b where
      b: "encode_mod8 c = Inr [b]" "parse_mod8_byte b = Inr c" "b AND 0x03 = 0x03"
      by (auto simp: c)
    with nk show ?thesis
      by (simp add: c encodeControlMod128_def parseControlMod128_def control_width_def Let_def)
  qed
qed

lemma control_encode_parse_lemma:
  assumes "wf_control m c"
  shows "\<exists>b. EncodeControl c m = Inr b \<and> b \<noteq> [] \<and> ParseControl (b @ rest) m = Inr c
    \<and> length b = control_width m (hd b)"
proof (cases m)
  case True
  with assms have "wf_control True c" by simp
  then obtain b where "encodeControlMod128 c = Inr b" "parseControlMod128 (b @ rest) = Inr c"
    "length b = control_width True (hd b)" "b \<noteq> []"
    using control_roundtrip_mod128[of c rest] by blast
  with True show ?thesis
    by (intro exI[of _ b]) (simp add: EncodeControl_def ParseControl_def)
next
  case False
  with assms have "wf_control False c" by simp
  then obtain b where "encode_mod8 c = Inr [b]" "parse_mod8_byte b = Inr c"
    using control_roundtrip_mod8[of c] by blast
  with False show ?thesis
    by (intro exI[of _ "[b]"]) (simp add: EncodeControl_def ParseControl_def control_width_def)
qed

interpretation ctl: codec "wf_control m" "\<lambda>c. EncodeControl c m" "\<lambda>b. ParseControl b m" for m
proof
  fix c assume "wf_control m c"
  from control_encode_parse_lemma[OF this, of "[]"]
  show "\<exists>b. EncodeControl c m = Inr b \<and> ParseControl b m = Inr c" by auto
qed

text \<open>
  Every valid control field survives encoding and decoding under either
  modulus, whatever bytes follow it on the wire, and its encoding has the width the frame
  decoder will assume (one octet under mod-8 and for U frames, two otherwise).
\<close>

theorem control_encode_parse:
  assumes "wf_control m c"
  shows "\<exists>b. EncodeControl c m = Inr b \<and> b \<noteq> [] \<and> ParseControl (b @ rest) m = Inr c
    \<and> length b = control_width m (hd b)"
  by (rule control_encode_parse_lemma[OF assms])

theorem control_encode_parse_witness:
  "\<exists>b. EncodeControl \<lparr>cKind = FrameI, cNS = 100, cNR = 7, cPF = True\<rparr> True = Inr b
     \<and> ParseControl (b @ [0xF0]) True = Inr \<lparr>cKind = FrameI, cNS = 100, cNR = 7, cPF = True\<rparr>"
proof -
  have "wf_control True \<lparr>cKind = FrameI, cNS = 100, cNR = 7, cPF = True\<rparr>"
    by (simp add: wf_control_def seq_modulus_def)
  from control_encode_parse [OF this, of "[0xF0]"] show ?thesis by blast
qed

lemma parse_control_mod128_cases:
  assumes "ParseControl b True = Inr c" "b ! 0 AND 0x03 \<noteq> 0x03"
  obtains (I) "b ! 0 AND 0x01 = 0" "length b \<ge> 2"
      "c = \<lparr>cKind = FrameI, cNS = seq7 (b ! 0), cNR = seq7 (b ! 1),
        cPF = (b ! 1 AND 0x01 \<noteq> 0)\<rparr>"
    | (S) "b ! 0 AND 0x01 \<noteq> 0" "b ! 0 AND 0xF0 = 0" "length b \<ge> 2"
      "c = \<lparr>cKind = s_kind (b ! 0), cNS = 0, cNR = seq7 (b ! 1),
        cPF = (b ! 1 AND 0x01 \<noteq> 0)\<rparr>"
proof (cases "b ! 0 AND 0x01 = 0")
  case True
  with assms I show thesis
    unfolding ParseControl_def parseControlMod128_def Let_def
    by (simp split: if_splits)
next
  case False
  with assms S show thesis
    unfolding ParseControl_def parseControlMod128_def Let_def
    by (simp split: if_splits)
qed

lemma parse_control_wf:
  assumes "ParseControl b m = Inr c"
  shows "wf_control m c"
proof (cases "m \<and> b ! 0 AND 0x03 \<noteq> 0x03")
  case True
  with assms have m: "ParseControl b True = Inr c" "b ! 0 AND 0x03 \<noteq> 0x03" "m" by auto
  from m(1,2) show ?thesis
    by (cases rule: parse_control_mod128_cases)
      (use m(3) octets128_inverse(4) is_s_kind_s_kind in \<open>simp_all add: wf_control_def seq_modulus_def\<close>)
next
  case False
  with assms have "parse_mod8_byte (b ! 0) = Inr c" "m \<longrightarrow> b ! 0 AND 0x03 = 0x03"
    by (auto simp: ParseControl_def parseControlMod128_def split: if_splits)
  with wf_parse_mod8_byte[of "b ! 0"] show ?thesis by (cases m) auto
qed

text \<open>
  Decoding is exact: a control field that decodes is well formed (its sequence
  numbers are below the modulus), and re-encoding it reproduces the octets it was read from,
  so no two different control octets decode to the same control.
\<close>

theorem control_parse_encode:
  assumes "ParseControl b m = Inr c"
  shows "wf_control m c \<and> EncodeControl c m = Inr (take (control_width m (b ! 0)) b)"
proof
  show wf: "wf_control m c" by (rule parse_control_wf[OF assms])
  show "EncodeControl c m = Inr (take (control_width m (b ! 0)) b)"
  proof (cases "m \<and> b ! 0 AND 0x03 \<noteq> 0x03")
    case True
    then have m: "ParseControl b True = Inr c" "b ! 0 AND 0x03 \<noteq> 0x03" "m" using assms by auto
    have n: "\<not> 127 < seq7 x" for x
      by (rule u8_gt(2)[OF octets128_inverse(4)])
    have w: "control_width m (b ! 0) = 2"
      using m by (simp add: control_width_def)
    have t: "take 2 b = [b ! 0, b ! 1]" if "2 \<le> length b"
      using that by (cases b; cases "tl b") auto
    from m(1,2) show ?thesis
    proof (cases rule: parse_control_mod128_cases)
      case I
      have "encodeControlMod128 c = Inr [b ! 0, b ! 1]"
        using n by (simp add: I(3) encodeControlMod128_def octets128_inverse(2) octets128_inverse(1)[OF I(1)])
      with m(3) w t[OF I(2)] show ?thesis by (simp add: EncodeControl_def)
    next
      case S
      have "encodeControlMod128 c = Inr [b ! 0, b ! 1]"
        using n by (simp add: S(4) encodeControlMod128_def is_s_kind_s_kind octets128_inverse(2)
            octets128_inverse(3)[OF m(2) S(1,2)])
      with m(3) w t[OF S(3)] show ?thesis by (simp add: EncodeControl_def)
    qed
  next
    case False
    with assms have p: "parse_mod8_byte (b ! 0) = Inr c" and u: "m \<longrightarrow> b ! 0 AND 0x03 = 0x03" and l: "b \<noteq> []"
      by (auto simp: ParseControl_def parseControlMod128_def split: if_splits)
    have e: "encode_mod8 c = Inr [b ! 0]"
      using encode_parse_mod8_byte[of "b ! 0"] p by simp
    have w: "control_width m (b ! 0) = 1" and t: "take 1 b = [b ! 0]"
      using u l by (auto simp: control_width_def take_Suc hd_conv_nth)
    have "m \<Longrightarrow> encodeControlMod128 c = encode_mod8 c"
      using wf_parse_mod8_byte[of "b ! 0"] p u u_bits_not_IS[of "cKind c"]
      by (auto simp: encodeControlMod128_def Let_def)
    with e w t show ?thesis by (simp add: EncodeControl_def)
  qed
qed

theorem control_parse_encode_witness:
  "EncodeControl \<lparr>cKind = FrameREJ, cNS = 0, cNR = 5, cPF = False\<rparr> False = Inr [0xA9]"
proof -
  have "ParseControl [0xA9] False = Inr \<lparr>cKind = FrameREJ, cNS = 0, cNR = 5, cPF = False\<rparr>"
    by code_simp
  from control_parse_encode [OF this] show ?thesis by (simp add: control_width_def)
qed

end
