(* ===== verification/LAPB_Frame.thy ===== *)
theory LAPB_Frame
  imports LAPB_Control
begin

text \<open>
  Connected-mode frames (\<^verbatim>\<open>pkg/ax25conn/frame.go\<close>): the frame record the session works with,
  its wire codec, and the projection onto the \<^typ>\<open>frame\<close> surface that the transmit governor
  and its hooks observe.
\<close>

section \<open>Data and operations\<close>

record lframe =
  lfSource :: address
  lfDest :: address
  lfPath :: "address list"
  lfControl :: control
  lfPID :: u8
  lfInfo :: bytes
  lfIsCommand :: bool
  lfMod128 :: bool

definition kind_has_info :: "frame_kind \<Rightarrow> bool" where
  "kind_has_info k \<longleftrightarrow> k \<in> {FrameI, FrameUI, FrameFRMR, FrameXID, FrameTEST}"

definition kind_has_pid :: "frame_kind \<Rightarrow> bool" where
  "kind_has_pid k \<longleftrightarrow> k = FrameI \<or> k = FrameUI"

definition hasInfo :: "lframe \<Rightarrow> bool" where
  "hasInfo f = kind_has_info (cKind (lfControl f))"

definition hasPID :: "lframe \<Rightarrow> bool" where
  "hasPID f = kind_has_pid (cKind (lfControl f))"

definition ToAX25Frame :: "lframe \<Rightarrow> lapb_err + frame" where
  "ToAX25Frame f =
     try_bind (EncodeControl (lfControl f) (lfMod128 f)) (\<lambda>ctl.
     let out = \<lparr>fDest = lfDest f, fSource = lfSource f, fPath = lfPath f, fControl = 0, fPID = 0,
                fInfo = [], fCommandResp = lfIsCommand f, fConnectedControl = ctl,
                fConnectedHasInfo = hasInfo f\<rparr>;
         out = (if hasPID f then out\<lparr>fPID := lfPID f\<rparr> else out);
         out = (if hasInfo f then out\<lparr>fInfo := lfInfo f\<rparr> else out)
     in Inr out)"

definition lift_address_err :: "ax25_err + 'a \<Rightarrow> lapb_err + 'a" where
  "lift_address_err r = (case r of Inl e \<Rightarrow> Inl (LapbAddress e) | Inr x \<Rightarrow> Inr x)"

lemma lift_address_err_simps [simp]:
  "lift_address_err (Inl e) = Inl (LapbAddress e)" "lift_address_err (Inr x) = Inr x"
  by (simp_all add: lift_address_err_def)

definition lapb_Encode :: "lframe \<Rightarrow> lapb_err + bytes" where
  "lapb_Encode f =
     (if length (lfPath f) > MaxRepeaters then Inl (LapbPathTooLong (length (lfPath f)))
      else
        try_bind (lift_address_err (EncodeAddressBlock (lfSource f) (lfDest f) (lfPath f) (lfIsCommand f)))
          (\<lambda>addrBytes.
        try_bind (EncodeControl (lfControl f) (lfMod128 f)) (\<lambda>ctl.
        Inr (addrBytes @ ctl @ (if hasPID f then [lfPID f] else [])
             @ (if hasInfo f then lfInfo f else [])))))"

definition lapb_Decode :: "bytes \<Rightarrow> bool \<Rightarrow> lapb_err + lframe" where
  "lapb_Decode raw mod128 =
     try_bind (lift_address_err (DecodeAddressBlock raw)) (\<lambda>hdr.
     let off = abAddrLen hdr in
     if off \<ge> length raw then Inl LapbMissingControl
     else
       let ctlSize = (if mod128 \<and> raw ! off AND 0x03 \<noteq> 0x03 then 2 else 1) in
       if length raw < off + ctlSize then Inl LapbMissingControl
       else
         try_bind (ParseControl (take ctlSize (drop off raw)) mod128) (\<lambda>c.
         let off = off + ctlSize;
             f = \<lparr>lfSource = abSource hdr, lfDest = abDest hdr, lfPath = abPath hdr, lfControl = c,
                  lfPID = 0, lfInfo = [], lfIsCommand = abIsCommand hdr, lfMod128 = mod128\<rparr>
         in if hasPID f \<and> off \<ge> length raw then Inl LapbMissingPID
            else
              let (f, off) = (if hasPID f then (f\<lparr>lfPID := raw ! off\<rparr>, off + 1) else (f, off))
              in Inr (if hasInfo f then f\<lparr>lfInfo := drop off raw\<rparr> else f)))"

section \<open>Correctness\<close>

definition wf_lframe :: "lframe \<Rightarrow> bool" where
  "wf_lframe f \<longleftrightarrow>
     wf_address (lfSource f) \<and> wf_address (lfDest f) \<and> list_all wf_address (lfPath f)
     \<and> length (lfPath f) \<le> MaxRepeaters \<and> \<not> Repeated (lfSource f) \<and> \<not> Repeated (lfDest f)
     \<and> wf_control (lfMod128 f) (lfControl f)
     \<and> (\<not> hasPID f \<longrightarrow> lfPID f = 0) \<and> (\<not> hasInfo f \<longrightarrow> lfInfo f = [])"

lemma lapb_frame_roundtrip_aux:
  assumes "wf_lframe f"
  shows "\<exists>raw. lapb_Encode f = Inr raw \<and> lapb_Decode raw (lfMod128 f) = Inr f"
proof -
  define m where "m = lfMod128 f"
  define hdr where "hdr = wire_block (lfSource f) (lfDest f) (lfPath f) (lfIsCommand f)"
  have wf: "wf_address (lfSource f)" "wf_address (lfDest f)" "list_all wf_address (lfPath f)"
    "length (lfPath f) \<le> MaxRepeaters" and c: "wf_control m (lfControl f)"
    using assms by (auto simp: wf_lframe_def m_def)
  obtain ctl where ctl: "EncodeControl (lfControl f) m = Inr ctl" "ctl \<noteq> []"
    "ParseControl (ctl @ []) m = Inr (lfControl f)" "length ctl = control_width m (hd ctl)"
    using control_encode_parse_lemma[OF c] by blast
  define tail where "tail = (if hasPID f then [lfPID f] else []) @ (if hasInfo f then lfInfo f else [])"
  define raw where "raw = hdr @ ctl @ tail"
  have enc: "lapb_Encode f = Inr raw"
    using wf ctl by (simp add: lapb_Encode_def EncodeAddressBlock_wf raw_def hdr_def tail_def m_def)
  have len: "length hdr = 14 + 7 * length (lfPath f)"
    by (simp add: hdr_def)
  have r0: "raw ! (14 + 7 * length (lfPath f)) = hd ctl"
    using ctl(2) len by (simp add: raw_def nth_append hd_conv_nth)
  have size: "(if m \<and> raw ! (14 + 7 * length (lfPath f)) AND 0x03 \<noteq> 0x03 then 2 else 1) = length ctl"
    using ctl(4) by (simp add: r0 control_width_def)
  have dec: "DecodeAddressBlock raw = Inr \<lparr>abSource = lfSource f, abDest = lfDest f,
      abPath = lfPath f, abIsCommand = lfIsCommand f, abAddrLen = 14 + 7 * length (lfPath f)\<rparr>"
    using DecodeAddressBlock_wire[OF wf, of "lfIsCommand f" "ctl @ tail"] assms
    by (simp add: raw_def hdr_def wf_lframe_def)
  have drops: "take (length ctl) (drop (14 + 7 * length (lfPath f)) raw) = ctl"
    "drop (14 + 7 * length (lfPath f) + length ctl) raw = tail"
    using len by (simp_all add: raw_def)
  have lens: "\<not> length raw \<le> 14 + 7 * length (lfPath f)"
    "length raw = 14 + 7 * length (lfPath f) + length ctl + length tail"
    using len ctl(2) by (simp_all add: raw_def)
  have pid: "hasPID f \<Longrightarrow> raw ! (14 + 7 * length (lfPath f) + length ctl) = lfPID f"
    using len by (simp add: raw_def tail_def nth_append)
  have kinds: "hasPID f \<Longrightarrow> hasInfo f"
    by (auto simp: hasPID_def hasInfo_def kind_has_info_def kind_has_pid_def)
  have drop1: "hasPID f \<Longrightarrow> drop (Suc (14 + 7 * length (lfPath f) + length ctl)) raw = lfInfo f"
    using len kinds by (simp add: raw_def tail_def)
  define g where "g = \<lparr>lfSource = lfSource f, lfDest = lfDest f, lfPath = lfPath f,
      lfControl = lfControl f, lfPID = 0, lfInfo = [], lfIsCommand = lfIsCommand f, lfMod128 = m\<rparr>"
  have g: "hasPID g = hasPID f" "hasInfo g = hasInfo f"
    "hasInfo (g\<lparr>lfPID := p\<rparr>) = hasInfo f" for p
    by (simp_all add: g_def hasPID_def hasInfo_def)
  have gf: "hasPID f \<Longrightarrow> g\<lparr>lfPID := lfPID f, lfInfo := lfInfo f\<rparr> = f"
    "\<not> hasPID f \<Longrightarrow> hasInfo f \<Longrightarrow> g\<lparr>lfInfo := lfInfo f\<rparr> = f"
    "\<not> hasPID f \<Longrightarrow> \<not> hasInfo f \<Longrightarrow> g = f"
    using assms by (simp_all add: g_def m_def wf_lframe_def)
  have pc: "ParseControl ctl m = Inr (lfControl f)"
    using ctl(3) by simp
  have "\<not> length raw < 14 + 7 * length (lfPath f) + length ctl"
    "hasPID f \<Longrightarrow> \<not> length raw \<le> 14 + 7 * length (lfPath f) + length ctl"
    using lens(2) by (simp_all add: tail_def)
  note bounds = this
  have "lapb_Decode raw m =
     (if hasPID f then Inr (if hasInfo f then g\<lparr>lfPID := lfPID f, lfInfo := lfInfo f\<rparr> else g\<lparr>lfPID := lfPID f\<rparr>)
      else Inr (if hasInfo f then g\<lparr>lfInfo := tail\<rparr> else g))"
    unfolding lapb_Decode_def dec lift_address_err_simps try_bind_simps Let_def address_block.simps
      size drops pc g_def[symmetric] g
    using lens(1) bounds pid drop1 by (simp add: g drops(2))
  moreover have "\<not> hasPID f \<Longrightarrow> hasInfo f \<Longrightarrow> tail = lfInfo f"
    by (simp add: tail_def)
  ultimately have "lapb_Decode raw m = Inr f"
    using gf kinds by auto
  with enc show ?thesis by (auto simp: m_def)
qed

interpretation lapb: codec "\<lambda>f. wf_lframe f \<and> lfMod128 f = m" lapb_Encode "\<lambda>raw. lapb_Decode raw m" for m
  using lapb_frame_roundtrip_aux by unfold_locales auto

text \<open>
  Encoding a well-formed connected-mode frame succeeds, and decoding the bytes
  under the same modulus gives the frame back: addresses, control field, polarity, PID and
  payload. A link therefore delivers exactly the frames the peer built, provided both ends
  agree on the modulus.
\<close>

theorem lapb_frame_roundtrip:
  assumes "wf_lframe f"
  shows "\<exists>raw. lapb_Encode f = Inr raw \<and> lapb_Decode raw (lfMod128 f) = Inr f"
  using lapb.dec_enc[of f "lfMod128 f"] assms by simp

definition example_iframe :: lframe where
  "example_iframe =
     \<lparr>lfSource = \<lparr>Call = ''NW5W'', SSID = 1, Repeated = False\<rparr>,
      lfDest = \<lparr>Call = ''BBS'', SSID = 0, Repeated = False\<rparr>, lfPath = [],
      lfControl = \<lparr>cKind = FrameI, cNS = 3, cNR = 100, cPF = False\<rparr>, lfPID = 0xF0,
      lfInfo = [0x68, 0x69], lfIsCommand = True, lfMod128 = True\<rparr>"

lemma example_iframe_wf: "wf_lframe example_iframe"
  by (simp add: wf_lframe_def example_iframe_def wf_address_def is_call_char_def is_upper_def
      is_digit_def wf_control_def seq_modulus_def hasPID_def hasInfo_def kind_has_pid_def kind_has_info_def)

theorem lapb_frame_roundtrip_witness:
  "\<exists>raw. lapb_Encode example_iframe = Inr raw \<and> lapb_Decode raw True = Inr example_iframe"
  using lapb_frame_roundtrip [OF example_iframe_wf] by (simp add: example_iframe_def)

text \<open>The kinds whose projection onto \<^typ>\<open>frame\<close> carries a PID octet the frame does not have.\<close>

definition info_without_pid :: "frame_kind \<Rightarrow> bool" where
  "info_without_pid k \<longleftrightarrow> kind_has_info k \<and> \<not> kind_has_pid k"

text \<open>
  The transmit path is faithful to the frame codec: what the governor puts on
  the air for a session frame, \<^const>\<open>Encode\<close> of its projection, is byte for byte what
  \<^const>\<open>lapb_Encode\<close> produces, for every kind the session sends.
\<close>

theorem ToAX25Frame_encode:
  assumes "\<not> info_without_pid (cKind (lfControl f))" "ToAX25Frame f = Inr g" "lapb_Encode f = Inr raw"
  shows "Encode g = Inr raw"
proof -
  obtain ctl where ctl: "EncodeControl (lfControl f) (lfMod128 f) = Inr ctl"
    using assms(2) by (auto simp: ToAX25Frame_def try_bind_Inr)
  obtain hdr where hdr: "EncodeAddressBlock (lfSource f) (lfDest f) (lfPath f) (lfIsCommand f) = Inr hdr"
    using assms(3)
    by (cases "EncodeAddressBlock (lfSource f) (lfDest f) (lfPath f) (lfIsCommand f)")
      (auto simp: lapb_Encode_def split: if_splits)
  have ne: "ctl \<noteq> []"
    using ctl by (auto simp: EncodeControl_def encode_mod8_def encodeControlMod128_def
        split: if_splits option.splits)
  show ?thesis
    using assms ctl hdr ne
    by (auto simp: ToAX25Frame_def lapb_Encode_def Encode_def IsConnectedMode_def hasInfo_def hasPID_def
        info_without_pid_def kind_has_info_def kind_has_pid_def Let_def split: if_splits)
qed

theorem ToAX25Frame_encode_witness:
  "\<exists>g raw. ToAX25Frame example_iframe = Inr g \<and> lapb_Encode example_iframe = Inr raw \<and> Encode g = Inr raw"
proof -
  obtain raw where raw: "lapb_Encode example_iframe = Inr raw"
    using lapb_frame_roundtrip_aux[OF example_iframe_wf] by blast
  obtain g where g: "ToAX25Frame example_iframe = Inr g"
    by (simp add: ToAX25Frame_def example_iframe_def EncodeControl_def encodeControlMod128_def Let_def)
  have "\<not> info_without_pid (cKind (lfControl example_iframe))"
    by (simp add: example_iframe_def info_without_pid_def kind_has_pid_def)
  from ToAX25Frame_encode [OF this g raw] g raw show ?thesis by blast
qed

text \<open>
  For FRMR, XID and TEST frames the two disagree: the projection marks the
  information field present, and the \<^const>\<open>Encode\<close> of the \<^typ>\<open>frame\<close> surface then
  always writes a PID octet (zero here) before it, which the frame codec does not. No such
  frame would survive the trip; the session never sends one.
\<close>

theorem ToAX25Frame_spurious_pid:
  assumes "info_without_pid (cKind (lfControl f))" "ToAX25Frame f = Inr g" "lapb_Encode f = Inr raw"
  shows "\<exists>hdr. raw = hdr @ lfInfo f \<and> Encode g = Inr (hdr @ 0 # lfInfo f)"
proof -
  obtain ctl where ctl: "EncodeControl (lfControl f) (lfMod128 f) = Inr ctl"
    using assms(2) by (auto simp: ToAX25Frame_def try_bind_Inr)
  obtain hdr where hdr: "EncodeAddressBlock (lfSource f) (lfDest f) (lfPath f) (lfIsCommand f) = Inr hdr"
    using assms(3)
    by (cases "EncodeAddressBlock (lfSource f) (lfDest f) (lfPath f) (lfIsCommand f)")
      (auto simp: lapb_Encode_def split: if_splits)
  have ne: "ctl \<noteq> []"
    using ctl by (auto simp: EncodeControl_def encode_mod8_def encodeControlMod128_def
        split: if_splits option.splits)
  show ?thesis
    using assms ctl hdr ne
    by (intro exI[of _ "hdr @ ctl"])
      (auto simp: ToAX25Frame_def lapb_Encode_def Encode_def IsConnectedMode_def hasInfo_def hasPID_def
        info_without_pid_def Let_def split: if_splits)
qed

theorem ToAX25Frame_spurious_pid_witness:
  "\<exists>g raw. ToAX25Frame (example_iframe\<lparr>lfControl := \<lparr>cKind = FrameTEST, cNS = 0, cNR = 0, cPF = True\<rparr>\<rparr>) = Inr g
     \<and> lapb_Encode (example_iframe\<lparr>lfControl := \<lparr>cKind = FrameTEST, cNS = 0, cNR = 0, cPF = True\<rparr>\<rparr>) = Inr raw
     \<and> Encode g \<noteq> Inr raw"
proof -
  let ?f = "example_iframe\<lparr>lfControl := \<lparr>cKind = FrameTEST, cNS = 0, cNR = 0, cPF = True\<rparr>\<rparr>"
  have i: "info_without_pid (cKind (lfControl ?f))"
    by (simp add: info_without_pid_def kind_has_pid_def kind_has_info_def)
  have "wf_lframe (?f\<lparr>lfPID := 0\<rparr>)"
    by (simp add: wf_lframe_def example_iframe_def wf_address_def is_call_char_def is_upper_def
      is_digit_def wf_control_def seq_modulus_def hasPID_def hasInfo_def kind_has_pid_def kind_has_info_def is_s_kind_def)
  then obtain raw where "lapb_Encode (?f\<lparr>lfPID := 0\<rparr>) = Inr raw"
    using lapb_frame_roundtrip_aux by blast
  then have raw: "lapb_Encode ?f = Inr raw"
    by (simp add: lapb_Encode_def hasPID_def hasInfo_def kind_has_pid_def kind_has_info_def example_iframe_def)
  obtain g where g: "ToAX25Frame ?f = Inr g"
    by (simp add: ToAX25Frame_def example_iframe_def EncodeControl_def encodeControlMod128_def
        encode_mod8_def u_bits_def is_s_kind_def Let_def)
  from ToAX25Frame_spurious_pid [OF i g raw] g raw show ?thesis by fastforce
qed

end
