(* ===== verification/TX_Source.thy ===== *)
theory TX_Source
  imports AX25_Frame
begin

text \<open>
  What a caller of the transmit governor says about a frame
  (\<^verbatim>\<open>txgovernor.SubmitSource\<close>, \<^verbatim>\<open>pkg/txgovernor/governor.go\<close>), shared by the LAPB
  sessions, the digipeater and the governor itself.
\<close>

record submit_source =
  ssKind :: string
  ssDetail :: string
  ssPriority :: int
  ssSkipDedup :: bool

end
