(* ===== verification/LAPB_State.thy ===== *)
theory LAPB_State
  imports LAPB_Frame TX_Source "HOL-Library.Signed_Division"
begin

text \<open>
  The state of one LAPB session and the operations the transition handlers are built from
  (\<^verbatim>\<open>pkg/ax25conn/state.go\<close>, \<^verbatim>\<open>events.go\<close>, \<^verbatim>\<open>defaults.go\<close>, \<^verbatim>\<open>session.go\<close> and the
  helpers of \<^verbatim>\<open>transitions_connected.go\<close> and \<^verbatim>\<open>transitions_disconnected.go\<close>).

  Effects are explicit: \<open>sSent\<close> is the log of frames the TX sink accepted and \<open>sOut\<close> the log of
  events given to the observer. The sink is a parameter, \<open>eSink n\<close> says whether it accepts the
  \<open>n\<close>-th frame submitted; \<open>eNow\<close> is the clock, sampled once per handled event. Durations and
  instants are nanoseconds. A timer is its armed flag and the duration it was last armed with;
  the theory \<^verbatim>\<open>LAPB_Timer\<close> relates this to the generation-counted timers of the code.
\<close>

section \<open>Durations and defaults\<close>

definition ms :: "int \<Rightarrow> int" where "ms n = n * 1000000"
definition seconds :: "int \<Rightarrow> int" where "seconds n = n * 1000000000"

definition DefaultT1 :: int where "DefaultT1 = seconds 10"
definition DefaultT2 :: int where "DefaultT2 = seconds 3"
definition DefaultT3 :: int where "DefaultT3 = seconds 300"
definition DefaultHeartbeat :: int where "DefaultHeartbeat = seconds 5"
definition DefaultN2 :: int where "DefaultN2 = 10"
definition DefaultPaclen :: int where "DefaultPaclen = 256"
definition DefaultWindowMod8 :: int where "DefaultWindowMod8 = 2"
definition DefaultWindowMod128 :: int where "DefaultWindowMod128 = 32"
definition DefaultStatsTick :: int where "DefaultStatsTick = seconds 1"

datatype backoff = BackoffUnset | BackoffNone | BackoffLinear | BackoffExponential

definition DefaultBackoff :: backoff where "DefaultBackoff = BackoffLinear"
definition RTTClampLo :: int where "RTTClampLo = ms 1"
definition RTTClampHi :: int where "RTTClampHi = seconds 30"

section \<open>Session data\<close>

datatype lapb_state = StDisconnected | StAwaitingConnection | StConnected | StTimerRecovery | StAwaitingRelease

text \<open>The \<^verbatim>\<open>Condition\<close> bit field.\<close>

definition CondACKPending :: u8 where "CondACKPending = 1"
definition CondReject :: u8 where "CondReject = 2"
definition CondPeerRxBusy :: u8 where "CondPeerRxBusy = 4"
definition CondOwnRxBusy :: u8 where "CondOwnRxBusy = 8"

definition cond_has :: "u8 \<Rightarrow> u8 \<Rightarrow> bool" where "cond_has c b \<longleftrightarrow> c AND b \<noteq> 0"
definition cond_set :: "u8 \<Rightarrow> u8 \<Rightarrow> u8" where "cond_set c b = c OR b"
definition cond_clear :: "u8 \<Rightarrow> u8 \<Rightarrow> u8" where "cond_clear c b = c AND NOT b"

record vars =
  vVS :: u8
  vVR :: u8
  vVA :: u8
  vN2Count :: int
  vCond :: u8
  vRTT :: int
  vT1Started :: "int option"

definition zero_vars :: vars where
  "zero_vars = \<lparr>vVS = 0, vVR = 0, vVA = 0, vN2Count = 0, vCond = 0, vRTT = 0, vT1Started = None\<rparr>"

datatype event =
    EventFrameRX "lframe option"
  | EventDataTX bytes
  | EventConnect
  | EventDisconnect
  | EventAbort
  | EventT1Expiry
  | EventT2Expiry
  | EventT3Expiry
  | EventHeartbeat
  | EventStatsTick
  | EventShutdown

record link_stats =
  lsState :: lapb_state
  lsVS :: u8
  lsVR :: u8
  lsVA :: u8
  lsRC :: int
  lsPeerBusy :: bool
  lsOwnBusy :: bool
  lsFramesTX :: nat
  lsFramesRX :: nat
  lsBytesTX :: nat
  lsBytesRX :: nat
  lsRTT :: int

definition zero_stats :: link_stats where
  "zero_stats = \<lparr>lsState = StDisconnected, lsVS = 0, lsVR = 0, lsVA = 0, lsRC = 0, lsPeerBusy = False,
     lsOwnBusy = False, lsFramesTX = 0, lsFramesRX = 0, lsBytesTX = 0, lsBytesRX = 0, lsRTT = 0\<rparr>"

datatype out_event =
    OutStateChange lapb_state
  | OutDataRX bytes
  | OutLinkStats link_stats
  | OutError string

record session_config =
  scLocal :: address
  scPeer :: address
  scPath :: "address list"
  scChannel :: nat
  scMod128 :: bool
  scT1 :: int
  scT2 :: int
  scT3 :: int
  scHeartbeat :: int
  scStatsTick :: int
  scN2 :: int
  scPaclen :: int
  scWindow :: int
  scBackoff :: backoff

record timer =
  tmOn :: bool
  tmDur :: int

record session =
  sCfg :: session_config
  sState :: lapb_state
  sV :: vars
  sT1 :: timer
  sT2 :: timer
  sT3 :: timer
  sHB :: timer
  sTStats :: timer
  sStats :: link_stats
  sPending :: "u8 \<Rightarrow> lframe option"
  sTxBuf :: bytes
  sTerminated :: bool
  sMod128Bit :: bool
  sOutstanding :: int
  sTxFailNotified :: bool
  sSubmits :: nat
  sSent :: "(nat \<times> frame \<times> submit_source) list"
  sOut :: "out_event list"

record env =
  eNow :: int
  eSink :: "nat \<Rightarrow> bool"

section \<open>Construction\<close>

definition applyDefaults :: "session_config \<Rightarrow> session_config" where
  "applyDefaults c0 =
     (let c = (if scT1 c0 = 0 then c0\<lparr>scT1 := DefaultT1\<rparr> else c0);
          c = (if scT2 c = 0 then c\<lparr>scT2 := DefaultT2\<rparr> else c);
          c = (if scT3 c = 0 then c\<lparr>scT3 := DefaultT3\<rparr> else c);
          c = (if scHeartbeat c = 0 then c\<lparr>scHeartbeat := DefaultHeartbeat\<rparr> else c);
          c = (if scStatsTick c = 0 then c\<lparr>scStatsTick := DefaultStatsTick\<rparr> else c);
          c = (if scN2 c = 0 then c\<lparr>scN2 := DefaultN2\<rparr> else c);
          c = (if scPaclen c = 0 then c\<lparr>scPaclen := DefaultPaclen\<rparr> else c);
          c = (if scWindow c = 0
               then c\<lparr>scWindow := (if scMod128 c then DefaultWindowMod128 else DefaultWindowMod8)\<rparr>
               else c);
          c = (if scBackoff c = BackoffUnset then c\<lparr>scBackoff := DefaultBackoff\<rparr> else c)
      in c)"

definition new_timer :: "int \<Rightarrow> timer" where
  "new_timer d = \<lparr>tmOn = False, tmDur = d\<rparr>"

text \<open>
  \<^verbatim>\<open>NewSession\<close>. The nil check on the TX sink has no counterpart: the sink is a parameter.
\<close>

definition NewSession :: "session_config \<Rightarrow> session option" where
  "NewSession cfg0 =
     (let cfg = applyDefaults cfg0 in
      if Call (scLocal cfg) = [] \<or> Call (scPeer cfg) = [] then None
      else Some
        \<lparr>sCfg = cfg, sState = StDisconnected, sV = zero_vars,
         sT1 = new_timer (scT1 cfg), sT2 = new_timer (scT2 cfg), sT3 = new_timer (scT3 cfg),
         sHB = new_timer (scHeartbeat cfg), sTStats = new_timer (scStatsTick cfg),
         sStats = zero_stats, sPending = (\<lambda>_. None), sTxBuf = [], sTerminated = False,
         sMod128Bit = scMod128 cfg, sOutstanding = 0, sTxFailNotified = False, sSubmits = 0,
         sSent = [], sOut = []\<rparr>)"

section \<open>Timers\<close>

definition timer_reset_to :: "int \<Rightarrow> timer \<Rightarrow> timer" where
  "timer_reset_to d t = t\<lparr>tmOn := True, tmDur := d\<rparr>"

definition timer_stop :: "timer \<Rightarrow> timer" where
  "timer_stop t = t\<lparr>tmOn := False\<rparr>"

definition t1_stop :: "session \<Rightarrow> session" where "t1_stop s = s\<lparr>sT1 := timer_stop (sT1 s)\<rparr>"
definition t2_stop :: "session \<Rightarrow> session" where "t2_stop s = s\<lparr>sT2 := timer_stop (sT2 s)\<rparr>"
definition t3_stop :: "session \<Rightarrow> session" where "t3_stop s = s\<lparr>sT3 := timer_stop (sT3 s)\<rparr>"
definition hb_stop :: "session \<Rightarrow> session" where "hb_stop s = s\<lparr>sHB := timer_stop (sHB s)\<rparr>"
definition tstats_stop :: "session \<Rightarrow> session" where "tstats_stop s = s\<lparr>sTStats := timer_stop (sTStats s)\<rparr>"
definition t2_reset :: "session \<Rightarrow> session" where "t2_reset s = s\<lparr>sT2 := timer_reset_to (scT2 (sCfg s)) (sT2 s)\<rparr>"
definition t3_reset :: "session \<Rightarrow> session" where "t3_reset s = s\<lparr>sT3 := timer_reset_to (scT3 (sCfg s)) (sT3 s)\<rparr>"
definition hb_reset :: "session \<Rightarrow> session" where "hb_reset s = s\<lparr>sHB := timer_reset_to (scHeartbeat (sCfg s)) (sHB s)\<rparr>"
definition tstats_reset :: "session \<Rightarrow> session" where
  "tstats_reset s = s\<lparr>sTStats := timer_reset_to (scStatsTick (sCfg s)) (sTStats s)\<rparr>"

section \<open>Small session operations\<close>

definition modulus :: "session \<Rightarrow> u8" where
  "modulus s = (if scMod128 (sCfg s) then 128 else 8)"

definition setMod128 :: "bool \<Rightarrow> session \<Rightarrow> session" where
  "setMod128 v s = s\<lparr>sCfg := (sCfg s)\<lparr>scMod128 := v\<rparr>, sMod128Bit := v\<rparr>"

definition set_window :: "int \<Rightarrow> session \<Rightarrow> session" where
  "set_window w s = s\<lparr>sCfg := (sCfg s)\<lparr>scWindow := w\<rparr>\<rparr>"

definition setv :: "(vars \<Rightarrow> vars) \<Rightarrow> session \<Rightarrow> session" where
  "setv f s = s\<lparr>sV := f (sV s)\<rparr>"

definition set_cond :: "u8 \<Rightarrow> session \<Rightarrow> session" where
  "set_cond b = setv (\<lambda>v. v\<lparr>vCond := cond_set (vCond v) b\<rparr>)"

definition clear_cond :: "u8 \<Rightarrow> session \<Rightarrow> session" where
  "clear_cond b = setv (\<lambda>v. v\<lparr>vCond := cond_clear (vCond v) b\<rparr>)"

definition set_n2count :: "int \<Rightarrow> session \<Rightarrow> session" where
  "set_n2count n = setv (\<lambda>v. v\<lparr>vN2Count := n\<rparr>)"

definition zero_seq :: "session \<Rightarrow> session" where
  "zero_seq = setv (\<lambda>v. v\<lparr>vVS := 0, vVR := 0, vVA := 0\<rparr>)"

definition mutateStats :: "(link_stats \<Rightarrow> link_stats) \<Rightarrow> session \<Rightarrow> session" where
  "mutateStats f s = s\<lparr>sStats := f (sStats s)\<rparr>"

definition emit :: "out_event \<Rightarrow> session \<Rightarrow> session" where
  "emit ev s = s\<lparr>sOut := sOut s @ [ev]\<rparr>"

definition nextT1 :: "session \<Rightarrow> int" where
  "nextT1 s =
     (let rtt = vRTT (sV s);
          rtt = (if rtt = 0 then scT1 (sCfg s) sdiv 2 else rtt);
          rtt = (if rtt < RTTClampLo then RTTClampLo else rtt);
          rtt = (if rtt > RTTClampHi then RTTClampHi else rtt);
          n = vN2Count (sV s)
      in case scBackoff (sCfg s) of
           BackoffNone \<Rightarrow> 2 * rtt
         | BackoffExponential \<Rightarrow>
             (let shift = (if n < 0 \<or> n > 30 then 30 else nat n);
                  d = i64 (i64 (2 ^ shift * 2) * rtt);
                  d = (if d > 8 * rtt then 8 * rtt else d);
                  d = (if d < 2 * rtt then 2 * rtt else d)
              in d)
         | _ \<Rightarrow> i64 (i64 (2 + 2 * n) * rtt))"

definition resetT1 :: "env \<Rightarrow> session \<Rightarrow> session" where
  "resetT1 e s0 =
     (let s = setv (\<lambda>v. v\<lparr>vT1Started := Some (eNow e)\<rparr>) s0
      in s\<lparr>sT1 := timer_reset_to (nextT1 s) (sT1 s)\<rparr>)"

definition calcRTT :: "env \<Rightarrow> session \<Rightarrow> session" where
  "calcRTT e s =
     (case vT1Started (sV s) of
        None \<Rightarrow> s
      | Some t0 \<Rightarrow>
          if vN2Count (sV s) \<noteq> 0 then s
          else
            let measured = eNow e - t0 in
            if measured < 0 then s
            else
              let rtt = (if vRTT (sV s) = 0 then scT1 (sCfg s) sdiv 2 else vRTT (sV s));
                  rtt = i64 (i64 (9 * rtt) + measured) sdiv 10;
                  rtt = (if rtt < RTTClampLo then RTTClampLo else rtt);
                  rtt = (if rtt > RTTClampHi then RTTClampHi else rtt)
              in setv (\<lambda>v. v\<lparr>vRTT := rtt\<rparr>) s)"

definition setState :: "lapb_state \<Rightarrow> session \<Rightarrow> session" where
  "setState ns s0 =
     (if ns = sState s0 then s0
      else
        let s = (if sState s0 = StConnected then tstats_stop s0 else s0);
            s = s\<lparr>sState := ns\<rparr>;
            s = mutateStats (\<lambda>st. st\<lparr>lsState := ns\<rparr>) s;
            s = emit (OutStateChange ns) s;
            s = emit (OutLinkStats (sStats s)) s;
            s = (if ns = StConnected then tstats_reset s else s)
        in if ns = StDisconnected then s\<lparr>sTerminated := True\<rparr> else s)"

definition syncOutstanding :: "session \<Rightarrow> session" where
  "syncOutstanding s =
     (let md = modulus s;
          n = int (unat ((vVS (sV s) - vVA (sV s) + md) mod md));
          queued = int (length (sTxBuf s));
          n = (if queued > 0 then n + (queued + scPaclen (sCfg s) - 1) sdiv scPaclen (sCfg s) else n)
      in s\<lparr>sOutstanding := n\<rparr>)"

section \<open>Transmission\<close>

definition submit :: "env \<Rightarrow> lframe \<Rightarrow> session \<Rightarrow> session" where
  "submit e f s =
     (case ToAX25Frame f of
        Inl err \<Rightarrow> s
      | Inr wrapper \<Rightarrow>
          let src = \<lparr>ssKind = ''ax25conn'', ssDetail = kind_string (cKind (lfControl f)),
                     ssPriority = PriorityAX25Conn, ssSkipDedup = True\<rparr>;
              n = sSubmits s;
              s = s\<lparr>sSubmits := n + 1\<rparr>
          in if \<not> eSink e n then
               (if \<not> sTxFailNotified s
                then emit (OutError ''tx-failed'') (s\<lparr>sTxFailNotified := True\<rparr>)
                else s)
             else
               mutateStats (\<lambda>st. st\<lparr>lsFramesTX := lsFramesTX st + 1,
                   lsBytesTX := (if hasInfo f then lsBytesTX st + length (lfInfo f) else lsBytesTX st)\<rparr>)
                 (s\<lparr>sSent := sSent s @ [(scChannel (sCfg s), wrapper, src)]\<rparr>))"

text \<open>
  The frame literals of the send helpers: addresses and path from the configuration, the
  fields the code leaves out at their zero value.
\<close>

definition mk_frame :: "session \<Rightarrow> control \<Rightarrow> bool \<Rightarrow> lframe" where
  "mk_frame s c isCommand =
     \<lparr>lfSource = scLocal (sCfg s), lfDest = scPeer (sCfg s), lfPath = scPath (sCfg s), lfControl = c,
      lfPID = 0, lfInfo = [], lfIsCommand = isCommand, lfMod128 = False\<rparr>"

definition mk_control :: "frame_kind \<Rightarrow> u8 \<Rightarrow> u8 \<Rightarrow> bool \<Rightarrow> control" where
  "mk_control k ns nr pf = \<lparr>cKind = k, cNS = ns, cNR = nr, cPF = pf\<rparr>"

definition sendSABM :: "env \<Rightarrow> bool \<Rightarrow> session \<Rightarrow> session" where
  "sendSABM e mod128 s =
     submit e (mk_frame s (mk_control (if mod128 then FrameSABME else FrameSABM) 0 0 True) True) s"

definition sendDM :: "env \<Rightarrow> bool \<Rightarrow> session \<Rightarrow> session" where
  "sendDM e pf s = submit e (mk_frame s (mk_control FrameDM 0 0 pf) False) s"

definition sendDISC :: "env \<Rightarrow> session \<Rightarrow> session" where
  "sendDISC e s = submit e (mk_frame s (mk_control FrameDISC 0 0 True) True) s"

definition sendUA :: "env \<Rightarrow> bool \<Rightarrow> session \<Rightarrow> session" where
  "sendUA e pf s = submit e (mk_frame s (mk_control FrameUA 0 0 pf) False) s"

definition sendRROrRNR :: "env \<Rightarrow> bool \<Rightarrow> bool \<Rightarrow> session \<Rightarrow> session" where
  "sendRROrRNR e poll asResponse s =
     submit e (mk_frame s (mk_control (if cond_has (vCond (sV s)) CondOwnRxBusy then FrameRNR else FrameRR)
         0 (vVR (sV s) mod modulus s) poll) (\<not> asResponse)) s"

definition sendREJ :: "env \<Rightarrow> bool \<Rightarrow> session \<Rightarrow> session" where
  "sendREJ e pf s = submit e (mk_frame s (mk_control FrameREJ 0 (vVR (sV s)) pf) False) s"

section \<open>Window and queues\<close>

definition outstanding :: "session \<Rightarrow> nat" where
  "outstanding s = unat ((vVS (sV s) - vVA (sV s) + modulus s) mod modulus s)"

definition validNR :: "u8 \<Rightarrow> session \<Rightarrow> bool" where
  "validNR nr s =
     (let md = modulus s;
          span = (vVS (sV s) - vVA (sV s) + md) mod md;
          delta = (nr - vVA (sV s) + md) mod md
      in delta \<le> span)"

text \<open>
  The \<^verbatim>\<open>for s.v.VA != nr\<close> loop of \<^verbatim>\<open>framesAcked\<close>. It is a partial function: \<^const>\<open>None\<close> is a
  loop that does not end.
\<close>

partial_function (option) ack_loop ::
    "u8 \<Rightarrow> u8 \<Rightarrow> u8 \<Rightarrow> (u8 \<Rightarrow> lframe option) \<Rightarrow> (u8 \<times> (u8 \<Rightarrow> lframe option)) option" where
  "ack_loop md nr va p =
     (if va = nr then Some (va, p) else ack_loop md nr ((va + 1) mod md) (p(va := None)))"

definition framesAcked :: "env \<Rightarrow> u8 \<Rightarrow> session \<Rightarrow> session option" where
  "framesAcked e nr s0 = do {
     (va, p) \<leftarrow> ack_loop (modulus s0) nr (vVA (sV s0)) (sPending s0);
     let s = setv (\<lambda>v. v\<lparr>vVA := va\<rparr>) (s0\<lparr>sPending := p\<rparr>);
     Some (if vVS (sV s) = vVA (sV s) then t3_reset (calcRTT e (t1_stop s)) else resetT1 e s) }"

partial_function (option) requeue_loop ::
    "u8 \<Rightarrow> u8 \<Rightarrow> u8 \<Rightarrow> bytes \<Rightarrow> (u8 \<Rightarrow> lframe option) \<Rightarrow> (bytes \<times> (u8 \<Rightarrow> lframe option)) option" where
  "requeue_loop md vs i buf p =
     (if i = vs then Some (buf, p)
      else case p i of
             Some f \<Rightarrow> requeue_loop md vs ((i + 1) mod md) (buf @ lfInfo f) (p(i := None))
           | None \<Rightarrow> requeue_loop md vs ((i + 1) mod md) buf p)"

definition requeueFromVA :: "session \<Rightarrow> session option" where
  "requeueFromVA s = do {
     (buf, p) \<leftarrow> requeue_loop (modulus s) (vVS (sV s)) (vVA (sV s)) [] (sPending s);
     Some (setv (\<lambda>v. v\<lparr>vVS := vVA v\<rparr>) (s\<lparr>sPending := p, sTxBuf := buf @ sTxBuf s\<rparr>)) }"

definition requeueAllPending :: "session \<Rightarrow> session option" where
  "requeueAllPending s = requeueFromVA s"

definition dropQueues :: "session \<Rightarrow> session" where
  "dropQueues s = s\<lparr>sPending := (\<lambda>_. None), sTxBuf := []\<rparr>"

definition stopAllTimers :: "session \<Rightarrow> session" where
  "stopAllTimers s = hb_stop (t3_stop (t2_stop (t1_stop s)))"

text \<open>One iteration of the \<^verbatim>\<open>for len(s.txBuf) > 0\<close> loop of \<^verbatim>\<open>kick\<close>, after the window check.\<close>

definition send_next :: "env \<Rightarrow> nat \<Rightarrow> session \<Rightarrow> session" where
  "send_next e n s =
     (let payload = take n (sTxBuf s);
          ns = vVS (sV s);
          f = (mk_frame s (mk_control FrameI ns (vVR (sV s)) False) True)\<lparr>lfPID := 0xF0, lfInfo := payload\<rparr>;
          s = s\<lparr>sTxBuf := drop n (sTxBuf s), sPending := (sPending s)(ns := Some f)\<rparr>;
          s = submit e f s
      in setv (\<lambda>v. v\<lparr>vVS := (vVS v + 1) mod modulus s\<rparr>) s)"

text \<open>
  \<^const>\<open>None\<close> here is either the panic of slicing with a negative end (a negative \<^verbatim>\<open>Paclen\<close>)
  or a loop that does not end (zero progress under an unreachable window).
\<close>

partial_function (option) kick_loop :: "env \<Rightarrow> session \<Rightarrow> nat \<Rightarrow> (session \<times> nat) option" where
  "kick_loop e s sent =
     (if sTxBuf s = [] then Some (s, sent)
      else if int (outstanding s) \<ge> scWindow (sCfg s) then Some (s, sent)
      else
        let n = min (scPaclen (sCfg s)) (int (length (sTxBuf s))) in
        if n < 0 then None
        else kick_loop e (send_next e (nat n) s) (sent + 1))"

definition kick :: "env \<Rightarrow> session \<Rightarrow> session option" where
  "kick e s0 =
     (if sState s0 \<noteq> StConnected \<and> sState s0 \<noteq> StTimerRecovery then Some s0
      else if cond_has (vCond (sV s0)) CondPeerRxBusy then Some s0
      else do {
        (s, sent) \<leftarrow> kick_loop e s0 0;
        let s = (if sent > 0 \<and> cond_has (vCond (sV s)) CondACKPending
                 then t2_stop (clear_cond CondACKPending s) else s);
        Some (if vVS (sV s) \<noteq> vVA (sV s)
              then t3_stop (if tmOn (sT1 s) then s else resetT1 e s)
              else s) })"

definition establishDataLink :: "env \<Rightarrow> session \<Rightarrow> session" where
  "establishDataLink e s0 =
     (let s = setv (\<lambda>v. v\<lparr>vCond := 0, vN2Count := 0\<rparr>) s0;
          s = t3_stop (t2_stop (t1_stop s));
          s = sendSABM e (scMod128 (sCfg s)) s
      in setState StAwaitingConnection (resetT1 e s))"

definition transmitEnquiry :: "env \<Rightarrow> session \<Rightarrow> session" where
  "transmitEnquiry e s = t2_stop (clear_cond CondACKPending (sendRROrRNR e True False s))"

end
