(* ===== verification/LAPB_Window.thy ===== *)
theory LAPB_Window
  imports LAPB_State
begin

text \<open>
  The send window of a session: sequence-number arithmetic under either modulus, and what the
  loops of \<^verbatim>\<open>framesAcked\<close>, \<^verbatim>\<open>requeueFromVA\<close> and \<^verbatim>\<open>kick\<close> do to it. The view used to
  specify them is the backlog: the payload bytes the session still owes the peer, in order.
\<close>

section \<open>Sequence arithmetic\<close>

definition seq_mod :: "u8 \<Rightarrow> bool" where
  "seq_mod md \<longleftrightarrow> md = 8 \<or> md = 128"

lemma seq_mod_modulus [simp, intro]: "seq_mod (modulus s)"
  by (simp add: seq_mod_def modulus_def)

lemma seq_mod_pos: "seq_mod md \<Longrightarrow> 0 < unat md"
  by (auto simp: seq_mod_def)

lemma seq_mod_dvd: "seq_mod md \<Longrightarrow> unat md dvd 256"
  by (auto simp: seq_mod_def)

lemma unat_seq_succ:
  assumes "seq_mod md" shows "unat ((v + 1) mod md) = (unat v + 1) mod unat md"
  using assms mod_mod_cancel[OF seq_mod_dvd[OF assms], of "unat v + 1"]
  by (simp add: unat_mod unat_word_ariths)

lemma unat_seq_diff:
  assumes "seq_mod md" "v < md" "w < md"
  shows "unat ((v - w + md) mod md) = (unat v + unat md - unat w) mod unat md"
proof -
  have w: "unat w < unat md" and v: "unat v < unat md"
    using assms by (simp_all add: word_less_nat_alt)
  have md: "unat md \<le> 128" using assms(1) by (auto simp: seq_mod_def)
  have "v - w + md = of_nat (unat v + unat md - unat w)"
    using w by (simp add: of_nat_diff)
  then have "unat (v - w + md) = (unat v + unat md - unat w) mod 256"
    by (simp add: unat_of_nat)
  then show ?thesis
    using v w md by (simp add: unat_mod)
qed

text \<open>\<open>adv md v n\<close>: the sequence number \<open>n\<close> places after \<open>v\<close>.\<close>

fun adv :: "u8 \<Rightarrow> u8 \<Rightarrow> nat \<Rightarrow> u8" where
  "adv md v 0 = v"
| "adv md v (Suc n) = adv md ((v + 1) mod md) n"

fun seqs :: "u8 \<Rightarrow> u8 \<Rightarrow> nat \<Rightarrow> u8 list" where
  "seqs md v 0 = []"
| "seqs md v (Suc n) = v # seqs md ((v + 1) mod md) n"

lemma seq_succ_less: "seq_mod md \<Longrightarrow> (v + 1) mod md < md"
  by (auto simp: seq_mod_def word_mod_less_divisor)

lemma unat_adv:
  "seq_mod md \<Longrightarrow> v < md \<Longrightarrow> unat (adv md v n) = (unat v + n) mod unat md"
proof (induction n arbitrary: v)
  case 0 then show ?case by (simp add: word_less_nat_alt)
next
  case (Suc n)
  from Suc.IH[OF Suc.prems(1) seq_succ_less[OF Suc.prems(1)]]
  show ?case using Suc.prems(1) by (simp add: unat_seq_succ mod_simps)
qed

lemma adv_less: "seq_mod md \<Longrightarrow> v < md \<Longrightarrow> adv md v n < md"
  by (simp add: word_less_nat_alt unat_adv seq_mod_pos)

lemma adv_add: "adv md v (m + n) = adv md (adv md v m) n"
  by (induction m arbitrary: v) auto

lemma adv_Suc_end: "adv md v (Suc n) = (adv md v n + 1) mod md"
  using adv_add[of md v n 1] by simp

lemma adv_inj:
  assumes "seq_mod md" "v < md" "m < unat md" "n < unat md" "adv md v m = adv md v n"
  shows "m = n"
proof -
  have eq: "(unat v + m) mod unat md = (unat v + n) mod unat md"
    using assms unat_adv by metis
  then have "(int (unat v) + int m) mod int (unat md) = (int (unat v) + int n) mod int (unat md)"
    by (metis of_nat_add of_nat_mod)
  then have "(int (unat v) + int m - int (unat v)) mod int (unat md) = (int (unat v) + int n - int (unat v)) mod int (unat md)"
    by (rule mod_diff_cong) simp
  then have "int (m mod unat md) = int (n mod unat md)" by (simp add: zmod_int)
  then show ?thesis using assms by simp
qed

lemma length_seqs [simp]: "length (seqs md v n) = n"
  by (induction n arbitrary: v) auto

lemma seqs_add: "seqs md v (m + n) = seqs md v m @ seqs md (adv md v m) n"
  by (induction m arbitrary: v) auto

lemma seqs_snoc: "seqs md v (Suc n) = seqs md v n @ [adv md v n]"
  using seqs_add[of md v n 1] by simp

lemma set_seqs: "set (seqs md v n) = {adv md v k | k. k < n}"
proof (induction n)
  case (Suc n)
  have "set (seqs md v (Suc n)) = insert (adv md v n) {adv md v k | k. k < n}"
    using Suc by (simp add: seqs_snoc del: seqs.simps)
  also have "\<dots> = {adv md v k | k. k < Suc n}" by (auto simp: less_Suc_eq)
  finally show ?case .
qed simp

lemma distinct_seqs:
  assumes "seq_mod md" "v < md" "n \<le> unat md" shows "distinct (seqs md v n)"
  using assms(3)
proof (induction n)
  case (Suc n)
  have "adv md v n \<noteq> adv md v k" if "k < n" for k
    using adv_inj[OF assms(1,2), of n k] that Suc.prems by auto
  then have "adv md v n \<notin> set (seqs md v n)" by (auto simp: set_seqs)
  with Suc show ?case by (simp add: seqs_snoc del: seqs.simps)
qed simp

text \<open>The distance from \<open>w\<close> to \<open>v\<close> as the code computes it.\<close>

definition seq_dist :: "u8 \<Rightarrow> u8 \<Rightarrow> u8 \<Rightarrow> nat" where
  "seq_dist md w v = unat ((v - w + md) mod md)"

lemma seq_dist_less: "seq_mod md \<Longrightarrow> seq_dist md w v < unat md"
  by (auto simp: seq_dist_def seq_mod_def unat_mod)

lemma adv_dist:
  assumes "seq_mod md" "v < md" "w < md" shows "adv md w (seq_dist md w v) = v"
proof -
  have l: "unat w < unat md" "unat v < unat md" using assms by (simp_all add: word_less_nat_alt)
  have "unat (adv md w (seq_dist md w v)) = (unat w + (unat v + unat md - unat w)) mod unat md"
    using assms by (simp add: unat_adv seq_dist_def unat_seq_diff mod_simps)
  also have "\<dots> = unat v" using l by simp
  finally show ?thesis by (simp only: word_unat_eq_iff)
qed

lemma dist_adv:
  assumes "seq_mod md" "w < md" "n < unat md" shows "seq_dist md w (adv md w n) = n"
  using adv_inj[OF assms(1,2) seq_dist_less[OF assms(1)] assms(3)]
    adv_dist[OF assms(1) adv_less[OF assms(1,2)] assms(2)] by blast

lemma seq_dist_self: "seq_mod md \<Longrightarrow> w < md \<Longrightarrow> seq_dist md w w = 0"
  using dist_adv[of md w 0] seq_mod_pos by simp

lemma seq_dist_eq_0:
  assumes "seq_mod md" "v < md" "w < md" shows "seq_dist md w v = 0 \<longleftrightarrow> v = w"
  using adv_dist[OF assms] seq_dist_self[OF assms(1,3)] by auto

lemma outstanding_dist: "outstanding s = seq_dist (modulus s) (vVA (sV s)) (vVS (sV s))"
  by (simp add: outstanding_def seq_dist_def)

lemma validNR_dist:
  "validNR nr s \<longleftrightarrow> seq_dist (modulus s) (vVA (sV s)) nr \<le> outstanding s"
  by (simp add: validNR_def outstanding_dist seq_dist_def Let_def word_le_nat_alt)

section \<open>The acknowledgement and requeue loops\<close>

definition clear_slots :: "u8 list \<Rightarrow> (u8 \<Rightarrow> lframe option) \<Rightarrow> (u8 \<Rightarrow> lframe option)" where
  "clear_slots xs p = (\<lambda>i. if i \<in> set xs then None else p i)"

definition slot_bytes :: "(u8 \<Rightarrow> lframe option) \<Rightarrow> u8 \<Rightarrow> bytes" where
  "slot_bytes p i = (case p i of None \<Rightarrow> [] | Some f \<Rightarrow> lfInfo f)"

definition window_bytes :: "u8 \<Rightarrow> u8 \<Rightarrow> nat \<Rightarrow> (u8 \<Rightarrow> lframe option) \<Rightarrow> bytes" where
  "window_bytes md v n p = concat (map (slot_bytes p) (seqs md v n))"

lemma clear_slots_Cons: "clear_slots (x # xs) p = clear_slots xs (p(x := None))"
  by (auto simp: clear_slots_def fun_eq_iff)

lemma slot_bytes_cong: "p i = q i \<Longrightarrow> slot_bytes p i = slot_bytes q i"
  by (simp add: slot_bytes_def)

lemma window_bytes_cong:
  "(\<And>i. i \<in> set (seqs md v n) \<Longrightarrow> p i = q i) \<Longrightarrow> window_bytes md v n p = window_bytes md v n q"
  unfolding window_bytes_def by (rule arg_cong[where f = concat]) (simp cong: slot_bytes_cong)

lemma window_bytes_0 [simp]: "window_bytes md v 0 p = []"
  by (simp add: window_bytes_def)

lemma window_bytes_add:
  "window_bytes md v (m + n) p = window_bytes md v m p @ window_bytes md (adv md v m) n p"
  by (simp add: window_bytes_def seqs_add)

lemma adv_neq:
  assumes "seq_mod md" "v < md" "Suc n < unat md" shows "v \<noteq> adv md ((v + 1) mod md) n"
  using adv_inj[OF assms(1,2), of 0 "Suc n"] assms(3) by fastforce

lemma ack_loop_adv:
  assumes "seq_mod md" "v < md" "n < unat md"
  shows "ack_loop md (adv md v n) v p = Some (adv md v n, clear_slots (seqs md v n) p)"
  using assms
proof (induction n arbitrary: v p)
  case 0
  then show ?case by (subst ack_loop.simps) (simp add: clear_slots_def)
next
  case (Suc n)
  have "ack_loop md (adv md v (Suc n)) v p
      = ack_loop md (adv md ((v + 1) mod md) n) ((v + 1) mod md) (p(v := None))"
    using adv_neq[OF Suc.prems] by (subst ack_loop.simps) simp
  then show ?case
    using Suc.IH[OF Suc.prems(1) seq_succ_less[OF Suc.prems(1)]] Suc.prems(3)
    by (simp add: clear_slots_Cons fun_upd_def)
qed

lemma requeue_loop_adv:
  assumes "seq_mod md" "v < md" "n < unat md"
  shows "requeue_loop md (adv md v n) v buf p
    = Some (buf @ window_bytes md v n p, clear_slots (seqs md v n) p)"
  using assms
proof (induction n arbitrary: v p buf)
  case 0
  then show ?case by (subst requeue_loop.simps) (simp add: clear_slots_def)
next
  case (Suc n)
  let ?w = "(v + 1) mod md"
  have notin: "v \<notin> set (seqs md ?w n)"
    using distinct_seqs[OF Suc.prems(1,2), of "Suc n"] Suc.prems(3) by simp
  have step: "requeue_loop md (adv md v (Suc n)) v buf p
      = requeue_loop md (adv md ?w n) ?w (buf @ slot_bytes p v) (p(v := None))"
    using adv_neq[OF Suc.prems]
    by (subst requeue_loop.simps) (auto simp: slot_bytes_def fun_upd_idem split: option.split)
  have "window_bytes md ?w n (p(v := None)) = window_bytes md ?w n p"
    using notin by (intro window_bytes_cong) auto
  then show ?case
    using Suc.IH[OF Suc.prems(1) seq_succ_less[OF Suc.prems(1)]] Suc.prems(3)
    unfolding step by (simp add: clear_slots_Cons window_bytes_def fun_upd_def)
qed

lemma window_bytes_clear:
  assumes "seq_mod md" "v < md" "m + n \<le> unat md"
  shows "window_bytes md (adv md v m) n (clear_slots (seqs md v m) p) = window_bytes md (adv md v m) n p"
proof -
  have "set (seqs md v m) \<inter> set (seqs md (adv md v m) n) = {}"
    using distinct_seqs[OF assms] by (simp add: seqs_add)
  then show ?thesis by (intro window_bytes_cong) (auto simp: clear_slots_def)
qed

text \<open>
  The loop of \<^verbatim>\<open>framesAcked\<close> counts \<open>VA\<close> up modulo the modulus, so it never meets an
  acknowledgement number outside it.
\<close>

lemma ack_loop_diverges_aux:
  assumes "ack_loop md nr v p = Some r" "seq_mod md" "v < md" "md \<le> nr"
  shows False
proof -
  have "seq_mod md \<and> v < md \<longrightarrow> nr < md"
  proof (rule ack_loop.raw_induct[OF _ assms(1), where P = "\<lambda>md nr v p r. seq_mod md \<and> v < md \<longrightarrow> nr < md"])
    fix f md nr va p r
    assume IH: "\<And>md nr va p y. f md nr va p = Some y \<Longrightarrow> seq_mod md \<and> va < md \<longrightarrow> nr < md"
      and "(if va = nr then Some (va, p) else f md nr ((va + 1) mod md) (p(va := None))) = Some (r :: u8 \<times> (u8 \<Rightarrow> lframe option))"
    then show "seq_mod md \<and> va < md \<longrightarrow> nr < md"
      using seq_succ_less[of md va] IH[of md nr "(va + 1) mod md" "p(va := None)" r] by (auto split: if_splits)
  qed
  with assms show False by auto
qed

lemma ack_loop_diverges:
  assumes "seq_mod md" "v < md" "md \<le> nr" shows "ack_loop md nr v p = None"
  using ack_loop_diverges_aux[OF _ assms] by (cases "ack_loop md nr v p") auto

end
