(* ===== verification/LAPB_Backlog.thy ===== *)
theory LAPB_Backlog
  imports LAPB_Window
begin

text \<open>
  What the session operations do to the fields of a session (collected in \<open>session_simps\<close>),
  and the two streams that specify the data phase: the backlog still owed to the peer and the
  bytes delivered to the observer.
\<close>

section \<open>Field updates of the operations\<close>

lemma submit_fields [session_simps]:
  "sCfg (submit e f s) = sCfg s" "sState (submit e f s) = sState s" "sV (submit e f s) = sV s"
  "sT1 (submit e f s) = sT1 s" "sT2 (submit e f s) = sT2 s" "sT3 (submit e f s) = sT3 s"
  "sHB (submit e f s) = sHB s" "sTStats (submit e f s) = sTStats s"
  "sPending (submit e f s) = sPending s" "sTxBuf (submit e f s) = sTxBuf s"
  "sTerminated (submit e f s) = sTerminated s" "sMod128Bit (submit e f s) = sMod128Bit s"
  "sOutstanding (submit e f s) = sOutstanding s"
  by (simp_all add: submit_def emit_def mutateStats_def Let_def split: sum.split)

lemmas send_defs = sendSABM_def sendDM_def sendDISC_def sendUA_def sendRROrRNR_def sendREJ_def

text \<open>The pure field setters, as one bundle for \<open>simp\<close>.\<close>

lemmas session_defs = t1_stop_def t2_stop_def t3_stop_def hb_stop_def tstats_stop_def t2_reset_def
  t3_reset_def hb_reset_def tstats_reset_def setMod128_def set_window_def setv_def set_cond_def
  clear_cond_def set_n2count_def zero_seq_def mutateStats_def emit_def

lemma send_fields [session_simps]:
  "sCfg (sendSABM e b s) = sCfg s" "sState (sendSABM e b s) = sState s" "sV (sendSABM e b s) = sV s"
  "sPending (sendSABM e b s) = sPending s" "sTxBuf (sendSABM e b s) = sTxBuf s"
  "sTerminated (sendSABM e b s) = sTerminated s"
  "sCfg (sendDM e b s) = sCfg s" "sState (sendDM e b s) = sState s" "sV (sendDM e b s) = sV s"
  "sPending (sendDM e b s) = sPending s" "sTxBuf (sendDM e b s) = sTxBuf s"
  "sTerminated (sendDM e b s) = sTerminated s"
  "sCfg (sendDISC e s) = sCfg s" "sState (sendDISC e s) = sState s" "sV (sendDISC e s) = sV s"
  "sPending (sendDISC e s) = sPending s" "sTxBuf (sendDISC e s) = sTxBuf s"
  "sTerminated (sendDISC e s) = sTerminated s"
  "sCfg (sendUA e b s) = sCfg s" "sState (sendUA e b s) = sState s" "sV (sendUA e b s) = sV s"
  "sPending (sendUA e b s) = sPending s" "sTxBuf (sendUA e b s) = sTxBuf s"
  "sTerminated (sendUA e b s) = sTerminated s"
  "sCfg (sendRROrRNR e b c s) = sCfg s" "sState (sendRROrRNR e b c s) = sState s"
  "sV (sendRROrRNR e b c s) = sV s" "sPending (sendRROrRNR e b c s) = sPending s"
  "sTxBuf (sendRROrRNR e b c s) = sTxBuf s" "sTerminated (sendRROrRNR e b c s) = sTerminated s"
  "sCfg (sendREJ e b s) = sCfg s" "sState (sendREJ e b s) = sState s" "sV (sendREJ e b s) = sV s"
  "sPending (sendREJ e b s) = sPending s" "sTxBuf (sendREJ e b s) = sTxBuf s"
  "sTerminated (sendREJ e b s) = sTerminated s"
  by (simp_all add: send_defs session_simps)

lemma send_timers [session_simps]:
  "sT1 (sendSABM e b s) = sT1 s" "sT3 (sendSABM e b s) = sT3 s" "sT2 (sendSABM e b s) = sT2 s" "sHB (sendSABM e b s) = sHB s"
  "sT1 (sendDM e b s) = sT1 s" "sT3 (sendDM e b s) = sT3 s" "sT2 (sendDM e b s) = sT2 s" "sHB (sendDM e b s) = sHB s"
  "sT1 (sendDISC e s) = sT1 s" "sT3 (sendDISC e s) = sT3 s" "sT2 (sendDISC e s) = sT2 s" "sHB (sendDISC e s) = sHB s"
  "sT1 (sendUA e b s) = sT1 s" "sT3 (sendUA e b s) = sT3 s" "sT2 (sendUA e b s) = sT2 s" "sHB (sendUA e b s) = sHB s"
  "sT1 (sendRROrRNR e b c s) = sT1 s" "sT3 (sendRROrRNR e b c s) = sT3 s" "sT2 (sendRROrRNR e b c s) = sT2 s" "sHB (sendRROrRNR e b c s) = sHB s"
  "sT1 (sendREJ e b s) = sT1 s" "sT3 (sendREJ e b s) = sT3 s" "sT2 (sendREJ e b s) = sT2 s" "sHB (sendREJ e b s) = sHB s"
  by (simp_all add: send_defs session_simps)

lemma setState_fields [session_simps]:
  "sCfg (setState st s) = sCfg s" "sState (setState st s) = st" "sV (setState st s) = sV s"
  "sT1 (setState st s) = sT1 s" "sT2 (setState st s) = sT2 s" "sT3 (setState st s) = sT3 s"
  "sHB (setState st s) = sHB s" "sPending (setState st s) = sPending s" "sTxBuf (setState st s) = sTxBuf s"
  by (auto simp: setState_def session_defs Let_def)

lemma calcRTT_fields [session_simps]:
  "sCfg (calcRTT e s) = sCfg s" "sState (calcRTT e s) = sState s"
  "sT1 (calcRTT e s) = sT1 s" "sT2 (calcRTT e s) = sT2 s" "sT3 (calcRTT e s) = sT3 s" "sHB (calcRTT e s) = sHB s"
  "sPending (calcRTT e s) = sPending s" "sTxBuf (calcRTT e s) = sTxBuf s"
  "sTerminated (calcRTT e s) = sTerminated s" "sOut (calcRTT e s) = sOut s"
  "vVS (sV (calcRTT e s)) = vVS (sV s)" "vVR (sV (calcRTT e s)) = vVR (sV s)"
  "vVA (sV (calcRTT e s)) = vVA (sV s)" "vCond (sV (calcRTT e s)) = vCond (sV s)"
  "vN2Count (sV (calcRTT e s)) = vN2Count (sV s)"
  by (auto simp: calcRTT_def session_defs Let_def split: option.split)

lemma resetT1_fields [session_simps]:
  "sCfg (resetT1 e s) = sCfg s" "sState (resetT1 e s) = sState s"
  "tmOn (sT1 (resetT1 e s))" "sT2 (resetT1 e s) = sT2 s" "sT3 (resetT1 e s) = sT3 s" "sHB (resetT1 e s) = sHB s"
  "sPending (resetT1 e s) = sPending s" "sTxBuf (resetT1 e s) = sTxBuf s"
  "sTerminated (resetT1 e s) = sTerminated s" "sOut (resetT1 e s) = sOut s"
  "vVS (sV (resetT1 e s)) = vVS (sV s)" "vVR (sV (resetT1 e s)) = vVR (sV s)"
  "vVA (sV (resetT1 e s)) = vVA (sV s)" "vCond (sV (resetT1 e s)) = vCond (sV s)"
  "vN2Count (sV (resetT1 e s)) = vN2Count (sV s)" "vRTT (sV (resetT1 e s)) = vRTT (sV s)"
  by (simp_all add: resetT1_def session_defs timer_reset_to_def Let_def)

section \<open>The delivered stream\<close>

fun data_of :: "out_event \<Rightarrow> bytes" where
  "data_of (OutDataRX d) = d"
| "data_of _ = []"

definition delivered :: "session \<Rightarrow> bytes" where
  "delivered s = concat (map data_of (sOut s))"

lemma delivered_emit: "delivered (emit ev s) = delivered s @ data_of ev"
  by (simp add: delivered_def emit_def)

lemma delivered_cong: "sOut s = sOut t \<Longrightarrow> delivered s = delivered t"
  by (simp add: delivered_def)

lemma delivered_submit [session_simps]: "delivered (submit e f s) = delivered s"
  by (simp add: submit_def delivered_def emit_def mutateStats_def Let_def split: sum.split)

lemma delivered_ops [session_simps]:
  "delivered (sendSABM e b s) = delivered s" "delivered (sendDM e b s) = delivered s"
  "delivered (sendDISC e s) = delivered s" "delivered (sendUA e b s) = delivered s"
  "delivered (sendRROrRNR e b c s) = delivered s" "delivered (sendREJ e b s) = delivered s"
  by (simp_all add: send_defs session_simps)

lemma delivered_setState [session_simps]: "delivered (setState st s) = delivered s"
  by (simp add: setState_def delivered_def session_defs Let_def)

lemma delivered_timer_ops [session_simps]:
  "delivered (calcRTT e s) = delivered s" "delivered (resetT1 e s) = delivered s"
  by (simp_all add: delivered_def session_simps)

section \<open>The backlog\<close>

definition backlog :: "session \<Rightarrow> bytes" where
  "backlog s = window_bytes (modulus s) (vVA (sV s)) (outstanding s) (sPending s) @ sTxBuf s"

lemma outstanding_cong:
  "modulus s = modulus t \<Longrightarrow> vVA (sV s) = vVA (sV t) \<Longrightarrow> vVS (sV s) = vVS (sV t) \<Longrightarrow> outstanding s = outstanding t"
  by (simp add: outstanding_def)

lemma modulus_cong: "scMod128 (sCfg s) = scMod128 (sCfg t) \<Longrightarrow> modulus s = modulus t"
  by (simp add: modulus_def)

lemma backlog_cong:
  "scMod128 (sCfg s) = scMod128 (sCfg t) \<Longrightarrow> vVA (sV s) = vVA (sV t) \<Longrightarrow> vVS (sV s) = vVS (sV t)
   \<Longrightarrow> sPending s = sPending t \<Longrightarrow> sTxBuf s = sTxBuf t \<Longrightarrow> backlog s = backlog t"
  using outstanding_cong[of s t] modulus_cong[of s t] by (simp add: backlog_def)

text \<open>The sequence variables of the data states.\<close>

definition seq_ok :: "session \<Rightarrow> bool" where
  "seq_ok s \<longleftrightarrow> vVS (sV s) < modulus s \<and> vVR (sV s) < modulus s \<and> vVA (sV s) < modulus s"

lemma seq_ok_cong:
  "scMod128 (sCfg s) = scMod128 (sCfg t) \<Longrightarrow> vVA (sV s) = vVA (sV t) \<Longrightarrow> vVS (sV s) = vVS (sV t)
   \<Longrightarrow> vVR (sV s) = vVR (sV t) \<Longrightarrow> seq_ok s = seq_ok t"
  using modulus_cong[of s t] by (simp add: seq_ok_def)

lemma outstanding_0 [simp]: "vVS (sV s) = vVA (sV s) \<Longrightarrow> outstanding s = 0"
  by (simp add: outstanding_def modulus_def)

text \<open>The bytes a valid acknowledgement number takes off the backlog.\<close>

definition acked_bytes :: "u8 \<Rightarrow> session \<Rightarrow> bytes" where
  "acked_bytes nr s = window_bytes (modulus s) (vVA (sV s)) (seq_dist (modulus s) (vVA (sV s)) nr) (sPending s)"

lemma acked_bytes_cong:
  "scMod128 (sCfg s) = scMod128 (sCfg t) \<Longrightarrow> vVA (sV s) = vVA (sV t) \<Longrightarrow> sPending s = sPending t
   \<Longrightarrow> acked_bytes nr s = acked_bytes nr t"
  using modulus_cong[of s t] by (simp add: acked_bytes_def)

section \<open>The data invariant\<close>

text \<open>
  The configurations for which the window arithmetic is sound: a positive packet length and a
  window strictly between zero and the modulus.
\<close>

definition cfg_ok :: "session \<Rightarrow> bool" where
  "cfg_ok s \<longleftrightarrow> 0 < scPaclen (sCfg s) \<and> 0 < scWindow (sCfg s) \<and> nat (scWindow (sCfg s)) < unat (modulus s)"

definition slot_ok :: "session \<Rightarrow> u8 \<Rightarrow> bool" where
  "slot_ok s i \<longleftrightarrow> (case sPending s i of None \<Rightarrow> False
     | Some f \<Rightarrow> cKind (lfControl f) = FrameI \<and> cNS (lfControl f) = i \<and> lfInfo f \<noteq> []
          \<and> int (length (lfInfo f)) \<le> scPaclen (sCfg s))"

definition window_seqs :: "session \<Rightarrow> u8 list" where
  "window_seqs s = seqs (modulus s) (vVA (sV s)) (outstanding s)"

definition data_inv :: "session \<Rightarrow> bool" where
  "data_inv s \<longleftrightarrow> seq_ok s \<and> cfg_ok s \<and> int (outstanding s) \<le> scWindow (sCfg s)
     \<and> list_all (slot_ok s) (window_seqs s)"

lemma cfg_ok_cong: "sCfg s = sCfg t \<Longrightarrow> cfg_ok s = cfg_ok t"
  by (simp add: cfg_ok_def modulus_def)

lemma slot_ok_cong: "sCfg s = sCfg t \<Longrightarrow> sPending s i = sPending t i \<Longrightarrow> slot_ok s i = slot_ok t i"
  by (simp add: slot_ok_def cong: option.case_cong)

lemma data_inv_cong:
  assumes "sCfg s = sCfg t" "vVS (sV s) = vVS (sV t)" "vVR (sV s) = vVR (sV t)" "vVA (sV s) = vVA (sV t)"
    "sPending s = sPending t"
  shows "data_inv s = data_inv t"
proof -
  have m: "modulus s = modulus t" using assms(1) by (simp add: modulus_def)
  have o: "outstanding s = outstanding t" using m assms by (simp add: outstanding_def)
  have sl: "slot_ok s = slot_ok t" using assms by (intro ext slot_ok_cong) simp_all
  show ?thesis
    using assms m o sl cfg_ok_cong[OF assms(1)] by (simp add: data_inv_def window_seqs_def seq_ok_def)
qed

section \<open>framesAcked\<close>

lemma framesAcked_spec:
  assumes "seq_ok s" "nr < modulus s"
  obtains s' where "framesAcked e nr s = Some s'"
    "sCfg s' = sCfg s" "sState s' = sState s" "sTxBuf s' = sTxBuf s" "sTerminated s' = sTerminated s"
    "sOut s' = sOut s" "sT2 s' = sT2 s" "sHB s' = sHB s"
    "vVS (sV s') = vVS (sV s)" "vVR (sV s') = vVR (sV s)" "vVA (sV s') = nr"
    "vCond (sV s') = vCond (sV s)" "vN2Count (sV s') = vN2Count (sV s)"
    "sPending s' = clear_slots (seqs (modulus s) (vVA (sV s)) (seq_dist (modulus s) (vVA (sV s)) nr)) (sPending s)"
    "vVS (sV s) = nr \<Longrightarrow> tmOn (sT3 s')" "vVS (sV s) \<noteq> nr \<Longrightarrow> tmOn (sT1 s')"
proof -
  let ?n = "seq_dist (modulus s) (vVA (sV s)) nr"
  have va: "vVA (sV s) < modulus s" using assms by (simp add: seq_ok_def)
  have "ack_loop (modulus s) nr (vVA (sV s)) (sPending s)
     = Some (nr, clear_slots (seqs (modulus s) (vVA (sV s)) ?n) (sPending s))"
    using ack_loop_adv[OF seq_mod_modulus va, of ?n "sPending s"] seq_dist_less[OF seq_mod_modulus[of s]]
    by (simp add: adv_dist[OF seq_mod_modulus assms(2) va])
  moreover define u where "u = setv (\<lambda>v. v\<lparr>vVA := nr\<rparr>)
      (s\<lparr>sPending := clear_slots (seqs (modulus s) (vVA (sV s)) ?n) (sPending s)\<rparr>)"
  ultimately have r: "framesAcked e nr s
      = Some (if vVS (sV s) = nr then t3_reset (calcRTT e (t1_stop u)) else resetT1 e u)"
    by (simp add: framesAcked_def setv_def)
  show ?thesis
    by (rule that[OF r]) (auto simp: session_simps t1_stop_def t3_reset_def setv_def timer_reset_to_def u_def)
qed

lemma validNR_outstanding:
  fixes s :: session
  assumes "seq_ok s" "nr < modulus s" "validNR nr s"
  shows "seq_dist (modulus s) nr (vVS (sV s)) = outstanding s - seq_dist (modulus s) (vVA (sV s)) nr"
proof -
  let ?md = "modulus s" and ?va = "vVA (sV s)" and ?vs = "vVS (sV s)"
  have va: "?va < ?md" and vs: "?vs < ?md" using assms by (simp_all add: seq_ok_def)
  let ?n = "seq_dist ?md ?va nr"
  have n: "?n \<le> outstanding s" using assms(3) by (simp add: validNR_dist)
  have o: "outstanding s < unat ?md" by (simp add: outstanding_dist seq_dist_less)
  have "?vs = adv ?md ?va (?n + (outstanding s - ?n))"
    using adv_dist[OF seq_mod_modulus vs va] n by (simp add: outstanding_dist)
  also have "\<dots> = adv ?md nr (outstanding s - ?n)"
    using adv_dist[OF seq_mod_modulus assms(2) va] by (simp add: adv_add)
  finally have "?vs = adv ?md nr (outstanding s - ?n)" .
  then have "seq_dist ?md nr ?vs = seq_dist ?md nr (adv ?md nr (outstanding s - ?n))"
    by (rule arg_cong)
  also have "\<dots> = outstanding s - ?n"
    using o by (intro dist_adv[OF seq_mod_modulus assms(2)]) simp
  finally show ?thesis .
qed

lemma framesAcked_backlog:
  assumes "seq_ok s" "nr < modulus s" "validNR nr s" "framesAcked e nr s = Some s'"
  shows "backlog s = acked_bytes nr s @ backlog s'" "seq_ok s'"
    "outstanding s' = outstanding s - seq_dist (modulus s) (vVA (sV s)) nr"
    "window_seqs s = seqs (modulus s) (vVA (sV s)) (seq_dist (modulus s) (vVA (sV s)) nr) @ window_seqs s'"
proof -
  obtain t where t: "framesAcked e nr s = Some t" "sCfg t = sCfg s" "sTxBuf t = sTxBuf s"
    "vVS (sV t) = vVS (sV s)" "vVR (sV t) = vVR (sV s)" "vVA (sV t) = nr"
    "sPending t = clear_slots (seqs (modulus s) (vVA (sV s)) (seq_dist (modulus s) (vVA (sV s)) nr)) (sPending s)"
    using framesAcked_spec[OF assms(1,2)] by metis
  have [simp]: "t = s'" using t(1) assms(4) by simp
  note f = t(2-)[simplified]
  let ?md = "modulus s" and ?va = "vVA (sV s)"
  let ?n = "seq_dist ?md ?va nr"
  have va: "?va < ?md" using assms by (simp_all add: seq_ok_def)
  have m: "modulus s' = ?md" using f by (simp add: modulus_def)
  have n: "?n \<le> outstanding s" using assms(3) by (simp add: validNR_dist)
  have o: "outstanding s < unat ?md" by (simp add: outstanding_dist seq_dist_less)
  show os: "outstanding s' = outstanding s - ?n"
    using validNR_outstanding[OF assms(1-3)] f m by (simp add: outstanding_dist[of s'])
  have advn: "adv ?md ?va ?n = nr" by (rule adv_dist[OF seq_mod_modulus assms(2) va])
  have split: "outstanding s = ?n + (outstanding s - ?n)" using n by simp
  have "window_bytes ?md nr (outstanding s - ?n) (sPending s') = window_bytes ?md nr (outstanding s - ?n) (sPending s)"
    using window_bytes_clear[OF seq_mod_modulus va, of ?n "outstanding s - ?n"] n o advn f by simp
  moreover have "window_bytes ?md ?va (outstanding s) (sPending s)
      = window_bytes ?md ?va ?n (sPending s) @ window_bytes ?md nr (outstanding s - ?n) (sPending s)"
    using window_bytes_add[of ?md ?va ?n "outstanding s - ?n"] split advn by simp
  ultimately show "backlog s = acked_bytes nr s @ backlog s'"
    using f m os by (simp add: backlog_def acked_bytes_def)
  show "seq_ok s'" using assms(1,2) f m by (simp add: seq_ok_def)
  show "window_seqs s = seqs ?md ?va ?n @ window_seqs s'"
    using seqs_add[of ?md ?va ?n "outstanding s - ?n"] split advn f m os by (simp add: window_seqs_def)
qed

lemma framesAcked_data_inv:
  assumes "data_inv s" "nr < modulus s" "validNR nr s" "framesAcked e nr s = Some s'"
  shows "data_inv s'"
proof -
  have sq: "seq_ok s" using assms(1) by (simp add: data_inv_def)
  note b = framesAcked_backlog[OF sq assms(2-4)]
  obtain t where t: "framesAcked e nr s = Some t" "sCfg t = sCfg s"
    "sPending t = clear_slots (seqs (modulus s) (vVA (sV s)) (seq_dist (modulus s) (vVA (sV s)) nr)) (sPending s)"
    using framesAcked_spec[OF sq assms(2)] by metis
  have f: "sCfg s' = sCfg s"
    "sPending s' = clear_slots (seqs (modulus s) (vVA (sV s)) (seq_dist (modulus s) (vVA (sV s)) nr)) (sPending s)"
    using t assms(4) by simp_all
  have o: "outstanding s < unat (modulus s)" by (simp add: outstanding_dist seq_dist_less)
  have "distinct (window_seqs s)"
    unfolding window_seqs_def using sq o by (intro distinct_seqs) (simp_all add: seq_ok_def)
  then have "sPending s' i = sPending s i" if "i \<in> set (window_seqs s')" for i
    using that b(4) f(2) by (auto simp: clear_slots_def)
  then have "slot_ok s' i = slot_ok s i" if "i \<in> set (window_seqs s')" for i
    using that f(1) by (intro slot_ok_cong) simp_all
  then have "list_all (slot_ok s') (window_seqs s')"
    using assms(1) b(4) by (simp add: data_inv_def list_all_iff)
  then show ?thesis
    using assms(1) b f(1) cfg_ok_cong[OF f(1)] by (auto simp: data_inv_def)
qed

end
