(* ===== verification/LAPB_Kick.thy ===== *)
theory LAPB_Kick
  imports LAPB_Backlog
begin

text \<open>
  Requeueing and transmission: \<^verbatim>\<open>requeueFromVA\<close> folds the window back into the byte buffer
  and \<^verbatim>\<open>kick\<close> cuts the buffer into I-frames while the window has room. Both leave the
  backlog as it is; \<^verbatim>\<open>kick\<close> terminates and respects the window.
\<close>

section \<open>requeueFromVA\<close>

lemma requeueFromVA_eq:
  assumes "seq_ok s"
  shows "requeueFromVA s = Some (setv (\<lambda>v. v\<lparr>vVS := vVA v\<rparr>)
     (s\<lparr>sPending := clear_slots (window_seqs s) (sPending s), sTxBuf := backlog s\<rparr>))"
proof -
  have va: "vVA (sV s) < modulus s" and vs: "vVS (sV s) < modulus s" using assms by (simp_all add: seq_ok_def)
  have "requeue_loop (modulus s) (vVS (sV s)) (vVA (sV s)) [] (sPending s)
     = Some (window_bytes (modulus s) (vVA (sV s)) (outstanding s) (sPending s), clear_slots (window_seqs s) (sPending s))"
    using requeue_loop_adv[OF seq_mod_modulus va, of "outstanding s" "[]" "sPending s"]
      adv_dist[OF seq_mod_modulus vs va]
    by (simp add: outstanding_dist window_seqs_def seq_dist_less)
  then show ?thesis by (simp add: requeueFromVA_def backlog_def)
qed

lemma requeue_fields:
  assumes "seq_ok s" "requeueFromVA s = Some s'"
  shows "sCfg s' = sCfg s" "sState s' = sState s" "sTerminated s' = sTerminated s" "sOut s' = sOut s"
    "sT1 s' = sT1 s" "sT2 s' = sT2 s" "sT3 s' = sT3 s" "sHB s' = sHB s"
    "vVS (sV s') = vVA (sV s)" "vVR (sV s') = vVR (sV s)" "vVA (sV s') = vVA (sV s)"
    "vCond (sV s') = vCond (sV s)" "vN2Count (sV s') = vN2Count (sV s)" "sTxBuf s' = backlog s"
  using assms by (auto simp: requeueFromVA_eq setv_def)

lemma requeue_backlog:
  assumes "seq_ok s" "requeueFromVA s = Some s'"
  shows "backlog s' = backlog s" "seq_ok s'" "outstanding s' = 0"
proof -
  note f = requeue_fields[OF assms]
  have m: "modulus s' = modulus s" using f(1) by (simp add: modulus_def)
  show o: "outstanding s' = 0" using f by simp
  show "backlog s' = backlog s" using f(14) o by (simp add: backlog_def[of s'])
  show "seq_ok s'" using assms(1) f m by (simp add: seq_ok_def)
qed

lemma requeue_data_inv:
  assumes "data_inv s" "requeueFromVA s = Some s'" shows "data_inv s'"
proof -
  have sq: "seq_ok s" using assms(1) by (simp add: data_inv_def)
  have c: "cfg_ok s'" using assms cfg_ok_cong[OF requeue_fields(1)[OF sq assms(2)]] by (simp add: data_inv_def)
  then show ?thesis
    using requeue_backlog[OF sq assms(2)] by (simp add: data_inv_def window_seqs_def cfg_ok_def)
qed

section \<open>One transmitted I-frame\<close>

lemma send_next_fields [session_simps]:
  "sCfg (send_next e n s) = sCfg s" "sState (send_next e n s) = sState s"
  "sTerminated (send_next e n s) = sTerminated s"
  "sT1 (send_next e n s) = sT1 s" "sT2 (send_next e n s) = sT2 s" "sT3 (send_next e n s) = sT3 s"
  "sHB (send_next e n s) = sHB s" "sTxBuf (send_next e n s) = drop n (sTxBuf s)"
  "vVS (sV (send_next e n s)) = (vVS (sV s) + 1) mod modulus s" "vVR (sV (send_next e n s)) = vVR (sV s)"
  "vVA (sV (send_next e n s)) = vVA (sV s)" "vCond (sV (send_next e n s)) = vCond (sV s)"
  "vN2Count (sV (send_next e n s)) = vN2Count (sV s)"
  "delivered (send_next e n s) = delivered s"
  by (simp_all add: send_next_def session_simps setv_def Let_def modulus_def delivered_def)
    (simp add: delivered_submit[unfolded delivered_def])

definition next_iframe :: "nat \<Rightarrow> session \<Rightarrow> lframe" where
  "next_iframe n s = (mk_frame s (mk_control FrameI (vVS (sV s)) (vVR (sV s)) False) True)
     \<lparr>lfPID := 0xF0, lfInfo := take n (sTxBuf s)\<rparr>"

lemma send_next_pending:
  "sPending (send_next e n s) = (sPending s)(vVS (sV s) := Some (next_iframe n s))"
  by (simp add: send_next_def session_simps setv_def Let_def next_iframe_def)

lemma send_next_modulus [simp]: "modulus (send_next e n s) = modulus s"
  by (simp add: modulus_def session_simps)

lemma send_next_seq:
  assumes "seq_ok s" "Suc (outstanding s) < unat (modulus s)"
  shows "seq_ok (send_next e n s)" "outstanding (send_next e n s) = Suc (outstanding s)"
    "window_seqs (send_next e n s) = window_seqs s @ [vVS (sV s)]" "vVS (sV s) \<notin> set (window_seqs s)"
proof -
  let ?md = "modulus s"
  have va: "vVA (sV s) < ?md" and vs: "vVS (sV s) < ?md" using assms by (simp_all add: seq_ok_def)
  have vsadv: "adv ?md (vVA (sV s)) (outstanding s) = vVS (sV s)"
    using adv_dist[OF seq_mod_modulus vs va] by (simp add: outstanding_dist)
  show "seq_ok (send_next e n s)"
    using assms(1) seq_succ_less[OF seq_mod_modulus] by (simp add: seq_ok_def session_simps)
  have "seq_dist ?md (vVA (sV s)) (adv ?md (vVA (sV s)) (Suc (outstanding s))) = Suc (outstanding s)"
    by (rule dist_adv[OF seq_mod_modulus va assms(2)])
  then show o: "outstanding (send_next e n s) = Suc (outstanding s)"
    using vsadv by (simp add: outstanding_dist[of "send_next e n s"] session_simps adv_Suc_end del: adv.simps)
  show "window_seqs (send_next e n s) = window_seqs s @ [vVS (sV s)]"
    using vsadv by (simp add: window_seqs_def o session_simps seqs_snoc del: seqs.simps)
  have "distinct (seqs ?md (vVA (sV s)) (Suc (outstanding s)))"
    using assms(2) by (intro distinct_seqs[OF seq_mod_modulus va]) simp
  then show "vVS (sV s) \<notin> set (window_seqs s)"
    using vsadv by (simp add: seqs_snoc window_seqs_def del: seqs.simps)
qed

lemma send_next_backlog:
  assumes "seq_ok s" "Suc (outstanding s) < unat (modulus s)"
  shows "backlog (send_next e n s) = backlog s"
proof -
  note q = send_next_seq(1-3)[OF assms, of e n] send_next_seq(4)[OF assms]
  have old: "window_bytes (modulus s) (vVA (sV s)) (outstanding s) (sPending (send_next e n s))
      = window_bytes (modulus s) (vVA (sV s)) (outstanding s) (sPending s)"
    using q(4) by (intro window_bytes_cong) (auto simp: send_next_pending window_seqs_def)
  have new: "slot_bytes (sPending (send_next e n s)) (vVS (sV s)) = take n (sTxBuf s)"
    by (simp add: send_next_pending slot_bytes_def next_iframe_def)
  have "seqs (modulus s) (vVA (sV s)) (Suc (outstanding s)) = window_seqs s @ [vVS (sV s)]"
    using q(3) by (simp add: window_seqs_def q(2) session_simps del: seqs.simps)
  then have "window_bytes (modulus s) (vVA (sV s)) (Suc (outstanding s)) (sPending (send_next e n s))
    = window_bytes (modulus s) (vVA (sV s)) (outstanding s) (sPending s) @ take n (sTxBuf s)"
    using old new by (simp add: window_bytes_def window_seqs_def del: seqs.simps)
  then show ?thesis by (simp add: backlog_def q(2) session_simps)
qed

lemma send_next_data_inv:
  assumes "data_inv s" "int (outstanding s) < scWindow (sCfg s)" "0 < n" "int n \<le> scPaclen (sCfg s)"
    "n \<le> length (sTxBuf s)"
  shows "data_inv (send_next e n s)"
proof -
  have sq: "seq_ok s" and c: "cfg_ok s" and sl: "list_all (slot_ok s) (window_seqs s)"
    using assms(1) by (simp_all add: data_inv_def)
  have room: "Suc (outstanding s) < unat (modulus s)" using c assms(2) by (auto simp: cfg_ok_def)
  note q = send_next_seq(1-3)[OF sq room, of e n] send_next_seq(4)[OF sq room]
  have old: "slot_ok (send_next e n s) i = slot_ok s i" if "i \<in> set (window_seqs s)" for i
    using that q(4) by (intro slot_ok_cong) (auto simp: session_simps send_next_pending)
  have new: "slot_ok (send_next e n s) (vVS (sV s))"
    using assms(3-5) by (auto simp: slot_ok_def send_next_pending next_iframe_def mk_frame_def mk_control_def session_simps)
  have "list_all (slot_ok (send_next e n s)) (window_seqs (send_next e n s))"
    using sl old new by (auto simp: q(3) list_all_iff)
  then show ?thesis
    using q c assms(2) by (simp add: data_inv_def cfg_ok_cong[of "send_next e n s" s] session_simps)
qed

section \<open>kick\<close>

text \<open>
  The loop ends: each round takes at least one byte off the buffer. The result keeps the data
  invariant and the backlog, and either the buffer is empty or the window is full.
\<close>

lemma kick_loop_spec:
  assumes "data_inv s"
  shows "\<exists>s' n'. kick_loop e s n = Some (s', n') \<and> data_inv s' \<and> backlog s' = backlog s
    \<and> n \<le> n' \<and> (sTxBuf s' = [] \<or> int (outstanding s') = scWindow (sCfg s'))
    \<and> sCfg s' = sCfg s \<and> sState s' = sState s \<and> sTerminated s' = sTerminated s \<and> delivered s' = delivered s
    \<and> sT1 s' = sT1 s \<and> sT2 s' = sT2 s \<and> sT3 s' = sT3 s \<and> sHB s' = sHB s
    \<and> vVR (sV s') = vVR (sV s) \<and> vVA (sV s') = vVA (sV s) \<and> vCond (sV s') = vCond (sV s)
    \<and> vN2Count (sV s') = vN2Count (sV s)
    \<and> (n' = n \<longrightarrow> s' = s) \<and> (n < n' \<longrightarrow> vVS (sV s') \<noteq> vVA (sV s'))"
  using assms
proof (induction "length (sTxBuf s)" arbitrary: s n rule: less_induct)
  case less
  show ?case
  proof (cases "sTxBuf s = [] \<or> int (outstanding s) \<ge> scWindow (sCfg s)")
    case True
    then show ?thesis
      using less.prems by (subst kick_loop.simps) (auto simp: data_inv_def)
  next
    case False
    define k where "k = nat (min (scPaclen (sCfg s)) (int (length (sTxBuf s))))"
    have pos: "0 < scPaclen (sCfg s)" using less.prems by (simp add: data_inv_def cfg_ok_def)
    have k: "0 < k" "int k \<le> scPaclen (sCfg s)" "k \<le> length (sTxBuf s)"
      using pos False by (auto simp: k_def)
    let ?t = "send_next e k s"
    have inv: "data_inv ?t"
      using False by (intro send_next_data_inv[OF less.prems _ k]) simp
    have sq: "seq_ok s" and room: "Suc (outstanding s) < unat (modulus s)"
      using less.prems False by (auto simp: data_inv_def cfg_ok_def)
    have bl: "backlog ?t = backlog s" by (rule send_next_backlog[OF sq room])
    have step: "kick_loop e s n = kick_loop e ?t (n + 1)"
      using False pos unfolding k_def by (subst kick_loop.simps) (simp add: Let_def min_def)
    have dec: "length (sTxBuf ?t) < length (sTxBuf s)" using k by (simp add: session_simps)
    obtain s' n' where r: "kick_loop e ?t (n + 1) = Some (s', n')" "data_inv s'" "backlog s' = backlog ?t" "n + 1 \<le> n'"
       "sTxBuf s' = [] \<or> int (outstanding s') = scWindow (sCfg s')"
       "sCfg s' = sCfg ?t" "sState s' = sState ?t" "sTerminated s' = sTerminated ?t" "delivered s' = delivered ?t"
       "sT1 s' = sT1 ?t" "sT2 s' = sT2 ?t" "sT3 s' = sT3 ?t" "sHB s' = sHB ?t"
       "vVR (sV s') = vVR (sV ?t)" "vVA (sV s') = vVA (sV ?t)" "vCond (sV s') = vCond (sV ?t)"
       "vN2Count (sV s') = vN2Count (sV ?t)" "n' = n + 1 \<longrightarrow> s' = ?t" "n + 1 < n' \<longrightarrow> vVS (sV s') \<noteq> vVA (sV s')"
      using less.hyps[OF dec inv, of "n + 1"] by blast
    have "vVS (sV ?t) \<noteq> vVA (sV ?t)"
      using send_next_seq(2)[OF sq room, of e k] outstanding_0[of ?t] by auto
    then have "vVS (sV s') \<noteq> vVA (sV s')"
      using r(4,18,19) by (cases "n' = n + 1") auto
    then show ?thesis
      using r bl by (simp add: step session_simps)
  qed
qed

lemma kick_spec:
  assumes "data_inv s"
  obtains s' where "kick e s = Some s'" "data_inv s'" "backlog s' = backlog s"
    "sCfg s' = sCfg s" "sState s' = sState s" "sTerminated s' = sTerminated s" "delivered s' = delivered s"
    "vVR (sV s') = vVR (sV s)" "vVA (sV s') = vVA (sV s)" "vN2Count (sV s') = vN2Count (sV s)"
    "sHB s' = sHB s" "tmOn (sT1 s) \<Longrightarrow> tmOn (sT1 s')"
    "vVS (sV s') = vVA (sV s') \<Longrightarrow> s' = s"
    "(sState s \<noteq> StConnected \<and> sState s \<noteq> StTimerRecovery) \<or> cond_has (vCond (sV s)) CondPeerRxBusy \<Longrightarrow> s' = s"
    "sState s = StConnected \<or> sState s = StTimerRecovery \<Longrightarrow> \<not> cond_has (vCond (sV s)) CondPeerRxBusy \<Longrightarrow>
       (vVS (sV s') \<noteq> vVA (sV s') \<longrightarrow> tmOn (sT1 s')) \<and>
       (sTxBuf s' = [] \<or> int (outstanding s') = scWindow (sCfg s'))"
proof (cases "(sState s \<noteq> StConnected \<and> sState s \<noteq> StTimerRecovery) \<or> cond_has (vCond (sV s)) CondPeerRxBusy")
  case True
  then have "kick e s = Some s" by (auto simp: kick_def)
  then show ?thesis using True assms by (intro that[of s]) auto
next
  case False
  obtain t n where t: "kick_loop e s 0 = Some (t, n)" "data_inv t" "backlog t = backlog s"
      "sTxBuf t = [] \<or> int (outstanding t) = scWindow (sCfg t)"
      "sCfg t = sCfg s" "sState t = sState s" "sTerminated t = sTerminated s" "delivered t = delivered s"
      "sT1 t = sT1 s" "sT2 t = sT2 s" "sT3 t = sT3 s" "sHB t = sHB s"
      "vVR (sV t) = vVR (sV s)" "vVA (sV t) = vVA (sV s)" "vN2Count (sV t) = vN2Count (sV s)"
      "n = 0 \<longrightarrow> t = s" "0 < n \<longrightarrow> vVS (sV t) \<noteq> vVA (sV t)"
    using kick_loop_spec[OF assms, of e 0] by blast
  define u where "u = (if n > 0 \<and> cond_has (vCond (sV t)) CondACKPending
                 then t2_stop (clear_cond CondACKPending t) else t)"
  define w where "w = (if vVS (sV u) \<noteq> vVA (sV u) then t3_stop (if tmOn (sT1 u) then u else resetT1 e u) else u)"
  have k: "kick e s = Some w" using False t(1) by (auto simp: kick_def u_def w_def Let_def)
  have u: "sCfg u = sCfg t" "sState u = sState t" "sTerminated u = sTerminated t" "sOut u = sOut t"
    "sT1 u = sT1 t" "sHB u = sHB t" "vVR (sV u) = vVR (sV t)" "vVA (sV u) = vVA (sV t)"
    "vVS (sV u) = vVS (sV t)" "vN2Count (sV u) = vN2Count (sV t)" "sPending u = sPending t" "sTxBuf u = sTxBuf t"
    by (simp_all add: u_def session_defs)
  have w: "sCfg w = sCfg u" "sState w = sState u" "sTerminated w = sTerminated u" "sOut w = sOut u"
    "sHB w = sHB u" "vVR (sV w) = vVR (sV u)" "vVA (sV w) = vVA (sV u)" "vVS (sV w) = vVS (sV u)"
    "vN2Count (sV w) = vN2Count (sV u)" "sPending w = sPending u" "sTxBuf w = sTxBuf u"
    "vVS (sV u) \<noteq> vVA (sV u) \<longrightarrow> tmOn (sT1 w)" "tmOn (sT1 u) \<longrightarrow> tmOn (sT1 w)" "vVS (sV u) = vVA (sV u) \<longrightarrow> w = u"
    by (auto simp: w_def t3_stop_def session_simps)
  show ?thesis
  proof (rule that[OF k])
    show "data_inv w" using t(2) data_inv_cong[of w t] u w by simp
    show "backlog w = backlog s" using t(3) backlog_cong[of w t] u w by simp
    show "delivered w = delivered s" using t(8) delivered_cong[of w t] u w by simp
    show "w = s" if "vVS (sV w) = vVA (sV w)"
      using that t(16,17) u(8,9) w(7,8,14) by (cases "n = 0") (auto simp: u_def)
    show "(vVS (sV w) \<noteq> vVA (sV w) \<longrightarrow> tmOn (sT1 w)) \<and> (sTxBuf w = [] \<or> int (outstanding w) = scWindow (sCfg w))"
      using t(4) outstanding_cong[of w t] modulus_cong[of w t] u w by simp
  qed (use t u w False in auto)
qed

end
