(* ===== verification/LAPB_Transitions.thy ===== *)
theory LAPB_Transitions
  imports LAPB_State
begin

text \<open>
  The transition handlers of the LAPB state machine (\<^verbatim>\<open>pkg/ax25conn/transitions_*.go\<close>,
  \<^verbatim>\<open>heartbeat.go\<close> and \<^verbatim>\<open>Session.handle\<close>, \<^verbatim>\<open>Session.cleanup\<close> of
  \<^verbatim>\<open>session.go\<close>), one definition per handler with every branch of the source.

  A handler returns the new session and whether the run loop continues, under
  \<^typ>\<open>'a option\<close> because it can run one of the loops of \<^verbatim>\<open>LAPB_State\<close> that need not end.
\<close>

section \<open>DISCONNECTED\<close>

definition onDisconnected :: "env \<Rightarrow> event \<Rightarrow> session \<Rightarrow> (session \<times> bool) option" where
  "onDisconnected e ev s =
     (case ev of
        EventConnect \<Rightarrow>
          (let s = s\<lparr>sV := zero_vars\<rparr>;
               s = mutateStats (\<lambda>_. zero_stats) s;
               s = sendSABM e (scMod128 (sCfg s)) s;
               s = hb_reset (resetT1 e s)
           in Some (setState StAwaitingConnection s, True))
      | EventFrameRX None \<Rightarrow> Some (s, True)
      | EventFrameRX (Some f) \<Rightarrow>
          (if cKind (lfControl f) \<in> {FrameSABM, FrameSABME} \<and> lfIsCommand f
           then Some (sendDM e (cPF (lfControl f)) s, True)
           else Some (s, True))
      | EventShutdown \<Rightarrow> Some (s, False)
      | _ \<Rightarrow> Some (s, True))"

section \<open>AWAITING_CONNECTION\<close>

definition rx_awaiting_connection :: "env \<Rightarrow> lframe \<Rightarrow> session \<Rightarrow> session" where
  "rx_awaiting_connection e f s =
     (let pf = cPF (lfControl f) in
      case cKind (lfControl f) of
        FrameSABM \<Rightarrow>
          (if \<not> lfIsCommand f then s
           else sendUA e pf (set_window DefaultWindowMod8 (setMod128 False s)))
      | FrameSABME \<Rightarrow>
          (if \<not> lfIsCommand f then s
           else sendUA e pf (set_window DefaultWindowMod128 (setMod128 True s)))
      | FrameDISC \<Rightarrow> (if \<not> lfIsCommand f then s else sendDM e pf s)
      | FrameUA \<Rightarrow>
          (if \<not> pf then s
           else setState StConnected (t3_reset (zero_seq (set_n2count 0 (calcRTT e (t1_stop s))))))
      | FrameDM \<Rightarrow>
          (if \<not> pf then s
           else if scMod128 (sCfg s) then set_window DefaultWindowMod8 (setMod128 False s)
           else setState StDisconnected (emit (OutError ''peer-rejected'') (t1_stop s)))
      | _ \<Rightarrow> s)"

definition onAwaitingConnection :: "env \<Rightarrow> event \<Rightarrow> session \<Rightarrow> (session \<times> bool) option" where
  "onAwaitingConnection e ev s =
     (case ev of
        EventFrameRX None \<Rightarrow> Some (s, True)
      | EventFrameRX (Some f) \<Rightarrow> Some (rx_awaiting_connection e f s, True)
      | EventT1Expiry \<Rightarrow>
          (if vN2Count (sV s) \<ge> scN2 (sCfg s) then
             (if scMod128 (sCfg s) then
                let s = set_n2count 0 (set_window DefaultWindowMod8 (setMod128 False s))
                in Some (resetT1 e (sendSABM e False s), True)
              else Some (setState StDisconnected (emit (OutError ''link-establish-timeout'') s), True))
           else
             let s = set_n2count (vN2Count (sV s) + 1) s
             in Some (resetT1 e (sendSABM e (scMod128 (sCfg s)) s), True))
      | EventDisconnect \<Rightarrow>
          Some (setState StAwaitingRelease (resetT1 e (set_n2count 0 (sendDISC e s))), True)
      | EventAbort \<Rightarrow>
          Some (setState StAwaitingRelease (resetT1 e (set_n2count 0 (sendDISC e s))), True)
      | EventShutdown \<Rightarrow> Some (s, False)
      | _ \<Rightarrow> Some (s, True))"

section \<open>CONNECTED and TIMER_RECOVERY\<close>

text \<open>
  What a received frame does next in the two data states: return at once, or fall out of the
  switch to the closing \<^verbatim>\<open>s.kick()\<close>.
\<close>

datatype rx_flow = Return session | FallThrough session

text \<open>\<^verbatim>\<open>case FrameSABM, FrameSABME\<close>: rebind in place.\<close>

definition rx_rebind :: "env \<Rightarrow> lframe \<Rightarrow> session \<Rightarrow> session option" where
  "rx_rebind e f s0 = do {
     let s = setMod128 (cKind (lfControl f) = FrameSABME) s0;
     let s = set_window (if scMod128 (sCfg s) then DefaultWindowMod128 else DefaultWindowMod8) s;
     s \<leftarrow> requeueAllPending s;
     let s = setv (\<lambda>v. v\<lparr>vN2Count := 0, vCond := 0\<rparr>) (zero_seq s);
     let s = t3_reset (t2_stop (t1_stop s));
     Some (sendUA e (cPF (lfControl f)) s) }"

text \<open>\<^verbatim>\<open>case FrameDISC\<close> and \<^verbatim>\<open>case FrameDM\<close>.\<close>

definition rx_disc :: "env \<Rightarrow> lframe \<Rightarrow> session \<Rightarrow> session" where
  "rx_disc e f s =
     setState StDisconnected (emit (OutError ''peer-disconnected'')
       (stopAllTimers (dropQueues (sendUA e (cPF (lfControl f)) s))))"

definition rx_dm :: "session \<Rightarrow> session" where
  "rx_dm s = setState StDisconnected (emit (OutError ''peer-reset'') (stopAllTimers (dropQueues s)))"

text \<open>\<^verbatim>\<open>case FrameI\<close> once \<^verbatim>\<open>N(R)\<close> has been validated and the acknowledgement applied.\<close>

definition rx_deliver :: "env \<Rightarrow> lframe \<Rightarrow> session \<Rightarrow> session" where
  "rx_deliver e f s =
     (let pf = cPF (lfControl f) in
      if cond_has (vCond (sV s)) CondOwnRxBusy then
        (if pf then sendRROrRNR e True True s else s)
      else if cNS (lfControl f) = vVR (sV s) then
        let s = setv (\<lambda>v. v\<lparr>vVR := (vVR v + 1) mod modulus s\<rparr>) s;
            s = clear_cond CondReject s;
            s = (if length (lfInfo f) > 0 then
                   mutateStats (\<lambda>st. st\<lparr>lsBytesRX := lsBytesRX st + length (lfInfo f),
                                        lsFramesRX := lsFramesRX st + 1\<rparr>)
                     (emit (OutDataRX (lfInfo f)) s)
                 else mutateStats (\<lambda>st. st\<lparr>lsFramesRX := lsFramesRX st + 1\<rparr>) s)
        in if pf then t2_stop (sendRROrRNR e True True (clear_cond CondACKPending s))
           else if \<not> cond_has (vCond (sV s)) CondACKPending then t2_reset (set_cond CondACKPending s)
           else s
      else
        (if \<not> cond_has (vCond (sV s)) CondReject then
           sendREJ e pf (t2_stop (clear_cond CondACKPending (set_cond CondReject s)))
         else if pf then sendRROrRNR e True True s
         else s))"

definition rx_busy :: "lframe \<Rightarrow> session \<Rightarrow> session" where
  "rx_busy f s =
     (if cKind (lfControl f) = FrameRNR then set_cond CondPeerRxBusy s else clear_cond CondPeerRxBusy s)"

definition answer_poll :: "env \<Rightarrow> lframe \<Rightarrow> session \<Rightarrow> session" where
  "answer_poll e f s =
     (if lfIsCommand f \<and> cPF (lfControl f) then sendRROrRNR e True True s else s)"

definition rx_connected :: "env \<Rightarrow> lframe \<Rightarrow> session \<Rightarrow> rx_flow option" where
  "rx_connected e f s =
     (let nr = cNR (lfControl f) in
      case cKind (lfControl f) of
        FrameSABM \<Rightarrow>
          (if \<not> lfIsCommand f then Some (FallThrough s) else map_option FallThrough (rx_rebind e f s))
      | FrameSABME \<Rightarrow>
          (if \<not> lfIsCommand f then Some (FallThrough s) else map_option FallThrough (rx_rebind e f s))
      | FrameDISC \<Rightarrow>
          (if \<not> lfIsCommand f then Some (FallThrough s) else Some (Return (rx_disc e f s)))
      | FrameDM \<Rightarrow> Some (Return (rx_dm s))
      | FrameRR \<Rightarrow> (let s = rx_busy f s in
          if \<not> validNR nr s then Some (Return (establishDataLink e s))
          else map_option FallThrough (framesAcked e nr (answer_poll e f s)))
      | FrameRNR \<Rightarrow> (let s = rx_busy f s in
          if \<not> validNR nr s then Some (Return (establishDataLink e s))
          else map_option FallThrough (framesAcked e nr (answer_poll e f s)))
      | FrameREJ \<Rightarrow> (let s = clear_cond CondPeerRxBusy s in
          if \<not> validNR nr s then Some (Return (establishDataLink e s))
          else do {
            s \<leftarrow> framesAcked e nr (answer_poll e f s);
            s \<leftarrow> requeueFromVA s;
            Some (FallThrough (t3_reset (calcRTT e (t1_stop s)))) })
      | FrameI \<Rightarrow>
          (if \<not> validNR nr s then Some (Return (establishDataLink e s))
           else map_option (\<lambda>s. FallThrough (rx_deliver e f s)) (framesAcked e nr s))
      | _ \<Rightarrow> Some (Return (establishDataLink e s)))"

text \<open>The poll-final answer that ends (or advances) timer recovery.\<close>

definition recovered :: "session \<Rightarrow> session" where
  "recovered s = (if vVS (sV s) = vVA (sV s) then setState StConnected (t3_reset s) else s)"

definition rx_timer_recovery :: "env \<Rightarrow> lframe \<Rightarrow> session \<Rightarrow> rx_flow option" where
  "rx_timer_recovery e f s =
     (let nr = cNR (lfControl f); final = (\<not> lfIsCommand f \<and> cPF (lfControl f)) in
      case cKind (lfControl f) of
        FrameSABM \<Rightarrow>
          (if \<not> lfIsCommand f then Some (FallThrough s)
           else map_option (\<lambda>s. FallThrough (setState StConnected s)) (rx_rebind e f s))
      | FrameSABME \<Rightarrow>
          (if \<not> lfIsCommand f then Some (FallThrough s)
           else map_option (\<lambda>s. FallThrough (setState StConnected s)) (rx_rebind e f s))
      | FrameDISC \<Rightarrow>
          (if \<not> lfIsCommand f then Some (FallThrough s) else Some (Return (rx_disc e f s)))
      | FrameDM \<Rightarrow> Some (Return (rx_dm s))
      | FrameRR \<Rightarrow> (let s = rx_busy f s in
          if \<not> validNR nr s then Some (Return (establishDataLink e s))
          else if final then
            map_option (\<lambda>s. FallThrough (recovered s)) (framesAcked e nr (set_n2count 0 (t1_stop s)))
          else map_option FallThrough (framesAcked e nr (answer_poll e f s)))
      | FrameRNR \<Rightarrow> (let s = rx_busy f s in
          if \<not> validNR nr s then Some (Return (establishDataLink e s))
          else if final then
            map_option (\<lambda>s. FallThrough (recovered s)) (framesAcked e nr (set_n2count 0 (t1_stop s)))
          else map_option FallThrough (framesAcked e nr (answer_poll e f s)))
      | FrameREJ \<Rightarrow> (let s = clear_cond CondPeerRxBusy s in
          if \<not> validNR nr s then Some (Return (establishDataLink e s))
          else if final then do {
            s \<leftarrow> framesAcked e nr (set_n2count 0 (t1_stop s));
            s \<leftarrow> requeueFromVA s;
            Some (FallThrough (recovered s)) }
          else do {
            s \<leftarrow> framesAcked e nr (answer_poll e f s);
            s \<leftarrow> requeueFromVA s;
            Some (FallThrough s) })
      | FrameI \<Rightarrow>
          (if \<not> validNR nr s then Some (Return (establishDataLink e s))
           else map_option (\<lambda>s. FallThrough (rx_deliver e f s)) (framesAcked e nr s))
      | _ \<Rightarrow> Some (Return (establishDataLink e s)))"

text \<open>Ending with \<^verbatim>\<open>s.kick(); return true\<close>.\<close>

definition then_kick :: "env \<Rightarrow> session \<Rightarrow> (session \<times> bool) option" where
  "then_kick e s = map_option (\<lambda>s. (s, True)) (kick e s)"

definition run_flow :: "env \<Rightarrow> rx_flow \<Rightarrow> (session \<times> bool) option" where
  "run_flow e fl = (case fl of Return s \<Rightarrow> Some (s, True) | FallThrough s \<Rightarrow> then_kick e s)"

text \<open>\<^verbatim>\<open>case EventDisconnect, EventAbort\<close> and \<^verbatim>\<open>case EventT2Expiry\<close> of the two data states.\<close>

definition begin_release :: "env \<Rightarrow> session \<Rightarrow> session" where
  "begin_release e s =
     setState StAwaitingRelease (resetT1 e (t3_stop (t2_stop (sendDISC e (set_n2count 0 (dropQueues s))))))"

definition flush_ack :: "env \<Rightarrow> session \<Rightarrow> session" where
  "flush_ack e s =
     (if cond_has (vCond (sV s)) CondACKPending
      then sendRROrRNR e False True (clear_cond CondACKPending s) else s)"

definition enter_recovery :: "env \<Rightarrow> int \<Rightarrow> session \<Rightarrow> session" where
  "enter_recovery e n s =
     setState StTimerRecovery (resetT1 e (transmitEnquiry e (set_n2count n s)))"

definition onConnected :: "env \<Rightarrow> event \<Rightarrow> session \<Rightarrow> (session \<times> bool) option" where
  "onConnected e ev s =
     (case ev of
        EventFrameRX None \<Rightarrow> then_kick e s
      | EventFrameRX (Some f) \<Rightarrow> Option.bind (rx_connected e f s) (run_flow e)
      | EventDataTX d \<Rightarrow> then_kick e (s\<lparr>sTxBuf := sTxBuf s @ d\<rparr>)
      | EventT1Expiry \<Rightarrow> Some (enter_recovery e 1 s, True)
      | EventT3Expiry \<Rightarrow> Some (enter_recovery e 0 s, True)
      | EventT2Expiry \<Rightarrow> then_kick e (flush_ack e s)
      | EventDisconnect \<Rightarrow> Some (begin_release e s, True)
      | EventAbort \<Rightarrow> Some (begin_release e s, True)
      | EventShutdown \<Rightarrow> Some (s, False)
      | _ \<Rightarrow> then_kick e s)"

definition onTimerRecovery :: "env \<Rightarrow> event \<Rightarrow> session \<Rightarrow> (session \<times> bool) option" where
  "onTimerRecovery e ev s =
     (case ev of
        EventFrameRX None \<Rightarrow> then_kick e s
      | EventFrameRX (Some f) \<Rightarrow> Option.bind (rx_timer_recovery e f s) (run_flow e)
      | EventDataTX d \<Rightarrow> then_kick e (s\<lparr>sTxBuf := sTxBuf s @ d\<rparr>)
      | EventT1Expiry \<Rightarrow>
          (if vN2Count (sV s) \<ge> scN2 (sCfg s) then
             Some (setState StDisconnected (emit (OutError ''ack-timeout'')
                (stopAllTimers (dropQueues (submit e (mk_frame s (mk_control FrameDM 0 0 True) False) s)))), True)
           else then_kick e (resetT1 e (transmitEnquiry e (set_n2count (vN2Count (sV s) + 1) s))))
      | EventT2Expiry \<Rightarrow> then_kick e (flush_ack e s)
      | EventDisconnect \<Rightarrow> Some (begin_release e s, True)
      | EventAbort \<Rightarrow> Some (begin_release e s, True)
      | EventShutdown \<Rightarrow> Some (s, False)
      | _ \<Rightarrow> then_kick e s)"

section \<open>AWAITING_RELEASE\<close>

definition rx_awaiting_release :: "env \<Rightarrow> lframe \<Rightarrow> session \<Rightarrow> session" where
  "rx_awaiting_release e f s =
     (let pf = cPF (lfControl f); k = cKind (lfControl f) in
      if k \<in> {FrameSABM, FrameSABME} then (if lfIsCommand f then sendDM e pf s else s)
      else if k = FrameDISC then
        (if lfIsCommand f then setState StDisconnected (t1_stop (sendUA e pf s)) else s)
      else if k = FrameUA \<or> k = FrameDM then
        (if pf then setState StDisconnected (t1_stop s) else s)
      else if k \<in> {FrameI, FrameRR, FrameRNR, FrameREJ} then
        (if lfIsCommand f \<and> pf then sendDM e True s else s)
      else s)"

definition onAwaitingRelease :: "env \<Rightarrow> event \<Rightarrow> session \<Rightarrow> (session \<times> bool) option" where
  "onAwaitingRelease e ev s =
     (case ev of
        EventFrameRX None \<Rightarrow> Some (s, True)
      | EventFrameRX (Some f) \<Rightarrow> Some (rx_awaiting_release e f s, True)
      | EventT1Expiry \<Rightarrow>
          (if vN2Count (sV s) \<ge> scN2 (sCfg s) then
             Some (setState StDisconnected (emit (OutError ''disc-timeout'') (sendDISC e s)), True)
           else Some (resetT1 e (sendDISC e (set_n2count (vN2Count (sV s) + 1) s)), True))
      | EventShutdown \<Rightarrow> Some (s, False)
      | _ \<Rightarrow> Some (s, True))"

section \<open>Housekeeping\<close>

definition rxBufferBelowHalfFull :: "session \<Rightarrow> bool" where
  "rxBufferBelowHalfFull s = True"

definition heartbeatTick :: "env \<Rightarrow> session \<Rightarrow> session" where
  "heartbeatTick e s =
     (if sState s \<noteq> StConnected \<and> sState s \<noteq> StTimerRecovery then s
      else hb_reset
        (if \<not> cond_has (vCond (sV s)) CondOwnRxBusy then s
         else if \<not> rxBufferBelowHalfFull s then s
         else sendRROrRNR e False True (clear_cond CondACKPending (clear_cond CondOwnRxBusy s))))"

definition statsTick :: "session \<Rightarrow> session" where
  "statsTick s0 =
     (if sState s0 \<noteq> StConnected then s0
      else
        let s = mutateStats (\<lambda>st. st\<lparr>lsVS := vVS (sV s0), lsVR := vVR (sV s0), lsVA := vVA (sV s0),
                  lsRC := vN2Count (sV s0), lsPeerBusy := cond_has (vCond (sV s0)) CondPeerRxBusy,
                  lsOwnBusy := cond_has (vCond (sV s0)) CondOwnRxBusy, lsRTT := vRTT (sV s0)\<rparr>) s0;
            s = emit (OutLinkStats (sStats s)) s
        in tstats_reset s)"

section \<open>Dispatch\<close>

definition handle_state :: "env \<Rightarrow> event \<Rightarrow> session \<Rightarrow> (session \<times> bool) option" where
  "handle_state e ev s =
     (case sState s of
        StDisconnected \<Rightarrow> onDisconnected e ev s
      | StAwaitingConnection \<Rightarrow> onAwaitingConnection e ev s
      | StConnected \<Rightarrow> onConnected e ev s
      | StTimerRecovery \<Rightarrow> onTimerRecovery e ev s
      | StAwaitingRelease \<Rightarrow> onAwaitingRelease e ev s)"

definition handle :: "env \<Rightarrow> event \<Rightarrow> session \<Rightarrow> (session \<times> bool) option" where
  "handle e ev s =
     (case ev of
        EventHeartbeat \<Rightarrow> Some (syncOutstanding (heartbeatTick e s), True)
      | EventStatsTick \<Rightarrow> Some (syncOutstanding (statsTick s), True)
      | _ \<Rightarrow> map_option (\<lambda>(s, cont). (syncOutstanding s, \<not> sTerminated s \<and> cont)) (handle_state e ev s))"

definition cleanup :: "session \<Rightarrow> session" where
  "cleanup s0 =
     (let s = tstats_stop (hb_stop (t3_stop (t2_stop (t1_stop s0))))
      in if \<not> sTerminated s then emit (OutStateChange StDisconnected) (s\<lparr>sTerminated := True\<rparr>) else s)"

end
