(* ===== verification/LAPB_Session.thy ===== *)
theory LAPB_Session
  imports LAPB_Kick LAPB_Transitions
begin

text \<open>
  The handlers preserve the session invariant, and what they do to the two streams.
\<close>

section \<open>Field lemmas of the handler pieces\<close>

lemma establish_fields:
  "sCfg (establishDataLink e s) = sCfg s" "sState (establishDataLink e s) = StAwaitingConnection"
  "tmOn (sT1 (establishDataLink e s))" "delivered (establishDataLink e s) = delivered s"
  "vN2Count (sV (establishDataLink e s)) = 0" "vVR (sV (establishDataLink e s)) = vVR (sV s)"
  by (simp_all add: establishDataLink_def session_simps session_defs Let_def delivered_def
      delivered_ops[unfolded delivered_def] delivered_setState[unfolded delivered_def]
      delivered_timer_ops[unfolded delivered_def])

lemma setState_terminated: "st \<noteq> StDisconnected \<Longrightarrow> sTerminated (setState st s) = sTerminated s"
  by (simp add: setState_def session_defs Let_def)

lemma establish_terminated: "sTerminated (establishDataLink e s) = sTerminated s"
  by (simp add: establishDataLink_def session_simps session_defs setState_terminated)

lemma rx_busy_fields:
  "sCfg (rx_busy f s) = sCfg s" "sState (rx_busy f s) = sState s" "sPending (rx_busy f s) = sPending s"
  "sTxBuf (rx_busy f s) = sTxBuf s" "sTerminated (rx_busy f s) = sTerminated s" "sOut (rx_busy f s) = sOut s"
  "sT1 (rx_busy f s) = sT1 s" "sT3 (rx_busy f s) = sT3 s" "sHB (rx_busy f s) = sHB s"
  "vVS (sV (rx_busy f s)) = vVS (sV s)" "vVR (sV (rx_busy f s)) = vVR (sV s)"
  "vVA (sV (rx_busy f s)) = vVA (sV s)" "vN2Count (sV (rx_busy f s)) = vN2Count (sV s)"
  by (auto simp: rx_busy_def session_defs)

lemma answer_poll_fields:
  "sCfg (answer_poll e f s) = sCfg s" "sState (answer_poll e f s) = sState s"
  "sPending (answer_poll e f s) = sPending s" "sTxBuf (answer_poll e f s) = sTxBuf s"
  "sTerminated (answer_poll e f s) = sTerminated s" "delivered (answer_poll e f s) = delivered s"
  "sT1 (answer_poll e f s) = sT1 s" "sT3 (answer_poll e f s) = sT3 s" "sHB (answer_poll e f s) = sHB s"
  "sV (answer_poll e f s) = sV s"
  by (auto simp: answer_poll_def session_simps)

lemma flush_ack_fields:
  "sCfg (flush_ack e s) = sCfg s" "sState (flush_ack e s) = sState s"
  "sPending (flush_ack e s) = sPending s" "sTxBuf (flush_ack e s) = sTxBuf s"
  "sTerminated (flush_ack e s) = sTerminated s" "delivered (flush_ack e s) = delivered s"
  "sT1 (flush_ack e s) = sT1 s" "sT3 (flush_ack e s) = sT3 s" "sHB (flush_ack e s) = sHB s"
  "vVS (sV (flush_ack e s)) = vVS (sV s)" "vVR (sV (flush_ack e s)) = vVR (sV s)"
  "vVA (sV (flush_ack e s)) = vVA (sV s)" "vN2Count (sV (flush_ack e s)) = vN2Count (sV s)"
  by (auto simp: flush_ack_def session_simps session_defs delivered_def delivered_ops[unfolded delivered_def])

definition rx_accepts :: "lframe \<Rightarrow> session \<Rightarrow> bool" where
  "rx_accepts f s \<longleftrightarrow> \<not> cond_has (vCond (sV s)) CondOwnRxBusy \<and> cNS (lfControl f) = vVR (sV s)"

lemma rx_deliver_fields:
  "sCfg (rx_deliver e f s) = sCfg s" "sState (rx_deliver e f s) = sState s"
  "sPending (rx_deliver e f s) = sPending s" "sTxBuf (rx_deliver e f s) = sTxBuf s"
  "sTerminated (rx_deliver e f s) = sTerminated s"
  "sT1 (rx_deliver e f s) = sT1 s" "sT3 (rx_deliver e f s) = sT3 s" "sHB (rx_deliver e f s) = sHB s"
  "vVS (sV (rx_deliver e f s)) = vVS (sV s)" "vVA (sV (rx_deliver e f s)) = vVA (sV s)"
  "vN2Count (sV (rx_deliver e f s)) = vN2Count (sV s)"
  by (simp_all add: rx_deliver_def session_simps session_defs Let_def)

lemma rx_deliver_receive:
  "vVR (sV (rx_deliver e f s)) = (if rx_accepts f s then (vVR (sV s) + 1) mod modulus s else vVR (sV s))"
  "delivered (rx_deliver e f s) = delivered s @ (if rx_accepts f s then lfInfo f else [])"
  by (simp_all add: rx_deliver_def rx_accepts_def session_simps session_defs Let_def delivered_def
      delivered_ops[unfolded delivered_def])

section \<open>The session invariant\<close>

definition data_state :: "lapb_state \<Rightarrow> bool" where
  "data_state st \<longleftrightarrow> st = StConnected \<or> st = StTimerRecovery"

text \<open>
  No state waits without a clock: every state that needs an answer from the peer has \<open>T1\<close>
  running (or its expiry pending, \<open>p1\<close>), an idle connected link has \<open>T3\<close> running (or
  pending, \<open>p3\<close>). In \<^const>\<open>StTimerRecovery\<close> this is only so while I-frames are
  outstanding; see \<open>timer_recovery_unclocked\<close> for the other case.
\<close>

definition timer_inv :: "bool \<Rightarrow> bool \<Rightarrow> session \<Rightarrow> bool" where
  "timer_inv p1 p3 s =
     (case sState s of
        StDisconnected \<Rightarrow> True
      | StConnected \<Rightarrow> (if vVS (sV s) = vVA (sV s) then tmOn (sT3 s) \<or> p3 else tmOn (sT1 s) \<or> p1)
      | StTimerRecovery \<Rightarrow> vVS (sV s) \<noteq> vVA (sV s) \<longrightarrow> tmOn (sT1 s) \<or> p1
      | _ \<Rightarrow> tmOn (sT1 s) \<or> p1)"

definition session_inv :: "bool \<Rightarrow> bool \<Rightarrow> session \<Rightarrow> bool" where
  "session_inv p1 p3 s \<longleftrightarrow> cfg_ok s \<and> 0 \<le> vN2Count (sV s) \<and> (data_state (sState s) \<longrightarrow> data_inv s)
     \<and> timer_inv p1 p3 s \<and> (sTerminated s \<longrightarrow> sState s = StDisconnected)"

definition same_data :: "session \<Rightarrow> session \<Rightarrow> bool" where
  "same_data s t \<longleftrightarrow> sCfg t = sCfg s \<and> sState t = sState s \<and> sPending t = sPending s \<and> sTxBuf t = sTxBuf s
     \<and> vVS (sV t) = vVS (sV s) \<and> vVR (sV t) = vVR (sV s) \<and> vVA (sV t) = vVA (sV s)
     \<and> delivered t = delivered s \<and> sTerminated t = sTerminated s"

lemma same_data_trans: "same_data s t \<Longrightarrow> same_data t u \<Longrightarrow> same_data s u"
  by (simp add: same_data_def)

lemma same_data_views:
  assumes "same_data s t"
  shows "data_inv t = data_inv s" "backlog t = backlog s" "modulus t = modulus s" "validNR nr t = validNR nr s"
    "acked_bytes nr t = acked_bytes nr s" "cfg_ok t = cfg_ok s" "seq_ok t = seq_ok s" "outstanding t = outstanding s"
proof -
  show m: "modulus t = modulus s" using assms by (intro modulus_cong) (simp add: same_data_def)
  show "data_inv t = data_inv s" using assms by (intro data_inv_cong) (simp_all add: same_data_def)
  show "backlog t = backlog s" using assms by (intro backlog_cong) (simp_all add: same_data_def)
  show "validNR nr t = validNR nr s" using assms m by (simp add: validNR_def same_data_def)
  show "acked_bytes nr t = acked_bytes nr s" using assms by (intro acked_bytes_cong) (simp_all add: same_data_def)
  show "cfg_ok t = cfg_ok s" using assms by (intro cfg_ok_cong) (simp_all add: same_data_def)
  show "seq_ok t = seq_ok s" using assms by (intro seq_ok_cong) (simp_all add: same_data_def)
  show "outstanding t = outstanding s" using assms m by (intro outstanding_cong) (simp_all add: same_data_def)
qed

lemma delivered_setters [session_simps]:
  "delivered (t1_stop s) = delivered s" "delivered (t2_stop s) = delivered s" "delivered (t3_stop s) = delivered s"
  "delivered (t2_reset s) = delivered s" "delivered (t3_reset s) = delivered s"
  "delivered (setv g s) = delivered s"
  by (simp_all add: delivered_def session_defs)

lemma same_data_setters:
  "same_data s (t1_stop s)" "same_data s (t2_stop s)" "same_data s (t3_stop s)" "same_data s (set_n2count n s)"
  "same_data s (clear_cond c s)" "same_data s (set_cond c s)" "same_data s (t3_reset s)" "same_data s (rx_busy f s)"
  by (auto simp: same_data_def session_defs delivered_def rx_busy_def)

lemma same_data_ops:
  "same_data s s" "same_data s (answer_poll e f s)" "same_data s (flush_ack e s)"
  "same_data s (calcRTT e s)" "same_data s (resetT1 e s)" "same_data s (sendRROrRNR e a b s)"
  by (simp_all add: same_data_def answer_poll_fields flush_ack_fields session_simps)

lemma same_data_transmitEnquiry: "same_data s (transmitEnquiry e s)"
  unfolding transmitEnquiry_def by (blast intro: same_data_trans same_data_setters same_data_ops)

lemmas same_data_intros = same_data_setters same_data_ops same_data_transmitEnquiry

text \<open>An acknowledgement on a session that differs from \<open>s\<close> only outside the data phase.\<close>

lemma ack_step:
  assumes "data_inv s" "same_data s t" "nr < modulus s" "validNR nr s"
  obtains u where "framesAcked e nr t = Some u" "data_inv u" "sState u = sState s" "sCfg u = sCfg s"
    "backlog s = acked_bytes nr s @ backlog u" "delivered u = delivered s" "sTerminated u = sTerminated s"
    "vVR (sV u) = vVR (sV s)" "vCond (sV u) = vCond (sV t)" "vN2Count (sV u) = vN2Count (sV t)"
    "vVS (sV u) = vVA (sV u) \<Longrightarrow> tmOn (sT3 u)" "vVS (sV u) \<noteq> vVA (sV u) \<Longrightarrow> tmOn (sT1 u)"
proof -
  note v = same_data_views[OF assms(2)]
  have sq: "seq_ok t" using assms(1) v by (simp add: data_inv_def)
  have nr: "nr < modulus t" "validNR nr t" using assms v by simp_all
  from framesAcked_spec[OF sq nr(1), of e] obtain u where u: "framesAcked e nr t = Some u"
    "sCfg u = sCfg t" "sState u = sState t" "sTerminated u = sTerminated t" "sOut u = sOut t"
    "vVS (sV u) = vVS (sV t)" "vVR (sV u) = vVR (sV t)" "vVA (sV u) = nr" "vCond (sV u) = vCond (sV t)"
    "vN2Count (sV u) = vN2Count (sV t)" "vVS (sV t) = nr \<longrightarrow> tmOn (sT3 u)" "vVS (sV t) \<noteq> nr \<longrightarrow> tmOn (sT1 u)"
    by metis
  show ?thesis
  proof (rule that[OF u(1)])
    show "data_inv u" using framesAcked_data_inv[OF _ nr u(1)] assms(1) v by simp
    show "backlog s = acked_bytes nr s @ backlog u" using framesAcked_backlog(1)[OF sq nr u(1)] v by simp
    show "delivered u = delivered s"
      using delivered_cong[OF u(5)] assms(2) by (simp add: same_data_def)
  qed (use u assms(2) in \<open>auto simp: same_data_def\<close>)
qed

lemma session_inv_data:
  assumes "data_inv u" "data_state (sState u)" "0 \<le> vN2Count (sV u)" "\<not> sTerminated u"
    "vVS (sV u) = vVA (sV u) \<Longrightarrow> tmOn (sT3 u)" "vVS (sV u) \<noteq> vVA (sV u) \<Longrightarrow> tmOn (sT1 u)"
  shows "session_inv p1 p3 u"
  using assms by (auto simp: session_inv_def timer_inv_def data_state_def data_inv_def)

lemma session_inv_establish:
  assumes "session_inv p1 p3 s" "same_data s t" "data_state (sState s)"
  shows "session_inv p1 p3 (establishDataLink e t)"
proof -
  have "\<not> sTerminated t" using assms by (auto simp: session_inv_def data_state_def same_data_def)
  moreover have "cfg_ok (establishDataLink e t) = cfg_ok t" by (intro cfg_ok_cong establish_fields)
  moreover have "cfg_ok t" using assms same_data_views(6)[OF assms(2)] by (simp add: session_inv_def)
  ultimately show ?thesis
    by (simp add: session_inv_def timer_inv_def data_state_def establish_fields establish_terminated)
qed

lemma rx_deliver_data_inv: "data_inv s \<Longrightarrow> data_inv (rx_deliver e f s)"
proof -
  assume a: "data_inv s"
  have m: "modulus (rx_deliver e f s) = modulus s" by (intro modulus_cong) (simp add: rx_deliver_fields)
  have o: "outstanding (rx_deliver e f s) = outstanding s" using m by (intro outstanding_cong) (simp_all add: rx_deliver_fields)
  have sl: "slot_ok (rx_deliver e f s) = slot_ok s" by (intro ext slot_ok_cong) (simp_all add: rx_deliver_fields)
  have "seq_ok (rx_deliver e f s)"
    using a seq_succ_less[OF seq_mod_modulus[of s], of "vVR (sV s)"]
    by (auto simp: seq_ok_def m rx_deliver_fields rx_deliver_receive data_inv_def)
  then show ?thesis
    using a by (simp add: data_inv_def m o sl window_seqs_def rx_deliver_fields cfg_ok_cong[OF rx_deliver_fields(1)])
qed

lemma rx_deliver_backlog: "backlog (rx_deliver e f s) = backlog s"
  by (intro backlog_cong) (simp_all add: rx_deliver_fields)

section \<open>Received frames\<close>

definition flow_session :: "rx_flow \<Rightarrow> session" where
  "flow_session fl = (case fl of Return s \<Rightarrow> s | FallThrough s \<Rightarrow> s)"

lemma flow_session_simps [simp]: "flow_session (Return s) = s" "flow_session (FallThrough s) = s"
  by (simp_all add: flow_session_def)

text \<open>What a frame acknowledges and delivers in a data state.\<close>

definition rx_acked :: "lframe \<Rightarrow> session \<Rightarrow> bytes" where
  "rx_acked f s =
     (if cKind (lfControl f) \<in> {FrameI, FrameRR, FrameRNR, FrameREJ} then acked_bytes (cNR (lfControl f)) s else [])"

definition rx_delivers :: "lframe \<Rightarrow> session \<Rightarrow> bool" where
  "rx_delivers f s \<longleftrightarrow> cKind (lfControl f) = FrameI \<and> validNR (cNR (lfControl f)) s \<and> rx_accepts f s"

definition rx_data :: "lframe \<Rightarrow> session \<Rightarrow> bytes" where
  "rx_data f s = (if rx_delivers f s then lfInfo f else [])"

text \<open>Unless the link is reset, the receive variable counts what was delivered.\<close>

definition vr_outcome :: "bool \<Rightarrow> session \<Rightarrow> session \<Rightarrow> bool" where
  "vr_outcome acc s t \<longleftrightarrow> sCfg t = sCfg s
     \<and> vVR (sV t) = (if acc then (vVR (sV s) + 1) mod modulus s else vVR (sV s))"

text \<open>The outcome of a received frame, for the two data states alike.\<close>

definition rx_outcome :: "bool \<Rightarrow> bool \<Rightarrow> lframe \<Rightarrow> session \<Rightarrow> rx_flow \<Rightarrow> bool" where
  "rx_outcome p1 p3 f s fl \<longleftrightarrow>
     session_inv p1 p3 (flow_session fl)
     \<and> delivered (flow_session fl) = delivered s @ rx_data f s
     \<and> (data_state (sState (flow_session fl)) \<longrightarrow> backlog s = rx_acked f s @ backlog (flow_session fl))
     \<and> (cKind (lfControl f) \<notin> {FrameSABM, FrameSABME} \<longrightarrow> data_state (sState (flow_session fl))
          \<longrightarrow> vr_outcome (rx_delivers f s) s (flow_session fl))
     \<and> (case fl of FallThrough t \<Rightarrow> data_state (sState t) | Return t \<Rightarrow> \<not> data_state (sState t))"

lemma rx_outcome_establish:
  assumes "session_inv p1 p3 s" "data_state (sState s)" "same_data s t" "rx_data f s = []"
  shows "rx_outcome p1 p3 f s (Return (establishDataLink e t))"
  using session_inv_establish[OF assms(1,3,2)] assms(3,4)
  by (simp add: rx_outcome_def establish_fields data_state_def same_data_def)

lemma rx_outcome_fall:
  assumes "session_inv p1 p3 t" "data_state (sState t)" "delivered t = delivered s @ rx_data f s"
    "backlog s = rx_acked f s @ backlog t"
    "cKind (lfControl f) \<notin> {FrameSABM, FrameSABME} \<Longrightarrow> vr_outcome (rx_delivers f s) s t"
  shows "rx_outcome p1 p3 f s (FallThrough t)"
  using assms by (simp add: rx_outcome_def)

lemma rx_outcome_ignore:
  assumes "session_inv p1 p3 s" "data_state (sState s)"
    "cKind (lfControl f) \<notin> {FrameI, FrameRR, FrameRNR, FrameREJ}"
  shows "rx_outcome p1 p3 f s (FallThrough s)"
  using assms by (intro rx_outcome_fall) (auto simp: rx_data_def rx_acked_def rx_delivers_def vr_outcome_def)

lemma rx_outcome_disconnect:
  assumes "session_inv p1 p3 s" "cKind (lfControl f) \<noteq> FrameI"
  shows "rx_outcome p1 p3 f s (Return (rx_disc e f s))" "rx_outcome p1 p3 f s (Return (rx_dm s))"
proof -
  have "cfg_ok (rx_disc e f s)" "cfg_ok (rx_dm s)"
    using assms(1) cfg_ok_cong[of "rx_disc e f s" s] cfg_ok_cong[of "rx_dm s" s]
    by (simp_all add: session_inv_def rx_disc_def rx_dm_def session_simps session_defs dropQueues_def stopAllTimers_def)
  moreover have "sState (rx_disc e f s) = StDisconnected" "sState (rx_dm s) = StDisconnected"
    "delivered (rx_disc e f s) = delivered s" "delivered (rx_dm s) = delivered s"
    "sV (rx_disc e f s) = sV s" "sV (rx_dm s) = sV s"
    by (simp_all add: rx_disc_def rx_dm_def session_simps delivered_emit dropQueues_def stopAllTimers_def delivered_def
        session_defs delivered_setState[unfolded delivered_def] delivered_ops[unfolded delivered_def])
  ultimately show "rx_outcome p1 p3 f s (Return (rx_disc e f s))" "rx_outcome p1 p3 f s (Return (rx_dm s))"
    using assms by (simp_all add: rx_outcome_def session_inv_def data_state_def timer_inv_def rx_data_def rx_delivers_def)
qed

text \<open>
  \<^verbatim>\<open>rx_rebind\<close> switches the modulus before it requeues, so it is only sound for a frame that
  keeps the modulus, or when nothing is outstanding (\<open>rebind_hangs\<close> shows the other case).
\<close>

definition rebind_safe :: "lframe \<Rightarrow> session \<Rightarrow> bool" where
  "rebind_safe f s \<longleftrightarrow>
     (lfIsCommand f \<and> cKind (lfControl f) \<in> {FrameSABM, FrameSABME}
        \<longrightarrow> (cKind (lfControl f) = FrameSABME \<longleftrightarrow> scMod128 (sCfg s)) \<or> vVS (sV s) = vVA (sV s))"

lemma requeue_empty:
  assumes "vVS (sV s) = vVA (sV s)" shows "requeueFromVA s = Some s"
  using assms by (subst requeueFromVA_def, subst requeue_loop.simps) (simp add: setv_def)

definition rebind_base :: "lframe \<Rightarrow> session \<Rightarrow> session" where
  "rebind_base f s =
     (let s = setMod128 (cKind (lfControl f) = FrameSABME) s
      in set_window (if scMod128 (sCfg s) then DefaultWindowMod128 else DefaultWindowMod8) s)"

lemma rebind_base_fields:
  "scMod128 (sCfg (rebind_base f s)) = (cKind (lfControl f) = FrameSABME)"
  "scPaclen (sCfg (rebind_base f s)) = scPaclen (sCfg s)"
  "scWindow (sCfg (rebind_base f s)) = (if cKind (lfControl f) = FrameSABME then 32 else 2)"
  "sV (rebind_base f s) = sV s" "sState (rebind_base f s) = sState s" "sPending (rebind_base f s) = sPending s"
  "sTxBuf (rebind_base f s) = sTxBuf s" "sTerminated (rebind_base f s) = sTerminated s" "sOut (rebind_base f s) = sOut s"
  by (simp_all add: rebind_base_def setMod128_def set_window_def DefaultWindowMod128_def DefaultWindowMod8_def)

lemma rebind_requeue:
  assumes "seq_ok s" "(cKind (lfControl f) = FrameSABME \<longleftrightarrow> scMod128 (sCfg s)) \<or> vVS (sV s) = vVA (sV s)"
  obtains u where "requeueFromVA (rebind_base f s) = Some u" "sCfg u = sCfg (rebind_base f s)"
    "sState u = sState s" "sTxBuf u = backlog s" "sOut u = sOut s" "sTerminated u = sTerminated s"
proof (cases "vVS (sV s) = vVA (sV s)")
  case True
  then show ?thesis
    using requeue_empty[of "rebind_base f s"]
    by (intro that[of "rebind_base f s"]) (simp_all add: rebind_base_fields backlog_def)
next
  case False
  then have m: "scMod128 (sCfg (rebind_base f s)) = scMod128 (sCfg s)" using assms(2) by (simp add: rebind_base_fields)
  have sq: "seq_ok (rebind_base f s)" using assms(1) seq_ok_cong[OF m] by (simp add: rebind_base_fields)
  obtain u where u: "requeueFromVA (rebind_base f s) = Some u" using requeueFromVA_eq[OF sq] by blast
  have "backlog (rebind_base f s) = backlog s" by (intro backlog_cong[OF m]) (simp_all add: rebind_base_fields)
  then show ?thesis
    using requeue_fields[OF sq u] by (intro that[OF u]) (simp_all add: rebind_base_fields)
qed

lemma rx_rebind_step:
  assumes "session_inv p1 p3 s" "data_state (sState s)"
    "(cKind (lfControl f) = FrameSABME \<longleftrightarrow> scMod128 (sCfg s)) \<or> vVS (sV s) = vVA (sV s)"
  obtains u where "rx_rebind e f s = Some u" "data_inv u" "sState u = sState s" "backlog u = backlog s"
    "delivered u = delivered s" "sTerminated u = sTerminated s" "vN2Count (sV u) = 0" "tmOn (sT3 u)"
    "vVS (sV u) = 0" "vVA (sV u) = 0" "vVR (sV u) = 0"
proof -
  have sq: "seq_ok s" and c: "cfg_ok s" using assms by (simp_all add: session_inv_def data_inv_def)
  obtain u where u: "requeueFromVA (rebind_base f s) = Some u" "sCfg u = sCfg (rebind_base f s)"
    "sState u = sState s" "sTxBuf u = backlog s" "sOut u = sOut s" "sTerminated u = sTerminated s"
    by (rule rebind_requeue[OF sq assms(3)])
  define w where "w = sendUA e (cPF (lfControl f)) (t3_reset (t2_stop (t1_stop
     (setv (\<lambda>v. v\<lparr>vN2Count := 0, vCond := 0\<rparr>) (zero_seq u)))))"
  have r: "rx_rebind e f s = Some w"
    using u(1) unfolding rx_rebind_def requeueAllPending_def rebind_base_def w_def by (simp add: Let_def)
  have w: "sCfg w = sCfg u" "sState w = sState u" "sTxBuf w = sTxBuf u" "delivered w = delivered u"
    "sTerminated w = sTerminated u" "vN2Count (sV w) = 0" "tmOn (sT3 w)" "vVS (sV w) = 0" "vVA (sV w) = 0" "vVR (sV w) = 0"
    by (simp_all add: w_def session_simps session_defs timer_reset_to_def delivered_def delivered_ops[unfolded delivered_def])
  have o: "outstanding w = 0" using w by simp
  have cw: "cfg_ok w" using c u(2) w(1) by (simp add: cfg_ok_def rebind_base_fields modulus_def)
  have "data_inv w"
    using o cw w(8-10) by (auto simp: data_inv_def window_seqs_def seq_ok_def cfg_ok_def modulus_def)
  moreover have "backlog w = backlog s" using o w(3) u(4) by (simp add: backlog_def[of w])
  moreover have "delivered w = delivered s" using delivered_cong[OF u(5)] w(4) by simp
  ultimately show ?thesis using u w by (intro that[OF r]) simp_all
qed

lemma rx_outcome_rebind:
  assumes "session_inv p1 p3 s" "data_state (sState s)"
    "(cKind (lfControl f) = FrameSABME \<longleftrightarrow> scMod128 (sCfg s)) \<or> vVS (sV s) = vVA (sV s)"
    "cKind (lfControl f) \<in> {FrameSABM, FrameSABME}"
  obtains u where "rx_rebind e f s = Some u" "rx_outcome p1 p3 f s (FallThrough u)"
    "rx_outcome p1 p3 f s (FallThrough (setState StConnected u))"
proof -
  obtain u where u: "rx_rebind e f s = Some u" "data_inv u" "sState u = sState s" "backlog u = backlog s"
    "delivered u = delivered s" "sTerminated u = sTerminated s" "vN2Count (sV u) = 0" "tmOn (sT3 u)"
    "vVS (sV u) = 0" "vVA (sV u) = 0"
    by (rule rx_rebind_step[OF assms(1-3)]) blast
  have nt: "\<not> sTerminated u" using u(6) assms(1,2) by (auto simp: session_inv_def data_state_def)
  let ?c = "setState StConnected u"
  have c: "data_inv ?c" "backlog ?c = backlog u" "delivered ?c = delivered u" "\<not> sTerminated ?c"
    using u(2) nt data_inv_cong[of ?c u] backlog_cong[of ?c u]
    by (simp_all add: session_simps setState_terminated)
  have no: "rx_acked f s = []" "rx_data f s = []" using assms(4) by (auto simp: rx_acked_def rx_data_def rx_delivers_def)
  have "rx_outcome p1 p3 f s (FallThrough u)"
    using u nt no assms(2,4) by (intro rx_outcome_fall session_inv_data) auto
  moreover have "rx_outcome p1 p3 f s (FallThrough ?c)"
    using u c nt no assms(4) by (intro rx_outcome_fall session_inv_data) (auto simp: session_simps data_state_def)
  ultimately show ?thesis by (rule that[OF u(1)])
qed

text \<open>The supervisory frames: an acknowledgement, perhaps a requeue, perhaps the end of recovery.\<close>

lemma session_inv_setState_connected:
  assumes "data_inv u" "0 \<le> vN2Count (sV u)" "\<not> sTerminated u" "tmOn (sT3 u)" "vVS (sV u) = vVA (sV u)"
  shows "session_inv p1 p3 (setState StConnected u)"
  using assms data_inv_cong[of "setState StConnected u" u]
  by (intro session_inv_data) (simp_all add: session_simps data_state_def setState_terminated)

lemma recovered_outcome:
  assumes "rx_outcome p1 p3 f s (FallThrough u)" "vVS (sV u) = vVA (sV u) \<Longrightarrow> data_inv u"
  shows "rx_outcome p1 p3 f s (FallThrough (recovered u))"
proof (cases "vVS (sV u) = vVA (sV u)")
  case True
  let ?t = "t3_reset u"
  have t: "data_inv ?t" "0 \<le> vN2Count (sV ?t)" "\<not> sTerminated ?t" "tmOn (sT3 ?t)" "vVS (sV ?t) = vVA (sV ?t)"
    "backlog ?t = backlog u" "delivered ?t = delivered u"
    using assms True same_data_views(1,2)[OF same_data_setters(7)[of u]]
    by (auto simp: rx_outcome_def session_inv_def data_state_def t3_reset_def timer_reset_to_def delivered_def)
  have "backlog (setState StConnected ?t) = backlog ?t" by (intro backlog_cong) (simp_all add: session_simps)
  moreover have "vr_outcome b s (setState StConnected ?t) = vr_outcome b s u" for b
    by (simp add: vr_outcome_def session_simps t3_reset_def)
  ultimately show ?thesis
    using assms(1) True t session_inv_setState_connected[OF t(1-5), of p1 p3]
    by (auto simp: recovered_def rx_outcome_def session_simps data_state_def)
qed (use assms in \<open>simp add: recovered_def\<close>)

lemma ack_outcome:
  assumes "session_inv p1 p3 s" "data_state (sState s)" "same_data s t" "cNR (lfControl f) < modulus s"
    "validNR (cNR (lfControl f)) s" "cKind (lfControl f) \<in> {FrameRR, FrameRNR, FrameREJ}" "0 \<le> vN2Count (sV t)"
  obtains u where "framesAcked e (cNR (lfControl f)) t = Some u" "data_inv u" "sState u = sState s"
    "rx_outcome p1 p3 f s (FallThrough u)" "rx_outcome p1 p3 f s (FallThrough (recovered u))"
proof -
  have inv: "data_inv s" and nt: "\<not> sTerminated s" using assms(1,2) by (auto simp: session_inv_def data_state_def)
  obtain u where u: "framesAcked e (cNR (lfControl f)) t = Some u" "data_inv u" "sState u = sState s"
    "backlog s = acked_bytes (cNR (lfControl f)) s @ backlog u" "delivered u = delivered s"
    "sTerminated u = sTerminated s" "vN2Count (sV u) = vN2Count (sV t)" "sCfg u = sCfg s" "vVR (sV u) = vVR (sV s)"
    "vVS (sV u) = vVA (sV u) \<Longrightarrow> tmOn (sT3 u)" "vVS (sV u) \<noteq> vVA (sV u) \<Longrightarrow> tmOn (sT1 u)"
    using ack_step[OF inv assms(3-5), of e] by metis
  have "rx_outcome p1 p3 f s (FallThrough u)"
  proof (rule rx_outcome_fall)
    show "session_inv p1 p3 u" using u nt assms(2,7) by (intro session_inv_data) simp_all
  qed (use u assms(2,6) in \<open>auto simp: rx_acked_def rx_data_def rx_delivers_def vr_outcome_def\<close>)
  then show ?thesis using u recovered_outcome[of p1 p3 f s u] by (intro that[of u]) simp_all
qed

lemma requeue_outcome:
  assumes "rx_outcome p1 p3 f s (FallThrough u)" "data_inv u"
  obtains v where "requeueFromVA u = Some v"
    "rx_outcome p1 p3 f s (FallThrough (t3_reset (calcRTT e (t1_stop v))))"
    "sState u = StTimerRecovery \<Longrightarrow> rx_outcome p1 p3 f s (FallThrough v)"
    "sState u = StTimerRecovery \<Longrightarrow> rx_outcome p1 p3 f s (FallThrough (recovered v))"
proof -
  have sq: "seq_ok u" using assms(2) by (simp add: data_inv_def)
  obtain v where v: "requeueFromVA u = Some v" using requeueFromVA_eq[OF sq] by blast
  note f = requeue_fields[OF sq v]
  have b: "backlog v = backlog u" by (rule requeue_backlog[OF sq v])
  have i: "data_inv v" by (rule requeue_data_inv[OF assms(2) v])
  have d: "delivered v = delivered u" by (rule delivered_cong) (rule f)
  let ?w = "t3_reset (calcRTT e (t1_stop v))"
  have sd: "same_data v ?w"
    by (rule same_data_trans[OF same_data_setters(1) same_data_trans[OF same_data_ops(4) same_data_setters(7)]])
  have tr: "rx_outcome p1 p3 f s (FallThrough v)" if "sState u = StTimerRecovery"
    using assms(1) f b d i that
    by (auto simp: rx_outcome_def session_inv_def timer_inv_def data_state_def data_inv_def vr_outcome_def)
  have s1: "data_state (sState u)" "0 \<le> vN2Count (sV u)" "\<not> sTerminated u"
    using assms(1) by (auto simp: rx_outcome_def session_inv_def data_state_def)
  have s2: "vN2Count (sV ?w) = vN2Count (sV v)" "tmOn (sT3 ?w)"
    "vVS (sV ?w) = vVS (sV v)" "vVA (sV ?w) = vVA (sV v)" "sState ?w = sState v" "sTerminated ?w = sTerminated v"
    by (simp_all add: t3_reset_def timer_reset_to_def session_simps) (simp_all add: t1_stop_def)
  have "data_inv ?w" using i same_data_views(1)[OF sd] by simp
  then have "session_inv p1 p3 ?w" using s1 s2 f by (intro session_inv_data) simp_all
  moreover have "sState ?w = sState u" "delivered ?w = delivered u" "backlog ?w = backlog u"
    using sd f d b same_data_views(2)[OF sd] by (simp_all add: same_data_def)
  moreover have "vr_outcome x s ?w = vr_outcome x s u" for x
    using sd f(1,10) by (simp add: same_data_def vr_outcome_def)
  ultimately have "rx_outcome p1 p3 f s (FallThrough ?w)"
    using assms(1) by (simp add: rx_outcome_def)
  then show ?thesis using tr recovered_outcome[OF tr] i by (intro that[OF v]) simp_all
qed

lemma deliver_outcome:
  assumes "session_inv p1 p3 s" "data_state (sState s)" "cNR (lfControl f) < modulus s"
    "validNR (cNR (lfControl f)) s" "cKind (lfControl f) = FrameI"
  obtains u where "framesAcked e (cNR (lfControl f)) s = Some u"
    "rx_outcome p1 p3 f s (FallThrough (rx_deliver e f u))"
proof -
  have inv: "data_inv s" and nt: "\<not> sTerminated s" using assms(1,2) by (auto simp: session_inv_def data_state_def)
  obtain u where u: "framesAcked e (cNR (lfControl f)) s = Some u" "data_inv u" "sState u = sState s" "sCfg u = sCfg s"
    "backlog s = acked_bytes (cNR (lfControl f)) s @ backlog u" "delivered u = delivered s"
    "sTerminated u = sTerminated s" "vVR (sV u) = vVR (sV s)" "vCond (sV u) = vCond (sV s)" "vN2Count (sV u) = vN2Count (sV s)"
    "vVS (sV u) = vVA (sV u) \<Longrightarrow> tmOn (sT3 u)" "vVS (sV u) \<noteq> vVA (sV u) \<Longrightarrow> tmOn (sT1 u)"
    using ack_step[OF inv same_data_ops(1) assms(3,4), of e] by metis
  have acc: "rx_accepts f u = rx_accepts f s" using u by (simp add: rx_accepts_def)
  have "rx_outcome p1 p3 f s (FallThrough (rx_deliver e f u))"
  proof (rule rx_outcome_fall)
    show "session_inv p1 p3 (rx_deliver e f u)"
      using u nt assms(1,2) rx_deliver_data_inv[OF u(2)]
      by (intro session_inv_data) (simp_all add: rx_deliver_fields session_inv_def)
  qed (use u assms(2,4,5) acc in \<open>auto simp: rx_acked_def rx_data_def rx_delivers_def vr_outcome_def modulus_def
      rx_deliver_fields rx_deliver_receive rx_deliver_backlog\<close>)
  then show ?thesis by (rule that[OF u(1)])
qed

lemma rx_data_no_iframe: "cKind (lfControl f) \<noteq> FrameI \<Longrightarrow> rx_data f s = []"
  by (simp add: rx_data_def rx_delivers_def)

lemma rx_data_invalid: "\<not> validNR (cNR (lfControl f)) s \<Longrightarrow> rx_data f s = []"
  by (simp add: rx_data_def rx_delivers_def)

lemma rx_connected_spec:
  assumes "session_inv p1 p3 s" "data_state (sState s)" "cNR (lfControl f) < modulus s" "rebind_safe f s"
  shows "\<exists>fl. rx_connected e f s = Some fl \<and> rx_outcome p1 p3 f s fl"
proof -
  let ?nr = "cNR (lfControl f)"
  let ?k = "cKind (lfControl f)"
  note est = rx_outcome_establish[OF assms(1,2)]
  have busy: "same_data s (answer_poll e f (rx_busy f s))"
    by (rule same_data_trans[OF same_data_setters(8) same_data_ops(2)])
  have clr: "same_data s (answer_poll e f (clear_cond CondPeerRxBusy s))"
    by (rule same_data_trans[OF same_data_setters(5) same_data_ops(2)])
  have n2: "0 \<le> vN2Count (sV (answer_poll e f (rx_busy f s)))"
    "0 \<le> vN2Count (sV (answer_poll e f (clear_cond CondPeerRxBusy s)))"
    using assms(1) by (simp_all add: session_inv_def answer_poll_fields rx_busy_fields session_defs)
  have v: "validNR ?nr (rx_busy f s) = validNR ?nr s" "validNR ?nr (clear_cond CondPeerRxBusy s) = validNR ?nr s"
    by (rule same_data_views(4), rule same_data_setters)+
  consider "?k \<in> {FrameSABM, FrameSABME}" | "?k = FrameDISC" | "?k = FrameDM" | "?k \<in> {FrameRR, FrameRNR}"
    | "?k = FrameREJ" | "?k = FrameI" | "?k \<notin> {FrameSABM, FrameSABME, FrameDISC, FrameDM, FrameRR, FrameRNR, FrameREJ, FrameI}"
    by blast
  then show ?thesis
  proof cases
    case 1
    show ?thesis
    proof (cases "lfIsCommand f")
      case True
      then show ?thesis
        using 1 rx_outcome_rebind[OF assms(1,2) _ 1, of e] assms(4)
        by (force simp: rx_connected_def rebind_safe_def Let_def)
    qed (use 1 rx_outcome_ignore[OF assms(1,2), of f] in \<open>auto simp: rx_connected_def Let_def\<close>)
  next
    case 2
    then show ?thesis
      using rx_outcome_ignore[OF assms(1,2), of f] rx_outcome_disconnect[OF assms(1)]
      by (simp add: rx_connected_def Let_def)
  next
    case 3
    then show ?thesis using rx_outcome_disconnect[OF assms(1)] by (simp add: rx_connected_def Let_def)
  next
    case 4
    show ?thesis
    proof (cases "validNR ?nr s")
      case True
      then show ?thesis
        using 4 ack_outcome[OF assms(1,2) busy assms(3) True _ n2(1), of e] v
        by (force simp: rx_connected_def Let_def)
    next
      case False
      then show ?thesis
        using 4 est[OF same_data_setters(8)] v rx_data_invalid
        by (auto simp: rx_connected_def Let_def)
    qed
  next
    case 5
    show ?thesis
    proof (cases "validNR ?nr s")
      case True
      obtain u where u: "framesAcked e ?nr (answer_poll e f (clear_cond CondPeerRxBusy s)) = Some u" "data_inv u"
        "rx_outcome p1 p3 f s (FallThrough u)"
        using 5 ack_outcome[OF assms(1,2) clr assms(3) True _ n2(2), of e] by blast
      show ?thesis
        using 5 True u requeue_outcome[OF u(3,2), of e] v
        by (force simp: rx_connected_def Let_def)
    next
      case False
      then show ?thesis
        using 5 est[OF same_data_setters(5)] v rx_data_invalid
        by (auto simp: rx_connected_def Let_def)
    qed
  next
    case 6
    show ?thesis
    proof (cases "validNR ?nr s")
      case True
      then show ?thesis
        using 6 deliver_outcome[OF assms(1-3) True 6, of e] by (force simp: rx_connected_def Let_def)
    next
      case False
      then show ?thesis
        using 6 est[OF same_data_ops(1)] rx_data_invalid by (auto simp: rx_connected_def Let_def)
    qed
  next
    case 7
    then have "rx_connected e f s = Some (Return (establishDataLink e s))"
      by (cases ?k) (simp_all add: rx_connected_def Let_def)
    then show ?thesis using 7 est[OF same_data_ops(1)] rx_data_no_iframe by auto
  qed
qed

text \<open>The two ways of answering a supervisory frame in timer recovery.\<close>

lemma supervisory_variants:
  assumes "same_data s t" "0 \<le> vN2Count (sV t)"
  shows "same_data s (answer_poll e f t)" "same_data s (set_n2count 0 (t1_stop t))"
    "0 \<le> vN2Count (sV (answer_poll e f t))" "0 \<le> vN2Count (sV (set_n2count 0 (t1_stop t)))"
  using assms same_data_trans[OF assms(1) same_data_ops(2)]
    same_data_trans[OF assms(1) same_data_trans[OF same_data_setters(1) same_data_setters(4)]]
  by (simp_all add: answer_poll_fields session_defs)

lemma rx_timer_recovery_spec:
  assumes "session_inv p1 p3 s" "sState s = StTimerRecovery" "cNR (lfControl f) < modulus s" "rebind_safe f s"
  shows "\<exists>fl. rx_timer_recovery e f s = Some fl \<and> rx_outcome p1 p3 f s fl"
proof -
  let ?nr = "cNR (lfControl f)"
  let ?k = "cKind (lfControl f)"
  have ds: "data_state (sState s)" using assms(2) by (simp add: data_state_def)
  note est = rx_outcome_establish[OF assms(1) ds]
  note ack = ack_outcome[OF assms(1) ds _ assms(3)]
  have n2: "0 \<le> vN2Count (sV (rx_busy f s))" "0 \<le> vN2Count (sV (clear_cond CondPeerRxBusy s))"
    using assms(1) by (simp_all add: session_inv_def rx_busy_fields session_defs)
  note busy = supervisory_variants[OF same_data_setters(8) n2(1)]
  note clr = supervisory_variants[OF same_data_setters(5) n2(2)]
  have v: "validNR ?nr (rx_busy f s) = validNR ?nr s" "validNR ?nr (clear_cond CondPeerRxBusy s) = validNR ?nr s"
    by (rule same_data_views(4), rule same_data_setters)+
  consider "?k \<in> {FrameSABM, FrameSABME}" | "?k = FrameDISC" | "?k = FrameDM" | "?k \<in> {FrameRR, FrameRNR}"
    | "?k = FrameREJ" | "?k = FrameI" | "?k \<notin> {FrameSABM, FrameSABME, FrameDISC, FrameDM, FrameRR, FrameRNR, FrameREJ, FrameI}"
    by blast
  then show ?thesis
  proof cases
    case 1
    show ?thesis
    proof (cases "lfIsCommand f")
      case True
      then show ?thesis
        using 1 rx_outcome_rebind[OF assms(1) ds _ 1, of e] assms(4)
        by (force simp: rx_timer_recovery_def rebind_safe_def Let_def)
    qed (use 1 rx_outcome_ignore[OF assms(1) ds, of f] in \<open>auto simp: rx_timer_recovery_def Let_def\<close>)
  next
    case 2
    then show ?thesis
      using rx_outcome_ignore[OF assms(1) ds, of f] rx_outcome_disconnect[OF assms(1)]
      by (simp add: rx_timer_recovery_def Let_def)
  next
    case 3
    then show ?thesis using rx_outcome_disconnect[OF assms(1)] by (simp add: rx_timer_recovery_def Let_def)
  next
    case 4
    show ?thesis
    proof (cases "validNR ?nr s")
      case True
      have k: "?k \<in> {FrameRR, FrameRNR, FrameREJ}" using 4 by blast
      show ?thesis
      proof (cases "\<not> lfIsCommand f \<and> cPF (lfControl f)")
        case f: True
        obtain u where "framesAcked e ?nr (set_n2count 0 (t1_stop (rx_busy f s))) = Some u"
          "rx_outcome p1 p3 f s (FallThrough (recovered u))"
          using ack[OF busy(2) True k busy(4), of e] by metis
        then show ?thesis using 4 True f v by (auto simp: rx_timer_recovery_def Let_def)
      next
        case f: False
        obtain u where "framesAcked e ?nr (answer_poll e f (rx_busy f s)) = Some u"
          "rx_outcome p1 p3 f s (FallThrough u)"
          using ack[OF busy(1) True k busy(3), of e e] by metis
        then show ?thesis using 4 True f v by (auto simp: rx_timer_recovery_def Let_def)
      qed
    next
      case False
      then show ?thesis
        using 4 est[OF same_data_setters(8)] v rx_data_invalid by (auto simp: rx_timer_recovery_def Let_def)
    qed
  next
    case 5
    show ?thesis
    proof (cases "validNR ?nr s")
      case True
      have k: "?k \<in> {FrameRR, FrameRNR, FrameREJ}" using 5 by blast
      show ?thesis
      proof (cases "\<not> lfIsCommand f \<and> cPF (lfControl f)")
        case f: True
        obtain u where u: "framesAcked e ?nr (set_n2count 0 (t1_stop (clear_cond CondPeerRxBusy s))) = Some u" "data_inv u"
          "sState u = StTimerRecovery" "rx_outcome p1 p3 f s (FallThrough u)"
          using ack[OF clr(2) True k clr(4), of e] assms(2) by metis
        obtain w where "requeueFromVA u = Some w" "rx_outcome p1 p3 f s (FallThrough w)"
          "rx_outcome p1 p3 f s (FallThrough (recovered w))"
          using requeue_outcome[OF u(4,2), of e] u(3) by metis
        then show ?thesis using 5 True f v u(1) by (auto simp: rx_timer_recovery_def Let_def)
      next
        case f: False
        obtain u where u: "framesAcked e ?nr (answer_poll e f (clear_cond CondPeerRxBusy s)) = Some u" "data_inv u"
          "sState u = StTimerRecovery" "rx_outcome p1 p3 f s (FallThrough u)"
          using ack[OF clr(1) True k clr(3), of e e] assms(2) by metis
        obtain w where "requeueFromVA u = Some w" "rx_outcome p1 p3 f s (FallThrough w)"
          "rx_outcome p1 p3 f s (FallThrough (recovered w))"
          using requeue_outcome[OF u(4,2), of e] u(3) by metis
        then show ?thesis using 5 True f v u(1) by (auto simp: rx_timer_recovery_def Let_def)
      qed
    next
      case False
      then show ?thesis
        using 5 est[OF same_data_setters(5)] v rx_data_invalid by (auto simp: rx_timer_recovery_def Let_def)
    qed
  next
    case 6
    show ?thesis
    proof (cases "validNR ?nr s")
      case True
      then show ?thesis
        using 6 deliver_outcome[OF assms(1) ds assms(3) True 6, of e] by (force simp: rx_timer_recovery_def Let_def)
    next
      case False
      then show ?thesis
        using 6 est[OF same_data_ops(1)] rx_data_invalid by (auto simp: rx_timer_recovery_def Let_def)
    qed
  next
    case 7
    then have "rx_timer_recovery e f s = Some (Return (establishDataLink e s))"
      by (cases ?k) (simp_all add: rx_timer_recovery_def Let_def)
    then show ?thesis using 7 est[OF same_data_ops(1)] rx_data_no_iframe by auto
  qed
qed

section \<open>Handlers\<close>

text \<open>The closing \<^verbatim>\<open>kick\<close> of a data-state handler.\<close>

lemma then_kick_spec:
  assumes "session_inv p1 p3 s" "data_state (sState s)"
  obtains u where "then_kick e s = Some (u, True)" "session_inv p1 p3 u" "sState u = sState s"
    "backlog u = backlog s" "delivered u = delivered s" "vVR (sV u) = vVR (sV s)" "sCfg u = sCfg s"
    "vN2Count (sV u) = vN2Count (sV s)" "sTerminated u = sTerminated s"
    "\<not> cond_has (vCond (sV s)) CondPeerRxBusy \<Longrightarrow> sTxBuf u = [] \<or> int (outstanding u) = scWindow (sCfg u)"
proof -
  have inv: "data_inv s" using assms by (simp add: session_inv_def)
  obtain u where u: "kick e s = Some u" "data_inv u" "backlog u = backlog s"
    "sCfg u = sCfg s" "sState u = sState s" "sTerminated u = sTerminated s" "delivered u = delivered s"
    "vVR (sV u) = vVR (sV s)" "vVA (sV u) = vVA (sV s)" "vN2Count (sV u) = vN2Count (sV s)"
    "vVS (sV u) = vVA (sV u) \<Longrightarrow> u = s"
    "(sState s \<noteq> StConnected \<and> sState s \<noteq> StTimerRecovery) \<or> cond_has (vCond (sV s)) CondPeerRxBusy \<Longrightarrow> u = s"
    "sState s = StConnected \<or> sState s = StTimerRecovery \<Longrightarrow> \<not> cond_has (vCond (sV s)) CondPeerRxBusy \<Longrightarrow>
       (vVS (sV u) \<noteq> vVA (sV u) \<longrightarrow> tmOn (sT1 u)) \<and>
       (sTxBuf u = [] \<or> int (outstanding u) = scWindow (sCfg u))"
    by (rule kick_spec[OF inv, of e]) blast
  have ti: "timer_inv p1 p3 u"
  proof (cases "vVS (sV u) = vVA (sV u) \<or> cond_has (vCond (sV s)) CondPeerRxBusy")
    case True
    then have "u = s" using u(11,12) by blast
    then show ?thesis using assms(1) by (simp add: session_inv_def)
  next
    case False
    then have "tmOn (sT1 u)" using u(13) assms(2) by (auto simp: data_state_def)
    then show ?thesis using False u(5) assms(2) by (auto simp: timer_inv_def data_state_def)
  qed
  show ?thesis
  proof (rule that)
    show "then_kick e s = Some (u, True)" by (simp add: then_kick_def u(1))
    show "session_inv p1 p3 u"
      using assms u(2,5,6,10) ti by (auto simp: session_inv_def data_inv_def)
  qed (use u(3-8,10) u(13) assms(2) in \<open>auto simp: data_state_def\<close>)
qed

end
