(* ===== verification/LAPB_Handle.thy ===== *)
theory LAPB_Handle
  imports LAPB_Session
begin

text \<open>
  One event through \<^const>\<open>handle\<close>: the session invariant is kept in every state, no handler
  diverges, and the two streams move exactly as the event says. Over a run of the loop this
  gives the transmit contract (every operator byte is acknowledged once, in order, or still
  owed) and the in-order delivery of received data.
\<close>

section \<open>Field lemmas\<close>

lemma syncOutstanding_fields [session_simps]:
  "sCfg (syncOutstanding s) = sCfg s" "sState (syncOutstanding s) = sState s" "sV (syncOutstanding s) = sV s"
  "sPending (syncOutstanding s) = sPending s" "sTxBuf (syncOutstanding s) = sTxBuf s"
  "sTerminated (syncOutstanding s) = sTerminated s" "sOut (syncOutstanding s) = sOut s"
  "sT1 (syncOutstanding s) = sT1 s" "sT2 (syncOutstanding s) = sT2 s" "sT3 (syncOutstanding s) = sT3 s"
  "sHB (syncOutstanding s) = sHB s" "sSent (syncOutstanding s) = sSent s"
  by (simp_all add: syncOutstanding_def Let_def)

lemma begin_release_fields:
  "sCfg (begin_release e s) = sCfg s" "sState (begin_release e s) = StAwaitingRelease"
  "tmOn (sT1 (begin_release e s))" "vN2Count (sV (begin_release e s)) = 0"
  "sTerminated (begin_release e s) = sTerminated s" "delivered (begin_release e s) = delivered s"
  by (simp_all add: begin_release_def session_simps setState_terminated)
    (simp_all add: t2_stop_def t3_stop_def session_simps set_n2count_def setv_def dropQueues_def delivered_def
      delivered_ops[unfolded delivered_def])

lemma enter_recovery_fields:
  "sCfg (enter_recovery e n s) = sCfg s" "sState (enter_recovery e n s) = StTimerRecovery"
  "tmOn (sT1 (enter_recovery e n s))" "vN2Count (sV (enter_recovery e n s)) = n"
  "sTerminated (enter_recovery e n s) = sTerminated s" "delivered (enter_recovery e n s) = delivered s"
  "sPending (enter_recovery e n s) = sPending s" "sTxBuf (enter_recovery e n s) = sTxBuf s"
  "vVS (sV (enter_recovery e n s)) = vVS (sV s)" "vVR (sV (enter_recovery e n s)) = vVR (sV s)"
  "vVA (sV (enter_recovery e n s)) = vVA (sV s)"
  by (simp_all add: enter_recovery_def session_simps setState_terminated transmitEnquiry_def)
    (simp_all add: t2_stop_def session_simps clear_cond_def set_n2count_def setv_def delivered_def
      delivered_ops[unfolded delivered_def])

lemma heartbeatTick_same: "same_data s (heartbeatTick e s)"
  and heartbeatTick_timers: "sT1 (heartbeatTick e s) = sT1 s" "sT3 (heartbeatTick e s) = sT3 s"
    "vN2Count (sV (heartbeatTick e s)) = vN2Count (sV s)"
  by (simp_all add: heartbeatTick_def rxBufferBelowHalfFull_def hb_reset_def same_data_def session_simps
      clear_cond_def delivered_def delivered_ops[unfolded delivered_def])
    (simp_all add: setv_def)

lemma statsTick_same: "same_data s (statsTick s)"
  and statsTick_timers: "sT1 (statsTick s) = sT1 s" "sT3 (statsTick s) = sT3 s"
    "vN2Count (sV (statsTick s)) = vN2Count (sV s)"
  by (simp_all add: statsTick_def same_data_def Let_def tstats_reset_def mutateStats_def emit_def delivered_def)

lemma session_inv_same:
  assumes "session_inv p1 p3 s" "same_data s t" "sT1 t = sT1 s" "sT3 t = sT3 s" "0 \<le> vN2Count (sV t)"
  shows "session_inv p1 p3 t"
proof -
  have "timer_inv p1 p3 t = timer_inv p1 p3 s"
    using assms(2-4) by (simp add: timer_inv_def same_data_def cong: lapb_state.case_cong)
  then show ?thesis
    using assms same_data_views[OF assms(2)] by (auto simp: session_inv_def same_data_def)
qed

lemma same_data_syncOutstanding: "same_data s (syncOutstanding s)"
  by (simp add: same_data_def session_simps delivered_def)

lemma session_inv_sync: "session_inv p1 p3 s \<Longrightarrow> session_inv p1 p3 (syncOutstanding s)"
  using session_inv_same[OF _ same_data_syncOutstanding, of p1 p3 s]
  by (simp add: session_simps) (simp add: session_inv_def)

lemma delivered_updates [simp]:
  "delivered (s\<lparr>sHB := x1\<rparr>) = delivered s" "delivered (s\<lparr>sV := x2\<rparr>) = delivered s"
  "delivered (s\<lparr>sStats := x3\<rparr>) = delivered s" "delivered (s\<lparr>sT1 := x4\<rparr>) = delivered s"
  "delivered (s\<lparr>sT2 := x5\<rparr>) = delivered s" "delivered (s\<lparr>sT3 := x6\<rparr>) = delivered s"
  "delivered (s\<lparr>sCfg := x7\<rparr>) = delivered s" "delivered (s\<lparr>sCfg := x7, sMod128Bit := x8\<rparr>) = delivered s"
  by (simp_all add: delivered_def)

section \<open>What an event contributes\<close>

text \<open>
  A received frame the run loop can process: its \<open>N(R)\<close> was decoded under the session's
  modulus, and a rebind does not change the modulus under unacknowledged frames.
\<close>

definition ev_ok :: "event \<Rightarrow> session \<Rightarrow> bool" where
  "ev_ok ev s = (case ev of
      EventFrameRX (Some f) \<Rightarrow>
        data_state (sState s) \<longrightarrow> cNR (lfControl f) < modulus s \<and> rebind_safe f s
    | _ \<Rightarrow> True)"

definition ev_accepted :: "event \<Rightarrow> bytes" where
  "ev_accepted ev = (case ev of EventDataTX d \<Rightarrow> d | _ \<Rightarrow> [])"

definition ev_acked :: "event \<Rightarrow> session \<Rightarrow> bytes" where
  "ev_acked ev s = (case ev of EventFrameRX (Some f) \<Rightarrow> rx_acked f s | _ \<Rightarrow> [])"

definition ev_received :: "event \<Rightarrow> session \<Rightarrow> bytes" where
  "ev_received ev s =
     (case ev of EventFrameRX (Some f) \<Rightarrow> (if data_state (sState s) then rx_data f s else []) | _ \<Rightarrow> [])"

text \<open>Whether the event resets the link, and whether it delivers a frame.\<close>

definition ev_resets :: "event \<Rightarrow> bool" where
  "ev_resets ev = (case ev of
      EventFrameRX (Some f) \<Rightarrow> cKind (lfControl f) \<in> {FrameSABM, FrameSABME} | _ \<Rightarrow> False)"

definition ev_delivers :: "event \<Rightarrow> session \<Rightarrow> bool" where
  "ev_delivers ev s = (case ev of EventFrameRX (Some f) \<Rightarrow> rx_delivers f s | _ \<Rightarrow> False)"

definition step_outcome :: "bool \<Rightarrow> bool \<Rightarrow> event \<Rightarrow> session \<Rightarrow> session \<Rightarrow> bool" where
  "step_outcome p1 p3 ev s s' \<longleftrightarrow> session_inv p1 p3 s' \<and> delivered s' = delivered s @ ev_received ev s
     \<and> (data_state (sState s) \<and> data_state (sState s') \<longrightarrow> backlog s @ ev_accepted ev = ev_acked ev s @ backlog s')
     \<and> (data_state (sState s) \<and> data_state (sState s') \<and> \<not> ev_resets ev \<longrightarrow> vr_outcome (ev_delivers ev s) s s')"

lemma step_outcome_kick:
  assumes "session_inv p1 p3 t" "data_state (sState t)" "delivered t = delivered s @ ev_received ev s"
    "backlog s @ ev_accepted ev = ev_acked ev s @ backlog t"
    "\<not> ev_resets ev \<Longrightarrow> vr_outcome (ev_delivers ev s) s t"
  shows "\<exists>s'. then_kick e t = Some (s', True) \<and> step_outcome p1 p3 ev s s'"
proof -
  obtain u where "then_kick e t = Some (u, True)" "session_inv p1 p3 u" "backlog u = backlog t"
    "delivered u = delivered t" "vVR (sV u) = vVR (sV t)" "sCfg u = sCfg t"
    by (rule then_kick_spec[OF assms(1,2), of e]) blast
  then show ?thesis using assms(3-5) by (auto simp: step_outcome_def vr_outcome_def)
qed

lemma step_outcome_flow:
  assumes "rx_outcome p1 p3 f s fl" "data_state (sState s)"
  shows "\<exists>s'. run_flow e fl = Some (s', True) \<and> step_outcome p1 p3 (EventFrameRX (Some f)) s s'"
proof (cases fl)
  case (Return t)
  then show ?thesis
    using assms by (simp add: run_flow_def rx_outcome_def step_outcome_def ev_received_def)
next
  case (FallThrough t)
  then show ?thesis
    using assms step_outcome_kick[of p1 p3 t s "EventFrameRX (Some f)" e]
    by (auto simp: run_flow_def rx_outcome_def ev_received_def ev_accepted_def ev_acked_def ev_resets_def ev_delivers_def)
qed

lemma step_outcome_quiet:
  assumes "session_inv p1 p3 s'" "delivered s' = delivered s" "\<not> data_state (sState s')"
    "ev_received ev s = []"
  shows "step_outcome p1 p3 ev s s'"
  using assms by (simp add: step_outcome_def)

lemma session_inv_clock:
  assumes "session_inv q1 q3 s" "\<not> sTerminated s" "cfg_ok s'" "0 \<le> vN2Count (sV s')" "sTerminated s' = sTerminated s"
    "sState s' \<in> {StAwaitingConnection, StAwaitingRelease}" "tmOn (sT1 s')"
  shows "session_inv p1 p3 s'"
  using assms by (auto simp: session_inv_def timer_inv_def data_state_def)

section \<open>The data states\<close>

text \<open>Events that leave a data state as it is, up to the closing \<^verbatim>\<open>kick\<close>.\<close>

lemma same_data_kick:
  assumes "session_inv p1 p3 s" "data_state (sState s)" "same_data s t" "sT1 t = sT1 s" "sT3 t = sT3 s"
    "0 \<le> vN2Count (sV t)" "ev_received ev s = []" "ev_accepted ev = []" "ev_acked ev s = []" "\<not> ev_delivers ev s"
  shows "\<exists>s'. then_kick e t = Some (s', True) \<and> step_outcome p1 p3 ev s s'"
  using assms session_inv_same[OF assms(1,3-6)] same_data_views(2)[OF assms(3)]
  by (intro step_outcome_kick) (simp_all add: same_data_def vr_outcome_def)

lemma data_tx_kick:
  assumes "session_inv p1 p3 s" "data_state (sState s)"
  shows "\<exists>s'. then_kick e (s\<lparr>sTxBuf := sTxBuf s @ d\<rparr>) = Some (s', True) \<and> step_outcome p1 p3 (EventDataTX d) s s'"
proof (rule step_outcome_kick)
  let ?t = "s\<lparr>sTxBuf := sTxBuf s @ d\<rparr>"
  have v: "modulus ?t = modulus s" "outstanding ?t = outstanding s" by (simp_all add: modulus_def outstanding_def)
  have "data_inv ?t = data_inv s" by (intro data_inv_cong) simp_all
  moreover have "cfg_ok ?t = cfg_ok s" by (intro cfg_ok_cong) simp
  moreover have "timer_inv p1 p3 ?t = timer_inv p1 p3 s" by (simp add: timer_inv_def cong: lapb_state.case_cong)
  ultimately show "session_inv p1 p3 ?t" using assms(1) by (simp add: session_inv_def)
  show "backlog s @ ev_accepted (EventDataTX d) = ev_acked (EventDataTX d) s @ backlog ?t"
    using v by (simp add: ev_accepted_def ev_acked_def backlog_def)
qed (use assms in \<open>simp_all add: ev_received_def delivered_def vr_outcome_def ev_delivers_def\<close>)

lemma release_outcome:
  assumes "session_inv p1 p3 s" "\<not> sTerminated s" "ev_received ev s = []"
  shows "step_outcome p1 p3 ev s (begin_release e s)"
  using assms cfg_ok_cong[OF begin_release_fields(1)[of e s]]
  by (intro step_outcome_quiet session_inv_clock[OF assms(1,2)])
    (simp_all add: begin_release_fields session_inv_def data_state_def)

lemma recovery_outcome:
  assumes "session_inv q1 q3 s" "sState s = StConnected" "0 \<le> n" "ev_received ev s = []" "ev_accepted ev = []" "ev_acked ev s = []"
    "\<not> ev_delivers ev s"
  shows "step_outcome p1 p3 ev s (enter_recovery e n s)"
proof -
  let ?t = "enter_recovery e n s"
  have "data_inv ?t = data_inv s" by (intro data_inv_cong) (simp_all add: enter_recovery_fields)
  moreover have "backlog ?t = backlog s" by (intro backlog_cong) (simp_all add: enter_recovery_fields)
  ultimately show ?thesis
    using assms
    by (auto simp: step_outcome_def session_inv_def timer_inv_def enter_recovery_fields data_state_def data_inv_def
        vr_outcome_def)
qed

lemma onConnected_spec:
  assumes "session_inv (p1 \<or> ev = EventT1Expiry) (p3 \<or> ev = EventT3Expiry) s" "sState s = StConnected" "ev_ok ev s"
  shows "\<exists>s' c. onConnected e ev s = Some (s', c) \<and> step_outcome p1 p3 ev s s' \<and> (c \<longleftrightarrow> ev \<noteq> EventShutdown)"
proof -
  have ds: "data_state (sState s)" using assms(2) by (simp add: data_state_def)
  have nt: "\<not> sTerminated s" and n2: "0 \<le> vN2Count (sV s)"
    using assms(1,2) by (auto simp: session_inv_def)
  show ?thesis
  proof (cases ev)
    case (EventFrameRX fo)
    then have inv: "session_inv p1 p3 s" using assms(1) by simp
    show ?thesis
    proof (cases fo)
      case None
      then show ?thesis
        using EventFrameRX same_data_kick[OF inv ds same_data_ops(1) refl refl n2, of ev e]
        by (auto simp: onConnected_def ev_received_def ev_accepted_def ev_acked_def ev_delivers_def vr_outcome_def)
    next
      case (Some f)
      then obtain fl where "rx_connected e f s = Some fl" "rx_outcome p1 p3 f s fl"
        using rx_connected_spec[OF inv ds, of f e] assms(3) EventFrameRX ds by (auto simp: ev_ok_def)
      then show ?thesis
        using step_outcome_flow[of p1 p3 f s fl e] ds EventFrameRX Some by (auto simp: onConnected_def)
    qed
  next
    case (EventDataTX d)
    then show ?thesis using data_tx_kick[of p1 p3 s e d] assms(1) ds by (auto simp: onConnected_def)
  next
    case EventT1Expiry
    then show ?thesis
      using recovery_outcome[OF assms(1,2), of 1 ev p1 p3 e]
      by (auto simp: onConnected_def ev_received_def ev_accepted_def ev_acked_def ev_delivers_def vr_outcome_def)
  next
    case EventT3Expiry
    then show ?thesis
      using recovery_outcome[OF assms(1,2), of 0 ev p1 p3 e]
      by (auto simp: onConnected_def ev_received_def ev_accepted_def ev_acked_def ev_delivers_def vr_outcome_def)
  next
    case EventT2Expiry
    then show ?thesis
      using same_data_kick[OF _ ds same_data_ops(3), of p1 p3 e ev e] assms(1) n2
      by (auto simp: onConnected_def ev_received_def ev_accepted_def ev_acked_def ev_delivers_def flush_ack_fields)
  next
    case EventDisconnect
    then show ?thesis
      using release_outcome[of p1 p3 s ev e] assms(1) nt by (auto simp: onConnected_def ev_received_def)
  next
    case EventAbort
    then show ?thesis
      using release_outcome[of p1 p3 s ev e] assms(1) nt by (auto simp: onConnected_def ev_received_def)
  next
    case EventShutdown
    then show ?thesis
      using assms(1) by (auto simp: onConnected_def step_outcome_def ev_received_def ev_accepted_def ev_acked_def ev_delivers_def vr_outcome_def)
  qed (use assms(1) n2 same_data_kick[OF _ ds same_data_ops(1) refl refl n2, of p1 p3 ev e] in
      \<open>auto simp: onConnected_def ev_received_def ev_accepted_def ev_acked_def ev_delivers_def vr_outcome_def\<close>)
qed

lemma recovery_failed_outcome:
  assumes "session_inv q1 q3 s" "ev_received ev s = []"
  shows "step_outcome p1 p3 ev s (setState StDisconnected (emit (OutError c)
            (stopAllTimers (dropQueues (submit e f s)))))" (is "step_outcome p1 p3 ev s ?t")
proof (rule step_outcome_quiet)
  have "cfg_ok ?t = cfg_ok s"
    by (intro cfg_ok_cong) (simp add: session_simps session_defs stopAllTimers_def dropQueues_def)
  moreover have "vN2Count (sV ?t) = vN2Count (sV s)"
    by (simp add: session_simps session_defs stopAllTimers_def dropQueues_def)
  ultimately show "session_inv p1 p3 ?t"
    using assms(1) by (simp add: session_inv_def timer_inv_def data_state_def session_simps)
  show "delivered ?t = delivered s"
    by (simp add: session_simps delivered_emit)
      (simp add: delivered_def session_defs stopAllTimers_def dropQueues_def delivered_submit[unfolded delivered_def])
qed (use assms in \<open>simp_all add: session_simps data_state_def\<close>)

lemma onTimerRecovery_spec:
  assumes "session_inv (p1 \<or> ev = EventT1Expiry) (p3 \<or> ev = EventT3Expiry) s" "sState s = StTimerRecovery" "ev_ok ev s"
  shows "\<exists>s' c. onTimerRecovery e ev s = Some (s', c) \<and> step_outcome p1 p3 ev s s' \<and> (c \<longleftrightarrow> ev \<noteq> EventShutdown)"
proof -
  have ds: "data_state (sState s)" using assms(2) by (simp add: data_state_def)
  have nt: "\<not> sTerminated s" and n2: "0 \<le> vN2Count (sV s)"
    using assms(1,2) by (auto simp: session_inv_def)
  have inv: "session_inv p1 p3 s" if "ev \<noteq> EventT1Expiry"
    using assms(1,2) that by (auto simp: session_inv_def timer_inv_def)
  show ?thesis
  proof (cases ev)
    case (EventFrameRX fo)
    show ?thesis
    proof (cases fo)
      case None
      then show ?thesis
        using EventFrameRX same_data_kick[OF inv ds same_data_ops(1) refl refl n2, where ev = ev and e = e]
        by (auto simp: onTimerRecovery_def ev_received_def ev_accepted_def ev_acked_def ev_delivers_def vr_outcome_def)
    next
      case (Some f)
      then obtain fl where "rx_timer_recovery e f s = Some fl" "rx_outcome p1 p3 f s fl"
        using rx_timer_recovery_spec[OF inv assms(2), of f e] assms(3) EventFrameRX ds by (auto simp: ev_ok_def)
      then show ?thesis
        using step_outcome_flow[of p1 p3 f s fl e] ds EventFrameRX Some by (auto simp: onTimerRecovery_def)
    qed
  next
    case (EventDataTX d)
    then show ?thesis using data_tx_kick[of p1 p3 s e d] inv ds by (auto simp: onTimerRecovery_def)
  next
    case EventT1Expiry
    show ?thesis
    proof (cases "vN2Count (sV s) \<ge> scN2 (sCfg s)")
      case True
      then show ?thesis
        using EventT1Expiry recovery_failed_outcome[OF assms(1), of ev p1 p3 "''ack-timeout''"]
        by (auto simp: onTimerRecovery_def ev_received_def)
    next
      case False
      let ?t = "resetT1 e (transmitEnquiry e (set_n2count (vN2Count (sV s) + 1) s))"
      have sd: "same_data s ?t"
        by (rule same_data_trans[OF same_data_setters(4) same_data_trans[OF same_data_transmitEnquiry same_data_ops(5)]])
      have "session_inv p1 p3 ?t"
      proof -
        have "0 \<le> vN2Count (sV ?t)" "tmOn (sT1 ?t)"
          using n2 by (simp_all add: session_simps transmitEnquiry_def) (simp add: t2_stop_def clear_cond_def setv_def session_simps set_n2count_def)
        then show ?thesis
          using assms(1,2) sd same_data_views[OF sd]
          by (auto simp: session_inv_def timer_inv_def same_data_def)
      qed
      then have "\<exists>s'. then_kick e ?t = Some (s', True) \<and> step_outcome p1 p3 ev s s'"
        using sd same_data_views(2)[OF sd] ds EventT1Expiry
        by (intro step_outcome_kick) (simp_all add: same_data_def ev_received_def ev_accepted_def ev_acked_def ev_delivers_def vr_outcome_def)
      then show ?thesis using False EventT1Expiry by (auto simp: onTimerRecovery_def)
    qed
  next
    case EventT2Expiry
    then show ?thesis
      using same_data_kick[OF inv ds same_data_ops(3)[where e = e], where ev = ev and e = e] n2
      by (auto simp: onTimerRecovery_def ev_received_def ev_accepted_def ev_acked_def ev_delivers_def flush_ack_fields)
  next
    case EventDisconnect
    then show ?thesis
      using release_outcome[OF inv nt, of ev e] by (auto simp: onTimerRecovery_def ev_received_def)
  next
    case EventAbort
    then show ?thesis
      using release_outcome[OF inv nt, of ev e] by (auto simp: onTimerRecovery_def ev_received_def)
  next
    case EventShutdown
    then show ?thesis
      using inv by (auto simp: onTimerRecovery_def step_outcome_def ev_received_def ev_accepted_def ev_acked_def ev_delivers_def vr_outcome_def)
  qed (use n2 same_data_kick[OF inv ds same_data_ops(1) refl refl n2, where ev = ev and e = e] in
      \<open>auto simp: onTimerRecovery_def ev_received_def ev_accepted_def ev_acked_def ev_delivers_def vr_outcome_def\<close>)
qed

section \<open>The other states\<close>

lemma cfg_ok_window:
  "0 < scPaclen (sCfg s) \<Longrightarrow> cfg_ok (set_window DefaultWindowMod8 (setMod128 False s))"
  "0 < scPaclen (sCfg s) \<Longrightarrow> cfg_ok (set_window DefaultWindowMod128 (setMod128 True s))"
  by (simp_all add: cfg_ok_def set_window_def setMod128_def modulus_def DefaultWindowMod8_def DefaultWindowMod128_def)

lemma onDisconnected_spec:
  assumes "session_inv q1 q3 s" "sState s = StDisconnected" "\<not> sTerminated s"
  shows "\<exists>s' c. onDisconnected e ev s = Some (s', c) \<and> step_outcome p1 p3 ev s s' \<and> (c \<longleftrightarrow> ev \<noteq> EventShutdown)"
proof -
  have same: "step_outcome p1 p3 ev s t" if "sCfg t = sCfg s" "sState t = sState s" "sV t = sV s" "delivered t = delivered s"
    for t
    using that assms cfg_ok_cong[OF that(1)]
    by (auto simp: step_outcome_def session_inv_def data_state_def timer_inv_def ev_received_def split: event.split option.split)
  have conn: "step_outcome p1 p3 EventConnect s
     (setState StAwaitingConnection (hb_reset (resetT1 e (sendSABM e (scMod128 (sCfg s))
        (mutateStats (\<lambda>_. zero_stats) (s\<lparr>sV := zero_vars\<rparr>))))))" (is "step_outcome _ _ _ _ ?t")
  proof (rule step_outcome_quiet)
    have f: "sCfg ?t = sCfg s" "vN2Count (sV ?t) = 0" "sTerminated ?t = sTerminated s" "tmOn (sT1 ?t)" "delivered ?t = delivered s"
      by (simp_all add: session_simps setState_terminated hb_reset_def mutateStats_def zero_vars_def)
    show "session_inv p1 p3 ?t"
      using assms f cfg_ok_cong[OF f(1)]
      by (intro session_inv_clock[OF assms(1,3)]) (simp_all add: session_simps session_inv_def)
    show "delivered ?t = delivered s" by (rule f)
  qed (simp_all add: session_simps data_state_def ev_received_def)
  have dm: "step_outcome p1 p3 ev s (sendDM e b s)" for b by (rule same) (simp_all add: session_simps)
  have id: "step_outcome p1 p3 ev s s" by (rule same) simp_all
  show ?thesis
  proof (cases ev)
    case (EventFrameRX fo)
    then show ?thesis using dm id by (cases fo) (auto simp: onDisconnected_def)
  next
    case EventConnect
    have "sCfg (mutateStats (\<lambda>_. zero_stats) (s\<lparr>sV := zero_vars\<rparr>)) = sCfg s" by (simp add: mutateStats_def)
    with EventConnect conn show ?thesis by (auto simp: onDisconnected_def Let_def)
  qed (use id in \<open>auto simp: onDisconnected_def\<close>)
qed

lemma quiet_clock:
  assumes "session_inv q1 q3 s" "\<not> sTerminated s" "cfg_ok s'" "0 \<le> vN2Count (sV s')" "sTerminated s' = sTerminated s"
    "sState s' \<in> {StAwaitingConnection, StAwaitingRelease}" "tmOn (sT1 s') \<or> p1" "delivered s' = delivered s"
    "ev_received ev s = []"
  shows "step_outcome p1 p3 ev s s'"
  using assms by (auto simp: step_outcome_def session_inv_def timer_inv_def data_state_def)

lemma quiet_disconnect:
  assumes "session_inv q1 q3 s" "cfg_ok s'" "0 \<le> vN2Count (sV s')" "sState s' = StDisconnected"
    "delivered s' = delivered s" "ev_received ev s = []"
  shows "step_outcome p1 p3 ev s s'"
  using assms by (auto simp: step_outcome_def session_inv_def timer_inv_def data_state_def)

text \<open>The fields the quiet states touch, for every setter at once.\<close>

lemma quiet_fields [session_simps]:
  "sT1 (setMod128 b s) = sT1 s" "sT1 (set_window w s) = sT1 s" "sT1 (set_n2count n s) = sT1 s"
  "sTerminated (setMod128 b s) = sTerminated s" "sTerminated (set_window w s) = sTerminated s"
  "sTerminated (set_n2count n s) = sTerminated s" "sTerminated (emit ev s) = sTerminated s" "sTerminated (t1_stop s) = sTerminated s"
  "sState (setMod128 b s) = sState s" "sState (set_window w s) = sState s" "sState (set_n2count n s) = sState s"
  "sState (emit ev s) = sState s" "sState (t1_stop s) = sState s"
  "vN2Count (sV (setMod128 b s)) = vN2Count (sV s)" "vN2Count (sV (set_window w s)) = vN2Count (sV s)"
  "vN2Count (sV (set_n2count n s)) = n" "vN2Count (sV (emit ev s)) = vN2Count (sV s)" "vN2Count (sV (t1_stop s)) = vN2Count (sV s)"
  "delivered (setMod128 b s) = delivered s" "delivered (set_window w s) = delivered s" "delivered (set_n2count n s) = delivered s"
  "sCfg (set_n2count n s) = sCfg s" "sCfg (emit ev s) = sCfg s" "sCfg (t1_stop s) = sCfg s"
  by (simp_all add: session_defs)

lemma delivered_emit_error [session_simps]: "delivered (emit (OutError c) s) = delivered s"
  by (simp add: delivered_emit)

lemma rx_awaiting_connection_spec:
  assumes "session_inv p1 p3 s" "sState s = StAwaitingConnection"
  shows "step_outcome p1 p3 (EventFrameRX (Some f)) s (rx_awaiting_connection e f s)"
proof -
  let ?ev = "EventFrameRX (Some f)"
  let ?pf = "cPF (lfControl f)"
  have nt: "\<not> sTerminated s" and n2: "0 \<le> vN2Count (sV s)" and c: "cfg_ok s" and t1: "tmOn (sT1 s) \<or> p1"
    using assms by (auto simp: session_inv_def timer_inv_def)
  have r: "ev_received ?ev s = []" using assms(2) by (simp add: ev_received_def data_state_def)
  have pac: "0 < scPaclen (sCfg s)" using c by (simp add: cfg_ok_def)
  note q = quiet_clock[OF assms(1) nt _ _ _ _ _ _ r]
  note d = quiet_disconnect[OF assms(1) _ _ _ _ r]
  have id: "step_outcome p1 p3 ?ev s s" using c n2 assms(2) t1 by (intro q) auto
  have cc: "cfg_ok t = cfg_ok u" if "sCfg t = sCfg u" for t u using that by (rule cfg_ok_cong)
  have sabm: "step_outcome p1 p3 ?ev s (sendUA e ?pf (set_window DefaultWindowMod8 (setMod128 False s)))"
    using n2 assms(2) t1 cfg_ok_window(1)[OF pac]
      cc[of "sendUA e ?pf (set_window DefaultWindowMod8 (setMod128 False s))" "set_window DefaultWindowMod8 (setMod128 False s)"]
    by (intro q) (simp_all add: session_simps)
  have sabme: "step_outcome p1 p3 ?ev s (sendUA e ?pf (set_window DefaultWindowMod128 (setMod128 True s)))"
    using n2 assms(2) t1 cfg_ok_window(2)[OF pac]
      cc[of "sendUA e ?pf (set_window DefaultWindowMod128 (setMod128 True s))" "set_window DefaultWindowMod128 (setMod128 True s)"]
    by (intro q) (simp_all add: session_simps)
  have disc: "step_outcome p1 p3 ?ev s (sendDM e ?pf s)"
    using n2 assms(2) t1 c cc[of "sendDM e ?pf s" s] by (intro q) (simp_all add: session_simps)
  have down: "step_outcome p1 p3 ?ev s (set_window DefaultWindowMod8 (setMod128 False s))"
    using n2 assms(2) t1 cfg_ok_window(1)[OF pac] by (intro q) (simp_all add: session_simps)
  have rej: "step_outcome p1 p3 ?ev s (setState StDisconnected (emit (OutError m) (t1_stop s)))" for m
    using n2 c cc[of "setState StDisconnected (emit (OutError m) (t1_stop s))" s]
    by (intro d) (simp_all add: session_simps)
  have up: "step_outcome p1 p3 ?ev s
      (setState StConnected (t3_reset (zero_seq (set_n2count 0 (calcRTT e (t1_stop s))))))" (is "step_outcome _ _ _ _ ?t")
  proof -
    have f: "sCfg ?t = sCfg s" "vVS (sV ?t) = 0" "vVR (sV ?t) = 0" "vVA (sV ?t) = 0" "vN2Count (sV ?t) = 0"
      "tmOn (sT3 ?t)" "sTerminated ?t = sTerminated s" "sState ?t = StConnected" "delivered ?t = delivered s"
      by (simp_all add: session_simps setState_terminated t3_reset_def timer_reset_to_def zero_seq_def)
        (simp_all add: setv_def session_simps)
    have di: "data_inv ?t"
      using c f cc[OF f(1)] by (auto simp: data_inv_def window_seqs_def seq_ok_def cfg_ok_def modulus_def)
    then have "session_inv p1 p3 ?t"
      using f nt by (intro session_inv_data) (simp_all add: data_state_def)
    then show ?thesis using f(9) assms(2) r by (simp add: step_outcome_def data_state_def)
  qed
  show ?thesis
    using id sabm sabme disc down rej up
    by (cases "cKind (lfControl f)") (simp_all add: rx_awaiting_connection_def Let_def)
qed

lemma onAwaitingConnection_spec:
  assumes "session_inv (p1 \<or> ev = EventT1Expiry) q3 s" "sState s = StAwaitingConnection"
  shows "\<exists>s' c. onAwaitingConnection e ev s = Some (s', c) \<and> step_outcome p1 p3 ev s s' \<and> (c \<longleftrightarrow> ev \<noteq> EventShutdown)"
proof -
  have nt: "\<not> sTerminated s" and n2: "0 \<le> vN2Count (sV s)" and c: "cfg_ok s"
    using assms by (auto simp: session_inv_def)
  have inv: "session_inv p1 p3 s" if "ev \<noteq> EventT1Expiry"
    using assms that by (auto simp: session_inv_def timer_inv_def)
  have pac: "0 < scPaclen (sCfg s)" using c by (simp add: cfg_ok_def)
  have cc: "cfg_ok t = cfg_ok u" if "sCfg t = sCfg u" for t u using that by (rule cfg_ok_cong)
  have id: "step_outcome p1 p3 ev s s" if "ev \<noteq> EventT1Expiry" "ev_received ev s = []"
    using inv that assms(2) by (simp add: step_outcome_def data_state_def)
  note q = quiet_clock[OF assms(1) nt]
  have rel: "step_outcome p1 p3 ev s (setState StAwaitingRelease (resetT1 e (set_n2count 0 (sendDISC e s))))"
    if "ev_received ev s = []"
    using c that cc[of "setState StAwaitingRelease (resetT1 e (set_n2count 0 (sendDISC e s)))" s]
    by (intro q) (simp_all add: session_simps setState_terminated)
  have retry: "step_outcome p1 p3 ev s (resetT1 e (sendSABM e b (set_n2count n s)))"
    if "ev_received ev s = []" "0 \<le> n" for b n
    using c that assms(2) cc[of "resetT1 e (sendSABM e b (set_n2count n s))" s]
    by (intro q) (simp_all add: session_simps)
  let ?d = "set_n2count 0 (set_window DefaultWindowMod8 (setMod128 False s))"
  have fallback: "step_outcome p1 p3 ev s (resetT1 e (sendSABM e b ?d))" if "ev_received ev s = []" for b
    using that assms(2) cfg_ok_window(1)[OF pac] cc[of "resetT1 e (sendSABM e b ?d)" "set_window DefaultWindowMod8 (setMod128 False s)"]
    by (intro q) (simp_all add: session_simps)
  have fail: "step_outcome p1 p3 ev s (setState StDisconnected (emit (OutError m) s))" if "ev_received ev s = []" for m
    using that n2 c cc[of "setState StDisconnected (emit (OutError m) s)" s]
    by (intro quiet_disconnect[OF assms(1)]) (simp_all add: session_simps)
  show ?thesis
  proof (cases ev)
    case (EventFrameRX fo)
    then show ?thesis
      using id rx_awaiting_connection_spec[OF inv assms(2)] by (cases fo) (auto simp: onAwaitingConnection_def ev_received_def)
  next
    case EventT1Expiry
    then show ?thesis
      using fail fallback retry[of "vN2Count (sV s) + 1"] n2
      by (auto simp: onAwaitingConnection_def ev_received_def Let_def session_simps)
  next
    case EventDisconnect
    then show ?thesis using rel by (auto simp: onAwaitingConnection_def ev_received_def)
  next
    case EventAbort
    then show ?thesis using rel by (auto simp: onAwaitingConnection_def ev_received_def)
  qed (use id in \<open>auto simp: onAwaitingConnection_def ev_received_def\<close>)
qed

lemma onAwaitingRelease_spec:
  assumes "session_inv (p1 \<or> ev = EventT1Expiry) q3 s" "sState s = StAwaitingRelease"
  shows "\<exists>s' c. onAwaitingRelease e ev s = Some (s', c) \<and> step_outcome p1 p3 ev s s' \<and> (c \<longleftrightarrow> ev \<noteq> EventShutdown)"
proof -
  have nt: "\<not> sTerminated s" and n2: "0 \<le> vN2Count (sV s)" and c: "cfg_ok s"
    using assms by (auto simp: session_inv_def)
  have inv: "session_inv p1 p3 s" if "ev \<noteq> EventT1Expiry"
    using assms that by (auto simp: session_inv_def timer_inv_def)
  have cc: "cfg_ok t = cfg_ok u" if "sCfg t = sCfg u" for t u using that by (rule cfg_ok_cong)
  have id: "step_outcome p1 p3 ev s s" if "ev \<noteq> EventT1Expiry" "ev_received ev s = []"
    using inv that assms(2) by (simp add: step_outcome_def data_state_def)
  note q = quiet_clock[OF assms(1) nt]
  note d = quiet_disconnect[OF assms(1)]
  have retry: "step_outcome p1 p3 ev s (resetT1 e (sendDISC e (set_n2count n s)))"
    if "ev_received ev s = []" "0 \<le> n" for n
    using c that assms(2) cc[of "resetT1 e (sendDISC e (set_n2count n s))" s]
    by (intro q) (simp_all add: session_simps)
  have fail: "step_outcome p1 p3 ev s (setState StDisconnected (emit (OutError m) (sendDISC e s)))"
    if "ev_received ev s = []" for m
    using that n2 c cc[of "setState StDisconnected (emit (OutError m) (sendDISC e s))" s]
    by (intro d) (simp_all add: session_simps)
  have dm: "step_outcome p1 p3 ev s (sendDM e b s)" if "ev_received ev s = []" "ev \<noteq> EventT1Expiry" for b
    using that n2 c assms(2) inv cc[of "sendDM e b s" s]
    by (intro q) (simp_all add: session_simps session_inv_def timer_inv_def)
  have ua: "step_outcome p1 p3 ev s (setState StDisconnected (t1_stop (sendUA e b s)))" if "ev_received ev s = []" for b
    using that n2 c cc[of "setState StDisconnected (t1_stop (sendUA e b s))" s]
    by (intro d) (simp_all add: session_simps)
  have stop: "step_outcome p1 p3 ev s (setState StDisconnected (t1_stop s))" if "ev_received ev s = []"
    using that n2 c cc[of "setState StDisconnected (t1_stop s)" s]
    by (intro d) (simp_all add: session_simps)
  show ?thesis
  proof (cases ev)
    case (EventFrameRX fo)
    have r: "ev_received ev s = []"
      using EventFrameRX assms(2) by (auto simp: ev_received_def data_state_def split: option.split)
    have ne: "ev \<noteq> EventT1Expiry" using EventFrameRX by simp
    show ?thesis
      using EventFrameRX id[OF ne r] dm[OF r ne] ua[OF r] stop[OF r]
      by (cases fo) (auto simp: onAwaitingRelease_def rx_awaiting_release_def Let_def)
  next
    case EventT1Expiry
    then show ?thesis
      using fail retry n2 by (auto simp: onAwaitingRelease_def ev_received_def)
  qed (use id in \<open>auto simp: onAwaitingRelease_def ev_received_def\<close>)
qed

section \<open>handle\<close>

text \<open>
  The step lemma of the run loop. \<open>p1\<close> and \<open>p3\<close> say that an expiry of \<open>T1\<close>
  or \<open>T3\<close> is pending after the event; the expiry being handled was pending before it.
\<close>

lemma step_outcome_sync: "step_outcome p1 p3 ev s s' \<Longrightarrow> step_outcome p1 p3 ev s (syncOutstanding s')"
  using same_data_syncOutstanding[of s'] session_inv_sync[of p1 p3 s']
    same_data_views(2)[OF same_data_syncOutstanding[of s']]
  by (simp add: step_outcome_def same_data_def vr_outcome_def)

lemma handle_spec:
  assumes "session_inv (p1 \<or> ev = EventT1Expiry) (p3 \<or> ev = EventT3Expiry) s" "\<not> sTerminated s" "ev_ok ev s"
  shows "\<exists>s' c. handle e ev s = Some (s', c) \<and> step_outcome p1 p3 ev s s'
    \<and> (c \<longleftrightarrow> ev \<noteq> EventShutdown \<and> \<not> sTerminated s')"
proof -
  have tick: "step_outcome p1 p3 ev s (syncOutstanding t)"
    if "same_data s t" "sT1 t = sT1 s" "sT3 t = sT3 s" "vN2Count (sV t) = vN2Count (sV s)"
      "ev \<noteq> EventT1Expiry" "ev \<noteq> EventT3Expiry" "ev_received ev s = []" "ev_accepted ev = []" "ev_acked ev s = []" "\<not> ev_delivers ev s" for t
  proof (rule step_outcome_sync)
    have "session_inv p1 p3 t"
    proof (rule session_inv_same[OF _ that(1-3)])
      show "session_inv p1 p3 s" using assms(1) that(5,6) by simp
      then show "0 \<le> vN2Count (sV t)" using that(4) by (simp add: session_inv_def)
    qed
    then show "step_outcome p1 p3 ev s t"
      using that same_data_views(2)[OF that(1)] by (simp add: step_outcome_def same_data_def vr_outcome_def)
  qed
  show ?thesis
  proof (cases "ev = EventHeartbeat \<or> ev = EventStatsTick")
    case True
    have "\<not> sTerminated (heartbeatTick e s)" "\<not> sTerminated (statsTick s)"
      using heartbeatTick_same[of s e] statsTick_same[of s] assms(2) by (simp_all add: same_data_def)
    then show ?thesis
      using True tick[OF heartbeatTick_same heartbeatTick_timers, of e] tick[OF statsTick_same statsTick_timers]
      by (auto simp: handle_def session_simps ev_received_def ev_accepted_def ev_acked_def ev_delivers_def vr_outcome_def)
  next
    case False
    have "\<exists>s' c. handle_state e ev s = Some (s', c) \<and> step_outcome p1 p3 ev s s' \<and> (c \<longleftrightarrow> ev \<noteq> EventShutdown)"
      using onDisconnected_spec[OF assms(1) _ assms(2)] onAwaitingConnection_spec[OF assms(1)]
        onConnected_spec[OF assms(1) _ assms(3)] onTimerRecovery_spec[OF assms(1) _ assms(3)]
        onAwaitingRelease_spec[OF assms(1)]
      by (cases "sState s") (simp_all add: handle_state_def)
    then obtain s' c where s': "handle_state e ev s = Some (s', c)" "step_outcome p1 p3 ev s s'" "c \<longleftrightarrow> ev \<noteq> EventShutdown"
      by blast
    have "handle e ev s = Some (syncOutstanding s', \<not> sTerminated s' \<and> c)"
      using False s'(1) by (cases ev) (auto simp: handle_def)
    then show ?thesis using step_outcome_sync[OF s'(2)] s'(3) by (auto simp: session_simps)
  qed
qed

end
