(* ===== verification/LAPB_Link.thy ===== *)
theory LAPB_Link
  imports LAPB_Handle
begin

text \<open>
  The contract of a LAPB session as theorems about \<^const>\<open>handle\<close>: it returns, keeps the
  session invariant, conserves the backlog, delivers in order, keeps a clock running and gives
  up after \<open>N2\<close> retries; and the inputs for which it does not.
\<close>

section \<open>A concrete link\<close>

text \<open>
  A connected modulo-8 session with window 4, three unacknowledged frames 6, 7, 0 and two
  bytes queued behind them.
\<close>

definition example_cfg :: session_config where
  "example_cfg =
     \<lparr>scLocal = \<lparr>Call = ''NW5W'', SSID = 1, Repeated = False\<rparr>, scPeer = \<lparr>Call = ''BBS'', SSID = 0, Repeated = False\<rparr>,
      scPath = [], scChannel = 1, scMod128 = False, scT1 = DefaultT1, scT2 = DefaultT2, scT3 = DefaultT3,
      scHeartbeat = DefaultHeartbeat, scStatsTick = DefaultStatsTick, scN2 = 2, scPaclen = 1, scWindow = 4,
      scBackoff = BackoffLinear\<rparr>"

definition example_slot :: "u8 \<Rightarrow> lframe" where
  "example_slot i =
     \<lparr>lfSource = scLocal example_cfg, lfDest = scPeer example_cfg, lfPath = [],
      lfControl = mk_control FrameI i 3 False, lfPID = 0xF0, lfInfo = [i], lfIsCommand = True, lfMod128 = False\<rparr>"

definition example_link :: session where
  "example_link =
     \<lparr>sCfg = example_cfg, sState = StConnected,
      sV = zero_vars\<lparr>vVS := 1, vVR := 3, vVA := 6\<rparr>,
      sT1 = \<lparr>tmOn = True, tmDur = DefaultT1\<rparr>, sT2 = new_timer DefaultT2, sT3 = new_timer DefaultT3,
      sHB = \<lparr>tmOn = True, tmDur = DefaultHeartbeat\<rparr>, sTStats = new_timer DefaultStatsTick,
      sStats = zero_stats, sPending = (\<lambda>i. if i \<in> {6, 7, 0} then Some (example_slot i) else None),
      sTxBuf = [100, 101], sTerminated = False, sMod128Bit = False, sOutstanding = 0,
      sTxFailNotified = False, sSubmits = 0, sSent = [], sOut = []\<rparr>"

definition example_env :: env where
  "example_env = \<lparr>eNow = 0, eSink = (\<lambda>_. True)\<rparr>"

lemma example_seqs: "seqs 8 6 3 = [6, 7, 0]"
  by (simp add: numeral_3_eq_3)

lemma example_link_fields:
  "modulus example_link = 8" "outstanding example_link = 3" "window_seqs example_link = [6, 7, 0]"
  "sState example_link = StConnected" "\<not> sTerminated example_link"
proof -
  show m: "modulus example_link = 8" by (simp add: modulus_def example_link_def example_cfg_def)
  show o: "outstanding example_link = 3"
    by (simp add: outstanding_def m) (simp add: example_link_def zero_vars_def)
  show "window_seqs example_link = [6, 7, 0]"
    using example_seqs by (simp add: window_seqs_def m o) (simp add: example_link_def zero_vars_def)
qed (simp_all add: example_link_def)

lemma example_link_inv: "session_inv False False example_link"
  by (simp add: session_inv_def timer_inv_def data_inv_def example_link_fields cfg_ok_def data_state_def seq_ok_def)
    (simp add: example_link_def example_cfg_def zero_vars_def slot_ok_def example_slot_def mk_control_def)

definition example_rr :: "u8 \<Rightarrow> lframe" where
  "example_rr nr =
     \<lparr>lfSource = scPeer example_cfg, lfDest = scLocal example_cfg, lfPath = [],
      lfControl = mk_control FrameRR 0 nr False, lfPID = 0, lfInfo = [], lfIsCommand = False, lfMod128 = False\<rparr>"

lemma example_rr_ok: "nr < 8 \<Longrightarrow> ev_ok (EventFrameRX (Some (example_rr nr))) example_link"
  by (simp add: ev_ok_def example_link_fields example_rr_def mk_control_def rebind_safe_def)

section \<open>Every event is handled and keeps the invariant\<close>

text \<open>
  Property C1. Handling an event returns (no handler loops for ever or indexes out of range)
  and keeps the session invariant, for every event but two: in a data state, a received frame
  whose N(R) is not below the modulus, and a SABM or SABME that changes the modulus while
  frames are unacknowledged (for both, \<^verbatim>\<open>LAPB_Limits\<close> shows that the handler may not return:
  \<open>foreign_nr_hangs\<close>, \<open>rebind_hangs\<close>). The invariant: sequence numbers below the modulus, at most a window of
  frames outstanding, every outstanding slot holding the frame it numbers, a clock running
  wherever an answer is due, and the terminated flag only in the disconnected state. The loop
  goes on unless the event is a shutdown or the link reached its end.
\<close>

theorem handle_session_inv:
  assumes "session_inv (p1 \<or> ev = EventT1Expiry) (p3 \<or> ev = EventT3Expiry) s"
    and "\<not> sTerminated s" "ev_ok ev s"
  shows "\<exists>s' c. handle e ev s = Some (s', c) \<and> session_inv p1 p3 s'
    \<and> (c \<longleftrightarrow> ev \<noteq> EventShutdown \<and> \<not> sTerminated s')"
  using handle_spec[OF assms, of e] by (auto simp: step_outcome_def)

theorem handle_session_inv_witness:
  "\<exists>s' c. handle example_env (EventFrameRX (Some (example_rr 7))) example_link = Some (s', c)
     \<and> session_inv False False s' \<and> (c \<longleftrightarrow> \<not> sTerminated s')"
  using handle_session_inv[of False "EventFrameRX (Some (example_rr 7))" False example_link example_env]
    example_link_inv example_link_fields(5) example_rr_ok[of 7] by simp



lemma example_rr_acked: "ev_acked (EventFrameRX (Some (example_rr 7))) example_link = [6]"
proof -
  have "seq_dist 8 6 7 = 1" by (simp add: seq_dist_def)
  then show ?thesis
    by (simp add: ev_acked_def rx_acked_def acked_bytes_def example_link_fields(1))
      (simp add: example_rr_def mk_control_def example_link_def zero_vars_def window_bytes_def slot_bytes_def example_slot_def)
qed



text \<open>
  Transmission is eager and bounded: after operator data arrives, unless the peer
  is busy, either everything has been cut into frames or exactly the configured window of them
  is outstanding. So a full window is the only reason for which data waits.
\<close>

theorem data_tx_fills_window:
  assumes "session_inv p1 p3 s" "data_state (sState s)" "\<not> cond_has (vCond (sV s)) CondPeerRxBusy"
    and "handle e (EventDataTX d) s = Some (s', c)"
  shows "sTxBuf s' = [] \<or> int (outstanding s') = scWindow (sCfg s')"
proof -
  let ?t = "s\<lparr>sTxBuf := sTxBuf s @ d\<rparr>"
  have inv: "data_inv ?t" using assms(1,2) data_inv_cong[of ?t s] by (simp add: session_inv_def)
  obtain u where u: "kick e ?t = Some u"
    "sState ?t = StConnected \<or> sState ?t = StTimerRecovery \<Longrightarrow> \<not> cond_has (vCond (sV ?t)) CondPeerRxBusy \<Longrightarrow>
       (vVS (sV u) \<noteq> vVA (sV u) \<longrightarrow> tmOn (sT1 u)) \<and> (sTxBuf u = [] \<or> int (outstanding u) = scWindow (sCfg u))"
    by (rule kick_spec[OF inv, of e]) blast
  have "handle_state e (EventDataTX d) s = Some (u, True)"
    using assms(2) u(1) by (auto simp: handle_state_def data_state_def onConnected_def onTimerRecovery_def then_kick_def)
  then have "s' = syncOutstanding u" using assms(4) by (simp add: handle_def)
  then show ?thesis
    using u(2) assms(2,3) same_data_views(8)[OF same_data_syncOutstanding[of u]]
    by (auto simp: session_simps data_state_def)
qed

theorem data_tx_fills_window_witness:
  "\<exists>s' c. handle example_env (EventDataTX [102]) example_link = Some (s', c)
     \<and> (sTxBuf s' = [] \<or> int (outstanding s') = scWindow (sCfg s'))"
proof -
  have "session_inv (False \<or> EventDataTX [102] = EventT1Expiry) (False \<or> EventDataTX [102] = EventT3Expiry) example_link"
    using example_link_inv by simp
  moreover have "ev_ok (EventDataTX [102]) example_link" by (simp add: ev_ok_def)
  ultimately obtain s' c where h: "handle example_env (EventDataTX [102]) example_link = Some (s', c)"
    using handle_spec[OF _ example_link_fields(5)] by blast
  have "data_state (sState example_link)" "\<not> cond_has (vCond (sV example_link)) CondPeerRxBusy"
    by (simp_all add: example_link_fields data_state_def)
      (simp add: example_link_def zero_vars_def cond_has_def)
  from data_tx_fills_window[OF example_link_inv this h] h show ?thesis by blast
qed

section \<open>In-order delivery\<close>

text \<open>
  A run of the link as the receiver sees it. \<open>chunks\<close> is the peer's stream, chunk by
  chunk; \<open>R\<close> counts the chunks delivered. The channel may lose, repeat and delay: an
  I-frame that arrives is some chunk \<open>k\<close> the peer sent, less than a modulus away from the
  one awaited. No link reset happens in the run.
\<close>

definition genuine :: "(nat \<Rightarrow> bytes) \<Rightarrow> nat \<Rightarrow> lframe \<Rightarrow> session \<Rightarrow> bool" where
  "genuine chunks R f s \<longleftrightarrow> (\<exists>k. R < k + unat (modulus s) \<and> k < R + unat (modulus s)
     \<and> unat (cNS (lfControl f)) = k mod unat (modulus s) \<and> lfInfo f = chunks k)"

inductive lossy_run :: "(nat \<Rightarrow> bytes) \<Rightarrow> session \<Rightarrow> nat \<Rightarrow> session \<Rightarrow> nat \<Rightarrow> bool"
  for chunks :: "nat \<Rightarrow> bytes" where
  lossy_nil: "lossy_run chunks s R s R"
| lossy_step: "lossy_run chunks s0 R0 s R \<Longrightarrow> data_state (sState s) \<Longrightarrow> ev_ok ev s \<Longrightarrow> \<not> ev_resets ev
    \<Longrightarrow> (\<And>f. ev = EventFrameRX (Some f) \<Longrightarrow> cKind (lfControl f) = FrameI \<Longrightarrow> genuine chunks R f s)
    \<Longrightarrow> handle e ev s = Some (s', c)
    \<Longrightarrow> lossy_run chunks s0 R0 s' (if ev_delivers ev s then R + 1 else R)"

inductive_cases lossy_runE: "lossy_run chunks s R s' R'"

lemma genuine_index:
  assumes "genuine chunks R f s" "unat (vVR (sV s)) = R mod unat (modulus s)" "cNS (lfControl f) = vVR (sV s)"
  shows "lfInfo f = chunks R"
proof -
  let ?m = "unat (modulus s)"
  obtain k where k: "R < k + ?m" "k < R + ?m" "k mod ?m = R mod ?m" "lfInfo f = chunks k"
    using assms by (auto simp: genuine_def)
  have "k = R"
  proof (cases "k \<le> R")
    case True
    have "?m dvd R - k" using k(3) True mod_eq_dvd_iff_nat[of k R ?m] by auto
    moreover have "R - k < ?m" using k(1) True by linarith
    ultimately show ?thesis using True by (auto dest: nat_dvd_not_less)
  next
    case False
    have "?m dvd k - R" using k(3) False mod_eq_dvd_iff_nat[of R k ?m] by auto
    moreover have "k - R < ?m" using k(2) False by linarith
    ultimately show ?thesis using False by (auto dest: nat_dvd_not_less)
  qed
  then show ?thesis using k(4) by simp
qed

text \<open>
  The expiry flags that matter to the invariant are irrelevant here, so any pending expiry is
  allowed throughout.
\<close>

lemma lossy_run_inv:
  assumes "lossy_run chunks s0 R0 s R" "session_inv True True s0" "\<not> sTerminated s0" "data_state (sState s0)"
    "unat (vVR (sV s0)) = R0 mod unat (modulus s0)"
  shows "session_inv True True s \<and> R0 \<le> R \<and> delivered s = delivered s0 @ concat (map chunks [R0..<R])
    \<and> (data_state (sState s) \<longrightarrow> unat (vVR (sV s)) = R mod unat (modulus s))"
  using assms
proof (induction rule: lossy_run.induct)
  case (lossy_nil s R)
  then show ?case by simp
next
  case (lossy_step s0 R0 s R ev e s' c)
  from lossy_step.IH[OF lossy_step.prems] lossy_step.hyps(2)
  have IH: "session_inv True True s" "R0 \<le> R" "delivered s = delivered s0 @ concat (map chunks [R0..<R])"
    "unat (vVR (sV s)) = R mod unat (modulus s)" by auto
  have nt: "\<not> sTerminated s" using IH(1) lossy_step.hyps(2) by (auto simp: session_inv_def data_state_def)
  have out: "step_outcome True True ev s s'"
    using handle_spec[of True ev True s e] IH(1) nt lossy_step.hyps(3,6) by auto
  have vr: "data_state (sState s') \<longrightarrow> vr_outcome (ev_delivers ev s) s s'"
    using out lossy_step.hyps(2,4) by (simp add: step_outcome_def)
  have del: "delivered s' = delivered s @ ev_received ev s" and inv: "session_inv True True s'"
    using out by (simp_all add: step_outcome_def)
  show ?case
  proof (cases "ev_delivers ev s")
    case True
    then obtain f where f: "ev = EventFrameRX (Some f)" "rx_delivers f s"
      by (auto simp: ev_delivers_def split: event.splits option.splits)
    then have "lfInfo f = chunks R"
      using genuine_index[OF lossy_step.hyps(5)[OF f(1)] IH(4)] by (simp add: rx_delivers_def rx_accepts_def)
    then have "ev_received ev s = chunks R"
      using f lossy_step.hyps(2) by (simp add: ev_received_def rx_data_def)
    moreover have "unat (vVR (sV s')) = (R + 1) mod unat (modulus s')" if "data_state (sState s')"
    proof -
      have "vVR (sV s') = (vVR (sV s) + 1) mod modulus s" "modulus s' = modulus s"
        using vr that True by (simp_all add: vr_outcome_def modulus_def)
      then show ?thesis using IH(4) by (simp add: unat_seq_succ mod_simps)
    qed
    ultimately show ?thesis using True IH del inv by simp
  next
    case False
    then have "ev_received ev s = []"
      by (auto simp: ev_received_def ev_delivers_def rx_data_def split: event.splits option.splits)
    moreover have "unat (vVR (sV s')) = R mod unat (modulus s')" if "data_state (sState s')"
    proof -
      have "vVR (sV s') = vVR (sV s)" "modulus s' = modulus s"
        using vr that False by (simp_all add: vr_outcome_def modulus_def)
      then show ?thesis using IH(4) by simp
    qed
    ultimately show ?thesis using False IH del inv by simp
  qed
qed

text \<open>
  Property C3. The receiver delivers the peer's stream in order, without gap or repetition:
  over any run in which the channel loses, repeats and delays frames (each I-frame that
  arrives is a chunk less than a modulus away from the one awaited), what the observer got is
  exactly the next chunks of the stream.
\<close>

theorem lossy_run_delivers_prefix:
  assumes "lossy_run chunks s0 R0 s R" "session_inv True True s0" "\<not> sTerminated s0" "data_state (sState s0)"
    and "unat (vVR (sV s0)) = R0 mod unat (modulus s0)"
  shows "R0 \<le> R \<and> delivered s = delivered s0 @ concat (map chunks [R0..<R])"
  using lossy_run_inv[OF assms] by blast

text \<open>The peer's chunk 3 arrives at \<^const>\<open>example_link\<close>, which awaits it.\<close>

definition example_iframe3 :: lframe where
  "example_iframe3 = (example_rr 6)\<lparr>lfControl := mk_control FrameI 3 6 False, lfPID := 0xF0, lfInfo := [42], lfIsCommand := True\<rparr>"

theorem lossy_run_delivers_prefix_witness:
  "\<exists>s'. lossy_run (\<lambda>k. [42]) example_link 3 s' 4 \<and> delivered s' = [42]"
proof -
  let ?ev = "EventFrameRX (Some example_iframe3)"
  have ok: "ev_ok ?ev example_link"
    by (simp add: ev_ok_def example_link_fields example_iframe3_def example_rr_def mk_control_def rebind_safe_def)
  have inv: "session_inv True True example_link"
    using example_link_inv by (auto simp: session_inv_def timer_inv_def example_link_fields)
  have v: "validNR 6 example_link"
    by (simp add: validNR_def example_link_fields) (simp add: example_link_def zero_vars_def)
  have acc: "rx_accepts example_iframe3 example_link"
    by (simp add: rx_accepts_def example_iframe3_def mk_control_def example_link_def zero_vars_def cond_has_def)
  have del: "ev_delivers ?ev example_link"
    using v acc by (simp add: ev_delivers_def rx_delivers_def example_iframe3_def mk_control_def)
  obtain s' c where h: "handle example_env ?ev example_link = Some (s', c)"
    using handle_spec[of True ?ev True example_link example_env] inv ok example_link_fields(5) by auto
  have gen: "genuine (\<lambda>k. [42]) 3 example_iframe3 example_link"
    by (simp add: genuine_def example_link_fields example_iframe3_def mk_control_def) presburger
  have "lossy_run (\<lambda>k. [42]) example_link 3 s' (if ev_delivers ?ev example_link then 3 + 1 else 3)"
    using h gen ok example_link_fields(4)
    by (intro lossy_step[OF lossy_nil]) (auto simp: data_state_def ev_resets_def example_iframe3_def mk_control_def)
  then have run: "lossy_run (\<lambda>k. [42]) example_link 3 s' 4" using del by simp
  have "data_state (sState example_link)" by (simp add: example_link_fields data_state_def)
  moreover have "unat (vVR (sV example_link)) = 3 mod unat (modulus example_link)"
    by (simp add: example_link_fields) (simp add: example_link_def zero_vars_def)
  moreover have "delivered example_link = []" by (simp add: example_link_def delivered_def)
  moreover have "map (\<lambda>k. [42]) [3..<4] = [[42 :: u8]]" by simp
  ultimately have "delivered s' = [42]"
    using lossy_run_delivers_prefix[OF run inv example_link_fields(5)] by simp
  with run show ?thesis by blast
qed

section \<open>Giving up\<close>

text \<open>The loop over a sequence of events, until a handler ends it.\<close>

fun handle_all :: "(env \<times> event) list \<Rightarrow> session \<Rightarrow> session option" where
  "handle_all [] s = Some s"
| "handle_all ((e, ev) # evs) s =
     (case handle e ev s of
        None \<Rightarrow> None
      | Some (s', cont) \<Rightarrow> if cont then handle_all evs s' else Some s')"

text \<open>The number of \<open>T1\<close> expiries a state that awaits the peer tolerates.\<close>

definition t1_budget :: "session \<Rightarrow> nat" where
  "t1_budget s =
     nat (scN2 (sCfg s) - vN2Count (sV s)) + 1
       + (if sState s = StAwaitingConnection \<and> scMod128 (sCfg s) then nat (scN2 (sCfg s)) + 1 else 0)"

definition awaiting :: "lapb_state \<Rightarrow> bool" where
  "awaiting st \<longleftrightarrow> st = StAwaitingConnection \<or> st = StTimerRecovery \<or> st = StAwaitingRelease"

lemma setState_disconnect_terminates:
  "sState s \<noteq> StDisconnected \<Longrightarrow> sTerminated (setState StDisconnected s)"
  by (simp add: setState_def Let_def)

lemma t1_expiry_handled:
  assumes "session_inv True True s" "awaiting (sState s)" "\<not> sTerminated s"
  shows "\<exists>s'. handle_state e EventT1Expiry s = Some (s', True)
    \<and> (sState s' = StDisconnected \<and> sTerminated s'
       \<or> sState s' = sState s \<and> sTerminated s' = sTerminated s \<and> t1_budget s = Suc (t1_budget s'))"
proof -
  consider (conn) "sState s = StAwaitingConnection" | (rec) "sState s = StTimerRecovery" | (rel) "sState s = StAwaitingRelease"
    using assms(2) by (auto simp: awaiting_def)
  then show ?thesis
  proof cases
    case conn
    then show ?thesis
      by (auto simp: handle_state_def onAwaitingConnection_def session_simps t1_budget_def Let_def
          setState_disconnect_terminates) (auto simp: set_window_def setMod128_def set_n2count_def setv_def)
  next
    case rel
    then show ?thesis
      by (auto simp: handle_state_def onAwaitingRelease_def session_simps t1_budget_def Let_def
          setState_disconnect_terminates)
  next
    case rec
    show ?thesis
    proof (cases "vN2Count (sV s) \<ge> scN2 (sCfg s)")
      case True
      then show ?thesis
        using rec by (auto simp: handle_state_def onTimerRecovery_def session_simps stopAllTimers_def dropQueues_def
            t1_stop_def t2_stop_def t3_stop_def hb_stop_def intro!: setState_disconnect_terminates)
    next
      case False
      let ?t = "resetT1 e (transmitEnquiry e (set_n2count (vN2Count (sV s) + 1) s))"
      have t: "same_data s ?t"
        by (rule same_data_trans[OF same_data_setters(4) same_data_trans[OF same_data_transmitEnquiry same_data_ops(5)]])
      have tn: "vN2Count (sV ?t) = vN2Count (sV s) + 1" "tmOn (sT1 ?t)"
        by (simp_all add: session_simps transmitEnquiry_def)
          (simp add: t2_stop_def clear_cond_def setv_def session_simps set_n2count_def)
      have "session_inv True True ?t"
        using assms(1) t tn rec same_data_views[OF t]
        by (auto simp: session_inv_def timer_inv_def same_data_def)
      moreover have "data_state (sState ?t)" using t rec by (simp add: same_data_def data_state_def)
      ultimately obtain u where "then_kick e ?t = Some (u, True)" "sState u = sState ?t" "sCfg u = sCfg ?t"
        "vN2Count (sV u) = vN2Count (sV ?t)" "sTerminated u = sTerminated ?t"
        by (rule then_kick_spec[of True True ?t e]) blast
      then show ?thesis
        using False rec t tn by (auto simp: handle_state_def onTimerRecovery_def same_data_def t1_budget_def)
    qed
  qed
qed

lemma t1_expiry_step:
  assumes "session_inv True True s" "awaiting (sState s)" "\<not> sTerminated s"
  shows "\<exists>s'. handle e EventT1Expiry s = Some (s', \<not> sTerminated s') \<and> session_inv True True s'
    \<and> (sState s' = StDisconnected \<and> sTerminated s'
       \<or> awaiting (sState s') \<and> \<not> sTerminated s' \<and> t1_budget s = Suc (t1_budget s'))"
proof -
  obtain s' where s': "handle_state e EventT1Expiry s = Some (s', True)"
    "sState s' = StDisconnected \<and> sTerminated s'
       \<or> sState s' = sState s \<and> sTerminated s' = sTerminated s \<and> t1_budget s = Suc (t1_budget s')"
    using t1_expiry_handled[OF assms] by blast
  have h: "handle e EventT1Expiry s = Some (syncOutstanding s', \<not> sTerminated s')"
    using s'(1) by (simp add: handle_def)
  have "session_inv True True (syncOutstanding s')"
    using handle_spec[of True EventT1Expiry True s e] assms(1,3) h by (auto simp: step_outcome_def ev_ok_def)
  then show ?thesis
    using h s'(2) assms(2,3) by (auto simp: session_simps t1_budget_def)
qed

text \<open>
  Property C5. A silent peer is given up: in every state that awaits an answer, as many
  \<open>T1\<close> expiries as the retry budget (at most \<open>N2 + 1\<close>, and as many again for the
  fall-back from modulo 128 during set-up) end the session in the disconnected state.
\<close>

theorem silent_peer_given_up:
  assumes "session_inv True True s" "awaiting (sState s)" "\<not> sTerminated s" "t1_budget s \<le> length es"
  shows "\<exists>s'. handle_all (map (\<lambda>e. (e, EventT1Expiry)) es) s = Some s'
    \<and> sState s' = StDisconnected \<and> sTerminated s'"
  using assms
proof (induction es arbitrary: s)
  case Nil
  then show ?case by (simp add: t1_budget_def)
next
  case (Cons e es)
  obtain s1 where s1: "handle e EventT1Expiry s = Some (s1, \<not> sTerminated s1)" "session_inv True True s1"
    "sState s1 = StDisconnected \<and> sTerminated s1
       \<or> awaiting (sState s1) \<and> \<not> sTerminated s1 \<and> t1_budget s = Suc (t1_budget s1)"
    using t1_expiry_step[OF Cons.prems(1-3)] by blast
  then show ?case using Cons.IH[OF s1(2)] Cons.prems(4) by (cases "sTerminated s1") auto
qed

theorem silent_peer_given_up_witness:
  "\<exists>s'. handle_all (map (\<lambda>e. (e, EventT1Expiry)) (replicate 3 example_env))
     (example_link\<lparr>sState := StTimerRecovery\<rparr>) = Some s' \<and> sState s' = StDisconnected \<and> sTerminated s'"
proof (rule silent_peer_given_up)
  let ?s = "example_link\<lparr>sState := StTimerRecovery\<rparr>"
  have "data_inv ?s = data_inv example_link" "cfg_ok ?s = cfg_ok example_link"
    by (rule data_inv_cong, simp_all, rule cfg_ok_cong, simp)
  then show "session_inv True True ?s"
    using example_link_inv by (simp add: session_inv_def timer_inv_def data_state_def example_link_fields)
  show "t1_budget ?s \<le> length (replicate 3 example_env)"
    by (simp add: t1_budget_def example_link_def example_cfg_def zero_vars_def)
qed (simp_all add: awaiting_def example_link_fields)

end
