(* ===== verification/LAPB_Loop.thy ===== *)
theory LAPB_Loop
  imports LAPB_Link
begin

text \<open>
  The run loop of a session (\<^verbatim>\<open>Run\<close>, \<^verbatim>\<open>enqueue\<close>, \<^verbatim>\<open>signalTimer\<close> and \<^verbatim>\<open>cleanup\<close> of
  \<^verbatim>\<open>pkg/ax25conn/session.go\<close>) as a step relation: timer callbacks and submitters run
  concurrently with the loop, which either drains the pending-timer mask or waits in its
  \<^verbatim>\<open>select\<close>. The mask is the set of its bits.
\<close>

section \<open>State\<close>

datatype timer_id = TmT1 | TmT2 | TmT3 | TmHB | TmStats

text \<open>
  Where the loop stands: before the swap of the mask, working through the bits it swapped out,
  in the \<^verbatim>\<open>select\<close>, returned, or inside a handler that never returns.
\<close>

datatype loop_pc = AtTop | AtBits "timer_id set" | AtSelect | AtExit | AtHang

record loop =
  lpS :: session
  lpPending :: "timer_id set"
  lpWakeup :: bool
  lpIn :: "event list"
  lpPC :: loop_pc

definition inputCap :: nat where "inputCap = 32"

definition start_loop :: "session \<Rightarrow> loop" where
  "start_loop s = \<lparr>lpS = s, lpPending = {}, lpWakeup = False, lpIn = [], lpPC = AtTop\<rparr>"

fun timer_on :: "timer_id \<Rightarrow> session \<Rightarrow> bool" where
  "timer_on TmT1 s = tmOn (sT1 s)"
| "timer_on TmT2 s = tmOn (sT2 s)"
| "timer_on TmT3 s = tmOn (sT3 s)"
| "timer_on TmHB s = tmOn (sHB s)"
| "timer_on TmStats s = tmOn (sTStats s)"

fun timer_expired :: "timer_id \<Rightarrow> session \<Rightarrow> session" where
  "timer_expired TmT1 s = t1_stop s"
| "timer_expired TmT2 s = t2_stop s"
| "timer_expired TmT3 s = t3_stop s"
| "timer_expired TmHB s = hb_stop s"
| "timer_expired TmStats s = tstats_stop s"

fun expiry_event :: "timer_id \<Rightarrow> event" where
  "expiry_event TmT1 = EventT1Expiry"
| "expiry_event TmT2 = EventT2Expiry"
| "expiry_event TmT3 = EventT3Expiry"
| "expiry_event TmHB = EventHeartbeat"
| "expiry_event TmStats = EventStatsTick"

section \<open>Steps\<close>

definition signalTimer :: "timer_id \<Rightarrow> loop \<Rightarrow> loop" where
  "signalTimer k l = l\<lparr>lpPending := insert k (lpPending l), lpWakeup := True\<rparr>"

text \<open>A submitted event is dropped when the channel is full.\<close>

definition enqueue :: "event \<Rightarrow> loop \<Rightarrow> loop" where
  "enqueue ev l = (if length (lpIn l) < inputCap then l\<lparr>lpIn := lpIn l @ [ev]\<rparr> else l)"

text \<open>Calling \<^const>\<open>handle\<close> and going on at \<open>pc\<close>, or returning through \<^const>\<open>cleanup\<close>.\<close>

definition loop_handle :: "env \<Rightarrow> event \<Rightarrow> loop_pc \<Rightarrow> loop \<Rightarrow> loop" where
  "loop_handle e ev pc l =
     (case handle e ev (lpS l) of
        None \<Rightarrow> l\<lparr>lpPC := AtHang\<rparr>
      | Some (s, cont) \<Rightarrow>
          if cont then l\<lparr>lpS := s, lpPC := pc\<rparr> else l\<lparr>lpS := cleanup s, lpPC := AtExit\<rparr>)"

text \<open>The bits are served in the order of the code.\<close>

definition first_bit :: "timer_id set \<Rightarrow> timer_id" where
  "first_bit B =
     (if TmT1 \<in> B then TmT1 else if TmT2 \<in> B then TmT2 else if TmT3 \<in> B then TmT3
      else if TmHB \<in> B then TmHB else TmStats)"

inductive loop_step :: "loop \<Rightarrow> loop \<Rightarrow> bool" where
  loop_timer: "timer_on k (lpS l) \<Longrightarrow> loop_step l (signalTimer k (l\<lparr>lpS := timer_expired k (lpS l)\<rparr>))"
| loop_submit: "loop_step l (enqueue ev l)"
| loop_swap: "lpPC l = AtTop \<Longrightarrow> lpPending l \<noteq> {}
    \<Longrightarrow> loop_step l (l\<lparr>lpPending := {}, lpPC := AtBits (lpPending l)\<rparr>)"
| loop_select: "lpPC l = AtTop \<Longrightarrow> lpPending l = {} \<Longrightarrow> loop_step l (l\<lparr>lpPC := AtSelect\<rparr>)"
| loop_bit: "lpPC l = AtBits B \<Longrightarrow> B \<noteq> {} \<Longrightarrow> k = first_bit B
    \<Longrightarrow> loop_step l (loop_handle e (expiry_event k) (AtBits (B - {k})) l)"
| loop_continue: "lpPC l = AtBits {} \<Longrightarrow> loop_step l (l\<lparr>lpPC := AtTop\<rparr>)"
| loop_done: "lpPC l = AtSelect \<Longrightarrow> loop_step l (l\<lparr>lpS := cleanup (lpS l), lpPC := AtExit\<rparr>)"
| loop_wakeup: "lpPC l = AtSelect \<Longrightarrow> lpWakeup l \<Longrightarrow> loop_step l (l\<lparr>lpWakeup := False, lpPC := AtTop\<rparr>)"
| loop_receive: "lpPC l = AtSelect \<Longrightarrow> lpIn l = ev # evs
    \<Longrightarrow> loop_step l (loop_handle e ev AtTop (l\<lparr>lpIn := evs\<rparr>))"

text \<open>
  Paths on which every received frame is one the session can process when its turn comes.
\<close>

inductive loop_reach :: "loop \<Rightarrow> loop \<Rightarrow> bool" for l0 :: loop where
  loop_start: "loop_reach l0 l0"
| loop_more: "loop_reach l0 l \<Longrightarrow> loop_step l l'
    \<Longrightarrow> (\<And>ev evs. lpPC l = AtSelect \<Longrightarrow> lpIn l = ev # evs \<Longrightarrow> ev_ok ev (lpS l)) \<Longrightarrow> loop_reach l0 l'"

section \<open>Invariant\<close>

text \<open>The expiries the loop has not handled yet.\<close>

definition unserved :: "loop \<Rightarrow> timer_id set" where
  "unserved l = lpPending l \<union> (case lpPC l of AtBits B \<Rightarrow> B | _ \<Rightarrow> {})"

definition loop_inv :: "loop \<Rightarrow> bool" where
  "loop_inv l \<longleftrightarrow> length (lpIn l) \<le> inputCap
     \<and> lpPC l \<noteq> AtHang
     \<and> (lpPC l = AtSelect \<and> lpPending l \<noteq> {} \<longrightarrow> lpWakeup l)
     \<and> (if lpPC l = AtExit then sTerminated (lpS l)
        else \<not> sTerminated (lpS l)
          \<and> session_inv (TmT1 \<in> unserved l) (TmT3 \<in> unserved l) (lpS l))"

lemma session_inv_mono:
  "session_inv p1 p3 s \<Longrightarrow> (p1 \<Longrightarrow> q1) \<Longrightarrow> (p3 \<Longrightarrow> q3) \<Longrightarrow> session_inv q1 q3 s"
  by (auto simp: session_inv_def timer_inv_def split: lapb_state.splits if_splits)

lemma session_inv_other_timer:
  assumes "session_inv p1 p3 s" "same_data s t" "sT1 t = sT1 s \<or> p1" "sT3 t = sT3 s \<or> p3" "vN2Count (sV t) = vN2Count (sV s)"
  shows "session_inv p1 p3 t"
proof -
  have "timer_inv p1 p3 t"
    using assms by (auto simp: session_inv_def timer_inv_def same_data_def split: lapb_state.splits if_splits)
  then show ?thesis
    using assms(1,2,5) same_data_views(1,6)[OF assms(2)] by (auto simp: session_inv_def same_data_def)
qed

lemma timer_expired_fields:
  "same_data s (timer_expired k s)" "k \<noteq> TmT1 \<Longrightarrow> sT1 (timer_expired k s) = sT1 s"
  "k \<noteq> TmT3 \<Longrightarrow> sT3 (timer_expired k s) = sT3 s" "vN2Count (sV (timer_expired k s)) = vN2Count (sV s)"
  "sTerminated (timer_expired k s) = sTerminated s"
  by (cases k; simp add: same_data_def session_defs delivered_def)+

lemma cleanup_terminates: "sTerminated (cleanup s)"
  by (simp add: cleanup_def Let_def emit_def)

lemma first_bit_in: "B \<noteq> {} \<Longrightarrow> first_bit B \<in> B"
proof -
  assume "B \<noteq> {}"
  then obtain k where "k \<in> B" by blast
  then show ?thesis by (cases k) (auto simp: first_bit_def)
qed

lemma unserved_simps [simp]:
  "unserved (l\<lparr>lpS := x1\<rparr>) = unserved l" "unserved (l\<lparr>lpIn := x2\<rparr>) = unserved l"
  by (simp_all add: unserved_def)

lemma loop_handle_inv:
  assumes "session_inv (TmT1 \<in> lpPending l \<union> B \<or> ev = EventT1Expiry) (TmT3 \<in> lpPending l \<union> B \<or> ev = EventT3Expiry) (lpS l)"
    "\<not> sTerminated (lpS l)" "ev_ok ev (lpS l)" "length (lpIn l) \<le> inputCap"
    "pc = AtTop \<and> B = {} \<or> pc = AtBits B"
  shows "loop_inv (loop_handle e ev pc l)"
proof -
  obtain s c where h: "handle e ev (lpS l) = Some (s, c)"
    "session_inv (TmT1 \<in> lpPending l \<union> B) (TmT3 \<in> lpPending l \<union> B) s" "c \<longleftrightarrow> ev \<noteq> EventShutdown \<and> \<not> sTerminated s"
    using handle_spec[OF assms(1-3), of e] by (auto simp: step_outcome_def)
  show ?thesis
  proof (cases c)
    case True
    then show ?thesis using h assms(4,5) by (auto simp: loop_handle_def loop_inv_def unserved_def)
  next
    case False
    then show ?thesis using h(1) assms(4) cleanup_terminates by (simp add: loop_handle_def loop_inv_def)
  qed
qed

lemma loop_step_inv:
  assumes "loop_step l l'" "loop_inv l" "\<And>ev evs. lpPC l = AtSelect \<Longrightarrow> lpIn l = ev # evs \<Longrightarrow> ev_ok ev (lpS l)"
  shows "loop_inv l'"
  using assms
proof (cases rule: loop_step.cases)
  case (loop_timer k)
  let ?l = "l\<lparr>lpS := timer_expired k (lpS l)\<rparr>"
  have un: "unserved (signalTimer k ?l) = insert k (unserved l)"
    by (simp add: unserved_def signalTimer_def)
  have "session_inv (TmT1 \<in> insert k (unserved l)) (TmT3 \<in> insert k (unserved l)) (timer_expired k (lpS l))"
    if "lpPC l \<noteq> AtExit"
  proof (rule session_inv_other_timer)
    have "session_inv (TmT1 \<in> unserved l) (TmT3 \<in> unserved l) (lpS l)"
      using assms(2) that by (simp add: loop_inv_def)
    then show "session_inv (TmT1 \<in> insert k (unserved l)) (TmT3 \<in> insert k (unserved l)) (lpS l)"
      by (rule session_inv_mono) simp_all
  qed (use timer_expired_fields(2,3)[of k "lpS l"] timer_expired_fields(1,4) in \<open>auto\<close>)
  then show ?thesis
    using assms(2) un timer_expired_fields(5)[of k "lpS l"]
    unfolding loop_timer by (simp add: loop_inv_def) (simp add: signalTimer_def)
next
  case (loop_submit ev)
  have f: "unserved (enqueue ev l) = unserved l" "lpS (enqueue ev l) = lpS l" "lpPC (enqueue ev l) = lpPC l"
    "lpPending (enqueue ev l) = lpPending l" "lpWakeup (enqueue ev l) = lpWakeup l"
    "length (lpIn l) \<le> inputCap \<Longrightarrow> length (lpIn (enqueue ev l)) \<le> inputCap"
    by (simp_all add: enqueue_def)
  show ?thesis using assms(2) unfolding loop_submit loop_inv_def f by (auto intro: f(6))
next
  case loop_swap
  then show ?thesis using assms(2) by (auto simp: loop_inv_def unserved_def)
next
  case loop_select
  then show ?thesis using assms(2) by (auto simp: loop_inv_def unserved_def)
next
  case (loop_bit B k e)
  have inv: "\<not> sTerminated (lpS l)" "session_inv (TmT1 \<in> unserved l) (TmT3 \<in> unserved l) (lpS l)" "length (lpIn l) \<le> inputCap"
    using assms(2) loop_bit by (auto simp: loop_inv_def)
  have un: "unserved l = lpPending l \<union> B" using loop_bit by (simp add: unserved_def)
  have "session_inv (TmT1 \<in> lpPending l \<union> (B - {k}) \<or> expiry_event k = EventT1Expiry)
      (TmT3 \<in> lpPending l \<union> (B - {k}) \<or> expiry_event k = EventT3Expiry) (lpS l)"
    by (rule session_inv_mono[OF inv(2)]; cases k) (auto simp: un)
  moreover have "ev_ok (expiry_event k) (lpS l)" by (cases k) (simp_all add: ev_ok_def)
  ultimately show ?thesis using inv unfolding loop_bit(1) by (intro loop_handle_inv) auto
next
  case loop_continue
  then show ?thesis using assms(2) by (auto simp: loop_inv_def unserved_def)
next
  case loop_done
  then show ?thesis using assms(2) cleanup_terminates by (auto simp: loop_inv_def)
next
  case loop_wakeup
  then show ?thesis using assms(2) by (auto simp: loop_inv_def unserved_def)
next
  case (loop_receive ev evs e)
  have inv: "\<not> sTerminated (lpS l)" "session_inv (TmT1 \<in> unserved l) (TmT3 \<in> unserved l) (lpS l)" "length (lpIn l) \<le> inputCap"
    using assms(2) loop_receive by (auto simp: loop_inv_def)
  have un: "unserved l = lpPending l" using loop_receive by (simp add: unserved_def)
  have "session_inv (TmT1 \<in> lpPending l \<or> ev = EventT1Expiry) (TmT3 \<in> lpPending l \<or> ev = EventT3Expiry) (lpS l)"
    by (rule session_inv_mono[OF inv(2)]) (auto simp: un)
  then show ?thesis
    using inv assms(3)[OF loop_receive(2,3)] loop_receive(3)
    unfolding loop_receive(1) by (intro loop_handle_inv[where B = "{}"]) auto
qed

lemma loop_reach_inv: "loop_reach l0 l \<Longrightarrow> loop_inv l0 \<Longrightarrow> loop_inv l"
  by (induction rule: loop_reach.induct) (auto intro: loop_step_inv)

text \<open>
  Property C4. A session that sets up or releases the link, or that is in a data state with
  unacknowledged frames, is clocked: along every interleaving of timer callbacks, submissions
  and loop steps on events the session can process (\<open>ev_ok\<close>), until the loop ends, \<open>T1\<close> is
  running or its expiry is on the way to the loop; and an expiry in the mask never meets a loop
  asleep (the wakeup is signalled). A session in timer recovery with nothing unacknowledged is
  not covered: \<open>timer_recovery_unclocked\<close> of \<^verbatim>\<open>LAPB_Limits\<close> shows one without a clock.
\<close>

theorem waiting_session_is_clocked:
  assumes "loop_reach (start_loop s) l" "session_inv False False s" "\<not> sTerminated s" "lpPC l \<noteq> AtExit"
    and "sState (lpS l) = StAwaitingConnection \<or> sState (lpS l) = StAwaitingRelease
      \<or> data_state (sState (lpS l)) \<and> vVS (sV (lpS l)) \<noteq> vVA (sV (lpS l))"
  shows "(tmOn (sT1 (lpS l)) \<or> TmT1 \<in> unserved l) \<and> (lpPC l = AtSelect \<and> TmT1 \<in> lpPending l \<longrightarrow> lpWakeup l)"
proof -
  have "loop_inv (start_loop s)"
    using assms(2,3) by (simp add: loop_inv_def start_loop_def unserved_def)
  then have inv: "loop_inv l" using loop_reach_inv[OF assms(1)] by blast
  then have "timer_inv (TmT1 \<in> unserved l) (TmT3 \<in> unserved l) (lpS l)"
    using assms(4) by (simp add: loop_inv_def session_inv_def)
  then show ?thesis using inv assms(5) by (auto simp: loop_inv_def timer_inv_def data_state_def)
qed

theorem waiting_session_is_clocked_witness:
  "\<exists>l. loop_reach (start_loop example_link) l \<and> TmT1 \<in> unserved l \<and> \<not> tmOn (sT1 (lpS l))"
proof -
  let ?l = "signalTimer TmT1 (start_loop example_link\<lparr>lpS := timer_expired TmT1 example_link\<rparr>)"
  have on: "timer_on TmT1 (lpS (start_loop example_link))" by (simp add: start_loop_def example_link_def)
  have "loop_step (start_loop example_link) (signalTimer TmT1 (start_loop example_link\<lparr>lpS := timer_expired TmT1 (lpS (start_loop example_link))\<rparr>))"
    by (rule loop_timer[OF on])
  then have step: "loop_step (start_loop example_link) ?l" by (simp add: start_loop_def)
  have r: "loop_reach (start_loop example_link) ?l"
    by (rule loop_more[OF loop_start step]) (simp add: start_loop_def)
  have "\<not> tmOn (sT1 (lpS ?l))" by (simp add: signalTimer_def t1_stop_def timer_stop_def)
  moreover have "data_state (sState (lpS ?l)) \<and> vVS (sV (lpS ?l)) \<noteq> vVA (sV (lpS ?l))" "lpPC ?l \<noteq> AtExit"
    by (simp_all add: signalTimer_def start_loop_def t1_stop_def example_link_def data_state_def zero_vars_def)
  ultimately show ?thesis
    using waiting_session_is_clocked[OF r example_link_inv example_link_fields(5)] r by blast
qed

end
