(* ===== verification/LAPB_Manager.thy ===== *)
theory LAPB_Manager
  imports LAPB_Loop "HOL-Library.AList"
begin

text \<open>
  The session manager (\<^verbatim>\<open>pkg/ax25conn/manager.go\<close>): the table of live sessions, its caps,
  and the routing of received frames to the session that owns their triple.

  The two maps of the code share \<^verbatim>\<open>managedSession\<close> pointers; here \<open>mgByKey\<close> maps a key to
  the session's id and \<open>mgByID\<close> an id to the shared object. The configured channel modes are
  a parameter (\<open>None\<close>: no lookup installed). Maps are association lists, so that their size
  is the \<^verbatim>\<open>len\<close> of the code.
\<close>

section \<open>State\<close>

datatype mgr_err =
    ErrManagerClosed
  | ErrChannelAPRSOnly nat
  | ErrMaxTotal
  | ErrMaxPerOperator
  | ErrSessionExists
  | ErrSessionConfig

definition ChannelModeAPRS :: string where "ChannelModeAPRS = ''aprs''"

type_synonym session_key = "nat \<times> string \<times> string"

record managed =
  msLoop :: loop
  msOp :: string
  msLastPath :: "address list"
  msCancelled :: bool

record manager =
  mgModes :: "(nat \<Rightarrow> string) option"
  mgMaxPerOperator :: int
  mgMaxTotal :: int
  mgByKey :: "(session_key \<times> nat) list"
  mgByID :: "(nat \<times> managed) list"
  mgNextID :: nat
  mgClosed :: bool

definition NewManager :: "(nat \<Rightarrow> string) option \<Rightarrow> int \<Rightarrow> int \<Rightarrow> manager" where
  "NewManager modes maxPer maxTotal =
     \<lparr>mgModes = modes,
      mgMaxPerOperator = (if maxPer = 0 then 4 else maxPer),
      mgMaxTotal = (if maxTotal = 0 then 64 else maxTotal),
      mgByKey = [], mgByID = [], mgNextID = 0, mgClosed = False\<rparr>"

section \<open>Opening and removing sessions\<close>

definition config_key :: "session_config \<Rightarrow> session_key" where
  "config_key c = (scChannel c, address_string (scLocal c), address_string (scPeer c))"

definition op_of :: "manager \<Rightarrow> nat \<Rightarrow> string option" where
  "op_of m sid = map_option msOp (map_of (mgByID m) sid)"

text \<open>The cap count walks the key table.\<close>

definition op_count :: "string \<Rightarrow> manager \<Rightarrow> nat" where
  "op_count operator m = length (filter (\<lambda>(k, sid). op_of m sid = Some operator) (mgByKey m))"

definition Open :: "session_config \<Rightarrow> string \<Rightarrow> manager \<Rightarrow> mgr_err + (nat \<times> manager)" where
  "Open scfg operator m =
     (if mgClosed m then Inl ErrManagerClosed
      else if (case mgModes m of None \<Rightarrow> False | Some modes \<Rightarrow> modes (scChannel scfg) = ChannelModeAPRS)
      then Inl (ErrChannelAPRSOnly (scChannel scfg))
      else if int (length (mgByKey m)) \<ge> mgMaxTotal m then Inl ErrMaxTotal
      else if int (op_count operator m) \<ge> mgMaxPerOperator m then Inl ErrMaxPerOperator
      else if map_of (mgByKey m) (config_key scfg) \<noteq> None then Inl ErrSessionExists
      else
        (case NewSession scfg of
           None \<Rightarrow> Inl ErrSessionConfig
         | Some s \<Rightarrow>
             let sid = mgNextID m + 1;
                 obj = \<lparr>msLoop = start_loop s, msOp = operator, msLastPath = [], msCancelled = False\<rparr>
             in Inr (sid, m\<lparr>mgNextID := sid,
                           mgByKey := AList.update (config_key scfg) sid (mgByKey m),
                           mgByID := AList.update sid obj (mgByID m)\<rparr>)))"

text \<open>Called by the goroutine of a session once its \<^verbatim>\<open>Run\<close> has returned.\<close>

definition remove :: "session_key \<Rightarrow> nat \<Rightarrow> manager \<Rightarrow> manager" where
  "remove k sid m = m\<lparr>mgByKey := AList.delete k (mgByKey m), mgByID := AList.delete sid (mgByID m)\<rparr>"

section \<open>Dispatch\<close>

text \<open>The digipeaters the frame has traversed, for display.\<close>

definition normalizeInboundPath :: "lframe \<Rightarrow> address list" where
  "normalizeInboundPath f = map (\<lambda>a. a\<lparr>Repeated := False\<rparr>) (takeWhile Repeated (lfPath f))"

definition mg_update :: "nat \<Rightarrow> (managed \<Rightarrow> managed) \<Rightarrow> manager \<Rightarrow> manager" where
  "mg_update sid g m =
     (case map_of (mgByID m) sid of
        None \<Rightarrow> m
      | Some obj \<Rightarrow> m\<lparr>mgByID := AList.update sid (g obj) (mgByID m)\<rparr>)"

definition deliver :: "nat \<Rightarrow> lframe \<Rightarrow> manager \<Rightarrow> manager" where
  "deliver sid f =
     mg_update sid (\<lambda>obj. obj\<lparr>msLastPath := normalizeInboundPath f,
                           msLoop := enqueue (EventFrameRX (Some f)) (msLoop obj)\<rparr>)"

definition header_key :: "nat \<Rightarrow> address \<Rightarrow> address \<Rightarrow> session_key" where
  "header_key channel dest source = (channel, address_string dest, address_string source)"

text \<open>The session is found from the address header, its modulus then decides the decoding.\<close>

definition DispatchRaw :: "nat \<Rightarrow> bytes \<Rightarrow> manager \<Rightarrow> manager" where
  "DispatchRaw channel raw m =
     (case DecodeAddressBlock raw of
        Inl _ \<Rightarrow> m
      | Inr hdr \<Rightarrow>
          (case map_of (mgByKey m) (header_key channel (abDest hdr) (abSource hdr)) of
             None \<Rightarrow> m
           | Some sid \<Rightarrow>
               (case map_of (mgByID m) sid of
                  None \<Rightarrow> m
                | Some obj \<Rightarrow>
                    (case lapb_Decode raw (sMod128Bit (lpS (msLoop obj))) of
                       Inl _ \<Rightarrow> m
                     | Inr f \<Rightarrow> deliver sid f m))))"

definition Dispatch :: "nat \<Rightarrow> lframe option \<Rightarrow> manager \<Rightarrow> manager" where
  "Dispatch channel fo m =
     (case fo of
        None \<Rightarrow> m
      | Some f \<Rightarrow>
          (case map_of (mgByKey m) (header_key channel (lfDest f) (lfSource f)) of
             None \<Rightarrow> m
           | Some sid \<Rightarrow> deliver sid f m))"

definition LastPath :: "nat \<Rightarrow> manager \<Rightarrow> address list" where
  "LastPath sid m = (case map_of (mgByID m) sid of None \<Rightarrow> [] | Some obj \<Rightarrow> msLastPath obj)"

definition Count :: "manager \<Rightarrow> nat" where
  "Count m = length (mgByKey m)"

definition Close :: "manager \<Rightarrow> manager" where
  "Close m =
     (if mgClosed m then m
      else m\<lparr>mgClosed := True, mgByID := map (\<lambda>(sid, obj). (sid, if sid \<in> snd ` set (mgByKey m) then obj\<lparr>msCancelled := True\<rparr> else obj)) (mgByID m)\<rparr>)"

section \<open>Operations and invariant\<close>

text \<open>
  What happens to a manager: an attempt to open, the exit of a session, received frames, the
  progress of a session's own loop, closing.
\<close>

datatype mgr_op =
    MgOpen session_config string
  | MgExit session_key nat
  | MgRaw nat bytes
  | MgFrame nat "lframe option"
  | MgLoop nat loop
  | MgClose

fun mgr_apply :: "mgr_op \<Rightarrow> manager \<Rightarrow> manager" where
  "mgr_apply (MgOpen scfg operator) m = (case Open scfg operator m of Inl _ \<Rightarrow> m | Inr (_, m') \<Rightarrow> m')"
| "mgr_apply (MgExit k sid) m = (if map_of (mgByKey m) k = Some sid then remove k sid m else m)"
| "mgr_apply (MgRaw ch raw) m = DispatchRaw ch raw m"
| "mgr_apply (MgFrame ch fo) m = Dispatch ch fo m"
| "mgr_apply (MgLoop sid l) m = mg_update sid (\<lambda>obj. obj\<lparr>msLoop := l\<rparr>) m"
| "mgr_apply MgClose m = Close m"

definition mgr_inv :: "manager \<Rightarrow> bool" where
  "mgr_inv m \<longleftrightarrow>
     distinct (map fst (mgByKey m)) \<and> distinct (map fst (mgByID m)) \<and> distinct (map snd (mgByKey m))
     \<and> snd ` set (mgByKey m) = fst ` set (mgByID m)
     \<and> (\<forall>sid \<in> fst ` set (mgByID m). sid \<le> mgNextID m)
     \<and> int (Count m) \<le> max 0 (mgMaxTotal m)
     \<and> (\<forall>operator. int (op_count operator m) \<le> max 0 (mgMaxPerOperator m))"

lemma op_count_cong:
  "mgByKey m' = mgByKey m \<Longrightarrow> (\<And>sid. sid \<in> snd ` set (mgByKey m) \<Longrightarrow> op_of m' sid = op_of m sid)
    \<Longrightarrow> op_count operator m' = op_count operator m"
  unfolding op_count_def by (rule arg_cong[where f = length], rule filter_cong) force+

lemma mgr_inv_cong:
  assumes "mgr_inv m" "mgByKey m' = mgByKey m" "map fst (mgByID m') = map fst (mgByID m)"
    "\<And>sid. op_of m' sid = op_of m sid" "mgNextID m' = mgNextID m" "mgMaxTotal m' = mgMaxTotal m"
    "mgMaxPerOperator m' = mgMaxPerOperator m"
  shows "mgr_inv m'"
proof -
  have "fst ` set (mgByID m') = fst ` set (mgByID m)" using arg_cong[OF assms(3), of set] by simp
  moreover have "op_count x m' = op_count x m" for x by (rule op_count_cong) (simp_all add: assms)
  ultimately show ?thesis using assms by (simp add: mgr_inv_def Count_def)
qed

lemma mg_update_inv:
  assumes "mgr_inv m" "\<And>obj. msOp (g obj) = msOp obj" shows "mgr_inv (mg_update sid g m)"
proof (cases "map_of (mgByID m) sid")
  case (Some obj)
  then have "sid \<in> fst ` set (mgByID m)" by (force dest: map_of_SomeD)
  then have "map fst (AList.update sid (g obj) (mgByID m)) = map fst (mgByID m)"
    by (simp add: update_keys)
  moreover have "op_of (mg_update sid g m) x = op_of m x" for x
    using Some assms(2) by (simp add: op_of_def mg_update_def update_conv')
  ultimately show ?thesis using assms(1) Some by (intro mgr_inv_cong[OF assms(1)]) (simp_all add: mg_update_def)
qed (simp add: mg_update_def assms)

lemma update_new: "k \<notin> fst ` set xs \<Longrightarrow> AList.update k v xs = xs @ [(k, v)]"
  by (induction xs) auto

lemma Open_effect:
  assumes "Open scfg operator m = Inr (sid, m')" "mgr_inv m"
  shows "int (Count m) < mgMaxTotal m" "int (op_count operator m) < mgMaxPerOperator m" "sid = mgNextID m + 1"
    "config_key scfg \<notin> fst ` set (mgByKey m)" "sid \<notin> fst ` set (mgByID m)"
    "mgByKey m' = mgByKey m @ [(config_key scfg, sid)]"
    "\<exists>s. NewSession scfg = Some s \<and> mgByID m' = mgByID m @ [(sid,
        \<lparr>msLoop = start_loop s, msOp = operator, msLastPath = [], msCancelled = False\<rparr>)]"
    "mgNextID m' = sid" "mgMaxTotal m' = mgMaxTotal m" "mgMaxPerOperator m' = mgMaxPerOperator m"
    "mgClosed m' = mgClosed m" "mgModes m' = mgModes m"
proof -
  show "int (Count m) < mgMaxTotal m" "int (op_count operator m) < mgMaxPerOperator m" "sid = mgNextID m + 1"
    "mgNextID m' = sid" "mgMaxTotal m' = mgMaxTotal m" "mgMaxPerOperator m' = mgMaxPerOperator m"
    "mgClosed m' = mgClosed m" "mgModes m' = mgModes m"
    using assms(1) by (auto simp: Open_def Count_def Let_def split: if_splits option.splits)
  have k: "map_of (mgByKey m) (config_key scfg) = None"
    using assms(1) by (auto simp: Open_def split: if_splits)
  then show key: "config_key scfg \<notin> fst ` set (mgByKey m)" by (simp add: map_of_eq_None_iff)
  show sid: "sid \<notin> fst ` set (mgByID m)"
    using assms(2) \<open>sid = mgNextID m + 1\<close> by (auto simp: mgr_inv_def)
  show "mgByKey m' = mgByKey m @ [(config_key scfg, sid)]"
    using assms(1) update_new[OF key] by (auto simp: Open_def Let_def split: if_splits option.splits)
  show "\<exists>s. NewSession scfg = Some s \<and> mgByID m' = mgByID m @ [(sid,
        \<lparr>msLoop = start_loop s, msOp = operator, msLastPath = [], msCancelled = False\<rparr>)]"
    using assms(1) update_new[OF sid] by (auto simp: Open_def Let_def split: if_splits option.splits)
qed

lemma Open_op_count:
  assumes "Open scfg operator m = Inr (sid, m')" "mgr_inv m"
  shows "op_count x m' = op_count x m + (if x = operator then 1 else 0)"
proof -
  note e = Open_effect[OF assms]
  obtain s where byid: "mgByID m' = mgByID m @ [(sid, \<lparr>msLoop = start_loop s, msOp = operator, msLastPath = [], msCancelled = False\<rparr>)]"
    using e(7) by blast
  have none: "map_of (mgByID m) sid = None" using e(5) by (simp add: map_of_eq_None_iff)
  have new: "op_of m' sid = Some operator" using none by (simp add: op_of_def byid map_add_def)
  have old: "op_of m' y = op_of m y" if "y \<noteq> sid" for y
    using that by (simp add: op_of_def byid map_add_def split: option.split)
  have "sid \<notin> snd ` set (mgByKey m)" using e(5) assms(2) by (simp add: mgr_inv_def)
  then have "filter (\<lambda>(k, i). op_of m' i = Some x) (mgByKey m) = filter (\<lambda>(k, i). op_of m i = Some x) (mgByKey m)"
    using old by (intro filter_cong) force+
  then show ?thesis using new by (simp add: op_count_def e(6))
qed

lemma Open_inv:
  assumes "Open scfg operator m = Inr (sid, m')" "mgr_inv m" shows "mgr_inv m'"
proof -
  note e = Open_effect[OF assms]
  obtain obj where byid: "mgByID m' = mgByID m @ [(sid, obj)]" using e(7) by blast
  have "sid \<notin> snd ` set (mgByKey m)" using e(5) assms(2) by (simp add: mgr_inv_def)
  moreover have "int (op_count x m') \<le> max 0 (mgMaxPerOperator m')" for x
    using Open_op_count[OF assms, of x] e(2,10) assms(2) by (cases "x = operator") (auto simp: mgr_inv_def)
  ultimately show ?thesis
    using assms(2) e byid by (auto simp: mgr_inv_def Count_def le_SucI)
qed

lemma remove_inv:
  assumes "mgr_inv m" "map_of (mgByKey m) k = Some sid" shows "mgr_inv (remove k sid m)"
proof -
  have d: "distinct (map fst (mgByKey m))" "distinct (map snd (mgByKey m))" "distinct (map fst (mgByID m))"
    "snd ` set (mgByKey m) = fst ` set (mgByID m)" using assms(1) by (simp_all add: mgr_inv_def)
  have kin: "(k, sid) \<in> set (mgByKey m)" using assms(2) by (rule map_of_SomeD)
  have del: "AList.delete k (mgByKey m) = filter (\<lambda>(k', i). i \<noteq> sid) (mgByKey m)"
    unfolding AList.delete_eq
  proof (rule filter_cong)
    fix z assume z: "z \<in> set (mgByKey m)"
    show "(case z of (k', uu) \<Rightarrow> k \<noteq> k') = (case z of (k', i) \<Rightarrow> i \<noteq> sid)"
      using inj_on_eq_iff[of fst "set (mgByKey m)" z "(k, sid)"] inj_on_eq_iff[of snd "set (mgByKey m)" z "(k, sid)"]
        z kin d(1,2) by (auto simp: distinct_map)
  qed simp
  have delid: "AList.delete sid (mgByID m) = filter (\<lambda>(i, obj). i \<noteq> sid) (mgByID m)"
    by (auto simp: AList.delete_eq intro: filter_cong)
  let ?m = "remove k sid m"
  have byk: "mgByKey ?m = filter (\<lambda>(k', i). i \<noteq> sid) (mgByKey m)" and byi: "mgByID ?m = filter (\<lambda>(i, obj). i \<noteq> sid) (mgByID m)"
    by (simp_all add: remove_def del delid)
  have op: "op_of ?m i = op_of m i" if "i \<noteq> sid" for i
    using that by (simp add: op_of_def remove_def delete_conv')
  have cnt: "op_count x ?m \<le> op_count x m" for x
  proof -
    have "filter (\<lambda>(k', i). op_of ?m i = Some x) (mgByKey ?m)
        = filter (\<lambda>(k', i). i \<noteq> sid) (filter (\<lambda>(k', i). op_of m i = Some x) (mgByKey m))"
      unfolding byk filter_filter by (rule filter_cong) (auto simp: op)
    then show ?thesis by (simp only: op_count_def length_filter_le)
  qed
  have len: "Count ?m \<le> Count m" by (simp add: Count_def byk)
  have "snd ` set (mgByKey ?m) = fst ` set (mgByID ?m)"
    unfolding byk byi using d(4) by (force simp: image_iff)
  moreover have "distinct (map fst (mgByKey ?m))" "distinct (map snd (mgByKey ?m))" "distinct (map fst (mgByID ?m))"
    unfolding byk byi using d by (simp_all add: distinct_map_filter)
  moreover have "\<forall>i \<in> fst ` set (mgByID ?m). i \<le> mgNextID ?m"
    using assms(1) unfolding byi by (auto simp: mgr_inv_def remove_def)
  moreover have "int (op_count x ?m) \<le> max 0 (mgMaxPerOperator ?m)" for x
    using cnt[of x] assms(1) by (force simp: mgr_inv_def remove_def dest: spec[of _ x])
  moreover have "int (Count ?m) \<le> max 0 (mgMaxTotal ?m)"
    using len assms(1) by (simp add: mgr_inv_def) (simp add: remove_def)
  ultimately show ?thesis by (simp add: mgr_inv_def)
qed

lemma deliver_inv: "mgr_inv m \<Longrightarrow> mgr_inv (deliver sid f m)"
  unfolding deliver_def by (rule mg_update_inv) simp_all

lemma map_of_cancel:
  "map_of (map (\<lambda>(sid, obj). (sid, if sid \<in> S then g obj else obj)) xs) i
     = map_option (\<lambda>obj. if i \<in> S then g obj else obj) (map_of xs i)"
  by (induction xs) auto

lemma Close_inv: "mgr_inv m \<Longrightarrow> mgr_inv (Close m)"
proof -
  assume inv: "mgr_inv m"
  have "op_of (Close m) i = op_of m i" for i
    by (cases "map_of (mgByID m) i") (simp_all add: op_of_def Close_def map_of_cancel)
  moreover have "map fst (mgByID (Close m)) = map fst (mgByID m)" by (auto simp: Close_def)
  ultimately show ?thesis by (intro mgr_inv_cong[OF inv]) (simp_all add: Close_def)
qed

lemma mgr_apply_inv: "mgr_inv m \<Longrightarrow> mgr_inv (mgr_apply act m)"
proof (cases act)
  case (MgOpen scfg operator)
  assume "mgr_inv m"
  then show ?thesis using MgOpen Open_inv by (auto split: sum.split)
next
  case (MgExit k sid)
  assume "mgr_inv m"
  then show ?thesis using MgExit remove_inv by auto
next
  case (MgRaw ch raw)
  assume "mgr_inv m"
  then show ?thesis using MgRaw deliver_inv by (auto simp: DispatchRaw_def split: sum.split option.split)
next
  case (MgFrame ch fo)
  assume "mgr_inv m"
  then show ?thesis using MgFrame deliver_inv by (auto simp: Dispatch_def split: option.split)
next
  case (MgLoop sid l)
  assume "mgr_inv m"
  then show ?thesis using MgLoop by (auto intro: mg_update_inv)
next
  case MgClose
  assume "mgr_inv m"
  then show ?thesis using MgClose Close_inv by simp
qed

lemma mgr_run_inv: "mgr_inv m \<Longrightarrow> mgr_inv (fold mgr_apply acts m)"
  by (induction acts arbitrary: m) (auto intro: mgr_apply_inv)

lemma NewManager_inv: "mgr_inv (NewManager modes a b)"
  by (simp add: mgr_inv_def NewManager_def Count_def op_count_def)

section \<open>Properties\<close>

text \<open>
  Property C7. The manager's table is sound after any sequence of operations: at most
  \<open>MaxTotal\<close> sessions and at most \<open>MaxPerOperator\<close> per operator are live, keys and ids
  are unique, and every key leads to a session object.
\<close>

theorem manager_caps_hold:
  assumes "0 \<le> maxPer" "0 \<le> maxTotal" "m = fold mgr_apply acts (NewManager modes maxPer maxTotal)"
  shows "int (Count m) \<le> (if maxTotal = 0 then 64 else maxTotal)
    \<and> int (op_count operator m) \<le> (if maxPer = 0 then 4 else maxPer)
    \<and> distinct (map fst (mgByKey m)) \<and> distinct (map snd (mgByKey m))
    \<and> snd ` set (mgByKey m) = fst ` set (mgByID m)"
proof -
  have fixed: "mgMaxTotal (mgr_apply act m) = mgMaxTotal m \<and> mgMaxPerOperator (mgr_apply act m) = mgMaxPerOperator m" for act m
    by (cases act) (auto simp: Open_def Let_def remove_def DispatchRaw_def Dispatch_def deliver_def mg_update_def Close_def
        split: sum.splits option.splits if_splits)
  have "mgMaxTotal (fold mgr_apply acts m0) = mgMaxTotal m0 \<and> mgMaxPerOperator (fold mgr_apply acts m0) = mgMaxPerOperator m0" for m0
    by (induction acts arbitrary: m0) (simp_all add: fixed)
  then have "mgMaxTotal m = mgMaxTotal (NewManager modes maxPer maxTotal)"
    "mgMaxPerOperator m = mgMaxPerOperator (NewManager modes maxPer maxTotal)"
    using assms(3) by blast+
  moreover have "mgr_inv m" unfolding assms(3) by (intro mgr_run_inv NewManager_inv)
  ultimately show ?thesis
    using assms(1,2) by (auto simp: mgr_inv_def NewManager_def split: if_splits dest: spec[of _ operator])
qed

text \<open>Two operators open the same triple; the second is refused.\<close>

definition example_mgr :: manager where
  "example_mgr = fold mgr_apply [MgOpen example_cfg ''alice'', MgOpen example_cfg ''bob''] (NewManager None 0 0)"

theorem manager_caps_hold_witness:
  "int (Count example_mgr) \<le> 64 \<and> int (op_count ''alice'' example_mgr) \<le> 4
    \<and> snd ` set (mgByKey example_mgr) = fst ` set (mgByID example_mgr)"
  using manager_caps_hold[of 0 0 example_mgr "[MgOpen example_cfg ''alice'', MgOpen example_cfg ''bob'']" None "''alice''"]
  by (simp add: example_mgr_def)

lemma deliver_effect:
  assumes "map_of (mgByID m) sid = Some obj"
  shows "map_of (mgByID (deliver sid f m)) sid = Some (obj\<lparr>msLastPath := normalizeInboundPath f,
           msLoop := enqueue (EventFrameRX (Some f)) (msLoop obj)\<rparr>)"
    "other \<noteq> sid \<Longrightarrow> map_of (mgByID (deliver sid f m)) other = map_of (mgByID m) other"
  using assms by (simp_all add: deliver_def mg_update_def update_conv')

lemma lapb_Decode_header:
  "lapb_Decode raw md = Inr f \<Longrightarrow>
     \<exists>hdr. DecodeAddressBlock raw = Inr hdr \<and> abDest hdr = lfDest f \<and> abSource hdr = lfSource f"
  by (cases "DecodeAddressBlock raw")
    (auto simp: lapb_Decode_def try_bind_Inr Let_def split: if_splits)

text \<open>
  What a peer sends arrives at its session and nowhere else: the encoding of a
  well-formed frame, received on the session's channel, is decoded under the modulus of the
  session bound to (channel, destination, source) and queued there as the very frame the peer
  built; the traversed path is recorded; every other session is left alone.
\<close>

theorem DispatchRaw_routes:
  assumes "wf_lframe f" "lapb_Encode f = Inr raw"
    and "map_of (mgByKey m) (header_key ch (lfDest f) (lfSource f)) = Some sid"
    and "map_of (mgByID m) sid = Some obj" "sMod128Bit (lpS (msLoop obj)) = lfMod128 f"
    and "length (lpIn (msLoop obj)) < inputCap"
  shows "\<exists>obj'. map_of (mgByID (DispatchRaw ch raw m)) sid = Some obj'
    \<and> lpIn (msLoop obj') = lpIn (msLoop obj) @ [EventFrameRX (Some f)]
    \<and> msLastPath obj' = normalizeInboundPath f
    \<and> (\<forall>other. other \<noteq> sid \<longrightarrow> map_of (mgByID (DispatchRaw ch raw m)) other = map_of (mgByID m) other)"
proof -
  have dec: "lapb_Decode raw (lfMod128 f) = Inr f"
    using lapb_frame_roundtrip_aux[OF assms(1)] assms(2) by auto
  obtain hdr where hdr: "DecodeAddressBlock raw = Inr hdr" "abDest hdr = lfDest f" "abSource hdr = lfSource f"
    using lapb_Decode_header[OF dec] by blast
  have "DispatchRaw ch raw m = deliver sid f m"
    using hdr dec assms(3-5) by (simp add: DispatchRaw_def)
  then show ?thesis
    using deliver_effect[OF assms(4)] assms(6) by (simp add: enqueue_def)
qed

text \<open>A session with the peer of \<^const>\<open>example_iframe\<close>, and that frame on the air.\<close>

definition example_mgr128 :: manager where
  "example_mgr128 = mgr_apply (MgOpen (example_cfg\<lparr>scLocal := lfDest example_iframe, scPeer := lfSource example_iframe,
     scMod128 := True\<rparr>) ''alice'') (NewManager None 0 0)"

theorem DispatchRaw_routes_witness:
  "\<exists>raw obj. lapb_Encode example_iframe = Inr raw
     \<and> map_of (mgByID (DispatchRaw 1 raw example_mgr128)) 1 = Some obj
     \<and> lpIn (msLoop obj) = [EventFrameRX (Some example_iframe)]"
proof -
  obtain raw where raw: "lapb_Encode example_iframe = Inr raw"
    using lapb_frame_roundtrip_aux[OF example_iframe_wf] by blast
  let ?c = "example_cfg\<lparr>scLocal := lfDest example_iframe, scPeer := lfSource example_iframe, scMod128 := True\<rparr>"
  let ?k = "header_key 1 (lfDest example_iframe) (lfSource example_iframe)"
  have calls: "Call (scLocal ?c) \<noteq> []" "Call (scPeer ?c) \<noteq> []" by (simp_all add: example_iframe_def)
  have ad: "scLocal (applyDefaults ?c) = scLocal ?c" "scPeer (applyDefaults ?c) = scPeer ?c" "scMod128 (applyDefaults ?c)"
    by (simp_all add: applyDefaults_def Let_def)
  then obtain s where s: "NewSession ?c = Some s" "sMod128Bit s"
    using calls by (simp add: NewSession_def Let_def)
  have key: "config_key ?c = ?k" by (simp add: config_key_def header_key_def example_cfg_def)
  let ?obj = "\<lparr>msLoop = start_loop s, msOp = ''alice'', msLastPath = [], msCancelled = False\<rparr>"
  have m: "mgByKey example_mgr128 = [(?k, 1)]" "mgByID example_mgr128 = [(1, ?obj)]"
    using s(1) key by (simp_all add: example_mgr128_def Open_def NewManager_def op_count_def Let_def)
  have "lfMod128 example_iframe" by (simp add: example_iframe_def)
  then show ?thesis
    using DispatchRaw_routes[OF example_iframe_wf raw, of example_mgr128 1 1 ?obj] m s(2) raw
    by (auto simp: start_loop_def inputCap_def)
qed

text \<open>
  A triple whose session has ended can be opened again: once its goroutine has
  removed it, \<open>Open\<close> does not refuse the triple as existing.
\<close>

theorem reopen_after_exit:
  assumes "mgr_inv m" "map_of (mgByKey m) (config_key scfg) = Some sid"
  shows "Open scfg operator m \<noteq> Inr r
    \<and> Open scfg operator (mgr_apply (MgExit (config_key scfg) sid) m) \<noteq> Inl ErrSessionExists"
proof -
  have "map_of (mgByKey (mgr_apply (MgExit (config_key scfg) sid) m)) (config_key scfg) = None"
    using assms(2) by (simp add: remove_def delete_conv')
  then show ?thesis using assms(2) by (auto simp: Open_def Let_def split: option.split)
qed

theorem reopen_after_exit_witness:
  "\<exists>r. Open example_cfg ''bob'' example_mgr \<noteq> Inr r
    \<and> Open example_cfg ''bob'' (mgr_apply (MgExit (config_key example_cfg) 1) example_mgr) \<noteq> Inl ErrSessionExists"
proof -
  have inv: "mgr_inv example_mgr" unfolding example_mgr_def by (intro mgr_run_inv NewManager_inv)
  have calls: "Call (scLocal example_cfg) \<noteq> []" "Call (scPeer example_cfg) \<noteq> []" by (simp_all add: example_cfg_def)
  moreover have "scLocal (applyDefaults example_cfg) = scLocal example_cfg" "scPeer (applyDefaults example_cfg) = scPeer example_cfg"
    by (simp_all add: applyDefaults_def Let_def)
  ultimately obtain s where "NewSession example_cfg = Some s" by (simp add: NewSession_def Let_def)
  then have "map_of (mgByKey example_mgr) (config_key example_cfg) = Some 1"
    by (simp add: example_mgr_def Open_def NewManager_def op_count_def op_of_def Let_def)
  from reopen_after_exit[OF inv this, of "''bob''"] show ?thesis by blast
qed

end
