(* ===== verification/LAPB_Limits.thy ===== *)
theory LAPB_Limits
  imports LAPB_Link
begin

text \<open>
  Where the session falls short of its contract: the inputs that \<^const>\<open>ev_ok\<close>,
  \<^const>\<open>rebind_safe\<close> and \<^const>\<open>cfg_ok\<close> exclude, the state in which no timer runs, and
  the modulus the transmit path forgets.
\<close>

section \<open>Loops that do not end\<close>

lemma requeue_loop_diverges_aux:
  assumes "requeue_loop md vs i buf p = Some r" "seq_mod md" "md \<le> vs" shows "i = vs"
proof -
  have "seq_mod md \<and> md \<le> vs \<longrightarrow> i = vs"
  proof (rule requeue_loop.raw_induct[OF _ assms(1),
      where P = "\<lambda>md vs i buf p r. seq_mod md \<and> md \<le> vs \<longrightarrow> i = vs"])
    fix f md vs i buf p
    fix r :: "bytes \<times> (u8 \<Rightarrow> lframe option)"
    assume IH: "\<And>md vs i buf p y. f md vs i buf p = Some y \<Longrightarrow> seq_mod md \<and> md \<le> vs \<longrightarrow> i = vs"
      and eq: "(if i = vs then Some (buf, p)
          else case p i of None \<Rightarrow> f md vs ((i + 1) mod md) buf p
            | Some fr \<Rightarrow> f md vs ((i + 1) mod md) (buf @ lfInfo fr) (p(i := None))) = Some r"
    show "seq_mod md \<and> md \<le> vs \<longrightarrow> i = vs"
    proof (rule impI, rule ccontr)
      assume a: "seq_mod md \<and> md \<le> vs" "i \<noteq> vs"
      then obtain b q where "f md vs ((i + 1) mod md) b q = Some r" using eq by (auto split: option.splits)
      then have "(i + 1) mod md = vs" using IH a(1) by blast
      then show False using a(1) seq_succ_less[of md i] by auto
    qed
  qed
  with assms show ?thesis by simp
qed

lemma requeue_loop_diverges:
  "seq_mod md \<Longrightarrow> md \<le> vs \<Longrightarrow> i \<noteq> vs \<Longrightarrow> requeue_loop md vs i buf p = None"
  using requeue_loop_diverges_aux[of md vs i buf p] by (cases "requeue_loop md vs i buf p") auto

text \<open>
  A connected modulo-128 session whose send variable has passed 7 and that has
  unacknowledged frames never returns from a SABM: the rebind switches to modulo 8 first and
  then walks modulo 8 towards a sequence number it cannot reach.
\<close>

theorem rebind_hangs:
  assumes "data_state (sState s)" "scMod128 (sCfg s)" "8 \<le> vVS (sV s)" "vVA (sV s) \<noteq> vVS (sV s)"
    and "cKind (lfControl f) = FrameSABM" "lfIsCommand f"
  shows "handle e (EventFrameRX (Some f)) s = None"
proof -
  have "requeueFromVA (rebind_base f s) = None"
    using requeue_loop_diverges[of 8 "vVS (sV s)" "vVA (sV s)"] assms(3-5)
    by (simp add: requeueFromVA_def rebind_base_fields modulus_def seq_mod_def)
  then have "rx_rebind e f s = None"
    by (simp add: rx_rebind_def requeueAllPending_def rebind_base_def Let_def)
  then have "handle_state e (EventFrameRX (Some f)) s = None"
    using assms(1,5,6)
    by (auto simp: handle_state_def data_state_def onConnected_def onTimerRecovery_def rx_connected_def
        rx_timer_recovery_def Let_def)
  then show ?thesis by (simp add: handle_def)
qed

definition example_sabm :: lframe where
  "example_sabm = (example_rr 0)\<lparr>lfControl := mk_control FrameSABM 0 0 True, lfIsCommand := True\<rparr>"

text \<open>A modulo-128 session with frames 8 and 9 outstanding.\<close>

definition example_link128 :: session where
  "example_link128 = example_link
     \<lparr>sCfg := example_cfg\<lparr>scMod128 := True, scWindow := 32\<rparr>, sMod128Bit := True,
      sV := zero_vars\<lparr>vVS := 10, vVA := 8\<rparr>, sPending := (\<lambda>i. if i \<in> {8, 9} then Some (example_slot i) else None)\<rparr>"

theorem rebind_hangs_witness:
  "session_inv False False example_link128
   \<and> handle example_env (EventFrameRX (Some example_sabm)) example_link128 = None"
proof
  have m: "modulus example_link128 = 128" by (simp add: modulus_def example_link128_def)
  have o: "outstanding example_link128 = 2"
    by (simp add: outstanding_def m) (simp add: example_link128_def)
  have w: "window_seqs example_link128 = [8, 9]"
    by (simp add: window_seqs_def m o numeral_2_eq_2) (simp add: example_link128_def)
  show "session_inv False False example_link128"
    by (simp add: session_inv_def timer_inv_def data_inv_def m o w cfg_ok_def seq_ok_def)
      (simp add: example_link128_def example_link_def example_cfg_def zero_vars_def slot_ok_def example_slot_def mk_control_def)
  show "handle example_env (EventFrameRX (Some example_sabm)) example_link128 = None"
    by (rule rebind_hangs)
      (simp_all add: example_link128_def example_link_def data_state_def example_sabm_def mk_control_def)
qed

text \<open>
  An acknowledgement number outside the modulus also never returns: \<open>validNR\<close>
  reduces it modulo the modulus and lets it through, and the loop of \<open>framesAcked\<close> then
  counts past it for ever. Such a frame is one decoded as modulo 128 and queued before a SABM
  took the session back to modulo 8.
\<close>

theorem foreign_nr_hangs:
  assumes "data_state (sState s)" "seq_ok s" "modulus s \<le> cNR (lfControl f)" "validNR (cNR (lfControl f)) s"
    and "cKind (lfControl f) = FrameI"
  shows "handle e (EventFrameRX (Some f)) s = None"
proof -
  have "framesAcked e (cNR (lfControl f)) s = None"
    using ack_loop_diverges[OF seq_mod_modulus _ assms(3)] assms(2) by (simp add: framesAcked_def seq_ok_def)
  then have "handle_state e (EventFrameRX (Some f)) s = None"
    using assms(1,4,5)
    by (auto simp: handle_state_def data_state_def onConnected_def onTimerRecovery_def rx_connected_def
        rx_timer_recovery_def Let_def)
  then show ?thesis by (simp add: handle_def)
qed

theorem foreign_nr_hangs_witness:
  "\<exists>f. cNR (lfControl f) < 128 \<and> handle example_env (EventFrameRX (Some f)) example_link = None"
proof (intro exI conjI)
  let ?f = "example_iframe3\<lparr>lfControl := mk_control FrameI 3 14 False\<rparr>"
  show "cNR (lfControl ?f) < 128" by (simp add: mk_control_def)
  show "handle example_env (EventFrameRX (Some ?f)) example_link = None"
  proof (rule foreign_nr_hangs)
    show "seq_ok example_link" using example_link_inv by (simp add: session_inv_def data_inv_def example_link_fields data_state_def)
    show "validNR (cNR (lfControl ?f)) example_link"
      by (simp add: validNR_def example_link_fields mk_control_def) (simp add: example_link_def zero_vars_def)
  qed (simp_all add: example_link_fields data_state_def mk_control_def)
qed

section \<open>A state without a clock\<close>

lemma framesAcked_all_stops_T1:
  assumes "seq_ok s" "framesAcked e (vVS (sV s)) s = Some s'"
  shows "\<not> tmOn (sT1 s')"
proof -
  let ?n = "seq_dist (modulus s) (vVA (sV s)) (vVS (sV s))"
  have va: "vVA (sV s) < modulus s" and vs: "vVS (sV s) < modulus s" using assms(1) by (simp_all add: seq_ok_def)
  have "ack_loop (modulus s) (vVS (sV s)) (vVA (sV s)) (sPending s)
     = Some (vVS (sV s), clear_slots (seqs (modulus s) (vVA (sV s)) ?n) (sPending s))"
    using ack_loop_adv[OF seq_mod_modulus va, of ?n "sPending s"] seq_dist_less[OF seq_mod_modulus[of s]]
    by (simp add: adv_dist[OF seq_mod_modulus vs va])
  then obtain v where "s' = t3_reset (calcRTT e (t1_stop v))"
    using assms(2) by (auto simp: framesAcked_def setv_def)
  then show ?thesis by (simp add: t3_reset_def session_simps t1_stop_def timer_stop_def)
qed

lemma kick_idle: "sTxBuf s = [] \<Longrightarrow> vVS (sV s) = vVA (sV s) \<Longrightarrow> kick e s = Some s"
  by (simp add: kick_def kick_loop.simps)

text \<open>
  Timer recovery can be left without a clock: a response that acknowledges
  everything but is not the final answer to the enquiry stops \<open>T1\<close> and stays in timer
  recovery, and when the \<open>T3\<close> it armed expires nothing happens. From then on only the peer
  or the operator can move the session; a peer that is gone is not detected.
\<close>

theorem timer_recovery_unclocked:
  assumes "session_inv p1 p3 s" "sState s = StTimerRecovery" "sTxBuf s = []"
    and "cKind (lfControl f) = FrameRR" "\<not> lfIsCommand f" "\<not> cPF (lfControl f)" "cNR (lfControl f) = vVS (sV s)"
  shows "\<exists>s'. handle e (EventFrameRX (Some f)) s = Some (s', \<not> sTerminated s') \<and> sState s' = StTimerRecovery
    \<and> \<not> tmOn (sT1 s')
    \<and> (\<forall>e'. \<exists>t. handle e' EventT3Expiry s' = Some (t, \<not> sTerminated t) \<and> sState t = StTimerRecovery
          \<and> sT1 t = sT1 s' \<and> sSent t = sSent s' \<and> sOut t = sOut s')"
proof -
  have inv: "data_inv s" using assms(1,2) by (simp add: session_inv_def data_state_def)
  have vs: "vVS (sV s) < modulus s" using inv by (simp add: data_inv_def seq_ok_def)
  let ?t = "rx_busy f s"
  have sd: "same_data s ?t" by (rule same_data_setters)
  have poll: "answer_poll e f ?t = ?t" using assms(5) by (simp add: answer_poll_def)
  have valid: "validNR (vVS (sV s)) s" by (simp add: validNR_dist outstanding_dist)
  obtain u where u: "framesAcked e (vVS (sV s)) ?t = Some u" "data_inv u" "sState u = sState s" "sCfg u = sCfg s"
    using ack_step[OF inv sd vs valid, of e] by metis
  have sq: "seq_ok ?t" using inv same_data_views(7)[OF sd] by (simp add: data_inv_def)
  have "framesAcked e (vVS (sV ?t)) ?t = Some u" using u(1) by (simp add: rx_busy_fields)
  then have off: "\<not> tmOn (sT1 u)" by (rule framesAcked_all_stops_T1[OF sq])
  obtain w where w: "framesAcked e (vVS (sV s)) ?t = Some w" "sTxBuf w = sTxBuf ?t"
    "vVS (sV w) = vVS (sV ?t)" "vVA (sV w) = vVS (sV s)"
    using framesAcked_spec[OF sq, of "vVS (sV s)" e] vs same_data_views(3)[OF sd] by metis
  have idle: "sTxBuf u = []" "vVS (sV u) = vVA (sV u)"
    using w u(1) assms(3) by (simp_all add: rx_busy_fields)
  have v: "validNR (vVS (sV s)) ?t" using valid same_data_views(4)[OF sd] by simp
  have "handle_state e (EventFrameRX (Some f)) s = Some (u, True)"
    using assms(2,4-7) u(1) kick_idle[OF idle, of e] poll v
    by (simp add: handle_state_def onTimerRecovery_def rx_timer_recovery_def run_flow_def then_kick_def Let_def)
  then have h: "handle e (EventFrameRX (Some f)) s = Some (syncOutstanding u, \<not> sTerminated u)"
    by (simp add: handle_def)
  have t3: "handle e' EventT3Expiry (syncOutstanding u)
      = Some (syncOutstanding (syncOutstanding u), \<not> sTerminated u)" for e'
    using kick_idle[of "syncOutstanding u" e'] idle u(3) assms(2)
    by (simp add: handle_def handle_state_def onTimerRecovery_def then_kick_def session_simps)
  show ?thesis
    using h t3 off u(3) assms(2) by (intro exI[of _ "syncOutstanding u"]) (auto simp: session_simps)
qed

theorem timer_recovery_unclocked_witness:
  "\<exists>s'. handle example_env (EventFrameRX (Some (example_rr 1))) (example_link\<lparr>sState := StTimerRecovery, sTxBuf := []\<rparr>)
      = Some (s', \<not> sTerminated s') \<and> sState s' = StTimerRecovery \<and> \<not> tmOn (sT1 s')"
proof -
  let ?s = "example_link\<lparr>sState := StTimerRecovery, sTxBuf := []\<rparr>"
  have "data_inv ?s = data_inv example_link" "cfg_ok ?s = cfg_ok example_link"
    by (rule data_inv_cong, simp_all, rule cfg_ok_cong, simp)
  then have "session_inv True True ?s"
    using example_link_inv by (simp add: session_inv_def timer_inv_def data_state_def example_link_fields)
  moreover have "cNR (lfControl (example_rr 1)) = vVS (sV ?s)"
    by (simp add: example_rr_def mk_control_def) (simp add: example_link_def zero_vars_def)
  ultimately show ?thesis
    using timer_recovery_unclocked[of True True ?s "example_rr 1" example_env]
    by (auto simp: example_rr_def mk_control_def)
qed

text \<open>
  The housekeeping heartbeat does not survive a slow set-up: a tick that falls in
  the set-up state does not re-arm the timer, and the UA that connects the link later does not
  either, so a link whose set-up takes longer than one tick never has a heartbeat.
\<close>

theorem heartbeat_lost_in_setup:
  assumes "sState s = StAwaitingConnection" "\<not> tmOn (sHB s)" "cKind (lfControl f) = FrameUA" "cPF (lfControl f)"
    and "handle e EventHeartbeat s = Some (s1, c1)" "handle e' (EventFrameRX (Some f)) s1 = Some (s2, c2)"
  shows "sState s2 = StConnected \<and> \<not> tmOn (sHB s2)"
proof -
  have s1: "s1 = syncOutstanding s" using assms(1,5) by (simp add: handle_def heartbeatTick_def)
  then have "sState s1 = StAwaitingConnection" "\<not> tmOn (sHB s1)" using assms(1,2) by (simp_all add: session_simps)
  then show ?thesis
    using assms(3,4,6)
    by (auto simp: handle_def handle_state_def onAwaitingConnection_def rx_awaiting_connection_def session_simps
        t3_reset_def t1_stop_def zero_seq_def set_n2count_def setv_def split: option.splits)
qed

definition example_setup :: session where
  "example_setup = example_link\<lparr>sState := StAwaitingConnection, sHB := new_timer DefaultHeartbeat\<rparr>"

theorem heartbeat_lost_in_setup_witness:
  "\<exists>s1 s2 c1 c2. handle example_env EventHeartbeat example_setup = Some (s1, c1)
     \<and> handle example_env (EventFrameRX (Some (example_rr 0\<lparr>lfControl := mk_control FrameUA 0 0 True\<rparr>))) s1 = Some (s2, c2)
     \<and> sState s2 = StConnected \<and> \<not> tmOn (sHB s2)"
proof -
  let ?f = "example_rr 0\<lparr>lfControl := mk_control FrameUA 0 0 True\<rparr>"
  have s: "sState example_setup = StAwaitingConnection" "\<not> tmOn (sHB example_setup)"
    by (simp_all add: example_setup_def new_timer_def)
  have f: "cKind (lfControl ?f) = FrameUA" "cPF (lfControl ?f)" by (simp_all add: mk_control_def)
  obtain s1 c1 where h1: "handle example_env EventHeartbeat example_setup = Some (s1, c1)"
    by (simp add: handle_def)
  have "s1 = syncOutstanding example_setup" using h1 s(1) by (simp add: handle_def heartbeatTick_def)
  then obtain s2 c2 where h2: "handle example_env (EventFrameRX (Some ?f)) s1 = Some (s2, c2)"
    using s(1) by (auto simp: handle_def handle_state_def onAwaitingConnection_def session_simps)
  from heartbeat_lost_in_setup[OF s f h1 h2] h1 h2 show ?thesis by blast
qed

section \<open>The modulus on the wire\<close>

lemma submit_unencodable: "ToAX25Frame f = Inl err \<Longrightarrow> submit e f s = s"
  by (simp add: submit_def)

lemma next_iframe_unencodable:
  assumes "8 \<le> vVS (sV s)" shows "ToAX25Frame (next_iframe n s) = Inl NSNROverflow"
proof -
  have "7 < vVS (sV s)" using assms by (simp add: word_less_nat_alt word_le_nat_alt)
  then show ?thesis
    by (simp add: ToAX25Frame_def next_iframe_def mk_frame_def mk_control_def EncodeControl_def encode_mod8_def)
qed

text \<open>
  The transmit helpers build their frames without the extended-control flag, so a
  modulo-128 session writes one-octet control fields. Once the send variable has passed 7 an
  I-frame cannot be encoded at all: it is logged and dropped, nothing reaches the sink, and
  the session numbers and stores it as sent.
\<close>

theorem extended_iframe_never_sent:
  assumes "scMod128 (sCfg s)" "8 \<le> vVS (sV s)"
  shows "sSent (send_next e n s) = sSent s \<and> sSubmits (send_next e n s) = sSubmits s
    \<and> sPending (send_next e n s) (vVS (sV s)) \<noteq> None \<and> vVS (sV (send_next e n s)) = (vVS (sV s) + 1) mod 128"
proof -
  let ?t = "s\<lparr>sTxBuf := drop n (sTxBuf s), sPending := (sPending s)(vVS (sV s) := Some (next_iframe n s))\<rparr>"
  have "send_next e n s = setv (\<lambda>v. v\<lparr>vVS := (vVS v + 1) mod modulus ?t\<rparr>) ?t"
    using submit_unencodable[OF next_iframe_unencodable[OF assms(2), of n], of e]
    by (simp add: send_next_def next_iframe_def Let_def)
  moreover have "modulus ?t = 128" using assms(1) by (simp add: modulus_def)
  ultimately show ?thesis by (simp add: setv_def)
qed

theorem extended_iframe_never_sent_witness:
  "sSent (send_next example_env 1 example_link128) = []
   \<and> sPending (send_next example_env 1 example_link128) 10 \<noteq> None"
proof -
  have v: "scMod128 (sCfg example_link128)" "8 \<le> vVS (sV example_link128)" "vVS (sV example_link128) = 10"
    "sSent example_link128 = []"
    by (simp_all add: example_link128_def) (simp add: example_link_def)
  from extended_iframe_never_sent[OF v(1,2), of example_env 1] v(3,4) show ?thesis by simp
qed

section \<open>The retransmission timeout\<close>

definition clamped_rtt :: "session \<Rightarrow> int" where
  "clamped_rtt s =
     (let rtt = (if vRTT (sV s) = 0 then scT1 (sCfg s) sdiv 2 else vRTT (sV s));
          rtt = (if rtt < RTTClampLo then RTTClampLo else rtt)
      in if rtt > RTTClampHi then RTTClampHi else rtt)"

lemma clamped_rtt_bounds: "1000000 \<le> clamped_rtt s" "clamped_rtt s \<le> 30000000000"
  by (simp_all add: clamped_rtt_def RTTClampLo_def RTTClampHi_def ms_def seconds_def Let_def)

lemma nextT1_exponential:
  "scBackoff (sCfg s) = BackoffExponential \<Longrightarrow> nextT1 s =
     (let n = vN2Count (sV s); shift = (if n < 0 \<or> n > 30 then 30 else nat n);
          d = i64 (i64 (2 ^ shift * 2) * clamped_rtt s);
          d = (if d > 8 * clamped_rtt s then 8 * clamped_rtt s else d)
      in if d < 2 * clamped_rtt s then 2 * clamped_rtt s else d)"
  by (simp add: nextT1_def clamped_rtt_def Let_def)

lemma nextT1_other:
  "scBackoff (sCfg s) = BackoffNone \<Longrightarrow> nextT1 s = 2 * clamped_rtt s"
  "scBackoff (sCfg s) \<in> {BackoffUnset, BackoffLinear} \<Longrightarrow>
     nextT1 s = i64 (i64 (2 + 2 * vN2Count (sV s)) * clamped_rtt s)"
  by (auto simp: nextT1_def clamped_rtt_def Let_def)

lemma i64_in_range: "- (2 ^ 63) \<le> x \<Longrightarrow> x < 2 ^ 63 \<Longrightarrow> i64 x = x"
  by (simp add: i64_def)

text \<open>
  The timeout stays within bounds: fixed and exponential back-off arm \<open>T1\<close>
  between two and eight round trips (2 ms to 4 minutes, whatever was measured), and linear
  back-off adds two round trips per retry.
\<close>

theorem nextT1_bounds:
  assumes "0 \<le> vN2Count (sV s)" "vN2Count (sV s) < 2 ^ 20"
  shows "2 * clamped_rtt s \<le> nextT1 s
    \<and> (scBackoff (sCfg s) \<in> {BackoffNone, BackoffExponential} \<longrightarrow> nextT1 s \<le> 8 * clamped_rtt s)
    \<and> (scBackoff (sCfg s) \<in> {BackoffUnset, BackoffLinear} \<longrightarrow> nextT1 s = (2 + 2 * vN2Count (sV s)) * clamped_rtt s)"
proof -
  let ?c = "clamped_rtt s" and ?n = "vN2Count (sV s)"
  have c: "1000000 \<le> ?c" "?c \<le> 30000000000" by (rule clamped_rtt_bounds)+
  have le: "0 \<le> (2 + 2 * ?n) * ?c" using assms c by simp
  have "(2 + 2 * ?n) * ?c \<le> (2 + 2 * 2 ^ 20) * 30000000000"
    using assms c by (intro mult_mono) auto
  then have lin: "i64 (i64 (2 + 2 * ?n) * ?c) = (2 + 2 * ?n) * ?c"
    using assms le by (simp add: i64_in_range)
  have two: "2 * ?c \<le> (2 + 2 * ?n) * ?c" using assms c by (intro mult_right_mono) auto
  show ?thesis
  proof (cases "scBackoff (sCfg s)")
    case BackoffExponential
    then show ?thesis using c by (simp add: nextT1_exponential Let_def)
  qed (use lin two c in \<open>simp_all add: nextT1_other\<close>)
qed

theorem nextT1_bounds_witness:
  "2 * clamped_rtt example_link \<le> nextT1 example_link \<and> nextT1 example_link = 2 * clamped_rtt example_link"
proof -
  have v: "vN2Count (sV example_link) = 0" "scBackoff (sCfg example_link) = BackoffLinear"
    by (simp_all add: example_link_def zero_vars_def example_cfg_def)
  then show ?thesis using nextT1_bounds[of example_link] by simp
qed

text \<open>
  The shift cap does not prevent overflow: with a 30 s round trip the 28th retry
  of exponential back-off wraps around 64 bits and arms \<open>T1\<close> with the minimum of two round
  trips, not with the intended ceiling of eight.
\<close>

theorem nextT1_exponential_overflow:
  assumes "scBackoff (sCfg s) = BackoffExponential" "vRTT (sV s) = RTTClampHi" "vN2Count (sV s) = 28"
  shows "nextT1 s = 2 * RTTClampHi"
  using assms
  by (simp add: nextT1_exponential clamped_rtt_def RTTClampHi_def RTTClampLo_def ms_def seconds_def Let_def i64_def)

theorem nextT1_exponential_overflow_witness:
  "nextT1 (example_link\<lparr>sCfg := example_cfg\<lparr>scBackoff := BackoffExponential\<rparr>,
      sV := zero_vars\<lparr>vRTT := RTTClampHi, vN2Count := 28\<rparr>\<rparr>) = 60000000000"
proof -
  let ?s = "example_link\<lparr>sCfg := example_cfg\<lparr>scBackoff := BackoffExponential\<rparr>,
      sV := zero_vars\<lparr>vRTT := RTTClampHi, vN2Count := 28\<rparr>\<rparr>"
  have "nextT1 ?s = 2 * RTTClampHi" by (rule nextT1_exponential_overflow) simp_all
  then show ?thesis by (simp add: RTTClampHi_def seconds_def)
qed

section \<open>An oversized window\<close>

text \<open>
  A window of the modulus or more is no window: the outstanding count is a
  residue and never reaches it, so one \<open>kick\<close> empties the whole buffer into the retransmit
  slots, overwriting the frames it stored a modulus earlier. (Such a window is accepted: the
  configuration only replaces a zero window.)
\<close>

theorem oversized_window_drains:
  assumes "seq_ok s" "0 < scPaclen (sCfg s)" "int (unat (modulus s)) \<le> scWindow (sCfg s)"
  shows "\<exists>s' m. kick_loop e s n = Some (s', m) \<and> sTxBuf s' = [] \<and> outstanding s' < unat (modulus s)"
  using assms
proof (induction "length (sTxBuf s)" arbitrary: s n rule: less_induct)
  case less
  have o: "outstanding s < unat (modulus s)" by (simp add: outstanding_dist seq_dist_less)
  show ?case
  proof (cases "sTxBuf s = []")
    case True
    then show ?thesis using o by (subst kick_loop.simps) simp
  next
    case False
    let ?k = "nat (min (scPaclen (sCfg s)) (int (length (sTxBuf s))))"
    let ?t = "send_next e ?k s"
    have "\<not> scWindow (sCfg s) \<le> int (outstanding s)" using o less.prems(3) by linarith
    then have step: "kick_loop e s n = kick_loop e ?t (n + 1)"
      using False less.prems(2) by (subst kick_loop.simps) (simp add: Let_def min_def)
    have "seq_ok ?t"
      using less.prems(1) seq_succ_less[OF seq_mod_modulus] by (simp add: seq_ok_def session_simps)
    moreover have "length (sTxBuf ?t) < length (sTxBuf s)"
      using False less.prems(2) by (auto simp: session_simps)
    ultimately show ?thesis
      using less.hyps[of ?t "n + 1"] less.prems step by (simp add: session_simps)
  qed
qed

theorem oversized_window_drains_witness:
  "\<exists>s' m. kick_loop example_env (example_link\<lparr>sCfg := example_cfg\<lparr>scWindow := 8\<rparr>, sTxBuf := replicate 100 65\<rparr>) 0 = Some (s', m)
     \<and> sTxBuf s' = [] \<and> outstanding s' < 8"
proof -
  let ?s = "example_link\<lparr>sCfg := example_cfg\<lparr>scWindow := 8\<rparr>, sTxBuf := replicate 100 65\<rparr>"
  have m: "modulus ?s = 8" by (simp add: modulus_def example_cfg_def)
  have sq: "seq_ok ?s" by (simp add: seq_ok_def m) (simp add: example_link_def zero_vars_def)
  have c: "0 < scPaclen (sCfg ?s)" "int (unat (modulus ?s)) \<le> scWindow (sCfg ?s)"
    unfolding m by (simp_all add: example_cfg_def)
  show ?thesis using oversized_window_drains[OF sq c, of example_env 0] unfolding m by simp
qed

end
