(* ===== verification/LAPB_Timer.thy ===== *)
theory LAPB_Timer
  imports Graywolf_Prelude
begin

text \<open>
  The timers of a session (\<^verbatim>\<open>pkg/ax25conn/timers.go\<close>): \<^verbatim>\<open>time.AfterFunc\<close> callbacks guarded
  by a generation counter. \<^verbatim>\<open>resetTo\<close> takes the lock twice and calls the clock in between,
  and a callback runs in its own goroutine, so the model is a step relation whose steps are
  the critical sections: any interleaving of resets, stops, expiries and callbacks is a path.

  The clock is a parameter of the code; the model uses of it what its interface documents: a
  scheduled callback starts at most once, and not after \<^verbatim>\<open>Stop\<close> reported that it had been
  cancelled. The 64-bit generation counter is a natural number.
\<close>

section \<open>State\<close>

datatype cb_status = Armed | Running | Cancelled | Finished

text \<open>
  \<open>gtHandles\<close>: the callbacks scheduled so far, with the generation each captured;
  \<open>gtArming\<close>: calls of \<^verbatim>\<open>resetTo\<close> between the first unlock and \<^verbatim>\<open>AfterFunc\<close>;
  \<open>gtSettling\<close>: calls between \<^verbatim>\<open>AfterFunc\<close> and the second lock; \<open>gtFired\<close>: the
  generations whose callback called \<^verbatim>\<open>fire\<close>.
\<close>

record gtimer =
  gtOn :: bool
  gtGen :: nat
  gtCancel :: "nat option"
  gtHandles :: "(nat \<times> cb_status) list"
  gtArming :: "nat list"
  gtSettling :: "(nat \<times> nat) list"
  gtFired :: "nat list"

definition new_gtimer :: gtimer where
  "new_gtimer = \<lparr>gtOn = False, gtGen = 0, gtCancel = None, gtHandles = [], gtArming = [], gtSettling = [], gtFired = []\<rparr>"

definition remove_nth :: "nat \<Rightarrow> 'a list \<Rightarrow> 'a list" where
  "remove_nth i xs = take i xs @ drop (Suc i) xs"

section \<open>Operations\<close>

text \<open>\<^verbatim>\<open>Stopper.Stop\<close>: without effect once the callback has started.\<close>

definition stop_handle :: "nat \<Rightarrow> gtimer \<Rightarrow> gtimer" where
  "stop_handle h t =
     (case gtHandles t ! h of
        (g, Armed) \<Rightarrow> t\<lparr>gtHandles := (gtHandles t)[h := (g, Cancelled)]\<rparr>
      | _ \<Rightarrow> t)"

definition cancel_current :: "gtimer \<Rightarrow> gtimer" where
  "cancel_current t = (case gtCancel t of None \<Rightarrow> t | Some h \<Rightarrow> stop_handle h t)"

text \<open>The three parts of \<^verbatim>\<open>resetTo\<close>.\<close>

definition reset_lock :: "gtimer \<Rightarrow> gtimer" where
  "reset_lock t0 =
     (let t = t0\<lparr>gtGen := gtGen t0 + 1\<rparr>;
          g = gtGen t;
          t = cancel_current t
      in t\<lparr>gtOn := True, gtArming := gtArming t @ [g]\<rparr>)"

definition reset_after_func :: "nat \<Rightarrow> gtimer \<Rightarrow> gtimer" where
  "reset_after_func i t =
     (let g = gtArming t ! i; h = length (gtHandles t)
      in t\<lparr>gtHandles := gtHandles t @ [(g, Armed)], gtArming := remove_nth i (gtArming t),
           gtSettling := gtSettling t @ [(g, h)]\<rparr>)"

definition reset_settle :: "nat \<Rightarrow> gtimer \<Rightarrow> gtimer" where
  "reset_settle i t0 =
     (let (g, h) = gtSettling t0 ! i;
          t = t0\<lparr>gtSettling := remove_nth i (gtSettling t0)\<rparr>
      in if gtGen t = g then t\<lparr>gtCancel := Some h\<rparr> else stop_handle h t)"

text \<open>The clock reaches the deadline of callback \<open>h\<close>: its goroutine starts.\<close>

definition deadline :: "nat \<Rightarrow> gtimer \<Rightarrow> gtimer" where
  "deadline h t = t\<lparr>gtHandles := (gtHandles t)[h := (fst (gtHandles t ! h), Running)]\<rparr>"

text \<open>The callback under the lock.\<close>

definition callback :: "nat \<Rightarrow> gtimer \<Rightarrow> gtimer" where
  "callback h t0 =
     (let g = fst (gtHandles t0 ! h);
          t = t0\<lparr>gtHandles := (gtHandles t0)[h := (g, Finished)]\<rparr>
      in if \<not> gtOn t \<or> gtGen t \<noteq> g then t
         else t\<lparr>gtOn := False, gtFired := gtFired t @ [g]\<rparr>)"

definition gt_stop :: "gtimer \<Rightarrow> gtimer" where
  "gt_stop t =
     (if \<not> gtOn t then t
      else cancel_current (t\<lparr>gtOn := False, gtGen := gtGen t + 1\<rparr>))"

inductive gt_step :: "gtimer \<Rightarrow> gtimer \<Rightarrow> bool" where
  step_reset: "gt_step t (reset_lock t)"
| step_after_func: "i < length (gtArming t) \<Longrightarrow> gt_step t (reset_after_func i t)"
| step_settle: "i < length (gtSettling t) \<Longrightarrow> gt_step t (reset_settle i t)"
| step_deadline: "h < length (gtHandles t) \<Longrightarrow> snd (gtHandles t ! h) = Armed \<Longrightarrow> gt_step t (deadline h t)"
| step_callback: "h < length (gtHandles t) \<Longrightarrow> snd (gtHandles t ! h) = Running \<Longrightarrow> gt_step t (callback h t)"
| step_stop: "gt_step t (gt_stop t)"

inductive gt_reach :: "gtimer \<Rightarrow> bool" where
  reach_new: "gt_reach new_gtimer"
| reach_step: "gt_reach t \<Longrightarrow> gt_step t u \<Longrightarrow> gt_reach u"

inductive_cases gt_stepE: "gt_step t u"

section \<open>Invariant\<close>

text \<open>A running timer has a call that is about to arm it, or a live callback of its generation.\<close>

definition live_gen :: "gtimer \<Rightarrow> nat \<Rightarrow> bool" where
  "live_gen t g \<longleftrightarrow> g \<in> set (gtArming t)
     \<or> (\<exists>h < length (gtHandles t). fst (gtHandles t ! h) = g \<and> snd (gtHandles t ! h) \<in> {Armed, Running})"

definition gt_inv :: "gtimer \<Rightarrow> bool" where
  "gt_inv t \<longleftrightarrow>
     distinct (gtArming t @ map fst (gtHandles t))
     \<and> (\<forall>g \<in> set (gtArming t @ map fst (gtHandles t)). g \<le> gtGen t)
     \<and> (\<forall>(g, h) \<in> set (gtSettling t). h < length (gtHandles t) \<and> fst (gtHandles t ! h) = g)
     \<and> (\<forall>h. gtCancel t = Some h \<longrightarrow> h < length (gtHandles t) \<and> fst (gtHandles t ! h) \<le> gtGen t)
     \<and> sorted_wrt (<) (gtFired t)
     \<and> (\<forall>g \<in> set (gtFired t). g < gtGen t \<or> g = gtGen t \<and> \<not> gtOn t)
     \<and> (gtOn t \<longrightarrow> live_gen t (gtGen t))"

lemma set_remove_nth: "set (remove_nth i xs) \<subseteq> set xs"
  by (auto simp: remove_nth_def dest: in_set_takeD in_set_dropD)

lemma stop_handle_fields [simp]:
  "gtOn (stop_handle h t) = gtOn t" "gtGen (stop_handle h t) = gtGen t" "gtCancel (stop_handle h t) = gtCancel t"
  "gtArming (stop_handle h t) = gtArming t" "gtSettling (stop_handle h t) = gtSettling t" "gtFired (stop_handle h t) = gtFired t"
  "length (gtHandles (stop_handle h t)) = length (gtHandles t)"
  by (auto simp: stop_handle_def split: prod.split cb_status.split)

lemma stop_handle_fst [simp]: "map fst (gtHandles (stop_handle h t)) = map fst (gtHandles t)"
  by (auto simp: stop_handle_def map_update split: prod.split cb_status.split)
    (metis fst_conv list_update_id map_update)

lemma stop_handle_nth_fst: "k < length (gtHandles t) \<Longrightarrow> fst (gtHandles (stop_handle h t) ! k) = fst (gtHandles t ! k)"
  by (metis stop_handle_fst stop_handle_fields(7) nth_map)

lemma stop_handle_other: "k \<noteq> h \<Longrightarrow> gtHandles (stop_handle h t) ! k = gtHandles t ! k"
  by (auto simp: stop_handle_def split: prod.split cb_status.split)

lemma cancel_current_fields [simp]:
  "gtOn (cancel_current t) = gtOn t" "gtGen (cancel_current t) = gtGen t" "gtCancel (cancel_current t) = gtCancel t"
  "gtArming (cancel_current t) = gtArming t" "gtSettling (cancel_current t) = gtSettling t" "gtFired (cancel_current t) = gtFired t"
  "length (gtHandles (cancel_current t)) = length (gtHandles t)" "map fst (gtHandles (cancel_current t)) = map fst (gtHandles t)"
  by (auto simp: cancel_current_def split: option.split)

lemma cancel_current_nth_fst: "k < length (gtHandles t) \<Longrightarrow> fst (gtHandles (cancel_current t) ! k) = fst (gtHandles t ! k)"
  by (metis cancel_current_fields(7,8) nth_map)

text \<open>Everything but the liveness clause, as a function of the fields it reads.\<close>

definition gt_safe :: "gtimer \<Rightarrow> bool" where
  "gt_safe t \<longleftrightarrow>
     distinct (gtArming t @ map fst (gtHandles t))
     \<and> (\<forall>g \<in> set (gtArming t @ map fst (gtHandles t)). g \<le> gtGen t)
     \<and> (\<forall>(g, h) \<in> set (gtSettling t). h < length (gtHandles t) \<and> map fst (gtHandles t) ! h = g)
     \<and> (\<forall>h. gtCancel t = Some h \<longrightarrow> h < length (gtHandles t))
     \<and> sorted_wrt (<) (gtFired t)
     \<and> (\<forall>g \<in> set (gtFired t). g < gtGen t \<or> g = gtGen t \<and> \<not> gtOn t)"

lemma gt_inv_safe: "gt_inv t \<longleftrightarrow> gt_safe t \<and> (gtOn t \<longrightarrow> live_gen t (gtGen t))"
proof -
  have "fst (gtHandles t ! h) \<le> gtGen t" if "gt_safe t" "h < length (gtHandles t)" for h
    using that by (auto simp: gt_safe_def)
  then show ?thesis
    unfolding gt_inv_def gt_safe_def by (auto simp: nth_map)
qed

lemma gt_safe_cong:
  assumes "map fst (gtHandles u) = map fst (gtHandles t)" "gtArming u = gtArming t" "gtSettling u = gtSettling t"
    "gtCancel u = gtCancel t" "gtFired u = gtFired t" "gtGen u = gtGen t" "gtOn u = gtOn t"
  shows "gt_safe u = gt_safe t"
proof -
  have "length (gtHandles u) = length (gtHandles t)" using assms(1) map_eq_imp_length_eq by blast
  then show ?thesis using assms by (simp add: gt_safe_def)
qed

lemma map_fst_update: "h < length xs \<Longrightarrow> map fst (xs[h := (fst (xs ! h), b)]) = map fst xs"
  by (simp add: map_update list_update_same_conv)

lemma reset_lock_inv:
  assumes "gt_inv t" shows "gt_inv (reset_lock t)"
proof -
  have s: "gt_safe t" using assms by (simp add: gt_inv_safe)
  let ?u = "reset_lock t"
  have f: "gtGen ?u = Suc (gtGen t)" "gtArming ?u = gtArming t @ [Suc (gtGen t)]" "gtSettling ?u = gtSettling t"
    "map fst (gtHandles ?u) = map fst (gtHandles t)" "gtCancel ?u = gtCancel t" "gtFired ?u = gtFired t" "gtOn ?u"
    by (simp_all add: reset_lock_def Let_def)
  have l: "length (gtHandles ?u) = length (gtHandles t)" using f(4) map_eq_imp_length_eq by blast
  have "Suc (gtGen t) \<notin> set (gtArming t @ map fst (gtHandles t))"
    using s unfolding gt_safe_def by (metis Suc_n_not_le_n)
  then have "gt_safe ?u" using s f l by (auto simp: gt_safe_def le_Suc_eq)
  then show ?thesis using f by (simp add: gt_inv_safe live_gen_def)
qed

lemma reset_after_func_inv:
  assumes "gt_inv t" "i < length (gtArming t)" shows "gt_inv (reset_after_func i t)"
proof -
  have s: "gt_safe t" using assms by (simp add: gt_inv_safe)
  let ?u = "reset_after_func i t"
  define g where "g = gtArming t ! i"
  have split: "gtArming t = take i (gtArming t) @ g # drop (Suc i) (gtArming t)"
    using assms(2) by (simp add: g_def id_take_nth_drop)
  have f: "gtArming ?u = take i (gtArming t) @ drop (Suc i) (gtArming t)" "gtHandles ?u = gtHandles t @ [(g, Armed)]"
    "gtSettling ?u = gtSettling t @ [(g, length (gtHandles t))]" "gtGen ?u = gtGen t" "gtCancel ?u = gtCancel t"
    "gtFired ?u = gtFired t" "gtOn ?u = gtOn t"
    by (simp_all add: reset_after_func_def Let_def remove_nth_def g_def)
  have d: "distinct (gtArming ?u @ map fst (gtHandles ?u)) = distinct (gtArming t @ map fst (gtHandles t))"
    unfolding f by (subst (3) split) auto
  have sets: "set (gtArming ?u @ map fst (gtHandles ?u)) = set (gtArming t @ map fst (gtHandles t))"
    unfolding f by (subst (3) split) auto
  have settle: "\<forall>(g, h) \<in> set (gtSettling ?u). h < length (gtHandles ?u) \<and> map fst (gtHandles ?u) ! h = g"
    using s unfolding f by (auto simp: gt_safe_def nth_append)
  have cancel: "\<forall>h. gtCancel ?u = Some h \<longrightarrow> h < length (gtHandles ?u)" using s unfolding f by (auto simp: gt_safe_def)
  have "gt_safe ?u"
    using settle cancel s unfolding gt_safe_def d sets f(4,6,7) by - (elim conjE, (intro conjI; assumption))
  moreover have "live_gen ?u x" if "live_gen t x" for x
  proof -
    have ar: "x \<in> set (gtArming ?u) \<or> x = g" if "x \<in> set (gtArming t)"
      using that arg_cong[OF split, of set] unfolding f(1) by (metis Un_iff list.simps(15) insert_iff set_append)
    have new: "live_gen ?u g"
      unfolding live_gen_def f(2) by (intro disjI2 exI[of _ "length (gtHandles t)"]) simp
    have old: "live_gen ?u x" if "k < length (gtHandles t)" "fst (gtHandles t ! k) = x" "snd (gtHandles t ! k) \<in> {Armed, Running}" for k
      unfolding live_gen_def f(2) using that by (intro disjI2 exI[of _ k]) (simp add: nth_append)
    from \<open>live_gen t x\<close> consider "x \<in> set (gtArming t)"
      | k where "k < length (gtHandles t)" "fst (gtHandles t ! k) = x" "snd (gtHandles t ! k) \<in> {Armed, Running}"
      unfolding live_gen_def by blast
    then show ?thesis
    proof cases
      case 1
      then show ?thesis using ar new unfolding live_gen_def by blast
    qed (rule old)
  qed
  ultimately show ?thesis using assms(1) f by (simp add: gt_inv_safe)
qed

lemma live_gen_stop_other:
  assumes "live_gen t g" "h < length (gtHandles t)" "fst (gtHandles t ! h) \<noteq> g"
  shows "live_gen (stop_handle h t) g"
  using assms stop_handle_other[of _ h t] unfolding live_gen_def by (metis stop_handle_fields(4,7))

lemma reset_settle_inv:
  assumes "gt_inv t" "i < length (gtSettling t)" shows "gt_inv (reset_settle i t)"
proof -
  have s: "gt_safe t" using assms by (simp add: gt_inv_safe)
  obtain g h where gh: "gtSettling t ! i = (g, h)" by fastforce
  have "(g, h) \<in> set (gtSettling t)" using gh assms(2) nth_mem by metis
  then have h: "h < length (gtHandles t)" "fst (gtHandles t ! h) = g" using s by (auto simp: gt_safe_def)
  let ?t = "t\<lparr>gtSettling := remove_nth i (gtSettling t)\<rparr>"
  have st: "gt_safe ?t" using s set_remove_nth[of i "gtSettling t"] by (auto simp: gt_safe_def)
  have lv: "live_gen ?t x = live_gen t x" for x by (simp add: live_gen_def)
  show ?thesis
  proof (cases "gtGen t = g")
    case True
    have "gt_safe (?t\<lparr>gtCancel := Some h\<rparr>)" using st h by (simp add: gt_safe_def)
    moreover have "live_gen (?t\<lparr>gtCancel := Some h\<rparr>) x = live_gen t x" for x by (simp add: live_gen_def)
    ultimately show ?thesis using True gh assms(1) by (simp add: reset_settle_def gt_inv_safe)
  next
    case False
    have "gt_safe (stop_handle h ?t)" using st gt_safe_cong[of "stop_handle h ?t" ?t] by simp
    then show ?thesis
      using False gh assms(1) live_gen_stop_other[of ?t "gtGen t" h] h lv by (auto simp: reset_settle_def gt_inv_safe)
  qed
qed

lemma deadline_inv:
  assumes "gt_inv t" "h < length (gtHandles t)" "snd (gtHandles t ! h) = Armed" shows "gt_inv (deadline h t)"
proof -
  have m: "map fst (gtHandles (deadline h t)) = map fst (gtHandles t)"
    using assms(2) by (simp add: deadline_def map_fst_update)
  have "gt_safe (deadline h t) = gt_safe t" by (rule gt_safe_cong[OF m]) (simp_all add: deadline_def)
  moreover have "live_gen (deadline h t) x" if "live_gen t x" for x
    using that assms(2) unfolding live_gen_def deadline_def by (auto simp: nth_list_update)
  ultimately show ?thesis using assms(1) by (simp add: gt_inv_safe) (simp add: deadline_def)
qed

lemma callback_inv:
  assumes "gt_inv t" "h < length (gtHandles t)" "snd (gtHandles t ! h) = Running" shows "gt_inv (callback h t)"
proof -
  have s: "gt_safe t" using assms by (simp add: gt_inv_safe)
  let ?t = "t\<lparr>gtHandles := (gtHandles t)[h := (fst (gtHandles t ! h), Finished)]\<rparr>"
  have m: "map fst (gtHandles ?t) = map fst (gtHandles t)"
    using assms(2) by (simp add: map_fst_update)
  have st: "gt_safe ?t" using gt_safe_cong[OF m] s by simp
  show ?thesis
  proof (cases "gtOn t \<and> gtGen t = fst (gtHandles t ! h)")
    case True
    let ?u = "?t\<lparr>gtOn := False, gtFired := gtFired t @ [gtGen t]\<rparr>"
    have "gt_safe ?u" using st True by (auto simp: gt_safe_def sorted_wrt_append)
    then show ?thesis using True by (simp add: callback_def gt_inv_safe Let_def)
  next
    case False
    then have c: "callback h t = ?t" by (auto simp: callback_def Let_def)
    have "live_gen ?t (gtGen t)" if on: "gtOn t"
    proof -
      have "live_gen t (gtGen t)" using assms(1) on by (simp add: gt_inv_safe)
      moreover have "fst (gtHandles t ! h) \<noteq> gtGen t" using False on by auto
      ultimately show ?thesis unfolding live_gen_def by auto (metis nth_list_update_neq)+
    qed
    then show ?thesis using st c by (simp add: gt_inv_safe)
  qed
qed

lemma gt_stop_inv: "gt_inv t \<Longrightarrow> gt_inv (gt_stop t)"
proof (cases "gtOn t")
  case True
  assume "gt_inv t"
  then have s: "gt_safe t" by (simp add: gt_inv_safe)
  let ?t = "t\<lparr>gtOn := False, gtGen := gtGen t + 1\<rparr>"
  have "gt_safe ?t" using s by (auto simp: gt_safe_def le_Suc_eq)
  then have "gt_safe (cancel_current ?t)" using gt_safe_cong[of "cancel_current ?t" ?t] by simp
  then show ?thesis using True by (simp add: gt_stop_def gt_inv_safe)
qed (simp add: gt_stop_def)

lemma gt_step_inv: "gt_step t u \<Longrightarrow> gt_inv t \<Longrightarrow> gt_inv u"
  by (cases rule: gt_step.cases)
    (auto intro: reset_lock_inv reset_after_func_inv reset_settle_inv deadline_inv callback_inv gt_stop_inv)

lemma gt_reach_inv: "gt_reach t \<Longrightarrow> gt_inv t"
proof (induction rule: gt_reach.induct)
  case reach_new
  then show ?case by (simp add: gt_inv_def new_gtimer_def)
next
  case (reach_step t u)
  then show ?case using gt_step_inv by blast
qed

section \<open>The arming a callback belongs to\<close>

text \<open>
  The specification speaks of armings, not of generations: every call of \<^verbatim>\<open>resetTo\<close> is an arming, numbered
  in order of its first critical section; \<open>ahArming\<close> and \<open>ahHandles\<close> say which arming each waiting call and each callback
  belongs to; \<open>ahCurrent\<close> is the last arming as long as it has neither fired nor been stopped or replaced; \<open>ahFired\<close>
  are the armings whose callback called \<^verbatim>\<open>fire\<close>.
\<close>

record arming_history =
  ahCount :: nat
  ahArming :: "nat list"
  ahHandles :: "nat list"
  ahCurrent :: "nat option"
  ahFired :: "nat list"

definition no_armings :: arming_history where
  "no_armings = \<lparr>ahCount = 0, ahArming = [], ahHandles = [], ahCurrent = None, ahFired = []\<rparr>"

definition fires :: "nat \<Rightarrow> gtimer \<Rightarrow> bool" where
  "fires h t \<longleftrightarrow> gtFired (callback h t) \<noteq> gtFired t"

inductive gt_history :: "gtimer \<Rightarrow> arming_history \<Rightarrow> bool" where
  history_new: "gt_history new_gtimer no_armings"
| history_reset: "gt_history t a \<Longrightarrow>
    gt_history (reset_lock t) (a\<lparr>ahCount := ahCount a + 1, ahArming := ahArming a @ [ahCount a], ahCurrent := Some (ahCount a)\<rparr>)"
| history_after_func: "gt_history t a \<Longrightarrow> i < length (gtArming t) \<Longrightarrow>
    gt_history (reset_after_func i t) (a\<lparr>ahArming := remove_nth i (ahArming a), ahHandles := ahHandles a @ [ahArming a ! i]\<rparr>)"
| history_settle: "gt_history t a \<Longrightarrow> i < length (gtSettling t) \<Longrightarrow> gt_history (reset_settle i t) a"
| history_deadline: "gt_history t a \<Longrightarrow> h < length (gtHandles t) \<Longrightarrow> snd (gtHandles t ! h) = Armed \<Longrightarrow> gt_history (deadline h t) a"
| history_callback: "gt_history t a \<Longrightarrow> h < length (gtHandles t) \<Longrightarrow> snd (gtHandles t ! h) = Running \<Longrightarrow>
    gt_history (callback h t) (if fires h t then a\<lparr>ahFired := ahFired a @ [ahHandles a ! h], ahCurrent := None\<rparr> else a)"
| history_stop: "gt_history t a \<Longrightarrow> gt_history (gt_stop t) (a\<lparr>ahCurrent := None\<rparr>)"

text \<open>Every interleaving has its history.\<close>

lemma history_exists: "gt_reach t \<Longrightarrow> \<exists>a. gt_history t a"
proof (induction rule: gt_reach.induct)
  case (reach_step t u)
  then obtain a where a: "gt_history t a" by blast
  from reach_step(2) show ?case by (cases rule: gt_step.cases) (use a in \<open>blast intro: gt_history.intros\<close>)+
qed (blast intro: history_new)

text \<open>Generations and armings correspond one to one.\<close>

definition arm_pairs :: "gtimer \<Rightarrow> arming_history \<Rightarrow> (nat \<times> nat) set" where
  "arm_pairs t a = set (zip (ahArming a) (gtArming t)) \<union> set (zip (ahHandles a) (map fst (gtHandles t)))"

definition history_inv :: "gtimer \<Rightarrow> arming_history \<Rightarrow> bool" where
  "history_inv t a \<longleftrightarrow>
     gt_inv t \<and> length (ahArming a) = length (gtArming t) \<and> length (ahHandles a) = length (gtHandles t)
     \<and> (\<forall>x g y k. (x, g) \<in> arm_pairs t a \<longrightarrow> (y, k) \<in> arm_pairs t a \<longrightarrow> x = y \<longleftrightarrow> g = k)
     \<and> (\<forall>x g. (x, g) \<in> arm_pairs t a \<longrightarrow> x < ahCount a \<and> g \<le> gtGen t)
     \<and> (gtOn t \<longleftrightarrow> ahCurrent a \<noteq> None) \<and> (\<forall>x. ahCurrent a = Some x \<longrightarrow> (x, gtGen t) \<in> arm_pairs t a \<and> x \<notin> set (ahFired a))
     \<and> distinct (ahFired a) \<and> (\<forall>x \<in> set (ahFired a). x < ahCount a)"

lemma zip_remove_nth: "zip (remove_nth i xs) (remove_nth i ys) = remove_nth i (zip xs ys)" if "length xs = length ys"
  using that by (simp add: remove_nth_def take_zip drop_zip)

lemma set_split_nth: "i < length xs \<Longrightarrow> set xs = insert (xs ! i) (set (remove_nth i xs))"
  by (subst (1) id_take_nth_drop[of i xs]) (auto simp: remove_nth_def)

lemma handle_pair:
  assumes "history_inv t a" "h < length (gtHandles t)" shows "(ahHandles a ! h, fst (gtHandles t ! h)) \<in> arm_pairs t a"
proof -
  let ?z = "zip (ahHandles a) (map fst (gtHandles t))"
  have "length (ahHandles a) = length (gtHandles t)" using assms(1) by (simp add: history_inv_def)
  then have "h < length ?z" "?z ! h = (ahHandles a ! h, fst (gtHandles t ! h))" using assms(2) by simp_all
  then show ?thesis unfolding arm_pairs_def by (metis UnI2 nth_mem)
qed

lemma fires_iff: "fires h t \<longleftrightarrow> gtOn t \<and> gtGen t = fst (gtHandles t ! h)"
  by (simp add: fires_def callback_def Let_def)

lemma history_invD:
  assumes "history_inv t a"
  shows "gt_inv t" "length (ahArming a) = length (gtArming t)" "length (ahHandles a) = length (gtHandles t)"
    "(x, g) \<in> arm_pairs t a \<Longrightarrow> (y, k) \<in> arm_pairs t a \<Longrightarrow> x = y \<longleftrightarrow> g = k"
    "(x, g) \<in> arm_pairs t a \<Longrightarrow> x < ahCount a" "(x, g) \<in> arm_pairs t a \<Longrightarrow> g \<le> gtGen t"
    "gtOn t \<longleftrightarrow> ahCurrent a \<noteq> None" "ahCurrent a = Some x \<Longrightarrow> (x, gtGen t) \<in> arm_pairs t a"
    "ahCurrent a = Some x \<Longrightarrow> x \<notin> set (ahFired a)" "distinct (ahFired a)" "x \<in> set (ahFired a) \<Longrightarrow> x < ahCount a"
  using assms unfolding history_inv_def by blast+

lemma history_inv_fires:
  assumes inv: "history_inv t a" and h: "h < length (gtHandles t)"
  shows "fires h t \<longleftrightarrow> ahCurrent a = Some (ahHandles a ! h)"
proof -
  have p: "(ahHandles a ! h, fst (gtHandles t ! h)) \<in> arm_pairs t a" by (rule handle_pair[OF inv h])
  note c = history_invD(8)[OF inv] and one = history_invD(4)[OF inv] and on = history_invD(7)[OF inv]
  show ?thesis
  proof (cases "ahCurrent a")
    case (Some x)
    then show ?thesis using one[OF c p, of x] on unfolding fires_iff by auto
  qed (use on fires_iff in simp)
qed

text \<open>What a step has to show beside the invariant of the timer, when the correspondence does not change.\<close>

lemma history_inv_same:
  assumes "history_inv t a" "gt_inv u" "gtArming u = gtArming t" "map fst (gtHandles u) = map fst (gtHandles t)"
    "gtGen u = gtGen t" "gtOn u = gtOn t"
  shows "history_inv u a"
proof -
  have "arm_pairs u a = arm_pairs t a" "length (gtHandles u) = length (gtHandles t)"
    using assms(3,4) map_eq_imp_length_eq[OF assms(4)] by (simp_all add: arm_pairs_def)
  then show ?thesis using assms unfolding history_inv_def by simp
qed

lemma history_inv_off:
  assumes "history_inv t a" "gt_inv u" "gtArming u = gtArming t" "map fst (gtHandles u) = map fst (gtHandles t)"
    "gtGen t \<le> gtGen u" "\<not> gtOn u" "distinct fired" "\<forall>x \<in> set fired. x < ahCount a"
  shows "history_inv u (a\<lparr>ahFired := fired, ahCurrent := None\<rparr>)"
proof -
  have p: "arm_pairs u (a\<lparr>ahFired := fired, ahCurrent := None\<rparr>) = arm_pairs t a" "length (gtHandles u) = length (gtHandles t)"
    using assms(3,4) map_eq_imp_length_eq[OF assms(4)] by (simp_all add: arm_pairs_def)
  have "g \<le> gtGen u" if "(x, g) \<in> arm_pairs t a" for x g using history_invD(6)[OF assms(1) that] assms(5) by simp
  then show ?thesis using assms(2,3,6-8) p history_invD(2-5)[OF assms(1)] unfolding history_inv_def by simp
qed

lemma reset_history:
  assumes inv: "history_inv t a"
  shows "history_inv (reset_lock t) (a\<lparr>ahCount := ahCount a + 1, ahArming := ahArming a @ [ahCount a], ahCurrent := Some (ahCount a)\<rparr>)"
proof -
  let ?u = "reset_lock t"
  let ?b = "a\<lparr>ahCount := ahCount a + 1, ahArming := ahArming a @ [ahCount a], ahCurrent := Some (ahCount a)\<rparr>"
  have f: "gtGen ?u = Suc (gtGen t)" "gtArming ?u = gtArming t @ [Suc (gtGen t)]" "map fst (gtHandles ?u) = map fst (gtHandles t)" "gtOn ?u"
    by (simp_all add: reset_lock_def Let_def)
  have l: "length (gtHandles ?u) = length (gtHandles t)" using f(3) map_eq_imp_length_eq by blast
  have p: "arm_pairs ?u ?b = insert (ahCount a, Suc (gtGen t)) (arm_pairs t a)"
    using inv f(2,3) by (simp add: arm_pairs_def history_inv_def)
  have old: "x < ahCount a" "g \<le> gtGen t" if "(x, g) \<in> arm_pairs t a" for x g using inv that unfolding history_inv_def by blast+
  have one: "x = y \<longleftrightarrow> g = k" if "(x, g) \<in> arm_pairs t a" "(y, k) \<in> arm_pairs t a" for x y g k
    using inv that unfolding history_inv_def by blast
  have "x = y \<longleftrightarrow> g = k" if "(x, g) \<in> arm_pairs ?u ?b" "(y, k) \<in> arm_pairs ?u ?b" for x y g k
    using that one old[of x g] old[of y k] unfolding p by fastforce
  moreover have "x < ahCount ?b \<and> g \<le> gtGen ?u" if "(x, g) \<in> arm_pairs ?u ?b" for x g
    using that old[of x g] unfolding p f(1) by fastforce
  moreover have "gt_inv ?u" using inv reset_lock_inv unfolding history_inv_def by blast
  moreover have "(ahCount a, gtGen ?u) \<in> arm_pairs ?u ?b" unfolding p f(1) by blast
  moreover have "ahCount a \<notin> set (ahFired a)" using history_invD(11)[OF inv] by blast
  moreover have "\<forall>x \<in> set (ahFired a). x < Suc (ahCount a)" "distinct (ahFired a)"
    "length (ahArming a) = length (gtArming t)" "length (ahHandles a) = length (gtHandles t)"
    using history_invD(2,3,10,11)[OF inv] by (simp_all add: less_SucI)
  ultimately show ?thesis using f(2,4) l unfolding history_inv_def by simp
qed

lemma after_func_history:
  assumes inv: "history_inv t a" and i: "i < length (gtArming t)"
  shows "history_inv (reset_after_func i t) (a\<lparr>ahArming := remove_nth i (ahArming a), ahHandles := ahHandles a @ [ahArming a ! i]\<rparr>)"
proof -
  let ?u = "reset_after_func i t"
  let ?b = "a\<lparr>ahArming := remove_nth i (ahArming a), ahHandles := ahHandles a @ [ahArming a ! i]\<rparr>"
  have l: "length (ahArming a) = length (gtArming t)" "length (ahHandles a) = length (gtHandles t)"
    using inv by (simp_all add: history_inv_def)
  have f: "gtArming ?u = remove_nth i (gtArming t)" "gtHandles ?u = gtHandles t @ [(gtArming t ! i, Armed)]" "gtGen ?u = gtGen t" "gtOn ?u = gtOn t"
    by (simp_all add: reset_after_func_def Let_def)
  have "set (zip (ahArming a) (gtArming t)) = insert (ahArming a ! i, gtArming t ! i) (set (remove_nth i (zip (ahArming a) (gtArming t))))"
    using set_split_nth[of i "zip (ahArming a) (gtArming t)"] i l by simp
  then have "arm_pairs ?u ?b = arm_pairs t a" using l f zip_remove_nth[OF l(1)] by (auto simp: arm_pairs_def)
  moreover have "length (remove_nth i (ahArming a)) = length (remove_nth i (gtArming t))" using l by (simp add: remove_nth_def)
  moreover have "gt_inv ?u" using inv i reset_after_func_inv unfolding history_inv_def by blast
  ultimately show ?thesis using inv l f unfolding history_inv_def by simp
qed

lemma gt_history_inv: "gt_history t a \<Longrightarrow> history_inv t a"
proof (induction rule: gt_history.induct)
  case history_new
  then show ?case using gt_reach_inv[OF reach_new] by (simp add: history_inv_def no_armings_def new_gtimer_def arm_pairs_def)
next
  case (history_reset t a)
  show ?case using history_reset.IH by (rule reset_history)
next
  case (history_after_func t a i)
  then show ?case by (intro after_func_history) auto
next
  case (history_settle t a i)
  then have "gt_inv (reset_settle i t)" using reset_settle_inv by (auto simp: history_inv_def)
  then show ?case by (rule history_inv_same[OF history_settle.IH]) (auto simp: reset_settle_def Let_def split: prod.split)
next
  case (history_deadline t a h)
  then have "gt_inv (deadline h t)" using deadline_inv by (auto simp: history_inv_def)
  then show ?case
    by (rule history_inv_same[OF history_deadline.IH]) (use history_deadline in \<open>auto simp: deadline_def map_fst_update\<close>)
next
  case (history_callback t a h)
  have inv: "gt_inv (callback h t)" using history_callback callback_inv by (auto simp: history_inv_def)
  have f: "gtArming (callback h t) = gtArming t" "map fst (gtHandles (callback h t)) = map fst (gtHandles t)" "gtGen (callback h t) = gtGen t"
    using history_callback(2) by (auto simp: callback_def Let_def map_fst_update)
  show ?case
  proof (cases "fires h t")
    case True
    have cur: "ahCurrent a = Some (ahHandles a ! h)" using True history_inv_fires[OF history_callback.IH] history_callback by simp
    have "\<not> gtOn (callback h t)" using True by (simp add: fires_def callback_def Let_def split: if_splits)
    moreover have "ahHandles a ! h \<notin> set (ahFired a)" "distinct (ahFired a)" "\<forall>x \<in> set (ahFired a). x < ahCount a"
      using history_callback.IH cur unfolding history_inv_def by blast+
    moreover have "ahHandles a ! h < ahCount a"
      using handle_pair[OF history_callback.IH] history_callback unfolding history_inv_def by blast
    ultimately show ?thesis using history_inv_off[OF history_callback.IH inv f(1,2), of "ahFired a @ [ahHandles a ! h]"] True f(3) by simp
  next
    case False
    have "gtOn (callback h t) = gtOn t" using False by (auto simp: fires_iff callback_def Let_def)
    then show ?thesis using False history_inv_same[OF history_callback.IH inv f(1,2,3)] by simp
  qed
next
  case (history_stop t a)
  have inv: "gt_inv (gt_stop t)" using history_stop gt_stop_inv by (auto simp: history_inv_def)
  have "distinct (ahFired a)" "\<forall>x \<in> set (ahFired a). x < ahCount a" using history_stop.IH unfolding history_inv_def by blast+
  moreover have "gtArming (gt_stop t) = gtArming t" "map fst (gtHandles (gt_stop t)) = map fst (gtHandles t)" "gtGen t \<le> gtGen (gt_stop t)" "\<not> gtOn (gt_stop t)"
    by (simp_all add: gt_stop_def)
  ultimately have "history_inv (gt_stop t) (a\<lparr>ahFired := ahFired a, ahCurrent := None\<rparr>)"
    by (intro history_inv_off[OF history_stop.IH inv])
  then show ?case by simp
qed

text \<open>
  Property C6. Under every interleaving of resets, stops, expiries and callbacks: a callback that runs calls \<^verbatim>\<open>fire\<close>
  exactly when the arming it belongs to is the current one, that is the last, and neither stopped nor fired; so no arming
  fires twice and no superseded or stopped one fires. The timer is marked running exactly as long as there is a current
  arming, and that one is not lost: its call is still about to schedule it, or its callback is scheduled or running.
\<close>

theorem timer_fires_once_and_lives:
  assumes "gt_history t a"
  shows "(\<forall>h < length (gtHandles t). snd (gtHandles t ! h) = Running \<longrightarrow> (fires h t \<longleftrightarrow> ahCurrent a = Some (ahHandles a ! h)))
    \<and> distinct (ahFired a) \<and> (gtOn t \<longleftrightarrow> ahCurrent a \<noteq> None)
    \<and> (\<forall>x. ahCurrent a = Some x \<longrightarrow> x \<notin> set (ahFired a)
        \<and> (x \<in> set (ahArming a) \<or> (\<exists>h < length (gtHandles t). ahHandles a ! h = x \<and> snd (gtHandles t ! h) \<in> {Armed, Running})))"
proof -
  have inv: "history_inv t a" using gt_history_inv[OF assms] .
  have len: "length (ahArming a) = length (gtArming t)" "length (ahHandles a) = length (gtHandles t)" using inv by (simp_all add: history_inv_def)
  have "x \<in> set (ahArming a) \<or> (\<exists>h < length (gtHandles t). ahHandles a ! h = x \<and> snd (gtHandles t ! h) \<in> {Armed, Running})"
    if cur: "ahCurrent a = Some x" for x
  proof -
    have x: "(x, gtGen t) \<in> arm_pairs t a" "gtOn t" using inv cur unfolding history_inv_def by blast+
    have one: "y = x" if "(y, gtGen t) \<in> arm_pairs t a" for y using inv x(1) that unfolding history_inv_def by blast
    from x(2) have "live_gen t (gtGen t)" using inv by (simp add: history_inv_def gt_inv_def)
    then consider "gtGen t \<in> set (gtArming t)"
      | h where "h < length (gtHandles t)" "fst (gtHandles t ! h) = gtGen t" "snd (gtHandles t ! h) \<in> {Armed, Running}"
      unfolding live_gen_def by blast
    then show ?thesis
    proof cases
      case 1
      then obtain i where "i < length (gtArming t)" "gtArming t ! i = gtGen t" by (metis in_set_conv_nth)
      moreover have "(ahArming a ! i, gtArming t ! i) \<in> arm_pairs t a"
        using calculation len by (auto simp: arm_pairs_def in_set_zip)
      ultimately have "ahArming a ! i = x" "i < length (ahArming a)" using one[of "ahArming a ! i"] len by simp_all
      then show ?thesis using nth_mem by blast
    next
      case 2
      then show ?thesis using one[of "ahHandles a ! h"] handle_pair[OF inv 2(1)] by auto
    qed
  qed
  then show ?thesis using inv history_inv_fires[OF inv] unfolding history_inv_def by blast
qed

text \<open>A reset overtaken by its own expiry and a second reset: the first callback is stale.\<close>

lemma example_timer_history:
  "gt_history (deadline 0 (reset_after_func 0 (reset_lock new_gtimer)))
     (no_armings\<lparr>ahCount := 1, ahHandles := [0], ahCurrent := Some 0\<rparr>)"
proof -
  have "gt_history (reset_after_func 0 (reset_lock new_gtimer)) (no_armings\<lparr>ahCount := 1, ahHandles := [0], ahCurrent := Some 0\<rparr>)"
    using history_after_func[OF history_reset[OF history_new], of 0]
    by (simp add: no_armings_def reset_lock_def Let_def remove_nth_def)
  then show ?thesis
    by (rule history_deadline)
      (simp_all add: reset_lock_def reset_after_func_def Let_def new_gtimer_def cancel_current_def)
qed

lemma example_timer_late:
  "gt_history (reset_settle 0 (reset_lock (deadline 0 (reset_after_func 0 (reset_lock new_gtimer)))))
     (no_armings\<lparr>ahCount := 2, ahArming := [1], ahHandles := [0], ahCurrent := Some 1\<rparr>)"
proof -
  have "gt_history (reset_lock (deadline 0 (reset_after_func 0 (reset_lock new_gtimer))))
     (no_armings\<lparr>ahCount := 2, ahArming := [1], ahHandles := [0], ahCurrent := Some 1\<rparr>)"
    using history_reset[OF example_timer_history] by (simp add: no_armings_def numeral_2_eq_2)
  then show ?thesis
    by (rule history_settle)
      (simp add: reset_lock_def reset_after_func_def Let_def new_gtimer_def cancel_current_def deadline_def remove_nth_def)
qed

theorem timer_fires_once_and_lives_witness:
  "\<not> fires 0 (reset_settle 0 (reset_lock (deadline 0 (reset_after_func 0 (reset_lock new_gtimer)))))
   \<and> gtOn (reset_settle 0 (reset_lock (deadline 0 (reset_after_func 0 (reset_lock new_gtimer)))))"
proof -
  let ?t = "reset_settle 0 (reset_lock (deadline 0 (reset_after_func 0 (reset_lock new_gtimer))))"
  have "0 < length (gtHandles ?t)" "snd (gtHandles ?t ! 0) = Running"
    by (simp_all add: reset_settle_def reset_lock_def reset_after_func_def Let_def new_gtimer_def cancel_current_def
        deadline_def remove_nth_def stop_handle_def)
  then show ?thesis using timer_fires_once_and_lives[OF example_timer_late] by (simp add: no_armings_def)
qed

end
