(* ===== verification/Go_Heap.thy ===== *)
theory Go_Heap
  imports Graywolf_Prelude "HOL-Library.Multiset"
begin

text \<open>
  Go's \<^verbatim>\<open>container/heap\<close> on a slice: \<^verbatim>\<open>up\<close>, \<^verbatim>\<open>down\<close>, \<^verbatim>\<open>Init\<close>, \<^verbatim>\<open>Push\<close> and
  \<^verbatim>\<open>Pop\<close>, with the caller's \<^verbatim>\<open>Less\<close> as an argument. The interface the callers rely on is
  the locale \<open>go_order\<close>: whatever \<^verbatim>\<open>Less\<close> is, as long as it is a strict weak order, the
  slice is a priority queue. The transmit governor and the beacon scheduler instantiate it.
\<close>

section \<open>The operations\<close>

definition heap_swap :: "nat \<Rightarrow> nat \<Rightarrow> 'a list \<Rightarrow> 'a list" where
  "heap_swap i j xs = xs[i := xs ! j, j := xs ! i]"

function heap_up :: "('a \<Rightarrow> 'a \<Rightarrow> bool) \<Rightarrow> nat \<Rightarrow> 'a list \<Rightarrow> 'a list" where
  "heap_up lt j xs =
     (let i = (j - 1) div 2
      in if i = j \<or> \<not> lt (xs ! j) (xs ! i) then xs else heap_up lt i (heap_swap i j xs))"
  by pat_completeness auto
termination by (relation "measure (\<lambda>(_, j, _). j)") auto

declare heap_up.simps [simp del]

definition least_child :: "('a \<Rightarrow> 'a \<Rightarrow> bool) \<Rightarrow> nat \<Rightarrow> nat \<Rightarrow> 'a list \<Rightarrow> nat" where
  "least_child lt i n xs =
     (let j1 = 2 * i + 1; j2 = j1 + 1
      in if j2 < n \<and> lt (xs ! j2) (xs ! j1) then j2 else j1)"

lemma least_child_gt: "i < least_child lt i n xs"
  by (simp add: least_child_def Let_def)

function heap_down :: "('a \<Rightarrow> 'a \<Rightarrow> bool) \<Rightarrow> nat \<Rightarrow> nat \<Rightarrow> 'a list \<Rightarrow> 'a list" where
  "heap_down lt i n xs =
     (if 2 * i + 1 \<ge> n then xs
      else
        let j = least_child lt i n xs
        in if \<not> lt (xs ! j) (xs ! i) then xs else heap_down lt j n (heap_swap i j xs))"
  by pat_completeness auto
termination
proof (relation "measure (\<lambda>(_, i, n, _). n - i)")
  fix lt :: "'a \<Rightarrow> 'a \<Rightarrow> bool" and i n j and xs :: "'a list"
  assume "\<not> 2 * i + 1 \<ge> n" "j = least_child lt i n xs"
  then show "((lt, j, n, heap_swap i j xs), lt, i, n, xs) \<in> measure (\<lambda>(_, i, n, _). n - i)"
    using least_child_gt[of i lt n xs] by simp
qed simp

declare heap_down.simps [simp del]

definition heap_push :: "('a \<Rightarrow> 'a \<Rightarrow> bool) \<Rightarrow> 'a \<Rightarrow> 'a list \<Rightarrow> 'a list" where
  "heap_push lt x h = heap_up lt (length h) (h @ [x])"

text \<open>\<^verbatim>\<open>heap.Pop\<close> panics on an empty heap (its callers check).\<close>

definition heap_pop :: "('a \<Rightarrow> 'a \<Rightarrow> bool) \<Rightarrow> 'a list \<Rightarrow> ('a \<times> 'a list) option" where
  "heap_pop lt h =
     (if h = [] then None
      else
        let n = length h - 1;
            h' = heap_down lt 0 n (heap_swap 0 n h)
        in Some (h' ! n, take n h'))"

fun heap_init_from :: "('a \<Rightarrow> 'a \<Rightarrow> bool) \<Rightarrow> nat \<Rightarrow> 'a list \<Rightarrow> 'a list" where
  "heap_init_from lt 0 h = h"
| "heap_init_from lt (Suc i) h = heap_init_from lt i (heap_down lt i (length h) h)"

definition heap_init :: "('a \<Rightarrow> 'a \<Rightarrow> bool) \<Rightarrow> 'a list \<Rightarrow> 'a list" where
  "heap_init lt h = heap_init_from lt (length h div 2) h"

section \<open>Contents\<close>

lemma length_heap_swap [simp]: "length (heap_swap i j xs) = length xs"
  by (simp add: heap_swap_def)

lemma nth_heap_swap: "i < length xs \<Longrightarrow> j < length xs \<Longrightarrow>
  heap_swap i j xs ! k = (if k = j then xs ! i else if k = i then xs ! j else xs ! k)"
  by (simp add: heap_swap_def nth_list_update)

lemma mset_heap_swap [simp]: "i < length xs \<Longrightarrow> j < length xs \<Longrightarrow> mset (heap_swap i j xs) = mset xs"
  by (simp add: heap_swap_def mset_swap)

lemma heap_up_mset: "j < length xs \<Longrightarrow> mset (heap_up lt j xs) = mset xs"
proof (induction lt j xs rule: heap_up.induct)
  case (1 lt j xs)
  have "(j - 1) div 2 < length xs" using 1(2) by simp
  then show ?case using 1 by (subst heap_up.simps) (simp add: Let_def)
qed

lemma least_child_less: "2 * i + 1 < n \<Longrightarrow> least_child lt i n xs < n"
  by (simp add: least_child_def Let_def)

lemma heap_down_mset: "n \<le> length xs \<Longrightarrow> mset (heap_down lt i n xs) = mset xs"
proof (induction lt i n xs rule: heap_down.induct)
  case (1 lt i n xs)
  show ?case
  proof (cases "2 * i + 1 \<ge> n")
    case False
    then have "least_child lt i n xs < length xs" "i < length xs"
      using least_child_less[of i n lt xs] 1(2) by simp_all
    then show ?thesis using 1 False by (subst heap_down.simps) (simp add: Let_def)
  qed (simp add: heap_down.simps)
qed

lemma length_heap_down [simp]: "length (heap_down lt i n xs) = length xs"
proof (induction lt i n xs rule: heap_down.induct)
  case (1 lt i n xs)
  then show ?case by (subst heap_down.simps) (simp add: Let_def)
qed

lemma heap_down_outside: "n \<le> length xs \<Longrightarrow> n \<le> k \<Longrightarrow> heap_down lt i n xs ! k = xs ! k"
proof (induction lt i n xs rule: heap_down.induct)
  case (1 lt i n xs)
  show ?case
  proof (cases "2 * i + 1 \<ge> n")
    case False
    then have "least_child lt i n xs < n" "i < n"
      using least_child_less[of i n lt xs] by simp_all
    then have "heap_swap i (least_child lt i n xs) xs ! k = xs ! k"
      using 1(2,3) by (simp add: nth_heap_swap)
    then show ?thesis using 1 False by (subst heap_down.simps) (simp add: Let_def)
  qed (simp add: heap_down.simps)
qed

lemma heap_push_mset [simp]: "mset (heap_push lt x h) = add_mset x (mset h)"
  by (simp add: heap_push_def heap_up_mset)

lemma length_heap_push [simp]: "length (heap_push lt x h) = Suc (length h)"
  by (metis heap_push_mset size_mset size_add_mset)

lemma set_heap_push [simp]: "set (heap_push lt x h) = insert x (set h)"
  by (metis heap_push_mset set_mset_mset set_mset_add_mset_insert)

lemma heap_pop_None [simp]: "heap_pop lt h = None \<longleftrightarrow> h = []"
  by (simp add: heap_pop_def Let_def)

lemma heap_pop_Nil [simp]: "heap_pop lt [] = None"
  by simp

lemma heap_pop_Some:
  assumes "heap_pop lt h = Some (x, h')"
  shows "h \<noteq> []" "x = h ! 0" "mset h = add_mset x (mset h')" "length h = Suc (length h')"
proof -
  show h: "h \<noteq> []" using assms by (auto simp: heap_pop_def)
  let ?n = "length h - 1" and ?d = "heap_down lt 0 (length h - 1) (heap_swap 0 (length h - 1) h)"
  have n: "?n < length h" "0 < length h" using h by simp_all
  have eq: "x = ?d ! ?n" "h' = take ?n ?d" using assms h by (auto simp: heap_pop_def Let_def)
  show x: "x = h ! 0" using eq(1) n by (simp add: heap_down_outside nth_heap_swap)
  have "?d = h' @ [x]" using eq n
    by (metis Suc_pred' length_heap_down length_heap_swap lessI take_Suc_conv_app_nth take_all_iff order_refl)
  moreover have "mset ?d = mset h" using n by (simp add: heap_down_mset)
  ultimately show "mset h = add_mset x (mset h')"
    by (metis mset_append mset.simps(2) mset.simps(1) union_mset_add_mset_right add_0_right)
  then show "length h = Suc (length h')" by (metis size_add_mset size_mset)
qed

lemma set_heap_pop: "heap_pop lt h = Some (x, h') \<Longrightarrow> set h = insert x (set h')"
  by (metis heap_pop_Some(3) set_mset_add_mset_insert set_mset_mset)

section \<open>The order a caller provides\<close>

locale go_order =
  fixes lt :: "'a \<Rightarrow> 'a \<Rightarrow> bool"
  assumes less_asym: "lt a b \<Longrightarrow> \<not> lt b a"
    and not_less_trans: "\<not> lt b a \<Longrightarrow> \<not> lt c b \<Longrightarrow> \<not> lt c a"
begin

definition le :: "'a \<Rightarrow> 'a \<Rightarrow> bool" where
  "le a b \<longleftrightarrow> \<not> lt b a"

lemma le_refl [simp]: "le a a"
  using less_asym by (auto simp: le_def)

lemma le_trans: "le a b \<Longrightarrow> le b c \<Longrightarrow> le a c"
  using not_less_trans by (auto simp: le_def)

lemma less_le: "lt a b \<Longrightarrow> le a b"
  using less_asym by (auto simp: le_def)

lemma not_less_le: "\<not> lt a b \<Longrightarrow> le b a"
  by (simp add: le_def)

text \<open>The heap property on the nodes from \<open>lo\<close> whose parents are at least \<open>lo\<close>.\<close>

definition heap_from :: "nat \<Rightarrow> nat \<Rightarrow> 'a list \<Rightarrow> bool" where
  "heap_from lo n xs \<longleftrightarrow> (\<forall>k<n. 0 < k \<longrightarrow> lo \<le> (k - 1) div 2 \<longrightarrow> le (xs ! ((k - 1) div 2)) (xs ! k))"

definition is_heap :: "'a list \<Rightarrow> bool" where
  "is_heap xs \<longleftrightarrow> heap_from 0 (length xs) xs"

lemma is_heap_Nil: "is_heap []"
  by (simp add: is_heap_def heap_from_def)

lemma heap_root_least:
  assumes "is_heap xs" "k < length xs" shows "le (xs ! 0) (xs ! k)"
  using assms(2)
proof (induction k rule: less_induct)
  case (less k)
  show ?case
  proof (cases "k = 0")
    case False
    then have "(k - 1) div 2 < k" by simp
    then have "le (xs ! 0) (xs ! ((k - 1) div 2))" using less by simp
    moreover have "le (xs ! ((k - 1) div 2)) (xs ! k)"
      using assms(1) less.prems False by (simp add: is_heap_def heap_from_def)
    ultimately show ?thesis by (rule le_trans)
  qed simp
qed

lemma heap_head_least: "is_heap xs \<Longrightarrow> xs \<noteq> [] \<Longrightarrow> y \<in> set xs \<Longrightarrow> le (xs ! 0) y"
  using heap_root_least by (auto simp: in_set_conv_nth)

text \<open>
  \<^verbatim>\<open>up\<close> and \<^verbatim>\<open>down\<close> repair a heap that is broken at one node only. The second clause of
  each says that the parent of that node is below its children.
\<close>

definition up_ok :: "nat \<Rightarrow> 'a list \<Rightarrow> bool" where
  "up_ok j xs \<longleftrightarrow>
     (\<forall>k<length xs. 0 < k \<longrightarrow> k \<noteq> j \<longrightarrow> le (xs ! ((k - 1) div 2)) (xs ! k))
     \<and> (\<forall>k<length xs. 0 < k \<longrightarrow> 0 < j \<longrightarrow> (k - 1) div 2 = j \<longrightarrow> le (xs ! ((j - 1) div 2)) (xs ! k))"

lemma parent_iff: "0 < k \<Longrightarrow> (k - 1) div 2 = i \<longleftrightarrow> k = 2 * i + 1 \<or> k = 2 * i + (2::nat)"
  by arith

lemma up_ok_swap:
  assumes "up_ok j xs" "j < length xs" "0 < j" "lt (xs ! j) (xs ! i)" "i = (j - 1) div 2"
  shows "up_ok i (heap_swap i j xs)"
proof -
  have i: "i < j" "i < length xs" using assms by simp_all
  let ?ys = "heap_swap i j xs"
  have ys: "?ys ! k = (if k = j then xs ! i else if k = i then xs ! j else xs ! k)" for k
    using assms(2) i by (simp add: nth_heap_swap)
  have heap: "le (xs ! ((k - 1) div 2)) (xs ! k)" if "k < length xs" "0 < k" "k \<noteq> j" for k
    using assms(1) that by (simp add: up_ok_def)
  have grand: "le (xs ! i) (xs ! k)" if "k < length xs" "0 < k" "(k - 1) div 2 = j" for k
    using assms that by (simp add: up_ok_def)
  have ij: "le (xs ! j) (xs ! i)" using assms(4) by (rule less_le)
  have "le (?ys ! ((k - 1) div 2)) (?ys ! k)" if k: "k < length xs" "0 < k" "k \<noteq> i" for k
  proof (cases "k = j")
    case True
    then have "(k - 1) div 2 = i" using assms(5) by simp
    then show ?thesis using ij i by (simp only: ys True if_True) auto
  next
    case False
    then have h: "le (xs ! ((k - 1) div 2)) (xs ! k)" using heap k by simp
    show ?thesis
      using False k h ij grand[of k] le_trans[OF ij, of "xs ! k"] i by (auto simp: ys)
  qed
  moreover have "le (?ys ! ((i - 1) div 2)) (?ys ! k)" if k: "k < length xs" "0 < k" "0 < i" "(k - 1) div 2 = i" for k
  proof -
    have p: "le (xs ! ((i - 1) div 2)) (xs ! i)" using heap[of i] i k by simp
    have "(i - 1) div 2 < i" using k by simp
    then show ?thesis
      using p i k heap[of k] le_trans[OF p, of "xs ! k"] by (auto simp: ys)
  qed
  ultimately show ?thesis by (simp add: up_ok_def)
qed

lemma heap_up_is_heap: "j < length xs \<Longrightarrow> up_ok j xs \<Longrightarrow> is_heap (heap_up lt j xs)"
proof (induction j arbitrary: xs rule: less_induct)
  case (less j)
  let ?i = "(j - 1) div 2"
  show ?case
  proof (cases "?i = j \<or> \<not> lt (xs ! j) (xs ! ?i)")
    case True
    then have up: "heap_up lt j xs = xs" by (subst heap_up.simps) (simp add: Let_def)
    have "le (xs ! ?i) (xs ! j)" if "0 < j" using True that by (auto simp: le_def)
    then have "is_heap xs" using less.prems by (auto simp: up_ok_def is_heap_def heap_from_def)
    then show ?thesis by (simp add: up)
  next
    case False
    then have "?i < j" by auto
    then have "is_heap (heap_up lt ?i (heap_swap ?i j xs))"
      using less.IH[OF _ _ up_ok_swap[OF less.prems(2,1)]] less.prems(1) False by simp
    then show ?thesis using False by (subst heap_up.simps) (simp add: Let_def)
  qed
qed

lemma is_heap_push:
  assumes "is_heap h" shows "is_heap (heap_push lt x h)"
proof -
  have "up_ok (length h) (h @ [x])"
    using assms by (auto simp: up_ok_def is_heap_def heap_from_def nth_append)
  then show ?thesis by (simp add: heap_push_def heap_up_is_heap)
qed

definition down_ok :: "nat \<Rightarrow> nat \<Rightarrow> nat \<Rightarrow> 'a list \<Rightarrow> bool" where
  "down_ok lo i n xs \<longleftrightarrow>
     (\<forall>k<n. 0 < k \<longrightarrow> lo \<le> (k - 1) div 2 \<longrightarrow> (k - 1) div 2 \<noteq> i \<longrightarrow> le (xs ! ((k - 1) div 2)) (xs ! k))
     \<and> (\<forall>k<n. 0 < k \<longrightarrow> 0 < i \<longrightarrow> lo \<le> (i - 1) div 2 \<longrightarrow> (k - 1) div 2 = i \<longrightarrow> le (xs ! ((i - 1) div 2)) (xs ! k))"

lemma least_child_least:
  assumes "0 < k" "(k - 1) div 2 = i" "k < n" shows "le (xs ! least_child lt i n xs) (xs ! k)"
proof -
  have "k = 2 * i + 1 \<or> k = 2 * i + 2" using assms(1,2) by (simp only: parent_iff)
  then show ?thesis
    using assms(3) less_le[of "xs ! (2 * i + 2)" "xs ! (2 * i + 1)"] not_less_le[of "xs ! (2 * i + 2)" "xs ! (2 * i + 1)"]
    by (elim disjE) (auto simp: least_child_def Let_def)
qed

lemma down_ok_swap:
  assumes "down_ok lo i n xs" "n \<le> length xs" "2 * i + 1 < n" "lo \<le> i"
    and j: "j = least_child lt i n xs" and lt: "lt (xs ! j) (xs ! i)"
  shows "down_ok lo j n (heap_swap i j xs)"
proof -
  have jn: "j < n" "i < j" using least_child_less[of i n lt xs] least_child_gt[of i lt n xs] assms by simp_all
  have ys: "heap_swap i j xs ! k = (if k = j then xs ! i else if k = i then xs ! j else xs ! k)" for k
    using assms(2) jn by (simp add: nth_heap_swap)
  have pj: "(j - 1) div 2 = i" using j by (auto simp: least_child_def Let_def)
  have least: "le (xs ! j) (xs ! k)" if "0 < k" "(k - 1) div 2 = i" "k < n" for k
    unfolding j using that by (rule least_child_least)
  have ji: "le (xs ! j) (xs ! i)" using lt by (rule less_le)
  have heap: "le (xs ! ((k - 1) div 2)) (xs ! k)" if "k < n" "0 < k" "lo \<le> (k - 1) div 2" "(k - 1) div 2 \<noteq> i" for k
    using assms(1) that by (simp add: down_ok_def)
  have grand: "le (xs ! ((i - 1) div 2)) (xs ! k)" if "k < n" "0 < k" "0 < i" "lo \<le> (i - 1) div 2" "(k - 1) div 2 = i" for k
    using assms(1) that by (simp add: down_ok_def)
  have "le (heap_swap i j xs ! ((k - 1) div 2)) (heap_swap i j xs ! k)"
    if k: "k < n" "0 < k" "lo \<le> (k - 1) div 2" "(k - 1) div 2 \<noteq> j" for k
  proof (cases "(k - 1) div 2 = i")
    case True
    then show ?thesis using least[of k] ji k jn by (auto simp: ys)
  next
    case False
    show ?thesis
    proof (cases "k = i")
      case True
      have "(i - 1) div 2 < i" using True k by simp
      then show ?thesis using True grand[of j] jn pj k by (simp add: ys)
    next
      case False
      then show ?thesis using heap[of k] \<open>(k - 1) div 2 \<noteq> i\<close> k pj by (auto simp: ys)
    qed
  qed
  moreover have "le (heap_swap i j xs ! ((j - 1) div 2)) (heap_swap i j xs ! k)"
    if k: "k < n" "0 < k" "(k - 1) div 2 = j" for k
  proof -
    have "k \<noteq> i" "k \<noteq> j" using k jn by auto
    then show ?thesis using heap[of k] k pj jn assms(4) by (simp add: ys)
  qed
  ultimately show ?thesis by (simp add: down_ok_def)
qed

lemma heap_down_heap_from:
  "down_ok lo i n xs \<Longrightarrow> n \<le> length xs \<Longrightarrow> lo \<le> i \<Longrightarrow> heap_from lo n (heap_down lt i n xs)"
proof (induction "n - i" arbitrary: i xs rule: less_induct)
  case less
  let ?j = "least_child lt i n xs"
  show ?case
  proof (cases "2 * i + 1 \<ge> n \<or> \<not> lt (xs ! ?j) (xs ! i)")
    case True
    then have down: "heap_down lt i n xs = xs" by (subst heap_down.simps) (auto simp: Let_def)
    have "le (xs ! i) (xs ! k)" if "0 < k" "(k - 1) div 2 = i" "k < n" for k
    proof -
      have "2 * i + 1 < n" using that by linarith
      then have "le (xs ! i) (xs ! ?j)" using True not_less_le by simp
      then show ?thesis using least_child_least[OF that] by (rule le_trans)
    qed
    then show ?thesis using less.prems(1) unfolding down heap_from_def down_ok_def by metis
  next
    case False
    have j: "i < ?j" "?j < n" using least_child_gt[of i lt n xs] least_child_less[of i n lt xs] False by simp_all
    have "heap_from lo n (heap_down lt ?j n (heap_swap i ?j xs))"
      using less.hyps[of ?j "heap_swap i ?j xs"] down_ok_swap[OF less.prems(1,2) _ less.prems(3) refl] False j less.prems
      by simp
    then show ?thesis using False by (subst heap_down.simps) (simp add: Let_def)
  qed
qed

lemma is_heap_pop:
  assumes "is_heap h" "heap_pop lt h = Some (x, h')" shows "is_heap h'"
proof -
  let ?n = "length h - 1"
  have h: "h \<noteq> []" using assms(2) by (auto simp: heap_pop_def)
  have h': "h' = take ?n (heap_down lt 0 ?n (heap_swap 0 ?n h))"
    using assms(2) h by (auto simp: heap_pop_def Let_def)
  have "down_ok 0 0 ?n (heap_swap 0 ?n h)"
    using assms(1) h by (auto simp: down_ok_def is_heap_def heap_from_def nth_heap_swap)
  then have "heap_from 0 ?n (heap_down lt 0 ?n (heap_swap 0 ?n h))"
    by (rule heap_down_heap_from) simp_all
  then show ?thesis by (simp add: h' is_heap_def heap_from_def)
qed

lemma heap_init_from_heap:
  "heap_from i (length h) h \<Longrightarrow> heap_from 0 (length h) (heap_init_from lt i h)"
proof (induction i arbitrary: h)
  case (Suc i)
  have "down_ok i i (length h) h" using Suc.prems by (auto simp: down_ok_def heap_from_def)
  then have "heap_from i (length h) (heap_down lt i (length h) h)"
    by (rule heap_down_heap_from) simp_all
  then show ?case using Suc.IH[of "heap_down lt i (length h) h"] by simp
qed simp

lemma length_heap_init_from [simp]: "length (heap_init_from lt i h) = length h"
  by (induction i arbitrary: h) simp_all

lemma heap_init_is_heap: "is_heap (heap_init lt h)"
proof -
  have "heap_from (length h div 2) (length h) h" by (auto simp: heap_from_def)
  then show ?thesis by (simp add: heap_init_def is_heap_def heap_init_from_heap)
qed

lemma heap_init_mset [simp]: "mset (heap_init lt h) = mset h"
proof -
  have "mset (heap_init_from lt i h) = mset h" for i
    by (induction i arbitrary: h) (simp_all add: heap_down_mset)
  then show ?thesis by (simp add: heap_init_def)
qed

text \<open>What \<^verbatim>\<open>Pop\<close> returns, and what popping everything returns.\<close>

lemma heap_pop_least:
  assumes "is_heap h" "heap_pop lt h = Some (x, h')" "y \<in> set h" shows "le x y"
  using heap_pop_Some[OF assms(2)] heap_head_least[OF assms(1) _ assms(3)] by simp

fun drain :: "nat \<Rightarrow> 'a list \<Rightarrow> 'a list" where
  "drain 0 h = []"
| "drain (Suc n) h = (case heap_pop lt h of None \<Rightarrow> [] | Some (x, h') \<Rightarrow> x # drain n h')"

lemma mset_drain: "mset (drain (length h) h) = mset h"
proof (induction "length h" arbitrary: h)
  case (Suc n)
  then obtain x h' where p: "heap_pop lt h = Some (x, h')" by (cases "heap_pop lt h") auto
  then show ?case using Suc heap_pop_Some(3,4)[OF p] by (metis drain.simps(2) mset.simps(2) nat.inject option.case(2) prod.case)
qed simp

lemma set_drain: "set (drain n h) \<subseteq> set h"
proof (induction n arbitrary: h)
  case (Suc n)
  show ?case
  proof (cases "heap_pop lt h")
    case (Some p)
    obtain x h' where p: "heap_pop lt h = Some (x, h')" using Some by (cases p) simp
    then show ?thesis using Suc[of h'] set_heap_pop[OF p] by auto
  qed simp
qed simp

lemma sorted_drain: "is_heap h \<Longrightarrow> sorted_wrt le (drain n h)"
proof (induction n arbitrary: h)
  case (Suc n)
  show ?case
  proof (cases "heap_pop lt h")
    case (Some p)
    obtain x h' where p: "heap_pop lt h = Some (x, h')" using Some by (cases p) simp
    have "le x y" if "y \<in> set (drain n h')" for y
      using that heap_pop_least[OF Suc.prems p] set_drain[of n h'] set_heap_pop[OF p] by auto
    then show ?thesis using p Suc.IH[OF is_heap_pop[OF Suc.prems p]] by simp
  qed simp
qed simp

end

end
