(* ===== verification/Dedup_Window.thy ===== *)
theory Dedup_Window
  imports Graywolf_Prelude
begin

text \<open>
  The two sliding windows of the program: the duplicate-suppression cache
  (\<^verbatim>\<open>pkg/internal/dedup/dedup.go\<close>) and the event counter behind the transmit rate caps
  (\<^verbatim>\<open>pkg/internal/ratelimit/ratelimit.go\<close>). Times are nanoseconds; the clock is sampled once
  per call and handed to the operations. A map is an association list with distinct keys,
  so that its size is the \<^verbatim>\<open>len\<close> of the code.

  What the governor and the digipeater rely on is the locale \<open>presence_window\<close>; the window
  of the code is an interpretation of it.
\<close>

section \<open>The interface\<close>

text \<open>
  \<open>check w t k\<close>: is \<open>k\<close> present at \<open>t\<close>; \<open>note_key w t k\<close>: record \<open>k\<close> at \<open>t\<close>. Any
  operation may drop what has expired, so the laws speak of the time of the last note.
\<close>

locale presence_window =
  fixes check :: "'w \<Rightarrow> int \<Rightarrow> 'k \<Rightarrow> bool"
    and note_key :: "'w \<Rightarrow> int \<Rightarrow> 'k \<Rightarrow> 'w"
    and touch :: "'w \<Rightarrow> int \<Rightarrow> 'w"
    and ttl_of :: "'w \<Rightarrow> int"
    and wok :: "'w \<Rightarrow> bool"
  assumes ttl_note [simp]: "ttl_of (note_key w t k) = ttl_of w"
    and ttl_touch [simp]: "ttl_of (touch w t) = ttl_of w"
    and wok_note [simp]: "wok w \<Longrightarrow> wok (note_key w t k)"
    and wok_touch [simp]: "wok w \<Longrightarrow> wok (touch w t)"
    and check_note_same: "wok w \<Longrightarrow> check (note_key w t k) u k \<longleftrightarrow> u - t < ttl_of w"
    and check_note_other: "wok w \<Longrightarrow> k \<noteq> l \<Longrightarrow> t \<le> u \<Longrightarrow> check (note_key w t k) u l \<longleftrightarrow> check w u l"
    and check_touch: "wok w \<Longrightarrow> t \<le> u \<Longrightarrow> check (touch w t) u l \<longleftrightarrow> check w u l"
begin

text \<open>
  The client's view: \<open>remembers w h now\<close> says that every key of the history \<open>h\<close> of
  recorded (time, key) pairs is present until its window has passed. Recording and touching
  keep it, so a client that records what it lets through and lets through only what is not
  present never repeats a key within the window.
\<close>

definition remembers :: "'w \<Rightarrow> (int \<times> 'k) set \<Rightarrow> int \<Rightarrow> bool" where
  "remembers w h now \<longleftrightarrow> wok w \<and> (\<forall>(t, k) \<in> h. \<forall>u \<ge> now. u < t + ttl_of w \<longrightarrow> check w u k)"

lemma remembers_empty: "wok w \<Longrightarrow> remembers w {} now"
  by (simp add: remembers_def)

lemma remembers_later: "remembers w h now \<Longrightarrow> now \<le> t \<Longrightarrow> remembers w h t"
  by (fastforce simp: remembers_def)

lemma remembers_touch: "remembers w h now \<Longrightarrow> now \<le> t \<Longrightarrow> remembers (touch w t) h t"
  by (fastforce simp: remembers_def check_touch)

lemma remembers_note:
  assumes "remembers w h now" "now \<le> t" "\<forall>(s, l) \<in> h. s \<le> t"
  shows "remembers (note_key w t k) (insert (t, k) h) t"
proof -
  have w: "wok w" using assms(1) by (simp add: remembers_def)
  have "check (note_key w t k) u l" if "(s, l) \<in> h" "t \<le> u" "u < s + ttl_of w" for s l u
  proof (cases "l = k")
    case True
    then show ?thesis using that assms(3) w by (fastforce simp: check_note_same)
  next
    case False
    then show ?thesis using that assms(1,2) w check_note_other[of w k l t u] by (fastforce simp: remembers_def)
  qed
  then show ?thesis using w by (auto simp: remembers_def check_note_same)
qed

lemma remembers_apart:
  assumes "remembers w h now" "(t, k) \<in> h" "now \<le> u" "\<not> check w u k"
  shows "t + ttl_of w \<le> u"
  using assms by (fastforce simp: remembers_def)

end

section \<open>The duplicate-suppression window\<close>

record 'v dw_entry =
  deWhen :: int
  deValue :: 'v

record ('k, 'v) dwindow =
  dwTTL :: int
  dwGC :: nat
  dwSeen :: "('k \<times> 'v dw_entry) list"

definition defaultGCThreshold :: nat where
  "defaultGCThreshold = 64"

text \<open>\<^verbatim>\<open>New\<close> panics on a non-positive TTL.\<close>

definition New_window :: "int \<Rightarrow> int \<Rightarrow> ('k, 'v) dwindow option" where
  "New_window ttl gc =
     (if ttl \<le> 0 then None
      else Some \<lparr>dwTTL = ttl, dwGC = (if gc \<le> 0 then defaultGCThreshold else nat gc), dwSeen = []\<rparr>)"

definition gcLocked :: "int \<Rightarrow> ('k, 'v) dwindow \<Rightarrow> ('k, 'v) dwindow" where
  "gcLocked now w =
     (if length (dwSeen w) < dwGC w then w
      else w\<lparr>dwSeen := filter (\<lambda>(k, e). \<not> now - deWhen e \<ge> dwTTL w) (dwSeen w)\<rparr>)"

definition put_entry :: "'k \<Rightarrow> 'v dw_entry \<Rightarrow> ('k, 'v) dwindow \<Rightarrow> ('k, 'v) dwindow" where
  "put_entry k e w = w\<lparr>dwSeen := (k, e) # filter (\<lambda>(l, _). l \<noteq> k) (dwSeen w)\<rparr>"

definition Seen :: "int \<Rightarrow> 'k \<Rightarrow> 'v \<Rightarrow> ('k, 'v) dwindow \<Rightarrow> 'v option \<times> ('k, 'v) dwindow" where
  "Seen now k v w0 =
     (let w = gcLocked now w0 in
      case map_of (dwSeen w) k of
        Some e \<Rightarrow>
          if now - deWhen e < dwTTL w
          then (Some (deValue e), put_entry k \<lparr>deWhen = now, deValue = deValue e\<rparr> w)
          else (None, put_entry k \<lparr>deWhen = now, deValue = v\<rparr> w)
      | None \<Rightarrow> (None, put_entry k \<lparr>deWhen = now, deValue = v\<rparr> w))"

definition Has :: "int \<Rightarrow> 'k \<Rightarrow> ('k, 'v) dwindow \<Rightarrow> bool \<times> ('k, 'v) dwindow" where
  "Has now k w0 =
     (let w = gcLocked now w0 in
      (case map_of (dwSeen w) k of None \<Rightarrow> False | Some e \<Rightarrow> now - deWhen e < dwTTL w, w))"

definition Peek :: "int \<Rightarrow> 'k \<Rightarrow> ('k, 'v) dwindow \<Rightarrow> ('v \<times> int) option \<times> ('k, 'v) dwindow" where
  "Peek now k w0 =
     (let w = gcLocked now w0 in
      (map_option (\<lambda>e. (deValue e, deWhen e)) (map_of (dwSeen w) k), w))"

definition Record :: "int \<Rightarrow> 'k \<Rightarrow> 'v \<Rightarrow> ('k, 'v) dwindow \<Rightarrow> ('k, 'v) dwindow" where
  "Record now k v w = put_entry k \<lparr>deWhen = now, deValue = v\<rparr> (gcLocked now w)"

definition Len :: "('k, 'v) dwindow \<Rightarrow> nat" where
  "Len w = length (dwSeen w)"

definition Reset :: "('k, 'v) dwindow \<Rightarrow> ('k, 'v) dwindow" where
  "Reset w = w\<lparr>dwSeen := []\<rparr>"

definition SetTTL :: "int \<Rightarrow> ('k, 'v) dwindow \<Rightarrow> ('k, 'v) dwindow" where
  "SetTTL ttl w = (if ttl \<le> 0 then w else w\<lparr>dwTTL := ttl\<rparr>)"

text \<open>Presence and recording as the clients use them.\<close>

definition has_key :: "('k, 'v) dwindow \<Rightarrow> int \<Rightarrow> 'k \<Rightarrow> bool" where
  "has_key w now k = fst (Has now k w)"

definition dw_inv :: "('k, 'v) dwindow \<Rightarrow> bool" where
  "dw_inv w \<longleftrightarrow> 0 < dwTTL w \<and> 0 < dwGC w \<and> distinct (map fst (dwSeen w))"

lemma map_of_filter_val:
  "distinct (map fst xs) \<Longrightarrow>
    map_of (filter (\<lambda>(k, e). P e) xs) k = (case map_of xs k of None \<Rightarrow> None | Some e \<Rightarrow> if P e then Some e else None)"
  by (induction xs) (auto split: option.splits simp: map_of_eq_None_iff image_iff)

lemma map_of_filter_key: "map_of (filter (\<lambda>(l, _). l \<noteq> k) xs) l = (if l = k then None else map_of xs l)"
  by (induction xs) auto

lemma map_of_put_entry: "map_of (dwSeen (put_entry k e w)) l = (if l = k then Some e else map_of (dwSeen w) l)"
  by (simp add: put_entry_def map_of_filter_key)

lemma gcLocked_fields [simp]: "dwTTL (gcLocked now w) = dwTTL w" "dwGC (gcLocked now w) = dwGC w"
  by (simp_all add: gcLocked_def)

lemma put_entry_fields [simp]: "dwTTL (put_entry k e w) = dwTTL w" "dwGC (put_entry k e w) = dwGC w"
  by (simp_all add: put_entry_def)

text \<open>An entry that counts at \<open>now\<close> or later survives a collection at \<open>now\<close>.\<close>

definition live_entry :: "('k, 'v) dwindow \<Rightarrow> int \<Rightarrow> 'k \<Rightarrow> 'v dw_entry option" where
  "live_entry w now k =
     (case map_of (dwSeen w) k of None \<Rightarrow> None | Some e \<Rightarrow> if now - deWhen e < dwTTL w then Some e else None)"

lemma live_entry_gc:
  "dw_inv w \<Longrightarrow> now \<le> u \<Longrightarrow> live_entry (gcLocked now w) u k = live_entry w u k"
  by (auto simp: live_entry_def gcLocked_def dw_inv_def map_of_filter_val split: option.split)

lemma live_entry_put:
  "live_entry (put_entry k e w) u l = (if l = k then (if u - deWhen e < dwTTL w then Some e else None) else live_entry w u l)"
  by (auto simp: live_entry_def map_of_put_entry split: option.split)

lemma has_key_live: "dw_inv w \<Longrightarrow> has_key w now k \<longleftrightarrow> live_entry w now k \<noteq> None"
  using live_entry_gc[of w now now k]
  by (auto simp: has_key_def Has_def Let_def live_entry_def split: option.splits if_splits)

lemma Seen_hit: "dw_inv w \<Longrightarrow> fst (Seen now k v w) = map_option deValue (live_entry w now k)"
  using live_entry_gc[of w now now k]
  by (auto simp: Seen_def Let_def live_entry_def split: option.splits if_splits)

lemma dw_inv_gc: "dw_inv w \<Longrightarrow> dw_inv (gcLocked now w)"
  by (auto simp: dw_inv_def gcLocked_def distinct_map_filter)

lemma dw_inv_put: "dw_inv w \<Longrightarrow> dw_inv (put_entry k e w)"
  by (auto simp: dw_inv_def put_entry_def distinct_map_filter)

lemma dw_inv_ops:
  assumes "dw_inv w"
  shows "dw_inv (snd (Seen now k v w))" "dw_inv (snd (Has now k w))" "dw_inv (snd (Peek now k w))"
    "dw_inv (Record now k v w)" "dw_inv (Reset w)" "dw_inv (SetTTL d w)"
  using assms dw_inv_gc[OF assms, of now]
  by (simp_all add: Seen_def Has_def Peek_def Record_def Let_def dw_inv_put split: option.split)
    (simp_all add: dw_inv_def Reset_def SetTTL_def)

text \<open>The window of the code meets the interface, as the governor and the digipeater use it.\<close>

interpretation dw: presence_window has_key "\<lambda>w t k. Record t k () w" "\<lambda>w t. gcLocked t w" dwTTL dw_inv
proof
  fix w :: "('k, unit) dwindow" and t u :: int and k l :: 'k
  assume w: "dw_inv w"
  show "dw_inv (Record t k () w)" "dw_inv (gcLocked t w)" using w by (simp_all add: dw_inv_ops dw_inv_gc)
  then show "has_key (Record t k () w) u k \<longleftrightarrow> u - t < dwTTL w"
    by (simp add: has_key_live) (simp add: Record_def live_entry_put)
  show "has_key (Record t k () w) u l \<longleftrightarrow> has_key w u l" if "k \<noteq> l" "t \<le> u"
    using that w \<open>dw_inv (Record t k () w)\<close> by (simp add: has_key_live) (simp add: Record_def live_entry_put live_entry_gc)
  show "has_key (gcLocked t w) u l \<longleftrightarrow> has_key w u l" if "t \<le> u"
    using that w by (simp add: has_key_live dw_inv_gc live_entry_gc)
qed (simp_all add: Record_def)

lemma Seen_unit: "dw_inv w \<Longrightarrow> Seen t k () w = (if has_key w t k then Some () else None, Record t k () w)"
  using live_entry_gc[of w t t k]
  by (auto simp: Seen_def Record_def Let_def has_key_live live_entry_def split: option.splits if_splits)

lemma Has_eq: "Has t k w = (has_key w t k, gcLocked t w)"
  by (simp add: has_key_def Has_def Let_def)

section \<open>The event counter\<close>

record rwindow =
  rwWindow :: int
  rwEvents :: "int list"

definition NewWithClock :: "int \<Rightarrow> rwindow option" where
  "NewWithClock window = (if window \<le> 0 then None else Some \<lparr>rwWindow = window, rwEvents = []\<rparr>)"

definition rw_record :: "int \<Rightarrow> rwindow \<Rightarrow> rwindow" where
  "rw_record now w = w\<lparr>rwEvents := rwEvents w @ [now]\<rparr>"

definition evictLocked :: "int \<Rightarrow> rwindow \<Rightarrow> rwindow" where
  "evictLocked now w = w\<lparr>rwEvents := dropWhile (\<lambda>e. e < now - rwWindow w) (rwEvents w)\<rparr>"

definition rw_count :: "int \<Rightarrow> rwindow \<Rightarrow> nat \<times> rwindow" where
  "rw_count now w0 = (let w = evictLocked now w0 in (length (rwEvents w), w))"

definition rw_reset :: "rwindow \<Rightarrow> rwindow" where
  "rw_reset w = w\<lparr>rwEvents := []\<rparr>"

text \<open>
  Eviction stops at the first young event, so the count is right because events are recorded
  in order of time.
\<close>

lemma dropWhile_sorted: "sorted xs \<Longrightarrow> dropWhile (\<lambda>e. e < c) xs = filter (\<lambda>e. c \<le> e) (xs :: int list)"
proof (induction xs)
  case (Cons a xs)
  have "filter ((\<le>) c) xs = xs" if "c \<le> a" using that Cons.prems by (auto simp: filter_id_conv)
  then show ?case using Cons by auto
qed simp

text \<open>\<open>rw_of w es\<close>: the window holds what is left of the recorded events \<open>es\<close>.\<close>

definition rw_of :: "int \<Rightarrow> rwindow \<Rightarrow> int list \<Rightarrow> bool" where
  "rw_of now w es \<longleftrightarrow> sorted es \<and> sorted (rwEvents w) \<and> (\<forall>e \<in> set es. e \<le> now)
     \<and> (\<forall>e \<in> set (rwEvents w). e \<le> now)
     \<and> filter (\<lambda>e. now - rwWindow w \<le> e) (rwEvents w) = filter (\<lambda>e. now - rwWindow w \<le> e) es"

lemma filter_later:
  assumes "c \<le> d" "filter (\<lambda>e. c \<le> e) xs = filter (\<lambda>e. c \<le> e) (ys :: int list)"
  shows "filter (\<lambda>e. d \<le> e) xs = filter (\<lambda>e. d \<le> e) ys"
proof -
  have "filter (\<lambda>e. d \<le> e) zs = filter (\<lambda>e. d \<le> e) (filter (\<lambda>e. c \<le> e) zs)" for zs :: "int list"
    using assms(1) by (auto simp: intro!: filter_cong)
  then show ?thesis using assms(2) by metis
qed

lemma rw_of_later: "rw_of now w es \<Longrightarrow> now \<le> t \<Longrightarrow> rw_of t w es"
  unfolding rw_of_def using filter_later[of "now - rwWindow w" "t - rwWindow w" "rwEvents w" es] by force

lemma rw_record_of: "rw_of now w es \<Longrightarrow> now \<le> t \<Longrightarrow> rw_of t (rw_record t w) (es @ [t])"
  using rw_of_later[of now w es t] by (auto simp: rw_of_def rw_record_def sorted_append)

lemma rw_count_of:
  assumes "rw_of now w es" "now \<le> t"
  shows "fst (rw_count t w) = length (filter (\<lambda>e. t - rwWindow w \<le> e) es)" "rw_of t (snd (rw_count t w)) es"
  using rw_of_later[OF assms]
  by (simp_all add: rw_count_def Let_def evictLocked_def rw_of_def dropWhile_sorted)
    (metis sorted_wrt_filter)

lemma rw_window_fields [simp]: "rwWindow (rw_record t w) = rwWindow w" "rwWindow (snd (rw_count t w)) = rwWindow w"
  by (simp_all add: rw_record_def rw_count_def evictLocked_def Let_def)

text \<open>At most \<open>lim\<close> events in every closed interval of length \<open>d\<close>.\<close>

definition capped :: "int \<Rightarrow> int \<Rightarrow> int list \<Rightarrow> bool" where
  "capped d lim es \<longleftrightarrow> (\<forall>t. int (length (filter (\<lambda>e. t - d \<le> e \<and> e \<le> t) es)) \<le> lim)"

lemma filter_length_mono: "(\<And>x. x \<in> set xs \<Longrightarrow> P x \<Longrightarrow> Q x) \<Longrightarrow> length (filter P xs) \<le> length (filter Q xs)"
  by (induction xs) (auto intro: le_SucI)

lemma capped_snoc:
  assumes "capped d lim es" "int (length (filter (\<lambda>e. now - d \<le> e) es)) < lim"
  shows "capped d lim (es @ [now])"
proof -
  have "int (length (filter (\<lambda>e. t - d \<le> e \<and> e \<le> t) (es @ [now]))) \<le> lim" for t
  proof (cases "now \<le> t")
    case True
    then have "length (filter (\<lambda>e. t - d \<le> e \<and> e \<le> t) es) \<le> length (filter (\<lambda>e. now - d \<le> e) es)"
      by (intro filter_length_mono) auto
    then show ?thesis using assms(2) by simp
  next
    case False
    then show ?thesis using assms(1) by (simp add: capped_def)
  qed
  then show ?thesis by (simp add: capped_def)
qed

end
