(* ===== verification/TX_Governor.thy ===== *)
theory TX_Governor
  imports TX_Source Go_Heap Dedup_Window
begin

text \<open>
  The transmit governor (\<^verbatim>\<open>pkg/txgovernor/governor.go\<close>, \<^verbatim>\<open>pqueue.go\<close>): the priority
  queue of pending frames, \<^verbatim>\<open>Submit\<close>, and the worker's \<^verbatim>\<open>processOne\<close> in the critical
  sections of the code, since \<^verbatim>\<open>processOne\<close> releases the lock between looking at the head
  and popping it. Each critical section happens at one instant, given to it as \<open>now\<close>.

  The random roll of the persistence test, the verdict of the downstream \<^verbatim>\<open>Sender\<close> and
  whether the caller's context has been cancelled are arguments. Hooks are their ids; a hook
  call is recorded, with its arguments, in the trace \<open>gvHookCalls\<close>, and a frame handed to
  the sender in \<open>gvOut\<close>.
\<close>

section \<open>The priority queue\<close>

record queue_item =
  qiChannel :: nat
  qiFrame :: frame
  qiSource :: submit_source
  qiPriority :: int
  qiSeq :: nat
  qiEnqueued :: int
  qiCounted :: bool

definition item_less :: "queue_item \<Rightarrow> queue_item \<Rightarrow> bool" where
  "item_less a b =
     (if qiPriority a \<noteq> qiPriority b then qiPriority a > qiPriority b else qiSeq a < qiSeq b)"

interpretation pq: go_order item_less
  by standard (auto simp: item_less_def split: if_splits)

section \<open>State\<close>

datatype gov_err = ErrQueueFull | ErrStopped | ErrNilFrame | ErrContext

record channel_timing =
  ctSlotTime :: int
  ctPersist :: u8
  ctFullDup :: bool

record gov_config =
  gcRate1MinLimit :: int
  gcRate5MinLimit :: int
  gcDedupWindow :: int
  gcQueueCapacity :: int
  gcChannels :: "nat \<rightharpoonup> channel_timing"

record gov_stats =
  gsEnqueued :: nat
  gsSent :: nat
  gsDeduped :: nat
  gsRateLimited :: nat
  gsQueueDropped :: nat

record transmit_frame =
  tfChannel :: nat
  tfData :: bytes
  tfPriority :: int
  tfFrameId :: nat

record channel_rate =
  crOneMin :: rwindow
  crFiveMin :: rwindow

text \<open>
  \<open>gvLog\<close> is the history of the accepted submissions and \<open>gvCommits\<close> that of the pops, each
  with its time; the code does not keep them.
\<close>

record gov =
  gvCfg :: gov_config
  gvQ :: "queue_item list"
  gvSeq :: nat
  gvDedup :: "(string, unit) dwindow"
  gvRates :: "nat \<rightharpoonup> channel_rate"
  gvDcd :: "nat \<Rightarrow> bool"
  gvWake :: bool
  gvStats :: gov_stats
  gvClosed :: bool
  gvHooks :: "nat list"
  gvNextHookID :: nat
  gvNextFrameID :: nat
  gvSkipCSMA :: "(nat \<Rightarrow> bool) option"
  gvOut :: "transmit_frame list"
  gvHookCalls :: "(nat \<times> nat \<times> frame \<times> submit_source) list"
  gvLog :: "(int \<times> queue_item) list"
  gvCommits :: "(int \<times> queue_item) list"

definition slot_default :: int where "slot_default = 100 * 1000000"
definition minute :: int where "minute = 60 * 1000000000"

definition gov_applyDefaults :: "gov_config \<Rightarrow> gov_config" where
  "gov_applyDefaults c0 =
     (let c = (if gcDedupWindow c0 = 0 then c0\<lparr>gcDedupWindow := 30 * 1000000000\<rparr> else c0)
      in if gcQueueCapacity c = 0 then c\<lparr>gcQueueCapacity := 256\<rparr> else c)"

definition timingFor :: "gov_config \<Rightarrow> nat \<Rightarrow> channel_timing" where
  "timingFor c channel =
     (case gcChannels c channel of
        None \<Rightarrow> \<lparr>ctSlotTime = slot_default, ctPersist = 63, ctFullDup = False\<rparr>
      | Some t \<Rightarrow>
          let t = (if ctSlotTime t = 0 then t\<lparr>ctSlotTime := slot_default\<rparr> else t)
          in if ctPersist t = 0 then t\<lparr>ctPersist := 63\<rparr> else t)"

text \<open>\<^verbatim>\<open>New\<close>: a negative dedup window panics in \<^verbatim>\<open>dedup.New\<close>.\<close>

definition New_gov :: "gov_config \<Rightarrow> gov option" where
  "New_gov cfg0 =
     (let cfg = gov_applyDefaults cfg0 in
      case New_window (gcDedupWindow cfg) 0 of
        None \<Rightarrow> None
      | Some w \<Rightarrow> Some
          \<lparr>gvCfg = cfg, gvQ = [], gvSeq = 0, gvDedup = w, gvRates = (\<lambda>_. None), gvDcd = (\<lambda>_. False),
           gvWake = False, gvStats = \<lparr>gsEnqueued = 0, gsSent = 0, gsDeduped = 0, gsRateLimited = 0, gsQueueDropped = 0\<rparr>,
           gvClosed = False, gvHooks = [], gvNextHookID = 0, gvNextFrameID = 0, gvSkipCSMA = None,
           gvOut = [], gvHookCalls = [], gvLog = [], gvCommits = []\<rparr>)"

section \<open>Submission\<close>

definition bump :: "(gov_stats \<Rightarrow> gov_stats) \<Rightarrow> gov \<Rightarrow> gov" where
  "bump f g = g\<lparr>gvStats := f (gvStats g)\<rparr>"

text \<open>\<^verbatim>\<open>Has\<close> is not called, and so does not collect, when the source skips the dedup.\<close>

definition gov_hit :: "int \<Rightarrow> string \<Rightarrow> submit_source \<Rightarrow> gov \<Rightarrow> bool \<times> gov" where
  "gov_hit now key src g =
     (if ssSkipDedup src then (False, g)
      else let (hit, w) = Has now key (gvDedup g) in (hit, g\<lparr>gvDedup := w\<rparr>))"

definition new_item :: "int \<Rightarrow> nat \<Rightarrow> frame \<Rightarrow> submit_source \<Rightarrow> nat \<Rightarrow> queue_item" where
  "new_item now channel f src n =
     \<lparr>qiChannel = channel, qiFrame = f, qiSource = src, qiPriority = ssPriority src, qiSeq = n,
      qiEnqueued = now, qiCounted = False\<rparr>"

definition enqueue_item :: "int \<Rightarrow> nat \<Rightarrow> frame \<Rightarrow> submit_source \<Rightarrow> gov \<Rightarrow> gov" where
  "enqueue_item now channel f src g0 =
     (let g = g0\<lparr>gvDedup := Record now (DedupKey f) () (gvDedup g0)\<rparr>;
          g = g\<lparr>gvSeq := gvSeq g + 1\<rparr>;
          x = new_item now channel f src (gvSeq g);
          g = g\<lparr>gvQ := heap_push item_less x (gvQ g), gvLog := gvLog g @ [(now, x)]\<rparr>
      in (bump (\<lambda>s. s\<lparr>gsEnqueued := gsEnqueued s + 1\<rparr>) g)\<lparr>gvWake := True\<rparr>)"

definition Submit :: "int \<Rightarrow> bool \<Rightarrow> nat \<Rightarrow> frame option \<Rightarrow> submit_source \<Rightarrow> gov \<Rightarrow> gov_err option \<times> gov" where
  "Submit now cancelled channel fo src g =
     (case fo of
        None \<Rightarrow> (Some ErrNilFrame, g)
      | Some f \<Rightarrow>
          if cancelled then (Some ErrContext, g)
          else if gvClosed g then (Some ErrStopped, g)
          else
            let (hit, g) = gov_hit now (DedupKey f) src g
            in if hit then (None, bump (\<lambda>s. s\<lparr>gsDeduped := gsDeduped s + 1\<rparr>) g)
               else if int (length (gvQ g)) \<ge> gcQueueCapacity (gvCfg g)
               then (Some ErrQueueFull, bump (\<lambda>s. s\<lparr>gsQueueDropped := gsQueueDropped s + 1\<rparr>) g)
               else (None, enqueue_item now channel f src g))"

section \<open>Rate caps\<close>

definition rateFor :: "nat \<Rightarrow> gov \<Rightarrow> channel_rate \<times> gov" where
  "rateFor channel g =
     (case gvRates g channel of
        Some r \<Rightarrow> (r, g)
      | None \<Rightarrow>
          let r = \<lparr>crOneMin = \<lparr>rwWindow = minute, rwEvents = []\<rparr>, crFiveMin = \<lparr>rwWindow = 5 * minute, rwEvents = []\<rparr>\<rparr>
          in (r, g\<lparr>gvRates := (gvRates g)(channel \<mapsto> r)\<rparr>))"

definition set_rate :: "nat \<Rightarrow> channel_rate \<Rightarrow> gov \<Rightarrow> gov" where
  "set_rate channel r g = g\<lparr>gvRates := (gvRates g)(channel \<mapsto> r)\<rparr>"

definition isRateLimitedLocked :: "int \<Rightarrow> nat \<Rightarrow> gov \<Rightarrow> bool \<times> gov" where
  "isRateLimitedLocked now channel g0 =
     (if gcRate1MinLimit (gvCfg g0) = 0 \<and> gcRate5MinLimit (gvCfg g0) = 0 then (False, g0)
      else
        let (r, g) = rateFor channel g0;
            lim5 = gcRate5MinLimit (gvCfg g); lim1 = gcRate1MinLimit (gvCfg g);
            (n5, w5) = (if lim5 > 0 then rw_count now (crFiveMin r) else (0, crFiveMin r));
            g = set_rate channel (r\<lparr>crFiveMin := w5\<rparr>) g
        in if lim5 > 0 \<and> int n5 \<ge> lim5 then (True, g)
           else
             let (n1, w1) = (if lim1 > 0 then rw_count now (crOneMin r) else (0, crOneMin r))
             in (lim1 > 0 \<and> int n1 \<ge> lim1, set_rate channel (r\<lparr>crOneMin := w1, crFiveMin := w5\<rparr>) g))"

definition recordSendLocked :: "int \<Rightarrow> nat \<Rightarrow> gov \<Rightarrow> gov" where
  "recordSendLocked now channel g0 =
     (let (r, g) = rateFor channel g0
      in set_rate channel (r\<lparr>crOneMin := rw_record now (crOneMin r), crFiveMin := rw_record now (crFiveMin r)\<rparr>) g)"

section \<open>The worker\<close>

text \<open>
  The first critical section of \<^verbatim>\<open>processOne\<close> and the tests that follow it: what the worker
  has decided about the head, and the marks it leaves on it. \<open>Defer\<close> carries the slot time the
  worker sleeps.
\<close>

datatype verdict = Nothing | Held | Busy | Defer int | Go queue_item

definition set_head :: "queue_item \<Rightarrow> gov \<Rightarrow> gov" where
  "set_head x g = g\<lparr>gvQ := (gvQ g)[0 := x]\<rparr>"

definition decide :: "int \<Rightarrow> u8 \<Rightarrow> gov \<Rightarrow> verdict \<times> gov" where
  "decide now roll g0 =
     (if gvQ g0 = [] then (Nothing, g0)
      else
        let head = gvQ g0 ! 0;
            (limited, g) = isRateLimitedLocked now (qiChannel head) g0
        in if limited then
             (Held, if \<not> qiCounted head
                    then set_head (head\<lparr>qiCounted := True\<rparr>) (bump (\<lambda>s. s\<lparr>gsRateLimited := gsRateLimited s + 1\<rparr>) g)
                    else g)
           else
             let head = head\<lparr>qiCounted := False\<rparr>;
                 g = set_head head g;
                 timing = timingFor (gvCfg g) (qiChannel head);
                 skip = (case gvSkipCSMA g of None \<Rightarrow> False | Some f \<Rightarrow> f (qiChannel head));
                 busy = (gvDcd g (qiChannel head) \<and> \<not> skip);
                 defer = (\<not> skip \<and> \<not> ctFullDup timing \<and> \<not> busy \<and> roll > ctPersist timing)
             in if busy \<and> \<not> ctFullDup timing \<and> \<not> skip then (Busy, g)
                else if defer then (Defer (ctSlotTime timing), g)
                else (Go head, g))"

text \<open>The second critical section. \<^verbatim>\<open>g.q[0] != top\<close> compares pointers; items differ in their number.\<close>

definition commit :: "int \<Rightarrow> queue_item \<Rightarrow> gov \<Rightarrow> bool \<times> gov" where
  "commit now head g =
     (if gvQ g = [] \<or> qiSeq (gvQ g ! 0) \<noteq> qiSeq head then (False, g)
      else
        case heap_pop item_less (gvQ g) of
          None \<Rightarrow> (False, g)
        | Some (x, q) \<Rightarrow>
            (True, bump (\<lambda>s. s\<lparr>gsSent := gsSent s + 1\<rparr>)
               (recordSendLocked now (qiChannel head) (g\<lparr>gvQ := q, gvCommits := gvCommits g @ [(now, x)]\<rparr>))))"

text \<open>Encoding, the sender, and the hooks; \<open>accepted\<close> is the sender's verdict.\<close>

definition transmit :: "bool \<Rightarrow> queue_item \<Rightarrow> gov \<Rightarrow> gov" where
  "transmit accepted head g =
     (case Encode (qiFrame head) of
        Inl _ \<Rightarrow> g
      | Inr raw \<Rightarrow>
          let n = gvNextFrameID g + 1;
              tf = \<lparr>tfChannel = qiChannel head, tfData = raw, tfPriority = qiPriority head mod 2 ^ 32, tfFrameId = n\<rparr>;
              g = g\<lparr>gvNextFrameID := n, gvOut := gvOut g @ [tf]\<rparr>
          in if accepted
             then g\<lparr>gvHookCalls := gvHookCalls g @
                      map (\<lambda>h. (h, qiChannel head, qiFrame head, qiSource head)) (gvHooks g)\<rparr>
             else g)"

text \<open>\<^verbatim>\<open>processOne\<close> when nothing else runs in between.\<close>

definition processOne :: "int \<Rightarrow> u8 \<Rightarrow> bool \<Rightarrow> gov \<Rightarrow> gov" where
  "processOne now roll accepted g0 =
     (case decide now roll g0 of
        (Go head, g) \<Rightarrow> (case commit now head g of (True, g) \<Rightarrow> transmit accepted head g | (False, g) \<Rightarrow> g)
      | (_, g) \<Rightarrow> g)"

section \<open>Configuration, hooks, carrier detect\<close>

definition AddTxHook :: "gov \<Rightarrow> nat \<times> gov" where
  "AddTxHook g =
     (let n = gvNextHookID g + 1 in (n, g\<lparr>gvNextHookID := n, gvHooks := gvHooks g @ [n]\<rparr>))"

text \<open>The closure returned by \<^verbatim>\<open>AddTxHook\<close>; \<^verbatim>\<open>sync.Once\<close> makes a second call do nothing.\<close>

definition unregister :: "nat \<Rightarrow> gov \<Rightarrow> gov" where
  "unregister n g = g\<lparr>gvHooks := remove1 n (gvHooks g)\<rparr>"

definition SetSkipCSMA :: "(nat \<Rightarrow> bool) option \<Rightarrow> gov \<Rightarrow> gov" where
  "SetSkipCSMA fn g = g\<lparr>gvSkipCSMA := fn\<rparr>"

definition SetChannelTiming :: "nat \<Rightarrow> channel_timing \<Rightarrow> gov \<Rightarrow> gov" where
  "SetChannelTiming channel t g = g\<lparr>gvCfg := (gvCfg g)\<lparr>gcChannels := (gcChannels (gvCfg g))(channel \<mapsto> t)\<rparr>\<rparr>"

definition dcdWatcher :: "nat \<times> bool \<Rightarrow> gov \<Rightarrow> gov" where
  "dcdWatcher ev g =
     (case ev of (channel, detected) \<Rightarrow>
        let g = g\<lparr>gvDcd := (gvDcd g)(channel := detected)\<rparr>
        in if \<not> detected then g\<lparr>gvWake := True\<rparr> else g)"

definition QueueLen :: "gov \<Rightarrow> nat" where
  "QueueLen g = length (gvQ g)"

end
