(* ===== verification/TX_Governor_Inv.thy ===== *)
theory TX_Governor_Inv
  imports TX_Governor
begin

text \<open>
  Invariants of the transmit governor along every interleaving of its callers with its worker:
  the queue is a heap of the accepted and not yet popped frames, the dedup window remembers
  every accepted key, and the rate windows hold the pops of each channel.
\<close>

section \<open>Steps\<close>

text \<open>\<open>Decided x\<close>: between the two critical sections; \<open>Popped x\<close>: before encoding and sending.\<close>

datatype worker = Idle | Decided queue_item | Popped queue_item | Stopped

inductive gov_step :: "int \<Rightarrow> gov \<Rightarrow> worker \<Rightarrow> gov \<Rightarrow> worker \<Rightarrow> bool" where
  step_submit: "gov_step now g w (snd (Submit now cancelled channel fo src g)) w"
| step_decide: "decide now roll g = (v, g') \<Longrightarrow>
    gov_step now g Idle g' (case v of Go x \<Rightarrow> Decided x | _ \<Rightarrow> Idle)"
| step_commit: "commit now x g = (popped, g') \<Longrightarrow>
    gov_step now g (Decided x) g' (if popped then Popped x else Idle)"
| step_transmit: "gov_step now g (Popped x) (transmit accepted x g) Idle"
| step_stop: "gov_step now g Idle (g\<lparr>gvClosed := True\<rparr>) Stopped"
| step_add_hook: "gov_step now g w (snd (AddTxHook g)) w"
| step_unregister: "gov_step now g w (unregister n g) w"
| step_skip: "gov_step now g w (SetSkipCSMA fn g) w"
| step_timing: "gov_step now g w (SetChannelTiming channel ct g) w"
| step_dcd: "gov_step now g w (dcdWatcher ev g) w"

inductive gov_reach :: "gov_config \<Rightarrow> int \<Rightarrow> gov \<Rightarrow> worker \<Rightarrow> bool" for cfg where
  reach_new: "New_gov cfg = Some g \<Longrightarrow> gov_reach cfg now g Idle"
| reach_step: "gov_reach cfg t g w \<Longrightarrow> t \<le> now \<Longrightarrow> gov_step now g w g' w' \<Longrightarrow> gov_reach cfg now g' w'"

inductive_cases gov_stepE: "gov_step now g w g' w'"

section \<open>What the operations leave alone\<close>

text \<open>The mark of the rate-limit counter is the only part of a queued item that changes.\<close>

definition base :: "queue_item \<Rightarrow> queue_item" where
  "base x = x\<lparr>qiCounted := False\<rparr>"

lemma base_fields [simp]: "qiChannel (base x) = qiChannel x" "qiFrame (base x) = qiFrame x" "qiSource (base x) = qiSource x"
  "qiPriority (base x) = qiPriority x" "qiSeq (base x) = qiSeq x" "base (base x) = base x" "base (x\<lparr>qiCounted := b\<rparr>) = base x"
  by (simp_all add: base_def)

lemma item_less_base [simp]: "item_less (base a) (base b) = item_less a b"
  by (simp add: item_less_def)

lemma base_eq_less: "base a = base a' \<Longrightarrow> base b = base b' \<Longrightarrow> item_less a b = item_less a' b'"
  by (metis item_less_base)

lemma is_heap_base:
  assumes "map base xs = map base ys" "pq.is_heap ys" shows "pq.is_heap xs"
proof -
  have len: "length xs = length ys" using assms(1) map_eq_imp_length_eq by blast
  have eq: "base (xs ! k) = base (ys ! k)" if "k < length xs" for k
    using that assms(1) len by (metis nth_map)
  have "pq.le (xs ! ((k - 1) div 2)) (xs ! k)" if "k < length xs" "0 < k" for k
  proof -
    have "(k - 1) div 2 < length xs" using that by linarith
    then have "pq.le (xs ! ((k - 1) div 2)) (xs ! k) = pq.le (ys ! ((k - 1) div 2)) (ys ! k)"
      unfolding pq.le_def using base_eq_less[OF eq[OF that(1)] eq] by simp
    then show ?thesis using that assms(2) len by (simp add: pq.is_heap_def pq.heap_from_def)
  qed
  then show ?thesis by (simp add: pq.is_heap_def pq.heap_from_def)
qed

lemma bump_fields [gov_simps]:
  "gvCfg (bump f g) = gvCfg g" "gvQ (bump f g) = gvQ g" "gvSeq (bump f g) = gvSeq g" "gvDedup (bump f g) = gvDedup g"
  "gvRates (bump f g) = gvRates g" "gvStats (bump f g) = f (gvStats g)" "gvClosed (bump f g) = gvClosed g"
  "gvNextFrameID (bump f g) = gvNextFrameID g" "gvOut (bump f g) = gvOut g" "gvLog (bump f g) = gvLog g"
  "gvCommits (bump f g) = gvCommits g" "gvHooks (bump f g) = gvHooks g" "gvHookCalls (bump f g) = gvHookCalls g"
  by (simp_all add: bump_def)

text \<open>The rate windows and the head's mark are all that a decision changes.\<close>

definition rates_only :: "gov \<Rightarrow> gov \<Rightarrow> bool" where
  "rates_only g g' \<longleftrightarrow> (\<exists>r. g' = g\<lparr>gvRates := r\<rparr>)"

lemma rates_only_refl: "rates_only g g"
  unfolding rates_only_def by (rule exI[of _ "gvRates g"]) simp

lemma rates_only_set: "rates_only g h \<Longrightarrow> rates_only g (set_rate ch r h)"
  by (auto simp: rates_only_def set_rate_def)

lemma rates_only_rateFor: "rates_only g (snd (rateFor ch g))"
  by (cases "gvRates g ch") (simp_all add: rateFor_def Let_def rates_only_refl, auto simp: rates_only_def)

lemmas rates_only_intros = rates_only_refl rates_only_set rates_only_rateFor

lemma rates_only_limited: "rates_only g (snd (isRateLimitedLocked now ch g))"
proof -
  obtain r h where rf: "rateFor ch g = (r, h)" by fastforce
  have h: "rates_only g h" using rates_only_rateFor[of g ch] by (simp add: rf)
  show ?thesis
    unfolding isRateLimitedLocked_def rf Let_def
    by (simp add: rates_only_refl rates_only_set[OF h] rates_only_set[OF rates_only_set[OF h]] split: prod.split)
qed

lemma rates_only_record: "rates_only g (recordSendLocked now ch g)"
  using rates_only_rateFor[of g ch]
  by (cases "rateFor ch g") (simp add: recordSendLocked_def rates_only_set)

lemma rates_only_fields [gov_simps]:
  assumes "rates_only g g'"
  shows "gvCfg g' = gvCfg g" "gvQ g' = gvQ g" "gvSeq g' = gvSeq g" "gvDedup g' = gvDedup g" "gvStats g' = gvStats g"
    "gvClosed g' = gvClosed g" "gvNextFrameID g' = gvNextFrameID g" "gvOut g' = gvOut g" "gvLog g' = gvLog g"
    "gvCommits g' = gvCommits g" "gvHooks g' = gvHooks g" "gvHookCalls g' = gvHookCalls g" "gvDcd g' = gvDcd g"
    "gvSkipCSMA g' = gvSkipCSMA g"
  using assms by (auto simp: rates_only_def)

definition count_limited :: "gov_stats \<Rightarrow> gov_stats" where
  "count_limited s = s\<lparr>gsRateLimited := gsRateLimited s + 1\<rparr>"

lemma decide_shape:
  assumes "decide now roll g = (v, g')"
  shows "\<exists>h. rates_only g h \<and> (g' = h \<or> (gvQ g \<noteq> [] \<and>
    (g' = set_head ((gvQ g ! 0)\<lparr>qiCounted := True\<rparr>) (bump count_limited h)
     \<or> g' = set_head ((gvQ g ! 0)\<lparr>qiCounted := False\<rparr>) h)))"
proof (cases "gvQ g = []")
  case True
  then show ?thesis using assms rates_only_refl by (auto simp: decide_def)
next
  case False
  obtain lim h where l: "isRateLimitedLocked now (qiChannel (gvQ g ! 0)) g = (lim, h)" by fastforce
  have "rates_only g h" using rates_only_limited[of g now "qiChannel (gvQ g ! 0)"] by (simp add: l)
  moreover have "g' = h \<or> g' = set_head ((gvQ g ! 0)\<lparr>qiCounted := True\<rparr>) (bump count_limited h)
     \<or> g' = set_head ((gvQ g ! 0)\<lparr>qiCounted := False\<rparr>) h"
    using assms False by (auto simp: decide_def l Let_def count_limited_def[abs_def] split: if_splits)
  ultimately show ?thesis using False by blast
qed

lemma map_base_head: "xs \<noteq> [] \<Longrightarrow> map base (xs[0 := (xs ! 0)\<lparr>qiCounted := b\<rparr>]) = map base xs"
  by (cases xs) simp_all

lemma decide_fields:
  assumes "decide now roll g = (v, g')"
  shows "gvCfg g' = gvCfg g" "map base (gvQ g') = map base (gvQ g)" "gvSeq g' = gvSeq g" "gvDedup g' = gvDedup g"
    "gsEnqueued (gvStats g') = gsEnqueued (gvStats g)" "gsSent (gvStats g') = gsSent (gvStats g)"
    "gvClosed g' = gvClosed g" "gvNextFrameID g' = gvNextFrameID g" "gvOut g' = gvOut g" "gvLog g' = gvLog g"
    "gvCommits g' = gvCommits g" "gvHooks g' = gvHooks g"
proof -
  obtain h where h: "rates_only g h" and g': "g' = h \<or> (gvQ g \<noteq> [] \<and>
    (g' = set_head ((gvQ g ! 0)\<lparr>qiCounted := True\<rparr>) (bump count_limited h)
     \<or> g' = set_head ((gvQ g ! 0)\<lparr>qiCounted := False\<rparr>) h))"
    using decide_shape[OF assms] by blast
  note f = rates_only_fields[OF h] bump_fields count_limited_def
  show "gvCfg g' = gvCfg g" "map base (gvQ g') = map base (gvQ g)" "gvSeq g' = gvSeq g" "gvDedup g' = gvDedup g"
    "gsEnqueued (gvStats g') = gsEnqueued (gvStats g)" "gsSent (gvStats g') = gsSent (gvStats g)"
    "gvClosed g' = gvClosed g" "gvNextFrameID g' = gvNextFrameID g" "gvOut g' = gvOut g" "gvLog g' = gvLog g"
    "gvCommits g' = gvCommits g" "gvHooks g' = gvHooks g"
    using g' by (elim disjE conjE; simp add: set_head_def map_base_head f)+
qed

text \<open>A submission either leaves the queue alone or queues one new item.\<close>

definition quiet_submit :: "int \<Rightarrow> gov \<Rightarrow> gov \<Rightarrow> bool" where
  "quiet_submit now g g' \<longleftrightarrow>
     (\<exists>d st. g' = g\<lparr>gvDedup := d, gvStats := st\<rparr> \<and> (d = gvDedup g \<or> d = gcLocked now (gvDedup g))
        \<and> gsEnqueued st = gsEnqueued (gvStats g) \<and> gsSent st = gsSent (gvStats g))"

definition checked :: "int \<Rightarrow> submit_source \<Rightarrow> gov \<Rightarrow> gov" where
  "checked now src g = (if ssSkipDedup src then g else g\<lparr>gvDedup := gcLocked now (gvDedup g)\<rparr>)"

lemma gov_hit_eq:
  "gov_hit now key src g = (\<not> ssSkipDedup src \<and> has_key (gvDedup g) now key, checked now src g)"
  by (simp add: gov_hit_def checked_def Has_eq)

lemma quiet_checked: "quiet_submit now g (checked now src g)"
  unfolding quiet_submit_def checked_def
  by (cases "ssSkipDedup src") (rule exI[of _ "gvDedup g"] exI[of _ "gcLocked now (gvDedup g)"], rule exI[of _ "gvStats g"], simp)+

lemma quiet_bump:
  "quiet_submit now g h \<Longrightarrow> (\<And>s. gsEnqueued (f s) = gsEnqueued s \<and> gsSent (f s) = gsSent s)
    \<Longrightarrow> quiet_submit now g (bump f h)"
  unfolding quiet_submit_def
proof (elim exE conjE)
  fix d st
  assume f: "\<And>s. gsEnqueued (f s) = gsEnqueued s \<and> gsSent (f s) = gsSent s" and h: "h = g\<lparr>gvDedup := d, gvStats := st\<rparr>"
    and d: "d = gvDedup g \<or> d = gcLocked now (gvDedup g)" "gsEnqueued st = gsEnqueued (gvStats g)" "gsSent st = gsSent (gvStats g)"
  have "bump f h = g\<lparr>gvDedup := d, gvStats := f st\<rparr>" by (simp add: h bump_def)
  then show "\<exists>d st. bump f h = g\<lparr>gvDedup := d, gvStats := st\<rparr> \<and> (d = gvDedup g \<or> d = gcLocked now (gvDedup g))
      \<and> gsEnqueued st = gsEnqueued (gvStats g) \<and> gsSent st = gsSent (gvStats g)"
    using f d by (intro exI[of _ d] exI[of _ "f st"]) simp
qed

lemma quiet_refl: "quiet_submit now g g"
  unfolding quiet_submit_def by (rule exI[of _ "gvDedup g"], rule exI[of _ "gvStats g"]) simp

lemma Submit_cases:
  assumes "Submit now cancelled ch fo src g = (err, g')"
  obtains (quiet) "quiet_submit now g g'" "err = None \<Longrightarrow> \<exists>f. fo = Some f \<and> \<not> ssSkipDedup src \<and> has_key (gvDedup g) now (DedupKey f)"
  | (accept) f where "fo = Some f" "err = None" "\<not> cancelled" "\<not> gvClosed g" "int (length (gvQ g)) < gcQueueCapacity (gvCfg g)"
      "ssSkipDedup src \<or> \<not> has_key (gvDedup g) now (DedupKey f)" "g' = enqueue_item now ch f src (checked now src g)"
proof -
  have cfg: "gvQ (checked now src g) = gvQ g" "gvCfg (checked now src g) = gvCfg g" by (simp_all add: checked_def)
  show thesis
  proof (cases fo)
    case None
    then show thesis using assms quiet quiet_refl by (auto simp: Submit_def)
  next
    case (Some f)
    consider "cancelled \<or> gvClosed g" | "\<not> cancelled" "\<not> gvClosed g" "\<not> ssSkipDedup src" "has_key (gvDedup g) now (DedupKey f)"
      | "\<not> cancelled" "\<not> gvClosed g" "ssSkipDedup src \<or> \<not> has_key (gvDedup g) now (DedupKey f)" by blast
    then show thesis
    proof cases
      case 1
      then show thesis using assms Some quiet quiet_refl by (auto simp: Submit_def split: if_splits)
    next
      case 2
      then have "g' = bump (\<lambda>s. s\<lparr>gsDeduped := gsDeduped s + 1\<rparr>) (checked now src g)"
        using assms Some by (auto simp: Submit_def gov_hit_eq)
      then have "quiet_submit now g g'" using quiet_bump[OF quiet_checked] by simp
      then show thesis using quiet 2 Some by blast
    next
      case 3
      show thesis
      proof (cases "int (length (gvQ g)) < gcQueueCapacity (gvCfg g)")
        case True
        then show thesis using accept[of f] assms Some 3 by (auto simp: Submit_def gov_hit_eq cfg)
      next
        case False
        then have "g' = bump (\<lambda>s. s\<lparr>gsQueueDropped := gsQueueDropped s + 1\<rparr>) (checked now src g)" "err = Some ErrQueueFull"
          using assms Some 3 by (auto simp: Submit_def gov_hit_eq cfg)
        then show thesis using quiet quiet_bump[OF quiet_checked] by simp
      qed
    qed
  qed
qed

lemma enqueue_item_fields [gov_simps]:
  fixes now ch f src g
  defines "x \<equiv> new_item now ch f src (gvSeq g + 1)"
  shows "gvCfg (enqueue_item now ch f src g) = gvCfg g" "gvQ (enqueue_item now ch f src g) = heap_push item_less x (gvQ g)"
    "gvSeq (enqueue_item now ch f src g) = Suc (gvSeq g)"
    "gvDedup (enqueue_item now ch f src g) = Record now (DedupKey f) () (gvDedup g)"
    "gvRates (enqueue_item now ch f src g) = gvRates g"
    "gvStats (enqueue_item now ch f src g) = (gvStats g)\<lparr>gsEnqueued := gsEnqueued (gvStats g) + 1\<rparr>"
    "gvClosed (enqueue_item now ch f src g) = gvClosed g"
    "gvLog (enqueue_item now ch f src g) = gvLog g @ [(now, x)]" "gvCommits (enqueue_item now ch f src g) = gvCommits g"
    "gvNextFrameID (enqueue_item now ch f src g) = gvNextFrameID g" "gvOut (enqueue_item now ch f src g) = gvOut g"
  by (simp_all add: enqueue_item_def Let_def bump_def x_def)

lemma checked_fields [gov_simps]:
  "gvCfg (checked now src g) = gvCfg g" "gvQ (checked now src g) = gvQ g" "gvSeq (checked now src g) = gvSeq g"
  "gvRates (checked now src g) = gvRates g" "gvStats (checked now src g) = gvStats g" "gvClosed (checked now src g) = gvClosed g"
  "gvLog (checked now src g) = gvLog g" "gvCommits (checked now src g) = gvCommits g"
  "gvNextFrameID (checked now src g) = gvNextFrameID g" "gvOut (checked now src g) = gvOut g"
  by (simp_all add: checked_def)

lemma quiet_submit_fields:
  assumes "quiet_submit now g g'"
  shows "gvCfg g' = gvCfg g" "gvQ g' = gvQ g" "gvSeq g' = gvSeq g" "gvRates g' = gvRates g" "gvClosed g' = gvClosed g"
    "gsEnqueued (gvStats g') = gsEnqueued (gvStats g)" "gsSent (gvStats g') = gsSent (gvStats g)"
    "gvLog g' = gvLog g" "gvCommits g' = gvCommits g" "gvNextFrameID g' = gvNextFrameID g" "gvOut g' = gvOut g"
  using assms by (auto simp: quiet_submit_def)

text \<open>A commit pops the head, or does nothing when another item has taken its place.\<close>

lemma commit_cases:
  assumes "commit now x g = (popped, g')"
  obtains (stale) "\<not> popped" "g' = g"
  | (pop) y q where "popped" "heap_pop item_less (gvQ g) = Some (y, q)" "qiSeq y = qiSeq x"
      "g' = bump (\<lambda>s. s\<lparr>gsSent := gsSent s + 1\<rparr>)
         (recordSendLocked now (qiChannel x) (g\<lparr>gvQ := q, gvCommits := gvCommits g @ [(now, y)]\<rparr>))"
proof (cases "gvQ g = [] \<or> qiSeq (gvQ g ! 0) \<noteq> qiSeq x")
  case True
  then show thesis using assms stale by (auto simp: commit_def)
next
  case False
  then obtain y q where p: "heap_pop item_less (gvQ g) = Some (y, q)"
    by (cases "heap_pop item_less (gvQ g)") auto
  then have "qiSeq y = qiSeq x" using heap_pop_Some(2)[OF p] False by simp
  then show thesis using pop[of y q] assms False p by (auto simp: commit_def)
qed

lemma recordSend_fields [gov_simps]:
  "gvCfg (recordSendLocked now ch g) = gvCfg g" "gvQ (recordSendLocked now ch g) = gvQ g"
  "gvSeq (recordSendLocked now ch g) = gvSeq g" "gvDedup (recordSendLocked now ch g) = gvDedup g"
  "gvStats (recordSendLocked now ch g) = gvStats g" "gvClosed (recordSendLocked now ch g) = gvClosed g"
  "gvNextFrameID (recordSendLocked now ch g) = gvNextFrameID g" "gvOut (recordSendLocked now ch g) = gvOut g"
  "gvLog (recordSendLocked now ch g) = gvLog g" "gvCommits (recordSendLocked now ch g) = gvCommits g"
  "gvHooks (recordSendLocked now ch g) = gvHooks g" "gvHookCalls (recordSendLocked now ch g) = gvHookCalls g"
  by (simp_all add: rates_only_fields[OF rates_only_record])

lemma transmit_fields [gov_simps]:
  "gvCfg (transmit acc x g) = gvCfg g" "gvQ (transmit acc x g) = gvQ g" "gvSeq (transmit acc x g) = gvSeq g"
  "gvDedup (transmit acc x g) = gvDedup g" "gvStats (transmit acc x g) = gvStats g" "gvLog (transmit acc x g) = gvLog g"
  "gvCommits (transmit acc x g) = gvCommits g" "gvRates (transmit acc x g) = gvRates g" "gvClosed (transmit acc x g) = gvClosed g"
  by (auto simp: transmit_def Let_def split: sum.split)

definition admin_only :: "gov \<Rightarrow> gov \<Rightarrow> bool" where
  "admin_only g g' \<longleftrightarrow> gvQ g' = gvQ g \<and> gvSeq g' = gvSeq g \<and> gvDedup g' = gvDedup g \<and> gvStats g' = gvStats g
     \<and> gvLog g' = gvLog g \<and> gvCommits g' = gvCommits g \<and> gvRates g' = gvRates g
     \<and> gvNextFrameID g' = gvNextFrameID g \<and> gvOut g' = gvOut g
     \<and> gcRate1MinLimit (gvCfg g') = gcRate1MinLimit (gvCfg g) \<and> gcRate5MinLimit (gvCfg g') = gcRate5MinLimit (gvCfg g)
     \<and> gcQueueCapacity (gvCfg g') = gcQueueCapacity (gvCfg g) \<and> gcDedupWindow (gvCfg g') = gcDedupWindow (gvCfg g)"

lemma admin_only_ops:
  "admin_only g (snd (AddTxHook g))" "admin_only g (unregister n g)" "admin_only g (SetSkipCSMA fn g)"
  "admin_only g (SetChannelTiming channel ct g)" "admin_only g (dcdWatcher ev g)" "admin_only g (g\<lparr>gvClosed := True\<rparr>)"
  by (auto simp: admin_only_def AddTxHook_def unregister_def SetSkipCSMA_def SetChannelTiming_def dcdWatcher_def Let_def
      split: prod.split)

text \<open>The steps, with the administrative ones taken together.\<close>

lemma gov_step_cases [consumes 1, case_names step_submit step_decide step_commit step_transmit step_admin]:
  assumes "gov_step now g w g' w'"
  obtains cancelled ch fo src where "g' = snd (Submit now cancelled ch fo src g)" "w' = w"
  | roll v where "w = Idle" "decide now roll g = (v, g')" "w' = (case v of Go x \<Rightarrow> Decided x | _ \<Rightarrow> Idle)"
  | x popped where "w = Decided x" "commit now x g = (popped, g')" "w' = (if popped then Popped x else Idle)"
  | x acc where "w = Popped x" "g' = transmit acc x g" "w' = Idle"
  | "admin_only g g'" "w' = w \<or> (w = Idle \<and> w' = Stopped)"
proof -
  have "(\<exists>cancelled ch fo src. g' = snd (Submit now cancelled ch fo src g) \<and> w' = w)
    \<or> (\<exists>roll v. w = Idle \<and> decide now roll g = (v, g') \<and> w' = (case v of Go x \<Rightarrow> Decided x | _ \<Rightarrow> Idle))
    \<or> (\<exists>x popped. w = Decided x \<and> commit now x g = (popped, g') \<and> w' = (if popped then Popped x else Idle))
    \<or> (\<exists>x acc. w = Popped x \<and> g' = transmit acc x g \<and> w' = Idle)
    \<or> (admin_only g g' \<and> (w' = w \<or> (w = Idle \<and> w' = Stopped)))"
    using assms by (elim gov_stepE) (simp_all add: admin_only_ops, blast+)
  then show thesis using that by blast
qed

end
