(* ===== verification/TX_Governor_Props.thy ===== *)
theory TX_Governor_Props
  imports TX_Governor_Inv
begin

text \<open>
  What the transmit governor guarantees in every reachable state: exactly-once handling in
  priority order, the dedup window, the rate caps; and what a refused submission leaves behind.
\<close>

section \<open>The queue\<close>

definition queue_inv :: "gov \<Rightarrow> bool" where
  "queue_inv g \<longleftrightarrow> pq.is_heap (gvQ g)
     \<and> map (qiSeq \<circ> snd) (gvLog g) = [1..<Suc (gvSeq g)]
     \<and> mset (map (base \<circ> snd) (gvLog g)) = mset (map base (gvQ g)) + mset (map (base \<circ> snd) (gvCommits g))
     \<and> gsEnqueued (gvStats g) = length (gvLog g) \<and> gsSent (gvStats g) = length (gvCommits g)
     \<and> int (QueueLen g) \<le> max 0 (gcQueueCapacity (gvCfg g))"

lemma queue_inv_cong:
  assumes "queue_inv g" "map base (gvQ g') = map base (gvQ g)" "gvLog g' = gvLog g" "gvSeq g' = gvSeq g"
    "gvCommits g' = gvCommits g" "gsEnqueued (gvStats g') = gsEnqueued (gvStats g)"
    "gsSent (gvStats g') = gsSent (gvStats g)" "gcQueueCapacity (gvCfg g') = gcQueueCapacity (gvCfg g)"
  shows "queue_inv g'"
  using assms is_heap_base[OF assms(2)] map_eq_imp_length_eq[OF assms(2)]
  by (simp add: queue_inv_def QueueLen_def)

lemma queue_inv_enqueue:
  assumes "queue_inv g" "int (length (gvQ g)) < gcQueueCapacity (gvCfg g)"
  shows "queue_inv (enqueue_item now ch f src g)"
  using assms
  by (simp add: queue_inv_def QueueLen_def enqueue_item_fields pq.is_heap_push new_item_def)

lemma queue_inv_commit:
  assumes "queue_inv g" "heap_pop item_less (gvQ g) = Some (y, q)"
  shows "queue_inv (bump (\<lambda>s. s\<lparr>gsSent := gsSent s + 1\<rparr>)
    (recordSendLocked now ch (g\<lparr>gvQ := q, gvCommits := gvCommits g @ [(now, y)]\<rparr>)))"
  using assms heap_pop_Some[OF assms(2)]
  by (simp add: queue_inv_def QueueLen_def recordSend_fields bump_fields pq.is_heap_pop[of "gvQ g"])

lemma queue_inv_admin: "admin_only g g' \<Longrightarrow> queue_inv g \<Longrightarrow> queue_inv g'"
  by (rule queue_inv_cong[of g]) (simp_all add: admin_only_def)

lemma queue_inv_submit:
  assumes "queue_inv g" shows "queue_inv (snd (Submit now cancelled ch fo src g))"
proof -
  obtain err g1 where s: "Submit now cancelled ch fo src g = (err, g1)" by fastforce
  then show ?thesis
  proof (cases rule: Submit_cases)
    case quiet
    show ?thesis unfolding s snd_conv
      by (rule queue_inv_cong[OF assms]) (simp_all add: quiet_submit_fields[OF quiet(1)])
  next
    case (accept f)
    have "queue_inv (checked now src g)" using assms by (rule queue_inv_cong) (simp_all add: checked_fields)
    then show ?thesis using accept(5,7) queue_inv_enqueue[of "checked now src g"] by (simp add: s checked_fields)
  qed
qed

lemma queue_inv_step:
  assumes "gov_step now g w g' w'" "queue_inv g" shows "queue_inv g'"
  using assms(1)
proof (cases rule: gov_step_cases)
  case (step_submit cancelled ch fo src)
  then show ?thesis using queue_inv_submit[OF assms(2)] by simp
next
  case (step_decide roll v)
  show ?thesis by (rule queue_inv_cong[OF assms(2)]) (simp_all add: decide_fields[OF step_decide(2)])
next
  case (step_commit x popped)
  from step_commit(2) show ?thesis
  proof (cases rule: commit_cases)
    case (pop y q)
    then show ?thesis using queue_inv_commit[OF assms(2)] by simp
  qed (use assms(2) in simp)
next
  case (step_transmit x acc)
  show ?thesis unfolding step_transmit by (rule queue_inv_cong[OF assms(2)]) (simp_all add: transmit_fields)
next
  case step_admin
  then show ?thesis using queue_inv_admin assms(2) by blast
qed

lemma New_gov_fields:
  assumes "New_gov cfg = Some g"
  shows "gvQ g = []" "gvSeq g = 0" "gvLog g = []" "gvCommits g = []" "gvStats g = \<lparr>gsEnqueued = 0, gsSent = 0, gsDeduped = 0, gsRateLimited = 0, gsQueueDropped = 0\<rparr>"
    "gvRates g = (\<lambda>_. None)" "gvOut g = []" "gvNextFrameID g = 0" "gvCfg g = gov_applyDefaults cfg"
    "dwTTL (gvDedup g) = gcDedupWindow (gvCfg g)" "dw_inv (gvDedup g)"
  using assms
  by (auto simp: New_gov_def New_window_def Let_def defaultGCThreshold_def dw_inv_def split: if_splits)

lemma queue_inv_reach: "gov_reach cfg now g w \<Longrightarrow> queue_inv g"
proof (induction rule: gov_reach.induct)
  case (reach_new g now)
  then show ?case using New_gov_fields[OF reach_new] by (simp add: queue_inv_def QueueLen_def pq.is_heap_Nil)
next
  case (reach_step t g w now g' w')
  then show ?case using queue_inv_step by blast
qed

section \<open>The dedup window\<close>

definition log_keys :: "gov \<Rightarrow> (int \<times> string) set" where
  "log_keys g = (\<lambda>(t, x). (t, DedupKey (qiFrame x))) ` set (gvLog g)"

text \<open>Two accepted frames: the later one skips the dedup, or differs, or comes a window later.\<close>

definition spaced :: "int \<Rightarrow> int \<times> queue_item \<Rightarrow> int \<times> queue_item \<Rightarrow> bool" where
  "spaced ttl a b \<longleftrightarrow> ssSkipDedup (qiSource (snd b)) \<or> DedupKey (qiFrame (snd a)) \<noteq> DedupKey (qiFrame (snd b))
     \<or> fst a + ttl \<le> fst b"

definition dedup_inv :: "int \<Rightarrow> gov \<Rightarrow> bool" where
  "dedup_inv now g \<longleftrightarrow> dwTTL (gvDedup g) = gcDedupWindow (gvCfg g)
     \<and> dw.remembers (gvDedup g) (log_keys g) now \<and> (\<forall>(t, x) \<in> set (gvLog g). t \<le> now)
     \<and> sorted_wrt (spaced (gcDedupWindow (gvCfg g))) (gvLog g)"

lemma dedup_inv_cong:
  assumes "dedup_inv t g" "t \<le> now" "gvDedup g' = gvDedup g" "gvLog g' = gvLog g" "gcDedupWindow (gvCfg g') = gcDedupWindow (gvCfg g)"
  shows "dedup_inv now g'"
  using assms dw.remembers_later[of "gvDedup g" "log_keys g" t now] by (fastforce simp: dedup_inv_def log_keys_def)

lemma dedup_inv_touch:
  assumes "dedup_inv t g" "t \<le> now" "gvDedup g' = gcLocked now (gvDedup g)" "gvLog g' = gvLog g"
    "gcDedupWindow (gvCfg g') = gcDedupWindow (gvCfg g)"
  shows "dedup_inv now g'"
  using assms dw.remembers_touch[of "gvDedup g" "log_keys g" t now] by (fastforce simp: dedup_inv_def log_keys_def)

lemma dedup_inv_checked: "dedup_inv t g \<Longrightarrow> t \<le> now \<Longrightarrow> dedup_inv now (checked now src g)"
  unfolding checked_def
  by (cases "ssSkipDedup src"; simp only: if_True if_False; erule dedup_inv_cong dedup_inv_touch; simp)

lemma dedup_inv_enqueue:
  assumes "dedup_inv now g" "ssSkipDedup src \<or> \<not> has_key (gvDedup g) now (DedupKey f)"
  shows "dedup_inv now (enqueue_item now ch f src g)"
proof -
  have rem: "dw.remembers (gvDedup g) (log_keys g) now" and old: "\<forall>(t, x) \<in> set (gvLog g). t \<le> now"
    and ttl: "dwTTL (gvDedup g) = gcDedupWindow (gvCfg g)" using assms(1) by (simp_all add: dedup_inv_def)
  have "dw.remembers (Record now (DedupKey f) () (gvDedup g)) (insert (now, DedupKey f) (log_keys g)) now"
    using old by (intro dw.remembers_note[OF rem]) (auto simp: log_keys_def)
  moreover have "spaced (gcDedupWindow (gvCfg g)) a (now, new_item now ch f src (Suc (gvSeq g)))" if a: "a \<in> set (gvLog g)" for a
  proof (cases "ssSkipDedup src \<or> DedupKey (qiFrame (snd a)) \<noteq> DedupKey f")
    case False
    then have "(fst a, DedupKey f) \<in> log_keys g" using a unfolding log_keys_def
      by (intro image_eqI[of _ _ a]) (simp_all add: split_beta)
    then show ?thesis
      using dw.remembers_apart[OF rem, of "fst a" "DedupKey f" now] assms(2) False ttl by (simp add: spaced_def)
  qed (auto simp: spaced_def new_item_def)
  ultimately show ?thesis
    using assms(1) by (auto simp: dedup_inv_def enqueue_item_fields log_keys_def sorted_wrt_append new_item_def Record_def)
qed

lemma dedup_inv_submit:
  assumes "dedup_inv t g" "t \<le> now" shows "dedup_inv now (snd (Submit now cancelled ch fo src g))"
proof -
  obtain err g1 where s: "Submit now cancelled ch fo src g = (err, g1)" by fastforce
  then show ?thesis
  proof (cases rule: Submit_cases)
    case quiet
    note q = quiet_submit_fields[OF quiet(1)]
    have "gvDedup g1 = gvDedup g \<or> gvDedup g1 = gcLocked now (gvDedup g)" using quiet(1) by (auto simp: quiet_submit_def)
    then show ?thesis using dedup_inv_cong[OF assms, of g1] dedup_inv_touch[OF assms, of g1] q(1,8) by (auto simp: s)
  next
    case (accept f)
    have "has_key (gvDedup (checked now src g)) now (DedupKey f) = has_key (gvDedup g) now (DedupKey f)"
      using assms(1) dw.check_touch[of "gvDedup g" now now] by (simp add: checked_def dedup_inv_def dw.remembers_def)
    then show ?thesis
      using accept(6,7) dedup_inv_enqueue[OF dedup_inv_checked[OF assms]] by (simp add: s)
  qed
qed

lemma dedup_inv_step:
  assumes "gov_step now g w g' w'" "dedup_inv t g" "t \<le> now" shows "dedup_inv now g'"
  using assms(1)
proof (cases rule: gov_step_cases)
  case (step_submit cancelled ch fo src)
  then show ?thesis using dedup_inv_submit[OF assms(2,3)] by simp
next
  case (step_decide roll v)
  show ?thesis by (rule dedup_inv_cong[OF assms(2,3)]) (simp_all add: decide_fields[OF step_decide(2)])
next
  case (step_commit x popped)
  from step_commit(2) show ?thesis
    by (cases rule: commit_cases) (rule dedup_inv_cong[OF assms(2,3)]; simp add: bump_fields recordSend_fields)+
next
  case (step_transmit x acc)
  show ?thesis unfolding step_transmit by (rule dedup_inv_cong[OF assms(2,3)]) (simp_all add: transmit_fields)
next
  case step_admin
  then show ?thesis by (intro dedup_inv_cong[OF assms(2,3)]) (simp_all add: admin_only_def)
qed

lemma dedup_inv_reach: "gov_reach cfg now g w \<Longrightarrow> dedup_inv now g"
proof (induction rule: gov_reach.induct)
  case (reach_new g now)
  then show ?case
    using New_gov_fields[OF reach_new] by (simp add: dedup_inv_def log_keys_def dw.remembers_empty)
next
  case (reach_step t g w now g' w')
  then show ?case using dedup_inv_step by blast
qed

section \<open>The rate caps\<close>

definition chan_times :: "gov \<Rightarrow> nat \<Rightarrow> int list" where
  "chan_times g ch = map fst (filter (\<lambda>(t, x). qiChannel x = ch) (gvCommits g))"

definition rate_ok :: "int \<Rightarrow> channel_rate option \<Rightarrow> int list \<Rightarrow> bool" where
  "rate_ok now ro ts \<longleftrightarrow>
     (case ro of
        None \<Rightarrow> ts = []
      | Some r \<Rightarrow> rwWindow (crOneMin r) = minute \<and> rwWindow (crFiveMin r) = 5 * minute
          \<and> rw_of now (crOneMin r) ts \<and> rw_of now (crFiveMin r) ts)"

lemma rate_ok_later: "rate_ok t ro ts \<Longrightarrow> t \<le> now \<Longrightarrow> rate_ok now ro ts"
  by (auto simp: rate_ok_def rw_of_later split: option.splits)

definition recent :: "int \<Rightarrow> int \<Rightarrow> int list \<Rightarrow> int" where
  "recent now d ts = int (length (filter (\<lambda>e. now - d \<le> e) ts))"

lemma recent_later: "t \<le> now \<Longrightarrow> recent now d ts \<le> recent t d ts"
  unfolding recent_def by (intro of_nat_mono filter_length_mono) simp

definition under_caps :: "gov \<Rightarrow> int \<Rightarrow> nat \<Rightarrow> bool" where
  "under_caps g now ch \<longleftrightarrow>
     (gcRate1MinLimit (gvCfg g) > 0 \<longrightarrow> recent now minute (chan_times g ch) < gcRate1MinLimit (gvCfg g))
     \<and> (gcRate5MinLimit (gvCfg g) > 0 \<longrightarrow> recent now (5 * minute) (chan_times g ch) < gcRate5MinLimit (gvCfg g))"

lemma under_caps_later: "under_caps g t ch \<Longrightarrow> t \<le> now \<Longrightarrow> under_caps g now ch"
  by (auto simp: under_caps_def intro: le_less_trans[OF recent_later])

definition caps_hold :: "gov \<Rightarrow> nat \<Rightarrow> bool" where
  "caps_hold g ch \<longleftrightarrow>
     (gcRate1MinLimit (gvCfg g) > 0 \<longrightarrow> capped minute (gcRate1MinLimit (gvCfg g)) (chan_times g ch))
     \<and> (gcRate5MinLimit (gvCfg g) > 0 \<longrightarrow> capped (5 * minute) (gcRate5MinLimit (gvCfg g)) (chan_times g ch))"

definition rate_inv :: "int \<Rightarrow> gov \<Rightarrow> worker \<Rightarrow> bool" where
  "rate_inv now g w \<longleftrightarrow>
     (\<forall>ch. rate_ok now (gvRates g ch) (chan_times g ch) \<and> caps_hold g ch)
     \<and> (case w of Decided x \<Rightarrow> under_caps g now (qiChannel x) | _ \<Rightarrow> True)"

lemma rw_of_empty: "rw_of now \<lparr>rwWindow = d, rwEvents = []\<rparr> []"
  by (simp add: rw_of_def)

lemma rateFor_ok:
  assumes "rate_ok now (gvRates g ch) ts" "rateFor ch g = (r, h)"
  shows "rate_ok now (Some r) ts" "rates_only g h" "gvRates h = (gvRates g)(ch \<mapsto> r)"
proof -
  show "rate_ok now (Some r) ts"
    using assms by (cases "gvRates g ch") (auto simp: rateFor_def rate_ok_def rw_of_empty Let_def)
  show "rates_only g h" using rates_only_rateFor[of g ch] assms(2) by simp
  show "gvRates h = (gvRates g)(ch \<mapsto> r)"
    using assms(2) by (cases "gvRates g ch") (auto simp: rateFor_def fun_upd_idem Let_def)
qed

text \<open>The test counts exactly the pops of the last minute and of the last five.\<close>

lemma isRateLimited_spec:
  assumes ok: "rate_ok t (gvRates g ch) (chan_times g ch)" "t \<le> now"
    and lim: "isRateLimitedLocked now ch g = (limited, h)"
  shows "\<not> limited \<longleftrightarrow> under_caps g now ch" "rate_ok now (gvRates h ch) (chan_times g ch)"
    "ch' \<noteq> ch \<Longrightarrow> gvRates h ch' = gvRates g ch'"
proof -
  obtain r g1 where rf: "rateFor ch g = (r, g1)" by fastforce
  have r: "rate_ok now (Some r) (chan_times g ch)"
    using rateFor_ok(1)[OF rate_ok_later[OF ok] rf] .
  note f = rateFor_ok(2,3)[OF rate_ok_later[OF ok] rf]
  have w1: "rwWindow (crOneMin r) = minute" "rw_of now (crOneMin r) (chan_times g ch)"
    and w5: "rwWindow (crFiveMin r) = 5 * minute" "rw_of now (crFiveMin r) (chan_times g ch)"
    using r by (simp_all add: rate_ok_def)
  obtain n1 v1 where c1: "rw_count now (crOneMin r) = (n1, v1)" by fastforce
  obtain n5 v5 where c5: "rw_count now (crFiveMin r) = (n5, v5)" by fastforce
  have n1: "int n1 = recent now minute (chan_times g ch)" "rw_of now v1 (chan_times g ch)" "rwWindow v1 = minute"
    using rw_count_of[OF w1(2) order_refl] rw_window_fields(2)[of now "crOneMin r"] w1(1) c1 by (simp_all add: recent_def)
  have n5: "int n5 = recent now (5 * minute) (chan_times g ch)" "rw_of now v5 (chan_times g ch)" "rwWindow v5 = 5 * minute"
    using rw_count_of[OF w5(2) order_refl] rw_window_fields(2)[of now "crFiveMin r"] w5(1) c5 by (simp_all add: recent_def)
  have cfg: "gvCfg g1 = gvCfg g" using rates_only_fields(1)[OF f(1)] .
  show "\<not> limited \<longleftrightarrow> under_caps g now ch"
    using lim n1(1) n5(1)
    by (auto simp: isRateLimitedLocked_def rf c1 c5 Let_def cfg under_caps_def set_rate_def not_less split: if_splits)
  show "rate_ok now (gvRates h ch) (chan_times g ch)"
    using lim n1 n5 w1 w5 f(2) ok rate_ok_later[OF ok]
    by (auto simp: isRateLimitedLocked_def rf c1 c5 Let_def cfg set_rate_def rate_ok_def split: if_splits)
  show "ch' \<noteq> ch \<Longrightarrow> gvRates h ch' = gvRates g ch'"
    using lim f(2) by (auto simp: isRateLimitedLocked_def rf c1 c5 Let_def cfg set_rate_def split: if_splits)
qed

lemma decide_rates:
  assumes "\<forall>ch. rate_ok t (gvRates g ch) (chan_times g ch)" "t \<le> now" "decide now roll g = (v, g')"
  shows "rate_ok now (gvRates g' ch) (chan_times g ch)" "v = Go x \<Longrightarrow> under_caps g now (qiChannel x)"
proof -
  let ?ch = "qiChannel (gvQ g ! 0)"
  obtain lim h where l: "isRateLimitedLocked now ?ch g = (lim, h)" by fastforce
  note spec = isRateLimited_spec[OF assms(1)[rule_format] assms(2) l]
  have "rate_ok now (gvRates h ch) (chan_times g ch)" for ch
    using spec(2) spec(3)[of ch] rate_ok_later[OF assms(1)[rule_format] assms(2)] by (cases "ch = ?ch") auto
  moreover have "gvQ g = [] \<or> gvRates g' = gvRates h"
    using assms(3) by (auto simp: decide_def l Let_def set_head_def bump_fields split: if_splits)
  moreover have "g' = g" if "gvQ g = []" using that assms(3) by (simp add: decide_def)
  ultimately show "rate_ok now (gvRates g' ch) (chan_times g ch)"
    using rate_ok_later[OF assms(1)[rule_format] assms(2)] by metis
  show "v = Go x \<Longrightarrow> under_caps g now (qiChannel x)"
    using assms(3) spec(1) by (auto simp: decide_def l Let_def split: if_splits)
qed

lemma chan_times_snoc:
  assumes "gvCommits g' = gvCommits g @ [(now, y)]"
  shows "chan_times g' ch = (if ch = qiChannel y then chan_times g ch @ [now] else chan_times g ch)"
  using assms by (simp add: chan_times_def)

lemma recordSend_rates:
  assumes "rate_ok t (gvRates g ch) ts" "t \<le> now"
  shows "rate_ok now (gvRates (recordSendLocked now ch g) ch) (ts @ [now])"
    "ch' \<noteq> ch \<Longrightarrow> gvRates (recordSendLocked now ch g) ch' = gvRates g ch'"
proof -
  obtain r h where rf: "rateFor ch g = (r, h)" by fastforce
  note f = rateFor_ok[OF assms(1) rf]
  show "rate_ok now (gvRates (recordSendLocked now ch g) ch) (ts @ [now])"
    using f(1) assms(2) by (simp add: recordSendLocked_def rf set_rate_def rate_ok_def rw_record_of[of t])
  show "ch' \<noteq> ch \<Longrightarrow> gvRates (recordSendLocked now ch g) ch' = gvRates g ch'"
    using f(3) by (simp add: recordSendLocked_def rf set_rate_def)
qed

lemma caps_hold_snoc:
  assumes "caps_hold g ch" "under_caps g now ch" "chan_times g' ch = chan_times g ch @ [now]" "gvCfg g' = gvCfg g"
  shows "caps_hold g' ch"
  using assms capped_snoc by (simp add: caps_hold_def under_caps_def recent_def)

lemma rate_inv_commit:
  assumes "rate_inv t g (Decided x)" "t \<le> now" and y: "qiChannel y = qiChannel x"
    and g': "g' = bump f (recordSendLocked now (qiChannel x) (g\<lparr>gvQ := q, gvCommits := gvCommits g @ [(now, y)]\<rparr>))"
  shows "rate_inv now g' (Popped x)"
proof -
  let ?h = "g\<lparr>gvQ := q, gvCommits := gvCommits g @ [(now, y)]\<rparr>"
  have ok: "rate_ok t (gvRates ?h ch) (chan_times g ch)" "caps_hold g ch" for ch
    using assms(1) by (simp_all add: rate_inv_def)
  have under: "under_caps g now (qiChannel x)"
    using assms(1,2) by (simp add: rate_inv_def under_caps_later[of g t])
  have com: "gvCommits g' = gvCommits g @ [(now, y)]" and cfg: "gvCfg g' = gvCfg g"
    by (simp_all add: g' bump_fields recordSend_fields)
  have rates: "gvRates g' = gvRates (recordSendLocked now (qiChannel x) ?h)" by (simp add: g' bump_fields)
  note times = chan_times_snoc[OF com, unfolded y]
  have "rate_ok now (gvRates g' ch) (chan_times g' ch) \<and> caps_hold g' ch" for ch
  proof (cases "ch = qiChannel x")
    case True
    then show ?thesis
      using recordSend_rates(1)[OF ok(1)[of "qiChannel x"] assms(2)] caps_hold_snoc[OF ok(2) under, of g'] times[of ch] cfg
      by (simp add: rates)
  next
    case False
    then have "chan_times g' ch = chan_times g ch" using times by simp
    then show ?thesis
      using recordSend_rates(2)[OF ok(1)[of "qiChannel x"] assms(2), of ch] False rate_ok_later[OF ok(1) assms(2), of ch]
        ok(2)[of ch] cfg by (simp add: rates caps_hold_def)
  qed
  then show ?thesis by (simp add: rate_inv_def)
qed

lemma rate_inv_cong:
  assumes "rate_inv t g w" "t \<le> now" "\<And>ch. rate_ok now (gvRates g' ch) (chan_times g ch)" "gvCommits g' = gvCommits g"
    "gcRate1MinLimit (gvCfg g') = gcRate1MinLimit (gvCfg g)" "gcRate5MinLimit (gvCfg g') = gcRate5MinLimit (gvCfg g)"
    and w: "w' = w \<or> (case w' of Decided x \<Rightarrow> under_caps g now (qiChannel x) | _ \<Rightarrow> True)"
  shows "rate_inv now g' w'"
proof -
  have ct: "chan_times g' = chan_times g" using assms(4) by (simp add: chan_times_def fun_eq_iff)
  have "under_caps g now (qiChannel x)" if "w = Decided x" for x
    using assms(1,2) that by (simp add: rate_inv_def under_caps_later[of g t])
  moreover have "under_caps g' now ch = under_caps g now ch" "caps_hold g' ch = caps_hold g ch" for ch
    using ct assms(5,6) by (simp_all add: under_caps_def caps_hold_def)
  ultimately show ?thesis
    using assms(1,3) ct w by (auto simp: rate_inv_def split: worker.splits)
qed

section \<open>The worker's item\<close>

text \<open>
  Items are told apart by their numbers, so the item that is popped is the one that was
  decided on, up to the mark of the rate-limit counter.
\<close>

definition logged :: "gov \<Rightarrow> queue_item \<Rightarrow> bool" where
  "logged g x \<longleftrightarrow> base x \<in> (base \<circ> snd) ` set (gvLog g)"

lemma logged_unique:
  assumes "queue_inv g" "logged g x" "logged g y" "qiSeq x = qiSeq y" shows "base x = base y"
proof -
  obtain a b where ab: "a \<in> set (gvLog g)" "b \<in> set (gvLog g)" "base x = base (snd a)" "base y = base (snd b)"
    using assms(2,3) by (auto simp: logged_def)
  have "distinct (map (qiSeq \<circ> snd) (gvLog g))"
    using assms(1) by (simp only: queue_inv_def distinct_upt)
  moreover have "(qiSeq \<circ> snd) a = (qiSeq \<circ> snd) b" using ab(3,4) assms(4) by (metis base_fields(5) comp_apply)
  ultimately have "a = b" using ab(1,2) by (auto simp: distinct_map inj_on_def)
  then show ?thesis using ab by simp
qed

lemma queued_logged:
  assumes "queue_inv g" "y \<in> set (gvQ g)" shows "logged g y"
proof -
  have "base y \<in># mset (map base (gvQ g))" using assms(2) by simp
  then have "base y \<in># mset (map (base \<circ> snd) (gvLog g))" using assms(1) by (simp add: queue_inv_def)
  then show ?thesis by (simp add: logged_def image_comp)
qed

definition worker_inv :: "gov \<Rightarrow> worker \<Rightarrow> bool" where
  "worker_inv g w \<longleftrightarrow>
     (case w of
        Decided x \<Rightarrow> logged g x
      | Popped x \<Rightarrow> \<exists>cs t y. gvCommits g = cs @ [(t, y)] \<and> base y = base x
      | _ \<Rightarrow> True)"

lemma decide_logged:
  assumes "queue_inv g" "decide now roll g = (Go x, g')" shows "logged g x"
proof -
  have ne: "gvQ g \<noteq> []" using assms(2) by (auto simp: decide_def)
  have "base x = base (gvQ g ! 0)"
    using assms(2) ne by (auto simp: decide_def Let_def split: prod.splits if_splits)
  then show ?thesis using queued_logged[OF assms(1), of "gvQ g ! 0"] ne by (simp add: logged_def)
qed

lemma commit_item:
  assumes "queue_inv g" "logged g x" "heap_pop item_less (gvQ g) = Some (y, q)" "qiSeq y = qiSeq x"
  shows "base y = base x" "qiChannel y = qiChannel x"
proof -
  have "y \<in> set (gvQ g)" using set_heap_pop[OF assms(3)] by simp
  then show "base y = base x" using logged_unique[OF assms(1) queued_logged[OF assms(1)] assms(2)] assms(4) by simp
  then show "qiChannel y = qiChannel x" by (metis base_fields(1))
qed

lemma logged_mono: "set (gvLog g) \<subseteq> set (gvLog g') \<Longrightarrow> logged g x \<Longrightarrow> logged g' x"
  by (auto simp: logged_def)

lemma submit_log: "set (gvLog g) \<subseteq> set (gvLog (snd (Submit now cancelled ch fo src g)))"
  "gvCommits (snd (Submit now cancelled ch fo src g)) = gvCommits g"
  "gvRates (snd (Submit now cancelled ch fo src g)) = gvRates g"
  "gvCfg (snd (Submit now cancelled ch fo src g)) = gvCfg g"
  "gvOut (snd (Submit now cancelled ch fo src g)) = gvOut g"
  "gvNextFrameID (snd (Submit now cancelled ch fo src g)) = gvNextFrameID g"
proof -
  obtain err g1 where s: "Submit now cancelled ch fo src g = (err, g1)" by fastforce
  then have "set (gvLog g) \<subseteq> set (gvLog g1) \<and> gvCommits g1 = gvCommits g \<and> gvRates g1 = gvRates g \<and> gvCfg g1 = gvCfg g
    \<and> gvOut g1 = gvOut g \<and> gvNextFrameID g1 = gvNextFrameID g"
  proof (cases rule: Submit_cases)
    case quiet
    then show ?thesis using quiet_submit_fields[OF quiet(1)] by simp
  next
    case (accept f)
    then show ?thesis by (auto simp: enqueue_item_fields checked_fields)
  qed
  then show "set (gvLog g) \<subseteq> set (gvLog (snd (Submit now cancelled ch fo src g)))"
    "gvCommits (snd (Submit now cancelled ch fo src g)) = gvCommits g"
    "gvRates (snd (Submit now cancelled ch fo src g)) = gvRates g"
    "gvCfg (snd (Submit now cancelled ch fo src g)) = gvCfg g"
    "gvOut (snd (Submit now cancelled ch fo src g)) = gvOut g"
    "gvNextFrameID (snd (Submit now cancelled ch fo src g)) = gvNextFrameID g" by (simp_all add: s)
qed

lemma worker_inv_cong:
  "worker_inv g w \<Longrightarrow> set (gvLog g) \<subseteq> set (gvLog g') \<Longrightarrow> gvCommits g' = gvCommits g \<Longrightarrow> worker_inv g' w"
  by (auto simp: worker_inv_def logged_mono split: worker.splits)

lemma worker_inv_step:
  assumes "gov_step now g w g' w'" "queue_inv g" "worker_inv g w" shows "worker_inv g' w'"
  using assms(1)
proof (cases rule: gov_step_cases)
  case (step_submit cancelled ch fo src)
  then show ?thesis using worker_inv_cong[OF assms(3)] submit_log by simp
next
  case (step_decide roll v)
  then have "logged g' x" if "v = Go x" for x
    using that decide_logged[OF assms(2)] decide_fields(10)[OF step_decide(2)] by (simp add: logged_def)
  then show ?thesis using step_decide by (auto simp: worker_inv_def split: verdict.split)
next
  case (step_commit x popped)
  have x: "logged g x" using assms(3) step_commit(1) by (simp add: worker_inv_def)
  from step_commit(2) show ?thesis
  proof (cases rule: commit_cases)
    case (pop y q)
    then show ?thesis
      using commit_item[OF assms(2) x pop(2,3)] step_commit by (simp add: worker_inv_def bump_fields recordSend_fields)
  qed (use step_commit in \<open>simp add: worker_inv_def\<close>)
next
  case (step_transmit x acc)
  then show ?thesis by (simp add: worker_inv_def)
next
  case step_admin
  then show ?thesis using worker_inv_cong[OF assms(3), of g'] by (auto simp: admin_only_def worker_inv_def)
qed

lemma rate_inv_step:
  assumes "gov_step now g w g' w'" "queue_inv g" "worker_inv g w" "rate_inv t g w" "t \<le> now" shows "rate_inv now g' w'"
proof -
  have ok: "\<forall>ch. rate_ok t (gvRates g ch) (chan_times g ch)" using assms(4) by (simp add: rate_inv_def)
  note cong = rate_inv_cong[OF assms(4,5)]
  note later = rate_ok_later[OF ok[rule_format] assms(5)]
  show ?thesis using assms(1)
  proof (cases rule: gov_step_cases)
    case (step_submit cancelled ch fo src)
    then show ?thesis by (intro cong) (simp_all add: submit_log later)
  next
    case (step_decide roll v)
    note d = decide_rates[OF ok assms(5) step_decide(2)]
    show ?thesis
      by (intro cong) (use d decide_fields[OF step_decide(2)] step_decide(3) in \<open>auto split: verdict.splits\<close>)
  next
    case (step_commit x popped)
    have x: "logged g x" using assms(3) step_commit(1) by (simp add: worker_inv_def)
    from step_commit(2) show ?thesis
    proof (cases rule: commit_cases)
      case stale
      then show ?thesis using step_commit later by (intro cong) simp_all
    next
      case (pop y q)
      then show ?thesis
        using rate_inv_commit[OF _ assms(5) commit_item(2)[OF assms(2) x pop(2,3)]] assms(4) step_commit by simp
    qed
  next
    case (step_transmit x acc)
    then show ?thesis by (intro cong) (simp_all add: transmit_fields later)
  next
    case step_admin
    then show ?thesis by (intro cong) (auto simp: admin_only_def later)
  qed
qed

lemma New_gov_rate_inv: "New_gov cfg = Some g \<Longrightarrow> rate_inv now g Idle"
  using New_gov_fields[of cfg g]
  by (simp add: rate_inv_def rate_ok_def chan_times_def caps_hold_def capped_def)

lemma gov_reach_inv: "gov_reach cfg now g w \<Longrightarrow> queue_inv g \<and> worker_inv g w \<and> rate_inv now g w"
proof (induction rule: gov_reach.induct)
  case (reach_new g now)
  then show ?case
    using New_gov_rate_inv[OF reach_new] queue_inv_reach[OF gov_reach.reach_new[OF reach_new]] by (simp add: worker_inv_def)
next
  case (reach_step t g w now g' w')
  then show ?case using queue_inv_step worker_inv_step rate_inv_step by blast
qed

end
