(* ===== verification/TX_Governor_Spec.thy ===== *)
theory TX_Governor_Spec
  imports TX_Governor_Props
begin

text \<open>
  The abstract specification of the transmit governor, a list of frames in the order they will
  go out, the refinement of it by the heap, and the properties of the governor.
\<close>

section \<open>The order of departure\<close>

text \<open>Higher priority first, then first come first served.\<close>

datatype rank = Rank int nat

instantiation rank :: linorder
begin

fun less_eq_rank :: "rank \<Rightarrow> rank \<Rightarrow> bool" where
  "less_eq_rank (Rank p n) (Rank q m) \<longleftrightarrow> p > q \<or> (p = q \<and> n \<le> m)"

definition less_rank :: "rank \<Rightarrow> rank \<Rightarrow> bool" where
  "less_rank a b \<longleftrightarrow> a \<le> b \<and> \<not> b \<le> a"

instance
proof
  fix a b c :: rank
  show "a < b \<longleftrightarrow> a \<le> b \<and> \<not> b \<le> a" by (rule less_rank_def)
  show "a \<le> a" by (cases a) simp
  show "a \<le> b \<Longrightarrow> b \<le> c \<Longrightarrow> a \<le> c" by (cases a; cases b; cases c) auto
  show "a \<le> b \<Longrightarrow> b \<le> a \<Longrightarrow> a = b" by (cases a; cases b) auto
  show "a \<le> b \<or> b \<le> a" by (cases a; cases b) auto
qed

end

definition rank_of :: "queue_item \<Rightarrow> rank" where
  "rank_of x = Rank (qiPriority x) (qiSeq x)"

lemma item_less_rank: "item_less a b \<longleftrightarrow> rank_of a < rank_of b"
  by (auto simp: item_less_def rank_of_def less_rank_def)

lemma pq_le_rank: "pq.le a b \<longleftrightarrow> rank_of a \<le> rank_of b"
  by (simp add: pq.le_def item_less_rank not_less)

lemma rank_of_base [simp]: "rank_of (base x) = rank_of x"
  by (simp add: rank_of_def)

section \<open>The specification\<close>

definition departures :: "gov \<Rightarrow> queue_item list" where
  "departures g = sort_key rank_of (map base (gvQ g))"

lemma log_seqs_distinct: "queue_inv g \<Longrightarrow> distinct (map (qiSeq \<circ> snd) (gvLog g))"
  by (simp only: queue_inv_def distinct_upt)

lemma queue_seqs_distinct:
  assumes "queue_inv g" shows "distinct (map qiSeq (gvQ g))" "\<forall>x \<in> set (gvQ g). qiSeq x \<le> gvSeq g"
proof -
  have "mset (map qiSeq (map (base \<circ> snd) (gvLog g)))
      = mset (map qiSeq (map base (gvQ g))) + mset (map qiSeq (map (base \<circ> snd) (gvCommits g)))"
    using assms by (metis queue_inv_def mset_map image_mset_union)
  then have eq: "mset (map (qiSeq \<circ> snd) (gvLog g)) = mset (map qiSeq (gvQ g)) + mset (map (qiSeq \<circ> snd) (gvCommits g))"
    by (simp add: multiset.map_comp comp_def)
  moreover have "distinct (map (qiSeq \<circ> snd) (gvLog g))" by (rule log_seqs_distinct[OF assms])
  ultimately show "distinct (map qiSeq (gvQ g))"
    by (metis distinct_append mset_append mset_eq_imp_distinct_iff)
  have "set (map (qiSeq \<circ> snd) (gvLog g)) = {1..<Suc (gvSeq g)}" using assms by (simp only: queue_inv_def set_upt)
  moreover have "qiSeq x \<in> set (map (qiSeq \<circ> snd) (gvLog g))" if "x \<in> set (gvQ g)" for x
    using arg_cong[OF eq, of set_mset] that by auto
  ultimately show "\<forall>x \<in> set (gvQ g). qiSeq x \<le> gvSeq g" by fastforce
qed

lemma rank_inj_queue:
  assumes "queue_inv g" shows "inj_on rank_of (set (map base (gvQ g)))"
proof (rule inj_onI)
  fix a b assume ab: "a \<in> set (map base (gvQ g))" "b \<in> set (map base (gvQ g))" "rank_of a = rank_of b"
  then obtain x y where "x \<in> set (gvQ g)" "y \<in> set (gvQ g)" "a = base x" "b = base y" "qiSeq x = qiSeq y"
    by (auto simp: rank_of_def)
  then show "a = b" using queue_seqs_distinct(1)[OF assms] by (auto simp: distinct_map inj_on_def)
qed

lemma departures_cong: "map base (gvQ g') = map base (gvQ g) \<Longrightarrow> departures g' = departures g"
  by (simp add: departures_def)

text \<open>Sorting by an injective key depends on the elements only.\<close>

lemma sort_key_mset:
  assumes "mset xs = mset ys" "inj_on f (set xs)" shows "sort_key f xs = sort_key f ys"
  using assms by (intro sort_key_inj_key_eq) simp_all

lemma departures_enqueue:
  assumes "queue_inv g'" "gvQ g' = heap_push item_less x (gvQ g)" "base x = x"
  shows "departures g' = insort_key rank_of x (departures g)"
proof -
  have "departures g' = sort_key rank_of (map base (x # gvQ g))"
    unfolding departures_def using rank_inj_queue[OF assms(1)] assms(2) by (intro sort_key_mset) simp_all
  then show ?thesis by (simp add: departures_def assms(3))
qed

lemma departures_pop:
  assumes "queue_inv g" "heap_pop item_less (gvQ g) = Some (y, q)" "gvQ g' = q"
  shows "departures g = base y # departures g'"
proof -
  have heap: "pq.is_heap (gvQ g)" using assms(1) by (simp add: queue_inv_def)
  have "departures g = sort_key rank_of (map base (y # q))"
    unfolding departures_def using rank_inj_queue[OF assms(1)] heap_pop_Some(3)[OF assms(2)]
    by (intro sort_key_mset) simp_all
  moreover have "rank_of y \<le> rank_of z" if "z \<in> set q" for z
    using pq.heap_pop_least[OF heap assms(2)] set_heap_pop[OF assms(2)] that by (simp add: pq_le_rank)
  ultimately show ?thesis by (simp add: departures_def assms(3) insort_is_Cons)
qed

lemma refines_step:
  assumes "gov_step now g w g' w'" "queue_inv g" "worker_inv g w"
  shows "(departures g' = departures g \<and> gvLog g' = gvLog g \<and> gvCommits g' = gvCommits g)
    \<or> (\<exists>x. gvLog g' = gvLog g @ [(now, x)] \<and> gvCommits g' = gvCommits g \<and> departures g' = insort_key rank_of x (departures g))
    \<or> (\<exists>y. gvLog g' = gvLog g \<and> gvCommits g' = gvCommits g @ [(now, y)] \<and> departures g = base y # departures g')"
  using assms(1)
proof (cases rule: gov_step_cases)
  case (step_submit cancelled ch fo src)
  obtain err g1 where s: "Submit now cancelled ch fo src g = (err, g1)" by fastforce
  have inv: "queue_inv g1" using queue_inv_submit[OF assms(2), of now cancelled ch fo src] by (simp add: s)
  have g': "g' = g1" using step_submit s by simp
  from s show ?thesis
  proof (cases rule: Submit_cases)
    case quiet
    note q = quiet_submit_fields[OF quiet(1)]
    have "departures g1 = departures g" by (rule departures_cong) (simp add: q)
    then show ?thesis by (simp add: g' q)
  next
    case (accept f)
    let ?x = "new_item now ch f src (gvSeq g + 1)"
    have f: "gvQ g' = heap_push item_less ?x (gvQ g)" "gvLog g' = gvLog g @ [(now, ?x)]" "gvCommits g' = gvCommits g"
      unfolding g' accept(7) by (simp_all add: enqueue_item_fields checked_fields)
    have "base ?x = ?x" by (simp add: base_def new_item_def)
    then have "departures g' = insort_key rank_of ?x (departures g)"
      using departures_enqueue[OF inv, of ?x g] f(1) g' by simp
    then show ?thesis using f by blast
  qed
next
  case (step_decide roll v)
  have "departures g' = departures g" by (rule departures_cong) (simp add: decide_fields[OF step_decide(2)])
  then show ?thesis by (simp add: decide_fields[OF step_decide(2)])
next
  case (step_commit x popped)
  from step_commit(2) show ?thesis
  proof (cases rule: commit_cases)
    case (pop y q)
    have f: "gvQ g' = q" "gvLog g' = gvLog g" "gvCommits g' = gvCommits g @ [(now, y)]"
      unfolding pop(4) by (simp_all add: bump_fields recordSend_fields)
    then show ?thesis using departures_pop[OF assms(2) pop(2) f(1)] by blast
  qed simp
next
  case (step_transmit x acc)
  have "departures g' = departures g" unfolding step_transmit by (rule departures_cong) (simp add: transmit_fields)
  then show ?thesis by (simp add: step_transmit(2) transmit_fields)
next
  case step_admin
  then have "departures g' = departures g" by (intro departures_cong) (simp add: admin_only_def)
  then show ?thesis using step_admin(1) by (simp add: admin_only_def)
qed

section \<open>What goes out\<close>

text \<open>The frames handed to the sender for a sequence of popped items; what does not encode is dropped.\<close>

fun frames_of :: "nat \<Rightarrow> queue_item list \<Rightarrow> transmit_frame list" where
  "frames_of n [] = []"
| "frames_of n (x # xs) =
     (case Encode (qiFrame x) of
        Inl _ \<Rightarrow> frames_of n xs
      | Inr raw \<Rightarrow> \<lparr>tfChannel = qiChannel x, tfData = raw, tfPriority = qiPriority x mod 2 ^ 32, tfFrameId = n + 1\<rparr>
          # frames_of (n + 1) xs)"

definition handed_over :: "gov \<Rightarrow> worker \<Rightarrow> queue_item list" where
  "handed_over g w = map snd (case w of Popped _ \<Rightarrow> butlast (gvCommits g) | _ \<Rightarrow> gvCommits g)"

definition out_inv :: "gov \<Rightarrow> worker \<Rightarrow> bool" where
  "out_inv g w \<longleftrightarrow> gvOut g = frames_of 0 (handed_over g w) \<and> gvNextFrameID g = length (gvOut g)"

lemma frames_of_snoc:
  "frames_of n (xs @ [x]) = frames_of n xs @
     (case Encode (qiFrame x) of
        Inl _ \<Rightarrow> []
      | Inr raw \<Rightarrow> [\<lparr>tfChannel = qiChannel x, tfData = raw, tfPriority = qiPriority x mod 2 ^ 32,
                      tfFrameId = n + length (frames_of n xs) + 1\<rparr>])"
  by (induction n xs rule: frames_of.induct) (auto split: sum.split)

lemma handed_over_cong: "gvCommits g' = gvCommits g \<Longrightarrow> handed_over g' w = handed_over g w"
  by (cases w) (simp_all add: handed_over_def)

lemma handed_over_all: "(\<And>x. w \<noteq> Popped x) \<Longrightarrow> handed_over g w = map snd (gvCommits g)"
  by (cases w) (auto simp: handed_over_def)

lemma out_inv_cong:
  "out_inv g w \<Longrightarrow> gvOut g' = gvOut g \<Longrightarrow> gvNextFrameID g' = gvNextFrameID g \<Longrightarrow> handed_over g' w' = handed_over g w
    \<Longrightarrow> out_inv g' w'"
  by (simp add: out_inv_def)

lemma out_inv_transmit:
  assumes "out_inv g (Popped x)" "gvCommits g = cs @ [(t, y)]" "base y = base x"
  shows "out_inv (transmit acc x g) Idle"
proof -
  have xy: "qiFrame y = qiFrame x" "qiChannel y = qiChannel x" "qiPriority y = qiPriority x"
    using assms(3) by (metis base_fields(1,2,4))+
  show ?thesis
    using assms(1,2)
    by (cases "Encode (qiFrame x)") (simp_all add: out_inv_def handed_over_def transmit_def Let_def frames_of_snoc xy)
qed

lemma out_inv_step:
  assumes "gov_step now g w g' w'" "worker_inv g w" "out_inv g w" shows "out_inv g' w'"
  using assms(1)
proof (cases rule: gov_step_cases)
  case (step_submit cancelled ch fo src)
  have "handed_over g' w' = handed_over g w"
    unfolding step_submit by (rule handed_over_cong) (simp add: submit_log)
  then show ?thesis by (intro out_inv_cong[OF assms(3)]) (simp_all add: step_submit submit_log)
next
  case (step_decide roll v)
  have "w' \<noteq> Popped x" "w \<noteq> Popped x" for x using step_decide(1,3) by (cases v; simp)+
  then have "handed_over g' w' = handed_over g w"
    by (simp add: handed_over_all decide_fields(11)[OF step_decide(2)])
  then show ?thesis by (intro out_inv_cong[OF assms(3)]) (simp_all add: decide_fields[OF step_decide(2)])
next
  case (step_commit x popped)
  from step_commit(2) show ?thesis
  proof (cases rule: commit_cases)
    case stale
    show ?thesis using assms(3)
      by (rule out_inv_cong) (simp_all add: stale step_commit(1,3) handed_over_def)
  next
    case (pop y q)
    show ?thesis using assms(3)
      by (rule out_inv_cong)
        (simp_all add: pop(1,4) step_commit(1,3) handed_over_def bump_fields recordSend_fields)
  qed
next
  case (step_transmit x acc)
  obtain cs t y where "gvCommits g = cs @ [(t, y)]" "base y = base x"
    using assms(2) step_transmit(1) by (auto simp: worker_inv_def)
  then show ?thesis using out_inv_transmit assms(3) step_transmit by blast
next
  case step_admin
  then have com: "gvCommits g' = gvCommits g" by (simp add: admin_only_def)
  have "handed_over g' w' = handed_over g w"
    using step_admin(2) handed_over_cong[OF com] com by (auto simp: handed_over_all)
  then show ?thesis using step_admin(1) by (intro out_inv_cong[OF assms(3)]) (simp_all add: admin_only_def)
qed

lemma out_inv_reach: "gov_reach cfg now g w \<Longrightarrow> out_inv g w"
proof (induction rule: gov_reach.induct)
  case (reach_new g now)
  then show ?case using New_gov_fields[OF reach_new] by (simp add: out_inv_def handed_over_def)
next
  case (reach_step t g w now g' w')
  then show ?case using out_inv_step gov_reach_inv by blast
qed

lemma gov_reach_cfg:
  "gov_reach cfg now g w \<Longrightarrow> gcRate1MinLimit (gvCfg g) = gcRate1MinLimit cfg \<and> gcRate5MinLimit (gvCfg g) = gcRate5MinLimit cfg
    \<and> gcQueueCapacity (gvCfg g) = gcQueueCapacity (gov_applyDefaults cfg) \<and> gcDedupWindow (gvCfg g) = gcDedupWindow (gov_applyDefaults cfg)"
proof (induction rule: gov_reach.induct)
  case (reach_new g now)
  then show ?case using New_gov_fields(9)[OF reach_new] by (simp add: gov_applyDefaults_def Let_def)
next
  case (reach_step t g w now g' w')
  from reach_step(3) have "gcRate1MinLimit (gvCfg g') = gcRate1MinLimit (gvCfg g) \<and> gcRate5MinLimit (gvCfg g') = gcRate5MinLimit (gvCfg g)
    \<and> gcQueueCapacity (gvCfg g') = gcQueueCapacity (gvCfg g) \<and> gcDedupWindow (gvCfg g') = gcDedupWindow (gvCfg g)"
  proof (cases rule: gov_step_cases)
    case (step_commit x popped)
    from step_commit(2) show ?thesis by (cases rule: commit_cases) (simp_all add: bump_fields recordSend_fields)
  qed (simp_all add: submit_log decide_fields transmit_fields admin_only_def)
  then show ?case using reach_step by simp
qed

section \<open>Properties\<close>

text \<open>Frames popped for a channel in a closed interval of time.\<close>

definition pops_between :: "gov \<Rightarrow> nat \<Rightarrow> int \<Rightarrow> int \<Rightarrow> nat" where
  "pops_between g ch a b = length (filter (\<lambda>(s, x). qiChannel x = ch \<and> a \<le> s \<and> s \<le> b) (gvCommits g))"

text \<open>
  Property C9. Exactly once, in every interleaving of the callers with the worker. Every
  accepted submission is either still queued or has been popped once; accepted items are
  numbered consecutively; the queue is a heap within its capacity; the counters are the
  lengths of the histories; and the frames handed to the modem are the encodings of the popped
  items, in that order, with consecutive frame ids (an item that does not encode is dropped).
\<close>

theorem governor_exactly_once:
  assumes "gov_reach cfg now g w"
  shows "mset (map (base \<circ> snd) (gvLog g)) = mset (map base (gvQ g)) + mset (map (base \<circ> snd) (gvCommits g))
    \<and> map (qiSeq \<circ> snd) (gvLog g) = [1..<Suc (gvSeq g)]
    \<and> pq.is_heap (gvQ g) \<and> int (QueueLen g) \<le> max 0 (gcQueueCapacity (gov_applyDefaults cfg))
    \<and> gsEnqueued (gvStats g) = gsSent (gvStats g) + QueueLen g
    \<and> gvOut g = frames_of 0 (handed_over g w)"
proof -
  have q: "queue_inv g" by (rule queue_inv_reach[OF assms])
  then have m: "mset (map (base \<circ> snd) (gvLog g)) = mset (map base (gvQ g)) + mset (map (base \<circ> snd) (gvCommits g))"
    by (simp add: queue_inv_def)
  have "length (gvLog g) = length (gvQ g) + length (gvCommits g)" using arg_cong[OF m, of size] by simp
  then show ?thesis
    using q gov_reach_cfg[OF assms] out_inv_reach[OF assms] by (simp add: queue_inv_def QueueLen_def out_inv_def)
qed

text \<open>
  Property C10. The heap refines a list in order of departure (priority first, then first come
  first served): a step inserts an accepted item at its place, takes the front item, or leaves
  the list alone.
\<close>

theorem governor_refines_queue:
  assumes "gov_reach cfg now g w" "now \<le> t" "gov_step t g w g' w'"
  shows "(departures g' = departures g \<and> gvLog g' = gvLog g \<and> gvCommits g' = gvCommits g)
    \<or> (\<exists>x. gvLog g' = gvLog g @ [(t, x)] \<and> gvCommits g' = gvCommits g \<and> departures g' = insort_key rank_of x (departures g))
    \<or> (\<exists>y. gvLog g' = gvLog g \<and> gvCommits g' = gvCommits g @ [(t, y)] \<and> departures g = base y # departures g')"
  using refines_step[OF assms(3)] gov_reach_inv[OF assms(1)] by simp

text \<open>
  Property C11. The rate caps. In every reachable state, for every channel and every instant,
  the frames popped for the channel in the minute (five minutes) up to that instant do not
  exceed the configured limit.
\<close>

theorem governor_rate_caps:
  assumes "gov_reach cfg now g w"
  shows "(gcRate1MinLimit cfg > 0 \<longrightarrow> int (pops_between g ch (t - minute) t) \<le> gcRate1MinLimit cfg)
    \<and> (gcRate5MinLimit cfg > 0 \<longrightarrow> int (pops_between g ch (t - 5 * minute) t) \<le> gcRate5MinLimit cfg)"
proof -
  have "pops_between g ch a b = length (filter (\<lambda>e. a \<le> e \<and> e \<le> b) (chan_times g ch))" for a b
    by (simp add: pops_between_def chan_times_def filter_map comp_def)
      (rule arg_cong[of _ _ length], rule filter_cong, auto)
  moreover have "caps_hold g ch" using gov_reach_inv[OF assms] by (simp add: rate_inv_def)
  ultimately show ?thesis using gov_reach_cfg[OF assms] by (simp add: caps_hold_def capped_def)
qed

text \<open>
  The dedup window. Of two accepted submissions with the same destination, source
  and payload, the later one was submitted with the dedup bypassed or at least a window later.
\<close>

theorem governor_dedup_window:
  assumes "gov_reach cfg now g w" "i < j" "j < length (gvLog g)"
    and "gvLog g ! i = (t, x)" "gvLog g ! j = (u, y)"
    and "DedupKey (qiFrame x) = DedupKey (qiFrame y)" "\<not> ssSkipDedup (qiSource y)"
  shows "t + gcDedupWindow (gov_applyDefaults cfg) \<le> u"
proof -
  have "sorted_wrt (spaced (gcDedupWindow (gvCfg g))) (gvLog g)"
    using dedup_inv_reach[OF assms(1)] by (simp add: dedup_inv_def)
  then have "spaced (gcDedupWindow (gvCfg g)) (t, x) (u, y)"
    using assms(2-5) by (metis sorted_wrt_nth_less)
  then show ?thesis using assms(6,7) gov_reach_cfg[OF assms(1)] by (simp add: spaced_def)
qed

text \<open>What is not remembered now is not remembered later.\<close>

lemma has_key_mono: "dw_inv w \<Longrightarrow> has_key w u k \<Longrightarrow> now \<le> u \<Longrightarrow> has_key w now k"
  by (auto simp: has_key_live live_entry_def split: option.splits if_splits)

text \<open>
  A refused submission leaves nothing behind: the queue, the numbering and what
  the dedup window remembers are as before. When the queue was full, the same submission made
  later, with room in the queue, is accepted, whatever the dedup window.
\<close>

theorem refused_submit_harmless:
  assumes "dw_inv (gvDedup g)" "Submit now cancelled ch fo src g = (Some err, g')"
  shows "gvQ g' = gvQ g \<and> gvLog g' = gvLog g \<and> gvSeq g' = gvSeq g
    \<and> (\<forall>u k. now \<le> u \<longrightarrow> has_key (gvDedup g') u k = has_key (gvDedup g) u k)
    \<and> (err = ErrQueueFull \<longrightarrow> (\<forall>u q. now \<le> u \<longrightarrow> int (length q) < gcQueueCapacity (gvCfg g) \<longrightarrow>
          (\<exists>x g''. Submit u False ch fo src (g'\<lparr>gvQ := q\<rparr>) = (None, g'') \<and> fo = Some (qiFrame x)
             \<and> qiChannel x = ch \<and> gvLog g'' = gvLog g @ [(u, x)])))"
  using assms(2)
proof (cases rule: Submit_cases)
  case quiet
  note q = quiet_submit_fields[OF quiet(1)]
  have d: "gvDedup g' = gvDedup g \<or> gvDedup g' = gcLocked now (gvDedup g)" using quiet(1) by (auto simp: quiet_submit_def)
  then have keys: "has_key (gvDedup g') u k = has_key (gvDedup g) u k" if "now \<le> u" for u k
    using that assms(1) dw.check_touch[of "gvDedup g" now u k] by auto
  have inv: "dw_inv (gvDedup g')" using d assms(1) dw_inv_gc by auto
  have "\<exists>x g''. Submit u False ch fo src (g'\<lparr>gvQ := r\<rparr>) = (None, g'') \<and> fo = Some (qiFrame x)
      \<and> qiChannel x = ch \<and> gvLog g'' = gvLog g @ [(u, x)]"
    if full: "err = ErrQueueFull" and r: "now \<le> u" "int (length r) < gcQueueCapacity (gvCfg g)" for u r
  proof -
    obtain f where f: "fo = Some f" "\<not> gvClosed g" "ssSkipDedup src \<or> \<not> has_key (gvDedup g) now (DedupKey f)"
      using assms(2) full by (auto simp: Submit_def gov_hit_eq split: option.splits if_splits)
    then have "ssSkipDedup src \<or> \<not> has_key (gvDedup g') u (DedupKey f)"
      using has_key_mono[OF inv _ r(1)] keys[of now] by auto
    then have "Submit u False ch fo src (g'\<lparr>gvQ := r\<rparr>)
        = (None, enqueue_item u ch f src (checked u src (g'\<lparr>gvQ := r\<rparr>)))"
      using f r q by (auto simp: Submit_def gov_hit_eq checked_fields)
    then show ?thesis
      using f(1) q by (intro exI[of _ "new_item u ch f src (gvSeq g' + 1)"])
        (simp add: enqueue_item_fields checked_fields new_item_def)
  qed
  then show ?thesis using q keys by simp
qed simp

section \<open>Draining\<close>

fun rounds :: "(int \<times> u8 \<times> bool) list \<Rightarrow> gov \<Rightarrow> gov" where
  "rounds [] g = g"
| "rounds ((now, roll, accepted) # rs) g = rounds rs (processOne now roll accepted g)"

text \<open>The channel of an item lets it through for this roll of the persistence test.\<close>

definition clear_for :: "gov \<Rightarrow> u8 \<Rightarrow> nat \<Rightarrow> bool" where
  "clear_for g roll ch \<longleftrightarrow>
     (case gvSkipCSMA g of None \<Rightarrow> False | Some f \<Rightarrow> f ch) \<or> ctFullDup (timingFor (gvCfg g) ch)
     \<or> (\<not> gvDcd g ch \<and> roll \<le> ctPersist (timingFor (gvCfg g) ch))"

definition unlimited :: "gov \<Rightarrow> bool" where
  "unlimited g \<longleftrightarrow> gcRate1MinLimit (gvCfg g) = 0 \<and> gcRate5MinLimit (gvCfg g) = 0"

lemma decide_go:
  assumes "unlimited g" "gvQ g \<noteq> []" "clear_for g roll (qiChannel (gvQ g ! 0))"
  shows "decide now roll g = (Go ((gvQ g ! 0)\<lparr>qiCounted := False\<rparr>), set_head ((gvQ g ! 0)\<lparr>qiCounted := False\<rparr>) g)"
  using assms
  by (auto simp: decide_def unlimited_def isRateLimitedLocked_def Let_def set_head_def clear_for_def split: option.splits)

lemma transmit_channels [simp]: "gvDcd (transmit acc x g) = gvDcd g" "gvSkipCSMA (transmit acc x g) = gvSkipCSMA g"
  by (auto simp: transmit_def Let_def split: sum.split)

lemma bump_channels [simp]: "gvDcd (bump f g) = gvDcd g" "gvSkipCSMA (bump f g) = gvSkipCSMA g"
  by (simp_all add: bump_def)

lemma record_channels [simp]: "gvDcd (recordSendLocked now ch g) = gvDcd g" "gvSkipCSMA (recordSendLocked now ch g) = gvSkipCSMA g"
  by (simp_all add: rates_only_fields[OF rates_only_record])

lemma processOne_sends:
  assumes "queue_inv g" "unlimited g" "gvQ g \<noteq> []" "clear_for g roll (qiChannel (gvQ g ! 0))"
    and g'_def: "g' = processOne now roll acc g"
  shows "queue_inv g'" "\<exists>y. gvCommits g' = gvCommits g @ [(now, y)] \<and> departures g = base y # departures g'"
    "QueueLen g = Suc (QueueLen g')" "gvCfg g' = gvCfg g" "gvDcd g' = gvDcd g" "gvSkipCSMA g' = gvSkipCSMA g"
    "set (map base (gvQ g')) \<subseteq> set (map base (gvQ g))"
proof -
  let ?h = "(gvQ g ! 0)\<lparr>qiCounted := False\<rparr>" and ?g = "set_head ((gvQ g ! 0)\<lparr>qiCounted := False\<rparr>) g"
  have base: "map base (gvQ ?g) = map base (gvQ g)" using assms(3) by (simp add: set_head_def map_base_head)
  have inv: "queue_inv ?g" by (rule queue_inv_cong[OF assms(1) base]) (simp_all add: set_head_def)
  have ne: "gvQ ?g \<noteq> []" and hd: "gvQ ?g ! 0 = ?h" using assms(3) by (simp_all add: set_head_def)
  obtain y q where p: "heap_pop item_less (gvQ ?g) = Some (y, q)" using ne by (cases "heap_pop item_less (gvQ ?g)") auto
  let ?c = "bump (\<lambda>s. s\<lparr>gsSent := gsSent s + 1\<rparr>)
     (recordSendLocked now (qiChannel ?h) (?g\<lparr>gvQ := q, gvCommits := gvCommits ?g @ [(now, y)]\<rparr>))"
  have "commit now ?h ?g = (True, ?c)" using ne hd p by (simp add: commit_def)
  then have g': "g' = transmit acc ?h ?c"
    by (simp add: g'_def processOne_def decide_go[OF assms(2-4)])
  have q: "gvQ g' = q" and com: "gvCommits g' = gvCommits g @ [(now, y)]"
    by (simp_all add: g' transmit_fields bump_fields recordSend_fields set_head_def)
  show "queue_inv g'"
    by (rule queue_inv_cong[OF queue_inv_commit[OF inv p, of now "qiChannel ?h"]]) (simp_all add: g' transmit_fields)
  have "departures g = base y # departures g'"
    using departures_pop[OF inv p q] departures_cong[OF base] by simp
  then show "\<exists>y. gvCommits g' = gvCommits g @ [(now, y)] \<and> departures g = base y # departures g'" using com by blast
  show "QueueLen g = Suc (QueueLen g')"
    using heap_pop_Some(4)[OF p] q arg_cong[OF base, of length] by (simp add: QueueLen_def)
  show "gvCfg g' = gvCfg g" "gvDcd g' = gvDcd g" "gvSkipCSMA g' = gvSkipCSMA g"
    by (simp_all add: g' transmit_fields bump_fields recordSend_fields set_head_def)
  show "set (map base (gvQ g')) \<subseteq> set (map base (gvQ g))"
    unfolding base[symmetric] q set_map set_heap_pop[OF p] by blast
qed

lemma head_in_departures: "gvQ g \<noteq> [] \<Longrightarrow> base (gvQ g ! 0) \<in> set (map base (gvQ g))"
  by simp

text \<open>
  Nothing starves: without rate caps and with clear channels, as many rounds of
  the worker as there are queued frames pop them all, in the order of departure.
\<close>

theorem governor_drains:
  assumes "queue_inv g" "unlimited g" "length rs = QueueLen g"
    and "\<forall>x \<in> set (gvQ g). \<forall>(t, roll, acc) \<in> set rs. clear_for g roll (qiChannel x)"
  shows "gvQ (rounds rs g) = []
    \<and> map (base \<circ> snd) (gvCommits (rounds rs g)) = map (base \<circ> snd) (gvCommits g) @ departures g"
  using assms
proof (induction rs arbitrary: g)
  case Nil
  then show ?case by (simp add: QueueLen_def departures_def)
next
  case (Cons r rs)
  obtain now roll acc where r: "r = (now, roll, acc)" by (cases r)
  let ?g = "processOne now roll acc g"
  have ne: "gvQ g \<noteq> []" using Cons.prems(3) by (auto simp: QueueLen_def)
  have "clear_for g roll (qiChannel (gvQ g ! 0))" using Cons.prems(4) ne by (auto simp: r)
  note s = processOne_sends[OF Cons.prems(1,2) ne this refl, where now = now and acc = acc]
  have clear: "clear_for ?g b c = clear_for g b c" for b c using s(4-6) by (simp add: clear_for_def)
  have "\<exists>z \<in> set (gvQ g). qiChannel z = qiChannel x" if "x \<in> set (gvQ ?g)" for x
  proof -
    have "base x \<in> base ` set (gvQ g)" using s(7) that by auto
    then obtain z where "z \<in> set (gvQ g)" "base x = base z" by blast
    then show ?thesis by (metis base_fields(1))
  qed
  then have "\<forall>x \<in> set (gvQ ?g). \<forall>(t, roll, acc) \<in> set rs. clear_for ?g roll (qiChannel x)"
    unfolding clear using Cons.prems(4) by (auto simp: r) (metis case_prodD)
  then have "gvQ (rounds rs ?g) = [] \<and> map (base \<circ> snd) (gvCommits (rounds rs ?g)) = map (base \<circ> snd) (gvCommits ?g) @ departures ?g"
    using Cons.prems(2,3) s(3,4) by (intro Cons.IH[OF s(1)]) (simp_all add: unlimited_def)
  moreover obtain y where "gvCommits ?g = gvCommits g @ [(now, y)]" "departures g = base y # departures ?g" using s(2) by blast
  ultimately show ?case by (simp add: r comp_def)
qed

section \<open>The rate log without caps\<close>

text \<open>
  Without caps nothing ever asks the rate windows for their count, and only a count evicts:
  every frame sent leaves a time stamp in two lists that are never shortened.
\<close>

definition full_rates :: "gov \<Rightarrow> bool" where
  "full_rates g \<longleftrightarrow> (\<forall>ch. case gvRates g ch of
     None \<Rightarrow> chan_times g ch = []
   | Some r \<Rightarrow> rwEvents (crOneMin r) = chan_times g ch \<and> rwEvents (crFiveMin r) = chan_times g ch)"

lemma full_rates_cong: "full_rates g \<Longrightarrow> gvRates g' = gvRates g \<Longrightarrow> gvCommits g' = gvCommits g \<Longrightarrow> full_rates g'"
  by (simp add: full_rates_def chan_times_def cong: option.case_cong)

lemma full_rates_commit:
  assumes "full_rates g" "qiChannel y = ch"
    and g': "g' = bump f (recordSendLocked now ch (g\<lparr>gvQ := q, gvCommits := gvCommits g @ [(now, y)]\<rparr>))"
  shows "full_rates g'"
proof -
  have com: "gvCommits g' = gvCommits g @ [(now, y)]" by (simp add: g' bump_fields recordSend_fields)
  note t = chan_times_snoc[OF com]
  have "case gvRates g' c of None \<Rightarrow> chan_times g' c = []
     | Some r \<Rightarrow> rwEvents (crOneMin r) = chan_times g' c \<and> rwEvents (crFiveMin r) = chan_times g' c" for c
    using assms(1)[unfolded full_rates_def, rule_format, of c] assms(2) t[of c]
    by (cases "c = ch"; cases "gvRates g c")
      (simp_all add: g' bump_fields recordSendLocked_def rateFor_def set_rate_def Let_def rw_record_def split: option.split)
  then show ?thesis by (simp add: full_rates_def)
qed

lemma full_rates_step:
  assumes "gov_step now g w g' w'" "queue_inv g" "worker_inv g w" "unlimited g" "full_rates g" shows "full_rates g'"
  using assms(1)
proof (cases rule: gov_step_cases)
  case (step_submit cancelled ch fo src)
  then show ?thesis using full_rates_cong[OF assms(5)] by (simp add: submit_log)
next
  case (step_decide roll v)
  have "gvRates g' = gvRates g"
    using step_decide(2) assms(4)
    by (auto simp: decide_def isRateLimitedLocked_def unlimited_def Let_def set_head_def split: if_splits)
  then show ?thesis using full_rates_cong[OF assms(5)] decide_fields(11)[OF step_decide(2)] by simp
next
  case (step_commit x popped)
  have x: "logged g x" using assms(3) step_commit(1) by (simp add: worker_inv_def)
  from step_commit(2) show ?thesis
  proof (cases rule: commit_cases)
    case (pop y q)
    show ?thesis by (rule full_rates_commit[OF assms(5) commit_item(2)[OF assms(2) x pop(2,3)] pop(4)])
  qed (use assms(5) in simp)
next
  case (step_transmit x acc)
  then show ?thesis using full_rates_cong[OF assms(5)] by (simp add: transmit_fields)
next
  case step_admin
  then show ?thesis using full_rates_cong[OF assms(5)] by (simp add: admin_only_def)
qed

text \<open>
  With both limits at zero, their default, the rate windows of a channel hold one
  time stamp for every frame ever popped for it: their size has no bound.
\<close>

theorem unlimited_rate_log_grows:
  assumes "gov_reach cfg now g w" "gcRate1MinLimit cfg = 0" "gcRate5MinLimit cfg = 0" "gvRates g ch = Some r"
  shows "length (rwEvents (crOneMin r)) = length (filter (\<lambda>(t, x). qiChannel x = ch) (gvCommits g))
    \<and> length (rwEvents (crFiveMin r)) = length (filter (\<lambda>(t, x). qiChannel x = ch) (gvCommits g))"
proof -
  have "full_rates g"
    using assms(1)
  proof (induction rule: gov_reach.induct)
    case (reach_new g now)
    then show ?case using New_gov_fields[OF reach_new] by (simp add: full_rates_def chan_times_def)
  next
    case (reach_step t g w now g' w')
    have "unlimited g" using gov_reach_cfg[OF reach_step(1)] assms(2,3) by (simp add: unlimited_def)
    then show ?case using full_rates_step[OF reach_step(3)] gov_reach_inv[OF reach_step(1)] reach_step.IH by blast
  qed
  then show ?thesis using assms(4) by (auto simp: full_rates_def chan_times_def split: option.splits dest!: spec[of _ ch])
qed

section \<open>A run\<close>

text \<open>
  At most \<open>n\<close> frames per minute (no cap for 0); a beacon is submitted, then a message. The
  worker takes the message first.
\<close>

definition example_gov_cfg :: "int \<Rightarrow> gov_config" where
  "example_gov_cfg n = \<lparr>gcRate1MinLimit = n, gcRate5MinLimit = 0, gcDedupWindow = 0, gcQueueCapacity = 0, gcChannels = Map.empty\<rparr>"

definition example_src :: "int \<Rightarrow> submit_source" where
  "example_src p = \<lparr>ssKind = ''beacon'', ssDetail = [], ssPriority = p, ssSkipDedup = False\<rparr>"

definition example_msg :: frame where
  "example_msg = example_ui_frame\<lparr>fInfo := bytes_of '':N0CALL   :hi''\<rparr>"

definition example_gov0 :: "int \<Rightarrow> gov" where
  "example_gov0 n = the (New_gov (example_gov_cfg n))"

definition example_gov1 :: "int \<Rightarrow> gov" where
  "example_gov1 n = snd (Submit 1 False 0 (Some example_ui_frame) (example_src PriorityBeacon) (example_gov0 n))"

definition example_gov2 :: "int \<Rightarrow> gov" where
  "example_gov2 n = snd (Submit 2 False 0 (Some example_msg) (example_src PriorityIGateMsg) (example_gov1 n))"

definition example_item1 :: queue_item where
  "example_item1 = new_item 1 0 example_ui_frame (example_src PriorityBeacon) 1"

definition example_item2 :: queue_item where
  "example_item2 = new_item 2 0 example_msg (example_src PriorityIGateMsg) 2"

definition example_gov3 :: "int \<Rightarrow> gov" where
  "example_gov3 n = snd (decide 3 0 (example_gov2 n))"

definition example_gov4 :: "int \<Rightarrow> gov" where
  "example_gov4 n = snd (commit 4 example_item2 (example_gov3 n))"

definition example_gov5 :: "int \<Rightarrow> gov" where
  "example_gov5 n = transmit True example_item2 (example_gov4 n)"

lemma example_gov0_new: "New_gov (example_gov_cfg n) = Some (example_gov0 n)"
  by (simp add: example_gov0_def New_gov_def New_window_def example_gov_cfg_def gov_applyDefaults_def Let_def)

lemma example_keys: "DedupKey example_ui_frame \<noteq> DedupKey example_msg"
  by (simp add: DedupKey_def example_msg_def example_ui_frame_def string_of_def bytes_of_def)

lemma example_gov0_fields: "gvQ (example_gov0 n) = []" "gvSeq (example_gov0 n) = 0" "gvClosed (example_gov0 n) = False"
  "gvCfg (example_gov0 n) = \<lparr>gcRate1MinLimit = n, gcRate5MinLimit = 0, gcDedupWindow = 30000000000, gcQueueCapacity = 256, gcChannels = Map.empty\<rparr>"
  "gvLog (example_gov0 n) = []" "gvCommits (example_gov0 n) = []" "gvRates (example_gov0 n) = Map.empty"
  "gvDedup (example_gov0 n) = \<lparr>dwTTL = 30000000000, dwGC = 64, dwSeen = []\<rparr>" "gvDcd (example_gov0 n) = (\<lambda>_. False)"
  "gvSkipCSMA (example_gov0 n) = None"
  by (simp_all add: example_gov0_def New_gov_def New_window_def example_gov_cfg_def gov_applyDefaults_def Let_def defaultGCThreshold_def)

lemma example_submit1:
  "Submit 1 False 0 (Some example_ui_frame) (example_src PriorityBeacon) (example_gov0 n) = (None, example_gov1 n)"
  by (simp add: example_gov1_def Submit_def gov_hit_eq has_key_def Has_def gcLocked_def example_gov0_fields Let_def
      example_src_def checked_def)

lemma example_gov1_eq:
  "example_gov1 n = enqueue_item 1 0 example_ui_frame (example_src PriorityBeacon) (checked 1 (example_src PriorityBeacon) (example_gov0 n))"
  by (simp add: example_gov1_def Submit_def gov_hit_eq has_key_def Has_def gcLocked_def example_gov0_fields Let_def
      example_src_def checked_def)

lemma example_gov1_fields: "gvQ (example_gov1 n) = [example_item1]" "gvClosed (example_gov1 n) = False"
  "gvSeq (example_gov1 n) = 1" "gvLog (example_gov1 n) = [(1, example_item1)]"
  "gvDedup (example_gov1 n) = \<lparr>dwTTL = 30000000000, dwGC = 64, dwSeen = [(DedupKey example_ui_frame, \<lparr>deWhen = 1, deValue = ()\<rparr>)]\<rparr>"
  "gvCfg (example_gov1 n) = gvCfg (example_gov0 n)" "gvRates (example_gov1 n) = Map.empty" "gvCommits (example_gov1 n) = []"
  by (simp_all add: example_gov1_eq enqueue_item_fields checked_fields example_gov0_fields example_item1_def heap_push_def
      heap_up.simps checked_def example_src_def gcLocked_def Record_def put_entry_def)

lemma example_gov2_eq:
  "example_gov2 n = enqueue_item 2 0 example_msg (example_src PriorityIGateMsg) (checked 2 (example_src PriorityIGateMsg) (example_gov1 n))"
  using example_keys
  by (simp add: example_gov2_def Submit_def gov_hit_eq has_key_def Has_def gcLocked_def example_gov1_fields example_gov0_fields
      Let_def example_src_def checked_fields)

lemma example_push: "heap_push item_less example_item2 [example_item1] = [example_item2, example_item1]"
  by (simp add: heap_push_def heap_up.simps heap_swap_def item_less_def example_item1_def example_item2_def new_item_def
      example_src_def PriorityBeacon_def PriorityIGateMsg_def)

lemma enqueue_channels: "gvDcd (enqueue_item now ch f src g) = gvDcd g" "gvSkipCSMA (enqueue_item now ch f src g) = gvSkipCSMA g"
  "gvDcd (checked now src g) = gvDcd g" "gvSkipCSMA (checked now src g) = gvSkipCSMA g"
  by (simp_all add: enqueue_item_def checked_def Let_def)

lemma example_gov2_fields: "gvQ (example_gov2 n) = [example_item2, example_item1]"
  "gvCfg (example_gov2 n) = gvCfg (example_gov0 n)" "gvRates (example_gov2 n) = Map.empty" "gvCommits (example_gov2 n) = []"
  "gvDcd (example_gov2 n) = (\<lambda>_. False)" "gvSkipCSMA (example_gov2 n) = None"
  by (simp_all add: example_gov2_eq enqueue_item_fields checked_fields example_gov1_fields example_push enqueue_channels
      example_item2_def[symmetric] example_gov1_eq[unfolded example_gov1_def] numeral_2_eq_2[symmetric] example_gov0_fields)
    (simp_all add: example_gov1_eq enqueue_channels example_gov0_fields)

lemma example_decide:
  assumes "0 \<le> n" shows "decide 3 0 (example_gov2 n) = (Go example_item2, example_gov3 n)"
    "gvQ (example_gov3 n) = [example_item2, example_item1]" "gvCommits (example_gov3 n) = []"
proof -
  have "fst (decide 3 0 (example_gov2 n)) = Go example_item2"
    using assms
    by (auto simp: decide_def example_gov2_fields example_gov0_fields isRateLimitedLocked_def rateFor_def rw_count_def
        evictLocked_def set_rate_def set_head_def timingFor_def Let_def example_item2_def new_item_def)
  then show d: "decide 3 0 (example_gov2 n) = (Go example_item2, example_gov3 n)"
    by (simp add: example_gov3_def prod_eq_iff)
  show "gvQ (example_gov3 n) = [example_item2, example_item1]"
    using assms
    by (auto simp: example_gov3_def decide_def example_gov2_fields example_gov0_fields isRateLimitedLocked_def rateFor_def rw_count_def
        evictLocked_def set_rate_def set_head_def timingFor_def Let_def example_item2_def new_item_def)
  show "gvCommits (example_gov3 n) = []" by (simp add: decide_fields(11)[OF d] example_gov2_fields)
qed

lemma example_commit:
  assumes "0 \<le> n" shows "commit 4 example_item2 (example_gov3 n) = (True, example_gov4 n)"
    "gvCommits (example_gov4 n) = [(4, example_item2)]" "gvQ (example_gov4 n) = [example_item1]"
proof -
  have p: "heap_pop item_less [example_item2, example_item1] = Some (example_item2, [example_item1])"
    using heap_down.simps[of item_less 0 1 "[example_item1, example_item2]"] by (simp add: heap_pop_def heap_swap_def Let_def)
  show c: "commit 4 example_item2 (example_gov3 n) = (True, example_gov4 n)"
    using p by (simp add: example_gov4_def commit_def example_decide[OF assms])
  show "gvCommits (example_gov4 n) = [(4, example_item2)]" "gvQ (example_gov4 n) = [example_item1]"
    using p by (simp_all add: example_gov4_def commit_def example_decide[OF assms] bump_fields recordSend_fields)
qed

lemma example_reach:
  assumes "0 \<le> n"
  shows "gov_reach (example_gov_cfg n) 2 (example_gov2 n) Idle"
    "gov_reach (example_gov_cfg n) 3 (example_gov3 n) (Decided example_item2)"
    "gov_reach (example_gov_cfg n) 4 (example_gov4 n) (Popped example_item2)"
    "gov_reach (example_gov_cfg n) 5 (example_gov5 n) Idle"
proof -
  have "gov_reach (example_gov_cfg n) 0 (example_gov0 n) Idle" by (rule reach_new[OF example_gov0_new])
  then have "gov_reach (example_gov_cfg n) 1 (example_gov1 n) Idle"
    by (rule reach_step) (simp_all add: example_gov1_def step_submit)
  then show 2: "gov_reach (example_gov_cfg n) 2 (example_gov2 n) Idle"
    by (rule reach_step) (simp_all add: example_gov2_def step_submit)
  show 3: "gov_reach (example_gov_cfg n) 3 (example_gov3 n) (Decided example_item2)"
    using reach_step[OF 2 _ step_decide[OF example_decide(1)[OF assms]]] by simp
  show 4: "gov_reach (example_gov_cfg n) 4 (example_gov4 n) (Popped example_item2)"
    using reach_step[OF 3 _ step_commit[OF example_commit(1)[OF assms]]] by simp
  show "gov_reach (example_gov_cfg n) 5 (example_gov5 n) Idle"
    unfolding example_gov5_def using reach_step[OF 4 _ step_transmit] by simp
qed

theorem governor_exactly_once_witness:
  "gsEnqueued (gvStats (example_gov5 1)) = gsSent (gvStats (example_gov5 1)) + 1
    \<and> gvOut (example_gov5 1) = frames_of 0 [example_item2]"
proof -
  have f: "gvQ (example_gov5 1) = [example_item1]" "gvCommits (example_gov5 1) = [(4, example_item2)]"
    by (simp_all add: example_gov5_def transmit_fields example_commit)
  then show ?thesis
    using governor_exactly_once[OF example_reach(4)[of 1]] by (simp add: QueueLen_def handed_over_def)
qed

theorem governor_refines_queue_witness:
  "departures (example_gov3 1) = base example_item2 # departures (example_gov4 1)"
  using governor_refines_queue[OF example_reach(2)[of 1] _ step_commit[OF example_commit(1)[of 1]]]
  by (simp add: example_commit example_decide)

theorem governor_rate_caps_witness:
  "pops_between (example_gov5 1) 0 (60 * 1000000000 - minute) (60 * 1000000000) = 1
    \<and> int (pops_between (example_gov5 1) 0 (60 * 1000000000 - minute) (60 * 1000000000)) \<le> 1"
proof
  show "int (pops_between (example_gov5 1) 0 (60 * 1000000000 - minute) (60 * 1000000000)) \<le> 1"
    using governor_rate_caps[OF example_reach(4)[of 1], of 0 "60 * 1000000000"] by (simp add: example_gov_cfg_def)
  show "pops_between (example_gov5 1) 0 (60 * 1000000000 - minute) (60 * 1000000000) = 1"
    by (simp add: pops_between_def example_gov5_def transmit_fields example_commit minute_def example_item2_def new_item_def)
qed

text \<open>The beacon again, 40 seconds after the first.\<close>

definition example_gov_again :: "int \<Rightarrow> gov" where
  "example_gov_again n = snd (Submit 40000000000 False 0 (Some example_ui_frame) (example_src PriorityBeacon) (example_gov2 n))"

theorem governor_dedup_window_witness:
  "\<exists>x y. gvLog (example_gov_again 1) ! 0 = (1, x) \<and> gvLog (example_gov_again 1) ! 2 = (40000000000, y)
    \<and> DedupKey (qiFrame x) = DedupKey (qiFrame y) \<and> 1 + gcDedupWindow (gov_applyDefaults (example_gov_cfg 1)) \<le> 40000000000"
proof -
  let ?y = "new_item 40000000000 0 example_ui_frame (example_src PriorityBeacon) 3"
  have r: "gov_reach (example_gov_cfg 1) 40000000000 (example_gov_again 1) Idle"
    unfolding example_gov_again_def by (rule reach_step[OF example_reach(1)]) (simp_all add: step_submit)
  have log2: "gvLog (example_gov2 1) = [(1, example_item1), (2, example_item2)]" "gvSeq (example_gov2 1) = 2"
    "gvDedup (example_gov2 1) = \<lparr>dwTTL = 30000000000, dwGC = 64, dwSeen = [(DedupKey example_msg, \<lparr>deWhen = 2, deValue = ()\<rparr>),
        (DedupKey example_ui_frame, \<lparr>deWhen = 1, deValue = ()\<rparr>)]\<rparr>" "gvClosed (example_gov2 1) = False"
    using example_keys
    by (simp_all add: example_gov2_eq enqueue_item_fields checked_fields example_gov1_fields example_item2_def
        example_src_def checked_def gcLocked_def Record_def put_entry_def numeral_2_eq_2)
  have "example_gov_again 1 = enqueue_item 40000000000 0 example_ui_frame (example_src PriorityBeacon)
      (checked 40000000000 (example_src PriorityBeacon) (example_gov2 1))"
    using example_keys
    by (simp add: example_gov_again_def Submit_def gov_hit_eq has_key_def Has_def gcLocked_def log2 example_gov2_fields
        example_gov0_fields Let_def example_src_def checked_fields)
  then have log: "gvLog (example_gov_again 1) = [(1, example_item1), (2, example_item2), (40000000000, ?y)]"
    by (simp add: enqueue_item_fields checked_fields log2)
  have k: "DedupKey (qiFrame example_item1) = DedupKey (qiFrame ?y)" "\<not> ssSkipDedup (qiSource ?y)"
    by (simp_all add: example_item1_def new_item_def example_src_def)
  have "1 + gcDedupWindow (gov_applyDefaults (example_gov_cfg 1)) \<le> 40000000000"
    using governor_dedup_window[OF r, of 0 2 1 example_item1 40000000000 ?y] log k by simp
  then show ?thesis using log k(1) by simp
qed

text \<open>A queue of one place, taken by the beacon.\<close>

definition example_gov_full :: gov where
  "example_gov_full = (example_gov1 0)\<lparr>gvCfg := (gvCfg (example_gov1 0))\<lparr>gcQueueCapacity := 1\<rparr>\<rparr>"

theorem refused_submit_harmless_witness:
  "\<exists>g'. Submit 2 False 0 (Some example_msg) (example_src PriorityIGateMsg) example_gov_full = (Some ErrQueueFull, g')
    \<and> gvQ g' = [example_item1]
    \<and> (\<exists>g''. Submit 3 False 0 (Some example_msg) (example_src PriorityIGateMsg) (g'\<lparr>gvQ := []\<rparr>) = (None, g''))"
proof -
  have inv: "dw_inv (gvDedup example_gov_full)" by (simp add: example_gov_full_def example_gov1_fields dw_inv_def)
  obtain g' where g': "Submit 2 False 0 (Some example_msg) (example_src PriorityIGateMsg) example_gov_full = (Some ErrQueueFull, g')"
    using example_keys
    by (simp add: example_gov_full_def Submit_def gov_hit_eq has_key_def Has_def gcLocked_def example_gov1_fields Let_def
        example_src_def checked_fields)
  note h = refused_submit_harmless[OF inv g']
  have "gvQ g' = [example_item1]" using h by (simp add: example_gov_full_def example_gov1_fields)
  moreover have "\<exists>x g''. Submit 3 False 0 (Some example_msg) (example_src PriorityIGateMsg) (g'\<lparr>gvQ := []\<rparr>) = (None, g'')
      \<and> Some example_msg = Some (qiFrame x) \<and> qiChannel x = 0 \<and> gvLog g'' = gvLog example_gov_full @ [(3, x)]"
    by (rule h[THEN conjunct2, THEN conjunct2, THEN conjunct2, THEN conjunct2, rule_format])
      (simp_all add: example_gov_full_def)
  ultimately show ?thesis using g' by blast
qed

theorem governor_drains_witness:
  "gvQ (rounds [(3, 0, True), (4, 0, False)] (example_gov2 0)) = []
    \<and> map (base \<circ> snd) (gvCommits (rounds [(3, 0, True), (4, 0, False)] (example_gov2 0))) = departures (example_gov2 0)"
proof -
  have inv: "queue_inv (example_gov2 0)" using gov_reach_inv[OF example_reach(1)[of 0]] by simp
  show ?thesis
    using governor_drains[OF inv, of "[(3, 0, True), (4, 0, False)]"]
    by (simp add: unlimited_def example_gov2_fields example_gov0_fields QueueLen_def clear_for_def timingFor_def)
qed

theorem unlimited_rate_log_grows_witness:
  "\<exists>r. gvRates (example_gov5 0) 0 = Some r \<and> length (rwEvents (crOneMin r)) = 1"
proof -
  have com: "gvCommits (example_gov5 0) = [(4, example_item2)]" by (simp add: example_gov5_def transmit_fields example_commit)
  have "rate_ok 5 (gvRates (example_gov5 0) 0) (chan_times (example_gov5 0) 0)"
    using gov_reach_inv[OF example_reach(4)[of 0]] by (simp add: rate_inv_def)
  then obtain r where r: "gvRates (example_gov5 0) 0 = Some r"
    using com by (auto simp: rate_ok_def chan_times_def example_item2_def new_item_def split: option.splits)
  then show ?thesis
    using unlimited_rate_log_grows[OF example_reach(4)[of 0] _ _ r] com
    by (simp add: example_gov_cfg_def example_item2_def new_item_def)
qed

end
