(* ===== verification/KISS_Queue.thy ===== *)
theory KISS_Queue
  imports Graywolf_Prelude
begin

text \<open>
  The transmit queue of a KISS interface (\<^verbatim>\<open>pkg/kiss/tx_queue.go\<close>): a channel of 16
  frames between the callers of \<^verbatim>\<open>Enqueue\<close> and one writer. \<^verbatim>\<open>Enqueue\<close> and the writer are
  split at their atomic operations (the load of \<^verbatim>\<open>stopped\<close>, the channel send and receive,
  the update of \<^verbatim>\<open>depth\<close>, the broadcast), and a step relation interleaves any number of callers
  with the writer, with \<^verbatim>\<open>Close\<close> and with a cancellation of the context the queue was built on.
\<close>

section \<open>State\<close>

definition instanceTxQueueDepth :: nat where
  "instanceTxQueueDepth = 16"

datatype queue_err = KissBusy | KissDown

record tx_frame =
  txData :: bytes
  txFrameID :: nat

text \<open>The writer: in the select, with a frame whose \<^verbatim>\<open>depth\<close> update is due, before the broadcast, gone.\<close>

datatype writer = Waiting | Got tx_frame | Writing tx_frame | Exited

text \<open>
  \<open>tqPassed\<close> holds the calls of \<^verbatim>\<open>Enqueue\<close> between the test and the select, \<open>tqAdding\<close> counts
  those between the send and the update. \<open>tqDrops\<close>, \<open>tqOut\<close> and \<open>tqAccepted\<close> record the calls of the
  drop hook, the broadcasts and the frames sent into the channel.
\<close>

record tx_queue =
  tqCh :: "tx_frame list"
  tqStopped :: bool
  tqCancelled :: bool
  tqDepth :: int
  tqWriter :: writer
  tqPassed :: "tx_frame list"
  tqAdding :: nat
  tqDrops :: "string list"
  tqOut :: "bytes list"
  tqAccepted :: "tx_frame list"

definition newInstanceTxQueue :: tx_queue where
  "newInstanceTxQueue =
     \<lparr>tqCh = [], tqStopped = False, tqCancelled = False, tqDepth = 0, tqWriter = Waiting, tqPassed = [],
      tqAdding = 0, tqDrops = [], tqOut = [], tqAccepted = []\<rparr>"

section \<open>The operations, split at their atomic steps\<close>

definition enqueue_test :: "tx_frame \<Rightarrow> tx_queue \<Rightarrow> queue_err option \<times> tx_queue" where
  "enqueue_test f q =
     (if tqStopped q then (Some KissDown, q\<lparr>tqDrops := tqDrops q @ [''down'']\<rparr>)
      else (None, q\<lparr>tqPassed := tqPassed q @ [f]\<rparr>))"

definition enqueue_send :: "tx_frame \<Rightarrow> tx_queue \<Rightarrow> queue_err option \<times> tx_queue" where
  "enqueue_send f q0 =
     (let q = q0\<lparr>tqPassed := remove1 f (tqPassed q0)\<rparr> in
      if length (tqCh q) < instanceTxQueueDepth
      then (None, q\<lparr>tqCh := tqCh q @ [f], tqAccepted := tqAccepted q @ [f], tqAdding := tqAdding q + 1\<rparr>)
      else (Some KissBusy, q\<lparr>tqDrops := tqDrops q @ [''busy'']\<rparr>))"

definition enqueue_add :: "tx_queue \<Rightarrow> tx_queue" where
  "enqueue_add q = q\<lparr>tqAdding := tqAdding q - 1, tqDepth := tqDepth q + 1\<rparr>"

text \<open>\<^verbatim>\<open>Enqueue\<close> when nothing runs in between.\<close>

definition Enqueue :: "tx_frame \<Rightarrow> tx_queue \<Rightarrow> queue_err option \<times> tx_queue" where
  "Enqueue f q =
     (case enqueue_test f q of
        (Some e, q) \<Rightarrow> (Some e, q)
      | (None, q) \<Rightarrow> (case enqueue_send f q of (Some e, q) \<Rightarrow> (Some e, q) | (None, q) \<Rightarrow> (None, enqueue_add q)))"

text \<open>\<^verbatim>\<open>Close\<close> swaps \<^verbatim>\<open>stopped\<close>, cancels the context and waits until the writer is \<open>Exited\<close>.\<close>

definition close_swap :: "tx_queue \<Rightarrow> bool \<times> tx_queue" where
  "close_swap q = (tqStopped q, q\<lparr>tqStopped := True\<rparr>)"

definition cancel_ctx :: "tx_queue \<Rightarrow> tx_queue" where
  "cancel_ctx q = q\<lparr>tqCancelled := True\<rparr>"

text \<open>The writer's step; \<open>done\<close> says which ready case of the select is taken.\<close>

definition drain :: "bool \<Rightarrow> tx_queue \<Rightarrow> tx_queue" where
  "drain done q =
     (case tqWriter q of
        Waiting \<Rightarrow>
          (if done \<and> tqCancelled q then q\<lparr>tqWriter := Exited\<rparr>
           else case tqCh q of [] \<Rightarrow> q | f # fs \<Rightarrow> q\<lparr>tqCh := fs, tqWriter := Got f\<rparr>)
      | Got f \<Rightarrow> q\<lparr>tqDepth := tqDepth q - 1, tqWriter := Writing f\<rparr>
      | Writing f \<Rightarrow> q\<lparr>tqOut := tqOut q @ [txData f], tqWriter := Waiting\<rparr>
      | Exited \<Rightarrow> q)"

definition Depth :: "tx_queue \<Rightarrow> int" where
  "Depth q = tqDepth q"

section \<open>Every interleaving\<close>

inductive tq_step :: "tx_queue \<Rightarrow> tx_queue \<Rightarrow> bool" where
  tq_test: "tq_step q (snd (enqueue_test f q))"
| tq_send: "f \<in> set (tqPassed q) \<Longrightarrow> tq_step q (snd (enqueue_send f q))"
| tq_add: "tqAdding q > 0 \<Longrightarrow> tq_step q (enqueue_add q)"
| tq_close: "tq_step q (snd (close_swap q))"
| tq_cancel: "tq_step q (cancel_ctx q)"
| tq_drain: "tq_step q (drain done q)"

inductive tq_run :: "tx_queue \<Rightarrow> tx_queue \<Rightarrow> bool" for q where
  tq_here: "tq_run q q"
| tq_more: "tq_run q q' \<Longrightarrow> tq_step q' q'' \<Longrightarrow> tq_run q q''"

inductive_simps tq_step_iff: "tq_step q q'"

fun in_hand :: "writer \<Rightarrow> tx_frame list" where
  "in_hand (Got f) = [f]"
| "in_hand (Writing f) = [f]"
| "in_hand _ = []"

fun owed :: "writer \<Rightarrow> int" where
  "owed (Got f) = 1"
| "owed _ = 0"

definition tq_inv :: "tx_queue \<Rightarrow> bool" where
  "tq_inv q \<longleftrightarrow>
     (\<exists>sent. tqAccepted q = sent @ in_hand (tqWriter q) @ tqCh q \<and> tqOut q = map txData sent)
     \<and> length (tqCh q) \<le> instanceTxQueueDepth
     \<and> tqDepth q + int (tqAdding q) = int (length (tqCh q)) + owed (tqWriter q)"

lemmas tq_defs = enqueue_test_def enqueue_send_def enqueue_add_def close_swap_def cancel_ctx_def drain_def

lemma tq_inv_step: "tq_step q q' \<Longrightarrow> tq_inv q \<Longrightarrow> tq_inv q'"
  by (cases rule: tq_step.cases, assumption)
    (auto simp: tq_inv_def tq_defs Let_def split: writer.splits list.splits)

lemma tq_run_inv: "tq_run newInstanceTxQueue q \<Longrightarrow> tq_inv q"
  by (induction rule: tq_run.induct) (auto simp: tq_inv_def newInstanceTxQueue_def dest: tq_inv_step)

text \<open>A writer that is gone stays gone and broadcasts nothing.\<close>

lemma exited_step: "tq_step q q' \<Longrightarrow> tqWriter q = Exited \<Longrightarrow> tqWriter q' = Exited \<and> tqOut q' = tqOut q"
  by (auto simp: tq_step_iff tq_defs Let_def)

lemma exited_run: "tq_run q q' \<Longrightarrow> tqWriter q = Exited \<Longrightarrow> tqWriter q' = Exited \<and> tqOut q' = tqOut q"
  by (induction rule: tq_run.induct) (use exited_step in fastforce)+

lemma tq_run_trans: "tq_run q' q'' \<Longrightarrow> tq_run q q' \<Longrightarrow> tq_run q q''"
  by (induction rule: tq_run.induct) (auto intro: tq_more)

text \<open>The whole calls are runs.\<close>

lemma Enqueue_run: "tq_run q (snd (Enqueue f q))"
proof -
  have t: "tq_run q (snd (enqueue_test f q))" by (rule tq_more[OF tq_here tq_test])
  show ?thesis
  proof (cases "fst (enqueue_test f q)")
    case (Some e)
    then show ?thesis using t by (cases "enqueue_test f q") (simp add: Enqueue_def)
  next
    case None
    obtain q1 where q1: "enqueue_test f q = (None, q1)" using None by (metis prod.collapse)
    then have f: "f \<in> set (tqPassed q1)" by (auto simp: enqueue_test_def split: if_splits)
    have s: "tq_run q (snd (enqueue_send f q1))" using t q1 tq_more[OF _ tq_send[OF f]] by simp
    show ?thesis
    proof (cases "fst (enqueue_send f q1)")
      case (Some e)
      then show ?thesis using s q1 by (cases "enqueue_send f q1") (simp add: Enqueue_def)
    next
      case None
      then obtain q2 where q2: "enqueue_send f q1 = (None, q2)" by (metis prod.collapse)
      then have "tqAdding q2 > 0" by (auto simp: enqueue_send_def Let_def split: if_splits)
      then show ?thesis using s q1 q2 tq_more[OF _ tq_add] by (simp add: Enqueue_def)
    qed
  qed
qed

lemma drain_run: "tq_run q (drain done q)"
  by (rule tq_more[OF tq_here tq_drain])

lemma Enqueue_result:
  "Enqueue f q =
    (if tqStopped q then (Some KissDown, q\<lparr>tqDrops := tqDrops q @ [''down'']\<rparr>)
     else if length (tqCh q) < instanceTxQueueDepth
     then (None, q\<lparr>tqPassed := remove1 f (tqPassed q @ [f]), tqCh := tqCh q @ [f], tqAccepted := tqAccepted q @ [f], tqDepth := tqDepth q + 1\<rparr>)
     else (Some KissBusy, q\<lparr>tqPassed := remove1 f (tqPassed q @ [f]), tqDrops := tqDrops q @ [''busy'']\<rparr>))"
  by (simp add: Enqueue_def enqueue_test_def enqueue_send_def enqueue_add_def Let_def)

text \<open>A writer left alone empties the channel: three steps for each frame.\<close>

lemma drain_frame:
  "tqWriter q = Waiting \<Longrightarrow> tqCh q = f # fs \<Longrightarrow>
    drain False (drain False (drain False q)) = q\<lparr>tqCh := fs, tqOut := tqOut q @ [txData f], tqDepth := tqDepth q - 1\<rparr>"
  by (simp add: drain_def)

lemma drain_all:
  "tqWriter q = Waiting \<Longrightarrow>
    (drain False ^^ (3 * length (tqCh q))) q
      = q\<lparr>tqCh := [], tqOut := tqOut q @ map txData (tqCh q), tqDepth := tqDepth q - int (length (tqCh q))\<rparr>"
proof (induction "tqCh q" arbitrary: q)
  case (Cons f fs)
  let ?q = "q\<lparr>tqCh := fs, tqOut := tqOut q @ [txData f], tqDepth := tqDepth q - 1\<rparr>"
  have "(drain False ^^ (3 * length (f # fs))) q = (drain False ^^ (3 * length fs)) (drain False (drain False (drain False q)))"
    by (simp add: funpow_swap1 eval_nat_numeral)
  also have "\<dots> = (drain False ^^ (3 * length fs)) ?q" by (simp only: drain_frame[OF Cons.prems Cons.hyps(2)[symmetric]])
  also have "\<dots> = ?q\<lparr>tqCh := [], tqOut := tqOut ?q @ map txData fs, tqDepth := tqDepth ?q - int (length fs)\<rparr>"
    using Cons.hyps(1)[of ?q] Cons.prems by simp
  finally show ?case by (simp add: Cons.hyps(2)[symmetric])
qed simp

section \<open>Properties\<close>

text \<open>
  Property C16. Under every interleaving the interface transmits the accepted frames in the order
  of their acceptance, each once: what has been broadcast, then what the writer holds, then the
  channel make up exactly the accepted frames; at most 16 wait; and the depth gauge is off by
  no more than the calls still between their channel operation and its update.
\<close>

theorem kiss_queue_fifo:
  assumes "tq_run newInstanceTxQueue q"
  shows "(\<exists>sent. tqAccepted q = sent @ in_hand (tqWriter q) @ tqCh q \<and> tqOut q = map txData sent)
    \<and> length (tqCh q) \<le> 16 \<and> Depth q + int (tqAdding q) = int (length (tqCh q)) + owed (tqWriter q)"
  using tq_run_inv[OF assms] by (simp add: tq_inv_def instanceTxQueueDepth_def Depth_def)

definition ping :: tx_frame where
  "ping = \<lparr>txData = [1], txFrameID = 1\<rparr>"

definition pong :: tx_frame where
  "pong = \<lparr>txData = [2], txFrameID = 2\<rparr>"

theorem kiss_queue_fifo_witness:
  "let q = drain False (drain False (snd (Enqueue pong (snd (Enqueue ping newInstanceTxQueue)))))
   in tqAccepted q = [ping, pong] \<and> in_hand (tqWriter q) @ tqCh q = [ping, pong]"
proof -
  let ?q = "drain False (drain False (snd (Enqueue pong (snd (Enqueue ping newInstanceTxQueue)))))"
  have "tq_run newInstanceTxQueue ?q"
    by (meson Enqueue_run drain_run tq_run_trans)
  from kiss_queue_fifo[OF this] have "\<exists>sent. tqAccepted ?q = sent @ in_hand (tqWriter ?q) @ tqCh ?q \<and> tqOut ?q = map txData sent"
    by blast
  moreover have "tqOut ?q = []" "tqAccepted ?q = [ping, pong]" by code_simp+
  ultimately show ?thesis by simp
qed

text \<open>
  A queue whose context was cancelled without \<^verbatim>\<open>Close\<close>, the way a serial interface
  is stopped, goes on accepting frames with no error until its channel is full, and none of them
  is ever transmitted.
\<close>

theorem cancelled_queue_swallows:
  assumes "tqWriter q = Exited" "\<not> tqStopped q" "length (tqCh q) < 16"
  shows "fst (Enqueue f q) = None \<and> (\<forall>q'. tq_run (snd (Enqueue f q)) q' \<longrightarrow> tqOut q' = tqOut q \<and> tqDrops (snd (Enqueue f q)) = tqDrops q)"
proof -
  have E: "Enqueue f q = (None, q\<lparr>tqPassed := remove1 f (tqPassed q @ [f]), tqCh := tqCh q @ [f],
      tqAccepted := tqAccepted q @ [f], tqDepth := tqDepth q + 1\<rparr>)"
    using assms by (simp add: Enqueue_result instanceTxQueueDepth_def)
  then have "tqWriter (snd (Enqueue f q)) = Exited" "tqOut (snd (Enqueue f q)) = tqOut q" "tqDrops (snd (Enqueue f q)) = tqDrops q"
    using assms(1) by simp_all
  then show ?thesis using E exited_run by fastforce
qed

definition serial_stopped :: tx_queue where
  "serial_stopped = drain True (cancel_ctx newInstanceTxQueue)"

theorem cancelled_queue_swallows_witness:
  "tq_run newInstanceTxQueue serial_stopped \<and> fst (Enqueue ping serial_stopped) = None"
proof
  show "tq_run newInstanceTxQueue serial_stopped"
    unfolding serial_stopped_def by (rule tq_more[OF tq_more[OF tq_here tq_cancel] tq_drain])
  have "tqWriter serial_stopped = Exited" "\<not> tqStopped serial_stopped" "length (tqCh serial_stopped) < 16" by code_simp+
  from cancelled_queue_swallows[OF this] show "fst (Enqueue ping serial_stopped) = None" by blast
qed

end
