(* ===== verification/TX_Dispatch.thy ===== *)
theory TX_Dispatch
  imports KISS_Queue TX_Governor
begin

text \<open>
  The dispatcher between the governor and the radios (\<^verbatim>\<open>pkg/app/txbackend\<close>): the snapshot
  of the backends of every channel, and \<^verbatim>\<open>Send\<close>, which hands a frame to each of them. A KISS
  backend is the transmit queue of its interface; the modem's answer is an argument.
\<close>

section \<open>Backends and snapshots\<close>

datatype backend = ModemBackend "nat list" | KissTncBackend nat nat

fun backend_Name :: "backend \<Rightarrow> string" where
  "backend_Name (ModemBackend _) = ''modem''"
| "backend_Name (KissTncBackend _ _) = ''kiss''"

fun InstanceID :: "backend \<Rightarrow> string" where
  "InstanceID (ModemBackend _) = ''modem''"
| "InstanceID (KissTncBackend interfaceID _) = ''kiss-'' @ dec_string interfaceID"

fun AttachedChannels :: "backend \<Rightarrow> nat list" where
  "AttachedChannels (ModemBackend channels) = channels"
| "AttachedChannels (KissTncBackend _ channel) = [channel]"

text \<open>A channel that is missing in a map of the code is one without backends, and one without the mark.\<close>

record snapshot =
  snByChannel :: "nat \<Rightarrow> backend list"
  snCsmaSkip :: "nat \<Rightarrow> bool"

definition newSnapshot :: snapshot where
  "newSnapshot = \<lparr>snByChannel = (\<lambda>_. []), snCsmaSkip = (\<lambda>_. False)\<rparr>"

definition attach :: "backend \<Rightarrow> nat \<Rightarrow> snapshot \<Rightarrow> snapshot" where
  "attach b ch sn = sn\<lparr>snByChannel := (snByChannel sn)(ch := snByChannel sn ch @ [b])\<rparr>"

definition BuildSnapshot :: "backend option \<Rightarrow> nat list \<Rightarrow> backend option list \<Rightarrow> snapshot" where
  "BuildSnapshot modem modemChannels kissBackends =
     (let hasModem = (\<lambda>ch. modem \<noteq> None \<and> ch \<in> set modemChannels);
          sn = (case modem of None \<Rightarrow> newSnapshot | Some m \<Rightarrow> fold (attach m) modemChannels newSnapshot);
          sn = fold (\<lambda>kb sn. case kb of None \<Rightarrow> sn | Some b \<Rightarrow> fold (attach b) (AttachedChannels b) sn) kissBackends sn
      in sn\<lparr>snCsmaSkip := (\<lambda>ch. \<not> hasModem ch \<and> length (snByChannel sn ch) > 0)\<rparr>)"

record dispatcher =
  dpSnap :: snapshot
  dpClosed :: bool
  dpOnChannelTx :: bool

definition New_dispatcher :: "bool \<Rightarrow> dispatcher" where
  "New_dispatcher hook = \<lparr>dpSnap = newSnapshot, dpClosed = False, dpOnChannelTx = hook\<rparr>"

definition Publish :: "snapshot option \<Rightarrow> dispatcher \<Rightarrow> dispatcher" where
  "Publish s d = d\<lparr>dpSnap := (case s of None \<Rightarrow> newSnapshot | Some sn \<Rightarrow> sn)\<rparr>"

definition SkipCSMA :: "dispatcher \<Rightarrow> nat \<Rightarrow> bool" where
  "SkipCSMA d channel = snCsmaSkip (dpSnap d) channel"

definition StopAccepting :: "dispatcher \<Rightarrow> dispatcher" where
  "StopAccepting d = d\<lparr>dpClosed := True\<rparr>"

section \<open>Sending\<close>

text \<open>The two sentinels of this package are other values than those of the queue.\<close>

datatype backend_err = BackendBusy | BackendDown | FromQueue queue_err | Transport

fun classifyOutcome :: "backend_err option \<Rightarrow> string" where
  "classifyOutcome None = ''ok''"
| "classifyOutcome (Some BackendBusy) = ''backend_busy''"
| "classifyOutcome (Some BackendDown) = ''backend_down''"
| "classifyOutcome (Some (FromQueue _)) = ''err''"
| "classifyOutcome (Some Transport) = ''err''"

datatype send_result = SendOK | SendNilFrame | SendStopped | SendNoBackend | SendFailed "(string \<times> string \<times> backend_err) list"

datatype tx_metric = CountNoBackend nat | CountFrame nat | CountChannelTx nat | CountSubmit nat string string string

text \<open>The queues of the interfaces and the frames handed to the modem.\<close>

record tx_world =
  twQueues :: "nat \<Rightarrow> tx_queue"
  twModem :: "transmit_frame list"

definition queue_frame :: "transmit_frame \<Rightarrow> tx_frame" where
  "queue_frame tf = \<lparr>txData = tfData tf, txFrameID = tfFrameId tf\<rparr>"

fun backend_Submit :: "backend_err option \<Rightarrow> backend \<Rightarrow> transmit_frame \<Rightarrow> tx_world \<Rightarrow> backend_err option \<times> tx_world" where
  "backend_Submit modem_err (ModemBackend _) tf w = (modem_err, w\<lparr>twModem := twModem w @ [tf]\<rparr>)"
| "backend_Submit modem_err (KissTncBackend i _) tf w =
     (let (e, q) = Enqueue (queue_frame tf) (twQueues w i)
      in (map_option FromQueue e, w\<lparr>twQueues := (twQueues w)(i := q)\<rparr>))"

fun fan_out ::
    "backend_err option \<Rightarrow> transmit_frame \<Rightarrow> backend list \<Rightarrow> tx_world
      \<Rightarrow> nat \<times> (string \<times> string \<times> backend_err) list \<times> tx_metric list \<times> tx_world" where
  "fan_out me tf [] w = (0, [], [], w)"
| "fan_out me tf (b # bs) w =
     (let (err, w) = backend_Submit me b tf w;
          (accepted, errs, ms, w) = fan_out me tf bs w;
          m = CountSubmit (tfChannel tf) (backend_Name b) (InstanceID b) (classifyOutcome err)
      in case err of
           None \<Rightarrow> (accepted + 1, errs, m # ms, w)
         | Some e \<Rightarrow> (accepted, (backend_Name b, InstanceID b, e) # errs, m # ms, w))"

definition Send ::
    "backend_err option \<Rightarrow> transmit_frame option \<Rightarrow> dispatcher \<Rightarrow> tx_world \<Rightarrow> send_result \<times> tx_metric list \<times> tx_world" where
  "Send me tfo d w =
     (case tfo of
        None \<Rightarrow> (SendNilFrame, [], w)
      | Some tf \<Rightarrow>
          if dpClosed d then (SendStopped, [], w)
          else
            let backends = snByChannel (dpSnap d) (tfChannel tf) in
            if length backends = 0 then (SendNoBackend, [CountNoBackend (tfChannel tf)], w)
            else
              let pre = CountFrame (tfChannel tf)
                    # (if dpOnChannelTx d \<and> list_ex (\<lambda>b. backend_Name b = ''kiss'') backends then [CountChannelTx (tfChannel tf)] else []);
                  (accepted, errs, ms, w) = fan_out me tf backends w
              in (if accepted > 0 then SendOK else if length errs = 0 then SendNoBackend else SendFailed errs, pre @ ms, w))"

section \<open>Snapshots\<close>

lemma attach_fold:
  "snByChannel (fold (attach b) chs sn) ch = snByChannel sn ch @ replicate (count_list chs ch) b"
  by (induction chs arbitrary: sn) (auto simp: attach_def replicate_append_same)

lemma kiss_fold:
  "snByChannel (fold (\<lambda>kb sn. case kb of None \<Rightarrow> sn | Some b \<Rightarrow> fold (attach b) (AttachedChannels b) sn) kbs sn) ch
    = snByChannel sn ch @ concat (map (\<lambda>kb. case kb of None \<Rightarrow> [] | Some b \<Rightarrow> replicate (count_list (AttachedChannels b) ch) b) kbs)"
  by (induction kbs arbitrary: sn) (auto simp: attach_fold split: option.split)

definition kiss_on :: "nat \<Rightarrow> backend option list \<Rightarrow> backend list" where
  "kiss_on ch kbs = concat (map (\<lambda>kb. case kb of None \<Rightarrow> [] | Some b \<Rightarrow> replicate (count_list (AttachedChannels b) ch) b) kbs)"

lemma BuildSnapshot_channels:
  "snByChannel (BuildSnapshot modem chs kbs) ch
    = (case modem of None \<Rightarrow> [] | Some m \<Rightarrow> replicate (count_list chs ch) m) @ kiss_on ch kbs"
  by (simp add: BuildSnapshot_def Let_def kiss_fold attach_fold newSnapshot_def kiss_on_def split: option.split)

section \<open>Properties\<close>

text \<open>
  A rebuilt snapshot gives every channel the modem once per entry of the modem's channel
  list, then its KISS interfaces in order, and the carrier-sense bypass is set exactly for the
  channels that have backends and no modem.
\<close>

theorem snapshot_routes:
  fixes modem :: "backend option"
  shows "snByChannel (BuildSnapshot modem chs kbs) ch
      = (case modem of None \<Rightarrow> [] | Some m \<Rightarrow> replicate (count_list chs ch) m) @ kiss_on ch kbs
    \<and> (SkipCSMA (Publish (Some (BuildSnapshot modem chs kbs)) d) ch
      \<longleftrightarrow> snByChannel (BuildSnapshot modem chs kbs) ch \<noteq> [] \<and> \<not> (modem \<noteq> None \<and> ch \<in> set chs))"
proof
  show "snByChannel (BuildSnapshot modem chs kbs) ch
      = (case modem of None \<Rightarrow> [] | Some m \<Rightarrow> replicate (count_list chs ch) m) @ kiss_on ch kbs"
    by (rule BuildSnapshot_channels)
  have "snCsmaSkip (BuildSnapshot modem chs kbs) ch
      \<longleftrightarrow> snByChannel (BuildSnapshot modem chs kbs) ch \<noteq> [] \<and> \<not> (modem \<noteq> None \<and> ch \<in> set chs)"
    by (auto simp: BuildSnapshot_def Let_def)
  then show "SkipCSMA (Publish (Some (BuildSnapshot modem chs kbs)) d) ch
      \<longleftrightarrow> snByChannel (BuildSnapshot modem chs kbs) ch \<noteq> [] \<and> \<not> (modem \<noteq> None \<and> ch \<in> set chs)"
    by (simp add: SkipCSMA_def Publish_def)
qed

text \<open>What one pass over the backends does to each queue and to the modem.\<close>

lemma fan_out_queue:
  assumes "fan_out me tf bs w = (n, errs, ms, w')"
  shows "twQueues w' i = ((\<lambda>q. snd (Enqueue (queue_frame tf) q)) ^^ length (filter (\<lambda>b. \<exists>c. b = KissTncBackend i c) bs)) (twQueues w i)"
  using assms
proof (induction bs arbitrary: w n errs ms w')
  case (Cons b bs)
  obtain err w1 where S: "backend_Submit me b tf w = (err, w1)" by fastforce
  obtain n1 errs1 ms1 w2 where F: "fan_out me tf bs w1 = (n1, errs1, ms1, w2)" by (metis prod_cases4)
  have w': "w' = w2" using Cons.prems S F by (auto simp: Let_def split: option.splits)
  show ?case
    using Cons.IH[OF F] S unfolding w'
    by (cases b) (auto simp: Let_def funpow_swap1[of "\<lambda>q. snd (Enqueue (queue_frame tf) q)"] split: prod.splits)
qed simp

lemma fan_out_modem:
  "fan_out me tf bs w = (n, errs, ms, w') \<Longrightarrow>
    twModem w' = twModem w @ replicate (length (filter (\<lambda>b. \<exists>c. b = ModemBackend c) bs)) tf"
proof (induction bs arbitrary: w n errs ms w')
  case (Cons b bs)
  obtain err w1 where S: "backend_Submit me b tf w = (err, w1)" by fastforce
  obtain n1 errs1 ms1 w2 where F: "fan_out me tf bs w1 = (n1, errs1, ms1, w2)" by (metis prod_cases4)
  have w': "w' = w2" using Cons.prems S F by (auto simp: Let_def split: option.splits)
  show ?case using Cons.IH[OF F] S unfolding w' by (cases b) (auto simp: Let_def split: prod.splits)
qed simp

lemma fan_out_count: "fan_out me tf bs w = (n, errs, ms, w') \<Longrightarrow> n + length errs = length bs"
  by (induction bs arbitrary: w n errs ms w') (auto simp: Let_def split: option.splits prod.splits)

text \<open>
  A frame for a channel with backends is handed to every one of them exactly once, a
  refusal by one not keeping it from the others, and the answer is success exactly when one of
  them took it: with the interfaces distinct, the queue of each is extended by its own \<^const>\<open>Enqueue\<close>,
  the other queues are untouched, and the modem gets the frame as often as it is listed.
\<close>

theorem dispatch_reaches_every_backend:
  assumes "Send me (Some tf) d w = (res, ms, w')" "\<not> dpClosed d" "bs = snByChannel (dpSnap d) (tfChannel tf)" "bs \<noteq> []"
    "\<forall>i. length (filter (\<lambda>b. \<exists>c. b = KissTncBackend i c) bs) \<le> 1"
  shows "(\<forall>i. twQueues w' i = (if \<exists>c. KissTncBackend i c \<in> set bs then snd (Enqueue (queue_frame tf) (twQueues w i)) else twQueues w i))
    \<and> twModem w' = twModem w @ replicate (length (filter (\<lambda>b. \<exists>c. b = ModemBackend c) bs)) tf
    \<and> (\<exists>n errs mt. fan_out me tf bs w = (n, errs, mt, w') \<and> n + length errs = length bs \<and> (res = SendOK \<longleftrightarrow> 0 < n))"
proof -
  obtain n errs mt w1 where F: "fan_out me tf bs w = (n, errs, mt, w1)" by (metis prod_cases4)
  have w1: "w1 = w'" and res: "res = (if n > 0 then SendOK else if length errs = 0 then SendNoBackend else SendFailed errs)"
    using assms(1-4) F by (auto simp: Send_def Let_def split: if_splits)
  note F = F[unfolded w1]
  have "twQueues w' i = (if \<exists>c. KissTncBackend i c \<in> set bs then snd (Enqueue (queue_frame tf) (twQueues w i)) else twQueues w i)" for i
  proof (cases "\<exists>c. KissTncBackend i c \<in> set bs")
    case True
    then have "filter (\<lambda>b. \<exists>c. b = KissTncBackend i c) bs \<noteq> []" by (auto simp: filter_empty_conv)
    then have "length (filter (\<lambda>b. \<exists>c. b = KissTncBackend i c) bs) = Suc 0"
      using assms(5)[rule_format, of i] by (cases "filter (\<lambda>b. \<exists>c. b = KissTncBackend i c) bs") auto
    then show ?thesis using fan_out_queue[OF F, of i] True by simp
  next
    case False
    then have "filter (\<lambda>b. \<exists>c. b = KissTncBackend i c) bs = []" by (auto simp: filter_empty_conv)
    then show ?thesis using fan_out_queue[OF F, of i] False by simp
  qed
  then show ?thesis using fan_out_modem[OF F] fan_out_count[OF F] res F by auto
qed

text \<open>
  The outcome counted for a KISS interface is ``ok'' or ``err'' and never
  ``backend_busy'' or ``backend_down'': the queue reports a full or stopped queue with the sentinels of
  its own package, and the classification looks for the dispatcher's.
\<close>

theorem kiss_refusals_misclassified:
  assumes "fan_out me tf bs w = (n, errs, ms, w')" "list_all (\<lambda>b. backend_Name b = ''kiss'') bs"
  shows "list_all (\<lambda>m. \<exists>ch k i out. m = CountSubmit ch k i out \<and> out \<in> {''ok'', ''err''}) ms"
  using assms
proof (induction bs arbitrary: w n errs ms w')
  case (Cons b bs)
  obtain i c where b: "b = KissTncBackend i c" using Cons.prems(2) by (cases b) auto
  obtain err w1 where S: "backend_Submit me b tf w = (err, w1)" by fastforce
  obtain n1 errs1 ms1 w2 where F: "fan_out me tf bs w1 = (n1, errs1, ms1, w2)" by (metis prod_cases4)
  have "err = None \<or> (\<exists>e. err = Some (FromQueue e))" using S by (auto simp: b split: prod.splits)
  moreover have "ms = CountSubmit (tfChannel tf) (backend_Name b) (InstanceID b) (classifyOutcome err) # ms1"
    using Cons.prems(1) S F by (auto simp: Let_def split: option.splits)
  ultimately show ?case using Cons.IH[OF F] Cons.prems(2) by auto
qed simp

section \<open>Witnesses\<close>

definition example_tf :: transmit_frame where
  "example_tf = \<lparr>tfChannel = 2, tfData = [1, 2], tfPriority = 3, tfFrameId = 5\<rparr>"

text \<open>Interface 4 is stopped, interface 5 is live.\<close>

definition example_world :: tx_world where
  "example_world = \<lparr>twQueues = (\<lambda>i. if i = 4 then snd (close_swap newInstanceTxQueue) else newInstanceTxQueue), twModem = []\<rparr>"

definition example_dispatcher :: dispatcher where
  "example_dispatcher =
     Publish (Some (BuildSnapshot (Some (ModemBackend [1])) [1] [Some (KissTncBackend 4 2), None, Some (KissTncBackend 5 2)]))
       (New_dispatcher True)"

theorem dispatch_reaches_every_backend_witness:
  "tqCh (twQueues (snd (snd (Send None (Some example_tf) example_dispatcher example_world))) 5) = [queue_frame example_tf]"
proof -
  let ?r = "Send None (Some example_tf) example_dispatcher example_world"
  let ?bs = "[KissTncBackend 4 2, KissTncBackend 5 2]"
  have bs: "?bs = snByChannel (dpSnap example_dispatcher) (tfChannel example_tf)" by code_simp
  have closed: "\<not> dpClosed example_dispatcher" by code_simp
  have r: "Send None (Some example_tf) example_dispatcher example_world = (fst ?r, fst (snd ?r), snd (snd ?r))" by simp
  have "\<forall>i. length (filter (\<lambda>b. \<exists>c. b = KissTncBackend i c) ?bs) \<le> 1" by auto
  from dispatch_reaches_every_backend[OF r closed bs _ this]
  have "twQueues (snd (snd ?r)) 5 = snd (Enqueue (queue_frame example_tf) (twQueues example_world 5))" by auto
  also have "tqCh \<dots> = [queue_frame example_tf]"
    by (simp add: Enqueue_result example_world_def newInstanceTxQueue_def instanceTxQueueDepth_def)
  finally show ?thesis .
qed

theorem kiss_refusals_misclassified_witness:
  "fst (snd (snd (fan_out None example_tf [KissTncBackend 4 2] example_world))) = [CountSubmit 2 ''kiss'' ''kiss-4'' ''err'']"
proof -
  obtain n errs ms w' where F: "fan_out None example_tf [KissTncBackend 4 2] example_world = (n, errs, ms, w')" by (metis prod_cases4)
  have "list_all (\<lambda>b. backend_Name b = ''kiss'') [KissTncBackend 4 2]" by simp
  from kiss_refusals_misclassified[OF F this]
  have "list_all (\<lambda>m. \<exists>ch k i out. m = CountSubmit ch k i out \<and> out \<in> {''ok'', ''err''}) ms" .
  moreover have "dec_string 4 = ''4''" by code_simp
  moreover have "n = 0"
    using F by (auto simp: Enqueue_result example_world_def close_swap_def newInstanceTxQueue_def)
  ultimately show ?thesis
    using F by (auto simp: Enqueue_result example_world_def close_swap_def newInstanceTxQueue_def example_tf_def)
qed

end
