(* ===== verification/KISS_Framing.thy ===== *)
theory KISS_Framing
  imports Codec
begin

text \<open>
  KISS framing (\<^verbatim>\<open>pkg/kiss/framing.go\<close>): the encoder with its escapes and the stream
  decoder with its initial synchronisation. The reader is the list of bytes still to come; its
  end is \<^verbatim>\<open>io.EOF\<close>. The decoder's state is its configuration and whether it has seen a
  delimiter.
\<close>

section \<open>Constants and data\<close>

definition FEND :: u8 where "FEND = 0xC0"
definition FESC :: u8 where "FESC = 0xDB"
definition TFEND :: u8 where "TFEND = 0xDC"
definition TFESC :: u8 where "TFESC = 0xDD"

definition CmdDataFrame :: u8 where "CmdDataFrame = 0x00"

record kiss_frame =
  kfPort :: u8
  kfCommand :: u8
  kfData :: bytes

datatype kiss_err = ErrEOF | ErrInvalidEscape | ErrTooLarge nat

record kiss_decoder =
  kdIn :: bytes
  kdMaxFrame :: int
  kdSynced :: bool

section \<open>Encoding\<close>

definition escape_byte :: "u8 \<Rightarrow> bytes" where
  "escape_byte b = (if b = FEND then [FESC, TFEND] else if b = FESC then [FESC, TFESC] else [b])"

definition type_byte :: "u8 \<Rightarrow> u8 \<Rightarrow> u8" where
  "type_byte port cmd = push_bit 4 port OR (cmd AND 0x0F)"

definition EncodeCommand :: "u8 \<Rightarrow> u8 \<Rightarrow> bytes \<Rightarrow> bytes" where
  "EncodeCommand port cmd data =
     [FEND, type_byte port cmd] @ concat (map escape_byte data) @ [FEND]"

definition kiss_Encode :: "u8 \<Rightarrow> bytes \<Rightarrow> bytes" where
  "kiss_Encode port data = EncodeCommand port CmdDataFrame data"

section \<open>Decoding\<close>

definition NewDecoder :: "bytes \<Rightarrow> kiss_decoder" where
  "NewDecoder inp = \<lparr>kdIn = inp, kdMaxFrame = 4096, kdSynced = False\<rparr>"

text \<open>The bytes after the first delimiter.\<close>

fun sync_in :: "bytes \<Rightarrow> bytes option" where
  "sync_in [] = None"
| "sync_in (b # bs) = (if b = FEND then Some bs else sync_in bs)"

definition too_large :: "int \<Rightarrow> nat \<Rightarrow> int \<Rightarrow> bool" where
  "too_large limit n slack \<longleftrightarrow> limit > 0 \<and> int n > limit + slack"

definition frame_of :: "bytes \<Rightarrow> kiss_frame" where
  "frame_of buf = \<lparr>kfPort = drop_bit 4 (hd buf), kfCommand = hd buf AND 0x0F, kfData = tl buf\<rparr>"

text \<open>The read loop: the buffer so far and the bytes to come.\<close>

fun read_frame :: "int \<Rightarrow> bytes \<Rightarrow> bytes \<Rightarrow> (kiss_err + kiss_frame) \<times> bytes" where
  "read_frame limit buf [] = (Inl ErrEOF, [])"
| "read_frame limit buf (b # bs) =
     (if b = FEND then
        (if buf = [] then read_frame limit buf bs
         else if too_large limit (length buf) 0 then (Inl (ErrTooLarge (length buf)), bs)
         else (Inr (frame_of buf), bs))
      else if b = FESC then
        (case bs of
           [] \<Rightarrow> (Inl ErrEOF, [])
         | c # cs \<Rightarrow>
             (if c = TFEND \<or> c = TFESC then
                let buf' = buf @ [if c = TFEND then FEND else FESC]
                in if too_large limit (length buf') 1 then (Inl (ErrTooLarge (length buf')), cs)
                   else read_frame limit buf' cs
              else (Inl ErrInvalidEscape, cs)))
      else
        let buf' = buf @ [b]
        in if too_large limit (length buf') 1 then (Inl (ErrTooLarge (length buf')), bs)
           else read_frame limit buf' bs)"

definition kiss_Next :: "kiss_decoder \<Rightarrow> (kiss_err + kiss_frame) \<times> kiss_decoder" where
  "kiss_Next d =
     (if \<not> kdSynced d then
        (case sync_in (kdIn d) of
           None \<Rightarrow> (Inl ErrEOF, d\<lparr>kdIn := []\<rparr>)
         | Some bs \<Rightarrow>
             let (res, rest) = read_frame (kdMaxFrame d) [] bs
             in (res, d\<lparr>kdSynced := True, kdIn := rest\<rparr>))
      else
        let (res, rest) = read_frame (kdMaxFrame d) [] (kdIn d)
        in (res, d\<lparr>kdIn := rest\<rparr>))"

section \<open>Reading back what was written\<close>

lemma kiss_codes [simp]: "FESC \<noteq> FEND" "TFEND \<noteq> FEND" "TFESC \<noteq> FEND" "TFEND \<noteq> FESC" "TFESC \<noteq> FESC" "TFESC \<noteq> TFEND"
  "FEND \<noteq> FESC" "FEND \<noteq> TFEND" "FEND \<noteq> TFESC"
  by (simp_all add: FEND_def FESC_def TFEND_def TFESC_def)

text \<open>Escaped payload bytes extend the buffer, up to the limit.\<close>

lemma read_frame_escaped:
  assumes "limit \<le> 0 \<or> int (length buf + length data) \<le> limit + 1"
  shows "read_frame limit buf (concat (map escape_byte data) @ rest) = read_frame limit (buf @ data) rest"
  using assms
proof (induction data arbitrary: buf)
  case (Cons b data)
  have room: "\<not> too_large limit (length (buf @ [c])) 1" for c using Cons.prems by (auto simp: too_large_def)
  have "read_frame limit buf (escape_byte b @ r) = read_frame limit (buf @ [b]) r" for r
    using room by (auto simp: escape_byte_def Let_def)
  then show ?case using Cons.IH[of "buf @ [b]"] Cons.prems by simp
qed simp

text \<open>A frame that survives: its type byte is no delimiter and no escape, its payload fits.\<close>

definition wf_kiss :: "int \<Rightarrow> kiss_frame \<Rightarrow> bool" where
  "wf_kiss limit f \<longleftrightarrow> kfPort f < 16 \<and> kfCommand f < 16 \<and> type_byte (kfPort f) (kfCommand f) \<notin> {FEND, FESC}
     \<and> (limit \<le> 0 \<or> int (length (kfData f)) < limit)"

definition put_frame :: "kiss_frame \<Rightarrow> bytes" where
  "put_frame f = EncodeCommand (kfPort f) (kfCommand f) (kfData f)"

lemma type_byte_fields:
  assumes "port < 16" "cmd < 16"
  shows "drop_bit 4 (type_byte port cmd) = port" "type_byte port cmd AND 0x0F = cmd"
proof -
  have "list_all (\<lambda>p. list_all (\<lambda>c. drop_bit 4 (type_byte p c) = p \<and> type_byte p c AND 0x0F = c) (map of_nat [0..<16]))
      (map of_nat [0..<16])" by code_simp
  moreover have small: "w \<in> set (map of_nat [0..<16])" if "w < (16::u8)" for w
  proof -
    have "unat w < 16" using that by (simp add: word_less_nat_alt)
    moreover have "w = of_nat (unat w)" by simp
    ultimately show ?thesis by (metis atLeastLessThan_iff image_eqI set_map set_upt zero_le)
  qed
  ultimately show "drop_bit 4 (type_byte port cmd) = port" "type_byte port cmd AND 0x0F = cmd"
    using small[OF assms(1)] small[OF assms(2)] unfolding list_all_iff by blast+
qed

lemma frame_of_type: "kfPort f < 16 \<Longrightarrow> kfCommand f < 16 \<Longrightarrow> frame_of (type_byte (kfPort f) (kfCommand f) # kfData f) = f"
  by (simp add: frame_of_def type_byte_fields)

lemma read_frame_put:
  assumes "wf_kiss limit f" shows "read_frame limit [] (put_frame f @ rest) = (Inr f, rest)"
proof -
  let ?t = "type_byte (kfPort f) (kfCommand f)"
  have t: "?t \<noteq> FEND" "?t \<noteq> FESC" and fit: "limit \<le> 0 \<or> int (length (kfData f)) < limit"
    using assms by (simp_all add: wf_kiss_def)
  have "read_frame limit [] (put_frame f @ rest) = read_frame limit [?t] (concat (map escape_byte (kfData f)) @ FEND # rest)"
    using t fit by (auto simp: put_frame_def EncodeCommand_def too_large_def)
  also have "\<dots> = read_frame limit ([?t] @ kfData f) (FEND # rest)"
    using fit by (intro read_frame_escaped) auto
  also have "\<dots> = (Inr f, rest)"
    using fit frame_of_type[of f] assms by (auto simp: too_large_def wf_kiss_def)
  finally show ?thesis .
qed

definition get_frame :: "int \<Rightarrow> bytes \<Rightarrow> (kiss_frame \<times> bytes) option" where
  "get_frame limit s = (case read_frame limit [] s of (Inr f, rest) \<Rightarrow> Some (f, rest) | _ \<Rightarrow> None)"

interpretation kiss: stream_codec "wf_kiss limit" put_frame "get_frame limit"
  by standard (simp add: get_frame_def read_frame_put)

section \<open>Properties\<close>

fun next_frames :: "nat \<Rightarrow> kiss_decoder \<Rightarrow> (kiss_err + kiss_frame) list" where
  "next_frames 0 d = []"
| "next_frames (Suc n) d = (let (r, d') = kiss_Next d in r # next_frames n d')"

lemma next_synced:
  assumes "wf_kiss (kdMaxFrame d) f" "kdSynced d" "kdIn d = put_frame f @ rest"
  shows "kiss_Next d = (Inr f, d\<lparr>kdIn := rest\<rparr>)"
  using assms by (simp add: kiss_Next_def read_frame_put)

lemma sync_in_banner: "FEND \<notin> set banner \<Longrightarrow> sync_in (banner @ FEND # rest) = Some rest"
  by (induction banner) auto

lemma next_frames_synced:
  "list_all (wf_kiss (kdMaxFrame d)) fs \<Longrightarrow> kdSynced d \<Longrightarrow> kdIn d = concat (map put_frame fs)
    \<Longrightarrow> next_frames (length fs + 1) d = map Inr fs @ [Inl ErrEOF]"
proof (induction fs arbitrary: d)
  case (Cons f fs)
  then show ?case
    using next_synced[of d f "concat (map put_frame fs)"] Cons.IH[of "d\<lparr>kdIn := concat (map put_frame fs)\<rparr>"] by simp
qed (simp add: kiss_Next_def)

lemma next_unsynced:
  assumes "FEND \<notin> set banner" "kdIn d = banner @ put_frame f @ rest" "\<not> kdSynced d" "wf_kiss (kdMaxFrame d) f"
  shows "kiss_Next d = (Inr f, d\<lparr>kdSynced := True, kdIn := rest\<rparr>)"
proof -
  obtain body where b: "put_frame f = FEND # body" by (simp add: put_frame_def EncodeCommand_def)
  have "read_frame (kdMaxFrame d) [] (FEND # body @ rest) = (Inr f, rest)"
    using read_frame_put[OF assms(4), of rest] by (simp add: b)
  then have "read_frame (kdMaxFrame d) [] (body @ rest) = (Inr f, rest)" by simp
  then show ?thesis using assms by (simp add: kiss_Next_def b sync_in_banner)
qed

text \<open>
  Property C14. What is written is read: after an arbitrary banner without a delimiter, a
  stream of encoded frames decodes to exactly those frames, then the end of the stream,
  provided that no frame has the delimiter or the escape for its type byte (data for port 12,
  command 11 on port 13) and every payload is shorter than 4096 bytes. What data for port 12
  decodes to instead is \<open>kiss_port12_misframed\<close>.
\<close>

theorem kiss_stream_roundtrip:
  assumes "FEND \<notin> set banner" "fs \<noteq> []" "list_all (wf_kiss 4096) fs"
  shows "next_frames (length fs + 1) (NewDecoder (banner @ concat (map put_frame fs))) = map Inr fs @ [Inl ErrEOF]"
proof -
  obtain f gs where fs: "fs = f # gs" using assms(2) by (cases fs) auto
  let ?d = "NewDecoder (banner @ concat (map put_frame fs))"
  have "kiss_Next ?d = (Inr f, ?d\<lparr>kdSynced := True, kdIn := concat (map put_frame gs)\<rparr>)"
    using assms by (intro next_unsynced[where banner = banner]) (simp_all add: NewDecoder_def fs)
  then show ?thesis
    using next_frames_synced[of "?d\<lparr>kdSynced := True, kdIn := concat (map put_frame gs)\<rparr>" gs] assms(3)
    by (simp add: fs NewDecoder_def)
qed

text \<open>A data frame that starts with a delimiter byte, and a command.\<close>

definition example_kiss :: "kiss_frame list" where
  "example_kiss = [\<lparr>kfPort = 2, kfCommand = 0, kfData = [0xC0, 0xDB, 1]\<rparr>, \<lparr>kfPort = 0, kfCommand = 1, kfData = [50]\<rparr>]"

theorem kiss_stream_roundtrip_witness:
  "next_frames 3 (NewDecoder ([0x54, 0x4E, 0x43] @ concat (map put_frame example_kiss)))
     = map Inr example_kiss @ [Inl ErrEOF]"
proof -
  have wf: "list_all (wf_kiss 4096) example_kiss" by code_simp
  have banner: "FEND \<notin> set [0x54, 0x4E, 0x43]" by (simp add: FEND_def)
  have len: "length example_kiss + 1 = 3" and ne: "example_kiss \<noteq> []" by (simp_all add: example_kiss_def)
  show ?thesis using kiss_stream_roundtrip[OF banner ne wf] unfolding len .
qed

text \<open>
  The type byte of a data frame for port 12 is the delimiter itself and is not
  escaped: the decoder takes it for one, and reads the first byte of the payload as the type
  byte. The frame arrives shortened, under the port in that byte.
\<close>

theorem kiss_port12_misframed:
  assumes "data \<noteq> []" "int (length data) \<le> 4096"
  shows "fst (kiss_Next (NewDecoder (kiss_Encode 12 data))) = Inr (frame_of data) \<and> kfData (frame_of data) \<noteq> data"
proof
  have t: "type_byte 12 CmdDataFrame = FEND" by (simp add: type_byte_def CmdDataFrame_def FEND_def)
  have "read_frame 4096 [] (concat (map escape_byte data) @ [FEND]) = read_frame 4096 ([] @ data) [FEND]"
    using assms(2) by (intro read_frame_escaped) simp
  also have "\<dots> = (Inr (frame_of data), [])" using assms by (simp add: too_large_def)
  finally show "fst (kiss_Next (NewDecoder (kiss_Encode 12 data))) = Inr (frame_of data)"
    by (simp add: kiss_Next_def NewDecoder_def kiss_Encode_def EncodeCommand_def t)
  show "kfData (frame_of data) \<noteq> data" using assms(1) by (cases data) (simp_all add: frame_of_def)
qed

theorem kiss_port12_misframed_witness:
  "fst (kiss_Next (NewDecoder (kiss_Encode 12 [0x82, 1, 2]))) = Inr \<lparr>kfPort = 8, kfCommand = 2, kfData = [1, 2]\<rparr>"
  using kiss_port12_misframed[of "[0x82, 1, 2]"] by (simp add: frame_of_def)

text \<open>After a bad escape the rest of the broken frame is returned as a frame of its own.\<close>

lemma bad_escape_ghost:
  assumes "c \<notin> {TFEND, TFESC}" "data \<noteq> []" "int (length data) \<le> 4096"
  shows "next_frames 2 (NewDecoder ([FEND, 0, FESC, c] @ concat (map escape_byte data) @ [FEND]))
    = [Inl ErrInvalidEscape, Inr (frame_of data)]"
proof -
  have "read_frame 4096 [] (concat (map escape_byte data) @ [FEND]) = read_frame 4096 ([] @ data) [FEND]"
    using assms(3) by (intro read_frame_escaped) simp
  also have "\<dots> = (Inr (frame_of data), [])" using assms by (simp add: too_large_def)
  finally have r: "read_frame 4096 [] (concat (map escape_byte data) @ [FEND]) = (Inr (frame_of data), [])" .
  have "0 \<noteq> FEND" "0 \<noteq> FESC" by (simp_all add: FEND_def FESC_def)
  then show ?thesis using assms(1) r by (simp add: numeral_2_eq_2 kiss_Next_def NewDecoder_def too_large_def)
qed

end
