(* ===== verification/KISS_Server.thy ===== *)
theory KISS_Server
  imports KISS_Framing TX_Source
begin

text \<open>
  KISS interfaces (\<^verbatim>\<open>pkg/kiss/server.go\<close>, the frame handling of \<^verbatim>\<open>client.go\<close>): what an
  interface does with a frame read from its peer, in modem mode (the peer's frames are
  transmitted) and in TNC mode (they are received frames), the read loop of a connection, the
  ingress queue, and the frames written to the peers.

  The verdicts of the ingress rate limiter and of the transmit sink are arguments. A map of the
  code is an association list in the order one iteration visits it.
\<close>

section \<open>Data\<close>

definition ModeModem :: string where "ModeModem = ''modem''"
definition ModeTnc :: string where "ModeTnc = ''tnc''"
definition tncIngressQueueCap :: nat where "tncIngressQueueCap = 64"

text \<open>\<^verbatim>\<open>ingress.Source\<close>.\<close>

datatype ingress_source = FromModem | FromKissTnc u32

fun IsKissTnc :: "u32 \<Rightarrow> ingress_source \<Rightarrow> bool" where
  "IsKissTnc i FromModem = False"
| "IsKissTnc i (FromKissTnc j) = (i = j)"

text \<open>Of the functions in the configuration only whether they are set is kept.\<close>

record kiss_config =
  kcInterfaceID :: u32
  kcName :: string
  kcChannelMap :: "(u8 \<times> u32) list"
  kcSink :: bool
  kcBroadcast :: bool
  kcMode :: string
  kcRxIngress :: bool
  kcGateTxToIs :: bool
  kcOnClientTxAccepted :: bool
  kcAllowConnectedMode :: bool

record kiss_server =
  ksCfg :: kiss_config
  ksClients :: "nat list"
  ksActive :: nat
  ksIngressQ :: "(u32 \<times> bytes) list option"
  ksOverflow :: nat

datatype kiss_effect =
    DecodeErrorHook
  | FrameIngressHook string
  | ToGovernor u32 frame submit_source
  | GateToIs u32 frame
  | Received u32 bytes ingress_source

definition NewServer :: "kiss_config \<Rightarrow> kiss_server" where
  "NewServer cfg =
     \<lparr>ksCfg = cfg, ksClients = [], ksActive = 0,
      ksIngressQ = (if kcMode cfg = ModeTnc \<and> kcRxIngress cfg then Some [] else None), ksOverflow = 0\<rparr>"

definition channelFor :: "kiss_config \<Rightarrow> u8 \<Rightarrow> u32" where
  "channelFor cfg port = (case map_of (kcChannelMap cfg) port of Some ch \<Rightarrow> ch | None \<Rightarrow> 1)"

definition effective_mode :: "kiss_config \<Rightarrow> string" where
  "effective_mode cfg = (if kcMode cfg = [] then ModeModem else kcMode cfg)"

section \<open>From the peer\<close>

text \<open>The modem branch, the same in the server and in the client.\<close>

definition to_sink :: "kiss_config \<Rightarrow> string \<Rightarrow> u32 \<Rightarrow> frame \<Rightarrow> bytes \<Rightarrow> bool \<Rightarrow> kiss_effect list" where
  "to_sink cfg remote channel ax raw accepted =
     (if \<not> kcSink cfg then []
      else
        case (if \<not> IsUI ax then map_sum id (\<lambda>cf. (cf, True)) (ConnectedPassthrough ax raw) else Inr (ax, False)) of
          Inl _ \<Rightarrow> []
        | Inr (out, skipDedup) \<Rightarrow>
            ToGovernor channel out
              \<lparr>ssKind = ''kiss'', ssDetail = kcName cfg @ '' '' @ remote, ssPriority = PriorityClient, ssSkipDedup = skipDedup\<rparr>
            # (if accepted \<and> kcGateTxToIs cfg \<and> kcOnClientTxAccepted cfg \<and> IsUI out then [GateToIs channel out] else []))"

definition server_dispatch ::
    "string \<Rightarrow> u32 \<Rightarrow> frame \<Rightarrow> bytes \<Rightarrow> bool \<Rightarrow> bool \<Rightarrow> kiss_server \<Rightarrow> kiss_effect list \<times> kiss_server" where
  "server_dispatch remote channel ax raw allow accepted s =
     (if effective_mode (ksCfg s) = ModeTnc then
        (case ksIngressQ s of
           None \<Rightarrow> ([], s)
         | Some q \<Rightarrow>
             if \<not> kcRxIngress (ksCfg s) then ([], s)
             else if \<not> allow then ([], s)
             else if length q < tncIngressQueueCap then ([], s\<lparr>ksIngressQ := Some (q @ [(channel, raw)])\<rparr>)
             else ([], s\<lparr>ksOverflow := ksOverflow s + 1\<rparr>))
      else (to_sink (ksCfg s) remote channel ax raw accepted, s))"

text \<open>\<^verbatim>\<open>CmdReturn\<close> is 0xFF, compared with the low nibble of the type byte; every branch but the first only logs.\<close>

definition server_handleFrame ::
    "string \<Rightarrow> kiss_frame \<Rightarrow> bool \<Rightarrow> bool \<Rightarrow> kiss_server \<Rightarrow> kiss_effect list \<times> kiss_server" where
  "server_handleFrame remote f allow accepted s =
     (if kfCommand f = CmdDataFrame then
        (case Decode (kfData f) of
           Inl _ \<Rightarrow> ([DecodeErrorHook], s)
         | Inr ax \<Rightarrow>
             if \<not> IsUI ax \<and> \<not> kcAllowConnectedMode (ksCfg s) then ([], s)
             else
               let channel = channelFor (ksCfg s) (kfPort f);
                   (es, s) = server_dispatch remote channel ax (kfData f) allow accepted s
               in (FrameIngressHook (effective_mode (ksCfg s)) # es, s))
      else ([], s))"

text \<open>The client hands a received frame on at once.\<close>

definition client_dispatch ::
    "kiss_config \<Rightarrow> string \<Rightarrow> u32 \<Rightarrow> frame \<Rightarrow> bytes \<Rightarrow> bool \<Rightarrow> bool \<Rightarrow> kiss_effect list" where
  "client_dispatch cfg remote channel ax raw allow accepted =
     (if effective_mode cfg = ModeTnc then
        (if \<not> kcRxIngress cfg then []
         else if \<not> allow then []
         else [Received channel raw (FromKissTnc (kcInterfaceID cfg))])
      else to_sink cfg remote channel ax raw accepted)"

definition client_handleFrame :: "kiss_config \<Rightarrow> string \<Rightarrow> kiss_frame \<Rightarrow> bool \<Rightarrow> bool \<Rightarrow> kiss_effect list" where
  "client_handleFrame cfg remote f allow accepted =
     (if kfCommand f = CmdDataFrame then
        (case Decode (kfData f) of
           Inl _ \<Rightarrow> [DecodeErrorHook]
         | Inr ax \<Rightarrow>
             if \<not> IsUI ax \<and> \<not> kcAllowConnectedMode cfg then []
             else FrameIngressHook (effective_mode cfg)
               # client_dispatch cfg remote (channelFor cfg (kfPort f)) ax (kfData f) allow accepted)
      else [])"

text \<open>The drain goroutine's step.\<close>

definition drain_ingress :: "kiss_server \<Rightarrow> kiss_effect list \<times> kiss_server" where
  "drain_ingress s =
     (case ksIngressQ s of
        Some ((ch, raw) # q) \<Rightarrow> ([Received ch raw (FromKissTnc (kcInterfaceID (ksCfg s)))], s\<lparr>ksIngressQ := Some q\<rparr>)
      | _ \<Rightarrow> ([], s))"

section \<open>The read loop of a connection\<close>

lemma read_frame_shorter:
  "read_frame limit buf bs = (Inr f, rest) \<Longrightarrow> length rest < length bs"
  by (induction limit buf bs rule: read_frame.induct)
    (auto simp: Let_def split: if_splits list.splits intro: less_SucI)

lemma sync_in_shorter: "sync_in bs = Some rest \<Longrightarrow> length rest < length bs"
  by (induction bs) (auto split: if_splits intro: less_SucI)

lemma kiss_Next_shorter: "kiss_Next d = (Inr f, d') \<Longrightarrow> length (kdIn d') < length (kdIn d)"
  by (auto simp: kiss_Next_def Let_def split: if_splits option.splits prod.splits
      dest!: read_frame_shorter sync_in_shorter)

text \<open>The \<open>n\<close>-th frame gets the verdicts \<open>allow n\<close> and \<open>accepted n\<close>; an error ends the connection.\<close>

function handleClient ::
    "string \<Rightarrow> (nat \<Rightarrow> bool) \<Rightarrow> (nat \<Rightarrow> bool) \<Rightarrow> nat \<Rightarrow> kiss_decoder \<Rightarrow> kiss_server \<Rightarrow> kiss_effect list \<times> kiss_server" where
  "handleClient remote allow accepted n d s =
     (case kiss_Next d of
        (Inl _, _) \<Rightarrow> ([], s)
      | (Inr f, d') \<Rightarrow>
          let (es, s) = server_handleFrame remote f (allow n) (accepted n) s;
              (es', s) = handleClient remote allow accepted (Suc n) d' s
          in (es @ es', s))"
  by pat_completeness auto
termination
  by (relation "measure (\<lambda>(_, _, _, _, d, _). length (kdIn d))") (auto dest: kiss_Next_shorter[OF sym])

declare handleClient.simps [simp del]

section \<open>To the peers\<close>

definition addClient :: "nat \<Rightarrow> kiss_server \<Rightarrow> kiss_server" where
  "addClient c s = (let cs = ksClients s @ [c] in s\<lparr>ksClients := cs, ksActive := length cs\<rparr>)"

definition removeClient :: "nat \<Rightarrow> kiss_server \<Rightarrow> kiss_server" where
  "removeClient c s = (let cs = remove1 c (ksClients s) in s\<lparr>ksClients := cs, ksActive := length cs\<rparr>)"

definition port_for :: "(u8 \<times> u32) list \<Rightarrow> u32 \<Rightarrow> u8 option" where
  "port_for chans channel =
     (case find (\<lambda>(p, ch). ch = channel) chans of
        Some (p, _) \<Rightarrow> Some p
      | None \<Rightarrow> if length chans > 0 then None else Some 0)"

definition Broadcast :: "kiss_server \<Rightarrow> u8 \<Rightarrow> bytes \<Rightarrow> (nat \<times> bytes) list" where
  "Broadcast s port axBytes = (let raw = kiss_Encode port axBytes in map (\<lambda>c. (c, raw)) (ksClients s))"

text \<open>\<open>write_ok\<close> says on which connections the write succeeds; the result is their number.\<close>

definition TxBroadcast :: "(nat \<Rightarrow> bool) \<Rightarrow> kiss_server \<Rightarrow> u32 \<Rightarrow> bytes \<Rightarrow> nat \<times> (nat \<times> bytes) list" where
  "TxBroadcast write_ok s channel axBytes =
     (case port_for (kcChannelMap (ksCfg s)) channel of
        None \<Rightarrow> (0, [])
      | Some port \<Rightarrow>
          let raw = kiss_Encode port axBytes
          in (length (filter write_ok (ksClients s)), map (\<lambda>c. (c, raw)) (ksClients s)))"

definition BroadcastFromChannel :: "kiss_server \<Rightarrow> u32 \<Rightarrow> bytes \<Rightarrow> (nat \<times> bytes) list" where
  "BroadcastFromChannel s channel axBytes =
     (if \<not> kcBroadcast (ksCfg s) then []
      else case port_for (kcChannelMap (ksCfg s)) channel of
             None \<Rightarrow> []
           | Some port \<Rightarrow> Broadcast s port axBytes)"

text \<open>The client's connection: \<^const>\<open>None\<close> while disconnected. The lowest matching port, or port 0.\<close>

definition writeFrame :: "kiss_config \<Rightarrow> bool \<Rightarrow> u32 \<Rightarrow> bytes \<Rightarrow> bytes option" where
  "writeFrame cfg connected channel axBytes =
     (if \<not> connected then None
      else
        let keys = sort (map fst (filter (\<lambda>(p, ch). ch = channel) (kcChannelMap cfg)))
        in Some (kiss_Encode (if keys = [] then 0 else hd keys) axBytes))"

section \<open>A TNC is never asked to transmit\<close>

definition transmits :: "kiss_effect \<Rightarrow> bool" where
  "transmits e = (case e of ToGovernor _ _ _ \<Rightarrow> True | GateToIs _ _ \<Rightarrow> True | _ \<Rightarrow> False)"

text \<open>The server's own part of the state, and the bound of its ingress queue.\<close>

definition ks_inv :: "kiss_server \<Rightarrow> bool" where
  "ks_inv s \<longleftrightarrow> (case ksIngressQ s of None \<Rightarrow> True | Some q \<Rightarrow> length q \<le> tncIngressQueueCap)"

lemma NewServer_inv: "ks_inv (NewServer cfg)"
  by (simp add: ks_inv_def NewServer_def)

lemma server_dispatch_frame:
  "server_dispatch remote channel ax raw allow accepted s = (es, s') \<Longrightarrow>
    ksCfg s' = ksCfg s \<and> ksClients s' = ksClients s \<and> (ks_inv s \<longrightarrow> ks_inv s')
    \<and> (effective_mode (ksCfg s) = ModeTnc \<longrightarrow> es = []) \<and> (effective_mode (ksCfg s) \<noteq> ModeTnc \<longrightarrow> s' = s)"
  by (auto simp: server_dispatch_def ks_inv_def tncIngressQueueCap_def split: if_splits option.splits)

lemma server_handleFrame_frame:
  assumes "server_handleFrame remote f allow accepted s = (es, s')"
  shows "ksCfg s' = ksCfg s" "ksClients s' = ksClients s" "ks_inv s \<Longrightarrow> ks_inv s'"
    "effective_mode (ksCfg s) = ModeTnc \<Longrightarrow> list_all (\<lambda>e. \<not> transmits e) es"
    "effective_mode (ksCfg s) \<noteq> ModeTnc \<Longrightarrow> s' = s"
proof -
  have "ksCfg s' = ksCfg s \<and> ksClients s' = ksClients s \<and> (ks_inv s \<longrightarrow> ks_inv s')
    \<and> (effective_mode (ksCfg s) = ModeTnc \<longrightarrow> list_all (\<lambda>e. \<not> transmits e) es)
    \<and> (effective_mode (ksCfg s) \<noteq> ModeTnc \<longrightarrow> s' = s)"
    using assms
    by (auto simp: server_handleFrame_def Let_def transmits_def split: if_splits sum.splits prod.splits
        dest!: server_dispatch_frame)
  then show "ksCfg s' = ksCfg s" "ksClients s' = ksClients s" "ks_inv s \<Longrightarrow> ks_inv s'"
    "effective_mode (ksCfg s) = ModeTnc \<Longrightarrow> list_all (\<lambda>e. \<not> transmits e) es"
    "effective_mode (ksCfg s) \<noteq> ModeTnc \<Longrightarrow> s' = s" by blast+
qed

lemma handleClient_tnc:
  "effective_mode (ksCfg s) = ModeTnc \<Longrightarrow> ks_inv s \<Longrightarrow> handleClient remote allow accepted n d s = (es, s') \<Longrightarrow>
    list_all (\<lambda>e. \<not> transmits e) es \<and> ks_inv s' \<and> ksCfg s' = ksCfg s"
proof (induction remote allow accepted n d s arbitrary: es s' rule: handleClient.induct)
  case (1 remote allow accepted n d s)
  obtain r d' where N: "kiss_Next d = (r, d')" by fastforce
  show ?case
  proof (cases r)
    case (Inl e)
    then show ?thesis using 1(2-4) N by (subst (asm) handleClient.simps) simp
  next
    case (Inr f)
    obtain e1 s1 where H: "server_handleFrame remote f (allow n) (accepted n) s = (e1, s1)" by fastforce
    obtain e2 s2 where R: "handleClient remote allow accepted (Suc n) d' s1 = (e2, s2)" by fastforce
    note F = server_handleFrame_frame[OF H]
    have "list_all (\<lambda>e. \<not> transmits e) e2 \<and> ks_inv s2 \<and> ksCfg s2 = ksCfg s1"
      using 1(1)[OF N[symmetric] Inr H[symmetric] refl _ _ R] F(1,3) 1(2,3) by simp
    moreover have "es = e1 @ e2" "s' = s2"
      using 1(4) N Inr H R by (subst (asm) handleClient.simps, simp)+
    ultimately show ?thesis using F(1,4) 1(2) by simp
  qed
qed

text \<open>
  An interface in TNC mode never hands anything to the transmit governor or to the
  gate, whatever bytes its peer sends: no received frame is sent back. Its ingress queue stays
  within 64 frames.
\<close>

theorem tnc_never_transmits:
  assumes "effective_mode (ksCfg s) = ModeTnc" "ks_inv s" "handleClient remote allow accepted n d s = (es, s')"
  shows "list_all (\<lambda>e. \<not> transmits e) es \<and> (\<forall>q. ksIngressQ s' = Some q \<longrightarrow> length q \<le> 64)"
  using handleClient_tnc[OF assms] by (auto simp: ks_inv_def tncIngressQueueCap_def)

definition tnc_config :: "string \<Rightarrow> kiss_config" where
  "tnc_config mode =
     \<lparr>kcInterfaceID = 7, kcName = ''tnc'', kcChannelMap = [(0, 3)], kcSink = True, kcBroadcast = True, kcMode = mode,
      kcRxIngress = True, kcGateTxToIs = True, kcOnClientTxAccepted = True, kcAllowConnectedMode = True\<rparr>"

definition kiss_of :: "u8 \<times> frame \<Rightarrow> kiss_frame" where
  "kiss_of pf = (case pf of (p, f) \<Rightarrow>
     \<lparr>kfPort = p, kfCommand = CmdDataFrame, kfData = (case Encode f of Inr raw \<Rightarrow> raw | Inl _ \<Rightarrow> [])\<rparr>)"

theorem tnc_never_transmits_witness:
  "list_all (\<lambda>e. \<not> transmits e) (fst (handleClient ''peer'' (\<lambda>_. True) (\<lambda>_. True) 0
     (NewDecoder (put_frame (kiss_of (0, example_ui_frame)))) (NewServer (tnc_config ModeTnc))))"
proof -
  have "effective_mode (ksCfg (NewServer (tnc_config ModeTnc))) = ModeTnc" by code_simp
  then show ?thesis
    using tnc_never_transmits[OF _ NewServer_inv, of "tnc_config ModeTnc"] by (metis prod.collapse)
qed

section \<open>A modem transmits what its peer sends\<close>

definition governor_calls :: "kiss_effect list \<Rightarrow> (u32 \<times> frame \<times> submit_source) list" where
  "governor_calls es = concat (map (\<lambda>e. case e of ToGovernor ch f src \<Rightarrow> [(ch, f, src)] | _ \<Rightarrow> []) es)"

lemma governor_calls_append [simp]: "governor_calls (es @ es') = governor_calls es @ governor_calls es'"
  by (simp add: governor_calls_def)

definition client_source :: "kiss_config \<Rightarrow> string \<Rightarrow> submit_source" where
  "client_source cfg remote =
     \<lparr>ssKind = ''kiss'', ssDetail = kcName cfg @ '' '' @ remote, ssPriority = PriorityClient, ssSkipDedup = False\<rparr>"

definition peer_bytes :: "u8 \<times> frame \<Rightarrow> bytes" where
  "peer_bytes pf = put_frame (kiss_of pf)"

definition sendable :: "u8 \<times> frame \<Rightarrow> bool" where
  "sendable pf \<longleftrightarrow> wf_ui_frame (snd pf) \<and> wf_kiss 4096 (kiss_of pf)"

lemma handle_sendable:
  assumes "effective_mode (ksCfg s) \<noteq> ModeTnc" "kcSink (ksCfg s)" "sendable (p, f)"
    "server_handleFrame remote (kiss_of (p, f)) al acc s = (es, s')"
  shows "s' = s \<and> governor_calls es = [(channelFor (ksCfg s) p, f, client_source (ksCfg s) remote)]"
proof -
  obtain raw where raw: "Encode f = Inr raw" "Decode raw = Inr f"
    using assms(3) ui.dec_enc[of f] by (auto simp: sendable_def)
  moreover have "IsUI f" using assms(3) by (simp add: sendable_def wf_ui_frame_def)
  ultimately show ?thesis
    using assms by (auto simp: server_handleFrame_def kiss_of_def server_dispatch_def to_sink_def client_source_def
        governor_calls_def Let_def split: if_splits prod.splits)
qed

lemma handleClient_step:
  assumes "kiss_Next d = (Inr f, d')" "server_handleFrame remote f (allow n) (accepted n) s = (es, s1)"
  shows "fst (handleClient remote allow accepted n d s) = es @ fst (handleClient remote allow accepted (Suc n) d' s1)"
  using assms by (subst handleClient.simps) (simp split: prod.splits)

lemma handleClient_eof: "kiss_Next d = (Inl e, d') \<Longrightarrow> handleClient remote allow accepted n d s = ([], s)"
  by (subst handleClient.simps) simp

lemma handleClient_synced:
  assumes "effective_mode (ksCfg s) \<noteq> ModeTnc" "kcSink (ksCfg s)"
  shows "list_all sendable pfs \<Longrightarrow> kdSynced d \<Longrightarrow> kdMaxFrame d = 4096
    \<Longrightarrow> kdIn d = concat (map peer_bytes pfs)
    \<Longrightarrow> governor_calls (fst (handleClient remote allow accepted n d s))
      = map (\<lambda>(p, f). (channelFor (ksCfg s) p, f, client_source (ksCfg s) remote)) pfs"
proof (induction pfs arbitrary: n d)
  case Nil
  then have "kiss_Next d = (Inl ErrEOF, d\<lparr>kdIn := []\<rparr>)" by (simp add: kiss_Next_def)
  then show ?case by (simp add: handleClient_eof governor_calls_def)
next
  case (Cons pf pfs)
  obtain p f where pf: "pf = (p, f)" by fastforce
  have wf: "wf_kiss (kdMaxFrame d) (kiss_of (p, f))" using Cons.prems(1,3) by (simp add: pf sendable_def)
  have N: "kiss_Next d = (Inr (kiss_of (p, f)), d\<lparr>kdIn := concat (map peer_bytes pfs)\<rparr>)"
    using Cons.prems(2,4) by (intro next_synced[OF wf]) (simp_all add: pf peer_bytes_def[of "(p, f)"])
  obtain es s1 where H: "server_handleFrame remote (kiss_of (p, f)) (allow n) (accepted n) s = (es, s1)" by fastforce
  have "s1 = s \<and> governor_calls es = [(channelFor (ksCfg s) p, f, client_source (ksCfg s) remote)]"
    using Cons.prems(1) by (intro handle_sendable[OF assms _ H]) (simp add: pf)
  then show ?case using handleClient_step[where allow = allow and accepted = accepted and n = n, OF N H] Cons by (simp add: pf)
qed

text \<open>
  What a KISS application writes is what is transmitted: a stream of encoded UI frames,
  after any noise before the first delimiter, is handed to the transmit governor frame by frame,
  in order and unchanged, each on the channel of its KISS port and with the client's priority.
\<close>

theorem kiss_client_frames_submitted:
  assumes "effective_mode (ksCfg s) \<noteq> ModeTnc" "kcSink (ksCfg s)" "FEND \<notin> set banner" "pfs \<noteq> []" "list_all sendable pfs"
  shows "governor_calls (fst (handleClient remote allow accepted 0
      (NewDecoder (banner @ concat (map peer_bytes pfs))) s))
    = map (\<lambda>(p, f). (channelFor (ksCfg s) p, f, client_source (ksCfg s) remote)) pfs"
proof -
  obtain p f gs where pfs: "pfs = (p, f) # gs" using assms(4) by (cases pfs) auto
  let ?d = "NewDecoder (banner @ concat (map peer_bytes pfs))"
  let ?d' = "?d\<lparr>kdSynced := True, kdIn := concat (map peer_bytes gs)\<rparr>"
  have N: "kiss_Next ?d = (Inr (kiss_of (p, f)), ?d')"
    using assms(3,5) by (intro next_unsynced[where banner = banner]) (simp_all add: NewDecoder_def pfs sendable_def peer_bytes_def[of "(p, f)"])
  obtain es s1 where H: "server_handleFrame remote (kiss_of (p, f)) (allow 0) (accepted 0) s = (es, s1)" by fastforce
  have "s1 = s \<and> governor_calls es = [(channelFor (ksCfg s) p, f, client_source (ksCfg s) remote)]"
    using assms(5) by (intro handle_sendable[OF assms(1,2) _ H]) (simp add: pfs)
  moreover have "governor_calls (fst (handleClient remote allow accepted (Suc 0) ?d' s))
      = map (\<lambda>(p, f). (channelFor (ksCfg s) p, f, client_source (ksCfg s) remote)) gs"
    using assms(5) by (intro handleClient_synced[OF assms(1,2)]) (simp_all add: pfs NewDecoder_def)
  ultimately show ?thesis using handleClient_step[where allow = allow and accepted = accepted and n = 0, OF N H] by (simp add: pfs)
qed

theorem kiss_client_frames_submitted_witness:
  "governor_calls (fst (handleClient ''peer'' (\<lambda>_. True) (\<lambda>_. True) 0
      (NewDecoder ([0x54] @ peer_bytes (0, example_ui_frame))) (NewServer (tnc_config ModeModem))))
    = [(3, example_ui_frame, client_source (tnc_config ModeModem) ''peer'')]"
proof -
  let ?s = "NewServer (tnc_config ModeModem)"
  have "effective_mode (ksCfg ?s) \<noteq> ModeTnc" "kcSink (ksCfg ?s)" "FEND \<notin> set [0x54]" "[(0, example_ui_frame)] \<noteq> []"
    "list_all sendable [(0, example_ui_frame)]" by code_simp+
  from kiss_client_frames_submitted[OF this, of "''peer''" "\<lambda>_. True" "\<lambda>_. True"]
  show ?thesis by (simp add: channelFor_def NewServer_def tnc_config_def)
qed

text \<open>The return command has 15 in its low nibble and is never recognised.\<close>

lemma CmdReturn_unreachable: "kfCommand (frame_of buf) \<noteq> 0xFF"
proof
  assume "kfCommand (frame_of buf) = 0xFF"
  moreover have "hd buf AND 0x0F \<le> (0x0F :: u8)" by (rule word_and_le1)
  ultimately show False by (simp add: frame_of_def)
qed

end
