(* ===== verification/TX_Path.thy ===== *)
theory TX_Path
  imports TX_Dispatch KISS_Server
begin

text \<open>
  The transmit path from the governor to a peer of a KISS interface: encoding in the
  worker, the dispatcher, the interface's queue and its writer, the KISS framing, and what the
  peer decodes.
\<close>

lemma transmit_out:
  assumes "Encode (qiFrame x) = Inr raw"
  shows "gvOut (transmit accepted x g)
    = gvOut g @ [\<lparr>tfChannel = qiChannel x, tfData = raw, tfPriority = qiPriority x mod 2 ^ 32, tfFrameId = gvNextFrameID g + 1\<rparr>]"
  using assms by (simp add: transmit_def Let_def)

lemma fan_out_accepts:
  assumes "KissTncBackend i c \<in> set bs" "\<not> tqStopped (twQueues w i)" "length (tqCh (twQueues w i)) < 16"
    "fan_out me tf bs w = (n, errs, ms, w')"
  shows "0 < n"
  using assms
proof (induction bs arbitrary: w n errs ms w')
  case (Cons b bs)
  obtain err w1 where S: "backend_Submit me b tf w = (err, w1)" by fastforce
  obtain n1 errs1 ms1 w2 where F: "fan_out me tf bs w1 = (n1, errs1, ms1, w2)" by (metis prod_cases4)
  have n: "n = (if err = None then n1 + 1 else n1)" using Cons.prems(4) S F by (auto simp: Let_def split: option.splits)
  show ?case
  proof (cases "\<exists>c'. b = KissTncBackend i c'")
    case True
    then have "err = None"
      using S Cons.prems(2,3) by (auto simp: Enqueue_result instanceTxQueueDepth_def)
    then show ?thesis using n by simp
  next
    case False
    then have "twQueues w1 i = twQueues w i" using S by (cases b) (auto split: prod.splits)
    moreover have "KissTncBackend i c \<in> set bs" using Cons.prems(1) False by auto
    ultimately have "0 < n1" using Cons.IH[OF _ _ _ F] Cons.prems(2,3) by simp
    then show ?thesis using n by simp
  qed
qed simp

lemma data_frame_reads:
  "wf_kiss 4096 \<lparr>kfPort = p, kfCommand = CmdDataFrame, kfData = data\<rparr> \<Longrightarrow>
    fst (kiss_Next (NewDecoder (kiss_Encode p data))) = Inr \<lparr>kfPort = p, kfCommand = CmdDataFrame, kfData = data\<rparr>"
  using next_unsynced[of "[]" "NewDecoder (kiss_Encode p data)" "\<lparr>kfPort = p, kfCommand = CmdDataFrame, kfData = data\<rparr>" "[]"]
  by (simp add: NewDecoder_def put_frame_def kiss_Encode_def)

text \<open>
  Property C15. End to end: a UI frame that the governor's worker transmits on a channel with a running
  KISS interface whose queue has room is taken by the dispatcher and, once the interface's writer has emptied the queue,
  written once to every connected peer, to each as a KISS frame whose payload decodes to that very frame. The channel is
  mapped to a port, and frame and port make a KISS frame that survives its framing (not port 12, shorter than 4096 bytes).
\<close>

theorem governor_to_peer:
  assumes f: "wf_ui_frame (qiFrame x)"
    and tf: "tf = last (gvOut (transmit accepted x g))"
    and route: "KissTncBackend i c \<in> set (snByChannel (dpSnap d) (qiChannel x))" "\<not> dpClosed d"
      "\<forall>i. length (filter (\<lambda>b. \<exists>c. b = KissTncBackend i c) (snByChannel (dpSnap d) (qiChannel x))) \<le> 1"
    and live: "tqWriter (twQueues w i) = Waiting" "\<not> tqStopped (twQueues w i)" "length (tqCh (twQueues w i)) < 16"
    and send: "Send me (Some tf) d w = (res, ms, w')"
    and out: "q = (drain False ^^ (3 * length (tqCh (twQueues w' i)))) (twQueues w' i)"
    and port: "port_for (kcChannelMap (ksCfg srv)) ch = Some p"
    and fits: "wf_kiss 4096 \<lparr>kfPort = p, kfCommand = CmdDataFrame, kfData = tfData tf\<rparr>"
    and written: "written = snd (TxBroadcast ok srv ch (last (tqOut q)))"
  shows "res = SendOK \<and> map fst written = ksClients srv
    \<and> list_all (\<lambda>(conn, bs). \<exists>kf. fst (kiss_Next (NewDecoder bs)) = Inr kf \<and> Decode (kfData kf) = Inr (qiFrame x)) written"
proof -
  obtain raw where raw: "Encode (qiFrame x) = Inr raw" "Decode raw = Inr (qiFrame x)" using ui.dec_enc[OF f] by blast
  have ch: "tfChannel tf = qiChannel x" "tfData tf = raw" unfolding tf transmit_out[OF raw(1)] by simp_all
  let ?bs = "snByChannel (dpSnap d) (tfChannel tf)"
  have ne: "?bs \<noteq> []" using route(1) by (auto simp: ch)
  obtain n errs mt w1 where F: "fan_out me tf ?bs w = (n, errs, mt, w1)" by (metis prod_cases4)
  have n: "0 < n" using fan_out_accepts[OF route(1) live(2,3)] F by (simp add: ch)
  then have res: "res = SendOK" and w1: "w1 = w'"
    using send route(2) ne F by (auto simp: Send_def Let_def split: if_splits)
  have "length (filter (\<lambda>b. \<exists>c. b = KissTncBackend i c) ?bs) = 1"
    using route(1,3) ch(1) by (metis (mono_tags, lifting) One_nat_def filter_empty_conv le_Suc_eq le_zero_eq length_0_conv)
  then have "twQueues w' i = snd (Enqueue (queue_frame tf) (twQueues w i))"
    using fan_out_queue[OF F, of i] by (simp add: w1)
  then have q1: "tqCh (twQueues w' i) = tqCh (twQueues w i) @ [queue_frame tf]" "tqWriter (twQueues w' i) = Waiting"
    using live by (simp_all add: Enqueue_result instanceTxQueueDepth_def)
  have "last (tqOut q) = raw"
    unfolding out drain_all[OF q1(2)] by (simp add: q1(1) queue_frame_def ch)
  then have "written = map (\<lambda>c. (c, kiss_Encode p raw)) (ksClients srv)"
    using written by (simp add: TxBroadcast_def port Let_def)
  moreover have "fst (kiss_Next (NewDecoder (kiss_Encode p raw))) = Inr \<lparr>kfPort = p, kfCommand = CmdDataFrame, kfData = raw\<rparr>"
    using data_frame_reads[of p raw] fits ch(2) by simp
  ultimately show ?thesis using raw(2) res by (simp add: comp_def list_all_iff)
qed

section \<open>Witness\<close>

definition example_pass :: queue_item where
  "example_pass =
     \<lparr>qiChannel = 2, qiFrame = example_ui_frame, qiSource = \<lparr>ssKind = ''beacon'', ssDetail = '''', ssPriority = 1, ssSkipDedup = False\<rparr>,
      qiPriority = 1, qiSeq = 1, qiEnqueued = 0, qiCounted = False\<rparr>"

definition example_tnc :: kiss_server where
  "example_tnc = addClient 8 (NewServer (tnc_config ModeTnc))"

theorem governor_to_peer_witness:
  "\<exists>bs kf. snd (TxBroadcast (\<lambda>_. True) example_tnc 3 (case Encode example_ui_frame of Inr raw \<Rightarrow> raw)) = [(8, bs)]
    \<and> fst (kiss_Next (NewDecoder bs)) = Inr kf \<and> Decode (kfData kf) = Inr example_ui_frame"
proof -
  obtain raw where raw: "Encode example_ui_frame = Inr raw" using ui.enc_total[OF example_ui_frame_wf] by blast
  have wf: "wf_ui_frame (qiFrame example_pass)" using example_ui_frame_wf by (simp add: example_pass_def)
  obtain g :: gov where True by blast
  let ?tf = "last (gvOut (transmit True example_pass g))"
  have tf: "tfData ?tf = raw" "tfChannel ?tf = 2"
    using transmit_out[of example_pass raw True g] raw by (simp_all add: example_pass_def)
  let ?w' = "snd (snd (Send None (Some ?tf) example_dispatcher example_world))"
  have send: "Send None (Some ?tf) example_dispatcher example_world
      = (fst (Send None (Some ?tf) example_dispatcher example_world), fst (snd (Send None (Some ?tf) example_dispatcher example_world)), ?w')"
    by simp
  have bs: "snByChannel (dpSnap example_dispatcher) 2 = [KissTncBackend 4 2, KissTncBackend 5 2]" by code_simp
  have route: "KissTncBackend 5 2 \<in> set (snByChannel (dpSnap example_dispatcher) (qiChannel example_pass))"
    "\<not> dpClosed example_dispatcher"
    "\<forall>i. length (filter (\<lambda>b. \<exists>c. b = KissTncBackend i c) (snByChannel (dpSnap example_dispatcher) (qiChannel example_pass))) \<le> 1"
    using bs by (simp_all add: example_pass_def) code_simp
  have live: "tqWriter (twQueues example_world 5) = Waiting" "\<not> tqStopped (twQueues example_world 5)"
    "length (tqCh (twQueues example_world 5)) < 16"
    by (simp_all add: example_world_def newInstanceTxQueue_def)
  have port: "port_for (kcChannelMap (ksCfg example_tnc)) 3 = Some 0" by code_simp
  have clients: "ksClients example_tnc = [8]" by code_simp
  have "wf_kiss 4096 \<lparr>kfPort = 0, kfCommand = CmdDataFrame, kfData = case Encode example_ui_frame of Inr raw \<Rightarrow> raw\<rparr>" by code_simp
  then have fits: "wf_kiss 4096 \<lparr>kfPort = 0, kfCommand = CmdDataFrame, kfData = tfData ?tf\<rparr>" by (simp add: raw tf)
  have q1: "tqCh (twQueues ?w' 5) = [queue_frame ?tf]" "tqWriter (twQueues ?w' 5) = Waiting"
    using tf(2) bs by (simp_all add: Send_def Let_def example_world_def close_swap_def Enqueue_result newInstanceTxQueue_def
        instanceTxQueueDepth_def route(2))
  let ?q = "(drain False ^^ (3 * length (tqCh (twQueues ?w' 5)))) (twQueues ?w' 5)"
  have out: "last (tqOut ?q) = raw" unfolding drain_all[OF q1(2)] by (simp add: q1(1) queue_frame_def tf)
  have written: "snd (TxBroadcast (\<lambda>_. True) example_tnc 3 raw) = [(8, kiss_Encode 0 raw)]"
    using port clients by (simp add: TxBroadcast_def Let_def)
  then have w: "[(8, kiss_Encode 0 raw)] = snd (TxBroadcast (\<lambda>_. True) example_tnc 3 (last (tqOut ?q)))" by (simp add: out)
  from governor_to_peer[OF wf refl route live send refl port fits w]
  show ?thesis using written raw by (auto simp: example_pass_def)
qed

end
