(* ===== verification/Callsign.thy ===== *)
theory Callsign
  imports Go_Strings
begin

text \<open>
  Call signs (\<^verbatim>\<open>pkg/callsign\<close>): splitting off the SSID, the N0CALL placeholder, the choice
  between an override and the station's call sign, and the APRS-IS passcode.
\<close>

datatype call_err = ErrCallsignEmpty | ErrCallsignN0Call

text \<open>\<^verbatim>\<open>Parse\<close>; \<^const>\<open>None\<close> is \<^verbatim>\<open>ok = false\<close>, with both parts empty.\<close>

definition parse_call :: "string \<Rightarrow> (string \<times> string) option" where
  "parse_call s0 =
     (let s = trim_space s0 in
      if s = [] then None
      else if \<exists>c \<in> set s. c \<in> {CHR '' '', CHR 0x09, CHR 0x0D, CHR 0x0A} then None
      else case cut_byte CHR ''-'' s of
             None \<Rightarrow> Some (s, [])
           | Some (b, ssid) \<Rightarrow>
               if CHR ''-'' \<in> set ssid then None
               else if b = [] \<or> ssid = [] then None
               else Some (b, ssid))"

definition IsN0Call :: "string \<Rightarrow> bool" where
  "IsN0Call s = (case parse_call s of None \<Rightarrow> False | Some (b, _) \<Rightarrow> equal_fold b ''N0CALL'')"

definition Resolve :: "string \<Rightarrow> string \<Rightarrow> call_err + string" where
  "Resolve override station =
     (let chosen = trim_space override;
          chosen = (if chosen = [] then trim_space station else chosen)
      in if chosen = [] then Inl ErrCallsignEmpty
         else if IsN0Call chosen then Inl ErrCallsignN0Call
         else Inr (to_upper chosen))"

text \<open>The hash loop, two bytes at a time; Go's \<^verbatim>\<open>int\<close> is a 64-bit word.\<close>

fun passcode_hash :: "64 word \<Rightarrow> string \<Rightarrow> 64 word" where
  "passcode_hash h [] = h"
| "passcode_hash h [a] = h XOR push_bit 8 (ucast (byte_of a))"
| "passcode_hash h (a # b # cs) = passcode_hash (h XOR push_bit 8 (ucast (byte_of a)) XOR ucast (byte_of b)) cs"

definition APRSPasscode :: "string \<Rightarrow> 64 word" where
  "APRSPasscode callsign =
     (let b = (case parse_call callsign of None \<Rightarrow> [] | Some (b, _) \<Rightarrow> b)
      in passcode_hash 0x73e2 (take 10 (to_upper b)) AND 0x7fff)"

text \<open>A plain call sign: what the parser returns unchanged.\<close>

definition plain_part :: "string \<Rightarrow> bool" where
  "plain_part s \<longleftrightarrow> s \<noteq> [] \<and> list_all (\<lambda>c. 33 \<le> byte_of c \<and> byte_of c < 128 \<and> c \<noteq> CHR ''-'') s"

lemma trim_left_graphic: "33 \<le> byte_of c \<Longrightarrow> byte_of c < 128 \<Longrightarrow> trim_left (c # cs) = c # cs"
  by (subst trim_left.simps) (simp add: space_len_graphic)

lemma space_len_last:
  assumes "33 \<le> byte_of c" "byte_of c < 128"
  shows "space_len [c] = 0" "space_len [a, c] \<noteq> 2" "space_len [a, b, c] \<noteq> 3"
proof -
  have n: "c \<noteq> CHR 0x85" "c \<noteq> CHR 0xA0" "c \<noteq> CHR 0x80" "c \<noteq> CHR 0x9F" "c \<noteq> CHR 0x81" "c \<noteq> CHR 0x82" "c \<noteq> CHR 0x83"
    "c \<noteq> CHR 0x84" "c \<noteq> CHR 0x86" "c \<noteq> CHR 0x87" "c \<noteq> CHR 0x88" "c \<noteq> CHR 0x89" "c \<noteq> CHR 0x8A" "c \<noteq> CHR 0xA8" "c \<noteq> CHR 0xA9"
    "c \<noteq> CHR 0xAF"
    using assms by (auto simp: word_less_nat_alt)
  show "space_len [c] = 0" by (rule space_len_graphic[OF assms])
  show "space_len [a, c] \<noteq> 2" "space_len [a, b, c] \<noteq> 3"
    using n by (auto simp: space_len_def split: if_splits)
qed

lemma trim_right_graphic:
  assumes "33 \<le> byte_of c" "byte_of c < 128" shows "trim_right (s @ [c]) = s @ [c]"
proof -
  let ?t = "s @ [c]"
  have 1: "drop (length ?t - 1) ?t = [c]" by simp
  have 2: "space_len (drop (length ?t - 2) ?t) \<noteq> 2" if l: "length ?t \<ge> 2"
  proof -
    obtain r a where "s = r @ [a]" using l by (cases s rule: rev_cases) auto
    then show ?thesis using space_len_last(2)[OF assms] by simp
  qed
  have 3: "space_len (drop (length ?t - 3) ?t) \<noteq> 3" if l: "length ?t \<ge> 3"
  proof -
    obtain r b where s: "s = r @ [b]" using l by (cases s rule: rev_cases) auto
    then obtain q a where "r = q @ [a]" using l by (cases r rule: rev_cases) auto
    then show ?thesis using s space_len_last(3)[OF assms] by simp
  qed
  have "rspace_len ?t = 0"
    using 2 3 space_len_last(1)[OF assms] unfolding rspace_len_def 1 by simp
  then show ?thesis by (subst trim_right.simps) simp
qed

lemma trim_space_graphic:
  assumes "s \<noteq> []" "list_all (\<lambda>c. 33 \<le> byte_of c \<and> byte_of c < 128) s" shows "trim_space s = s"
proof -
  have "trim_left s = s" using assms by (cases s) (simp_all add: trim_left_graphic)
  moreover have "trim_right s = s" using assms by (cases s rule: rev_cases) (simp_all add: trim_right_graphic)
  ultimately show ?thesis by (simp add: trim_space_def)
qed

lemma graphic_not_space: "33 \<le> byte_of c \<Longrightarrow> c \<noteq> CHR '' '' \<and> c \<noteq> CHR 0x09 \<and> c \<noteq> CHR 0x0D \<and> c \<noteq> CHR 0x0A"
  by (auto simp: word_le_nat_alt)

lemma parse_call_plain:
  assumes "plain_part b" shows "parse_call b = Some (b, [])"
proof -
  have g: "list_all (\<lambda>c. 33 \<le> byte_of c \<and> byte_of c < 128) b" and ne: "b \<noteq> []"
    using assms by (auto simp: plain_part_def list_all_iff)
  have "trim_space b = b" by (rule trim_space_graphic[OF ne g])
  moreover have "cut_byte CHR ''-'' b = None"
    using assms by (intro cut_byte_None) (auto simp: plain_part_def list_all_iff)
  moreover have "\<not> (\<exists>c \<in> set b. c \<in> {CHR '' '', CHR 0x09, CHR 0x0D, CHR 0x0A})"
    using g graphic_not_space by (fastforce simp: list_all_iff)
  ultimately show ?thesis using ne by (simp add: parse_call_def Let_def)
qed

lemma parse_call_ssid:
  assumes "plain_part b" "plain_part t" shows "parse_call (b @ ''-'' @ t) = Some (b, t)"
proof -
  let ?s = "b @ CHR ''-'' # t"
  have g: "list_all (\<lambda>c. 33 \<le> byte_of c \<and> byte_of c < 128) ?s"
    using assms by (auto simp: plain_part_def list_all_iff)
  have "trim_space ?s = ?s" by (rule trim_space_graphic) (use g in simp_all)
  moreover have "cut_byte CHR ''-'' ?s = Some (b, t)"
    using assms(1) by (intro cut_byte_append) (auto simp: plain_part_def list_all_iff)
  moreover have "\<not> (\<exists>c \<in> set ?s. c \<in> {CHR '' '', CHR 0x09, CHR 0x0D, CHR 0x0A})"
    using g graphic_not_space by (fastforce simp: list_all_iff)
  ultimately show ?thesis
    using assms by (auto simp: parse_call_def Let_def plain_part_def list_all_iff)
qed

lemma to_upper_plain: "plain_part b \<Longrightarrow> to_upper b = map upper_char b"
  by (rule to_upper_ascii) (auto simp: plain_part_def list_all_iff is_ascii_def)

text \<open>
  The passcode depends on the base call sign only: the SSID and the letter case do
  not matter, and the result is a 15-bit number.
\<close>

theorem passcode_base_only:
  assumes "plain_part b" "plain_part t" "plain_part c" "equal_fold b c"
  shows "APRSPasscode (b @ ''-'' @ t) = APRSPasscode c \<and> APRSPasscode s < 0x8000"
proof
  have "to_upper b = to_upper c"
    using assms by (simp add: to_upper_plain equal_fold_def)
  then show "APRSPasscode (b @ ''-'' @ t) = APRSPasscode c"
    unfolding APRSPasscode_def using parse_call_ssid[OF assms(1,2)] parse_call_plain[OF assms(3)] by simp
  have "(x AND 0x7fff :: 64 word) \<le> 0x7fff" for x by (rule word_and_le1)
  then show "APRSPasscode s < 0x8000"
    unfolding APRSPasscode_def Let_def by (rule le_less_trans) simp
qed

theorem passcode_base_only_witness: "APRSPasscode ''nw5w-9'' = APRSPasscode ''NW5W''"
proof -
  have "plain_part ''nw5w''" "plain_part ''9''" "plain_part ''NW5W''" "equal_fold ''nw5w'' ''NW5W''" by code_simp+
  from passcode_base_only[OF this] show ?thesis by simp
qed

end
