(* ===== verification/Digi_Blocklist.thy ===== *)
theory Digi_Blocklist
  imports AX25_Address Callsign
begin

text \<open>
  The digipeater's source deny list (\<^verbatim>\<open>pkg/digipeater/blocklist\<close>): validation of a pattern
  into its canonical form, and matching of a source address. The specification of a pattern is
  a call sign with an SSID, or with any SSID but 0.
\<close>

section \<open>The code\<close>

record block_entry =
  bePattern :: string
  beReason :: string

datatype pattern_err =
    PatternEmpty | PatternNoCall | PatternLong string | PatternChar char | PatternNoSsid | PatternBadSsid string | PatternSsidRange int

fun bad_call_char :: "string \<Rightarrow> char option" where
  "bad_call_char [] = None"
| "bad_call_char (c # cs) = (if is_call_char c then bad_call_char cs else Some c)"

definition check_pattern_call :: "string \<Rightarrow> pattern_err option" where
  "check_pattern_call call =
     (if call = [] then Some PatternNoCall
      else if length call > 6 then Some (PatternLong call)
      else map_option PatternChar (bad_call_char call))"

definition ValidatePattern :: "string \<Rightarrow> pattern_err + string" where
  "ValidatePattern s0 =
     (let s = trim_space s0 in
      if s = [] then Inl PatternEmpty
      else
        let s = to_upper s;
            (call, suffix) = (case cut_byte CHR ''-'' s of None \<Rightarrow> (s, []) | Some p \<Rightarrow> p)
        in case check_pattern_call call of
             Some err \<Rightarrow> Inl err
           | None \<Rightarrow>
               if cut_byte CHR ''-'' s = None then Inr call
               else if suffix = ''*'' then Inr (call @ ''-*'')
               else if suffix = [] then Inl PatternNoSsid
               else
                 (case atoi suffix of
                    None \<Rightarrow> Inl (PatternBadSsid suffix)
                  | Some n \<Rightarrow>
                      if n < 0 \<or> n > 15 then Inl (PatternSsidRange n)
                      else Inr (call @ ''-'' @ dec_string (nat n))))"

text \<open>The number is a wrapping 64-bit \<^verbatim>\<open>int\<close> built digit by digit.\<close>

fun suffix_number :: "int \<Rightarrow> string \<Rightarrow> int" where
  "suffix_number n [] = n"
| "suffix_number n (c # cs) = suffix_number (i64 (n * 10 + digit_val c)) cs"

definition matchesEntry :: "string \<Rightarrow> address \<Rightarrow> bool" where
  "matchesEntry pattern src =
     (let (call, suffix) = (case cut_byte CHR ''-'' pattern of None \<Rightarrow> (pattern, []) | Some p \<Rightarrow> p) in
      if \<not> equal_fold call (Call src) then False
      else if suffix = [] then SSID src = 0
      else if suffix = ''*'' then SSID src > 0
      else if \<not> list_all is_digit suffix then False
      else let n = suffix_number 0 suffix in n \<ge> 0 \<and> n \<le> 15 \<and> of_int n = SSID src)"

text \<open>\<^verbatim>\<open>List.Matches\<close>: the first entry that matches.\<close>

definition block_matches :: "block_entry list \<Rightarrow> address \<Rightarrow> block_entry option" where
  "block_matches entries src = find (\<lambda>e. matchesEntry (bePattern e) src) entries"

section \<open>The specification\<close>

datatype ssid_pattern = Exactly u8 | AnyNonZero

datatype call_pattern = CallPattern string ssid_pattern

fun pattern_matches :: "call_pattern \<Rightarrow> address \<Rightarrow> bool" where
  "pattern_matches (CallPattern call sp) src \<longleftrightarrow>
     equal_fold call (Call src) \<and> (case sp of Exactly n \<Rightarrow> SSID src = n | AnyNonZero \<Rightarrow> SSID src \<noteq> 0)"

definition wf_call_text :: "string \<Rightarrow> bool" where
  "wf_call_text call \<longleftrightarrow> call \<noteq> [] \<and> length call \<le> 6 \<and> list_all is_call_char call"

text \<open>The two spellings of SSID 0 are both canonical.\<close>

inductive denotes :: "string \<Rightarrow> call_pattern \<Rightarrow> bool" where
  denotes_bare: "wf_call_text call \<Longrightarrow> denotes call (CallPattern call (Exactly 0))"
| denotes_any: "wf_call_text call \<Longrightarrow> denotes (call @ ''-*'') (CallPattern call AnyNonZero)"
| denotes_ssid: "wf_call_text call \<Longrightarrow> n \<le> 15 \<Longrightarrow> denotes (call @ ''-'' @ dec_string n) (CallPattern call (Exactly (of_nat n)))"

lemma bad_call_char_None: "bad_call_char s = None \<longleftrightarrow> list_all is_call_char s"
  by (induction s) auto

lemma check_pattern_call_None: "check_pattern_call call = None \<longleftrightarrow> wf_call_text call"
  by (auto simp: check_pattern_call_def wf_call_text_def bad_call_char_None)

lemma wf_call_text_no_dash: "wf_call_text call \<Longrightarrow> CHR ''-'' \<notin> set call"
  using call_char_simps(4) by (auto simp: wf_call_text_def list_all_iff)

lemma ValidatePattern_denotes:
  assumes "ValidatePattern s = Inr p" shows "\<exists>q. denotes p q"
proof -
  let ?s = "to_upper (trim_space s)"
  obtain call suffix where cs: "(case cut_byte CHR ''-'' ?s of None \<Rightarrow> (?s, []) | Some p \<Rightarrow> p) = (call, suffix)" by fastforce
  have call: "wf_call_text call"
    using assms cs by (auto simp: ValidatePattern_def Let_def check_pattern_call_None split: if_splits option.splits)
  consider "p = call" | "p = call @ ''-*''" | n where "p = call @ ''-'' @ dec_string (nat n)" "0 \<le> n" "n \<le> 15"
    using assms cs by (auto simp: ValidatePattern_def Let_def split: if_splits option.splits)
  then show ?thesis
  proof cases
    case 3
    then have "nat n \<le> 15" by simp
    then show ?thesis using denotes_ssid[OF call] 3(1) by blast
  qed (use denotes_bare[OF call] denotes_any[OF call] in blast)+
qed

text \<open>The two readings agree on what has been validated.\<close>

lemma suffix_number_dec: "n \<le> 15 \<Longrightarrow> suffix_number 0 (dec_string n) = int n"
proof -
  have "list_all (\<lambda>n. suffix_number 0 (dec_string n) = int n) [0..<16]" by code_simp
  then show "n \<le> 15 \<Longrightarrow> suffix_number 0 (dec_string n) = int n" by (simp add: list_all_iff)
qed

definition pattern_char :: "char \<Rightarrow> bool" where
  "pattern_char c \<longleftrightarrow> is_call_char c \<or> c = CHR ''-'' \<or> c = CHR ''*''"

lemma pattern_char_props:
  assumes "pattern_char c" shows "33 \<le> byte_of c \<and> byte_of c < 128" "is_ascii c" "upper_char c = c"
  using assms
  by (auto simp: pattern_char_def is_call_char_def is_upper_def is_digit_def is_ascii_def upper_char_def is_lower_def
      word_less_nat_alt word_le_nat_alt)

lemma denotes_chars: "denotes p q \<Longrightarrow> list_all pattern_char p"
  by (induction rule: denotes.induct)
    (use dec_string_digits in \<open>fastforce simp: wf_call_text_def pattern_char_def list_all_iff digit_not_special(7)\<close>)+

lemma denotes_verbatim:
  assumes "denotes p q" shows "trim_space p = p" "to_upper p = p" "p \<noteq> []"
proof -
  have c: "list_all pattern_char p" by (rule denotes_chars[OF assms])
  show ne: "p \<noteq> []" using assms by (cases rule: denotes.cases) (auto simp: wf_call_text_def)
  show "trim_space p = p"
    using c pattern_char_props(1) by (intro trim_space_graphic[OF ne]) (auto simp: list_all_iff)
  have "to_upper p = map upper_char p"
    using c pattern_char_props(2) by (intro to_upper_ascii) (auto simp: list_all_iff)
  then show "to_upper p = p" using c pattern_char_props(3) by (simp add: list_all_iff map_idI)
qed

lemma denotes_cut:
  assumes "wf_call_text call"
  shows "cut_byte CHR ''-'' call = None" "cut_byte CHR ''-'' (call @ CHR ''-'' # t) = Some (call, t)"
  using wf_call_text_no_dash[OF assms] by (auto intro: cut_byte_None cut_byte_append)

lemma dec_string_not_star: "dec_string n \<noteq> ''*''"
  using hd_dec_string[of n] digit_not_special(3)[of "hd (dec_string n)"] by auto

lemma ValidatePattern_fixed:
  assumes "denotes p q" shows "ValidatePattern p = Inr p"
  using assms
proof (cases rule: denotes.cases)
  case (denotes_ssid call n)
  have "n < 2 ^ 63" using denotes_ssid(4) by simp
  then show ?thesis
    using denotes_ssid denotes_verbatim[OF assms] atoi_dec_string[of n] dec_string_not_star[of n]
    by (simp add: ValidatePattern_def Let_def denotes_cut check_pattern_call_None[THEN iffD2])
qed (use denotes_verbatim[OF assms] in
  \<open>simp_all add: ValidatePattern_def Let_def denotes_cut check_pattern_call_None[THEN iffD2]\<close>)

lemma matchesEntry_denotes:
  assumes "denotes p q" shows "matchesEntry p src = pattern_matches q src"
  using assms
proof (cases rule: denotes.cases)
  case (denotes_ssid call n)
  then show ?thesis
    using dec_string_not_star[of n] dec_string_digits[of n] suffix_number_dec[of n]
    by (auto simp: matchesEntry_def denotes_cut)
qed (auto simp: matchesEntry_def denotes_cut word_gt_0)

text \<open>
  Validation accepts a pattern only in a canonical form it leaves unchanged, and
  matching that form is exactly the pattern's meaning: the call sign in any letter case with one
  SSID, or with any SSID but 0.
\<close>

theorem blocklist_pattern_meaning:
  assumes "ValidatePattern s = Inr p"
  shows "ValidatePattern p = Inr p \<and> (\<exists>q. denotes p q \<and> (\<forall>src. matchesEntry p src = pattern_matches q src))"
proof -
  obtain q where q: "denotes p q" using ValidatePattern_denotes[OF assms] by blast
  then show ?thesis using ValidatePattern_fixed matchesEntry_denotes by blast
qed

theorem blocklist_pattern_meaning_witness:
  "ValidatePattern ''NW5W-9'' = Inr ''NW5W-9'' \<and>
   matchesEntry ''NW5W-9'' \<lparr>Call = ''nw5w'', SSID = 9, Repeated = True\<rparr>"
proof -
  have v: "ValidatePattern '' nw5w-09 '' = Inr ''NW5W-9''" by code_simp
  have "matchesEntry ''NW5W-9'' \<lparr>Call = ''nw5w'', SSID = 9, Repeated = True\<rparr>" by code_simp
  then show ?thesis using blocklist_pattern_meaning[OF v] by blast
qed

end
