(* ===== verification/Digi_Props.thy ===== *)
theory Digi_Props
  imports Digipeater
begin

text \<open>
  What the digipeater guarantees: the guards of a retransmission, the bound on the number of
  times a frame can travel through digipeaters, the alias rule, and the suppression of
  duplicates over a run of received frames.
\<close>

section \<open>Slots and hops\<close>

text \<open>
  The hops a path still asks for: a slot that is not consumed asks for as many as its SSID says (WIDE2-2 for two), and for
  one when it has none (a call sign, an alias).
\<close>

definition slot_hops :: "address \<Rightarrow> nat" where
  "slot_hops a = (if Repeated a then 0 else max 1 (unat (SSID a)))"

definition path_hops :: "address list \<Rightarrow> nat" where
  "path_hops path = sum_list (map slot_hops path)"

lemma path_hops_simps [simp]:
  "path_hops [] = 0" "path_hops (a # p) = slot_hops a + path_hops p" "path_hops (p @ q) = path_hops p + path_hops q"
  by (simp_all add: path_hops_def)

lemma slot_hops_repeated [simp]: "slot_hops (a\<lparr>Repeated := True\<rparr>) = 0" "slot_hops \<lparr>Call = c, SSID = s, Repeated = True\<rparr> = 0"
  by (simp_all add: slot_hops_def)

lemma slot_hops_pos: "\<not> Repeated a \<Longrightarrow> 0 < slot_hops a"
  by (simp add: slot_hops_def)

lemma path_hops_update:
  assumes "i < length p"
  shows "path_hops (p[i := a]) + slot_hops (p ! i) = path_hops p + slot_hops a"
proof -
  have "path_hops (p[i := a]) = path_hops (take i p) + slot_hops a + path_hops (drop (Suc i) p)"
    using assms by (simp add: upd_conv_take_nth_drop)
  moreover have "path_hops p = path_hops (take i p) + slot_hops (p ! i) + path_hops (drop (Suc i) p)"
    using assms by (subst id_take_nth_drop[of i p]) simp_all
  ultimately show ?thesis by simp
qed

lemma path_hops_split: "path_hops (take i p) + path_hops (drop i p) = path_hops p"
  by (metis append_take_drop_id path_hops_simps(3))

lemma path_hops_bound: "list_all wf_address path \<Longrightarrow> path_hops path \<le> 15 * length path"
  by (induction path) (auto simp: slot_hops_def wf_address_def dest!: unat_le_15)

lemma firstUnconsumed_Some:
  "firstUnconsumed path = Some i \<Longrightarrow> i < length path \<and> \<not> Repeated (path ! i) \<and> list_all Repeated (take i path)"
  by (induction path arbitrary: i) (auto split: if_splits)

lemma firstUnconsumed_None: "firstUnconsumed path = None \<longleftrightarrow> list_all Repeated path"
  by (induction path) auto

lemma preempt_slot_Some:
  "preempt_slot mycall path slot = Some i \<Longrightarrow> slot \<le> i \<and> i < length path \<and> \<not> Repeated (path ! i) \<and> addressEqual (path ! i) mycall"
  by (auto simp: preempt_slot_def find_Some_iff)

lemma consume_upto_hops:
  assumes "i < length path" "\<not> Repeated (path ! i)"
  shows "path_hops (consume_upto i path) < path_hops path"
proof -
  have zero: "path_hops (map (\<lambda>a. a\<lparr>Repeated := True\<rparr>) p) = 0" for p by (induction p) simp_all
  have "slot_hops (path ! i) \<le> path_hops (take (Suc i) path)"
    using assms(1) by (simp add: take_Suc_conv_app_nth)
  then show ?thesis
    using slot_hops_pos[OF assms(2)] path_hops_split[of "Suc i" path] zero by (simp add: consume_upto_def)
qed

text \<open>A rule consumes one hop, and the path stays within eight slots.\<close>

lemma applyMatch_path:
  assumes "applyMatch f slot r mycall = Some (note, g)" "slot < length (fPath f)" "\<not> Repeated (fPath f ! slot)"
  shows "g = f\<lparr>fPath := fPath g\<rparr>" "path_hops (fPath g) < path_hops (fPath f)"
    "length (fPath g) \<le> max MaxRepeaters (length (fPath f))"
proof -
  let ?e = "fPath f ! slot"
  consider (exact) "g = f\<lparr>fPath := (fPath f)[slot := ?e\<lparr>Repeated := True\<rparr>]\<rparr>"
    | (hop) e where "SSID ?e \<noteq> 0" "slot_hops e < slot_hops ?e"
        "g = f\<lparr>fPath := (fPath f)[slot := e]\<rparr> \<or>
         length (fPath f) < MaxRepeaters \<and> g = f\<lparr>fPath := take slot ((fPath f)[slot := e])
           @ [\<lparr>Call = Call mycall, SSID = SSID mycall, Repeated = True\<rparr>] @ drop slot ((fPath f)[slot := e])\<rparr>"
  proof -
    let ?d = "?e\<lparr>SSID := SSID ?e - 1\<rparr>"
    let ?e' = "if SSID ?d = 0 then ?d\<lparr>Repeated := True\<rparr> else ?d"
    have "slot_hops ?e' < slot_hops ?e" if "SSID ?e \<noteq> 0"
    proof -
      have u: "unat (SSID ?e - 1) = unat (SSID ?e) - 1" using that by (rule unat_minus_one)
      then have "SSID ?e - 1 = 0 \<longleftrightarrow> unat (SSID ?e) - 1 = 0" by (metis unat_0_iff)
      moreover have "0 < unat (SSID ?e)" using that by (simp add: unat_gt_0)
      ultimately show ?thesis using assms(3) u by (auto simp: slot_hops_def)
    qed
    moreover have "g = f\<lparr>fPath := (fPath f)[slot := ?e\<lparr>Repeated := True\<rparr>]\<rparr> \<or>
        SSID ?e \<noteq> 0 \<and> (g = f\<lparr>fPath := (fPath f)[slot := ?e']\<rparr> \<or>
         length (fPath f) < MaxRepeaters \<and> g = f\<lparr>fPath := take slot ((fPath f)[slot := ?e'])
           @ [\<lparr>Call = Call mycall, SSID = SSID mycall, Repeated = True\<rparr>] @ drop slot ((fPath f)[slot := ?e'])\<rparr>)"
      using assms(1) by (auto simp: applyMatch_def Let_def split: if_splits)
    ultimately show thesis using that by blast
  qed
  then have "g = f\<lparr>fPath := fPath g\<rparr> \<and> path_hops (fPath g) < path_hops (fPath f)
      \<and> length (fPath g) \<le> max MaxRepeaters (length (fPath f))"
  proof cases
    case exact
    then show ?thesis
      using path_hops_update[OF assms(2), of "?e\<lparr>Repeated := True\<rparr>"] slot_hops_pos[OF assms(3)] by simp
  next
    case (hop e)
    have "path_hops ((fPath f)[slot := e]) < path_hops (fPath f)"
      using path_hops_update[OF assms(2), of e] hop(2) by simp
    then show ?thesis
      using hop(3) path_hops_split[of slot "(fPath f)[slot := e]"] assms(2) by (elim disjE) simp_all
  qed
  then show "g = f\<lparr>fPath := fPath g\<rparr>" "path_hops (fPath g) < path_hops (fPath f)"
    "length (fPath g) \<le> max MaxRepeaters (length (fPath f))" by blast+
qed

section \<open>Channels\<close>

lemma redirect_not_packet: "\<not> packet_mode modes rx \<Longrightarrow> \<not> packet_mode modes (redirect modes rx mycall rs)"
  by (induction rs) auto

lemma match_rule_Some:
  "match_rule modes rx a rs = Some r \<Longrightarrow>
    r \<in> set rs \<and> drFromChannel r = rx \<and> ruleMatches r a \<and> (\<not> packet_mode modes rx \<longrightarrow> \<not> packet_mode modes (drToChannel r))"
  by (induction rs) (auto split: if_splits)

section \<open>The handler\<close>

lemma submitClone_effects:
  "submitClone submit from to clone note d = (ok, effs, d') \<Longrightarrow>
    (ok \<longleftrightarrow> submit to clone \<lparr>ssKind = ''digipeater'', ssDetail = note, ssPriority = PriorityDigipeated, ssSkipDedup = False\<rparr>)
    \<and> (Submitted ch g src \<in> set effs \<longleftrightarrow>
         ch = to \<and> g = clone \<and> src = \<lparr>ssKind = ''digipeater'', ssDetail = note, ssPriority = PriorityDigipeated, ssSkipDedup = False\<rparr>)
    \<and> length (filter (\<lambda>e. case e of Submitted _ _ _ \<Rightarrow> True | _ \<Rightarrow> False) effs) = 1
    \<and> d' = digi_count (\<lambda>s. s\<lparr>dsPackets := dsPackets s + 1\<rparr>) d"
  by (auto simp: submitClone_def Let_def split: if_splits)

lemma submitClone_state:
  "submitClone submit from to clone note d = (ok, effs, d') \<Longrightarrow> d' = digi_count (\<lambda>s. s\<lparr>dsPackets := dsPackets s + 1\<rparr>) d"
  by (simp add: submitClone_effects)

lemma digi_count_fields [simp]:
  "dgEnabled (digi_count f d) = dgEnabled d" "dgMycall (digi_count f d) = dgMycall d" "dgRules (digi_count f d) = dgRules d"
  "dgDedup (digi_count f d) = dgDedup d" "dgBlocklist (digi_count f d) = dgBlocklist d"
  by (simp_all add: digi_count_def)

text \<open>Every branch of the routing that transmits.\<close>

lemma digipeat_cases:
  assumes "digipeat modes submit rx f mycall rules d = (ok, effs, d')"
  obtains (quiet) "\<not> ok" "effs = []" "d' = d"
  | (preempt) slot i where "firstUnconsumed (fPath f) = Some slot" "\<not> addressEqual (fSource f) mycall"
      "preempt_slot mycall (fPath f) slot = Some i"
      "submitClone submit rx (redirect modes rx mycall rules) (f\<lparr>fPath := consume_upto i (fPath f)\<rparr>)
         (''preemptive '' @ address_string mycall) d = (ok, effs, d')"
  | (ruled) slot r why g where "firstUnconsumed (fPath f) = Some slot" "\<not> addressEqual (fSource f) mycall"
      "match_rule modes rx (fPath f ! slot) rules = Some r" "applyMatch f slot r mycall = Some (why, g)"
      "submitClone submit rx (drToChannel r) g why d = (ok, effs, d')"
proof -
  consider "firstUnconsumed (fPath f) = None"
    | slot where "firstUnconsumed (fPath f) = Some slot" by (cases "firstUnconsumed (fPath f)") auto
  then show thesis
  proof cases
    case 1
    then show thesis using assms quiet by (simp add: digipeat_def)
  next
    case (2 slot)
    consider "addressEqual (fSource f) mycall" | i where "\<not> addressEqual (fSource f) mycall" "preempt_slot mycall (fPath f) slot = Some i"
      | "\<not> addressEqual (fSource f) mycall" "preempt_slot mycall (fPath f) slot = None"
      by (cases "preempt_slot mycall (fPath f) slot") auto
    then show thesis
    proof cases
      case 1
      then show thesis using assms 2 quiet by (simp add: digipeat_def)
    next
      case (2 i)
      then show thesis using assms \<open>firstUnconsumed (fPath f) = Some slot\<close> preempt by (simp add: digipeat_def)
    next
      case 3
      then show thesis
        using assms 2 quiet ruled
        by (auto simp: digipeat_def split: option.splits if_splits)
    qed
  qed
qed

lemma digipeat_state:
  "digipeat modes submit rx f mycall rules d = (ok, effs, d') \<Longrightarrow>
    dgEnabled d' = dgEnabled d \<and> dgMycall d' = dgMycall d \<and> dgRules d' = dgRules d \<and> dgDedup d' = dgDedup d
    \<and> dgBlocklist d' = dgBlocklist d"
  by (erule digipeat_cases) (simp, (drule submitClone_state, simp)+)

text \<open>What is transmitted is the frame with another path, on a channel that carries APRS.\<close>

lemma digipeat_submits:
  assumes "digipeat modes submit rx f mycall rules d = (ok, effs, d')" "Submitted ch g src \<in> set effs" "\<not> packet_mode modes rx"
  shows "\<not> addressEqual (fSource f) mycall" "\<not> packet_mode modes ch" "g = f\<lparr>fPath := fPath g\<rparr>"
    "path_hops (fPath g) < path_hops (fPath f)" "length (fPath g) \<le> max MaxRepeaters (length (fPath f))"
    "ssPriority src = PriorityDigipeated \<and> ok = submit ch g src"
proof -
  have "\<not> addressEqual (fSource f) mycall \<and> \<not> packet_mode modes ch \<and> g = f\<lparr>fPath := fPath g\<rparr>
      \<and> path_hops (fPath g) < path_hops (fPath f) \<and> length (fPath g) \<le> max MaxRepeaters (length (fPath f))
      \<and> ssPriority src = PriorityDigipeated \<and> ok = submit ch g src"
    using assms(1)
  proof (cases rule: digipeat_cases)
    case quiet
    then show ?thesis using assms(2) by simp
  next
    case (preempt slot i)
    have i: "i < length (fPath f)" "\<not> Repeated (fPath f ! i)" using preempt_slot_Some[OF preempt(3)] by auto
    show ?thesis
      using submitClone_effects[OF preempt(4), of ch g src] assms(2,3) redirect_not_packet[OF assms(3)] preempt(2)
        consume_upto_hops[OF i] i
      by (simp add: consume_upto_def)
  next
    case (ruled slot r why g')
    have slot: "slot < length (fPath f)" "\<not> Repeated (fPath f ! slot)" using firstUnconsumed_Some[OF ruled(1)] by auto
    show ?thesis
      using submitClone_effects[OF ruled(5), of ch g src] assms(2,3) match_rule_Some[OF ruled(3)] ruled(2)
        applyMatch_path[OF ruled(4) slot] by simp
  qed
  then show "\<not> addressEqual (fSource f) mycall" "\<not> packet_mode modes ch" "g = f\<lparr>fPath := fPath g\<rparr>"
    "path_hops (fPath g) < path_hops (fPath f)" "length (fPath g) \<le> max MaxRepeaters (length (fPath f))"
    "ssPriority src = PriorityDigipeated \<and> ok = submit ch g src" by blast+
qed

definition may_digipeat :: "mode_lookup \<Rightarrow> u32 \<Rightarrow> frame \<Rightarrow> digipeater \<Rightarrow> bool" where
  "may_digipeat modes rx f d \<longleftrightarrow>
     IsUI f \<and> \<not> packet_mode modes rx \<and> dgEnabled d \<and> Call (dgMycall d) \<noteq> []
     \<and> \<not> IsN0Call (address_string (dgMycall d)) \<and> block_matches (dgBlocklist d) (fSource f) = None"

lemma Handle_guarded:
  assumes "\<not> may_digipeat modes rx f d"
  shows "\<exists>d'. Handle modes submit now rx (Some f) d = (False, [], d') \<and> dgDedup d' = dgDedup d"
  using assms by (auto simp: Handle_def may_digipeat_def Let_def split: option.split)

lemma Handle_passes:
  assumes "may_digipeat modes rx f d" "dw_inv (dgDedup d)"
  shows "Handle modes submit now rx (Some f) d =
    (if has_key (dgDedup d) now (PathDedupKey f)
     then (False, if dgOnDedup d then [DedupHook] else [],
           digi_count (\<lambda>s. s\<lparr>dsDeduped := dsDeduped s + 1\<rparr>) (d\<lparr>dgDedup := Record now (PathDedupKey f) () (dgDedup d)\<rparr>))
     else digipeat modes submit rx f (dgMycall d) (dgRules d) (d\<lparr>dgDedup := Record now (PathDedupKey f) () (dgDedup d)\<rparr>))"
  using assms by (auto simp: Handle_def may_digipeat_def Let_def Seen_unit)

lemma Handle_submits:
  assumes "Handle modes submit now rx (Some f) d = (ok, effs, d')" "Submitted ch g src \<in> set effs"
  shows "may_digipeat modes rx f d" "\<exists>d1 d2. digipeat modes submit rx f (dgMycall d) (dgRules d) d1 = (ok, effs, d2)"
proof -
  show may: "may_digipeat modes rx f d" using Handle_guarded[of modes rx f d submit now] assms by force
  show "\<exists>d1 d2. digipeat modes submit rx f (dgMycall d) (dgRules d) d1 = (ok, effs, d2)"
    using may assms
    by (fastforce simp: Handle_def may_digipeat_def Let_def split: option.splits if_splits prod.splits)
qed

section \<open>Guards\<close>

definition example_digipeater :: digipeater where
  "example_digipeater =
     \<lparr>dgEnabled = True, dgMycall = \<lparr>Call = ''DIGI'', SSID = 1, Repeated = False\<rparr>,
      dgRules = [\<lparr>drFromChannel = 1, drToChannel = 1, drAlias = ''WIDE'', drAliasType = ''widen'', drMaxHops = 2,
                  drAction = ''repeat'', drPriority = 100\<rparr>],
      dgOnPkt = True, dgOnDedup = True, dgDedup = \<lparr>dwTTL = seconds30, dwGC = 64, dwSeen = []\<rparr>,
      dgBlocklist = [], dgStats = \<lparr>dsPackets = 0, dsDeduped = 0, dsBlocked = 0\<rparr>\<rparr>"

definition wide_frame :: "u8 \<Rightarrow> bool \<Rightarrow> frame" where
  "wide_frame n heard =
     \<lparr>fDest = \<lparr>Call = ''APRS'', SSID = 0, Repeated = False\<rparr>, fSource = \<lparr>Call = ''NW5W'', SSID = 9, Repeated = False\<rparr>,
      fPath = (if heard then [\<lparr>Call = ''DIGI'', SSID = 1, Repeated = True\<rparr>] else [])
        @ [\<lparr>Call = ''WIDE2'', SSID = n, Repeated = False\<rparr>],
      fControl = ControlUI, fPID = PIDNoLayer3, fInfo = [0x3E, 0x68], fCommandResp = True,
      fConnectedControl = [], fConnectedHasInfo = False\<rparr>"

text \<open>
  Property C13. A frame is transmitted again only by an enabled digipeater with a real call sign,
  only when it is a UI frame of a source that is neither the station itself nor on the block list,
  and only between channels that are not packet-only; the copy differs from the frame in the path
  alone, carries the digipeater's priority, and the answer is the transmit sink's.
\<close>

theorem digipeat_guarded:
  assumes "Handle modes submit now rx (Some f) d = (ok, effs, d')" "Submitted ch g src \<in> set effs"
  shows "may_digipeat modes rx f d \<and> \<not> addressEqual (fSource f) (dgMycall d) \<and> \<not> packet_mode modes ch
    \<and> g = f\<lparr>fPath := fPath g\<rparr> \<and> length (fPath g) \<le> max MaxRepeaters (length (fPath f))
    \<and> ssPriority src = PriorityDigipeated \<and> ok = submit ch g src"
proof -
  have may: "may_digipeat modes rx f d" by (rule Handle_submits(1)[OF assms])
  then have np: "\<not> packet_mode modes rx" by (simp add: may_digipeat_def)
  obtain d1 d2 where e: "digipeat modes submit rx f (dgMycall d) (dgRules d) d1 = (ok, effs, d2)"
    using Handle_submits(2)[OF assms] by blast
  note D = digipeat_submits[OF e assms(2) np]
  show ?thesis by (intro conjI may D(1,2,3,5) D(6)[THEN conjunct1] D(6)[THEN conjunct2])
qed

lemma example_handled:
  "fst (snd (Handle None (\<lambda>_ _ _. True) 0 1 (Some (wide_frame 2 False)) example_digipeater))
    = [Submitted 1 (wide_frame 1 True) \<lparr>ssKind = ''digipeater'', ssDetail = ''widen WIDE2-1'', ssPriority = 2, ssSkipDedup = False\<rparr>,
       PacketHook ''widen WIDE2-1'' 1 1 (wide_frame 1 True)]"
  by code_simp

theorem digipeat_guarded_witness:
  "wide_frame 1 True = (wide_frame 2 False)\<lparr>fPath := fPath (wide_frame 1 True)\<rparr>"
proof -
  obtain ok d' where "Handle None (\<lambda>_ _ _. True) 0 1 (Some (wide_frame 2 False)) example_digipeater
      = (ok, fst (snd (Handle None (\<lambda>_ _ _. True) 0 1 (Some (wide_frame 2 False)) example_digipeater)), d')"
    by (metis prod.collapse)
  from digipeat_guarded[OF this, of 1 "wide_frame 1 True"] show ?thesis unfolding example_handled by fastforce
qed

section \<open>Termination across stations\<close>

text \<open>
  A frame travels: \<open>relayed f n g\<close> says that \<open>g\<close> is \<open>f\<close> after \<open>n\<close> retransmissions, each by any
  digipeater in any state, with any rules, at any time.
\<close>

inductive relayed :: "frame \<Rightarrow> nat \<Rightarrow> frame \<Rightarrow> bool" for f where
  relayed_start: "relayed f 0 f"
| relayed_hop: "relayed f n g \<Longrightarrow> Handle modes submit now rx (Some g) d = (ok, effs, d') \<Longrightarrow>
    Submitted ch h src \<in> set effs \<Longrightarrow> relayed f (Suc n) h"

lemma Handle_hops:
  assumes "Handle modes submit now rx (Some f) d = (ok, effs, d')" "Submitted ch g src \<in> set effs"
  shows "path_hops (fPath g) < path_hops (fPath f)"
proof -
  have "\<not> packet_mode modes rx" using Handle_submits(1)[OF assms] by (simp add: may_digipeat_def)
  then show ?thesis using Handle_submits(2)[OF assms] digipeat_submits(4) assms(2) by blast
qed

lemma relayed_hops: "relayed f n g \<Longrightarrow> n + path_hops (fPath g) \<le> path_hops (fPath f)"
  by (induction rule: relayed.induct) (use Handle_hops in force)+

text \<open>
  Property C12. However many digipeaters hear it and however they are configured, along any chain a frame is retransmitted
  at most as often as its path asks for hops: a slot that is not used up asks for as many as its SSID, or one when that is 0;
  the hops left after any part of the chain account for what was retransmitted, and 120 retransmissions are the most.
\<close>

theorem digipeating_terminates:
  assumes "relayed f n g" "list_all wf_address (fPath f)" "length (fPath f) \<le> MaxRepeaters"
  shows "n + path_hops (fPath g) \<le> path_hops (fPath f) \<and> n \<le> 120"
  using relayed_hops[OF assms(1)] path_hops_bound[OF assms(2)] assms(3) by (simp add: MaxRepeaters_def)

theorem digipeating_terminates_witness: "path_hops (fPath (wide_frame 1 True)) + 1 \<le> path_hops (fPath (wide_frame 2 False))"
proof -
  obtain ok d' where h: "Handle None (\<lambda>_ _ _. True) 0 1 (Some (wide_frame 2 False)) example_digipeater
      = (ok, fst (snd (Handle None (\<lambda>_ _ _. True) 0 1 (Some (wide_frame 2 False)) example_digipeater)), d')"
    by (metis prod.collapse)
  have "relayed (wide_frame 2 False) (Suc 0) (wide_frame 1 True)"
    by (rule relayed_hop[OF relayed_start h]) (unfold example_handled, fastforce)
  moreover have "list_all wf_address (fPath (wide_frame 2 False))" "length (fPath (wide_frame 2 False)) \<le> MaxRepeaters"
    by code_simp+
  ultimately show ?thesis using digipeating_terminates by fastforce
qed

section \<open>The alias rule\<close>

text \<open>
  An alias rule takes a slot of the form alias, digit n, remaining hops N exactly when
  1 \<open>\<le>\<close> N \<open>\<le>\<close> n and n is within the rule's limit. The form without a digit is compared with the
  limit in eight bits: a limit that is a multiple of 256 takes none.
\<close>

theorem alias_rule:
  assumes "list_all is_upper base" "1 \<le> n" "n \<le> 9"
  shows "(matchesWidenAlias base maxHops \<lparr>Call = base @ dec_string n, SSID = N, Repeated = rep\<rparr>
      \<longleftrightarrow> 1 \<le> unat N \<and> unat N \<le> n \<and> n \<le> unat maxHops)
    \<and> (matchesWidenAlias base maxHops \<lparr>Call = base, SSID = N, Repeated = rep\<rparr>
      \<longleftrightarrow> 1 \<le> unat N \<and> unat N \<le> unat maxHops mod 256)"
proof -
  have up: "to_upper s = s" if "list_all (\<lambda>c. is_upper c \<or> is_digit c) s" for s
  proof -
    have "is_ascii c \<and> upper_char c = c" if "is_upper c \<or> is_digit c" for c
      using that by (auto simp: is_ascii_def is_upper_def is_digit_def upper_char_def is_lower_def word_less_nat_alt word_le_nat_alt)
    then show ?thesis using that to_upper_ascii[of s] by (auto simp: list_all_iff intro: map_idI)
  qed
  have ub: "to_upper base = base" "to_upper (base @ dec_string n) = base @ dec_string n"
    using assms(1) dec_string_digits[of n] by (auto intro!: up simp: list_all_iff)
  have n: "atoi (dec_string n) = Some (int n)" using assms(3) by (intro atoi_dec_string) simp
  have "unat (of_nat n :: u32) = n" using assms(3) by (simp add: unsigned_of_nat take_bit_eq_mod)
  then have lim: "(of_int (int n) :: u32) > maxHops \<longleftrightarrow> n > unat maxHops" by (simp add: word_less_nat_alt)
  have N: "N = 0 \<longleftrightarrow> unat N = 0" "int n < uint N \<longleftrightarrow> n < unat N"
    by (simp add: unat_eq_0) (simp only: uint_nat of_nat_less_iff)
  have "unat (ucast maxHops :: u8) = unat maxHops mod 256"
    by (simp add: unsigned_ucast_eq take_bit_eq_mod)
  then show ?thesis
    using assms(2) N by (auto simp: matchesWidenAlias_def ub has_prefix_def n lim[simplified] word_le_nat_alt)
qed

theorem alias_rule_witness:
  "matchesWidenAlias ''WIDE'' 2 \<lparr>Call = ''WIDE2'', SSID = 1, Repeated = False\<rparr> \<and>
   \<not> matchesWidenAlias ''WIDE'' 256 \<lparr>Call = ''WIDE'', SSID = 1, Repeated = False\<rparr>"
proof -
  have "list_all is_upper ''WIDE''" "dec_string 2 = ''2''" by code_simp+
  with alias_rule[of "''WIDE''" 2 2 1 False] alias_rule[of "''WIDE''" 2 256 1 False] show ?thesis by simp
qed

section \<open>Duplicates over a run\<close>

text \<open>
  Frames as they are received, each with its time and the answers the lookup and the sink give;
  the result lists the received frames that were transmitted again.
\<close>

record reception =
  rcNow :: int
  rcModes :: mode_lookup
  rcSubmit :: "u32 \<Rightarrow> frame \<Rightarrow> submit_source \<Rightarrow> bool"
  rcChannel :: u32
  rcFrame :: frame

definition is_submission :: "digi_effect \<Rightarrow> bool" where
  "is_submission e = (case e of Submitted _ _ _ \<Rightarrow> True | _ \<Rightarrow> False)"

fun digi_run :: "reception list \<Rightarrow> digipeater \<Rightarrow> (int \<times> frame) list \<times> digipeater" where
  "digi_run [] d = ([], d)"
| "digi_run (r # rs) d =
     (let (ok, effs, d1) = Handle (rcModes r) (rcSubmit r) (rcNow r) (rcChannel r) (Some (rcFrame r)) d;
          (outs, d2) = digi_run rs d1
      in (if list_ex is_submission effs then (rcNow r, rcFrame r) # outs else outs, d2))"

definition apart :: "int \<Rightarrow> int \<times> frame \<Rightarrow> int \<times> frame \<Rightarrow> bool" where
  "apart ttl p q \<longleftrightarrow> PathDedupKey (snd p) = PathDedupKey (snd q) \<longrightarrow> fst p + ttl \<le> fst q"

lemma Handle_window:
  assumes "Handle modes submit now rx (Some f) d = (ok, effs, d')" "dw.remembers (dgDedup d) h t0" "t0 \<le> now" "\<forall>(s, k) \<in> h. s \<le> now"
  shows "dwTTL (dgDedup d') = dwTTL (dgDedup d)"
    "\<exists>h'. h \<subseteq> h' \<and> h' \<subseteq> insert (now, PathDedupKey f) h \<and> dw.remembers (dgDedup d') h' now
      \<and> (list_ex is_submission effs \<longrightarrow> (now, PathDedupKey f) \<in> h')"
    "list_ex is_submission effs \<Longrightarrow> \<not> has_key (dgDedup d) now (PathDedupKey f)"
proof -
  let ?k = "PathDedupKey f"
  have inv: "dw_inv (dgDedup d)" using assms(2) by (simp add: dw.remembers_def)
  have "dwTTL (dgDedup d') = dwTTL (dgDedup d)
    \<and> (\<exists>h'. h \<subseteq> h' \<and> h' \<subseteq> insert (now, ?k) h \<and> dw.remembers (dgDedup d') h' now
      \<and> (list_ex is_submission effs \<longrightarrow> (now, ?k) \<in> h'))
    \<and> (list_ex is_submission effs \<longrightarrow> \<not> has_key (dgDedup d) now ?k)"
  proof (cases "may_digipeat modes rx f d")
    case False
    then have "effs = []" "dgDedup d' = dgDedup d" using Handle_guarded[OF False, of submit now] assms(1) by auto
    then show ?thesis using dw.remembers_later[OF assms(2,3)] by auto
  next
    case True
    have "dgDedup d' = Record now ?k () (dgDedup d)"
      using assms(1) digipeat_state unfolding Handle_passes[OF True inv] by (fastforce split: if_splits)
    moreover have "dw.remembers (Record now ?k () (dgDedup d)) (insert (now, ?k) h) now"
      by (rule dw.remembers_note[OF assms(2-4)])
    moreover have "\<not> has_key (dgDedup d) now ?k" if "list_ex is_submission effs"
      using that assms(1) unfolding Handle_passes[OF True inv] by (auto simp: is_submission_def split: if_splits)
    ultimately show ?thesis by (auto simp: dw.ttl_note)
  qed
  then show "dwTTL (dgDedup d') = dwTTL (dgDedup d)"
    "\<exists>h'. h \<subseteq> h' \<and> h' \<subseteq> insert (now, ?k) h \<and> dw.remembers (dgDedup d') h' now
      \<and> (list_ex is_submission effs \<longrightarrow> (now, ?k) \<in> h')"
    "list_ex is_submission effs \<Longrightarrow> \<not> has_key (dgDedup d) now ?k" by blast+
qed

lemma digi_run_apart:
  assumes "dw.remembers (dgDedup d) h t0" "\<forall>(s, k) \<in> h. s \<le> t0" "\<forall>r \<in> set rs. t0 \<le> rcNow r" "sorted (map rcNow rs)"
    "digi_run rs d = (outs, d')"
  shows "sorted_wrt (apart (dwTTL (dgDedup d))) outs
    \<and> (\<forall>(t, f) \<in> set outs. \<forall>(s, k) \<in> h. k = PathDedupKey f \<longrightarrow> s + dwTTL (dgDedup d) \<le> t)"
  using assms
proof (induction rs arbitrary: d h t0 outs d')
  case (Cons r rs)
  let ?ttl = "dwTTL (dgDedup d)" and ?k = "PathDedupKey (rcFrame r)"
  obtain ok effs d1 where H: "Handle (rcModes r) (rcSubmit r) (rcNow r) (rcChannel r) (Some (rcFrame r)) d = (ok, effs, d1)"
    by (metis prod_cases3)
  obtain outs' where run: "digi_run rs d1 = (outs', d')"
    and outs: "outs = (if list_ex is_submission effs then (rcNow r, rcFrame r) # outs' else outs')"
    using Cons.prems(5) H by (auto simp: Let_def split: prod.splits)
  have t: "t0 \<le> rcNow r" and hle: "\<forall>(s, k) \<in> h. s \<le> rcNow r" using Cons.prems(2,3) by fastforce+
  note W = Handle_window[OF H Cons.prems(1) t hle]
  obtain h' where h': "h \<subseteq> h'" "h' \<subseteq> insert (rcNow r, ?k) h" "dw.remembers (dgDedup d1) h' (rcNow r)"
    "list_ex is_submission effs \<longrightarrow> (rcNow r, ?k) \<in> h'" using W(2) by blast
  have "\<forall>(s, k) \<in> h'. s \<le> rcNow r" using h'(2) hle by blast
  moreover have "\<forall>q \<in> set rs. rcNow r \<le> rcNow q" "sorted (map rcNow rs)" using Cons.prems(4) by auto
  ultimately have IH: "sorted_wrt (apart ?ttl) outs'"
    "\<forall>(t, f) \<in> set outs'. \<forall>(s, k) \<in> h'. k = PathDedupKey f \<longrightarrow> s + ?ttl \<le> t"
    using Cons.IH[OF h'(3) _ _ _ run] W(1) by simp_all
  have old: "s + ?ttl \<le> rcNow r" if "(s, ?k) \<in> h" "list_ex is_submission effs" for s
    using dw.remembers_apart[OF Cons.prems(1) that(1) t W(3)[OF that(2)]] .
  show ?case
  proof (cases "list_ex is_submission effs")
    case True
    then have "outs = (rcNow r, rcFrame r) # outs'" using outs by simp
    moreover have "\<forall>q \<in> set outs'. apart ?ttl (rcNow r, rcFrame r) q" using IH(2) h'(4) True by (fastforce simp: apart_def)
    ultimately show ?thesis using IH h'(1) old True by fastforce
  next
    case False
    then show ?thesis using IH h'(1) outs by fastforce
  qed
qed simp

text \<open>
  Over any run of received frames, two frames with the same source, destination, path
  and payload that are both transmitted again are at least the duplicate window apart.
\<close>

theorem digi_dedup_window:
  assumes "digi_run rs d = (outs, d')" "dw_inv (dgDedup d)" "sorted (map rcNow rs)"
  shows "sorted_wrt (apart (dwTTL (dgDedup d))) outs"
proof (cases rs)
  case Nil
  then show ?thesis using assms(1) by simp
next
  case (Cons r rs')
  have "dw.remembers (dgDedup d) {} (rcNow r)" by (rule dw.remembers_empty[OF assms(2)])
  moreover have "\<forall>q \<in> set rs. rcNow r \<le> rcNow q" using assms(3) Cons by auto
  ultimately show ?thesis using digi_run_apart[OF _ _ _ assms(3,1)] by blast
qed

definition heard_at :: "int \<Rightarrow> reception" where
  "heard_at t = \<lparr>rcNow = t, rcModes = None, rcSubmit = \<lambda>_ _ _. True, rcChannel = 1, rcFrame = wide_frame 2 False\<rparr>"

theorem digi_dedup_window_witness:
  "sorted_wrt (apart seconds30) (map (\<lambda>t. (t, wide_frame 2 False)) [0, 40 * 10 ^ 9])"
proof -
  let ?rs = "map heard_at [0, 5 * 10 ^ 9, 40 * 10 ^ 9]"
  have "fst (digi_run ?rs example_digipeater) = map (\<lambda>t. (t, wide_frame 2 False)) [0, 40 * 10 ^ 9]" by code_simp
  then have "digi_run ?rs example_digipeater
      = (map (\<lambda>t. (t, wide_frame 2 False)) [0, 40 * 10 ^ 9], snd (digi_run ?rs example_digipeater))"
    by (metis prod.collapse)
  moreover have "dw_inv (dgDedup example_digipeater)" "dwTTL (dgDedup example_digipeater) = seconds30"
    by (simp_all add: example_digipeater_def dw_inv_def seconds30_def)
  moreover have "sorted (map rcNow ?rs)" by (simp add: heard_at_def)
  ultimately show ?thesis using digi_dedup_window by metis
qed

end
