(* ===== verification/RX_Fanout.thy ===== *)
theory RX_Fanout
  imports KISS_Server Digi_Props LAPB_Manager
begin

text \<open>
  The receive fan-out (\<^verbatim>\<open>pkg/app/rxfanout.go\<close>, \<^verbatim>\<open>kiss.Manager.BroadcastFromChannel\<close>): what
  happens to a frame that was demodulated by the modem or came from a KISS TNC. It composes the KISS
  servers, the digipeater and the LAPB manager. The APRS parser, the classifier of action requests
  and the verdict of the transmit sink are arguments; logging and the station cache are effects.
\<close>

record received_frame =
  rfChannel :: u32
  rfData :: bytes

record station =
  stServers :: "(u32 \<times> kiss_server) list"
  stDigi :: digipeater
  stLapb :: "manager option"
  stAgw :: bool
  stActions :: bool

datatype 'p rx_effect =
    KissWrite u32 nat bytes
  | BroadcastSuppressed u32
  | AgwRaw u32 bytes
  | AgwUI u32 frame
  | DigiEffect digi_effect
  | AprsSubmit 'p
  | StationUpdate 'p
  | PacketLog string "frame option"

text \<open>The shared channel holds 256 frames; a KISS frame that finds it full is dropped and counted.\<close>

definition rx_fanout_cap :: nat where "rx_fanout_cap = 256"

definition kissTncProduce ::
    "received_frame option \<Rightarrow> ingress_source \<Rightarrow> (received_frame \<times> ingress_source) list \<times> nat
      \<Rightarrow> (received_frame \<times> ingress_source) list \<times> nat" where
  "kissTncProduce rf src st =
     (case (rf, st) of
        (None, _) \<Rightarrow> st
      | (Some r, (q, dropped)) \<Rightarrow> if length q < rx_fanout_cap then (q @ [(r, src)], dropped) else (q, dropped + 1))"

text \<open>\<open>skip\<close> is the interface the frame came from, if it came from one.\<close>

definition manager_broadcast :: "(u32 \<times> kiss_server) list \<Rightarrow> u32 \<Rightarrow> bytes \<Rightarrow> u32 option \<Rightarrow> 'p rx_effect list" where
  "manager_broadcast servers channel axBytes skip =
     concat (map (\<lambda>(i, srv).
       if skip = Some i then [BroadcastSuppressed i]
       else map (\<lambda>(c, raw). KissWrite i c raw) (BroadcastFromChannel srv channel axBytes)) servers)"

definition dispatchRxFrame ::
    "mode_lookup \<Rightarrow> (u32 \<Rightarrow> frame \<Rightarrow> submit_source \<Rightarrow> bool) \<Rightarrow> (frame \<Rightarrow> 'p option) \<Rightarrow> ('p \<Rightarrow> bool) \<Rightarrow> int
      \<Rightarrow> received_frame \<Rightarrow> ingress_source \<Rightarrow> station \<Rightarrow> 'p rx_effect list \<times> station" where
  "dispatchRxFrame modes sink parse classify now rf src st =
     (let (logSource, skip) = (case src of FromModem \<Rightarrow> (''modem'', None) | FromKissTnc i \<Rightarrow> (''kiss-tnc'', Some i));
          sent = manager_broadcast (stServers st) (rfChannel rf) (rfData rf) skip
            @ (if stAgw st then [AgwRaw (rfChannel rf) (rfData rf)] else [])
      in case Decode (rfData rf) of
           Inl _ \<Rightarrow> (sent @ [PacketLog logSource None], st)
         | Inr f \<Rightarrow>
             if IsUI f then
               let (_, des, digi) = Handle modes sink now (rfChannel rf) (Some f) (stDigi st);
                   aprs = (case parse f of
                       None \<Rightarrow> []
                     | Some p \<Rightarrow> (if stActions st \<and> classify p then [] else [AprsSubmit p]) @ [StationUpdate p])
               in (sent @ (if stAgw st then [AgwUI (rfChannel rf) f] else []) @ map DigiEffect des @ aprs
                     @ [PacketLog logSource (Some f)],
                   st\<lparr>stDigi := digi\<rparr>)
             else
               (sent @ [PacketLog logSource (Some f)],
                st\<lparr>stLapb := map_option (DispatchRaw (unat (rfChannel rf)) (rfData rf)) (stLapb st)\<rparr>))"

section \<open>Properties\<close>

definition kiss_targets :: "'p rx_effect list \<Rightarrow> u32 set" where
  "kiss_targets es = {i. \<exists>c raw. KissWrite i c raw \<in> set es}"

lemma kiss_targets_append [simp]: "kiss_targets (es @ es') = kiss_targets es \<union> kiss_targets es'"
  by (auto simp: kiss_targets_def)

lemma manager_broadcast_targets:
  "kiss_targets (manager_broadcast servers ch data skip :: 'p rx_effect list)
    = {i. skip \<noteq> Some i \<and> (\<exists>srv. (i, srv) \<in> set servers \<and> BroadcastFromChannel srv ch data \<noteq> [])}"
proof -
  have "KissWrite i c raw \<in> set (manager_broadcast servers ch data skip :: 'p rx_effect list)
      \<longleftrightarrow> skip \<noteq> Some i \<and> (\<exists>srv. (i, srv) \<in> set servers \<and> (c, raw) \<in> set (BroadcastFromChannel srv ch data))" for i c raw
    by (auto simp: manager_broadcast_def split: if_splits)
  then show ?thesis by (auto simp: kiss_targets_def) (metis list.set_intros(1) neq_Nil_conv surj_pair)
qed

lemma broadcast_no_digi: "DigiEffect e \<notin> set (manager_broadcast servers ch data skip)"
  by (auto simp: manager_broadcast_def)

lemma kiss_targets_simps [simp]:
  "kiss_targets [] = {}" "kiss_targets (KissWrite i c raw # es) = insert i (kiss_targets es)"
  "kiss_targets (BroadcastSuppressed i # es) = kiss_targets es" "kiss_targets (AgwRaw ch data # es) = kiss_targets es"
  "kiss_targets (AgwUI ch f # es) = kiss_targets es" "kiss_targets (DigiEffect d # es) = kiss_targets es"
  "kiss_targets (AprsSubmit p # es) = kiss_targets es" "kiss_targets (StationUpdate p # es) = kiss_targets es"
  "kiss_targets (PacketLog s fo # es) = kiss_targets es" "kiss_targets (map DigiEffect des) = {}"
  by (auto simp: kiss_targets_def)

lemma dispatchRxFrame_targets:
  fixes parse :: "frame \<Rightarrow> 'p option"
  shows "kiss_targets (fst (dispatchRxFrame modes sink parse classify now rf src st))
    = kiss_targets (manager_broadcast (stServers st) (rfChannel rf) (rfData rf)
        (case src of FromModem \<Rightarrow> None | FromKissTnc i \<Rightarrow> Some i) :: 'p rx_effect list)"
  by (cases src; cases "Decode (rfData rf)") (simp_all add: dispatchRxFrame_def Let_def split: prod.split option.split)

text \<open>
  A received frame is passed on to the KISS applications of every interface that serves
  its channel, except to the interface it came from, whatever the frame holds.
\<close>

theorem no_self_echo:
  "kiss_targets (fst (dispatchRxFrame modes sink parse classify now rf src st))
    = {i. \<not> IsKissTnc i src \<and> (\<exists>srv. (i, srv) \<in> set (stServers st) \<and> BroadcastFromChannel srv (rfChannel rf) (rfData rf) \<noteq> [])}"
  by (cases src) (simp_all add: dispatchRxFrame_targets manager_broadcast_targets eq_commute)

text \<open>
  The decoded frame decides who else sees it, and its origin does not: a UI frame goes
  to the digipeater and leaves the LAPB sessions alone, any other frame goes to the LAPB manager and
  leaves the digipeater alone, and bytes that do not decode change nothing.
\<close>

theorem received_frame_routed:
  assumes "dispatchRxFrame modes sink parse classify now rf src st = (es, st')"
  shows "(\<exists>e. Decode (rfData rf) = Inl e) \<and> st' = st
    \<or> (\<exists>f. Decode (rfData rf) = Inr f \<and> IsUI f
        \<and> stDigi st' = snd (snd (Handle modes sink now (rfChannel rf) (Some f) (stDigi st)))
        \<and> {d. DigiEffect d \<in> set es} = set (fst (snd (Handle modes sink now (rfChannel rf) (Some f) (stDigi st))))
        \<and> stLapb st' = stLapb st)
    \<or> (\<exists>f. Decode (rfData rf) = Inr f \<and> \<not> IsUI f \<and> stDigi st' = stDigi st
        \<and> stLapb st' = map_option (DispatchRaw (unat (rfChannel rf)) (rfData rf)) (stLapb st))"
proof -
  show ?thesis
  proof (cases "Decode (rfData rf)")
    case (Inl e)
    then show ?thesis using assms by (simp add: dispatchRxFrame_def Let_def split: prod.splits)
  next
    case (Inr f)
    show ?thesis
    proof (cases "IsUI f")
      case True
      obtain ok des d where H: "Handle modes sink now (rfChannel rf) (Some f) (stDigi st) = (ok, des, d)" by (metis prod_cases3)
      have "stDigi st' = d" "stLapb st' = stLapb st" "{x. DigiEffect x \<in> set es} = set des"
        using assms Inr True H
        by (auto simp: dispatchRxFrame_def Let_def broadcast_no_digi split: prod.splits option.splits if_splits)
      then show ?thesis using Inr True H by simp
    next
      case False
      then show ?thesis using assms Inr by (auto simp: dispatchRxFrame_def Let_def split: prod.splits)
    qed
  qed
qed

definition example_station :: station where
  "example_station =
     \<lparr>stServers = [(1, addClient 10 (NewServer (tnc_config ModeModem))), (2, addClient 20 (NewServer (tnc_config ModeTnc)))],
      stDigi = example_digipeater, stLapb = None, stAgw = False, stActions = False\<rparr>"

definition heard_raw :: bytes where
  "heard_raw = (case Encode (wide_frame 2 False) of Inr raw \<Rightarrow> raw | Inl _ \<Rightarrow> [])"

theorem received_frame_routed_witness:
  "dsPackets (dgStats (stDigi (snd (dispatchRxFrame None (\<lambda>_ _ _. True) (\<lambda>_. None :: unit option) (\<lambda>_. False) 0
      \<lparr>rfChannel = 1, rfData = heard_raw\<rparr> (FromKissTnc 2) example_station)))) = 1"
proof -
  let ?r = "dispatchRxFrame None (\<lambda>_ _ _. True) (\<lambda>_. None :: unit option) (\<lambda>_. False) 0
      \<lparr>rfChannel = 1, rfData = heard_raw\<rparr> (FromKissTnc 2) example_station"
  have r: "?r = (fst ?r, snd ?r)" by simp
  have dec: "Decode heard_raw = Inr (wide_frame 2 False)" by code_simp
  have ui: "IsUI (wide_frame 2 False)" by code_simp
  have "dsPackets (dgStats (snd (snd (Handle None (\<lambda>_ _ _. True) 0 1 (Some (wide_frame 2 False)) example_digipeater)))) = 1"
    by code_simp
  then show ?thesis
    using received_frame_routed[OF r] dec ui by (auto simp: example_station_def)
qed

end
