(* ===== verification/APRS_Packet.thy ===== *)
theory APRS_Packet
  imports AX25_Frame
begin

text \<open>
  Decoded APRS packets (\<^verbatim>\<open>pkg/aprs\<close>): the packet type, the message codec
  (\<^verbatim>\<open>message.go\<close>), the TNC-2 line (\<^verbatim>\<open>tnc2.go\<close>), the hop count (\<^verbatim>\<open>path.go\<close>) and
  \<^verbatim>\<open>Parse\<close> with its dispatch on the first byte and the bounded recursion into third-party
  traffic. The parsers of the position, weather, telemetry, object and Mic-E formats are an
  argument \<open>sub\<close>. As in Go a parser hands back a packet together with its error.
\<close>

section \<open>Data\<close>

datatype packet_type =
    PacketUnknown | PacketPosition | PacketMessage | PacketTelemetry | PacketWeather | PacketObject | PacketItem
  | PacketMicE | PacketStatus | PacketCapabilities | PacketDF | PacketQuery | PacketThirdParty

datatype direction = DirectionUnknown | DirectionRF | DirectionIS

record aprs_message =
  amAddressee :: string
  amText :: string
  amMessageID :: string
  amReplyAck :: string
  amHasReplyAck :: bool
  amIsAck :: bool
  amIsRej :: bool
  amIsBulletin :: bool
  amIsNWS :: bool

text \<open>Telemetry metadata by kind; of an EQNS message the texts of the fifteen coefficients.\<close>

datatype telemetry_meta = MetaParm "string list" | MetaUnit "string list" | MetaEqns "string list" | MetaBits u8 string

text \<open>The fields that routing reads; the packet inside third-party traffic is beside them.\<close>

record pkt_data =
  pkRaw :: bytes
  pkSource :: string
  pkDest :: string
  pkPath :: "string list"
  pkType :: packet_type
  pkMessage :: "aprs_message option"
  pkTelemetryMeta :: "telemetry_meta option"
  pkObject :: "string option"
  pkItem :: "string option"
  pkStatus :: string
  pkComment :: string
  pkDirection :: direction
  pkChannel :: int

datatype packet = Packet (data: pkt_data) (pkThirdParty: "packet option")

datatype aprs_err = ErrEmpty | ErrNilFrame | ErrNonUI | ErrMalformedMessage | ErrAddresseeLength | ErrEmptyMessageID | ErrSubParser

type_synonym sub_parser = "frame option \<Rightarrow> pkt_data \<Rightarrow> bytes \<Rightarrow> pkt_data \<times> aprs_err option"

definition new_packet :: pkt_data where
  "new_packet =
     \<lparr>pkRaw = [], pkSource = [], pkDest = [], pkPath = [], pkType = PacketUnknown, pkMessage = None,
      pkTelemetryMeta = None, pkObject = None, pkItem = None, pkStatus = [], pkComment = [],
      pkDirection = DirectionUnknown, pkChannel = 0\<rparr>"

section \<open>Strings\<close>

definition trim_right_of :: "char set \<Rightarrow> string \<Rightarrow> string" where
  "trim_right_of cs s = rev (dropWhile (\<lambda>c. c \<in> cs) (rev s))"

text \<open>\<^verbatim>\<open>strings.LastIndexByte\<close> with the two slices around the hit; \<^verbatim>\<open>strings.TrimSuffix(s, "*")\<close>.\<close>

definition rcut_byte :: "char \<Rightarrow> string \<Rightarrow> (string \<times> string) option" where
  "rcut_byte d s = map_option (\<lambda>(a, b). (rev b, rev a)) (cut_byte d (rev s))"

definition trim_star :: "string \<Rightarrow> string" where
  "trim_star s = (if has_suffix_char s CHR ''*'' then butlast s else s)"

section \<open>Messages\<close>

text \<open>The first \<open>n\<close> comma-separated fields, trimmed, in an array of \<open>n\<close> strings.\<close>

definition field_array :: "nat \<Rightarrow> string \<Rightarrow> string list" where
  "field_array n body =
     (let fields = map trim_space (take n (split_byte CHR '','' body))
      in fields @ replicate (n - length fields) [])"

definition sense_bits :: "string \<Rightarrow> u8" where
  "sense_bits body =
     foldl (\<lambda>acc i. if body ! i = CHR ''1'' then acc OR push_bit (7 - i) 1 else acc) 0 [0..<min (length body) 8]"

definition parseTelemetryMeta :: "string \<Rightarrow> telemetry_meta option" where
  "parseTelemetryMeta text =
     (if has_prefix text ''PARM.'' then Some (MetaParm (field_array 13 (drop 5 text)))
      else if has_prefix text ''UNIT.'' then Some (MetaUnit (field_array 13 (drop 5 text)))
      else if has_prefix text ''EQNS.'' then Some (MetaEqns (field_array 15 (drop 5 text)))
      else if has_prefix text ''BITS.'' then
        (case cut_byte CHR '','' (drop 5 text) of
           Some (body, project) \<Rightarrow> Some (MetaBits (sense_bits body) project)
         | None \<Rightarrow> Some (MetaBits (sense_bits (drop 5 text)) []))
      else None)"

text \<open>The trailer after the last brace: the id, and the piggybacked acknowledgement if there is one.\<close>

definition split_trailer :: "string \<Rightarrow> string \<times> string \<times> string \<times> bool" where
  "split_trailer rest =
     (case rcut_byte CHR ''{'' rest of
        None \<Rightarrow> (rest, [], [], False)
      | Some (text, tail) \<Rightarrow>
          (case cut_byte CHR ''}'' tail of
             Some (mid, ack) \<Rightarrow> (text, mid, ack, True)
           | None \<Rightarrow> (text, tail, [], False)))"

definition ws_cut :: "char set" where
  "ws_cut = {CHR '' '', CHR 0x0D, CHR 0x0A, CHR 0x09}"

definition parseMessage :: "pkt_data \<Rightarrow> bytes \<Rightarrow> pkt_data \<times> aprs_err option" where
  "parseMessage p info =
     (if length info < 3 then (p, Some ErrMalformedMessage)
      else
        let upper = (if 10 \<ge> length info then length info - 1 else 10) in
        case find (\<lambda>i. info ! i = byte_of CHR '':'') [2..<upper + 1] of
          None \<Rightarrow> (p, Some ErrMalformedMessage)
        | Some sep \<Rightarrow>
            let addressee = trim_right_of {CHR '' ''} (string_of (take (sep - 1) (drop 1 info)));
                (rest, mid, ack, hasAck) = split_trailer (string_of (drop (sep + 1) info));
                isAck = has_prefix rest ''ack'';
                isRej = (\<not> isAck \<and> has_prefix rest ''rej'');
                mid = (if isAck \<or> isRej then drop 3 rest else mid);
                rest = (if isAck \<or> isRej then [] else rest);
                p = p\<lparr>pkMessage := Some \<lparr>amAddressee = addressee, amText = rest, amMessageID = trim_right_of ws_cut mid,
                      amReplyAck = trim_right_of ws_cut ack, amHasReplyAck = hasAck, amIsAck = isAck, amIsRej = isRej,
                      amIsBulletin = has_prefix addressee ''BLN'',
                      amIsNWS = list_ex (has_prefix addressee) [''NWS'', ''SKY'', ''CWA'']\<rparr>,
                      pkType := PacketMessage\<rparr>
            in case parseTelemetryMeta rest of
                 None \<Rightarrow> (p, None)
               | Some meta \<Rightarrow> (p\<lparr>pkTelemetryMeta := Some meta, pkType := PacketTelemetry\<rparr>, None))"

definition EncodeMessage :: "string \<Rightarrow> string \<Rightarrow> string \<Rightarrow> aprs_err + bytes" where
  "EncodeMessage addressee text mid =
     (if length addressee = 0 \<or> length addressee > 9 then Inl ErrAddresseeLength
      else Inr (bytes_of ('':'' @ addressee @ replicate (9 - length addressee) CHR '' '' @ '':'' @ text
                 @ (if mid \<noteq> [] then CHR ''{'' # mid else []))))"

definition EncodeMessageAck :: "string \<Rightarrow> string \<Rightarrow> aprs_err + bytes" where
  "EncodeMessageAck addressee mid =
     (if mid = [] then Inl ErrEmptyMessageID else EncodeMessage addressee (''ack'' @ mid) [])"

section \<open>Parsing a frame\<close>

definition FromAX25 :: "frame \<Rightarrow> pkt_data \<Rightarrow> pkt_data" where
  "FromAX25 f p = p\<lparr>pkSource := address_string (fSource f), pkDest := address_string (fDest f),
     pkPath := map address_string (fPath f)\<rparr>"

text \<open>The header \<^verbatim>\<open>SRC>DEST,path\<close> of wrapped traffic, as far as it goes.\<close>

definition inner_header :: "string \<Rightarrow> pkt_data" where
  "inner_header header =
     (case cut_byte CHR ''>'' header of
        None \<Rightarrow> new_packet
      | Some (src, rest) \<Rightarrow>
          (case cut_byte CHR '','' rest of
             Some (dest, path) \<Rightarrow> new_packet\<lparr>pkSource := src, pkDest := dest, pkPath := split_byte CHR '','' path\<rparr>
           | None \<Rightarrow> new_packet\<lparr>pkSource := src, pkDest := rest\<rparr>))"

text \<open>\<open>left\<close> is how many further levels of third-party traffic are opened: two at the top.\<close>

fun parseInfoDepth :: "sub_parser \<Rightarrow> nat \<Rightarrow> frame option \<Rightarrow> pkt_data \<Rightarrow> bytes \<Rightarrow> packet \<times> aprs_err option" where
  "parseInfoDepth sub left fr p info =
     (let c = char_of_byte (hd info) in
      if c = CHR '':'' then (let (p, e) = parseMessage p info in (Packet p None, e))
      else if c = CHR ''?'' then (Packet (p\<lparr>pkType := PacketQuery, pkComment := string_of (tl info)\<rparr>) None, None)
      else if c = CHR ''{'' then (Packet (p\<lparr>pkType := PacketUnknown, pkComment := string_of info\<rparr>) None, None)
      else if c = CHR ''}'' then
        (let p = p\<lparr>pkType := PacketThirdParty, pkComment := string_of (tl info)\<rparr> in
         case left of
           0 \<Rightarrow> (Packet p None, None)
         | Suc n \<Rightarrow>
             (case cut_byte CHR '':'' (string_of (tl info)) of
                None \<Rightarrow> (Packet p None, None)
              | Some (header, inner) \<Rightarrow>
                  if inner = [] then (Packet p None, None)
                  else (Packet p (Some (fst (parseInfoDepth sub n None (inner_header header) (bytes_of inner)))), None)))
      else (let (p, e) = sub fr p info in (Packet p None, e)))"

declare parseInfoDepth.simps [simp del]

definition Parse :: "sub_parser \<Rightarrow> frame option \<Rightarrow> packet option \<times> aprs_err option" where
  "Parse sub fo =
     (case fo of
        None \<Rightarrow> (None, Some ErrNilFrame)
      | Some f \<Rightarrow>
          if \<not> IsUI f then (None, Some ErrNonUI)
          else
            let p = FromAX25 f new_packet;
                p = (case Encode f of Inr enc \<Rightarrow> p\<lparr>pkRaw := enc\<rparr> | Inl _ \<Rightarrow> p)
            in if fInfo f = [] then (Some (Packet p None), Some ErrEmpty)
               else (let (q, e) = parseInfoDepth sub 2 (Some f) p (fInfo f) in (Some q, e)))"

section \<open>TNC-2 lines and paths\<close>

definition FormatTNC2 :: "string \<Rightarrow> string \<Rightarrow> string list \<Rightarrow> bytes \<Rightarrow> string" where
  "FormatTNC2 source dest path info =
     source @ ''>'' @ dest @ concat (map (\<lambda>p. if p = [] then [] else '','' @ p) path) @ '':'' @ string_of info"

definition IsGenericPathAlias :: "string \<Rightarrow> bool" where
  "IsGenericPathAlias call \<longleftrightarrow>
     list_ex (has_prefix (to_upper (trim_star call))) [''WIDE'', ''RELAY'', ''TRACE'', ''TCPIP'', ''TCPXX'', ''QA'']"

definition CountHops :: "string list \<Rightarrow> nat" where
  "CountHops path = length (filter (\<lambda>p. has_suffix_char p CHR ''*'' \<and> \<not> IsGenericPathAlias p) path)"

section \<open>The message codec\<close>

lemma trim_right_of_id: "s = [] \<or> last s \<notin> cs \<Longrightarrow> trim_right_of cs s = s"
  by (cases s rule: rev_cases) (auto simp: trim_right_of_def)

lemma dropWhile_replicate: "y \<noteq> c \<Longrightarrow> dropWhile (\<lambda>x. x = c) (replicate n c @ y # ys) = y # ys"
  by (induction n) simp_all

lemma trim_right_of_pad:
  assumes "s \<noteq> []" "last s \<noteq> c"
  shows "trim_right_of {c} (s @ replicate n c) = s"
  using assms by (cases s rule: rev_cases) (simp_all add: trim_right_of_def dropWhile_replicate)

lemma rcut_byte_None: "d \<notin> set s \<Longrightarrow> rcut_byte d s = None"
  by (simp add: rcut_byte_def cut_byte_None)

lemma rcut_byte_append: "d \<notin> set t \<Longrightarrow> rcut_byte d (s @ d # t) = Some (s, t)"
  by (simp add: rcut_byte_def cut_byte_append)

text \<open>An addressee that the padding and the search for the colon leave whole; an id.\<close>

definition wf_addressee :: "string \<Rightarrow> bool" where
  "wf_addressee a \<longleftrightarrow> a \<noteq> [] \<and> length a \<le> 9 \<and> CHR '':'' \<notin> set (tl a) \<and> last a \<noteq> CHR '' ''"

definition wf_message_id :: "string \<Rightarrow> bool" where
  "wf_message_id i \<longleftrightarrow> CHR ''{'' \<notin> set i \<and> CHR ''}'' \<notin> set i \<and> (i = [] \<or> last i \<notin> ws_cut)"

definition plain_text :: "string \<Rightarrow> bool" where
  "plain_text t \<longleftrightarrow> CHR ''{'' \<notin> set t \<and> \<not> has_prefix t ''ack'' \<and> \<not> has_prefix t ''rej'' \<and> parseTelemetryMeta t = None"

lemma find_append_None: "find P xs = None \<Longrightarrow> find P (xs @ ys) = find P ys"
  by (induction xs) (auto split: if_splits)

lemma find_colon:
  fixes t :: string
  assumes "wf_addressee a"
  defines "info \<equiv> bytes_of ('':'' @ a @ replicate (9 - length a) CHR '' '' @ '':'' @ t)"
  shows "find (\<lambda>i. info ! i = byte_of CHR '':'') [2..<11] = Some 10" "take 9 (drop 1 info) = bytes_of (a @ replicate (9 - length a) CHR '' '')"
    "drop 11 info = bytes_of t"
proof -
  let ?p = "a @ replicate (9 - length a) CHR '' ''"
  have len: "length ?p = 9" using assms(1) by (simp add: wf_addressee_def)
  have info: "info = byte_of CHR '':'' # bytes_of ?p @ byte_of CHR '':'' # bytes_of t"
    by (simp add: info_def bytes_of_def)
  then show "take 9 (drop 1 info) = bytes_of ?p" "drop 11 info = bytes_of t" using len by simp_all
  have sep: "info ! 10 = byte_of CHR '':''" using len by (simp add: info nth_append)
  have p: "?p ! j \<noteq> CHR '':''" if "1 \<le> j" "j < 9" for j
  proof (cases "j < length a")
    case True
    then have "tl a ! (j - 1) \<in> set (tl a)" using that by (intro nth_mem) simp
    moreover have "a ! j = tl a ! (j - 1)" using that True by (simp add: nth_tl)
    ultimately show ?thesis using assms(1) True by (auto simp: nth_append wf_addressee_def)
  next
    case False
    then show ?thesis using that by (simp add: nth_append)
  qed
  have no: "info ! i \<noteq> byte_of CHR '':''" if "2 \<le> i" "i < 10" for i
  proof -
    have lt: "i - 1 < length (bytes_of ?p)" using that len by simp
    have "info ! i = (bytes_of ?p @ byte_of CHR '':'' # bytes_of t) ! (i - 1)" using that by (cases i) (simp_all only: info nth_Cons_Suc diff_Suc_1)
    also have "\<dots> = bytes_of ?p ! (i - 1)" using lt by (simp only: nth_append if_True)
    also have "\<dots> = byte_of (?p ! (i - 1))" using that len by (simp only: bytes_of_def nth_map)
    finally have "info ! i = byte_of (?p ! (i - 1))" .
    moreover have "?p ! (i - 1) \<noteq> CHR '':''" using that by (intro p) simp_all
    ultimately show ?thesis by (simp only: byte_of_inj) blast
  qed
  have "[2..<11] = [2..<10] @ [10::nat]" by (simp add: upt_rec)
  moreover have "find (\<lambda>i. info ! i = byte_of CHR '':'') [2..<10] = None"
    unfolding find_None_iff using no by (auto simp only: set_upt atLeastLessThan_iff)
  ultimately show "find (\<lambda>i. info ! i = byte_of CHR '':'') [2..<11] = Some 10"
    using sep by (simp only: find_append_None find.simps refl if_True)
qed

text \<open>What is made of the part after the addressee, however it splits.\<close>

definition message_of :: "string \<Rightarrow> string \<times> string \<times> string \<times> bool \<Rightarrow> aprs_message" where
  "message_of a tr =
     (let (rest, mid, ack, hasAck) = tr; isAck = has_prefix rest ''ack''; isRej = (\<not> isAck \<and> has_prefix rest ''rej'')
      in \<lparr>amAddressee = a, amText = (if isAck \<or> isRej then [] else rest),
          amMessageID = trim_right_of ws_cut (if isAck \<or> isRej then drop 3 rest else mid), amReplyAck = trim_right_of ws_cut ack,
          amHasReplyAck = hasAck, amIsAck = isAck, amIsRej = isRej, amIsBulletin = has_prefix a ''BLN'',
          amIsNWS = list_ex (has_prefix a) [''NWS'', ''SKY'', ''CWA'']\<rparr>)"

lemma parseMessage_tail:
  assumes "wf_addressee a" "parseTelemetryMeta (amText (message_of a (split_trailer t))) = None"
  shows "parseMessage p (bytes_of ('':'' @ a @ replicate (9 - length a) CHR '' '' @ '':'' @ t))
    = (p\<lparr>pkMessage := Some (message_of a (split_trailer t)), pkType := PacketMessage\<rparr>, None)"
proof -
  let ?info = "bytes_of ('':'' @ a @ replicate (9 - length a) CHR '' '' @ '':'' @ t)"
  note F = find_colon[OF assms(1), of t]
  have len: "length ?info = 11 + length t" using assms(1) by (simp add: wf_addressee_def)
  have trim: "trim_right_of {CHR '' ''} (a @ replicate (9 - length a) CHR '' '') = a"
    using assms(1) by (simp add: trim_right_of_pad wf_addressee_def)
  obtain rest mid ack hasAck where tr: "split_trailer t = (rest, mid, ack, hasAck)" by (metis prod_cases4)
  have "parseMessage p info = (p\<lparr>pkMessage := Some (message_of a (split_trailer t)), pkType := PacketMessage\<rparr>, None)"
    if "info = ?info" for info
  proof -
    have "find (\<lambda>i. info ! i = byte_of CHR '':'') [2..<11] = Some 10" "11 \<le> length info"
      "string_of (take 9 (drop 1 info)) = a @ replicate (9 - length a) CHR '' ''" "string_of (drop 11 info) = t"
      using F len unfolding that by (simp_all only: string_of_bytes_of)
    then show ?thesis using assms(2) by (simp add: parseMessage_def Let_def tr trim message_of_def)
  qed
  then show ?thesis by blast
qed

lemma split_trailer_id:
  "CHR ''{'' \<notin> set t \<Longrightarrow> wf_message_id i \<Longrightarrow> split_trailer (t @ (if i \<noteq> [] then CHR ''{'' # i else [])) = (t, i, [], False)"
  by (cases "i = []") (simp_all add: split_trailer_def rcut_byte_None rcut_byte_append cut_byte_None wf_message_id_def)

lemma trim_id: "wf_message_id i \<Longrightarrow> trim_right_of ws_cut i = i" "trim_right_of ws_cut [] = []"
  by (simp_all add: trim_right_of_id wf_message_id_def)

text \<open>
  A message that is encoded and parsed comes back with its addressee, text and identifier,
  provided the addressee fits its nine columns without a trailing blank or a later colon, the text
  neither contains a brace nor starts like an acknowledgement or a telemetry definition, and the
  identifier contains no brace and no trailing white space.
\<close>

theorem message_roundtrip:
  assumes "wf_addressee a" "plain_text t" "wf_message_id i"
  shows "\<exists>info m. EncodeMessage a t i = Inr info \<and> parseMessage p info = (p\<lparr>pkMessage := Some m, pkType := PacketMessage\<rparr>, None)
    \<and> amAddressee m = a \<and> amText m = t \<and> amMessageID m = i \<and> \<not> amIsAck m \<and> \<not> amIsRej m \<and> \<not> amHasReplyAck m"
proof -
  let ?tail = "t @ (if i \<noteq> [] then CHR ''{'' # i else [])"
  have m: "message_of a (split_trailer ?tail) = (message_of a (t, i, [], False))" "amText (message_of a (t, i, [], False)) = t"
    using assms(2,3) by (simp_all add: split_trailer_id plain_text_def message_of_def)
  have "EncodeMessage a t i = Inr (bytes_of ('':'' @ a @ replicate (9 - length a) CHR '' '' @ '':'' @ ?tail))"
    using assms(1) by (simp add: EncodeMessage_def wf_addressee_def)
  moreover note parseMessage_tail[OF assms(1), of ?tail p]
  moreover have "amAddressee (message_of a (t, i, [], False)) = a \<and> amMessageID (message_of a (t, i, [], False)) = i \<and>
      \<not> amIsAck (message_of a (t, i, [], False)) \<and> \<not> amIsRej (message_of a (t, i, [], False)) \<and> \<not> amHasReplyAck (message_of a (t, i, [], False))"
    using assms(2,3) by (simp add: message_of_def plain_text_def trim_id)
  ultimately show ?thesis using m assms(2) unfolding plain_text_def by metis
qed

theorem message_roundtrip_witness:
  "\<exists>m. parseMessage new_packet (bytes_of '':NW5W-9   :hello{42'') = (new_packet\<lparr>pkMessage := Some m, pkType := PacketMessage\<rparr>, None)
    \<and> amAddressee m = ''NW5W-9'' \<and> amText m = ''hello'' \<and> amMessageID m = ''42''"
proof -
  have "wf_addressee ''NW5W-9''" "plain_text ''hello''" "wf_message_id ''42''" by code_simp+
  moreover have "EncodeMessage ''NW5W-9'' ''hello'' ''42'' = Inr (bytes_of '':NW5W-9   :hello{42'')" by code_simp
  ultimately show ?thesis using message_roundtrip[of "''NW5W-9''" "''hello''" "''42''" new_packet] by auto
qed

text \<open>A text that merely starts with the letters of an acknowledgement is taken for one and lost.\<close>

lemma ack_text_lost:
  "map_option (\<lambda>m. (amText m, amMessageID m, amIsAck m))
     (pkMessage (fst (parseMessage new_packet (bytes_of '':NW5W     :acknowledged{7'')))) = Some ('''', ''nowledged'', True)"
  by code_simp

section \<open>Parsing a frame\<close>

lemma Parse_third_party:
  assumes "IsUI f" "fInfo f \<noteq> []" "char_of_byte (hd (fInfo f)) = CHR ''}''"
  shows "\<exists>q. Parse sub (Some f) = (Some q, None) \<and> pkType (data q) = PacketThirdParty
    \<and> pkSource (data q) = address_string (fSource f)"
  using assms
  by (auto simp: Parse_def parseInfoDepth.simps FromAX25_def Let_def split: option.splits sum.splits)

text \<open>The format parsers fill in the body of a packet and leave its header alone.\<close>

definition keeps_header :: "sub_parser \<Rightarrow> bool" where
  "keeps_header sub \<longleftrightarrow>
     (\<forall>fr p info. let p' = fst (sub fr p info) in
        pkRaw p' = pkRaw p \<and> pkSource p' = pkSource p \<and> pkDest p' = pkDest p \<and> pkPath p' = pkPath p)"

lemma parseMessage_update:
  "\<exists>m t k. fst (parseMessage p info) \<in> {p, p\<lparr>pkMessage := m, pkType := k\<rparr>, p\<lparr>pkMessage := m, pkTelemetryMeta := t, pkType := k\<rparr>}"
proof (cases "length info < 3")
  case False
  let ?find = "find (\<lambda>i. info ! i = byte_of CHR '':'') [2..<(if 10 \<ge> length info then length info - 1 else 10) + 1]"
  show ?thesis
  proof (cases ?find)
    case None
    then show ?thesis using False by (simp only: parseMessage_def Let_def if_False option.case fst_conv) blast
  next
    case (Some sep)
    obtain rest mid ack hasAck where t: "split_trailer (string_of (drop (sep + 1) info)) = (rest, mid, ack, hasAck)"
      by (metis prod_cases4)
    show ?thesis
      using False Some by (simp only: parseMessage_def Let_def if_False option.case t prod.case)
        (split option.split, simp, blast)
  qed
qed (simp add: parseMessage_def)

lemma parseMessage_header:
  "pkRaw (fst (parseMessage p info)) = pkRaw p" "pkSource (fst (parseMessage p info)) = pkSource p"
  "pkDest (fst (parseMessage p info)) = pkDest p" "pkPath (fst (parseMessage p info)) = pkPath p"
  using parseMessage_update[of p info] by (elim exE, auto)+

lemma parseInfoDepth_header:
  assumes "keeps_header sub"
  shows "pkRaw (data (fst (parseInfoDepth sub left fr p info))) = pkRaw p"
    "pkSource (data (fst (parseInfoDepth sub left fr p info))) = pkSource p"
    "pkDest (data (fst (parseInfoDepth sub left fr p info))) = pkDest p"
    "pkPath (data (fst (parseInfoDepth sub left fr p info))) = pkPath p"
proof -
  have S: "pkRaw (fst (sub fr p info)) = pkRaw p" "pkSource (fst (sub fr p info)) = pkSource p"
    "pkDest (fst (sub fr p info)) = pkDest p" "pkPath (fst (sub fr p info)) = pkPath p" for fr p info
    using assms by (simp_all add: keeps_header_def Let_def)
  show "pkRaw (data (fst (parseInfoDepth sub left fr p info))) = pkRaw p"
    "pkSource (data (fst (parseInfoDepth sub left fr p info))) = pkSource p"
    "pkDest (data (fst (parseInfoDepth sub left fr p info))) = pkDest p"
    "pkPath (data (fst (parseInfoDepth sub left fr p info))) = pkPath p"
    by (subst parseInfoDepth.simps, simp add: Let_def case_prod_unfold S parseMessage_header split: nat.split option.split)+
qed

lemma Parse_header:
  assumes "keeps_header sub" "Parse sub (Some f) = (Some q, e)"
  shows "pkRaw (data q) = (case Encode f of Inr enc \<Rightarrow> enc | Inl _ \<Rightarrow> [])" "pkSource (data q) = address_string (fSource f)"
    "pkDest (data q) = address_string (fDest f)" "pkPath (data q) = map address_string (fPath f)"
proof -
  let ?p = "FromAX25 f new_packet"
  let ?p1 = "case Encode f of Inr enc \<Rightarrow> ?p\<lparr>pkRaw := enc\<rparr> | Inl _ \<Rightarrow> ?p"
  have p1: "pkRaw ?p1 = (case Encode f of Inr enc \<Rightarrow> enc | Inl _ \<Rightarrow> [])" "pkSource ?p1 = address_string (fSource f)"
    "pkDest ?p1 = address_string (fDest f)" "pkPath ?p1 = map address_string (fPath f)"
    by (simp_all add: FromAX25_def new_packet_def split: sum.splits)
  have q: "data q = ?p1 \<or> q = fst (parseInfoDepth sub 2 (Some f) ?p1 (fInfo f))"
    using assms(2) by (simp add: Parse_def Let_def case_prod_unfold split: if_splits) auto
  note P = parseInfoDepth_header[OF assms(1), of 2 "Some f" ?p1 "fInfo f"]
  show "pkRaw (data q) = (case Encode f of Inr enc \<Rightarrow> enc | Inl _ \<Rightarrow> [])" "pkSource (data q) = address_string (fSource f)"
    "pkDest (data q) = address_string (fDest f)" "pkPath (data q) = map address_string (fPath f)"
    using q p1 P by (elim disjE; simp only:)+
qed

end
