(* ===== verification/IGate_Filters.thy ===== *)
theory IGate_Filters
  imports APRS_Packet "HOL-Library.Product_Lexorder" "HOL-Library.Multiset"
begin

text \<open>
  The rule engine that decides which packets from APRS-IS may be transmitted
  (\<^verbatim>\<open>pkg/igate/filters/filters.go\<close>): the rules, the insertion sort that orders them, the
  match of a rule against a packet, and the first-match decision. The lemmas identify the
  sort with the library's stable sort on the pair of priority and identifier, and the decision
  with that of the least matching rule.
\<close>

section \<open>Data\<close>

datatype rule_type = TypeCallsign | TypePrefix | TypeMessageDest | TypeObject | TypePacketType | OtherType string

datatype rule_action = ActionAllow | ActionDeny | OtherAction string

record rule =
  frID :: u32
  frPriority :: int
  frType :: rule_type
  frPattern :: string
  frAction :: rule_action

definition lower_char :: "char \<Rightarrow> char" where
  "lower_char c = (if is_upper c then char_of_byte (byte_of c + 32) else c)"

text \<open>
  \<^verbatim>\<open>strings.ToLower\<close>, with the two code points outside ASCII whose lower case is an ASCII
  letter (U+0130 and U+212A).
\<close>

fun to_lower :: "string \<Rightarrow> string" where
  "to_lower [] = []"
| "to_lower (c # cs) =
     (if c = CHR 0xC4 \<and> cs \<noteq> [] \<and> hd cs = CHR 0xB0 then CHR ''i'' # to_lower (tl cs)
      else if c = CHR 0xE2 \<and> take 2 cs = [CHR 0x84, CHR 0xAA] then CHR ''k'' # to_lower (drop 2 cs)
      else lower_char c # to_lower cs)"

definition packetTypeCategories :: "string \<Rightarrow> packet_type list option" where
  "packetTypeCategories = map_of
     [(''message'', [PacketMessage]), (''position'', [PacketPosition, PacketMicE]), (''weather'', [PacketWeather]),
      (''object'', [PacketObject]), (''item'', [PacketItem]), (''telemetry'', [PacketTelemetry]),
      (''status'', [PacketStatus]), (''query'', [PacketQuery])]"

definition PacketTypeCategory :: "string \<Rightarrow> bool" where
  "PacketTypeCategory s \<longleftrightarrow> packetTypeCategories (to_lower (trim_space s)) \<noteq> None"

section \<open>The sort\<close>

definition rule_less :: "rule \<Rightarrow> rule \<Rightarrow> bool" where
  "rule_less a b \<longleftrightarrow>
     (if frPriority a \<noteq> frPriority b then frPriority a < frPriority b else frID a < frID b)"

text \<open>The inner loop: the rule at position \<open>j\<close> is exchanged with its predecessors while it is less.\<close>

fun sink :: "nat \<Rightarrow> rule list \<Rightarrow> rule list" where
  "sink 0 xs = xs"
| "sink (Suc j) xs =
     (if rule_less (xs ! Suc j) (xs ! j) then sink j (xs[Suc j := xs ! j, j := xs ! Suc j]) else xs)"

definition New_filters :: "rule list \<Rightarrow> rule list" where
  "New_filters rules = fold sink [1..<length rules] rules"

section \<open>Matching\<close>

definition matchPattern :: "string \<Rightarrow> string \<Rightarrow> bool" where
  "matchPattern pattern value =
     (let p = trim_space pattern; v = trim_space value in
      if p = [] then False
      else if has_suffix_char p CHR ''*'' then
        butlast p \<noteq> [] \<and> has_prefix (to_upper v) (to_upper (butlast p))
      else equal_fold p v)"

definition matches :: "rule \<Rightarrow> pkt_data \<Rightarrow> bool" where
  "matches r p =
     (case frType r of
        TypeCallsign \<Rightarrow> equal_fold (trim_space (frPattern r)) (pkSource p)
      | TypePrefix \<Rightarrow>
          has_prefix (to_upper (case cut_byte CHR ''-'' (pkSource p) of None \<Rightarrow> pkSource p | Some (b, _) \<Rightarrow> b))
            (to_upper (trim_space (frPattern r)))
      | TypeMessageDest \<Rightarrow>
          (case pkMessage p of
             None \<Rightarrow> False
           | Some m \<Rightarrow>
               trim_space (frPattern r) = ''*'' \<or> matchPattern (frPattern r) (amAddressee m))
      | TypeObject \<Rightarrow>
          (case pkObject p of
             Some name \<Rightarrow> matchPattern (frPattern r) name
           | None \<Rightarrow> (case pkItem p of Some name \<Rightarrow> matchPattern (frPattern r) name | None \<Rightarrow> False))
      | TypePacketType \<Rightarrow>
          (case packetTypeCategories (to_lower (trim_space (frPattern r))) of
             None \<Rightarrow> False
           | Some cats \<Rightarrow> list_ex (\<lambda>t. pkType p = t) cats)
      | OtherType _ \<Rightarrow> False)"

text \<open>The first rule that matches decides; without one the packet is denied.\<close>

fun first_match :: "rule list \<Rightarrow> pkt_data \<Rightarrow> bool" where
  "first_match [] p = False"
| "first_match (r # rs) p = (if matches r p then frAction r = ActionAllow else first_match rs p)"

definition Allow :: "rule list \<Rightarrow> packet option \<Rightarrow> bool" where
  "Allow rules po = (case po of None \<Rightarrow> False | Some q \<Rightarrow> first_match rules (data q))"

section \<open>The sort is the stable sort by priority and identifier\<close>

definition rule_key :: "rule \<Rightarrow> int \<times> nat" where
  "rule_key r = (frPriority r, unat (frID r))"

lemma rule_less_key: "rule_less a b \<longleftrightarrow> rule_key a < rule_key b"
  by (auto simp: rule_less_def rule_key_def less_prod_def' word_less_nat_alt)

text \<open>Sinking the element behind a sorted prefix is insertion from the right.\<close>

fun insert_right :: "rule \<Rightarrow> rule list \<Rightarrow> rule list" where
  "insert_right x [] = [x]"
| "insert_right x (y # ys) = (if rule_less x y then x # y # ys else y # insert_right x ys)"

lemma sink_prefix: "length ys = j \<Longrightarrow> sink j (ys @ x # zs) = sink j (ys @ [x]) @ zs"
proof (induction j arbitrary: ys zs)
  case (Suc j)
  then obtain ws y where ys: "ys = ws @ [y]" "length ws = j" by (metis length_Suc_conv_rev)
  have "(ys @ x # zs)[Suc j := y, j := x] = ws @ x # y # zs" "(ys @ [x])[Suc j := y, j := x] = ws @ x # [y]"
    "(ys @ x # zs) ! Suc j = x" "(ys @ x # zs) ! j = y" "(ys @ [x]) ! Suc j = x" "(ys @ [x]) ! j = y"
    by (simp_all add: ys nth_append list_update_append)
  with Suc.IH[OF ys(2), of "y # zs"] Suc.IH[OF ys(2), of "[y]"] show ?case by simp
qed simp

lemma insert_right_snoc:
  assumes "sorted (map rule_key (ws @ [y]))"
  shows "insert_right x (ws @ [y]) = (if rule_less x y then insert_right x ws @ [y] else ws @ [y, x])"
  using assms
proof (induction ws)
  case (Cons w ws)
  then show ?case by (auto simp: rule_less_key sorted_append)
qed (simp add: rule_less_key)

lemma sink_insert:
  "length ys = j \<Longrightarrow> sorted (map rule_key ys) \<Longrightarrow> sink j (ys @ [x]) = insert_right x ys"
proof (induction j arbitrary: ys)
  case (Suc j)
  then obtain ws y where ys: "ys = ws @ [y]" "length ws = j" by (metis length_Suc_conv_rev)
  have "(ys @ [x])[Suc j := y, j := x] = ws @ x # [y]" "(ys @ [x]) ! Suc j = x" "(ys @ [x]) ! j = y"
    by (simp_all add: ys nth_append list_update_append)
  then show ?case
    using Suc.IH[OF ys(2)] Suc.prems(2) insert_right_snoc[of ws y x] sink_prefix[OF ys(2), of x "[y]"]
    by (simp add: ys sorted_append)
qed simp

lemma filter_key_above: "\<forall>y \<in> set ys. k < rule_key y \<Longrightarrow> filter (\<lambda>r. k = rule_key r) ys = []"
  by (auto simp: filter_empty_conv)

lemma insert_right_props:
  "mset (insert_right x ys) = add_mset x (mset ys)"
  "sorted (map rule_key ys) \<Longrightarrow> sorted (map rule_key (insert_right x ys))"
  "sorted (map rule_key ys) \<Longrightarrow> filter (\<lambda>r. k = rule_key r) (insert_right x ys)
    = filter (\<lambda>r. k = rule_key r) ys @ (if k = rule_key x then [x] else [])"
proof -
  have set: "set (insert_right x ys) = insert x (set ys)" for ys by (induction ys) auto
  show "mset (insert_right x ys) = add_mset x (mset ys)" by (induction ys) auto
  show "sorted (map rule_key ys) \<Longrightarrow> sorted (map rule_key (insert_right x ys))"
    by (induction ys) (auto simp: rule_less_key set)
  show "sorted (map rule_key ys) \<Longrightarrow> filter (\<lambda>r. k = rule_key r) (insert_right x ys)
    = filter (\<lambda>r. k = rule_key r) ys @ (if k = rule_key x then [x] else [])"
  proof (induction ys)
    case (Cons y ys)
    show ?case
    proof (cases "rule_less x y")
      case True
      then have "\<forall>z \<in> set (y # ys). rule_key x < rule_key z" using Cons.prems by (auto simp: rule_less_key)
      from filter_key_above[OF this] show ?thesis using True by (cases "k = rule_key x") simp_all
    next
      case False
      then have "insert_right x (y # ys) = y # insert_right x ys" by simp
      then show ?thesis using Cons by (cases "k = rule_key x") auto
    qed
  qed simp
qed

definition isort :: "rule list \<Rightarrow> rule list" where
  "isort rules = fold insert_right rules []"

lemma isort_props:
  "mset (isort rules) = mset rules" "sorted (map rule_key (isort rules))"
  "filter (\<lambda>r. k = rule_key r) (isort rules) = filter (\<lambda>r. k = rule_key r) rules"
  by (induction rules rule: rev_induct) (simp_all add: isort_def insert_right_props)

lemma length_isort [simp]: "length (isort rules) = length rules"
  by (rule mset_eq_length[OF isort_props(1)])

lemma fold_sink_isort: "n < length rules \<Longrightarrow> fold sink [1..<Suc n] rules = isort (take (Suc n) rules) @ drop (Suc n) rules"
proof (induction n)
  case 0
  then show ?case by (cases rules) (simp_all add: isort_def)
next
  case (Suc n)
  have t: "take (Suc (Suc n)) rules = take (Suc n) rules @ [rules ! Suc n]"
    "drop (Suc n) rules = rules ! Suc n # drop (Suc (Suc n)) rules"
    using Suc.prems by (simp_all add: take_Suc_conv_app_nth Cons_nth_drop_Suc)
  have "fold sink [1..<Suc (Suc n)] rules = sink (Suc n) (isort (take (Suc n) rules) @ drop (Suc n) rules)"
    using Suc by simp
  also have "\<dots> = sink (Suc n) (isort (take (Suc n) rules) @ [rules ! Suc n]) @ drop (Suc (Suc n)) rules"
    unfolding t(2) using Suc.prems by (intro sink_prefix) simp
  also have "\<dots> = insert_right (rules ! Suc n) (isort (take (Suc n) rules)) @ drop (Suc (Suc n)) rules"
    using Suc.prems by (subst sink_insert) (simp_all add: isort_props)
  finally show ?case by (simp add: t(1) isort_def)
qed

lemma New_filters_isort: "New_filters rules = isort rules"
proof (cases rules rule: rev_cases)
  case Nil
  then show ?thesis by (simp add: New_filters_def isort_def)
next
  case (snoc xs x)
  then show ?thesis using fold_sink_isort[of "length rules - 1" rules] by (simp add: New_filters_def)
qed

text \<open>
  The insertion sort of the rule engine is the library's stable sort by the pair of
  priority and identifier: rules with equal keys keep the order of the configuration.
\<close>

theorem New_filters_sorts: "New_filters rules = sort_key rule_key rules"
  unfolding New_filters_isort
  by (rule properties_for_sort_key[symmetric]) (simp_all add: isort_props)

section \<open>The decision\<close>

lemma first_match_find:
  "first_match rs p \<longleftrightarrow> (\<exists>r. find (\<lambda>r. matches r p) rs = Some r \<and> frAction r = ActionAllow)"
  by (induction rs) auto

lemma find_sorted_least:
  assumes "sorted (map f xs)" "find P xs = Some x" "y \<in> set xs" "P y"
  shows "f x \<le> f y"
  using assms by (induction xs) (auto split: if_splits)

text \<open>
  Property C20. The engine lets a packet through exactly when the rule with the least priority and
  identifier among the matching ones is an allow rule; when no rule matches it is denied.
\<close>

theorem filter_decision:
  assumes "inj_on rule_key (set rules)"
  shows "Allow (New_filters rules) (Some q) \<longleftrightarrow>
    (\<exists>r \<in> set rules. matches r (data q) \<and> frAction r = ActionAllow \<and>
      (\<forall>r' \<in> set rules. matches r' (data q) \<longrightarrow> rule_key r \<le> rule_key r'))"
proof -
  let ?P = "\<lambda>r. matches r (data q)"
  let ?s = "New_filters rules"
  have set: "set ?s = set rules" unfolding New_filters_isort by (rule mset_eq_setD[OF isort_props(1)])
  have least: "rule_key r \<le> rule_key r'" if "find ?P ?s = Some r" "r' \<in> set rules" "?P r'" for r r'
    using that find_sorted_least[of rule_key ?s ?P r r'] set by (simp add: New_filters_isort isort_props)
  have found: "r \<in> set rules \<and> ?P r" if "find ?P ?s = Some r" for r
    using that set by (metis find_Some_iff nth_mem)
  show ?thesis unfolding Allow_def option.case first_match_find
  proof
    assume "\<exists>r. find ?P ?s = Some r \<and> frAction r = ActionAllow"
    then show "\<exists>r\<in>set rules. ?P r \<and> frAction r = ActionAllow \<and> (\<forall>r'\<in>set rules. ?P r' \<longrightarrow> rule_key r \<le> rule_key r')"
      using found least by blast
  next
    assume "\<exists>r\<in>set rules. ?P r \<and> frAction r = ActionAllow \<and> (\<forall>r'\<in>set rules. ?P r' \<longrightarrow> rule_key r \<le> rule_key r')"
    then obtain r where r: "r \<in> set rules" "?P r" "frAction r = ActionAllow" "\<And>r'. r' \<in> set rules \<Longrightarrow> ?P r' \<Longrightarrow> rule_key r \<le> rule_key r'"
      by blast
    have "find ?P ?s \<noteq> None" using r(1,2) unfolding find_None_iff set by blast
    then obtain r0 where r0: "find ?P ?s = Some r0" by blast
    then have "rule_key r0 = rule_key r" using found[OF r0] least[OF r0 r(1,2)] r(4)[of r0] by simp
    then have "r0 = r" using found[OF r0] r(1) assms by (simp add: inj_onD)
    then show "\<exists>r. find ?P ?s = Some r \<and> frAction r = ActionAllow" using r0 r(3) by blast
  qed
qed

definition example_rules :: "rule list" where
  "example_rules =
     [\<lparr>frID = 2, frPriority = 10, frType = TypePrefix, frPattern = ''NW5'', frAction = ActionAllow\<rparr>,
      \<lparr>frID = 1, frPriority = 10, frType = TypeCallsign, frPattern = ''nw5w-9'', frAction = ActionDeny\<rparr>]"

theorem filter_decision_witness:
  "\<not> Allow (New_filters example_rules) (Some (Packet (new_packet\<lparr>pkSource := ''NW5W-9''\<rparr>) None))"
proof -
  have inj: "inj_on rule_key (set example_rules)"
    by (simp add: inj_on_def example_rules_def rule_key_def)
  let ?q = "Packet (new_packet\<lparr>pkSource := ''NW5W-9''\<rparr>) None"
  let ?d = "example_rules ! 1"
  have d: "?d \<in> set example_rules" "matches ?d (data ?q)" "frAction ?d = ActionDeny" by code_simp+
  have "\<forall>r \<in> set example_rules. rule_key r \<le> rule_key ?d \<longrightarrow> frAction r \<noteq> ActionAllow"
    by (simp add: example_rules_def rule_key_def less_eq_prod_def)
  with d show ?thesis unfolding filter_decision[OF inj] by blast
qed

text \<open>
  The guard against patterns that match everything covers messages and objects, not the
  prefix of a source: a prefix rule with a blank pattern matches every packet.
\<close>

lemma blank_prefix_matches_all:
  "frType r = TypePrefix \<Longrightarrow> trim_space (frPattern r) = [] \<Longrightarrow> matches r p"
  by (simp add: matches_def has_prefix_def)

end
