(* ===== verification/IGate_Heard.thy ===== *)
theory IGate_Heard
  imports Go_Strings
begin

text \<open>
  The tracker of stations heard directly on the air (\<^verbatim>\<open>pkg/igate/heard.go\<close>). It records a
  call under its full and its base form; a lookup tries both forms; a sweeper drops what is
  older than the window. The result is that a station counts as heard exactly when some
  station with the same base call was recorded within the window.
\<close>

section \<open>The tracker\<close>

type_synonym heard = "string \<Rightarrow> int option"

definition heardDirectTTL :: int where
  "heardDirectTTL = 30 * 60 * 10 ^ 9"

text \<open>The call in front of the first hyphen, when the hyphen is not the first character.\<close>

definition base_form :: "string \<Rightarrow> string option" where
  "base_form s = (case cut_byte CHR ''-'' s of Some (b, _) \<Rightarrow> if b \<noteq> [] then Some b else None | None \<Rightarrow> None)"

definition strip_ssid :: "string \<Rightarrow> string" where
  "strip_ssid s = (case base_form s of Some b \<Rightarrow> b | None \<Rightarrow> s)"

definition norm_call :: "string \<Rightarrow> string" where
  "norm_call call = trim_space (to_upper call)"

definition heard_Record :: "int \<Rightarrow> string \<Rightarrow> heard \<Rightarrow> heard" where
  "heard_Record now call0 h =
     (let call = norm_call call0 in
      if call = [] then h
      else case base_form call of
             None \<Rightarrow> h(call \<mapsto> now)
           | Some b \<Rightarrow> h(call \<mapsto> now, b \<mapsto> now))"

definition fresh :: "int \<Rightarrow> int \<Rightarrow> heard \<Rightarrow> string \<Rightarrow> bool" where
  "fresh now ttl h k = (case h k of Some t \<Rightarrow> now - t < ttl | None \<Rightarrow> False)"

definition HeardWithin :: "int \<Rightarrow> string \<Rightarrow> int \<Rightarrow> heard \<Rightarrow> bool" where
  "HeardWithin now call0 ttl h =
     (if ttl \<le> 0 then False
      else
        let call = norm_call call0 in
        if call = [] then False
        else if fresh now ttl h call then True
        else case base_form call of Some b \<Rightarrow> fresh now ttl h b | None \<Rightarrow> False)"

definition heard_sweep :: "int \<Rightarrow> int \<Rightarrow> heard \<Rightarrow> heard" where
  "heard_sweep now ttl h =
     (if ttl \<le> 0 then h
      else (\<lambda>k. case h k of Some t \<Rightarrow> if t < now - ttl then None else Some t | None \<Rightarrow> None))"

text \<open>No element of the path has been repeated.\<close>

definition pathIsDirect :: "string list \<Rightarrow> bool" where
  "pathIsDirect path \<longleftrightarrow> list_all (\<lambda>p. \<not> has_suffix_char (trim_space p) CHR ''*'') path"

section \<open>Runs of the tracker\<close>

text \<open>What happens to the tracker: recordings, and sweeps with a window.\<close>

datatype heard_event = Heard int string | Swept int int

fun event_time :: "heard_event \<Rightarrow> int" where
  "event_time (Heard t c) = t"
| "event_time (Swept t ttl) = t"

fun heard_step :: "heard_event \<Rightarrow> heard \<Rightarrow> heard" where
  "heard_step (Heard t c) = heard_Record t c"
| "heard_step (Swept t ttl) = heard_sweep t ttl"

definition heard_run :: "heard_event list \<Rightarrow> heard" where
  "heard_run evs = fold heard_step evs Map.empty"

lemma base_form_Some: "base_form s = Some b \<Longrightarrow> b \<noteq> [] \<and> CHR ''-'' \<notin> set b"
  by (auto simp: base_form_def dest: cut_byte_SomeD split: option.splits if_splits)

lemma base_form_None: "base_form s = Some b \<Longrightarrow> base_form b = None"
  using base_form_Some[of s b] by (simp add: base_form_def cut_byte_None)

lemma base_form_strip: "base_form (strip_ssid s) = (if base_form s = None then base_form s else None)"
  by (auto simp: strip_ssid_def base_form_def cut_byte_None dest: cut_byte_SomeD split: option.splits if_splits)

lemma strip_ssid_idem [simp]: "strip_ssid (strip_ssid s) = strip_ssid s"
  using base_form_strip[of s] by (auto simp: strip_ssid_def split: option.splits if_splits)

definition key_of :: "string \<Rightarrow> string \<Rightarrow> bool" where
  "key_of c k \<longleftrightarrow> norm_call c \<noteq> [] \<and> (k = norm_call c \<or> k = strip_ssid (norm_call c))"

lemma heard_Record_key: "heard_Record now c h k = (if key_of c k then Some now else h k)"
  by (auto simp: heard_Record_def key_of_def strip_ssid_def Let_def split: option.splits)

text \<open>A key is fresh exactly when one of the recordings that set it is.\<close>

lemma fresh_run:
  assumes "sorted (map event_time evs)" "\<forall>e \<in> set evs. event_time e \<le> now"
    "\<forall>t w. Swept t w \<in> set evs \<longrightarrow> ttl \<le> w"
  shows "fresh now ttl (heard_run evs) k \<longleftrightarrow> (\<exists>t c. Heard t c \<in> set evs \<and> key_of c k \<and> now - t < ttl)"
  using assms
proof (induction evs rule: rev_induct)
  case Nil
  then show ?case by (simp add: heard_run_def fresh_def)
next
  case (snoc e evs)
  have IH: "fresh now ttl (heard_run evs) k \<longleftrightarrow> (\<exists>t c. Heard t c \<in> set evs \<and> key_of c k \<and> now - t < ttl)"
    using snoc by (simp add: sorted_append)
  have before: "\<forall>e' \<in> set evs. event_time e' \<le> event_time e" using snoc.prems(1) by (auto simp: sorted_append)
  have run: "heard_run (evs @ [e]) = heard_step e (heard_run evs)" for e by (simp add: heard_run_def)
  show ?case
  proof (cases e)
    case (Heard t c)
    show ?thesis
    proof (cases "key_of c k")
      case True
      have "now - t < ttl" if "Heard t' c' \<in> set evs" "now - t' < ttl" for t' c'
        using before that unfolding Heard by fastforce
      moreover have "fresh now ttl (heard_run (evs @ [e])) k \<longleftrightarrow> now - t < ttl"
        using True unfolding run Heard by (simp add: fresh_def heard_Record_key)
      ultimately show ?thesis using True by (auto simp: Heard)
    next
      case False
      then have "fresh now ttl (heard_run (evs @ [e])) k = fresh now ttl (heard_run evs) k"
        unfolding run Heard by (simp add: fresh_def heard_Record_key)
      then show ?thesis using IH False by (auto simp: Heard)
    qed
  next
    case (Swept t w)
    then have w: "ttl \<le> w" "t \<le> now" using snoc.prems(2,3) by auto
    then have "fresh now ttl (heard_run (evs @ [e])) k = fresh now ttl (heard_run evs) k"
      unfolding run Swept by (auto simp: fresh_def heard_sweep_def split: option.splits)
    then show ?thesis using IH by (auto simp: Swept)
  qed
qed

lemma same_base:
  assumes "norm_call call \<noteq> []"
  shows "(key_of c (norm_call call) \<or> (\<exists>b. base_form (norm_call call) = Some b \<and> key_of c b))
    \<longleftrightarrow> norm_call c \<noteq> [] \<and> strip_ssid (norm_call c) = strip_ssid (norm_call call)"
  by (cases "base_form (norm_call call)"; cases "base_form (norm_call c)")
    (auto simp: key_of_def strip_ssid_def dest: base_form_None base_form_Some)

text \<open>
  After any sequence of recordings and sweeps a station counts as heard within the
  window exactly when a station with the same base call was recorded within it: SSIDs, letter
  case and surrounding blanks do not matter, and the sweeper never drops what a lookup needs.
\<close>

theorem heard_direct_window:
  assumes "sorted (map event_time evs)" "\<forall>e \<in> set evs. event_time e \<le> now"
    "\<forall>t w. Swept t w \<in> set evs \<longrightarrow> ttl \<le> w" "0 < ttl" "norm_call call \<noteq> []"
  shows "HeardWithin now call ttl (heard_run evs) \<longleftrightarrow>
    (\<exists>t c. Heard t c \<in> set evs \<and> norm_call c \<noteq> [] \<and> strip_ssid (norm_call c) = strip_ssid (norm_call call) \<and> now - t < ttl)"
proof -
  note F = fresh_run[OF assms(1-3)]
  have "HeardWithin now call ttl (heard_run evs) \<longleftrightarrow>
    (\<exists>t c. Heard t c \<in> set evs \<and> (key_of c (norm_call call) \<or> (\<exists>b. base_form (norm_call call) = Some b \<and> key_of c b)) \<and> now - t < ttl)"
    using assms(4,5) by (auto simp: HeardWithin_def Let_def F split: option.splits)
  then show ?thesis by (simp only: same_base[OF assms(5)] conj_assoc)
qed

theorem heard_direct_window_witness:
  "HeardWithin 100 '' nw5w-7 '' heardDirectTTL (heard_run [Heard 5 ''NW5W-9'', Swept 50 heardDirectTTL])"
proof -
  have "norm_call '' nw5w-7 '' \<noteq> []" "norm_call ''NW5W-9'' \<noteq> []"
    "strip_ssid (norm_call ''NW5W-9'') = strip_ssid (norm_call '' nw5w-7 '')" by code_simp+
  then show ?thesis
    using heard_direct_window[of "[Heard 5 ''NW5W-9'', Swept 50 heardDirectTTL]" 100 heardDirectTTL "'' nw5w-7 ''"]
    by (auto simp: heardDirectTTL_def)
qed

end
