(* ===== verification/IGate_Lines.thy ===== *)
theory IGate_Lines
  imports APRS_Packet
begin

text \<open>
  The two wire forms of the gateway: the TNC-2 lines of APRS-IS (\<^verbatim>\<open>pkg/igate/tnc2.go\<close>) and
  the third-party frames it transmits (\<^verbatim>\<open>pkg/igate/third_party.go\<close>). The lemmas show that a
  line written for a received frame parses to that frame with an unused path, and that a
  wrapped frame reads back as third-party traffic with the original header inside.
\<close>

datatype line_err =
    NilPacket | MissingSourceOrDest | NoInfoField | EmptyLine | MissingColon | EmptyInfoField | MissingArrow | MissingDest
  | ParseSource ax25_err | ParseDest ax25_err | ParsePath string ax25_err
  | NilInner | EmptyIgateCall | WrapAddress ax25_err | WrapFrame ax25_err | BuildFrame ax25_err

section \<open>Lines\<close>

definition infoBytes :: "pkt_data \<Rightarrow> bytes" where
  "infoBytes p =
     (if pkRaw p \<noteq> [] then
        (case Decode (pkRaw p) of Inr f \<Rightarrow> if fInfo f \<noteq> [] then fInfo f else [] | Inl _ \<Rightarrow> [])
      else [])"

text \<open>\<^verbatim>\<open>DecodedAPRSPacket.DedupKey\<close>; empty when there is nothing to compare.\<close>

definition packet_DedupKey :: "pkt_data \<Rightarrow> string" where
  "packet_DedupKey p =
     (if pkSource p = [] then []
      else if infoBytes p = [] then []
      else pkSource p @ CHR 0x00 # string_of (infoBytes p))"

definition encodeTNC2 :: "pkt_data option \<Rightarrow> string \<Rightarrow> line_err + string" where
  "encodeTNC2 po igateCall =
     (case po of
        None \<Rightarrow> Inl NilPacket
      | Some p \<Rightarrow>
          if pkSource p = [] \<or> pkDest p = [] then Inl MissingSourceOrDest
          else if infoBytes p = [] then Inl NoInfoField
          else
            let path = map trim_star (filter (\<lambda>s. s \<noteq> []) (pkPath p)) @ [''qAR'', igateCall]
            in Inr (FormatTNC2 (pkSource p) (pkDest p) path (infoBytes p)))"

text \<open>The path elements in front of the q-construct, without the empty ones.\<close>

fun routable :: "string list \<Rightarrow> string list" where
  "routable [] = []"
| "routable (p # ps) =
     (if p = [] then routable ps
      else if length p \<ge> 2 \<and> p ! 0 = CHR ''q'' \<and> p ! 1 = CHR ''A'' then []
      else p # routable ps)"

fun parse_path :: "string list \<Rightarrow> line_err + address list" where
  "parse_path [] = Inr []"
| "parse_path (p # ps) =
     (case ParseAddress p of
        Inl e \<Rightarrow> Inl (ParsePath p e)
      | Inr a \<Rightarrow> try_bind (parse_path ps) (\<lambda>as. Inr (a\<lparr>Repeated := False\<rparr> # as)))"

definition parseTNC2 :: "string \<Rightarrow> line_err + frame" where
  "parseTNC2 line0 =
     (let line = trim_right_of {CHR 0x0D, CHR 0x0A} line0 in
      if line = [] then Inl EmptyLine
      else case cut_byte CHR '':'' line of
        None \<Rightarrow> Inl MissingColon
      | Some (header, info) \<Rightarrow>
          if info = [] then Inl EmptyInfoField
          else case cut_byte CHR ''>'' header of
            None \<Rightarrow> Inl MissingArrow
          | Some (srcStr, rest) \<Rightarrow>
              if srcStr = [] then Inl MissingArrow
              else
                let parts = split_byte CHR '','' rest in
                if hd parts = [] then Inl MissingDest
                else
                  (case ParseAddress srcStr of
                     Inl e \<Rightarrow> Inl (ParseSource e)
                   | Inr src \<Rightarrow>
                       (case ParseAddress (hd parts) of
                          Inl e \<Rightarrow> Inl (ParseDest e)
                        | Inr dest \<Rightarrow>
                            try_bind (parse_path (routable (tl parts))) (\<lambda>path.
                            case NewUIFrame src dest path (bytes_of info) of
                              Inl e \<Rightarrow> Inl (BuildFrame e)
                            | Inr f \<Rightarrow> Inr f))))"

section \<open>Third-party frames\<close>

definition aprsGatewayToCall :: string where
  "aprsGatewayToCall = ''APGWLF''"

definition is_net_marker :: "address \<Rightarrow> bool" where
  "is_net_marker a \<longleftrightarrow> to_upper (Call a) = ''TCPIP'' \<or> to_upper (Call a) = ''TCPXX''"

definition wrap_header :: "frame \<Rightarrow> string \<Rightarrow> string" where
  "wrap_header inner igateCall =
     CHR ''}'' # address_string (fSource inner) @ CHR ''>'' # address_string (fDest inner)
       @ concat (map (\<lambda>a. CHR '','' # address_string (a\<lparr>Repeated := False\<rparr>)) (filter (\<lambda>a. \<not> is_net_marker a) (fPath inner)))
       @ '',TCPIP,'' @ igateCall @ ''*:''"

definition wrapThirdParty :: "frame option \<Rightarrow> string \<Rightarrow> address list \<Rightarrow> line_err + frame" where
  "wrapThirdParty fo igateCall0 via =
     (case fo of
        None \<Rightarrow> Inl NilInner
      | Some inner \<Rightarrow>
          let igateCall = trim_space igateCall0 in
          if igateCall = [] then Inl EmptyIgateCall
          else case ParseAddress igateCall of
            Inl e \<Rightarrow> Inl (WrapAddress e)
          | Inr outerSrc \<Rightarrow>
              (case ParseAddress aprsGatewayToCall of
                 Inl e \<Rightarrow> Inl (WrapAddress e)
               | Inr outerDest \<Rightarrow>
                   (case NewUIFrame outerSrc outerDest via (bytes_of (wrap_header inner igateCall) @ fInfo inner) of
                      Inl e \<Rightarrow> Inl (WrapFrame e)
                    | Inr f \<Rightarrow> Inr f)))"

section \<open>Reading a line back\<close>

lemma split_byte_join:
  assumes "d \<notin> set x" "\<forall>p \<in> set ps. d \<notin> set p"
  shows "split_byte d (x @ concat (map ((#) d) ps)) = x # ps"
proof -
  have tail: "split_byte d (y @ d # s) = y # split_byte d s" if "d \<notin> set y" for y s
    using that by (induction y) auto
  have plain: "split_byte d y = [y]" if "d \<notin> set y" for y
    using that by (induction y) auto
  show ?thesis using assms by (induction ps arbitrary: x) (simp_all add: tail plain)
qed

definition unused :: "address \<Rightarrow> address" where
  "unused a = a\<lparr>Repeated := False\<rparr>"

lemma unused_wf [simp]: "wf_address (unused a) = wf_address a"
  by (simp add: unused_def wf_address_def)

lemma unused_unused [simp]: "unused (unused a) = unused a"
  by (simp add: unused_def)

lemma unused_comp [simp]: "unused \<circ> unused = unused"
  by (simp add: fun_eq_iff)

lemma trim_star_string: "wf_address a \<Longrightarrow> trim_star (address_string a) = address_string (unused a)"
  using address_string_suffix[of a]
  by (auto simp: trim_star_def unused_def address_string_def butlast_append)

lemma address_string_facts:
  assumes "wf_address a"
  shows "address_string a \<noteq> []" "CHR '':'' \<notin> set (address_string a)" "CHR ''>'' \<notin> set (address_string a)"
    "CHR '','' \<notin> set (address_string a)" "address_string a ! 0 \<noteq> CHR ''q''"
proof -
  have "\<forall>c \<in> set (address_string a). is_addr_char c" using address_string_chars[OF assms] by (simp add: list_all_iff)
  then show "CHR '':'' \<notin> set (address_string a)" "CHR ''>'' \<notin> set (address_string a)" "CHR '','' \<notin> set (address_string a)"
    by (auto simp: is_addr_char_def is_call_char_def is_upper_def is_digit_def)
  have c: "Call a \<noteq> []" "is_call_char (hd (Call a))" using assms by (cases "Call a"; simp add: wf_address_def)+
  then show "address_string a \<noteq> []" by (simp add: address_string_def)
  have "address_string a ! 0 = hd (Call a)" using c(1) by (cases "Call a") (simp_all add: address_string_def)
  then show "address_string a ! 0 \<noteq> CHR ''q''" using c(2) by (auto simp: is_call_char_def is_upper_def is_digit_def)
qed

lemma routable_addresses:
  "list_all wf_address as \<Longrightarrow> routable (map address_string as @ ''qAR'' # ps) = map address_string as"
  by (induction as) (auto simp: address_string_facts)

lemma parse_path_addresses:
  "list_all wf_address as \<Longrightarrow> parse_path (map address_string as) = Inr (map unused as)"
  by (induction as) (simp_all add: ParseAddress_string unused_def)

text \<open>What the gateway reads of a decoded packet is what the frame said.\<close>

definition decoded_from :: "frame \<Rightarrow> pkt_data \<Rightarrow> bool" where
  "decoded_from f p \<longleftrightarrow> Encode f = Inr (pkRaw p) \<and> pkSource p = address_string (fSource f)
     \<and> pkDest p = address_string (fDest f) \<and> pkPath p = map address_string (fPath f)"

lemma infoBytes_decoded:
  assumes "wf_ui_frame f" "decoded_from f p"
  shows "infoBytes p = fInfo f"
proof -
  have "Decode (pkRaw p) = Inr f" using ui.dec_enc[OF assms(1)] assms(2) by (auto simp: decoded_from_def)
  moreover have "pkRaw p \<noteq> []" using calculation by (auto simp: Decode_def DecodeAddressBlock_def addrLen_def)
  ultimately show ?thesis by (simp add: infoBytes_def)
qed

definition uplink_line :: "frame \<Rightarrow> string \<Rightarrow> string" where
  "uplink_line f me = FormatTNC2 (address_string (fSource f)) (address_string (fDest f))
     (map (address_string \<circ> unused) (fPath f) @ [''qAR'', me]) (fInfo f)"

lemma encodeTNC2_decoded:
  assumes f: "wf_ui_frame f" "fInfo f \<noteq> []" "decoded_from f p"
  shows "encodeTNC2 (Some p) me = Inr (uplink_line f me)"
proof -
  have wf: "wf_address (fSource f)" "wf_address (fDest f)" "\<forall>a \<in> set (fPath f). wf_address a"
    using f(1) by (auto simp: wf_ui_frame_def list_all_iff)
  have "map trim_star (filter (\<lambda>s. s \<noteq> []) (pkPath p)) = map (address_string \<circ> unused) (fPath f)"
    using wf(3) f(3) by (simp add: decoded_from_def trim_star_string address_string_facts(1) cong: filter_cong)
  moreover have "pkSource p = address_string (fSource f)" "pkDest p = address_string (fDest f)"
    using f(3) by (simp_all add: decoded_from_def)
  ultimately show ?thesis
    using wf by (simp add: encodeTNC2_def uplink_line_def infoBytes_decoded[OF f(1,3)] f(2) address_string_facts)
qed

lemma FormatTNC2_split:
  assumes "\<forall>p \<in> set ps. p \<noteq> []"
  shows "FormatTNC2 s d ps info = (s @ CHR ''>'' # (d @ concat (map ((#) CHR '','') ps))) @ CHR '':'' # string_of info"
proof -
  have "concat (map (\<lambda>p. if p = [] then [] else '','' @ p) ps) = concat (map ((#) CHR '','') ps)"
    using assms by (intro arg_cong[of _ _ concat] map_cong) simp_all
  then show ?thesis by (simp add: FormatTNC2_def)
qed

text \<open>
  A line the gateway writes for a received UI frame parses to that frame with its
  path unused: the q-construct and the gateway's own call are cut off again, everything else
  survives, provided the information field does not end in a carriage return or line feed.
\<close>

theorem tnc2_roundtrip:
  assumes f: "wf_ui_frame f" "fInfo f \<noteq> []" "decoded_from f p" "encodeTNC2 (Some p) me = Inr line"
    and me: "me \<noteq> []" "CHR '':'' \<notin> set me" "CHR '','' \<notin> set me"
    and info: "last (fInfo f) \<notin> {0x0D, 0x0A}"
  shows "parseTNC2 line = Inr \<lparr>fDest = fDest f, fSource = fSource f, fPath = map unused (fPath f), fControl = ControlUI,
    fPID = PIDNoLayer3, fInfo = fInfo f, fCommandResp = True, fConnectedControl = [], fConnectedHasInfo = False\<rparr>"
proof -
  have wf: "wf_address (fSource f)" "wf_address (fDest f)" "list_all wf_address (fPath f)" "length (fPath f) \<le> MaxRepeaters"
    using f(1) by (auto simp: wf_ui_frame_def)
  let ?ps = "map (address_string \<circ> unused) (fPath f) @ [''qAR'', me]"
  let ?rest = "address_string (fDest f) @ concat (map ((#) CHR '','') ?ps)"
  have ps: "\<forall>p \<in> set ?ps. p \<noteq> [] \<and> CHR '':'' \<notin> set p \<and> CHR '','' \<notin> set p"
    using wf(3) me by (auto simp: list_all_iff address_string_facts)
  have line: "line = (address_string (fSource f) @ CHR ''>'' # ?rest) @ CHR '':'' # string_of (fInfo f)"
    using f(4) encodeTNC2_decoded[OF f(1-3), of me] ps by (simp add: uplink_line_def FormatTNC2_split)
  have "last line \<notin> {CHR 0x0D, CHR 0x0A}"
  proof -
    have "last line = char_of_byte (last (fInfo f))" using f(2) by (simp add: line string_of_def last_map)
    moreover have "char_of_byte b = CHR 0x0D \<Longrightarrow> b = 0x0D" "char_of_byte b = CHR 0x0A \<Longrightarrow> b = 0x0A" for b
      using byte_of_char_of[of b] by simp_all
    ultimately show ?thesis using info by auto
  qed
  then have trim: "trim_right_of {CHR 0x0D, CHR 0x0A} line = line" by (intro trim_right_of_id) simp
  have "CHR '':'' \<notin> set (address_string (fSource f) @ CHR ''>'' # ?rest)"
    using wf ps by (auto simp: address_string_facts)
  then have colon: "cut_byte CHR '':'' line = Some (address_string (fSource f) @ CHR ''>'' # ?rest, string_of (fInfo f))"
    unfolding line by (rule cut_byte_append)
  have gt: "cut_byte CHR ''>'' (address_string (fSource f) @ CHR ''>'' # ?rest) = Some (address_string (fSource f), ?rest)"
    using wf by (intro cut_byte_append address_string_facts)
  have split: "split_byte CHR '','' ?rest = address_string (fDest f) # ?ps"
    using wf ps by (intro split_byte_join) (auto simp: address_string_facts)
  have path: "routable ?ps = map address_string (map unused (fPath f))"
    using routable_addresses[of "map unused (fPath f)" "[me]"] wf(3) by (simp add: list_all_iff)
  have pp: "parse_path (map address_string (map unused (fPath f))) = Inr (map unused (fPath f))"
    using parse_path_addresses[of "map unused (fPath f)"] wf(3) by (simp add: list_all_iff)
  show ?thesis
    unfolding parseTNC2_def Let_def trim colon option.case prod.case gt split list.sel path pp
    using wf f(2) by (simp add: line string_of_def address_string_facts ParseAddress_string NewUIFrame_def bytes_of_def comp_def)
qed

theorem tnc2_roundtrip_witness:
  "\<exists>line. encodeTNC2 (Some (FromAX25 example_ui_frame new_packet
       \<lparr>pkRaw := (case Encode example_ui_frame of Inr raw \<Rightarrow> raw | Inl _ \<Rightarrow> [])\<rparr>)) ''NW5W-10'' = Inr line
     \<and> map_sum id fPath (parseTNC2 line) = Inr (map unused (fPath example_ui_frame))"
proof -
  let ?p = "FromAX25 example_ui_frame new_packet\<lparr>pkRaw := (case Encode example_ui_frame of Inr raw \<Rightarrow> raw | Inl _ \<Rightarrow> [])\<rparr>"
  have d: "decoded_from example_ui_frame ?p"
    using ui.dec_enc[OF example_ui_frame_wf] by (auto simp: decoded_from_def FromAX25_def)
  have i: "fInfo example_ui_frame \<noteq> []" "last (fInfo example_ui_frame) \<notin> {0x0D, 0x0A}" by (simp_all add: example_ui_frame_def)
  note e = encodeTNC2_decoded[OF example_ui_frame_wf i(1) d, of "''NW5W-10''"]
  show ?thesis using e tnc2_roundtrip[OF example_ui_frame_wf i(1) d e _ _ _ i(2)] by simp
qed

section \<open>Reading a wrapped frame\<close>

lemma wrapThirdParty_Inr:
  assumes "wrapThirdParty (Some inner) me via = Inr w"
  obtains a b where "ParseAddress (trim_space me) = Inr a" "ParseAddress aprsGatewayToCall = Inr b"
    "NewUIFrame a b via (bytes_of (wrap_header inner (trim_space me)) @ fInfo inner) = Inr w"
  using assms by (auto simp: wrapThirdParty_def Let_def split: if_splits sum.splits)

lemma wrap_frame:
  assumes "wrapThirdParty (Some inner) me via = Inr w"
  shows "IsUI w" "fInfo w = bytes_of (wrap_header inner (trim_space me)) @ fInfo inner" "fPath w = via"
    "wf_address (fSource w)" "wf_address (fDest w)" "length via \<le> MaxRepeaters" "fConnectedControl w = []" "\<not> fConnectedHasInfo w"
proof -
  obtain a b where p: "ParseAddress (trim_space me) = Inr a" "ParseAddress aprsGatewayToCall = Inr b"
    and n: "NewUIFrame a b via (bytes_of (wrap_header inner (trim_space me)) @ fInfo inner) = Inr w"
    by (rule wrapThirdParty_Inr[OF assms])
  show "IsUI w" "fInfo w = bytes_of (wrap_header inner (trim_space me)) @ fInfo inner" "fPath w = via"
    "wf_address (fSource w)" "wf_address (fDest w)" "length via \<le> MaxRepeaters" "fConnectedControl w = []" "\<not> fConnectedHasInfo w"
    using n ParseAddress_wf[OF p(1)] ParseAddress_wf[OF p(2)]
    by (auto simp: NewUIFrame_def IsUI_def not_less split: if_splits)
qed

text \<open>The header of wrapped traffic as the receiver splits it.\<close>

definition wrapped_header :: "frame \<Rightarrow> string \<Rightarrow> pkt_data" where
  "wrapped_header inner call = new_packet\<lparr>pkSource := address_string (fSource inner), pkDest := address_string (fDest inner),
     pkPath := map (address_string \<circ> unused) (filter (\<lambda>a. \<not> is_net_marker a) (fPath inner)) @ [''TCPIP'', call @ ''*'']\<rparr>"

lemma wrap_header_reads:
  assumes wf: "wf_address (fSource inner)" "wf_address (fDest inner)" "list_all wf_address (fPath inner)"
    and call: "CHR '':'' \<notin> set call" "CHR '','' \<notin> set call"
  shows "\<exists>header. wrap_header inner call = CHR ''}'' # header @ '':'' \<and> CHR '':'' \<notin> set header
    \<and> inner_header header = wrapped_header inner call"
proof -
  let ?ps = "map (address_string \<circ> unused) (filter (\<lambda>a. \<not> is_net_marker a) (fPath inner)) @ [''TCPIP'', call @ ''*'']"
  let ?rest = "address_string (fDest inner) @ concat (map ((#) CHR '','') ?ps)"
  let ?header = "address_string (fSource inner) @ CHR ''>'' # ?rest"
  have ps: "\<forall>p \<in> set ?ps. CHR '':'' \<notin> set p \<and> CHR '','' \<notin> set p"
    using wf(3) call by (auto simp: list_all_iff address_string_facts)
  have h: "wrap_header inner call = CHR ''}'' # ?header @ '':''"
    by (simp add: wrap_header_def unused_def comp_def)
  have c: "CHR '':'' \<notin> set ?header" using wf ps by (auto simp: address_string_facts)
  obtain p0 ps' where p0: "?ps = p0 # ps'" by (cases ?ps) auto
  let ?path = "p0 @ concat (map ((#) CHR '','') ps')"
  have "cut_byte CHR ''>'' ?header = Some (address_string (fSource inner), ?rest)"
    using wf by (intro cut_byte_append address_string_facts)
  moreover have "cut_byte CHR '','' ?rest = Some (address_string (fDest inner), ?path)"
    using wf(2) cut_byte_append[of "CHR '',''" "address_string (fDest inner)" ?path] by (simp only: p0) (simp add: address_string_facts)
  moreover have "split_byte CHR '','' ?path = ?ps"
    using ps unfolding p0 by (intro split_byte_join) auto
  ultimately have "inner_header ?header = wrapped_header inner call"
    by (simp only: inner_header_def option.case prod.case wrapped_header_def)
  with h c show ?thesis by blast
qed

lemma string_of_snoc: "string_of (bytes_of s @ byte_of c # xs) = s @ c # string_of xs"
  by (simp add: string_of_def bytes_of_def comp_def)

text \<open>
  What the gateway transmits for a packet from the internet reads back, at any
  receiver, as third-party traffic: inside are the source and destination of the original, its
  path without internet markers and used flags, then TCPIP and the gateway's call marked used,
  and the information field decodes as it did before wrapping.
\<close>

theorem wrap_reads_back:
  assumes wrap: "wrapThirdParty (Some inner) me via = Inr w"
    and wf: "wf_address (fSource inner)" "wf_address (fDest inner)" "list_all wf_address (fPath inner)" "fInfo inner \<noteq> []"
    and call: "CHR '':'' \<notin> set (trim_space me)" "CHR '','' \<notin> set (trim_space me)"
  shows "\<exists>q. Parse sub (Some w) = (Some q, None) \<and> pkType (data q) = PacketThirdParty
    \<and> pkSource (data q) = address_string (fSource w)
    \<and> pkThirdParty q = Some (fst (parseInfoDepth sub 1 None (wrapped_header inner (trim_space me)) (fInfo inner)))"
proof -
  obtain header where h: "wrap_header inner (trim_space me) = CHR ''}'' # header @ '':''" "CHR '':'' \<notin> set header"
    "inner_header header = wrapped_header inner (trim_space me)"
    using wrap_header_reads[OF wf(1-3) call] by blast
  note W = wrap_frame[OF wrap]
  have info: "fInfo w = byte_of CHR ''}'' # bytes_of header @ byte_of CHR '':'' # fInfo inner"
    by (simp add: W(2) h(1) bytes_of_def)
  have "string_of (tl (fInfo w)) = header @ CHR '':'' # string_of (fInfo inner)"
    by (simp only: info list.sel string_of_snoc)
  then have cut: "cut_byte CHR '':'' (string_of (tl (fInfo w))) = Some (header, string_of (fInfo inner))"
    using cut_byte_append[OF h(2), of "string_of (fInfo inner)"] by (simp only:)
  have hd: "char_of_byte (hd (fInfo w)) = CHR ''}''" by (simp only: info list.sel char_of_byte_of)
  have ne: "string_of (fInfo inner) \<noteq> []" using wf(4) by (simp add: string_of_def)
  have two: "(2::nat) = Suc 1" by simp
  have parse: "parseInfoDepth sub 2 (Some w) p (fInfo w)
      = (Packet (p\<lparr>pkType := PacketThirdParty, pkComment := string_of (tl (fInfo w))\<rparr>)
          (Some (fst (parseInfoDepth sub 1 None (wrapped_header inner (trim_space me)) (fInfo inner)))), None)" for p
    unfolding two by (subst parseInfoDepth.simps) (simp only: Let_def hd cut ne nat.case option.case prod.case h(3) bytes_of_string_of, simp)
  have "fInfo w \<noteq> []" using info by simp
  then show ?thesis
    using W(1) by (auto simp: Parse_def parse Let_def FromAX25_def split: sum.splits)
qed

theorem wrap_reads_back_witness:
  "\<exists>w q. wrapThirdParty (Some example_ui_frame) ''NW5W-10'' [] = Inr w
     \<and> Parse (\<lambda>fr p info. (p, None)) (Some w) = (Some q, None) \<and> pkType (data q) = PacketThirdParty"
proof -
  have t: "trim_space ''NW5W-10'' = ''NW5W-10''" by code_simp
  obtain w where w: "wrapThirdParty (Some example_ui_frame) ''NW5W-10'' [] = Inr w"
  proof -
    have "\<exists>a b. ParseAddress ''NW5W-10'' = Inr a \<and> ParseAddress aprsGatewayToCall = Inr b"
      using ParseAddress_string[of "\<lparr>Call = ''NW5W'', SSID = 10, Repeated = False\<rparr>"]
        ParseAddress_string[of "\<lparr>Call = ''APGWLF'', SSID = 0, Repeated = False\<rparr>"]
      by (simp add: address_string_def wf_address_def aprsGatewayToCall_def dec_string.simps digit_char_def char_of_byte_def
          is_call_char_def is_upper_def is_digit_def)
    then show thesis using that by (auto simp: wrapThirdParty_def t NewUIFrame_def)
  qed
  have wf: "wf_address (fSource example_ui_frame)" "wf_address (fDest example_ui_frame)" "list_all wf_address (fPath example_ui_frame)"
    "fInfo example_ui_frame \<noteq> []"
    using example_ui_frame_wf by (auto simp: wf_ui_frame_def) (simp add: example_ui_frame_def)
  have "CHR '':'' \<notin> set (trim_space ''NW5W-10'')" "CHR '','' \<notin> set (trim_space ''NW5W-10'')" by (simp_all add: t)
  from wrap_reads_back[OF w wf this] w show ?thesis by blast
qed

end
