(* ===== verification/IGate.thy ===== *)
theory IGate
  imports IGate_Filters IGate_Heard IGate_Lines Digipeater
begin

text \<open>
  The gateway between the radio side and APRS-IS (\<^verbatim>\<open>pkg/igate/igate.go\<close>, \<^verbatim>\<open>gating.go\<close>,
  \<^verbatim>\<open>output.go\<close>, \<^verbatim>\<open>input.go\<close>): its construction, the gating of a received packet to
  APRS-IS, the gating of a line from APRS-IS to the radio, and the operations that change its
  configuration at run time. What the gateway does outside its own state is a list of effects;
  the answers of the socket and of the transmit sink are arguments. The APRS parsers that
  \<^verbatim>\<open>Parse\<close> calls for reports other than messages are the argument \<open>sub\<close>.
\<close>

section \<open>State\<close>

text \<open>Of the functions in the configuration the channel modes and the ring of local messages are kept.\<close>

record igate_config =
  icServer :: string
  icStationCallsign :: string
  icServerFilter :: string
  icRules :: "rule list"
  icTxChannel :: u32
  icIsTxVia :: string
  icChannelModes :: mode_lookup
  icGovernor :: bool
  icSimulationMode :: bool
  icRfToIsHook :: bool
  icIsRxHook :: bool
  icLocalOrigin :: "(string \<Rightarrow> string \<Rightarrow> bool) option"
  icSuppressLocal :: bool

record igate_stats =
  isGated :: "64 word"
  isDownlinked :: "64 word"
  isFiltered :: "64 word"
  isDropped :: "64 word"
  isSubmitDropped :: nat
  isFanoutDropped :: nat

record igate =
  igCfg :: igate_config
  igCall :: string
  igFilter :: "rule list"
  igHeard :: heard
  igConnected :: bool
  igLastConnected :: "int option"
  igSimulation :: bool
  igTxChannel :: u32
  igVia :: "address list"
  igInput :: "(bytes \<times> u32) list"
  igStats :: igate_stats

datatype igate_err = BadStation call_err | ServerRequired

datatype igate_effect =
    IsRx packet string
  | RfToIs packet string
  | Wrote string
  | SubmitIS u32 frame submit_source
  | CloseConn

datatype gate_reason =
    GateNilPacket | GateThirdParty | GatePathBlocks | GateSelfMessage | GateOffline | GateEncodeFail | GateWriteFail
  | GateSimulated | Gated | GateNoOutput | GateDisabled

definition tapCap :: nat where
  "tapCap = 64"

definition New_igate :: "igate_config \<Rightarrow> igate_err + igate" where
  "New_igate cfg =
     (case Resolve [] (icStationCallsign cfg) of
        Inl e \<Rightarrow> Inl (BadStation e)
      | Inr call \<Rightarrow>
          if icServer cfg = [] then Inl ServerRequired
          else Inr \<lparr>igCfg = cfg, igCall = call, igFilter = New_filters (icRules cfg), igHeard = Map.empty, igConnected = False,
                    igLastConnected = None, igSimulation = icSimulationMode cfg, igTxChannel = icTxChannel cfg,
                    igVia = (case ParseVia (icIsTxVia cfg) of Inl _ \<Rightarrow> [] | Inr via \<Rightarrow> via), igInput = [],
                    igStats = \<lparr>isGated = 0, isDownlinked = 0, isFiltered = 0, isDropped = 0, isSubmitDropped = 0, isFanoutDropped = 0\<rparr>\<rparr>)"

definition ig_count :: "(igate_stats \<Rightarrow> igate_stats) \<Rightarrow> igate \<Rightarrow> igate" where
  "ig_count f ig = ig\<lparr>igStats := f (igStats ig)\<rparr>"

definition ig_onConnected :: "int \<Rightarrow> igate \<Rightarrow> igate" where
  "ig_onConnected now ig = ig\<lparr>igConnected := True, igLastConnected := Some now\<rparr>"

definition ig_onLost :: "igate \<Rightarrow> igate" where
  "ig_onLost ig = ig\<lparr>igConnected := False\<rparr>"

section \<open>From the radio to APRS-IS\<close>

definition pathBlocksGating :: "string list \<Rightarrow> bool" where
  "pathBlocksGating path \<longleftrightarrow>
     list_ex (\<lambda>p. let u = to_upper (trim_star p) in
       has_prefix u ''TCPIP'' \<or> has_prefix u ''TCPXX'' \<or> u = ''NOGATE'' \<or> u = ''RFONLY'') path"

definition shouldSuppressLocalMessage :: "igate \<Rightarrow> pkt_data \<Rightarrow> bool" where
  "shouldSuppressLocalMessage ig p =
     (case icLocalOrigin (igCfg ig) of
        None \<Rightarrow> False
      | Some contains \<Rightarrow>
          if \<not> icSuppressLocal (igCfg ig) then False
          else case pkMessage p of
                 None \<Rightarrow> False
               | Some m \<Rightarrow> if amMessageID m = [] then False else contains (pkSource p) (amMessageID m))"

definition gateRFToIS :: "int \<Rightarrow> (string \<Rightarrow> bool) \<Rightarrow> packet option \<Rightarrow> igate \<Rightarrow> gate_reason \<times> igate_effect list \<times> igate" where
  "gateRFToIS now write po ig0 =
     (case po of
        None \<Rightarrow> (GateNilPacket, [], ig0)
      | Some q \<Rightarrow>
          let p = data q;
              ig = (if pkSource p \<noteq> [] \<and> pathIsDirect (pkPath p)
                    then ig0\<lparr>igHeard := heard_Record now (pkSource p) (igHeard ig0)\<rparr> else ig0)
          in if pkThirdParty q \<noteq> None \<or> pkType p = PacketThirdParty then (GateThirdParty, [], ig)
             else if pathBlocksGating (pkPath p) then (GatePathBlocks, [], ig)
             else if shouldSuppressLocalMessage ig p then (GateSelfMessage, [], ig)
             else if \<not> igConnected ig then (GateOffline, [], ig_count (\<lambda>s. s\<lparr>isDropped := isDropped s + 1\<rparr>) ig)
             else case encodeTNC2 (Some p) (igCall ig) of
               Inl _ \<Rightarrow> (GateEncodeFail, [], ig)
             | Inr line \<Rightarrow>
                 let hook = (if icRfToIsHook (igCfg ig) then [RfToIs q line] else []);
                     counted = ig_count (\<lambda>s. s\<lparr>isGated := isGated s + 1\<rparr>) ig
                 in if igSimulation ig then (GateSimulated, hook, counted)
                    else if \<not> write line then (GateWriteFail, [Wrote line], ig)
                    else (Gated, Wrote line # hook, counted))"

text \<open>\<^verbatim>\<open>SendLine\<close>: whether it succeeded, and what it wrote.\<close>

definition SendLine :: "(string \<Rightarrow> bool) \<Rightarrow> string \<Rightarrow> igate \<Rightarrow> bool \<times> igate_effect list" where
  "SendLine write line ig =
     (if \<not> igConnected ig then (False, [])
      else if igSimulation ig then (True, [])
      else (write line, [Wrote line]))"

text \<open>The adapters that the receive fan-out and the KISS gate hook call; the gateway may be absent.\<close>

definition SendPacket :: "int \<Rightarrow> (string \<Rightarrow> bool) \<Rightarrow> packet option \<Rightarrow> igate option \<Rightarrow> igate_effect list \<times> igate option" where
  "SendPacket now write po out =
     (case out of None \<Rightarrow> ([], None) | Some ig \<Rightarrow> (let (_, effs, ig) = gateRFToIS now write po ig in (effs, Some ig)))"

definition GateClientTx ::
    "int \<Rightarrow> (string \<Rightarrow> bool) \<Rightarrow> packet option \<Rightarrow> igate option option \<Rightarrow> gate_reason \<times> igate_effect list \<times> igate option option" where
  "GateClientTx now write po out =
     (case out of
        None \<Rightarrow> (GateNoOutput, [], None)
      | Some None \<Rightarrow> (GateDisabled, [], Some None)
      | Some (Some ig) \<Rightarrow> (let (r, effs, ig) = gateRFToIS now write po ig in (r, effs, Some (Some ig))))"

section \<open>From APRS-IS to the radio\<close>

definition sourceIsOwnSSID :: "string \<Rightarrow> string \<Rightarrow> bool" where
  "sourceIsOwnSSID call source0 =
     (let source = to_upper (trim_space source0); me = to_upper (trim_space call) in
      if source = [] then False
      else if me = [] then False
      else if source = me then False
      else strip_ssid source = strip_ssid me)"

definition pathContainsSelf :: "string \<Rightarrow> string list \<Rightarrow> bool" where
  "pathContainsSelf call path =
     (let me = strip_ssid (to_upper (trim_space call)) in
      if me = [] then False
      else list_ex (\<lambda>p. strip_ssid (to_upper (trim_star (trim_space p))) = me) path)"

definition shouldForwardISToRF :: "int \<Rightarrow> igate \<Rightarrow> pkt_data \<Rightarrow> bool" where
  "shouldForwardISToRF now ig p =
     (if pathContainsSelf (igCall ig) (pkPath p) then False
      else if pkType p \<noteq> PacketMessage then sourceIsOwnSSID (igCall ig) (pkSource p)
      else case pkMessage p of
             None \<Rightarrow> False
           | Some m \<Rightarrow>
               if amIsBulletin m \<or> amIsNWS m then False
               else if trim_space (amAddressee m) = [] then False
               else HeardWithin now (trim_space (amAddressee m)) heardDirectTTL (igHeard ig))"

definition mustEncode :: "frame \<Rightarrow> bytes" where
  "mustEncode f = (case Encode f of Inl _ \<Rightarrow> [] | Inr raw \<Rightarrow> raw)"

definition igate_source :: submit_source where
  "igate_source = \<lparr>ssKind = ''igate'', ssDetail = ''is2rf'', ssPriority = PriorityIGateMsg, ssSkipDedup = False\<rparr>"

text \<open>The packet a line is judged by: what \<^verbatim>\<open>Parse\<close> makes of its frame, or its header alone.\<close>

definition decode_is :: "sub_parser \<Rightarrow> frame \<Rightarrow> packet" where
  "decode_is sub f =
     (let q = (case Parse sub (Some f) of
                 (Some q, None) \<Rightarrow> q
               | _ \<Rightarrow> Packet (new_packet\<lparr>pkSource := address_string (fSource f), pkDest := address_string (fDest f)\<rparr>) None)
      in Packet ((data q)\<lparr>pkDirection := DirectionIS\<rparr>) (pkThirdParty q))"

text \<open>Past the policy and the filter: wrap, check the channel, submit, publish.\<close>

definition downlink :: "(u32 \<Rightarrow> frame \<Rightarrow> submit_source \<Rightarrow> bool) \<Rightarrow> frame \<Rightarrow> igate \<Rightarrow> igate_effect list \<times> igate" where
  "downlink submit f ig =
     (if \<not> icGovernor (igCfg ig) then ([], ig)
      else case wrapThirdParty (Some f) (igCall ig) (igVia ig) of
        Inl _ \<Rightarrow> ([], ig)
      | Inr w \<Rightarrow>
          let ch = igTxChannel ig in
          if packet_mode (icChannelModes (igCfg ig)) ch
          then ([], ig_count (\<lambda>s. s\<lparr>isSubmitDropped := isSubmitDropped s + 1\<rparr>) ig)
          else if \<not> submit ch w igate_source
          then ([SubmitIS ch w igate_source], ig_count (\<lambda>s. s\<lparr>isSubmitDropped := isSubmitDropped s + 1\<rparr>) ig)
          else
            let ig = ig_count (\<lambda>s. s\<lparr>isDownlinked := isDownlinked s + 1\<rparr>) ig in
            ([SubmitIS ch w igate_source],
             if length (igInput ig) < tapCap then ig\<lparr>igInput := igInput ig @ [(mustEncode w, ch)]\<rparr>
             else ig_count (\<lambda>s. s\<lparr>isFanoutDropped := isFanoutDropped s + 1\<rparr>) ig))"

definition handleISLine ::
    "sub_parser \<Rightarrow> (u32 \<Rightarrow> frame \<Rightarrow> submit_source \<Rightarrow> bool) \<Rightarrow> int \<Rightarrow> string \<Rightarrow> igate \<Rightarrow> igate_effect list \<times> igate" where
  "handleISLine sub submit now line ig =
     (case parseTNC2 line of
        Inl _ \<Rightarrow> ([], ig)
      | Inr f \<Rightarrow>
          let q = decode_is sub f;
              rx = (if icIsRxHook (igCfg ig) then [IsRx q line] else [])
          in if \<not> shouldForwardISToRF now ig (data q) \<or> \<not> Allow (igFilter ig) (Some q)
             then (rx, ig_count (\<lambda>s. s\<lparr>isFiltered := isFiltered s + 1\<rparr>) ig)
             else (let (effs, ig) = downlink submit f ig in (rx @ effs, ig)))"

text \<open>\<^verbatim>\<open>RecvPacket\<close> takes from the tap; \<^const>\<open>None\<close> is that it blocks.\<close>

definition RecvPacket :: "igate \<Rightarrow> ((bytes \<times> u32) \<times> igate) option" where
  "RecvPacket ig = (case igInput ig of [] \<Rightarrow> None | x # xs \<Rightarrow> Some (x, ig\<lparr>igInput := xs\<rparr>))"

section \<open>Configuration at run time\<close>

definition Reconfigure :: "bool \<Rightarrow> string \<Rightarrow> rule list \<Rightarrow> bool \<Rightarrow> igate \<Rightarrow> igate_effect list \<times> igate" where
  "Reconfigure haveClient serverFilter rules gov ig =
     (let changed = (icServerFilter (igCfg ig) \<noteq> serverFilter)
      in (if haveClient \<and> changed then [CloseConn] else [],
          ig\<lparr>igFilter := New_filters rules,
             igCfg := (igCfg ig)\<lparr>icServerFilter := serverFilter, icRules := rules, icGovernor := gov\<rparr>\<rparr>))"

definition SetTxChannel :: "u32 \<Rightarrow> igate \<Rightarrow> igate" where
  "SetTxChannel ch ig = (if ch = 0 then ig else ig\<lparr>igTxChannel := ch\<rparr>)"

definition SetIsTxVia :: "string \<Rightarrow> igate \<Rightarrow> igate" where
  "SetIsTxVia s ig = (case ParseVia s of Inl _ \<Rightarrow> ig | Inr via \<Rightarrow> ig\<lparr>igVia := via\<rparr>)"

definition SetSimulationMode :: "bool \<Rightarrow> igate \<Rightarrow> igate" where
  "SetSimulationMode on ig = ig\<lparr>igSimulation := on\<rparr>"

end
