(* ===== verification/IGate_Props.thy ===== *)
theory IGate_Props
  imports IGate
begin

text \<open>
  What the gateway guarantees: which internet packets it puts on the air and in what form, that
  no gateway feeds such a frame back to APRS-IS, what a received packet becomes on APRS-IS, and
  where its recognition of its own traffic ends.
\<close>

section \<open>From APRS-IS to the radio\<close>

text \<open>The policy as the header of the package states it.\<close>

definition is_policy :: "int \<Rightarrow> igate \<Rightarrow> pkt_data \<Rightarrow> bool" where
  "is_policy now ig p \<longleftrightarrow>
     (if pkType p = PacketMessage then
        (\<exists>m. pkMessage p = Some m \<and> \<not> amIsBulletin m \<and> \<not> amIsNWS m \<and> trim_space (amAddressee m) \<noteq> []
          \<and> HeardWithin now (trim_space (amAddressee m)) heardDirectTTL (igHeard ig))
      else sourceIsOwnSSID (igCall ig) (pkSource p))
     \<and> \<not> pathContainsSelf (igCall ig) (pkPath p)"

lemma shouldForward_policy: "shouldForwardISToRF now ig p \<longleftrightarrow> is_policy now ig p"
  by (auto simp: shouldForwardISToRF_def is_policy_def split: option.splits)

lemma downlink_effects:
  "fst (downlink submit f ig) =
    (case wrapThirdParty (Some f) (igCall ig) (igVia ig) of
       Inl _ \<Rightarrow> []
     | Inr w \<Rightarrow> if icGovernor (igCfg ig) \<and> \<not> packet_mode (icChannelModes (igCfg ig)) (igTxChannel ig)
                then [SubmitIS (igTxChannel ig) w igate_source] else [])"
  by (simp add: downlink_def Let_def split: sum.splits)

text \<open>
  Property C17. A line from APRS-IS leads to a transmission exactly when it parses, the governor is
  there, the channel is not in packet mode, the filter allows the packet, its path does not name
  the gateway, and it is either a directed message to a station heard directly in the last half
  hour or a report from another SSID of the gateway's own call. What is submitted is the packet
  wrapped as third-party traffic.
\<close>

theorem downlink_policy:
  "SubmitIS ch w src \<in> set (fst (handleISLine sub submit now line ig)) \<longleftrightarrow>
    (\<exists>f. parseTNC2 line = Inr f \<and> is_policy now ig (data (decode_is sub f)) \<and> Allow (igFilter ig) (Some (decode_is sub f))
      \<and> icGovernor (igCfg ig) \<and> \<not> packet_mode (icChannelModes (igCfg ig)) (igTxChannel ig)
      \<and> wrapThirdParty (Some f) (igCall ig) (igVia ig) = Inr w \<and> ch = igTxChannel ig \<and> src = igate_source)"
proof (cases "parseTNC2 line")
  case (Inr f)
  let ?rx = "if icIsRxHook (igCfg ig) then [IsRx (decode_is sub f) line] else []"
  have "SubmitIS ch w src \<notin> set ?rx" by simp
  moreover have "fst (handleISLine sub submit now line ig)
    = ?rx @ (if is_policy now ig (data (decode_is sub f)) \<and> Allow (igFilter ig) (Some (decode_is sub f))
             then fst (downlink submit f ig) else [])"
    by (simp add: handleISLine_def Inr shouldForward_policy Let_def split: prod.splits)
  ultimately show ?thesis by (auto simp: Inr downlink_effects split: sum.splits if_splits)
qed (simp add: handleISLine_def)

text \<open>
  Property C18. No gateway carries internet traffic back: a frame that one gateway transmits for a
  line from APRS-IS is recognised as third-party traffic by every gateway that decodes it, which
  writes nothing, whatever its configuration and state.
\<close>

theorem no_gating_loop:
  assumes "SubmitIS ch w src \<in> set (fst (handleISLine sub submit now line ig))"
  shows "\<exists>q. Parse sub' (Some w) = (Some q, None)
    \<and> fst (gateRFToIS t write (Some q) other) = GateThirdParty \<and> fst (snd (gateRFToIS t write (Some q) other)) = []"
proof -
  obtain f where f: "wrapThirdParty (Some f) (igCall ig) (igVia ig) = Inr w" using assms unfolding downlink_policy by blast
  note W = wrap_frame[OF f]
  have info: "fInfo w \<noteq> []" "char_of_byte (hd (fInfo w)) = CHR ''}''"
    unfolding W(2) wrap_header_def by (simp_all only: bytes_of_def list.map append_Cons list.sel char_of_byte_of list.distinct) simp
  obtain q where "Parse sub' (Some w) = (Some q, None)" "pkType (data q) = PacketThirdParty"
    using Parse_third_party[OF W(1) info] by blast
  then show ?thesis by (auto simp: gateRFToIS_def Let_def)
qed

text \<open>Witnesses: a message for a station heard a minute ago, and a status report of another SSID.\<close>

definition no_sub :: sub_parser where
  "no_sub fr p info = (p, None)"

lemma no_sub_header: "keeps_header no_sub"
  by (simp add: keeps_header_def no_sub_def)

definition example_igate :: igate where
  "example_igate =
     \<lparr>igCfg = \<lparr>icServer = ''rotate.aprs2.net:14580'', icStationCallsign = ''NW5W-10'', icServerFilter = [], icRules = [],
        icTxChannel = 1, icIsTxVia = [], icChannelModes = None, icGovernor = True, icSimulationMode = False,
        icRfToIsHook = False, icIsRxHook = False, icLocalOrigin = None, icSuppressLocal = True\<rparr>,
      igCall = ''NW5W-10'',
      igFilter = [\<lparr>frID = 1, frPriority = 1, frType = TypeMessageDest, frPattern = ''*'', frAction = ActionAllow\<rparr>,
                  \<lparr>frID = 2, frPriority = 2, frType = TypePrefix, frPattern = ''NW5W'', frAction = ActionAllow\<rparr>],
      igHeard = [''KD5ABC'' \<mapsto> 0], igConnected = True, igLastConnected = Some 0, igSimulation = False, igTxChannel = 1,
      igVia = [], igInput = [],
      igStats = \<lparr>isGated = 0, isDownlinked = 0, isFiltered = 0, isDropped = 0, isSubmitDropped = 0, isFanoutDropped = 0\<rparr>\<rparr>"

definition submitted :: "igate_effect list \<Rightarrow> frame list" where
  "submitted effs = concat (map (\<lambda>e. case e of SubmitIS ch w src \<Rightarrow> [w] | _ \<Rightarrow> []) effs)"

lemma example_downlink:
  "map (string_of \<circ> fInfo) (submitted (fst (handleISLine no_sub (\<lambda>_ _ _. True) 60000000000
     ''W1AW>APRS,TCPIP*,qAC,T2TEXAS::KD5ABC-3 :hello{1'' example_igate)))
   = [''}W1AW>APRS,TCPIP,NW5W-10*::KD5ABC-3 :hello{1'']"
  by code_simp

lemma submitted_set: "w \<in> set (submitted effs) \<longleftrightarrow> (\<exists>ch src. SubmitIS ch w src \<in> set effs)"
  by (induction effs) (auto simp: submitted_def split: igate_effect.splits)

theorem no_gating_loop_witness:
  "\<exists>w q. string_of (fInfo w) = ''}W1AW>APRS,TCPIP,NW5W-10*::KD5ABC-3 :hello{1''
     \<and> Parse no_sub (Some w) = (Some q, None) \<and> fst (gateRFToIS 0 (\<lambda>_. True) (Some q) example_igate) = GateThirdParty"
proof -
  let ?effs = "fst (handleISLine no_sub (\<lambda>_ _ _. True) 60000000000
     ''W1AW>APRS,TCPIP*,qAC,T2TEXAS::KD5ABC-3 :hello{1'' example_igate)"
  obtain w where w: "submitted ?effs = [w]" "string_of (fInfo w) = ''}W1AW>APRS,TCPIP,NW5W-10*::KD5ABC-3 :hello{1''"
    using example_downlink by (auto simp: map_eq_Cons_conv)
  then obtain ch src where "SubmitIS ch w src \<in> set ?effs" using submitted_set[of w ?effs] by auto
  from no_gating_loop[OF this, of no_sub 0 "\<lambda>_. True" example_igate] w(2) show ?thesis by blast
qed

section \<open>From the radio to APRS-IS\<close>

lemma Parse_Some: "IsUI f \<Longrightarrow> \<exists>q e. Parse sub (Some f) = (Some q, e)"
  by (simp add: Parse_def Let_def case_prod_unfold)

lemma Parse_decoded:
  assumes "keeps_header sub" "wf_ui_frame f" "Parse sub (Some f) = (Some q, e)"
  shows "decoded_from f (data q)"
  using Parse_header[OF assms(1,3)] ui.dec_enc[OF assms(2)] by (auto simp: decoded_from_def)

text \<open>
  Property C19. A received frame is written to APRS-IS exactly when the session is up and not
  simulated, the packet is not third-party traffic, its path has no marker against gating and it
  is not one of the station's own messages; what is written is the frame's line with its used
  flags removed and the gateway named behind the q-construct. Every other outcome writes nothing.
\<close>

theorem uplink_exact:
  assumes "keeps_header sub" "wf_ui_frame f" "fInfo f \<noteq> []" "Parse sub (Some f) = (Some q, e)"
  shows "Wrote line \<in> set (fst (snd (gateRFToIS now write (Some q) ig))) \<longleftrightarrow>
    line = uplink_line f (igCall ig) \<and> igConnected ig \<and> \<not> igSimulation ig \<and> pkThirdParty q = None
    \<and> pkType (data q) \<noteq> PacketThirdParty \<and> \<not> pathBlocksGating (pkPath (data q)) \<and> \<not> shouldSuppressLocalMessage ig (data q)"
proof -
  note E = encodeTNC2_decoded[OF assms(2,3) Parse_decoded[OF assms(1,2,4)]]
  show ?thesis
    by (auto simp: gateRFToIS_def Let_def E shouldSuppressLocalMessage_def split: option.splits if_splits)
qed

theorem uplink_exact_witness:
  "Wrote ''NW5W-9>APGRWF,WIDE1-1,WIDE2-1,qAR,NW5W-10:!4'' \<in>
     set (fst (snd (gateRFToIS 0 (\<lambda>_. True) (fst (Parse no_sub (Some example_ui_frame))) example_igate)))"
proof -
  obtain q e where q: "Parse no_sub (Some example_ui_frame) = (Some q, e)" "pkThirdParty q = None"
    "pkType (data q) \<noteq> PacketThirdParty" "\<not> pathBlocksGating (pkPath (data q))" "\<not> shouldSuppressLocalMessage example_igate (data q)"
  proof -
    have "case Parse no_sub (Some example_ui_frame) of (Some q, e) \<Rightarrow>
        pkThirdParty q = None \<and> pkType (data q) \<noteq> PacketThirdParty \<and> \<not> pathBlocksGating (pkPath (data q))
        \<and> \<not> shouldSuppressLocalMessage example_igate (data q) | _ \<Rightarrow> False"
      by code_simp
    then show thesis using that by (auto split: option.splits prod.splits)
  qed
  have i: "fInfo example_ui_frame \<noteq> []" by (simp add: example_ui_frame_def)
  have l: "uplink_line example_ui_frame (igCall example_igate) = ''NW5W-9>APGRWF,WIDE1-1,WIDE2-1,qAR,NW5W-10:!4''"
    "igConnected example_igate" "\<not> igSimulation example_igate"
    by code_simp+
  show ?thesis using uplink_exact[OF no_sub_header example_ui_frame_wf i q(1), of _ 0 "\<lambda>_. True" example_igate] q l
    by simp
qed

lemma string_of_append: "string_of (a @ b) = string_of a @ string_of b"
  by (simp add: string_of_def)

text \<open>
  The information field goes out as it came in, so a received packet that contains a
  line end puts a second line of the sender's choice into the gateway's session: the bytes on the
  socket are those of a packet cut off at the line end followed by the rest as a line of its own.
\<close>

theorem uplink_second_line:
  "uplink_line (f\<lparr>fInfo := a @ bytes_of ([CHR 0x0D, CHR 0x0A] @ s)\<rparr>) me @ [CHR 0x0D, CHR 0x0A]
    = (uplink_line (f\<lparr>fInfo := a\<rparr>) me @ [CHR 0x0D, CHR 0x0A]) @ (s @ [CHR 0x0D, CHR 0x0A])"
  by (simp add: uplink_line_def FormatTNC2_def string_of_append)

section \<open>Recognising its own traffic\<close>

text \<open>
  The gateway does not recognise what it uplinked itself: the parser of APRS-IS lines
  cuts the path at the q-construct behind which the gateway's call stands, so the check for the
  own call sees only the original radio path.
\<close>

theorem own_uplink_forgotten:
  assumes sub: "keeps_header sub" and f: "wf_ui_frame f" "fInfo f \<noteq> []" "last (fInfo f) \<notin> {0x0D, 0x0A}"
    and q: "Parse sub (Some f) = (Some q, e)" "encodeTNC2 (Some (data q)) me = Inr line"
    and me: "me \<noteq> []" "CHR '':'' \<notin> set me" "CHR '','' \<notin> set me"
    and path: "\<not> pathContainsSelf me (map (address_string \<circ> unused) (fPath f))"
  shows "\<exists>f'. parseTNC2 line = Inr f' \<and> \<not> pathContainsSelf me (pkPath (data (decode_is sub f')))"
proof -
  obtain f' where p: "parseTNC2 line = Inr f'" and f': "fPath f' = map unused (fPath f)"
    using tnc2_roundtrip[OF f(1,2) Parse_decoded[OF sub f(1) q(1)] q(2) me f(3)] by auto
  have "pkPath (data (decode_is sub f')) \<in> {[], map address_string (fPath f')}"
    using Parse_header(4)[OF sub, of f'] by (auto simp: decode_is_def new_packet_def split: prod.splits option.splits)
  moreover have "\<not> pathContainsSelf me []" by (simp add: pathContainsSelf_def)
  ultimately have "\<not> pathContainsSelf me (pkPath (data (decode_is sub f')))" using path by (auto simp: f' comp_def)
  with p show ?thesis by blast
qed

theorem own_uplink_forgotten_witness:
  "\<exists>f'. parseTNC2 (uplink_line example_ui_frame ''NW5W-10'') = Inr f'
     \<and> \<not> pathContainsSelf ''NW5W-10'' (pkPath (data (decode_is no_sub f')))"
proof -
  obtain q e where q: "Parse no_sub (Some example_ui_frame) = (Some q, e)"
    using Parse_Some[of example_ui_frame no_sub] example_ui_frame_wf by (auto simp: wf_ui_frame_def)
  have i: "fInfo example_ui_frame \<noteq> []" "last (fInfo example_ui_frame) \<notin> {0x0D, 0x0A}" by (simp_all add: example_ui_frame_def)
  have p: "\<not> pathContainsSelf ''NW5W-10'' (map (address_string \<circ> unused) (fPath example_ui_frame))" by code_simp
  note e = encodeTNC2_decoded[OF example_ui_frame_wf i(1) Parse_decoded[OF no_sub_header example_ui_frame_wf q], of "''NW5W-10''"]
  from own_uplink_forgotten[OF no_sub_header example_ui_frame_wf i q e _ _ _ p] show ?thesis by simp
qed

end
