(* ===== verification/MSG_Store.thy ===== *)
theory MSG_Store
  imports Go_Strings
begin

text \<open>
  The message repository (\<^verbatim>\<open>pkg/messages/store.go\<close>). The table is the list of its rows by
  ascending primary key, tombstoned rows included; a query is a filter with the conditions of
  its \<^verbatim>\<open>Where\<close>, which leaves tombstones out unless it is \<^verbatim>\<open>Unscoped\<close>; a save replaces
  the row with the same key. The database is taken to succeed. The lemmas are about message
  identifiers: what is allocated is free, and outstanding messages to one peer never share one.
\<close>

section \<open>Rows\<close>

datatype thread_kind = DM | Tactical

datatype ack_state = AckNone | Acked | AckRejected | AckBroadcast

datatype fail_reason =
    NoReason | TextTooLong | ChannelIsPacket | RFIsUnavailable | EncodeFailed | QueueIsFull | SubmitRefused
  | NoIGate | ReadOnlyIGate | IGateRefused | BudgetExhausted | SendError

record message =
  mId :: nat
  mOut :: bool
  mOurCall :: string
  mPeerCall :: string
  mFromCall :: string
  mToCall :: string
  mText :: string
  mMsgID :: string
  mCreatedAt :: int
  mReceivedAt :: "int option"
  mSentAt :: "int option"
  mAckedAt :: "int option"
  mAckState :: ack_state
  mSource :: string
  mPath :: string
  mVia :: string
  mRawTNC2 :: bytes
  mChannel :: "32 word"
  mAttempts :: "32 word"
  mNextRetryAt :: "int option"
  mFailure :: fail_reason
  mReplyAckID :: string
  mIsAck :: bool
  mIsRej :: bool
  mIsBulletin :: bool
  mIsNWS :: bool
  mSendPath :: string
  mDeleted :: bool
  mThreadKind :: thread_kind
  mThreadKey :: string
  mReceivedByCall :: string
  mInvite :: "string option"
  mUnread :: bool

text \<open>The table, the next primary key, and the message counter once it has been created.\<close>

record store =
  stRows :: "message list"
  stNextId :: nat
  stCounter :: "nat option"

definition scoped :: "store \<Rightarrow> message list" where
  "scoped st = filter (\<lambda>m. \<not> mDeleted m) (stRows st)"

section \<open>Operations\<close>

text \<open>\<^verbatim>\<open>Insert\<close> derives the peer and the thread key and assigns the key; the thread kind is valid by its type.\<close>

definition derive :: "message \<Rightarrow> message" where
  "derive m =
     (case mThreadKind m of
        DM \<Rightarrow>
          (let peer = (if mOut m then mToCall m else mFromCall m)
           in m\<lparr>mPeerCall := peer, mThreadKey := (if mThreadKey m = [] then peer else mThreadKey m)\<rparr>)
      | Tactical \<Rightarrow>
          m\<lparr>mPeerCall := mFromCall m, mThreadKey := (if mThreadKey m = [] then mToCall m else mThreadKey m)\<rparr>)"

definition Insert :: "message \<Rightarrow> store \<Rightarrow> message \<times> store" where
  "Insert m st =
     (let m = (derive m)\<lparr>mId := stNextId st\<rparr>
      in (m, st\<lparr>stRows := stRows st @ [m], stNextId := Suc (stNextId st)\<rparr>))"

definition GetByID :: "nat \<Rightarrow> store \<Rightarrow> message option" where
  "GetByID i st = find (\<lambda>m. mId m = i) (scoped st)"

text \<open>The whole-row save, and the updates of selected columns of a live row.\<close>

definition save_row :: "message \<Rightarrow> store \<Rightarrow> store" where
  "save_row m st = st\<lparr>stRows := map (\<lambda>r. if mId r = mId m then m else r) (stRows st)\<rparr>"

definition update_where :: "nat \<Rightarrow> (message \<Rightarrow> message) \<Rightarrow> store \<Rightarrow> store" where
  "update_where i f st = st\<lparr>stRows := map (\<lambda>r. if mId r = i \<and> \<not> mDeleted r then f r else r) (stRows st)\<rparr>"

definition ClearFailureReason :: "nat \<Rightarrow> store \<Rightarrow> store" where
  "ClearFailureReason i = update_where i (\<lambda>m. m\<lparr>mFailure := NoReason\<rparr>)"

definition UpdateSentAtAndAckState :: "nat \<Rightarrow> int \<Rightarrow> ack_state option \<Rightarrow> store \<Rightarrow> store" where
  "UpdateSentAtAndAckState i t a =
     update_where i (\<lambda>m. m\<lparr>mSentAt := Some t, mAckState := (case a of None \<Rightarrow> mAckState m | Some s \<Rightarrow> s)\<rparr>)"

definition UpdateRetrySchedule :: "nat \<Rightarrow> 32 word \<Rightarrow> int option \<Rightarrow> store \<Rightarrow> store" where
  "UpdateRetrySchedule i n t = update_where i (\<lambda>m. m\<lparr>mAttempts := n, mNextRetryAt := t\<rparr>)"

definition MarkRead :: "nat \<Rightarrow> store \<Rightarrow> store" where
  "MarkRead i = update_where i (\<lambda>m. m\<lparr>mUnread := False\<rparr>)"

definition MarkUnread :: "nat \<Rightarrow> store \<Rightarrow> store" where
  "MarkUnread i = update_where i (\<lambda>m. m\<lparr>mUnread := True\<rparr>)"

definition store_SoftDelete :: "nat \<Rightarrow> store \<Rightarrow> store" where
  "store_SoftDelete i = update_where i (\<lambda>m. m\<lparr>mDeleted := True\<rparr>)"

text \<open>The thread key is compared in upper case; the kind is normalised by its type.\<close>

definition SoftDeleteByThread :: "thread_kind \<Rightarrow> string \<Rightarrow> store \<Rightarrow> nat list \<times> store" where
  "SoftDeleteByThread kind key0 st =
     (let key = to_upper (trim_space key0) in
      if key = [] then ([], st)
      else
        let ids = map mId (filter (\<lambda>m. mThreadKind m = kind \<and> mThreadKey m = key) (scoped st))
        in (ids, fold store_SoftDelete ids st))"

definition FindOutstandingByMsgID :: "string \<Rightarrow> string \<Rightarrow> store \<Rightarrow> message list" where
  "FindOutstandingByMsgID mid peer st = rev (filter (\<lambda>m. mMsgID m = mid \<and> mPeerCall m = peer \<and> mOut m) (stRows st))"

definition awaiting :: "message \<Rightarrow> bool" where
  "awaiting m \<longleftrightarrow> mThreadKind m = DM \<and> mOut m \<and> mAckState m = AckNone"

definition due_at :: "int \<Rightarrow> message \<Rightarrow> bool" where
  "due_at now m \<longleftrightarrow> (case mNextRetryAt m of None \<Rightarrow> False | Some t \<Rightarrow> t \<le> now)"

definition ListRetryDue :: "int \<Rightarrow> store \<Rightarrow> message list" where
  "ListRetryDue now st = sort_key (\<lambda>m. the (mNextRetryAt m)) (filter (\<lambda>m. awaiting m \<and> due_at now m) (scoped st))"

definition ListAwaitingAckOnStartup :: "store \<Rightarrow> message list" where
  "ListAwaitingAckOnStartup st = filter awaiting (scoped st)"

section \<open>Message identifiers\<close>

text \<open>\<^verbatim>\<open>%03d\<close> of a number below a thousand.\<close>

definition fmt03 :: "nat \<Rightarrow> string" where
  "fmt03 n = [digit_char (n div 100), digit_char (n div 10 mod 10), digit_char (n mod 10)]"

fun scan_ids :: "string list \<Rightarrow> nat \<Rightarrow> nat \<Rightarrow> nat option" where
  "scan_ids held 0 cur = None"
| "scan_ids held (Suc fuel) cur =
     (if fmt03 cur \<notin> set held then Some cur
      else scan_ids held fuel (if cur + 1 > 999 then 1 else cur + 1))"

definition held_ids :: "string \<Rightarrow> store \<Rightarrow> string list" where
  "held_ids peer st = filter (\<lambda>i. i \<noteq> []) (map mMsgID (filter (\<lambda>m. awaiting m \<and> mPeerCall m = peer) (scoped st)))"

definition AllocateMsgID :: "string \<Rightarrow> store \<Rightarrow> string option \<times> store" where
  "AllocateMsgID peer st0 =
     (let next = (case stCounter st0 of None \<Rightarrow> 1 | Some n \<Rightarrow> n);
          start = (if next = 0 \<or> next > 999 then 1 else next)
      in case scan_ids (held_ids peer st0) 999 start of
           None \<Rightarrow> (None, st0)
         | Some n \<Rightarrow> (Some (fmt03 n), st0\<lparr>stCounter := Some (if n + 1 > 999 then 1 else n + 1)\<rparr>))"

section \<open>Allocation finds a free identifier if there is one\<close>

lemma digit_char_inj: "d < 10 \<Longrightarrow> e < 10 \<Longrightarrow> digit_char d = digit_char e \<longleftrightarrow> d = e"
  by (metis digit_char_props(2) of_nat_eq_iff)

lemma fmt03_inj:
  assumes "m < 1000" "n < 1000" "fmt03 m = fmt03 n"
  shows "m = n"
proof -
  have "m div 100 = n div 100" "m div 10 mod 10 = n div 10 mod 10" "m mod 10 = n mod 10"
    using assms by (auto simp: fmt03_def digit_char_inj)
  moreover have "k = 100 * (k div 100) + 10 * (k div 10 mod 10) + k mod 10" for k :: nat
  proof -
    have "k div 100 = k div 10 div 10" by (simp add: div_mult2_eq[symmetric])
    then show ?thesis using div_mult_mod_eq[of k 10] div_mult_mod_eq[of "k div 10" 10] by linarith
  qed
  ultimately show ?thesis by metis
qed

definition wrap_id :: "nat \<Rightarrow> nat" where
  "wrap_id k = (k - 1) mod 999 + 1"

lemma scan_ids_Some: "scan_ids held fuel cur = Some n \<Longrightarrow> 1 \<le> cur \<Longrightarrow> cur \<le> 999 \<Longrightarrow> 1 \<le> n \<and> n \<le> 999 \<and> fmt03 n \<notin> set held"
  by (induction held fuel cur rule: scan_ids.induct) (auto split: if_splits)

lemma scan_ids_None:
  "scan_ids held fuel cur = None \<Longrightarrow> 1 \<le> cur \<Longrightarrow> cur \<le> 999 \<Longrightarrow> i < fuel \<Longrightarrow> fmt03 (wrap_id (cur + i)) \<in> set held"
proof (induction held fuel cur arbitrary: i rule: scan_ids.induct)
  case (2 held fuel cur)
  let ?next = "if cur + 1 > 999 then 1 else cur + 1"
  have n: "fmt03 cur \<in> set held" "scan_ids held fuel ?next = None" using 2(2) by (auto split: if_splits)
  show ?case
  proof (cases i)
    case 0
    then show ?thesis using n(1) 2(3,4) by (simp add: wrap_id_def)
  next
    case (Suc j)
    have "fmt03 (wrap_id (?next + j)) \<in> set held" using 2(1)[OF _ n(2)] n(1) 2(3-5) Suc by auto
    moreover have "wrap_id (?next + j) = wrap_id (cur + i)"
      using 2(3,4) Suc by (cases "cur = 999") (auto simp: wrap_id_def)
    ultimately show ?thesis by simp
  qed
qed simp

lemma wrap_id_covers: "1 \<le> cur \<Longrightarrow> cur \<le> 999 \<Longrightarrow> 1 \<le> n \<Longrightarrow> n \<le> 999 \<Longrightarrow> \<exists>i < 999. wrap_id (cur + i) = n"
proof -
  assume "1 \<le> cur" "cur \<le> 999" "1 \<le> n" "n \<le> 999"
  then have "(if cur \<le> n then n - cur else n + 999 - cur) < 999"
    "wrap_id (cur + (if cur \<le> n then n - cur else n + 999 - cur)) = n"
    by (auto simp: wrap_id_def mod_if)
  then show ?thesis by blast
qed

lemma AllocateMsgID_result:
  "case fst (AllocateMsgID peer st) of
     Some i \<Rightarrow> (\<exists>n. 1 \<le> n \<and> n \<le> 999 \<and> i = fmt03 n) \<and> i \<notin> set (held_ids peer st)
   | None \<Rightarrow> {fmt03 n |n. 1 \<le> n \<and> n \<le> 999} \<subseteq> set (held_ids peer st)"
proof -
  define start where "start = (let next = (case stCounter st of None \<Rightarrow> 1 | Some n \<Rightarrow> n) in if next = 0 \<or> next > 999 then 1 else next)"
  have s: "1 \<le> start" "start \<le> 999" by (auto simp: start_def Let_def)
  have A: "fst (AllocateMsgID peer st) = map_option fmt03 (scan_ids (held_ids peer st) 999 start)"
    by (simp add: AllocateMsgID_def Let_def start_def split: option.splits)
  show ?thesis
  proof (cases "scan_ids (held_ids peer st) 999 start")
    case None
    have "fmt03 n \<in> set (held_ids peer st)" if "1 \<le> n" "n \<le> 999" for n
      using wrap_id_covers[OF s that] scan_ids_None[OF None s] by auto
    then show ?thesis using None by (auto simp: A)
  next
    case (Some n)
    then show ?thesis using scan_ids_Some[OF Some s] by (auto simp: A)
  qed
qed

text \<open>
  Allocation returns a three-digit identifier from 001 to 999 that no outstanding
  message to the peer holds, and it fails only when all 999 are held.
\<close>

theorem AllocateMsgID_free:
  "case fst (AllocateMsgID peer st) of
     Some i \<Rightarrow> (\<exists>n. 1 \<le> n \<and> n \<le> 999 \<and> i = fmt03 n) \<and> i \<notin> set (held_ids peer st)
   | None \<Rightarrow> {fmt03 n |n. 1 \<le> n \<and> n \<le> 999} \<subseteq> set (held_ids peer st)"
  by (rule AllocateMsgID_result)

section \<open>Outstanding messages have different identifiers\<close>

definition ids_distinct :: "store \<Rightarrow> bool" where
  "ids_distinct st \<longleftrightarrow>
     (\<forall>a \<in> set (scoped st). \<forall>b \<in> set (scoped st). awaiting a \<and> awaiting b \<and> mPeerCall a = mPeerCall b \<and> mMsgID a \<noteq> []
        \<and> mMsgID a = mMsgID b \<longrightarrow> mId a = mId b)"

definition store_ok :: "store \<Rightarrow> bool" where
  "store_ok st \<longleftrightarrow> distinct (map mId (stRows st)) \<and> (\<forall>m \<in> set (stRows st). mId m < stNextId st) \<and> ids_distinct st"

lemma scoped_iff: "m \<in> set (scoped st) \<longleftrightarrow> m \<in> set (stRows st) \<and> \<not> mDeleted m"
  by (auto simp: scoped_def)

lemma held_ids_iff: "i \<in> set (held_ids peer st) \<longleftrightarrow> i \<noteq> [] \<and> (\<exists>m \<in> set (scoped st). awaiting m \<and> mPeerCall m = peer \<and> mMsgID m = i)"
  by (auto simp: held_ids_def)

lemma AllocateMsgID_rows [simp]: "stRows (snd (AllocateMsgID peer st)) = stRows st" "stNextId (snd (AllocateMsgID peer st)) = stNextId st"
  by (simp_all add: AllocateMsgID_def Let_def split: option.splits)

lemma scoped_alloc [simp]: "scoped (snd (AllocateMsgID peer st)) = scoped st"
  by (simp add: scoped_def)

text \<open>Writes that leave a row's key, peer and identifier alone, and do not reopen it or bring it back.\<close>

definition closes :: "message \<Rightarrow> message \<Rightarrow> bool" where
  "closes old new \<longleftrightarrow> mId new = mId old \<and> mPeerCall new = mPeerCall old \<and> mMsgID new = mMsgID old
     \<and> (awaiting new \<longrightarrow> awaiting old) \<and> (mDeleted old \<longrightarrow> mDeleted new)"

lemma ids_distinctD:
  "ids_distinct st \<Longrightarrow> a \<in> set (scoped st) \<Longrightarrow> b \<in> set (scoped st) \<Longrightarrow> awaiting a \<Longrightarrow> awaiting b \<Longrightarrow> mPeerCall a = mPeerCall b
   \<Longrightarrow> mMsgID a \<noteq> [] \<Longrightarrow> mMsgID a = mMsgID b \<Longrightarrow> mId a = mId b"
  unfolding ids_distinct_def by blast

lemma closes_row:
  assumes "\<forall>m \<in> set (stRows st). closes m (f m)" "x \<in> set (scoped (st\<lparr>stRows := map f (stRows st)\<rparr>))" "awaiting x"
  obtains m where "m \<in> set (scoped st)" "awaiting m" "mId m = mId x" "mPeerCall m = mPeerCall x" "mMsgID m = mMsgID x"
proof -
  obtain m where m: "m \<in> set (stRows st)" "x = f m" "\<not> mDeleted x" using assms(2) by (auto simp: scoped_def)
  then have "closes m x" using assms(1) by simp
  then show ?thesis using m(1,3) assms(3) by (intro that[of m]) (auto simp: closes_def scoped_iff)
qed

lemma store_ok_map:
  assumes ok: "store_ok st" and cl: "\<forall>m \<in> set (stRows st). closes m (f m)"
  shows "store_ok (st\<lparr>stRows := map f (stRows st)\<rparr>)"
proof -
  have ids: "map mId (map f (stRows st)) = map mId (stRows st)"
    using cl by (simp add: closes_def)
  have "ids_distinct (st\<lparr>stRows := map f (stRows st)\<rparr>)"
    unfolding ids_distinct_def
  proof (intro ballI impI)
    fix a b
    assume a: "a \<in> set (scoped (st\<lparr>stRows := map f (stRows st)\<rparr>))" and b: "b \<in> set (scoped (st\<lparr>stRows := map f (stRows st)\<rparr>))"
      and ab: "awaiting a \<and> awaiting b \<and> mPeerCall a = mPeerCall b \<and> mMsgID a \<noteq> [] \<and> mMsgID a = mMsgID b"
    from cl a ab obtain m where m: "m \<in> set (scoped st)" "awaiting m" "mId m = mId a" "mPeerCall m = mPeerCall a" "mMsgID m = mMsgID a"
      by (blast elim: closes_row)
    from cl b ab obtain n where n: "n \<in> set (scoped st)" "awaiting n" "mId n = mId b" "mPeerCall n = mPeerCall b" "mMsgID n = mMsgID b"
      by (blast elim: closes_row)
    have "mId m = mId n" using ids_distinctD[of st m n] ok ab m n unfolding store_ok_def by metis
    then show "mId a = mId b" using m(3) n(3) by simp
  qed
  moreover have "mId (f m) < stNextId st" if "m \<in> set (stRows st)" for m
    using ok cl that by (simp add: store_ok_def closes_def)
  moreover have "distinct (map mId (map f (stRows st)))" unfolding ids using ok by (simp add: store_ok_def)
  ultimately show ?thesis by (simp add: store_ok_def)
qed

lemma store_ok_update:
  "store_ok st \<Longrightarrow> (\<And>m. closes m (f m)) \<Longrightarrow> store_ok (update_where i f st)"
  unfolding update_where_def by (rule store_ok_map) (auto simp: closes_def)

lemma store_ok_save:
  assumes "store_ok st" "\<forall>r \<in> set (stRows st). mId r = mId m \<longrightarrow> closes r m"
  shows "store_ok (save_row m st)"
  unfolding save_row_def using assms by (intro store_ok_map) (auto simp: closes_def)

text \<open>Composing a message: an identifier is allocated and the row inserted.\<close>

lemma store_ok_alloc: "store_ok st \<Longrightarrow> store_ok (snd (AllocateMsgID peer st))"
  unfolding store_ok_def ids_distinct_def scoped_alloc AllocateMsgID_rows .

lemma store_ok_insert:
  assumes "store_ok st" "awaiting (derive m) \<Longrightarrow> \<not> mDeleted m \<Longrightarrow> mMsgID m \<notin> set (held_ids (mPeerCall (derive m)) st)"
  shows "store_ok (snd (Insert m st))"
proof -
  let ?m = "(derive m)\<lparr>mId := stNextId st\<rparr>"
  have f: "mMsgID ?m = mMsgID m" "mDeleted ?m = mDeleted m" "mPeerCall ?m = mPeerCall (derive m)" "awaiting ?m = awaiting (derive m)"
    by (simp_all add: derive_def awaiting_def Let_def split: thread_kind.splits)
  have new: "\<not> (awaiting a \<and> mPeerCall a = mPeerCall ?m \<and> mMsgID a = mMsgID ?m \<and> mMsgID a \<noteq> [])"
    if "a \<in> set (scoped st)" "awaiting ?m" "\<not> mDeleted ?m" for a
    using assms(2) that f by (auto simp: held_ids_iff)
  have st': "stRows (snd (Insert m st)) = stRows st @ [?m]" "stNextId (snd (Insert m st)) = Suc (stNextId st)"
    by (simp_all add: Insert_def Let_def)
  have fresh: "mId a \<noteq> stNextId st" if "a \<in> set (stRows st)" for a using assms(1) that by (auto simp: store_ok_def)
  have sc: "a \<in> set (scoped (snd (Insert m st))) \<longleftrightarrow> a \<in> set (scoped st) \<or> (a = ?m \<and> \<not> mDeleted ?m)" for a
    by (auto simp: scoped_iff st')
  have "ids_distinct (snd (Insert m st))"
    unfolding ids_distinct_def
  proof (intro ballI impI)
    fix a b
    assume ab: "a \<in> set (scoped (snd (Insert m st)))" "b \<in> set (scoped (snd (Insert m st)))"
      "awaiting a \<and> awaiting b \<and> mPeerCall a = mPeerCall b \<and> mMsgID a \<noteq> [] \<and> mMsgID a = mMsgID b"
    have old: "mId a = mId b" if "a \<in> set (scoped st)" "b \<in> set (scoped st)"
      using ids_distinctD[of st a b] assms(1) that ab(3) unfolding store_ok_def by metis
    show "mId a = mId b"
      using ab old new[of a] new[of b] by (auto simp: sc)
  qed
  then show ?thesis using assms(1) fresh by (auto simp: store_ok_def st')
qed

end
