(* ===== verification/MSG_Ring.thy ===== *)
theory MSG_Ring
  imports Go_Strings
begin

text \<open>
  The ring of locally transmitted messages (\<^verbatim>\<open>pkg/messages/local_tx_ring.go\<close>), which the
  router and the gateway consult to recognise their own traffic. The doubly linked list with
  its map of nodes is the list of entries, oldest first. The ring is shown to be a
  least-recently-added cache with a time limit.
\<close>

record tx_ring =
  rgTTL :: int
  rgCap :: nat
  rgEntries :: "(string \<times> int) list"

definition DefaultLocalTxRingTTL :: int where
  "DefaultLocalTxRingTTL = 5 * 60 * 10 ^ 9"

definition DefaultLocalTxRingSize :: nat where
  "DefaultLocalTxRingSize = 256"

definition NewLocalTxRing :: "int \<Rightarrow> int \<Rightarrow> tx_ring" where
  "NewLocalTxRing sz ttl =
     \<lparr>rgTTL = (if ttl \<le> 0 then DefaultLocalTxRingTTL else ttl),
      rgCap = (if sz \<le> 0 then DefaultLocalTxRingSize else nat sz), rgEntries = []\<rparr>"

definition ringKey :: "string \<Rightarrow> string \<Rightarrow> string" where
  "ringKey source mid = to_upper (trim_space source) @ CHR 0x00 # mid"

definition evictExpired :: "int \<Rightarrow> tx_ring \<Rightarrow> tx_ring" where
  "evictExpired now r = r\<lparr>rgEntries := dropWhile (\<lambda>(k, e). now > e) (rgEntries r)\<rparr>"

definition add_key :: "int \<Rightarrow> string \<Rightarrow> tx_ring \<Rightarrow> tx_ring" where
  "add_key now key r0 =
     (let r = evictExpired now r0; es = rgEntries r in
      if key \<in> fst ` set es
      then r\<lparr>rgEntries := filter (\<lambda>(k, e). k \<noteq> key) es @ [(key, now + rgTTL r)]\<rparr>
      else r\<lparr>rgEntries := drop (Suc (length es) - rgCap r) es @ [(key, now + rgTTL r)]\<rparr>)"

definition ring_Add :: "int \<Rightarrow> string \<Rightarrow> string \<Rightarrow> tx_ring \<Rightarrow> tx_ring" where
  "ring_Add now source mid r = (if mid = [] then r else add_key now (ringKey source mid) r)"

definition find_key :: "int \<Rightarrow> string \<Rightarrow> tx_ring \<Rightarrow> bool \<times> tx_ring" where
  "find_key now key r =
     (case map_of (rgEntries r) key of
        None \<Rightarrow> (False, r)
      | Some e \<Rightarrow>
          if \<not> now > e then (True, r)
          else (False, r\<lparr>rgEntries := filter (\<lambda>(k, e). k \<noteq> key) (rgEntries r)\<rparr>))"

definition ring_Contains :: "int \<Rightarrow> string \<Rightarrow> string \<Rightarrow> tx_ring \<Rightarrow> bool \<times> tx_ring" where
  "ring_Contains now source mid r = (if mid = [] then (False, r) else find_key now (ringKey source mid) r)"

definition ring_Len :: "tx_ring \<Rightarrow> nat" where
  "ring_Len r = length (rgEntries r)"

section \<open>The specification\<close>

text \<open>
  Of a history of additions the last one of each key counts, in the order of these last
  additions; of the keys the last \<open>cap\<close> are kept; of these a key is present until its time
  has passed.
\<close>

definition last_of_each :: "int \<Rightarrow> (int \<times> string) list \<Rightarrow> (string \<times> int) list" where
  "last_of_each ttl h = foldl (\<lambda>acc (t, k). filter (\<lambda>(l, _). l \<noteq> k) acc @ [(k, t + ttl)]) [] h"

definition last_n :: "nat \<Rightarrow> 'a list \<Rightarrow> 'a list" where
  "last_n n xs = drop (length xs - n) xs"

definition lru_present :: "nat \<Rightarrow> int \<Rightarrow> (int \<times> string) list \<Rightarrow> int \<Rightarrow> string \<Rightarrow> bool" where
  "lru_present cap ttl h now k \<longleftrightarrow> (\<exists>e. (k, e) \<in> set (last_n cap (last_of_each ttl h)) \<and> now \<le> e)"

datatype ring_event = Added int string | Asked int string

fun ring_time :: "ring_event \<Rightarrow> int" where
  "ring_time (Added t k) = t"
| "ring_time (Asked t k) = t"

fun ring_step :: "ring_event \<Rightarrow> tx_ring \<Rightarrow> tx_ring" where
  "ring_step (Added t k) r = add_key t k r"
| "ring_step (Asked t k) r = snd (find_key t k r)"

definition additions :: "ring_event list \<Rightarrow> (int \<times> string) list" where
  "additions evs = concat (map (\<lambda>e. case e of Added t k \<Rightarrow> [(t, k)] | Asked t k \<Rightarrow> []) evs)"

definition ring_run :: "tx_ring \<Rightarrow> ring_event list \<Rightarrow> tx_ring" where
  "ring_run r evs = fold ring_step evs r"

section \<open>The ring meets it\<close>

lemma last_n_snoc: "0 < n \<Longrightarrow> last_n n (xs @ [x]) = last_n (n - 1) xs @ [x]"
  by (auto simp: last_n_def)

lemma last_of_each_snoc: "last_of_each ttl (h @ [(t, k)]) = filter (\<lambda>(l, _). l \<noteq> k) (last_of_each ttl h) @ [(k, t + ttl)]"
  by (simp add: last_of_each_def)

text \<open>Entries that are not expired are the rear part of a list sorted by expiry.\<close>

abbreviation live :: "int \<Rightarrow> string \<times> int \<Rightarrow> bool" where
  "live now \<equiv> (\<lambda>(k, e). now \<le> e)"

lemma dropWhile_expired:
  "sorted (map snd xs) \<Longrightarrow> dropWhile (\<lambda>(k, e). now > e) xs = filter (live now) xs"
proof (induction xs)
  case (Cons x xs)
  show ?case
  proof (cases "now > snd x")
    case True
    then show ?thesis using Cons by (simp add: case_prod_unfold)
  next
    case False
    then have "\<forall>y \<in> set (x # xs). live now y" using Cons.prems by (fastforce simp: case_prod_unfold)
    then have "filter (live now) (x # xs) = x # xs" by (intro filter_True) blast
    then show ?thesis using False by (simp add: case_prod_unfold)
  qed
qed simp

lemma filter_live_last_n:
  assumes "sorted (map snd xs)"
  shows "filter (live now) (last_n n xs) = last_n n (filter (live now) xs)"
  using assms
proof (induction xs arbitrary: n rule: rev_induct)
  case (snoc x xs)
  show ?case
  proof (cases "n = 0")
    case True
    then show ?thesis by (simp add: last_n_def)
  next
    case False
    then have n: "0 < n" by simp
    have s: "sorted (map snd xs)" "\<forall>y \<in> set xs. snd y \<le> snd x" using snoc.prems by (auto simp: sorted_append)
    show ?thesis
    proof (cases "live now x")
      case True
      then show ?thesis using snoc.IH[OF s(1), of "n - 1"] by (simp add: last_n_snoc[OF n])
    next
      case False
      then have "filter (live now) xs = []" using s(2) by (fastforce simp: filter_empty_conv case_prod_unfold)
      then show ?thesis using False snoc.IH[OF s(1), of "n - 1"] by (simp add: last_n_snoc[OF n]) (simp add: last_n_def)
    qed
  qed
qed (simp add: last_n_def)

lemma last_of_each_props:
  assumes "sorted (map fst h)"
  shows "distinct (map fst (last_of_each ttl h)) \<and> sorted (map snd (last_of_each ttl h))
    \<and> (\<forall>x \<in> set (last_of_each ttl h). \<exists>t \<in> fst ` set h. snd x = t + ttl)"
  using assms
proof (induction h rule: rev_induct)
  case (snoc x h)
  obtain t k where x: "x = (t, k)" by force
  have h: "sorted (map fst h)" "\<forall>s \<in> fst ` set h. s \<le> t" using snoc.prems by (auto simp: sorted_append x)
  note IH = snoc.IH[OF h(1)]
  have old: "\<forall>y \<in> set (last_of_each ttl h). snd y \<le> t + ttl" using IH h(2) by fastforce
  then show ?case using IH by (auto simp: x last_of_each_snoc distinct_map_filter sorted_append sorted_filter)
qed (simp add: last_of_each_def)

text \<open>Dropping a key and keeping the last ones.\<close>

abbreviation without :: "'a \<Rightarrow> ('a \<times> 'b) list \<Rightarrow> ('a \<times> 'b) list" where
  "without k \<equiv> filter (\<lambda>(l, _). l \<noteq> k)"

lemma without_absent: "k \<notin> fst ` set xs \<Longrightarrow> without k xs = xs"
  by (force simp: filter_id_conv)

lemma length_without: "distinct (map fst xs) \<Longrightarrow> k \<in> fst ` set xs \<Longrightarrow> Suc (length (without k xs)) = length xs"
proof (induction xs)
  case (Cons x xs)
  then show ?case using without_absent[of k xs] by (cases x) auto
qed simp

lemma last_n_split: "length b \<le> n \<Longrightarrow> length b < n \<longrightarrow> a = [] \<Longrightarrow> last_n n (a @ b) = b"
  by (cases "length b = n") (auto simp: last_n_def)

lemma last_n_remove:
  assumes "distinct (map fst (a @ b))" "length b \<le> n" "length b < n \<longrightarrow> a = []" "0 < n"
  shows "(if k \<in> fst ` set b then without k b else drop (Suc (length b) - n) b) = last_n (n - 1) (without k (a @ b))"
proof (cases "k \<in> fst ` set b")
  case True
  then have "without k a = a" using assms(1) by (intro without_absent) auto
  moreover have "Suc (length (without k b)) = length b" using assms(1) True by (intro length_without) auto
  then have "last_n (n - 1) (a @ without k b) = without k b" using assms by (intro last_n_split) auto
  ultimately show ?thesis using True by simp
next
  case False
  have "last_n (n - 1) (without k a @ b) = drop (Suc (length b) - n) b"
    using assms(2-4) by (cases "length b < n") (auto simp: last_n_def)
  then show ?thesis using False by (simp add: without_absent)
qed

text \<open>At its last event the ring holds, apart from expired entries, what the specification keeps.\<close>

definition ring_ok :: "int \<Rightarrow> (int \<times> string) list \<Rightarrow> tx_ring \<Rightarrow> bool" where
  "ring_ok now h r \<longleftrightarrow> sorted (map snd (rgEntries r)) \<and> distinct (map fst (rgEntries r))
     \<and> (\<forall>x \<in> set (rgEntries r). snd x \<le> now + rgTTL r)
     \<and> filter (live now) (rgEntries r) = last_n (rgCap r) (filter (live now) (last_of_each (rgTTL r) h))"

lemma filter_live_later: "t \<le> now \<Longrightarrow> filter (live now) (filter (live t) xs) = filter (live now) xs"
  by (auto simp: case_prod_unfold intro!: filter_cong)

lemma ring_ok_later:
  assumes "ring_ok t h r" "t \<le> now" "sorted (map fst h)"
  shows "ring_ok now h r"
proof -
  let ?l = "last_of_each (rgTTL r) h"
  have s: "sorted (map snd (filter (live t) ?l))" using last_of_each_props[OF assms(3)] by (simp add: sorted_filter)
  have "filter (live now) (rgEntries r) = filter (live now) (filter (live t) (rgEntries r))"
    using assms(2) by (simp only: filter_live_later)
  also have "\<dots> = filter (live now) (last_n (rgCap r) (filter (live t) ?l))" using assms(1) by (simp add: ring_ok_def)
  also have "\<dots> = last_n (rgCap r) (filter (live now) ?l)" by (simp only: filter_live_last_n[OF s] filter_live_later[OF assms(2)])
  finally show ?thesis using assms(1,2) by (fastforce simp: ring_ok_def)
qed

lemma ring_ok_asked:
  assumes "ring_ok now h r"
  shows "ring_ok now h (snd (find_key now k r))"
proof (cases "map_of (rgEntries r) k")
  case (Some e)
  show ?thesis
  proof (cases "now > e")
    case True
    have "l \<noteq> k" if "(l, e') \<in> set (rgEntries r)" "now \<le> e'" for l e'
      using True that assms eq_key_imp_eq_value[OF _ map_of_SomeD[OF Some]] by (force simp: ring_ok_def)
    then have "filter (live now) (without k (rgEntries r)) = filter (live now) (rgEntries r)"
      unfolding filter_filter by (intro filter_cong) auto
    then show ?thesis using Some True assms
      by (auto simp: find_key_def ring_ok_def sorted_filter distinct_map_filter)
  qed (use Some assms in \<open>simp add: find_key_def\<close>)
qed (use assms in \<open>simp add: find_key_def\<close>)

lemma ring_ok_added:
  assumes ok: "ring_ok now h r" and h: "sorted (map fst h)" "\<forall>t \<in> fst ` set h. t \<le> now" and pos: "0 < rgTTL r" "0 < rgCap r"
  shows "ring_ok now (h @ [(now, k)]) (add_key now k r)"
proof -
  let ?ttl = "rgTTL r" and ?cap = "rgCap r"
  let ?u = "filter (live now) (last_of_each ?ttl h)"
  define b where "b = last_n ?cap ?u"
  define a where "a = take (length ?u - ?cap) ?u"
  have u: "?u = a @ b" by (simp add: a_def b_def last_n_def)
  have b: "length b \<le> ?cap" "length b < ?cap \<longrightarrow> a = []" by (auto simp: a_def b_def last_n_def)
  have d: "distinct (map fst (a @ b))" using last_of_each_props[OF h(1), of ?ttl] by (simp add: distinct_map_filter flip: u)
  have bf: "b = filter (live now) (rgEntries r)" using ok by (simp add: ring_ok_def b_def)
  have es: "dropWhile (\<lambda>(k, e). now > e) (rgEntries r) = b"
    unfolding bf using ok by (intro dropWhile_expired) (simp add: ring_ok_def)
  have ro: "sorted (map snd (rgEntries r))" "\<forall>x \<in> set (rgEntries r). snd x \<le> now + ?ttl"
    using ok by (simp_all add: ring_ok_def)
  let ?c = "if k \<in> fst ` set b then without k b else drop (Suc (length b) - ?cap) b"
  have entries: "rgEntries (add_key now k r) = ?c @ [(k, now + ?ttl)]" "rgTTL (add_key now k r) = ?ttl" "rgCap (add_key now k r) = ?cap"
    by (simp_all add: add_key_def evictExpired_def Let_def es)
  have bok: "sorted (map snd b)" "\<forall>x \<in> set b. live now x" "\<forall>x \<in> set b. snd x \<le> now + ?ttl"
    using ro unfolding bf by (auto simp: sorted_filter)
  have sub: "set ?c \<subseteq> set b" "k \<notin> fst ` set ?c" "sorted (map snd ?c)" "distinct (map fst ?c)"
    using bok(1) d by (auto simp: sorted_filter distinct_map_filter drop_map[symmetric] sorted_wrt_drop distinct_drop dest!: in_set_dropD)
  have live: "filter (live now) ?c = ?c" using sub(1) bok(2) by (intro filter_True) blast
  have "filter (live now) (last_of_each ?ttl (h @ [(now, k)])) = without k ?u @ [(k, now + ?ttl)]"
    using pos(1) by (simp add: last_of_each_snoc conj_commute)
  then have "last_n ?cap (filter (live now) (last_of_each ?ttl (h @ [(now, k)]))) = last_n (?cap - 1) (without k (a @ b)) @ [(k, now + ?ttl)]"
    using pos(2) by (simp only: last_n_snoc u)
  also have "\<dots> = ?c @ [(k, now + ?ttl)]" by (simp only: last_n_remove[OF d b pos(2)])
  finally show ?thesis
    using sub live pos(1) bok(3) by (auto simp: ring_ok_def entries sorted_append)
qed

lemma ring_fields [simp]:
  "rgTTL (ring_step e r) = rgTTL r" "rgCap (ring_step e r) = rgCap r"
  by (cases e; simp add: add_key_def evictExpired_def Let_def find_key_def split: option.splits)+

lemma ring_run_ok:
  assumes "sorted (map ring_time evs)" "\<forall>e \<in> set evs. ring_time e \<le> now" "rgEntries r = []" "0 < rgTTL r" "0 < rgCap r"
  shows "ring_ok now (additions evs) (ring_run r evs) \<and> rgTTL (ring_run r evs) = rgTTL r \<and> rgCap (ring_run r evs) = rgCap r"
  using assms(1,2)
proof (induction evs arbitrary: now rule: rev_induct)
  case Nil
  then show ?case using assms(3) by (simp add: ring_run_def ring_ok_def additions_def last_of_each_def last_n_def)
next
  case (snoc e evs)
  let ?t = "ring_time e"
  have srt: "sorted (map fst (additions evs))" if "sorted (map ring_time evs)" for evs
    using that
  proof (induction evs rule: rev_induct)
    case (snoc x xs)
    then show ?case
      by (cases x) (auto simp: additions_def sorted_append split: ring_event.splits dest!: bspec)
  qed (simp add: additions_def)
  have old: "\<forall>x \<in> set evs. ring_time x \<le> ?t" "sorted (map ring_time evs)" using snoc.prems(1) by (auto simp: sorted_append)
  have ok: "ring_ok ?t (additions evs) (ring_run r evs)" "rgTTL (ring_run r evs) = rgTTL r" "rgCap (ring_run r evs) = rgCap r"
    using snoc.IH[of ?t] old by blast+
  have times: "\<forall>s \<in> fst ` set (additions evs). s \<le> ?t"
    using old(1) by (fastforce simp: additions_def split: ring_event.splits)
  have "ring_ok ?t (additions (evs @ [e])) (ring_step e (ring_run r evs))"
  proof (cases e)
    case (Added t k)
    then show ?thesis using ring_ok_added[OF ok(1) srt[OF old(2)] times, of k] assms(4,5) ok(2,3) by (simp add: additions_def)
  next
    case (Asked t k)
    then show ?thesis using ring_ok_asked[of t "additions evs" "ring_run r evs" k] ok(1) by (simp add: additions_def)
  qed
  then have "ring_ok now (additions (evs @ [e])) (ring_step e (ring_run r evs))"
    by (rule ring_ok_later) (use snoc.prems srt in auto)
  then show ?case using ok(2,3) by (simp add: ring_run_def)
qed

text \<open>
  After any sequence of additions and lookups the ring holds a message exactly as a
  least-recently-added cache would: when the message is among the last \<open>cap\<close> different ones added
  and its latest addition is no older than the time limit.
\<close>

theorem ring_is_lru:
  assumes "sorted (map ring_time evs)" "\<forall>e \<in> set evs. ring_time e \<le> now" "rgEntries r = []" "0 < rgTTL r" "0 < rgCap r"
  shows "fst (find_key now k (ring_run r evs)) \<longleftrightarrow> lru_present (rgCap r) (rgTTL r) (additions evs) now k"
proof -
  have sorted: "sorted (map snd (last_of_each (rgTTL r) (additions evs)))"
  proof -
    have "sorted (map fst (additions evs))" using assms(1)
    proof (induction evs rule: rev_induct)
      case (snoc x xs)
      then show ?case
        by (cases x) (auto simp: additions_def sorted_append split: ring_event.splits dest!: bspec)
    qed (simp add: additions_def)
    then show ?thesis using last_of_each_props by blast
  qed
  have ok: "distinct (map fst (rgEntries (ring_run r evs)))"
    "filter (live now) (rgEntries (ring_run r evs)) = last_n (rgCap r) (filter (live now) (last_of_each (rgTTL r) (additions evs)))"
    using ring_run_ok[OF assms] by (auto simp: ring_ok_def)
  have "fst (find_key now k (ring_run r evs)) \<longleftrightarrow> (\<exists>e. (k, e) \<in> set (filter (live now) (rgEntries (ring_run r evs))))"
    using map_of_eq_Some_iff[OF ok(1)] by (auto simp: find_key_def split: option.splits) (metis map_of_is_SomeI not_less option.distinct(1) option.inject ok(1))+
  also have "\<dots> \<longleftrightarrow> (\<exists>e. (k, e) \<in> set (filter (live now) (last_n (rgCap r) (last_of_each (rgTTL r) (additions evs)))))"
    by (simp only: ok(2) filter_live_last_n[OF sorted])
  also have "\<dots> \<longleftrightarrow> lru_present (rgCap r) (rgTTL r) (additions evs) now k" by (auto simp: lru_present_def)
  finally show ?thesis .
qed

definition example_ring :: tx_ring where
  "example_ring = \<lparr>rgTTL = 100, rgCap = 2, rgEntries = []\<rparr>"

theorem ring_is_lru_witness:
  "fst (find_key 5 ''b'' (ring_run example_ring [Added 0 ''a'', Added 1 ''b'', Asked 2 ''a'', Added 3 ''c'']))
   \<and> \<not> lru_present 2 100 [(0, ''a''), (1, ''b''), (3, ''c'')] 5 ''a''"
proof -
  let ?evs = "[Added 0 ''a'', Added 1 ''b'', Asked 2 ''a'', Added 3 ''c'']"
  have "fst (find_key 5 ''b'' (ring_run example_ring ?evs)) \<longleftrightarrow> lru_present (rgCap example_ring) (rgTTL example_ring) (additions ?evs) 5 ''b''"
    by (rule ring_is_lru) (simp_all add: example_ring_def)
  then show ?thesis by (simp add: example_ring_def lru_present_def additions_def last_of_each_def last_n_def)
qed

end
