(* ===== verification/MSG_Sender.thy ===== *)
theory MSG_Sender
  imports MSG_Store MSG_Ring APRS_Packet TX_Governor
begin

text \<open>
  The outbound pipeline of messages: \<^verbatim>\<open>pkg/messages/preferences.go\<close> and \<^verbatim>\<open>sender.go\<close>. What
  the sender calls is the record \<open>menv\<close>: the clock, the transmit governor, the gateway's line
  sender, the reachability and mode of channels. What it keeps is the record \<open>mstate\<close>, shared
  with the retry manager and the router. The row that Go passes by pointer is passed and
  returned. The log holds the accepted submissions, the lines and the events in their order.
\<close>

section \<open>Preferences\<close>

record mprefs =
  mpFallbackPolicy :: string
  mpDefaultPath :: string
  mpRetryMaxAttempts :: u32
  mpRetentionDays :: u32
  mpMaxTextOverride :: u32

definition defaultPrefs :: mprefs where
  "defaultPrefs = \<lparr>mpFallbackPolicy = ''is_fallback'', mpDefaultPath = ''WIDE1-1,WIDE2-1'', mpRetryMaxAttempts = 4,
     mpRetentionDays = 0, mpMaxTextOverride = 0\<rparr>"

definition DefaultMaxMessageText :: nat where "DefaultMaxMessageText = 67"
definition MaxMessageTextCeiling :: nat where "MaxMessageTextCeiling = 200"

definition EffectiveMaxMessageText :: "mprefs \<Rightarrow> nat" where
  "EffectiveMaxMessageText p =
     (let ov = mpMaxTextOverride p in
      if ov = 0 then DefaultMaxMessageText
      else if unat ov \<le> DefaultMaxMessageText \<or> unat ov > MaxMessageTextCeiling then DefaultMaxMessageText
      else unat ov)"

definition NormalizeFallbackPolicy :: "string \<Rightarrow> string" where
  "NormalizeFallbackPolicy p =
     (if p = ''rf_only'' \<or> p = ''is_fallback'' \<or> p = ''is_only'' \<or> p = ''both'' then p else ''is_fallback'')"

text \<open>\<^verbatim>\<open>Load\<close>: the reader's error leaves the snapshot alone; an absent row gives the defaults.\<close>

definition prefs_Load :: "unit + mprefs option \<Rightarrow> mprefs \<Rightarrow> mprefs" where
  "prefs_Load r p = (case r of Inl _ \<Rightarrow> p | Inr None \<Rightarrow> defaultPrefs | Inr (Some q) \<Rightarrow> q)"

section \<open>State\<close>

text \<open>The collaborators during one operation. No line sender is no gateway.\<close>

record menv =
  evNow :: int
  evSubmit :: "u32 \<Rightarrow> frame \<Rightarrow> submit_source \<Rightarrow> gov_err option"
  evSendLine :: "(string \<Rightarrow> bool) option"
  evRunning :: "u32 \<Rightarrow> bool"
  evMode :: "(u32 \<Rightarrow> string) option"
  evPasscode :: string
  evOurCall :: string
  evJitter :: "int \<Rightarrow> int"

datatype event_type =
    EventMessageReceived | EventMessageAcked | EventMessageRejected | EventMessageReplyAckRcvd | EventMessageSentRF
  | EventMessageSentIS | EventMessageFailed | EventMessageDeleted

text \<open>A submission is logged with the row it is for.\<close>

datatype meffect = Submitted nat u32 frame | AckSubmitted u32 frame | Line string | Published event_type nat thread_kind string

record pending_frame =
  pfRowID :: nat
  pfMsgID :: string
  pfPeerCall :: string
  pfThreadKind :: thread_kind

record conv_prefs =
  cpSendPath :: string
  cpWaitForAck :: bool

text \<open>Frames have an identity, the pointer under which the sender files them.\<close>

record mstate =
  msStore :: store
  msConv :: "thread_kind \<times> string \<rightharpoonup> conv_prefs"
  msPrefs :: mprefs
  msRing :: tx_ring
  msTxChannel :: u32
  msPending :: "nat \<rightharpoonup> pending_frame"
  msNextFrame :: nat
  msInFlight :: "nat list"
  msKick :: bool
  msAutoAckCh :: u32
  msDedup :: "string \<rightharpoonup> int"
  msDedupWin :: int
  msTactical :: "string set"
  msBlocked :: "string set"
  msLog :: "meffect list"

datatype send_path = PathRF | PathIS | PathBoth | PathNone

datatype build_err = MessageErr aprs_err | SourceErr ax25_err | DestErr ax25_err | PathErr ax25_err | FrameErr ax25_err

datatype send_err =
    ErrDirection | ErrNeedsMsgID | ErrMessageTextTooLong | ErrPacketMode | ErrRFUnavailable | ErrBuild build_err
  | ErrSubmit gov_err | ErrNoIGate | ErrReadOnlyIGate | ErrSendLine

record send_result =
  srPath :: send_path
  srErr :: "send_err option"
  srRetryable :: bool

abbreviation result :: "send_path \<Rightarrow> send_err option \<Rightarrow> bool \<Rightarrow> send_result" where
  "result p e r \<equiv> \<lparr>srPath = p, srErr = e, srRetryable = r\<rparr>"

definition ms_update :: "message \<Rightarrow> mstate \<Rightarrow> mstate" where
  "ms_update m st = st\<lparr>msStore := save_row m (msStore st)\<rparr>"

definition publish :: "event_type \<Rightarrow> message \<Rightarrow> mstate \<Rightarrow> mstate" where
  "publish t m st = st\<lparr>msLog := msLog st @ [Published t (mId m) (mThreadKind m) (mThreadKey m)]\<rparr>"

definition msg_SetTxChannel :: "u32 \<Rightarrow> mstate \<Rightarrow> mstate" where
  "msg_SetTxChannel ch st = (if ch = 0 then st else st\<lparr>msTxChannel := ch\<rparr>)"

section \<open>Frames and lines\<close>

fun parse_path_parts :: "string list \<Rightarrow> ax25_err + address list" where
  "parse_path_parts [] = Inr []"
| "parse_path_parts (p # ps) =
     (let p = trim_space p in
      if p = [] then parse_path_parts ps
      else try_bind (ParseAddress p) (\<lambda>a. try_bind (parse_path_parts ps) (\<lambda>out. Inr (a # out))))"

definition parsePath :: "string \<Rightarrow> ax25_err + address list" where
  "parsePath p0 = (let p = trim_space p0 in if p = [] then Inr [] else parse_path_parts (split_byte CHR '','' p))"

definition map_err :: "('e \<Rightarrow> 'f) \<Rightarrow> 'e + 'a \<Rightarrow> 'f + 'a" where
  "map_err f r = (case r of Inl e \<Rightarrow> Inl (f e) | Inr x \<Rightarrow> Inr x)"

definition buildFrame :: "mprefs \<Rightarrow> message \<Rightarrow> build_err + frame" where
  "buildFrame prefs row =
     try_bind (map_err MessageErr (EncodeMessage (mToCall row) (mText row) (mMsgID row))) (\<lambda>info.
     try_bind (map_err SourceErr (ParseAddress (mFromCall row))) (\<lambda>src.
     try_bind (map_err DestErr (ParseAddress ''APGRWO'')) (\<lambda>dest.
     try_bind (map_err PathErr (parsePath (mpDefaultPath prefs))) (\<lambda>path.
     map_err FrameErr (NewUIFrame src dest path info)))))"

definition pad_call :: "string \<Rightarrow> string" where
  "pad_call c = (let a = take 9 c in a @ replicate (9 - length a) CHR '' '')"

definition buildMessageTNC2 :: "message \<Rightarrow> string" where
  "buildMessageTNC2 row =
     FormatTNC2 (mFromCall row) ''APGRWO'' [''TCPIP*'']
       (bytes_of ('':'' @ pad_call (mToCall row) @ '':'' @ mText row @ (if mMsgID row \<noteq> [] then CHR ''{'' # mMsgID row else [])))"

section \<open>Sending\<close>

definition channelFor :: "mstate \<Rightarrow> message \<Rightarrow> u32" where
  "channelFor st row = (if mChannel row \<noteq> 0 then mChannel row else msTxChannel st)"

definition readOnlyIS :: "menv \<Rightarrow> bool" where
  "readOnlyIS e \<longleftrightarrow> trim_space (evPasscode e) = [] \<or> trim_space (evPasscode e) = ''-1''"

text \<open>A failed attempt: the reason is saved with the row.\<close>

definition failing :: "fail_reason \<Rightarrow> message \<Rightarrow> mstate \<Rightarrow> message \<times> mstate" where
  "failing reason row st = (let row = row\<lparr>mFailure := reason\<rparr> in (row, ms_update row st))"

definition finalizeRFFailure :: "message \<Rightarrow> send_err \<Rightarrow> mstate \<Rightarrow> send_result \<times> message \<times> mstate" where
  "finalizeRFFailure row cause st = (result PathRF (Some cause) False, failing RFIsUnavailable row st)"

definition recordPending :: "message \<Rightarrow> mstate \<Rightarrow> mstate" where
  "recordPending row st =
     st\<lparr>msPending := (msPending st)(msNextFrame st \<mapsto>
          \<lparr>pfRowID = mId row, pfMsgID = mMsgID row, pfPeerCall = mPeerCall row, pfThreadKind = mThreadKind row\<rparr>),
        msNextFrame := Suc (msNextFrame st)\<rparr>"

definition clearPending :: "nat \<Rightarrow> mstate \<Rightarrow> mstate" where
  "clearPending tok st = st\<lparr>msPending := (msPending st)(tok := None)\<rparr>"

definition messages_source :: submit_source where
  "messages_source = \<lparr>ssKind = ''messages'', ssDetail = [], ssPriority = PriorityIGateMsg, ssSkipDedup = True\<rparr>"

definition sendRF :: "menv \<Rightarrow> bool \<Rightarrow> message \<Rightarrow> mstate \<Rightarrow> send_result \<times> message \<times> mstate" where
  "sendRF e rfAvailable row st =
     (let ch = channelFor st row; dm = (mThreadKind row = DM) in
      if (case evMode e of None \<Rightarrow> False | Some mode \<Rightarrow> mode ch = ''packet'')
      then (result PathRF (Some ErrPacketMode) False, failing ChannelIsPacket row st)
      else if \<not> rfAvailable then finalizeRFFailure row ErrRFUnavailable st
      else case buildFrame (msPrefs st) row of
        Inl err \<Rightarrow> (result PathRF (Some (ErrBuild err)) False, failing EncodeFailed row st)
      | Inr f \<Rightarrow>
          let tok = msNextFrame st;
              st = recordPending row (st\<lparr>msRing := ring_Add (evNow e) (mFromCall row) (mMsgID row) (msRing st)\<rparr>)
          in case evSubmit e ch f messages_source of
               None \<Rightarrow>
                 let row = row\<lparr>mFailure := NoReason\<rparr>;
                     st = st\<lparr>msStore := ClearFailureReason (mId row) (msStore st), msLog := msLog st @ [Submitted (mId row) ch f]\<rparr>
                 in (result PathRF None dm, row, st)
             | Some err \<Rightarrow>
                 let st = clearPending tok st in
                 if err = ErrQueueFull then (result PathRF (Some (ErrSubmit err)) True, failing QueueIsFull row st)
                 else if err = ErrStopped then finalizeRFFailure row (ErrSubmit err) st
                 else (result PathRF (Some (ErrSubmit err)) dm, failing SubmitRefused row st))"

definition sendIS :: "menv \<Rightarrow> message \<Rightarrow> mstate \<Rightarrow> send_result \<times> message \<times> mstate" where
  "sendIS e row st =
     (case evSendLine e of
        None \<Rightarrow> (result PathIS (Some ErrNoIGate) False, failing NoIGate row st)
      | Some line \<Rightarrow>
          if readOnlyIS e then (result PathIS (Some ErrReadOnlyIGate) False, failing ReadOnlyIGate row st)
          else if \<not> line (buildMessageTNC2 row) then (result PathIS (Some ErrSendLine) False, failing IGateRefused row st)
          else
            let row = row\<lparr>mSentAt := Some (evNow e), mFailure := NoReason,
                       mAckState := (if mThreadKind row = Tactical then AckBroadcast else mAckState row)\<rparr>;
                st = ms_update row (st\<lparr>msLog := msLog st @ [Line (buildMessageTNC2 row)]\<rparr>)
            in (result PathIS None False, row, publish EventMessageSentIS row st))"

definition sendBoth :: "menv \<Rightarrow> bool \<Rightarrow> message \<Rightarrow> mstate \<Rightarrow> send_result \<times> message \<times> mstate" where
  "sendBoth e rfAvailable row0 st0 =
     (let (rf, row, st) = sendRF e rfAvailable row0 st0;
          (is, rowForIS, st) = sendIS e row st;
          row1 = (if srErr is = None
                  then row\<lparr>mSentAt := mSentAt rowForIS,
                           mAckState := (if mThreadKind row = Tactical then AckBroadcast else mAckState row)\<rparr>
                  else row);
          st1 = (if srErr is = None then ms_update row1 st else st);
          res = (if srErr rf = None then result PathBoth None (srRetryable rf)
                 else if srErr is = None then result PathIS None False
                 else result PathBoth (srErr rf) (srRetryable rf))
      in (res, row1, st1))"

definition sendRFWithISFallback :: "menv \<Rightarrow> bool \<Rightarrow> message \<Rightarrow> mstate \<Rightarrow> send_result \<times> message \<times> mstate" where
  "sendRFWithISFallback e rfAvailable row0 st0 =
     (if \<not> rfAvailable then sendIS e row0 st0
      else let (res, row, st) = sendRF e True row0 st0
           in if srErr res = None \<or> srErr res = Some (ErrSubmit ErrQueueFull) then (res, row, st)
              else sendIS e row st)"

definition SendWithPolicy :: "menv \<Rightarrow> string \<Rightarrow> message \<Rightarrow> mstate \<Rightarrow> send_result \<times> message \<times> mstate" where
  "SendWithPolicy e override row st =
     (if \<not> mOut row then (result PathNone (Some ErrDirection) False, row, st)
      else if mMsgID row = [] \<and> mThreadKind row = DM then (result PathNone (Some ErrNeedsMsgID) False, row, st)
      else if length (mText row) > EffectiveMaxMessageText (msPrefs st)
      then (result PathNone (Some ErrMessageTextTooLong) False, failing TextTooLong row st)
      else
        let policy = NormalizeFallbackPolicy (if override \<noteq> [] then override else mpFallbackPolicy (msPrefs st));
            rfAvailable = evRunning e (channelFor st row)
        in if policy = ''rf_only'' then sendRF e rfAvailable row st
           else if policy = ''is_only'' then sendIS e row st
           else if policy = ''both'' then sendBoth e rfAvailable row st
           else sendRFWithISFallback e rfAvailable row st)"

text \<open>The governor's hook, called with the frame it sent and the kind of its source.\<close>

definition onTxComplete :: "menv \<Rightarrow> nat \<Rightarrow> string \<Rightarrow> mstate \<Rightarrow> mstate" where
  "onTxComplete e tok kind st =
     (if kind \<noteq> ''messages'' then st
      else case msPending st tok of
        None \<Rightarrow> st
      | Some pf \<Rightarrow>
          let st = clearPending tok st in
          case GetByID (pfRowID pf) (msStore st) of
            None \<Rightarrow> st
          | Some row \<Rightarrow>
              let a = (if mThreadKind row = Tactical then Some AckBroadcast else None);
                  st = st\<lparr>msStore := UpdateSentAtAndAckState (mId row) (evNow e) a (msStore st)\<rparr>
              in publish EventMessageSentRF row st)"

end
