(* ===== verification/MSG_Calls.thy ===== *)
theory MSG_Calls
  imports Callsign
begin

text \<open>
  Who a message is from and for: the call-sign helpers and the addressee match of
  \<^verbatim>\<open>pkg/messages/router.go\<close>, the sets of monitored tactical calls and blocked senders
  (\<^verbatim>\<open>tactical_set.go\<close>, \<^verbatim>\<open>blocklist_set.go\<close>), the invite grammar (\<^verbatim>\<open>invite.go\<close>) and the bot
  directory (\<^verbatim>\<open>bots.go\<close>). The match is shown to be equality of stations up to SSID 0, with a
  bare call addressing every station of that base.
\<close>

definition norm_call :: "string \<Rightarrow> string" where
  "norm_call s = to_upper (trim_space s)"

definition baseCall :: "string \<Rightarrow> string" where
  "baseCall s0 = (let s = trim_space s0 in case cut_byte CHR ''-'' s of None \<Rightarrow> s | Some (a, b) \<Rightarrow> a)"

definition baseCallUpper :: "string \<Rightarrow> string" where
  "baseCallUpper call = baseCall (norm_call call)"

definition canonicalCall :: "string \<Rightarrow> string" where
  "canonicalCall s = (case cut_byte CHR ''-'' s of None \<Rightarrow> s | Some (a, b) \<Rightarrow> if b = ''0'' then a else s)"

definition callAddressedToUs :: "string \<Rightarrow> string \<Rightarrow> bool" where
  "callAddressedToUs addressee ourCall \<longleftrightarrow>
     (let addr = canonicalCall (norm_call addressee); our = canonicalCall (norm_call ourCall) in
      if addr = [] \<or> our = [] then False
      else if addr = our then True
      else CHR ''-'' \<notin> set addr \<and> addr = baseCall our)"

section \<open>Sets of call signs\<close>

text \<open>Both sets are stored normalised, without blank entries.\<close>

definition set_Store :: "string set \<Rightarrow> string set" where
  "set_Store new = norm_call ` new - {[]}"

definition tac_Contains :: "string set \<Rightarrow> string \<Rightarrow> bool" where
  "tac_Contains s key \<longleftrightarrow> (let norm = norm_call key in norm \<noteq> [] \<and> norm \<in> s)"

definition Blocked :: "string set \<Rightarrow> string \<Rightarrow> bool" where
  "Blocked s source \<longleftrightarrow>
     (let full = norm_call source in
      if full = [] then False
      else if full \<in> s then True
      else (let base = baseCall full in base \<noteq> full \<and> base \<in> s))"

record addressee_match =
  matchForUs :: bool
  matchTactical :: bool

definition MatchAddressee :: "string \<Rightarrow> string \<Rightarrow> string set option \<Rightarrow> addressee_match" where
  "MatchAddressee ourCall addressee tactical =
     (let addr = norm_call addressee in
      if addr = [] then \<lparr>matchForUs = False, matchTactical = False\<rparr>
      else if callAddressedToUs addr ourCall then \<lparr>matchForUs = True, matchTactical = False\<rparr>
      else if (case tactical of None \<Rightarrow> False | Some t \<Rightarrow> tac_Contains t addr) then \<lparr>matchForUs = True, matchTactical = True\<rparr>
      else \<lparr>matchForUs = False, matchTactical = False\<rparr>)"

section \<open>Invites and bots\<close>

text \<open>The regular expression of tactical calls: one to nine upper-case letters, digits and hyphens.\<close>

definition tactical_call :: "string \<Rightarrow> bool" where
  "tactical_call s \<longleftrightarrow> s \<noteq> [] \<and> length s \<le> 9 \<and> list_all (\<lambda>c. is_call_char c \<or> c = CHR ''-'') s"

definition ParseInvite :: "string \<Rightarrow> string option" where
  "ParseInvite text =
     (let p = ''!GW1 INVITE '' in
      if has_prefix text p \<and> tactical_call (drop (length p) text) then Some (drop (length p) text) else None)"

definition WellKnownBots :: "string list" where
  "WellKnownBots = [''QRX'', ''SMS'', ''FIND'', ''WHO-IS'', ''REPEAT'', ''WXBOT'', ''MPAD'', ''MAIL'', ''WLNK-1'']"

definition bots_Match :: "string list \<Rightarrow> string \<Rightarrow> string list" where
  "bots_Match entries prefix =
     (if prefix = [] then entries else filter (\<lambda>b. has_prefix b (norm_call prefix)) entries)"

definition IsWellKnownBot :: "string \<Rightarrow> bool" where
  "IsWellKnownBot callsign \<longleftrightarrow> (let up = norm_call callsign in up \<noteq> [] \<and> up \<in> set WellKnownBots)"

section \<open>The addressee match\<close>

lemma prefix_split: "has_prefix s p \<and> Q (drop (length p) s) \<longleftrightarrow> (\<exists>t. s = p @ t \<and> Q t)"
  by (auto simp: has_prefix_def) (metis append_take_drop_id)

lemma ParseInvite_iff:
  "ParseInvite body = Some t \<longleftrightarrow> body = ''!GW1 INVITE '' @ t \<and> tactical_call t"
proof -
  have "has_prefix body p \<and> tactical_call (drop (length p) body) \<and> drop (length p) body = t \<longleftrightarrow> body = p @ t \<and> tactical_call t" for p
    using prefix_split[of body p "\<lambda>u. tactical_call u \<and> u = t"] by auto
  moreover have "ParseInvite body = Some t \<longleftrightarrow>
      has_prefix body p \<and> tactical_call (drop (length p) body) \<and> drop (length p) body = t"
    if p: "p = ''!GW1 INVITE ''" for p
    unfolding ParseInvite_def Let_def p[symmetric] by auto
  ultimately show ?thesis by blast
qed

text \<open>The station a call sign names: its base and its SSID text, SSID 0 and no SSID being the same.\<close>

definition station_of :: "string \<Rightarrow> string \<times> string" where
  "station_of s = (case cut_byte CHR ''-'' s of None \<Rightarrow> (s, []) | Some (a, b) \<Rightarrow> (a, if b = ''0'' then [] else CHR ''-'' # b))"

lemma canonicalCall_station: "canonicalCall s = fst (station_of s) @ snd (station_of s)"
  by (auto simp: canonicalCall_def station_of_def dest: cut_byte_SomeD split: option.splits)

lemma station_base: "CHR ''-'' \<notin> set (fst (station_of s))"
  by (auto simp: station_of_def dest: cut_byte_SomeD cut_byte_NoneD split: option.splits)

lemma station_ssid: "snd (station_of s) = [] \<or> hd (snd (station_of s)) = CHR ''-''"
  by (auto simp: station_of_def split: option.splits)

lemma append_hyphen_eq:
  assumes "d \<notin> set a" "d \<notin> set b" "x = [] \<or> hd x = d" "y = [] \<or> hd y = d"
  shows "a @ x = b @ y \<longleftrightarrow> a = b \<and> x = y"
proof
  assume eq: "a @ x = b @ y"
  have take: "takeWhile (\<lambda>c. c \<noteq> d) (a @ x) = a" if "d \<notin> set a" "x = [] \<or> hd x = d" for a x :: "'a list"
    using that by (cases x) (auto simp: takeWhile_append intro: takeWhile_eq_all_conv[THEN iffD2])
  have "a = b" using take[OF assms(1,3)] take[OF assms(2,4)] eq by simp
  then show "a = b \<and> x = y" using eq by simp
qed simp

lemma canonicalCall_eq: "canonicalCall s = canonicalCall t \<longleftrightarrow> station_of s = station_of t"
  unfolding canonicalCall_station
  using append_hyphen_eq[OF station_base[of s] station_base[of t] station_ssid[of s] station_ssid[of t]]
  by (simp add: prod_eq_iff)

lemma canonicalCall_bare: "CHR ''-'' \<notin> set (canonicalCall s) \<longleftrightarrow> snd (station_of s) = []"
  unfolding canonicalCall_station using station_base[of s] station_ssid[of s]
  by (cases "snd (station_of s)") auto

text \<open>A call sign as it is written: upper-case letters, digits and hyphens.\<close>

definition upper_call :: "string \<Rightarrow> bool" where
  "upper_call s \<longleftrightarrow> s \<noteq> [] \<and> list_all (\<lambda>c. is_call_char c \<or> c = CHR ''-'') s"

lemma call_or_hyphen: "is_call_char c \<or> c = CHR ''-'' \<Longrightarrow> 33 \<le> byte_of c \<and> byte_of c < 128 \<and> upper_char c = c \<and> is_ascii c"
  using call_char_simps[of c] by (auto simp: is_call_char_def is_upper_def is_digit_def is_ascii_def upper_char_def is_lower_def word_le_nat_alt)

lemma norm_upper_call:
  assumes "upper_call s"
  shows "norm_call s = s" "trim_space s = s"
proof -
  have g: "list_all (\<lambda>c. 33 \<le> byte_of c \<and> byte_of c < 128) s" "list_all is_ascii s" "map upper_char s = s"
    using assms call_or_hyphen by (auto simp: upper_call_def list_all_iff intro!: map_idI)
  show t: "trim_space s = s" using assms g(1) by (intro trim_space_graphic) (simp_all add: upper_call_def)
  show "norm_call s = s" using g by (simp add: norm_call_def t to_upper_ascii)
qed

lemma upper_call_prefix:
  assumes "upper_call s" "cut_byte CHR ''-'' s = Some (a, b)" "a \<noteq> []"
  shows "upper_call a"
  using assms cut_byte_SomeD[OF assms(2)] by (auto simp: upper_call_def)

lemma baseCall_station:
  assumes "upper_call s" "fst (station_of s) \<noteq> []"
  shows "baseCall (canonicalCall s) = fst (station_of s)"
proof (cases "cut_byte CHR ''-'' s")
  case None
  then show ?thesis using norm_upper_call[OF assms(1)] by (simp add: baseCall_def canonicalCall_def station_of_def)
next
  case (Some ab)
  obtain a b where ab: "ab = (a, b)" by force
  have a: "upper_call a" "CHR ''-'' \<notin> set a" using upper_call_prefix[OF assms(1)] Some ab assms(2) cut_byte_SomeD[OF Some[unfolded ab]]
    by (auto simp: station_of_def)
  then show ?thesis using Some ab norm_upper_call[OF assms(1)] norm_upper_call[OF a(1)]
    by (auto simp: baseCall_def canonicalCall_def station_of_def cut_byte_None)
qed

text \<open>
  A message is for this station exactly when its addressee names the same station,
  an SSID of 0 counting as none, or names the station's base without an SSID; another SSID
  of the same base is somebody else.
\<close>

theorem addressed_to_us_iff:
  assumes "upper_call addressee" "upper_call ourCall" "fst (station_of addressee) \<noteq> []" "fst (station_of ourCall) \<noteq> []"
  shows "callAddressedToUs addressee ourCall \<longleftrightarrow>
    station_of addressee = station_of ourCall \<or> station_of addressee = (fst (station_of ourCall), [])"
proof -
  let ?a = "station_of addressee" and ?o = "station_of ourCall"
  have "canonicalCall addressee \<noteq> []" "canonicalCall ourCall \<noteq> []" using assms(3,4) by (simp_all add: canonicalCall_station)
  then have "callAddressedToUs addressee ourCall \<longleftrightarrow>
      ?a = ?o \<or> snd ?a = [] \<and> canonicalCall addressee = fst ?o"
    using norm_upper_call[OF assms(1)] norm_upper_call[OF assms(2)] baseCall_station[OF assms(2,4)]
    by (auto simp: callAddressedToUs_def Let_def canonicalCall_eq canonicalCall_bare)
  also have "\<dots> \<longleftrightarrow> ?a = ?o \<or> ?a = (fst ?o, [])"
    by (auto simp: canonicalCall_station prod_eq_iff)
  finally show ?thesis .
qed

theorem addressed_to_us_iff_witness:
  "callAddressedToUs ''K0TFU'' ''K0TFU-1'' \<and> \<not> callAddressedToUs ''K0TFU-7'' ''K0TFU-1''"
proof -
  have c: "upper_call ''K0TFU''" "upper_call ''K0TFU-1''" "upper_call ''K0TFU-7''" by code_simp+
  have s: "station_of ''K0TFU'' = (''K0TFU'', [])" "station_of ''K0TFU-1'' = (''K0TFU'', ''-1'')" "station_of ''K0TFU-7'' = (''K0TFU'', ''-7'')"
    by (simp_all add: station_of_def)
  show ?thesis
    using addressed_to_us_iff[OF c(1,2)] addressed_to_us_iff[OF c(3,2)] by (simp add: s)
qed

end
