(* ===== verification/MSG_Retry.thy ===== *)
theory MSG_Retry
  imports MSG_Sender MSG_Calls
begin

text \<open>
  The retry manager (\<^verbatim>\<open>pkg/messages/retry.go\<close>) and the operations of the service that go
  through it (\<^verbatim>\<open>service.go\<close>). One retry is \<open>retryOne\<close>; \<open>retry_cur\<close> is its part after the row
  was read, so that a stale copy can be handed to it. The jittered delay is a function of the
  environment applied to the entry of the back-off ladder. The goroutine that \<^verbatim>\<open>SendMessage\<close>
  starts is \<open>dispatch_first\<close>, run on its copy of the row.
\<close>

section \<open>Scheduling\<close>

definition RetryBackoff :: "int list" where "RetryBackoff = [30 * 10 ^ 9]"
definition DefaultRetryMaxAttempts :: u32 where "DefaultRetryMaxAttempts = 4"
definition ShortRetryDelay :: int where "ShortRetryDelay = 5 * 10 ^ 9"
definition idleTick :: int where "idleTick = 60 * 10 ^ 9"

definition maxAttempts :: "mstate \<Rightarrow> u32" where
  "maxAttempts st = (if mpRetryMaxAttempts (msPrefs st) = 0 then DefaultRetryMaxAttempts else mpRetryMaxAttempts (msPrefs st))"

definition backoffFor :: "menv \<Rightarrow> nat \<Rightarrow> int" where
  "backoffFor e attempt =
     (let attempt = max 1 attempt; idx = attempt - 1;
          idx = (if idx \<ge> length RetryBackoff then length RetryBackoff - 1 else idx)
      in evJitter e (RetryBackoff ! idx))"

definition Kick :: "mstate \<Rightarrow> mstate" where
  "Kick st = st\<lparr>msKick := True\<rparr>"

definition scheduleNext :: "menv \<Rightarrow> message \<Rightarrow> mstate \<Rightarrow> message \<times> mstate" where
  "scheduleNext e row st =
     (let next = evNow e + backoffFor e (unat (mAttempts row));
          row = row\<lparr>mNextRetryAt := Some next\<rparr>
      in (row, Kick (st\<lparr>msStore := UpdateRetrySchedule (mId row) (mAttempts row) (Some next) (msStore st)\<rparr>)))"

definition retry_fail :: "menv \<Rightarrow> fail_reason \<Rightarrow> message \<Rightarrow> mstate \<Rightarrow> mstate" where
  "retry_fail e reason row st =
     (let row = row\<lparr>mFailure := reason, mNextRetryAt := None, mAckState := AckRejected, mAckedAt := Some (evNow e)\<rparr>
      in publish EventMessageFailed row (ms_update row st))"

definition acquireInFlight :: "nat \<Rightarrow> mstate \<Rightarrow> bool \<times> mstate" where
  "acquireInFlight i st =
     (if i \<in> set (msInFlight st) then (False, st) else (True, st\<lparr>msInFlight := i # msInFlight st\<rparr>))"

definition releaseInFlight :: "nat \<Rightarrow> mstate \<Rightarrow> mstate" where
  "releaseInFlight i st = st\<lparr>msInFlight := removeAll i (msInFlight st)\<rparr>"

section \<open>The retry loop\<close>

definition retry_cur :: "menv \<Rightarrow> message \<Rightarrow> mstate \<Rightarrow> mstate" where
  "retry_cur e cur st =
     (if mAckState cur \<noteq> AckNone
      then (if mNextRetryAt cur \<noteq> None then ms_update (cur\<lparr>mNextRetryAt := None\<rparr>) st else st)
      else if mDeleted cur then ms_update (cur\<lparr>mNextRetryAt := None\<rparr>) st
      else if mAttempts cur \<ge> maxAttempts st then retry_fail e BudgetExhausted cur st
      else
        let limit = maxAttempts st;
            cur = cur\<lparr>mAttempts := mAttempts cur + 1\<rparr>;
            (res, cur, st) = SendWithPolicy e (mSendPath cur) cur st
        in case srErr res of
             None \<Rightarrow> snd (scheduleNext e cur st)
           | Some err \<Rightarrow>
               if err = ErrSubmit ErrQueueFull
               then ms_update (cur\<lparr>mAttempts := mAttempts cur - 1, mNextRetryAt := Some (evNow e + ShortRetryDelay)\<rparr>) st
               else if err = ErrSubmit ErrStopped then ms_update (cur\<lparr>mAttempts := mAttempts cur - 1\<rparr>) st
               else if mAttempts cur \<ge> limit then retry_fail e SendError cur st
               else snd (scheduleNext e cur st))"

definition retryOne :: "menv \<Rightarrow> nat \<Rightarrow> mstate \<Rightarrow> mstate" where
  "retryOne e i st0 =
     (let (got, st) = acquireInFlight i st0 in
      if \<not> got then st0
      else releaseInFlight i (case GetByID i (msStore st) of None \<Rightarrow> st | Some cur \<Rightarrow> retry_cur e cur st))"

text \<open>\<open>evs k\<close> is what the \<open>k\<close>-th row of the batch meets.\<close>

fun retry_rows :: "(nat \<Rightarrow> menv) \<Rightarrow> nat \<Rightarrow> message list \<Rightarrow> mstate \<Rightarrow> mstate" where
  "retry_rows evs k [] st = st"
| "retry_rows evs k (m # ms) st = retry_rows evs (Suc k) ms (retryOne (evs k) (mId m) st)"

definition processDue :: "int \<Rightarrow> (nat \<Rightarrow> menv) \<Rightarrow> mstate \<Rightarrow> mstate" where
  "processDue now evs st = retry_rows evs 0 (ListRetryDue now (msStore st)) st"

fun wake_scan :: "int \<Rightarrow> message list \<Rightarrow> int option \<Rightarrow> int" where
  "wake_scan now [] soonest = (case soonest of None \<Rightarrow> idleTick | Some d \<Rightarrow> if d > idleTick then idleTick else d)"
| "wake_scan now (m # ms) soonest =
     (case mNextRetryAt m of
        None \<Rightarrow> wake_scan now ms soonest
      | Some t \<Rightarrow>
          let d = t - now in
          if d < 0 then 0
          else wake_scan now ms (case soonest of None \<Rightarrow> Some d | Some s \<Rightarrow> Some (if d < s then d else s)))"

definition nextWake :: "int \<Rightarrow> mstate \<Rightarrow> int" where
  "nextWake now st = wake_scan now (ListAwaitingAckOnStartup (msStore st)) None"

definition retry_bootstrap :: "mstate \<Rightarrow> mstate" where
  "retry_bootstrap st = (if ListAwaitingAckOnStartup (msStore st) \<noteq> [] then Kick st else st)"

section \<open>The service\<close>

datatype service_err = NeedsTo | NeedsOurCall | ErrInvalidInvite | NeedsText | ErrMsgIDExhausted | RowNotFound | ResendBusy | ResendInbound

definition GetConversationPrefs :: "thread_kind \<Rightarrow> string \<Rightarrow> mstate \<Rightarrow> conv_prefs option" where
  "GetConversationPrefs kind key st = msConv st (kind, key)"

definition suppressRetry :: "message \<Rightarrow> mstate \<Rightarrow> bool" where
  "suppressRetry row st =
     (case GetConversationPrefs (mThreadKind row) (mThreadKey row) st of None \<Rightarrow> False | Some p \<Rightarrow> \<not> cpWaitForAck p)"

definition resend_row :: "menv \<Rightarrow> message \<Rightarrow> mstate \<Rightarrow> send_result \<times> mstate" where
  "resend_row e row0 st0 =
     (let row = row0\<lparr>mAttempts := 0, mNextRetryAt := None, mFailure := NoReason\<rparr>;
          (res, row, st) = SendWithPolicy e (mSendPath row) row (ms_update row st0)
      in (res, if srErr res = None \<and> srRetryable res \<and> mThreadKind row = DM \<and> \<not> suppressRetry row st
               then snd (scheduleNext e row st) else st))"

definition Resend :: "menv \<Rightarrow> nat \<Rightarrow> mstate \<Rightarrow> (service_err + send_result) \<times> mstate" where
  "Resend e i st0 =
     (let (got, st) = acquireInFlight i st0 in
      if \<not> got then (Inl ResendBusy, st0)
      else case GetByID i (msStore st) of
             None \<Rightarrow> (Inl RowNotFound, releaseInFlight i st)
           | Some row \<Rightarrow>
               if \<not> mOut row then (Inl ResendInbound, releaseInFlight i st)
               else let (res, st) = resend_row e row st in (Inr res, releaseInFlight i st))"

definition CancelRetry :: "nat \<Rightarrow> mstate \<Rightarrow> mstate" where
  "CancelRetry i st0 =
     (let st = releaseInFlight i st0 in
      case GetByID i (msStore st) of
        None \<Rightarrow> st
      | Some row \<Rightarrow> if mNextRetryAt row = None then st else ms_update (row\<lparr>mNextRetryAt := None\<rparr>) st)"

definition svc_SoftDelete :: "nat \<Rightarrow> mstate \<Rightarrow> mstate" where
  "svc_SoftDelete i st0 =
     (let st = CancelRetry i st0;
          row = GetByID i (msStore st);
          st = st\<lparr>msStore := store_SoftDelete i (msStore st)\<rparr>
      in case row of None \<Rightarrow> st | Some r \<Rightarrow> publish EventMessageDeleted r st)"

definition cancel_deleted :: "thread_kind \<Rightarrow> string \<Rightarrow> nat \<Rightarrow> mstate \<Rightarrow> mstate" where
  "cancel_deleted kind key i st0 =
     (let st = CancelRetry i st0 in st\<lparr>msLog := msLog st @ [Published EventMessageDeleted i kind key]\<rparr>)"

definition SoftDeleteThread :: "thread_kind \<Rightarrow> string \<Rightarrow> mstate \<Rightarrow> nat \<times> mstate" where
  "SoftDeleteThread kind key st =
     (let (ids, store) = SoftDeleteByThread kind key (msStore st)
      in (length ids, fold (cancel_deleted kind key) ids (st\<lparr>msStore := store\<rparr>)))"

text \<open>A compose request. No thread kind is one to be derived.\<close>

record send_request =
  rqTo :: string
  rqText :: string
  rqOurCall :: string
  rqThreadKind :: "thread_kind option"
  rqInvite :: "string option"
  rqPolicy :: string
  rqChannel :: u32

definition blank_message :: message where
  "blank_message =
     \<lparr>mId = 0, mOut = False, mOurCall = [], mPeerCall = [], mFromCall = [], mToCall = [], mText = [], mMsgID = [],
      mCreatedAt = 0, mReceivedAt = None, mSentAt = None, mAckedAt = None, mAckState = AckNone, mSource = [], mPath = [],
      mVia = [], mRawTNC2 = [], mChannel = 0, mAttempts = 0, mNextRetryAt = None, mFailure = NoReason, mReplyAckID = [],
      mIsAck = False, mIsRej = False, mIsBulletin = False, mIsNWS = False, mSendPath = [], mDeleted = False,
      mThreadKind = DM, mThreadKey = [], mReceivedByCall = [], mInvite = None, mUnread = False\<rparr>"

definition compose_text :: "send_request \<Rightarrow> service_err + string" where
  "compose_text rq =
     (case rqInvite rq of
        Some tac \<Rightarrow> if tactical_call tac then Inr (''!GW1 INVITE '' @ tac) else Inl ErrInvalidInvite
      | None \<Rightarrow> if rqText rq = [] then Inl NeedsText else Inr (rqText rq))"

definition compose :: "int \<Rightarrow> send_request \<Rightarrow> mstate \<Rightarrow> (service_err + message) \<times> mstate" where
  "compose now rq st =
     (if rqTo rq = [] then (Inl NeedsTo, st)
      else if rqOurCall rq = [] then (Inl NeedsOurCall, st)
      else case compose_text rq of
        Inl err \<Rightarrow> (Inl err, st)
      | Inr body \<Rightarrow>
          let kind = (case rqThreadKind rq of
                        Some k \<Rightarrow> k
                      | None \<Rightarrow> if tac_Contains (msTactical st) (rqTo rq) then Tactical else DM);
              sendPath = (case GetConversationPrefs kind (to_upper (rqTo rq)) st of None \<Rightarrow> [] | Some p \<Rightarrow> cpSendPath p);
              (mid, store) = (if kind = DM then AllocateMsgID (rqTo rq) (msStore st) else (Some [], msStore st))
          in case mid of
               None \<Rightarrow> (Inl ErrMsgIDExhausted, st)
             | Some i \<Rightarrow>
                 let (row, store) = Insert (blank_message\<lparr>mOut := True, mOurCall := rqOurCall rq, mFromCall := rqOurCall rq,
                        mToCall := rqTo rq, mText := body, mThreadKind := kind, mInvite := rqInvite rq, mSendPath := sendPath,
                        mChannel := rqChannel rq, mMsgID := i, mCreatedAt := now\<rparr>) store
                 in (Inr row, st\<lparr>msStore := store\<rparr>))"

definition dispatch_first :: "menv \<Rightarrow> string \<Rightarrow> bool \<Rightarrow> message \<Rightarrow> mstate \<Rightarrow> mstate" where
  "dispatch_first e policy suppress rowCopy st0 =
     (let (res, row, st) = SendWithPolicy e policy rowCopy st0 in
      if srRetryable res \<and> mThreadKind row = DM \<and> \<not> suppress
      then (case GetByID (mId row) (msStore st) of
              None \<Rightarrow> st
            | Some cur \<Rightarrow> snd (scheduleNext e (cur\<lparr>mAttempts := 1\<rparr>) st))
      else st)"

definition first_suppress :: "send_request \<Rightarrow> message \<Rightarrow> mstate \<Rightarrow> bool" where
  "first_suppress rq row st =
     (case GetConversationPrefs (mThreadKind row) (to_upper (rqTo rq)) st of None \<Rightarrow> False | Some p \<Rightarrow> \<not> cpWaitForAck p)"

definition SendMessage :: "menv \<Rightarrow> send_request \<Rightarrow> mstate \<Rightarrow> (service_err + message) \<times> mstate" where
  "SendMessage e rq st =
     (case compose (evNow e) rq st of
        (Inl err, st') \<Rightarrow> (Inl err, st')
      | (Inr row, st') \<Rightarrow>
          (Inr row, dispatch_first e (if rqPolicy rq \<noteq> [] then rqPolicy rq else mSendPath row) (first_suppress rq row st) row st'))"

text \<open>Reloads: the new values come from the configuration store.\<close>

definition msg_ReloadConfig :: "u32 option \<Rightarrow> mstate \<Rightarrow> mstate" where
  "msg_ReloadConfig resolved st =
     (case resolved of
        None \<Rightarrow> st
      | Some ch \<Rightarrow>
          if ch = 0 then st
          else let prev = msTxChannel st in
            if ch = prev then st
            else let st = msg_SetTxChannel ch st in if msAutoAckCh st = prev then st\<lparr>msAutoAckCh := ch\<rparr> else st)"

definition ReloadPreferences :: "unit + mprefs option \<Rightarrow> mstate \<Rightarrow> mstate" where
  "ReloadPreferences r st =
     (case r of Inl _ \<Rightarrow> st | Inr _ \<Rightarrow> Kick (st\<lparr>msPrefs := prefs_Load r (msPrefs st)\<rparr>))"

definition ReloadTacticalCallsigns :: "unit + string list \<Rightarrow> mstate \<Rightarrow> mstate" where
  "ReloadTacticalCallsigns r st = (case r of Inl _ \<Rightarrow> st | Inr calls \<Rightarrow> st\<lparr>msTactical := set_Store (set calls)\<rparr>)"

definition ReloadBlockedCallsigns :: "unit + string list \<Rightarrow> mstate \<Rightarrow> mstate" where
  "ReloadBlockedCallsigns r st = (case r of Inl _ \<Rightarrow> st | Inr calls \<Rightarrow> st\<lparr>msBlocked := set_Store (set calls)\<rparr>)"

end
