(* ===== verification/Go_SHA1.thy ===== *)
theory Go_SHA1
  imports Graywolf_Prelude
begin

text \<open>
  Go's \<^verbatim>\<open>crypto/sha1\<close> and \<^verbatim>\<open>encoding/hex\<close>, which the duplicate keys of messages and the
  one-time passwords of remote actions are made with: FIPS 180-4 on 32-bit words.
\<close>

unbundle bit_operations_syntax

abbreviation rotl :: "nat \<Rightarrow> u32 \<Rightarrow> u32" where
  "rotl n w \<equiv> push_bit n w OR drop_bit (32 - n) w"

text \<open>Padding to whole blocks of 64 bytes: a one bit, zeros, the length in bits in eight bytes.\<close>

definition be_bytes :: "nat \<Rightarrow> nat \<Rightarrow> bytes" where
  "be_bytes n v = map (\<lambda>i. of_nat (v div 256 ^ i)) (rev [0..<n])"

definition sha1_pad :: "bytes \<Rightarrow> bytes" where
  "sha1_pad msg =
     (let r = (length msg + 9) mod 64
      in msg @ [0x80] @ replicate (if r = 0 then 0 else 64 - r) 0 @ be_bytes 8 (8 * length msg))"

definition be_word :: "bytes \<Rightarrow> u32" where
  "be_word bs = foldl (\<lambda>w b. push_bit 8 w OR ucast b) 0 bs"

fun groups :: "nat \<Rightarrow> nat \<Rightarrow> 'a list \<Rightarrow> 'a list list" where
  "groups 0 n xs = []"
| "groups (Suc k) n xs = (if xs = [] then [] else take n xs # groups k n (drop n xs))"

text \<open>The message schedule, the newest word first, and the eighty rounds.\<close>

fun sha1_schedule :: "nat \<Rightarrow> u32 list \<Rightarrow> u32 list" where
  "sha1_schedule 0 ws = ws"
| "sha1_schedule (Suc n) ws = sha1_schedule n (rotl 1 (ws ! 2 XOR ws ! 7 XOR ws ! 13 XOR ws ! 15) # ws)"

type_synonym sha1_state = "u32 \<times> u32 \<times> u32 \<times> u32 \<times> u32"

definition sha1_f :: "nat \<Rightarrow> u32 \<Rightarrow> u32 \<Rightarrow> u32 \<Rightarrow> u32 \<times> u32" where
  "sha1_f t b c d =
     (if t < 20 then ((b AND c) OR (NOT b AND d), 0x5A827999)
      else if t < 40 then (b XOR c XOR d, 0x6ED9EBA1)
      else if t < 60 then ((b AND c) OR (b AND d) OR (c AND d), 0x8F1BBCDC)
      else (b XOR c XOR d, 0xCA62C1D6))"

definition sha1_round :: "sha1_state \<Rightarrow> nat \<times> u32 \<Rightarrow> sha1_state" where
  "sha1_round s tw =
     (let (a, b, c, d, e) = s; (t, w) = tw; (f, k) = sha1_f t b c d
      in (rotl 5 a + f + e + w + k, a, rotl 30 b, c, d))"

definition sha1_block :: "sha1_state \<Rightarrow> bytes \<Rightarrow> sha1_state" where
  "sha1_block h block =
     (let ws = rev (sha1_schedule 64 (rev (map be_word (groups 16 4 block))));
          (a, b, c, d, e) = foldl sha1_round h (zip [0..<80] ws);
          (h0, h1, h2, h3, h4) = h
      in (h0 + a, h1 + b, h2 + c, h3 + d, h4 + e))"

definition sha1 :: "bytes \<Rightarrow> bytes" where
  "sha1 msg =
     (let p = sha1_pad msg;
          (a, b, c, d, e) = foldl sha1_block (0x67452301, 0xEFCDAB89, 0x98BADCFE, 0x10325476, 0xC3D2E1F0)
             (groups (length p div 64) 64 p)
      in concat (map (\<lambda>w. be_bytes 4 (unat w)) [a, b, c, d, e]))"

definition hex_digit :: "nat \<Rightarrow> char" where
  "hex_digit n = ''0123456789abcdef'' ! n"

definition hex_encode :: "bytes \<Rightarrow> string" where
  "hex_encode bs = concat (map (\<lambda>b. [hex_digit (unat b div 16), hex_digit (unat b mod 16)]) bs)"

lemma length_be_bytes [simp]: "length (be_bytes n v) = n"
  by (simp add: be_bytes_def)

lemma length_sha1 [simp]: "length (sha1 msg) = 20"
  by (simp add: sha1_def Let_def case_prod_unfold)

end
