(* ===== verification/MSG_Router.thy ===== *)
theory MSG_Router
  imports MSG_Retry Go_SHA1
begin

text \<open>
  The inbound side of messages: duplicate window and automatic acknowledgement
  (\<^verbatim>\<open>pkg/messages/preflight.go\<close>) and the router (\<^verbatim>\<open>router.go\<close>), which classifies a packet,
  files it, correlates acknowledgements with the rows they close and answers the sender.
\<close>

section \<open>Preflight\<close>

definition preflightDedupKey :: "string \<Rightarrow> string \<Rightarrow> string \<Rightarrow> string" where
  "preflightDedupKey fromCall mid body =
     to_upper fromCall @ ''|'' @ mid @ ''|'' @ hex_encode (take 8 (sha1 (bytes_of body)))"

definition check_key :: "int \<Rightarrow> string \<Rightarrow> mstate \<Rightarrow> bool \<times> mstate" where
  "check_key now key st =
     (let live = (\<lambda>k. case msDedup st k of None \<Rightarrow> None | Some exp \<Rightarrow> if now > exp then None else Some exp)
      in (case live key of None \<Rightarrow> False | Some exp \<Rightarrow> \<not> now > exp,
          st\<lparr>msDedup := live(key \<mapsto> now + msDedupWin st)\<rparr>))"

definition CheckDedup :: "int \<Rightarrow> string \<Rightarrow> string \<Rightarrow> string \<Rightarrow> mstate \<Rightarrow> bool \<times> mstate" where
  "CheckDedup now fromCall mid body st = check_key now (preflightDedupKey fromCall mid body) st"

definition preflightAckFrame :: "string \<Rightarrow> string \<Rightarrow> string \<Rightarrow> build_err + frame" where
  "preflightAckFrame ourCall peer mid =
     try_bind (map_err MessageErr (EncodeMessageAck peer mid)) (\<lambda>info.
     try_bind (map_err SourceErr (ParseAddress ourCall)) (\<lambda>src.
     try_bind (map_err DestErr (ParseAddress ''APGRWO'')) (\<lambda>dest.
     map_err FrameErr (NewUIFrame src dest [] info))))"

definition preflightAckTNC2 :: "string \<Rightarrow> string \<Rightarrow> string \<Rightarrow> string" where
  "preflightAckTNC2 ourCall peer mid =
     FormatTNC2 ourCall ''APGRWO'' [] (bytes_of ('':'' @ pad_call peer @ '':ack'' @ mid))"

definition autoack_source :: submit_source where
  "autoack_source = \<lparr>ssKind = ''messages-autoack'', ssDetail = [], ssPriority = PriorityIGateMsg, ssSkipDedup = True\<rparr>"

definition log_effect :: "meffect \<Rightarrow> mstate \<Rightarrow> mstate" where
  "log_effect x st = st\<lparr>msLog := msLog st @ [x]\<rparr>"

definition SendAutoAck :: "menv \<Rightarrow> pkt_data \<Rightarrow> string \<Rightarrow> string \<Rightarrow> mstate \<Rightarrow> mstate" where
  "SendAutoAck e pkt peer mid st =
     (if mid = [] then st
      else if evOurCall e = [] then st
      else if pkDirection pkt = DirectionIS then
        (case evSendLine e of
           None \<Rightarrow> st
         | Some line \<Rightarrow>
             let l = preflightAckTNC2 (evOurCall e) peer mid in if line l then log_effect (Line l) st else st)
      else case preflightAckFrame (evOurCall e) peer mid of
        Inl _ \<Rightarrow> st
      | Inr f \<Rightarrow>
          let ch = (if pkDirection pkt = DirectionRF \<and> pkChannel pkt > 0 then word_of_int (pkChannel pkt) else msAutoAckCh st)
          in case evSubmit e ch f autoack_source of
               None \<Rightarrow> log_effect (AckSubmitted ch f) st
             | Some _ \<Rightarrow> st)"

definition SetAutoAckChannel :: "u32 \<Rightarrow> mstate \<Rightarrow> mstate" where
  "SetAutoAckChannel ch st = (if ch = 0 then st else st\<lparr>msAutoAckCh := ch\<rparr>)"

section \<open>Third-party messages\<close>

definition carries_message :: "pkt_data \<Rightarrow> bool" where
  "carries_message p \<longleftrightarrow> pkType p = PacketMessage \<and> pkMessage p \<noteq> None \<and> pkTelemetryMeta p = None"

definition isClassifiableMessage :: "packet \<Rightarrow> bool" where
  "isClassifiableMessage p \<longleftrightarrow>
     carries_message (data p)
     \<or> pkType (data p) = PacketThirdParty \<and> (case pkThirdParty p of None \<Rightarrow> False | Some inner \<Rightarrow> carries_message (data inner))"

text \<open>The message of an inner information field, rebuilt from its addressee and its text.\<close>

definition inner_message :: "aprs_message \<Rightarrow> string \<Rightarrow> string \<Rightarrow> aprs_message" where
  "inner_message outer addressee rest =
     (let (body, mid, ack, hasAck) = split_trailer rest;
          inherit = (mid = [] \<and> amMessageID outer \<noteq> []);
          mid = (if inherit then amMessageID outer else mid);
          ack = (if inherit then amReplyAck outer else ack);
          hasAck = (if inherit then amHasReplyAck outer else hasAck);
          isAck = has_prefix body ''ack'';
          isRej = (\<not> isAck \<and> has_prefix body ''rej'');
          mid = (if isAck \<or> isRej then drop 3 body else mid)
      in \<lparr>amAddressee = addressee, amText = (if isAck \<or> isRej then [] else body), amMessageID = trim_right_of ws_cut mid,
          amReplyAck = trim_right_of ws_cut ack, amHasReplyAck = hasAck, amIsAck = isAck, amIsRej = isRej,
          amIsBulletin = has_prefix addressee ''BLN'',
          amIsNWS = list_ex (has_prefix addressee) [''NWS'', ''SKY'', ''CWA'']\<rparr>)"

definition unwrap_text :: "string \<Rightarrow> aprs_message \<Rightarrow> (string \<times> aprs_message) option" where
  "unwrap_text body msg =
     (case cut_byte CHR '':'' body of
        None \<Rightarrow> None
      | Some (header, info) \<Rightarrow>
          if info = [] then None
          else case cut_byte CHR ''>'' header of
            None \<Rightarrow> None
          | Some (src, _) \<Rightarrow>
              if src = [] \<or> length info < 3 \<or> hd info \<noteq> CHR '':'' then None
              else
                let upper = (if 10 \<ge> length info then length info - 1 else 10) in
                case find (\<lambda>i. info ! i = CHR '':'') [2..<upper + 1] of
                  None \<Rightarrow> None
                | Some sep \<Rightarrow>
                    Some (src, inner_message msg (trim_right_of {CHR '' ''} (take (sep - 1) (drop 1 info))) (drop (sep + 1) info)))"

definition unwrapThirdParty :: "packet \<Rightarrow> string \<times> aprs_message option" where
  "unwrapThirdParty p =
     (case (if pkType (data p) = PacketThirdParty then pkThirdParty p else None) of
        Some inner \<Rightarrow>
          (case pkMessage (data inner) of
             Some m \<Rightarrow> (pkSource (data inner), Some m)
           | None \<Rightarrow> (pkSource (data p), pkMessage (data p)))
      | None \<Rightarrow>
          (case pkMessage (data p) of
             None \<Rightarrow> (pkSource (data p), None)
           | Some m \<Rightarrow>
               if \<not> has_prefix (amText m) ''}'' then (pkSource (data p), Some m)
               else case unwrap_text (drop 1 (amText m)) m of
                      None \<Rightarrow> (pkSource (data p), Some m)
                    | Some (src, im) \<Rightarrow> (src, Some im)))"

section \<open>Classification\<close>

definition joinPath :: "string list \<Rightarrow> string" where
  "joinPath p = (case p of [] \<Rightarrow> [] | x # xs \<Rightarrow> x @ concat (map (\<lambda>h. '','' @ h) xs))"

definition firstVia :: "string list \<Rightarrow> string" where
  "firstVia p = (case find (\<lambda>h. has_suffix_char h CHR ''*'') (rev p) of None \<Rightarrow> [] | Some h \<Rightarrow> butlast h)"

definition direction_string :: "direction \<Rightarrow> string" where
  "direction_string d = (case d of DirectionUnknown \<Rightarrow> [] | DirectionRF \<Rightarrow> ''rf'' | DirectionIS \<Rightarrow> ''is'')"

definition inbound_row :: "int \<Rightarrow> pkt_data \<Rightarrow> string \<Rightarrow> aprs_message \<Rightarrow> thread_kind \<Rightarrow> string \<Rightarrow> string \<Rightarrow> message" where
  "inbound_row now pkt source m kind key ourCall =
     blank_message\<lparr>mOut := False, mOurCall := ourCall, mFromCall := source, mToCall := norm_call (amAddressee m), mText := amText m,
       mMsgID := amMessageID m, mSource := direction_string (pkDirection pkt), mPath := joinPath (pkPath pkt),
       mVia := firstVia (pkPath pkt), mRawTNC2 := pkRaw pkt, mUnread := True, mIsBulletin := amIsBulletin m,
       mIsNWS := amIsNWS m, mIsAck := amIsAck m, mIsRej := amIsRej m, mReplyAckID := amReplyAck m, mThreadKind := kind,
       mThreadKey := key, mInvite := (if kind = DM then ParseInvite (amText m) else None),
       mChannel := (if pkDirection pkt = DirectionRF then word_of_int (pkChannel pkt) else 0), mCreatedAt := now,
       mReceivedAt := Some now\<rparr>"

definition persistInbound :: "menv \<Rightarrow> pkt_data \<Rightarrow> string \<Rightarrow> aprs_message \<Rightarrow> thread_kind \<Rightarrow> string \<Rightarrow> string \<Rightarrow> mstate \<Rightarrow> mstate" where
  "persistInbound e pkt source m kind key ourCall st =
     (let (row, store) = Insert (inbound_row (evNow e) pkt source m kind key ourCall) (msStore st)
      in publish EventMessageReceived row (st\<lparr>msStore := store\<rparr>))"

definition close_row :: "menv \<Rightarrow> ack_state \<Rightarrow> event_type \<Rightarrow> message \<Rightarrow> mstate \<Rightarrow> mstate" where
  "close_row e state evt row st =
     (if mAckState row = state then st
      else let row = row\<lparr>mAckState := state, mAckedAt := Some (evNow e)\<rparr> in publish evt row (ms_update row st))"

definition correlateAck :: "menv \<Rightarrow> string \<Rightarrow> aprs_message \<Rightarrow> mstate \<Rightarrow> mstate" where
  "correlateAck e peer m st =
     (if amMessageID m = [] then st
      else
        let rows = FindOutstandingByMsgID (amMessageID m) peer (msStore st);
            (state, evt) = (if amIsRej m then (AckRejected, EventMessageRejected) else (Acked, EventMessageAcked))
        in fold (close_row e state evt) rows st)"

definition reply_row :: "menv \<Rightarrow> string \<Rightarrow> message \<Rightarrow> mstate \<Rightarrow> mstate" where
  "reply_row e peer row st =
     (case mThreadKind row of
        DM \<Rightarrow> close_row e Acked EventMessageAcked row st
      | Tactical \<Rightarrow>
          if mReceivedByCall row \<noteq> [] then st
          else let row = row\<lparr>mReceivedByCall := peer\<rparr> in publish EventMessageReplyAckRcvd row (ms_update row st))"

definition correlateReplyAck :: "menv \<Rightarrow> string \<Rightarrow> string \<Rightarrow> mstate \<Rightarrow> mstate" where
  "correlateReplyAck e peer replyAckID st =
     (if replyAckID = [] then st
      else
        let rows = FindOutstandingByMsgID replyAckID peer (msStore st);
            extra = (if baseCallUpper (evOurCall e) = [] then []
                     else filter (\<lambda>r. mId r \<notin> mId ` set rows) (FindOutstandingByMsgID replyAckID (evOurCall e) (msStore st)))
        in fold (reply_row e peer) (rows @ extra) st)"

datatype outcome = NotAMessage | SelfFilter | BlockedSender | NotForUs | AckOrRej | DedupHit | Filed thread_kind

definition thread_of :: "menv \<Rightarrow> mstate \<Rightarrow> string \<Rightarrow> string \<Rightarrow> (thread_kind \<times> string) option" where
  "thread_of e st source addressee =
     (if callAddressedToUs addressee (norm_call (evOurCall e)) then Some (DM, source)
      else if tac_Contains (msTactical st) addressee then Some (Tactical, addressee)
      else None)"

definition accept_message ::
    "menv \<Rightarrow> pkt_data \<Rightarrow> string \<Rightarrow> aprs_message \<Rightarrow> thread_kind \<Rightarrow> string \<Rightarrow> mstate \<Rightarrow> outcome \<times> mstate" where
  "accept_message e pkt source m kind key st =
     (let (hit, st) = (if amMessageID m \<noteq> [] then CheckDedup (evNow e) source (amMessageID m) (amText m) st else (False, st));
          st = (if hit then st else persistInbound e pkt source m kind key (baseCall (norm_call (evOurCall e))) st);
          st = (if amHasReplyAck m \<and> amReplyAck m \<noteq> [] then correlateReplyAck e source (amReplyAck m) st else st);
          st = (if kind = DM \<and> amMessageID m \<noteq> [] \<and> \<not> amIsAck m \<and> \<not> amIsRej m \<and> \<not> amIsBulletin m \<and> \<not> amIsNWS m
                then SendAutoAck e pkt source (amMessageID m) st else st)
      in (if hit then DedupHit else Filed kind, st))"

definition classify :: "menv \<Rightarrow> packet \<Rightarrow> mstate \<Rightarrow> outcome \<times> mstate" where
  "classify e pkt st =
     (if \<not> isClassifiableMessage pkt then (NotAMessage, st)
      else case unwrapThirdParty pkt of
        (_, None) \<Rightarrow> (NotAMessage, st)
      | (effSource, Some m) \<Rightarrow>
          let ourCallFull = norm_call (evOurCall e); source = norm_call effSource in
          if ourCallFull \<noteq> [] \<and> canonicalCall source = canonicalCall ourCallFull then (SelfFilter, st)
          else
            let (own, ring) = ring_Contains (evNow e) source (amMessageID m) (msRing st); st = st\<lparr>msRing := ring\<rparr> in
            if own then (SelfFilter, st)
            else if Blocked (msBlocked st) source then (BlockedSender, st)
            else case thread_of e st source (norm_call (amAddressee m)) of
              None \<Rightarrow> (NotForUs, st)
            | Some (kind, key) \<Rightarrow>
                if kind = DM \<and> (amIsAck m \<or> amIsRej m) then (AckOrRej, correlateAck e source m st)
                else accept_message e (data pkt) source m kind key st)"

section \<open>The queue in front of the router\<close>

record router_queue =
  rtQueue :: "packet list"
  rtCap :: nat
  rtRunning :: bool
  rtDropped :: nat

definition router_SendPacket :: "packet option \<Rightarrow> router_queue \<Rightarrow> router_queue" where
  "router_SendPacket pkt r =
     (case pkt of
        None \<Rightarrow> r
      | Some p \<Rightarrow>
          if \<not> isClassifiableMessage p \<or> \<not> rtRunning r then r
          else if length (rtQueue r) < rtCap r then r\<lparr>rtQueue := rtQueue r @ [p]\<rparr>
          else r\<lparr>rtQueue := tl (rtQueue r) @ [p], rtDropped := rtDropped r + 1\<rparr>)"

definition router_consume :: "menv \<Rightarrow> router_queue \<times> mstate \<Rightarrow> router_queue \<times> mstate" where
  "router_consume e rs =
     (case rtQueue (fst rs) of
        [] \<Rightarrow> rs
      | p # ps \<Rightarrow> ((fst rs)\<lparr>rtQueue := ps\<rparr>, snd (classify e p (snd rs))))"

definition router_Stop :: "router_queue \<Rightarrow> router_queue" where
  "router_Stop r = r\<lparr>rtRunning := False\<rparr>"

end
