(* ===== verification/MSG_Steps.thy ===== *)
theory MSG_Steps
  imports MSG_Router
begin

text \<open>
  How the operations of the message service change the table: \<open>kept\<close> relates an old and a new
  version of a row, \<open>touches i\<close> a table and one in which only row \<open>i\<close> was rewritten, and
  \<open>quiet\<close> two states between which no row was enrolled for a retry and nothing was submitted. Every
  operation is given by one of these facts; the step function and the runs at the end compose them.
\<close>

section \<open>Rows\<close>

definition kept :: "message \<Rightarrow> message \<Rightarrow> bool" where
  "kept m m' \<longleftrightarrow> mId m' = mId m \<and> mPeerCall m' = mPeerCall m \<and> mMsgID m' = mMsgID m \<and> mThreadKind m' = mThreadKind m
     \<and> mOut m' = mOut m \<and> (mDeleted m \<longrightarrow> mDeleted m') \<and> (mAckState m' = AckNone \<longrightarrow> mAckState m = AckNone)"

definition sched :: "message \<Rightarrow> u32 \<times> int option \<times> bool" where
  "sched m = (mAttempts m, mNextRetryAt m, mDeleted m)"

lemma kept_refl [simp, intro]: "kept m m"
  by (simp add: kept_def)

lemma kept_trans: "kept a b \<Longrightarrow> kept b c \<Longrightarrow> kept a c"
  by (auto simp: kept_def)

lemma kept_closes: "kept m m' \<Longrightarrow> closes m m'"
  by (auto simp: kept_def closes_def awaiting_def)

lemma kept_simps [simp]:
  "kept m (m\<lparr>mFailure := r\<rparr>)" "kept m (m\<lparr>mSentAt := t\<rparr>)" "kept m (m\<lparr>mNextRetryAt := t\<rparr>)" "kept m (m\<lparr>mAttempts := n\<rparr>)"
  "kept m (m\<lparr>mUnread := b\<rparr>)" "kept m (m\<lparr>mDeleted := True\<rparr>)" "kept m (m\<lparr>mReceivedByCall := c\<rparr>)"
  by (simp_all add: kept_def)

section \<open>Tables\<close>

definition touches :: "nat \<Rightarrow> (message \<Rightarrow> message \<Rightarrow> bool) \<Rightarrow> store \<Rightarrow> store \<Rightarrow> bool" where
  "touches i R s s' \<longleftrightarrow> stNextId s' = stNextId s
     \<and> (\<exists>f. stRows s' = map f (stRows s) \<and> (\<forall>m \<in> set (stRows s). if mId m = i then R m (f m) else f m = m))"

lemma touchesE:
  assumes "touches i R s s'"
  obtains f where "stRows s' = map f (stRows s)" "\<forall>m \<in> set (stRows s). mId m = i \<longrightarrow> R m (f m)"
    "\<forall>m \<in> set (stRows s). mId m \<noteq> i \<longrightarrow> f m = m" "stNextId s' = stNextId s"
  using assms unfolding touches_def by (meson)

lemma touches_refl: "(\<And>m. R m m) \<Longrightarrow> touches i R s s"
  unfolding touches_def by (rule conjI[OF refl], rule exI[of _ id]) simp

lemma touches_trans:
  assumes "touches i R s s'" "touches i Q s' s''" "\<And>a b c. mId a = i \<Longrightarrow> a \<in> set (stRows s) \<Longrightarrow> R a b \<Longrightarrow> mId b = i \<and> (Q b c \<longrightarrow> P a c)"
  shows "touches i P s s''"
proof -
  obtain f where f: "stRows s' = map f (stRows s)" "\<forall>m \<in> set (stRows s). mId m = i \<longrightarrow> R m (f m)"
    "\<forall>m \<in> set (stRows s). mId m \<noteq> i \<longrightarrow> f m = m" "stNextId s' = stNextId s" by (rule touchesE[OF assms(1)])
  obtain g where g: "stRows s'' = map g (stRows s')" "\<forall>m \<in> set (stRows s'). mId m = i \<longrightarrow> Q m (g m)"
    "\<forall>m \<in> set (stRows s'). mId m \<noteq> i \<longrightarrow> g m = m" "stNextId s'' = stNextId s'" by (rule touchesE[OF assms(2)])
  have "if mId m = i then P m (g (f m)) else g (f m) = m" if m: "m \<in> set (stRows s)" for m
  proof (cases "mId m = i")
    case True
    then have "R m (f m)" "f m \<in> set (stRows s')" using f m by auto
    then show ?thesis using g(2) assms(3)[OF True m] True by auto
  next
    case False
    then have "f m = m" "m \<in> set (stRows s')" using f(1,3) m by (auto simp: image_iff) (metis m)
    then show ?thesis using g(3) False by auto
  qed
  then show ?thesis unfolding touches_def using f(1,4) g(1,4) by (intro conjI exI[of _ "g \<circ> f"]) simp_all
qed

lemma touches_mono: "touches i R s s' \<Longrightarrow> (\<And>a b. mId a = i \<Longrightarrow> R a b \<Longrightarrow> Q a b) \<Longrightarrow> touches i Q s s'"
  unfolding touches_def by meson

lemma touches_update: "(\<And>m. R m (f m)) \<Longrightarrow> (\<And>m. R m m) \<Longrightarrow> touches i R s (update_where i f s)"
  unfolding touches_def update_where_def by (intro conjI exI[of _ "\<lambda>r. if mId r = i \<and> \<not> mDeleted r then f r else r"]) auto

lemma touches_save: "(\<And>m. m \<in> set (stRows s) \<Longrightarrow> mId m = i \<Longrightarrow> R m r) \<Longrightarrow> mId r = i \<Longrightarrow> touches i R s (save_row r s)"
  unfolding touches_def save_row_def by (intro conjI exI[of _ "\<lambda>m. if mId m = mId r then r else m"]) auto

lemma touches_ids: "touches i kept s s' \<Longrightarrow> map mId (stRows s') = map mId (stRows s) \<and> stNextId s' = stNextId s"
proof (elim touchesE)
  fix f
  assume f: "stRows s' = map f (stRows s)" "\<forall>m\<in>set (stRows s). mId m = i \<longrightarrow> kept m (f m)"
    "\<forall>m\<in>set (stRows s). mId m \<noteq> i \<longrightarrow> f m = m" "stNextId s' = stNextId s"
  then have "mId (f m) = mId m" if "m \<in> set (stRows s)" for m using that by (cases "mId m = i") (auto simp: kept_def)
  then show ?thesis using f(1,4) by simp
qed

lemma store_ok_cong:
  assumes "store_ok s" "stRows s' = stRows s" "stNextId s' = stNextId s"
  shows "store_ok s'"
  using assms(1) unfolding store_ok_def ids_distinct_def scoped_def assms(2,3) .

lemma touches_store_ok: "touches i kept s s' \<Longrightarrow> store_ok s \<Longrightarrow> store_ok s'"
proof (elim touchesE)
  fix f
  assume ok: "store_ok s" and f: "stRows s' = map f (stRows s)" "\<forall>m\<in>set (stRows s). mId m = i \<longrightarrow> kept m (f m)"
    "\<forall>m\<in>set (stRows s). mId m \<noteq> i \<longrightarrow> f m = m" "stNextId s' = stNextId s"
  have "store_ok (s\<lparr>stRows := map f (stRows s)\<rparr>)"
    using f by (intro store_ok_map[OF ok]) (metis kept_closes kept_refl)
  then show "store_ok s'" by (rule store_ok_cong) (use f in simp_all)
qed

text \<open>The row that \<open>GetByID\<close> finds is the only one with its key.\<close>

lemma GetByID_SomeD:
  assumes "GetByID i s = Some m"
  shows "m \<in> set (stRows s)" "mId m = i" "\<not> mDeleted m" "m \<in> set (scoped s)"
proof -
  show m: "m \<in> set (scoped s)" "mId m = i" using assms by (auto simp: GetByID_def find_Some_iff)
  then show "m \<in> set (stRows s)" "\<not> mDeleted m" by (simp_all add: scoped_def)
qed

lemma same_row:
  assumes "distinct (map mId (stRows s))" "a \<in> set (stRows s)" "b \<in> set (stRows s)" "mId a = mId b"
  shows "a = b"
  using assms by (metis (full_types) distinct_map inj_onD)

lemma GetByID_unique:
  assumes "distinct (map mId (stRows s))" "GetByID i s = Some m" "a \<in> set (stRows s)" "mId a = i"
  shows "a = m"
  using same_row[OF assms(1,3) GetByID_SomeD(1)[OF assms(2)]] GetByID_SomeD(2)[OF assms(2)] assms(4) by simp

lemma GetByID_row:
  assumes "distinct (map mId (stRows s))" "m \<in> set (stRows s)" "\<not> mDeleted m"
  shows "GetByID (mId m) s = Some m"
proof -
  have "m \<in> set (scoped s)" using assms(2,3) by (simp add: scoped_def)
  then obtain a where a: "GetByID (mId m) s = Some a" by (cases "GetByID (mId m) s") (auto simp: GetByID_def find_None_iff)
  then show ?thesis using GetByID_unique[OF assms(1) a assms(2)] by simp
qed

section \<open>Submissions\<close>

fun submits :: "nat \<Rightarrow> meffect \<Rightarrow> bool" where
  "submits i (Submitted j ch f) \<longleftrightarrow> j = i"
| "submits i x \<longleftrightarrow> False"

definition subs :: "mstate \<Rightarrow> nat \<Rightarrow> nat" where
  "subs st i = length (filter (submits i) (msLog st))"

lemma subs_log [simp]: "subs (st\<lparr>msLog := msLog st @ xs\<rparr>) i = subs st i + length (filter (submits i) xs)"
  by (simp add: subs_def)

lemma subs_same: "msLog st' = msLog st \<Longrightarrow> subs st' i = subs st i"
  by (simp add: subs_def)

section \<open>Sending\<close>

text \<open>
  What a send does, for a table whose row is \<open>m\<close> and a copy \<open>r\<close> of it that may differ in its schedule:
  the stored row is a version of \<open>m\<close> or of \<open>r\<close>, the returned one of \<open>r\<close>, at most one frame is submitted, and then
  there is no error.
\<close>

definition from_either :: "message \<Rightarrow> message \<Rightarrow> message \<Rightarrow> bool" where
  "from_either r m m' \<longleftrightarrow> kept m m' \<and> (sched m' = sched m \<or> sched m' = sched r)"

definition covers :: "message \<Rightarrow> store \<Rightarrow> bool" where
  "covers r s \<longleftrightarrow> (\<forall>m \<in> set (stRows s). mId m = mId r \<longrightarrow> kept m r)"

definition send_ok :: "message \<Rightarrow> mstate \<Rightarrow> send_result \<times> message \<times> mstate \<Rightarrow> bool" where
  "send_ok r st out \<longleftrightarrow>
     (let (res, r', st') = out in
      kept r r' \<and> sched r' = sched r \<and> covers r' (msStore st')
      \<and> touches (mId r) (from_either r) (msStore st) (msStore st')
      \<and> (\<forall>i. subs st' i = subs st i \<or> i = mId r \<and> subs st' i = subs st i + 1 \<and> srErr res = None)
      \<and> msPrefs st' = msPrefs st \<and> msInFlight st' = msInFlight st)"

lemma from_either_refl: "from_either r m m"
  by (simp add: from_either_def)

lemma from_either_trans:
  assumes "from_either r a b" "from_either r' b c" "sched r' = sched r"
  shows "from_either r a c"
  using assms kept_trans by (auto simp: from_either_def)

lemma covers_kept: "covers r s \<Longrightarrow> kept r r' \<Longrightarrow> covers r' s"
  unfolding covers_def using kept_trans by (auto simp: kept_def)

lemma covers_save: "mId r' = mId r \<Longrightarrow> kept r r' \<Longrightarrow> covers r' (save_row r s)"
  by (auto simp: covers_def save_row_def kept_def)

lemma touches_save_copy:
  assumes "covers r s" "kept r r'" "sched r' = sched r"
  shows "touches (mId r) (from_either r) s (save_row r' s)"
  using covers_kept[OF assms(1,2)] assms(2,3)
  by (intro touches_save) (auto simp: covers_def from_either_def kept_def)

text \<open>Sending twice is sending, when the first attempt submitted nothing or the result has no error.\<close>

lemma kept_id: "kept r r' \<Longrightarrow> mId r' = mId r"
  by (simp add: kept_def)

lemma send_ok_saved:
  assumes "covers r (msStore st)" "kept r r'" "sched r' = sched r" "msStore st' = save_row r' (msStore st)"
    "msPrefs st' = msPrefs st" "msInFlight st' = msInFlight st" "\<And>i. subs st' i = subs st i"
  shows "send_ok r st (res, r', st')"
  using assms(2-) touches_save_copy[OF assms(1-3)] covers_save[of r' r' "msStore st"] by (simp add: send_ok_def)

lemma send_ok_sendRF:
  assumes "covers r (msStore st)"
  shows "send_ok r st (sendRF e rf r st)"
proof -
  have fail: "send_ok r st (res, failing reason r st0)"
    if "msStore st0 = msStore st" "msPrefs st0 = msPrefs st" "msInFlight st0 = msInFlight st" "msLog st0 = msLog st" for res reason st0
    unfolding failing_def Let_def by (rule send_ok_saved[OF assms]) (use that in \<open>simp_all add: ms_update_def sched_def subs_def\<close>)
  have sent: "touches (mId r) (from_either r) (msStore st) (ClearFailureReason (mId r) (msStore st))"
    "covers (r\<lparr>mFailure := NoReason\<rparr>) (ClearFailureReason (mId r) (msStore st))"
    unfolding ClearFailureReason_def
    by (rule touches_update, simp_all add: from_either_def sched_def)
      (use assms in \<open>auto simp: covers_def update_where_def kept_def\<close>)
  show ?thesis
    by (simp add: sendRF_def finalizeRFFailure_def Let_def fail recordPending_def clearPending_def split: sum.split option.split)
      (simp add: send_ok_def sent sched_def subs_def)
qed

lemma send_ok_sendIS:
  assumes "covers r (msStore st)"
  shows "send_ok r st (sendIS e r st)"
proof -
  have fail: "send_ok r st (res, failing reason r st)" for res reason
    unfolding failing_def Let_def by (rule send_ok_saved[OF assms]) (simp_all add: ms_update_def sched_def subs_def)
  show ?thesis
    by (simp add: sendIS_def Let_def fail split: option.split)
      (auto intro!: send_ok_saved[OF assms] simp: ms_update_def publish_def sched_def subs_def kept_def)
qed

lemma send_ok_then:
  assumes "send_ok r st (res, r1, st1)" "send_ok r1 st1 (res', r2, st2)"
    "srErr res \<noteq> None \<or> (\<forall>i. subs st2 i = subs st1 i) \<and> srErr res'' = None" "srErr res' = None \<Longrightarrow> srErr res'' = None"
  shows "send_ok r st (res'', r2, st2)"
proof -
  note A = assms(1)[unfolded send_ok_def Let_def prod.case]
  note B = assms(2)[unfolded send_ok_def Let_def prod.case]
  have t: "touches (mId r) (from_either r) (msStore st) (msStore st2)"
  proof (rule touches_trans)
    show "touches (mId r) (from_either r) (msStore st) (msStore st1)" using A by blast
    show "touches (mId r) (from_either r1) (msStore st1) (msStore st2)" using A B kept_id[of r r1] by simp
    show "mId b = mId r \<and> (from_either r1 b c \<longrightarrow> from_either r a c)" if "mId a = mId r" "from_either r a b" for a b c
      using that from_either_trans[OF that(2)] A by (auto simp: from_either_def kept_def)
  qed
  have n: "subs st2 i = subs st i \<or> i = mId r \<and> subs st2 i = subs st i + 1 \<and> srErr res'' = None" for i
  proof (cases "srErr res")
    case None
    then have "subs st2 i = subs st1 i" "srErr res'' = None" using assms(3) by auto
    then show ?thesis using A None by auto
  next
    case (Some err)
    then have "subs st1 i = subs st i" using A by auto
    moreover have "subs st2 i = subs st1 i \<or> i = mId r1 \<and> subs st2 i = subs st1 i + 1 \<and> srErr res' = None" using B by blast
    ultimately show ?thesis using assms(4) A kept_id[of r r1] by auto
  qed
  show ?thesis using A B t n kept_trans by (simp add: send_ok_def) blast
qed

lemma sendIS_subs: "sendIS e r st = (res, r', st') \<Longrightarrow> subs st' i = subs st i"
  by (auto simp: sendIS_def Let_def failing_def ms_update_def publish_def subs_def split: option.splits if_splits)

lemma send_ok_covers: "send_ok r st (res, r', st') \<Longrightarrow> covers r' (msStore st')"
  by (simp add: send_ok_def)

lemma send_ok_sendBoth:
  assumes "covers r (msStore st)"
  shows "send_ok r st (sendBoth e rf r st)"
proof -
  obtain res1 r1 st1 where 1: "sendRF e rf r st = (res1, r1, st1)" by (metis prod_cases3)
  obtain res2 r2 st2 where 2: "sendIS e r1 st1 = (res2, r2, st2)" by (metis prod_cases3)
  have ok1: "send_ok r st (res1, r1, st1)" using send_ok_sendRF[OF assms] 1 by metis
  have ok2: "send_ok r1 st1 (res2, r2, st2)" using send_ok_sendIS[OF send_ok_covers[OF ok1]] 2 by metis
  define row1 where "row1 = (if srErr res2 = None then r1\<lparr>mSentAt := mSentAt r2,
      mAckState := (if mThreadKind r1 = Tactical then AckBroadcast else mAckState r1)\<rparr> else r1)"
  define res where "res = (if srErr res1 = None then result PathBoth None (srRetryable res1)
                 else if srErr res2 = None then result PathIS None False
                 else result PathBoth (srErr res1) (srRetryable res1))"
  define st3 where "st3 = (if srErr res2 = None then ms_update row1 st2 else st2)"
  have out: "sendBoth e rf r st = (res, row1, st3)"
    by (simp add: sendBoth_def 1 2 row1_def res_def st3_def Let_def)
  have subs: "subs st2 i = subs st1 i" for i by (rule sendIS_subs[OF 2])
  show ?thesis
  proof (cases "srErr res2")
    case None
    note A = ok2[unfolded send_ok_def Let_def prod.case]
    have "r2 = r1\<lparr>mSentAt := Some (evNow e), mFailure := NoReason,
        mAckState := (if mThreadKind r1 = Tactical then AckBroadcast else mAckState r1)\<rparr>"
      using 2 None by (auto simp: sendIS_def Let_def split: option.splits if_splits)
    then have r2: "kept r2 row1" "sched row1 = sched r1"
      using None by (simp_all add: row1_def kept_def sched_def)
    have "send_ok r2 st2 (res, row1, st3)"
      unfolding st3_def using None r2 A
      by (simp, intro send_ok_saved) (simp_all add: ms_update_def subs_def)
    then have "send_ok r1 st1 (res, row1, st3)"
      by (rule send_ok_then[OF ok2]) (use None in \<open>auto simp: res_def st3_def ms_update_def subs_def\<close>)
    then show ?thesis unfolding out
      by (rule send_ok_then[OF ok1]) (use None subs in \<open>auto simp: res_def st3_def ms_update_def subs_def\<close>)
  next
    case (Some err)
    have "send_ok r1 st1 (res, r1, st2)"
    proof -
      note A = ok2[unfolded send_ok_def Let_def prod.case]
      have "covers r1 (msStore st2)"
        using 2 Some by (auto simp: sendIS_def Let_def failing_def ms_update_def covers_def save_row_def kept_def
            split: option.splits if_splits)
      then show ?thesis using A subs by (simp add: send_ok_def)
    qed
    then show ?thesis unfolding out st3_def row1_def using Some
      by simp (rule send_ok_then[OF ok1], assumption, use Some subs in \<open>auto simp: res_def\<close>)
  qed
qed

lemma send_ok_fallback:
  assumes "covers r (msStore st)"
  shows "send_ok r st (sendRFWithISFallback e rf r st)"
proof -
  obtain res1 r1 st1 where 1: "sendRF e True r st = (res1, r1, st1)" by (metis prod_cases3)
  have ok1: "send_ok r st (res1, r1, st1)" using send_ok_sendRF[OF assms] 1 by metis
  obtain res2 r2 st2 where 2: "sendIS e r1 st1 = (res2, r2, st2)" by (metis prod_cases3)
  have ok2: "send_ok r1 st1 (res2, r2, st2)" using send_ok_sendIS[OF send_ok_covers[OF ok1]] 2 by metis
  have "send_ok r st (res2, r2, st2)" if "srErr res1 \<noteq> None"
    by (rule send_ok_then[OF ok1 ok2]) (use that in auto)
  then show ?thesis using ok1 send_ok_sendIS[OF assms] by (simp add: sendRFWithISFallback_def 1 2)
qed

lemma send_ok_nothing: "covers r (msStore st) \<Longrightarrow> send_ok r st (res, r, st)"
  unfolding send_ok_def by (simp add: touches_refl from_either_refl)

text \<open>The effect of a send, whatever the policy.\<close>

lemma send_ok_policy:
  assumes "covers r (msStore st)"
  shows "send_ok r st (SendWithPolicy e policy r st)"
proof -
  have "send_ok r st (res, failing TextTooLong r st)" for res
    unfolding failing_def Let_def by (rule send_ok_saved[OF assms]) (simp_all add: ms_update_def sched_def subs_def)
  then show ?thesis
    using send_ok_nothing[OF assms] send_ok_sendRF[OF assms] send_ok_sendIS[OF assms] send_ok_sendBoth[OF assms] send_ok_fallback[OF assms]
    by (simp add: SendWithPolicy_def Let_def)
qed

end
