(* ===== verification/MSG_Budget.thy ===== *)
theory MSG_Budget
  imports MSG_Steps
begin

text \<open>
  The budget of submissions of each message and what every operation does to it: \<open>quiet\<close>
  operations neither enrol a row nor submit a frame, operations \<open>only\<close> on one row touch no other,
  a retry counts its submission before the row is saved, a resend grants a new budget.
\<close>

section \<open>The budget\<close>

text \<open>
  \<open>fits\<close> is the budget of one row after \<open>n\<close> submissions, of which \<open>b\<close> are granted by resends; a row that
  is enrolled has been counted.
\<close>

definition fits :: "nat \<Rightarrow> nat \<Rightarrow> nat \<Rightarrow> message \<Rightarrow> bool" where
  "fits M b n m \<longleftrightarrow> unat (mAttempts m) \<le> M \<and> n \<le> max 1 (unat (mAttempts m)) + b
     \<and> (mNextRetryAt m \<noteq> None \<longrightarrow> n \<le> unat (mAttempts m) + b)"

definition within :: "nat \<Rightarrow> (nat \<Rightarrow> nat) \<Rightarrow> mstate \<Rightarrow> bool" where
  "within M base st \<longleftrightarrow> store_ok (msStore st) \<and> (\<forall>i. i \<notin> mId ` set (stRows (msStore st)) \<longrightarrow> subs st i = 0)
     \<and> (\<forall>m \<in> set (stRows (msStore st)). fits M (base (mId m)) (subs st (mId m)) m)"

lemma within_absent: "within M base st \<Longrightarrow> i \<notin> mId ` set (stRows (msStore st)) \<Longrightarrow> subs st i = 0"
  by (simp add: within_def)

lemma next_id_absent: "store_ok s \<Longrightarrow> stNextId s \<notin> mId ` set (stRows s)"
  by (auto simp: store_ok_def)

lemma within_store_ok: "within M base st \<Longrightarrow> store_ok (msStore st)"
  by (simp add: within_def)

lemma store_ok_distinct: "store_ok s \<Longrightarrow> distinct (map mId (stRows s))"
  by (simp add: store_ok_def)

text \<open>An operation on one row keeps the budget when it keeps that row's.\<close>

lemma within_touches:
  assumes "within M base st" "touches i R (msStore st) (msStore st')" "\<And>m m'. R m m' \<Longrightarrow> kept m m'"
    "\<And>j. j \<noteq> i \<Longrightarrow> subs st' j = subs st j"
    "\<And>m m'. m \<in> set (stRows (msStore st)) \<Longrightarrow> mId m = i \<Longrightarrow> fits M (base i) (subs st i) m \<Longrightarrow> R m m' \<Longrightarrow> fits M (base i) (subs st' i) m'"
    "i \<in> mId ` set (stRows (msStore st)) \<or> subs st' i = subs st i"
  shows "within M base st'"
proof -
  obtain f where f: "stRows (msStore st') = map f (stRows (msStore st))" "\<forall>m \<in> set (stRows (msStore st)). mId m = i \<longrightarrow> R m (f m)"
    "\<forall>m \<in> set (stRows (msStore st)). mId m \<noteq> i \<longrightarrow> f m = m" "stNextId (msStore st') = stNextId (msStore st)"
    by (rule touchesE[OF assms(2)])
  have ok: "store_ok (msStore st')"
    using touches_store_ok[OF touches_mono[OF assms(2), of kept] within_store_ok[OF assms(1)]] assms(3) by blast
  have ids: "mId ` set (stRows (msStore st')) = mId ` set (stRows (msStore st))"
    using touches_ids[OF touches_mono[OF assms(2), of kept]] assms(3) by (metis list.set_map)
  have fresh: "subs st' j = 0" if "j \<notin> mId ` set (stRows (msStore st))" for j
    using assms(1,4,6) that unfolding within_def by (cases "j = i") auto
  have "fits M (base (mId (f m))) (subs st' (mId (f m))) (f m)" if m: "m \<in> set (stRows (msStore st))" for m
  proof (cases "mId m = i")
    case True
    then have "mId (f m) = i" using f(2) m assms(3) by (auto simp: kept_def)
    then show ?thesis using assms(1,5) f(2) m True unfolding within_def by auto
  next
    case False
    then show ?thesis using assms(1,4) f(3) m unfolding within_def by auto
  qed
  then show ?thesis using ok fresh f(1) unfolding within_def ids by auto
qed

text \<open>States between which nothing was enrolled or submitted.\<close>

definition calmer :: "message \<Rightarrow> message \<Rightarrow> bool" where
  "calmer m m' \<longleftrightarrow> kept m m' \<and> mAttempts m' = mAttempts m \<and> (mNextRetryAt m' = None \<or> mNextRetryAt m' = mNextRetryAt m)"

lemma calmer_fits: "fits M b n m \<Longrightarrow> calmer m m' \<Longrightarrow> fits M b n m'"
  by (auto simp: fits_def calmer_def)

lemma calmer_refl [simp, intro]: "calmer m m"
  by (simp add: calmer_def)

definition quiet :: "mstate \<Rightarrow> mstate \<Rightarrow> bool" where
  "quiet st st' \<longleftrightarrow> (\<exists>f. stRows (msStore st') = map f (stRows (msStore st)) \<and> (\<forall>m \<in> set (stRows (msStore st)). calmer m (f m)))
     \<and> stNextId (msStore st') = stNextId (msStore st) \<and> (\<forall>i. subs st' i = subs st i) \<and> msPrefs st' = msPrefs st"

lemma quiet_self [simp, intro]: "quiet st st"
  unfolding quiet_def by (intro conjI exI[of _ id]) simp_all

lemma quiet_same:
  "msStore st' = msStore st \<Longrightarrow> msPrefs st' = msPrefs st \<Longrightarrow> (\<And>i. subs st' i = subs st i) \<Longrightarrow> quiet st st'"
  unfolding quiet_def by (intro conjI exI[of _ id]) simp_all

lemma calmer_trans: "calmer a b \<Longrightarrow> calmer b c \<Longrightarrow> calmer a c"
  unfolding calmer_def using kept_trans by auto

lemma quiet_trans:
  assumes "quiet a b" "quiet b c"
  shows "quiet a c"
proof -
  obtain f g where f: "stRows (msStore b) = map f (stRows (msStore a))" "\<forall>m \<in> set (stRows (msStore a)). calmer m (f m)"
    and g: "stRows (msStore c) = map g (stRows (msStore b))" "\<forall>m \<in> set (stRows (msStore b)). calmer m (g m)"
    using assms unfolding quiet_def by blast
  have "calmer m (g (f m))" if "m \<in> set (stRows (msStore a))" for m
    using calmer_trans[of m "f m" "g (f m)"] f g that by auto
  then show ?thesis using assms f(1) g(1) unfolding quiet_def by (intro conjI exI[of _ "g \<circ> f"]) auto
qed

lemma quiet_within:
  assumes "quiet st st'" "within M base st"
  shows "within M base st'"
proof -
  obtain f where f: "stRows (msStore st') = map f (stRows (msStore st))" "\<forall>m \<in> set (stRows (msStore st)). calmer m (f m)"
    using assms(1) unfolding quiet_def by blast
  have "store_ok ((msStore st)\<lparr>stRows := map f (stRows (msStore st))\<rparr>)"
    using f(2) assms(2) by (intro store_ok_map) (auto simp: calmer_def kept_closes within_def)
  then have "store_ok (msStore st')" by (rule store_ok_cong) (use f assms(1) in \<open>auto simp: quiet_def\<close>)
  moreover have "fits M (base (mId (f m))) (subs st' (mId (f m))) (f m)" if "m \<in> set (stRows (msStore st))" for m
  proof -
    have "calmer m (f m)" using f(2) that by blast
    moreover from this have "mId (f m) = mId m" by (simp add: calmer_def kept_def)
    moreover have "subs st' (mId m) = subs st (mId m)" using assms(1) by (simp add: quiet_def)
    ultimately show ?thesis using assms(2) that calmer_fits unfolding within_def by metis
  qed
  moreover have "mId ` set (stRows (msStore st')) = mId ` set (stRows (msStore st))"
    using f by (force simp: calmer_def kept_def image_iff)
  ultimately show ?thesis using assms f(1) by (auto simp: within_def quiet_def)
qed

lemma quiet_fold: "(\<And>x st. x \<in> set xs \<Longrightarrow> quiet st (g x st)) \<Longrightarrow> quiet st (fold g xs st)"
  by (induction xs arbitrary: st) (auto intro: quiet_trans)

lemma quiet_touches:
  assumes "touches i calmer (msStore st) (msStore st')" "msPrefs st' = msPrefs st" "\<And>i. subs st' i = subs st i"
  shows "quiet st st'"
proof -
  obtain f where f: "stRows (msStore st') = map f (stRows (msStore st))" "\<forall>m \<in> set (stRows (msStore st)). mId m = i \<longrightarrow> calmer m (f m)"
    "\<forall>m \<in> set (stRows (msStore st)). mId m \<noteq> i \<longrightarrow> f m = m" "stNextId (msStore st') = stNextId (msStore st)"
    by (rule touchesE[OF assms(1)])
  have "calmer m (f m)" if "m \<in> set (stRows (msStore st))" for m using f that by (cases "mId m = i") auto
  then show ?thesis using f(1,4) assms(2,3) unfolding quiet_def by blast
qed

section \<open>Sending within the budget\<close>

lemma within_mono: "within M base st \<Longrightarrow> (\<And>i. base i \<le> base' i) \<Longrightarrow> within M base' st"
  unfolding within_def fits_def by (meson add_left_mono order_trans)

lemma send_then_within:
  assumes W: "within M base st" and ok: "send_ok r st (res, r', st1)" and cur: "GetByID (mId r) (msStore st) = Some cur"
    and t: "touches (mId r) Q (msStore st1) (msStore st2)"
    and Q: "\<And>m m'. from_either r cur m \<Longrightarrow> Q m m' \<Longrightarrow> kept m m' \<and> fits M (base (mId r)) (subs st1 (mId r)) m'"
    and same: "\<And>i. subs st2 i = subs st1 i"
  shows "within M base st2"
proof -
  note A = ok[unfolded send_ok_def Let_def prod.case]
  note d = store_ok_distinct[OF within_store_ok[OF W]]
  let ?R = "\<lambda>m m'. kept m m' \<and> fits M (base (mId r)) (subs st2 (mId r)) m'"
  show ?thesis
  proof (rule within_touches[OF W])
    show "touches (mId r) ?R (msStore st) (msStore st2)"
    proof (rule touches_trans[OF _ t])
      show "touches (mId r) (from_either r) (msStore st) (msStore st1)" using A by blast
      fix a b c
      assume a: "mId a = mId r" "a \<in> set (stRows (msStore st))" "from_either r a b"
      then have "a = cur" using GetByID_unique[OF d cur] by simp
      then show "mId b = mId r \<and> (Q b c \<longrightarrow> kept a c \<and> fits M (base (mId r)) (subs st2 (mId r)) c)"
        using a Q[of b c] same kept_trans[of a b c] by (auto simp: from_either_def kept_id)
    qed
    show "subs st2 j = subs st j" if "j \<noteq> mId r" for j using A that same by auto
    show "mId r \<in> mId ` set (stRows (msStore st)) \<or> subs st2 (mId r) = subs st (mId r)"
      using GetByID_SomeD[OF cur] by (metis image_eqI)
  qed auto
qed

lemma touches_update_live:
  "(\<And>m. \<not> mDeleted m \<Longrightarrow> R m (f m)) \<Longrightarrow> (\<And>m. mDeleted m \<Longrightarrow> R m m) \<Longrightarrow> touches i R s (update_where i f s)"
  unfolding touches_def update_where_def by (intro conjI exI[of _ "\<lambda>r. if mId r = i \<and> \<not> mDeleted r then f r else r"]) auto

text \<open>The two ways a send ends: the schedule is updated, or the whole row is saved.\<close>

lemma send_schedule_within:
  assumes W: "within M base st" and ok: "send_ok r st (res, r', st1)" and cur: "GetByID (mId r) (msStore st) = Some cur"
    and r: "\<not> mDeleted r" and x: "mId x = mId r" "unat (mAttempts x) \<le> M" "subs st1 (mId r) \<le> unat (mAttempts x) + base (mId r)"
  shows "within M base (snd (scheduleNext e x st1))"
proof (rule send_then_within[OF W ok cur])
  let ?Q = "\<lambda>m m'. kept m m' \<and> (\<not> mDeleted m \<longrightarrow> mAttempts m' = mAttempts x)"
  show "touches (mId r) ?Q (msStore st1) (msStore (snd (scheduleNext e x st1)))"
    unfolding scheduleNext_def Let_def Kick_def UpdateRetrySchedule_def using x(1)
    by (simp, intro touches_update_live) (auto simp: kept_def)
  show "kept m m' \<and> fits M (base (mId r)) (subs st1 (mId r)) m'" if "from_either r cur m" "?Q m m'" for m m'
  proof -
    have "\<not> mDeleted m" using that(1) r GetByID_SomeD[OF cur] by (auto simp: from_either_def sched_def)
    then show ?thesis using that(2) x by (simp add: fits_def)
  qed
  show "subs (snd (scheduleNext e x st1)) i = subs st1 i" for i
    by (simp add: scheduleNext_def Let_def Kick_def subs_def)
qed

lemma send_save_within:
  assumes W: "within M base st" and ok: "send_ok r st (res, r', st1)" and cur: "GetByID (mId r) (msStore st) = Some cur"
    and x: "kept r' x" "fits M (base (mId r)) (subs st1 (mId r)) x"
    and st2: "msStore st2 = save_row x (msStore st1)" "\<And>i. subs st2 i = subs st1 i"
  shows "within M base st2"
proof (rule send_then_within[OF W ok cur _ _ st2(2)])
  note A = ok[unfolded send_ok_def Let_def prod.case]
  have id: "mId x = mId r" using A x(1) by (simp add: kept_def)
  show "touches (mId r) (\<lambda>m m'. kept m m' \<and> m' = x) (msStore st1) (msStore st2)"
    unfolding st2(1) using covers_kept[of r' "msStore st1" x] A x(1) id
    by (intro touches_save) (auto simp: covers_def)
qed (use x in auto)

lemma send_only_within:
  assumes W: "within M base st" and ok: "send_ok r st (res, r', st1)" and cur: "GetByID (mId r) (msStore st) = Some cur"
    and x: "sched r = sched cur" "fits M (base (mId r)) (subs st1 (mId r)) r"
  shows "within M base st1"
proof (rule send_then_within[OF W ok cur, where Q = "(=)"])
  show "touches (mId r) (=) (msStore st1) (msStore st1)" by (rule touches_refl) simp
  show "kept m m' \<and> fits M (base (mId r)) (subs st1 (mId r)) m'" if "from_either r cur m" "m = m'" for m m'
    using that x by (auto simp: from_either_def sched_def fits_def)
qed simp

section \<open>Operations\<close>

lemma GetByID_covers:
  assumes "store_ok s" "GetByID i s = Some cur" "kept cur r"
  shows "covers r s"
  using GetByID_unique[OF store_ok_distinct[OF assms(1)] assms(2)] GetByID_SomeD(2)[OF assms(2)] assms(3)
  by (auto simp: covers_def kept_id)

lemma touches_save_cur:
  assumes "store_ok s" "GetByID i s = Some cur" "R cur r" "mId r = i"
  shows "touches i R s (save_row r s)"
  using GetByID_unique[OF store_ok_distinct[OF assms(1)] assms(2)] assms(3,4) by (intro touches_save) auto

lemma quiet_save:
  assumes "store_ok (msStore st)" "GetByID i (msStore st) = Some cur" "calmer cur r"
    "msStore st' = save_row r (msStore st)" "msPrefs st' = msPrefs st" "\<And>i. subs st' i = subs st i"
  shows "quiet st st'"
proof (rule quiet_touches)
  have "mId r = i" using GetByID_SomeD(2)[OF assms(2)] assms(3) by (auto simp: calmer_def kept_def)
  then show "touches i calmer (msStore st) (msStore st')"
    unfolding assms(4) using touches_save_cur[OF assms(1,2), of calmer r] assms(3) by blast
qed (use assms in auto)

lemma retry_fail_quiet:
  assumes "store_ok (msStore st)" "GetByID i (msStore st) = Some cur"
  shows "quiet st (retry_fail e reason cur st)"
  by (rule quiet_save[OF assms]) (simp_all add: retry_fail_def Let_def publish_def ms_update_def calmer_def kept_def subs_def)

lemma unat_inc: "n < (m :: u32) \<Longrightarrow> unat (n + 1) = unat n + 1"
  using unat_mono[of n m] unsigned_less[of m, where 'a = nat] by (simp add: unat_plus_if')

lemma retry_cur_within:
  assumes W: "within M base st" and cur: "GetByID i (msStore st) = Some cur" and due: "mNextRetryAt cur \<noteq> None"
    and M: "unat (maxAttempts st) \<le> M"
  shows "within M base (retry_cur e cur st)"
proof -
  note ok = within_store_ok[OF W] and C = GetByID_SomeD[OF cur]
  have drop: "quiet st (ms_update (cur\<lparr>mNextRetryAt := None\<rparr>) st)"
    by (rule quiet_save[OF ok cur]) (simp_all add: ms_update_def calmer_def subs_def)
  show ?thesis
  proof (cases "mAckState cur \<noteq> AckNone \<or> mDeleted cur \<or> mAttempts cur \<ge> maxAttempts st")
    case True
    then show ?thesis
      using quiet_within[OF drop W] quiet_within[OF retry_fail_quiet[OF ok cur] W] W by (auto simp: retry_cur_def)
  next
    case False
    let ?r = "cur\<lparr>mAttempts := mAttempts cur + 1\<rparr>"
    let ?a = "unat (mAttempts cur)"
    obtain res r' st1 where S: "SendWithPolicy e (mSendPath ?r) ?r st = (res, r', st1)" by (metis prod_cases3)
    have so: "send_ok ?r st (res, r', st1)"
      using send_ok_policy[OF GetByID_covers[OF ok cur, of ?r], of e "mSendPath ?r"] S by simp
    note A = so[unfolded send_ok_def Let_def prod.case]
    have inc: "unat (mAttempts cur + 1) = ?a + 1" using False by (intro unat_inc[of _ "maxAttempts st"]) (auto simp: not_le)
    have lt: "?a + 1 \<le> M" using False M word_less_nat_alt[of "mAttempts cur" "maxAttempts st"] by (simp add: not_le)
    have r': "mAttempts r' = mAttempts cur + 1" "mNextRetryAt r' = mNextRetryAt cur" "mId r' = i" "\<not> mDeleted r'"
      using A C False by (auto simp: sched_def kept_def)
    have n: "subs st i \<le> ?a + base i" using W C due unfolding within_def fits_def by blast
    have n1: "subs st1 i \<le> ?a + 1 + base i" "srErr res \<noteq> None \<Longrightarrow> subs st1 i = subs st i"
    proof -
      have "subs st1 i = subs st i \<or> subs st1 i = subs st i + 1 \<and> srErr res = None" using A by blast
      then show "subs st1 i \<le> ?a + 1 + base i" "srErr res \<noteq> None \<Longrightarrow> subs st1 i = subs st i" using n by auto
    qed
    have cur': "GetByID (mId ?r) (msStore st) = Some cur" using cur C by simp
    have sched: "within M base (snd (scheduleNext e r' st1))"
      by (rule send_schedule_within[OF W so cur']) (use r' inc lt n1 False C in auto)
    have save: "within M base (ms_update x st1)" if "kept r' x" "fits M (base i) (subs st1 i) x" for x
      by (rule send_save_within[OF W so cur' that(1)]) (use that C in \<open>simp_all add: ms_update_def subs_def\<close>)
    have failed: "within M base (retry_fail e SendError r' st1)"
    proof (rule send_save_within[OF W so cur'])
      let ?x = "r'\<lparr>mFailure := SendError, mNextRetryAt := None, mAckState := AckRejected, mAckedAt := Some (evNow e)\<rparr>"
      show "kept r' ?x" by (simp add: kept_def)
      show "fits M (base (mId ?r)) (subs st1 (mId ?r)) ?x" using r' inc lt n1 C by (simp add: fits_def)
    qed (simp_all add: retry_fail_def Let_def publish_def ms_update_def subs_def)
    have undo: "fits M (base i) (subs st1 i) (r'\<lparr>mAttempts := mAttempts r' - 1, mNextRetryAt := t\<rparr>)" if "srErr res \<noteq> None" for t
      using n1(2)[OF that] n lt by (simp add: fits_def r')
    have "within M base (ms_update (r'\<lparr>mAttempts := mAttempts r' - 1\<rparr>) st1)" if "srErr res \<noteq> None"
      using save[of "r'\<lparr>mAttempts := mAttempts r' - 1\<rparr>"] undo[OF that, of "mNextRetryAt r'"] by (simp add: kept_def fits_def)
    moreover have "within M base (ms_update (r'\<lparr>mAttempts := mAttempts r' - 1, mNextRetryAt := t\<rparr>) st1)" if "srErr res \<noteq> None" for t
      using save[OF _ undo[OF that]] by (simp add: kept_def)
    ultimately show ?thesis
      using False S sched failed by (simp add: retry_cur_def Let_def split: option.split)
  qed
qed

text \<open>A whole batch: the rows of the list are different, so a retry leaves the others due.\<close>

definition due_row :: "message \<Rightarrow> mstate \<Rightarrow> bool" where
  "due_row m st \<longleftrightarrow> m \<in> set (stRows (msStore st)) \<and> mNextRetryAt m \<noteq> None"

lemma in_flight_within:
  "within M base (st\<lparr>msInFlight := x\<rparr>) \<longleftrightarrow> within M base st"
  by (simp add: within_def subs_def)

lemma retryOne_cases:
  "retryOne e i st = st \<or>
   (\<exists>fl. retryOne e i st = (case GetByID i (msStore st) of None \<Rightarrow> st | Some cur \<Rightarrow>
      (retry_cur e cur (st\<lparr>msInFlight := i # msInFlight st\<rparr>)))\<lparr>msInFlight := fl\<rparr>)"
  by (auto simp: retryOne_def acquireInFlight_def releaseInFlight_def split: option.split)

lemma retryOne_within:
  assumes "within M base st" "unat (maxAttempts st) \<le> M" "\<And>cur. GetByID i (msStore st) = Some cur \<Longrightarrow> mNextRetryAt cur \<noteq> None"
  shows "within M base (retryOne e i st)"
proof -
  let ?st = "st\<lparr>msInFlight := i # msInFlight st\<rparr>"
  have "within M base (retry_cur e cur ?st)" if "GetByID i (msStore st) = Some cur" for cur
    by (rule retry_cur_within) (use assms that in \<open>simp_all add: in_flight_within maxAttempts_def split: if_splits\<close>)
  then have "within M base (case GetByID i (msStore st) of None \<Rightarrow> st | Some cur \<Rightarrow> retry_cur e cur ?st)"
    using assms(1) by (simp split: option.split)
  then show ?thesis using assms(1) retryOne_cases[of e i st] by (auto simp: in_flight_within)
qed

text \<open>A retry of one row touches only that row.\<close>

lemma send_touches: "send_ok r st (res, r', st') \<Longrightarrow> touches (mId r) kept (msStore st) (msStore st') \<and> msPrefs st' = msPrefs st"
  by (auto simp: send_ok_def from_either_def intro: touches_mono)

lemma touches_kept_trans: "touches i kept a b \<Longrightarrow> touches i kept b c \<Longrightarrow> touches i kept a c"
  by (erule touches_trans, assumption) (auto simp: kept_id intro: kept_trans)

lemma scheduleNext_touches: "mId x = i \<Longrightarrow> touches i kept (msStore st) (msStore (snd (scheduleNext e x st)))"
  unfolding scheduleNext_def Let_def Kick_def UpdateRetrySchedule_def
  by (simp, rule touches_update) (simp_all add: kept_def)

lemma save_touches: "covers r (msStore st) \<Longrightarrow> kept r x \<Longrightarrow> mId r = i \<Longrightarrow> touches i kept (msStore st) (save_row x (msStore st))"
  using covers_kept[of r "msStore st" x] by (intro touches_save) (auto simp: covers_def kept_id)

lemma send_subs:
  "send_ok r st (res, r', st') \<Longrightarrow> j \<noteq> mId r \<Longrightarrow> subs st' j = subs st j"
  by (auto simp: send_ok_def)

text \<open>An operation that concerns row \<open>i\<close> alone.\<close>

definition only :: "nat \<Rightarrow> mstate \<Rightarrow> mstate \<Rightarrow> bool" where
  "only i st st' \<longleftrightarrow> touches i kept (msStore st) (msStore st') \<and> msPrefs st' = msPrefs st \<and> (\<forall>j. j \<noteq> i \<longrightarrow> subs st' j = subs st j)"

lemma only_refl [simp, intro]: "only i st st"
  by (simp add: only_def touches_refl)

lemma only_trans: "only i a b \<Longrightarrow> only i b c \<Longrightarrow> only i a c"
  unfolding only_def using touches_kept_trans by auto

lemma only_send: "send_ok r st (res, r', st') \<Longrightarrow> mId r = i \<Longrightarrow> only i st st'"
  unfolding only_def using send_touches send_subs by blast

lemma only_schedule: "mId x = i \<Longrightarrow> only i st (snd (scheduleNext e x st))"
  unfolding only_def using scheduleNext_touches[of x i st e] by (auto simp: scheduleNext_def Let_def Kick_def subs_def)

lemma only_save:
  assumes "covers r (msStore st)" "kept r y" "mId r = i" "msStore x = save_row y (msStore st)" "msPrefs x = msPrefs st" "\<And>j. subs x j = subs st j"
  shows "only i st x"
  using save_touches[OF assms(1,2,3)] assms(4-) by (simp add: only_def)

lemma retry_cur_only:
  assumes "store_ok (msStore st)" "GetByID i (msStore st) = Some cur"
  shows "only i st (retry_cur e cur st)"
proof -
  note C = GetByID_SomeD[OF assms(2)]
  let ?r = "cur\<lparr>mAttempts := mAttempts cur + 1\<rparr>"
  obtain res r' st1 where S: "SendWithPolicy e (mSendPath ?r) ?r st = (res, r', st1)" by (metis prod_cases3)
  have so: "send_ok ?r st (res, r', st1)"
    using send_ok_policy[OF GetByID_covers[OF assms, of ?r], of e "mSendPath ?r"] S by simp
  have o1: "only i st st1" by (rule only_send[OF so]) (use C in simp)
  have r': "covers r' (msStore st1)" "mId r' = i" using so C by (auto simp: send_ok_def kept_id)
  define P where "P = only i st"
  have cur_ok: "covers cur (msStore st)" by (rule GetByID_covers[OF assms]) simp
  have P0: "P x" if "msStore x = save_row y (msStore st)" "kept cur y" "msPrefs x = msPrefs st" "\<And>j. subs x j = subs st j" for x y
    unfolding P_def by (rule only_save[OF cur_ok that(2) C(2) that(1,3,4)])
  have P1: "P x" if "msStore x = save_row y (msStore st1)" "kept r' y" "msPrefs x = msPrefs st1" "\<And>j. subs x j = subs st1 j" for x y
    unfolding P_def by (rule only_trans[OF o1 only_save[OF r'(1) that(2) r'(2) that(1,3,4)]])
  note defs = ms_update_def retry_fail_def Let_def publish_def subs_def
  have "P st" by (simp add: P_def)
  moreover have "P (ms_update (cur\<lparr>mNextRetryAt := None\<rparr>) st)" by (rule P0, simp add: defs, simp_all add: defs kept_def)
  moreover have "P (retry_fail e BudgetExhausted cur st)" by (rule P0, simp add: defs, simp_all add: defs kept_def)
  moreover have "P (retry_fail e SendError r' st1)" by (rule P1, simp add: defs, simp_all add: defs kept_def)
  moreover have "P (ms_update (r'\<lparr>mAttempts := n\<rparr>) st1)" for n by (rule P1, simp add: defs, simp_all add: defs kept_def)
  moreover have "P (ms_update (r'\<lparr>mAttempts := n, mNextRetryAt := t\<rparr>) st1)" for n t by (rule P1, simp add: defs, simp_all add: defs kept_def)
  moreover have "P (snd (scheduleNext e r' st1))"
    unfolding P_def by (rule only_trans[OF o1 only_schedule[OF r'(2)]])
  ultimately have "P (retry_cur e cur st)"
    using S by (simp add: retry_cur_def Let_def split: option.split)
  then show ?thesis by (simp add: P_def)
qed

lemma only_in_flight: "only i (st\<lparr>msInFlight := x\<rparr>) st' \<longleftrightarrow> only i st st'" "only i st (st'\<lparr>msInFlight := x\<rparr>) \<longleftrightarrow> only i st st'"
  by (simp_all add: only_def subs_def)

lemma retryOne_only:
  assumes "store_ok (msStore st)"
  shows "only i st (retryOne e i st)"
proof -
  have "only i st (retry_cur e cur (st\<lparr>msInFlight := fl\<rparr>))" if "GetByID i (msStore st) = Some cur" for cur fl
    using retry_cur_only[of "st\<lparr>msInFlight := fl\<rparr>" i cur e] assms that by (simp add: only_in_flight)
  then show ?thesis using retryOne_cases[of e i st] by (auto simp: only_in_flight split: option.splits)
qed

lemma touches_other:
  assumes "touches i R s s'" "m \<in> set (stRows s)" "mId m \<noteq> i"
  shows "m \<in> set (stRows s')"
  using assms by (elim touchesE) (metis image_eqI list.set_map)

lemma maxAttempts_prefs: "msPrefs st' = msPrefs st \<Longrightarrow> maxAttempts st' = maxAttempts st"
  by (simp add: maxAttempts_def)

lemma retry_rows_within:
  assumes "within M base st" "unat (maxAttempts st) \<le> M" "distinct (map mId ms)" "\<forall>m \<in> set ms. due_row m st"
  shows "within M base (retry_rows evs k ms st) \<and> msPrefs (retry_rows evs k ms st) = msPrefs st"
  using assms
proof (induction ms arbitrary: k st)
  case (Cons m ms)
  note ok = within_store_ok[OF Cons.prems(1)]
  have m: "m \<in> set (stRows (msStore st))" "mNextRetryAt m \<noteq> None" using Cons.prems(4) by (auto simp: due_row_def)
  let ?st = "retryOne (evs k) (mId m) st"
  have 1: "within M base ?st"
  proof (rule retryOne_within[OF Cons.prems(1,2)])
    fix cur
    assume cur: "GetByID (mId m) (msStore st) = Some cur"
    then have "m = cur" by (rule GetByID_unique[OF store_ok_distinct[OF ok]]) (use m in auto)
    then show "mNextRetryAt cur \<noteq> None" using m(2) by simp
  qed
  have one: "only (mId m) st ?st" by (rule retryOne_only[OF ok])
  have "due_row x ?st" if "x \<in> set ms" for x
  proof -
    have "x \<in> set (stRows (msStore st))" "mNextRetryAt x \<noteq> None" using that Cons.prems(4) by (auto simp: due_row_def)
    moreover have "mId x \<noteq> mId m" using that Cons.prems(3) by (auto simp: image_iff)
    ultimately show ?thesis using touches_other one unfolding due_row_def only_def by blast
  qed
  then have "within M base (retry_rows evs (Suc k) ms ?st) \<and> msPrefs (retry_rows evs (Suc k) ms ?st) = msPrefs ?st"
    using Cons.IH[OF 1] Cons.prems(2,3) maxAttempts_prefs[of ?st st] one by (simp add: only_def)
  then show ?case using one by (simp add: only_def)
qed simp

lemma ListRetryDue_props:
  assumes "store_ok s"
  shows "distinct (map mId (ListRetryDue now s))" "\<forall>m \<in> set (ListRetryDue now s). m \<in> set (scoped s) \<and> awaiting m \<and> due_at now m"
proof -
  have "distinct (filter (\<lambda>m. awaiting m \<and> due_at now m) (scoped s))"
    using assms by (auto simp: store_ok_def scoped_def distinct_map)
  moreover have "inj_on mId (set (filter (\<lambda>m. awaiting m \<and> due_at now m) (scoped s)))"
    using assms by (auto simp: store_ok_def scoped_def distinct_map inj_on_def)
  ultimately show "distinct (map mId (ListRetryDue now s))" by (simp add: ListRetryDue_def distinct_map)
  show "\<forall>m \<in> set (ListRetryDue now s). m \<in> set (scoped s) \<and> awaiting m \<and> due_at now m"
    by (simp add: ListRetryDue_def)
qed

lemma processDue_within:
  assumes "within M base st" "unat (maxAttempts st) \<le> M"
  shows "within M base (processDue now evs st) \<and> msPrefs (processDue now evs st) = msPrefs st"
  unfolding processDue_def
  using ListRetryDue_props[OF within_store_ok[OF assms(1)], of now]
  by (intro retry_rows_within[OF assms]) (simp, fastforce simp: due_row_def due_at_def scoped_def split: option.splits)

text \<open>Operations that neither enrol nor submit.\<close>

lemma CancelRetry_quiet:
  assumes "store_ok (msStore st)"
  shows "quiet st (CancelRetry i st)"
proof (cases "GetByID i (msStore st)")
  case (Some row)
  have "quiet st (ms_update (row\<lparr>mNextRetryAt := None\<rparr>) (releaseInFlight i st))"
    by (rule quiet_save[OF assms Some]) (simp_all add: ms_update_def releaseInFlight_def calmer_def subs_def)
  then show ?thesis using Some by (simp add: CancelRetry_def Let_def releaseInFlight_def quiet_same subs_def)
qed (simp add: CancelRetry_def Let_def releaseInFlight_def quiet_same subs_def)

lemma quiet_update_where:
  assumes "\<And>m. calmer m (f m)" "msStore st' = update_where i f (msStore st)" "msPrefs st' = msPrefs st" "\<And>j. subs st' j = subs st j"
  shows "quiet st st'"
  by (rule quiet_touches[of i]) (use assms in \<open>auto intro: touches_update\<close>)

lemma publish_subs [simp]: "subs (publish t m st) i = subs st i" "msStore (publish t m st) = msStore st" "msPrefs (publish t m st) = msPrefs st"
  by (simp_all add: publish_def)

lemma subs_store [simp]: "subs (st\<lparr>msStore := s\<rparr>) i = subs st i"
  by (simp add: subs_def)

lemma quiet_cong:
  "quiet st x \<Longrightarrow> msStore y = msStore x \<Longrightarrow> msPrefs y = msPrefs x \<Longrightarrow> (\<And>i. subs y i = subs x i) \<Longrightarrow> quiet st y"
  by (simp add: quiet_def)

lemma ms_update_simps [simp]:
  "subs (ms_update m st) i = subs st i" "msStore (ms_update m st) = save_row m (msStore st)" "msPrefs (ms_update m st) = msPrefs st"
  by (simp_all add: ms_update_def subs_def)

lemma svc_SoftDelete_quiet:
  assumes "store_ok (msStore st)"
  shows "quiet st (svc_SoftDelete i st)"
proof (rule quiet_trans[OF CancelRetry_quiet[OF assms]])
  let ?c = "CancelRetry i st"
  have "quiet ?c (?c\<lparr>msStore := store_SoftDelete i (msStore ?c)\<rparr>)"
    by (rule quiet_update_where[where f = "\<lambda>m. m\<lparr>mDeleted := True\<rparr>" and i = i]) (simp_all add: store_SoftDelete_def calmer_def subs_def)
  then show "quiet ?c (svc_SoftDelete i st)"
    by (simp add: svc_SoftDelete_def Let_def quiet_def split: option.split)
qed

lemma onTxComplete_quiet: "quiet st (onTxComplete e tok kind st)"
proof (cases "msPending st tok")
  case (Some pf)
  let ?c = "clearPending tok st"
  have "quiet st (?c\<lparr>msStore := UpdateSentAtAndAckState i t a (msStore st)\<rparr>)" if "a \<noteq> Some AckNone" for i t a
    by (rule quiet_update_where[where i = i and f = "\<lambda>m. m\<lparr>mSentAt := Some t, mAckState := (case a of None \<Rightarrow> mAckState m | Some s \<Rightarrow> s)\<rparr>"])
      (use that in \<open>simp_all add: UpdateSentAtAndAckState_def clearPending_def calmer_def kept_def subs_def split: option.split\<close>)
  then have upd: "quiet st (?c\<lparr>msStore := UpdateSentAtAndAckState i t (if b then Some AckBroadcast else None) (msStore st)\<rparr>)" for i t b
    by simp
  show ?thesis
  proof (cases "kind = ''messages'' \<and> GetByID (pfRowID pf) (msStore st) \<noteq> None")
    case True
    then obtain row where row: "GetByID (pfRowID pf) (msStore st) = Some row" by blast
    show ?thesis
      by (rule quiet_cong[OF upd[of "mId row" "evNow e" "mThreadKind row = Tactical"]])
        (use True row Some in \<open>simp_all add: onTxComplete_def Let_def clearPending_def subs_def publish_def\<close>)
  next
    case False
    then show ?thesis using Some by (auto simp: onTxComplete_def Let_def clearPending_def subs_def intro!: quiet_same)
  qed
qed (simp add: onTxComplete_def Let_def)

lemma read_quiet: "quiet st (st\<lparr>msStore := MarkRead i (msStore st)\<rparr>)" "quiet st (st\<lparr>msStore := MarkUnread i (msStore st)\<rparr>)"
  by (rule quiet_update_where[where i = i and f = "\<lambda>m. m\<lparr>mUnread := False\<rparr>"]; simp add: MarkRead_def calmer_def subs_def)
    (rule quiet_update_where[where i = i and f = "\<lambda>m. m\<lparr>mUnread := True\<rparr>"]; simp add: MarkUnread_def calmer_def subs_def)

lemma cancel_deleted_quiet: "store_ok (msStore st) \<Longrightarrow> quiet st (cancel_deleted kind key i st)"
  by (rule quiet_cong[OF CancelRetry_quiet]) (simp_all add: cancel_deleted_def Let_def subs_def)

lemma quiet_store_ok: "quiet st st' \<Longrightarrow> store_ok (msStore st) \<Longrightarrow> store_ok (msStore st')"
proof -
  assume q: "quiet st st'" and ok: "store_ok (msStore st)"
  obtain f where f: "stRows (msStore st') = map f (stRows (msStore st))" "\<forall>m \<in> set (stRows (msStore st)). calmer m (f m)"
    using q unfolding quiet_def by blast
  have "store_ok ((msStore st)\<lparr>stRows := map f (stRows (msStore st))\<rparr>)"
    using f(2) ok by (intro store_ok_map) (auto simp: calmer_def kept_closes)
  then show ?thesis by (rule store_ok_cong) (use f q in \<open>auto simp: quiet_def\<close>)
qed

lemma quiet_fold_ok:
  assumes "\<And>x st. store_ok (msStore st) \<Longrightarrow> quiet st (g x st)" "store_ok (msStore st)"
  shows "quiet st (fold g xs st)"
  using assms(2)
proof (induction xs arbitrary: st)
  case (Cons x xs)
  show ?case using quiet_trans[OF assms(1)[OF Cons.prems] Cons.IH[OF quiet_store_ok[OF assms(1)[OF Cons.prems] Cons.prems]]] by simp
qed simp

lemma SoftDeleteThread_quiet:
  assumes "store_ok (msStore st)"
  shows "quiet st (snd (SoftDeleteThread kind key st))"
proof -
  have del: "quiet st (st\<lparr>msStore := store_SoftDelete i (msStore st)\<rparr>)" for i st
    by (rule quiet_update_where[where f = "\<lambda>m. m\<lparr>mDeleted := True\<rparr>" and i = i]) (simp_all add: store_SoftDelete_def calmer_def subs_def)
  have dels: "quiet st (st\<lparr>msStore := fold store_SoftDelete ids (msStore st)\<rparr>)" for ids
  proof (induction ids arbitrary: st)
    case (Cons i ids)
    show ?case using quiet_trans[OF del[of st i] Cons.IH[of "st\<lparr>msStore := store_SoftDelete i (msStore st)\<rparr>"]] by simp
  qed simp
  obtain ids store where D: "SoftDeleteByThread kind key (msStore st) = (ids, store)" by force
  have q: "quiet st (st\<lparr>msStore := store\<rparr>)"
  proof (cases "to_upper (trim_space key) = []")
    case True
    then show ?thesis using D by (auto simp: SoftDeleteByThread_def)
  next
    case False
    then have "store = fold store_SoftDelete ids (msStore st)" using D by (auto simp: SoftDeleteByThread_def Let_def)
    then show ?thesis using dels by simp
  qed
  have "quiet (st\<lparr>msStore := store\<rparr>) (fold (cancel_deleted kind key) ids (st\<lparr>msStore := store\<rparr>))"
    by (rule quiet_fold_ok[OF cancel_deleted_quiet quiet_store_ok[OF q assms]])
  then show ?thesis using quiet_trans[OF q] by (simp add: SoftDeleteThread_def D)
qed

text \<open>Correlation: the rows found are in the table and different from one another.\<close>

definition row_op :: "(message \<Rightarrow> mstate \<Rightarrow> mstate) \<Rightarrow> bool" where
  "row_op g \<longleftrightarrow> (\<forall>r st. store_ok (msStore st) \<longrightarrow> r \<in> set (stRows (msStore st)) \<longrightarrow>
     quiet st (g r st) \<and> touches (mId r) calmer (msStore st) (msStore (g r st)))"

lemma row_opD:
  assumes "row_op g" "store_ok (msStore st)" "r \<in> set (stRows (msStore st))"
  shows "quiet st (g r st)" "touches (mId r) calmer (msStore st) (msStore (g r st))"
  using assms unfolding row_op_def by blast+

lemma row_op_fold:
  assumes "row_op g" "store_ok (msStore st)" "distinct (map mId rs)" "\<forall>r \<in> set rs. r \<in> set (stRows (msStore st))"
  shows "quiet st (fold g rs st)"
  using assms(2-)
proof (induction rs arbitrary: st)
  case (Cons r rs)
  have r: "r \<in> set (stRows (msStore st))" using Cons.prems by simp
  note G = row_opD[OF assms(1) Cons.prems(1) r]
  have "x \<in> set (stRows (msStore (g r st)))" if "x \<in> set rs" for x
    using touches_other[OF G(2), of x] that Cons.prems(2,3) by (auto simp: image_iff)
  then show ?case using quiet_trans[OF G(1) Cons.IH[OF quiet_store_ok[OF G(1) Cons.prems(1)]]] Cons.prems(2) by simp
qed simp

lemma saved_row:
  assumes "store_ok (msStore st)" "r \<in> set (stRows (msStore st))" "calmer r r'"
    "msStore st' = save_row r' (msStore st)" "msPrefs st' = msPrefs st" "\<And>i. subs st' i = subs st i"
  shows "quiet st st' \<and> touches (mId r) calmer (msStore st) (msStore st')"
proof -
  have t: "touches (mId r) calmer (msStore st) (msStore st')"
    unfolding assms(4) using same_row[OF store_ok_distinct[OF assms(1)] _ assms(2)] assms(3)
    by (intro touches_save) (auto simp: calmer_def kept_id)
  then show ?thesis using quiet_touches[OF t] assms(5,6) by simp
qed

lemma close_row_op: "s \<noteq> AckNone \<Longrightarrow> row_op (close_row e s evt)"
  unfolding row_op_def
proof (intro allI impI)
  fix r and st :: mstate
  assume s: "s \<noteq> AckNone" and ok: "store_ok (msStore st)" "r \<in> set (stRows (msStore st))"
  let ?r = "r\<lparr>mAckState := s, mAckedAt := Some (evNow e)\<rparr>"
  have "quiet st (publish evt ?r (ms_update ?r st)) \<and> touches (mId r) calmer (msStore st) (msStore (publish evt ?r (ms_update ?r st)))"
    by (rule saved_row[OF ok, of ?r]) (use s in \<open>simp_all add: calmer_def kept_def\<close>)
  then show "quiet st (close_row e s evt r st) \<and> touches (mId r) calmer (msStore st) (msStore (close_row e s evt r st))"
    by (simp add: close_row_def Let_def touches_refl)
qed

lemma reply_row_op: "row_op (reply_row e peer)"
  unfolding row_op_def
proof (intro allI impI)
  fix r and st :: mstate
  assume ok: "store_ok (msStore st)" "r \<in> set (stRows (msStore st))"
  let ?r = "r\<lparr>mReceivedByCall := peer\<rparr>"
  have "quiet st (publish EventMessageReplyAckRcvd ?r (ms_update ?r st))
      \<and> touches (mId r) calmer (msStore st) (msStore (publish EventMessageReplyAckRcvd ?r (ms_update ?r st)))"
    by (rule saved_row[OF ok, of ?r]) (simp_all add: calmer_def)
  moreover have "quiet st (close_row e Acked EventMessageAcked r st) \<and> touches (mId r) calmer (msStore st) (msStore (close_row e Acked EventMessageAcked r st))"
    using close_row_op[of Acked e EventMessageAcked] ok by (simp add: row_op_def)
  ultimately show "quiet st (reply_row e peer r st) \<and> touches (mId r) calmer (msStore st) (msStore (reply_row e peer r st))"
    by (simp add: reply_row_def Let_def touches_refl split: thread_kind.split)
qed

lemma FindOutstanding_props:
  assumes "store_ok s"
  shows "distinct (map mId (FindOutstandingByMsgID mid peer s))" "set (FindOutstandingByMsgID mid peer s) \<subseteq> set (stRows s)"
  using assms by (auto simp: FindOutstandingByMsgID_def store_ok_def distinct_map inj_on_def simp flip: rev_map)

lemma correlateAck_quiet:
  assumes "store_ok (msStore st)"
  shows "quiet st (correlateAck e peer m st)"
proof -
  note F = FindOutstanding_props[OF assms, of "amMessageID m" peer]
  have "quiet st (fold (close_row e s evt) (FindOutstandingByMsgID (amMessageID m) peer (msStore st)) st)" if "s \<noteq> AckNone" for s evt
    by (rule row_op_fold[OF close_row_op[OF that] assms F(1)]) (use F(2) in blast)
  then show ?thesis by (simp add: correlateAck_def Let_def)
qed

lemma correlateReplyAck_quiet:
  assumes "store_ok (msStore st)"
  shows "quiet st (correlateReplyAck e peer rid st)"
proof -
  let ?rows = "FindOutstandingByMsgID rid peer (msStore st)"
  let ?all = "filter (\<lambda>r. mId r \<notin> mId ` set ?rows) (FindOutstandingByMsgID rid (evOurCall e) (msStore st))"
  note P = FindOutstanding_props[OF assms, of rid]
  have d: "distinct (map mId (?rows @ extra))" "\<forall>r \<in> set (?rows @ extra). r \<in> set (stRows (msStore st))"
    if "extra = [] \<or> extra = ?all" for extra
    using that P[of peer] P[of "evOurCall e"] by (auto simp: distinct_map_filter) (metis image_eqI)
  show ?thesis
    unfolding correlateReplyAck_def Let_def
    using row_op_fold[OF reply_row_op assms d(1) d(2)] by auto
qed

lemma SendAutoAck_quiet: "quiet st (SendAutoAck e pkt peer mid st)"
  by (auto simp: SendAutoAck_def Let_def log_effect_def split: option.split sum.split intro!: quiet_same)

lemma CheckDedup_quiet: "quiet st (snd (CheckDedup now src mid body st))"
  by (rule quiet_same) (simp_all add: CheckDedup_def check_key_def Let_def subs_def)

section \<open>New rows\<close>

lemma insert_within:
  assumes "within M base st" "store_ok (msStore st')" "stRows (msStore st') = stRows (msStore st) @ [r]" "mId r = stNextId (msStore st)"
    "stNextId (msStore st') = Suc (stNextId (msStore st))" "mAttempts r = 0" "mNextRetryAt r = None" "\<And>i. subs st' i = subs st i"
  shows "within M base st'"
proof -
  have "subs st (stNextId (msStore st)) = 0" by (rule within_absent[OF assms(1)]) (rule next_id_absent[OF within_store_ok[OF assms(1)]])
  then show ?thesis using assms unfolding within_def by (auto simp: fits_def)
qed

lemma derive_fields:
  "mMsgID (derive m) = mMsgID m" "mOut (derive m) = mOut m" "mAckState (derive m) = mAckState m" "mThreadKind (derive m) = mThreadKind m"
  "mDeleted (derive m) = mDeleted m" "mAttempts (derive m) = mAttempts m" "mNextRetryAt (derive m) = mNextRetryAt m"
  "mThreadKind m = DM \<Longrightarrow> mOut m \<Longrightarrow> mPeerCall (derive m) = mToCall m" "mSendPath (derive m) = mSendPath m"
  by (simp_all add: derive_def Let_def split: thread_kind.split)

lemma Insert_rows:
  "Insert m s = ((derive m)\<lparr>mId := stNextId s\<rparr>, s\<lparr>stRows := stRows s @ [(derive m)\<lparr>mId := stNextId s\<rparr>], stNextId := Suc (stNextId s)\<rparr>)"
  by (simp add: Insert_def Let_def)

lemma inbound_row_fields:
  "\<not> mOut (inbound_row now pkt src m kind key our)" "mAttempts (inbound_row now pkt src m kind key our) = 0"
  "mNextRetryAt (inbound_row now pkt src m kind key our) = None"
  by (simp_all add: inbound_row_def blank_message_def)

lemma persistInbound_store_ok:
  "store_ok (msStore st) \<Longrightarrow> store_ok (msStore (persistInbound e pkt src m kind key our st))"
  using store_ok_insert[of "msStore st" "inbound_row (evNow e) pkt src m kind key our"]
  by (simp add: persistInbound_def awaiting_def derive_fields inbound_row_fields case_prod_unfold Let_def)

lemma persistInbound_within:
  assumes "within M base st"
  shows "within M base (persistInbound e pkt src m kind key our st)"
proof -
  let ?m = "inbound_row (evNow e) pkt src m kind key our" and ?st = "persistInbound e pkt src m kind key our st"
  have ok: "store_ok (msStore ?st)" by (rule persistInbound_store_ok[OF within_store_ok[OF assms]])
  show ?thesis
    by (rule insert_within[OF assms ok, where r = "(derive ?m)\<lparr>mId := stNextId (msStore st)\<rparr>"])
      (simp_all add: persistInbound_def Insert_rows derive_fields inbound_row_fields subs_def publish_def)
qed

text \<open>What every part of the router keeps, classifying a packet keeps.\<close>

lemma classify_keeps:
  assumes "P st" "\<And>st r. P st \<Longrightarrow> P (st\<lparr>msRing := r\<rparr>)"
    "\<And>st n src i b. P st \<Longrightarrow> P (snd (CheckDedup n src i b st))"
    "\<And>st pk src m kind key our. P st \<Longrightarrow> P (persistInbound e pk src m kind key our st)"
    "\<And>st p m. P st \<Longrightarrow> P (correlateAck e p m st)" "\<And>st p i. P st \<Longrightarrow> P (correlateReplyAck e p i st)"
    "\<And>st pk p i. P st \<Longrightarrow> P (SendAutoAck e pk p i st)"
  shows "P (snd (classify e pkt st))"
proof -
  have accept: "P (snd (accept_message e pk src m kind key st))" if "P st" for pk src m kind key st
  proof -
    define st1 where "st1 = (if amMessageID m \<noteq> [] then CheckDedup (evNow e) src (amMessageID m) (amText m) st else (False, st))"
    have 1: "P (snd st1)" using that assms(3) by (simp add: st1_def)
    define st2 where "st2 = (if fst st1 then snd st1 else persistInbound e pk src m kind key (baseCall (norm_call (evOurCall e))) (snd st1))"
    have 2: "P st2" using 1 assms(4) by (simp add: st2_def)
    define st3 where "st3 = (if amHasReplyAck m \<and> amReplyAck m \<noteq> [] then correlateReplyAck e src (amReplyAck m) st2 else st2)"
    have 3: "P st3" using 2 assms(6) by (simp add: st3_def)
    have "snd (accept_message e pk src m kind key st) = st3 \<or> (\<exists>p i. snd (accept_message e pk src m kind key st) = SendAutoAck e pk p i st3)"
      unfolding accept_message_def Let_def case_prod_unfold st3_def st2_def st1_def by auto
    then show ?thesis using 3 assms(7) by auto
  qed
  show ?thesis
    using assms(1) assms(2)[OF assms(1)] assms(5)[OF assms(2)[OF assms(1)]] accept[OF assms(2)[OF assms(1)]]
    by (simp add: classify_def Let_def case_prod_unfold split: option.split)
qed

lemma classify_prefs: "msPrefs (snd (classify e pkt st)) = msPrefs st"
proof (rule classify_keeps[where P = "\<lambda>x. msPrefs x = msPrefs st"])
  have fold: "msPrefs (fold g rs st) = msPrefs st" if "\<And>r st. msPrefs (g r st) = msPrefs st" for g and rs :: "message list" and st :: mstate
    by (induction rs arbitrary: st) (simp_all add: that)
  have c: "msPrefs (close_row e s evt r st) = msPrefs st" for s evt r st by (simp add: close_row_def Let_def)
  have r: "msPrefs (reply_row e p r st) = msPrefs st" for p r st by (simp add: reply_row_def Let_def c split: thread_kind.split)
  show "msPrefs (correlateAck e p m x) = msPrefs st" if "msPrefs x = msPrefs st" for x p m using that by (simp add: correlateAck_def Let_def fold c)
  show "msPrefs (correlateReplyAck e p i x) = msPrefs st" if "msPrefs x = msPrefs st" for x p i
    unfolding correlateReplyAck_def Let_def using that by (simp only: fold[OF r] split: if_split) simp
  show "msPrefs (SendAutoAck e pk p i x) = msPrefs st" if "msPrefs x = msPrefs st" for x pk p i
    using that by (auto simp: SendAutoAck_def Let_def log_effect_def split: option.split sum.split)
qed (simp_all add: persistInbound_def Insert_rows CheckDedup_def check_key_def Let_def)

lemma classify_within:
  assumes "within M base st"
  shows "within M base (snd (classify e pkt st))"
proof (rule classify_keeps[where P = "within M base", OF assms])
  show "within M base (st\<lparr>msRing := r\<rparr>)" if "within M base st" for st r using that by (simp add: within_def subs_def)
qed (auto intro: persistInbound_within quiet_within CheckDedup_quiet correlateAck_quiet correlateReplyAck_quiet SendAutoAck_quiet within_store_ok)

definition new_row :: "int \<Rightarrow> send_request \<Rightarrow> thread_kind \<Rightarrow> string \<Rightarrow> string \<Rightarrow> string \<Rightarrow> message" where
  "new_row now rq kind sendPath body i = blank_message\<lparr>mOut := True, mOurCall := rqOurCall rq, mFromCall := rqOurCall rq,
     mToCall := rqTo rq, mText := body, mThreadKind := kind, mInvite := rqInvite rq, mSendPath := sendPath,
     mChannel := rqChannel rq, mMsgID := i, mCreatedAt := now\<rparr>"

lemma new_row_fields:
  "mOut (new_row now rq kind p b i)" "mAttempts (new_row now rq kind p b i) = 0" "mNextRetryAt (new_row now rq kind p b i) = None"
  "\<not> mDeleted (new_row now rq kind p b i)" "mThreadKind (new_row now rq kind p b i) = kind" "mToCall (new_row now rq kind p b i) = rqTo rq"
  "mMsgID (new_row now rq kind p b i) = i" "mSendPath (new_row now rq kind p b i) = p" "mAckState (new_row now rq kind p b i) = AckNone"
  "mText (new_row now rq kind p b i) = b" "mFromCall (new_row now rq kind p b i) = rqOurCall rq" "mChannel (new_row now rq kind p b i) = rqChannel rq"
  by (simp_all add: new_row_def blank_message_def)

text \<open>What a successful compose has done.\<close>

lemma compose_Inr:
  assumes "compose now rq st = (Inr row, st')"
  obtains kind p b i store where "Insert (new_row now rq kind p b i) store = (row, msStore st')" "st' = st\<lparr>msStore := msStore st'\<rparr>"
    "kind = DM \<longrightarrow> AllocateMsgID (rqTo rq) (msStore st) = (Some i, store)" "kind \<noteq> DM \<longrightarrow> i = [] \<and> store = msStore st"
    "compose_text rq = Inr b"
    "kind = (case rqThreadKind rq of Some k \<Rightarrow> k | None \<Rightarrow> if tac_Contains (msTactical st) (rqTo rq) then Tactical else DM)"
    "p = (case GetConversationPrefs kind (to_upper (rqTo rq)) st of None \<Rightarrow> [] | Some c \<Rightarrow> cpSendPath c)"
proof -
  define kind where "kind = (case rqThreadKind rq of Some k \<Rightarrow> k | None \<Rightarrow> if tac_Contains (msTactical st) (rqTo rq) then Tactical else DM)"
  define p where "p = (case GetConversationPrefs kind (to_upper (rqTo rq)) st of None \<Rightarrow> [] | Some c \<Rightarrow> cpSendPath c)"
  define al where "al = (if kind = DM then AllocateMsgID (rqTo rq) (msStore st) else (Some [], msStore st))"
  obtain b where b: "compose_text rq = Inr b" using assms by (auto simp: compose_def split: if_splits sum.splits)
  have eq: "compose now rq st = (case al of (mid, store) \<Rightarrow> (case mid of None \<Rightarrow> (Inl ErrMsgIDExhausted, st)
      | Some i \<Rightarrow> let (row, store) = Insert (new_row now rq kind p b i) store in (Inr row, st\<lparr>msStore := store\<rparr>)))"
    using assms b unfolding compose_def Let_def kind_def[symmetric] p_def[symmetric] al_def[symmetric] new_row_def
    by (auto split: if_splits)
  then obtain i store where i: "al = (Some i, store)" using assms by (auto split: prod.splits option.splits)
  show thesis
  proof (rule that[of kind p b i store])
    show "Insert (new_row now rq kind p b i) store = (row, msStore st')" "st' = st\<lparr>msStore := msStore st'\<rparr>"
      using assms unfolding eq i by (auto simp: Let_def split: prod.splits)
  qed (use i b in \<open>simp_all add: al_def kind_def p_def split: if_splits\<close>)
qed

lemma compose_Inl: "compose now rq st = (Inl err, st') \<Longrightarrow> st' = st"
  unfolding compose_def Let_def by (auto split: if_splits sum.splits option.splits prod.splits)

lemma alloc_store_ok: "AllocateMsgID peer s = (x, s') \<Longrightarrow> store_ok s \<Longrightarrow> store_ok s'"
  using store_ok_alloc[of s peer] by simp

lemma alloc_rows:
  "AllocateMsgID peer s = (x, s') \<Longrightarrow> stRows s' = stRows s \<and> stNextId s' = stNextId s \<and> held_ids p s' = held_ids p s"
  using AllocateMsgID_rows[of peer s] scoped_alloc[of peer s] by (simp add: held_ids_def)

lemma compose_within:
  assumes W: "within M base st" and C: "compose now rq st = (Inr row, st')"
  shows "within M base st'" "GetByID (mId row) (msStore st') = Some row" "mId row = stNextId (msStore st)" "mAttempts row = 0"
    "mNextRetryAt row = None" "\<not> mDeleted row" "subs st' i = subs st i" "msPrefs st' = msPrefs st" "mOut row" "mAckState row = AckNone"
    "stRows (msStore st') = stRows (msStore st) @ [row]" "stNextId (msStore st') = Suc (stNextId (msStore st))"
proof -
  obtain kind p b i' store where I: "Insert (new_row now rq kind p b i') store = (row, msStore st')" "st' = st\<lparr>msStore := msStore st'\<rparr>"
    "kind = DM \<longrightarrow> AllocateMsgID (rqTo rq) (msStore st) = (Some i', store)" "kind \<noteq> DM \<longrightarrow> i' = [] \<and> store = msStore st" "compose_text rq = Inr b"
    "kind = (case rqThreadKind rq of Some k \<Rightarrow> k | None \<Rightarrow> if tac_Contains (msTactical st) (rqTo rq) then Tactical else DM)"
    "p = (case GetConversationPrefs kind (to_upper (rqTo rq)) st of None \<Rightarrow> [] | Some c \<Rightarrow> cpSendPath c)"
    by (rule compose_Inr[OF C])
  let ?n = "new_row now rq kind p b i'"
  have st: "stRows store = stRows (msStore st)" "stNextId store = stNextId (msStore st)" "store_ok store"
  proof -
    have "stRows store = stRows (msStore st) \<and> stNextId store = stNextId (msStore st) \<and> store_ok store"
    proof (cases "kind = DM")
      case True
      then have "AllocateMsgID (rqTo rq) (msStore st) = (Some i', store)" using I(3) by blast
      then show ?thesis using alloc_rows alloc_store_ok within_store_ok[OF W] by blast
    qed (use I(4) within_store_ok[OF W] in simp)
    then show "stRows store = stRows (msStore st)" "stNextId store = stNextId (msStore st)" "store_ok store" by blast+
  qed
  have row: "row = (derive ?n)\<lparr>mId := stNextId store\<rparr>" "stRows (msStore st') = stRows store @ [row]" "stNextId (msStore st') = Suc (stNextId store)"
  proof -
    have e: "row = (derive ?n)\<lparr>mId := stNextId store\<rparr>"
      "msStore st' = store\<lparr>stRows := stRows store @ [(derive ?n)\<lparr>mId := stNextId store\<rparr>], stNextId := Suc (stNextId store)\<rparr>"
      by (metis I(1) Insert_rows prod.inject)+
    show "row = (derive ?n)\<lparr>mId := stNextId store\<rparr>" by (rule e(1))
    show "stRows (msStore st') = stRows store @ [row]" "stNextId (msStore st') = Suc (stNextId store)" unfolding e by simp_all
  qed
  have ok: "store_ok (msStore st')"
  proof -
    have "store_ok (snd (Insert ?n store))"
    proof (rule store_ok_insert[OF st(3)])
      assume "awaiting (derive ?n)"
      then have dm: "kind = DM" by (simp add: awaiting_def derive_fields new_row_fields)
      have "i' \<notin> set (held_ids (rqTo rq) (msStore st))"
        using AllocateMsgID_result[of "rqTo rq" "msStore st"] I(3) dm by simp
      then show "mMsgID ?n \<notin> set (held_ids (mPeerCall (derive ?n)) store)"
        using alloc_rows[OF I(3)[rule_format, OF dm]] dm by (simp add: derive_fields new_row_fields)
    qed
    then show ?thesis using I(1) by simp
  qed
  show f: "mId row = stNextId (msStore st)" "mAttempts row = 0" "mNextRetryAt row = None" "\<not> mDeleted row" "mOut row" "mAckState row = AckNone"
    by (simp_all add: row(1) st derive_fields new_row_fields)
  show rows: "stRows (msStore st') = stRows (msStore st) @ [row]" "stNextId (msStore st') = Suc (stNextId (msStore st))"
    using row st by simp_all
  have same: "msLog st' = msLog st" by (subst I(2)) simp
  show "msPrefs st' = msPrefs st" by (subst I(2)) simp
  show subs: "subs st' i = subs st i" by (rule subs_same[OF same])
  show "within M base st'" by (rule insert_within[OF W ok rows(1) f(1) rows(2) f(2,3)]) (rule subs_same[OF same])
  show "GetByID (mId row) (msStore st') = Some row"
    using GetByID_row[OF store_ok_distinct[OF ok], of row] rows f by simp
qed

lemma dispatch_first_within:
  assumes W: "within M base st" and G: "GetByID (mId row) (msStore st) = Some row" and M: "1 \<le> M"
    and row: "mAttempts row = 0" "mNextRetryAt row = None" "subs st (mId row) = 0"
  shows "within M base (dispatch_first e policy suppress row st) \<and> only (mId row) st (dispatch_first e policy suppress row st)"
proof -
  note ok = within_store_ok[OF W] and C = GetByID_SomeD[OF G]
  obtain res r' st1 where S: "SendWithPolicy e policy row st = (res, r', st1)" by (metis prod_cases3)
  have so: "send_ok row st (res, r', st1)" using send_ok_policy[OF GetByID_covers[OF ok G kept_refl]] S by metis
  have id: "mId r' = mId row" using so by (simp add: send_ok_def kept_id)
  have n: "subs st1 (mId row) \<le> 1" 
  proof -
    have "subs st1 (mId row) = subs st (mId row) \<or> subs st1 (mId row) = subs st (mId row) + 1"
      using so unfolding send_ok_def Let_def prod.case by blast
    then show ?thesis using row(3) by auto
  qed
  have one: "only (mId row) st st1" by (rule only_send[OF so refl])
  have W1: "within M base st1"
    by (rule send_only_within[OF W so G refl]) (use row n in \<open>simp add: fits_def\<close>)
  have "within M base (snd (scheduleNext e (cur\<lparr>mAttempts := 1\<rparr>) st1)) \<and> only (mId row) st (snd (scheduleNext e (cur\<lparr>mAttempts := 1\<rparr>) st1))"
    if "GetByID (mId row) (msStore st1) = Some cur" for cur
  proof
    show "within M base (snd (scheduleNext e (cur\<lparr>mAttempts := 1\<rparr>) st1))"
      by (rule send_schedule_within[OF W so G C(3)]) (use GetByID_SomeD[OF that] M n in simp_all)
    show "only (mId row) st (snd (scheduleNext e (cur\<lparr>mAttempts := 1\<rparr>) st1))"
      by (rule only_trans[OF one only_schedule]) (use GetByID_SomeD[OF that] in simp)
  qed
  then show ?thesis using W1 one S id by (simp add: dispatch_first_def split: option.split)
qed

lemma SendMessage_within:
  assumes W: "within M base st" and M: "1 \<le> M"
  shows "within M base (snd (SendMessage e rq st))"
proof (cases "compose (evNow e) rq st")
  case (Pair r st')
  show ?thesis
  proof (cases r)
    case (Inl err)
    then show ?thesis using Pair compose_Inl[of "evNow e" rq st err st'] W by (simp add: SendMessage_def)
  next
    case (Inr row)
    then have c: "compose (evNow e) rq st = (Inr row, st')" using Pair by simp
    note P = compose_within[OF W c]
    have "subs st' (mId row) = 0"
      unfolding P(3) using P(7)[of "stNextId (msStore st)"] within_absent[OF W next_id_absent[OF within_store_ok[OF W]]] by simp
    then show ?thesis using dispatch_first_within[OF P(1,2) M P(4,5)] c by (simp add: SendMessage_def)
  qed
qed

text \<open>A resend grants a whole budget and the submission of the resend itself.\<close>

lemma resend_row_within:
  assumes W: "within M base st" and G: "GetByID i (msStore st) = Some row" and M: "1 \<le> M"
  shows "within M (base(i := base i + M + 1)) (snd (resend_row e row st))"
proof -
  note ok = within_store_ok[OF W] and C = GetByID_SomeD[OF G]
  let ?r = "row\<lparr>mAttempts := 0, mNextRetryAt := None, mFailure := NoReason\<rparr>" and ?b = "base(i := base i + M + 1)"
  let ?st = "ms_update ?r st"
  have n0: "subs st i \<le> M + base i"
  proof -
    have "fits M (base i) (subs st i) row" using W C unfolding within_def by blast
    then show ?thesis using M by (auto simp: fits_def)
  qed
  have W0: "within M ?b ?st"
  proof (rule within_touches[OF within_mono[OF W, of ?b]])
    show "touches i (\<lambda>m m'. kept m m' \<and> m' = ?r) (msStore st) (msStore ?st)"
      using touches_save_cur[OF ok G, of "\<lambda>m m'. kept m m' \<and> m' = ?r" ?r] C by (simp add: kept_def)
    show "fits M (?b i) (subs ?st i) m'" if "kept m m' \<and> m' = ?r" for m m'
      using that n0 by (simp add: fits_def)
  qed auto
  have id: "mId ?r = i" using C by simp
  have G0: "GetByID (mId ?r) (msStore ?st) = Some ?r"
    using GetByID_row[OF store_ok_distinct[OF within_store_ok[OF W0]], of ?r] C by (force simp: save_row_def)
  obtain res r' st1 where S: "SendWithPolicy e (mSendPath ?r) ?r ?st = (res, r', st1)" by (metis prod_cases3)
  have so: "send_ok ?r ?st (res, r', st1)" using send_ok_policy[OF GetByID_covers[OF within_store_ok[OF W0] G0 kept_refl]] S by metis
  have n: "subs st1 i \<le> M + base i + 1"
  proof -
    have "subs st1 i = subs ?st i \<or> subs st1 i = subs ?st i + 1" using so unfolding send_ok_def Let_def prod.case by blast
    then show ?thesis using n0 by auto
  qed
  have r': "mAttempts r' = 0" "mId r' = i" using so id by (auto simp: send_ok_def sched_def kept_id)
  have "within M ?b st1"
    by (rule send_only_within[OF W0 so G0 refl]) (use n id in \<open>simp add: fits_def\<close>)
  moreover have "within M ?b (snd (scheduleNext e r' st1))"
    by (rule send_schedule_within[OF W0 so G0]) (use C r' n id in simp_all)
  ultimately show ?thesis using S by (simp add: resend_row_def Let_def)
qed

lemma Resend_within:
  assumes W: "within M base st" and M: "1 \<le> M"
  shows "within M (base(i := base i + M + 1)) (snd (Resend e i st))"
proof -
  let ?b = "base(i := base i + M + 1)" and ?st = "st\<lparr>msInFlight := i # msInFlight st\<rparr>"
  have W': "within M ?b x" if "within M base x" for x by (rule within_mono[OF that]) simp
  have rel: "within M b (releaseInFlight i x) \<longleftrightarrow> within M b x" for b x by (simp add: releaseInFlight_def in_flight_within)
  have "within M ?b (snd (resend_row e row ?st))" if "GetByID i (msStore st) = Some row" for row
    by (rule resend_row_within[OF _ _ M]) (use W that in \<open>simp_all add: in_flight_within\<close>)
  then show ?thesis
    using W'[OF W] by (simp add: Resend_def acquireInFlight_def Let_def rel in_flight_within case_prod_unfold split: option.split)
qed

end
