(* ===== verification/MSG_Runs.thy ===== *)
theory MSG_Runs
  imports MSG_Budget
begin

text \<open>
  Runs of the message service: the step function over the events it reacts to, and what holds
  after any sequence of them. Outstanding messages to one peer never share an identifier; a message
  is submitted to the transmit governor at most as often as the retry limit allows; a closed message
  is not submitted again.
\<close>

section \<open>Runs\<close>

text \<open>The events the service reacts to; a batch of retries meets one environment per row.\<close>

datatype msg_event =
    EvSend send_request
  | EvDue "nat \<Rightarrow> menv"
  | EvTx nat string
  | EvResend nat
  | EvDelete nat
  | EvDeleteThread thread_kind string
  | EvPacket packet
  | EvRead nat bool
  | EvPrefs "unit + mprefs option"

fun msg_step :: "menv \<Rightarrow> msg_event \<Rightarrow> mstate \<Rightarrow> mstate" where
  "msg_step e (EvSend rq) st = snd (SendMessage e rq st)"
| "msg_step e (EvDue evs) st = processDue (evNow e) evs st"
| "msg_step e (EvTx tok kind) st = onTxComplete e tok kind st"
| "msg_step e (EvResend i) st = snd (Resend e i st)"
| "msg_step e (EvDelete i) st = svc_SoftDelete i st"
| "msg_step e (EvDeleteThread kind key) st = snd (SoftDeleteThread kind key st)"
| "msg_step e (EvPacket p) st = snd (classify e p st)"
| "msg_step e (EvRead i b) st = st\<lparr>msStore := (if b then MarkRead i (msStore st) else MarkUnread i (msStore st))\<rparr>"
| "msg_step e (EvPrefs r) st = ReloadPreferences r st"

definition msg_run :: "(menv \<times> msg_event) list \<Rightarrow> mstate \<Rightarrow> mstate" where
  "msg_run evs st = fold (\<lambda>(e, ev). msg_step e ev) evs st"

text \<open>The limit a reload sets, and the number of resends of a row.\<close>

definition limit_of :: "mprefs \<Rightarrow> nat" where
  "limit_of p = unat (if mpRetryMaxAttempts p = 0 then DefaultRetryMaxAttempts else mpRetryMaxAttempts p)"

definition limits_at_most :: "nat \<Rightarrow> msg_event \<Rightarrow> bool" where
    "limits_at_most M ev \<longleftrightarrow>
     (case ev of EvPrefs (Inr q) \<Rightarrow> limit_of (case q of None \<Rightarrow> defaultPrefs | Some p \<Rightarrow> p) \<le> M | _ \<Rightarrow> True)"

definition resends :: "nat \<Rightarrow> (menv \<times> msg_event) list \<Rightarrow> nat" where
  "resends i evs = length (filter (\<lambda>(e, ev). ev = EvResend i) evs)"

text \<open>An empty service.\<close>

definition fresh :: "mstate \<Rightarrow> bool" where
  "fresh st \<longleftrightarrow> stRows (msStore st) = [] \<and> msLog st = []"

lemma maxAttempts_limit: "unat (maxAttempts st) = limit_of (msPrefs st)"
  by (simp add: maxAttempts_def limit_of_def)

lemma SendWithPolicy_prefs: "msPrefs (snd (snd (SendWithPolicy e p r st))) = msPrefs st"
proof -
  have f: "msPrefs (snd (failing x row s)) = msPrefs s" for x row s by (simp add: failing_def Let_def)
  have rf: "msPrefs (snd (snd (sendRF e a r s))) = msPrefs s" for a r s
    by (simp add: sendRF_def Let_def f finalizeRFFailure_def recordPending_def clearPending_def split: sum.split option.split)
  have line: "msPrefs (snd (snd (sendIS e r s))) = msPrefs s" for r s
    by (simp add: sendIS_def Let_def f split: option.split)
  show ?thesis
    by (simp add: SendWithPolicy_def Let_def f rf line sendBoth_def sendRFWithISFallback_def case_prod_unfold)
qed

lemma scheduleNext_prefs: "msPrefs (snd (scheduleNext e r st)) = msPrefs st"
  by (simp add: scheduleNext_def Let_def Kick_def)

lemma SendMessage_prefs: "msPrefs (snd (SendMessage e rq st)) = msPrefs st"
proof -
  have c: "msPrefs (snd (compose n rq st)) = msPrefs st" for n
    by (simp add: compose_def Let_def case_prod_unfold split: option.split sum.split)
  have d: "msPrefs (dispatch_first e p s r st) = msPrefs st" for p s r st
    using SendWithPolicy_prefs[of e p r st]
    by (simp add: dispatch_first_def Let_def case_prod_unfold scheduleNext_prefs split: option.split)
  show ?thesis using c[of "evNow e"] by (auto simp: SendMessage_def d split: sum.split prod.split)
qed

lemma Resend_prefs: "msPrefs (snd (Resend e i st)) = msPrefs st"
proof -
  have "msPrefs (snd (resend_row e r st)) = msPrefs st" for r st
    using SendWithPolicy_prefs[of e "mSendPath r"]
    by (simp add: resend_row_def Let_def case_prod_unfold scheduleNext_prefs)
  then show ?thesis by (simp add: Resend_def acquireInFlight_def releaseInFlight_def Let_def case_prod_unfold split: option.split)
qed

lemma within_same: "within M base st \<Longrightarrow> msStore st' = msStore st \<Longrightarrow> (\<And>i. subs st' i = subs st i) \<Longrightarrow> within M base st'"
  by (simp add: within_def)

text \<open>One step keeps the budget; a resend extends that of its row.\<close>

lemma msg_step_within:
  assumes W: "within M base st" and M: "limit_of (msPrefs st) \<le> M" "1 \<le> M" and L: "limits_at_most M ev"
  shows "within M (case ev of EvResend i \<Rightarrow> base(i := base i + M + 1) | _ \<Rightarrow> base) (msg_step e ev st)
    \<and> limit_of (msPrefs (msg_step e ev st)) \<le> M"
proof (cases ev)
  case (EvSend rq)
  then show ?thesis using SendMessage_within[OF W M(2)] M(1) by (simp add: SendMessage_prefs)
next
  case (EvDue evs)
  then show ?thesis using processDue_within[OF W] M(1) by (simp add: maxAttempts_limit)
next
  case (EvTx tok kind)
  then show ?thesis using quiet_within[OF onTxComplete_quiet W] onTxComplete_quiet[of st e tok kind] M(1) by (simp add: quiet_def)
next
  case (EvResend i)
  then show ?thesis using Resend_within[OF W M(2)] M(1) by (simp add: Resend_prefs)
next
  case (EvDelete i)
  then show ?thesis using quiet_within[OF svc_SoftDelete_quiet W] svc_SoftDelete_quiet[of st i] within_store_ok[OF W] M(1) by (simp add: quiet_def)
next
  case (EvDeleteThread kind key)
  then show ?thesis
    using quiet_within[OF SoftDeleteThread_quiet W] SoftDeleteThread_quiet[of st kind key] within_store_ok[OF W] M(1) by (simp add: quiet_def)
next
  case (EvPacket p)
  then show ?thesis using classify_within[OF W] M(1) by (simp add: classify_prefs)
next
  case (EvRead i b)
  then show ?thesis using quiet_within[OF read_quiet(1) W] quiet_within[OF read_quiet(2) W] M(1) by simp
next
  case (EvPrefs r)
  have "limit_of (msPrefs (ReloadPreferences r st)) \<le> M"
    using L M(1) EvPrefs by (cases r) (auto simp: ReloadPreferences_def Kick_def limits_at_most_def prefs_Load_def split: option.splits)
  moreover have "within M base (ReloadPreferences r st)"
    by (rule within_same[OF W]) (simp_all add: ReloadPreferences_def Kick_def subs_def split: sum.split)
  ultimately show ?thesis using EvPrefs by simp
qed

lemma msg_run_within:
  assumes "within M base st" "limit_of (msPrefs st) \<le> M" "1 \<le> M" "\<forall>(e, ev) \<in> set evs. limits_at_most M ev"
  shows "within M (\<lambda>i. base i + (M + 1) * resends i evs) (msg_run evs st)"
  using assms
proof (induction evs arbitrary: base st)
  case Nil
  then show ?case by (simp add: msg_run_def resends_def)
next
  case (Cons x evs)
  obtain e ev where x: "x = (e, ev)" by force
  let ?b = "case ev of EvResend i \<Rightarrow> base(i := base i + M + 1) | _ \<Rightarrow> base"
  have "within M ?b (msg_step e ev st) \<and> limit_of (msPrefs (msg_step e ev st)) \<le> M"
    by (rule msg_step_within) (use Cons.prems x in auto)
  then have "within M (\<lambda>i. ?b i + (M + 1) * resends i evs) (msg_run evs (msg_step e ev st))"
    using Cons.IH Cons.prems(3,4) by (simp add: x)
  moreover have "(\<lambda>i. ?b i + (M + 1) * resends i evs) = (\<lambda>i. base i + (M + 1) * resends i (x # evs))"
    by (auto simp: fun_eq_iff x resends_def split: msg_event.split)
  ultimately show ?case by (simp add: msg_run_def x)
qed

lemma fresh_within: "fresh st \<Longrightarrow> within M (\<lambda>_. 0) st"
  by (simp add: fresh_def within_def store_ok_def ids_distinct_def scoped_def subs_def)

section \<open>Closed messages\<close>

definition closed :: "nat \<Rightarrow> mstate \<Rightarrow> bool" where
  "closed i st \<longleftrightarrow> (\<exists>m \<in> set (stRows (msStore st)). mId m = i \<and> mAckState m \<noteq> AckNone)"

lemma quiet_closed: "quiet st st' \<Longrightarrow> closed i st \<Longrightarrow> closed i st' \<and> subs st' i = subs st i"
  unfolding quiet_def closed_def by (force simp: calmer_def kept_def)

lemma only_closed:
  assumes "only j st st'" "closed i st"
  shows "closed i st'"
proof -
  obtain m where m: "m \<in> set (stRows (msStore st))" "mId m = i" "mAckState m \<noteq> AckNone" using assms(2) by (auto simp: closed_def)
  obtain f where f: "stRows (msStore st') = map f (stRows (msStore st))" "\<forall>m \<in> set (stRows (msStore st)). mId m = j \<longrightarrow> kept m (f m)"
    "\<forall>m \<in> set (stRows (msStore st)). mId m \<noteq> j \<longrightarrow> f m = m"
    using assms(1) unfolding only_def by (elim conjE touchesE)
  have "kept m (f m)" using f(2,3) m(1) by (cases "mId m = j") auto
  then show ?thesis using f(1) m by (auto simp: closed_def kept_def)
qed

lemma retryOne_closed:
  assumes "store_ok (msStore st)" "closed i st"
  shows "closed i (retryOne e j st) \<and> subs (retryOne e j st) i = subs st i"
proof -
  have one: "only j st (retryOne e j st)" by (rule retryOne_only[OF assms(1)])
  have "subs (retryOne e j st) i = subs st i"
  proof (cases "j = i")
    case True
    have "subs (retry_cur e cur (st\<lparr>msInFlight := fl\<rparr>)) i = subs st i" if "GetByID i (msStore st) = Some cur" for cur fl
    proof -
      have "mAckState cur \<noteq> AckNone"
        using assms(2) GetByID_unique[OF store_ok_distinct[OF assms(1)] that] by (auto simp: closed_def)
      then show ?thesis by (simp add: retry_cur_def) (simp add: subs_def)
    qed
    then show ?thesis using retryOne_cases[of e j st] True by (auto simp: subs_def split: option.splits)
  next
    case False
    then show ?thesis using one by (simp add: only_def)
  qed
  then show ?thesis using only_closed[OF one assms(2)] by simp
qed

lemma only_store_ok: "only i st st' \<Longrightarrow> store_ok (msStore st) \<Longrightarrow> store_ok (msStore st')"
  unfolding only_def using touches_store_ok by blast

lemma retry_rows_closed:
  assumes "store_ok (msStore st)" "closed i st"
  shows "closed i (retry_rows evs k ms st) \<and> subs (retry_rows evs k ms st) i = subs st i"
  using assms
proof (induction ms arbitrary: k st)
  case (Cons m ms)
  have "store_ok (msStore (retryOne (evs k) (mId m) st))" by (rule only_store_ok[OF retryOne_only Cons.prems(1)]) (rule Cons.prems(1))
  then show ?case using Cons.IH[of "retryOne (evs k) (mId m) st" "Suc k"] retryOne_closed[OF Cons.prems, of "evs k" "mId m"] by simp
qed simp

lemma closed_append:
  assumes "stRows (msStore st') = stRows (msStore st) @ rs" "closed i st"
  shows "closed i st'"
  using assms by (auto simp: closed_def)

lemma SendMessage_closed:
  assumes W: "within M base st" and M: "1 \<le> M" and c: "closed i st"
  shows "closed i (snd (SendMessage e rq st)) \<and> subs (snd (SendMessage e rq st)) i = subs st i"
proof (cases "compose (evNow e) rq st")
  case (Pair r st')
  show ?thesis
  proof (cases r)
    case (Inl err)
    then show ?thesis using Pair compose_Inl[of "evNow e" rq st err st'] c by (simp add: SendMessage_def)
  next
    case (Inr row)
    then have co: "compose (evNow e) rq st = (Inr row, st')" using Pair by simp
    note P = compose_within[OF W co]
    have "subs st' (mId row) = 0"
      unfolding P(3) using P(7)[of "stNextId (msStore st)"] within_absent[OF W next_id_absent[OF within_store_ok[OF W]]] by simp
    then have o: "only (mId row) st' (dispatch_first e p s row st')" for p s
      using dispatch_first_within[OF P(1,2) M P(4,5)] by blast
    have ne: "i \<noteq> mId row" using c P(3) within_store_ok[OF W] by (auto simp: closed_def store_ok_def)
    have c': "closed i st'" by (rule closed_append[OF P(11) c])
    show ?thesis using only_closed[OF o c'] o ne P(7)[of i] co by (simp add: SendMessage_def only_def)
  qed
qed

lemma resend_row_only:
  assumes "store_ok (msStore st)" "GetByID i (msStore st) = Some row"
  shows "only i st (snd (resend_row e row st))"
proof -
  let ?r = "row\<lparr>mAttempts := 0, mNextRetryAt := None, mFailure := NoReason\<rparr>"
  let ?st = "ms_update ?r st"
  note C = GetByID_SomeD[OF assms(2)]
  have k: "kept row ?r" by (simp add: kept_def)
  have o1: "only i st ?st"
    by (rule only_save[OF GetByID_covers[OF assms kept_refl] k C(2)]) simp_all
  have cov: "covers ?r (msStore ?st)" using covers_save[of ?r ?r "msStore st"] by simp
  obtain res r' st1 where S: "SendWithPolicy e (mSendPath ?r) ?r ?st = (res, r', st1)" by (metis prod_cases3)
  have so: "send_ok ?r ?st (res, r', st1)" using send_ok_policy[OF cov] S by metis
  have o2: "only i ?st st1" by (rule only_send[OF so]) (use C in simp)
  have "kept ?r r'" using so by (simp add: send_ok_def)
  then have id: "mId r' = i" using kept_id[of ?r r'] C by simp
  show ?thesis
    using only_trans[OF o1 o2] only_trans[OF only_trans[OF o1 o2] only_schedule[OF id]] S
    by (simp add: resend_row_def Let_def)
qed

lemma Resend_only:
  assumes "store_ok (msStore st)"
  shows "only i st (snd (Resend e i st))"
proof -
  have "only i st (snd (resend_row e row (st\<lparr>msInFlight := fl\<rparr>)))" if "GetByID i (msStore st) = Some row" for row fl
    using resend_row_only[of "st\<lparr>msInFlight := fl\<rparr>" i row e] assms that by (simp add: only_in_flight)
  then show ?thesis
    by (simp add: Resend_def acquireInFlight_def releaseInFlight_def Let_def only_in_flight case_prod_unfold split: option.split)
qed

lemma classify_closed:
  assumes "store_ok (msStore st)" "closed i st"
  shows "closed i (snd (classify e pkt st)) \<and> subs (snd (classify e pkt st)) i = subs st i"
proof -
  define P where "P x \<longleftrightarrow> store_ok (msStore x) \<and> closed i x \<and> subs x i = subs st i" for x :: mstate
  have quiet: "P y" if "P x" "quiet x y" for x y
    using that quiet_closed[OF that(2)] quiet_store_ok[OF that(2)] by (simp add: P_def)
  have ok: "store_ok (msStore x)" if "P x" for x using that by (simp add: P_def)
  have "P (snd (classify e pkt st))"
  proof (rule classify_keeps[where P = P])
    show "P (persistInbound e pk src m kind key our x)" if "P x" for x pk src m kind key our
    proof -
      have "closed i (persistInbound e pk src m kind key our x)"
        by (rule closed_append[of _ x]) (use that in \<open>simp_all add: persistInbound_def Insert_rows P_def\<close>)
      moreover have "subs (persistInbound e pk src m kind key our x) i = subs x i" by (simp add: persistInbound_def Insert_rows)
      ultimately show ?thesis using that persistInbound_store_ok by (simp add: P_def)
    qed
    show "P (x\<lparr>msRing := r\<rparr>)" if "P x" for x r using that by (simp add: closed_def subs_def P_def)
    show "P st" using assms by (simp add: P_def)
  qed (blast intro: quiet CheckDedup_quiet SendAutoAck_quiet correlateAck_quiet correlateReplyAck_quiet ok)+
  then show ?thesis by (simp add: P_def)
qed

lemma msg_step_closed:
  assumes W: "within M base st" and M: "1 \<le> M" and c: "closed i st" and ev: "ev \<noteq> EvResend i"
  shows "closed i (msg_step e ev st) \<and> subs (msg_step e ev st) i = subs st i"
proof (cases ev)
  case (EvSend rq)
  then show ?thesis using SendMessage_closed[OF W M c] by simp
next
  case (EvDue evs)
  then show ?thesis using retry_rows_closed[OF within_store_ok[OF W] c] by (simp add: processDue_def)
next
  case (EvTx tok kind)
  then show ?thesis using quiet_closed[OF onTxComplete_quiet c] by simp
next
  case (EvResend j)
  have o: "only j st (snd (Resend e j st))" by (rule Resend_only[OF within_store_ok[OF W]])
  then show ?thesis using EvResend ev only_closed[OF o c] by (auto simp: only_def)
next
  case (EvDelete j)
  then show ?thesis using quiet_closed[OF svc_SoftDelete_quiet[OF within_store_ok[OF W]] c] by simp
next
  case (EvDeleteThread kind key)
  then show ?thesis using quiet_closed[OF SoftDeleteThread_quiet[OF within_store_ok[OF W]] c] by simp
next
  case (EvPacket p)
  then show ?thesis using classify_closed[OF within_store_ok[OF W] c] by simp
next
  case (EvRead j b)
  then show ?thesis using quiet_closed[OF read_quiet(1) c] quiet_closed[OF read_quiet(2) c] by simp
next
  case (EvPrefs r)
  have "quiet st (ReloadPreferences r st)" if "r = Inl ()" using that by (simp add: ReloadPreferences_def)
  then show ?thesis using EvPrefs c by (auto simp: ReloadPreferences_def Kick_def closed_def subs_def split: sum.split)
qed

lemma msg_run_limit:
  assumes "within M base st" "limit_of (msPrefs st) \<le> M" "1 \<le> M" "\<forall>(e, ev) \<in> set evs. limits_at_most M ev"
  shows "limit_of (msPrefs (msg_run evs st)) \<le> M"
  using assms
proof (induction evs arbitrary: base st)
  case (Cons x evs)
  obtain e ev where x: "x = (e, ev)" by force
  have "limits_at_most M ev" using Cons.prems(4) x by auto
  from msg_step_within[OF Cons.prems(1-3) this, of e] Cons.IH Cons.prems(3,4) show ?case by (auto simp: msg_run_def x)
qed (simp add: msg_run_def)

lemma msg_run_closed:
  assumes "within M base st" "limit_of (msPrefs st) \<le> M" "1 \<le> M" "closed i st" "\<forall>(e, ev) \<in> set evs. limits_at_most M ev"
    "\<forall>(e, ev) \<in> set evs. ev \<noteq> EvResend i"
  shows "subs (msg_run evs st) i = subs st i \<and> closed i (msg_run evs st)"
  using assms
proof (induction evs arbitrary: base st)
  case (Cons x evs)
  obtain e ev where x: "x = (e, ev)" by force
  have L: "limits_at_most M ev" "ev \<noteq> EvResend i" using Cons.prems(5,6) x by auto
  note w = msg_step_within[OF Cons.prems(1-3) L(1), of e]
  note c = msg_step_closed[OF Cons.prems(1,3,4) L(2), of e]
  have "subs (msg_run evs (msg_step e ev st)) i = subs (msg_step e ev st) i \<and> closed i (msg_run evs (msg_step e ev st))"
    by (rule Cons.IH[OF conjunct1[OF w] conjunct2[OF w] Cons.prems(3) conjunct1[OF c]]) (use Cons.prems(5,6) in auto)
  then show ?case using c by (simp add: msg_run_def x)
qed (simp add: msg_run_def)

text \<open>A run reloads the preferences finitely often, so its limits are bounded.\<close>

lemma limits_mono: "limits_at_most M ev \<Longrightarrow> M \<le> M' \<Longrightarrow> limits_at_most M' ev"
  by (auto simp: limits_at_most_def split: msg_event.splits sum.splits)

lemma limits_bounded: "\<exists>M \<ge> n. \<forall>(e, ev) \<in> set evs. limits_at_most M ev"
proof (induction evs)
  case (Cons x evs)
  obtain e ev where x: "x = (e, ev)" by force
  obtain M where M: "n \<le> M" "\<forall>(e, ev) \<in> set evs. limits_at_most M ev" using Cons by blast
  define K where "K = (case ev of EvPrefs (Inr q) \<Rightarrow> limit_of (case q of None \<Rightarrow> defaultPrefs | Some p \<Rightarrow> p) | _ \<Rightarrow> 0)"
  have K: "limits_at_most K ev" by (simp add: limits_at_most_def K_def split: msg_event.split sum.split)
  have "\<forall>(e, ev) \<in> set (x # evs). limits_at_most (max K M) ev"
    using M(2) K limits_mono[of K ev "max K M"] limits_mono[of M _ "max K M"] by (auto simp: x)
  then show ?case using M(1) by (intro exI[of _ "max K M"]) simp
qed auto

lemma some_limit:
  obtains M where "1 \<le> M" "limit_of (msPrefs st) \<le> M" "\<forall>(e, ev) \<in> set evs. limits_at_most M ev"
  using limits_bounded[of "max 1 (limit_of (msPrefs st))" evs] by auto

text \<open>A service with nothing in it, an environment that accepts, and a first message.\<close>

definition example_service :: mstate where
  "example_service =
     \<lparr>msStore = \<lparr>stRows = [], stNextId = 1, stCounter = None\<rparr>, msConv = (\<lambda>_. None), msPrefs = defaultPrefs,
      msRing = NewLocalTxRing 0 0, msTxChannel = 1, msPending = (\<lambda>_. None), msNextFrame = 0, msInFlight = [], msKick = False,
      msAutoAckCh = 1, msDedup = (\<lambda>_. None), msDedupWin = 300 * 10 ^ 9, msTactical = {}, msBlocked = {}, msLog = []\<rparr>"

definition example_menv :: "int \<Rightarrow> string \<Rightarrow> menv" where
  "example_menv now our =
     \<lparr>evNow = now, evSubmit = (\<lambda>_ _ _. None), evSendLine = None, evRunning = (\<lambda>_. True), evMode = None, evPasscode = [],
      evOurCall = our, evJitter = (\<lambda>d. d)\<rparr>"

definition example_request :: send_request where
  "example_request = \<lparr>rqTo = ''NW5W-9'', rqText = ''hello'', rqOurCall = ''K0TFU-1'', rqThreadKind = None, rqInvite = None,
     rqPolicy = ''rf_only'', rqChannel = 0\<rparr>"

definition example_run :: "(menv \<times> msg_event) list" where
  "example_run = [(example_menv 0 ''K0TFU-1'', EvSend example_request),
     (example_menv (30 * 10 ^ 9) ''K0TFU-1'', EvDue (\<lambda>_. example_menv (30 * 10 ^ 9) ''K0TFU-1''))]"

definition example_row :: message where
  "example_row = hd (scoped (msStore (msg_run [(example_menv 0 ''K0TFU-1'', EvSend (example_request\<lparr>rqPolicy := ''is_only''\<rparr>))] example_service)))"

lemma example_fresh: "fresh example_service" "limit_of (msPrefs example_service) = 4"
  by code_simp+

lemma example_limits: "\<forall>(e, ev) \<in> set example_run. limits_at_most M ev"
  by (simp add: example_run_def limits_at_most_def)

section \<open>Properties\<close>

text \<open>
  Property C21. Whatever the service is asked to do and whatever it hears, one operation after the other, no two outstanding direct
  messages to one peer have the same identifier, so an acknowledgement names one of them.
\<close>

theorem message_ids_unique:
  assumes "fresh st" "a \<in> set (scoped (msStore (msg_run evs st)))" "b \<in> set (scoped (msStore (msg_run evs st)))"
    "awaiting a" "awaiting b" "mPeerCall a = mPeerCall b" "mMsgID a = mMsgID b" "mMsgID a \<noteq> []"
  shows "mId a = mId b"
proof -
  obtain M where M: "1 \<le> M" "limit_of (msPrefs st) \<le> M" "\<forall>(e, ev) \<in> set evs. limits_at_most M ev" using some_limit by blast
  then have "within M (\<lambda>i. 0 + (M + 1) * resends i evs) (msg_run evs st)"
    by (intro msg_run_within[OF fresh_within[OF assms(1)]])
  then have "ids_distinct (msStore (msg_run evs st))" by (simp add: within_def store_ok_def)
  then show ?thesis by (rule ids_distinctD) (use assms in auto)
qed

theorem message_ids_unique_witness:
  "awaiting example_row \<and> mMsgID example_row = ''001'' \<and> mId example_row = mId example_row"
proof -
  let ?evs = "[(example_menv 0 ''K0TFU-1'', EvSend (example_request\<lparr>rqPolicy := ''is_only''\<rparr>))]"
  have row: "example_row \<in> set (scoped (msStore (msg_run ?evs example_service)))" "awaiting example_row" "mMsgID example_row = ''001''"
    by code_simp+
  then show ?thesis using message_ids_unique[OF example_fresh(1) row(1,1,2,2) refl refl] by simp
qed

text \<open>
  Property C22. In any run of operations that follow one another a message is handed to the transmit governor at most as often as the retry
  limit says; each resend by the operator grants another such number and one more.
\<close>

theorem retry_budget:
  assumes "fresh st" "1 \<le> M" "limit_of (msPrefs st) \<le> M" "\<forall>(e, ev) \<in> set evs. limits_at_most M ev"
  shows "subs (msg_run evs st) i \<le> M + (M + 1) * resends i evs"
proof -
  have W: "within M (\<lambda>i. 0 + (M + 1) * resends i evs) (msg_run evs st)"
    by (rule msg_run_within[OF fresh_within[OF assms(1)] assms(3,2,4)])
  show ?thesis
  proof (cases "\<exists>m \<in> set (stRows (msStore (msg_run evs st))). mId m = i")
    case True
    then obtain m where m: "m \<in> set (stRows (msStore (msg_run evs st)))" "mId m = i" by blast
    then have "fits M ((M + 1) * resends i evs) (subs (msg_run evs st) i) m" using W by (auto simp: within_def)
    then show ?thesis using assms(2) by (auto simp: fits_def)
  next
    case False
    then have "i \<notin> mId ` set (stRows (msStore (msg_run evs st)))" by auto
    then show ?thesis using within_absent[OF W] by simp
  qed
qed

theorem retry_budget_witness:
  "subs (msg_run example_run example_service) 1 = 2 \<and> subs (msg_run example_run example_service) 1 \<le> 4"
proof -
  have "subs (msg_run example_run example_service) 1 \<le> 4 + (4 + 1) * resends 1 example_run"
    by (rule retry_budget[OF example_fresh(1)]) (simp_all add: example_fresh(2) example_limits)
  moreover have "resends 1 example_run = 0" by (simp add: resends_def example_run_def)
  moreover have "subs (msg_run example_run example_service) 1 = 2" by code_simp
  ultimately show ?thesis by simp
qed

text \<open>
  Property C24. In runs of the message service whose operations (a send, a resend, a packet heard, a
  round of the retry loop) run one after the other, a message that has been acknowledged, rejected or given
  up is not handed to the governor again and stays closed, as long as the operator does not resend it. An
  acknowledgement filed inside an operation, between its reading of the row and its writing, is not covered:
  \<open>stale_retry_reopens\<close> of \<^verbatim>\<open>MSG_Expiry\<close> shows it undone.
\<close>

theorem closed_not_retransmitted:
  assumes "fresh st" "closed i (msg_run evs st)" "resends i later = 0"
  shows "subs (msg_run (evs @ later) st) i = subs (msg_run evs st) i \<and> closed i (msg_run (evs @ later) st)"
proof -
  obtain M where M: "1 \<le> M" "limit_of (msPrefs st) \<le> M" "\<forall>(e, ev) \<in> set (evs @ later). limits_at_most M ev"
    using some_limit by blast
  then have L: "\<forall>(e, ev) \<in> set evs. limits_at_most M ev" "\<forall>(e, ev) \<in> set later. limits_at_most M ev" by auto
  note W = msg_run_within[OF fresh_within[OF assms(1)] M(2,1) L(1)] and P = msg_run_limit[OF fresh_within[OF assms(1)] M(2,1) L(1)]
  have "\<forall>(e, ev) \<in> set later. ev \<noteq> EvResend i" using assms(3) by (auto simp: resends_def filter_empty_conv)
  then show ?thesis using msg_run_closed[OF W P M(1) assms(2) L(2)] by (simp add: msg_run_def)
qed

text \<open>The message is composed for a tactical call and sent over APRS-IS, which closes it; then it comes due.\<close>

theorem closed_not_retransmitted_witness:
  "closed 1 (msg_run [(example_menv 0 ''K0TFU-1''\<lparr>evSendLine := Some (\<lambda>_. True), evPasscode := ''12345''\<rparr>,
        EvSend (example_request\<lparr>rqThreadKind := Some Tactical, rqPolicy := ''is_only''\<rparr>))] example_service)
   \<and> subs (msg_run ([(example_menv 0 ''K0TFU-1''\<lparr>evSendLine := Some (\<lambda>_. True), evPasscode := ''12345''\<rparr>,
        EvSend (example_request\<lparr>rqThreadKind := Some Tactical, rqPolicy := ''is_only''\<rparr>))] @ tl example_run) example_service) 1 = 0"
proof -
  let ?evs = "[(example_menv 0 ''K0TFU-1''\<lparr>evSendLine := Some (\<lambda>_. True), evPasscode := ''12345''\<rparr>,
        EvSend (example_request\<lparr>rqThreadKind := Some Tactical, rqPolicy := ''is_only''\<rparr>))]"
  have c: "closed 1 (msg_run ?evs example_service)" "subs (msg_run ?evs example_service) 1 = 0" by code_simp+
  have r: "resends 1 (tl example_run) = 0" by (simp add: resends_def example_run_def)
  show ?thesis using closed_not_retransmitted[OF example_fresh(1) c(1) r] c by simp
qed

end
