(* ===== verification/MSG_Expiry.thy ===== *)
theory MSG_Expiry
  imports MSG_Runs
begin

text \<open>
  The retry loop in time: it never sleeps past the next retry, a message that is not acknowledged is
  given up after a bounded number of retries, and two ways in which the loop goes wrong: a stopped
  governor keeps it awake, and a row saved from a stale copy loses an acknowledgement.
\<close>

section \<open>Sleeping\<close>

lemma wake_scan_bounds:
  assumes "\<forall>d. soonest = Some d \<longrightarrow> 0 \<le> d"
  shows "0 \<le> wake_scan now ms soonest \<and> wake_scan now ms soonest \<le> idleTick
    \<and> (\<forall>d. soonest = Some d \<longrightarrow> wake_scan now ms soonest \<le> d)
    \<and> (\<forall>m \<in> set ms. \<forall>t. mNextRetryAt m = Some t \<longrightarrow> wake_scan now ms soonest \<le> max 0 (t - now))"
  using assms
proof (induction ms arbitrary: soonest)
  case (Cons m ms)
  show ?case
  proof (cases "mNextRetryAt m")
    case None
    then show ?thesis using Cons.IH[OF Cons.prems] by simp
  next
    case (Some t)
    show ?thesis
    proof (cases "t - now < 0")
      case True
      then show ?thesis using Some Cons.prems by (auto simp: idleTick_def)
    next
      case False
      let ?s = "case soonest of None \<Rightarrow> Some (t - now) | Some s \<Rightarrow> Some (if t - now < s then t - now else s)"
      have "\<forall>d. ?s = Some d \<longrightarrow> 0 \<le> d" using Cons.prems False by (auto split: option.splits)
      note IH = Cons.IH[OF this]
      have eq: "wake_scan now (m # ms) soonest = wake_scan now ms ?s" using Some False by (simp add: Let_def)
      have "wake_scan now ms ?s \<le> t - now" "\<forall>d. soonest = Some d \<longrightarrow> wake_scan now ms ?s \<le> d"
        using IH by (auto split: option.splits if_splits)
      then show ?thesis unfolding eq using IH Some by fastforce
    qed
  qed
qed (auto simp: idleTick_def split: option.splits)

text \<open>
  The retry loop sleeps at most a minute and never past the time at which an outstanding
  message is due.
\<close>

theorem nextWake_in_time:
  "0 \<le> nextWake now st \<and> nextWake now st \<le> idleTick
   \<and> list_all (\<lambda>m. case mNextRetryAt m of None \<Rightarrow> True | Some t \<Rightarrow> nextWake now st \<le> max 0 (t - now))
       (ListAwaitingAckOnStartup (msStore st))"
  using wake_scan_bounds[of None now "ListAwaitingAckOnStartup (msStore st)"]
  by (auto simp: nextWake_def list_all_iff split: option.split)

section \<open>Giving up\<close>

text \<open>An environment in which the governor neither is full nor has stopped.\<close>

definition admits :: "menv \<Rightarrow> bool" where
  "admits e \<longleftrightarrow> (\<forall>ch f s. evSubmit e ch f s \<noteq> Some ErrQueueFull \<and> evSubmit e ch f s \<noteq> Some ErrStopped)"

lemma SendWithPolicy_err:
  assumes "srErr (fst (SendWithPolicy e p r st)) = Some (ErrSubmit x)"
  shows "\<exists>ch f s. evSubmit e ch f s = Some x"
proof -
  have rf: "\<exists>ch f s. evSubmit e ch f s = Some x" if "srErr (fst (sendRF e a r st)) = Some (ErrSubmit x)" for a
    using that by (auto simp: sendRF_def finalizeRFFailure_def Let_def split: sum.splits option.splits if_splits)
  have line: "srErr (fst (sendIS e r st)) \<noteq> Some (ErrSubmit x)" for r st
    by (auto simp: sendIS_def Let_def split: option.splits)
  show ?thesis
    using assms rf line
    by (auto simp: SendWithPolicy_def sendBoth_def sendRFWithISFallback_def Let_def case_prod_unfold split: if_splits)
qed

text \<open>Row \<open>i\<close> waits for an acknowledgement after \<open>a\<close> attempts and is due at \<open>t\<close> at the latest.\<close>

definition waiting :: "nat \<Rightarrow> nat \<Rightarrow> int \<Rightarrow> mstate \<Rightarrow> bool" where
  "waiting i a t st \<longleftrightarrow> (\<exists>m. GetByID i (msStore st) = Some m \<and> awaiting m \<and> a \<le> unat (mAttempts m)
     \<and> (\<exists>u \<le> t. mNextRetryAt m = Some u))"

definition idle :: "mstate \<Rightarrow> bool" where
  "idle st \<longleftrightarrow> store_ok (msStore st) \<and> msInFlight st = []"

lemma retry_cur_in_flight: 
  assumes "store_ok (msStore st)" "GetByID i (msStore st) = Some cur"
  shows "msInFlight (retry_cur e cur st) = msInFlight st"
proof -
  let ?r = "cur\<lparr>mAttempts := mAttempts cur + 1\<rparr>"
  obtain res r' st1 where S: "SendWithPolicy e (mSendPath ?r) ?r st = (res, r', st1)" by (metis prod_cases3)
  have "send_ok ?r st (res, r', st1)"
    using send_ok_policy[OF GetByID_covers[OF assms, of ?r], of e "mSendPath ?r"] S by simp
  then have "msInFlight st1 = msInFlight st" by (simp add: send_ok_def)
  then show ?thesis using S
    by (simp add: retry_cur_def Let_def retry_fail_def ms_update_def publish_def scheduleNext_def Kick_def split: option.split)
qed

lemma retryOne_idle:
  assumes "idle st"
  shows "idle (retryOne e i st) \<and> msPrefs (retryOne e i st) = msPrefs st"
proof -
  have ok: "store_ok (msStore st)" and fl: "msInFlight st = []" using assms by (auto simp: idle_def)
  have "msInFlight (retry_cur e cur (st\<lparr>msInFlight := [i]\<rparr>)) = [i]" if "GetByID i (msStore st) = Some cur" for cur
    using retry_cur_in_flight[of "st\<lparr>msInFlight := [i]\<rparr>" i cur e] ok that by simp
  then have "msInFlight (retryOne e i st) = []"
    using fl by (simp add: retryOne_def acquireInFlight_def releaseInFlight_def split: option.split)
  then show ?thesis
    using only_store_ok[OF retryOne_only[OF ok] ok] retryOne_only[OF ok, of i e] by (simp add: idle_def only_def)
qed

lemma saved_closed:
  assumes "m \<in> set (stRows s)" "mId m = mId x" "mAckState x \<noteq> AckNone" "msStore st' = save_row x s"
  shows "closed (mId x) st'"
  using assms by (force simp: closed_def save_row_def)

lemma retry_cur_progress:
  assumes ok: "store_ok (msStore st)" and G: "GetByID i (msStore st) = Some cur" and aw: "awaiting cur" and ad: "admits e"
  shows "closed i (retry_cur e cur st) \<or> (mAttempts cur < maxAttempts st \<and>
    (\<exists>m. GetByID i (msStore (retry_cur e cur st)) = Some m \<and> awaiting m \<and> unat (mAttempts m) = unat (mAttempts cur) + 1
      \<and> (\<exists>n. mNextRetryAt m = Some (evNow e + backoffFor e n))))"
proof -
  note C = GetByID_SomeD[OF G]
  have none: "mAckState cur = AckNone" using aw by (simp add: awaiting_def)
  show ?thesis
  proof (cases "mAttempts cur \<ge> maxAttempts st")
    case True
    have "closed (mId cur) (retry_fail e BudgetExhausted cur st)"
      using saved_closed[OF C(1), of "cur\<lparr>mFailure := BudgetExhausted, mNextRetryAt := None, mAckState := AckRejected, mAckedAt := Some (evNow e)\<rparr>"
          "retry_fail e BudgetExhausted cur st"] by (simp add: retry_fail_def Let_def)
    then show ?thesis using True C none by (simp add: retry_cur_def)
  next
    case False
    let ?r = "cur\<lparr>mAttempts := mAttempts cur + 1\<rparr>"
    obtain res r' st1 where S: "SendWithPolicy e (mSendPath ?r) ?r st = (res, r', st1)" by (metis prod_cases3)
    have so: "send_ok ?r st (res, r', st1)"
      using send_ok_policy[OF GetByID_covers[OF ok G, of ?r], of e "mSendPath ?r"] S by simp
    note A = so[unfolded send_ok_def Let_def prod.case]
    have err: "srErr res \<noteq> Some (ErrSubmit ErrQueueFull)" "srErr res \<noteq> Some (ErrSubmit ErrStopped)"
      using SendWithPolicy_err[of e "mSendPath ?r" ?r st] S ad by (auto simp: admits_def)
    have r': "mAttempts r' = mAttempts cur + 1" "mId r' = i" using A C kept_id[of ?r r'] by (auto simp: sched_def)
    have inc: "unat (mAttempts cur + 1) = unat (mAttempts cur) + 1" using False by (intro unat_inc[of _ "maxAttempts st"]) simp
    have "touches i (from_either ?r) (msStore st) (msStore st1)" using A C by simp
    then obtain f where f: "stRows (msStore st1) = map f (stRows (msStore st))" "\<forall>m \<in> set (stRows (msStore st)). mId m = i \<longrightarrow> from_either ?r m (f m)"
      by (elim touchesE)
    have m1: "f cur \<in> set (stRows (msStore st1))" "from_either ?r cur (f cur)" using f C by auto
    then have k: "kept cur (f cur)" "\<not> mDeleted (f cur)" using C by (auto simp: from_either_def sched_def)
    have id: "mId (f cur) = i" using k(1) C by (simp add: kept_def)
    have closed: "closed i (retry_fail e SendError r' st1)"
      using saved_closed[OF m1(1), of "r'\<lparr>mFailure := SendError, mNextRetryAt := None, mAckState := AckRejected, mAckedAt := Some (evNow e)\<rparr>"
          "retry_fail e SendError r' st1"] id r' by (simp add: retry_fail_def Let_def)
    let ?s = "snd (scheduleNext e r' st1)"
    have ok1: "store_ok (msStore st1)" by (rule touches_store_ok[OF _ ok]) (use send_touches[OF so] in blast)
    have ok2: "store_ok (msStore ?s)" by (rule only_store_ok[OF only_schedule ok1]) simp
    define m2 where "m2 = (f cur)\<lparr>mAttempts := mAttempts r', mNextRetryAt := Some (evNow e + backoffFor e (unat (mAttempts r')))\<rparr>"
    have m2: "m2 \<in> set (stRows (msStore ?s))"
      using m1(1) id k(2) r' unfolding m2_def by (force simp: scheduleNext_def Let_def Kick_def UpdateRetrySchedule_def update_where_def)
    have g: "GetByID i (msStore ?s) = Some m2"
      using GetByID_row[OF store_ok_distinct[OF ok2] m2] id k(2) by (simp add: m2_def)
    have sched: "closed i ?s \<or> (mAttempts cur < maxAttempts st \<and>
        (\<exists>m. GetByID i (msStore ?s) = Some m \<and> awaiting m \<and> unat (mAttempts m) = unat (mAttempts cur) + 1
          \<and> (\<exists>n. mNextRetryAt m = Some (evNow e + backoffFor e n))))"
    proof (cases "mAckState m2 = AckNone")
      case True
      then have "awaiting m2" using k(1) aw by (simp add: m2_def awaiting_def kept_def)
      then show ?thesis using g False inc r' by (auto simp: m2_def not_le)
    next
      case False
      have "closed i ?s" unfolding closed_def using m2 False id by (intro bexI[of _ m2]) (simp_all add: m2_def)
      then show ?thesis by blast
    qed
    show ?thesis
      using S err closed sched none C(3) False by (simp add: retry_cur_def Let_def split: option.split)
  qed
qed

lemma retryOne_progress:
  assumes I: "idle st" and W: "waiting i a t st" and ad: "admits e" and D: "\<And>n. backoffFor e n \<le> D"
  shows "closed i (retryOne e i st) \<or> (a < unat (maxAttempts st) \<and> waiting i (a + 1) (evNow e + D) (retryOne e i st))"
proof -
  obtain cur where G: "GetByID i (msStore st) = Some cur" and cur: "awaiting cur" "a \<le> unat (mAttempts cur)"
    using W by (auto simp: waiting_def)
  let ?st = "st\<lparr>msInFlight := [i]\<rparr>"
  have eq: "retryOne e i st = (retry_cur e cur ?st)\<lparr>msInFlight := removeAll i (msInFlight (retry_cur e cur ?st))\<rparr>"
    using I G by (simp add: retryOne_def acquireInFlight_def releaseInFlight_def idle_def)
  have ok: "store_ok (msStore ?st)" using I by (simp add: idle_def)
  have "closed i (retry_cur e cur ?st) \<or> (mAttempts cur < maxAttempts ?st \<and>
    (\<exists>m. GetByID i (msStore (retry_cur e cur ?st)) = Some m \<and> awaiting m \<and> unat (mAttempts m) = unat (mAttempts cur) + 1
      \<and> (\<exists>n. mNextRetryAt m = Some (evNow e + backoffFor e n))))"
    by (rule retry_cur_progress[OF ok _ cur(1) ad]) (use G in simp)
  then show ?thesis
  proof
    assume "closed i (retry_cur e cur ?st)"
    then show ?thesis by (simp add: eq closed_def)
  next
    assume *: "mAttempts cur < maxAttempts ?st \<and>
      (\<exists>m. GetByID i (msStore (retry_cur e cur ?st)) = Some m \<and> awaiting m \<and> unat (mAttempts m) = unat (mAttempts cur) + 1
        \<and> (\<exists>n. mNextRetryAt m = Some (evNow e + backoffFor e n)))"
    then have "a < unat (maxAttempts st)" using cur(2) maxAttempts_prefs[of ?st st] by (simp add: word_less_nat_alt)
    moreover have "waiting i (a + 1) (evNow e + D) (retryOne e i st)"
      using * cur(2) D unfolding eq waiting_def by fastforce
    ultimately show ?thesis by simp
  qed
qed

text \<open>A batch of retries: the retries of other rows leave row \<open>i\<close> waiting.\<close>

lemma retryOne_waiting:
  assumes "idle st" "waiting i a t st" "j \<noteq> i"
  shows "waiting i a t (retryOne e j st)"
proof -
  have ok: "store_ok (msStore st)" using assms(1) by (simp add: idle_def)
  obtain m where m: "GetByID i (msStore st) = Some m" "awaiting m" "a \<le> unat (mAttempts m)" "\<exists>u \<le> t. mNextRetryAt m = Some u"
    using assms(2) unfolding waiting_def by blast
  note C = GetByID_SomeD[OF m(1)]
  have one: "only j st (retryOne e j st)" by (rule retryOne_only[OF ok])
  have "m \<in> set (stRows (msStore (retryOne e j st)))"
    using touches_other[of j kept "msStore st" "msStore (retryOne e j st)" m] one C(1,2) assms(3) by (auto simp: only_def)
  then have "GetByID i (msStore (retryOne e j st)) = Some m"
    using GetByID_row[OF store_ok_distinct[OF only_store_ok[OF one ok]], of m] C by simp
  then show ?thesis using m unfolding waiting_def by blast
qed

lemma retry_rows_idle: "idle st \<Longrightarrow> idle (retry_rows evs k ms st) \<and> msPrefs (retry_rows evs k ms st) = msPrefs st"
proof (induction ms arbitrary: k st)
  case (Cons m ms)
  show ?case using Cons.IH[of "retryOne (evs k) (mId m) st" "Suc k"] retryOne_idle[OF Cons.prems, of "evs k" "mId m"] by simp
qed simp

lemma retry_rows_waiting:
  "idle st \<Longrightarrow> waiting i a t st \<Longrightarrow> i \<notin> mId ` set ms \<Longrightarrow> waiting i a t (retry_rows evs k ms st)"
proof (induction ms arbitrary: k st)
  case (Cons m ms)
  have "waiting i a t (retryOne (evs k) (mId m) st)" by (rule retryOne_waiting) (use Cons.prems in auto)
  then show ?case using Cons.IH[of "retryOne (evs k) (mId m) st" "Suc k"] retryOne_idle[OF Cons.prems(1), of "evs k" "mId m"] Cons.prems(3) by simp
qed simp

lemma idle_ok: "idle st \<Longrightarrow> store_ok (msStore st)"
  by (simp add: idle_def)

lemma retry_rows_progress:
  assumes "idle st" "waiting i a t st" "i \<in> mId ` set ms" "distinct (map mId ms)" "\<And>k. admits (evs k)" "\<And>k n. backoffFor (evs k) n \<le> D"
    "\<And>k. evNow (evs k) = now"
  shows "closed i (retry_rows evs k ms st) \<or> (a < unat (maxAttempts st) \<and> waiting i (a + 1) (now + D) (retry_rows evs k ms st))"
  using assms(1-4)
proof (induction ms arbitrary: k st)
  case (Cons m ms)
  let ?s = "retryOne (evs k) (mId m) st"
  note I = retryOne_idle[OF Cons.prems(1), of "evs k" "mId m"]
  show ?case
  proof (cases "mId m = i")
    case True
    have "closed i ?s \<or> (a < unat (maxAttempts st) \<and> waiting i (a + 1) (now + D) ?s)"
      using retryOne_progress[OF Cons.prems(1,2) assms(5,6), of k] True assms(7) by simp
    then show ?thesis
    proof
      assume "closed i ?s"
      then show ?thesis using retry_rows_closed[OF idle_ok[OF conjunct1[OF I]]] by simp
    next
      assume w: "a < unat (maxAttempts st) \<and> waiting i (a + 1) (now + D) ?s"
      have "i \<notin> mId ` set ms" using Cons.prems(4) True by auto
      then show ?thesis using retry_rows_waiting[OF conjunct1[OF I] conjunct2[OF w]] w by simp
    qed
  next
    case False
    have "waiting i a t ?s" by (rule retryOne_waiting[OF Cons.prems(1,2) False])
    then have "closed i (retry_rows evs (Suc k) ms ?s) \<or> (a < unat (maxAttempts ?s) \<and> waiting i (a + 1) (now + D) (retry_rows evs (Suc k) ms ?s))"
      by (rule Cons.IH[OF conjunct1[OF I]]) (use Cons.prems False in auto)
    then show ?thesis using maxAttempts_prefs[OF conjunct2[OF I]] by simp
  qed
qed simp

definition tick :: "menv \<Rightarrow> mstate \<Rightarrow> mstate" where
  "tick e st = processDue (evNow e) (\<lambda>_. e) st"

lemma tick_progress:
  assumes "idle st" "waiting i a t st" "t \<le> evNow e" "admits e" "\<And>n. backoffFor e n \<le> D"
  shows "closed i (tick e st) \<or> (a < unat (maxAttempts st) \<and> waiting i (a + 1) (evNow e + D) (tick e st))"
proof -
  obtain m where m: "GetByID i (msStore st) = Some m" "awaiting m" "\<exists>u \<le> t. mNextRetryAt m = Some u" using assms(2) by (auto simp: waiting_def)
  have "m \<in> set (ListRetryDue (evNow e) (msStore st))"
    using m(2,3) assms(3) GetByID_SomeD[OF m(1)] by (auto simp: ListRetryDue_def due_at_def)
  then have "i \<in> mId ` set (ListRetryDue (evNow e) (msStore st))" using GetByID_SomeD(2)[OF m(1)] by force
  then show ?thesis unfolding tick_def processDue_def
    using ListRetryDue_props(1)[OF idle_ok[OF assms(1)]]
    by (intro retry_rows_progress[OF assms(1,2)]) (use assms(4,5) in auto)
qed

lemma tick_closed: "idle st \<Longrightarrow> closed i st \<Longrightarrow> closed i (tick e st)"
  unfolding tick_def processDue_def using retry_rows_closed idle_ok by blast

lemma tick_idle: "idle st \<Longrightarrow> idle (tick e st) \<and> msPrefs (tick e st) = msPrefs st"
  unfolding tick_def processDue_def using retry_rows_idle by blast

text \<open>Wake-ups that are each at least \<open>D\<close> after the one before, the first at \<open>t\<close> or later.\<close>

fun spaced :: "int \<Rightarrow> int \<Rightarrow> menv list \<Rightarrow> bool" where
  "spaced D t [] = True"
| "spaced D t (e # es) \<longleftrightarrow> t \<le> evNow e \<and> evJitter e (30 * 10 ^ 9) \<le> D \<and> spaced D (evNow e + D) es"

lemma backoff_value: "backoffFor e n = evJitter e (30 * 10 ^ 9)"
  by (simp add: backoffFor_def RetryBackoff_def Let_def)

text \<open>
  Property C23. A direct message that is enrolled and not acknowledged is given up: once the
  retry loop has woken more often than the retry limit, at times that leave the delays between
  retries, with nothing in flight and a governor that is neither full nor stopped at any of them,
  the message is closed. (A stopped governor can keep it open for ever: \<open>stopped_governor_spins\<close>.)
\<close>

theorem unacknowledged_given_up:
  assumes "store_ok (msStore st)" "msInFlight st = []" "GetByID i (msStore st) = Some m" "awaiting m" "mNextRetryAt m = Some t"
    "spaced D t es" "list_all admits es" "unat (maxAttempts st) < length es"
  shows "closed i (fold tick es st)"
proof -
  have "closed i (fold tick es st)"
    if "idle st" "waiting i a t st" "spaced D t es" "list_all admits es" "unat (maxAttempts st) < a + length es" "a \<le> unat (maxAttempts st)" for a t st
    using that
  proof (induction es arbitrary: a t st)
    case (Cons e es)
    have D: "\<And>n. backoffFor e n \<le> D" using Cons.prems(3) by (simp add: backoff_value)
    note I = tick_idle[OF Cons.prems(1), of e]
    have M: "maxAttempts (tick e st) = maxAttempts st" by (rule maxAttempts_prefs) (use I in blast)
    consider "closed i (tick e st)" | "a < unat (maxAttempts st)" "waiting i (a + 1) (evNow e + D) (tick e st)"
      using tick_progress[OF Cons.prems(1,2) _ _ D] Cons.prems(3,4) by auto
    then show ?case
    proof cases
      case 1
      have "closed i (fold tick es s)" if "idle s" "closed i s" for s
        using that
      proof (induction es arbitrary: s)
        case (Cons e es)
        show ?case using Cons.IH[of "tick e s"] tick_closed[OF Cons.prems] tick_idle[OF Cons.prems(1), of e] by simp
      qed simp
      then show ?thesis using 1 I by simp
    next
      case 2
      have "closed i (fold tick es (tick e st))"
        by (rule Cons.IH[OF conjunct1[OF I] 2(2)]) (use Cons.prems 2(1) M in auto)
      then show ?thesis by simp
    qed
  qed simp
  from this[of st 0 t] show ?thesis using assms by (auto simp: idle_def waiting_def)
qed

text \<open>The example message of the library, and five wake-ups half a minute apart.\<close>

definition example_outstanding :: mstate where
  "example_outstanding = msg_run [(example_menv 0 ''K0TFU-1'', EvSend example_request)] example_service"

definition example_wakes :: "menv list" where
  "example_wakes = map (\<lambda>k. example_menv (k * 30 * 10 ^ 9) ''K0TFU-1'') [1, 2, 3, 4, 5]"

theorem unacknowledged_given_up_witness:
  "closed 1 (fold tick example_wakes example_outstanding)"
proof -
  have row: "case GetByID 1 (msStore example_outstanding) of None \<Rightarrow> False | Some m \<Rightarrow> awaiting m \<and> mNextRetryAt m = Some (30 * 10 ^ 9)"
    and fl: "msInFlight example_outstanding = []" and mx: "unat (maxAttempts example_outstanding) = 4"
    by code_simp+
  then obtain m where m: "GetByID 1 (msStore example_outstanding) = Some m" "awaiting m" "mNextRetryAt m = Some (30 * 10 ^ 9)"
    by (auto split: option.splits)
  have "within 4 (\<lambda>i. 0 + (4 + 1) * resends i [(example_menv 0 ''K0TFU-1'', EvSend example_request)]) example_outstanding"
    unfolding example_outstanding_def
    by (rule msg_run_within[OF fresh_within[OF example_fresh(1)]]) (simp_all add: example_fresh(2) limits_at_most_def)
  then have ok: "store_ok (msStore example_outstanding)" by (simp add: within_def)
  have "spaced (30 * 10 ^ 9) (30 * 10 ^ 9) example_wakes" "list_all admits example_wakes"
    by (simp_all add: example_wakes_def example_menv_def admits_def)
  then show ?thesis
    by (rule unacknowledged_given_up[OF ok fl m]) (simp add: mx example_wakes_def)
qed

section \<open>Two ways to go wrong\<close>

text \<open>A direct message that is due at \<open>0\<close>, at a station that transmits on the radio only.\<close>

definition example_due :: mstate where
  "example_due = example_service\<lparr>msPrefs := defaultPrefs\<lparr>mpFallbackPolicy := ''rf_only'', mpDefaultPath := []\<rparr>,
     msStore := \<lparr>stRows = [example_row\<lparr>mAttempts := 1, mNextRetryAt := Some 0\<rparr>], stNextId = 2, stCounter = Some 2\<rparr>\<rparr>"

definition refusing :: "gov_err \<Rightarrow> int \<Rightarrow> menv" where
  "refusing err now = (example_menv now ''K0TFU-1'')\<lparr>evSubmit := (\<lambda>_ _ _. Some err)\<rparr>"

definition ack_of :: "string \<Rightarrow> aprs_message" where
  "ack_of i = \<lparr>amAddressee = ''K0TFU-1'', amText = [], amMessageID = i, amReplyAck = [], amHasReplyAck = False, amIsAck = True,
     amIsRej = False, amIsBulletin = False, amIsNWS = False\<rparr>"

text \<open>
  When the governor has stopped, a retry puts the attempt back and leaves the row due, so the loop does not sleep at all
  before it tries again.
\<close>

lemma stopped_governor_spins:
  "nextWake 10 (tick (refusing ErrStopped 10) example_due) = 0"
  "map mAttempts (stRows (msStore (tick (refusing ErrStopped 10) example_due))) = [1]"
  by code_simp+

text \<open>
  The row that a retry saves when the queue is full is its copy from before the submission: an acknowledgement that
  came in between is undone, and the message is sent again.
\<close>

lemma stale_retry_reopens:
  "closed 1 (correlateAck (example_menv 5 ''K0TFU-1'') ''NW5W-9'' (ack_of ''001'') example_due)"
  "\<not> closed 1 (retry_cur (refusing ErrQueueFull 10) (hd (stRows (msStore example_due)))
     (correlateAck (example_menv 5 ''K0TFU-1'') ''NW5W-9'' (ack_of ''001'') example_due))"
  by code_simp+

end
