(* ===== verification/MSG_Exchange.thy ===== *)
theory MSG_Exchange
  imports MSG_Runs
begin

text \<open>
  What two stations see of each other: acknowledgements are never answered, so two stations cannot
  acknowledge each other forever; every copy of a direct message is answered but only the first
  is filed; and a message that reaches its addressee comes back as an acknowledgement that
  closes the sender's row.
\<close>

section \<open>What an operation lets out\<close>

definition is_event :: "meffect \<Rightarrow> bool" where
  "is_event x \<longleftrightarrow> (case x of Published _ _ _ _ \<Rightarrow> True | _ \<Rightarrow> False)"

definition silent :: "mstate \<Rightarrow> mstate \<Rightarrow> bool" where
  "silent st st' \<longleftrightarrow> (\<exists>new. msLog st' = msLog st @ new \<and> list_all is_event new)"

lemma silent_refl [simp, intro]: "silent st st"
  by (simp add: silent_def)

lemma silent_log [simp]: "msLog st' = msLog st \<Longrightarrow> silent st st'"
  by (simp add: silent_def)

lemma silent_trans: "silent a b \<Longrightarrow> silent b c \<Longrightarrow> silent a c"
  by (auto simp: silent_def)

lemma silent_publish [simp]: "silent st (publish t m st)"
  by (simp add: silent_def publish_def is_event_def)

lemma silent_fold: "(\<And>x s. silent s (g x s)) \<Longrightarrow> silent st (fold g xs st)"
proof (induction xs arbitrary: st)
  case (Cons x xs)
  show ?case using silent_trans[OF Cons.prems[of st x] Cons.IH[OF Cons.prems]] by simp
qed simp

lemma publish_update_silent: "silent st (publish t m (ms_update r st))"
  by (rule silent_trans[OF _ silent_publish]) (simp add: ms_update_def)

lemma close_row_silent: "silent st (close_row e a t r st)"
  using publish_update_silent by (simp add: close_row_def Let_def)

lemma correlateAck_silent: "silent st (correlateAck e peer m st)"
  using silent_fold[of "close_row e a t" for a t, OF close_row_silent] by (simp add: correlateAck_def Let_def)

lemma reply_row_silent: "silent st (reply_row e peer r st)"
  using publish_update_silent close_row_silent by (simp add: reply_row_def Let_def split: thread_kind.split)

lemma correlateReplyAck_silent: "silent st (correlateReplyAck e peer i st)"
  using silent_fold[of "reply_row e peer", OF reply_row_silent] by (simp add: correlateReplyAck_def Let_def del: fold_append)

lemma persistInbound_silent: "silent st (persistInbound e pkt source m kind key our st)"
  unfolding persistInbound_def Let_def case_prod_unfold
  by (rule silent_trans[OF _ silent_publish]) simp

lemma CheckDedup_silent: "silent st (snd (CheckDedup now c i b st))"
  by (simp add: CheckDedup_def check_key_def Let_def)

text \<open>
  Nothing is transmitted in answer to an acknowledgement or a rejection, whoever sent it and however it is
  addressed: classifying it lets out events only.
\<close>

theorem acks_not_answered:
  assumes "unwrapThirdParty p = (source, Some m)" "amIsAck m \<or> amIsRej m"
  shows "silent st (snd (classify e p st))"
proof -
  have "silent s (snd (accept_message e (data p) src m kind key s))" for s src kind key
  proof -
    define s1 where "s1 = snd (if amMessageID m \<noteq> [] then CheckDedup (evNow e) src (amMessageID m) (amText m) s else (False, s))"
    define h where "h = fst (if amMessageID m \<noteq> [] then CheckDedup (evNow e) src (amMessageID m) (amText m) s else (False, s))"
    define s2 where "s2 = (if h then s1 else persistInbound e (data p) src m kind key (baseCall (norm_call (evOurCall e))) s1)"
    define s3 where "s3 = (if amHasReplyAck m \<and> amReplyAck m \<noteq> [] then correlateReplyAck e src (amReplyAck m) s2 else s2)"
    have "snd (accept_message e (data p) src m kind key s) = s3"
      using assms(2) by (auto simp: accept_message_def Let_def case_prod_unfold s1_def s2_def s3_def h_def)
    moreover have "silent s s1" using CheckDedup_silent by (simp add: s1_def)
    moreover have "silent s1 s2" using persistInbound_silent by (simp add: s2_def)
    moreover have "silent s2 s3" using correlateReplyAck_silent by (simp add: s3_def)
    ultimately show ?thesis using silent_trans by metis
  qed
  note accept = this
  define s1 where "s1 = st\<lparr>msRing := snd (ring_Contains (evNow e) (norm_call source) (amMessageID m) (msRing st))\<rparr>"
  have "silent st s1" by (simp add: s1_def)
  then have "silent st (snd (accept_message e (data p) (norm_call source) m kind key s1))"
    "silent st (correlateAck e (norm_call source) m s1)" for kind key
    using accept correlateAck_silent silent_trans by blast+
  then show ?thesis using assms(1) \<open>silent st s1\<close>
    by (auto simp: classify_def Let_def case_prod_unfold s1_def[symmetric] split: option.split)
qed

section \<open>Copies of a message\<close>

text \<open>What classification reads of the state, and what it lets out.\<close>

definition ack_count :: "frame \<Rightarrow> mstate \<Rightarrow> nat" where
  "ack_count f st = length (filter (\<lambda>x. case x of AckSubmitted _ g \<Rightarrow> g = f | _ \<Rightarrow> False) (msLog st))"

definition row_count :: "mstate \<Rightarrow> nat" where
  "row_count st = length (stRows (msStore st))"

definition face :: "mstate \<Rightarrow> tx_ring \<times> string set \<times> string set \<times> (string \<rightharpoonup> int) \<times> int \<times> nat" where
  "face st = (msRing st, msTactical st, msBlocked st, msDedup st, msDedupWin st, row_count st)"

lemma silent_acks: 
  assumes "silent st st'"
  shows "ack_count f st' = ack_count f st"
proof -
  obtain new where new: "msLog st' = msLog st @ new" "list_all is_event new" using assms by (auto simp: silent_def)
  have "\<not> (case x of AckSubmitted _ g \<Rightarrow> g = f | _ \<Rightarrow> False)" if "is_event x" for x
    using that by (cases x) (simp_all add: is_event_def)
  then have "filter (\<lambda>x. case x of AckSubmitted _ g \<Rightarrow> g = f | _ \<Rightarrow> False) new = []"
    using new(2) unfolding filter_empty_conv list_all_iff by blast
  then show ?thesis by (simp add: ack_count_def new(1))
qed

lemma face_publish [simp]: "face (publish t m (ms_update r st)) = face st"
  by (simp add: face_def publish_def ms_update_def row_count_def save_row_def)

lemma face_fold: "(\<And>x s. face (g x s) = face s) \<Longrightarrow> face (fold g xs st) = face st"
  by (induction xs arbitrary: st) simp_all

lemma face_reply [simp]: "face (correlateReplyAck e peer i st) = face st"
proof -
  have "face (reply_row e peer r s) = face s" for r s
    by (simp add: reply_row_def close_row_def Let_def split: thread_kind.split)
  then show ?thesis by (simp add: correlateReplyAck_def Let_def face_fold)
qed

lemma find_key_False: "fst (find_key t k r) = False \<Longrightarrow> map_of (rgEntries (snd (find_key t k r))) k = None"
  by (auto simp: find_key_def map_of_eq_None_iff split: option.splits if_splits)

lemma find_key_absent: "map_of (rgEntries r) k = None \<Longrightarrow> find_key t k r = (False, r)"
  by (simp add: find_key_def)

text \<open>A direct message that is answered, and the state once a copy of it was seen at \<open>t\<close>.\<close>

definition answered :: "string \<Rightarrow> packet \<Rightarrow> string \<Rightarrow> aprs_message \<Rightarrow> frame \<Rightarrow> bool" where
  "answered our p source m f \<longleftrightarrow>
     isClassifiableMessage p \<and> unwrapThirdParty p = (source, Some m) \<and> amMessageID m \<noteq> []
     \<and> \<not> amIsAck m \<and> \<not> amIsRej m \<and> \<not> amIsBulletin m \<and> \<not> amIsNWS m
     \<and> our \<noteq> [] \<and> pkDirection (data p) \<noteq> DirectionIS \<and> preflightAckFrame our (norm_call source) (amMessageID m) = Inr f"

definition seen :: "int \<Rightarrow> string \<Rightarrow> string \<Rightarrow> aprs_message \<Rightarrow> mstate \<Rightarrow> bool" where
  "seen t our source m st \<longleftrightarrow>
     msDedup st (preflightDedupKey (norm_call source) (amMessageID m) (amText m)) = Some (t + msDedupWin st)
     \<and> map_of (rgEntries (msRing st)) (ringKey (norm_call source) (amMessageID m)) = None
     \<and> canonicalCall (norm_call source) \<noteq> canonicalCall (norm_call our)
     \<and> \<not> Blocked (msBlocked st) (norm_call source)
     \<and> callAddressedToUs (norm_call (amAddressee m)) (norm_call our)"

definition accepting :: "menv \<Rightarrow> bool" where
  "accepting e \<longleftrightarrow> (\<forall>ch f s. evSubmit e ch f s = None)"

lemma seen_face: "seen t our source m st \<longleftrightarrow> (case face st of (r, _, b, d, w, _) \<Rightarrow>
     d (preflightDedupKey (norm_call source) (amMessageID m) (amText m)) = Some (t + w)
     \<and> map_of (rgEntries r) (ringKey (norm_call source) (amMessageID m)) = None
     \<and> canonicalCall (norm_call source) \<noteq> canonicalCall (norm_call our)
     \<and> \<not> Blocked b (norm_call source)
     \<and> callAddressedToUs (norm_call (amAddressee m)) (norm_call our))"
  by (simp add: seen_def face_def)

lemma SendAutoAck_answered:
  assumes "answered our p source m f" "evOurCall e = our" "accepting e"
  shows "face (SendAutoAck e (data p) (norm_call source) (amMessageID m) st) = face st"
    "ack_count f (SendAutoAck e (data p) (norm_call source) (amMessageID m) st) = Suc (ack_count f st)"
  using assms by (auto simp: SendAutoAck_def Let_def answered_def accepting_def log_effect_def face_def row_count_def ack_count_def)

lemma accept_answered:
  assumes A: "answered our p source m f" "evOurCall e = our" "accepting e"
  shows "let (out, st') = accept_message e (data p) (norm_call source) m DM key st;
             key' = preflightDedupKey (norm_call source) (amMessageID m) (amText m) in
    ack_count f st' = Suc (ack_count f st)
    \<and> row_count st' = row_count st + (if out = DedupHit then 0 else 1)
    \<and> (out = DedupHit \<or> out = Filed DM)
    \<and> (out = DedupHit \<longleftrightarrow> (\<exists>x. msDedup st key' = Some x \<and> evNow e \<le> x))
    \<and> msDedup st' key' = Some (evNow e + msDedupWin st) \<and> msDedupWin st' = msDedupWin st
    \<and> msRing st' = msRing st \<and> msBlocked st' = msBlocked st \<and> msTactical st' = msTactical st"
proof -
  have m: "amMessageID m \<noteq> []" "\<not> amIsAck m" "\<not> amIsRej m" "\<not> amIsBulletin m" "\<not> amIsNWS m"
    using A(1) by (simp_all add: answered_def)
  obtain hit s1 where C: "CheckDedup (evNow e) (norm_call source) (amMessageID m) (amText m) st = (hit, s1)" by force
  define s2 where "s2 = (if hit then s1 else persistInbound e (data p) (norm_call source) m DM key (baseCall (norm_call our)) s1)"
  define s3 where "s3 = (if amHasReplyAck m \<and> amReplyAck m \<noteq> [] then correlateReplyAck e (norm_call source) (amReplyAck m) s2 else s2)"
  define s4 where "s4 = SendAutoAck e (data p) (norm_call source) (amMessageID m) s3"
  have R: "accept_message e (data p) (norm_call source) m DM key st = (if hit then DedupHit else Filed DM, s4)"
    using m A(2) by (simp add: accept_message_def Let_def C s2_def s3_def s4_def)
  have s1: "msRing s1 = msRing st" "msBlocked s1 = msBlocked st" "msTactical s1 = msTactical st" "msDedupWin s1 = msDedupWin st"
    "row_count s1 = row_count st" "msDedup s1 (preflightDedupKey (norm_call source) (amMessageID m) (amText m)) = Some (evNow e + msDedupWin st)"
    using C by (auto simp: CheckDedup_def check_key_def Let_def row_count_def)
  have hit: "hit \<longleftrightarrow> (\<exists>x. msDedup st (preflightDedupKey (norm_call source) (amMessageID m) (amText m)) = Some x \<and> evNow e \<le> x)"
    using C by (auto simp: CheckDedup_def check_key_def Let_def split: option.splits if_splits)
  have s2: "face s2 = (msRing s1, msTactical s1, msBlocked s1, msDedup s1, msDedupWin s1, row_count s1 + (if hit then 0 else 1))"
    by (simp add: s2_def face_def persistInbound_def Let_def case_prod_unfold publish_def row_count_def Insert_def)
  have f: "face s4 = face s2" using SendAutoAck_answered(1)[OF A] by (simp add: s4_def s3_def)
  have "silent st s3"
    using silent_trans[OF silent_trans[of st s1 s2] correlateReplyAck_silent[of s2]] silent_trans[of st s1 s2]
      CheckDedup_silent[of st "evNow e" "norm_call source" "amMessageID m" "amText m"] persistInbound_silent
    by (auto simp: s3_def s2_def C)
  then have "ack_count f s4 = Suc (ack_count f st)" using SendAutoAck_answered(2)[OF A] silent_acks by (simp add: s4_def)
  moreover have "msRing s4 = msRing s1" "msBlocked s4 = msBlocked s1" "msTactical s4 = msTactical s1" "msDedup s4 = msDedup s1"
    "msDedupWin s4 = msDedupWin s1" "row_count s4 = row_count s1 + (if hit then 0 else 1)"
    using f unfolding s2 by (simp_all add: face_def)
  ultimately show ?thesis using s1 hit by (simp add: R)
qed

lemma classify_to_us:
  assumes "answered our p source m f" "evOurCall e = our"
    "map_of (rgEntries (msRing st)) (ringKey (norm_call source) (amMessageID m)) = None"
    "canonicalCall (norm_call source) \<noteq> canonicalCall (norm_call our)" "\<not> Blocked (msBlocked st) (norm_call source)"
    "callAddressedToUs (norm_call (amAddressee m)) (norm_call our)"
  shows "classify e p st = accept_message e (data p) (norm_call source) m DM (norm_call source) st"
proof -
  have r: "ring_Contains (evNow e) (norm_call source) (amMessageID m) (msRing st) = (False, msRing st)"
    using assms(1,3) by (simp add: ring_Contains_def find_key_absent answered_def)
  show ?thesis using assms r by (simp add: classify_def Let_def thread_of_def answered_def)
qed

lemma classify_new:
  assumes A: "answered our p source m f" "evOurCall e = our" "accepting e"
    and S: "map_of (rgEntries (msRing st)) (ringKey (norm_call source) (amMessageID m)) = None"
    "canonicalCall (norm_call source) \<noteq> canonicalCall (norm_call our)" "\<not> Blocked (msBlocked st) (norm_call source)"
    "callAddressedToUs (norm_call (amAddressee m)) (norm_call our)"
    and D: "msDedup st (preflightDedupKey (norm_call source) (amMessageID m) (amText m)) = None"
  shows "fst (classify e p st) = Filed DM"
proof -
  obtain out st' where o: "accept_message e (data p) (norm_call source) m DM (norm_call source) st = (out, st')" by force
  show ?thesis using accept_answered[OF A, of "norm_call source" st, unfolded o Let_def prod.case] D classify_to_us[OF A(1,2) S] by (auto simp: o)
qed

lemma classify_answered:
  assumes A: "answered our p source m f" "evOurCall e = our" "accepting e"
    and S: "seen t our source m st" "evNow e \<le> t + msDedupWin st"
  shows "let (out, st') = classify e p st in
    out = DedupHit \<and> ack_count f st' = Suc (ack_count f st) \<and> row_count st' = row_count st
    \<and> seen (evNow e) our source m st' \<and> msDedupWin st' = msDedupWin st"
proof -
  have s: "map_of (rgEntries (msRing st)) (ringKey (norm_call source) (amMessageID m)) = None"
    "canonicalCall (norm_call source) \<noteq> canonicalCall (norm_call our)" "\<not> Blocked (msBlocked st) (norm_call source)"
    "callAddressedToUs (norm_call (amAddressee m)) (norm_call our)"
    using S(1) by (simp_all add: seen_def)
  obtain out st' where o: "accept_message e (data p) (norm_call source) m DM (norm_call source) st = (out, st')" by force
  note B = accept_answered[OF A, of "norm_call source" st, unfolded o Let_def prod.case]
  have "out = DedupHit" using B S by (simp add: seen_def)
  then show ?thesis using B s by (simp add: classify_to_us[OF A(1,2) s] o seen_def)
qed

lemma not_addressed_blank: "\<not> callAddressedToUs a []"
proof -
  have "canonicalCall (norm_call []) = []" by code_simp
  then show ?thesis by (simp add: callAddressedToUs_def Let_def)
qed

lemma classify_first:
  assumes A: "answered our p source m f" "evOurCall e = our" "accepting e" and F: "classify e p st = (Filed DM, st')"
  shows "ack_count f st' = Suc (ack_count f st) \<and> row_count st' = Suc (row_count st)
    \<and> seen (evNow e) our source m st' \<and> msDedupWin st' = msDedupWin st"
proof -
  have a: "isClassifiableMessage p" "unwrapThirdParty p = (source, Some m)" "amMessageID m \<noteq> []" "\<not> amIsAck m" "\<not> amIsRej m" "our \<noteq> []"
    using A(1) by (simp_all add: answered_def)
  obtain own ring where r: "ring_Contains (evNow e) (norm_call source) (amMessageID m) (msRing st) = (own, ring)" by force
  define s1 where "s1 = st\<lparr>msRing := ring\<rparr>"
  have self: "\<not> (norm_call our \<noteq> [] \<and> canonicalCall (norm_call source) = canonicalCall (norm_call our))" "\<not> own"
    "\<not> Blocked (msBlocked st) (norm_call source)"
    using F a r A(2) by (auto simp: classify_def Let_def split: if_splits)
  obtain kind key where T: "thread_of e s1 (norm_call source) (norm_call (amAddressee m)) = Some (kind, key)"
    and c: "accept_message e (data p) (norm_call source) m kind key s1 = (Filed DM, st')"
    using F a r A(2) self by (auto simp: classify_def Let_def s1_def split: option.splits)
  have "kind = DM" using c by (auto simp: accept_message_def Let_def case_prod_unfold split: if_splits)
  then have us: "callAddressedToUs (norm_call (amAddressee m)) (norm_call our)"
    using T A(2) by (auto simp: thread_of_def split: if_splits)
  then have our: "norm_call our \<noteq> []" using not_addressed_blank by metis
  have ring: "map_of (rgEntries ring) (ringKey (norm_call source) (amMessageID m)) = None"
    using r self(2) a(3) find_key_False by (auto simp: ring_Contains_def) (metis fst_conv snd_conv)
  note B = accept_answered[OF A, of key s1, folded \<open>kind = DM\<close>, unfolded c Let_def prod.case]
  show ?thesis using B self us our ring by (simp add: seen_def s1_def ack_count_def row_count_def)
qed

text \<open>Copies of the message, each at most the window after the one before.\<close>

fun repeats :: "int \<Rightarrow> int \<Rightarrow> menv list \<Rightarrow> bool" where
  "repeats w t [] = True"
| "repeats w t (e # es) \<longleftrightarrow> evNow e \<le> t + w \<and> repeats w (evNow e) es"

definition hear_copies :: "packet \<Rightarrow> menv list \<Rightarrow> mstate \<Rightarrow> mstate" where
  "hear_copies p es st = fold (\<lambda>e s. snd (classify e p s)) es st"

lemma hear_copies_seen:
  assumes "answered our p source m f" "seen t our source m st" "repeats (msDedupWin st) t es" "list_all (\<lambda>e. evOurCall e = our \<and> accepting e) es"
  shows "ack_count f (hear_copies p es st) = ack_count f st + length es \<and> row_count (hear_copies p es st) = row_count st"
  using assms(2-4)
proof (induction es arbitrary: t st)
  case (Cons e es)
  have e: "evOurCall e = our" "accepting e" "evNow e \<le> t + msDedupWin st" using Cons.prems(2,3) by simp_all
  obtain out st' where c: "classify e p st = (out, st')" by force
  note B = classify_answered[OF assms(1) e(1,2) Cons.prems(1) e(3), unfolded c Let_def prod.case]
  have "ack_count f (hear_copies p es st') = ack_count f st' + length es \<and> row_count (hear_copies p es st') = row_count st'"
    by (rule Cons.IH[of "evNow e"]) (use B Cons.prems(2,3) in auto)
  then show ?case using B c by (simp add: hear_copies_def)
qed (simp add: hear_copies_def)

text \<open>
  Property C26. A direct message that carries an identifier, is filed when it is first heard and can be answered is acknowledged every time a copy of it is heard, and filed
  once, however often its sender repeats it over the air, as long as no gap between two copies exceeds the duplicate
  window and the governor takes the acknowledgements.
\<close>

theorem copies_acked_filed_once:
  assumes "answered our p source m f" "classify e p st = (Filed DM, st')"
    "repeats (msDedupWin st) (evNow e) es" "list_all (\<lambda>e. evOurCall e = our \<and> accepting e) (e # es)"
  shows "ack_count f (hear_copies p (e # es) st) = ack_count f st + 1 + length es
    \<and> row_count (hear_copies p (e # es) st) = row_count st + 1"
proof -
  have e: "evOurCall e = our" "accepting e" using assms(4) by simp_all
  note F = classify_first[OF assms(1) e assms(2)]
  have "ack_count f (hear_copies p es st') = ack_count f st' + length es \<and> row_count (hear_copies p es st') = row_count st'"
    by (rule hear_copies_seen[OF assms(1), of "evNow e"]) (use F assms(3,4) in auto)
  then show ?thesis using F assms(2) by (simp add: hear_copies_def)
qed

text \<open>A message from NW5W-9, heard three times at K0TFU-1.\<close>

definition example_heard :: packet where
  "example_heard = Packet (fst (parseMessage (new_packet\<lparr>pkSource := ''NW5W-9'', pkDirection := DirectionRF, pkChannel := 2\<rparr>)
     (bytes_of '':K0TFU-1  :hello{42''))) None"

theorem copies_acked_filed_once_witness:
  "\<exists>f. ack_count f (hear_copies example_heard (map (\<lambda>t. example_menv t ''K0TFU-1'') [0, 10, 20]) example_service) = 3
    \<and> row_count (hear_copies example_heard (map (\<lambda>t. example_menv t ''K0TFU-1'') [0, 10, 20]) example_service) = 1"
proof -
  let ?e = "example_menv 0 ''K0TFU-1''" and ?es = "map (\<lambda>t. example_menv t ''K0TFU-1'') [10, 20]"
  have u: "case unwrapThirdParty example_heard of (s, Some m) \<Rightarrow> s = ''NW5W-9'' \<and> amMessageID m = ''42'' \<and> \<not> amIsAck m \<and> \<not> amIsRej m
      \<and> \<not> amIsBulletin m \<and> \<not> amIsNWS m \<and> amAddressee m = ''K0TFU-1'' | (s, None) \<Rightarrow> False"
    "isClassifiableMessage example_heard" "pkDirection (data example_heard) \<noteq> DirectionIS"
    "\<not> (case preflightAckFrame ''K0TFU-1'' (norm_call ''NW5W-9'') ''42'' of Inl _ \<Rightarrow> True | Inr _ \<Rightarrow> False)"
    "map_of (rgEntries (msRing example_service)) (ringKey (norm_call ''NW5W-9'') ''42'') = None"
    "canonicalCall (norm_call ''NW5W-9'') \<noteq> canonicalCall (norm_call ''K0TFU-1'')" "\<not> Blocked (msBlocked example_service) (norm_call ''NW5W-9'')"
    "callAddressedToUs (norm_call ''K0TFU-1'') (norm_call ''K0TFU-1'')"
    by code_simp+
  obtain m where m: "unwrapThirdParty example_heard = (''NW5W-9'', Some m)" "amMessageID m = ''42''"
    "\<not> amIsAck m" "\<not> amIsRej m" "\<not> amIsBulletin m" "\<not> amIsNWS m" "amAddressee m = ''K0TFU-1''"
    using u(1) by (auto split: prod.splits option.splits)
  obtain f where f: "preflightAckFrame ''K0TFU-1'' (norm_call ''NW5W-9'') ''42'' = Inr f" using u(4) by (auto split: sum.splits)
  have A: "answered ''K0TFU-1'' example_heard ''NW5W-9'' m f" using u(2,3) m f by (simp add: answered_def)
  have ex: "evOurCall ?e = ''K0TFU-1''" "accepting ?e" "\<And>k. msDedup example_service k = None"
    by (simp_all add: example_menv_def accepting_def example_service_def)
  obtain st' where c: "classify ?e example_heard example_service = (Filed DM, st')"
    using classify_new[OF A ex(1,2), of example_service] u(5-8) m(2,7) ex(3) by (metis prod.collapse)
  have "ack_count f example_service = 0" "row_count example_service = 0" "msDedupWin example_service = 300 * 10 ^ 9"
    by (simp_all add: ack_count_def row_count_def example_service_def)
  moreover have "list_all (\<lambda>e. evOurCall e = ''K0TFU-1'' \<and> accepting e) (?e # ?es)"
    by (simp add: example_menv_def accepting_def)
  ultimately show ?thesis
    using copies_acked_filed_once[OF A c, of ?es] by (intro exI[of _ f]) (simp add: example_menv_def)
qed

text \<open>An acknowledgement from NW5W-9.\<close>

definition example_ack :: packet where
  "example_ack = Packet (fst (parseMessage (new_packet\<lparr>pkSource := ''NW5W-9'', pkDirection := DirectionRF, pkChannel := 2\<rparr>)
     (bytes_of '':K0TFU-1  :ack42''))) None"

theorem acks_not_answered_witness:
  "\<exists>m. unwrapThirdParty example_ack = (''NW5W-9'', Some m) \<and> amIsAck m \<and> amMessageID m = ''42''
    \<and> silent example_service (snd (classify (example_menv 0 ''K0TFU-1'') example_ack example_service))"
proof -
  have "case unwrapThirdParty example_ack of (s, Some m) \<Rightarrow> s = ''NW5W-9'' \<and> amIsAck m \<and> amMessageID m = ''42'' | (s, None) \<Rightarrow> False"
    by code_simp
  then obtain m where m: "unwrapThirdParty example_ack = (''NW5W-9'', Some m)" "amIsAck m" "amMessageID m = ''42''"
    by (auto split: prod.splits option.splits)
  then show ?thesis using acks_not_answered[OF m(1), of example_service "example_menv 0 ''K0TFU-1''"] by blast
qed

end
