(* ===== verification/MSG_Delivery.thy ===== *)
theory MSG_Delivery
  imports MSG_Exchange
begin

text \<open>
  A message between two stations, end to end: the frame that the sender's station builds
  (\<^verbatim>\<open>sender.go\<close>) is parsed at the other end (\<^verbatim>\<open>pkg/aprs\<close>), classified, filed and
  answered (\<^verbatim>\<open>router.go\<close>, \<^verbatim>\<open>preflight.go\<close>), and the answer, parsed at the sender's
  station, closes the row it came from.
\<close>

section \<open>Message frames on the air\<close>

text \<open>A frame as the radio side hands it to the APRS side: parsed, with its channel.\<close>

definition received :: "sub_parser \<Rightarrow> int \<Rightarrow> frame \<Rightarrow> packet option" where
  "received sub ch f =
     (case Parse sub (Some f) of
        (Some q, None) \<Rightarrow> Some (Packet ((data q)\<lparr>pkDirection := DirectionRF, pkChannel := ch\<rparr>) (pkThirdParty q))
      | _ \<Rightarrow> None)"

text \<open>A call sign that a message can be addressed to and that survives the address codec.\<close>

definition plain_call :: "string \<Rightarrow> bool" where
  "plain_call c \<longleftrightarrow> upper_call c \<and> wf_addressee c \<and> fst (station_of c) \<noteq> []
     \<and> (case ParseAddress c of Inl _ \<Rightarrow> False | Inr a \<Rightarrow> address_string a = c)
     \<and> \<not> has_prefix c ''BLN'' \<and> \<not> list_ex (has_prefix c) [''NWS'', ''SKY'', ''CWA'']"

lemma plain_callD:
  assumes "plain_call c"
  shows "norm_call c = c" "wf_addressee c" "\<exists>a. ParseAddress c = Inr a \<and> address_string a = c"
    "\<not> has_prefix c ''BLN''" "\<not> list_ex (has_prefix c) [''NWS'', ''SKY'', ''CWA'']"
  using assms norm_upper_call by (auto simp: plain_call_def split: sum.splits)

lemma plain_call_own: "plain_call c \<Longrightarrow> callAddressedToUs c c"
  by (simp add: callAddressedToUs_def Let_def plain_callD(1) canonicalCall_station plain_call_def)

lemma received_message:
  assumes "IsUI f" "fInfo f = bytes_of ('':'' @ a @ replicate (9 - length a) CHR '' '' @ '':'' @ tail)"
    "\<And>p. parseMessage p (fInfo f) = (p\<lparr>pkMessage := Some m, pkType := PacketMessage\<rparr>, None)"
  shows "\<exists>d. received sub ch f = Some (Packet d None) \<and> pkMessage d = Some m \<and> pkType d = PacketMessage \<and> pkTelemetryMeta d = None
    \<and> pkSource d = address_string (fSource f) \<and> pkDirection d = DirectionRF \<and> pkChannel d = ch"
proof -
  let ?p = "FromAX25 f new_packet"
  let ?p1 = "case Encode f of Inr enc \<Rightarrow> ?p\<lparr>pkRaw := enc\<rparr> | Inl _ \<Rightarrow> ?p"
  have p1: "pkSource ?p1 = address_string (fSource f)" "pkTelemetryMeta ?p1 = None"
    by (simp_all add: FromAX25_def new_packet_def split: sum.split)
  have "char_of_byte 58 = CHR '':''" by code_simp
  then have hd: "fInfo f \<noteq> []" "char_of_byte (hd (fInfo f)) = CHR '':''" using assms(2) by (simp_all add: bytes_of_def)
  have "parseInfoDepth sub 2 (Some f) ?p1 (fInfo f) = (Packet (?p1\<lparr>pkMessage := Some m, pkType := PacketMessage\<rparr>) None, None)"
    by (subst parseInfoDepth.simps) (simp add: hd assms(3) Let_def)
  then have "Parse sub (Some f) = (Some (Packet (?p1\<lparr>pkMessage := Some m, pkType := PacketMessage\<rparr>) None), None)"
    using assms(1) hd(1) by (simp add: Parse_def Let_def)
  then show ?thesis using p1 by (auto simp: received_def)
qed

lemma EncodeMessage_info:
  "EncodeMessage a t i = Inr info \<Longrightarrow>
     info = bytes_of ('':'' @ a @ replicate (9 - length a) CHR '' '' @ '':'' @ t @ (if i \<noteq> [] then CHR ''{'' # i else []))"
  by (simp add: EncodeMessage_def split: if_splits)

text \<open>An acknowledgement reads back as one, with its identifier.\<close>

definition ack_message :: "string \<Rightarrow> string \<Rightarrow> aprs_message" where
  "ack_message a i = message_of a (''ack'' @ i, [], [], False)"

lemma ack_message_simps:
  assumes "wf_message_id i"
  shows "amAddressee (ack_message a i) = a" "amText (ack_message a i) = []" "amMessageID (ack_message a i) = i" "amIsAck (ack_message a i)"
    "\<not> amIsRej (ack_message a i)"
  using assms by (simp_all add: ack_message_def message_of_def has_prefix_def trim_id)

lemma ack_reads_back:
  assumes "wf_addressee a" "wf_message_id i" "i \<noteq> []"
  shows "EncodeMessageAck a i = Inr (bytes_of ('':'' @ a @ replicate (9 - length a) CHR '' '' @ '':'' @ ''ack'' @ i))"
    "parseMessage p (bytes_of ('':'' @ a @ replicate (9 - length a) CHR '' '' @ '':'' @ ''ack'' @ i))
      = (p\<lparr>pkMessage := Some (ack_message a i), pkType := PacketMessage\<rparr>, None)"
proof -
  have tr: "split_trailer (''ack'' @ i) = (''ack'' @ i, [], [], False)"
    using assms(2) by (simp add: split_trailer_def rcut_byte_None wf_message_id_def)
  have tel: "parseTelemetryMeta [] = None" by code_simp
  show "parseMessage p (bytes_of ('':'' @ a @ replicate (9 - length a) CHR '' '' @ '':'' @ ''ack'' @ i))
      = (p\<lparr>pkMessage := Some (ack_message a i), pkType := PacketMessage\<rparr>, None)"
    using parseMessage_tail[OF assms(1), of "''ack'' @ i" p] ack_message_simps(2)[OF assms(2), of a] tel
    unfolding tr ack_message_def[symmetric] by metis
  show "EncodeMessageAck a i = Inr (bytes_of ('':'' @ a @ replicate (9 - length a) CHR '' '' @ '':'' @ ''ack'' @ i))"
    using assms by (simp add: EncodeMessageAck_def EncodeMessage_def wf_addressee_def del: append_Cons)
qed

text \<open>A plain message reads back as itself.\<close>

definition plain_message :: "string \<Rightarrow> string \<Rightarrow> string \<Rightarrow> aprs_message" where
  "plain_message a t i = message_of a (t, i, [], False)"

lemma plain_message_simps:
  assumes "plain_text t" "wf_message_id i" "plain_call a"
  shows "amAddressee (plain_message a t i) = a" "amText (plain_message a t i) = t" "amMessageID (plain_message a t i) = i"
    "\<not> amIsAck (plain_message a t i)" "\<not> amIsRej (plain_message a t i)" "\<not> amHasReplyAck (plain_message a t i)"
    "\<not> amIsBulletin (plain_message a t i)" "\<not> amIsNWS (plain_message a t i)"
  using assms by (simp_all add: plain_message_def message_of_def plain_text_def trim_id plain_call_def)

lemma plain_reads_back:
  assumes "plain_call a" "plain_text t" "wf_message_id i" "EncodeMessage a t i = Inr info"
  shows "parseMessage p info = (p\<lparr>pkMessage := Some (plain_message a t i), pkType := PacketMessage\<rparr>, None)"
proof -
  let ?tail = "t @ (if i \<noteq> [] then CHR ''{'' # i else [])"
  have tr: "split_trailer ?tail = (t, i, [], False)" using assms(2,3) by (simp add: split_trailer_id plain_text_def)
  show ?thesis
    using parseMessage_tail[OF plain_callD(2)[OF assms(1)], of ?tail p] plain_message_simps(2)[OF assms(2,3,1)] assms(2)
    unfolding EncodeMessage_info[OF assms(4)] tr plain_message_def[symmetric] plain_text_def by metis
qed

lemma preflightAckFrame_Inr:
  assumes "plain_call our" "plain_call peer" "wf_message_id i" "i \<noteq> []"
  shows "\<exists>g. preflightAckFrame our peer i = Inr g \<and> IsUI g \<and> address_string (fSource g) = our
    \<and> fInfo g = bytes_of ('':'' @ peer @ replicate (9 - length peer) CHR '' '' @ '':'' @ ''ack'' @ i)
    \<and> (\<forall>p. parseMessage p (fInfo g) = (p\<lparr>pkMessage := Some (ack_message peer i), pkType := PacketMessage\<rparr>, None))"
proof -
  obtain src where src: "ParseAddress our = Inr src" "address_string src = our" using plain_callD(3)[OF assms(1)] by blast
  have "\<not> (case ParseAddress ''APGRWO'' of Inl _ \<Rightarrow> True | Inr _ \<Rightarrow> False)" by code_simp
  then obtain d where d: "ParseAddress ''APGRWO'' = Inr d" by (auto split: sum.splits)
  define info where "info = bytes_of ('':'' @ peer @ replicate (9 - length peer) CHR '' '' @ '':'' @ ''ack'' @ i)"
  have E: "EncodeMessageAck peer i = Inr info" and P: "\<And>p. parseMessage p info = (p\<lparr>pkMessage := Some (ack_message peer i), pkType := PacketMessage\<rparr>, None)"
    unfolding info_def by (rule ack_reads_back[OF plain_callD(2)[OF assms(2)] assms(3,4)])+
  obtain g where g: "NewUIFrame src d [] info = Inr g" by (simp add: NewUIFrame_def)
  have "preflightAckFrame our peer i = Inr g" by (simp add: preflightAckFrame_def E src d g map_err_def try_bind_def)
  moreover have "IsUI g" "fSource g = src" "fInfo g = info"
    using g by (auto simp: NewUIFrame_def IsUI_def split: if_splits)
  ultimately show ?thesis using src(2) P unfolding info_def[symmetric] by (intro exI[of _ g]) simp
qed

section \<open>Delivery and acknowledgement\<close>

text \<open>What the frame of a row says.\<close>

lemma buildFrame_InrD:
  assumes "buildFrame prefs row = Inr f"
  shows "EncodeMessage (mToCall row) (mText row) (mMsgID row) = Inr (fInfo f)" "ParseAddress (mFromCall row) = Inr (fSource f)" "IsUI f"
  using assms
  by (auto simp: buildFrame_def map_err_def try_bind_def NewUIFrame_def IsUI_def split: sum.splits if_splits)

text \<open>Correlation closes the row it finds.\<close>

definition row_acked :: "nat \<Rightarrow> store \<Rightarrow> bool" where
  "row_acked i s \<longleftrightarrow> (\<forall>m \<in> set (stRows s). mId m = i \<longrightarrow> mAckState m = Acked \<and> \<not> mDeleted m)"

lemma close_row_rows:
  "stRows (msStore (close_row e a t r st)) =
     map (\<lambda>m. if mId m = mId r \<and> mAckState r \<noteq> a then r\<lparr>mAckState := a, mAckedAt := Some (evNow e)\<rparr> else m) (stRows (msStore st))"
  by (simp add: close_row_def Let_def publish_def ms_update_def save_row_def cong: map_cong)

lemma fold_close_acked:
  assumes "x \<in> set rs" "distinct (map mId rs)" "\<not> mDeleted x" "\<forall>m \<in> set (stRows (msStore s)). mId m = mId x \<longrightarrow> m = x"
  shows "row_acked (mId x) (msStore (fold (close_row e Acked t) rs s))"
proof -
  have stays: "row_acked i (msStore (fold (close_row e Acked t) rs s))" if "row_acked i (msStore s)" "i \<notin> mId ` set rs" for i rs s
    using that
  proof (induction rs arbitrary: s)
    case (Cons r rs)
    have "row_acked i (msStore (close_row e Acked t r s))" using Cons.prems by (auto simp: row_acked_def close_row_rows)
    then show ?case using Cons by simp
  qed simp
  show ?thesis using assms
  proof (induction rs arbitrary: s)
    case (Cons r rs)
    show ?case
    proof (cases "r = x")
      case True
      have "row_acked (mId x) (msStore (close_row e Acked t x s))" using Cons.prems(3,4) by (auto simp: row_acked_def close_row_rows)
      then show ?thesis using stays Cons.prems(2) True by simp
    next
      case False
      have "mId r \<noteq> mId x" using Cons.prems(1,2) False by (auto simp: rev_image_eqI)
      then have "\<forall>m \<in> set (stRows (msStore (close_row e Acked t r s))). mId m = mId x \<longrightarrow> m = x"
        using Cons.prems(4) by (auto simp: close_row_rows)
      then show ?thesis using Cons.IH[of "close_row e Acked t r s"] Cons.prems(1-3) False by simp
    qed
  qed simp
qed

lemma fold_close_ids: "map mId (stRows (msStore (fold (close_row e a t) rs s))) = map mId (stRows (msStore s))"
  by (induction rs arbitrary: s) (simp_all add: close_row_rows comp_def if_distrib cong: if_cong)

lemma correlateAck_closes:
  assumes "store_ok (msStore st)" "GetByID i (msStore st) = Some row" "mOut row" "mPeerCall row = peer" "mMsgID row \<noteq> []"
    "wf_message_id (mMsgID row)"
  shows "\<exists>r. GetByID i (msStore (correlateAck e peer (ack_message a (mMsgID row)) st)) = Some r \<and> mAckState r = Acked"
proof -
  note C = GetByID_SomeD[OF assms(2)]
  let ?rs = "FindOutstandingByMsgID (mMsgID row) peer (msStore st)"
  let ?st = "fold (close_row e Acked EventMessageAcked) ?rs st"
  have eq: "correlateAck e peer (ack_message a (mMsgID row)) st = ?st"
    using assms(5) ack_message_simps[OF assms(6), of a] by (simp add: correlateAck_def Let_def)
  have d: "distinct (map mId (stRows (msStore st)))" by (rule store_ok_distinct[OF assms(1)])
  have rs: "row \<in> set ?rs" using C assms(3,4) by (simp add: FindOutstandingByMsgID_def)
  have dr: "distinct (map mId ?rs)" using d by (simp add: FindOutstandingByMsgID_def rev_map[symmetric] distinct_map_filter)
  have acked: "row_acked (mId row) (msStore ?st)"
    by (rule fold_close_acked[OF rs dr C(3)]) (use same_row[OF d _ C(1)] in blast)
  have "i \<in> mId ` set (stRows (msStore ?st))"
    using fold_close_ids[of e Acked EventMessageAcked ?rs st] C(1,2) by (metis image_eqI list.set_map)
  then obtain r where r: "r \<in> set (stRows (msStore ?st))" "mId r = i" by blast
  then have "mAckState r = Acked" "\<not> mDeleted r" using acked C(2) by (auto simp: row_acked_def)
  moreover have "GetByID i (msStore ?st) = Some r"
    using GetByID_row[OF _ r(1)] d fold_close_ids[of e Acked EventMessageAcked ?rs st] calculation(2) r(2) by simp
  ultimately show ?thesis by (simp add: eq)
qed

text \<open>The filed row.\<close>

lemma classify_stores:
  assumes "answered our p source m f" "evOurCall e = our" "accepting e" "\<not> amHasReplyAck m"
    "map_of (rgEntries (msRing st)) (ringKey (norm_call source) (amMessageID m)) = None"
    "canonicalCall (norm_call source) \<noteq> canonicalCall (norm_call our)" "\<not> Blocked (msBlocked st) (norm_call source)"
    "callAddressedToUs (norm_call (amAddressee m)) (norm_call our)"
    "msDedup st (preflightDedupKey (norm_call source) (amMessageID m) (amText m)) = None"
  shows "\<exists>r \<in> set (stRows (msStore (snd (classify e p st)))). \<not> mOut r \<and> mFromCall r = norm_call source \<and> mText r = amText m
    \<and> mThreadKey r = norm_call source"
proof -
  obtain s1 where c: "CheckDedup (evNow e) (norm_call source) (amMessageID m) (amText m) st = (False, s1)"
    using assms(9) by (simp add: CheckDedup_def check_key_def Let_def)
  let ?r = "(derive (inbound_row (evNow e) (data p) (norm_call source) m DM (norm_call source) (baseCall (norm_call our))))\<lparr>mId := stNextId (msStore s1)\<rparr>"
  let ?s2 = "persistInbound e (data p) (norm_call source) m DM (norm_call source) (baseCall (norm_call our)) s1"
  have keep: "msStore (SendAutoAck e pk c i s) = msStore s" for pk c i s
    by (simp add: SendAutoAck_def Let_def log_effect_def split: option.split sum.split)
  have "classify e p st = (Filed DM, SendAutoAck e (data p) (norm_call source) (amMessageID m) ?s2)"
    using assms(1,2,4) by (simp add: classify_to_us[OF assms(1,2,5-8)] accept_message_def Let_def c answered_def)
  moreover have "?r \<in> set (stRows (msStore ?s2))" by (simp add: persistInbound_def Insert_def Let_def publish_def)
  moreover have "\<not> mOut ?r" "mFromCall ?r = norm_call source" "mText ?r = amText m"
    by (simp_all add: derive_def inbound_row_def Let_def)
  moreover have "mThreadKey ?r = norm_call source" by (simp add: derive_def inbound_row_def Let_def)
  ultimately show ?thesis by (intro bexI[of _ ?r]) (simp_all add: keep)
qed

text \<open>
  Property C25. A direct message between two stations with ordinary call signs, end to end: whatever frame the sender's
  station built for its row, the addressee's station parses it, files the text under the sender, and submits one
  acknowledgement; and that frame, parsed by the sender's station, closes the row as acknowledged. The message carries a
  well-formed identifier; its text holds no opening brace, does not begin with ack, rej or a closing brace and is no
  telemetry definition (such texts are read as something else); neither station blocks the other, neither has heard the
  identifier before, and the addressee's governor takes the acknowledgement.
\<close>

theorem message_delivered:
  assumes calls: "plain_call a" "plain_call b" "canonicalCall a \<noteq> canonicalCall b"
    and row: "GetByID i (msStore sa) = Some row" "store_ok (msStore sa)" "mOut row" "mFromCall row = a" "mToCall row = b" "mPeerCall row = b"
    and body: "plain_text (mText row)" "\<not> has_prefix (mText row) ''}''" "wf_message_id (mMsgID row)" "mMsgID row \<noteq> []"
    and sent: "buildFrame prefs row = Inr f"
    and B: "evOurCall eb = b" "accepting eb" "\<not> Blocked (msBlocked sb) a"
      "map_of (rgEntries (msRing sb)) (ringKey a (mMsgID row)) = None"
      "msDedup sb (preflightDedupKey a (mMsgID row) (mText row)) = None"
    and A: "evOurCall ea = a" "\<not> Blocked (msBlocked sa) b" "map_of (rgEntries (msRing sa)) (ringKey b (mMsgID row)) = None"
  shows "\<exists>p g q r. received sub ch f = Some p \<and> fst (classify eb p sb) = Filed DM
    \<and> (\<exists>m \<in> set (stRows (msStore (snd (classify eb p sb)))). \<not> mOut m \<and> mFromCall m = a \<and> mText m = mText row \<and> mThreadKey m = a)
    \<and> ack_count g (snd (classify eb p sb)) = Suc (ack_count g sb)
    \<and> received sub ch' g = Some q \<and> fst (classify ea q sa) = AckOrRej
    \<and> GetByID i (msStore (snd (classify ea q sa))) = Some r \<and> mAckState r = Acked"
proof -
  let ?mid = "mMsgID row"
  note F = buildFrame_InrD[OF sent, unfolded row(4,5)]
  have src: "address_string (fSource f) = a" using plain_callD(3)[OF calls(1)] F(2) by auto
  define m where "m = plain_message b (mText row) ?mid"
  note m = plain_message_simps[OF body(1,3) calls(2), folded m_def]
  have parse: "\<And>p. parseMessage p (fInfo f) = (p\<lparr>pkMessage := Some m, pkType := PacketMessage\<rparr>, None)"
    unfolding m_def by (rule plain_reads_back[OF calls(2) body(1,3) F(1)])
  obtain d where d: "received sub ch f = Some (Packet d None)" "pkMessage d = Some m" "pkType d = PacketMessage" "pkTelemetryMeta d = None"
    "pkSource d = a" "pkDirection d = DirectionRF" "pkChannel d = ch"
    using received_message[OF F(3) EncodeMessage_info[OF F(1)] parse, of sub ch] src by auto
  let ?p = "Packet d None"
  have na: "norm_call a = a" "norm_call b = b" using plain_callD(1) calls by auto
  obtain g where g: "preflightAckFrame b a ?mid = Inr g" "IsUI g" "address_string (fSource g) = b"
    "fInfo g = bytes_of ('':'' @ a @ replicate (9 - length a) CHR '' '' @ '':'' @ ''ack'' @ ?mid)"
    "\<And>p. parseMessage p (fInfo g) = (p\<lparr>pkMessage := Some (ack_message a ?mid), pkType := PacketMessage\<rparr>, None)"
    using preflightAckFrame_Inr[OF calls(2,1) body(3,4)] by blast
  have u: "unwrapThirdParty ?p = (a, Some m)" using d body(2) m(2) by (simp add: unwrapThirdParty_def)
  have cls: "isClassifiableMessage ?p" using d by (simp add: isClassifiableMessage_def carries_message_def)
  have bne: "b \<noteq> []" using plain_callD(2)[OF calls(2)] by (simp add: wf_addressee_def)
  have ans: "answered b ?p a m g" using u cls m body(4) bne d(6) g(1) na by (simp add: answered_def)
  note us = plain_call_own[OF calls(2)]
  have filed: "fst (classify eb ?p sb) = Filed DM"
    by (rule classify_new[OF ans B(1,2)]) (use na m(1-3) B(3-5) calls(3) us in simp_all)
  have acks: "ack_count g (snd (classify eb ?p sb)) = Suc (ack_count g sb)"
    using classify_first[OF ans B(1,2), of sb] filed by (metis prod.collapse)
  have stored: "\<exists>m \<in> set (stRows (msStore (snd (classify eb ?p sb)))). \<not> mOut m \<and> mFromCall m = a \<and> mText m = mText row \<and> mThreadKey m = a"
    using classify_stores[OF ans B(1,2) m(6), of sb] na m(1-3) B(3-5) calls(3) us by simp
  obtain d' where d': "received sub ch' g = Some (Packet d' None)" "pkMessage d' = Some (ack_message a ?mid)" "pkType d' = PacketMessage"
    "pkTelemetryMeta d' = None" "pkSource d' = b"
    using received_message[OF g(2) g(4) g(5), of sub ch'] g(3) by auto
  let ?q = "Packet d' None"
  have u': "unwrapThirdParty ?q = (b, Some (ack_message a ?mid))" using d' using ack_message_simps[OF body(3)] by (simp add: unwrapThirdParty_def has_prefix_def)
  have cls': "isClassifiableMessage ?q" using d' by (simp add: isClassifiableMessage_def carries_message_def)
  have r': "ring_Contains (evNow ea) b ?mid (msRing sa) = (False, msRing sa)"
    using A(3) body(4) by (simp add: ring_Contains_def find_key_absent)
  note us' = plain_call_own[OF calls(1)]
  note k = ack_message_simps[OF body(3), of a]
  have c: "classify ea ?q sa = (AckOrRej, correlateAck ea b (ack_message a ?mid) sa)"
    using u' cls' r' us' A calls(3) na k by (simp add: classify_def Let_def thread_of_def)
  then show ?thesis
    using d(1) filed acks stored d'(1) correlateAck_closes[OF row(2,1,3,6) body(4,3)] by fastforce
qed

text \<open>A message that K0TFU-1 has composed for NW5W-9, at a station that has heard nothing yet.\<close>

definition example_sender :: mstate where
  "example_sender = msg_run [(example_menv 0 ''K0TFU-1'', EvSend (example_request\<lparr>rqPolicy := ''is_only''\<rparr>))] example_service"

theorem message_delivered_witness:
  "\<exists>f p g q r. received (\<lambda>_ p _. (p, None)) 1 f = Some p
    \<and> fst (classify (example_menv 0 ''NW5W-9'') p example_service) = Filed DM
    \<and> ack_count g (snd (classify (example_menv 0 ''NW5W-9'') p example_service)) = 1
    \<and> received (\<lambda>_ p _. (p, None)) 1 g = Some q
    \<and> GetByID 1 (msStore (snd (classify (example_menv 0 ''K0TFU-1'') q example_sender))) = Some r \<and> mAckState r = Acked"
proof -
  have calls: "plain_call ''K0TFU-1''" "plain_call ''NW5W-9''" "canonicalCall ''K0TFU-1'' \<noteq> canonicalCall ''NW5W-9''"
    by code_simp+
  have row: "case GetByID 1 (msStore example_sender) of None \<Rightarrow> False | Some m \<Rightarrow> mOut m \<and> mFromCall m = ''K0TFU-1'' \<and> mToCall m = ''NW5W-9''
      \<and> mPeerCall m = ''NW5W-9'' \<and> mText m = ''hello'' \<and> mMsgID m = ''001''
      \<and> \<not> (case buildFrame (defaultPrefs\<lparr>mpDefaultPath := []\<rparr>) m of Inl _ \<Rightarrow> True | Inr _ \<Rightarrow> False)"
    "msBlocked example_sender = {}" "rgEntries (msRing example_sender) = []"
    by code_simp+
  then obtain m f where m: "GetByID 1 (msStore example_sender) = Some m" "mOut m" "mFromCall m = ''K0TFU-1''" "mToCall m = ''NW5W-9''"
      "mPeerCall m = ''NW5W-9''" "mText m = ''hello''" "mMsgID m = ''001''" "buildFrame (defaultPrefs\<lparr>mpDefaultPath := []\<rparr>) m = Inr f"
    by (auto split: option.splits sum.splits)
  have body: "plain_text ''hello''" "\<not> has_prefix ''hello'' ''}''" "wf_message_id ''001''" by code_simp+
  have "within 4 (\<lambda>i. 0 + (4 + 1) * resends i [(example_menv 0 ''K0TFU-1'', EvSend (example_request\<lparr>rqPolicy := ''is_only''\<rparr>))]) example_sender"
    unfolding example_sender_def
    by (rule msg_run_within[OF fresh_within[OF example_fresh(1)]]) (simp_all add: example_fresh(2) limits_at_most_def)
  then have ok: "store_ok (msStore example_sender)" by (simp add: within_def)
  have bl: "\<not> Blocked {} c" for c by (simp add: Blocked_def Let_def)
  have env: "evOurCall (example_menv t c) = c" "accepting (example_menv t c)" for t c by (simp_all add: example_menv_def accepting_def)
  have ex: "msBlocked example_service = {}" "rgEntries (msRing example_service) = []" "\<And>k. msDedup example_service k = None"
    "ack_count g example_service = 0" for g
    by (simp_all add: example_service_def NewLocalTxRing_def ack_count_def)
  show ?thesis
    using message_delivered[where sb = example_service and ea = "example_menv 0 ''K0TFU-1''" and eb = "example_menv 0 ''NW5W-9''"
        and sub = "\<lambda>_ p _. (p, None)" and ch = 1 and ch' = 1, OF calls m(1) ok m(2-5) _ _ _ _ m(8)]
      m(6,7) body bl row(2,3) ex env by (simp, blast)
qed

end
