(* ===== verification/Go_Text.thy ===== *)
theory Go_Text
  imports Go_Strings
begin

text \<open>
  Text as runes: the UTF-8 decoding of Go's \<^verbatim>\<open>range\<close> and \<^verbatim>\<open>[]rune\<close> conversions and
  \<^verbatim>\<open>utf8.RuneCountInString\<close>, \<^verbatim>\<open>strings.Fields\<close> and \<^verbatim>\<open>strings.ReplaceAll\<close> of one byte.
  A rune is the string of its bytes; an invalid byte reads as U+FFFD.
\<close>

section \<open>Runes\<close>

definition between :: "string \<Rightarrow> nat \<Rightarrow> nat \<Rightarrow> nat \<Rightarrow> bool" where
  "between s i lo hi \<longleftrightarrow> i < length s \<and> lo \<le> of_char (s ! i) \<and> (of_char (s ! i) :: nat) \<le> hi"

text \<open>The bytes of the rune a string starts with, 0 when they are not valid UTF-8.\<close>

definition rune2 :: "string \<Rightarrow> bool" where
  "rune2 s \<longleftrightarrow> between s 0 0xC2 0xDF \<and> between s 1 0x80 0xBF"

definition rune3 :: "string \<Rightarrow> bool" where
  "rune3 s \<longleftrightarrow> (between s 0 0xE0 0xE0 \<and> between s 1 0xA0 0xBF \<or> between s 0 0xED 0xED \<and> between s 1 0x80 0x9F
     \<or> (between s 0 0xE1 0xEC \<or> between s 0 0xEE 0xEF) \<and> between s 1 0x80 0xBF) \<and> between s 2 0x80 0xBF"

definition rune4 :: "string \<Rightarrow> bool" where
  "rune4 s \<longleftrightarrow> (between s 0 0xF0 0xF0 \<and> between s 1 0x90 0xBF \<or> between s 0 0xF1 0xF3 \<and> between s 1 0x80 0xBF
     \<or> between s 0 0xF4 0xF4 \<and> between s 1 0x80 0x8F) \<and> between s 2 0x80 0xBF \<and> between s 3 0x80 0xBF"

definition rune_len :: "string \<Rightarrow> nat" where
  "rune_len s =
     (if between s 0 0x00 0x7F then 1 else if rune2 s then 2 else if rune3 s then 3 else if rune4 s then 4 else 0)"

definition rune_error :: string where
  "rune_error = [CHR 0xEF, CHR 0xBF, CHR 0xBD]"

definition ellipsis :: string where
  "ellipsis = [CHR 0xE2, CHR 0x80, CHR 0xA6]"

function runes :: "string \<Rightarrow> string list" where
  "runes [] = []"
| "runes (c # cs) =
     (let n = rune_len (c # cs) in
      if n = 0 then rune_error # runes cs else take n (c # cs) # runes (drop (n - 1) cs))"
  by pat_completeness auto
termination by (relation "measure length") auto

definition rune_count :: "string \<Rightarrow> nat" where
  "rune_count s = length (runes s)"

lemma runes_nonempty: "r \<in> set (runes s) \<Longrightarrow> r \<noteq> []"
  by (induction s rule: runes.induct) (auto simp: Let_def rune_error_def split: if_splits)

lemma length_concat_ge: "(\<And>x. x \<in> set xs \<Longrightarrow> x \<noteq> []) \<Longrightarrow> length xs \<le> length (concat xs)"
proof (induction xs)
  case (Cons x xs)
  then have "1 \<le> length x" "length xs \<le> length (concat xs)" by (auto simp: Suc_le_eq)
  then show ?case by simp
qed simp

text \<open>A rune takes at least one byte.\<close>

lemma runes_bytes: "length (take n (runes s)) \<le> length (concat (take n (runes s)))"
  using runes_nonempty[of _ s] by (intro length_concat_ge) (auto dest: in_set_takeD)

lemma rune_len_ascii: "is_ascii c \<Longrightarrow> rune_len (c # cs) = 1"
proof -
  assume "is_ascii c"
  then have "between (c # cs) 0 0x00 0x7F"
    by (simp add: between_def is_ascii_def word_less_nat_alt unat_byte_of)
  then show ?thesis by (simp add: rune_len_def)
qed

lemma runes_ascii: "list_all is_ascii s \<Longrightarrow> runes s = map (\<lambda>c. [c]) s"
  by (induction s) (simp_all add: rune_len_ascii)

lemma rune_count_ascii: "list_all is_ascii s \<Longrightarrow> rune_count s = length s"
  by (simp add: rune_count_def runes_ascii)

text \<open>A rune reads as itself whatever follows it.\<close>

lemma between_take: "i < n \<Longrightarrow> n \<le> length s \<Longrightarrow> between (take n s @ t) i lo hi = between s i lo hi"
  by (simp add: between_def nth_append)

lemma rune_fits:
  "between s 0 0x00 0x7F \<Longrightarrow> 1 \<le> length s" "rune2 s \<Longrightarrow> 2 \<le> length s" "rune3 s \<Longrightarrow> 3 \<le> length s" "rune4 s \<Longrightarrow> 4 \<le> length s"
  unfolding rune2_def rune3_def rune4_def between_def by (auto simp: Suc_le_eq)

lemma rune_take:
  assumes "n \<le> length s"
  shows "1 \<le> n \<Longrightarrow> between (take n s @ t) 0 0x00 0x7F = between s 0 0x00 0x7F" "2 \<le> n \<Longrightarrow> rune2 (take n s @ t) = rune2 s"
    "3 \<le> n \<Longrightarrow> rune3 (take n s @ t) = rune3 s" "4 \<le> n \<Longrightarrow> rune4 (take n s @ t) = rune4 s"
  using between_take[OF _ assms, of _ t] unfolding rune2_def rune3_def rune4_def by simp_all

lemma rune_len_chunk:
  assumes "rune_len s = n" "n \<noteq> 0"
  shows "rune_len (take n s @ t) = n \<and> length (take n s) = n"
proof -
  have "n \<le> length s" using assms rune_fits[of s] by (auto simp: rune_len_def split: if_splits)
  then show ?thesis using assms rune_take[of n s t] by (auto simp: rune_len_def split: if_splits)
qed

lemma rune_len_error [simp]: "rune_len (rune_error @ t) = 3"
  by (simp add: rune_error_def rune_len_def rune2_def rune3_def rune4_def between_def)

definition is_rune :: "string \<Rightarrow> bool" where
  "is_rune r \<longleftrightarrow> r \<noteq> [] \<and> (\<forall>t. rune_len (r @ t) = length r)"

lemma runes_are_runes: "r \<in> set (runes s) \<Longrightarrow> is_rune r"
proof (induction s rule: runes.induct)
  case (2 c cs)
  let ?n = "rune_len (c # cs)"
  show ?case
  proof (cases "?n = 0")
    case True
    moreover have "is_rune rune_error" using rune_len_error by (simp add: is_rune_def rune_error_def)
    ultimately show ?thesis using 2 by (auto simp: Let_def)
  next
    case False
    have "is_rune (take ?n (c # cs))" unfolding is_rune_def
      using rune_len_chunk[OF refl False] False by (auto simp: take_Cons')
    then show ?thesis using 2 False by (auto simp: Let_def)
  qed
qed simp

lemma runes_rune: "is_rune r \<Longrightarrow> runes (r @ t) = r # runes t"
proof -
  assume r: "is_rune r"
  obtain c cs where rc: "r = c # cs" using r by (cases r) (auto simp: is_rune_def)
  have n: "rune_len (c # (cs @ t)) = Suc (length cs)" using r by (auto simp: is_rune_def rc)
  show ?thesis by (simp add: rc n)
qed

lemma runes_concat: "list_all is_rune rs \<Longrightarrow> runes (concat rs @ t) = rs @ runes t"
  by (induction rs) (simp_all add: runes_rune)

lemma ellipsis_rune: "is_rune ellipsis"
proof -
  have "rune_len (ellipsis @ t) = 3" for t by (simp add: ellipsis_def rune_len_def rune2_def rune3_def rune4_def between_def)
  then show ?thesis by (simp add: is_rune_def) (simp add: ellipsis_def)
qed

lemma rune_count_shortened: "rune_count (concat (take k (runes s)) @ ellipsis) \<le> k + 1"
proof -
  have "list_all is_rune (take k (runes s))" using runes_are_runes by (auto simp: list_all_iff dest: in_set_takeD)
  moreover have "runes ellipsis = [ellipsis]" using runes_rune[OF ellipsis_rune, of "[]"] by simp
  ultimately show ?thesis by (simp add: rune_count_def runes_concat)
qed

section \<open>Fields\<close>

function fields_go :: "string \<Rightarrow> string \<Rightarrow> string list" where
  "fields_go acc [] = (if acc = [] then [] else [rev acc])"
| "fields_go acc (c # cs) =
     (let n = space_len (c # cs) in
      if n = 0 then fields_go (c # acc) cs
      else (if acc = [] then [] else [rev acc]) @ fields_go [] (drop (n - 1) cs))"
  by pat_completeness auto
termination by (relation "measure (\<lambda>(_, s). length s)") auto

definition split_fields :: "string \<Rightarrow> string list" where
  "split_fields s = fields_go [] s"

lemma fields_go_nonempty: "f \<in> set (fields_go acc s) \<Longrightarrow> f \<noteq> []"
  by (induction acc s rule: fields_go.induct) (auto simp: Let_def split: if_splits)

lemma fields_nonempty: "f \<in> set (split_fields s) \<Longrightarrow> f \<noteq> []"
  using fields_go_nonempty by (simp add: split_fields_def)

definition replace_char :: "char \<Rightarrow> char \<Rightarrow> string \<Rightarrow> string" where
  "replace_char a b = map (\<lambda>c. if c = a then b else c)"

definition join :: "string \<Rightarrow> string list \<Rightarrow> string" where
  "join sep xs = (case xs of [] \<Rightarrow> [] | y # ys \<Rightarrow> y @ concat (map (\<lambda>z. sep @ z) ys))"

text \<open>\<^verbatim>\<open>strings.HasSuffix\<close> and \<^verbatim>\<open>strings.TrimSuffix\<close>.\<close>

definition cut_suffix :: "string \<Rightarrow> string \<Rightarrow> string option" where
  "cut_suffix suf s = (if length suf \<le> length s \<and> drop (length s - length suf) s = suf then Some (take (length s - length suf) s) else None)"

lemma cut_suffix_iff: "cut_suffix suf s = Some b \<longleftrightarrow> s = b @ suf"
proof
  assume "cut_suffix suf s = Some b"
  then show "s = b @ suf" by (auto simp: cut_suffix_def split: if_splits) (metis append_take_drop_id)
qed (simp add: cut_suffix_def)

section \<open>Quoting\<close>

definition is_control :: "char \<Rightarrow> bool" where
  "is_control c \<longleftrightarrow> byte_of c < 0x20 \<or> byte_of c = 0x7F"

text \<open>\<^verbatim>\<open>%q\<close> of printable text: quoted, with the ASCII controls escaped.\<close>

definition lower_hex :: "nat \<Rightarrow> char" where
  "lower_hex n = (if n < 10 then char_of (48 + n) else char_of (87 + n))"

definition quote_char :: "char \<Rightarrow> string" where
  "quote_char c =
     (case find (\<lambda>p. fst p = c) (zip (map char_of [0x22 :: nat, 0x5C, 7, 8, 12, 10, 13, 9, 11]) [CHR 0x22, CHR 0x5C, CHR ''a'', CHR ''b'', CHR ''f'', CHR ''n'', CHR ''r'', CHR ''t'', CHR ''v'']) of
        Some (_, d) \<Rightarrow> [CHR 0x5C, d]
      | None \<Rightarrow> if is_control c then [CHR 0x5C, CHR ''x'', lower_hex (of_char c div 16), lower_hex (of_char c mod 16)] else [c])"

definition quoted :: "string \<Rightarrow> string" where
  "quoted s = CHR 0x22 # concat (map quote_char s) @ [CHR 0x22]"

end
