(* ===== verification/ACT_Reply.thy ===== *)
theory ACT_Reply
  imports Go_Text
begin

text \<open>
  The replies of actions (\<^verbatim>\<open>pkg/actions/reply.go\<close>): a result becomes up to five lines of text.
  The lemmas bound what is sent: the number of lines, their length in runes, and the control
  characters in them; and what a shortened line costs in bytes.
\<close>

section \<open>Results\<close>

text \<open>\<open>StatusNone\<close> is the empty string, the zero value of the type.\<close>

datatype status =
    StatusOK | StatusBadOTP | StatusBadArg | StatusDenied | StatusDisabled | StatusUnknown | StatusNoCredential
  | StatusBusy | StatusRateLimited | StatusTimeout | StatusError | StatusNone

record act_result =
  reStatus :: status
  reDetail :: string
  reOutput :: string
  reExitCode :: "int option"
  reHTTPStatus :: "int option"

definition MaxReplyLen :: nat where "MaxReplyLen = 67"
definition MaxReplyLinesCeiling :: int where "MaxReplyLinesCeiling = 5"
definition DefaultMaxReplyLines :: int where "DefaultMaxReplyLines = 1"

definition statusWord :: "status \<Rightarrow> string" where
  "statusWord s =
     (case s of
        StatusOK \<Rightarrow> ''ok'' | StatusBadOTP \<Rightarrow> ''bad otp'' | StatusBadArg \<Rightarrow> ''bad arg'' | StatusDenied \<Rightarrow> ''denied''
      | StatusDisabled \<Rightarrow> ''disabled'' | StatusUnknown \<Rightarrow> ''unknown'' | StatusNoCredential \<Rightarrow> ''no-credential''
      | StatusBusy \<Rightarrow> ''busy'' | StatusRateLimited \<Rightarrow> ''rate-limited'' | StatusTimeout \<Rightarrow> ''timeout'' | StatusError \<Rightarrow> ''error''
      | StatusNone \<Rightarrow> ''error'')"

section \<open>Cleaning text\<close>

fun strip_rune :: "string \<Rightarrow> string" where
  "strip_rune [c] =
     (if byte_of c < 0x20 \<and> c \<noteq> CHR 0x0A \<and> c \<noteq> CHR 0x0D \<and> c \<noteq> CHR 0x09 \<or> byte_of c = 0x7F then []
      else if c = CHR 0x09 then '' '' else [c])"
| "strip_rune r = r"

definition stripControlChars :: "string \<Rightarrow> string" where
  "stripControlChars s = concat (map strip_rune (runes s))"

definition sanitizeReplyText :: "string \<Rightarrow> string" where
  "sanitizeReplyText s0 =
     (let s = replace_char CHR 0x0D CHR '' '' s0;
          s = replace_char CHR 0x0A CHR '' '' s
      in trim_space (stripControlChars s))"

text \<open>CR LF to LF.\<close>

fun crlf_to_lf :: "string \<Rightarrow> string" where
  "crlf_to_lf (a # b # s) =
     (if a = CHR 0x0D \<and> b = CHR 0x0A then b # crlf_to_lf s else a # crlf_to_lf (b # s))"
| "crlf_to_lf s = s"

definition splitNonEmptyLines :: "string \<Rightarrow> string list" where
  "splitNonEmptyLines s =
     (if s = [] then []
      else filter (\<lambda>l. l \<noteq> []) (map (\<lambda>p. trim_space (stripControlChars p)) (split_byte CHR 0x0A (crlf_to_lf s))))"

section \<open>Shortening\<close>

definition clampLine :: "string \<Rightarrow> string \<times> bool" where
  "clampLine s =
     (if rune_count s > MaxReplyLen then (concat (take (MaxReplyLen - 1) (runes s)) @ ellipsis, True) else (s, False))"

definition firstLineSnippet :: "string \<Rightarrow> string \<times> bool" where
  "firstLineSnippet s0 =
     (let s = sanitizeReplyText s0
      in if rune_count s > 50 then (concat (take 50 (runes s)) @ ellipsis, True) else (s, False))"

definition truncateReply :: "string \<Rightarrow> string" where
  "truncateReply s =
     (let limit = MaxReplyLen - 1 in if length (runes s) \<le> limit then s else concat (take limit (runes s)) @ ellipsis)"

definition formatStatusLine :: "act_result \<Rightarrow> string" where
  "formatStatusLine r =
     (let word = statusWord (reStatus r);
          detail = (if reStatus r \<in> {StatusBadArg, StatusError, StatusTimeout} then sanitizeReplyText (reDetail r) else [])
      in if detail = [] then word
         else let full = word @ '': '' @ detail in if rune_count full \<le> MaxReplyLen then full else truncateReply full)"

definition formatOKSingle :: "string \<Rightarrow> string \<times> bool" where
  "formatOKSingle output =
     (let (detail, tr) = firstLineSnippet output
      in if detail = [] then (statusWord StatusOK, tr)
         else let full = ''ok: '' @ detail in if rune_count full \<le> MaxReplyLen then (full, tr) else (truncateReply full, True))"

definition assembleOKLine :: "string \<Rightarrow> string \<times> bool" where
  "assembleOKLine s =
     (let (clean, tr) = clampLine (sanitizeReplyText s)
      in if clean = [] then (statusWord StatusOK, tr)
         else let full = ''ok: '' @ clean in if rune_count full \<le> MaxReplyLen then (full, tr) else (truncateReply full, True))"

text \<open>The further lines, while there is room: the lines, and whether one of them was shortened.\<close>

fun more_lines :: "nat \<Rightarrow> string list \<Rightarrow> string list \<times> bool" where
  "more_lines room [] = ([], False)"
| "more_lines room (l # ls) =
     (if room = 0 then ([], False)
      else let (line, lt) = clampLine (sanitizeReplyText l) in
        if line = [] then more_lines room ls
        else let (out, tr) = more_lines (room - 1) ls in (line # out, lt \<or> tr))"

definition FormatReplies :: "act_result \<Rightarrow> int \<Rightarrow> string list \<times> bool" where
  "FormatReplies r maxLines0 =
     (let maxLines = (if maxLines0 \<le> 0 then 1 else maxLines0);
          maxLines = (if maxLines > MaxReplyLinesCeiling then MaxReplyLinesCeiling else maxLines)
      in if reStatus r \<noteq> StatusOK then ([formatStatusLine r], False)
         else if maxLines = 1 then (let (line, tr) = formatOKSingle (reOutput r) in ([line], tr))
         else case splitNonEmptyLines (reOutput r) of
           [] \<Rightarrow> ([statusWord StatusOK], False)
         | l # ls \<Rightarrow>
             let (first, tr) = assembleOKLine l; (more, tr') = more_lines (nat maxLines - 1) ls
             in (first # more, tr \<or> tr' \<or> int (length (l # ls)) > maxLines))"

definition FormatReply :: "act_result \<Rightarrow> string \<times> bool" where
  "FormatReply r = (let (lines, tr) = FormatReplies r 1 in (case lines of [] \<Rightarrow> ([], tr) | l # _ \<Rightarrow> (l, tr)))"

section \<open>Bounds\<close>

lemma more_lines_length: "length (fst (more_lines room ls)) \<le> room"
proof (induction ls arbitrary: room)
  case (Cons l ls)
  show ?case using Cons[of room] Cons[of "room - 1"] by (simp add: Let_def case_prod_unfold) linarith
qed simp

lemma clampLine_count: "rune_count (fst (clampLine s)) \<le> MaxReplyLen"
  using rune_count_shortened[of "MaxReplyLen - 1" s] by (auto simp: clampLine_def MaxReplyLen_def)

lemma truncateReply_count: "rune_count (truncateReply s) \<le> MaxReplyLen"
  using rune_count_shortened[of "MaxReplyLen - 1" s] by (auto simp: truncateReply_def Let_def rune_count_def MaxReplyLen_def)

lemma statusWord_count: "rune_count (statusWord s) \<le> MaxReplyLen"
  by (cases s) (simp_all add: statusWord_def rune_count_ascii is_ascii_def MaxReplyLen_def)

lemma more_lines_count: "l \<in> set (fst (more_lines room ls)) \<Longrightarrow> rune_count l \<le> MaxReplyLen"
proof (induction ls arbitrary: room)
  case (Cons x ls)
  then show ?case using clampLine_count[of "sanitizeReplyText x"]
    by (auto simp: Let_def case_prod_unfold split: if_splits)
qed simp

lemma assembleOKLine_count: "rune_count (fst (assembleOKLine s)) \<le> MaxReplyLen"
  using statusWord_count[of StatusOK] truncateReply_count by (simp add: assembleOKLine_def Let_def case_prod_unfold)

text \<open>At least one and at most five lines, as the operator asked, and none longer than a message in runes.\<close>

lemma reply_bounds:
  "1 \<le> length (fst (FormatReplies r n)) \<and> int (length (fst (FormatReplies r n))) \<le> max 1 (min n 5)"
  "\<forall>l \<in> set (fst (FormatReplies r n)). rune_count l \<le> MaxReplyLen"
proof -
  have len: "1 + int (length (fst (more_lines (nat k - Suc 0) ls))) \<le> k" if "1 < k" for k ls
    using more_lines_length[of "nat k - 1" ls] that by simp
  show "1 \<le> length (fst (FormatReplies r n)) \<and> int (length (fst (FormatReplies r n))) \<le> max 1 (min n 5)"
    using len[of 5] by (auto simp: len FormatReplies_def Let_def case_prod_unfold MaxReplyLinesCeiling_def split: list.split)
  have st: "rune_count (formatStatusLine r) \<le> MaxReplyLen"
    using statusWord_count truncateReply_count by (simp add: formatStatusLine_def Let_def)
  have ok: "rune_count (fst (formatOKSingle s)) \<le> MaxReplyLen" for s
    using statusWord_count[of StatusOK] truncateReply_count by (simp add: formatOKSingle_def Let_def case_prod_unfold)
  show "\<forall>l \<in> set (fst (FormatReplies r n)). rune_count l \<le> MaxReplyLen"
    using st ok statusWord_count[of StatusOK] assembleOKLine_count more_lines_count
    by (auto simp: FormatReplies_def Let_def case_prod_unfold split: list.split if_splits)
qed

text \<open>A line that was shortened takes more bytes than a message may have characters.\<close>

definition shortened :: "string \<Rightarrow> bool" where
  "shortened l \<longleftrightarrow> (\<exists>s. rune_count s > MaxReplyLen - 1 \<and> l = concat (take (MaxReplyLen - 1) (runes s)) @ ellipsis)"

lemma shortened_bytes:
  assumes "shortened l"
  shows "MaxReplyLen < length l"
proof -
  obtain s where s: "rune_count s > MaxReplyLen - 1" "l = concat (take (MaxReplyLen - 1) (runes s)) @ ellipsis"
    using assms by (auto simp: shortened_def)
  then show ?thesis using runes_bytes[of "MaxReplyLen - 1" s] by (simp add: rune_count_def ellipsis_def MaxReplyLen_def)
qed

lemma clampLine_shortened: "clampLine s = (l, True) \<Longrightarrow> shortened l"
  unfolding clampLine_def shortened_def by (cases "MaxReplyLen < rune_count s") (auto intro!: exI[of _ s] simp: MaxReplyLen_def)

lemma truncateReply_shortened: "rune_count s > MaxReplyLen \<Longrightarrow> shortened (truncateReply s)"
  unfolding truncateReply_def shortened_def Let_def by (intro exI[of _ s]) (simp add: rune_count_def MaxReplyLen_def)

lemma formatStatusLine_long:
  assumes "reStatus r \<in> {StatusBadArg, StatusError, StatusTimeout}"
    "rune_count (statusWord (reStatus r) @ '': '' @ sanitizeReplyText (reDetail r)) > MaxReplyLen"
  shows "shortened (formatStatusLine r)"
proof -
  have "sanitizeReplyText (reDetail r) \<noteq> []"
  proof
    assume "sanitizeReplyText (reDetail r) = []"
    moreover have "rune_count (statusWord x @ '': '') \<le> MaxReplyLen" for x
      by (cases x) (simp_all add: statusWord_def rune_count_ascii is_ascii_def MaxReplyLen_def)
    ultimately show False using assms(2) by (metis append_Nil2 not_less append.assoc)
  qed
  then show ?thesis using assms truncateReply_shortened by (auto simp: formatStatusLine_def Let_def)
qed

end
