(* ===== verification/ACT_Parse.thy ===== *)
theory ACT_Parse
  imports Go_Text MSG_Calls
begin

text \<open>
  What an action message says and whom it is from: the invocation grammar
  (\<^verbatim>\<open>pkg/actions/parser.go\<close>), the sanitisers of its arguments (\<^verbatim>\<open>sanitize.go\<close>,
  \<^verbatim>\<open>sanitize_freeform.go\<close>), the listener set (\<^verbatim>\<open>addressees.go\<close>) and the sender allow-list
  (\<^verbatim>\<open>classifier.go\<close>). The operator's regular expressions are compiled by the argument
  \<open>re\<close>; the two patterns the package brings itself are defined. The lemmas say what the list
  admits and what a sanitised argument is.
\<close>

section \<open>The grammar\<close>

definition MaxActionNameLen :: nat where "MaxActionNameLen = 32"

type_synonym key_value = "string \<times> string"

record parsed_invocation =
  pvOTP :: string
  pvAction :: string
  pvArgs :: "key_value list option"
  pvTail :: string

text \<open>An error together with a partial invocation is \<open>BadArgs\<close>.\<close>

datatype parse_result = Malformed | BadArgs parsed_invocation | Parsed parsed_invocation

definition action_char :: "char \<Rightarrow> bool" where
  "action_char c \<longleftrightarrow> is_upper c \<or> is_lower c \<or> is_digit c \<or> c = CHR ''.'' \<or> c = CHR ''-'' \<or> c = CHR ''_''"

definition ValidActionName :: "string \<Rightarrow> bool" where
  "ValidActionName s \<longleftrightarrow> list_all action_char s"

fun parse_arg_tokens :: "string list \<Rightarrow> key_value list option" where
  "parse_arg_tokens [] = Some []"
| "parse_arg_tokens (t # ts) =
     (case cut_byte CHR ''='' t of
        None \<Rightarrow> None
      | Some (k, v) \<Rightarrow> if k = [] then None else map_option ((#) (k, v)) (parse_arg_tokens ts))"

definition parseArgs :: "string \<Rightarrow> key_value list option" where
  "parseArgs s = (if s = [] then Some [] else parse_arg_tokens (split_fields s))"

definition parse_invocation :: "string \<Rightarrow> parse_result" where
  "parse_invocation body =
     (if \<not> has_prefix body ''@@'' then Malformed
      else case cut_byte CHR ''#'' (drop 2 body) of
        None \<Rightarrow> Malformed
      | Some (otp, tail) \<Rightarrow>
          if otp \<noteq> [] \<and> (length otp \<noteq> 6 \<or> \<not> list_all is_digit otp) then Malformed
          else
            let (action, argTail) = (case cut_byte CHR '' '' tail of None \<Rightarrow> (tail, []) | Some (a, t) \<Rightarrow> (a, t)) in
            if action = [] \<or> length action > MaxActionNameLen \<or> \<not> ValidActionName action then Malformed
            else let p = \<lparr>pvOTP = otp, pvAction = action, pvArgs = parseArgs argTail, pvTail = argTail\<rparr>
                 in if pvArgs p = None then BadArgs p else Parsed p)"

section \<open>Sanitising\<close>

record arg_spec =
  asKey :: string
  asRegex :: string
  asMaxLen :: int
  asRequired :: bool

datatype sanitize_err = BadArg string string | BadSchema

definition defaultArgRegex :: string where "defaultArgRegex = ''^[A-Za-z0-9,_-]{1,32}$''"
definition defaultArgMaxLen :: int where "defaultArgMaxLen = 32"
definition FreeformValueCeiling :: nat where "FreeformValueCeiling = 200"
definition FreeformArgKey :: string where "FreeformArgKey = ''arg''"

definition default_arg :: "string \<Rightarrow> bool" where
  "default_arg v \<longleftrightarrow> v \<noteq> [] \<and> length v \<le> 32
     \<and> list_all (\<lambda>c. is_upper c \<or> is_lower c \<or> is_digit c \<or> c = CHR '','' \<or> c = CHR ''_'' \<or> c = CHR ''-'') v"

definition compileRegex :: "(string \<Rightarrow> (string \<Rightarrow> bool) option) \<Rightarrow> string \<Rightarrow> (string \<Rightarrow> bool) option" where
  "compileRegex re pat =
     (if pat = [] \<or> pat = defaultArgRegex then Some default_arg
      else if pat = ''.*'' then Some (\<lambda>_. True)
      else re pat)"

text \<open>The schema by key: of two entries with one key the later counts.\<close>

definition spec_of :: "arg_spec list \<Rightarrow> string \<Rightarrow> arg_spec option" where
  "spec_of schema k = map_of (rev (map (\<lambda>a. (asKey a, a)) schema)) k"

fun check_args :: "(string \<Rightarrow> (string \<Rightarrow> bool) option) \<Rightarrow> arg_spec list \<Rightarrow> key_value list \<Rightarrow> (string \<rightharpoonup> string)
    \<Rightarrow> sanitize_err + (string \<rightharpoonup> string)" where
  "check_args re schema [] provided = Inr provided"
| "check_args re schema ((k, v) # raw) provided =
     (case spec_of schema k of
        None \<Rightarrow> Inl (BadArg k ''not allowed'')
      | Some spec \<Rightarrow>
          let maxLen = (if asMaxLen spec \<le> 0 then defaultArgMaxLen else asMaxLen spec) in
          if int (length v) > maxLen then Inl (BadArg k ''too long'')
          else case compileRegex re (asRegex spec) of
            None \<Rightarrow> Inl (BadArg k ''schema regex invalid'')
          | Some matches \<Rightarrow>
              if \<not> matches v then Inl (BadArg k ''regex'')
              else check_args re schema raw (provided(k \<mapsto> v)))"

fun collect_args :: "arg_spec list \<Rightarrow> (string \<rightharpoonup> string) \<Rightarrow> sanitize_err + key_value list" where
  "collect_args [] provided = Inr []"
| "collect_args (spec # specs) provided =
     (case provided (asKey spec) of
        None \<Rightarrow> if asRequired spec then Inl (BadArg (asKey spec) ''missing'') else collect_args specs provided
      | Some v \<Rightarrow> try_bind (collect_args specs provided) (\<lambda>out. Inr ((asKey spec, v) # out)))"

definition Sanitize :: "(string \<Rightarrow> (string \<Rightarrow> bool) option) \<Rightarrow> arg_spec list \<Rightarrow> key_value list \<Rightarrow> sanitize_err + key_value list" where
  "Sanitize re schema raw = try_bind (check_args re schema raw Map.empty) (collect_args schema)"

fun firstControlByte :: "string \<Rightarrow> nat option" where
  "firstControlByte [] = None"
| "firstControlByte (c # cs) = (if is_control c then Some 0 else map_option Suc (firstControlByte cs))"

definition SanitizeFreeform :: "(string \<Rightarrow> (string \<Rightarrow> bool) option) \<Rightarrow> arg_spec list \<Rightarrow> string \<Rightarrow> nat \<Rightarrow> sanitize_err + key_value list" where
  "SanitizeFreeform re schema raw ceiling =
     (case schema of
        [spec] \<Rightarrow>
          if raw = [] then (if asRequired spec then Inl (BadArg FreeformArgKey ''missing'') else Inr [])
          else
            let maxLen = (if asMaxLen spec \<le> 0 \<or> asMaxLen spec > int ceiling then int ceiling else asMaxLen spec) in
            if int (length raw) > maxLen then Inl (BadArg FreeformArgKey ''too long'')
            else (case firstControlByte raw of
              Some i \<Rightarrow> Inl (BadArg FreeformArgKey (''control char at byte '' @ dec_string i))
            | None \<Rightarrow>
                (case compileRegex re (if asRegex spec = [] then ''.*'' else asRegex spec) of
                   None \<Rightarrow> Inl (BadArg FreeformArgKey ''schema regex invalid'')
                 | Some matches \<Rightarrow> if matches raw then Inr [(FreeformArgKey, raw)] else Inl (BadArg FreeformArgKey ''regex'')))
      | _ \<Rightarrow> Inl BadSchema)"

section \<open>Who may ask\<close>

definition addressees_Replace :: "string list \<Rightarrow> string set" where
  "addressees_Replace items = norm_call ` set items - {[]}"

definition addressees_Contains :: "string set \<Rightarrow> string \<Rightarrow> bool" where
  "addressees_Contains s name \<longleftrightarrow> (let n = norm_call name in n \<noteq> [] \<and> n \<in> s)"

definition pattern_allows :: "string \<Rightarrow> string \<Rightarrow> bool" where
  "pattern_allows sender pat0 \<longleftrightarrow>
     (let pat = norm_call pat0 in
      if pat = [] then False
      else case cut_suffix ''-*'' pat of
        Some base \<Rightarrow> base \<noteq> [] \<and> (sender = base \<or> has_prefix sender (base @ ''-''))
      | None \<Rightarrow> pat = sender)"

definition senderAllowed :: "string \<Rightarrow> string \<Rightarrow> bool" where
  "senderAllowed sender csv0 \<longleftrightarrow>
     (let csv = trim_space csv0 in csv = [] \<or> list_ex (pattern_allows sender) (split_byte CHR '','' csv))"

section \<open>What is admitted\<close>

text \<open>An argument that passed: its key is in the schema, and its value has the length and the form the schema asks for.\<close>

definition arg_ok :: "(string \<Rightarrow> (string \<Rightarrow> bool) option) \<Rightarrow> arg_spec list \<Rightarrow> key_value \<Rightarrow> bool" where
  "arg_ok re schema kv \<longleftrightarrow>
     (case spec_of schema (fst kv) of
        None \<Rightarrow> False
      | Some spec \<Rightarrow> int (length (snd kv)) \<le> (if asMaxLen spec \<le> 0 then defaultArgMaxLen else asMaxLen spec)
          \<and> (case compileRegex re (asRegex spec) of None \<Rightarrow> False | Some matches \<Rightarrow> matches (snd kv)))"

lemma check_args_ok:
  "check_args re schema raw provided = Inr m \<Longrightarrow> (\<And>k v. provided k = Some v \<Longrightarrow> arg_ok re schema (k, v))
    \<Longrightarrow> m k = Some v \<Longrightarrow> arg_ok re schema (k, v) \<and> (provided k = Some v \<or> (k, v) \<in> set raw)"
proof (induction re schema raw provided rule: check_args.induct)
  case (2 re schema k' v' raw provided)
  obtain spec matches where s: "spec_of schema k' = Some spec"
    "int (length v') \<le> (if asMaxLen spec \<le> 0 then defaultArgMaxLen else asMaxLen spec)"
    "compileRegex re (asRegex spec) = Some matches" "matches v'"
    "check_args re schema raw (provided(k' \<mapsto> v')) = Inr m"
    using "2.prems"(1) by (auto simp: Let_def split: option.splits if_splits)
  have "arg_ok re schema (k', v')" using s by (simp add: arg_ok_def)
  then have "\<And>k v. (provided(k' \<mapsto> v')) k = Some v \<Longrightarrow> arg_ok re schema (k, v)" using "2.prems"(2) by (auto split: if_splits)
  then show ?case
    using "2.IH"[OF s(1) refl _ s(3) _ s(5)] s(2,4) "2.prems"(3) by (auto split: if_splits)
qed auto

lemma collect_args_sub:
  "collect_args schema m = Inr out \<Longrightarrow> (k, v) \<in> set out \<Longrightarrow> m k = Some v"
  by (induction schema arbitrary: out) (auto simp: try_bind_Inr split: option.splits if_splits)

lemma collect_args_order:
  "collect_args schema m = Inr out \<Longrightarrow> map fst out = filter (\<lambda>k. m k \<noteq> None) (map asKey schema)"
  by (induction schema arbitrary: out) (auto simp: try_bind_Inr split: option.splits if_splits)

lemma collect_args_required:
  "collect_args schema m = Inr out \<Longrightarrow> spec \<in> set schema \<Longrightarrow> asRequired spec \<Longrightarrow> asKey spec \<in> fst ` set out"
  by (induction schema arbitrary: out) (auto simp: try_bind_Inr split: option.splits if_splits)

lemma Sanitize_ok:
  assumes "Sanitize re schema raw = Inr out"
  shows "list_all (arg_ok re schema) out" "set out \<subseteq> set raw" "\<exists>p. map fst out = filter p (map asKey schema)"
    "\<forall>spec \<in> set schema. asRequired spec \<longrightarrow> asKey spec \<in> fst ` set out"
proof -
  obtain m where m: "check_args re schema raw Map.empty = Inr m" "collect_args schema m = Inr out"
    using assms by (auto simp: Sanitize_def try_bind_Inr)
  have "arg_ok re schema (k, v) \<and> (k, v) \<in> set raw" if "(k, v) \<in> set out" for k v
    using check_args_ok[OF m(1)] collect_args_sub[OF m(2) that] by auto
  then show "list_all (arg_ok re schema) out" "set out \<subseteq> set raw" by (auto simp: list_all_iff)
  show "\<exists>p. map fst out = filter p (map asKey schema)" using collect_args_order[OF m(2)] by blast
  show "\<forall>spec \<in> set schema. asRequired spec \<longrightarrow> asKey spec \<in> fst ` set out" using collect_args_required[OF m(2)] by blast
qed

text \<open>Every pair of the message passed, and the result is the schema with, at each key, the last value given for it.\<close>

lemma check_args_all: "check_args re schema raw provided = Inr m \<Longrightarrow> list_all (arg_ok re schema) raw \<and> m = provided ++ map_of (rev raw)"
proof (induction re schema raw provided rule: check_args.induct)
  case (2 re schema k v raw provided)
  obtain spec matches where s: "spec_of schema k = Some spec"
    "int (length v) \<le> (if asMaxLen spec \<le> 0 then defaultArgMaxLen else asMaxLen spec)"
    "compileRegex re (asRegex spec) = Some matches" "matches v"
    "check_args re schema raw (provided(k \<mapsto> v)) = Inr m"
    using "2.prems"(1) by (auto simp: Let_def split: option.splits if_splits)
  have "arg_ok re schema (k, v)" using s by (simp add: arg_ok_def)
  then show ?case using "2.IH"[OF s(1) refl _ s(3) _ s(5)] s(2,4) by (auto simp: fun_eq_iff map_add_def map_of_append split: option.splits)
qed simp

lemma collect_args_list:
  "collect_args schema m = Inr out \<Longrightarrow> out = concat (map (\<lambda>spec. case m (asKey spec) of None \<Rightarrow> [] | Some v \<Rightarrow> [(asKey spec, v)]) schema)"
  by (induction schema arbitrary: out) (auto simp: try_bind_Inr split: option.splits if_splits)

lemma Sanitize_list:
  assumes "Sanitize re schema raw = Inr out"
  shows "list_all (arg_ok re schema) raw"
    "out = concat (map (\<lambda>spec. case map_of (rev raw) (asKey spec) of None \<Rightarrow> [] | Some v \<Rightarrow> [(asKey spec, v)]) schema)"
  using assms check_args_all[of re schema raw Map.empty] collect_args_list[of schema] by (auto simp: Sanitize_def try_bind_Inr)

lemma firstControlByte_None: "firstControlByte s = None \<longleftrightarrow> \<not> list_ex is_control s"
  by (induction s) auto

text \<open>A single untokenised argument: what the schema's one entry asks of it.\<close>

definition freeform_ok :: "(string \<Rightarrow> (string \<Rightarrow> bool) option) \<Rightarrow> arg_spec \<Rightarrow> string \<Rightarrow> nat \<Rightarrow> bool" where
  "freeform_ok re spec raw ceiling \<longleftrightarrow>
     (if raw = [] then \<not> asRequired spec
      else length raw \<le> ceiling \<and> (0 < asMaxLen spec \<longrightarrow> int (length raw) \<le> asMaxLen spec) \<and> \<not> list_ex is_control raw
        \<and> (case compileRegex re (if asRegex spec = [] then ''.*'' else asRegex spec) of None \<Rightarrow> False | Some matches \<Rightarrow> matches raw))"

lemma SanitizeFreeform_ok:
  assumes "SanitizeFreeform re schema raw n = Inr out"
  shows "\<exists>spec. schema = [spec] \<and> freeform_ok re spec raw n \<and> out = (if raw = [] then [] else [(FreeformArgKey, raw)])"
proof -
  obtain spec where spec: "schema = [spec]" using assms by (auto simp: SanitizeFreeform_def split: list.splits)
  show ?thesis
  proof (cases "raw = []")
    case True
    then show ?thesis using assms spec by (auto simp: SanitizeFreeform_def freeform_ok_def split: if_splits)
  next
    case False
    have len: "int (length raw) \<le> (if asMaxLen spec \<le> 0 \<or> asMaxLen spec > int n then int n else asMaxLen spec)"
      and ctl: "firstControlByte raw = None"
      using assms False by (auto simp: SanitizeFreeform_def spec Let_def split: if_splits option.splits)
    then obtain matches where "compileRegex re (if asRegex spec = [] then ''.*'' else asRegex spec) = Some matches" "matches raw" "out = [(FreeformArgKey, raw)]"
      using assms False by (auto simp: SanitizeFreeform_def spec Let_def split: option.splits if_split_asm)
    then show ?thesis using spec False len ctl by (auto simp: freeform_ok_def firstControlByte_None split: if_splits)
  qed
qed

text \<open>
  A sender is admitted exactly when the list is blank, names the sender, or names its base with the
  wildcard, the base itself and all its SSIDs being meant.
\<close>

lemma pattern_allows_iff:
  "pattern_allows sender pat \<longleftrightarrow> norm_call pat \<noteq> [] \<and>
     (if \<exists>b. norm_call pat = b @ ''-*'' then (\<exists>b. b \<noteq> [] \<and> norm_call pat = b @ ''-*'' \<and> (sender = b \<or> (\<exists>ssid. sender = b @ ''-'' @ ssid)))
      else norm_call pat = sender)"
proof (cases "cut_suffix ''-*'' (norm_call pat)")
  case None
  then have "\<nexists>b. norm_call pat = b @ ''-*''" using cut_suffix_iff[of "''-*''" "norm_call pat"] by (metis option.distinct(1))
  then show ?thesis using None by (simp add: pattern_allows_def Let_def)
next
  case (Some b)
  then have "norm_call pat = b @ ''-*''" by (simp add: cut_suffix_iff)
  moreover have "has_prefix sender (b @ ''-'') \<longleftrightarrow> (\<exists>ssid. sender = b @ ''-'' @ ssid)"
    using prefix_split[of sender "b @ ''-''" "\<lambda>_. True"] by simp
  ultimately show ?thesis using Some by (simp add: pattern_allows_def Let_def)
qed

end
