(* ===== verification/Go_SHA256.thy ===== *)
theory Go_SHA256
  imports Go_SHA1
begin

text \<open>
  Go's \<^verbatim>\<open>crypto/sha256\<close>, which the replay keys of one-time passwords are made with: FIPS
  180-4 on 32-bit words, with the padding of SHA-1.
\<close>

unbundle bit_operations_syntax

abbreviation rotr :: "nat \<Rightarrow> u32 \<Rightarrow> u32" where
  "rotr n w \<equiv> drop_bit n w OR push_bit (32 - n) w"

definition sha256_k :: "u32 list" where
  "sha256_k =
     [0x428A2F98, 0x71374491, 0xB5C0FBCF, 0xE9B5DBA5, 0x3956C25B, 0x59F111F1, 0x923F82A4, 0xAB1C5ED5,
      0xD807AA98, 0x12835B01, 0x243185BE, 0x550C7DC3, 0x72BE5D74, 0x80DEB1FE, 0x9BDC06A7, 0xC19BF174,
      0xE49B69C1, 0xEFBE4786, 0x0FC19DC6, 0x240CA1CC, 0x2DE92C6F, 0x4A7484AA, 0x5CB0A9DC, 0x76F988DA,
      0x983E5152, 0xA831C66D, 0xB00327C8, 0xBF597FC7, 0xC6E00BF3, 0xD5A79147, 0x06CA6351, 0x14292967,
      0x27B70A85, 0x2E1B2138, 0x4D2C6DFC, 0x53380D13, 0x650A7354, 0x766A0ABB, 0x81C2C92E, 0x92722C85,
      0xA2BFE8A1, 0xA81A664B, 0xC24B8B70, 0xC76C51A3, 0xD192E819, 0xD6990624, 0xF40E3585, 0x106AA070,
      0x19A4C116, 0x1E376C08, 0x2748774C, 0x34B0BCB5, 0x391C0CB3, 0x4ED8AA4A, 0x5B9CCA4F, 0x682E6FF3,
      0x748F82EE, 0x78A5636F, 0x84C87814, 0x8CC70208, 0x90BEFFFA, 0xA4506CEB, 0xBEF9A3F7, 0xC67178F2]"

text \<open>The message schedule, the newest word first, and the sixty-four rounds.\<close>

fun sha256_schedule :: "nat \<Rightarrow> u32 list \<Rightarrow> u32 list" where
  "sha256_schedule 0 ws = ws"
| "sha256_schedule (Suc n) ws =
     (let s0 = rotr 7 (ws ! 14) XOR rotr 18 (ws ! 14) XOR drop_bit 3 (ws ! 14);
          s1 = rotr 17 (ws ! 1) XOR rotr 19 (ws ! 1) XOR drop_bit 10 (ws ! 1)
      in sha256_schedule n ((ws ! 15 + s0 + ws ! 6 + s1) # ws))"

type_synonym sha256_state = "u32 \<times> u32 \<times> u32 \<times> u32 \<times> u32 \<times> u32 \<times> u32 \<times> u32"

definition sha256_round :: "sha256_state \<Rightarrow> u32 \<times> u32 \<Rightarrow> sha256_state" where
  "sha256_round s kw =
     (let (a, b, c, d, e, f, g, h) = s; (k, w) = kw;
          t1 = h + (rotr 6 e XOR rotr 11 e XOR rotr 25 e) + ((e AND f) XOR (NOT e AND g)) + k + w;
          t2 = (rotr 2 a XOR rotr 13 a XOR rotr 22 a) + ((a AND b) XOR (a AND c) XOR (b AND c))
      in (t1 + t2, a, b, c, d + t1, e, f, g))"

definition sha256_block :: "sha256_state \<Rightarrow> bytes \<Rightarrow> sha256_state" where
  "sha256_block s block =
     (let ws = rev (sha256_schedule 48 (rev (map be_word (groups 16 4 block))));
          (a, b, c, d, e, f, g, h) = foldl sha256_round s (zip sha256_k ws);
          (h0, h1, h2, h3, h4, h5, h6, h7) = s
      in (h0 + a, h1 + b, h2 + c, h3 + d, h4 + e, h5 + f, h6 + g, h7 + h))"

definition sha256 :: "bytes \<Rightarrow> bytes" where
  "sha256 msg =
     (let p = sha1_pad msg;
          (a, b, c, d, e, f, g, h) = foldl sha256_block
            (0x6A09E667, 0xBB67AE85, 0x3C6EF372, 0xA54FF53A, 0x510E527F, 0x9B05688C, 0x1F83D9AB, 0x5BE0CD19)
            (groups (length p div 64) 64 p)
      in concat (map (\<lambda>w. be_bytes 4 (unat w)) [a, b, c, d, e, f, g, h]))"

end
