(* ===== verification/ACT_OTP.thy ===== *)
theory ACT_OTP
  imports Go_Strings Go_SHA256 "HOL-Library.Signed_Division"
begin

text \<open>
  One-time passwords of actions (\<^verbatim>\<open>pkg/actions/otp.go\<close>). Whether a code matches a secret at a
  time is the argument \<open>valid\<close> (\<^verbatim>\<open>github.com/pquerna/otp\<close>); the replay ring is a map from keys
  to expiry times. The claims are what the ring achieves: a code is not accepted again in the same or an
  adjacent time step, whatever else is verified and swept in between; and what it misses: a code that was
  used in the step before its own is accepted again in the step after it.
\<close>

section \<open>The verifier\<close>

definition otpStepSeconds :: int where "otpStepSeconds = 30"
definition otpReplayTTL :: int where "otpReplayTTL = 3 * otpStepSeconds * 10 ^ 9 + 30 * 10 ^ 9"

definition time_step :: "int \<Rightarrow> int" where
  "time_step now = (now div 10 ^ 9) sdiv otpStepSeconds"

definition format_int :: "int \<Rightarrow> string" where
  "format_int n = (if n < 0 then CHR ''-'' # dec_string (nat (- n)) else dec_string (nat n))"

definition replayKey :: "nat \<Rightarrow> int \<Rightarrow> string \<Rightarrow> string" where
  "replayKey credID step code =
     hex_encode (take 8 (sha256 (bytes_of code))) @ ''|'' @ dec_string credID @ ''|'' @ format_int step"

lemma format_int_inj: "format_int a = format_int b \<longleftrightarrow> a = b"
proof
  assume eq: "format_int a = format_int b"
  have neg: "hd (format_int x) = CHR ''-'' \<longleftrightarrow> x < 0" for x
    using hd_dec_string[of "nat x"] by (auto simp: format_int_def is_digit_def)
  have val: "dec_string m = dec_string n \<Longrightarrow> m = n" for m n using digits_val_dec_string by (metis of_nat_eq_iff)
  show "a = b"
  proof (cases "a < 0")
    case True
    then have "b < 0" using neg[of a] neg[of b] eq by simp
    then show ?thesis using True eq val[of "nat (- a)" "nat (- b)"] by (simp add: format_int_def)
  next
    case False
    then have "\<not> b < 0" using neg[of a] neg[of b] eq by simp
    then show ?thesis using False eq val[of "nat a" "nat b"] by (simp add: format_int_def)
  qed
qed simp

lemma replayKey_step: "replayKey c s code = replayKey c s' code \<longleftrightarrow> s = s'"
  by (simp add: replayKey_def format_int_inj)

datatype otp_answer = Accepted | Mismatch | Replayed

type_synonym replay_ring = "string \<rightharpoonup> int"

definition ring_live :: "int \<Rightarrow> replay_ring \<Rightarrow> string \<Rightarrow> bool" where
  "ring_live now used key \<longleftrightarrow> (case used key of None \<Rightarrow> False | Some exp \<Rightarrow> exp > now)"

definition Verify :: "(string \<Rightarrow> string \<Rightarrow> int \<Rightarrow> bool) \<Rightarrow> int \<Rightarrow> nat \<Rightarrow> string \<Rightarrow> string \<Rightarrow> replay_ring \<Rightarrow> otp_answer \<times> replay_ring" where
  "Verify valid now credID secret code used =
     (if \<not> valid code secret now then (Mismatch, used)
      else
        let step = time_step now; key = replayKey credID step code in
        if ring_live now used key then (Replayed, used)
        else if list_ex (\<lambda>s. ring_live now used (replayKey credID s code)) [step - 1, step + 1] then (Replayed, used)
        else (Accepted, used(key \<mapsto> now + otpReplayTTL)))"

definition Sweep :: "int \<Rightarrow> replay_ring \<Rightarrow> replay_ring" where
  "Sweep now used = (\<lambda>k. case used k of None \<Rightarrow> None | Some exp \<Rightarrow> if \<not> exp > now then None else Some exp)"

section \<open>Runs\<close>

datatype otp_op = DoVerify nat string string | DoSweep

text \<open>A run gives the accepted verifications, with their times, the last one first.\<close>

type_synonym otp_state = "replay_ring \<times> (int \<times> nat \<times> string) list"

definition otp_step :: "(string \<Rightarrow> string \<Rightarrow> int \<Rightarrow> bool) \<Rightarrow> int \<times> otp_op \<Rightarrow> otp_state \<Rightarrow> otp_state" where
  "otp_step valid timed s =
     (let (now, op) = timed; (used, log) = s in
      case op of
        DoSweep \<Rightarrow> (Sweep now used, log)
      | DoVerify credID secret code \<Rightarrow>
          (let (ans, used) = Verify valid now credID secret code used
           in (used, if ans = Accepted then (now, credID, code) # log else log)))"

definition otp_run :: "(string \<Rightarrow> string \<Rightarrow> int \<Rightarrow> bool) \<Rightarrow> (int \<times> otp_op) list \<Rightarrow> otp_state \<Rightarrow> otp_state" where
  "otp_run valid ops s = fold (otp_step valid) ops s"

text \<open>Times that do not go back.\<close>

fun clocked :: "int \<Rightarrow> (int \<times> 'a) list \<Rightarrow> bool" where
  "clocked t [] = True"
| "clocked t ((now, _) # ops) \<longleftrightarrow> t \<le> now \<and> clocked now ops"

definition recorded :: "int \<Rightarrow> otp_state \<Rightarrow> bool" where
  "recorded now s \<longleftrightarrow> (\<forall>(t, c, code) \<in> set (snd s). t \<le> now \<and> (now < t + otpReplayTTL \<longrightarrow> ring_live now (fst s) (replayKey c (time_step t) code)))"

definition apart :: "(int \<times> nat \<times> string) list \<Rightarrow> bool" where
  "apart log \<longleftrightarrow> sorted_wrt (\<lambda>(t2, c2, k2) (t1, c1, k1). c1 = c2 \<and> k1 = k2 \<longrightarrow> time_step t1 + 2 \<le> time_step t2) log"

lemma time_step_nonneg: "0 \<le> t \<Longrightarrow> time_step t = t div 10 ^ 9 div 30"
  by (simp add: time_step_def otpStepSeconds_def signed_divide_int_def sgn_if)

lemma time_step_mono: "0 \<le> t \<Longrightarrow> t \<le> t' \<Longrightarrow> time_step t \<le> time_step t'"
  by (simp add: time_step_nonneg zdiv_mono1)

text \<open>Two times less than two steps apart are less than the ring's memory apart.\<close>

lemma time_step_close:
  assumes "0 \<le> t" "t \<le> t'" "time_step t' \<le> time_step t + 1"
  shows "t' < t + otpReplayTTL"
proof -
  have "t' div 10 ^ 9 div 30 \<le> t div 10 ^ 9 div 30 + 1" using assms time_step_nonneg[of t] time_step_nonneg[of t'] by simp
  then have "t' < t + 60 * 10 ^ 9 + 30 * 10 ^ 9" by simp
  then show ?thesis by (simp add: otpReplayTTL_def otpStepSeconds_def)
qed

lemma ring_live_sweep: "ring_live now (Sweep now used) k = ring_live now used k"
  by (auto simp: ring_live_def Sweep_def split: option.split)

lemma Verify_Accepted:
  assumes "Verify valid now c secret code used = (Accepted, used')"
  shows "valid code secret now" "used' = used(replayKey c (time_step now) code \<mapsto> now + otpReplayTTL)"
    "\<not> ring_live now used (replayKey c (time_step now) code)" "\<not> ring_live now used (replayKey c (time_step now - 1) code)"
    "\<not> ring_live now used (replayKey c (time_step now + 1) code)"
  using assms by (auto simp: Verify_def Let_def split: if_splits)

lemma Verify_refused: "Verify valid now c secret code used = (ans, used') \<Longrightarrow> ans \<noteq> Accepted \<Longrightarrow> used' = used"
  by (auto simp: Verify_def Let_def split: if_splits)

lemma ring_live_upd: "ring_live now (used(k \<mapsto> now + otpReplayTTL)) k' \<longleftrightarrow> k' = k \<or> ring_live now used k'"
  by (auto simp: ring_live_def otpReplayTTL_def otpStepSeconds_def)

lemma ring_live_earlier: "ring_live now used k \<Longrightarrow> t \<le> now \<Longrightarrow> ring_live t used k"
  by (auto simp: ring_live_def split: option.splits)

text \<open>The ring at a time: each accepted code is remembered with its expiry.\<close>

definition remembered :: "int \<Rightarrow> otp_state \<Rightarrow> bool" where
  "remembered now s \<longleftrightarrow> (\<forall>(t, c, code) \<in> set (snd s). 0 \<le> t \<and> t \<le> now \<and>
     (now < t + otpReplayTTL \<longrightarrow> (\<exists>x \<ge> t + otpReplayTTL. fst s (replayKey c (time_step t) code) = Some x)))"

lemma otp_step_ok:
  assumes "remembered t s" "apart (snd s)" "0 \<le> t" "t \<le> now"
  shows "remembered now (otp_step valid (now, op) s) \<and> apart (snd (otp_step valid (now, op) s))"
proof -
  obtain used log where s: "s = (used, log)" by force
  have later: "remembered now s" using assms(1,4) by (auto simp: remembered_def)
  show ?thesis
  proof (cases op)
    case DoSweep
    have "remembered now (Sweep now used, log)" using later unfolding remembered_def s Sweep_def by fastforce
    then show ?thesis using assms(2) DoSweep s by (simp add: otp_step_def)
  next
    case (DoVerify c secret code)
    obtain ans used' where V: "Verify valid now c secret code used = (ans, used')" by force
    show ?thesis
    proof (cases "ans = Accepted")
      case False
      then show ?thesis using DoVerify V Verify_refused[OF V False] later assms(2) s by (simp add: otp_step_def)
    next
      case True
      note A = Verify_Accepted[OF V[unfolded True]]
      have old: "time_step t1 + 2 \<le> time_step now" if "(t1, c, code) \<in> set log" for t1
      proof (rule ccontr)
        assume n: "\<not> time_step t1 + 2 \<le> time_step now"
        have t1: "0 \<le> t1" "t1 \<le> now" "now < t1 + otpReplayTTL \<longrightarrow> (\<exists>x \<ge> t1 + otpReplayTTL. used (replayKey c (time_step t1) code) = Some x)"
          using later that by (auto simp: remembered_def s)
        have "now < t1 + otpReplayTTL" using time_step_close[OF t1(1,2)] n by simp
        then have "ring_live now used (replayKey c (time_step t1) code)" using t1(3) by (auto simp: ring_live_def)
        moreover have "time_step t1 = time_step now \<or> time_step t1 = time_step now - 1" using time_step_mono[OF t1(1,2)] n by arith
        ultimately show False using A(3,4) by auto
      qed
      have eq: "otp_step valid (now, op) s = (used', (now, c, code) # log)" using DoVerify V True by (simp add: otp_step_def s)
      have "remembered now (used', (now, c, code) # log)"
        using later assms(3,4) by (auto simp: remembered_def s A(2))
      moreover have "apart ((now, c, code) # log)" using assms(2) old by (auto simp: apart_def s)
      ultimately show ?thesis by (simp add: eq)
    qed
  qed
qed

lemma otp_run_ok:
  "remembered t s \<Longrightarrow> apart (snd s) \<Longrightarrow> 0 \<le> t \<Longrightarrow> clocked t ops \<Longrightarrow> apart (snd (otp_run valid ops s))"
proof (induction ops arbitrary: s t)
  case (Cons x ops)
  obtain now op where x: "x = (now, op)" by force
  have o: "remembered now (otp_step valid x s)" "apart (snd (otp_step valid x s))"
    using otp_step_ok[OF Cons.prems(1-3), of now valid op] Cons.prems(4) x by auto
  have "apart (snd (otp_run valid ops (otp_step valid x s)))"
    by (rule Cons.IH[OF o]) (use Cons.prems(3,4) x in auto)
  then show ?case by (simp add: otp_run_def)
qed (simp add: otp_run_def)

section \<open>Properties\<close>

text \<open>
  Property C29. Whatever is verified and swept in whatever order, two acceptances of the same code under the
  same credential are at least two time steps of thirty seconds apart.
\<close>

theorem otp_not_reused_at_once:
  assumes "clocked 0 ops" "i < j" "j < length (snd (otp_run valid ops (Map.empty, [])))"
    "snd (otp_run valid ops (Map.empty, [])) ! j = (t1, c, code)" "snd (otp_run valid ops (Map.empty, [])) ! i = (t2, c, code)"
  shows "time_step t1 + 2 \<le> time_step t2"
proof -
  have "apart (snd (otp_run valid ops (Map.empty, [])))"
    by (rule otp_run_ok[OF _ _ order_refl assms(1)]) (simp_all add: remembered_def apart_def)
  then show ?thesis using sorted_wrt_nth_less[OF _ assms(2,3)] assms(4,5) unfolding apart_def by fastforce
qed

text \<open>Codes that are good in their own step and the two next to it, as the library documents its skew of one.\<close>

definition example_gen :: "int \<Rightarrow> string" where
  "example_gen n = (if n = 100 then ''123456'' else ''654321'')"

definition example_valid :: "string \<Rightarrow> string \<Rightarrow> int \<Rightarrow> bool" where
  "example_valid code secret now \<longleftrightarrow> code \<in> example_gen ` {time_step now - 1, time_step now, time_step now + 1}"

lemma example_step: "0 \<le> n \<Longrightarrow> time_step (n * 30 * 10 ^ 9) = n"
  by (simp add: time_step_nonneg)

text \<open>
  The ring looks at the present step and its neighbours, but a code that is good in three steps can be
  used two steps apart: a code that was accepted in the step before its own is accepted again in the step after
  it, well within the time the ring remembers.
\<close>

theorem otp_replay_gap:
  assumes "\<And>code now. valid code secret now \<longleftrightarrow> code \<in> gen ` {time_step now - 1, time_step now, time_step now + 1}"
    "time_step t1 = n - 1" "time_step t2 = n + 1"
  shows "\<exists>used used'. Verify valid t1 c secret (gen n) Map.empty = (Accepted, used) \<and> Verify valid t2 c secret (gen n) used = (Accepted, used')"
proof -
  have v: "valid (gen n) secret t1" "valid (gen n) secret t2" using assms by auto
  have "Verify valid t1 c secret (gen n) Map.empty = (Accepted, [replayKey c (n - 1) (gen n) \<mapsto> t1 + otpReplayTTL])"
    using v(1) assms(2) by (simp add: Verify_def Let_def ring_live_def)
  moreover have "fst (Verify valid t2 c secret (gen n) [replayKey c (n - 1) (gen n) \<mapsto> t1 + otpReplayTTL]) = Accepted"
    using v(2) assms(3) by (simp add: Verify_def Let_def ring_live_def replayKey_step)
  ultimately show ?thesis by (metis prod.collapse)
qed

theorem otp_replay_gap_witness:
  "\<exists>used used'. Verify example_valid (99 * 30 * 10 ^ 9) 1 ''S'' ''123456'' Map.empty = (Accepted, used)
    \<and> Verify example_valid (101 * 30 * 10 ^ 9) 1 ''S'' ''123456'' used = (Accepted, used')"
proof -
  have "time_step (99 * 30 * 10 ^ 9) = 100 - 1" "time_step (101 * 30 * 10 ^ 9) = 100 + 1" by (simp_all only: example_step)
  from otp_replay_gap[OF example_valid_def this] show ?thesis by (simp add: example_gen_def)
qed

theorem otp_not_reused_at_once_witness:
  "\<exists>t1 t2. snd (otp_run example_valid [(99 * 30 * 10 ^ 9, DoVerify 1 ''S'' ''123456''), (101 * 30 * 10 ^ 9, DoVerify 1 ''S'' ''123456'')]
      (Map.empty, [])) = [(t2, 1, ''123456''), (t1, 1, ''123456'')] \<and> time_step t1 + 2 \<le> time_step t2"
proof -
  let ?ops = "[(99 * 30 * 10 ^ 9, DoVerify 1 ''S'' ''123456''), (101 * 30 * 10 ^ 9, DoVerify 1 ''S'' ''123456'')]"
  have t: "time_step (99 * 30 * 10 ^ 9) = 99" "time_step (101 * 30 * 10 ^ 9) = 101" by (simp_all only: example_step)
  have "clocked 0 ?ops" by simp
  have r: "snd (otp_run example_valid ?ops (Map.empty, [])) = [(101 * 30 * 10 ^ 9, 1, ''123456''), (99 * 30 * 10 ^ 9, 1, ''123456'')]"
    using t by (simp add: otp_run_def otp_step_def Verify_def Let_def example_valid_def example_gen_def ring_live_def replayKey_step)
  show ?thesis
    using otp_not_reused_at_once[OF \<open>clocked 0 ?ops\<close>, of 0 1 example_valid "99 * 30 * 10 ^ 9" 1 "''123456''" "101 * 30 * 10 ^ 9"] unfolding r
    by simp
qed

end
