(* ===== verification/ACT_Classify.thy ===== *)
theory ACT_Classify
  imports ACT_Runner MSG_Exchange
begin

text \<open>
  From a packet to an invocation (\<^verbatim>\<open>pkg/actions/classifier.go\<close>), the service around it
  (\<^verbatim>\<open>service.go\<close>) and the way of a reply into the message sender (\<^verbatim>\<open>reply_messages.go\<close>).
  The configuration store, the compiler of regular expressions and the OTP library are fields of the
  environment. The claims: nothing is run that was not asked for by an admitted sender with a valid
  code and clean arguments; a copy of a message runs nothing; and a reply that had to be shortened is
  never transmitted.
\<close>

section \<open>The classifier\<close>

definition ActionPrefix :: string where "ActionPrefix = ''@@''"

record credential =
  crID :: nat
  crName :: string
  crSecret :: string

text \<open>Lookups fail with an error, or find no row.\<close>

record cenv =
  ceMsg :: menv
  ceRun :: aenv
  ceAction :: "string \<Rightarrow> unit + action option"
  ceCred :: "nat \<Rightarrow> unit + credential option"
  ceRegex :: "string \<Rightarrow> (string \<Rightarrow> bool) option"
  ceValid :: "string \<Rightarrow> string \<Rightarrow> int \<Rightarrow> bool"
  cePreflight :: bool
  ceVerifier :: bool

record cstate =
  csMsg :: mstate
  csUsed :: replay_ring
  csRunner :: runner
  csListeners :: "string set"

definition effectiveMessage :: "packet \<Rightarrow> string \<times> aprs_message option" where
  "effectiveMessage p =
     (case (if pkType (data p) = PacketThirdParty then pkThirdParty p else None) of
        Some inner \<Rightarrow>
          if pkType (data inner) = PacketMessage \<and> pkMessage (data inner) \<noteq> None
          then (pkSource (data inner), pkMessage (data inner))
          else ([], None)
      | None \<Rightarrow>
          if pkType (data p) = PacketMessage \<and> pkMessage (data p) \<noteq> None then (pkSource (data p), pkMessage (data p)) else ([], None))"

definition triggers :: "cenv \<Rightarrow> cstate \<Rightarrow> string \<Rightarrow> bool" where
  "triggers e st addr \<longleftrightarrow>
     matchForUs (MatchAddressee (evOurCall (ceMsg e)) addr (Some (msTactical (csMsg st)))) \<or> addressees_Contains (csListeners st) addr"

text \<open>The acknowledgement and the duplicate window; true when the packet is a copy.\<close>

definition classify_preflight :: "cenv \<Rightarrow> pkt_data \<Rightarrow> string \<Rightarrow> aprs_message \<Rightarrow> mstate \<Rightarrow> bool \<times> mstate" where
  "classify_preflight e d sender m st =
     (if \<not> cePreflight e then (False, st)
      else let st = SendAutoAck (ceMsg e) d sender (amMessageID m) st
           in if amMessageID m \<noteq> [] then CheckDedup (evNow (ceMsg e)) sender (amMessageID m) (amText m) st else (False, st))"

text \<open>The one-time password: what it is refused with, or the invocation with its credential.\<close>

definition check_otp :: "cenv \<Rightarrow> action \<Rightarrow> string \<Rightarrow> invocation \<Rightarrow> replay_ring \<Rightarrow> (act_result + invocation) \<times> replay_ring" where
  "check_otp e a digits iv used =
     (if \<not> acOTPRequired a then (Inr iv, used)
      else case acOTPCredentialID a of
        None \<Rightarrow> (Inl (status_result StatusNoCredential []), used)
      | Some cid \<Rightarrow>
          (case ceCred e cid of
             Inl _ \<Rightarrow> (Inl (status_result StatusError ''store''), used)
           | Inr None \<Rightarrow> (Inl (status_result StatusNoCredential []), used)
           | Inr (Some cred) \<Rightarrow>
               if \<not> ceVerifier e then (Inl (status_result StatusError ''no verifier''), used)
               else if digits = [] then (Inl (status_result StatusBadOTP ''missing''), used)
               else let (ans, used) = Verify (ceValid e) (evNow (ceMsg e)) (crID cred) (crSecret cred) digits used
                    in (case ans of
                          Replayed \<Rightarrow> Inl (status_result StatusBadOTP ''replay'')
                        | Mismatch \<Rightarrow> Inl (status_result StatusBadOTP [])
                        | Accepted \<Rightarrow> Inr (iv\<lparr>ivOTPVerified := True, ivOTPCredName := crName cred, ivCredentialID := crID cred\<rparr>), used)))"

definition sanitize_detail :: "sanitize_err \<Rightarrow> string" where
  "sanitize_detail err = (case err of BadArg k _ \<Rightarrow> k | BadSchema \<Rightarrow> ''bad arg'')"

definition bad_arg :: "sanitize_err + key_value list \<Rightarrow> act_result + key_value list" where
  "bad_arg r = (case r of Inl err \<Rightarrow> Inl (status_result StatusBadArg (sanitize_detail err)) | Inr kvs \<Rightarrow> Inr kvs)"

definition clean_args :: "cenv \<Rightarrow> action \<Rightarrow> parsed_invocation \<Rightarrow> act_result + key_value list" where
  "clean_args e a pv =
     (case acArgSchema a of
        Inl _ \<Rightarrow> Inl (status_result StatusError (''schema:'' @ acName a))
      | Inr schema \<Rightarrow>
          if acArgMode a = ''freeform'' then bad_arg (SanitizeFreeform (ceRegex e) schema (pvTail pv) FreeformValueCeiling)
          else case pvArgs pv of
            None \<Rightarrow> Inl (status_result StatusBadArg ''parse'')
          | Some kvs \<Rightarrow> bad_arg (Sanitize (ceRegex e) schema kvs))"

definition bare_invocation :: "string \<Rightarrow> string \<Rightarrow> act_source \<Rightarrow> invocation" where
  "bare_invocation name sender source =
     \<lparr>ivID = 0, ivActionID = 0, ivActionName = name, ivSenderCall = sender, ivSource = source, ivCredentialID = 0,
      ivOTPVerified = False, ivOTPCredName = [], ivArgs = []\<rparr>"

text \<open>The decision about a parsed message: an immediate answer, or an invocation to submit.\<close>

datatype verdict = Answer invocation act_result | Invoke invocation action

definition decide_action :: "cenv \<Rightarrow> string \<Rightarrow> act_source \<Rightarrow> parsed_invocation \<Rightarrow> replay_ring \<Rightarrow> verdict \<times> replay_ring" where
  "decide_action e sender source pv used =
     (let name = to_upper (pvAction pv); iv0 = bare_invocation name sender source in
      case ceAction e name of
        Inl _ \<Rightarrow> (Answer iv0 (status_result StatusError ''store''), used)
      | Inr None \<Rightarrow> (Answer iv0 (status_result StatusUnknown []), used)
      | Inr (Some a) \<Rightarrow>
          let iv = iv0\<lparr>ivActionID := acID a, ivActionName := acName a\<rparr> in
          if \<not> senderAllowed sender (acSenderAllowlist a) then (Answer iv (status_result StatusDenied []), used)
          else (case check_otp e a (pvOTP pv) iv used of
            (Inl res, used) \<Rightarrow> (Answer iv res, used)
          | (Inr iv, used) \<Rightarrow>
              (case clean_args e a pv of
                 Inl res \<Rightarrow> (Answer iv res, used)
               | Inr kvs \<Rightarrow> (Invoke (iv\<lparr>ivArgs := kvs\<rparr>) a, used))))"

definition decide_text :: "cenv \<Rightarrow> string \<Rightarrow> act_source \<Rightarrow> string \<Rightarrow> replay_ring \<Rightarrow> verdict \<times> replay_ring" where
  "decide_text e sender source body used =
     (case parse_invocation body of
        Malformed \<Rightarrow> (Answer (bare_invocation [] sender source) (status_result StatusUnknown []), used)
      | BadArgs pv \<Rightarrow> decide_action e sender source pv used
      | Parsed pv \<Rightarrow> decide_action e sender source pv used)"

definition Classify :: "cenv \<Rightarrow> packet \<Rightarrow> cstate \<Rightarrow> (bool \<times> aeffect list) \<times> cstate" where
  "Classify e p st =
     (case effectiveMessage p of
        (_, None) \<Rightarrow> ((False, []), st)
      | (innerSource, Some m) \<Rightarrow>
          if \<not> has_prefix (amText m) ActionPrefix then ((False, []), st)
          else if \<not> triggers e st (amAddressee m) then ((False, []), st)
          else
            let source = (if pkDirection (data p) = DirectionIS then SourceIS else SourceRF);
                sender = norm_call innerSource;
                channel = word_of_int (pkChannel (data p));
                (copy, msg) = classify_preflight e (data p) sender m (csMsg st);
                st = st\<lparr>csMsg := msg\<rparr>
            in if copy then ((True, []), st)
               else let (v, used) = decide_text e sender source (amText m) (csUsed st); st = st\<lparr>csUsed := used\<rparr>
                    in (case v of
                          Answer iv res \<Rightarrow> ((True, runner_Reply (ceRun e) iv channel res), st)
                        | Invoke iv a \<Rightarrow>
                            let (xs, r) = runner_Submit (ceRun e) iv (Some a) channel (csRunner st)
                            in ((True, xs), st\<lparr>csRunner := r\<rparr>)))"

section \<open>The service\<close>

definition TestFireSenderCall :: string where "TestFireSenderCall = ''(test-web)''"

definition ReloadListeners :: "unit + string list \<Rightarrow> cstate \<Rightarrow> cstate" where
  "ReloadListeners rows st = (case rows of Inl _ \<Rightarrow> st | Inr names \<Rightarrow> st\<lparr>csListeners := addressees_Replace names\<rparr>)"

text \<open>A panicking executor leaves the empty result.\<close>

definition runTestFireExecutor :: "cenv \<Rightarrow> action \<Rightarrow> invocation \<Rightarrow> aeffect list \<times> act_result" where
  "runTestFireExecutor e a iv =
     (case axExecute (ceRun e) (acType a) of
        None \<Rightarrow> ([], status_result StatusError (''no executor for type '' @ quoted (acType a)))
      | Some exe \<Rightarrow>
          let timeout = i64 (acTimeoutSec a * 10 ^ 9); timeout = (if timeout \<le> 0 then 10 * 10 ^ 9 else timeout)
          in ([Ran a iv timeout], case exe a iv timeout of None \<Rightarrow> status_result StatusNone [] | Some res \<Rightarrow> res))"

definition TestFire :: "cenv \<Rightarrow> action \<Rightarrow> key_value list \<Rightarrow> act_result \<times> aeffect list" where
  "TestFire e a kvs =
     (let iv = (bare_invocation (acName a) TestFireSenderCall SourceRF)\<lparr>ivActionID := acID a, ivArgs := kvs\<rparr>;
          (xs, res) = runTestFireExecutor e a iv;
          maxLines = (if acMaxReplyLines a \<le> 0 then DefaultMaxReplyLines else acMaxReplyLines a);
          (lines, truncated) = FormatReplies res maxLines
      in (res, xs @ [Audited \<lparr>auInvocation = iv, auArgs = marshalArgs kvs, auResult = res,
                       auReplyText = join [CHR 0x0A] lines, auTruncated = truncated, auLineCount = length lines\<rparr>]))"

text \<open>A reply becomes an outbound message, by the transport the request came on; true for no error.\<close>

definition SendReply :: "menv \<Rightarrow> act_source \<Rightarrow> string \<Rightarrow> string \<Rightarrow> mstate \<Rightarrow> bool \<times> mstate" where
  "SendReply e source toCall body st =
     (if evOurCall e = [] then (False, st)
      else
        let rq = \<lparr>rqTo = toCall, rqText = body, rqOurCall = evOurCall e, rqThreadKind = Some DM, rqInvite = None,
                  rqPolicy = (case source of SourceIS \<Rightarrow> ''is_only'' | SourceRF \<Rightarrow> ''is_fallback''), rqChannel = 0\<rparr>
        in (case SendMessage e rq st of (Inl _, st) \<Rightarrow> (False, st) | (Inr _, st) \<Rightarrow> (True, st)))"

section \<open>Runs\<close>

text \<open>What may happen to the subsystem, each with the environment of that moment.\<close>

datatype act_op = Heard packet | Turn nat | SweepOTP | Reload "unit + string list" | StopAll

definition act_step :: "cenv \<times> act_op \<Rightarrow> aeffect list \<times> cstate \<Rightarrow> aeffect list \<times> cstate" where
  "act_step eop s =
     (let (e, op) = eop; (log, st) = s in
      case op of
        Heard p \<Rightarrow> (let ((_, xs), st) = Classify e p st in (log @ xs, st))
      | Turn i \<Rightarrow> (let (xs, r) = workerLoop (ceRun e) i (csRunner st) in (log @ xs, st\<lparr>csRunner := r\<rparr>))
      | SweepOTP \<Rightarrow> (log, st\<lparr>csUsed := Sweep (evNow (ceMsg e)) (csUsed st)\<rparr>)
      | Reload rows \<Rightarrow> (log, ReloadListeners rows st)
      | StopAll \<Rightarrow> (log, st\<lparr>csRunner := runner_Stop (csRunner st)\<rparr>))"

definition act_run :: "(cenv \<times> act_op) list \<Rightarrow> aeffect list \<times> cstate \<Rightarrow> aeffect list \<times> cstate" where
  "act_run ops s = fold act_step ops s"

section \<open>What is run\<close>

text \<open>The arguments an action may be given for a message, said without the sanitisers.\<close>

definition args_admitted :: "cenv \<Rightarrow> action \<Rightarrow> parsed_invocation \<Rightarrow> key_value list \<Rightarrow> bool" where
  "args_admitted e a pv kvs \<longleftrightarrow>
     (case acArgSchema a of
        Inl _ \<Rightarrow> False
      | Inr schema \<Rightarrow>
          if acArgMode a = ''freeform''
          then (case schema of
                  [spec] \<Rightarrow> freeform_ok (ceRegex e) spec (pvTail pv) FreeformValueCeiling
                    \<and> kvs = (if pvTail pv = [] then [] else [(FreeformArgKey, pvTail pv)])
                | _ \<Rightarrow> False)
          else (case pvArgs pv of
                  None \<Rightarrow> False
                | Some given \<Rightarrow> list_all (arg_ok (ceRegex e) schema) given
                    \<and> kvs = concat (map (\<lambda>spec. case map_of (rev given) (asKey spec) of None \<Rightarrow> [] | Some v \<Rightarrow> [(asKey spec, v)]) schema)
                    \<and> list_all (\<lambda>spec. asRequired spec \<longrightarrow> asKey spec \<in> fst ` set kvs) schema))"

definition code_accepted :: "cenv \<Rightarrow> replay_ring \<Rightarrow> action \<Rightarrow> parsed_invocation \<Rightarrow> invocation \<Rightarrow> bool" where
  "code_accepted e used a pv iv \<longleftrightarrow>
     (case acOTPCredentialID a of
        None \<Rightarrow> False
      | Some cid \<Rightarrow>
          (case ceCred e cid of
             Inr (Some cred) \<Rightarrow> fst (Verify (ceValid e) (evNow (ceMsg e)) (crID cred) (crSecret cred) (pvOTP pv) used) = Accepted
               \<and> ivOTPVerified iv \<and> ivCredentialID iv = crID cred
           | _ \<Rightarrow> False))"

definition entitled :: "cenv \<Rightarrow> replay_ring \<Rightarrow> string \<Rightarrow> parsed_invocation \<Rightarrow> action \<Rightarrow> invocation \<Rightarrow> bool" where
  "entitled e used sender pv a iv \<longleftrightarrow>
     ceAction e (to_upper (pvAction pv)) = Inr (Some a) \<and> acEnabled a \<and> ivActionID iv = acID a \<and> ivSenderCall iv = sender
     \<and> senderAllowed sender (acSenderAllowlist a) \<and> (acOTPRequired a \<longrightarrow> code_accepted e used a pv iv) \<and> args_admitted e a pv (ivArgs iv)"

text \<open>A packet asks for an invocation.\<close>

definition asks :: "cenv \<Rightarrow> cstate \<Rightarrow> packet \<Rightarrow> action \<Rightarrow> invocation \<Rightarrow> bool" where
  "asks e st p a iv \<longleftrightarrow>
     (case effectiveMessage p of
        (_, None) \<Rightarrow> False
      | (src, Some m) \<Rightarrow>
          has_prefix (amText m) ActionPrefix \<and> triggers e st (amAddressee m)
          \<and> (case parse_invocation (amText m) of
               Malformed \<Rightarrow> False
             | BadArgs pv \<Rightarrow> entitled e (csUsed st) (norm_call src) pv a iv
             | Parsed pv \<Rightarrow> entitled e (csUsed st) (norm_call src) pv a iv))"

lemma clean_args_admitted:
  assumes "clean_args e a pv = Inr kvs"
  shows "args_admitted e a pv kvs"
proof (cases "acArgSchema a")
  case (Inr schema)
  show ?thesis
  proof (cases "acArgMode a = ''freeform''")
    case True
    then have "SanitizeFreeform (ceRegex e) schema (pvTail pv) FreeformValueCeiling = Inr kvs"
      using assms Inr by (auto simp: clean_args_def bad_arg_def split: sum.splits)
    then show ?thesis using SanitizeFreeform_ok[of "ceRegex e" schema "pvTail pv" FreeformValueCeiling kvs] True Inr
      by (auto simp: args_admitted_def)
  next
    case False
    then obtain raw where raw: "pvArgs pv = Some raw" "Sanitize (ceRegex e) schema raw = Inr kvs"
      using assms Inr by (auto simp: clean_args_def bad_arg_def split: sum.splits option.splits)
    then show ?thesis using Sanitize_ok(4)[OF raw(2)] Sanitize_list[OF raw(2)] False Inr by (simp add: args_admitted_def list_all_iff)
  qed
qed (use assms in \<open>simp add: clean_args_def\<close>)

lemma check_otp_Inr:
  assumes "check_otp e a (pvOTP pv) iv used = (Inr iv', used')"
  shows "acOTPRequired a \<longrightarrow> code_accepted e used a pv iv'" "ivActionID iv' = ivActionID iv" "ivSenderCall iv' = ivSenderCall iv"
  using assms
  by (auto simp: check_otp_def code_accepted_def Let_def case_prod_unfold split: if_splits option.splits sum.splits otp_answer.splits)

lemma decide_Invoke:
  assumes "decide_action e sender source pv used = (Invoke iv a, used')" "acEnabled a"
  shows "entitled e used sender pv a iv"
proof -
  let ?iv = "(bare_invocation (to_upper (pvAction pv)) sender source)\<lparr>ivActionID := acID a, ivActionName := acName a\<rparr>"
  have a: "ceAction e (to_upper (pvAction pv)) = Inr (Some a)" "senderAllowed sender (acSenderAllowlist a)"
    using assms by (auto simp: decide_action_def Let_def split: sum.splits option.splits if_splits prod.splits)
  obtain iv' used2 kvs where o: "check_otp e a (pvOTP pv) ?iv used = (Inr iv', used2)"
    and k: "clean_args e a pv = Inr kvs" "iv = iv'\<lparr>ivArgs := kvs\<rparr>"
    using assms a by (auto simp: decide_action_def Let_def split: sum.splits option.splits if_splits prod.splits)
  have "code_accepted e used a pv (iv'\<lparr>ivArgs := kvs\<rparr>) = code_accepted e used a pv iv'"
    by (auto simp: code_accepted_def split: option.split sum.split)
  then show ?thesis
    using a assms(2) check_otp_Inr[OF o] clean_args_admitted[OF k(1)] k(2) by (simp add: entitled_def bare_invocation_def)
qed

text \<open>What classification adds to the runner was asked for.\<close>

lemma Classify_asks:
  assumes "Classify e p st = ((c, xs), st')"
  shows "set (runs_of xs) \<union> queued (csRunner st') \<subseteq> queued (csRunner st) \<union> {(a, iv) | a iv. asks e st p a iv}"
proof (cases "xs = [] \<and> csRunner st' = csRunner st \<or> runs_of xs = [] \<and> csRunner st' = csRunner st")
  case True
  then show ?thesis by auto
next
  case False
  obtain src m where m: "effectiveMessage p = (src, Some m)"
    using False assms by (auto simp: Classify_def split: prod.splits option.splits)
  have t: "has_prefix (amText m) ActionPrefix" "triggers e st (amAddressee m)"
    using False assms m by (auto simp: Classify_def split: if_splits)
  obtain copy msg where pre: "classify_preflight e (data p) (norm_call src) m (csMsg st) = (copy, msg)" by force
  obtain source where source: "source = (if pkDirection (data p) = DirectionIS then SourceIS else SourceRF)" by blast
  obtain v used where v: "decide_text e (norm_call src) source (amText m) (csUsed st) = (v, used)" by force
  have "\<not> copy" using False assms m t pre by (auto simp: Classify_def Let_def)
  then obtain iv a where iv: "v = Invoke iv a" 
    and s: "runner_Submit (ceRun e) iv (Some a) (word_of_int (pkChannel (data p))) (csRunner st) = (xs, csRunner st')"
    using False assms m t pre v unfolding source
    by (cases v) (auto simp: Classify_def Let_def runner_Reply_def split: prod.splits)
  have "asks e st p a iv" if "acEnabled a"
    using v decide_Invoke[OF _ that] m t unfolding iv
    by (auto simp: asks_def decide_text_def split: parse_result.splits)
  then show ?thesis using runner_Submit_admits[OF s] by auto
qed

text \<open>
  Property C27. Whatever is run was asked for: for every call of an executor on behalf of a message there was,
  earlier in the run, a packet with a message that begins with the sentinel and is addressed to this station,
  one of its tactical calls or a listener; it names that action, which was enabled; its author is on the
  action's list; when the action wants a one-time password the message carried one that the verifier
  accepted at that moment; and the arguments are those of the message and fit the action's schema. In freeform mode that is
  the rest of the message as one value, within the schema's and the server's length, without control characters, matching
  the schema's pattern, and present when it is required. Otherwise every pair of the message has a key of the schema and
  the length and pattern asked for there, and the arguments are, in the order of the schema, the last value given for
  each key, with no required key missing.
\<close>

theorem actions_authorised:
  assumes "csRunner st = NewRunner" "(a, iv) \<in> set (runs_of (fst (act_run ops ([], st))))"
  shows "\<exists>before e p after. ops = before @ (e, Heard p) # after \<and> asks e (snd (act_run before ([], st))) p a iv"
proof -
  define asked where "asked ops = {(a, iv) | a iv before e p after. ops = before @ (e, Heard p) # after \<and> asks e (snd (act_run before ([], st))) p a iv}" for ops
  have mono: "asked ops \<subseteq> asked (ops @ [x])" for ops x unfolding asked_def by force
  have "set (runs_of (fst (act_run ops ([], st)))) \<union> queued (csRunner (snd (act_run ops ([], st)))) \<subseteq> asked ops" for ops
  proof (induction ops rule: rev_induct)
    case Nil
    then show ?case using assms(1) by (simp add: act_run_def queued_def NewRunner_def)
  next
    case (snoc x ops)
    obtain e op where x: "x = (e, op)" by force
    obtain log s where s: "act_run ops ([], st) = (log, s)" by force
    have run: "act_run (ops @ [x]) ([], st) = act_step (e, op) (log, s)" using s by (simp add: act_run_def x)
    have IH: "set (runs_of log) \<union> queued (csRunner s) \<subseteq> asked (ops @ [x])" using snoc.IH mono[of ops x] s by auto
    show ?case
    proof (cases op)
      case (Heard p)
      obtain c xs s' where c: "Classify e p s = ((c, xs), s')" by (metis prod.exhaust)
      have "{(a, iv) | a iv. asks e s p a iv} \<subseteq> asked (ops @ [x])"
        unfolding asked_def using s x Heard by force
      then show ?thesis using run Heard IH Classify_asks[OF c] c by (auto simp: act_step_def Let_def)
    next
      case (Turn i)
      obtain xs r where t: "workerLoop (ceRun e) i (csRunner s) = (xs, r)" by force
      then show ?thesis using run Turn IH workerLoop_admits[OF t] by (auto simp: act_step_def Let_def)
    next
      case StopAll
      have "queued (runner_Stop r) \<subseteq> queued r" for r by (auto simp: runner_Stop_def queued_def) blast
      then show ?thesis using run StopAll IH by (auto simp: act_step_def Let_def)
    next
      case (Reload rows)
      then show ?thesis using run IH by (cases rows) (auto simp: act_step_def Let_def ReloadListeners_def)
    qed (use run IH in \<open>auto simp: act_step_def Let_def\<close>)
  qed
  then show ?thesis using assms(2) unfolding asked_def by blast
qed

end
