(* ===== verification/ACT_Answers.thy ===== *)
theory ACT_Answers
  imports ACT_Classify
begin

text \<open>
  What a sender of actions gets back: a copy of a message is acknowledged but runs nothing, and a reply that had to
  be shortened is handed to the message sender, reported as sent and never transmitted.
\<close>

section \<open>Copies\<close>

text \<open>The duplicate window knows a message until some time.\<close>

definition known :: "int \<Rightarrow> string \<Rightarrow> mstate \<Rightarrow> bool" where
  "known t key st \<longleftrightarrow> (case msDedup st key of None \<Rightarrow> False | Some exp \<Rightarrow> t \<le> exp)"

definition message_key :: "string \<Rightarrow> aprs_message \<Rightarrow> string" where
  "message_key sender m = preflightDedupKey sender (amMessageID m) (amText m)"

lemma SendAutoAck_window [simp]:
  "msDedup (SendAutoAck e d peer i st) = msDedup st" "msDedupWin (SendAutoAck e d peer i st) = msDedupWin st"
  by (simp_all add: SendAutoAck_def Let_def log_effect_def split: option.split sum.split)

lemma check_key_known:
  "known t key st \<Longrightarrow> now \<le> t \<Longrightarrow> t \<le> now + msDedupWin st \<Longrightarrow> known t key (snd (check_key now k st))"
  "known t key st \<Longrightarrow> now \<le> t \<Longrightarrow> fst (check_key now key st)"
  "t \<le> now + msDedupWin st \<Longrightarrow> known t k (snd (check_key now k st))"
  "msDedupWin (snd (check_key now k st)) = msDedupWin st"
  by (auto simp: known_def check_key_def split: option.splits)

lemma preflight_known:
  assumes "known t key st" "evNow (ceMsg e) \<le> t" "t \<le> evNow (ceMsg e) + msDedupWin st"
  shows "known t key (snd (classify_preflight e d sender m st))"
  using assms check_key_known(1) by (simp add: classify_preflight_def CheckDedup_def Let_def) (simp add: known_def)

lemma preflight_window [simp]: "msDedupWin (snd (classify_preflight e d sender m st)) = msDedupWin st"
  by (simp add: classify_preflight_def CheckDedup_def Let_def check_key_known(4))

lemma Classify_msg:
  "csMsg (snd (Classify e p st)) = csMsg st \<or>
   (\<exists>src m. effectiveMessage p = (src, Some m) \<and> csMsg (snd (Classify e p st)) = snd (classify_preflight e (data p) (norm_call src) m (csMsg st)))"
  by (auto simp: Classify_def Let_def split: prod.split option.split verdict.split)

lemma Classify_heard:
  assumes "effectiveMessage p = (src, Some m)" "has_prefix (amText m) ActionPrefix" "triggers e st (amAddressee m)"
  shows "csMsg (snd (Classify e p st)) = snd (classify_preflight e (data p) (norm_call src) m (csMsg st))"
  using assms by (auto simp: Classify_def Let_def split: prod.split verdict.split)

lemma act_step_known:
  assumes "known t key (csMsg st)" "evNow (ceMsg e) \<le> t" "t \<le> evNow (ceMsg e) + msDedupWin (csMsg st)"
  shows "known t key (csMsg (snd (act_step (e, op) (log, st))))"
    "msDedupWin (csMsg (snd (act_step (e, op) (log, st)))) = msDedupWin (csMsg st)"
proof -
  have "known t key (csMsg (snd (Classify e p st))) \<and> msDedupWin (csMsg (snd (Classify e p st))) = msDedupWin (csMsg st)" for p
    using Classify_msg[of e p st] preflight_known[OF assms] assms(1) by auto
  then show "known t key (csMsg (snd (act_step (e, op) (log, st))))"
    "msDedupWin (csMsg (snd (act_step (e, op) (log, st)))) = msDedupWin (csMsg st)"
    using assms(1) by (auto simp: act_step_def Let_def case_prod_unfold ReloadListeners_def split: act_op.split sum.split)
qed

lemma act_run_known:
  assumes "known t key (csMsg (snd s))" "list_all (\<lambda>(e, _). evNow (ceMsg e) \<le> t \<and> t \<le> evNow (ceMsg e) + msDedupWin (csMsg (snd s))) ops"
  shows "known t key (csMsg (snd (act_run ops s)))"
  using assms
proof (induction ops arbitrary: s)
  case (Cons x ops)
  obtain e op where x: "x = (e, op)" by force
  obtain log st where s: "s = (log, st)" by force
  show ?case using Cons.IH[of "act_step x s"] Cons.prems act_step_known[of t key st e op log] by (simp add: act_run_def x s)
qed (simp add: act_run_def)

text \<open>
  Property C28. A copy of an action message that carries an identifier runs nothing. The classifier has the duplicate
  window that the message router shares with it. Once the message has been heard, addressed to this station or a listener,
  any packet with the same author, identifier and text that is heard within the duplicate window, by whatever route, has no
  effect on the runner and draws no reply, whatever happened in between. A message without an identifier is not compared
  with what was heard before, and runs again.
\<close>

theorem copy_runs_nothing:
  assumes "effectiveMessage p = (src, Some m)" "amMessageID m \<noteq> []" "has_prefix (amText m) ActionPrefix"
    "triggers e st (amAddressee m)" "cePreflight e"
    "effectiveMessage p' = (src', Some m')" "norm_call src' = norm_call src" "amMessageID m' = amMessageID m" "amText m' = amText m" "cePreflight e'"
    "list_all (\<lambda>(e2, _). evNow (ceMsg e) \<le> evNow (ceMsg e2) \<and> evNow (ceMsg e2) \<le> evNow (ceMsg e) + msDedupWin (csMsg st)) (ops @ [(e', Heard p')])"
  shows "act_run (ops @ [(e', Heard p')]) (log, snd (Classify e p st)) =
    (let (log, st') = act_run ops (log, snd (Classify e p st)) in (log, st'\<lparr>csMsg := csMsg (snd (Classify e' p' st'))\<rparr>))"
proof -
  define s1 where "s1 = snd (Classify e p st)"
  define t where "t = evNow (ceMsg e) + msDedupWin (csMsg st)"
  obtain log2 s2 where s2: "act_run ops (log, s1) = (log2, s2)" by force
  have "csMsg s1 = snd (classify_preflight e (data p) (norm_call src) m (csMsg st))"
    unfolding s1_def by (rule Classify_heard[OF assms(1,3,4)])
  then have "known t (message_key (norm_call src) m) (csMsg s1)" "msDedupWin (csMsg s1) = msDedupWin (csMsg st)"
    using assms(2,5) check_key_known(3)[of t "evNow (ceMsg e)"]
    by (simp_all add: classify_preflight_def Let_def CheckDedup_def message_key_def t_def check_key_known(4))
  then have "known t (message_key (norm_call src) m) (csMsg s2)"
    using act_run_known[of t _ "(log, s1)" ops] assms(11) s2 by (auto simp: t_def list_all_iff)
  then have known: "known t (message_key (norm_call src') m') (csMsg s2)" using assms(7-9) by (simp add: message_key_def)
  have "fst (classify_preflight e' (data p') (norm_call src') m' (csMsg s2))"
    using assms(2,8,10,11) check_key_known(2)[of t "message_key (norm_call src') m'" _ "evNow (ceMsg e')"] known
    by (simp add: classify_preflight_def Let_def CheckDedup_def message_key_def t_def) (simp add: known_def)
  then have "Classify e' p' s2 = ((fst (fst (Classify e' p' s2)), []), s2\<lparr>csMsg := csMsg (snd (Classify e' p' s2))\<rparr>)"
    using assms(6) by (auto simp: Classify_def Let_def split: prod.split)
  then have "act_step (e', Heard p') (log2, s2) = (log2, s2\<lparr>csMsg := csMsg (snd (Classify e' p' s2))\<rparr>)"
    by (simp add: act_step_def) (metis (no_types, lifting) append_Nil2 case_prod_conv)
  then show ?thesis using s2 by (simp add: act_run_def s1_def[symmetric])
qed

section \<open>Long replies\<close>

text \<open>A result whose reply has a line that has to be shortened, with \<open>n\<close> lines asked for.\<close>

definition first_too_long :: "act_result \<Rightarrow> int \<Rightarrow> bool" where
  "first_too_long r n \<longleftrightarrow>
     (if reStatus r = StatusOK
      then 1 < n \<and> splitNonEmptyLines (reOutput r) \<noteq> []
        \<and> MaxReplyLen < rune_count (''ok: '' @ sanitizeReplyText (hd (splitNonEmptyLines (reOutput r))))
      else reStatus r \<in> {StatusBadArg, StatusError, StatusTimeout}
        \<and> MaxReplyLen < rune_count (statusWord (reStatus r) @ '': '' @ sanitizeReplyText (reDetail r)))"

lemma first_too_long_bytes:
  assumes "first_too_long r n"
  shows "MaxReplyLen < length (hd (fst (FormatReplies r n)))"
proof (cases "reStatus r = StatusOK")
  case False
  then have "MaxReplyLen < length (formatStatusLine r)"
    using assms formatStatusLine_long[of r] shortened_bytes by (simp add: first_too_long_def)
  then show ?thesis using False by (simp add: FormatReplies_def Let_def)
next
  case True
  then obtain x xs where x: "1 < n" "splitNonEmptyLines (reOutput r) = x # xs" "MaxReplyLen < rune_count (''ok: '' @ sanitizeReplyText x)"
    using assms by (cases "splitNonEmptyLines (reOutput r)") (auto simp: first_too_long_def)
  have "MaxReplyLen < length (fst (assembleOKLine x))"
  proof (cases "MaxReplyLen < rune_count (sanitizeReplyText x)")
    case False
    then have "clampLine (sanitizeReplyText x) = (sanitizeReplyText x, False)" by (simp add: clampLine_def)
    moreover have "sanitizeReplyText x \<noteq> []" using x(3) by (auto simp: rune_count_ascii is_ascii_def MaxReplyLen_def)
    ultimately show ?thesis using x(3) shortened_bytes[OF truncateReply_shortened] by (simp add: assembleOKLine_def Let_def)
  next
    case long: True
    define c where "c = concat (take (MaxReplyLen - 1) (runes (sanitizeReplyText x))) @ ellipsis"
    have c: "clampLine (sanitizeReplyText x) = (c, True)" using long by (simp add: clampLine_def c_def)
    have big: "MaxReplyLen < length c" by (rule shortened_bytes[OF clampLine_shortened[OF c]])
    have "MaxReplyLen < length (if rune_count (''ok: '' @ c) \<le> MaxReplyLen then ''ok: '' @ c else truncateReply (''ok: '' @ c))"
      using big shortened_bytes[OF truncateReply_shortened] by auto
    then show ?thesis using c big by (auto simp: assembleOKLine_def Let_def)
  qed
  then show ?thesis using True x(1,2) by (auto simp: FormatReplies_def Let_def case_prod_unfold MaxReplyLinesCeiling_def)
qed

lemma SendWithPolicy_long:
  assumes "EffectiveMaxMessageText (msPrefs st) < length (mText row)"
  shows "silent st (snd (snd (SendWithPolicy e pol row st)))" "\<not> srRetryable (fst (SendWithPolicy e pol row st))"
  using assms by (auto simp: SendWithPolicy_def failing_def ms_update_def Let_def)

lemma SendMessage_long:
  assumes "EffectiveMaxMessageText (msPrefs st) < length (rqText rq)" "rqInvite rq = None"
  shows "silent st (snd (SendMessage e rq st))"
proof (cases "compose (evNow e) rq st")
  case (Pair x st')
  show ?thesis
  proof (cases x)
    case (Inr row)
    obtain kind p b i store where c: "Insert (new_row (evNow e) rq kind p b i) store = (row, msStore st')"
      "st' = st\<lparr>msStore := msStore st'\<rparr>" "compose_text rq = Inr b"
      using compose_Inr Pair Inr by metis
    have st': "msLog st' = msLog st" "msPrefs st' = msPrefs st"
      by (rule trans[OF arg_cong[OF c(2)]], simp)+
    have "mText row = rqText rq"
      using c(1,3) assms(2) by (auto simp: Insert_rows derive_def new_row_def compose_text_def Let_def split: if_splits thread_kind.splits)
    then have "silent st' (dispatch_first e pol sup row st')" for pol sup
      using SendWithPolicy_long[of st' row e pol] assms(1) st'(2) by (simp add: dispatch_first_def Let_def case_prod_unfold)
    then show ?thesis using Pair Inr silent_trans silent_log[OF st'(1)] by (simp add: SendMessage_def)
  next
    case (Inl err)
    then have "st' = st" using Pair compose_Inl by blast
    then show ?thesis using Pair Inl by (simp add: SendMessage_def)
  qed
qed

text \<open>
  Property C30. The reply to a failed invocation, or to one that succeeded for an action of more than one reply line,
  whose first line had to be cut at 67 characters is lost: the line is made 66 characters and an ellipsis of three bytes,
  the message sender counts bytes, and with the default text limit refuses it. Nothing is transmitted, and the caller is
  told it was sent. The station has a call sign and an identifier to spare for the addressee. (The only line of a success is cut by \<^verbatim>\<open>firstLineSnippet\<close>, short enough, and is not concerned.)
\<close>

theorem long_reply_lost:
  assumes "first_too_long r n" "mpMaxTextOverride (msPrefs st) = 0"
    "evOurCall e \<noteq> []" "toCall \<noteq> []" "fst (AllocateMsgID toCall (msStore st)) \<noteq> None"
  shows "silent st (snd (SendReply e src toCall (hd (fst (FormatReplies r n))) st))
    \<and> fst (SendReply e src toCall (hd (fst (FormatReplies r n))) st)"
proof -
  let ?l = "hd (fst (FormatReplies r n))"
  have l: "EffectiveMaxMessageText (msPrefs st) < length ?l" "?l \<noteq> []"
    using first_too_long_bytes[OF assms(1)] assms(2) by (auto simp: EffectiveMaxMessageText_def DefaultMaxMessageText_def MaxReplyLen_def Let_def)
  obtain rq where rq: "rqText rq = ?l" "rqInvite rq = None" "rqTo rq = toCall" "rqThreadKind rq = Some DM" "rqOurCall rq = evOurCall e"
    and s: "SendReply e src toCall ?l st = (case SendMessage e rq st of (Inl _, st) \<Rightarrow> (False, st) | (Inr _, st) \<Rightarrow> (True, st))"
    using assms(3) by (simp add: SendReply_def Let_def) (metis send_request.select_convs)
  have "silent st (snd (SendMessage e rq st))" by (rule SendMessage_long) (simp_all add: rq l)
  moreover have "\<not> (case fst (SendMessage e rq st) of Inl _ \<Rightarrow> True | Inr _ \<Rightarrow> False)"
    using assms(3-5) rq l(2) by (auto simp: SendMessage_def compose_def compose_text_def Let_def case_prod_unfold split: option.split)
  ultimately show ?thesis unfolding s by (auto split: prod.split sum.split)
qed

theorem long_reply_lost_witness:
  "\<exists>l. FormatReplies (status_result StatusError (replicate 70 CHR ''x'')) 1 = ([l], False)
    \<and> fst (SendReply (example_menv 0 ''K0TFU-1'') SourceRF ''NW5W-9'' l example_service)
    \<and> silent example_service (snd (SendReply (example_menv 0 ''K0TFU-1'') SourceRF ''NW5W-9'' l example_service))"
proof -
  let ?r = "status_result StatusError (replicate 70 CHR ''x'')"
  have "first_too_long ?r 1" "fst (AllocateMsgID ''NW5W-9'' (msStore example_service)) \<noteq> None" by code_simp+
  then show ?thesis
    using long_reply_lost[of ?r 1 example_service "example_menv 0 ''K0TFU-1''" "''NW5W-9''" SourceRF]
    by (intro exI[of _ "formatStatusLine ?r"])
      (simp add: example_service_def example_menv_def defaultPrefs_def FormatReplies_def Let_def status_result_def)
qed

section \<open>An example\<close>

text \<open>NW5W-9 asks K0TFU-1 for the action DOOR, with a code and an argument.\<close>

definition example_action :: action where
  "example_action =
     \<lparr>acID = 1, acName = ''DOOR'', acType = ''command'', acCommandPath = ''/bin/true'', acWorkingDir = [], acWebhookMethod = [], acWebhookURL = [],
      acWebhookHeaders = [], acWebhookBodyTemplate = [], acTimeoutSec = 10, acOTPRequired = True, acOTPCredentialID = Some 1,
      acSenderAllowlist = ''NW5W-*, K0SWE'', acArgSchema = Inr [\<lparr>asKey = ''n'', asRegex = [], asMaxLen = 0, asRequired = True\<rparr>],
      acArgMode = ''kv'', acRateLimitSec = 5, acQueueDepth = 8, acMaxReplyLines = 1, acEnabled = True\<rparr>"

definition example_cenv :: "int \<Rightarrow> cenv" where
  "example_cenv t =
     \<lparr>ceMsg = example_menv t ''K0TFU-1'',
      ceRun = \<lparr>axNow = t, axExecute = (\<lambda>_. Some (\<lambda>_ _ _. Some (status_result StatusOK []))), axSendReply = (\<lambda>_ _ _. True)\<rparr>,
      ceAction = (\<lambda>n. Inr (if n = ''DOOR'' then Some example_action else None)),
      ceCred = (\<lambda>i. Inr (Some \<lparr>crID = i, crName = ''phone'', crSecret = ''S''\<rparr>)), ceRegex = (\<lambda>_. None),
      ceValid = (\<lambda>code secret now. code = ''123456''), cePreflight = True, ceVerifier = True\<rparr>"

definition example_cstate :: cstate where
  "example_cstate = \<lparr>csMsg = example_service, csUsed = Map.empty, csRunner = NewRunner, csListeners = {}\<rparr>"

definition example_asking :: packet where
  "example_asking = Packet (fst (parseMessage (new_packet\<lparr>pkSource := ''NW5W-9'', pkDirection := DirectionRF, pkChannel := 2\<rparr>)
     (bytes_of '':K0TFU-1  :@@123456#door n=2{42''))) None"

lemma example_asking_reads:
  "\<exists>m. effectiveMessage example_asking = (''NW5W-9'', Some m) \<and> amText m = ''@@123456#door n=2'' \<and> amMessageID m = ''42'' \<and> amAddressee m = ''K0TFU-1''"
proof -
  have "case effectiveMessage example_asking of (s, Some m) \<Rightarrow> s = ''NW5W-9'' \<and> amText m = ''@@123456#door n=2'' \<and> amMessageID m = ''42''
      \<and> amAddressee m = ''K0TFU-1'' | (s, None) \<Rightarrow> False" by code_simp
  then show ?thesis by (auto split: prod.splits option.splits)
qed

lemma example_triggers: "has_prefix ''@@123456#door n=2'' ActionPrefix" "triggers (example_cenv t) example_cstate ''K0TFU-1''"
proof -
  have "has_prefix ''@@123456#door n=2'' ActionPrefix" "callAddressedToUs (norm_call ''K0TFU-1'') ''K0TFU-1''" "norm_call ''K0TFU-1'' \<noteq> []" by code_simp+
  then show "has_prefix ''@@123456#door n=2'' ActionPrefix" "triggers (example_cenv t) example_cstate ''K0TFU-1''"
    by (simp_all add: triggers_def MatchAddressee_def Let_def example_cenv_def example_menv_def)
qed

theorem copy_runs_nothing_witness:
  "\<exists>st'. act_run [(example_cenv 7, Turn 1), (example_cenv 9, Heard example_asking)] ([], snd (Classify (example_cenv 5) example_asking example_cstate)) =
     (fst (act_run [(example_cenv 7, Turn 1)] ([], snd (Classify (example_cenv 5) example_asking example_cstate))), st')"
proof -
  obtain m where m: "effectiveMessage example_asking = (''NW5W-9'', Some m)" "amText m = ''@@123456#door n=2''" "amMessageID m = ''42''" "amAddressee m = ''K0TFU-1''"
    using example_asking_reads by blast
  have e: "cePreflight (example_cenv t)" "evNow (ceMsg (example_cenv t)) = t" "msDedupWin (csMsg example_cstate) = 300 * 10 ^ 9" for t
    by (simp_all add: example_cenv_def example_menv_def example_cstate_def example_service_def)
  show ?thesis
    using copy_runs_nothing[OF m(1) _ _ _ e(1)[of 5] m(1), where ops = "[(example_cenv 7, Turn 1)]" and log = "[]" and e' = "example_cenv 9" and st = example_cstate]
      example_triggers m(2-4) e by (auto simp: Let_def split: prod.splits)
qed

theorem actions_authorised_witness:
  "\<exists>a iv before e p after. (a, iv) \<in> set (runs_of (fst (act_run [(example_cenv 5, Heard example_asking), (example_cenv 7, Turn 1)] ([], example_cstate))))
    \<and> [(example_cenv 5, Heard example_asking), (example_cenv 7, Turn 1)] = before @ (e, Heard p) # after
    \<and> asks e (snd (act_run before ([], example_cstate))) p a iv"
proof -
  let ?ops = "[(example_cenv 5, Heard example_asking), (example_cenv 7, Turn 1)]"
  let ?iv = "\<lparr>ivID = 0, ivActionID = 1, ivActionName = ''DOOR'', ivSenderCall = ''NW5W-9'', ivSource = SourceRF, ivCredentialID = 1, ivOTPVerified = True,
       ivOTPCredName = ''phone'', ivArgs = [(''n'', ''2'')]\<rparr>"
  obtain m where m: "effectiveMessage example_asking = (''NW5W-9'', Some m)" "amText m = ''@@123456#door n=2''" "amMessageID m = ''42''" "amAddressee m = ''K0TFU-1''"
    using example_asking_reads by blast
  have d: "pkDirection (data example_asking) \<noteq> DirectionIS" "norm_call ''NW5W-9'' = ''NW5W-9''" "to_upper ''door'' = ''DOOR''"
    "parse_invocation ''@@123456#door n=2'' = Parsed \<lparr>pvOTP = ''123456'', pvAction = ''door'', pvArgs = Some [(''n'', ''2'')], pvTail = ''n=2''\<rparr>"
    "senderAllowed ''NW5W-9'' ''NW5W-*, K0SWE''"
    "Sanitize (\<lambda>_. None) [\<lparr>asKey = ''n'', asRegex = [], asMaxLen = 0, asRequired = True\<rparr>] [(''n'', ''2'')] = Inr [(''n'', ''2'')]"
    by code_simp+
  have pre: "\<not> fst (classify_preflight (example_cenv 5) (data example_asking) ''NW5W-9'' m (csMsg example_cstate))"
    using m(3) by (simp add: classify_preflight_def example_cenv_def CheckDedup_def check_key_def Let_def example_cstate_def example_service_def)
  have "fst (decide_text (example_cenv 5) ''NW5W-9'' SourceRF (amText m) Map.empty) = Invoke ?iv example_action"
    using d by (simp add: m decide_text_def decide_action_def Let_def example_cenv_def example_action_def check_otp_def Verify_def ring_live_def
        clean_args_def bad_arg_def bare_invocation_def case_prod_unfold)
  then obtain used where dec: "decide_text (example_cenv 5) ''NW5W-9'' SourceRF (amText m) Map.empty = (Invoke ?iv example_action, used)"
    by (metis prod.collapse)
  obtain msg where msg: "classify_preflight (example_cenv 5) (data example_asking) ''NW5W-9'' m (csMsg example_cstate) = (False, msg)"
    using pre by (metis prod.collapse)
  have "(example_action, ?iv) \<in> set (runs_of (fst (act_run ?ops ([], example_cstate))))"
    using m example_triggers d(1) msg dec
    by (simp add: act_run_def act_step_def Classify_def d(2) Let_def example_cstate_def runner_Submit_def NewRunner_def queueFor_def
        example_action_def rate_limited_def workerLoop_def runOne_def example_cenv_def)
  then show ?thesis using actions_authorised[of example_cstate example_action ?iv ?ops] by (simp add: example_cstate_def) blast
qed

end
