(* ===== verification/ACT_Exec.thy ===== *)
theory ACT_Exec
  imports ACT_Runner
begin

text \<open>
  The executors of actions: what a command is started with (\<^verbatim>\<open>pkg/actions/cmd_executor.go\<close>), and
  the templates of webhooks with their encodings (\<^verbatim>\<open>template_filters.go\<close>, \<^verbatim>\<open>webhook_executor.go\<close>).
  The operating system's process is the argument \<open>proc\<close>. The claims: the arguments of a message reach a command in
  variables of their own only, the capture is a prefix of the output, and a template is cut into its pieces before any
  value is known.
\<close>

section \<open>Commands\<close>

definition boolStr :: "bool \<Rightarrow> string" where
  "boolStr b = (if b then ''true'' else ''false'')"

definition source_string :: "act_source \<Rightarrow> string" where
  "source_string s = (case s of SourceRF \<Rightarrow> ''rf'' | SourceIS \<Rightarrow> ''is'')"

definition isFreeformInvocation :: "invocation \<Rightarrow> bool" where
  "isFreeformInvocation iv \<longleftrightarrow> (case ivArgs iv of [(k, v)] \<Rightarrow> k = FreeformArgKey | _ \<Rightarrow> False)"

definition buildArgv :: "invocation \<Rightarrow> string list" where
  "buildArgv iv =
     [ivActionName iv, ivSenderCall iv, boolStr (ivOTPVerified iv)]
     @ (if isFreeformInvocation iv then [snd (hd (ivArgs iv))] else map (\<lambda>(k, v). k @ ''='' @ v) (ivArgs iv))"

definition env_char :: "char \<Rightarrow> bool" where
  "env_char c \<longleftrightarrow> is_upper c \<or> is_digit c \<or> c = CHR ''_''"

definition envSafe :: "string \<Rightarrow> string" where
  "envSafe k = map (\<lambda>c. if env_char c then c else CHR ''_'') (to_upper k)"

definition env_fixed :: "invocation \<Rightarrow> string list" where
  "env_fixed iv =
     [''GW_ACTION_NAME='' @ ivActionName iv, ''GW_SENDER_CALL='' @ ivSenderCall iv,
      ''GW_OTP_VERIFIED='' @ boolStr (ivOTPVerified iv), ''GW_OTP_CRED_NAME='' @ ivOTPCredName iv,
      ''GW_SOURCE='' @ source_string (ivSource iv), ''GW_INVOCATION_ID='' @ dec_string (ivID iv),
      ''PATH=/usr/local/sbin:/usr/local/bin:/usr/sbin:/usr/bin:/sbin:/bin'']"

definition buildEnv :: "invocation \<Rightarrow> string list" where
  "buildEnv iv =
     env_fixed iv
     @ (if isFreeformInvocation iv then [''GW_ARG='' @ snd (hd (ivArgs iv))]
        else map (\<lambda>(k, v). ''GW_ARG_'' @ envSafe k @ ''='' @ v) (ivArgs iv))"

text \<open>The writer behind stdout and stderr: what it holds, and how many bytes it says it took.\<close>

definition cmdOutputCap :: nat where "cmdOutputCap = 4096"

record capped_writer =
  cwBuf :: string
  cwMax :: nat
  cwN :: nat

definition capped_Write :: "string \<Rightarrow> capped_writer \<Rightarrow> nat \<times> capped_writer" where
  "capped_Write p c =
     (if cwN c \<ge> cwMax c then (length p, c)
      else let room = cwMax c - cwN c; q = (if length p > room then take room p else p)
           in (length p, c\<lparr>cwBuf := cwBuf c @ q, cwN := cwN c + length q\<rparr>))"

definition capture :: "string list \<Rightarrow> string" where
  "capture ws = cwBuf (fold (\<lambda>p c. snd (capped_Write p c)) ws \<lparr>cwBuf = [], cwMax = cmdOutputCap, cwN = 0\<rparr>)"

text \<open>\<^verbatim>\<open>filepath.Dir\<close>.\<close>

fun clean_parts :: "bool \<Rightarrow> string list \<Rightarrow> string list \<Rightarrow> string list" where
  "clean_parts rooted acc [] = rev acc"
| "clean_parts rooted acc (p # ps) =
     (if p = [] \<or> p = ''.'' then clean_parts rooted acc ps
      else if p = ''..'' then
        (case acc of
           [] \<Rightarrow> clean_parts rooted (if rooted then [] else [p]) ps
         | a # as \<Rightarrow> clean_parts rooted (if a = ''..'' then p # acc else as) ps)
      else clean_parts rooted (p # acc) ps)"

definition path_Clean :: "string \<Rightarrow> string" where
  "path_Clean p =
     (let rooted = (p \<noteq> [] \<and> hd p = CHR ''/''); body = join ''/'' (clean_parts rooted [] (split_byte CHR ''/'' p))
      in if rooted then CHR ''/'' # body else if body = [] then ''.'' else body)"

definition path_Dir :: "string \<Rightarrow> string" where
  "path_Dir p = path_Clean (join ''/'' (butlast (split_byte CHR ''/'' p)) @ (if CHR ''/'' \<in> set p then ''/'' else []))"

text \<open>How a process ends: not started, past its deadline, with an exit code other than 0, in another error of waiting, or well; and what it wrote.\<close>

datatype proc_end = StartFailed string | DeadlineExceeded "string list" | ExitError int "string list" | WaitFailed string "string list" | ExitOK "string list"

definition command_Execute ::
    "(string \<Rightarrow> string list \<Rightarrow> string list \<Rightarrow> string \<Rightarrow> int \<Rightarrow> proc_end) \<Rightarrow> action \<Rightarrow> invocation \<Rightarrow> int \<Rightarrow> act_result" where
  "command_Execute proc a iv timeout0 =
     (if acCommandPath a = [] then status_result StatusError ''missing command_path''
      else
        let timeout = (if timeout0 \<le> 0 then 10 * 10 ^ 9 else timeout0);
            dir = (if acWorkingDir a \<noteq> [] then acWorkingDir a else path_Dir (acCommandPath a))
        in (case proc (acCommandPath a) (buildArgv iv) (buildEnv iv) dir timeout of
              StartFailed err \<Rightarrow> status_result StatusError (''start: '' @ err)
            | DeadlineExceeded ws \<Rightarrow> (status_result StatusTimeout ''timed out'')\<lparr>reOutput := capture ws\<rparr>
            | ExitError code ws \<Rightarrow>
                (status_result StatusError (''exit '' @ format_int code))\<lparr>reOutput := capture ws, reExitCode := Some code\<rparr>
            | WaitFailed err ws \<Rightarrow> (status_result StatusError err)\<lparr>reOutput := capture ws\<rparr>
            | ExitOK ws \<Rightarrow> (status_result StatusOK [])\<lparr>reOutput := capture ws, reExitCode := Some 0\<rparr>))"

section \<open>Encodings\<close>

definition upper_hex :: "nat \<Rightarrow> char" where
  "upper_hex n = (if n < 10 then char_of (48 + n) else char_of (55 + n))"

text \<open>\<^verbatim>\<open>url.QueryEscape\<close>.\<close>

definition unreserved :: "char \<Rightarrow> bool" where
  "unreserved c \<longleftrightarrow> is_upper c \<or> is_lower c \<or> is_digit c \<or> c \<in> {CHR ''-'', CHR ''_'', CHR ''.'', CHR ''~''}"

definition query_char :: "char \<Rightarrow> string" where
  "query_char c =
     (if c = CHR '' '' then ''+'' else if unreserved c then [c]
      else [CHR ''%'', upper_hex (unat (byte_of c) div 16), upper_hex (unat (byte_of c) mod 16)])"

definition QueryEscape :: "string \<Rightarrow> string" where
  "QueryEscape s = concat (map query_char s)"

text \<open>\<^verbatim>\<open>html.EscapeString\<close>.\<close>

definition html_char :: "char \<Rightarrow> string" where
  "html_char c =
     (if c = CHR ''&'' then ''&amp;'' else if c = CHR 0x27 then ''&#39;'' else if c = CHR ''<'' then ''&lt;''
      else if c = CHR ''>'' then ''&gt;'' else if c = CHR 0x22 then ''&#34;'' else [c])"

definition html_EscapeString :: "string \<Rightarrow> string" where
  "html_EscapeString s = concat (map html_char s)"

text \<open>The inside of a JSON string as \<^verbatim>\<open>encoding/json\<close> writes it without HTML escaping.\<close>

definition json_byte :: "char \<Rightarrow> string" where
  "json_byte c =
     (if c = CHR 0x22 \<or> c = CHR 0x5C then [CHR 0x5C, c]
      else if c = CHR 0x08 then [CHR 0x5C, CHR ''b''] else if c = CHR 0x0C then [CHR 0x5C, CHR ''f'']
      else if c = CHR 0x0A then [CHR 0x5C, CHR ''n''] else if c = CHR 0x0D then [CHR 0x5C, CHR ''r'']
      else if c = CHR 0x09 then [CHR 0x5C, CHR ''t'']
      else if byte_of c < 0x20 then CHR 0x5C # ''u00'' @ hex_encode (bytes_of [c]) else [c])"

function json_body :: "string \<Rightarrow> string" where
  "json_body [] = []"
| "json_body (c # cs) =
     (let n = rune_len (c # cs); r = take n (c # cs) in
      if n = 0 then CHR 0x5C # ''ufffd'' @ json_body cs
      else (if n = 1 then json_byte c
            else if r = [CHR 0xE2, CHR 0x80, CHR 0xA8] then CHR 0x5C # ''u2028''
            else if r = [CHR 0xE2, CHR 0x80, CHR 0xA9] then CHR 0x5C # ''u2029'' else r) @ json_body (drop (n - 1) cs))"
  by pat_completeness auto
termination by (relation "measure length") auto

datatype token_filter = FilterNone | FilterJSON | FilterURL | FilterHTML

definition applyFilter :: "(string \<Rightarrow> string) \<Rightarrow> token_filter \<Rightarrow> string \<Rightarrow> string" where
  "applyFilter base f raw =
     (case f of FilterNone \<Rightarrow> base raw | FilterJSON \<Rightarrow> json_body raw | FilterURL \<Rightarrow> QueryEscape raw | FilterHTML \<Rightarrow> html_EscapeString raw)"

section \<open>Templates\<close>

definition name_char :: "char \<Rightarrow> bool" where
  "name_char c \<longleftrightarrow> is_upper c \<or> is_lower c \<or> is_digit c \<or> c \<in> {CHR ''.'', CHR ''_'', CHR ''-''}"

text \<open>What follows a token name: its filter and what is left behind the closing braces.\<close>

definition token_tail :: "string \<Rightarrow> (token_filter \<times> string) option" where
  "token_tail s =
     (case find (\<lambda>p. has_prefix s (fst p)) [(''}}'', FilterNone), (''|json}}'', FilterJSON), (''|url}}'', FilterURL), (''|html}}'', FilterHTML)] of
        None \<Rightarrow> None
      | Some (p, f) \<Rightarrow> Some (f, drop (length p) s))"

text \<open>The token the regular expression matches at the start of a string, if any. A name cannot contain what follows it, so the longest name is the only one to try.\<close>

definition match_token :: "string \<Rightarrow> (string \<times> token_filter \<times> string) option" where
  "match_token s =
     (if \<not> has_prefix s ''{{'' then None
      else let name = takeWhile name_char (drop 2 s); rest = dropWhile name_char (drop 2 s) in
        if name = [] \<or> \<not> (is_upper (hd name) \<or> is_lower (hd name)) then None
        else map_option (\<lambda>(f, t). (name, f, t)) (token_tail rest))"

definition lookupTokenValue :: "string \<Rightarrow> invocation \<Rightarrow> string option" where
  "lookupTokenValue name iv =
     (if name = ''action'' then Some (ivActionName iv)
      else if name = ''sender-callsign'' then Some (ivSenderCall iv)
      else if name = ''otp-verified'' then Some (boolStr (ivOTPVerified iv))
      else if name = ''otp-cred'' then Some (ivOTPCredName iv)
      else if name = ''source'' then Some (source_string (ivSource iv))
      else if name = ''arg'' then map_of (ivArgs iv) FreeformArgKey
      else if has_prefix name ''arg.'' then map_of (ivArgs iv) (drop 4 name)
      else None)"

definition token_value :: "invocation \<Rightarrow> (string \<Rightarrow> string) \<Rightarrow> string \<Rightarrow> token_filter \<Rightarrow> string \<Rightarrow> string" where
  "token_value iv base name f matched =
     (case lookupTokenValue name iv of None \<Rightarrow> matched | Some raw \<Rightarrow> applyFilter base f raw)"

lemma match_token_shorter: "match_token s = Some (name, f, t) \<Longrightarrow> length t < length s"
proof -
  assume m: "match_token s = Some (name, f, t)"
  define rest where "rest = dropWhile name_char (drop 2 s)"
  have p: "has_prefix s ''{{''" "token_tail rest = Some (f, t)"
    using m by (auto simp: match_token_def Let_def rest_def split: if_splits)
  have "length t \<le> length rest" using p(2) by (auto simp: token_tail_def split: option.splits)
  moreover have "length rest \<le> length (drop 2 s)" unfolding rest_def by (rule length_dropWhile_le)
  moreover have "2 \<le> length s" using p(1) by (cases s rule: remdups_adj.cases) (auto simp: has_prefix_def)
  ultimately show ?thesis by simp
qed

function expandTokenFiltered :: "invocation \<Rightarrow> (string \<Rightarrow> string) \<Rightarrow> string \<Rightarrow> string" where
  "expandTokenFiltered iv base [] = []"
| "expandTokenFiltered iv base (c # cs) =
     (case match_token (c # cs) of
        None \<Rightarrow> c # expandTokenFiltered iv base cs
      | Some (name, f, t) \<Rightarrow>
          token_value iv base name f (take (length (c # cs) - length t) (c # cs)) @ expandTokenFiltered iv base t)"
  by pat_completeness auto
termination by (relation "measure (\<lambda>(_, _, s). length s)") (use match_token_shorter in force)+

text \<open>The form a webhook posts without a template of its own: the pairs by key, the later of two with one key.\<close>

definition form_pairs :: "invocation \<Rightarrow> key_value list" where
  "form_pairs iv =
     [(''action'', ivActionName iv), (''sender_callsign'', ivSenderCall iv), (''otp_verified'', boolStr (ivOTPVerified iv)),
      (''otp_cred'', ivOTPCredName iv), (''source'', source_string (ivSource iv))] @ ivArgs iv"

definition byte_less :: "string \<Rightarrow> string \<Rightarrow> bool" where
  "byte_less a b \<longleftrightarrow> lexordp (<) (map byte_of a) (map byte_of b)"

definition sort_keys :: "string list \<Rightarrow> string list" where
  "sort_keys ks = fold (\<lambda>k acc. takeWhile (\<lambda>x. byte_less x k) acc @ k # dropWhile (\<lambda>x. byte_less x k) acc) (remdups ks) []"

definition defaultFormBody :: "invocation \<Rightarrow> string" where
  "defaultFormBody iv =
     join ''&'' (map (\<lambda>k. QueryEscape k @ ''='' @ QueryEscape (the (map_of (rev (form_pairs iv)) k))) (sort_keys (map fst (form_pairs iv))))"

text \<open>The request of a webhook: method, URL, body and its content type.\<close>

definition webhook_request :: "action \<Rightarrow> invocation \<Rightarrow> (string \<times> string \<times> (string \<times> string) option) option" where
  "webhook_request a iv =
     (if acWebhookURL a = [] \<or> acWebhookMethod a = [] then None
      else
        let meth = to_upper (acWebhookMethod a); tmpl = trim_space (acWebhookBodyTemplate a)
        in Some (meth, expandTokenFiltered iv QueryEscape (acWebhookURL a),
             if meth \<noteq> ''POST'' then None
             else if tmpl \<noteq> [] then Some (expandTokenFiltered iv id tmpl, [])
             else Some (defaultFormBody iv, ''application/x-www-form-urlencoded'')))"

text \<open>How a request ends: the URL or the headers are refused, it cannot be made, it fails before or after its deadline, or there is a response.\<close>

datatype http_end = BadURL | NoRequest string | BadHeaders | TimedOut | DoFailed string | Response int string

definition webhookOutputCap :: nat where "webhookOutputCap = 1024"

definition webhook_Execute ::
    "(string \<Rightarrow> string \<Rightarrow> (string \<times> string) option \<Rightarrow> string \<Rightarrow> int \<Rightarrow> http_end) \<Rightarrow> action \<Rightarrow> invocation \<Rightarrow> int \<Rightarrow> act_result" where
  "webhook_Execute http a iv timeout0 =
     (case webhook_request a iv of
        None \<Rightarrow> status_result StatusError ''missing webhook URL/method''
      | Some (meth, url, body) \<Rightarrow>
          (case http meth url body (acWebhookHeaders a) (if timeout0 \<le> 0 then 10 * 10 ^ 9 else timeout0) of
             BadURL \<Rightarrow> status_result StatusError ''bad URL''
           | NoRequest err \<Rightarrow> status_result StatusError err
           | BadHeaders \<Rightarrow> status_result StatusError ''bad headers JSON''
           | TimedOut \<Rightarrow> status_result StatusTimeout ''timed out''
           | DoFailed err \<Rightarrow> status_result StatusError err
           | Response code out \<Rightarrow>
               (if 200 \<le> code \<and> code < 300 then status_result StatusOK [] else status_result StatusError (''http '' @ format_int code))
                 \<lparr>reOutput := take webhookOutputCap out, reHTTPStatus := Some code\<rparr>))"

section \<open>The environment of a command\<close>

text \<open>
  Whatever the arguments of a message are, they reach a command's environment in variables of their own:
  each is a name of upper-case letters, digits and underscores that begins with GW_ARG, the equals sign and the value, after
  the fixed variables, none of which begins so.
\<close>

theorem arguments_own_variables:
  "\<exists>vars. buildEnv iv = env_fixed iv @ vars
    \<and> list_all (\<lambda>x. \<exists>n v. x = n @ ''='' @ v \<and> has_prefix n ''GW_ARG'' \<and> list_all env_char n \<and> v \<in> snd ` set (ivArgs iv)) vars
    \<and> list_all (\<lambda>x. \<not> has_prefix x ''GW_ARG'') (env_fixed iv)"
proof -
  define vars where "vars = (if isFreeformInvocation iv then [''GW_ARG='' @ snd (hd (ivArgs iv))]
        else map (\<lambda>(k, v). ''GW_ARG_'' @ envSafe k @ ''='' @ v) (ivArgs iv))"
  have fixed: "list_all (\<lambda>x. \<not> has_prefix x ''GW_ARG'') (env_fixed iv)" by (simp add: env_fixed_def has_prefix_def)
  have name: "list_all env_char ''GW_ARG''" "list_all env_char ''GW_ARG_''" by code_simp+
  have "\<exists>n v. x = n @ ''='' @ v \<and> has_prefix n ''GW_ARG'' \<and> list_all env_char n \<and> v \<in> snd ` set (ivArgs iv)" if x: "x \<in> set vars" for x
  proof (cases "isFreeformInvocation iv")
    case True
    then have "ivArgs iv \<noteq> []" by (auto simp: isFreeformInvocation_def)
    then show ?thesis using True x name(1)
      by (intro exI[of _ "''GW_ARG''"] exI[of _ "snd (hd (ivArgs iv))"]) (simp add: vars_def has_prefix_def)
  next
    case False
    then obtain k v where kv: "(k, v) \<in> set (ivArgs iv)" "x = ''GW_ARG_'' @ envSafe k @ ''='' @ v" using x by (auto simp: vars_def)
    have "list_all env_char (envSafe k)" by (auto simp: envSafe_def list_all_iff env_char_def)
    then show ?thesis using kv name(2) by (intro exI[of _ "''GW_ARG_'' @ envSafe k"] exI[of _ v]) (force simp: has_prefix_def)
  qed
  then have "list_all (\<lambda>x. \<exists>n v. x = n @ ''='' @ v \<and> has_prefix n ''GW_ARG'' \<and> list_all env_char n \<and> v \<in> snd ` set (ivArgs iv)) vars"
    by (simp only: list_all_iff) blast
  moreover have "buildEnv iv = env_fixed iv @ vars" by (simp add: buildEnv_def vars_def)
  ultimately show ?thesis using fixed by blast
qed

section \<open>The capture\<close>

lemma capped_Write_ok:
  assumes "cwBuf c = take (cwMax c) s" "cwN c = length (cwBuf c)"
  shows "fst (capped_Write p c) = length p" "cwBuf (snd (capped_Write p c)) = take (cwMax c) (s @ p)"
    "cwMax (snd (capped_Write p c)) = cwMax c" "cwN (snd (capped_Write p c)) = length (cwBuf (snd (capped_Write p c)))"
  using assms by (auto simp: capped_Write_def Let_def min_def split: if_splits)

text \<open>What is kept of a command's output is its first 4096 bytes, however it is written.\<close>

lemma capture_prefix: "capture ws = take cmdOutputCap (concat ws)"
proof -
  have "cwBuf (fold (\<lambda>p c. snd (capped_Write p c)) ws c) = take (cwMax c) (s @ concat ws)"
    if "cwBuf c = take (cwMax c) s" "cwN c = length (cwBuf c)" for c s
    using that
  proof (induction ws arbitrary: c s)
    case (Cons w ws)
    show ?case using Cons.IH[of "snd (capped_Write w c)" "s @ w"] capped_Write_ok[OF Cons.prems] by simp
  qed simp
  from this[of "\<lparr>cwBuf = [], cwMax = cmdOutputCap, cwN = 0\<rparr>" "[]"] show ?thesis by (simp add: capture_def)
qed

section \<open>Templates are cut before values are known\<close>

datatype piece = Literal char | Token string token_filter string

function pieces :: "string \<Rightarrow> piece list" where
  "pieces [] = []"
| "pieces (c # cs) =
     (case match_token (c # cs) of
        None \<Rightarrow> Literal c # pieces cs
      | Some (name, f, t) \<Rightarrow> Token name f (take (length (c # cs) - length t) (c # cs)) # pieces t)"
  by pat_completeness auto
termination by (relation "measure length") (use match_token_shorter in force)+

definition render :: "invocation \<Rightarrow> (string \<Rightarrow> string) \<Rightarrow> piece \<Rightarrow> string" where
  "render iv base p = (case p of Literal c \<Rightarrow> [c] | Token name f matched \<Rightarrow> token_value iv base name f matched)"

lemma expand_pieces: "expandTokenFiltered iv base s = concat (map (render iv base) (pieces s))"
  by (induction iv base s rule: expandTokenFiltered.induct) (auto simp: render_def split: option.split)

section \<open>What the query encoding hides\<close>

definition hex_value :: "char \<Rightarrow> nat" where
  "hex_value d = (if is_digit d then of_char d - 48 else of_char d - 55)"

fun query_unescape :: "string \<Rightarrow> string" where
  "query_unescape (c # h # l # s) =
     (if c = CHR ''%'' then char_of (16 * hex_value h + hex_value l) # query_unescape s
      else (if c = CHR ''+'' then CHR '' '' else c) # query_unescape (h # l # s))"
| "query_unescape (c # s) = (if c = CHR ''+'' then CHR '' '' else c) # query_unescape s"
| "query_unescape [] = []"

lemma query_unescape_other: "c \<noteq> CHR ''%'' \<Longrightarrow> query_unescape (c # s) = (if c = CHR ''+'' then CHR '' '' else c) # query_unescape s"
  by (cases s rule: query_unescape.cases) auto

lemma hex_value_upper: "n < 16 \<Longrightarrow> hex_value (upper_hex n) = n"
proof -
  have "\<forall>n \<in> set [0..<16]. hex_value (upper_hex n) = n" by code_simp
  then show "n < 16 \<Longrightarrow> hex_value (upper_hex n) = n" by simp
qed

lemma char_of_unat_byte: "char_of (unat (byte_of c)) = c"
  by (simp add: unat_byte_of)

lemma byte_nibbles: "unat (byte_of c) div 16 < 16" "unat (byte_of c) mod 16 < 16"
  using unat_u8_lt[of "byte_of c"] by simp_all

lemma query_char_unescape: "query_unescape (query_char c @ s) = c # query_unescape s"
proof (cases "unreserved c")
  case True
  have "\<not> unreserved CHR ''%''" "\<not> unreserved CHR ''+''" "\<not> unreserved CHR '' ''" by code_simp+
  then have "c \<noteq> CHR ''%''" "c \<noteq> CHR ''+''" "c \<noteq> CHR '' ''" using True by auto
  then show ?thesis using True query_unescape_other[of c s] by (simp add: query_char_def)
next
  case False
  show ?thesis
  proof (cases "c = CHR '' ''")
    case True
    then show ?thesis using query_unescape_other[of "CHR ''+''" s] by (simp add: query_char_def)
  next
    case 2: False
    then show ?thesis using False byte_nibbles[of c] by (simp add: query_char_def hex_value_upper char_of_unat_byte)
  qed
qed

lemma QueryEscape_unescape: "query_unescape (QueryEscape s) = s"
  by (induction s) (simp_all add: QueryEscape_def query_char_unescape)

definition url_safe :: "char \<Rightarrow> bool" where
  "url_safe c \<longleftrightarrow> unreserved c \<or> c = CHR ''+'' \<or> c = CHR ''%''"

lemma QueryEscape_safe: "list_all url_safe (QueryEscape s)"
proof -
  have "\<forall>n \<in> set [0..<16]. url_safe (upper_hex n)" by code_simp
  then have "n < 16 \<Longrightarrow> url_safe (upper_hex n)" for n by simp
  then have "url_safe (upper_hex (unat (byte_of c) div 16))" "url_safe (upper_hex (unat (byte_of c) mod 16))" for c
    using byte_nibbles by blast+
  then show ?thesis by (auto simp: QueryEscape_def query_char_def list_all_iff) (auto simp: url_safe_def)
qed

text \<open>
  Property C33. The URL of a webhook is the operator's template with values put in: the template is cut into its pieces
  without looking at the invocation, so no value is read as a token, and a token without a value stays as it is. What a
  bare token or one with the url filter becomes contains only unreserved characters, plus and percent, and determines the
  value it came from. What a token with the json or html filter becomes is the value encoded for that context and not for
  a URL.
\<close>

theorem webhook_url_faithful:
  assumes "webhook_request a iv = Some (meth, url, body)"
  shows "url = concat (map (render iv QueryEscape) (pieces (acWebhookURL a)))
    \<and> (\<forall>name f matched. Token name f matched \<in> set (pieces (acWebhookURL a)) \<longrightarrow>
         (let out = render iv QueryEscape (Token name f matched) in
          case lookupTokenValue name iv of
            None \<Rightarrow> out = matched
          | Some raw \<Rightarrow>
              (case f of
                 FilterJSON \<Rightarrow> out = json_body raw
               | FilterHTML \<Rightarrow> out = html_EscapeString raw
               | _ \<Rightarrow> list_all url_safe out \<and> query_unescape out = raw)))"
proof (intro conjI allI impI)
  show "url = concat (map (render iv QueryEscape) (pieces (acWebhookURL a)))"
    using assms by (auto simp: webhook_request_def Let_def expand_pieces split: if_splits)
qed (simp add: Let_def render_def token_value_def applyFilter_def QueryEscape_safe QueryEscape_unescape split: option.split token_filter.split)

theorem webhook_url_faithful_witness:
  "\<exists>a iv meth body. webhook_request a iv = Some (meth, ''http://h/?q=a%26b%7B%7Baction%7D%7D'', body)
    \<and> pieces (acWebhookURL a) = map Literal ''http://h/?q='' @ [Token ''arg.n'' FilterNone ''{{arg.n}}'']"
proof -
  define a where "a = \<lparr>acID = 1, acName = ''X'', acType = ''webhook'', acCommandPath = [], acWorkingDir = [], acWebhookMethod = ''get'',
      acWebhookURL = ''http://h/?q={{arg.n}}'', acWebhookHeaders = [], acWebhookBodyTemplate = [], acTimeoutSec = 5, acOTPRequired = False,
      acOTPCredentialID = None, acSenderAllowlist = [], acArgSchema = Inr [], acArgMode = ''kv'', acRateLimitSec = 0, acQueueDepth = 1,
      acMaxReplyLines = 1, acEnabled = True\<rparr>"
  define iv where "iv = \<lparr>ivID = 0, ivActionID = 1, ivActionName = ''X'', ivSenderCall = ''NW5W'', ivSource = SourceRF, ivCredentialID = 0,
      ivOTPVerified = False, ivOTPCredName = [], ivArgs = [(''n'', ''a&b{{action}}'')]\<rparr>"
  have p: "pieces ''http://h/?q={{arg.n}}'' = map Literal ''http://h/?q='' @ [Token ''arg.n'' FilterNone ''{{arg.n}}'']" by code_simp
  have v: "concat (map (render iv QueryEscape) (map Literal ''http://h/?q='' @ [Token ''arg.n'' FilterNone ''{{arg.n}}''])) = ''http://h/?q=a%26b%7B%7Baction%7D%7D''"
    unfolding iv_def by code_simp
  obtain meth url body where w: "webhook_request a iv = Some (meth, url, body)" by (simp add: webhook_request_def a_def Let_def)
  have u: "acWebhookURL a = ''http://h/?q={{arg.n}}''" by (simp add: a_def)
  have "url = ''http://h/?q=a%26b%7B%7Baction%7D%7D''" using webhook_url_faithful[OF w] unfolding u p v by blast
  then show ?thesis using w p u by metis
qed

end
