(* ===== verification/Wire_Words.thy ===== *)
theory Wire_Words
  imports Graywolf_Prelude
begin

text \<open>
  32-bit words on the wire, as Go's \<^verbatim>\<open>encoding/binary\<close> writes and reads them in either byte order, with their round trips.
\<close>

text \<open>Little-endian 32-bit words.\<close>

definition put_le32 :: "u32 \<Rightarrow> bytes" where
  "put_le32 w = map (\<lambda>i. word_of_nat (unat w div 256 ^ i mod 256)) [0, 1, 2, 3]"

definition get_le32 :: "bytes \<Rightarrow> u32" where
  "get_le32 bs = word_of_nat (unat (bs ! 0) + 256 * unat (bs ! 1) + 256 ^ 2 * unat (bs ! 2) + 256 ^ 3 * unat (bs ! 3))"

lemma base_256: "m < 256 ^ 4 \<Longrightarrow> m mod 256 + 256 * (m div 256 mod 256) + 256 ^ 2 * (m div 256 ^ 2 mod 256) + 256 ^ 3 * (m div 256 ^ 3 mod 256) = (m::nat)"
proof -
  assume m: "m < 256 ^ 4"
  have d: "m div 256 ^ 2 = m div 256 div 256" "m div 256 ^ 3 = m div 256 div 256 div 256" by (simp_all add: div_mult2_eq[symmetric])
  have "m div 256 div 256 div 256 < 256" using m by (simp add: div_mult2_eq[symmetric] less_mult_imp_div_less)
  then have "m div 256 div 256 div 256 mod 256 = m div 256 div 256 div 256" by simp
  moreover have "m = m mod 256 + 256 * (m div 256)" "m div 256 = m div 256 mod 256 + 256 * (m div 256 div 256)"
    "m div 256 div 256 = m div 256 div 256 mod 256 + 256 * (m div 256 div 256 div 256)" by (simp_all only: mod_mult_div_eq)
  ultimately have "m mod 256 + 256 * (m div 256 mod 256) + 65536 * (m div 256 div 256 mod 256) + 16777216 * (m div 256 div 256 div 256 mod 256) = m"
    by linarith
  then show ?thesis unfolding d by simp
qed

lemma get_put_le32: "get_le32 (put_le32 w @ rest) = w"
proof -
  have "unat w < 256 ^ 4" using unsigned_less[of w, where 'a = nat] by simp
  then have "word_of_nat (unat w mod 256 + 256 * (unat w div 256 mod 256) + 256 ^ 2 * (unat w div 256 ^ 2 mod 256) + 256 ^ 3 * (unat w div 256 ^ 3 mod 256)) = w"
    by (simp only: base_256) simp
  moreover have "unat (word_of_nat (x mod 256) :: u8) = x mod 256" for x by (simp add: unat_of_nat)
  ultimately show ?thesis by (simp add: get_le32_def put_le32_def)
qed

text \<open>Big-endian: the same bytes the other way round.\<close>

definition put_be32 :: "u32 \<Rightarrow> bytes" where
  "put_be32 w = rev (put_le32 w)"

definition get_be32 :: "bytes \<Rightarrow> u32" where
  "get_be32 bs = get_le32 (rev (take 4 bs))"

lemma length_put_le32 [simp]: "length (put_le32 w) = 4"
  by (simp add: put_le32_def)

lemma length_put_be32 [simp]: "length (put_be32 w) = 4"
  by (simp add: put_be32_def)

lemma get_put_be32: "get_be32 (put_be32 w @ rest) = w"
  using get_put_le32[of w "[]"] by (simp add: get_be32_def put_be32_def)

end
