(* ===== verification/AGW_Wire.thy ===== *)
theory AGW_Wire
  imports Go_Strings Codec Wire_Words
begin

text \<open>
  The AGWPE wire format (\<^verbatim>\<open>pkg/agw/protocol.go\<close>): the 36-byte header, frames on a stream and the
  digipeater list of a transmission via digipeaters. The frames are an instance of the stream codec:
  a stream of written frames is read back frame by frame.
\<close>

section \<open>Headers\<close>

definition HeaderSize :: nat where "HeaderSize = 36"

record agw_header =
  ahPort :: u8
  ahKind :: char
  ahPID :: u8
  ahFrom :: string
  ahTo :: string
  ahLen :: u32
  ahUser :: u32

abbreviation agw_head :: "u8 \<Rightarrow> char \<Rightarrow> u8 \<Rightarrow> string \<Rightarrow> string \<Rightarrow> agw_header" where
  "agw_head port kind pid from_call to_call \<equiv>
     \<lparr>ahPort = port, ahKind = kind, ahPID = pid, ahFrom = from_call, ahTo = to_call, ahLen = 0, ahUser = 0\<rparr>"

definition copyPadded :: "nat \<Rightarrow> string \<Rightarrow> bytes" where
  "copyPadded n s = bytes_of (take n s) @ replicate (n - length s) 0"

definition trimNul :: "bytes \<Rightarrow> string" where
  "trimNul bs = string_of (takeWhile (\<lambda>b. b \<noteq> 0) bs)"

definition EncodeHeader :: "agw_header \<Rightarrow> bytes" where
  "EncodeHeader h =
     [ahPort h, 0, 0, 0, byte_of (ahKind h), 0, ahPID h, 0] @ copyPadded 10 (ahFrom h) @ copyPadded 10 (ahTo h)
     @ put_le32 (ahLen h) @ put_le32 (ahUser h)"

definition DecodeHeader :: "bytes \<Rightarrow> agw_header option" where
  "DecodeHeader buf =
     (if length buf < HeaderSize then None
      else Some \<lparr>ahPort = buf ! 0, ahKind = char_of_byte (buf ! 4), ahPID = buf ! 6,
                 ahFrom = trimNul (take 10 (drop 8 buf)), ahTo = trimNul (take 10 (drop 18 buf)),
                 ahLen = get_le32 (drop 28 buf), ahUser = get_le32 (drop 32 buf)\<rparr>)"

section \<open>Frames\<close>

definition agw_maxDataLen :: nat where "agw_maxDataLen = 2 ^ 16"

text \<open>The next frame of a stream and the rest; nothing when the stream ends or the length is refused.\<close>

definition ReadFrame :: "bytes \<Rightarrow> ((agw_header \<times> bytes) \<times> bytes) option" where
  "ReadFrame s =
     (case DecodeHeader (take HeaderSize s) of
        None \<Rightarrow> None
      | Some h \<Rightarrow>
          let n = unat (ahLen h); s = drop HeaderSize s in
          if n > agw_maxDataLen \<or> length s < n then None else Some ((h, take n s), drop n s))"

definition WriteFrame :: "agw_header \<Rightarrow> bytes \<Rightarrow> bytes" where
  "WriteFrame h dat = EncodeHeader (h\<lparr>ahLen := word_of_nat (length dat)\<rparr>) @ dat"

lemma ReadFrame_shorter: "ReadFrame s = Some (f, s') \<Longrightarrow> length s' < length s"
  by (auto simp: ReadFrame_def DecodeHeader_def HeaderSize_def Let_def split: if_splits option.splits)

text \<open>Everything a client's stream holds before it ends or breaks.\<close>

function agw_frames :: "bytes \<Rightarrow> (agw_header \<times> bytes) list" where
  "agw_frames s = (case ReadFrame s of None \<Rightarrow> [] | Some (f, s') \<Rightarrow> f # agw_frames s')"
  by pat_completeness auto
termination by (relation "measure length") (auto dest: ReadFrame_shorter)

declare agw_frames.simps [simp del]

section \<open>Digipeater lists\<close>

datatype via_err = ViaEmpty | ViaTooMany nat | ViaTruncated

definition via_error :: "via_err \<Rightarrow> string" where
  "via_error e =
     (case e of ViaEmpty \<Rightarrow> ''agw: V frame empty'' | ViaTooMany n \<Rightarrow> ''agw: V frame too many digis: '' @ dec_string n
      | ViaTruncated \<Rightarrow> ''agw: V frame truncated'')"

definition parseViaPayload :: "bytes \<Rightarrow> via_err + (string list \<times> bytes)" where
  "parseViaPayload dat =
     (case dat of
        [] \<Rightarrow> Inl ViaEmpty
      | b # rest \<Rightarrow>
          let n = unat b in
          if n > 8 then Inl (ViaTooMany n)
          else if length rest < n * 10 then Inl ViaTruncated
          else Inr (filter (\<lambda>c. c \<noteq> []) (map (\<lambda>i. trimNul (take 10 (drop (i * 10) rest))) [0..<n]), drop (n * 10) rest))"

section \<open>Reading back\<close>

text \<open>A call sign that fits its field: at most ten bytes, none of them zero.\<close>

definition fits :: "string \<Rightarrow> bool" where
  "fits s \<longleftrightarrow> length s \<le> 10 \<and> CHR 0x00 \<notin> set s"

lemma length_copyPadded [simp]: "length (copyPadded n s) = n"
  by (simp add: copyPadded_def)

lemma trim_copyPadded: "fits s \<Longrightarrow> trimNul (copyPadded 10 s) = s"
proof -
  assume s: "fits s"
  have nz: "b \<noteq> 0" if b: "b \<in> set (bytes_of s)" for b
  proof
    assume "b = 0"
    then obtain c where c: "c \<in> set s" "byte_of c = byte_of (CHR 0x00)" using b by (auto simp: bytes_of_def)
    then have "c = CHR 0x00" by (simp only: byte_of_inj)
    then show False using c(1) s by (simp add: fits_def)
  qed
  have "takeWhile (\<lambda>b. b \<noteq> 0) (replicate n (0::u8)) = []" for n by (cases n) simp_all
  then have "takeWhile (\<lambda>b. b \<noteq> 0) (bytes_of s @ replicate (10 - length s) 0) = bytes_of s"
    using takeWhile_append2[of "bytes_of s" "\<lambda>b. b \<noteq> 0" "replicate (10 - length s) 0"] nz by simp
  then show ?thesis using s by (simp add: trimNul_def copyPadded_def fits_def)
qed

definition wf_agw :: "agw_header \<times> bytes \<Rightarrow> bool" where
  "wf_agw fr \<longleftrightarrow> fits (ahFrom (fst fr)) \<and> fits (ahTo (fst fr)) \<and> length (snd fr) \<le> agw_maxDataLen
     \<and> ahLen (fst fr) = word_of_nat (length (snd fr))"

lemma DecodeHeader_Encode:
  assumes "fits (ahFrom h)" "fits (ahTo h)"
  shows "DecodeHeader (EncodeHeader h) = Some h"
proof -
  have "get_le32 (put_le32 (ahUser h)) = ahUser h" using get_put_le32[of "ahUser h" "[]"] by simp
  then show ?thesis
    by (simp add: DecodeHeader_def EncodeHeader_def HeaderSize_def drop_append take_append nth_append trim_copyPadded assms get_put_le32)
qed

lemma length_EncodeHeader [simp]: "length (EncodeHeader h) = HeaderSize"
  by (simp add: EncodeHeader_def HeaderSize_def)

lemma ReadFrame_Write:
  assumes "wf_agw (h, dat)"
  shows "ReadFrame (WriteFrame h dat @ rest) = Some ((h, dat), rest)"
proof -
  have h: "h\<lparr>ahLen := word_of_nat (length dat)\<rparr> = h" using assms by (simp add: wf_agw_def)
  have n: "unat (ahLen h) = length dat" using assms by (simp add: wf_agw_def agw_maxDataLen_def unat_of_nat)
  show ?thesis using assms n unfolding WriteFrame_def h
    by (simp add: ReadFrame_def DecodeHeader_Encode wf_agw_def Let_def)
qed

interpretation agw: stream_codec wf_agw "\<lambda>(h, d). WriteFrame h d" ReadFrame
  by unfold_locales (auto simp: ReadFrame_Write)

text \<open>
  A stream of frames that the station writes, or a client that pads the fields, is read back as those
  frames, one after the other and in order, however many there are; what follows is read as if it stood alone.
\<close>

theorem agw_stream_roundtrip:
  assumes "list_all wf_agw fs"
  shows "agw_frames (concat (map (\<lambda>(h, d). WriteFrame h d) fs) @ rest) = fs @ agw_frames rest"
  using assms
proof (induction fs)
  case (Cons f fs)
  then show ?case by (subst agw_frames.simps) (simp add: agw.get_put[of f])
qed simp

theorem agw_stream_roundtrip_witness:
  "agw_frames (WriteFrame (agw_head 0 CHR ''X'' 0 ''NW5W-9'' [])  [] @ WriteFrame (agw_head 1 CHR ''D'' 0xF0 ''NW5W-9'' ''K0TFU'') [104, 105])
     = [(agw_head 0 CHR ''X'' 0 ''NW5W-9'' [], []), ((agw_head 1 CHR ''D'' 0xF0 ''NW5W-9'' ''K0TFU'')\<lparr>ahLen := 2\<rparr>, [104, 105])]"
proof -
  let ?fs = "[(agw_head 0 CHR ''X'' 0 ''NW5W-9'' [], []), ((agw_head 1 CHR ''D'' 0xF0 ''NW5W-9'' ''K0TFU'')\<lparr>ahLen := 2\<rparr>, [104, 105])]"
  have "list_all wf_agw ?fs" by (simp add: wf_agw_def fits_def agw_maxDataLen_def)
  moreover have "agw_frames [] = []" by (subst agw_frames.simps) (simp add: ReadFrame_def DecodeHeader_def HeaderSize_def)
  moreover have "WriteFrame (agw_head 1 CHR ''D'' 0xF0 ''NW5W-9'' ''K0TFU'') [104, 105]
      = WriteFrame ((agw_head 1 CHR ''D'' 0xF0 ''NW5W-9'' ''K0TFU'')\<lparr>ahLen := 2\<rparr>) [104, 105]" by (simp add: WriteFrame_def)
  ultimately show ?thesis using agw_stream_roundtrip[of ?fs "[]"] by simp
qed

end
