(* ===== verification/AGW_Server.thy ===== *)
theory AGW_Server
  imports AGW_Wire LAPB_Manager TX_Governor Go_Text
begin

text \<open>
  The AGWPE server (\<^verbatim>\<open>pkg/agw/server.go\<close>, \<^verbatim>\<open>connected.go\<close>): what each kind of client frame does
  to the client's state, to the governor and to the session manager, how session events come back, and what happens when a
  client leaves. Clients are numbered in the order they connect; the manager is that of
  \<^theory_text>\<open>LAPB_Manager\<close>. Whether a write to a client succeeds and what the governor answers are
  fields of the environment.
\<close>

section \<open>State\<close>

record agw_config =
  agPortCallsigns :: "string list"
  agPortToChannel :: "(u8 \<times> u32) list"
  agHasSink :: bool

record agw_client =
  acMonitor :: bool
  acRaw :: bool
  acCalls :: "string set"
  acVia :: "string list"
  acSessions :: "(string \<times> nat) list"

text \<open>Whom the events of a session go to: client, port, the calls as the client spells them, and the key.\<close>

record agw_observer =
  aoClient :: nat
  aoPort :: u8
  aoFrom :: string
  aoTo :: string
  aoKey :: string

record agw_server =
  asCfg :: agw_config
  asClients :: "(nat \<times> agw_client) list"
  asNextClient :: nat
  asManager :: "manager option"
  asObservers :: "nat \<rightharpoonup> agw_observer"

record agw_env =
  awWritable :: "nat \<Rightarrow> bool"
  awSubmit :: "u32 \<Rightarrow> frame \<Rightarrow> submit_source \<Rightarrow> gov_err option"
  awRemote :: "nat \<Rightarrow> string"

datatype agw_effect = AgwWrite nat bytes | AgwSubmitted u32 frame submit_source | AgwClientCount nat | AgwDecodeError string

definition NewServer_agw :: "agw_config \<Rightarrow> manager option \<Rightarrow> agw_server" where
  "NewServer_agw cfg mgr = \<lparr>asCfg = cfg, asClients = [], asNextClient = 0, asManager = mgr, asObservers = Map.empty\<rparr>"

text \<open>The result of an operation: whether it failed, its effects, the server.\<close>

type_synonym agw_result = "bool \<times> agw_effect list \<times> agw_server"

section \<open>Ports\<close>

definition invertPortToChannel :: "(u8 \<times> u32) list \<Rightarrow> u32 \<rightharpoonup> u8" where
  "invertPortToChannel pm =
     fold (\<lambda>port iv. let ch = the (map_of pm port) in if iv ch = None then iv(ch \<mapsto> port) else iv)
       (sort (remdups (map fst pm))) Map.empty"

definition agw_portFor :: "agw_config \<Rightarrow> u32 \<Rightarrow> u8" where
  "agw_portFor cfg channel = (case invertPortToChannel (agPortToChannel cfg) channel of Some p \<Rightarrow> p | None \<Rightarrow> 0)"

definition agw_channelFor :: "agw_config \<Rightarrow> u8 \<Rightarrow> u32" where
  "agw_channelFor cfg port = (case map_of (agPortToChannel cfg) port of Some ch \<Rightarrow> ch | None \<Rightarrow> 1)"

section \<open>Clients\<close>

definition client_of :: "agw_server \<Rightarrow> nat \<Rightarrow> agw_client option" where
  "client_of s c = map_of (asClients s) c"

definition set_client :: "nat \<Rightarrow> agw_client \<Rightarrow> agw_server \<Rightarrow> agw_server" where
  "set_client c st s = s\<lparr>asClients := AList.map_entry c (\<lambda>_. st) (asClients s)\<rparr>"

definition agw_addClient :: "agw_server \<Rightarrow> agw_effect list \<times> agw_server" where
  "agw_addClient s =
     (let cl = (asNextClient s, \<lparr>acMonitor = False, acRaw = False, acCalls = {}, acVia = [], acSessions = []\<rparr>);
          s = s\<lparr>asClients := asClients s @ [cl], asNextClient := Suc (asNextClient s)\<rparr>
      in ([AgwClientCount (length (asClients s))], s))"

definition agw_write :: "agw_env \<Rightarrow> nat \<Rightarrow> agw_header \<Rightarrow> bytes \<Rightarrow> agw_server \<Rightarrow> agw_result" where
  "agw_write e c h dat s = (if awWritable e c then (False, [AgwWrite c (WriteFrame h dat)], s) else (True, [], s))"

text \<open>Handing an event to a session, which drops it when its input is full.\<close>

definition session_submit :: "nat \<Rightarrow> event \<Rightarrow> agw_server \<Rightarrow> agw_server" where
  "session_submit sid ev s =
     s\<lparr>asManager := map_option (mg_update sid (\<lambda>obj. obj\<lparr>msLoop := enqueue ev (msLoop obj)\<rparr>)) (asManager s)\<rparr>"

text \<open>A client that leaves aborts its links.\<close>

definition agw_removeClient :: "nat \<Rightarrow> agw_server \<Rightarrow> agw_effect list \<times> agw_server" where
  "agw_removeClient c s =
     (case client_of s c of
        None \<Rightarrow> ([], s)
      | Some cl \<Rightarrow>
          let s = fold (\<lambda>(_, sid). session_submit sid EventAbort) (acSessions cl) s;
              s = s\<lparr>asClients := AList.delete c (asClients s)\<rparr>
          in ([AgwClientCount (length (asClients s))], s))"

section \<open>Connected mode\<close>

definition agw_sessionKey :: "u8 \<Rightarrow> string \<Rightarrow> string \<Rightarrow> string" where
  "agw_sessionKey port from_call to_call = dec_string (unat port) @ '':'' @ from_call @ '':'' @ to_call"

definition agw_sessionKeyFor :: "agw_header \<Rightarrow> string option" where
  "agw_sessionKeyFor h =
     (case (ParseAddress (ahFrom h), ParseAddress (ahTo h)) of
        (Inr src, Inr dst) \<Rightarrow> Some (agw_sessionKey (ahPort h) (address_string src) (address_string dst))
      | _ \<Rightarrow> None)"

definition normalizeCallsign :: "string \<Rightarrow> string" where
  "normalizeCallsign call = (case ParseAddress call of Inl _ \<Rightarrow> call | Inr a \<Rightarrow> address_string a)"

definition sendDisconnect :: "agw_env \<Rightarrow> nat \<Rightarrow> agw_header \<Rightarrow> string \<Rightarrow> agw_server \<Rightarrow> agw_result" where
  "sendDisconnect e c h reason =
     agw_write e c (agw_head (ahPort h) CHR ''d'' PIDNoLayer3 (ahTo h) (ahFrom h))
       (bytes_of (''*** DISCONNECTED With '' @ ahTo h @ '': '' @ reason @ [CHR 0x0D, CHR 0x0A]))"

definition refuseConnect :: "agw_env \<Rightarrow> nat \<Rightarrow> agw_header \<Rightarrow> string \<Rightarrow> agw_server \<Rightarrow> agw_result" where
  "refuseConnect = sendDisconnect"

definition openFailureReason :: "mgr_err \<Rightarrow> u32 \<Rightarrow> string" where
  "openFailureReason err channel =
     (case err of
        ErrChannelAPRSOnly _ \<Rightarrow> ''channel '' @ dec_string (unat channel) @ '' is APRS-only; set its mode to packet or aprs+packet''
      | ErrSessionExists \<Rightarrow> ''a link to this station is already open on this channel''
      | ErrMaxTotal \<Rightarrow> ''the station'' @ [CHR 0x27] @ ''s connected-mode session limit is reached''
      | ErrMaxPerOperator \<Rightarrow> ''the AGWPE connected-mode session limit is reached''
      | ErrManagerClosed \<Rightarrow> ''the station is shutting down''
      | ErrSessionConfig \<Rightarrow> ''session setup failed: ax25conn: Local and Peer required'')"

fun parse_via :: "string list \<Rightarrow> string + address list" where
  "parse_via [] = Inr []"
| "parse_via (v # vs) =
     (case ParseAddress v of
        Inl _ \<Rightarrow> Inl (''invalid digipeater callsign '' @ quoted v)
      | Inr a \<Rightarrow> try_bind (parse_via vs) (\<lambda>path. Inr (a # path)))"

definition connect_path :: "char \<Rightarrow> bytes \<Rightarrow> string + address list" where
  "connect_path kind dat =
     (if kind \<noteq> CHR ''v'' then Inr []
      else case parseViaPayload dat of
        Inl err \<Rightarrow> Inl (''malformed digipeater list: '' @ via_error err)
      | Inr (via, _) \<Rightarrow> parse_via via)"

definition agw_session_config :: "address \<Rightarrow> address \<Rightarrow> address list \<Rightarrow> u32 \<Rightarrow> session_config" where
  "agw_session_config src dst path channel =
     \<lparr>scLocal = src, scPeer = dst, scPath = path, scChannel = unat channel, scMod128 = False, scT1 = 0, scT2 = 0, scT3 = 0,
      scHeartbeat = 0, scStatsTick = 0, scN2 = 0, scPaclen = 0, scWindow = 0, scBackoff = BackoffUnset\<rparr>"

definition open_link :: "agw_env \<Rightarrow> nat \<Rightarrow> agw_client \<Rightarrow> agw_header \<Rightarrow> address \<Rightarrow> address \<Rightarrow> address list \<Rightarrow> manager \<Rightarrow> agw_server \<Rightarrow> agw_result" where
  "open_link e c cl h src dst path mgr s =
     (let channel = agw_channelFor (asCfg s) (ahPort h);
          key = agw_sessionKey (ahPort h) (address_string src) (address_string dst)
      in if map_of (acSessions cl) key \<noteq> None then refuseConnect e c h ''this client already has a link to that station'' s
         else case Open (agw_session_config src dst path channel) ''agw'' mgr of
           Inl err \<Rightarrow> refuseConnect e c h (openFailureReason err channel) s
         | Inr (sid, mgr) \<Rightarrow>
             let s = s\<lparr>asManager := Some mgr,
                       asObservers := (asObservers s)(sid \<mapsto> \<lparr>aoClient = c, aoPort = ahPort h, aoFrom = ahFrom h, aoTo = ahTo h, aoKey = key\<rparr>)\<rparr>;
                 s = set_client c (cl\<lparr>acSessions := (key, sid) # acSessions cl\<rparr>) s
             in (False, [], session_submit sid EventConnect s))"

definition handleConnect :: "agw_env \<Rightarrow> nat \<Rightarrow> agw_client \<Rightarrow> agw_header \<Rightarrow> bytes \<Rightarrow> agw_server \<Rightarrow> agw_result" where
  "handleConnect e c cl h dat s =
     (case ParseAddress (ahFrom h) of
        Inl _ \<Rightarrow> refuseConnect e c h (''invalid source callsign '' @ quoted (ahFrom h)) s
      | Inr src \<Rightarrow>
          (case ParseAddress (ahTo h) of
             Inl _ \<Rightarrow> refuseConnect e c h (''invalid destination callsign '' @ quoted (ahTo h)) s
           | Inr dst \<Rightarrow>
               (case connect_path (ahKind h) dat of
                  Inl reason \<Rightarrow> refuseConnect e c h reason s
                | Inr path \<Rightarrow>
                    (case asManager s of
                       None \<Rightarrow> refuseConnect e c h ''connected mode is not available on this station'' s
                     | Some mgr \<Rightarrow> open_link e c cl h src dst path mgr s))))"

definition sessionFor :: "agw_client \<Rightarrow> agw_header \<Rightarrow> nat option" where
  "sessionFor cl h = (case agw_sessionKeyFor h of None \<Rightarrow> None | Some k \<Rightarrow> map_of (acSessions cl) k)"

definition handleDisconnect :: "agw_env \<Rightarrow> nat \<Rightarrow> agw_client \<Rightarrow> agw_header \<Rightarrow> agw_server \<Rightarrow> agw_result" where
  "handleDisconnect e c cl h s =
     (case sessionFor cl h of
        None \<Rightarrow> sendDisconnect e c h ''no such link'' s
      | Some sid \<Rightarrow> (False, [], session_submit sid EventDisconnect s))"

definition handleConnectedData :: "agw_env \<Rightarrow> nat \<Rightarrow> agw_client \<Rightarrow> agw_header \<Rightarrow> bytes \<Rightarrow> agw_server \<Rightarrow> agw_result" where
  "handleConnectedData e c cl h dat s =
     (case sessionFor cl h of
        None \<Rightarrow> sendDisconnect e c h ''no such link'' s
      | Some sid \<Rightarrow> (False, [], session_submit sid (EventDataTX dat) s))"

definition session_Outstanding :: "nat \<Rightarrow> agw_server \<Rightarrow> int" where
  "session_Outstanding sid s =
     (case asManager s of
        None \<Rightarrow> 0
      | Some m \<Rightarrow> (case map_of (mgByID m) sid of None \<Rightarrow> 0 | Some obj \<Rightarrow> sOutstanding (lpS (msLoop obj))))"

section \<open>Transmissions\<close>

definition agw_source :: "agw_env \<Rightarrow> nat \<Rightarrow> submit_source" where
  "agw_source e c = \<lparr>ssKind = ''agw'', ssDetail = awRemote e c, ssPriority = PriorityClient, ssSkipDedup = False\<rparr>"

text \<open>The governor's answer is the answer of the handler.\<close>

definition agw_submit :: "agw_env \<Rightarrow> nat \<Rightarrow> u8 \<Rightarrow> frame \<Rightarrow> agw_server \<Rightarrow> agw_result" where
  "agw_submit e c port f s =
     (if \<not> agHasSink (asCfg s) then (False, [], s)
      else let ch = agw_channelFor (asCfg s) port in
        case awSubmit e ch f (agw_source e c) of
          None \<Rightarrow> (False, [AgwSubmitted ch f (agw_source e c)], s)
        | Some _ \<Rightarrow> (True, [], s))"

definition via_addresses :: "string list \<Rightarrow> address list" where
  "via_addresses via = concat (map (\<lambda>v. case ParseAddress v of Inl _ \<Rightarrow> [] | Inr a \<Rightarrow> [a]) via)"

definition submitUnproto :: "agw_env \<Rightarrow> nat \<Rightarrow> agw_header \<Rightarrow> string list \<Rightarrow> bytes \<Rightarrow> agw_server \<Rightarrow> agw_result" where
  "submitUnproto e c h via info s =
     (case (ParseAddress (ahFrom h), ParseAddress (ahTo h)) of
        (Inr src, Inr dst) \<Rightarrow>
          (case NewUIFrame src dst (via_addresses via) info of
             Inl _ \<Rightarrow> (False, [], s)
           | Inr f \<Rightarrow> agw_submit e c (ahPort h) (if ahPID h \<noteq> 0 then f\<lparr>fPID := ahPID h\<rparr> else f) s)
      | _ \<Rightarrow> (False, [], s))"

definition send_raw :: "agw_env \<Rightarrow> nat \<Rightarrow> agw_header \<Rightarrow> bytes \<Rightarrow> agw_server \<Rightarrow> agw_result" where
  "send_raw e c h dat s =
     (if dat = [] then (False, [], s)
      else
        let accept = (\<lambda>xs f. if \<not> IsUI f then (False, xs, s)
              else let (err, ys, s) = agw_submit e c (ahPort h) f s in (err, xs @ ys, s))
        in (case Decode dat of
              Inr f \<Rightarrow> accept [] f
            | Inl _ \<Rightarrow>
                (case Decode (tl dat) of
                   Inr f \<Rightarrow> accept [AgwDecodeError ''initial''] f
                 | Inl _ \<Rightarrow> (False, [AgwDecodeError ''initial'', AgwDecodeError ''fallback''], s))))"

section \<open>Requests\<close>

definition port_info :: "agw_config \<Rightarrow> string" where
  "port_info cfg =
     (let n = (if agPortCallsigns cfg = [] then 1 else length (agPortCallsigns cfg)) in
      dec_string n @ '';''
      @ concat (map (\<lambda>i. ''Port'' @ dec_string (i + 1) @ '' ''
          @ (if i < length (agPortCallsigns cfg) then agPortCallsigns cfg ! i else []) @ '';'') [0..<n]))"

definition agw_dispatch :: "agw_env \<Rightarrow> nat \<Rightarrow> agw_client \<Rightarrow> agw_header \<Rightarrow> bytes \<Rightarrow> agw_server \<Rightarrow> agw_result" where
  "agw_dispatch e c cl h dat s =
     (if ahKind h = CHR ''R'' then agw_write e c (agw_head 0 CHR ''R'' 0 [] []) (put_le32 2004 @ put_le32 1) s
      else if ahKind h = CHR ''G'' then agw_write e c (agw_head 0 CHR ''G'' 0 [] []) (bytes_of (port_info (asCfg s)) @ [0]) s
      else if ahKind h = CHR ''g'' then
        agw_write e c (agw_head (ahPort h) CHR ''g'' 0 [] []) ([0, 0xFF, 30, 10, 63, 10, 7] @ replicate 5 0) s
      else if ahKind h = CHR ''X'' then
        agw_write e c (agw_head 0 CHR ''X'' 0 (ahFrom h) []) [1]
          (set_client c (cl\<lparr>acCalls := insert (normalizeCallsign (ahFrom h)) (acCalls cl)\<rparr>) s)
      else if ahKind h = CHR ''x'' then
        (False, [], set_client c (cl\<lparr>acCalls := acCalls cl - {normalizeCallsign (ahFrom h)}\<rparr>) s)
      else if ahKind h = CHR ''m'' then (False, [], set_client c (cl\<lparr>acMonitor := True\<rparr>) s)
      else if ahKind h = CHR ''k'' then (False, [], set_client c (cl\<lparr>acRaw := \<not> acRaw cl\<rparr>) s)
      else if ahKind h = CHR ''M'' then submitUnproto e c h (acVia cl) dat (set_client c (cl\<lparr>acVia := []\<rparr>) s)
      else if ahKind h = CHR ''V'' then
        (case parseViaPayload dat of
           Inl _ \<Rightarrow> (False, [], s)
         | Inr (via, info) \<Rightarrow>
             if info = [] then (False, [], set_client c (cl\<lparr>acVia := via\<rparr>) s) else submitUnproto e c h via info s)
      else if ahKind h = CHR ''K'' then send_raw e c h dat s
      else if ahKind h = CHR ''C'' \<or> ahKind h = CHR ''v'' then handleConnect e c cl h dat s
      else if ahKind h = CHR ''d'' then handleDisconnect e c cl h s
      else if ahKind h = CHR ''D'' then handleConnectedData e c cl h dat s
      else if ahKind h = CHR ''Y'' then
        (let n = (case sessionFor cl h of None \<Rightarrow> 0 | Some sid \<Rightarrow> session_Outstanding sid s)
         in agw_write e c (agw_head (ahPort h) CHR ''Y'' 0 (ahFrom h) (ahTo h)) (put_le32 (word_of_int n)) s)
      else (False, [], s))"

text \<open>One frame of a client; an error ends the connection.\<close>

definition client_frame :: "agw_env \<Rightarrow> nat \<Rightarrow> agw_header \<times> bytes \<Rightarrow> agw_server \<Rightarrow> bool \<times> agw_effect list \<times> agw_server" where
  "client_frame e c f s =
     (case client_of s c of
        None \<Rightarrow> (True, [], s)
      | Some cl \<Rightarrow>
          let (err, xs, s) = agw_dispatch e c cl (fst f) (snd f) s in
          if err then (let (ys, s) = agw_removeClient c s in (True, xs @ ys, s)) else (False, xs, s))"

fun client_loop :: "agw_env \<Rightarrow> nat \<Rightarrow> (agw_header \<times> bytes) list \<Rightarrow> agw_server \<Rightarrow> agw_effect list \<times> agw_server" where
  "client_loop e c [] s = agw_removeClient c s"
| "client_loop e c (f # fs) s =
     (let (gone, xs, s) = client_frame e c f s in
      if gone then (xs, s) else let (ys, s) = client_loop e c fs s in (xs @ ys, s))"

text \<open>A client from its connection to the end of its stream.\<close>

definition agw_handleClient :: "agw_env \<Rightarrow> bytes \<Rightarrow> agw_server \<Rightarrow> agw_effect list \<times> agw_server" where
  "agw_handleClient e stream s0 =
     (let (xs, s) = agw_addClient s0; (ys, s) = client_loop e (asNextClient s0) (agw_frames stream) s in (xs @ ys, s))"

section \<open>Events of sessions, received frames\<close>

definition observe :: "agw_env \<Rightarrow> nat \<Rightarrow> out_event \<Rightarrow> agw_server \<Rightarrow> agw_effect list \<times> agw_server" where
  "observe e sid ev s =
     (case asObservers s sid of
        None \<Rightarrow> ([], s)
      | Some ob \<Rightarrow>
          let notice = (\<lambda>kind dat. if awWritable e (aoClient ob)
                then [AgwWrite (aoClient ob) (WriteFrame (agw_head (aoPort ob) kind PIDNoLayer3 (aoTo ob) (aoFrom ob)) dat)] else [])
          in (case ev of
                OutStateChange st \<Rightarrow>
                  (if st = StConnected then (notice CHR ''C'' (bytes_of (''*** CONNECTED With '' @ aoTo ob @ [CHR 0x0D, CHR 0x0A])), s)
                   else if st = StDisconnected then
                     (notice CHR ''d'' (bytes_of (''*** DISCONNECTED'' @ [CHR 0x0D, CHR 0x0A])),
                      (case client_of s (aoClient ob) of
                         None \<Rightarrow> s
                       | Some cl \<Rightarrow> set_client (aoClient ob) (cl\<lparr>acSessions := AList.delete (aoKey ob) (acSessions cl)\<rparr>) s))
                   else ([], s))
              | OutDataRX d \<Rightarrow> (notice CHR ''D'' d, s)
              | _ \<Rightarrow> ([], s)))"

definition broadcast :: "agw_env \<Rightarrow> (agw_client \<Rightarrow> bool) \<Rightarrow> bytes \<Rightarrow> agw_server \<Rightarrow> agw_effect list" where
  "broadcast e p out s = map (\<lambda>(c, _). AgwWrite c out) (filter (\<lambda>(c, cl). p cl \<and> awWritable e c) (asClients s))"

definition BroadcastMonitoredUI :: "agw_env \<Rightarrow> u32 \<Rightarrow> frame \<Rightarrow> agw_server \<Rightarrow> agw_effect list" where
  "BroadcastMonitoredUI e channel f s =
     broadcast e acMonitor
       (WriteFrame (agw_head (agw_portFor (asCfg s) channel) CHR ''U'' (fPID f) (address_string (fSource f)) (address_string (fDest f)))
         (bytes_of (frame_string f @ [CHR 0x0D]))) s"

definition BroadcastRawKISS :: "agw_env \<Rightarrow> u32 \<Rightarrow> bytes \<Rightarrow> agw_server \<Rightarrow> agw_effect list" where
  "BroadcastRawKISS e channel raw s =
     (let port = agw_portFor (asCfg s) channel in
      broadcast e acRaw (WriteFrame (agw_head port CHR ''K'' 0 [] []) (push_bit 4 port # raw)) s)"

end
