(* ===== verification/AGW_Props.thy ===== *)
theory AGW_Props
  imports AGW_Server
begin

text \<open>
  What the AGWPE server guarantees: port numbers and channels are inverse to each other, every connect request is
  answered, no client reaches another client's link, and what a refusal of the governor does to a client.
\<close>

section \<open>Ports and channels\<close>

lemma invert_fold:
  "fold (\<lambda>port iv. let ch = the (map_of pm port) in if iv ch = None then iv(ch \<mapsto> port) else iv) ps iv ch
     = (case iv ch of Some p \<Rightarrow> Some p | None \<Rightarrow> find (\<lambda>p. the (map_of pm p) = ch) ps)"
  by (induction ps arbitrary: iv) (auto simp: Let_def split: option.split)

lemma agw_find_least:
  "sorted ps \<Longrightarrow> find P ps = Some (p::'a::linorder) \<Longrightarrow> q \<in> set ps \<Longrightarrow> P q \<Longrightarrow> p \<le> q"
  by (induction ps) (auto split: if_splits)

text \<open>The inverse gives the least port that is configured for a channel.\<close>

lemma invert_least:
  "invertPortToChannel pm ch = Some p \<longleftrightarrow>
     map_of pm p = Some ch \<and> (\<forall>q. map_of pm q = Some ch \<longrightarrow> p \<le> q)"
proof -
  let ?ps = "sort (remdups (map fst pm))"
  have i: "invertPortToChannel pm ch = find (\<lambda>p. the (map_of pm p) = ch) ?ps"
    by (simp add: invertPortToChannel_def invert_fold)
  have mem: "p \<in> set ?ps \<longleftrightarrow> map_of pm p \<noteq> None" for p by (simp add: map_of_eq_None_iff)
  have val: "p \<in> set ?ps \<and> the (map_of pm p) = ch \<longleftrightarrow> map_of pm p = Some ch" for p
    using mem[of p] by (cases "map_of pm p") simp_all
  show ?thesis
  proof
    assume f: "invertPortToChannel pm ch = Some p"
    then have "p \<in> set ?ps \<and> the (map_of pm p) = ch" unfolding i by (metis (mono_tags, lifting) find_Some_iff nth_mem)
    moreover have "p \<le> q" if "map_of pm q = Some ch" for q
      using agw_find_least[OF _ f[unfolded i], of q] that val[of q] by simp
    ultimately show "map_of pm p = Some ch \<and> (\<forall>q. map_of pm q = Some ch \<longrightarrow> p \<le> q)" using val by blast
  next
    assume p: "map_of pm p = Some ch \<and> (\<forall>q. map_of pm q = Some ch \<longrightarrow> p \<le> q)"
    then have "\<exists>r. find (\<lambda>p. the (map_of pm p) = ch) ?ps = Some r" using val find_None_iff[of "\<lambda>p. the (map_of pm p) = ch" ?ps] by blast
    then obtain r where r: "find (\<lambda>p. the (map_of pm p) = ch) ?ps = Some r" by blast
    then have "r \<in> set ?ps \<and> the (map_of pm r) = ch" by (metis (mono_tags, lifting) find_Some_iff nth_mem)
    then have "map_of pm r = Some ch" using val by blast
    moreover have "r \<le> p" using agw_find_least[OF _ r, of p] val[of p] p by simp
    ultimately show "invertPortToChannel pm ch = Some p" using p r i by (metis order_antisym)
  qed
qed

text \<open>A received frame is announced under a port on which an answer goes back to its channel.\<close>

lemma channel_port_channel:
  assumes "(port, ch) \<in> set (agPortToChannel cfg)" "distinct (map fst (agPortToChannel cfg))"
  shows "agw_channelFor cfg (agw_portFor cfg ch) = ch"
proof -
  let ?pm = "agPortToChannel cfg"
  have m: "map_of ?pm port = Some ch" using assms by simp
  obtain p where p: "map_of ?pm p = Some ch" "\<And>q. map_of ?pm q = Some ch \<Longrightarrow> p \<le> q"
  proof
    let ?S = "{q. map_of ?pm q = Some ch}"
    have "finite ?S" by (rule finite_subset[OF _ finite_dom_map_of[of ?pm]]) auto
    moreover have "?S \<noteq> {}" using m by blast
    ultimately have "finite ?S" "?S \<noteq> {}" by blast+
    then show "map_of ?pm (Min ?S) = Some ch" "\<And>q. map_of ?pm q = Some ch \<Longrightarrow> Min ?S \<le> q"
      using Min_in[of ?S] by auto
  qed
  then have "invertPortToChannel ?pm ch = Some p" using invert_least by blast
  then show ?thesis using p(1) by (simp add: agw_portFor_def agw_channelFor_def)
qed

section \<open>Runs\<close>

text \<open>What happens to a server: clients come, send frames and go; sessions report; and the manager goes on by itself.\<close>

datatype agw_op = AgwConnects | AgwFrame nat "agw_header \<times> bytes" | AgwLeaves nat | AgwEvent nat out_event | AgwManager mgr_op

definition agw_step :: "agw_env \<Rightarrow> agw_op \<Rightarrow> agw_server \<Rightarrow> agw_server" where
  "agw_step e op s =
     (case op of
        AgwConnects \<Rightarrow> snd (agw_addClient s)
      | AgwFrame c f \<Rightarrow> snd (snd (client_frame e c f s))
      | AgwLeaves c \<Rightarrow> snd (agw_removeClient c s)
      | AgwEvent sid ev \<Rightarrow> snd (observe e sid ev s)
      | AgwManager m \<Rightarrow> s\<lparr>asManager := map_option (mgr_apply m) (asManager s)\<rparr>)"

definition agw_run :: "(agw_env \<times> agw_op) list \<Rightarrow> agw_server \<Rightarrow> agw_server" where
  "agw_run ops s = fold (\<lambda>(e, op). agw_step e op) ops s"

definition next_sid :: "agw_server \<Rightarrow> nat" where
  "next_sid s = (case asManager s of None \<Rightarrow> 0 | Some m \<Rightarrow> mgNextID m)"

definition owns :: "agw_server \<Rightarrow> nat \<Rightarrow> nat \<Rightarrow> bool" where
  "owns s c sid \<longleftrightarrow> (case client_of s c of None \<Rightarrow> False | Some cl \<Rightarrow> sid \<in> snd ` set (acSessions cl))"

definition agw_inv :: "agw_server \<Rightarrow> bool" where
  "agw_inv s \<longleftrightarrow>
     (\<forall>c \<in> fst ` set (asClients s). c < asNextClient s)
     \<and> (\<forall>c sid. owns s c sid \<longrightarrow> (case asObservers s sid of None \<Rightarrow> False | Some ob \<Rightarrow> aoClient ob = c))
     \<and> (\<forall>sid \<in> dom (asObservers s). sid \<le> next_sid s)"

text \<open>The state of a session.\<close>

definition link :: "agw_server \<Rightarrow> nat \<Rightarrow> managed option" where
  "link s sid = (case asManager s of None \<Rightarrow> None | Some m \<Rightarrow> map_of (mgByID m) sid)"

lemma mg_update_next [simp]: "mgNextID (mg_update sid g m) = mgNextID m"
  by (simp add: mg_update_def split: option.split)

lemma mg_update_other: "x \<noteq> sid \<Longrightarrow> map_of (mgByID (mg_update sid g m)) x = map_of (mgByID m) x"
  by (simp add: mg_update_def update_conv' split: option.split)

lemma session_submit_simps [simp]:
  "asCfg (session_submit sid ev s) = asCfg s" "asClients (session_submit sid ev s) = asClients s" "asObservers (session_submit sid ev s) = asObservers s"
  "asNextClient (session_submit sid ev s) = asNextClient s" "next_sid (session_submit sid ev s) = next_sid s"
  "client_of (session_submit sid ev s) c = client_of s c"
  by (simp_all add: session_submit_def next_sid_def client_of_def split: option.split)

lemma session_submit_link: "x \<noteq> sid \<Longrightarrow> link (session_submit sid ev s) x = link s x"
  by (simp add: session_submit_def link_def mg_update_other split: option.split)

lemma set_client_simps [simp]:
  "asObservers (set_client c st s) = asObservers s" "asNextClient (set_client c st s) = asNextClient s" "asManager (set_client c st s) = asManager s"
  "next_sid (set_client c st s) = next_sid s" "link (set_client c st s) x = link s x" "asCfg (set_client c st s) = asCfg s"
  "fst ` set (asClients (set_client c st s)) = fst ` set (asClients s)"
  by (simp_all add: set_client_def next_sid_def link_def dom_map_entry)

lemma client_of_set: "client_of (set_client c st s) x = (if x = c then map_option (\<lambda>_. st) (client_of s x) else client_of s x)"
  by (simp add: client_of_def set_client_def map_of_map_entry split: option.split)

text \<open>What a client's doings may change: its own entry, its own sessions and new ones.\<close>

definition by_client :: "nat \<Rightarrow> agw_server \<Rightarrow> agw_server \<Rightarrow> bool" where
  "by_client c s s' \<longleftrightarrow>
     asNextClient s' = asNextClient s \<and> (\<forall>x. x \<noteq> c \<longrightarrow> client_of s' x = client_of s x)
     \<and> fst ` set (asClients s') \<subseteq> fst ` set (asClients s) \<and> next_sid s \<le> next_sid s'
     \<and> (\<forall>sid. owns s' c sid \<longrightarrow> owns s c sid \<and> asObservers s' sid = asObservers s sid
           \<or> next_sid s < sid \<and> sid \<le> next_sid s' \<and> (case asObservers s' sid of None \<Rightarrow> False | Some ob \<Rightarrow> aoClient ob = c))
     \<and> (\<forall>sid. asObservers s' sid \<noteq> asObservers s sid \<longrightarrow> next_sid s < sid \<and> sid \<le> next_sid s')
     \<and> (\<forall>sid. link s' sid \<noteq> link s sid \<longrightarrow> owns s c sid \<or> next_sid s < sid)"

lemma by_refl [simp]: "by_client c s s"
  by (simp add: by_client_def)

lemma by_clientD:
  assumes "by_client c s s'"
  shows "asNextClient s' = asNextClient s" "x \<noteq> c \<Longrightarrow> client_of s' x = client_of s x"
    "fst ` set (asClients s') \<subseteq> fst ` set (asClients s)" "next_sid s \<le> next_sid s'"
    "owns s' c sid \<Longrightarrow> owns s c sid \<and> asObservers s' sid = asObservers s sid
           \<or> next_sid s < sid \<and> sid \<le> next_sid s' \<and> (case asObservers s' sid of None \<Rightarrow> False | Some ob \<Rightarrow> aoClient ob = c)"
    "asObservers s' sid = asObservers s sid \<or> next_sid s < sid \<and> sid \<le> next_sid s'"
    "link s' sid = link s sid \<or> owns s c sid \<or> next_sid s < sid"
  using assms unfolding by_client_def by blast+

lemma by_clientI:
  assumes "asNextClient s' = asNextClient s" "\<And>x. x \<noteq> c \<Longrightarrow> client_of s' x = client_of s x"
    "fst ` set (asClients s') \<subseteq> fst ` set (asClients s)" "next_sid s \<le> next_sid s'"
    "\<And>sid. owns s' c sid \<Longrightarrow> owns s c sid \<and> asObservers s' sid = asObservers s sid
           \<or> next_sid s < sid \<and> sid \<le> next_sid s' \<and> (case asObservers s' sid of None \<Rightarrow> False | Some ob \<Rightarrow> aoClient ob = c)"
    "\<And>sid. asObservers s' sid = asObservers s sid \<or> next_sid s < sid \<and> sid \<le> next_sid s'"
    "\<And>sid. link s' sid = link s sid \<or> owns s c sid \<or> next_sid s < sid"
  shows "by_client c s s'"
  using assms unfolding by_client_def by blast

lemma by_trans:
  assumes "by_client c s1 s2" "by_client c s2 s3"
  shows "by_client c s1 s3"
proof -
  note a = by_clientD[OF assms(1)] and b = by_clientD[OF assms(2)]
  show ?thesis
  proof (rule by_clientI)
    fix sid
    show "asObservers s3 sid = asObservers s1 sid \<or> next_sid s1 < sid \<and> sid \<le> next_sid s3"
      using a(4) b(4) a(6)[of sid] b(6)[of sid] by (metis order.strict_trans1 order.trans)
    show "link s3 sid = link s1 sid \<or> owns s1 c sid \<or> next_sid s1 < sid"
      using a(4) a(5)[of sid] a(7)[of sid] b(7)[of sid] by auto
    assume o: "owns s3 c sid"
    show "owns s1 c sid \<and> asObservers s3 sid = asObservers s1 sid
      \<or> next_sid s1 < sid \<and> sid \<le> next_sid s3 \<and> (case asObservers s3 sid of None \<Rightarrow> False | Some ob \<Rightarrow> aoClient ob = c)"
    proof (cases "owns s2 c sid \<and> asObservers s3 sid = asObservers s2 sid")
      case True
      then show ?thesis using a(5)[of sid] b(4) by (auto split: option.splits)
    next
      case False
      then show ?thesis using b(5)[OF o] a(4) by (auto split: option.splits)
    qed
  qed (use a(1-4) b(1-4) in auto)
qed

lemma by_set:
  assumes "client_of s c = Some cl" "set (acSessions cl') \<subseteq> set (acSessions cl)"
  shows "by_client c s (set_client c cl' s)"
  using assms by (auto simp: by_client_def client_of_set owns_def)

lemma owns_submit [simp]: "owns (session_submit sid ev s) c x = owns s c x"
  by (simp add: owns_def)

lemma by_submit: "owns s c sid \<Longrightarrow> by_client c s (session_submit sid ev s)"
  unfolding by_client_def using session_submit_link[of _ sid ev s] by (auto, metis)

lemma agw_write_server [simp]: "snd (snd (agw_write e c h d s)) = s"
  by (simp add: agw_write_def)

lemma agw_submit_server [simp]: "snd (snd (agw_submit e c p f s)) = s"
  by (simp add: agw_submit_def Let_def split: option.split)

lemma submitUnproto_server [simp]: "snd (snd (submitUnproto e c h via info s)) = s"
  by (simp add: submitUnproto_def split: sum.split)

lemma send_raw_server [simp]: "snd (snd (send_raw e c h d s)) = s"
  by (auto simp: send_raw_def Let_def case_prod_unfold split: sum.split)

lemma refuse_server [simp]: "snd (snd (refuseConnect e c h r s)) = s" "snd (snd (sendDisconnect e c h r s)) = s"
  by (simp_all add: refuseConnect_def sendDisconnect_def)

lemma sessionFor_owns: "client_of s c = Some cl \<Longrightarrow> sessionFor cl h = Some sid \<Longrightarrow> owns s c sid"
  by (force simp: owns_def sessionFor_def dest: map_of_SomeD split: option.splits)

lemma Open_shape:
  assumes "Open scfg operator m = Inr (sid, m')"
  shows "sid = mgNextID m + 1" "mgNextID m' = sid" "x \<noteq> sid \<Longrightarrow> map_of (mgByID m') x = map_of (mgByID m) x"
    "map_of (mgByKey m') (config_key scfg) = Some sid"
    "\<exists>ss. NewSession scfg = Some ss \<and> map_of (mgByID m') sid = Some \<lparr>msLoop = start_loop ss, msOp = operator, msLastPath = [], msCancelled = False\<rparr>"
  using assms by (auto simp: Open_def Let_def update_conv' split: if_splits option.splits)

lemma by_open:
  assumes "client_of s c = Some cl" "asManager s = Some mgr"
  shows "by_client c s (snd (snd (open_link e c cl h src dst path mgr s)))"
proof -
  define key where "key = agw_sessionKey (ahPort h) (address_string src) (address_string dst)"
  define scfg where "scfg = agw_session_config src dst path (agw_channelFor (asCfg s) (ahPort h))"
  consider "snd (snd (open_link e c cl h src dst path mgr s)) = s" | sid mgr' where "Open scfg ''agw'' mgr = Inr (sid, mgr')" "map_of (acSessions cl) key = None"
    using that by (cases "Open scfg ''agw'' mgr"; cases "map_of (acSessions cl) key") (auto simp: open_link_def Let_def key_def scfg_def)
  then show ?thesis
  proof cases
    case 2
    define s1 where "s1 = s\<lparr>asManager := Some mgr', asObservers := (asObservers s)(sid \<mapsto> \<lparr>aoClient = c, aoPort = ahPort h, aoFrom = ahFrom h, aoTo = ahTo h, aoKey = key\<rparr>)\<rparr>"
    define s2 where "s2 = set_client c (cl\<lparr>acSessions := (key, sid) # acSessions cl\<rparr>) s1"
    have res: "snd (snd (open_link e c cl h src dst path mgr s)) = session_submit sid EventConnect s2"
      using 2 by (simp add: open_link_def Let_def key_def scfg_def s1_def s2_def)
    note o = Open_shape[OF 2(1)]
    have n: "next_sid s < sid" "next_sid s2 = sid" using o(1,2) assms(2) by (simp_all add: next_sid_def s2_def s1_def)
    have c1: "client_of s1 x = client_of s x" for x by (simp add: s1_def client_of_def)
    have "link s2 x = link s x" if "x \<noteq> sid" for x using that o(3) assms(2) by (simp add: link_def s2_def s1_def)
    then have lnk: "link (session_submit sid EventConnect s2) x = link s x" if "x \<noteq> sid" for x using that session_submit_link[of x sid] by simp
    have own: "owns s2 c x \<Longrightarrow> owns s c x \<or> x = sid" for x using assms(1) by (auto simp: owns_def s2_def client_of_set c1)
    have obs: "asObservers s2 = (asObservers s)(sid \<mapsto> \<lparr>aoClient = c, aoPort = ahPort h, aoFrom = ahFrom h, aoTo = ahTo h, aoKey = key\<rparr>)"
      by (simp add: s2_def) (simp add: s1_def)
    have rest: "asNextClient s2 = asNextClient s" "fst ` set (asClients s2) = fst ` set (asClients s)" "\<And>x. x \<noteq> c \<Longrightarrow> client_of s2 x = client_of s x"
      by (simp_all add: s2_def client_of_set c1) (simp_all add: s1_def)
    show ?thesis unfolding res
    proof (rule by_clientI)
      fix x
      show "link (session_submit sid EventConnect s2) x = link s x \<or> owns s c x \<or> next_sid s < x" using lnk[of x] n(1) by (cases "x = sid") simp_all
      show "asObservers (session_submit sid EventConnect s2) x = asObservers s x
          \<or> next_sid s < x \<and> x \<le> next_sid (session_submit sid EventConnect s2)" using n by (simp add: obs)
      assume "owns (session_submit sid EventConnect s2) c x"
      then have "owns s c x \<or> x = sid" using own by simp
      then show "owns s c x \<and> asObservers (session_submit sid EventConnect s2) x = asObservers s x
          \<or> next_sid s < x \<and> x \<le> next_sid (session_submit sid EventConnect s2)
            \<and> (case asObservers (session_submit sid EventConnect s2) x of None \<Rightarrow> False | Some ob \<Rightarrow> aoClient ob = c)"
        using n by (cases "x = sid") (simp_all add: obs)
    qed (use n rest in simp_all)
  qed simp
qed

lemma by_connect: "client_of s c = Some cl \<Longrightarrow> by_client c s (snd (snd (handleConnect e c cl h d s)))"
  by (auto simp: handleConnect_def by_open split: sum.split option.split)

lemma if_both: "P x \<Longrightarrow> P y \<Longrightarrow> P (if b then x else y)"
  by simp

lemma by_dispatch:
  assumes "client_of s c = Some cl"
  shows "by_client c s (snd (snd (agw_dispatch e c cl h d s)))"
proof -
  have "by_client c s (snd (snd (handleDisconnect e c cl h s)))" "by_client c s (snd (snd (handleConnectedData e c cl h d s)))"
    using assms sessionFor_owns by_submit by (auto simp: handleDisconnect_def handleConnectedData_def split: option.split)
  moreover have "by_client c s (set_client c cl' s)" if "acSessions cl' = acSessions cl" for cl'
    using by_set[OF assms, of cl'] that by simp
  moreover define P where "P r = by_client c s (snd (snd r))" for r :: agw_result
  ultimately have "P (agw_dispatch e c cl h d s)" unfolding agw_dispatch_def
    by (intro if_both[of P]) (simp_all add: P_def by_connect[OF assms] Let_def split: sum.split prod.split)
  then show ?thesis by (simp add: P_def)
qed

lemma by_abort: "set xs \<subseteq> {(k, sid). owns s c sid} \<Longrightarrow> by_client c s (fold (\<lambda>(_, sid). session_submit sid ev) xs s)"
proof (induction xs arbitrary: s)
  case (Cons x xs)
  obtain k sid where x: "x = (k, sid)" by force
  have "by_client c s (session_submit sid ev s)" using Cons.prems x by (intro by_submit) simp
  moreover have "by_client c (session_submit sid ev s) (fold (\<lambda>(_, sid). session_submit sid ev) xs (session_submit sid ev s))"
    using Cons.prems by (intro Cons.IH) auto
  ultimately show ?case using by_trans x by simp
qed simp

lemma delete_sub: "set (AList.delete k xs) \<subseteq> set xs"
  by (auto simp: AList.delete_eq)

lemma delete_keys_sub: "fst ` set (AList.delete k xs) \<subseteq> fst ` set xs"
  by (rule image_mono[OF delete_sub])

lemma by_delete: "client_of s c = Some cl \<Longrightarrow> by_client c s (set_client c (cl\<lparr>acSessions := AList.delete k (acSessions cl)\<rparr>) s)"
  by (rule by_set, assumption) (use delete_sub in force)

lemma by_remove: "by_client c s (snd (agw_removeClient c s))"
proof (cases "client_of s c")
  case (Some cl)
  define s1 where "s1 = fold (\<lambda>(_, sid). session_submit sid EventAbort) (acSessions cl) s"
  define s2 where "s2 = s1\<lparr>asClients := AList.delete c (asClients s1)\<rparr>"
  have "by_client c s s1" unfolding s1_def using Some by (intro by_abort) (force simp: owns_def)
  moreover have "by_client c s1 s2"
    unfolding by_client_def s2_def client_of_def next_sid_def link_def owns_def by (simp add: delete_conv' delete_keys_sub)
  ultimately show ?thesis using Some by_trans by (simp add: agw_removeClient_def Let_def s1_def s2_def)
qed (simp add: agw_removeClient_def)

lemma by_frame: "by_client c s (snd (snd (client_frame e c f s)))"
proof (cases "client_of s c")
  case (Some cl)
  obtain err xs s1 where d: "agw_dispatch e c cl (fst f) (snd f) s = (err, xs, s1)" by (metis prod.exhaust)
  then have "by_client c s s1" using by_dispatch[OF Some, of e "fst f" "snd f"] by simp
  then show ?thesis using Some d by_remove[of c s1] by_trans by (auto simp: client_frame_def Let_def split: prod.split)
qed (simp add: client_frame_def)

lemma inv_owner:
  assumes "agw_inv s" "owns s c sid"
  obtains ob where "asObservers s sid = Some ob" "aoClient ob = c" "sid \<le> next_sid s"
proof -
  have "case asObservers s sid of None \<Rightarrow> False | Some ob \<Rightarrow> aoClient ob = c" using assms unfolding agw_inv_def by blast
  then obtain ob where ob: "asObservers s sid = Some ob" "aoClient ob = c" by (auto split: option.splits)
  then have "sid \<le> next_sid s" using assms(1) unfolding agw_inv_def by blast
  then show thesis using that ob by blast
qed

lemma by_client_inv:
  assumes "by_client c s s'" "agw_inv s"
  shows "agw_inv s'"
proof -
  have own: "owns s' x sid = owns s x sid" if "x \<noteq> c" for x sid using assms(1) that by (simp add: by_client_def owns_def)
  have le: "sid \<le> next_sid s" if "owns s x sid" for x sid using inv_owner[OF assms(2) that] by blast
  have obs: "asObservers s' sid = asObservers s sid" if "sid \<le> next_sid s" for sid
    using assms(1) that unfolding by_client_def by (metis not_less)
  have "case asObservers s' sid of None \<Rightarrow> False | Some ob \<Rightarrow> aoClient ob = x" if o: "owns s' x sid" for x sid
  proof (cases "x = c")
    case True
    then have "owns s c sid \<and> asObservers s' sid = asObservers s sid
           \<or> next_sid s < sid \<and> sid \<le> next_sid s' \<and> (case asObservers s' sid of None \<Rightarrow> False | Some ob \<Rightarrow> aoClient ob = c)"
      using assms(1) o unfolding by_client_def by blast
    then show ?thesis using assms(2) True by (auto simp: agw_inv_def)
  next
    case False
    then have "owns s x sid" using own o by simp
    then show ?thesis using assms(2) obs[OF le] by (simp add: agw_inv_def)
  qed
  moreover have "sid \<le> next_sid s'" if "sid \<in> dom (asObservers s')" for sid
  proof (cases "asObservers s' sid = asObservers s sid")
    case True
    then have "sid \<le> next_sid s" using assms(2) that by (auto simp: agw_inv_def dom_def)
    then show ?thesis using assms(1) by (simp add: by_client_def)
  qed (use assms(1) in \<open>simp add: by_client_def\<close>)
  moreover have "x < asNextClient s'" if "x \<in> fst ` set (asClients s')" for x
  proof -
    have "x \<in> fst ` set (asClients s)" using by_clientD(3)[OF assms(1)] that by blast
    moreover have "\<forall>c \<in> fst ` set (asClients s). c < asNextClient s" using assms(2) unfolding agw_inv_def by blast
    ultimately show ?thesis using by_clientD(1)[OF assms(1)] by metis
  qed
  ultimately show ?thesis unfolding agw_inv_def by blast
qed

lemma by_observe: "asObservers s sid = Some ob \<Longrightarrow> by_client (aoClient ob) s (snd (observe e sid ev s))"
  by (auto simp: by_delete observe_def Let_def split: out_event.split option.split)

lemma mgr_apply_next: "mgNextID m \<le> mgNextID (mgr_apply op m)"
proof (cases op)
  case (MgOpen scfg operator)
  then show ?thesis using Open_shape[of scfg operator m] by (auto split: sum.split)
qed (auto simp: remove_def DispatchRaw_def Dispatch_def deliver_def Close_def split: sum.split option.split)

lemma agw_step_inv: "agw_inv s \<Longrightarrow> agw_inv (agw_step e op s)"
proof (cases op)
  case AgwConnects
  assume "agw_inv s"
  then show ?thesis using AgwConnects
    by (auto simp: agw_step_def agw_addClient_def Let_def agw_inv_def owns_def client_of_def next_sid_def map_add_def split: option.splits if_splits)
next
  case (AgwFrame c f)
  then show "agw_inv s \<Longrightarrow> ?thesis" using by_client_inv[OF by_frame] by (simp add: agw_step_def)
next
  case (AgwLeaves c)
  then show "agw_inv s \<Longrightarrow> ?thesis" using by_client_inv[OF by_remove] by (simp add: agw_step_def)
next
  case (AgwEvent sid ev)
  show "agw_inv s \<Longrightarrow> ?thesis"
  proof (cases "asObservers s sid")
    case None
    then show "agw_inv s \<Longrightarrow> ?thesis" using AgwEvent by (simp add: agw_step_def observe_def)
  next
    case (Some ob)
    then show "agw_inv s \<Longrightarrow> ?thesis" using AgwEvent by_client_inv[OF by_observe[OF Some]] by (simp add: agw_step_def)
  qed
next
  case (AgwManager m)
  have "next_sid s \<le> next_sid (agw_step e op s)" using mgr_apply_next by (simp add: AgwManager agw_step_def next_sid_def split: option.split)
  then show "agw_inv s \<Longrightarrow> ?thesis"
    by (auto simp: agw_inv_def AgwManager agw_step_def owns_def client_of_def intro: order.trans)
qed

lemma agw_run_inv: "agw_inv s \<Longrightarrow> agw_inv (agw_run ops s)"
  unfolding agw_run_def by (induction ops arbitrary: s) (auto simp: agw_step_inv)

lemma agw_NewServer_inv: "agw_inv (NewServer_agw cfg mgr)"
  by (simp add: agw_inv_def NewServer_agw_def owns_def client_of_def)

text \<open>
  Property C31. Clients are isolated: in any run of the server, with clients that come, go, send anything and lose their
  connection, with session events and with whatever else the manager does, a frame that one client sends, and its leaving,
  leaves every other client as it was: its registered calls, its monitoring and raw flags, its pending via list and its table
  of links, and for each of its links the session itself and whom that session's events are reported to.
\<close>

theorem agw_clients_isolated:
  assumes "s = agw_run ops (NewServer_agw cfg mgr)" "c' \<noteq> c" "op = AgwFrame c' f \<or> op = AgwLeaves c'"
  shows "client_of (agw_step e op s) c = client_of s c
    \<and> (\<forall>sid. owns s c sid \<longrightarrow> owns (agw_step e op s) c sid \<and> link (agw_step e op s) sid = link s sid
         \<and> asObservers (agw_step e op s) sid = asObservers s sid)"
proof -
  have inv: "agw_inv s" unfolding assms(1) by (rule agw_run_inv[OF agw_NewServer_inv])
  have did: "by_client c' s (agw_step e op s)" using assms(3)
  proof
    assume "op = AgwFrame c' f"
    then show ?thesis using by_frame[of c' s e f] by (simp add: agw_step_def)
  next
    assume "op = AgwLeaves c'"
    then show ?thesis using by_remove[of c' s] by (simp add: agw_step_def)
  qed
  have cl: "client_of (agw_step e op s) c = client_of s c" using by_clientD(2)[OF did, of c] assms(2) by simp
  moreover have "owns (agw_step e op s) c sid \<and> link (agw_step e op s) sid = link s sid \<and> asObservers (agw_step e op s) sid = asObservers s sid"
    if own: "owns s c sid" for sid
  proof -
    obtain ob where ob: "asObservers s sid = Some ob" "aoClient ob = c" "sid \<le> next_sid s" using inv_owner[OF inv own] by blast
    have "\<not> owns s c' sid" using inv_owner[OF inv, of c' sid] ob assms(2) by auto
    moreover have "\<not> next_sid s < sid" using ob(3) by simp
    ultimately show ?thesis using by_clientD(6,7)[OF did, of sid] cl own by (auto simp: owns_def)
  qed
  ultimately show ?thesis by blast
qed

section \<open>Answers\<close>

text \<open>The frame that tells a client why not, and a link that is the client's and has not begun.\<close>

definition refusal :: "nat \<Rightarrow> agw_header \<Rightarrow> string \<Rightarrow> agw_effect" where
  "refusal c h reason =
     AgwWrite c (WriteFrame (agw_head (ahPort h) CHR ''d'' PIDNoLayer3 (ahTo h) (ahFrom h))
       (bytes_of (''*** DISCONNECTED With '' @ ahTo h @ '': '' @ reason @ [CHR 0x0D, CHR 0x0A])))"

definition link_opened :: "nat \<Rightarrow> agw_server \<Rightarrow> agw_server \<Rightarrow> bool" where
  "link_opened c s s' \<longleftrightarrow> (\<exists>sid ob obj. next_sid s < sid \<and> owns s' c sid \<and> asObservers s' sid = Some ob \<and> aoClient ob = c
     \<and> link s' sid = Some obj \<and> lpIn (msLoop obj) = [EventConnect])"

definition answered_by :: "nat \<Rightarrow> agw_header \<Rightarrow> agw_server \<Rightarrow> agw_result \<Rightarrow> bool" where
  "answered_by c h s r \<longleftrightarrow>
     \<not> fst r \<and> ((\<exists>reason. snd r = ([refusal c h reason], s)) \<or> fst (snd r) = [] \<and> link_opened c s (snd (snd r)))"

text \<open>
  Property C32. A request to connect is never left hanging: either the client is told why not, in one frame and with
  nothing else changed, or a new session exists that is the client's, reports to it, and has the connect event as its
  first input.
\<close>

theorem connect_answered:
  assumes "client_of s c = Some cl" "ahKind h = CHR ''C'' \<or> ahKind h = CHR ''v''" "awWritable e c"
  shows "answered_by c h s (client_frame e c (h, d) s)"
proof -
  have refused: "answered_by c h s (refuseConnect e c h reason s)" for reason
    using assms(3) by (auto simp: answered_by_def refusal_def refuseConnect_def sendDisconnect_def agw_write_def)
  have opened: "answered_by c h s (open_link e c cl h src dst path mgr s)" if m: "asManager s = Some mgr" for src dst path mgr
  proof -
    define key where "key = agw_sessionKey (ahPort h) (address_string src) (address_string dst)"
    define scfg where "scfg = agw_session_config src dst path (agw_channelFor (asCfg s) (ahPort h))"
    show ?thesis
    proof (cases "map_of (acSessions cl) key \<noteq> None \<or> (\<exists>err. Open scfg ''agw'' mgr = Inl err)")
      case True
      then show ?thesis using refused unfolding open_link_def Let_def key_def scfg_def by auto
    next
      case False
      then obtain sid mgr' where o: "Open scfg ''agw'' mgr = Inr (sid, mgr')" by (cases "Open scfg ''agw'' mgr") auto
      define ob where "ob = \<lparr>aoClient = c, aoPort = ahPort h, aoFrom = ahFrom h, aoTo = ahTo h, aoKey = key\<rparr>"
      define s2 where "s2 = set_client c (cl\<lparr>acSessions := (key, sid) # acSessions cl\<rparr>) (s\<lparr>asManager := Some mgr', asObservers := (asObservers s)(sid \<mapsto> ob)\<rparr>)"
      have res: "open_link e c cl h src dst path mgr s = (False, [], session_submit sid EventConnect s2)"
        using False o by (simp add: open_link_def Let_def key_def scfg_def s2_def ob_def)
      obtain ss where ss: "map_of (mgByID mgr') sid = Some \<lparr>msLoop = start_loop ss, msOp = ''agw'', msLastPath = [], msCancelled = False\<rparr>"
        using Open_shape(5)[OF o] by blast
      have c1: "client_of (s\<lparr>asManager := Some mgr', asObservers := (asObservers s)(sid \<mapsto> ob)\<rparr>) c = Some cl" using assms(1) by (simp add: client_of_def)
      have "owns s2 c sid" using c1 by (simp add: owns_def s2_def client_of_set)
      moreover have "asObservers s2 sid = Some ob" "aoClient ob = c" "asManager s2 = Some mgr'" by (simp_all add: s2_def ob_def)
      moreover have "\<exists>obj. link (session_submit sid EventConnect s2) sid = Some obj \<and> lpIn (msLoop obj) = [EventConnect]"
        using ss calculation(4) by (simp add: link_def session_submit_def mg_update_def update_conv' enqueue_def start_loop_def inputCap_def)
      moreover have "next_sid s < sid" using Open_shape(1)[OF o] m by (simp add: next_sid_def)
      ultimately show ?thesis unfolding res answered_by_def link_opened_def by auto
    qed
  qed
  have "answered_by c h s (handleConnect e c cl h d s)"
    using refused opened by (simp add: handleConnect_def split: sum.split option.split)
  moreover have "agw_dispatch e c cl h d s = handleConnect e c cl h d s"
    using assms(2) by (auto simp: agw_dispatch_def)
  ultimately have "answered_by c h s (agw_dispatch e c cl h d s)" by simp
  moreover have "client_frame e c (h, d) s = agw_dispatch e c cl h d s" if "\<not> fst (agw_dispatch e c cl h d s)"
    using that assms(1) by (cases "agw_dispatch e c cl h d s") (auto simp: client_frame_def)
  ultimately show ?thesis by (simp add: answered_by_def)
qed

text \<open>
  A frame that the governor refuses, for one because its queue is full, costs the client its connection: the
  handler takes the refusal for an error of the stream, and the client is gone from the table.
\<close>

theorem refused_frame_disconnects:
  assumes "client_of s c = Some cl" "ahKind h = CHR ''M''" "ParseAddress (ahFrom h) = Inr src" "ParseAddress (ahTo h) = Inr dst"
    "acVia cl = []" "agHasSink (asCfg s)" "\<And>ch f. awSubmit e ch f (agw_source e c) = Some ErrQueueFull"
  shows "fst (client_frame e c (h, d) s) \<and> client_of (snd (snd (client_frame e c (h, d) s))) c = None"
proof -
  have "submitUnproto e c h [] d s1 = (True, [], s1)" if "agHasSink (asCfg s1)" for s1
    using assms(3,4,7) that by (simp add: submitUnproto_def via_addresses_def NewUIFrame_def agw_submit_def Let_def MaxRepeaters_def)
  then have d: "agw_dispatch e c cl h d s = (True, [], set_client c (cl\<lparr>acVia := []\<rparr>) s)"
    using assms(2,5,6) by (simp add: agw_dispatch_def)
  have "client_of (snd (agw_removeClient c x)) c = None" for x
    by (simp add: agw_removeClient_def client_of_def Let_def delete_conv' split: option.split)
  then show ?thesis using assms(1) d by (simp add: client_frame_def case_prod_unfold)
qed

section \<open>An example\<close>

definition example_agw_env :: "gov_err option \<Rightarrow> agw_env" where
  "example_agw_env r = \<lparr>awWritable = (\<lambda>_. True), awSubmit = (\<lambda>_ _ _. r), awRemote = (\<lambda>_. ''localhost:1'')\<rparr>"

definition example_agw_server :: agw_server where
  "example_agw_server = NewServer_agw \<lparr>agPortCallsigns = [''K0TFU''], agPortToChannel = [(0, 1)], agHasSink = True\<rparr> (Some (NewManager None 4 64))"

definition example_connect :: agw_header where
  "example_connect = agw_head 0 CHR ''C'' 0 ''K0TFU'' ''NW5W-9''"

theorem agw_clients_isolated_witness:
  "let s = agw_run [(example_agw_env None, AgwConnects), (example_agw_env None, AgwConnects), (example_agw_env None, AgwFrame 0 (example_connect, []))] example_agw_server
   in owns s 0 1 \<and> link (agw_step (example_agw_env None) (AgwLeaves 1) s) 1 = link s 1
     \<and> client_of (agw_step (example_agw_env None) (AgwLeaves 1) s) 0 = client_of s 0"
proof -
  let ?ops = "[(example_agw_env None, AgwConnects), (example_agw_env None, AgwConnects), (example_agw_env None, AgwFrame 0 (example_connect, []))]"
  have "owns (agw_run ?ops example_agw_server) 0 1" by code_simp
  then show ?thesis
    using agw_clients_isolated[OF refl, where ops = ?ops and cfg = "\<lparr>agPortCallsigns = [''K0TFU''], agPortToChannel = [(0, 1)], agHasSink = True\<rparr>"
        and mgr = "Some (NewManager None 4 64)" and c' = 1 and c = 0 and op = "AgwLeaves 1" and e = "example_agw_env None"]
    unfolding example_agw_server_def Let_def by simp
qed

theorem connect_answered_witness:
  "link_opened 0 (snd (agw_addClient example_agw_server))
     (snd (snd (client_frame (example_agw_env None) 0 (example_connect, []) (snd (agw_addClient example_agw_server)))))"
proof -
  let ?s = "snd (agw_addClient example_agw_server)"
  have c: "client_of ?s 0 = Some \<lparr>acMonitor = False, acRaw = False, acCalls = {}, acVia = [], acSessions = []\<rparr>"
    by (simp add: agw_addClient_def client_of_def Let_def example_agw_server_def NewServer_agw_def)
  have "fst (snd (client_frame (example_agw_env None) 0 (example_connect, []) ?s)) = []" by code_simp
  then show ?thesis
    using connect_answered[OF c, of example_connect "example_agw_env None" "[]"]
    by (auto simp: answered_by_def example_connect_def example_agw_env_def)
qed

theorem refused_frame_disconnects_witness:
  "client_of (snd (snd (client_frame (example_agw_env (Some ErrQueueFull)) 0 (agw_head 0 CHR ''M'' 0 ''K0TFU'' ''APRS'', [33]) (snd (agw_addClient example_agw_server))))) 0 = None"
proof -
  let ?s = "snd (agw_addClient example_agw_server)"
  have c: "client_of ?s 0 = Some \<lparr>acMonitor = False, acRaw = False, acCalls = {}, acVia = [], acSessions = []\<rparr>" "agHasSink (asCfg ?s)"
    by (simp_all add: agw_addClient_def client_of_def Let_def example_agw_server_def NewServer_agw_def)
  have "\<not> (case ParseAddress ''K0TFU'' of Inl _ \<Rightarrow> True | Inr _ \<Rightarrow> False)" "\<not> (case ParseAddress ''APRS'' of Inl _ \<Rightarrow> True | Inr _ \<Rightarrow> False)" by code_simp+
  then obtain src dst where "ParseAddress ''K0TFU'' = Inr src" "ParseAddress ''APRS'' = Inr dst" by (auto split: sum.splits)
  then show ?thesis
    using refused_frame_disconnects[OF c(1), of "agw_head 0 CHR ''M'' 0 ''K0TFU'' ''APRS''" src dst "example_agw_env (Some ErrQueueFull)" "[33]"] c(2)
    by (simp add: example_agw_env_def)
qed

end
