(* ===== verification/Tap.thy ===== *)
theory Tap
  imports Graywolf_Prelude "HOL-Library.Sublist"
begin

text \<open>
  The non-blocking send into the buffered channel of a subscriber, as packet log, message events
  and carrier detect use it: there is room and the value is queued, or it is lost and counted.
  The contract says what a subscriber has seen of what was sent since it came: a subsequence in
  order, of which exactly the counted values are missing.
\<close>

definition try_send :: "nat \<Rightarrow> 'a \<Rightarrow> 'a list \<Rightarrow> 'a list \<times> bool" where
  "try_send cap x q = (if length q < cap then (q @ [x], True) else (q, False))"

text \<open>The last elements of a list, and what a bounded buffer keeps of a growing one.\<close>

definition last_n :: "nat \<Rightarrow> 'a list \<Rightarrow> 'a list" where
  "last_n n xs = drop (length xs - n) xs"

lemma last_n_append: "0 < c \<Longrightarrow> last_n c (last_n c h @ [x]) = last_n c (h @ [x])"
  by (cases "length h < c") (auto simp: last_n_def Suc_diff_le)

lemma length_last_n: "length (last_n c xs) = min c (length xs)"
  by (simp add: last_n_def)

locale lossy_tap =
  fixes push :: "'e \<Rightarrow> 't \<Rightarrow> 't"
    and pop :: "'t \<Rightarrow> 't"
    and queue :: "'t \<Rightarrow> 'e list"
    and lost :: "'t \<Rightarrow> nat"
    and cap :: nat
  assumes push_room: "length (queue t) < cap \<Longrightarrow> queue (push e t) = queue t @ [e] \<and> lost (push e t) = lost t"
    and push_full: "\<not> length (queue t) < cap \<Longrightarrow> queue (push e t) = queue t \<and> lost (push e t) = Suc (lost t)"
    and pop_queue: "queue (pop t) = tl (queue t)"
    and pop_lost: "lost (pop t) = lost t"
begin

definition seen :: "'e list \<Rightarrow> 'e list \<Rightarrow> 't \<Rightarrow> bool" where
  "seen got sent t \<longleftrightarrow> subseq (got @ queue t) sent \<and> length got + length (queue t) + lost t = length sent \<and> length (queue t) \<le> cap"

lemma seenI:
  "subseq (got @ queue t) sent \<Longrightarrow> length got + length (queue t) + lost t = length sent \<Longrightarrow> length (queue t) \<le> cap \<Longrightarrow> seen got sent t"
  by (simp add: seen_def)

lemma seen_push:
  assumes "seen got sent t" shows "seen got (sent @ [e]) (push e t)"
proof (cases "length (queue t) < cap")
  case True
  have "subseq ((got @ queue t) @ [e]) (sent @ [e])"
    using assms by (intro list_emb_append_mono) (auto simp: seen_def)
  then show ?thesis using assms True push_room[OF True, of e] by (intro seenI) (auto simp: seen_def)
next
  case False
  have "subseq (got @ queue t) (sent @ [e])" using assms by (auto simp: seen_def intro: subseq_append_iff[THEN iffD2])
  then show ?thesis using assms push_full[OF False, of e] by (intro seenI) (auto simp: seen_def)
qed

lemma seen_pop:
  assumes "seen got sent t" "queue t \<noteq> []" shows "seen (got @ [hd (queue t)]) sent (pop t)"
proof -
  obtain x q where q: "queue t = x # q" using assms(2) by (cases "queue t") auto
  then show ?thesis using assms(1) by (intro seenI) (simp_all add: seen_def pop_queue pop_lost)
qed

text \<open>Who has lost nothing has seen everything.\<close>

lemma seen_all: "seen got sent t \<Longrightarrow> lost t = 0 \<Longrightarrow> got @ queue t = sent"
  by (auto simp: seen_def intro!: subseq_same_length)

lemma seen_bound: "seen got sent t \<Longrightarrow> length (queue t) \<le> cap"
  by (simp add: seen_def)

end

end
