(* ===== verification/PKT_Log.thy ===== *)
theory PKT_Log
  imports APRS_Packet Tap
begin

text \<open>
  The packet log (\<^verbatim>\<open>pkg/packetlog\<close>): a ring of entries with a capacity and an age limit, a filtered
  query, and subscribers that follow the log through channels of their own. Times are nanoseconds,
  0 the zero time; the audio level of an entry is a type parameter, as nothing computes with it.
\<close>

section \<open>Entries and the ring\<close>

record 'a log_entry =
  leTime :: int
  leChannel :: u32
  leDirection :: string
  leSource :: string
  leRaw :: bytes
  leDisplay :: string
  leType :: string
  leDecoded :: "packet option"
  leNotes :: string
  leAudio :: "'a option"

definition zero_entry :: "'a log_entry" where
  "zero_entry = \<lparr>leTime = 0, leChannel = 0, leDirection = [], leSource = [], leRaw = [], leDisplay = [], leType = [],
     leDecoded = None, leNotes = [], leAudio = None\<rparr>"

record 'a packet_log =
  plMaxAge :: int
  plEntries :: "'a log_entry list"
  plHead :: nat
  plSize :: nat
  plNextID :: nat

abbreviation plCap :: "'a packet_log \<Rightarrow> nat" where
  "plCap l \<equiv> length (plEntries l)"

definition New_log :: "int \<Rightarrow> int \<Rightarrow> 'a packet_log" where
  "New_log capacity age =
     (let capacity = (if capacity \<le> 0 then 1000 else capacity);
          age = (if age \<le> 0 then 30 * 60 * 1000000000 else age)
      in \<lparr>plMaxAge = age, plEntries = replicate (nat capacity) zero_entry, plHead = 0, plSize = 0, plNextID = 0\<rparr>)"

definition ring_start :: "'a packet_log \<Rightarrow> nat" where
  "ring_start l = (plHead l + plCap l - plSize l) mod plCap l"

text \<open>The scan of the collector: how many of the oldest \<open>n\<close> entries go, and the array without them.\<close>

fun gc_loop :: "int \<Rightarrow> nat \<Rightarrow> nat \<Rightarrow> nat \<Rightarrow> 'a log_entry list \<Rightarrow> nat \<times> 'a log_entry list" where
  "gc_loop cutoff start dropped 0 es = (dropped, es)"
| "gc_loop cutoff start dropped (Suc n) es =
     (let idx = (start + dropped) mod length es in
      if \<not> leTime (es ! idx) < cutoff then (dropped, es)
      else gc_loop cutoff start (Suc dropped) n (es[idx := zero_entry]))"

definition log_gc :: "int \<Rightarrow> 'a packet_log \<Rightarrow> 'a packet_log" where
  "log_gc now l =
     (if plSize l = 0 \<or> plMaxAge l \<le> 0 then l
      else let (dropped, es) = gc_loop (now - plMaxAge l) (ring_start l) 0 (plSize l) (plEntries l)
           in l\<lparr>plEntries := es, plSize := plSize l - dropped\<rparr>)"

definition stamp :: "int \<Rightarrow> 'a log_entry \<Rightarrow> 'a log_entry" where
  "stamp now x = (if leTime x = 0 then x\<lparr>leTime := now\<rparr> else x)"

definition ring_put :: "'a log_entry \<Rightarrow> 'a packet_log \<Rightarrow> 'a packet_log" where
  "ring_put x l = l\<lparr>plEntries := (plEntries l)[plHead l := x], plHead := (plHead l + 1) mod plCap l,
     plSize := (if plSize l < plCap l then plSize l + 1 else plSize l), plNextID := plNextID l + 1\<rparr>"

text \<open>\<^verbatim>\<open>Record\<close>, up to the publication of the stamped entry.\<close>

definition log_Record :: "int \<Rightarrow> 'a log_entry \<Rightarrow> 'a packet_log \<Rightarrow> 'a packet_log" where
  "log_Record now x l = (let x = stamp now x in log_gc (leTime x) (ring_put x l))"

record log_filter =
  lfSince :: int
  lfSource :: string
  lfType :: string
  lfDirection :: string
  lfChannel :: int
  lfLimit :: int

definition passes :: "log_filter \<Rightarrow> 'a log_entry \<Rightarrow> bool" where
  "passes f x \<longleftrightarrow>
     \<not> (lfSince f \<noteq> 0 \<and> leTime x < lfSince f) \<and> \<not> (lfSource f \<noteq> [] \<and> leSource x \<noteq> lfSource f)
     \<and> \<not> (lfType f \<noteq> [] \<and> leType x \<noteq> lfType f) \<and> \<not> (lfDirection f \<noteq> [] \<and> leDirection x \<noteq> lfDirection f)
     \<and> \<not> (lfChannel f > 0 \<and> word_of_int (lfChannel f) \<noteq> leChannel x)"

definition log_Query :: "log_filter \<Rightarrow> 'a packet_log \<Rightarrow> 'a log_entry list" where
  "log_Query f l =
     (if plSize l = 0 then []
      else let out = filter (passes f) (map (\<lambda>i. plEntries l ! ((ring_start l + i) mod plCap l)) [0..<plSize l])
           in if lfLimit f > 0 \<and> int (length out) > lfLimit f then drop (length out - nat (lfLimit f)) out else out)"

section \<open>The log as a list\<close>

definition log_list :: "'a packet_log \<Rightarrow> 'a log_entry list" where
  "log_list l = map (\<lambda>i. plEntries l ! ((ring_start l + i) mod plCap l)) [0..<plSize l]"

definition log_inv :: "'a packet_log \<Rightarrow> bool" where
  "log_inv l \<longleftrightarrow> 0 < plCap l \<and> plHead l < plCap l \<and> plSize l \<le> plCap l"

lemma length_log_list [simp]: "length (log_list l) = plSize l"
  by (simp add: log_list_def)

lemma log_list_nth: "i < plSize l \<Longrightarrow> log_list l ! i = plEntries l ! ((ring_start l + i) mod plCap l)"
  by (simp add: log_list_def)

lemma ring_distinct:
  assumes "i < j" "j < c + i" shows "(s + i) mod c \<noteq> (s + j) mod (c::nat)"
proof
  assume "(s + i) mod c = (s + j) mod c"
  then have "c dvd j - i" using assms(1) mod_eq_dvd_iff_nat[of "s + i" "s + j" c] by auto
  then show False using assms by (auto dest: dvd_imp_le)
qed

lemma gc_loop_length [simp]: "length (snd (gc_loop cutoff start d n es)) = length es"
  by (induction n arbitrary: d es) (simp_all add: Let_def)

text \<open>What the collector drops, and that it leaves the rest of the window alone.\<close>

lemma gc_loop_spec:
  assumes "d + n \<le> length es" "gc_loop cutoff start d n es = (d', es')"
  shows "d' = d + length (takeWhile (\<lambda>x. leTime x < cutoff) (map (\<lambda>i. es ! ((start + d + i) mod length es)) [0..<n]))
    \<and> (\<forall>i. d' \<le> i \<longrightarrow> i < d + n \<longrightarrow> es' ! ((start + i) mod length es) = es ! ((start + i) mod length es))"
  using assms
proof (induction n arbitrary: d es)
  case 0
  then show ?case by simp
next
  case (Suc n)
  define idx where "idx = (start + d) mod length es"
  have shift: "map (\<lambda>i. f (start + d + i)) [0..<Suc n] = f (start + d) # map (\<lambda>i. f (start + Suc d + i)) [0..<n]" for f :: "nat \<Rightarrow> 'a log_entry"
    by (simp add: map_upt_Suc del: upt_Suc)
  show ?case
  proof (cases "leTime (es ! idx) < cutoff")
    case False
    then show ?thesis using Suc.prems shift[of "\<lambda>k. es ! (k mod length es)"] by (simp add: idx_def Let_def del: upt_Suc)
  next
    case True
    let ?es = "es[idx := zero_entry]"
    have other: "?es ! ((start + i) mod length es) = es ! ((start + i) mod length es)" if "d < i" "i < d + Suc n" for i
    proof -
      have "idx \<noteq> (start + i) mod length es" using ring_distinct[of d i "length es" start] that Suc.prems(1) by (simp add: idx_def)
      then show ?thesis by simp
    qed
    have tail: "map (\<lambda>i. ?es ! ((start + Suc d + i) mod length es)) [0..<n] = map (\<lambda>i. es ! ((start + Suc d + i) mod length es)) [0..<n]"
      using other[of "Suc d + i" for i] by (auto simp: add.assoc)
    have run: "gc_loop cutoff start (Suc d) n ?es = (d', es')" using Suc.prems True by (simp add: idx_def Let_def)
    have IH: "d' = Suc d + length (takeWhile (\<lambda>x. leTime x < cutoff) (map (\<lambda>i. ?es ! ((start + Suc d + i) mod length es)) [0..<n]))
      \<and> (\<forall>i. d' \<le> i \<longrightarrow> i < Suc d + n \<longrightarrow> es' ! ((start + i) mod length es) = ?es ! ((start + i) mod length es))"
      using Suc.IH[OF _ run] Suc.prems(1) by simp
    have "d < d'" using IH by simp
    then show ?thesis using IH other True shift[of "\<lambda>k. es ! (k mod length es)"] unfolding tail
      by (simp add: idx_def del: upt_Suc)
  qed
qed

lemma log_gc_list:
  assumes "log_inv l" "0 < plMaxAge l"
  shows "log_inv (log_gc now l) \<and> plMaxAge (log_gc now l) = plMaxAge l \<and> plCap (log_gc now l) = plCap l
    \<and> log_list (log_gc now l) = dropWhile (\<lambda>x. leTime x < now - plMaxAge l) (log_list l)"
proof (cases "plSize l = 0")
  case True
  then show ?thesis using assms by (simp add: log_gc_def log_list_def)
next
  case False
  obtain d es where g: "gc_loop (now - plMaxAge l) (ring_start l) 0 (plSize l) (plEntries l) = (d, es)" by fastforce
  have len: "length es = plCap l" using gc_loop_length[of "now - plMaxAge l" "ring_start l" 0 "plSize l" "plEntries l"] g by simp
  let ?old = "\<lambda>x. leTime x < now - plMaxAge l"
  have spec: "d = length (takeWhile ?old (log_list l))" "\<And>i. d \<le> i \<Longrightarrow> i < plSize l \<Longrightarrow> es ! ((ring_start l + i) mod plCap l) = plEntries l ! ((ring_start l + i) mod plCap l)"
    using gc_loop_spec[OF _ g] assms(1) by (auto simp: log_inv_def log_list_def)
  have dle: "d \<le> plSize l" using spec(1) length_takeWhile_le[of ?old "log_list l"] by simp
  let ?l = "l\<lparr>plEntries := es, plSize := plSize l - d\<rparr>"
  have gc: "log_gc now l = ?l" using False assms(2) g by (simp add: log_gc_def)
  have "plHead l + plCap l - (plSize l - d) = plHead l + plCap l - plSize l + d" using dle assms(1) by (simp add: log_inv_def)
  then have start: "ring_start ?l = (ring_start l + d) mod plCap l" by (simp add: ring_start_def len mod_simps)
  have "log_list ?l = drop d (log_list l)"
  proof (rule nth_equalityI)
    fix i assume "i < length (log_list ?l)"
    then have i: "i < plSize l - d" by simp
    then have "log_list ?l ! i = es ! ((ring_start l + (d + i)) mod plCap l)"
      using start len by (simp add: log_list_nth mod_simps add.assoc)
    also have "\<dots> = plEntries l ! ((ring_start l + (d + i)) mod plCap l)" using spec(2)[of "d + i"] i by simp
    finally show "log_list ?l ! i = drop d (log_list l) ! i" using i by (simp add: log_list_nth)
  qed simp
  then have "log_list ?l = dropWhile ?old (log_list l)" using spec(1) by (simp add: dropWhile_eq_drop)
  then show ?thesis using gc assms len by (auto simp: log_inv_def)
qed

text \<open>The write: the newest entry joins the window, of which the last entries fit.\<close>

lemma ring_write:
  fixes x :: "'a log_entry"
  assumes "log_inv l"
  defines "l' \<equiv> ring_put x l"
  shows "log_inv l' \<and> log_list l' = last_n (plCap l) (log_list l @ [x])"
proof -
  let ?c = "plCap l" and ?s = "plSize l" and ?h = "plHead l"
  have inv: "0 < ?c" "?h < ?c" "?s \<le> ?c" using assms(1) by (simp_all add: log_inv_def)
  have at_head: "(ring_start l + ?s) mod ?c = ?h" using inv by (simp add: ring_start_def mod_simps)
  have other: "(ring_start l + i) mod ?c \<noteq> ?h" if "?s < ?c + i" "i < ?s" for i
    using ring_distinct[of i ?s ?c "ring_start l"] that at_head by simp
  have "log_inv l'" using inv by (simp add: l'_def ring_put_def log_inv_def)
  moreover have "log_list l' = last_n ?c (log_list l @ [x])"
  proof (cases "?s < ?c")
    case True
    have "((?h + 1) mod ?c + ?c - (?s + 1)) mod ?c = ((?h + 1) mod ?c + (?c - (?s + 1))) mod ?c" using True by simp
    also have "\<dots> = (?h + 1 + (?c - (?s + 1))) mod ?c" by (simp add: mod_simps)
    also have "?h + 1 + (?c - (?s + 1)) = ?h + ?c - ?s" using True by simp
    finally have start: "ring_start l' = ring_start l" using True by (simp add: l'_def ring_put_def ring_start_def)
    have "log_list l' = log_list l @ [x]"
    proof (rule nth_equalityI)
      fix i assume "i < length (log_list l')"
      then have i: "i < Suc ?s" using True by (simp add: l'_def ring_put_def)
      show "log_list l' ! i = (log_list l @ [x]) ! i"
      proof (cases "i = ?s")
        case True
        have "log_list l' ! ?s = (plEntries l)[?h := x] ! ?h" using at_head \<open>?s < ?c\<close> start by (simp add: log_list_nth l'_def ring_put_def)
        then show ?thesis using True inv by (simp add: nth_append)
      next
        case False
        then show ?thesis using i other[of i] True start by (simp add: log_list_nth nth_append l'_def ring_put_def)
      qed
    qed (use True in \<open>simp add: l'_def ring_put_def\<close>)
    then show ?thesis using True by (simp add: last_n_def)
  next
    case False
    then have full: "?s = ?c" using inv by simp
    then have start: "ring_start l = ?h" "ring_start l' = (?h + 1) mod ?c" using inv by (simp_all add: l'_def ring_put_def ring_start_def)
    have "log_list l' = tl (log_list l) @ [x]"
    proof (rule nth_equalityI)
      fix i assume "i < length (log_list l')"
      then have i: "i < ?c" using full by (simp add: l'_def ring_put_def)
      have idx: "log_list l' ! i = (plEntries l)[?h := x] ! ((?h + Suc i) mod ?c)"
        using i full start by (simp add: log_list_nth l'_def ring_put_def mod_simps)
      show "log_list l' ! i = (tl (log_list l) @ [x]) ! i"
      proof (cases "Suc i = ?c")
        case True
        then show ?thesis using idx full inv by (simp add: nth_append)
      next
        case False
        then have "Suc i < ?s" using i full by simp
        then show ?thesis using idx i full other[of "Suc i"] start by (simp add: nth_append nth_tl log_list_nth)
      qed
    qed (use full inv in \<open>simp add: l'_def ring_put_def\<close>)
    moreover have "length (log_list l) = ?c" using full by simp
    ultimately show ?thesis using inv by (cases "log_list l") (auto simp: last_n_def)
  qed
  ultimately show ?thesis by simp
qed

text \<open>The ring refines the list: a record appends, keeps what fits, and cuts what is too old.\<close>

lemma log_Record_list:
  assumes "log_inv l" "0 < plMaxAge l"
  shows "log_inv (log_Record now x l) \<and> plMaxAge (log_Record now x l) = plMaxAge l \<and> plCap (log_Record now x l) = plCap l
    \<and> log_list (log_Record now x l)
      = dropWhile (\<lambda>y. leTime y < leTime (stamp now x) - plMaxAge l) (last_n (plCap l) (log_list l @ [stamp now x]))"
  using ring_write[OF assms(1), of "stamp now x"] log_gc_list[of "ring_put (stamp now x) l"] assms(2)
  by (simp add: log_Record_def Let_def ring_put_def)

lemma log_Query_list: "log_Query f l = (let out = filter (passes f) (log_list l) in if lfLimit f > 0 then last_n (nat (lfLimit f)) out else out)"
  by (cases "plSize l = 0") (auto simp: log_Query_def log_list_def Let_def last_n_def)

end
