(* ===== verification/PKT_Tail.thy ===== *)
theory PKT_Tail
  imports PKT_Log
begin

text \<open>
  The packet log over time: what a query finds of a whole history of records, and the subscribers
  (\<^verbatim>\<open>pkg/packetlog/subscribe.go\<close>) under every interleaving of the recorder, the readers and the
  goroutines that end subscriptions.
\<close>

section \<open>The window of a history\<close>

definition record_all :: "(int \<times> 'a log_entry) list \<Rightarrow> 'a packet_log \<Rightarrow> 'a packet_log" where
  "record_all hist l = fold (\<lambda>(now, x). log_Record now x) hist l"

definition stamped :: "(int \<times> 'a log_entry) list \<Rightarrow> 'a log_entry list" where
  "stamped hist = map (\<lambda>(now, x). stamp now x) hist"

definition effective_cap :: "int \<Rightarrow> nat" where
  "effective_cap capacity = (if capacity \<le> 0 then 1000 else nat capacity)"

definition effective_age :: "int \<Rightarrow> int" where
  "effective_age age = (if age \<le> 0 then 1800000000000 else age)"

text \<open>What the log should hold: the last entries that fit and are not older than the age limit, seen from the newest.\<close>

definition window :: "nat \<Rightarrow> int \<Rightarrow> 'a log_entry list \<Rightarrow> 'a log_entry list" where
  "window cap age xs = filter (\<lambda>x. leTime (last xs) - age \<le> leTime x) (last_n cap xs)"

lemma dropWhile_skip: "\<forall>y \<in> set (take d b). p y \<Longrightarrow> dropWhile p (drop d b) = dropWhile p b"
  by (metis append_take_drop_id dropWhile_append2)

lemma last_n_drop:
  assumes "length a \<le> c" "d \<le> length a" "\<forall>y \<in> set (take d a). p y" "0 < c"
  shows "dropWhile p (last_n c (drop d a @ [x])) = dropWhile p (last_n c (a @ [x]))"
proof (cases "length a < c")
  case True
  then show ?thesis using assms dropWhile_skip[of d "a @ [x]" p] by (simp add: last_n_def)
next
  case False
  then have len: "length a = c" using assms(1) by simp
  show ?thesis
  proof (cases d)
    case 0
    then show ?thesis by simp
  next
    case (Suc k)
    obtain y ys where a: "a = y # ys" using len assms(4) by (cases a) auto
    have "dropWhile p (drop k (ys @ [x])) = dropWhile p (ys @ [x])"
      by (rule dropWhile_skip) (use assms(2,3) Suc a in auto)
    then show ?thesis using len assms(2) Suc a by (simp add: last_n_def)
  qed
qed

lemma dropWhile_by_time:
  "sorted (map f xs) \<Longrightarrow> dropWhile (\<lambda>x. f x < c) xs = filter (\<lambda>x. c \<le> f x) xs" for c :: int
proof (induction xs)
  case (Cons x xs)
  have "c \<le> f x \<Longrightarrow> filter (\<lambda>y. c \<le> f y) xs = xs" using Cons.prems by (force simp: filter_id_conv)
  then show ?case using Cons by auto
qed simp

lemma record_all_list:
  assumes "0 < cap" "0 < age" "sorted (map leTime (stamped hist))" "l0 = \<lparr>plMaxAge = age, plEntries = replicate cap zero_entry, plHead = 0, plSize = 0, plNextID = 0\<rparr>"
  shows "log_inv (record_all hist l0) \<and> plMaxAge (record_all hist l0) = age \<and> plCap (record_all hist l0) = cap
    \<and> log_list (record_all hist l0) = dropWhile (\<lambda>y. leTime y < leTime (last (stamped hist)) - age) (last_n cap (stamped hist))"
  using assms(3)
proof (induction hist rule: rev_induct)
  case Nil
  then show ?case using assms by (simp add: record_all_def stamped_def last_n_def log_inv_def log_list_def)
next
  case (snoc e hist)
  obtain now x where e: "e = (now, x)" by (cases e)
  let ?l = "record_all hist l0" and ?h = "stamped hist" and ?x = "stamp now x"
  have st: "stamped (hist @ [e]) = ?h @ [?x]" by (simp add: stamped_def e)
  then have s: "sorted (map leTime ?h)" "\<And>y. y \<in> set ?h \<Longrightarrow> leTime y \<le> leTime ?x" using snoc.prems by (auto simp: sorted_append)
  have IH: "log_inv ?l" "plMaxAge ?l = age" "plCap ?l = cap" "log_list ?l = dropWhile (\<lambda>y. leTime y < leTime (last ?h) - age) (last_n cap ?h)"
    using snoc.IH[OF s(1)] by simp_all
  let ?a = "last_n cap ?h" and ?p = "\<lambda>y. leTime y < leTime ?x - age" and ?q = "\<lambda>y. leTime y < leTime (last ?h) - age"
  let ?d = "length (takeWhile ?q ?a)"
  have old: "\<forall>y \<in> set (take ?d ?a). ?p y"
  proof
    fix y assume y: "y \<in> set (take ?d ?a)"
    then have "y \<in> set (takeWhile ?q ?a)" by (simp add: takeWhile_eq_take[symmetric])
    then have "?q y" by (rule set_takeWhileD[THEN conjunct2])
    moreover have "?h \<noteq> []" using y by (auto simp: last_n_def)
    then have "leTime (last ?h) \<le> leTime ?x" using s(2) by simp
    ultimately show "?p y" by simp
  qed
  have "log_list (log_Record now x ?l) = dropWhile ?p (last_n cap (drop ?d ?a @ [?x]))"
    using log_Record_list[of ?l now x] IH assms(2) by (simp add: dropWhile_eq_drop)
  also have "\<dots> = dropWhile ?p (last_n cap (?a @ [?x]))"
    using last_n_drop[of ?a cap ?d ?p ?x] old length_takeWhile_le[of ?q ?a] assms(1) by (simp add: length_last_n)
  also have "\<dots> = dropWhile ?p (last_n cap (?h @ [?x]))" by (simp only: last_n_append[OF assms(1)])
  finally show ?case using log_Record_list[of ?l now x] IH assms(2) st e by (simp add: record_all_def)
qed

lemma log_list_window:
  assumes "sorted (map leTime (stamped hist))"
  shows "log_list (record_all hist (New_log capacity age)) = window (effective_cap capacity) (effective_age age) (stamped hist)"
proof -
  let ?c = "effective_cap capacity" and ?a = "effective_age age"
  have new: "New_log capacity age = \<lparr>plMaxAge = ?a, plEntries = replicate ?c zero_entry, plHead = 0, plSize = 0, plNextID = 0\<rparr>"
    by (simp add: New_log_def effective_cap_def effective_age_def)
  have pos: "0 < ?c" "0 < ?a" by (simp_all add: effective_cap_def effective_age_def)
  have "sorted (map leTime (last_n ?c (stamped hist)))" using assms by (simp add: last_n_def drop_map[symmetric] sorted_wrt_drop)
  then show ?thesis using record_all_list[OF pos assms new] dropWhile_by_time[of leTime] by (simp add: window_def)
qed

text \<open>
  A query reads no clock and drops nothing: until something else is recorded the newest entry is answered, however old it
  has become.
\<close>

lemma stale_entry_answered:
  assumes "sorted (map leTime (stamped hist))" "hist \<noteq> []" "passes f (last (stamped hist))" "lfLimit f = 0"
  shows "last (stamped hist) \<in> set (log_Query f (record_all hist (New_log capacity age)))"
proof -
  let ?c = "effective_cap capacity" and ?h = "stamped hist"
  have h: "?h \<noteq> []" using assms(2) by (simp add: stamped_def)
  then obtain ys y where y: "?h = ys @ [y]" by (cases ?h rule: rev_cases) simp_all
  have "0 < ?c" "0 < effective_age age" by (simp_all add: effective_cap_def effective_age_def)
  then have "last ?h \<in> set (last_n ?c ?h)" "leTime (last ?h) - effective_age age \<le> leTime (last ?h)"
    by (simp_all add: y last_n_def)
  then have "last ?h \<in> set (window ?c (effective_age age) ?h)" by (simp add: window_def)
  then show ?thesis using log_list_window[OF assms(1)] assms(3,4) by (simp add: log_Query_list)
qed

text \<open>What a filter asks for: a field of it that is empty, or a channel that is not positive, asks for nothing.\<close>

definition wanted :: "log_filter \<Rightarrow> 'a log_entry \<Rightarrow> bool" where
  "wanted f x \<longleftrightarrow>
     (lfSince f = 0 \<or> lfSince f \<le> leTime x) \<and> lfSource f \<in> {[], leSource x} \<and> lfType f \<in> {[], leType x}
     \<and> lfDirection f \<in> {[], leDirection x} \<and> (lfChannel f \<le> 0 \<or> leChannel x = word_of_int (lfChannel f))"

lemma passes_wanted: "passes f = wanted f"
  by (intro ext) (auto simp: passes_def wanted_def)

text \<open>
  Property C34. A query of a packet log whose entries carry non-decreasing times answers from the window of everything that
  was recorded: the last entries that fit the capacity and are not older than the age limit at the time of the newest one
  (not at the time of the query, which drops nothing), those that pass the filter, in the order of recording, the newest
  ones when a limit is set.
\<close>

theorem query_is_window:
  assumes "sorted (map leTime (stamped hist))"
  shows "log_Query f (record_all hist (New_log capacity age)) =
    (let out = filter (wanted f) (window (effective_cap capacity) (effective_age age) (stamped hist))
     in if lfLimit f > 0 then last_n (nat (lfLimit f)) out else out)"
  using log_list_window[OF assms] by (simp add: log_Query_list passes_wanted)

section \<open>Subscribers\<close>

definition subscriberBuf :: nat where "subscriberBuf = 256"

record 'a tail =
  tlQueue :: "'a log_entry list"
  tlOpen :: bool
  tlDrops :: nat

definition tail_push :: "'a log_entry \<Rightarrow> 'a tail \<Rightarrow> 'a tail" where
  "tail_push x t =
     (case try_send subscriberBuf x (tlQueue t) of
        (q, True) \<Rightarrow> t\<lparr>tlQueue := q\<rparr>
      | (_, False) \<Rightarrow> t\<lparr>tlDrops := tlDrops t + 1\<rparr>)"

definition tail_pop :: "'a tail \<Rightarrow> 'a tail" where
  "tail_pop t = t\<lparr>tlQueue := tl (tlQueue t)\<rparr>"

interpretation tail: lossy_tap tail_push tail_pop tlQueue tlDrops subscriberBuf
  by unfold_locales (simp_all add: tail_push_def try_send_def tail_pop_def)

text \<open>
  The log with its subscribers. \<open>tgSubs\<close> is the map; \<open>tgPending\<close> is the publication under way, the entry and the
  snapshot of the subscribers it still has to reach, which runs under the lock of the ring but not of the map. The last
  three fields record what happened: the entries written, how many there were when a subscriber came, what it has read.
\<close>

record 'a tail_log =
  tgLog :: "'a packet_log"
  tgSubs :: "nat list"
  tgTails :: "nat \<Rightarrow> 'a tail"
  tgNext :: nat
  tgPending :: "('a log_entry \<times> nat list) option"
  tgPanic :: bool
  tgHist :: "'a log_entry list"
  tgSince :: "nat \<Rightarrow> nat"
  tgGot :: "nat \<Rightarrow> 'a log_entry list"

definition start_tails :: "'a packet_log \<Rightarrow> 'a tail_log" where
  "start_tails l = \<lparr>tgLog = l, tgSubs = [], tgTails = (\<lambda>_. \<lparr>tlQueue = [], tlOpen = False, tlDrops = 0\<rparr>), tgNext = 0,
     tgPending = None, tgPanic = False, tgHist = [], tgSince = (\<lambda>_. 0), tgGot = (\<lambda>_. [])\<rparr>"

definition log_Subscribe :: "'a tail_log \<Rightarrow> 'a tail_log" where
  "log_Subscribe g =
     g\<lparr>tgSubs := tgNext g # tgSubs g, tgTails := (tgTails g)(tgNext g := \<lparr>tlQueue = [], tlOpen = True, tlDrops = 0\<rparr>),
       tgNext := tgNext g + 1, tgSince := (tgSince g)(tgNext g := length (tgHist g)), tgGot := (tgGot g)(tgNext g := [])\<rparr>"

text \<open>A record: the write and the snapshot; then the sends, in any order; the lock is held until the last.\<close>

definition record_begin :: "int \<Rightarrow> 'a log_entry \<Rightarrow> 'a tail_log \<Rightarrow> 'a tail_log" where
  "record_begin now x g =
     (if tgPending g \<noteq> None then g
      else g\<lparr>tgLog := log_Record now x (tgLog g), tgHist := tgHist g @ [stamp now x],
             tgPending := (if tgSubs g = [] then None else Some (stamp now x, tgSubs g))\<rparr>)"

definition fanout_send :: "nat \<Rightarrow> 'a tail_log \<Rightarrow> 'a tail_log" where
  "fanout_send i g =
     (case tgPending g of
        Some (x, is) \<Rightarrow>
          if i \<notin> set is then g
          else if \<not> tlOpen (tgTails g i) then g\<lparr>tgPanic := True\<rparr>
          else let rest = remove1 i is in
               g\<lparr>tgTails := (tgTails g)(i := tail_push x (tgTails g i)), tgPending := (if rest = [] then None else Some (x, rest))\<rparr>
      | None \<Rightarrow> g)"

text \<open>The end of a subscription, in two steps: out of the map, then the channel is closed.\<close>

definition close_delete :: "nat \<Rightarrow> 'a tail_log \<Rightarrow> 'a tail_log" where
  "close_delete i g = g\<lparr>tgSubs := remove1 i (tgSubs g)\<rparr>"

definition close_channel :: "nat \<Rightarrow> 'a tail_log \<Rightarrow> 'a tail_log" where
  "close_channel i g =
     (if i \<in> set (tgSubs g) then g else g\<lparr>tgTails := (tgTails g)(i := (tgTails g i)\<lparr>tlOpen := False\<rparr>)\<rparr>)"

definition tail_read :: "nat \<Rightarrow> 'a tail_log \<Rightarrow> 'a tail_log" where
  "tail_read i g =
     (case tlQueue (tgTails g i) of
        [] \<Rightarrow> g
      | x # _ \<Rightarrow> g\<lparr>tgTails := (tgTails g)(i := tail_pop (tgTails g i)), tgGot := (tgGot g)(i := tgGot g i @ [x])\<rparr>)"

datatype 'a tail_op = TailSubscribe | RecordBegin int "'a log_entry" | FanoutSend nat | CloseDelete nat | CloseChannel nat | TailRead nat

fun tail_step :: "'a tail_op \<Rightarrow> 'a tail_log \<Rightarrow> 'a tail_log" where
  "tail_step TailSubscribe g = log_Subscribe g"
| "tail_step (RecordBegin now x) g = record_begin now x g"
| "tail_step (FanoutSend i) g = fanout_send i g"
| "tail_step (CloseDelete i) g = close_delete i g"
| "tail_step (CloseChannel i) g = close_channel i g"
| "tail_step (TailRead i) g = tail_read i g"

definition tail_run :: "'a tail_op list \<Rightarrow> 'a tail_log \<Rightarrow> 'a tail_log" where
  "tail_run ops g = fold (\<lambda>op g. if tgPanic g then g else tail_step op g) ops g"

section \<open>Subscribers see the log in order\<close>

text \<open>The entries a subscriber was offered so far: all since it came, but for the one on its way to it.\<close>

definition pending_for :: "'a tail_log \<Rightarrow> nat \<Rightarrow> 'a log_entry list" where
  "pending_for g i = (case tgPending g of Some (x, is) \<Rightarrow> if i \<in> set is then [x] else [] | None \<Rightarrow> [])"

definition tail_ok :: "'a tail_log \<Rightarrow> nat \<Rightarrow> bool" where
  "tail_ok g i \<longleftrightarrow> tgSince g i \<le> length (tgHist g) \<and> (\<exists>sent. tail.seen (tgGot g i) sent (tgTails g i)
     \<and> (if i \<in> set (tgSubs g) then sent @ pending_for g i = drop (tgSince g i) (tgHist g)
        else \<exists>later. (sent @ pending_for g i) @ later = drop (tgSince g i) (tgHist g)))"

definition pending_ok :: "nat \<Rightarrow> ('a log_entry \<times> nat list) option \<Rightarrow> bool" where
  "pending_ok n p \<longleftrightarrow> (case p of Some (x, is) \<Rightarrow> distinct is \<and> set is \<subseteq> {..<n} | None \<Rightarrow> True)"

lemma pending_ok_simps [simp]: "pending_ok n None" "pending_ok n (Some (x, js)) = (distinct js \<and> set js \<subseteq> {..<n})"
  by (simp_all add: pending_ok_def)

lemma pending_ok_Suc: "pending_ok n p \<Longrightarrow> pending_ok (Suc n) p"
  by (auto simp: pending_ok_def split: option.splits)

definition tails_inv :: "'a tail_log \<Rightarrow> bool" where
  "tails_inv g \<longleftrightarrow> distinct (tgSubs g) \<and> set (tgSubs g) \<subseteq> {..<tgNext g}
     \<and> pending_ok (tgNext g) (tgPending g)
     \<and> (\<forall>i < tgNext g. tail_ok g i)"

lemma seen_empty: "tail.seen [] [] \<lparr>tlQueue = [], tlOpen = b, tlDrops = 0\<rparr>"
  by (simp add: tail.seen_def)

lemma seen_open [simp]: "tail.seen got sent (t\<lparr>tlOpen := b\<rparr>) = tail.seen got sent t"
  by (simp add: tail.seen_def)

lemma tail_okI:
  assumes "tgSince g i \<le> length (tgHist g)" "tail.seen (tgGot g i) sent (tgTails g i)"
    "(sent @ pending_for g i) @ later = drop (tgSince g i) (tgHist g)" "i \<in> set (tgSubs g) \<Longrightarrow> later = []"
  shows "tail_ok g i"
  using assms unfolding tail_ok_def by (cases "i \<in> set (tgSubs g)") auto

lemma tail_okE:
  assumes "tail_ok g i"
  obtains sent later where "tgSince g i \<le> length (tgHist g)" "tail.seen (tgGot g i) sent (tgTails g i)"
    "(sent @ pending_for g i) @ later = drop (tgSince g i) (tgHist g)" "i \<in> set (tgSubs g) \<longrightarrow> later = []"
proof -
  obtain sent where s: "tgSince g i \<le> length (tgHist g)" "tail.seen (tgGot g i) sent (tgTails g i)"
    "if i \<in> set (tgSubs g) then sent @ pending_for g i = drop (tgSince g i) (tgHist g)
        else \<exists>later. (sent @ pending_for g i) @ later = drop (tgSince g i) (tgHist g)"
    using assms by (auto simp: tail_ok_def)
  show thesis
  proof (cases "i \<in> set (tgSubs g)")
    case True
    show thesis by (rule that[of sent "[]"]) (use s True in auto)
  next
    case False
    then obtain later where "(sent @ pending_for g i) @ later = drop (tgSince g i) (tgHist g)" using s(3) by auto
    then show thesis using s False by (intro that[of sent later]) auto
  qed
qed

text \<open>A step that leaves a subscriber's channel, place in the map and pending entry alone keeps its view.\<close>

lemma tail_ok_same:
  assumes "tail_ok g i" "tgSince g' i = tgSince g i" "tgHist g' = tgHist g" "tgGot g' i = tgGot g i" "tgTails g' i = tgTails g i"
    "pending_for g' i = pending_for g i" "i \<in> set (tgSubs g') \<Longrightarrow> i \<in> set (tgSubs g)"
  shows "tail_ok g' i"
  using assms(1) by (rule tail_okE) (rule tail_okI, use assms in auto)

lemma inv_subscribe: "tails_inv g \<Longrightarrow> tails_inv (log_Subscribe g)"
proof -
  assume inv: "tails_inv g"
  let ?g = "log_Subscribe g"
  have fresh: "pending_for ?g (tgNext g) = []" "tgNext g \<notin> set (tgSubs g)"
    using inv by (auto simp: tails_inv_def pending_ok_def log_Subscribe_def pending_for_def split: option.splits)
  have "tail_ok ?g (tgNext g)"
    by (rule tail_okI[where sent = "[]" and later = "[]"]) (use fresh seen_empty in \<open>auto simp: log_Subscribe_def\<close>)
  moreover have "tail_ok ?g i" if "i < tgNext g" for i
    by (rule tail_ok_same[of g]) (use inv that in \<open>auto simp: tails_inv_def log_Subscribe_def pending_for_def\<close>)
  moreover have "tgNext ?g = Suc (tgNext g)" by (simp add: log_Subscribe_def)
  ultimately have "\<forall>i < tgNext ?g. tail_ok ?g i" by (metis less_antisym)
  moreover have "distinct (tgSubs ?g)" "set (tgSubs ?g) \<subseteq> {..<tgNext ?g}" "pending_ok (tgNext ?g) (tgPending ?g)"
    using inv fresh(2) pending_ok_Suc by (auto simp: tails_inv_def log_Subscribe_def)
  ultimately show ?thesis by (simp add: tails_inv_def)
qed

lemma inv_begin: "tails_inv g \<Longrightarrow> tails_inv (record_begin now x g)"
proof -
  assume inv: "tails_inv g"
  show ?thesis
  proof (cases "tgPending g")
    case (Some p)
    then show ?thesis using inv by (simp add: record_begin_def)
  next
    case None
    let ?g = "record_begin now x g"
    have "tail_ok ?g i" if "i < tgNext g" for i
    proof -
      have "tail_ok g i" using inv that by (simp add: tails_inv_def)
      then obtain sent later where h: "tgSince g i \<le> length (tgHist g)" "tail.seen (tgGot g i) sent (tgTails g i)"
        "(sent @ pending_for g i) @ later = drop (tgSince g i) (tgHist g)" "i \<in> set (tgSubs g) \<longrightarrow> later = []" by (rule tail_okE) blast
      have p: "pending_for g i = []" "pending_for ?g i = (if i \<in> set (tgSubs g) then [stamp now x] else [])"
        using None by (auto simp: pending_for_def record_begin_def)
      show ?thesis
        by (rule tail_okI[where sent = sent and later = "if i \<in> set (tgSubs g) then [] else later @ [stamp now x]"])
          (use h p None in \<open>auto simp: record_begin_def\<close>)
    qed
    then show ?thesis using inv None by (auto simp: tails_inv_def record_begin_def)
  qed
qed

lemma inv_send: "tails_inv g \<Longrightarrow> tails_inv (fanout_send i g)"
proof -
  assume inv: "tails_inv g"
  show ?thesis
  proof (cases "\<exists>x is. tgPending g = Some (x, is) \<and> i \<in> set is \<and> tlOpen (tgTails g i)")
    case False
    have same: "tail_ok (g\<lparr>tgPanic := b\<rparr>) j = tail_ok g j" for j b by (simp add: tail_ok_def pending_for_def)
    have "fanout_send i g = g \<or> fanout_send i g = g\<lparr>tgPanic := True\<rparr>"
      using False by (auto simp: fanout_send_def split: option.splits prod.splits)
    then show ?thesis using inv same by (auto simp: tails_inv_def)
  next
    case True
    then obtain x js where p: "tgPending g = Some (x, js)" "i \<in> set js" "tlOpen (tgTails g i)" by blast
    then have d: "distinct js" "set js \<subseteq> {..<tgNext g}" using inv by (simp_all add: tails_inv_def)
    let ?g = "fanout_send i g"
    have g: "?g = g\<lparr>tgTails := (tgTails g)(i := tail_push x (tgTails g i)), tgPending := (if remove1 i js = [] then None else Some (x, remove1 i js))\<rparr>"
      using p by (simp add: fanout_send_def Let_def)
    have rem: "set (remove1 i js) = set js - {i}" using d(1) by simp
    have pend: "pending_for ?g j = (if j = i then [] else pending_for g j)" for j
    proof (cases "remove1 i js = []")
      case True
      then have "set js = {i}" using rem p(2) by auto
      then show ?thesis using True p(1) by (simp add: pending_for_def g)
    next
      case False
      then show ?thesis using rem p(1) by (simp add: pending_for_def g)
    qed
    have "tail_ok ?g j" if "j < tgNext g" for j
    proof (cases "j = i")
      case False
      show ?thesis by (rule tail_ok_same[of g]) (use False pend inv that in \<open>simp_all add: tails_inv_def g\<close>)
    next
      case True
      have "tail_ok g i" using inv that True by (simp add: tails_inv_def)
      then obtain sent later where h: "tgSince g i \<le> length (tgHist g)" "tail.seen (tgGot g i) sent (tgTails g i)"
        "(sent @ pending_for g i) @ later = drop (tgSince g i) (tgHist g)" "i \<in> set (tgSubs g) \<longrightarrow> later = []" by (rule tail_okE) blast
      have "pending_for g i = [x]" using p by (simp add: pending_for_def)
      then show ?thesis unfolding True
        by (intro tail_okI[where sent = "sent @ [x]" and later = later]) (use h pend tail.seen_push[of "tgGot g i" sent "tgTails g i" x] in \<open>simp_all add: g\<close>)
    qed
    then show ?thesis using inv d rem by (auto simp: tails_inv_def g)
  qed
qed

lemma inv_delete: "tails_inv g \<Longrightarrow> tails_inv (close_delete i g)"
  using tail_ok_same[of g _ "close_delete i g"] by (auto simp: tails_inv_def close_delete_def pending_for_def dest: notin_set_remove1[rotated] set_remove1_subset[THEN subsetD])

lemma inv_channel: "tails_inv g \<Longrightarrow> tails_inv (close_channel i g)"
proof -
  assume inv: "tails_inv g"
  have "tail_ok (close_channel i g) j = tail_ok g j" for j
    by (cases "j = i") (simp_all add: close_channel_def tail_ok_def pending_for_def)
  then show ?thesis using inv by (simp add: tails_inv_def close_channel_def)
qed

lemma inv_read: "tails_inv g \<Longrightarrow> tails_inv (tail_read i g)"
proof -
  assume inv: "tails_inv g"
  show ?thesis
  proof (cases "tlQueue (tgTails g i)")
    case Nil
    then show ?thesis using inv by (simp add: tail_read_def)
  next
    case (Cons x q)
    let ?g = "tail_read i g"
    have g: "?g = g\<lparr>tgTails := (tgTails g)(i := tail_pop (tgTails g i)), tgGot := (tgGot g)(i := tgGot g i @ [x])\<rparr>"
      using Cons by (simp add: tail_read_def)
    have "tail_ok ?g j" if "j < tgNext g" for j
    proof (cases "j = i")
      case False
      show ?thesis by (rule tail_ok_same[of g]) (use False inv that in \<open>simp_all add: tails_inv_def g pending_for_def\<close>)
    next
      case True
      have "tail_ok g i" using inv that True by (simp add: tails_inv_def)
      then obtain sent later where h: "tgSince g i \<le> length (tgHist g)" "tail.seen (tgGot g i) sent (tgTails g i)"
        "(sent @ pending_for g i) @ later = drop (tgSince g i) (tgHist g)" "i \<in> set (tgSubs g) \<longrightarrow> later = []" by (rule tail_okE) blast
      show ?thesis unfolding True
        by (rule tail_okI[where sent = sent and later = later])
          (use h Cons tail.seen_pop[OF h(2)] in \<open>simp_all add: g pending_for_def\<close>)
    qed
    then show ?thesis using inv by (simp add: tails_inv_def g)
  qed
qed

lemma tail_step_inv: "tails_inv g \<Longrightarrow> tails_inv (tail_step op g)"
  by (cases op) (simp_all add: inv_subscribe inv_begin inv_send inv_delete inv_channel inv_read)

lemma tail_run_inv: "tails_inv g \<Longrightarrow> tails_inv (tail_run ops g)"
  by (induction ops arbitrary: g) (auto simp: tail_run_def tail_step_inv)

text \<open>
  Property C35. Under every interleaving of the recorder, the readers and the ends of subscriptions, a subscriber gets
  entries in the order they were recorded since it came, each at most once, with at most 256 waiting; one that lost none and
  has not left has, between recordings, every one of them.
\<close>

theorem tail_follows_log:
  assumes "g = tail_run ops (start_tails l)" "i < tgNext g"
  shows "subseq (tgGot g i @ tlQueue (tgTails g i)) (drop (tgSince g i) (tgHist g))
    \<and> length (tlQueue (tgTails g i)) \<le> subscriberBuf
    \<and> (i \<in> set (tgSubs g) \<and> tgPending g = None \<and> tlDrops (tgTails g i) = 0
       \<longrightarrow> tgGot g i @ tlQueue (tgTails g i) = drop (tgSince g i) (tgHist g))"
proof -
  have "tails_inv (start_tails l)" by (simp add: tails_inv_def start_tails_def)
  then have "tail_ok g i" using assms tail_run_inv unfolding tails_inv_def by blast
  then obtain sent later where h: "tail.seen (tgGot g i) sent (tgTails g i)"
    "(sent @ pending_for g i) @ later = drop (tgSince g i) (tgHist g)" "i \<in> set (tgSubs g) \<longrightarrow> later = []" by (rule tail_okE) blast
  have "subseq sent (drop (tgSince g i) (tgHist g))" using h(2) by (metis append_assoc list_emb_prefix subseq_order.order_refl)
  then have "subseq (tgGot g i @ tlQueue (tgTails g i)) (drop (tgSince g i) (tgHist g))"
    using h(1) unfolding tail.seen_def by (blast intro: subseq_order.trans)
  moreover have "tgGot g i @ tlQueue (tgTails g i) = drop (tgSince g i) (tgHist g)"
    if "i \<in> set (tgSubs g)" "tgPending g = None" "tlDrops (tgTails g i) = 0"
    using tail.seen_all[OF h(1) that(3)] h(2,3) that(1,2) by (simp add: pending_for_def)
  ultimately show ?thesis using tail.seen_bound[OF h(1)] by blast
qed

text \<open>
  The recorder takes its snapshot of the subscribers under the lock of the map and sends after releasing it; a
  subscription that ends in between closes a channel the recorder is about to send to, which panics.
\<close>

lemma tail_close_panics:
  "tgPanic (tail_run [TailSubscribe, RecordBegin 1 zero_entry, CloseDelete 0, CloseChannel 0, FanoutSend 0] (start_tails (New_log 10 60)))"
  by (simp add: tail_run_def log_Subscribe_def record_begin_def close_delete_def close_channel_def fanout_send_def start_tails_def)

section \<open>Concrete instances\<close>

definition example_entry :: "int \<Rightarrow> string \<Rightarrow> unit log_entry" where
  "example_entry time source = zero_entry\<lparr>leTime := time, leSource := source\<rparr>"

definition example_history :: "(int \<times> unit log_entry) list" where
  "example_history = [(1, example_entry 1 ''kiss''), (5, example_entry 0 ''agw''), (9, example_entry 9 ''kiss''), (12, example_entry 12 ''kiss'')]"

definition example_filter :: log_filter where
  "example_filter = \<lparr>lfSince = 0, lfSource = ''kiss'', lfType = [], lfDirection = [], lfChannel = -1, lfLimit = 1\<rparr>"

theorem query_is_window_witness:
  "log_Query example_filter (record_all example_history (New_log 3 6)) = [example_entry 12 ''kiss'']"
proof -
  have s: "sorted (map leTime (stamped example_history))"
    by (simp_all add: example_history_def stamped_def stamp_def example_entry_def zero_entry_def)
  show ?thesis
    unfolding query_is_window[OF s, of example_filter 3 6]
    by (simp add: example_history_def stamped_def stamp_def example_entry_def zero_entry_def window_def effective_cap_def
        effective_age_def last_n_def wanted_def example_filter_def)
qed

definition example_tail_run :: "unit tail_log" where
  "example_tail_run = tail_run [TailSubscribe, RecordBegin 1 (example_entry 1 ''a''), FanoutSend 0, TailRead 0,
     RecordBegin 2 (example_entry 2 ''b''), FanoutSend 0] (start_tails (New_log 10 60))"

theorem tail_follows_log_witness:
  "tgGot example_tail_run 0 @ tlQueue (tgTails example_tail_run 0) = [example_entry 1 ''a'', example_entry 2 ''b'']"
proof -
  have n: "0 < tgNext example_tail_run" "0 \<in> set (tgSubs example_tail_run)" "tgPending example_tail_run = None"
    "tlDrops (tgTails example_tail_run 0) = 0" "drop (tgSince example_tail_run 0) (tgHist example_tail_run) = [example_entry 1 ''a'', example_entry 2 ''b'']"
    by (simp_all add: example_tail_run_def tail_run_def log_Subscribe_def record_begin_def fanout_send_def tail_read_def start_tails_def
        tail_push_def try_send_def subscriberBuf_def tail_pop_def stamp_def example_entry_def zero_entry_def)
  show ?thesis
    using tail_follows_log[OF example_tail_run_def n(1)] n by simp
qed

end
