(* ===== verification/MDM_Requests.thy ===== *)
theory MDM_Requests
  imports Graywolf_Prelude
begin

text \<open>
  Requests to the modem and their answers (\<^verbatim>\<open>pkg/modembridge/dispatcher.go\<close>, \<^verbatim>\<open>requests.go\<close>): a caller
  registers an identifier with a reply channel of one slot, sends its request, waits for the channel, a timeout or its
  context, and cancels. Channels have identities of their own, so that a late answer and a reused identifier can be told apart.
\<close>

record 'r reply =
  rpSlot :: "'r option"
  rpClosed :: bool

record 'r dispatcher =
  dpNext :: u32
  dpPending :: "u32 \<rightharpoonup> nat"
  dpClosed :: bool
  dpChans :: "'r reply list"
  dpIDs :: "u32 list"

text \<open>\<open>dpChans\<close> holds the channels made so far, \<open>dpIDs\<close> the identifiers they were handed out with.\<close>

definition newDispatcher :: "'r dispatcher" where
  "newDispatcher = \<lparr>dpNext = 0, dpPending = Map.empty, dpClosed = False, dpChans = [], dpIDs = []\<rparr>"

definition dp_Register :: "'r dispatcher \<Rightarrow> (u32 \<times> nat) \<times> 'r dispatcher" where
  "dp_Register d =
     (let c = length (dpChans d) in
      if dpClosed d then ((0, c), d\<lparr>dpChans := dpChans d @ [\<lparr>rpSlot = None, rpClosed = True\<rparr>], dpIDs := dpIDs d @ [0]\<rparr>)
      else let i = dpNext d + 1 in
        ((i, c), d\<lparr>dpNext := i, dpChans := dpChans d @ [\<lparr>rpSlot = None, rpClosed = False\<rparr>], dpIDs := dpIDs d @ [i],
                   dpPending := (dpPending d)(i \<mapsto> c)\<rparr>))"

definition dp_Cancel :: "u32 \<Rightarrow> 'r dispatcher \<Rightarrow> 'r dispatcher" where
  "dp_Cancel i d = d\<lparr>dpPending := (dpPending d)(i := None)\<rparr>"

definition dp_Deliver :: "u32 \<Rightarrow> 'r \<Rightarrow> 'r dispatcher \<Rightarrow> bool \<times> 'r dispatcher" where
  "dp_Deliver i r d =
     (case dpPending d i of
        None \<Rightarrow> (False, d)
      | Some c \<Rightarrow>
          if rpSlot (dpChans d ! c) = None
          then (True, d\<lparr>dpChans := (dpChans d)[c := (dpChans d ! c)\<lparr>rpSlot := Some r\<rparr>]\<rparr>)
          else (False, d))"

definition dp_Close :: "'r dispatcher \<Rightarrow> 'r dispatcher" where
  "dp_Close d =
     (if dpClosed d then d
      else d\<lparr>dpClosed := True, dpPending := Map.empty,
             dpChans := map (\<lambda>(c, ch). if c \<in> ran (dpPending d) then ch\<lparr>rpClosed := True\<rparr> else ch) (enumerate 0 (dpChans d))\<rparr>)"

definition dp_Reset :: "'r dispatcher \<Rightarrow> 'r dispatcher" where
  "dp_Reset d = d\<lparr>dpClosed := False\<rparr>"

text \<open>The outcome of a request once its wait is over: the answer, that the bridge stopped, or why the wait ended.\<close>

datatype 'r outcome = Answer 'r | BridgeStopped | NotRunning | SendFailed string | TimedOut | ContextDone

text \<open>What the caller finds on its channel: a value, a closed channel, or nothing yet. A value outlives the closing.\<close>

definition reply_ready :: "nat \<Rightarrow> 'r dispatcher \<Rightarrow> 'r outcome option" where
  "reply_ready c d =
     (if length (dpChans d) \<le> c then None
      else case rpSlot (dpChans d ! c) of
        Some r \<Rightarrow> Some (Answer r)
      | None \<Rightarrow> if rpClosed (dpChans d ! c) then Some BridgeStopped else None)"

datatype 'r dp_op = DpRegister | DpCancel u32 | DpDeliver u32 'r | DpClose | DpReset

fun dp_step :: "'r dp_op \<Rightarrow> 'r dispatcher \<Rightarrow> 'r dispatcher" where
  "dp_step DpRegister d = snd (dp_Register d)"
| "dp_step (DpCancel i) d = dp_Cancel i d"
| "dp_step (DpDeliver i r) d = snd (dp_Deliver i r d)"
| "dp_step DpClose d = dp_Close d"
| "dp_step DpReset d = dp_Reset d"

definition dp_run :: "'r dp_op list \<Rightarrow> 'r dispatcher \<Rightarrow> 'r dispatcher" where
  "dp_run ops d = fold dp_step ops d"

section \<open>Answers reach the request they answer\<close>

definition example_requests :: "string dp_op list" where
  "example_requests = [DpRegister, DpRegister, DpDeliver 2 ''b'', DpDeliver 1 ''a'', DpCancel 1, DpDeliver 1 ''late'']"

definition registrations :: "'r dp_op list \<Rightarrow> nat" where
  "registrations ops = length (filter (\<lambda>op. op = DpRegister) ops)"

text \<open>\<open>n\<close> bounds the identifiers handed out so far; below \<open>2 ^ 32\<close> they do not wrap.\<close>

definition dp_inv :: "nat \<Rightarrow> 'r dp_op list \<Rightarrow> 'r dispatcher \<Rightarrow> bool" where
  "dp_inv n done d \<longleftrightarrow>
     length (dpIDs d) = length (dpChans d) \<and> dpNext d = of_nat n
     \<and> (\<forall>i c. dpPending d i = Some c \<longrightarrow> c < length (dpChans d) \<and> dpIDs d ! c = i \<and> i \<noteq> 0 \<and> \<not> rpClosed (dpChans d ! c))
     \<and> (\<forall>c < length (dpIDs d). dpIDs d ! c \<noteq> 0 \<longrightarrow> unat (dpIDs d ! c) \<le> n)
     \<and> (\<forall>c c'. c < c' \<longrightarrow> c' < length (dpIDs d) \<longrightarrow> dpIDs d ! c' \<noteq> 0 \<longrightarrow> dpIDs d ! c \<noteq> dpIDs d ! c')
     \<and> (\<forall>c < length (dpChans d). \<forall>r. rpSlot (dpChans d ! c) = Some r \<longrightarrow> dpIDs d ! c \<noteq> 0 \<and> DpDeliver (dpIDs d ! c) r \<in> set done)
     \<and> (dpClosed d \<longrightarrow> dpPending d = Map.empty)"

lemma dp_invI:
  assumes "length (dpIDs d) = length (dpChans d)" "dpNext d = of_nat n"
    "\<And>i c. dpPending d i = Some c \<Longrightarrow> c < length (dpChans d) \<and> dpIDs d ! c = i \<and> i \<noteq> 0 \<and> \<not> rpClosed (dpChans d ! c)"
    "\<And>c. c < length (dpIDs d) \<Longrightarrow> dpIDs d ! c \<noteq> 0 \<Longrightarrow> unat (dpIDs d ! c) \<le> n"
    "\<And>c c'. c < c' \<Longrightarrow> c' < length (dpIDs d) \<Longrightarrow> dpIDs d ! c' \<noteq> 0 \<Longrightarrow> dpIDs d ! c \<noteq> dpIDs d ! c'"
    "\<And>c r. c < length (dpChans d) \<Longrightarrow> rpSlot (dpChans d ! c) = Some r \<Longrightarrow> dpIDs d ! c \<noteq> 0 \<and> DpDeliver (dpIDs d ! c) r \<in> set done"
    "dpClosed d \<Longrightarrow> dpPending d = Map.empty"
  shows "dp_inv n done d"
  using assms unfolding dp_inv_def by blast

lemma dp_invD:
  assumes "dp_inv n done d"
  shows "length (dpIDs d) = length (dpChans d)" "dpNext d = of_nat n"
    "dpPending d i = Some c \<Longrightarrow> c < length (dpChans d) \<and> dpIDs d ! c = i \<and> i \<noteq> 0 \<and> \<not> rpClosed (dpChans d ! c)"
    "c < length (dpIDs d) \<Longrightarrow> dpIDs d ! c \<noteq> 0 \<Longrightarrow> unat (dpIDs d ! c) \<le> n"
    "c < c' \<Longrightarrow> c' < length (dpIDs d) \<Longrightarrow> dpIDs d ! c' \<noteq> 0 \<Longrightarrow> dpIDs d ! c \<noteq> dpIDs d ! c'"
    "c < length (dpChans d) \<Longrightarrow> rpSlot (dpChans d ! c) = Some r \<Longrightarrow> dpIDs d ! c \<noteq> 0 \<and> DpDeliver (dpIDs d ! c) r \<in> set done"
    "dpClosed d \<Longrightarrow> dpPending d = Map.empty"
  using assms unfolding dp_inv_def by blast+

lemma dp_inv_more: "dp_inv n done d \<Longrightarrow> set done \<subseteq> set done' \<Longrightarrow> dp_inv n done' d"
  unfolding dp_inv_def by blast

lemma register_inv:
  assumes inv: "dp_inv n done d" and n: "Suc n < 2 ^ 32"
  shows "dp_inv (if dpClosed d then n else Suc n) done (snd (dp_Register d))"
proof (cases "dpClosed d")
  case True
  let ?d = "d\<lparr>dpChans := dpChans d @ [\<lparr>rpSlot = None, rpClosed = True\<rparr>], dpIDs := dpIDs d @ [0]\<rparr>"
  have "dp_inv n done ?d"
    using dp_invD[OF inv] by (intro dp_invI) (auto simp: nth_append less_Suc_eq split: if_splits)
  then show ?thesis using True by (simp add: dp_Register_def Let_def)
next
  case False
  let ?i = "dpNext d + 1"
  let ?d = "d\<lparr>dpNext := ?i, dpChans := dpChans d @ [\<lparr>rpSlot = None, rpClosed = False\<rparr>], dpIDs := dpIDs d @ [?i],
    dpPending := (dpPending d)(?i \<mapsto> length (dpChans d))\<rparr>"
  have i: "?i = of_nat (Suc n)" using dp_invD(2)[OF inv] by simp
  have "unat (of_nat (Suc n) :: u32) = Suc n mod 2 ^ 32" unfolding unsigned_of_nat by (simp add: take_bit_eq_mod del: of_nat_Suc)
  then have u: "unat ?i = Suc n" using n i by (simp add: add.commute)
  have nz: "?i \<noteq> 0" using u by force
  have old: "dpIDs d ! c \<noteq> ?i" if "c < length (dpIDs d)" for c
  proof
    assume e: "dpIDs d ! c = ?i"
    then have "dpIDs d ! c \<noteq> 0" using u by auto
    then show False using dp_invD(4)[OF inv that] e u by simp
  qed
  have "dp_inv (Suc n) done ?d"
  proof (rule dp_invI)
    show "unat (dpIDs ?d ! c) \<le> Suc n" if "c < length (dpIDs ?d)" "dpIDs ?d ! c \<noteq> 0" for c
      using that dp_invD(4)[OF inv, of c] u by (auto simp: nth_append less_Suc_eq split: if_splits)
  qed (use dp_invD[OF inv] old i nz False in \<open>auto simp: nth_append less_Suc_eq split: if_splits\<close>)
  then show ?thesis using False by (simp add: dp_Register_def Let_def)
qed

lemma dp_deliver_inv:
  assumes inv: "dp_inv n done d" shows "dp_inv n (done @ [DpDeliver i r]) (snd (dp_Deliver i r d))"
proof -
  have keep: "dp_inv n (done @ [DpDeliver i r]) d" by (rule dp_inv_more[OF inv]) auto
  show ?thesis
  proof (cases "dpPending d i")
    case None
    then show ?thesis using keep by (simp add: dp_Deliver_def)
  next
    case (Some c)
    have c: "c < length (dpChans d)" "dpIDs d ! c = i" using dp_invD(3)[OF inv Some] by simp_all
    show ?thesis
      by (rule dp_invI) (use dp_invD[OF keep] Some c in \<open>auto simp: dp_Deliver_def nth_list_update split: if_splits\<close>)
  qed
qed

lemma close_nth: "c < length (dpChans d) \<Longrightarrow> dpChans (dp_Close d) ! c =
  (if \<not> dpClosed d \<and> c \<in> ran (dpPending d) then (dpChans d ! c)\<lparr>rpClosed := True\<rparr> else dpChans d ! c)"
  by (simp add: dp_Close_def nth_enumerate_eq)

lemma close_inv: "dp_inv n done d \<Longrightarrow> dp_inv n done (dp_Close d)"
proof -
  assume inv: "dp_inv n done d"
  have len: "length (dpChans (dp_Close d)) = length (dpChans d)" by (simp add: dp_Close_def)
  have slot: "rpSlot (dpChans (dp_Close d) ! c) = rpSlot (dpChans d ! c)" if "c < length (dpChans d)" for c
    using close_nth[OF that] by simp
  show ?thesis
    by (rule dp_invI) (use dp_invD[OF inv] len slot in \<open>auto simp: dp_Close_def split: if_splits\<close>)
qed

lemma dp_run_inv:
  assumes "registrations ops < 2 ^ 32"
  shows "\<exists>n \<le> registrations ops. dp_inv n ops (dp_run ops (newDispatcher :: 'r dispatcher))"
  using assms
proof (induction ops rule: rev_induct)
  case Nil
  show ?case by (auto simp: registrations_def dp_run_def dp_inv_def newDispatcher_def intro!: exI[of _ 0])
next
  case (snoc op ops)
  let ?d = "dp_run ops (newDispatcher :: 'r dispatcher)"
  obtain n where n: "n \<le> registrations ops" "dp_inv n ops ?d"
    using snoc by (auto simp: registrations_def split: if_splits)
  have run: "dp_run (ops @ [op]) newDispatcher = dp_step op ?d" by (simp add: dp_run_def)
  have keep: "dp_inv n (ops @ [op]) ?d" by (rule dp_inv_more[OF n(2)]) auto
  show ?case
  proof (cases op)
    case DpRegister
    then have "registrations (ops @ [op]) = Suc (registrations ops)" by (simp add: registrations_def)
    then show ?thesis using register_inv[OF keep] n(1) snoc.prems DpRegister run by (auto split: if_splits intro: exI[of _ n] exI[of _ "Suc n"])
  next
    case (DpCancel i)
    then have "dp_inv n (ops @ [op]) (dp_Cancel i ?d)"
      using dp_invD[OF keep] by (intro dp_invI) (auto simp: dp_Cancel_def split: if_splits)
    then show ?thesis using n(1) DpCancel run by (auto simp: registrations_def)
  next
    case (DpDeliver i r)
    then show ?thesis using dp_deliver_inv[OF n(2), of i r] n(1) run by (auto simp: registrations_def)
  next
    case DpClose
    then show ?thesis using close_inv[OF keep] n(1) run by (auto simp: registrations_def)
  next
    case DpReset
    have "dp_inv n (ops @ [op]) (dp_Reset ?d)"
      using dp_invD[OF keep] by (intro dp_invI) (auto simp: dp_Reset_def)
    then show ?thesis using n(1) DpReset run by (auto simp: registrations_def)
  qed
qed

text \<open>
  As long as fewer than 2^32 requests were made, a caller that gets an answer gets one the modem gave for
  that very request: it was delivered under the caller's identifier, which no other request ever had. When the bridge
  stops, every caller still waiting is told so.
\<close>

theorem answers_own_request:
  assumes "registrations ops < 2 ^ 32" "d = dp_run ops newDispatcher"
  shows "(reply_ready c d = Some (Answer r) \<longrightarrow>
      DpDeliver (dpIDs d ! c) r \<in> set ops \<and> (\<forall>c' < length (dpIDs d). dpIDs d ! c' = dpIDs d ! c \<longrightarrow> c' = c))
    \<and> (\<forall>i. dpPending d i = Some c \<longrightarrow> reply_ready c (dp_Close d) \<noteq> None)"
proof -
  obtain n where inv: "dp_inv n ops d" using dp_run_inv[OF assms(1)] assms(2) by blast
  show ?thesis
  proof (intro conjI impI allI)
    assume a: "reply_ready c d = Some (Answer r)"
    then have c: "c < length (dpChans d)" "rpSlot (dpChans d ! c) = Some r"
      by (auto simp: reply_ready_def split: if_splits option.splits)
    then have i: "dpIDs d ! c \<noteq> 0 \<and> DpDeliver (dpIDs d ! c) r \<in> set ops" by (rule dp_invD(6)[OF inv])
    then show "DpDeliver (dpIDs d ! c) r \<in> set ops" by simp
    fix c' assume c': "c' < length (dpIDs d)" "dpIDs d ! c' = dpIDs d ! c"
    then show "c' = c"
      using dp_invD(5)[OF inv, of c c'] dp_invD(5)[OF inv, of c' c] dp_invD(1)[OF inv] c(1) i by (metis linorder_neqE_nat)
  next
    fix i assume p: "dpPending d i = Some c"
    then have c: "c < length (dpChans d)" "\<not> dpClosed d" "c \<in> ran (dpPending d)"
      using dp_invD(3,7)[OF inv] by (auto simp: ran_def)
    have "length (dpChans (dp_Close d)) = length (dpChans d)" by (simp add: dp_Close_def)
    then show "reply_ready c (dp_Close d) \<noteq> None" using close_nth[OF c(1)] c by (auto simp: reply_ready_def split: option.splits)
  qed
qed

theorem answers_own_request_witness:
  "DpDeliver 2 ''b'' \<in> set example_requests \<and> reply_ready 1 (dp_run example_requests newDispatcher) = Some (Answer ''b'')"
proof -
  have n: "registrations example_requests < 2 ^ 32" by (simp add: registrations_def example_requests_def)
  have a: "reply_ready 1 (dp_run example_requests newDispatcher) = Some (Answer ''b'')"
    "dpIDs (dp_run example_requests newDispatcher) ! 1 = 2"
    by (simp_all add: example_requests_def dp_run_def newDispatcher_def dp_Register_def dp_Deliver_def dp_Cancel_def Let_def reply_ready_def)
  show ?thesis using answers_own_request[OF n refl, of 1 "''b''"] a by simp
qed

end
