(* ===== verification/MDM_Watchdog.thy ===== *)
theory MDM_Watchdog
  imports Graywolf_Prelude
begin

text \<open>
  The watchdog of manual transmission (\<^verbatim>\<open>pkg/modembridge/ptt_watchdog.go\<close>, and the calls of
  \<^verbatim>\<open>bridge.go\<close> around it): a key press or heartbeat arms a timer for the channel, a release stops it,
  and a timer that expires releases the transmitter. Timers, their callbacks and the callers interleave.

  A timer of Go's runtime has an identity; \<^verbatim>\<open>Reset\<close> arms it again even when it has fired already, and
  \<^verbatim>\<open>Stop\<close> does not call back a callback that has started. A callback is two steps: it takes the lock and
  removes the entry of its channel, then it releases the transmitter without the lock.
\<close>

record watchdog =
  wdTimeout :: int
  wdTimers :: "u32 \<rightharpoonup> nat"
  wdArmed :: "nat \<rightharpoonup> u32 \<times> int"
  wdNext :: nat
  wdFired :: "u32 list"
  wdUnkeying :: "u32 list"
  wdSent :: "(int \<times> u32 \<times> bool) list"
  wdCalls :: "u32 \<rightharpoonup> bool"
  wdHeard :: "u32 \<rightharpoonup> int"

text \<open>
  \<open>wdSent\<close> is what went to the modem, with its time; \<open>wdCalls\<close> the calls of \<^verbatim>\<open>ManualPttWithWatchdog\<close> that have told the
  modem and not yet the watchdog; \<open>wdHeard\<close> when the watchdog was last told that a channel is held.
\<close>

definition newPttWatchdog :: "int \<Rightarrow> watchdog" where
  "newPttWatchdog timeout = \<lparr>wdTimeout = timeout, wdTimers = Map.empty, wdArmed = Map.empty, wdNext = 0,
     wdFired = [], wdUnkeying = [], wdSent = [], wdCalls = Map.empty, wdHeard = Map.empty\<rparr>"

definition onKey :: "int \<Rightarrow> u32 \<Rightarrow> watchdog \<Rightarrow> watchdog" where
  "onKey now ch w =
     (let w = w\<lparr>wdHeard := (wdHeard w)(ch \<mapsto> now)\<rparr> in
      case wdTimers w ch of
        Some t \<Rightarrow> w\<lparr>wdArmed := (wdArmed w)(t \<mapsto> (ch, now + wdTimeout w))\<rparr>
      | None \<Rightarrow> w\<lparr>wdTimers := (wdTimers w)(ch \<mapsto> wdNext w), wdArmed := (wdArmed w)(wdNext w \<mapsto> (ch, now + wdTimeout w)), wdNext := wdNext w + 1\<rparr>)"

definition onUnkey :: "u32 \<Rightarrow> watchdog \<Rightarrow> watchdog" where
  "onUnkey ch w =
     (case wdTimers w ch of
        Some t \<Rightarrow> w\<lparr>wdArmed := (wdArmed w)(t := None), wdTimers := (wdTimers w)(ch := None)\<rparr>
      | None \<Rightarrow> w)"

definition cancelAll :: "watchdog \<Rightarrow> watchdog" where
  "cancelAll w = w\<lparr>wdArmed := (wdArmed w) |` (- ran (wdTimers w)), wdTimers := Map.empty\<rparr>"

text \<open>The runtime fires a timer that is due: its callback starts.\<close>

definition timer_due :: "int \<Rightarrow> nat \<Rightarrow> watchdog \<Rightarrow> watchdog" where
  "timer_due now t w =
     (case wdArmed w t of
        Some (ch, d) \<Rightarrow> if d \<le> now then w\<lparr>wdArmed := (wdArmed w)(t := None), wdFired := ch # wdFired w\<rparr> else w
      | None \<Rightarrow> w)"

definition timerFire_lock :: "u32 \<Rightarrow> watchdog \<Rightarrow> watchdog" where
  "timerFire_lock ch w =
     (if ch \<notin> set (wdFired w) then w
      else w\<lparr>wdFired := remove1 ch (wdFired w), wdTimers := (wdTimers w)(ch := None), wdUnkeying := ch # wdUnkeying w\<rparr>)"

definition ManualPtt :: "int \<Rightarrow> u32 \<Rightarrow> bool \<Rightarrow> watchdog \<Rightarrow> watchdog" where
  "ManualPtt now ch keyed w = w\<lparr>wdSent := wdSent w @ [(now, ch, keyed)]\<rparr>"

text \<open>The release of a callback; when the link refuses it, that is logged and nothing else.\<close>

definition timerFire_unkey :: "int \<Rightarrow> u32 \<Rightarrow> bool \<Rightarrow> watchdog \<Rightarrow> watchdog" where
  "timerFire_unkey now ch link_ok w =
     (if ch \<notin> set (wdUnkeying w) then w
      else let w = w\<lparr>wdUnkeying := remove1 ch (wdUnkeying w)\<rparr> in if link_ok then ManualPtt now ch False w else w)"

text \<open>
  \<^verbatim>\<open>ManualPttWithWatchdog\<close> in two steps: the modem is told, and when that went through the watchdog is. Timers and
  callbacks run between the two; a second call for the same channel does not.
\<close>

definition ptt_begin :: "int \<Rightarrow> u32 \<Rightarrow> bool \<Rightarrow> bool \<Rightarrow> watchdog \<Rightarrow> watchdog" where
  "ptt_begin now ch keyed link_ok w =
     (if wdCalls w ch \<noteq> None \<or> \<not> link_ok then w else ManualPtt now ch keyed (w\<lparr>wdCalls := (wdCalls w)(ch \<mapsto> keyed)\<rparr>))"

definition ptt_settle :: "int \<Rightarrow> u32 \<Rightarrow> watchdog \<Rightarrow> watchdog" where
  "ptt_settle now ch w =
     (case wdCalls w ch of
        None \<Rightarrow> w
      | Some keyed \<Rightarrow> let w = w\<lparr>wdCalls := (wdCalls w)(ch := None)\<rparr> in if keyed then onKey now ch w else onUnkey ch w)"

text \<open>
  A modem that starts has been told nothing. \<^verbatim>\<open>Start\<close> cancels the timers first; a modem that is started again within
  one run of the supervisor finds those of its predecessor.
\<close>

definition ptt_session :: "watchdog \<Rightarrow> watchdog" where
  "ptt_session w = w\<lparr>wdSent := []\<rparr>"

definition ptt_restart :: "watchdog \<Rightarrow> watchdog" where
  "ptt_restart w = ptt_session (cancelAll w)"

datatype ptt_op = PttBegin int u32 bool bool | PttSettle int u32 | PttDue int nat | PttLock u32 | PttRelease int u32 bool | PttRestart | PttSession

fun ptt_step :: "ptt_op \<Rightarrow> watchdog \<Rightarrow> watchdog" where
  "ptt_step (PttBegin now ch keyed link_ok) w = ptt_begin now ch keyed link_ok w"
| "ptt_step (PttSettle now ch) w = ptt_settle now ch w"
| "ptt_step (PttDue now t) w = timer_due now t w"
| "ptt_step (PttLock ch) w = timerFire_lock ch w"
| "ptt_step (PttRelease now ch link_ok) w = timerFire_unkey now ch link_ok w"
| "ptt_step PttRestart w = ptt_restart w"
| "ptt_step PttSession w = ptt_session w"

definition ptt_run :: "ptt_op list \<Rightarrow> watchdog \<Rightarrow> watchdog" where
  "ptt_run ops w = fold ptt_step ops w"

definition ManualPttWithWatchdog :: "int \<Rightarrow> u32 \<Rightarrow> bool \<Rightarrow> bool \<Rightarrow> ptt_op list" where
  "ManualPttWithWatchdog now ch keyed link_ok = [PttBegin now ch keyed link_ok, PttSettle now ch]"

section \<open>No channel stays keyed unattended\<close>

text \<open>Whether the last command the modem was sent for a channel keys it.\<close>

definition keyed :: "(int \<times> u32 \<times> bool) list \<Rightarrow> u32 \<Rightarrow> bool" where
  "keyed cmds ch \<longleftrightarrow> (case find (\<lambda>(_, c, _). c = ch) (rev cmds) of Some (_, _, k) \<Rightarrow> k | None \<Rightarrow> False)"

lemma keyed_simps [simp]: "\<not> keyed [] ch" "keyed (cmds @ [(now, c, k)]) ch = (if c = ch then k else keyed cmds ch)"
  by (simp_all add: keyed_def)

definition release_taken :: "ptt_op \<Rightarrow> bool" where
  "release_taken op \<longleftrightarrow> (case op of PttRelease _ _ link_ok \<Rightarrow> link_ok | _ \<Rightarrow> True)"

text \<open>A timer is armed for the channel in time, or a callback of one is under way.\<close>

definition attended :: "watchdog \<Rightarrow> u32 \<Rightarrow> int \<Rightarrow> bool" where
  "attended w ch since \<longleftrightarrow>
     (\<exists>t d. wdArmed w t = Some (ch, d) \<and> d \<le> since + wdTimeout w) \<or> ch \<in> set (wdFired w) \<or> ch \<in> set (wdUnkeying w)"

definition watched :: "watchdog \<Rightarrow> u32 \<Rightarrow> bool" where
  "watched w ch \<longleftrightarrow> wdCalls w ch = Some True \<or> (case wdHeard w ch of None \<Rightarrow> False | Some since \<Rightarrow> attended w ch since)"

definition wd_inv :: "watchdog \<Rightarrow> bool" where
  "wd_inv w \<longleftrightarrow>
     (\<forall>ch t. wdTimers w ch = Some t \<longrightarrow> t < wdNext w \<and> (\<forall>ch' d. wdArmed w t = Some (ch', d) \<longrightarrow> ch' = ch))
     \<and> (\<forall>ch ch' t. wdTimers w ch = Some t \<longrightarrow> wdTimers w ch' = Some t \<longrightarrow> ch = ch')
     \<and> (\<forall>t. wdNext w \<le> t \<longrightarrow> wdArmed w t = None)
     \<and> (\<forall>ch. keyed (wdSent w) ch \<longrightarrow> wdCalls w ch \<noteq> Some False \<and> watched w ch)"

lemma wd_invI:
  assumes "\<And>ch t. wdTimers w ch = Some t \<Longrightarrow> t < wdNext w"
    "\<And>ch t ch' d. wdTimers w ch = Some t \<Longrightarrow> wdArmed w t = Some (ch', d) \<Longrightarrow> ch' = ch"
    "\<And>ch ch' t. wdTimers w ch = Some t \<Longrightarrow> wdTimers w ch' = Some t \<Longrightarrow> ch = ch'"
    "\<And>t. wdNext w \<le> t \<Longrightarrow> wdArmed w t = None"
    "\<And>ch. keyed (wdSent w) ch \<Longrightarrow> wdCalls w ch \<noteq> Some False"
    "\<And>ch. keyed (wdSent w) ch \<Longrightarrow> watched w ch"
  shows "wd_inv w"
  using assms unfolding wd_inv_def by blast

lemma wd_invD:
  assumes "wd_inv w"
  shows "wdTimers w ch = Some t \<Longrightarrow> t < wdNext w"
    "wdTimers w ch = Some t \<Longrightarrow> wdArmed w t = Some (ch', d) \<Longrightarrow> ch' = ch"
    "wdTimers w ch = Some t \<Longrightarrow> wdTimers w ch' = Some t \<Longrightarrow> ch = ch'"
    "wdNext w \<le> t \<Longrightarrow> wdArmed w t = None"
    "keyed (wdSent w) ch \<Longrightarrow> wdCalls w ch \<noteq> Some False"
    "keyed (wdSent w) ch \<Longrightarrow> watched w ch"
  using assms unfolding wd_inv_def by blast+

text \<open>A channel stays watched when its armed timers and its callbacks are still there or have moved on.\<close>

lemma watched_keep:
  assumes "watched w c" "wdTimeout w' = wdTimeout w" "wdHeard w' c = wdHeard w c" "wdCalls w c = Some True \<Longrightarrow> wdCalls w' c = Some True"
    "\<And>t d. wdArmed w t = Some (c, d) \<Longrightarrow> wdArmed w' t = Some (c, d) \<or> c \<in> set (wdFired w')"
    "c \<in> set (wdFired w) \<Longrightarrow> c \<in> set (wdFired w') \<union> set (wdUnkeying w')"
    "c \<in> set (wdUnkeying w) \<Longrightarrow> c \<in> set (wdUnkeying w')"
  shows "watched w' c"
proof (cases "wdCalls w c = Some True")
  case True
  then show ?thesis using assms(4) by (simp add: watched_def)
next
  case False
  then obtain since where s: "wdHeard w c = Some since" "attended w c since" using assms(1) by (auto simp: watched_def split: option.splits)
  have "attended w' c since" using s(2) assms(2,5-7) unfolding attended_def by (metis UnE)
  then show ?thesis using s(1) assms(3) by (simp add: watched_def)
qed

text \<open>The end of a call that keys: its channel has a timer now, the timers of the others are not touched.\<close>

lemma settle_key_inv:
  assumes inv: "wd_inv w" shows "wd_inv (onKey now ch (w\<lparr>wdCalls := (wdCalls w)(ch := None)\<rparr>))"
proof (cases "wdTimers w ch")
  case (Some t)
  let ?w = "w\<lparr>wdCalls := (wdCalls w)(ch := None), wdHeard := (wdHeard w)(ch \<mapsto> now), wdArmed := (wdArmed w)(t \<mapsto> (ch, now + wdTimeout w))\<rparr>"
  have "watched ?w c" if k: "keyed (wdSent w) c" for c
  proof (cases "c = ch")
    case True
    then show ?thesis by (auto simp: watched_def attended_def)
  next
    case False
    have "wdArmed ?w t' = Some (c, d)" if "wdArmed w t' = Some (c, d)" for t' d
      using that False wd_invD(2)[OF inv Some] by auto
    then show ?thesis using False by - (rule watched_keep[OF wd_invD(6)[OF inv k]], auto)
  qed
  moreover have "wdNext w \<le> t' \<Longrightarrow> t' \<noteq> t" for t' using wd_invD(1)[OF inv Some] by simp
  ultimately have "wd_inv ?w" using wd_invD[OF inv] Some by (intro wd_invI) (auto split: if_splits)
  then show ?thesis using Some by (simp add: onKey_def)
next
  case None
  let ?w = "w\<lparr>wdCalls := (wdCalls w)(ch := None), wdHeard := (wdHeard w)(ch \<mapsto> now), wdTimers := (wdTimers w)(ch \<mapsto> wdNext w),
    wdArmed := (wdArmed w)(wdNext w \<mapsto> (ch, now + wdTimeout w)), wdNext := wdNext w + 1\<rparr>"
  have fresh: "wdArmed w (wdNext w) = None" using wd_invD(4)[OF inv] by simp
  have "watched ?w c" if k: "keyed (wdSent w) c" for c
  proof (cases "c = ch")
    case True
    then show ?thesis by (auto simp: watched_def attended_def)
  next
    case False
    have "wdArmed ?w t' = Some (c, d)" if "wdArmed w t' = Some (c, d)" for t' d using that fresh by auto
    then show ?thesis using False by - (rule watched_keep[OF wd_invD(6)[OF inv k]], auto)
  qed
  then have "wd_inv ?w" using wd_invD[OF inv] by (intro wd_invI) (fastforce split: if_splits)+
  then show ?thesis using None by (simp add: onKey_def)
qed

lemma settle_unkey_inv:
  assumes inv: "wd_inv w" and call: "wdCalls w ch = Some False"
  shows "wd_inv (onUnkey ch (w\<lparr>wdCalls := (wdCalls w)(ch := None)\<rparr>))"
proof -
  let ?w = "onUnkey ch (w\<lparr>wdCalls := (wdCalls w)(ch := None)\<rparr>)"
  have same: "wdSent ?w = wdSent w" "wdFired ?w = wdFired w" "wdUnkeying ?w = wdUnkeying w" "wdTimeout ?w = wdTimeout w"
    "wdHeard ?w = wdHeard w" "wdCalls ?w = (wdCalls w)(ch := None)"
    by (simp_all add: onUnkey_def split: option.splits)
  have "watched ?w c" if k: "keyed (wdSent w) c" for c
  proof -
    have c: "c \<noteq> ch" using wd_invD(5)[OF inv k] call by auto
    have "wdArmed ?w t = Some (c, d)" if "wdArmed w t = Some (c, d)" for t d
      using that c wd_invD(2)[OF inv] by (auto simp: onUnkey_def split: option.splits)
    then show ?thesis using c same by - (rule watched_keep[OF wd_invD(6)[OF inv k]], auto)
  qed
  then show ?thesis
    using wd_invD[OF inv] same by (intro wd_invI) (auto simp: onUnkey_def split: option.splits if_splits)
qed

lemma ptt_settle_inv: "wd_inv w \<Longrightarrow> wd_inv (ptt_settle now ch w)"
  using settle_key_inv settle_unkey_inv by (auto simp: ptt_settle_def Let_def split: option.split)

lemma ptt_begin_inv:
  assumes inv: "wd_inv w" shows "wd_inv (ptt_begin now ch k ok w)"
proof (cases "wdCalls w ch \<noteq> None \<or> \<not> ok")
  case False
  let ?w = "ptt_begin now ch k ok w"
  have same: "wdTimers ?w = wdTimers w" "wdArmed ?w = wdArmed w" "wdNext ?w = wdNext w" "wdFired ?w = wdFired w" "wdUnkeying ?w = wdUnkeying w"
    "wdTimeout ?w = wdTimeout w" "wdHeard ?w = wdHeard w" "wdCalls ?w = (wdCalls w)(ch \<mapsto> k)" "wdSent ?w = wdSent w @ [(now, ch, k)]"
    using False by (simp_all add: ptt_begin_def ManualPtt_def)
  have "watched ?w c" if c: "keyed (wdSent ?w) c" for c
  proof (cases "c = ch")
    case True
    then show ?thesis using c same by (simp add: watched_def)
  next
    case other: False
    have "keyed (wdSent w) c" using c same other by simp
    then show ?thesis using other same by - (rule watched_keep[OF wd_invD(6)[OF inv]], auto)
  qed
  then show ?thesis using wd_invD[OF inv] same by (intro wd_invI) (auto split: if_splits)
qed (use inv in \<open>simp add: ptt_begin_def\<close>)

lemma timer_due_inv:
  assumes inv: "wd_inv w" shows "wd_inv (timer_due now t w)"
proof -
  have "watched (timer_due now t w) c" if "keyed (wdSent w) c" for c
    by (rule watched_keep[OF wd_invD(6)[OF inv that]]) (auto simp: timer_due_def split: option.splits prod.splits)
  moreover have "wdSent (timer_due now t w) = wdSent w" "wdCalls (timer_due now t w) = wdCalls w"
    by (simp_all add: timer_due_def split: option.splits prod.splits)
  ultimately show ?thesis
    by (intro wd_invI) (use wd_invD[OF inv] in \<open>auto simp: timer_due_def split: option.splits prod.splits if_splits\<close>)
qed

lemma timerFire_lock_inv:
  assumes inv: "wd_inv w" shows "wd_inv (timerFire_lock ch w)"
proof -
  have "watched (timerFire_lock ch w) c" if "keyed (wdSent w) c" for c
    by (rule watched_keep[OF wd_invD(6)[OF inv that]]) (cases "c = ch"; simp add: timerFire_lock_def)+
  moreover have "wdSent (timerFire_lock ch w) = wdSent w" "wdCalls (timerFire_lock ch w) = wdCalls w" by (simp_all add: timerFire_lock_def)
  ultimately show ?thesis
    by (intro wd_invI) (use wd_invD[OF inv] in \<open>auto simp: timerFire_lock_def split: if_splits\<close>)
qed

lemma timerFire_unkey_inv:
  assumes inv: "wd_inv w" shows "wd_inv (timerFire_unkey now ch True w)"
proof (cases "ch \<in> set (wdUnkeying w)")
  case True
  let ?w = "timerFire_unkey now ch True w"
  have same: "wdTimers ?w = wdTimers w" "wdArmed ?w = wdArmed w" "wdNext ?w = wdNext w" "wdFired ?w = wdFired w" "wdUnkeying ?w = remove1 ch (wdUnkeying w)"
    "wdTimeout ?w = wdTimeout w" "wdHeard ?w = wdHeard w" "wdCalls ?w = wdCalls w" "wdSent ?w = wdSent w @ [(now, ch, False)]"
    using True by (simp_all add: timerFire_unkey_def ManualPtt_def Let_def)
  have "watched ?w c" if "keyed (wdSent ?w) c" for c
  proof -
    have c: "c \<noteq> ch" "keyed (wdSent w) c" using that same by (auto split: if_splits)
    then show ?thesis using same by - (rule watched_keep[OF wd_invD(6)[OF inv]], auto)
  qed
  then show ?thesis using wd_invD[OF inv] same by (intro wd_invI) (auto split: if_splits)
qed (use inv in \<open>simp add: timerFire_unkey_def\<close>)

lemma ptt_restart_inv: "wd_inv w \<Longrightarrow> wd_inv (ptt_restart w)"
  by (intro wd_invI) (auto simp: ptt_restart_def ptt_session_def cancelAll_def restrict_map_def wd_invD(4))

lemma ptt_session_inv:
  assumes inv: "wd_inv w" shows "wd_inv (ptt_session w)"
  by (intro wd_invI) (use wd_invD[OF inv] in \<open>auto simp: ptt_session_def\<close>)

lemma ptt_run_inv: "wd_inv w \<Longrightarrow> list_all release_taken ops \<Longrightarrow> wd_inv (ptt_run ops w)"
proof (induction ops arbitrary: w)
  case (Cons op ops)
  have "wd_inv (ptt_step op w)"
    using Cons.prems
    by (cases op) (simp_all add: ptt_begin_inv ptt_settle_inv timer_due_inv timerFire_lock_inv timerFire_unkey_inv ptt_restart_inv ptt_session_inv release_taken_def)
  then show ?case using Cons by (simp add: ptt_run_def)
qed (simp add: ptt_run_def)

lemma ptt_run_timeout [simp]: "wdTimeout (ptt_run ops w) = wdTimeout w"
proof (induction ops arbitrary: w)
  case (Cons op ops)
  have "wdTimeout (ptt_step op w) = wdTimeout w"
    by (cases op) (simp_all add: ptt_begin_def ptt_settle_def onKey_def onUnkey_def timer_due_def timerFire_lock_def timerFire_unkey_def
        ManualPtt_def ptt_restart_def ptt_session_def cancelAll_def Let_def split: option.splits prod.splits)
  then show ?case using Cons.IH by (simp add: ptt_run_def)
qed (simp add: ptt_run_def)

text \<open>The timers that are due have fired and their callbacks are through.\<close>

definition caught_up :: "int \<Rightarrow> watchdog \<Rightarrow> bool" where
  "caught_up now w \<longleftrightarrow> wdFired w = [] \<and> wdUnkeying w = [] \<and> (\<forall>t. case wdArmed w t of Some (ch, d) \<Rightarrow> now < d | None \<Rightarrow> True)"

text \<open>
  Property C36. Calls for one channel coming one after the other and the modem's link taking the releases: under every
  interleaving of presses, heartbeats, releases, stops and restarts of the modem with timers and their callbacks, whenever the last command sent
  to the modem for a channel keys it, no call for that channel is under way and the timers that are due have run, the watchdog
  was told less than its timeout ago that the channel is held.
\<close>

theorem keyed_not_unattended:
  assumes "w = ptt_run ops (newPttWatchdog timeout)" "list_all release_taken ops" "caught_up now w" "wdCalls w ch = None"
    "keyed (wdSent w) ch"
  shows "\<exists>since. wdHeard w ch = Some since \<and> now < since + timeout"
proof -
  have "wd_inv (newPttWatchdog timeout)" by (simp add: wd_inv_def newPttWatchdog_def)
  then have "watched w ch" using wd_invD(6)[OF ptt_run_inv] assms(1,2,5) by blast
  then obtain since where since: "wdHeard w ch = Some since" "attended w ch since"
    using assms(4) by (auto simp: watched_def split: option.splits)
  then obtain t d where "wdArmed w t = Some (ch, d)" "d \<le> since + timeout"
    using assms(1,3) by (auto simp: attended_def caught_up_def newPttWatchdog_def)
  then show ?thesis using assms(3) since(1) by (auto simp: caught_up_def dest!: spec[of _ t])
qed

text \<open>
  What the two conditions exclude. A release that overtakes a press between the command and the watchdog stops the timer of
  the channel the press has just keyed. And a callback whose release the link refuses has removed its timer already.
\<close>

lemma racing_calls_unattended:
  assumes "w = onUnkey ch (onKey now ch (ManualPtt now ch True (ManualPtt now ch False (newPttWatchdog timeout))))"
  shows "keyed (wdSent w) ch \<and> caught_up later w"
  using keyed_simps(2)[of "[(now, ch, False)]" now ch True ch]
  by (simp add: assms onUnkey_def onKey_def ManualPtt_def newPttWatchdog_def caught_up_def)

lemma refused_release_unattended:
  assumes "w = ptt_run (ManualPttWithWatchdog 0 ch True True @ [PttDue timeout 0, PttLock ch, PttRelease timeout ch False]) (newPttWatchdog timeout)"
  shows "keyed (wdSent w) ch \<and> caught_up later w"
  using keyed_simps(2)[of "[]" 0 ch True ch]
  by (simp add: assms ManualPttWithWatchdog_def ptt_run_def ptt_begin_def ptt_settle_def onKey_def timer_due_def timerFire_lock_def
      timerFire_unkey_def ManualPtt_def newPttWatchdog_def caught_up_def)

text \<open>
  The other direction fails. A heartbeat that comes when the timer has fired and its callback has not yet taken the lock
  resets that timer: the callback then removes the entry, the transmitter is released although it was just confirmed, and
  the timer, armed and no longer in the map, fires again in the middle of the next transmission.
\<close>

lemma stale_timer_cuts_transmission:
  "wdSent (ptt_run
     (ManualPttWithWatchdog 0 1 True True @ [PttDue 10 0] @ ManualPttWithWatchdog 10 1 True True @ [PttLock 1, PttRelease 10 1 True] @
      concat (map (\<lambda>t. ManualPttWithWatchdog t 1 True True) [12, 14, 16, 18]) @ [PttDue 20 0, PttLock 1, PttRelease 20 1 True]) (newPttWatchdog 10))
   = [(0, 1, True), (10, 1, True), (10, 1, False), (12, 1, True), (14, 1, True), (16, 1, True), (18, 1, True), (20, 1, False)]"
  by (simp add: ManualPttWithWatchdog_def ptt_run_def ptt_begin_def ptt_settle_def onKey_def timer_due_def timerFire_lock_def
      timerFire_unkey_def ManualPtt_def newPttWatchdog_def)

definition example_ptt_ops :: "ptt_op list" where
  "example_ptt_ops = ManualPttWithWatchdog 0 1 True True @ ManualPttWithWatchdog 2 1 True True"

theorem keyed_not_unattended_witness:
  "\<exists>since. wdHeard (ptt_run example_ptt_ops (newPttWatchdog 10)) 1 = Some since \<and> (11::int) < since + 10"
proof -
  have "caught_up 11 (ptt_run example_ptt_ops (newPttWatchdog 10))" "wdCalls (ptt_run example_ptt_ops (newPttWatchdog 10)) 1 = None"
    "list_all release_taken example_ptt_ops"
    by (simp_all add: example_ptt_ops_def ManualPttWithWatchdog_def ptt_run_def ptt_begin_def ptt_settle_def ManualPtt_def onKey_def
        newPttWatchdog_def caught_up_def release_taken_def)
  moreover have "keyed (wdSent (ptt_run example_ptt_ops (newPttWatchdog 10))) 1"
    using keyed_simps(2)[of "[(0, 1, True)]" 2 1 True 1]
    by (simp add: example_ptt_ops_def ManualPttWithWatchdog_def ptt_run_def ptt_begin_def ptt_settle_def ManualPtt_def onKey_def newPttWatchdog_def)
  ultimately show ?thesis by (intro keyed_not_unattended[OF refl])
qed

end
