(* ===== verification/MDM_Frame.thy ===== *)
theory MDM_Frame
  imports Go_Strings Wire_Words
begin

text \<open>
  The framing between program and modem (\<^verbatim>\<open>pkg/modembridge/framing.go\<close>, \<^verbatim>\<open>ipc.go\<close>): a length of four bytes,
  then the message as protocol buffers encode it. That encoder is a library the sources call, an argument here.
\<close>

definition maxFrameSize :: nat where "maxFrameSize = 64 * 1024"

datatype ipc_err = IpcEOF | IpcTooLarge nat | IpcTruncated | IpcMarshal string | IpcUnmarshal string

definition ipc_writeFrame :: "('m \<Rightarrow> string + bytes) \<Rightarrow> 'm \<Rightarrow> ipc_err + bytes" where
  "ipc_writeFrame marshal msg =
     (case marshal msg of
        Inl e \<Rightarrow> Inl (IpcMarshal e)
      | Inr buf \<Rightarrow> if length buf > maxFrameSize then Inl (IpcTooLarge (length buf)) else Inr (put_be32 (word_of_nat (length buf)) @ buf))"

text \<open>Nothing of the length or of the body reads as the end of the stream; a body that breaks off does not.\<close>

definition ipc_readFrame :: "(bytes \<Rightarrow> string + 'm) \<Rightarrow> bytes \<Rightarrow> ipc_err + ('m \<times> bytes)" where
  "ipc_readFrame unmarshal s =
     (if length s < 4 then Inl IpcEOF
      else let n = unat (get_be32 s); rest = drop 4 s in
        if n > maxFrameSize then Inl (IpcTooLarge n)
        else if length rest < n then Inl (if rest = [] then IpcEOF else IpcTruncated)
        else case unmarshal (take n rest) of
          Inl e \<Rightarrow> Inl (IpcUnmarshal e)
        | Inr msg \<Rightarrow> Inr (msg, drop n rest))"

lemma ipc_readFrame_shorter: "ipc_readFrame u s = Inr (msg, s') \<Longrightarrow> length s' < length s"
  by (auto simp: ipc_readFrame_def Let_def split: if_splits sum.splits)

text \<open>The read loop: what it hands to the dispatcher, and the error it ends with, none at the end of the stream.\<close>

function ipc_Run :: "(bytes \<Rightarrow> string + 'm) \<Rightarrow> bytes \<Rightarrow> 'm list \<times> ipc_err option" where
  "ipc_Run u s =
     (case ipc_readFrame u s of
        Inl IpcEOF \<Rightarrow> ([], None)
      | Inl e \<Rightarrow> ([], Some e)
      | Inr (msg, s') \<Rightarrow> let (msgs, e) = ipc_Run u s' in (msg # msgs, e))"
  by pat_completeness auto
termination by (relation "measure (length \<circ> snd)") (auto dest: ipc_readFrame_shorter)

declare ipc_Run.simps [simp del]

lemma ipc_read_write:
  assumes "ipc_writeFrame marshal msg = Inr w" "\<And>buf. marshal msg = Inr buf \<Longrightarrow> unmarshal buf = Inr msg"
  shows "ipc_readFrame unmarshal (w @ rest) = Inr (msg, rest)"
proof -
  obtain buf where buf: "marshal msg = Inr buf" "length buf \<le> maxFrameSize" "w = put_be32 (word_of_nat (length buf)) @ buf"
    using assms(1) by (auto simp: ipc_writeFrame_def split: sum.splits if_splits)
  have "unat (word_of_nat (length buf) :: u32) = length buf"
    using buf(2) unfolding unsigned_of_nat by (simp add: take_bit_eq_mod maxFrameSize_def)
  then show ?thesis using buf assms(2)[OF buf(1)] by (simp add: ipc_readFrame_def get_put_be32)
qed

text \<open>
  Whatever protocol buffers make of the messages, as long as they read back what they wrote: a run of
  messages written to the modem link is dispatched at the other end as that run, and ends without an error.
\<close>

theorem ipc_stream_roundtrip:
  assumes "list_all2 (\<lambda>m w. ipc_writeFrame marshal m = Inr w) msgs ws"
    "\<And>m buf. m \<in> set msgs \<Longrightarrow> marshal m = Inr buf \<Longrightarrow> unmarshal buf = Inr m"
  shows "ipc_Run unmarshal (concat ws) = (msgs, None)"
  using assms
proof (induction msgs ws rule: list_all2_induct)
  case Nil
  show ?case by (simp add: ipc_Run.simps[of _ "[]"] ipc_readFrame_def)
next
  case (Cons m msgs w ws)
  have "ipc_readFrame unmarshal (w @ concat ws) = Inr (m, concat ws)"
    by (rule ipc_read_write[OF Cons.hyps(1)]) (use Cons.prems in auto)
  moreover have "ipc_Run unmarshal (concat ws) = (msgs, None)" by (rule Cons.IH) (use Cons.prems in auto)
  ultimately show ?case by (simp add: ipc_Run.simps[of _ "w @ concat ws"])
qed

theorem ipc_stream_roundtrip_witness:
  "ipc_Run (\<lambda>bs. Inr (string_of bs)) ([0, 0, 0, 2, 65, 66] @ [0, 0, 0, 1, 67]) = ([''AB'', ''C''], None)"
proof -
  have w: "list_all2 (\<lambda>m w. ipc_writeFrame (\<lambda>s. Inr (bytes_of s)) m = Inr w) [''AB'', ''C''] [[0, 0, 0, 2, 65, 66], [0, 0, 0, 1, 67]]"
    by (simp add: ipc_writeFrame_def maxFrameSize_def put_be32_def put_le32_def bytes_of_def)
  have r: "(Inr (bytes_of m) :: string + bytes) = Inr buf \<Longrightarrow> Inr (string_of buf) = Inr m" for m buf by auto
  show ?thesis using ipc_stream_roundtrip[OF w r] by simp
qed

end
