(* ===== verification/MDM_Bridge.thy ===== *)
theory MDM_Bridge
  imports TX_Governor MDM_Requests MDM_Watchdog MDM_Frame Tap
begin

text \<open>
  The modem bridge (\<^verbatim>\<open>pkg/modembridge\<close>): the messages of both directions, the configuration the program
  pushes at the start of a session, the dispatch of what the modem sends, the status cache, the fan-out of
  carrier-detect changes, the requests and the life cycle. The rows of the configuration store, whether a write to the
  modem goes through, and the clock are arguments; floating-point levels are the bit patterns they travel as.
\<close>

type_synonym float32 = "32 word"
type_synonym u64 = "64 word"

section \<open>Rows and messages\<close>

record audio_device =
  adID :: u32
  adName :: string
  adSourceType :: string
  adSourcePath :: string
  adSampleRate :: u32
  adChannels :: u32
  adFormat :: string
  adGainDB :: float32

record channel_row =
  chID :: u32
  chInputDeviceID :: "u32 option"
  chInputChannel :: u32
  chOutputDeviceID :: u32
  chOutputChannel :: u32
  chModemType :: string
  chBitRate :: u32
  chMarkFreq :: u32
  chSpaceFreq :: u32
  chProfile :: string
  chNumSlicers :: u32
  chFixBits :: string
  chFX25Encode :: bool
  chIL2PEncode :: bool
  chNumDecoders :: u32
  chDecoderOffset :: "32 word"
  chEnabled :: bool

record ptt_config =
  ptChannelID :: u32
  ptMethod :: string
  ptDevice :: string
  ptGpioPin :: u32
  ptPttMethod :: u32
  ptGpioLine :: u32
  ptInvert :: bool
  ptSlotTimeMs :: u32
  ptPersist :: u32
  ptDwaitMs :: u32

record audio_message =
  amDeviceId :: u32
  amDeviceName :: string
  amSampleRate :: u32
  amChannels :: u32
  amSourceType :: string
  amFormat :: string
  amGainDb :: float32

record channel_message =
  cmChannel :: u32
  cmDeviceId :: u32
  cmAudioChannel :: u32
  cmInputDeviceId :: u32
  cmInputChannel :: u32
  cmOutputDeviceId :: u32
  cmOutputChannel :: u32
  cmBaud :: u32
  cmMarkFreq :: u32
  cmSpaceFreq :: u32
  cmModemType :: string
  cmProfile :: string
  cmNumSlicers :: u32
  cmFixBits :: string
  cmNumDecoders :: u32
  cmDecoderOffset :: "32 word"
  cmFx25Encode :: bool
  cmIl2pEncode :: bool

record ptt_message =
  pmChannel :: u32
  pmMethod :: string
  pmDevice :: string
  pmInvert :: bool
  pmTxdelayMs :: u32
  pmTxtailMs :: u32
  pmSlottimeMs :: u32
  pmPersist :: u32
  pmDwaitMs :: u32
  pmGpioPin :: u32
  pmGpioLine :: u32
  pmPttMethod :: u32

record test_signal =
  tsChannel :: u32
  tsKind :: u32
  tsCallsign :: string
  tsCwWpm :: u32
  tsFreqAHz :: u32
  tsFreqBHz :: u32
  tsDurationMs :: u32
  tsAltPeriodMs :: u32

datatype to_modem =
    TransmitFrame transmit_frame | ConfigureChannel channel_message | ConfigureAudio audio_message | ConfigurePtt ptt_message
  | StartAudio | StopAudio | Shutdown u32 | EnumerateAudioDevicesMsg u32 bool | SetDeviceGain u32 float32
  | ScanInputLevelsMsg u32 u32 | ManualPttMsg u32 bool | TransmitTestSignalMsg u32 test_signal

record channel_stats =
  csChannel :: u32
  csRxFrames :: u64
  csRxBadFCS :: u64
  csTxFrames :: u64
  csDcdTransitions :: u64
  csAudioLevelMark :: float32
  csAudioLevelSpace :: float32
  csAudioLevelPeak :: float32
  csDcdState :: bool

record device_level =
  dlDeviceID :: u32
  dlPeakDBFS :: float32
  dlRmsDBFS :: float32
  dlClipping :: bool

record device_info =
  diName :: string
  diStableId :: string
  diInput :: bool
  diSampleRates :: "u32 list"
  diChannelCounts :: "u32 list"
  diHostApi :: string
  diIsDefault :: bool
  diDescription :: string
  diRecommended :: bool
  diEnhancements :: bool

record available_device =
  avName :: string
  avDescription :: string
  avPath :: string
  avSampleRates :: "u32 list"
  avChannels :: "u32 list"
  avHostAPI :: string
  avIsDefault :: bool
  avIsInput :: bool
  avRecommended :: bool
  avEnhancementsEnabled :: bool

record input_level =
  ilName :: string
  ilPeakDBFS :: float32
  ilHasSignal :: bool
  ilError :: string

record modem_frame =
  mfChannel :: u32
  mfData :: bytes
  mfLevelMark :: float32
  mfLevelSpace :: float32

record dcd_change =
  dcChannel :: u32
  dcDetected :: bool

datatype from_modem =
    ReceivedFrame modem_frame | DcdChange dcd_change | StatusUpdate channel_stats | ModemReady string nat
  | AudioDeviceList u32 "device_info list" | DeviceLevelUpdate device_level | InputLevelScanResult u32 "input_level list"
  | TestSignalResult u32 "bool \<times> string" | OtherMessage

section \<open>Carrier-detect subscribers\<close>

definition dcdPublisherBufferSize :: nat where "dcdPublisherBufferSize = 64"

record dcd_sub =
  dsQueue :: "dcd_change list"
  dsOpen :: bool
  dsLost :: nat

record dcd_publisher =
  dpbSubs :: "nat list"
  dpbChans :: "dcd_sub list"
  dpbShut :: bool
  dpbDropped :: nat

definition newDcdPublisher :: dcd_publisher where
  "newDcdPublisher = \<lparr>dpbSubs = [], dpbChans = [], dpbShut = False, dpbDropped = 0\<rparr>"

definition dcd_push :: "dcd_change \<Rightarrow> dcd_sub \<Rightarrow> dcd_sub" where
  "dcd_push ev s =
     (case try_send dcdPublisherBufferSize ev (dsQueue s) of
        (q, True) \<Rightarrow> s\<lparr>dsQueue := q\<rparr>
      | (_, False) \<Rightarrow> s\<lparr>dsLost := dsLost s + 1\<rparr>)"

definition dcd_pop :: "dcd_sub \<Rightarrow> dcd_sub" where
  "dcd_pop s = s\<lparr>dsQueue := tl (dsQueue s)\<rparr>"

interpretation dcd: lossy_tap dcd_push dcd_pop dsQueue dsLost dcdPublisherBufferSize
  by unfold_locales (simp_all add: dcd_push_def try_send_def dcd_pop_def)

definition dcd_Subscribe :: "dcd_publisher \<Rightarrow> nat \<times> dcd_publisher" where
  "dcd_Subscribe p =
     (let c = length (dpbChans p); ch = \<lparr>dsQueue = [], dsOpen = \<not> dpbShut p, dsLost = 0\<rparr> in
      (c, p\<lparr>dpbChans := dpbChans p @ [ch], dpbSubs := (if dpbShut p then dpbSubs p else dpbSubs p @ [c])\<rparr>))"

definition dcd_Unsubscribe :: "nat \<Rightarrow> dcd_publisher \<Rightarrow> dcd_publisher" where
  "dcd_Unsubscribe c p =
     (if c \<notin> set (dpbSubs p) then p
      else p\<lparr>dpbSubs := remove1 c (dpbSubs p), dpbChans := (dpbChans p)[c := (dpbChans p ! c)\<lparr>dsOpen := False\<rparr>]\<rparr>)"

text \<open>A publication without a concurrent unsubscription: the drops of all subscribers are counted.\<close>

definition dcd_Publish :: "dcd_change \<Rightarrow> dcd_publisher \<Rightarrow> dcd_publisher" where
  "dcd_Publish ev p =
     (if dpbShut p then p
      else let full = filter (\<lambda>c. \<not> length (dsQueue (dpbChans p ! c)) < dcdPublisherBufferSize) (dpbSubs p) in
        p\<lparr>dpbChans := fold (\<lambda>c chans. chans[c := dcd_push ev (chans ! c)]) (dpbSubs p) (dpbChans p),
          dpbDropped := dpbDropped p + length full\<rparr>)"

definition dcd_Close :: "dcd_publisher \<Rightarrow> dcd_publisher" where
  "dcd_Close p =
     (if dpbShut p then p
      else p\<lparr>dpbShut := True, dpbChans := fold (\<lambda>c chans. chans[c := (chans ! c)\<lparr>dsOpen := False\<rparr>]) (dpbSubs p) (dpbChans p), dpbSubs := []\<rparr>)"

section \<open>The bridge\<close>

datatype bridge_state = StateStopped | StateStarting | StateConfiguring | StateRunning | StateRestarting

definition state_name :: "bridge_state \<Rightarrow> string" where
  "state_name s = (case s of StateStopped \<Rightarrow> ''STOPPED'' | StateStarting \<Rightarrow> ''STARTING'' | StateConfiguring \<Rightarrow> ''CONFIGURING''
     | StateRunning \<Rightarrow> ''RUNNING'' | StateRestarting \<Rightarrow> ''RESTARTING'')"

definition bridgeHeartbeatTimeout :: int where "bridgeHeartbeatTimeout = 30 * 1000000000"

record bridge =
  brState :: bridge_state
  brFrames :: "modem_frame list"
  brFrameCap :: nat
  brFramesClosed :: bool
  brDcd :: dcd_publisher
  brStats :: "u32 \<rightharpoonup> channel_stats"
  brLevels :: "u32 \<rightharpoonup> device_level"
  brEnum :: "(device_info list) dispatcher"
  brScan :: "(input_level list) dispatcher"
  brTest :: "(bool \<times> string) dispatcher"
  brWatchdog :: watchdog
  brActivity :: int
  brStarted :: bool
  brPanic :: bool

definition New_bridge :: "nat \<Rightarrow> bridge" where
  "New_bridge cap = \<lparr>brState = StateStopped, brFrames = [], brFrameCap = (if cap = 0 then 64 else cap), brFramesClosed = False,
     brDcd = snd (dcd_Subscribe newDcdPublisher), brStats = Map.empty, brLevels = Map.empty,
     brEnum = newDispatcher, brScan = newDispatcher, brTest = newDispatcher,
     brWatchdog = newPttWatchdog 10000000000, brActivity = 0, brStarted = False, brPanic = False\<rparr>"

text \<open>One message of the modem.\<close>

definition dispatchIPC :: "int \<Rightarrow> from_modem \<Rightarrow> bridge \<Rightarrow> bridge" where
  "dispatchIPC now msg b =
     (let b = b\<lparr>brActivity := now\<rparr> in
      case msg of
        ReceivedFrame f \<Rightarrow> b\<lparr>brFrames := fst (try_send (brFrameCap b) f (brFrames b))\<rparr>
      | StatusUpdate s \<Rightarrow> b\<lparr>brStats := (brStats b)(csChannel s \<mapsto> s)\<rparr>
      | DcdChange ev \<Rightarrow> b\<lparr>brDcd := dcd_Publish ev (brDcd b)\<rparr>
      | AudioDeviceList i devs \<Rightarrow> b\<lparr>brEnum := snd (dp_Deliver i devs (brEnum b))\<rparr>
      | DeviceLevelUpdate u \<Rightarrow> b\<lparr>brLevels := (brLevels b)(dlDeviceID u \<mapsto> u)\<rparr>
      | InputLevelScanResult i devs \<Rightarrow> b\<lparr>brScan := snd (dp_Deliver i devs (brScan b))\<rparr>
      | TestSignalResult i r \<Rightarrow> b\<lparr>brTest := snd (dp_Deliver i r (brTest b))\<rparr>
      | _ \<Rightarrow> b)"

definition IsRunning :: "int \<Rightarrow> bridge \<Rightarrow> bool" where
  "IsRunning now b \<longleftrightarrow> brState b = StateRunning \<and> brActivity b \<noteq> 0 \<and> now - brActivity b < bridgeHeartbeatTimeout"

definition status_Reset :: "bridge \<Rightarrow> bridge" where
  "status_Reset b = b\<lparr>brStats := Map.empty, brLevels := Map.empty\<rparr>"

section \<open>Configuration\<close>

text \<open>The store: devices, channels, the PTT rows, the timing rows, and whether a correction of a PTT row is stored.\<close>

record modem_store =
  stDevices :: "string + audio_device list"
  stChannels :: "string + channel_row list"
  stPtt :: "u32 \<Rightarrow> ptt_config option"
  stTiming :: "u32 \<Rightarrow> (u32 \<times> u32) option"

text \<open>The link: what was written, how many more writes go through (\<open>None\<close>: all), and the PTT rows written back.\<close>

record modem_link =
  lkSent :: "to_modem list"
  lkLeft :: "nat option"
  lkStored :: "ptt_config list"

definition link_send :: "to_modem \<Rightarrow> modem_link \<Rightarrow> bool \<times> modem_link" where
  "link_send m l =
     (case lkLeft l of
        None \<Rightarrow> (True, l\<lparr>lkSent := lkSent l @ [m]\<rparr>)
      | Some 0 \<Rightarrow> (False, l)
      | Some (Suc n) \<Rightarrow> (True, l\<lparr>lkSent := lkSent l @ [m], lkLeft := Some n\<rparr>))"

definition audioDeviceName :: "audio_device \<Rightarrow> string" where
  "audioDeviceName d = (if adSourcePath d \<noteq> [] then adSourcePath d else adName d)"

definition audio_of :: "audio_device \<Rightarrow> to_modem" where
  "audio_of d = ConfigureAudio \<lparr>amDeviceId = adID d, amDeviceName = audioDeviceName d, amSampleRate = adSampleRate d,
     amChannels = adChannels d, amSourceType = adSourceType d, amFormat = adFormat d, amGainDb = adGainDB d\<rparr>"

definition channel_of :: "channel_row \<Rightarrow> u32 \<Rightarrow> to_modem" where
  "channel_of c dev = ConfigureChannel \<lparr>cmChannel = chID c, cmDeviceId = dev, cmAudioChannel = chInputChannel c,
     cmInputDeviceId = dev, cmInputChannel = chInputChannel c, cmOutputDeviceId = chOutputDeviceID c,
     cmOutputChannel = chOutputChannel c, cmBaud = chBitRate c, cmMarkFreq = chMarkFreq c, cmSpaceFreq = chSpaceFreq c,
     cmModemType = chModemType c, cmProfile = chProfile c, cmNumSlicers = chNumSlicers c, cmFixBits = chFixBits c,
     cmNumDecoders = chNumDecoders c, cmDecoderOffset = chDecoderOffset c, cmFx25Encode = chFX25Encode c, cmIl2pEncode = chIL2PEncode c\<rparr>"

text \<open>The PTT row of a channel, or the one that never keys; a row that keeps its line in the old field is corrected.\<close>

definition no_ptt :: "u32 \<Rightarrow> ptt_config" where
  "no_ptt ch = \<lparr>ptChannelID = ch, ptMethod = ''none'', ptDevice = [], ptGpioPin = 0, ptPttMethod = 0, ptGpioLine = 0,
     ptInvert = False, ptSlotTimeMs = 0, ptPersist = 0, ptDwaitMs = 0\<rparr>"

definition migrate_gpio :: "ptt_config \<Rightarrow> ptt_config option" where
  "migrate_gpio p =
     (if ptMethod p = ''gpio'' \<and> ptGpioLine p = 0 \<and> ptGpioPin p \<noteq> 0 then Some (p\<lparr>ptGpioLine := ptGpioPin p, ptGpioPin := 0\<rparr>) else None)"

definition corrected :: "ptt_config \<Rightarrow> ptt_config" where
  "corrected p = (case migrate_gpio p of Some q \<Rightarrow> q | None \<Rightarrow> p)"

definition store_correction :: "ptt_config \<Rightarrow> modem_link \<Rightarrow> modem_link" where
  "store_correction p l = (case migrate_gpio p of Some q \<Rightarrow> l\<lparr>lkStored := lkStored l @ [q]\<rparr> | None \<Rightarrow> l)"

definition ptt_row :: "modem_store \<Rightarrow> u32 \<Rightarrow> ptt_config" where
  "ptt_row st ch = (case stPtt st ch of Some p \<Rightarrow> p | None \<Rightarrow> no_ptt ch)"

definition timing_row :: "modem_store \<Rightarrow> u32 \<Rightarrow> u32 \<times> u32" where
  "timing_row st ch = (case stTiming st ch of Some t \<Rightarrow> t | None \<Rightarrow> (300, 100))"

definition ptt_of :: "ptt_config \<Rightarrow> u32 \<Rightarrow> u32 \<times> u32 \<Rightarrow> to_modem" where
  "ptt_of p ch timing = ConfigurePtt \<lparr>pmChannel = ch, pmMethod = ptMethod p, pmDevice = ptDevice p, pmInvert = ptInvert p,
     pmTxdelayMs = fst timing, pmTxtailMs = snd timing, pmSlottimeMs = ptSlotTimeMs p, pmPersist = ptPersist p, pmDwaitMs = ptDwaitMs p,
     pmGpioPin = (if ptMethod p = ''gpio'' then 0 else ptGpioPin p), pmGpioLine = ptGpioLine p, pmPttMethod = ptPttMethod p\<rparr>"

fun push_devices :: "(u32 \<Rightarrow> bool) \<Rightarrow> audio_device list \<Rightarrow> modem_link \<Rightarrow> bool \<times> modem_link" where
  "push_devices used [] l = (True, l)"
| "push_devices used (d # ds) l =
     (if \<not> used (adID d) then push_devices used ds l
      else case link_send (audio_of d) l of
        (False, l) \<Rightarrow> (False, l)
      | (True, l) \<Rightarrow> push_devices used ds l)"

fun push_channels :: "modem_store \<Rightarrow> channel_row list \<Rightarrow> nat \<Rightarrow> modem_link \<Rightarrow> (nat option) \<times> modem_link" where
  "push_channels st [] n l = (Some n, l)"
| "push_channels st (c # cs) n l =
     (case chInputDeviceID c of
        None \<Rightarrow> push_channels st cs n l
      | Some dev \<Rightarrow>
          (case link_send (channel_of c dev) l of
             (False, l) \<Rightarrow> (None, l)
           | (True, l) \<Rightarrow>
               (case link_send (ptt_of (corrected (ptt_row st (chID c))) (chID c) (timing_row st (chID c)))
                       (store_correction (ptt_row st (chID c)) l) of
                  (False, l) \<Rightarrow> (None, l)
                | (True, l) \<Rightarrow> push_channels st cs (n + 1) l)))"

definition uses :: "channel_row list \<Rightarrow> u32 \<Rightarrow> bool" where
  "uses chans d = list_ex (\<lambda>c. chInputDeviceID c = Some d \<or> (chOutputDeviceID c = d \<and> d \<noteq> 0)) chans"

definition pushConfiguration :: "modem_store option \<Rightarrow> modem_link \<Rightarrow> (string + bool) \<times> modem_link" where
  "pushConfiguration store l =
     (case store of
        None \<Rightarrow> (Inl ''no configstore provided'', l)
      | Some st \<Rightarrow>
          (case stDevices st of
             Inl e \<Rightarrow> (Inl (''list audio devices: '' @ e), l)
           | Inr devices \<Rightarrow>
               (case stChannels st of
                  Inl e \<Rightarrow> (Inl (''list channels: '' @ e), l)
                | Inr all \<Rightarrow>
                    let chans = filter chEnabled all in
                    if chans = [] then (Inr False, l)
                    else case push_devices (uses chans) devices l of
                      (False, l) \<Rightarrow> (Inl ''write'', l)
                    | (True, l) \<Rightarrow>
                        (case push_channels st chans 0 l of
                           (None, l) \<Rightarrow> (Inl ''write'', l)
                         | (Some n, l) \<Rightarrow> (Inr (n \<noteq> 0), l)))))"

section \<open>Sessions and the life cycle\<close>

text \<open>
  A session: the first message, the configuration, then what the modem sends until the connection ends. The result is
  why it ended, none when the modem closed it or the program did.
\<close>

definition runSession :: "modem_store option \<Rightarrow> (ipc_err + from_modem) \<Rightarrow> (int \<times> from_modem) list \<Rightarrow> ipc_err option
    \<Rightarrow> modem_link \<Rightarrow> bridge \<Rightarrow> string option \<times> modem_link \<times> bridge" where
  "runSession store first msgs ended l b =
     (case first of
        Inr (ModemReady v pid) \<Rightarrow>
          let b = b\<lparr>brState := StateConfiguring\<rparr> in
          (case pushConfiguration store l of
             (Inl e, l) \<Rightarrow> (Some (''configure: '' @ e), l, b)
           | (Inr audio, l) \<Rightarrow>
               (case (if audio then link_send StartAudio l else (True, l)) of
                  (False, l) \<Rightarrow> (Some ''StartAudio'', l, b)
                | (True, l) \<Rightarrow>
                    let b = fold (\<lambda>(now, m). dispatchIPC now m) msgs (b\<lparr>brState := StateRunning\<rparr>)
                    in (map_option (\<lambda>_. ''read'') ended, l, b)))
      | Inr _ \<Rightarrow> (Some ''expected ModemReady'', l, b)
      | Inl _ \<Rightarrow> (Some ''read ModemReady'', l, b))"

text \<open>What \<^verbatim>\<open>supervise\<close> resets before its loop, and what it closes after it.\<close>

definition supervise_begin :: "bridge \<Rightarrow> bridge" where
  "supervise_begin b =
     (status_Reset b)\<lparr>brEnum := dp_Reset (brEnum b), brScan := dp_Reset (brScan b), brTest := dp_Reset (brTest b),
       brWatchdog := cancelAll (brWatchdog b), brActivity := 0\<rparr>"

definition supervise_end :: "bridge \<Rightarrow> bridge" where
  "supervise_end b =
     (if brFramesClosed b then b\<lparr>brPanic := True\<rparr>
      else b\<lparr>brState := StateStopped, brEnum := dp_Close (brEnum b), brScan := dp_Close (brScan b), brTest := dp_Close (brTest b),
             brDcd := dcd_Close (brDcd b), brFramesClosed := True\<rparr>)"

definition bridge_Start :: "bridge \<Rightarrow> string + bridge" where
  "bridge_Start b =
     (if brStarted b then Inl ''modembridge: already started'' else Inr (supervise_begin (b\<lparr>brStarted := True\<rparr>)))"

definition bridge_Stop :: "bridge \<Rightarrow> bridge" where
  "bridge_Stop b = (if \<not> brStarted b then b else supervise_end (b\<lparr>brStarted := False\<rparr>))"

text \<open>Reloading: stop, push, start again when there is audio; only in the running state.\<close>

definition ReloadConfiguration :: "modem_store option \<Rightarrow> bool \<Rightarrow> modem_link \<Rightarrow> bridge \<Rightarrow> string option \<times> modem_link" where
  "ReloadConfiguration store cancelled l b =
     (if brState b \<noteq> StateRunning then (Some ''modembridge: not in RUNNING state'', l)
      else case link_send StopAudio l of
        (False, l) \<Rightarrow> (Some ''send StopAudio'', l)
      | (True, l) \<Rightarrow>
          if cancelled then (Some ''context canceled'', l)
          else case pushConfiguration store l of
            (Inl e, l) \<Rightarrow> (Some (''push configuration: '' @ e), l)
          | (Inr audio, l) \<Rightarrow>
              if \<not> audio then (None, l)
              else case link_send StartAudio l of (False, l) \<Rightarrow> (Some ''send StartAudio'', l) | (True, l) \<Rightarrow> (None, l))"

section \<open>Requests\<close>

text \<open>
  What happens to the bridge while a request waits: messages of the modem, or the end of supervision. The caller takes
  its answer as soon as its channel has one (or is closed); when nothing more happens it ends by its timer or its context.
\<close>

datatype bridge_event = Inbound int from_modem | Stopping

fun apply_event :: "bridge_event \<Rightarrow> bridge \<Rightarrow> bridge" where
  "apply_event (Inbound now m) b = dispatchIPC now m b"
| "apply_event Stopping b = supervise_end b"

fun await_reply :: "(bridge \<Rightarrow> 'r dispatcher) \<Rightarrow> nat \<Rightarrow> bridge_event list \<Rightarrow> bridge \<Rightarrow> 'r outcome option \<times> bridge" where
  "await_reply disp c [] b = (reply_ready c (disp b), b)"
| "await_reply disp c (e # es) b =
     (case reply_ready c (disp b) of Some r \<Rightarrow> (Some r, b) | None \<Rightarrow> await_reply disp c es (apply_event e b))"

text \<open>A request: register, send, wait, and in every case cancel. \<open>over\<close> says how the wait ends without an answer.\<close>

definition request :: "(bridge \<Rightarrow> 'r dispatcher) \<Rightarrow> (('r dispatcher \<Rightarrow> 'r dispatcher) \<Rightarrow> bridge \<Rightarrow> bridge) \<Rightarrow> (u32 \<Rightarrow> to_modem)
    \<Rightarrow> bridge_event list \<Rightarrow> 'r outcome \<Rightarrow> modem_link \<Rightarrow> bridge \<Rightarrow> 'r outcome \<times> modem_link \<times> bridge" where
  "request disp upd msg events over l b =
     (if brState b \<noteq> StateRunning then (NotRunning, l, b)
      else case dp_Register (disp b) of
        ((i, c), d) \<Rightarrow>
          let b = upd (\<lambda>_. d) b in
          (case link_send (msg i) l of
             (False, l) \<Rightarrow> (SendFailed ''write'', l, upd (dp_Cancel i) b)
           | (True, l) \<Rightarrow>
               (case await_reply disp c events b of
                  (r, b) \<Rightarrow> (case r of Some r \<Rightarrow> r | None \<Rightarrow> over, l, upd (dp_Cancel i) b))))"

definition request_result :: "string \<Rightarrow> string \<Rightarrow> ('r \<Rightarrow> string + 'a) \<Rightarrow> 'r outcome \<Rightarrow> string + 'a" where
  "request_result what timeout convert r =
     (case r of
        Answer a \<Rightarrow> convert a
      | BridgeStopped \<Rightarrow> Inl ''modembridge: bridge stopped''
      | NotRunning \<Rightarrow> Inl ''modembridge: not in RUNNING state''
      | SendFailed e \<Rightarrow> Inl (''send '' @ what @ '': '' @ e)
      | TimedOut \<Rightarrow> Inl (''modembridge: '' @ timeout @ '' timeout'')
      | ContextDone \<Rightarrow> Inl ''context canceled'')"

definition convertDeviceList :: "device_info list \<Rightarrow> available_device list" where
  "convertDeviceList devs = map (\<lambda>d. \<lparr>avName = diName d, avDescription = diDescription d,
     avPath = (if diStableId d = [] then diName d else diStableId d), avSampleRates = diSampleRates d, avChannels = diChannelCounts d,
     avHostAPI = diHostApi d, avIsDefault = diIsDefault d, avIsInput = diInput d, avRecommended = diRecommended d,
     avEnhancementsEnabled = diEnhancements d\<rparr>) devs"

definition EnumerateAudioDevices ::
  "bridge_event list \<Rightarrow> device_info list outcome \<Rightarrow> modem_link \<Rightarrow> bridge \<Rightarrow> (string + available_device list) \<times> modem_link \<times> bridge" where
  "EnumerateAudioDevices events over l b =
     apfst (request_result ''EnumerateAudioDevices'' ''enumerate'' (\<lambda>devs. Inr (convertDeviceList devs)))
       (request brEnum brEnum_update (\<lambda>i. EnumerateAudioDevicesMsg i True) events over l b)"

definition ScanInputLevels ::
  "bridge_event list \<Rightarrow> input_level list outcome \<Rightarrow> modem_link \<Rightarrow> bridge \<Rightarrow> (string + input_level list) \<times> modem_link \<times> bridge" where
  "ScanInputLevels events over l b =
     apfst (request_result ''ScanInputLevels'' ''scan'' Inr)
       (request brScan brScan_update (\<lambda>i. ScanInputLevelsMsg i 500) events over l b)"

definition TransmitTestSignal ::
  "test_signal \<Rightarrow> bridge_event list \<Rightarrow> (bool \<times> string) outcome \<Rightarrow> modem_link \<Rightarrow> bridge \<Rightarrow> (string + unit) \<times> modem_link \<times> bridge" where
  "TransmitTestSignal p events over l b =
     apfst (request_result ''TransmitTestSignal'' ''test signal'' (\<lambda>(ok, e). if ok then Inr () else Inl (''test signal failed: '' @ e)))
       (request brTest brTest_update (\<lambda>i. TransmitTestSignalMsg i p) events over l b)"

text \<open>
  The first list of devices that carries the request's identifier is the answer, whatever else the modem sends before it.
\<close>

definition other_traffic :: "u32 \<Rightarrow> bridge_event \<Rightarrow> bool" where
  "other_traffic i e \<longleftrightarrow> (case e of Inbound _ (AudioDeviceList j _) \<Rightarrow> j \<noteq> i | Inbound _ _ \<Rightarrow> True | Stopping \<Rightarrow> False)"

definition waiting_for :: "u32 \<Rightarrow> nat \<Rightarrow> bridge \<Rightarrow> bool" where
  "waiting_for i c b \<longleftrightarrow> c < length (dpChans (brEnum b)) \<and> dpPending (brEnum b) i = Some c \<and> dpChans (brEnum b) ! c = \<lparr>rpSlot = None, rpClosed = False\<rparr>
     \<and> (\<forall>j. j \<noteq> i \<longrightarrow> dpPending (brEnum b) j \<noteq> Some c)"

lemma waiting_not_ready: "waiting_for i c b \<Longrightarrow> reply_ready c (brEnum b) = None"
  by (simp add: waiting_for_def reply_ready_def)

lemma waiting_other: "waiting_for i c b \<Longrightarrow> other_traffic i e \<Longrightarrow> waiting_for i c (apply_event e b)"
  by (cases e; auto simp: waiting_for_def other_traffic_def dispatchIPC_def Let_def dp_Deliver_def nth_list_update
      split: from_modem.splits option.splits)

lemma await_answer:
  assumes "waiting_for i c b" "list_all (other_traffic i) pre"
  shows "fst (await_reply brEnum c (pre @ Inbound now (AudioDeviceList i devs) # rest) b) = Some (Answer devs)"
  using assms
proof (induction pre arbitrary: b)
  case Nil
  let ?b = "dispatchIPC now (AudioDeviceList i devs) b"
  have r: "reply_ready c (brEnum ?b) = Some (Answer devs)"
    using Nil by (simp add: waiting_for_def dispatchIPC_def Let_def dp_Deliver_def reply_ready_def)
  have "fst (await_reply brEnum c rest ?b) = Some (Answer devs)" by (cases rest) (simp_all add: r)
  then show ?case using waiting_not_ready[OF Nil(1)] by simp
next
  case (Cons e pre)
  then show ?case using waiting_not_ready[OF Cons.prems(1)] waiting_other[OF Cons.prems(1), of e] by simp
qed

lemma enumeration_answered:
  assumes "brState b = StateRunning" "lkLeft l = None" "\<not> dpClosed (brEnum b)"
    "length (dpIDs (brEnum b)) = length (dpChans (brEnum b))" "i = dpNext (brEnum b) + 1"
    "\<forall>j c. dpPending (brEnum b) j = Some c \<longrightarrow> c < length (dpChans (brEnum b))"
    "list_all (other_traffic i) pre"
  shows "fst (EnumerateAudioDevices (pre @ Inbound now (AudioDeviceList i devs) # rest) over l b) = Inr (convertDeviceList devs)"
proof -
  obtain d c where d: "dp_Register (brEnum b) = ((i, c), d)" and w: "waiting_for i c (b\<lparr>brEnum := d\<rparr>)"
    using assms by (auto simp: dp_Register_def Let_def waiting_for_def)
  obtain b' where "await_reply brEnum c (pre @ Inbound now (AudioDeviceList i devs) # rest) (b\<lparr>brEnum := d\<rparr>) = (Some (Answer devs), b')"
    using await_answer[OF w assms(7), of now devs rest] by (metis prod.collapse)
  then show ?thesis using d assms(1,2) by (simp add: EnumerateAudioDevices_def request_def request_result_def link_send_def Let_def)
qed

end
