(* ===== verification/MDM_Supervisor.thy ===== *)
theory MDM_Supervisor
  imports MDM_Bridge
begin

text \<open>
  The supervisor of the modem process (\<^verbatim>\<open>pkg/modembridge/supervisor.go\<close>) with the reconnect schedule
  (\<^verbatim>\<open>pkg/internal/backoff\<close>), and what holds of the bridge: what is pushed to the modem, when the bridge counts as
  running, and what a restart keeps.
\<close>

section \<open>The reconnect schedule\<close>

text \<open>
  Durations are nanoseconds. Growth factor and jitter fraction are fractions; the sources multiply in floating point, which
  is exact for the factor 2 and the jitter 1/4 the program uses. The random number of a call is an argument.
\<close>

record backoff_config =
  bcInitial :: int
  bcMax :: int
  bcFactor :: "int \<times> int"
  bcJitter :: "int \<times> int"

record backoff_state =
  boInitial :: int
  boMax :: int
  boFactor :: "int \<times> int"
  boJitter :: "int \<times> int"
  boNext :: int

definition New_backoff :: "backoff_config \<Rightarrow> string + backoff_state" where
  "New_backoff c =
     (if bcInitial c \<le> 0 then Inl ''backoff: non-positive Initial''
      else if fst (bcJitter c) < 0 \<or> fst (bcJitter c) \<ge> snd (bcJitter c) then Inl ''backoff: JitterFrac must be in [0, 1)''
      else let factor = (if fst (bcFactor c) = 0 then (2, 1) else bcFactor c) in
        if fst factor < snd factor then Inl ''backoff: Factor must be >= 1 (or 0 for default 2)''
        else Inr \<lparr>boInitial = bcInitial c, boMax = (if bcMax c \<le> 0 then 2 ^ 63 - 1 else bcMax c), boFactor = factor,
                  boJitter = bcJitter c, boNext = bcInitial c\<rparr>)"

definition scale :: "int \<times> int \<Rightarrow> int \<Rightarrow> int" where
  "scale q n = n * fst q div snd q"

definition backoff_Next :: "(int \<Rightarrow> int) \<Rightarrow> backoff_state \<Rightarrow> int \<times> backoff_state" where
  "backoff_Next rand b =
     (let advance = scale (boFactor b) (boNext b);
          advance = (if advance \<le> 0 \<or> advance > boMax b then boMax b else advance);
          maxJitter = scale (boJitter b) (boNext b);
          d = (if fst (boJitter b) > 0 \<and> maxJitter > 0 then boNext b + rand maxJitter else boNext b)
      in (d, b\<lparr>boNext := advance\<rparr>))"

definition backoff_Reset :: "backoff_state \<Rightarrow> backoff_state" where
  "backoff_Reset b = b\<lparr>boNext := boInitial b\<rparr>"

fun backoff_delays :: "(int \<Rightarrow> int) list \<Rightarrow> backoff_state \<Rightarrow> int list" where
  "backoff_delays [] b = []"
| "backoff_delays (r # rs) b = (let (d, b) = backoff_Next r b in d # backoff_delays rs b)"

lemma backoff_delays_from:
  assumes "boFactor b = (2, 1)" "0 < boNext b" "boNext b \<le> boMax b" "boJitter b = (j, k)" "0 \<le> j" "0 < k" "j < k"
    "\<And>r m. r \<in> set rs \<Longrightarrow> 0 < m \<Longrightarrow> 0 \<le> r m \<and> r m < m" "i < length rs"
  shows "min (boNext b * 2 ^ i) (boMax b) \<le> backoff_delays rs b ! i
    \<and> (backoff_delays rs b ! i - min (boNext b * 2 ^ i) (boMax b)) * k \<le> min (boNext b * 2 ^ i) (boMax b) * j"
  using assms
proof (induction rs arbitrary: b i)
  case (Cons r rs)
  obtain d b' where n: "backoff_Next r b = (d, b')" by fastforce
  have nx: "boNext b' = min (boNext b * 2) (boMax b)" and same: "boFactor b' = (2, 1)" "boMax b' = boMax b" "boJitter b' = (j, k)"
    using n Cons.prems(1-4) by (auto simp: backoff_Next_def Let_def scale_def)
  show ?case
  proof (cases i)
    case 0
    have jit: "boNext b * j div k * k \<le> boNext b * j"
      using pos_mod_sign[OF Cons.prems(6), of "boNext b * j"] div_mult_mod_eq[of "boNext b * j" k] by linarith
    have "boNext b \<le> d \<and> (d - boNext b) * k \<le> boNext b * j"
    proof (cases "j > 0 \<and> boNext b * j div k > 0")
      case True
      then have d: "d = boNext b + r (boNext b * j div k)" using n Cons.prems(4) by (auto simp: backoff_Next_def Let_def scale_def)
      have r: "0 \<le> r (boNext b * j div k)" "r (boNext b * j div k) < boNext b * j div k" using Cons.prems(8)[of r] True by auto
      then have "r (boNext b * j div k) * k \<le> boNext b * j div k * k" using Cons.prems(6) by (intro mult_right_mono) auto
      then show ?thesis using d r jit by simp
    next
      case False
      then have "d = boNext b" using n Cons.prems(4) by (auto simp: backoff_Next_def Let_def scale_def)
      then show ?thesis using Cons.prems(2,5) by simp
    qed
    then show ?thesis using 0 n Cons.prems(3) by simp
  next
    case (Suc m)
    have pos: "0 < boNext b'" "boNext b' \<le> boMax b'" using nx same Cons.prems(2,3) by auto
    have m: "min (boNext b' * 2 ^ m) (boMax b') = min (boNext b * 2 ^ Suc m) (boMax b)"
    proof (cases "boNext b * 2 \<le> boMax b")
      case True
      then show ?thesis using nx same by simp
    next
      case False
      have "boMax b * 1 \<le> boMax b * 2 ^ m" using Cons.prems(2,3) by (intro mult_left_mono) auto
      moreover have "boNext b * 2 * 1 \<le> boNext b * 2 * 2 ^ m" using Cons.prems(2) by (intro mult_left_mono) auto
      ultimately show ?thesis using False nx same by simp
    qed
    have "min (boNext b' * 2 ^ m) (boMax b') \<le> backoff_delays rs b' ! m
      \<and> (backoff_delays rs b' ! m - min (boNext b' * 2 ^ m) (boMax b')) * k \<le> min (boNext b' * 2 ^ m) (boMax b') * j"
      by (rule Cons.IH[OF same(1) pos same(3)]) (use Cons.prems Suc in auto)
    then show ?thesis using n Suc unfolding m by simp
  qed
qed simp

text \<open>
  The delays of a reconnect schedule double from the initial one up to the maximum and stay there; each is
  longer by at most the jitter fraction.
\<close>

theorem backoff_doubles:
  assumes "New_backoff \<lparr>bcInitial = initial, bcMax = m, bcFactor = (0, 1), bcJitter = (j, k)\<rparr> = Inr b"
    "0 < m" "initial \<le> m" "\<And>r n. r \<in> set rs \<Longrightarrow> 0 < n \<Longrightarrow> 0 \<le> r n \<and> r n < n" "i < length rs"
  shows "min (initial * 2 ^ i) m \<le> backoff_delays rs b ! i
    \<and> (backoff_delays rs b ! i - min (initial * 2 ^ i) m) * k \<le> min (initial * 2 ^ i) m * j"
proof -
  have b: "b = \<lparr>boInitial = initial, boMax = m, boFactor = (2, 1), boJitter = (j, k), boNext = initial\<rparr>" "0 < initial" "0 \<le> j" "j < k"
    using assms(1,2) by (auto simp: New_backoff_def Let_def split: if_splits)
  have "min (boNext b * 2 ^ i) (boMax b) \<le> backoff_delays rs b ! i
    \<and> (backoff_delays rs b ! i - min (boNext b * 2 ^ i) (boMax b)) * k \<le> min (boNext b * 2 ^ i) (boMax b) * j"
    by (rule backoff_delays_from) (use b assms in auto)
  then show ?thesis by (simp add: b(1))
qed

section \<open>The supervisor\<close>

text \<open>
  Its turns: the outcome of a session and the wait before the next one. The trace holds the states it announces and the
  waits. The schedule is made once, before the first turn, and never reset.
\<close>

datatype sup_event = SupState bridge_state | SupWait int

fun sup_turns :: "string option list \<Rightarrow> backoff_state \<Rightarrow> sup_event list" where
  "sup_turns [] bo = [SupState StateStopped]"
| "sup_turns (e # es) bo =
     (let (d, bo) = backoff_Next (\<lambda>_. 0) bo in [SupState StateStarting, SupState StateRestarting, SupWait d] @ sup_turns es bo)"

definition sup_Run :: "int \<Rightarrow> string option list \<Rightarrow> string + sup_event list" where
  "sup_Run maxBackoff sessions =
     try_bind (New_backoff \<lparr>bcInitial = 1000000000, bcMax = (if maxBackoff = 0 then 30 * 1000000000 else maxBackoff), bcFactor = (0, 1), bcJitter = (0, 1)\<rparr>)
       (\<lambda>bo. Inr (sup_turns sessions bo))"

text \<open>The fifth restart waits sixteen seconds however long the sessions before it ran.\<close>

lemma restart_delay_never_resets:
  "sup_Run 0 [None, None, None, None, None] = Inr (concat (map (\<lambda>d. [SupState StateStarting, SupState StateRestarting, SupWait (d * 1000000000)]) [1, 2, 4, 8, 16]) @ [SupState StateStopped])"
  by code_simp

definition stdoutRingMax :: nat where "stdoutRingMax = 16"

definition appendStdoutLine :: "string \<Rightarrow> string list \<Rightarrow> string list" where
  "appendStdoutLine line ring = (if length ring \<ge> stdoutRingMax then take (stdoutRingMax - 1) (tl ring) @ [line] else ring @ [line])"

lemma append_line: "length q \<le> stdoutRingMax \<Longrightarrow> appendStdoutLine line q = last_n stdoutRingMax (q @ [line])"
  by (cases q) (auto simp: appendStdoutLine_def last_n_def stdoutRingMax_def)

lemma stdout_ring: "fold appendStdoutLine ls [] = last_n stdoutRingMax ls"
proof (induction ls rule: rev_induct)
  case (snoc line ls)
  have "0 < stdoutRingMax" by (simp add: stdoutRingMax_def)
  then show ?case using snoc append_line[of "last_n stdoutRingMax ls" line] last_n_append[of stdoutRingMax ls line]
    by (simp add: length_last_n)
qed (simp add: last_n_def)

section \<open>What is pushed\<close>

definition channel_plan :: "modem_store \<Rightarrow> channel_row \<Rightarrow> to_modem list" where
  "channel_plan st c =
     (case chInputDeviceID c of
        None \<Rightarrow> []
      | Some dev \<Rightarrow> [channel_of c dev, ptt_of (corrected (ptt_row st (chID c))) (chID c) (timing_row st (chID c))])"

definition modem_plan :: "modem_store \<Rightarrow> audio_device list \<Rightarrow> channel_row list \<Rightarrow> to_modem list" where
  "modem_plan st devices chans =
     map audio_of (filter (\<lambda>d. uses chans (adID d)) devices) @ concat (map (channel_plan st) chans)"

text \<open>A list of messages went out over a link, or as many of it as the link still took.\<close>

definition went_out :: "to_modem list \<Rightarrow> modem_link \<Rightarrow> bool \<Rightarrow> modem_link \<Rightarrow> bool" where
  "went_out ms l ok l' \<longleftrightarrow>
     (if ok then lkSent l' = lkSent l @ ms \<and> lkLeft l' = map_option (\<lambda>n. n - length ms) (lkLeft l) \<and> (\<forall>n. lkLeft l = Some n \<longrightarrow> length ms \<le> n)
      else \<exists>n < length ms. lkLeft l = Some n \<and> lkSent l' = lkSent l @ take n ms)"

lemma went_out_Nil: "went_out [] l True l"
  by (cases "lkLeft l") (simp_all add: went_out_def)

lemma went_out_send: "link_send m l = (ok, l') \<Longrightarrow> went_out [m] l ok l'"
  by (auto simp: link_send_def went_out_def split: option.splits nat.splits)

lemma went_out_stored: "went_out ms (l\<lparr>lkStored := x\<rparr>) ok l' = went_out ms l ok l'"
  by (simp add: went_out_def)

lemma went_out_append:
  assumes "went_out ms l True l1" "went_out ms' l1 ok l2" shows "went_out (ms @ ms') l ok l2"
proof (cases ok)
  case True
  then show ?thesis using assms by (cases "lkLeft l") (auto simp: went_out_def)
next
  case False
  then obtain n where "n < length ms'" "lkLeft l1 = Some n" "lkSent l2 = lkSent l1 @ take n ms'" using assms(2) by (auto simp: went_out_def)
  then show ?thesis using assms(1) False by (cases "lkLeft l") (auto simp: went_out_def intro!: exI[of _ "n + length ms"])
qed

lemma went_out_stop: "went_out ms l False l1 \<Longrightarrow> went_out (ms @ ms') l False l1"
  by (auto simp: went_out_def)

lemma push_devices_out: "push_devices used ds l = (ok, l') \<Longrightarrow> went_out (map audio_of (filter (\<lambda>d. used (adID d)) ds)) l ok l'"
proof (induction ds arbitrary: l)
  case Nil
  then show ?case by (simp add: went_out_Nil)
next
  case (Cons d ds)
  show ?case
  proof (cases "used (adID d)")
    case False
    then show ?thesis using Cons by simp
  next
    case True
    obtain ok1 l1 where s: "link_send (audio_of d) l = (ok1, l1)" by fastforce
    show ?thesis
    proof (cases ok1)
      case False
      then show ?thesis using went_out_stop[OF went_out_send, of "audio_of d" l l1] s True Cons.prems by simp
    next
      case ok: True
      then show ?thesis using went_out_append[OF went_out_send, of "audio_of d" l l1] s True Cons by simp
    qed
  qed
qed

lemma push_channels_out:
  "push_channels st cs n l = (r, l') \<Longrightarrow> went_out (concat (map (channel_plan st) cs)) l (r \<noteq> None) l'
    \<and> (\<forall>m. r = Some m \<longrightarrow> m = n + length (filter (\<lambda>c. chInputDeviceID c \<noteq> None) cs))"
proof (induction cs arbitrary: n l)
  case Nil
  then show ?case using went_out_Nil by auto
next
  case (Cons c cs)
  show ?case
  proof (cases "chInputDeviceID c")
    case None
    then have "channel_plan st c = []" "push_channels st cs n l = (r, l')" using Cons.prems by (simp_all add: channel_plan_def)
    then show ?thesis using Cons.IH[of n l] None by simp
  next
    case (Some dev)
    define m where "m = ptt_of (corrected (ptt_row st (chID c))) (chID c) (timing_row st (chID c))"
    have plan: "channel_plan st c = [channel_of c dev] @ [m]" by (simp add: channel_plan_def Some m_def)
    obtain ok1 l1 where s1: "link_send (channel_of c dev) l = (ok1, l1)" by fastforce
    obtain ok2 l2 where s2: "link_send m (store_correction (ptt_row st (chID c)) l1) = (ok2, l2)" by fastforce
    have o2: "went_out [m] l1 ok2 l2"
      using went_out_send[OF s2] by (auto simp: store_correction_def went_out_stored split: option.splits)
    have step: "push_channels st (c # cs) n l = (if \<not> ok1 then (None, l1) else if \<not> ok2 then (None, l2) else push_channels st cs (n + 1) l2)"
      using s1 s2 by (simp add: Some m_def split: bool.splits)
    show ?thesis
    proof (cases ok1)
      case False
      have "went_out ([channel_of c dev] @ ([m] @ concat (map (channel_plan st) cs))) l False l1"
        by (rule went_out_stop) (use went_out_send[OF s1] False in simp)
      then show ?thesis using step False Cons.prems plan by auto
    next
      case ok1: True
      have both: "went_out (channel_plan st c) l ok2 l2" unfolding plan by (rule went_out_append[OF _ o2]) (use went_out_send[OF s1] ok1 in simp)
      show ?thesis
      proof (cases ok2)
        case False
        then have "went_out (channel_plan st c @ concat (map (channel_plan st) cs)) l False l2" by (intro went_out_stop) (use both in simp)
        then show ?thesis using step False ok1 Cons.prems by auto
      next
        case True
        then have r: "push_channels st cs (n + 1) l2 = (r, l')" using step ok1 Cons.prems by simp
        have "went_out (channel_plan st c @ concat (map (channel_plan st) cs)) l (r \<noteq> None) l'"
          by (rule went_out_append) (use both True Cons.IH[OF r] in auto)
        then show ?thesis using Cons.IH[OF r] Some by simp
      qed
    qed
  qed
qed

text \<open>
  Property C37. Pushing the configuration writes to the modem the devices some enabled channel uses, then every enabled
  channel that has a sound input together with its transmitter control, in order and nothing else, and asks for audio to be
  started exactly when there is such a channel; when the link breaks it has written a beginning of that and says so.
\<close>

theorem configuration_pushed:
  assumes "stDevices st = Inr devices" "stChannels st = Inr all"
  shows "case pushConfiguration (Some st) l of
      (Inr audio, l') \<Rightarrow> lkSent l' = lkSent l @ modem_plan st devices (filter chEnabled all)
        \<and> audio = list_ex (\<lambda>c. chEnabled c \<and> chInputDeviceID c \<noteq> None) all
    | (Inl e, l') \<Rightarrow> \<exists>n < length (modem_plan st devices (filter chEnabled all)).
        lkLeft l = Some n \<and> lkSent l' = lkSent l @ take n (modem_plan st devices (filter chEnabled all))"
proof -
  let ?c = "filter chEnabled all"
  have ex: "(length (filter (\<lambda>c. chInputDeviceID c \<noteq> None) ?c) \<noteq> 0) = list_ex (\<lambda>c. chEnabled c \<and> chInputDeviceID c \<noteq> None) all"
    by (induction all) auto
  show ?thesis
  proof (cases "?c = []")
    case True
    then show ?thesis using assms ex by (simp add: pushConfiguration_def modem_plan_def uses_def)
  next
    case False
    obtain ok l1 where d: "push_devices (uses ?c) devices l = (ok, l1)" by fastforce
    note o1 = push_devices_out[OF d]
    show ?thesis
    proof (cases ok)
      case False
      then have "went_out (modem_plan st devices ?c) l False l1" unfolding modem_plan_def by (intro went_out_stop) (use o1 in simp)
      then show ?thesis using assms False d \<open>?c \<noteq> []\<close> by (auto simp: pushConfiguration_def Let_def went_out_def)
    next
      case True
      obtain r l2 where c: "push_channels st ?c 0 l1 = (r, l2)" by fastforce
      note o2 = push_channels_out[OF c]
      have "went_out (modem_plan st devices ?c) l (r \<noteq> None) l2"
        unfolding modem_plan_def by (rule went_out_append) (use o1 o2 True in auto)
      then show ?thesis using assms True d c o2 ex \<open>?c \<noteq> []\<close>
        by (cases r) (auto simp: pushConfiguration_def Let_def went_out_def)
    qed
  qed
qed

section \<open>When the bridge runs, and what a restart keeps\<close>

lemma dispatch_activity: "brActivity (dispatchIPC now m b) = now" "brState (dispatchIPC now m b) = brState b"
  by (cases m; simp add: dispatchIPC_def)+

lemma session_activity:
  "msgs \<noteq> [] \<Longrightarrow> brActivity (fold (\<lambda>(now, m). dispatchIPC now m) msgs b) = fst (last msgs)"
  by (induction msgs arbitrary: b rule: rev_induct) (auto simp: dispatch_activity split: prod.splits)

text \<open>A running bridge has heard from its modem within thirty seconds.\<close>

lemma running_heard_recently:
  assumes "runSession store first msgs ended l b = (e, l', b')" "IsRunning now b'" "msgs \<noteq> []" "brState b \<noteq> StateRunning"
  shows "now - fst (last msgs) < bridgeHeartbeatTimeout"
  using assms session_activity[OF assms(3)]
  by (auto simp: runSession_def IsRunning_def Let_def split: sum.splits from_modem.splits prod.splits if_splits bool.splits)

text \<open>
  The resets are made once per start of the bridge, not once per start of the modem: the supervisor's loop runs inside.
  What the last modem reported is still there when the next one has just been configured, and the bridge counts as running
  on the strength of the old one's last message.
\<close>

lemma status_survives_restart:
  assumes "runSession store (Inr (ModemReady v pid)) msgs ended l b = (e, l', b')" "pushConfiguration store l2 = (Inr False, l3)"
  shows "\<exists>b2. runSession store (Inr (ModemReady v2 pid2)) [] None l2 (b'\<lparr>brState := StateStarting\<rparr>) = (None, l3, b2)
    \<and> brStats b2 = brStats b' \<and> brLevels b2 = brLevels b' \<and> brActivity b2 = brActivity b' \<and> brState b2 = StateRunning"
  using assms(2) by (simp add: runSession_def Let_def)

text \<open>A bridge that is started again after a stop closes its frame channel a second time, which panics.\<close>

lemma restart_panics:
  assumes "bridge_Start (New_bridge cap) = Inr b1" "bridge_Start (bridge_Stop b1) = Inr b2"
  shows "brPanic (bridge_Stop b2)"
  using assms by (auto simp: bridge_Start_def bridge_Stop_def supervise_begin_def supervise_end_def status_Reset_def New_bridge_def split: if_splits)

section \<open>Concrete instances\<close>

theorem backoff_doubles_witness:
  "backoff_delays [\<lambda>m. m - 1, \<lambda>_. 0, \<lambda>m. m - 1] \<lparr>boInitial = 100, boMax = 150, boFactor = (2, 1), boJitter = (1, 4), boNext = 100\<rparr> ! 2 \<ge> min (100 * 2 ^ 2) 150"
proof -
  have "New_backoff \<lparr>bcInitial = 100, bcMax = 150, bcFactor = (0, 1), bcJitter = (1, 4)\<rparr>
    = Inr \<lparr>boInitial = 100, boMax = 150, boFactor = (2, 1), boJitter = (1, 4), boNext = 100\<rparr>"
    by (simp add: New_backoff_def)
  moreover have "r \<in> set [\<lambda>m. m - 1, \<lambda>_. 0, \<lambda>m. m - 1] \<Longrightarrow> 0 < n \<Longrightarrow> 0 \<le> r n \<and> r n < n" for r :: "int \<Rightarrow> int" and n by auto
  ultimately show ?thesis by (intro backoff_doubles[THEN conjunct1]) auto
qed

definition example_device :: "u32 \<Rightarrow> audio_device" where
  "example_device i = \<lparr>adID = i, adName = ''card'', adSourceType = ''soundcard'', adSourcePath = [], adSampleRate = 48000,
     adChannels = 1, adFormat = ''s16le'', adGainDB = 0\<rparr>"

definition example_channel :: "u32 \<Rightarrow> u32 option \<Rightarrow> bool \<Rightarrow> channel_row" where
  "example_channel i dev on = \<lparr>chID = i, chInputDeviceID = dev, chInputChannel = 0, chOutputDeviceID = 0, chOutputChannel = 0,
     chModemType = ''afsk'', chBitRate = 1200, chMarkFreq = 1200, chSpaceFreq = 2200, chProfile = ''A'', chNumSlicers = 1,
     chFixBits = ''none'', chFX25Encode = False, chIL2PEncode = False, chNumDecoders = 1, chDecoderOffset = 0, chEnabled = on\<rparr>"

definition example_store :: modem_store where
  "example_store = \<lparr>stDevices = Inr [example_device 1, example_device 2],
     stChannels = Inr [example_channel 1 (Some 2) True, example_channel 2 None True, example_channel 3 (Some 1) False],
     stPtt = (\<lambda>_. None), stTiming = (\<lambda>_. None)\<rparr>"

theorem configuration_pushed_witness:
  "lkSent (snd (pushConfiguration (Some example_store) \<lparr>lkSent = [], lkLeft = None, lkStored = []\<rparr>))
   = [audio_of (example_device 2), channel_of (example_channel 1 (Some 2) True) 2, ptt_of (no_ptt 1) 1 (300, 100)]"
proof -
  have s: "stDevices example_store = Inr [example_device 1, example_device 2]"
    "stChannels example_store = Inr [example_channel 1 (Some 2) True, example_channel 2 None True, example_channel 3 (Some 1) False]"
    by (simp_all add: example_store_def)
  show ?thesis
    using configuration_pushed[OF s, of "\<lparr>lkSent = [], lkLeft = None, lkStored = []\<rparr>"]
    by (auto simp: modem_plan_def channel_plan_def uses_def example_store_def example_device_def example_channel_def no_ptt_def corrected_def ptt_row_def timing_row_def migrate_gpio_def Let_def
        split: prod.splits sum.splits)
qed

end
