(* ===== verification/BCN_Schedule.thy ===== *)
theory BCN_Schedule
  imports AX25_Frame TX_Source Go_Heap Go_Strings Complex_Main
begin

text \<open>
  The beacon scheduler (\<^verbatim>\<open>pkg/beacon/scheduler.go\<close>, \<^verbatim>\<open>heap.go\<close>, \<^verbatim>\<open>types.go\<close>, \<^verbatim>\<open>smartbeacon.go\<close> and the slot
  computation of \<^verbatim>\<open>builder.go\<close>): the heap of plans, the turns of the run loop, when a beacon fires and when it is
  looked at next. Durations and times are nanoseconds, 0 the zero time; speeds and headings, floating-point in the source,
  are rational numbers. The GPS cache and the clock are arguments; a turn reads the clock once.
\<close>

section \<open>Configuration\<close>

datatype beacon_type = TypePosition | TypeObject | TypeTracker | TypeCustom | TypeIGate

definition beacon_type_string :: "beacon_type \<Rightarrow> string" where
  "beacon_type_string t = (case t of TypePosition \<Rightarrow> ''position'' | TypeObject \<Rightarrow> ''object'' | TypeTracker \<Rightarrow> ''tracker''
     | TypeCustom \<Rightarrow> ''custom'' | TypeIGate \<Rightarrow> ''igate'')"

record smart_config =
  smEnabled :: bool
  smFastSpeed :: rat
  smFastRate :: int
  smSlowSpeed :: rat
  smSlowRate :: int
  smTurnTime :: int
  smTurnAngle :: rat
  smTurnSlope :: rat

record gps_fix =
  gfLatitude :: rat
  gfLongitude :: rat
  gfHasCourse :: bool
  gfHeading :: rat
  gfSpeed :: rat
  gfHasAlt :: bool
  gfAltitude :: rat

definition zero_fix :: gps_fix where
  "zero_fix = \<lparr>gfLatitude = 0, gfLongitude = 0, gfHasCourse = False, gfHeading = 0, gfSpeed = 0, gfHasAlt = False, gfAltitude = 0\<rparr>"

record beacon_config =
  bnID :: u32
  bnType :: beacon_type
  bnChannel :: u32
  bnSource :: address
  bnDest :: address
  bnPath :: "address list"
  bnDelay :: int
  bnEvery :: int
  bnSlot :: int
  bnUseGps :: bool
  bnLat :: rat
  bnLon :: rat
  bnAltFt :: rat
  bnComment :: string
  bnCommentCmd :: "string list"
  bnFormat :: string
  bnAmbiguity :: int
  bnMessaging :: bool
  bnObjectName :: string
  bnCustomInfo :: string
  bnSmart :: "smart_config option"
  bnPHGPower :: int
  bnEnabled :: bool
  bnSendPath :: string

section \<open>SmartBeaconing\<close>

abbreviation sec :: int where "sec \<equiv> 1000000000"

definition DefaultSmartBeacon :: smart_config where
  "DefaultSmartBeacon = \<lparr>smEnabled = False, smFastSpeed = 60, smFastRate = 180 * sec, smSlowSpeed = 5, smSlowRate = 1800 * sec,
     smTurnTime = 15 * sec, smTurnAngle = 30, smTurnSlope = 255\<rparr>"

definition smart_Interval :: "smart_config \<Rightarrow> rat \<Rightarrow> int" where
  "smart_Interval s speed =
     (if speed \<le> smSlowSpeed s then smSlowRate s
      else if speed \<ge> smFastSpeed s then smFastRate s
      else \<lfloor>of_int (smFastRate s div sec) * smFastSpeed s / speed\<rfloor> * sec)"

text \<open>No threshold is the infinite one.\<close>

definition TurnThreshold :: "smart_config \<Rightarrow> rat \<Rightarrow> rat option" where
  "TurnThreshold s speed = (if speed \<le> 0 then None else Some (smTurnAngle s + smTurnSlope s / speed))"

definition HeadingDelta :: "rat \<Rightarrow> rat \<Rightarrow> rat" where
  "HeadingDelta a b = (let d = \<bar>a - b\<bar>; d = d - 360 * of_int \<lfloor>d / 360\<rfloor> in if d > 180 then 360 - d else d)"

section \<open>Plans\<close>

record beacon_plan =
  bpCfg :: beacon_config
  bpNextFire :: int
  bpLastSent :: int
  bpLastHeading :: rat
  bpHasHeading :: bool

definition plan_less :: "beacon_plan \<Rightarrow> beacon_plan \<Rightarrow> bool" where
  "plan_less a b \<longleftrightarrow>
     (if bpNextFire a = bpNextFire b then bnID (bpCfg a) < bnID (bpCfg b) else bpNextFire a < bpNextFire b)"

interpretation plans: go_order plan_less
  by unfold_locales (auto simp: plan_less_def split: if_splits)

record scheduler =
  scBeacons :: "beacon_config list"
  scReload :: bool
  scHeap :: "beacon_plan list"
  scBusy :: nat
  scMaxFires :: nat
  scHasCache :: bool
  scZone :: int

text \<open>What the loop does in a turn: start a worker, drop a fire because all workers are busy, sleep, or wait for a reload.\<close>

datatype sched_event = Fired beacon_config | SkippedBusy beacon_config | SmartRate u32 int | Sleep int | Idle | Built nat

definition New_scheduler :: "int \<Rightarrow> bool \<Rightarrow> int \<Rightarrow> scheduler" where
  "New_scheduler maxFires cache zone = \<lparr>scBeacons = [], scReload = False, scHeap = [], scBusy = 0,
     scMaxFires = (if maxFires \<le> 0 then 4 else nat maxFires), scHasCache = cache, scZone = zone\<rparr>"

definition SetBeacons :: "beacon_config list \<Rightarrow> scheduler \<Rightarrow> scheduler" where
  "SetBeacons bs s = s\<lparr>scBeacons := bs\<rparr>"

definition Reload_beacons :: "beacon_config list \<Rightarrow> scheduler \<Rightarrow> scheduler" where
  "Reload_beacons bs s = (SetBeacons bs s)\<lparr>scReload := True\<rparr>"

text \<open>The time to the next instant that lies the given seconds past the hour, in the station's time zone.\<close>

definition timeToNextSlot :: "int \<Rightarrow> int \<Rightarrow> int \<Rightarrow> int" where
  "timeToNextSlot zone now slot =
     (if slot < 0 then 0
      else let slot = slot mod 3600;
               sec_of_hour = (now div sec + zone) mod 3600;
               diff = slot - sec_of_hour;
               diff = (if diff \<le> 0 then diff + 3600 else diff)
           in diff * sec - now mod sec)"

definition initialFire :: "int \<Rightarrow> beacon_config \<Rightarrow> int \<Rightarrow> int" where
  "initialFire zone cfg now =
     (let delay = (if bnSlot cfg \<ge> 0 \<and> bnSlot cfg < 3600 then timeToNextSlot zone now (bnSlot cfg) else bnDelay cfg);
          delay = (if delay < 0 then 0 else delay)
      in now + delay)"

definition buildHeap :: "int \<Rightarrow> scheduler \<Rightarrow> scheduler" where
  "buildHeap now s =
     s\<lparr>scHeap := heap_init plan_less
         (map (\<lambda>cfg. \<lparr>bpCfg = cfg, bpNextFire = initialFire (scZone s) cfg now, bpLastSent = 0, bpLastHeading = 0, bpHasHeading = False\<rparr>)
            (filter bnEnabled (scBeacons s))),
       scReload := False\<rparr>"

definition isSmart :: "scheduler \<Rightarrow> beacon_config \<Rightarrow> bool" where
  "isSmart s c \<longleftrightarrow> bnType c = TypeTracker \<and> (case bnSmart c of Some sm \<Rightarrow> smEnabled sm | None \<Rightarrow> False) \<and> scHasCache s"

text \<open>The cache answers with a fix or, without one, with the zero fix.\<close>

definition fix_of :: "gps_fix option \<Rightarrow> gps_fix" where
  "fix_of f = (case f of Some x \<Rightarrow> x | None \<Rightarrow> zero_fix)"

definition shouldFire :: "scheduler \<Rightarrow> gps_fix option \<Rightarrow> beacon_plan \<Rightarrow> int \<Rightarrow> bool" where
  "shouldFire s gps p now \<longleftrightarrow>
     (if \<not> isSmart s (bpCfg p) then True
      else if bpLastSent p = 0 then True
      else let sm = the (bnSmart (bpCfg p)); f = fix_of gps; elapsed = now - bpLastSent p;
               turned = (bpHasHeading p \<and> gfHasCourse f \<and> elapsed \<ge> smTurnTime sm
                 \<and> (case TurnThreshold sm (gfSpeed f) of Some th \<Rightarrow> HeadingDelta (bpLastHeading p) (gfHeading f) \<ge> th | None \<Rightarrow> False))
           in turned \<or> elapsed \<ge> smart_Interval sm (gfSpeed f))"

definition smartPollInterval :: int where "smartPollInterval = 1 * sec"

definition nextWake_beacon :: "scheduler \<Rightarrow> gps_fix option \<Rightarrow> beacon_plan \<Rightarrow> int \<Rightarrow> int" where
  "nextWake_beacon s gps p now =
     (if \<not> isSmart s (bpCfg p) then now + (if bnEvery (bpCfg p) \<le> 0 then 600 * sec else bnEvery (bpCfg p))
      else let interval = smart_Interval (the (bnSmart (bpCfg p))) (gfSpeed (fix_of gps))
           in now + (if interval < smartPollInterval then interval else smartPollInterval))"

definition fireAsync :: "beacon_plan \<Rightarrow> scheduler \<Rightarrow> sched_event \<times> scheduler" where
  "fireAsync p s =
     (if scBusy s < scMaxFires s then (Fired (bpCfg p), s\<lparr>scBusy := scBusy s + 1\<rparr>) else (SkippedBusy (bpCfg p), s))"

text \<open>A plan that is due: fire it if it should be, remember when and with which heading.\<close>

definition fire_due :: "gps_fix option \<Rightarrow> beacon_plan \<Rightarrow> int \<Rightarrow> scheduler \<Rightarrow> sched_event list \<times> beacon_plan \<times> scheduler" where
  "fire_due gps p now s =
     (if \<not> shouldFire s gps p now then ([], p, s)
      else let (ev, s) = fireAsync p s;
               p = p\<lparr>bpLastSent := now\<rparr>;
               p = (if isSmart s (bpCfg p) \<and> gps \<noteq> None \<and> gfHasCourse (the gps)
                    then p\<lparr>bpLastHeading := gfHeading (the gps), bpHasHeading := True\<rparr> else p)
           in ([ev], p, s))"

definition take_reload :: "int \<Rightarrow> scheduler \<Rightarrow> scheduler" where
  "take_reload now s = (if scReload s then buildHeap now s else s)"

definition sched_act :: "gps_fix option \<Rightarrow> int \<Rightarrow> scheduler \<Rightarrow> sched_event list \<times> scheduler" where
  "sched_act gps now s =
     (if scHeap s = [] then ([Idle], s)
      else let next = scHeap s ! 0; wait = bpNextFire next - now in
        if wait > 0 then ([Sleep wait], s)
        else case heap_pop plan_less (scHeap s) of
          None \<Rightarrow> ([], s)
        | Some (p, h) \<Rightarrow>
            let (evs, p, s) = fire_due gps p now (s\<lparr>scHeap := h\<rparr>);
                p = p\<lparr>bpNextFire := nextWake_beacon s gps p now\<rparr>
            in (evs, s\<lparr>scHeap := heap_push plan_less p (scHeap s)\<rparr>))"

definition sched_turn :: "gps_fix option \<Rightarrow> int \<Rightarrow> scheduler \<Rightarrow> sched_event list \<times> scheduler" where
  "sched_turn gps now s = sched_act gps now (take_reload now s)"

text \<open>The end of a worker.\<close>

definition worker_done :: "scheduler \<Rightarrow> scheduler" where
  "worker_done s = s\<lparr>scBusy := scBusy s - 1\<rparr>"

datatype sched_op = SchedTurn int "gps_fix option" | SchedReload "beacon_config list" | SchedWorkerDone

fun sched_step :: "sched_op \<Rightarrow> scheduler \<Rightarrow> sched_event list \<times> scheduler" where
  "sched_step (SchedTurn now gps) s = sched_turn gps now s"
| "sched_step (SchedReload bs) s = ([], Reload_beacons bs s)"
| "sched_step SchedWorkerDone s = ([], worker_done s)"

text \<open>The trace of a run: every event with the time of its turn.\<close>

fun sched_run :: "sched_op list \<Rightarrow> scheduler \<Rightarrow> (int \<times> sched_event) list \<times> scheduler" where
  "sched_run [] s = ([], s)"
| "sched_run (op # ops) s =
     (let (evs, s) = sched_step op s; (rest, s) = sched_run ops s
      in (map (\<lambda>e. (case op of SchedTurn now _ \<Rightarrow> now | _ \<Rightarrow> 0, e)) evs @ rest, s))"

section \<open>The schedule holds every enabled beacon once\<close>

definition sched_inv :: "scheduler \<Rightarrow> bool" where
  "sched_inv s \<longleftrightarrow> plans.is_heap (scHeap s) \<and> scBusy s \<le> scMaxFires s
     \<and> (\<not> scReload s \<longrightarrow> image_mset bpCfg (mset (scHeap s)) = mset (filter bnEnabled (scBeacons s)))"

lemma fire_due_cfg: "fire_due gps p now s = (evs, p', s') \<Longrightarrow> bpCfg p' = bpCfg p \<and> bpNextFire p' = bpNextFire p
  \<and> scHeap s' = scHeap s \<and> scBeacons s' = scBeacons s \<and> scReload s' = scReload s \<and> scMaxFires s' = scMaxFires s
  \<and> scHasCache s' = scHasCache s \<and> scZone s' = scZone s \<and> (scBusy s \<le> scMaxFires s \<longrightarrow> scBusy s' \<le> scMaxFires s)"
  by (auto simp: fire_due_def fireAsync_def Let_def split: if_splits)

lemma buildHeap_inv: "scBusy s \<le> scMaxFires s \<Longrightarrow> sched_inv (buildHeap now s)"
  by (simp add: sched_inv_def buildHeap_def plans.heap_init_is_heap image_mset.compositionality comp_def flip: mset_map)

text \<open>A turn after the pending reload has been taken.\<close>

lemma act_cases:
  assumes "sched_act gps now t = (evs, s')"
  obtains (idle) "scHeap t = []" "evs = [Idle]" "s' = t"
    | (sleep) "scHeap t \<noteq> []" "now < bpNextFire (scHeap t ! 0)" "evs = [Sleep (bpNextFire (scHeap t ! 0) - now)]" "s' = t"
    | (due) p h p' u where "bpNextFire (scHeap t ! 0) \<le> now" "heap_pop plan_less (scHeap t) = Some (p, h)"
        "fire_due gps p now (t\<lparr>scHeap := h\<rparr>) = (evs, p', u)"
        "s' = u\<lparr>scHeap := heap_push plan_less (p'\<lparr>bpNextFire := nextWake_beacon u gps p' now\<rparr>) h\<rparr>"
proof (cases "scHeap t = []")
  case True
  show ?thesis by (rule idle) (use assms True in \<open>simp_all add: sched_act_def\<close>)
next
  case False
  show ?thesis
  proof (cases "now < bpNextFire (scHeap t ! 0)")
    case True
    show ?thesis by (rule sleep) (use assms True False in \<open>auto simp: sched_act_def\<close>)
  next
    case on_time: False
    obtain p h where p: "heap_pop plan_less (scHeap t) = Some (p, h)" using False by (cases "heap_pop plan_less (scHeap t)") auto
    obtain e p' u where f: "fire_due gps p now (t\<lparr>scHeap := h\<rparr>) = (e, p', u)" by (cases "fire_due gps p now (t\<lparr>scHeap := h\<rparr>)") auto
    have h: "scHeap u = h" using fire_due_cfg[OF f] by simp
    have "evs = e" "s' = u\<lparr>scHeap := heap_push plan_less (p'\<lparr>bpNextFire := nextWake_beacon u gps p' now\<rparr>) h\<rparr>"
      using assms False on_time p f h by (simp_all add: sched_act_def Let_def)
    then show ?thesis using due[of p h p' u] on_time p f by simp
  qed
qed

lemma turn_inv: "sched_inv s \<Longrightarrow> sched_turn gps now s = (evs, s') \<Longrightarrow> sched_inv s' \<and> \<not> scReload s' \<and> scBeacons s' = scBeacons s"
proof -
  assume inv: "sched_inv s" and turn: "sched_turn gps now s = (evs, s')"
  let ?t = "take_reload now s"
  have t: "sched_inv ?t" "\<not> scReload ?t" "scBeacons ?t = scBeacons s"
    using inv buildHeap_inv[of s now] by (auto simp: take_reload_def sched_inv_def buildHeap_def)
  from turn have "sched_act gps now ?t = (evs, s')" by (simp add: sched_turn_def)
  then show ?thesis
  proof (cases rule: act_cases)
    case (due p h p' u)
    have f: "bpCfg p' = bpCfg p" "scBeacons u = scBeacons ?t" "scReload u = scReload ?t" "scMaxFires u = scMaxFires ?t" "scBusy u \<le> scMaxFires u"
      using fire_due_cfg[OF due(3)] t(1) by (simp_all add: sched_inv_def)
    have h: "plans.is_heap h" "mset (scHeap ?t) = add_mset p (mset h)"
      using plans.is_heap_pop[OF _ due(2)] heap_pop_Some(3)[OF due(2)] t(1) by (simp_all add: sched_inv_def)
    show ?thesis using due(4) f h t plans.is_heap_push[OF h(1)] by (auto simp: sched_inv_def)
  qed (use t in simp_all)
qed

end
