(* ===== verification/BCN_Timing.thy ===== *)
theory BCN_Timing
  imports BCN_Schedule
begin

text \<open>
  What holds of the beacon schedule (\<^verbatim>\<open>pkg/beacon/scheduler.go\<close>) in every state its operations reach: nothing is overslept,
  nothing is sent too often, and slots are met.
\<close>

section \<open>Reachable schedules\<close>

definition is_reload :: "sched_op \<Rightarrow> bool" where
  "is_reload op \<longleftrightarrow> (case op of SchedReload _ \<Rightarrow> True | _ \<Rightarrow> False)"

lemma step_inv: "sched_inv s \<Longrightarrow> sched_inv (snd (sched_step op s))"
proof (cases op)
  case (SchedTurn now gps)
  then show "sched_inv s \<Longrightarrow> ?thesis" using turn_inv[of s gps now] by (cases "sched_turn gps now s") auto
qed (auto simp: sched_inv_def Reload_beacons_def SetBeacons_def worker_done_def)

lemma run_inv: "sched_inv s \<Longrightarrow> sched_inv (snd (sched_run ops s))"
proof (induction ops arbitrary: s)
  case (Cons op ops)
  then show ?case using step_inv[of s op] by (auto split: prod.splits) (metis snd_conv)
qed simp

lemma New_scheduler_inv: "sched_inv (buildHeap now (SetBeacons bs (New_scheduler m c z)))"
  by (rule buildHeap_inv) (simp add: SetBeacons_def New_scheduler_def)

text \<open>
  Property C38. Whatever was reloaded, fired and skipped before: when the run loop goes to sleep, it sleeps exactly until the
  first of the enabled beacons is due, each of which is scheduled once.
\<close>

theorem nothing_overslept:
  assumes "s = snd (sched_run ops (buildHeap t0 (SetBeacons bs (New_scheduler m c z))))" "sched_turn gps now s = ([Sleep w], s')"
  shows "0 < w \<and> (\<exists>p \<in> set (scHeap s'). bpNextFire p = now + w) \<and> list_all (\<lambda>p. now + w \<le> bpNextFire p) (scHeap s')
    \<and> image_mset bpCfg (mset (scHeap s')) = mset (filter bnEnabled (scBeacons s))"
proof -
  have inv: "sched_inv s" unfolding assms(1) by (rule run_inv[OF New_scheduler_inv])
  have post: "sched_inv s'" "\<not> scReload s'" "scBeacons s' = scBeacons s" using turn_inv[OF inv assms(2)] by simp_all
  from assms(2) have "sched_act gps now (take_reload now s) = ([Sleep w], s')" by (simp add: sched_turn_def)
  then show ?thesis
  proof (cases rule: act_cases)
    case sleep
    let ?h = "scHeap s'"
    have h: "?h \<noteq> []" "w = bpNextFire (?h ! 0) - now" "now < bpNextFire (?h ! 0)" using sleep by simp_all
    have "bpNextFire (?h ! 0) \<le> bpNextFire p" if "p \<in> set ?h" for p
      using plans.heap_head_least[OF _ h(1) that] post(1) by (auto simp: sched_inv_def plans.le_def plan_less_def split: if_splits)
    then show ?thesis using h post by (auto simp: list_all_iff sched_inv_def intro!: bexI[of _ "?h ! 0"])
  next
    case (due p h p' u)
    then show ?thesis by (auto simp: fire_due_def fireAsync_def Let_def split: if_splits)
  qed simp
qed

section \<open>The interval between two transmissions\<close>

definition every_of :: "beacon_config \<Rightarrow> int" where
  "every_of cfg = (if bnEvery cfg \<le> 0 then 600 * sec else bnEvery cfg)"

text \<open>The times at which a beacon was handed to a worker or dropped because none was free.\<close>

definition attempts :: "beacon_config \<Rightarrow> (int \<times> sched_event) list \<Rightarrow> int list" where
  "attempts cfg tr = map fst (filter (\<lambda>(_, e). e = Fired cfg \<or> e = SkippedBusy cfg) tr)"

definition due_from :: "int \<Rightarrow> beacon_config \<Rightarrow> scheduler \<Rightarrow> bool" where
  "due_from d cfg s \<longleftrightarrow> (\<forall>p \<in> set (scHeap s). bpCfg p = cfg \<longrightarrow> d \<le> bpNextFire p)"

lemma attempts_append: "attempts cfg (xs @ ys) = attempts cfg xs @ attempts cfg ys"
  by (simp add: attempts_def)

text \<open>A turn: an attempt happens no earlier than the plan was due, and the next is an interval away.\<close>

lemma turn_attempts:
  assumes "sched_inv s" "\<not> scReload s" "distinct (filter bnEnabled (scBeacons s))" "\<not> isSmart s cfg" "due_from d cfg s"
    "sched_turn gps now s = (evs, s')"
  shows "isSmart s' = isSmart s \<and> (attempts cfg (map (Pair now) evs) = [] \<and> due_from d cfg s'
    \<or> attempts cfg (map (Pair now) evs) = [now] \<and> d \<le> now \<and> due_from (now + every_of cfg) cfg s')"
proof -
  have "sched_act gps now s = (evs, s')" using assms(2,6) by (simp add: sched_turn_def take_reload_def)
  then show ?thesis
  proof (cases rule: act_cases)
  case (due p h p' u)
  note pop = due(2) due(1)
  have f: "bpCfg p' = bpCfg p" "scHasCache u = scHasCache s" using fire_due_cfg[OF due(3)] by simp_all
  have smart: "isSmart u = isSmart s" "isSmart s' = isSmart s" using f(2) due(4) by (auto simp: isSmart_def fun_eq_iff)
  have mem: "mset (scHeap s) = add_mset p (mset h)" by (rule heap_pop_Some(3)[OF pop(1)])
  have head: "scHeap s ! 0 = p" using heap_pop_Some(2)[OF pop(1)] by simp
  have heap: "set (scHeap s') = insert (p'\<lparr>bpNextFire := nextWake_beacon u gps p' now\<rparr>) (set h)" using due(4) by simp
  show ?thesis
  proof (cases "bpCfg p = cfg")
    case True
    have "count (image_mset bpCfg (mset (scHeap s))) cfg \<le> 1"
      using assms(1-3) by (simp add: sched_inv_def distinct_count_atmost_1)
    then have "count (image_mset bpCfg (mset h)) cfg = 0" using mem True by simp
    then have others: "bpCfg q \<noteq> cfg" if "q \<in> set h" for q using that by (auto simp: count_eq_zero_iff)
    have ev: "evs = [Fired cfg] \<or> evs = [SkippedBusy cfg]"
      using due(3) assms(4) True by (auto simp: fire_due_def shouldFire_def fireAsync_def isSmart_def Let_def split: if_splits)
    have wake: "nextWake_beacon u gps p' now = now + every_of cfg"
      using f True smart assms(4) by (simp add: nextWake_beacon_def every_of_def)
    have "p \<in> set (scHeap s)" using mem by (metis set_mset_mset union_single_eq_member)
    then have "d \<le> now" using assms(5) True pop(2) head by (auto simp: due_from_def)
    then show ?thesis using ev wake others heap smart(2) by (auto simp: attempts_def due_from_def)
  next
    case False
    have ev: "Fired cfg \<notin> set evs" "SkippedBusy cfg \<notin> set evs"
      using due(3) False by (auto simp: fire_due_def fireAsync_def Let_def split: if_splits)
    then have "attempts cfg (map (Pair now) evs) = []" by (auto simp: attempts_def filter_empty_conv)
    moreover have "due_from d cfg s'" using assms(5) heap False f(1) set_heap_pop[OF pop(1)] by (auto simp: due_from_def)
    ultimately show ?thesis using smart(2) by blast
  qed
  qed (use assms in \<open>auto simp: attempts_def\<close>)
qed

lemma run_attempts:
  assumes "sched_inv s" "\<not> scReload s" "distinct (filter bnEnabled (scBeacons s))" "\<not> isSmart s cfg" "due_from d cfg s"
    "list_all (\<lambda>op. \<not> is_reload op) ops"
  shows "sorted_wrt (\<lambda>t u. t + every_of cfg \<le> u) (attempts cfg (fst (sched_run ops s)))
    \<and> list_all (\<lambda>t. d \<le> t) (attempts cfg (fst (sched_run ops s)))"
  using assms
proof (induction ops arbitrary: s d)
  case Nil
  then show ?case by (simp add: attempts_def)
next
  case (Cons op ops)
  show ?case
  proof (cases op)
    case (SchedReload bs)
    then show ?thesis using Cons.prems(6) by (simp add: is_reload_def)
  next
    case SchedWorkerDone
    let ?s = "worker_done s"
    have w: "sched_inv ?s" "\<not> scReload ?s" "scBeacons ?s = scBeacons s" "isSmart ?s cfg = isSmart s cfg" "due_from d cfg ?s"
      using Cons.prems by (auto simp: worker_done_def sched_inv_def isSmart_def due_from_def)
    show ?thesis using Cons.IH[OF w(1,2) _ _ w(5)] Cons.prems w SchedWorkerDone by (auto split: prod.splits simp: attempts_def)
  next
    case (SchedTurn now gps)
    obtain evs s1 where turn: "sched_turn gps now s = (evs, s1)" by fastforce
    have post: "sched_inv s1" "\<not> scReload s1" "scBeacons s1 = scBeacons s" using turn_inv[OF Cons.prems(1) turn] by simp_all
    have run: "attempts cfg (fst (sched_run (op # ops) s)) = attempts cfg (map (Pair now) evs) @ attempts cfg (fst (sched_run ops s1))"
      using turn SchedTurn by (auto simp: attempts_append split: prod.splits)
    have IH: "sorted_wrt (\<lambda>t u. t + every_of cfg \<le> u) (attempts cfg (fst (sched_run ops s1)))
        \<and> list_all (\<lambda>t. d' \<le> t) (attempts cfg (fst (sched_run ops s1)))" if "due_from d' cfg s1" "isSmart s1 = isSmart s" for d'
      using Cons.IH[OF post(1,2) _ _ that(1)] post(3) Cons.prems that(2) by simp
    have pos: "0 < every_of cfg" by (simp add: every_of_def)
    from turn_attempts[OF Cons.prems(1-5) turn]
    have smart: "isSmart s1 = isSmart s" and
      cases: "attempts cfg (map (Pair now) evs) = [] \<and> due_from d cfg s1
        \<or> attempts cfg (map (Pair now) evs) = [now] \<and> d \<le> now \<and> due_from (now + every_of cfg) cfg s1" by simp_all
    from cases show ?thesis
    proof (elim disjE conjE)
      assume "attempts cfg (map (Pair now) evs) = []" "due_from d cfg s1"
      then show ?thesis using run IH smart by simp
    next
      assume a: "attempts cfg (map (Pair now) evs) = [now]" "d \<le> now" "due_from (now + every_of cfg) cfg s1"
      then show ?thesis using run IH[OF a(3) smart] pos by (auto simp: list_all_iff)
    qed
  qed
qed

text \<open>
  Property C39. Between two reloads of the configuration a beacon that is not driven by its speed is attempted no more often
  than its interval allows, whenever the run loop is scheduled and whatever the other beacons do.
\<close>

theorem beacon_not_too_often:
  assumes "s = buildHeap t0 (SetBeacons bs (New_scheduler m c z))" "distinct (filter bnEnabled bs)" "\<not> isSmart s cfg"
    "list_all (\<lambda>op. \<not> is_reload op) ops"
  shows "sorted_wrt (\<lambda>t u. t + every_of cfg \<le> u) (attempts cfg (fst (sched_run ops s)))"
proof -
  have s: "sched_inv s" "\<not> scReload s" "scBeacons s = bs"
    using assms(1) New_scheduler_inv by (auto simp: buildHeap_def SetBeacons_def)
  have "\<exists>d. due_from d cfg s"
  proof -
    have "finite (bpNextFire ` set (scHeap s))" by simp
    then have "\<forall>p \<in> set (scHeap s). Min (bpNextFire ` set (scHeap s)) \<le> bpNextFire p" by (auto intro: Min_le)
    then show ?thesis unfolding due_from_def by blast
  qed
  then show ?thesis using run_attempts[of s cfg _ ops] s assms by auto
qed

section \<open>Slots\<close>

text \<open>
  A beacon with a slot first becomes due, within an hour, at the instant that lies exactly the slot's
  seconds past an hour of the station's time zone.
\<close>

theorem slot_met:
  assumes "0 \<le> bnSlot cfg" "bnSlot cfg < 3600"
  shows "now < initialFire zone cfg now \<and> initialFire zone cfg now \<le> now + 3600 * sec
    \<and> initialFire zone cfg now mod sec = 0 \<and> (initialFire zone cfg now div sec + zone) mod 3600 = bnSlot cfg"
proof -
  let ?n = "now div sec" and ?slot = "bnSlot cfg"
  define h where "h = (?n + zone) mod 3600"
  define diff where "diff = (if ?slot - h \<le> 0 then ?slot - h + 3600 else ?slot - h)"
  have h: "0 \<le> h" "h < 3600" by (simp_all add: h_def)
  then have d: "0 < diff" "diff \<le> 3600" using assms by (auto simp: diff_def)
  have now: "now = ?n * sec + now mod sec" "0 \<le> now mod sec" "now mod sec < sec" by simp_all
  have "timeToNextSlot zone now ?slot = diff * sec - now mod sec"
    using assms by (simp add: timeToNextSlot_def Let_def diff_def h_def)
  moreover have "0 < diff * sec - now mod sec" using d now(3) by linarith
  ultimately have "initialFire zone cfg now = now + (diff * sec - now mod sec)" using assms by (simp add: initialFire_def Let_def)
  then have f: "initialFire zone cfg now = (?n + diff) * sec" using now(1) by (simp only: distrib_right)
  have "(?n + diff + zone) mod 3600 = (h + diff) mod 3600" by (simp add: h_def mod_simps algebra_simps)
  also have "\<dots> = ?slot" using assms h by (auto simp: diff_def)
  finally have "(?n + diff + zone) mod 3600 = ?slot" .
  moreover have "now < (?n + diff) * sec" "(?n + diff) * sec \<le> now + 3600 * sec"
    using d now unfolding distrib_right by linarith+
  ultimately show ?thesis by (simp add: f)
qed

text \<open>Only the first transmission meets the slot: the next ones are an interval after the turn that handled the last.\<close>

section \<open>Dropped fires\<close>

text \<open>
  A fire that is dropped because every worker is busy counts as sent: the plan remembers its time as that of the last
  transmission, and a speed-driven beacon waits a whole interval for the next one.
\<close>

lemma dropped_fire_counts_as_sent:
  assumes "scBusy s = scMaxFires s" "shouldFire s gps p now"
  shows "\<exists>p'. fire_due gps p now s = ([SkippedBusy (bpCfg p)], p', s) \<and> bpLastSent p' = now"
  using assms by (simp add: fire_due_def fireAsync_def Let_def)

section \<open>Concrete instances\<close>

definition example_beacon :: "u32 \<Rightarrow> int \<Rightarrow> beacon_config" where
  "example_beacon i slot = \<lparr>bnID = i, bnType = TypeCustom, bnChannel = 1, bnSource = \<lparr>Call = ''N0CALL'', SSID = 0, Repeated = False\<rparr>,
     bnDest = \<lparr>Call = ''APGRWO'', SSID = 0, Repeated = False\<rparr>, bnPath = [], bnDelay = 0, bnEvery = 60 * sec, bnSlot = slot, bnUseGps = False,
     bnLat = 0, bnLon = 0, bnAltFt = 0, bnComment = [], bnCommentCmd = [], bnFormat = [], bnAmbiguity = 0, bnMessaging = False,
     bnObjectName = [], bnCustomInfo = ''hello'', bnSmart = None, bnPHGPower = 0, bnEnabled = True, bnSendPath = []\<rparr>"

definition example_schedule :: scheduler where
  "example_schedule = buildHeap 0 (SetBeacons [example_beacon 1 (-1)] (New_scheduler 0 False 0))"

definition example_sched_ops :: "sched_op list" where
  "example_sched_ops = [SchedTurn 0 None, SchedTurn sec None, SchedWorkerDone, SchedTurn (60 * sec) None]"

lemma example_schedule_heap:
  "scHeap example_schedule = [\<lparr>bpCfg = example_beacon 1 (-1), bpNextFire = 0, bpLastSent = 0, bpLastHeading = 0, bpHasHeading = False\<rparr>]"
  by (simp add: example_schedule_def buildHeap_def SetBeacons_def New_scheduler_def heap_init_def initialFire_def example_beacon_def)

theorem beacon_not_too_often_witness:
  "attempts (example_beacon 1 (-1)) (fst (sched_run example_sched_ops example_schedule)) = [0, 60 * sec]
   \<and> sorted_wrt (\<lambda>t u. t + 60 * sec \<le> u) (attempts (example_beacon 1 (-1)) (fst (sched_run example_sched_ops example_schedule)))"
proof -
  have d: "distinct (filter bnEnabled [example_beacon 1 (-1)])" by simp
  have sm: "\<not> isSmart example_schedule (example_beacon 1 (-1))" by (simp add: isSmart_def example_beacon_def)
  have ops: "list_all (\<lambda>op. \<not> is_reload op) example_sched_ops" by (simp add: example_sched_ops_def is_reload_def)
  have e: "every_of (example_beacon 1 (-1)) = 60 * sec" by (simp add: every_of_def example_beacon_def)
  have a: "attempts (example_beacon 1 (-1)) (fst (sched_run example_sched_ops example_schedule)) = [0, 60 * sec]"
    by code_simp
  show ?thesis using beacon_not_too_often[OF example_schedule_def d sm ops] e a by simp
qed

theorem slot_met_witness: "initialFire 0 (example_beacon 1 90) (100 * sec) = 3690 * sec \<and> (3690 :: int) mod 3600 = bnSlot (example_beacon 1 90)"
proof -
  have s: "0 \<le> bnSlot (example_beacon 1 90)" "bnSlot (example_beacon 1 90) < 3600" by (simp_all add: example_beacon_def)
  have f: "initialFire 0 (example_beacon 1 90) (100 * sec) = 3690 * sec"
    by (simp add: initialFire_def timeToNextSlot_def example_beacon_def)
  show ?thesis using slot_met[OF s, of "100 * sec" 0] f by simp
qed

theorem nothing_overslept_witness:
  "\<exists>p \<in> set (scHeap example_schedule). bpNextFire p = - 5 + 5"
proof -
  have s: "example_schedule = snd (sched_run [] (buildHeap 0 (SetBeacons [example_beacon 1 (-1)] (New_scheduler 0 False 0))))"
    by (simp add: example_schedule_def)
  have r: "scReload example_schedule = False" by (simp add: example_schedule_def buildHeap_def)
  have t: "sched_turn None (-5) example_schedule = ([Sleep 5], example_schedule)"
    by (simp add: sched_turn_def sched_act_def take_reload_def r example_schedule_heap)
  show ?thesis using nothing_overslept[OF s t] by blast
qed

end
