(* ===== verification/BCN_Send.thy ===== *)
theory BCN_Send
  imports BCN_Schedule TX_Governor APRS_Packet Go_Text
begin

text \<open>
  Sending a beacon (\<^verbatim>\<open>pkg/beacon/scheduler.go\<close>, \<^verbatim>\<open>builder.go\<close>, \<^verbatim>\<open>template.go\<close>, \<^verbatim>\<open>commentcmd.go\<close>,
  \<^verbatim>\<open>sendnow_error.go\<close>): the command line of a dynamic comment, the information field, and the two legs of a
  transmission. The encoders of positions and objects, which compute in floating point, the template engine, the outcome of
  the command, the governor and the gateway are arguments.
\<close>

section \<open>Command lines\<close>

record argv_state =
  asArgs :: "string list"
  asCur :: string
  asSingle :: bool
  asDouble :: bool
  asEscaped :: bool
  asToken :: bool

definition argv_flush :: "argv_state \<Rightarrow> argv_state" where
  "argv_flush st = (if asToken st then st\<lparr>asArgs := asArgs st @ [asCur st], asCur := [], asToken := False\<rparr> else st)"

definition argv_write :: "string \<Rightarrow> argv_state \<Rightarrow> argv_state" where
  "argv_write r st = st\<lparr>asCur := asCur st @ r, asToken := True\<rparr>"

text \<open>One rune of the command line.\<close>

definition argv_step :: "string \<Rightarrow> argv_state \<Rightarrow> argv_state" where
  "argv_step r st =
     (if asEscaped st then (argv_write r st)\<lparr>asEscaped := False\<rparr>
      else if r = [CHR 0x5C] \<and> \<not> asSingle st then st\<lparr>asEscaped := True\<rparr>
      else if r = [CHR 0x27] \<and> \<not> asDouble st then st\<lparr>asSingle := \<not> asSingle st, asToken := True\<rparr>
      else if r = [CHR 0x22] \<and> \<not> asSingle st then st\<lparr>asDouble := \<not> asDouble st, asToken := True\<rparr>
      else if space_len r \<noteq> 0 \<and> \<not> asSingle st \<and> \<not> asDouble st then argv_flush st
      else argv_write r st)"

definition argv_start :: argv_state where
  "argv_start = \<lparr>asArgs = [], asCur = [], asSingle = False, asDouble = False, asEscaped = False, asToken = False\<rparr>"

definition SplitArgv :: "string \<Rightarrow> string + string list" where
  "SplitArgv s =
     (let st = fold argv_step (runes s) argv_start in
      if asSingle st \<or> asDouble st then Inl ''beacon: unterminated quote in comment_cmd''
      else if asEscaped st then Inl ''beacon: trailing backslash in comment_cmd''
      else Inr (asArgs (argv_flush st)))"

text \<open>The command's output becomes one line; without a success there is none.\<close>

definition RunCommentCmd :: "(string list \<Rightarrow> string option) \<Rightarrow> string list \<Rightarrow> string option" where
  "RunCommentCmd run argv =
     (if argv = [] then None
      else map_option (\<lambda>out. filter (\<lambda>c. c \<noteq> CHR 0x0D) (map (\<lambda>c. if c = CHR 0x0A then CHR 0x20 else c) (trim_space out))) (run argv))"

section \<open>The information field\<close>

record position_encoders =
  peCompressed :: "rat \<Rightarrow> rat \<Rightarrow> int \<Rightarrow> rat \<Rightarrow> rat \<Rightarrow> beacon_config \<Rightarrow> string \<Rightarrow> string \<Rightarrow> string"
  peUncompressed :: "rat \<Rightarrow> rat \<Rightarrow> int \<Rightarrow> rat \<Rightarrow> rat \<Rightarrow> beacon_config \<Rightarrow> string \<Rightarrow> string \<Rightarrow> int \<Rightarrow> string"
  peMicE :: "rat \<Rightarrow> rat \<Rightarrow> int \<Rightarrow> rat \<Rightarrow> rat \<Rightarrow> beacon_config \<Rightarrow> int \<Rightarrow> string \<Rightarrow> string"
  peObject :: "string \<Rightarrow> rat \<Rightarrow> rat \<Rightarrow> rat \<Rightarrow> beacon_config \<Rightarrow> string \<Rightarrow> string \<Rightarrow> string"
  peMicEDest :: "rat \<Rightarrow> rat \<Rightarrow> int \<Rightarrow> string"
  pePHG :: "beacon_config \<Rightarrow> string option"

record beacon_env =
  beEncoders :: position_encoders
  beGps :: "gps_fix option option"
  beVersion :: string
  beExpand :: "string \<Rightarrow> string \<Rightarrow> string option"
  beRun :: "string list \<Rightarrow> string option"
  beMode :: "(u32 \<Rightarrow> string) option"
  beSubmit :: "u32 \<Rightarrow> frame \<Rightarrow> submit_source \<Rightarrow> gov_err option"
  beIS :: "(string \<Rightarrow> string option) option"

definition has_braces :: "string \<Rightarrow> bool" where
  "has_braces s \<longleftrightarrow> list_ex (\<lambda>n. has_prefix (drop n s) ''{{'') [0..<length s]"

definition ExpandComment :: "beacon_env \<Rightarrow> string \<Rightarrow> string" where
  "ExpandComment e c = (if \<not> has_braces c then c else case beExpand e c (beVersion e) of Some t \<Rightarrow> t | None \<Rightarrow> c)"

definition beacon_comment :: "beacon_env \<Rightarrow> beacon_config \<Rightarrow> string" where
  "beacon_comment e b =
     (let c = ExpandComment e (bnComment b) in
      if bnCommentCmd b = [] then c
      else case RunCommentCmd (beRun e) (bnCommentCmd b) of
        None \<Rightarrow> c
      | Some out \<Rightarrow> if out = [] then c else if c \<noteq> [] then c @ '' '' @ out else out)"

text \<open>The position of a fixed beacon, from the cache when it is told to use it.\<close>

definition fixed_position :: "beacon_env \<Rightarrow> beacon_config \<Rightarrow> string \<Rightarrow> string + (rat \<times> rat \<times> rat)" where
  "fixed_position e b what =
     (if bnUseGps b then
        (case beGps e of
           None \<Rightarrow> Inl (what @ '' beacon: use_gps set but no GPS cache configured'')
         | Some None \<Rightarrow> Inl (what @ '' beacon: use_gps set but no GPS fix available'')
         | Some (Some f) \<Rightarrow> Inr (gfLatitude f, gfLongitude f, if gfHasAlt f then gfAltitude f else 0))
      else if bnLat b = 0 \<and> bnLon b = 0 then
        Inl (what @ '' beacon: fixed coordinates are 0/0 (configure lat/lon or enable use_gps)'')
      else Inr (bnLat b, bnLon b, bnAltFt b / (328084 / 100000)))"

definition encode_position :: "position_encoders \<Rightarrow> beacon_config \<Rightarrow> int \<Rightarrow> string \<Rightarrow> rat \<times> rat \<times> rat \<Rightarrow> int \<Rightarrow> rat \<Rightarrow> string \<Rightarrow> string \<Rightarrow> string + string" where
  "encode_position en b amb what pos course speed phg comment =
     (case pos of (lat, lon, alt) \<Rightarrow>
        if bnFormat b = ''compressed'' \<or> bnFormat b = [] then Inr (peCompressed en lat lon course speed alt b phg comment)
        else if bnFormat b = ''uncompressed'' then Inr (peUncompressed en lat lon course speed alt b phg comment amb)
        else if bnFormat b = ''mic_e'' then Inr (peMicE en lat lon course speed alt b amb comment)
        else Inl (what @ '' beacon: unknown position_format '' @ quoted (bnFormat b)))"

definition buildInfo :: "beacon_env \<Rightarrow> beacon_config \<Rightarrow> string + string" where
  "buildInfo e b =
     (let amb = (if bnAmbiguity b > 4 then 4 else bnAmbiguity b);
          comment = beacon_comment e b;
          phg = (if bnPHGPower b > 0 then (case pePHG (beEncoders e) b of Some p \<Rightarrow> p | None \<Rightarrow> []) else []);
          what = beacon_type_string (bnType b)
      in case bnType b of
        TypeTracker \<Rightarrow>
          (case beGps e of
             None \<Rightarrow> Inl ''tracker beacon without GPS cache''
           | Some None \<Rightarrow> Inl ''tracker beacon: no GPS fix available''
           | Some (Some f) \<Rightarrow>
               let course = (if gfHasCourse f then (if \<lfloor>gfHeading f\<rfloor> = 0 then 360 else \<lfloor>gfHeading f\<rfloor>) else 0);
                   alt = (if gfHasAlt f then gfAltitude f else 0)
               in encode_position (beEncoders e) b amb what (gfLatitude f, gfLongitude f, alt) course (gfSpeed f) [] comment)
      | TypeObject \<Rightarrow>
          if bnObjectName b = [] then Inl ''object beacon missing object_name''
          else try_bind (fixed_position e b what) (\<lambda>(lat, lon, alt). Inr (peObject (beEncoders e) (bnObjectName b) lat lon alt b phg comment))
      | TypeCustom \<Rightarrow>
          if bnCustomInfo b = [] then Inl ''custom beacon missing info field'' else Inr (bnCustomInfo b @ comment)
      | _ \<Rightarrow> try_bind (fixed_position e b what) (\<lambda>pos. encode_position (beEncoders e) b amb what pos 0 0 phg comment))"

section \<open>Transmission\<close>

datatype send_now_kind = SendNowBuild | SendNowEncode | SendNowChannelMode | SendNowSubmit

definition send_now_string :: "send_now_kind \<Rightarrow> string" where
  "send_now_string k = (case k of SendNowBuild \<Rightarrow> ''build'' | SendNowEncode \<Rightarrow> ''encode'' | SendNowChannelMode \<Rightarrow> ''channel_mode'' | SendNowSubmit \<Rightarrow> ''submit'')"

datatype beacon_effect =
    BSubmitted u32 frame submit_source | BLine string | BPlotted frame u32
  | BSkipped string string | BEncodeError string | BSubmitError string string | BSent beacon_type

definition beaconName :: "beacon_config \<Rightarrow> string" where
  "beaconName b =
     (if bnType b = TypeObject \<and> bnObjectName b \<noteq> [] then bnObjectName b
      else beacon_type_string (bnType b) @ ''/'' @ dec_string (unat (bnID b)))"

definition classifySubmitError :: "gov_err \<Rightarrow> string" where
  "classifySubmitError err = (case err of ErrContext \<Rightarrow> ''timeout'' | ErrQueueFull \<Rightarrow> ''queue_full'' | _ \<Rightarrow> ''other'')"

text \<open>The destination of a Mic-E position carries the latitude.\<close>

definition beacon_dest :: "beacon_env \<Rightarrow> beacon_config \<Rightarrow> ax25_err + address" where
  "beacon_dest e b =
     (if bnFormat b = ''mic_e'' \<and> (bnType b = TypePosition \<or> bnType b = TypeIGate \<or> bnType b = TypeTracker)
      then let (lat, lon) = (case (bnUseGps b, beGps e) of (True, Some (Some f)) \<Rightarrow> (gfLatitude f, gfLongitude f) | _ \<Rightarrow> (bnLat b, bnLon b))
           in ParseAddress (peMicEDest (beEncoders e) lat lon (bnAmbiguity b))
      else Inr (bnDest b))"

definition sends_rf :: "beacon_config \<Rightarrow> bool" where
  "sends_rf b \<longleftrightarrow> bnSendPath b \<noteq> ''is_only''"

definition sends_is :: "beacon_config \<Rightarrow> bool" where
  "sends_is b \<longleftrightarrow> bnSendPath b = ''both'' \<or> bnSendPath b = ''is_only''"

definition beacon_source :: "beacon_config \<Rightarrow> bool \<Rightarrow> submit_source" where
  "beacon_source b skip = \<lparr>ssKind = ''beacon'', ssDetail = beacon_type_string (bnType b) @ ''/'' @ dec_string (unat (bnID b)),
     ssPriority = PriorityBeacon, ssSkipDedup = skip\<rparr>"

text \<open>The APRS-IS leg: an error counts only when it is the only leg.\<close>

definition is_leg :: "beacon_env \<Rightarrow> beacon_config \<Rightarrow> address \<Rightarrow> string \<Rightarrow> frame \<Rightarrow> bool \<times> beacon_effect list" where
  "is_leg e b dest info f =
     (if \<not> sends_is b then (True, [])
      else case beIS e of
        None \<Rightarrow> (sends_rf b, [])
      | Some send \<Rightarrow>
          let line = FormatTNC2 (address_string (bnSource b)) (address_string dest) [''TCPIP*''] (bytes_of info) in
          (case send line of
             Some _ \<Rightarrow> (sends_rf b, [])
           | None \<Rightarrow> (True, [BLine line, BPlotted f (bnChannel b)])))"

definition transmit_beacon :: "beacon_env \<Rightarrow> beacon_config \<Rightarrow> bool \<Rightarrow> address \<Rightarrow> string \<Rightarrow> frame \<Rightarrow> send_now_kind option \<times> beacon_effect list" where
  "transmit_beacon e b skip dest info f =
     (let rf = (if sends_rf b then beSubmit e (bnChannel b) f (beacon_source b skip) else None) in
      case rf of
        Some err \<Rightarrow> (Some SendNowSubmit, [BSubmitError (beaconName b) (classifySubmitError err)])
      | None \<Rightarrow>
          let sub = (if sends_rf b then [BSubmitted (bnChannel b) f (beacon_source b skip)] else []);
              (ok, is) = is_leg e b dest info f
          in if \<not> ok then (Some SendNowSubmit, sub @ is)
             else (None, sub @ is @ (if sub @ is \<noteq> [] then [BSent (bnType b)] else [])))"

definition sendBeaconWith :: "beacon_env \<Rightarrow> beacon_config \<Rightarrow> bool \<Rightarrow> send_now_kind option \<times> beacon_effect list" where
  "sendBeaconWith e b skip =
     (if (case beMode e of Some mode \<Rightarrow> mode (bnChannel b) = ''packet'' | None \<Rightarrow> False)
      then (Some SendNowChannelMode, [BSkipped (beaconName b) ''packet_mode''])
      else case buildInfo e b of
        Inl _ \<Rightarrow> (Some SendNowBuild, [])
      | Inr info \<Rightarrow>
          (case beacon_dest e b of
             Inl _ \<Rightarrow> (Some SendNowEncode, [BEncodeError (beaconName b)])
           | Inr dest \<Rightarrow>
               (case NewUIFrame (bnSource b) dest (bnPath b) (bytes_of info) of
                  Inl _ \<Rightarrow> (Some SendNowEncode, [BEncodeError (beaconName b)])
                | Inr f \<Rightarrow> transmit_beacon e b skip dest info f)))"

text \<open>Sending on demand ignores whether the beacon is enabled and the duplicate window; an unknown beacon is an error of its own.\<close>

definition SendNow :: "beacon_env \<Rightarrow> u32 \<Rightarrow> beacon_config list \<Rightarrow> (send_now_kind option \<times> beacon_effect list) option" where
  "SendNow e i bs = map_option (\<lambda>b. sendBeaconWith e b True) (find (\<lambda>b. bnID b = i) bs)"

section \<open>A transmission is reported exactly when it happened\<close>

definition is_submission :: "beacon_effect \<Rightarrow> bool" where
  "is_submission x \<longleftrightarrow> (case x of BSubmitted _ _ _ \<Rightarrow> True | _ \<Rightarrow> False)"

definition is_line :: "beacon_effect \<Rightarrow> bool" where
  "is_line x \<longleftrightarrow> (case x of BLine _ \<Rightarrow> True | _ \<Rightarrow> False)"

lemmas leg_simps = is_leg_def transmit_beacon_def is_submission_def is_line_def sends_rf_def sends_is_def Let_def

lemma transmit_beacon_report:
  assumes "transmit_beacon e b skip dest info f = (err, xs)"
  shows "(err = None) = (list_ex is_submission xs \<or> list_ex is_line xs)
    \<and> (list_ex is_submission xs \<longrightarrow> sends_rf b) \<and> (list_ex is_line xs \<longrightarrow> sends_is b)"
  using assms by (auto simp: leg_simps split: option.splits if_splits)

text \<open>
  Property C40. Sending a beacon reports success exactly when it was handed to the governor or to APRS-IS; it uses the
  governor only when its path says so, APRS-IS only when its path says so, and on a channel in packet mode neither.
\<close>

theorem beacon_reported_iff_sent:
  assumes "sendBeaconWith e b skip = (err, xs)"
  shows "(err = None) = (list_ex is_submission xs \<or> list_ex is_line xs)
    \<and> (list_ex is_submission xs \<longrightarrow> bnSendPath b \<noteq> ''is_only'')
    \<and> (list_ex is_line xs \<longrightarrow> bnSendPath b = ''both'' \<or> bnSendPath b = ''is_only'')
    \<and> (\<forall>mode. beMode e = Some mode \<longrightarrow> mode (bnChannel b) = ''packet'' \<longrightarrow> err = Some SendNowChannelMode)"
proof (cases "\<exists>mode. beMode e = Some mode \<and> mode (bnChannel b) = ''packet''")
  case True
  then show ?thesis using assms by (auto simp: sendBeaconWith_def is_submission_def is_line_def)
next
  case False
  then have m: "\<not> (case beMode e of Some mode \<Rightarrow> mode (bnChannel b) = ''packet'' | None \<Rightarrow> False)" by (auto split: option.splits)
  show ?thesis
  proof (cases "\<exists>info dest f. buildInfo e b = Inr info \<and> beacon_dest e b = Inr dest \<and> NewUIFrame (bnSource b) dest (bnPath b) (bytes_of info) = Inr f")
    case True
    then obtain info dest f where "transmit_beacon e b skip dest info f = (err, xs)" using assms m by (auto simp: sendBeaconWith_def)
    then show ?thesis using transmit_beacon_report[of e b skip dest info f err xs] False by (auto simp: sends_rf_def sends_is_def)
  next
    case unsendable: False
    have "err \<noteq> None \<and> \<not> list_ex is_submission xs \<and> \<not> list_ex is_line xs"
    proof (cases "buildInfo e b")
      case (Inl x)
      then show ?thesis using assms m by (auto simp: sendBeaconWith_def)
    next
      case (Inr info)
      note built = this
      show ?thesis
      proof (cases "beacon_dest e b")
        case (Inl x)
        then show ?thesis using assms m built by (auto simp: sendBeaconWith_def is_submission_def is_line_def)
      next
        case (Inr dest)
        then have "\<forall>f. NewUIFrame (bnSource b) dest (bnPath b) (bytes_of info) \<noteq> Inr f" using unsendable built by blast
        then obtain x where "NewUIFrame (bnSource b) dest (bnPath b) (bytes_of info) = Inl x"
          by (cases "NewUIFrame (bnSource b) dest (bnPath b) (bytes_of info)") blast+
        then show ?thesis using assms m built Inr by (auto simp: sendBeaconWith_def is_submission_def is_line_def)
      qed
    qed
    then show ?thesis using False by auto
  qed
qed

text \<open>A beacon for both paths reaches APRS-IS only when the governor takes it: with a full queue it goes nowhere.\<close>

lemma both_needs_governor:
  assumes "bnSendPath b = ''both''" "beSubmit e (bnChannel b) f (beacon_source b skip) = Some err"
  shows "transmit_beacon e b skip dest info f = (Some SendNowSubmit, [BSubmitError (beaconName b) (classifySubmitError err)])"
  using assms by (simp add: transmit_beacon_def sends_rf_def)

text \<open>
  A tracker in Mic-E format takes its longitude from the receiver's fix, but unless it is also told to use GPS the latitude,
  which is in the destination, is the one configured.
\<close>

lemma tracker_latitude_not_from_fix:
  assumes "bnType b = TypeTracker" "bnFormat b = ''mic_e''" "\<not> bnUseGps b" "beGps e = Some (Some f)"
  shows "beacon_dest e b = ParseAddress (peMicEDest (beEncoders e) (bnLat b) (bnLon b) (bnAmbiguity b))
    \<and> (\<exists>course speed alt amb comment. buildInfo e b = Inr (peMicE (beEncoders e) (gfLatitude f) (gfLongitude f) course speed alt b amb comment))"
  using assms by (auto simp: beacon_dest_def buildInfo_def encode_position_def Let_def split del: if_split) (intro exI, rule refl)

section \<open>Command lines mean what they quote\<close>

definition single_quote :: string where "single_quote = [CHR 0x27]"

text \<open>Quoting as a shell does: between single quotes, a quote of its own closed, escaped and opened again.\<close>

definition quote_runes :: "string \<Rightarrow> string list" where
  "quote_runes a = single_quote # concat (map (\<lambda>r. if r = single_quote then [single_quote, [CHR 0x5C], single_quote, single_quote] else [r]) (runes a)) @ [single_quote]"

definition shell_quote :: "string \<Rightarrow> string" where
  "shell_quote a = concat (quote_runes a)"

definition command_line :: "string list \<Rightarrow> string" where
  "command_line args = concat (map (\<lambda>a. shell_quote a @ [CHR 0x20]) args)"

definition valid_utf8 :: "string \<Rightarrow> bool" where
  "valid_utf8 s \<longleftrightarrow> concat (runes s) = s"

lemma is_rune_char: "c \<in> {CHR 0x27, CHR 0x5C, CHR 0x20} \<Longrightarrow> is_rune [c]"
  using rune_len_ascii[of c] by (auto simp: is_rune_def is_ascii_def)

lemma quote_runes_are: "r \<in> set (quote_runes a) \<Longrightarrow> is_rune r"
  using runes_are_runes[of _ a] is_rune_char by (auto simp: quote_runes_def single_quote_def split: if_splits)

lemma runes_command_line: "runes (command_line args) = concat (map (\<lambda>a. quote_runes a @ [[CHR 0x20]]) args)"
proof (induction args)
  case (Cons a args)
  have "command_line (a # args) = concat (quote_runes a @ [[CHR 0x20]]) @ command_line args"
    by (simp add: command_line_def shell_quote_def)
  moreover have "runes (concat (quote_runes a @ [[CHR 0x20]]) @ command_line args) = (quote_runes a @ [[CHR 0x20]]) @ runes (command_line args)"
    by (rule runes_concat) (use quote_runes_are is_rune_char in \<open>auto simp: list_all_iff\<close>)
  ultimately show ?case using Cons by simp
qed (simp add: command_line_def)

definition in_quote :: "string list \<Rightarrow> string \<Rightarrow> argv_state" where
  "in_quote args cur = argv_start\<lparr>asArgs := args, asCur := cur, asSingle := True, asToken := True\<rparr>"

lemma argv_inside:
  "fold argv_step (concat (map (\<lambda>r. if r = single_quote then [single_quote, [CHR 0x5C], single_quote, single_quote] else [r]) rs)) (in_quote args cur)
   = in_quote args (cur @ concat rs)"
proof (induction rs arbitrary: cur)
  case (Cons r rs)
  show ?case
  proof (cases "r = single_quote")
    case True
    have "fold argv_step [single_quote, [CHR 0x5C], single_quote, single_quote] (in_quote args cur) = in_quote args (cur @ r)"
      by (simp add: True argv_step_def argv_write_def in_quote_def argv_start_def single_quote_def)
    then show ?thesis using Cons.IH[of "cur @ r"] True by simp
  next
    case False
    have "argv_step r (in_quote args cur) = in_quote args (cur @ r)"
      using False by (simp add: argv_step_def argv_write_def in_quote_def argv_start_def single_quote_def)
    then show ?thesis using Cons.IH[of "cur @ r"] False by simp
  qed
qed simp

lemma argv_quoted:
  assumes "valid_utf8 a"
  shows "fold argv_step (quote_runes a @ [[CHR 0x20]]) (argv_start\<lparr>asArgs := args\<rparr>) = argv_start\<lparr>asArgs := args @ [a]\<rparr>"
proof -
  have open_quote: "argv_step single_quote (argv_start\<lparr>asArgs := args\<rparr>) = in_quote args []"
    by (simp add: argv_step_def in_quote_def argv_start_def single_quote_def)
  have close_quote: "argv_step [CHR 0x20] (argv_step single_quote (in_quote args a)) = argv_start\<lparr>asArgs := args @ [a]\<rparr>"
    by (simp add: argv_step_def in_quote_def argv_start_def single_quote_def argv_flush_def space_len_def)
  show ?thesis using open_quote close_quote argv_inside[of "runes a" args "[]"] assms
    by (simp add: quote_runes_def valid_utf8_def)
qed

text \<open>
  A command line in which every argument is quoted as a shell quotes it is split into exactly those
  arguments, whatever blanks, quotes and backslashes they contain.
\<close>

theorem SplitArgv_quoted:
  assumes "list_all valid_utf8 args"
  shows "SplitArgv (command_line args) = Inr args"
proof -
  have "fold argv_step (concat (map (\<lambda>a. quote_runes a @ [[CHR 0x20]]) args)) (argv_start\<lparr>asArgs := done\<rparr>) = argv_start\<lparr>asArgs := done @ args\<rparr>" for "done"
    using assms
  proof (induction args arbitrary: "done")
    case (Cons a args)
    then show ?case using argv_quoted[of a "done"] by simp
  qed simp
  from this[of "[]"] have "fold argv_step (runes (command_line args)) argv_start = argv_start\<lparr>asArgs := args\<rparr>"
    by (simp add: runes_command_line argv_start_def)
  then show ?thesis by (simp add: SplitArgv_def argv_start_def argv_flush_def)
qed

theorem SplitArgv_quoted_witness:
  "SplitArgv (command_line [''say'', ''it'' @ [CHR 0x27] @ ''s  here'', []]) = Inr [''say'', ''it'' @ [CHR 0x27] @ ''s  here'', []]"
proof -
  have "list_all valid_utf8 [''say'', ''it'' @ [CHR 0x27] @ ''s  here'', []]"
    by code_simp
  then show ?thesis by (rule SplitArgv_quoted)
qed

section \<open>Concrete instances\<close>

definition example_beacon_env :: "(string \<Rightarrow> string option) option \<Rightarrow> beacon_env" where
  "example_beacon_env is = \<lparr>beEncoders = \<lparr>peCompressed = (\<lambda>_ _ _ _ _ _ _ c. c), peUncompressed = (\<lambda>_ _ _ _ _ _ _ c _. c),
       peMicE = (\<lambda>_ _ _ _ _ _ _ c. c), peObject = (\<lambda>_ _ _ _ _ _ c. c), peMicEDest = (\<lambda>_ _ _. []), pePHG = (\<lambda>_. None)\<rparr>,
     beGps = None, beVersion = [], beExpand = (\<lambda>_ _. None), beRun = (\<lambda>_. None), beMode = None,
     beSubmit = (\<lambda>_ _ _. Some ErrQueueFull), beIS = is\<rparr>"

definition example_is_beacon :: beacon_config where
  "example_is_beacon = \<lparr>bnID = 1, bnType = TypeCustom, bnChannel = 1, bnSource = \<lparr>Call = ''N0CALL'', SSID = 0, Repeated = False\<rparr>,
     bnDest = \<lparr>Call = ''APGRWO'', SSID = 0, Repeated = False\<rparr>, bnPath = [], bnDelay = 0, bnEvery = 0, bnSlot = -1, bnUseGps = False,
     bnLat = 0, bnLon = 0, bnAltFt = 0, bnComment = [], bnCommentCmd = [], bnFormat = [], bnAmbiguity = 0, bnMessaging = False,
     bnObjectName = [], bnCustomInfo = ''hello'', bnSmart = None, bnPHGPower = 0, bnEnabled = True, bnSendPath = ''is_only''\<rparr>"

lemma example_is_send:
  "fst (sendBeaconWith (example_beacon_env (Some (\<lambda>_. None))) example_is_beacon False) = None"
  "list_ex is_line (snd (sendBeaconWith (example_beacon_env (Some (\<lambda>_. None))) example_is_beacon False))"
  by code_simp+

theorem beacon_reported_iff_sent_witness:
  "(fst (sendBeaconWith (example_beacon_env (Some (\<lambda>_. None))) example_is_beacon False) = None)
   = (list_ex is_submission (snd (sendBeaconWith (example_beacon_env (Some (\<lambda>_. None))) example_is_beacon False))
      \<or> list_ex is_line (snd (sendBeaconWith (example_beacon_env (Some (\<lambda>_. None))) example_is_beacon False)))"
  by (rule beacon_reported_iff_sent[OF surjective_pairing, THEN conjunct1])

end
