(* ===== verification/Spec2Isabelle.thy ===== *)
theory Spec2Isabelle
  imports LAPB_Manager LAPB_Limits LAPB_Timer TX_Governor_Spec TX_Path RX_Fanout Digi_Props IGate_Props MSG_Expiry MSG_Delivery ACT_Answers ACT_Exec AGW_Props
    PKT_Tail MDM_Supervisor BCN_Timing BCN_Send
begin

text \<open>
  Verification library of graywolf (\<^verbatim>\<open>github.com/chrissnell/graywolf\<close>), an amateur-radio APRS station: a Go program beside an
  audio modem. The library models the Go program's core and proves what makes it correct. File names are below
  \<^verbatim>\<open>src/pkg\<close> unless they say otherwise.

  \<^bold>\<open>The program and its parts.\<close> Frames come from the modem or from KISS peers and go through the receive fan-out to the digipeater,
  the gateway to APRS-IS, the message router, the classifier of remote actions, the connected-mode sessions and the packet
  log. Everything that transmits (digipeater, gateway, messages, actions' replies, beacons, connected mode, KISS and AGWPE
  clients) submits frames to one transmit governor; its worker hands them to a dispatcher, which gives them to the modem
  bridge or to the transmit queues of KISS interfaces.

  \<^bold>\<open>Which theory models what.\<close>

  \<^item> Shared. \<^verbatim>\<open>Graywolf_Prelude\<close>: bytes, Go strings, durations, named collections. \<^verbatim>\<open>Go_Strings\<close>, \<^verbatim>\<open>Go_Text\<close>,
    \<^verbatim>\<open>Go_SHA1\<close>, \<^verbatim>\<open>Go_SHA256\<close>, \<^verbatim>\<open>Wire_Words\<close>: the functions of Go's standard library the sources call. \<^verbatim>\<open>Go_Heap\<close>:
    \<^verbatim>\<open>container/heap\<close>, with the locale \<open>go_order\<close>. \<^verbatim>\<open>Codec\<close>: the locales \<open>codec\<close> and \<open>stream_codec\<close>. \<^verbatim>\<open>Tap\<close>: the
    non-blocking send of subscriptions, locale \<open>lossy_tap\<close>. Each locale is interpreted on the definitions of the
    components: control fields, session frames, UI frames, KISS and AGWPE streams; the queues of governor and beacons;
    the subscriptions of packet log and carrier detect; the duplicate window.
  \<^item> AX.25 (\<^verbatim>\<open>ax25\<close>). \<^verbatim>\<open>AX25_Address\<close>, \<^verbatim>\<open>AX25_Frame\<close>, \<^verbatim>\<open>Callsign\<close> (\<^verbatim>\<open>callsign\<close>): parsers, printers and wire forms, with
    round trips.
  \<^item> Connected mode (\<^verbatim>\<open>ax25conn\<close>). \<^verbatim>\<open>LAPB_Control\<close>, \<^verbatim>\<open>LAPB_Frame\<close>: the codecs of both moduli. \<^verbatim>\<open>LAPB_State\<close>,
    \<^verbatim>\<open>LAPB_Transitions\<close>: the session record, the helpers and one definition per state handler, composed in
    \<open>handle\<close>. \<^verbatim>\<open>LAPB_Window\<close>, \<^verbatim>\<open>LAPB_Kick\<close>, \<^verbatim>\<open>LAPB_Backlog\<close>, \<^verbatim>\<open>LAPB_Session\<close>, \<^verbatim>\<open>LAPB_Handle\<close>: the session invariant and the
    two byte streams through every operation. \<^verbatim>\<open>LAPB_Link\<close>: the contract of a session. \<^verbatim>\<open>LAPB_Loop\<close>: the run loop as a step
    relation with concurrent timers and submitters. \<^verbatim>\<open>LAPB_Timer\<close>: the generation timers in their critical sections.
    \<^verbatim>\<open>LAPB_Manager\<close>: the session table. \<^verbatim>\<open>LAPB_Limits\<close>: the inputs and states outside the contract, each with a proof that
    it is.
  \<^item> Transmit governor (\<^verbatim>\<open>txgovernor\<close>, \<^verbatim>\<open>internal/dedup\<close>, \<^verbatim>\<open>internal/ratelimit\<close>). \<^verbatim>\<open>Dedup_Window\<close>; \<^verbatim>\<open>TX_Source\<close>; \<^verbatim>\<open>TX_Governor\<close>: submission and
    the worker's critical sections; \<^verbatim>\<open>TX_Governor_Inv\<close>, \<^verbatim>\<open>TX_Governor_Props\<close>, \<^verbatim>\<open>TX_Governor_Spec\<close>: the invariant along every
    interleaving, exactly-once handling, the rate caps and the refinement of a sorted queue.
  \<^item> KISS (\<^verbatim>\<open>kiss\<close>) and dispatch (\<^verbatim>\<open>app/txbackend\<close>, \<^verbatim>\<open>app/rxfanout.go\<close>). \<^verbatim>\<open>KISS_Framing\<close>, \<^verbatim>\<open>KISS_Queue\<close>, \<^verbatim>\<open>KISS_Server\<close>, \<^verbatim>\<open>TX_Dispatch\<close>,
    \<^verbatim>\<open>RX_Fanout\<close>; \<^verbatim>\<open>TX_Path\<close> composes governor, dispatcher, queue, framing and the peer's decoder.
  \<^item> Digipeater (\<^verbatim>\<open>digipeater\<close>). \<^verbatim>\<open>Digi_Blocklist\<close>, \<^verbatim>\<open>Digipeater\<close>, \<^verbatim>\<open>Digi_Props\<close>.
  \<^item> Gateway (\<^verbatim>\<open>igate\<close>, \<^verbatim>\<open>aprs\<close>). \<^verbatim>\<open>APRS_Packet\<close>, \<^verbatim>\<open>IGate_Lines\<close>, \<^verbatim>\<open>IGate_Heard\<close>, \<^verbatim>\<open>IGate_Filters\<close>, \<^verbatim>\<open>IGate\<close>, \<^verbatim>\<open>IGate_Props\<close>.
  \<^item> Messages (\<^verbatim>\<open>messages\<close>). \<^verbatim>\<open>MSG_Calls\<close>, \<^verbatim>\<open>MSG_Ring\<close>, \<^verbatim>\<open>MSG_Store\<close>, \<^verbatim>\<open>MSG_Sender\<close>, \<^verbatim>\<open>MSG_Retry\<close>, \<^verbatim>\<open>MSG_Router\<close>: the operations.
    \<^verbatim>\<open>MSG_Steps\<close>, \<^verbatim>\<open>MSG_Budget\<close>, \<^verbatim>\<open>MSG_Runs\<close>: what holds after any run of them. \<^verbatim>\<open>MSG_Expiry\<close>: the retry loop in time.
    \<^verbatim>\<open>MSG_Exchange\<close>, \<^verbatim>\<open>MSG_Delivery\<close>: two stations.
  \<^item> Remote actions (\<^verbatim>\<open>actions\<close>). \<^verbatim>\<open>ACT_Parse\<close>, \<^verbatim>\<open>ACT_OTP\<close>, \<^verbatim>\<open>ACT_Runner\<close>, \<^verbatim>\<open>ACT_Reply\<close>, \<^verbatim>\<open>ACT_Classify\<close>, \<^verbatim>\<open>ACT_Answers\<close>, \<^verbatim>\<open>ACT_Exec\<close>.
  \<^item> AGWPE server (\<^verbatim>\<open>agw\<close>), on the session manager. \<^verbatim>\<open>AGW_Wire\<close>, \<^verbatim>\<open>AGW_Server\<close>, \<^verbatim>\<open>AGW_Props\<close>.
  \<^item> Packet log (\<^verbatim>\<open>packetlog\<close>). \<^verbatim>\<open>PKT_Log\<close>: the ring; \<^verbatim>\<open>PKT_Tail\<close>: queries over a history, and subscribers.
  \<^item> Modem bridge (\<^verbatim>\<open>modembridge\<close>, \<^verbatim>\<open>internal/backoff\<close>). \<^verbatim>\<open>MDM_Frame\<close>, \<^verbatim>\<open>MDM_Requests\<close>, \<^verbatim>\<open>MDM_Watchdog\<close>, \<^verbatim>\<open>MDM_Bridge\<close>,
    \<^verbatim>\<open>MDM_Supervisor\<close>.
  \<^item> Beacons (\<^verbatim>\<open>beacon\<close>). \<^verbatim>\<open>BCN_Schedule\<close>, \<^verbatim>\<open>BCN_Timing\<close>, \<^verbatim>\<open>BCN_Send\<close>.

  \<^bold>\<open>How the code is rendered.\<close> A struct is a record, an enumeration a datatype, a Go string a list of its bytes, a byte slice a
  list of 8-bit words; fixed-width integers are words where they wrap, integers where the code keeps them small. Errors
  are values of a sum type with one constructor per error of the source. What an operation does outside its own state is a log
  of effects, in order. A Go map is an association list where its size or order matters, a function otherwise.
  Mutexes and channels become step relations whose steps are critical sections and channel operations: governor, KISS queue,
  run loop, timers, packet log, watchdog and action queues hold under every interleaving of these steps.

  \<^bold>\<open>What is assumed.\<close> The operations of the message service, of the session manager, of the AGWPE server and of the gateway are taken
  to run one after the other; a publication of carrier detect is one step; where the code's interleavings inside an
  operation break a property, a lemma shows it (\<open>stale_retry_reopens\<close>, \<open>racing_calls_unattended\<close>, \<open>tail_close_panics\<close>). Time is an
  integer of nanoseconds without overflow, except where the code's own arithmetic wraps (the round-trip timer). Speeds and factors
  that are floating point in the code are rationals. Databases and allocations succeed. What is not under
  \<^verbatim>\<open>src/\<close> or is the world outside (sink and socket verdicts, random numbers, compiled regular expressions, the one-time-password
  and protocol-buffer libraries, processes and HTTP) is an argument, or a field of an environment record, and a theorem says what it needs
  of it.

  \<^bold>\<open>Bounds and termination.\<close> Three loops of the session need not end for arbitrary states and are \<^theory_text>\<open>partial_function (option)\<close>:
  \<open>ack_loop\<close>, \<open>requeue_loop\<close> and \<open>kick_loop\<close>; \<open>handle_session_inv\<close> proves that they end on the events \<open>ev_ok\<close> admits, \<open>rebind_hangs\<close>
  and \<open>foreign_nr_hangs\<close> that others do not. The scan for a free message identifier has 999 steps, as many as there are identifiers.
  The nesting of third-party packets is bounded as in the code. All other functions are total by structural recursion or a measure.

  \<^bold>\<open>What is proved.\<close> The properties are numbered \<open>C1\<close> to \<open>C40\<close> where they stand. Connected mode: \<open>C1\<close>--\<open>C7\<close>, invariant,
  byte streams in both directions, clocks, retry limit, timers, caps. Addresses: \<open>C8\<close>. Governor: \<open>C9\<close>--\<open>C11\<close>. Digipeater:
  \<open>C12\<close>, \<open>C13\<close>. KISS and the transmit path: \<open>C14\<close>--\<open>C16\<close>. Gateway: \<open>C17\<close>--\<open>C20\<close>. Messages: \<open>C21\<close>--\<open>C26\<close>. Actions: \<open>C27\<close>--\<open>C30\<close>,
  \<open>C33\<close>. AGWPE: \<open>C31\<close>, \<open>C32\<close>. Packet log: \<open>C34\<close>, \<open>C35\<close>. Modem bridge: \<open>C36\<close>, \<open>C37\<close>. Beacons: \<open>C38\<close>--\<open>C40\<close>. A text before each
  says what it covers and what its conditions exclude; where the code misbehaves outside them, a lemma beside it shows how.

  \<^bold>\<open>What is not modelled.\<close> The parsers and encoders of positions, weather, telemetry, objects and Mic-E, which compute in floating
  point and fill display fields; sockets, serial ports, processes and their supervision; the configuration database; the web
  interface with its authentication; GPS, maps, history and the update check; the modem itself, which is another
  program. Logging and metrics appear only where a caller can see them.
\<close>

end
